(* ===== verification/Emu_Prelude.thy ===== *)
theory Emu_Prelude
  imports Main "HOL-Library.Word"
begin

text \<open>
  The prelude of the development: the machine-integer types the emulator's sources use, the
  collections of simplification rules the component theories fill, sequential composition of
  state updates, and the generic facts on words that more than one component needs.
\<close>

unbundle bit_operations_syntax

section \<open>Machine integers and rule collections\<close>

type_synonym u8 = "8 word"
type_synonym u16 = "16 word"
type_synonym u32 = "32 word"
type_synonym u64 = "64 word"

named_theorems flag_masks
  \<open>the numeric values of the bit masks of the FLAGS register\<close>

named_theorems lf_view
  \<open>what each width view of the lazy-flag operands reads and what each store keeps\<close>

named_theorems pic_simps
  \<open>definitions of the interrupt controller's helpers, unfolded in its invariant proofs\<close>

named_theorems dma_simps
  \<open>definitions of the DMA channel's helpers\<close>

section \<open>Statement sequences\<close>

text \<open>
  \<open>seq_do [f1, f2, ...] s\<close> runs the statements \<open>f1; f2; ...\<close> in order from state \<open>s\<close>. It is the
  shape of a straight-line block of assignments to global variables.
\<close>

definition seq_do :: "('s \<Rightarrow> 's) list \<Rightarrow> 's \<Rightarrow> 's" where
  "seq_do fs s = fold (\<lambda>f t. f t) fs s"

lemma seq_do_Nil [simp]: "seq_do [] s = s"
  by (simp add: seq_do_def)

lemma seq_do_Cons [simp]: "seq_do (f # fs) s = seq_do fs (f s)"
  by (simp add: seq_do_def)

lemma seq_do_inv:
  assumes "\<And>f t. f \<in> set fs \<Longrightarrow> P t \<Longrightarrow> P (f t)" and "P s"
  shows "P (seq_do fs s)"
  using assms by (induction fs arbitrary: s) auto

section \<open>Words\<close>

lemma word_and_msb_ne_0:
  fixes x :: "'a::len word"
  shows "x AND 2 ^ (LENGTH('a) - 1) \<noteq> 0 \<longleftrightarrow> sint x < 0"
  by (simp add: and_exp_eq_0_iff_not_bit bit_last_iff)

lemma word_masked_or_self:
  fixes x m :: "'a::len word"
  shows "(x OR m) AND m = m" and "(x AND NOT m) AND m = 0"
  by (auto simp: bit_eq_iff bit_simps)

lemma word_masked_disjoint:
  fixes x m m' :: "'a::len word"
  assumes "m' AND m = 0"
  shows "(x OR m') AND m = x AND m" and "(x AND NOT m') AND m = x AND m"
proof -
  have dis: "\<not> (bit m' n \<and> bit m n)" for n
    using assms by (metis bit_0_eq bit_and_iff bot_apply bot_bool_def)
  show "(x OR m') AND m = x AND m" and "(x AND NOT m') AND m = x AND m"
    using dis by (auto simp: bit_eq_iff bit_simps)
qed

lemma word_set_masked:
  fixes x m :: "'a::len word"
  shows "(x AND NOT m) OR (if b then m else 0) = (if b then x OR m else x AND NOT m)"
  by (auto simp: bit_eq_iff [where ?'a = "'a word"] bit_simps)

lemma word_and_power:
  fixes v :: "'a::len word"
  assumes "n < LENGTH('a)"
  shows "v AND 2 ^ n = (if bit v n then 2 ^ n else 0)"
  using assms by (auto simp: bit_eq_iff [where ?'a = "'a word"] bit_simps)

lemma ucast_up_eq_0:
  fixes x :: "'a::len word"
  assumes "LENGTH('a) \<le> LENGTH('b::len)"
  shows "ucast x = (0::'b word) \<longleftrightarrow> x = 0"
proof
  assume z: "ucast x = (0::'b word)"
  show "x = 0"
  proof (rule bit_word_eqI)
    fix n assume "n < LENGTH('a)"
    with assms z show "bit x n = bit 0 n"
      by (metis bit_0_eq bit_ucast_iff order_less_le_trans)
  qed
qed simp

lemma ucast_ucast_low8: "(ucast (ucast (x::u32) :: u16) :: u8) = ucast x"
  by (rule bit_word_eqI) (simp add: bit_simps)

lemma minus_low_nibble:
  fixes x :: "'a::len word"
  shows "(- x) AND 0x0f = 0 \<longleftrightarrow> x AND 0x0f = 0"
proof -
  have m: "y AND 0x0f = take_bit 4 y" for y :: "'a word"
    by (simp add: take_bit_eq_mask mask_numeral)
  show ?thesis by (simp add: m take_bit_eq_0_iff)
qed

lemma and_1_bits: "(x::'a::len word) AND 1 = 0 \<longleftrightarrow> \<not> bit x 0"
  using and_exp_eq_0_iff_not_bit [of x 0] by simp

lemma and_1f: "y AND 0x1f = take_bit 5 y" for y :: "'a::len word"
  by (simp add: take_bit_eq_mask mask_numeral)

lemma ucast_and_1f:
  fixes x :: "'b::len word"
  assumes "5 \<le> LENGTH('a::len)" and "5 \<le> LENGTH('b)"
  shows "(ucast x :: 'a word) AND 0x1f = 1 \<longleftrightarrow> x AND 0x1f = 1"
  unfolding and_1f word_unat_eq_iff
  using assms by (simp add: unsigned_take_bit_eq unsigned_ucast_eq min_absorb1)

end
