(* ===== verification/Cpu_Flags.thy ===== *)
theory Cpu_Flags
  imports Emu_Prelude
begin

text \<open>
  The lazy flags of the CPU core (\<^verbatim>\<open>src/cpu/lazyflags.h\<close>, \<^verbatim>\<open>src/cpu/flags.cpp\<close>, the flag
  constants of \<^verbatim>\<open>src/cpu/registers.h\<close> and the flag setters of \<^verbatim>\<open>src/cpu/cpu.cpp\<close>).

  An arithmetic instruction does not compute FLAGS: it stores its operands, its result and its
  kind in \<^verbatim>\<open>lflags\<close>, and \<open>get_CF\<close>, \<open>get_AF\<close>, \<open>get_ZF\<close>, \<open>get_SF\<close>, \<open>get_OF\<close>, \<open>get_PF\<close> derive a
  flag on demand. \<open>FillFlags\<close> and \<open>FillFlagsNoCFOF\<close> write the derived flags into the register.
  This theory holds the definitions; \<^verbatim>\<open>Lazy_Width\<close> proves what they compute.
\<close>

unbundle bit_operations_syntax

section \<open>State\<close>

text \<open>The kinds of flag-changing instructions, in the order of the enumeration.\<close>

datatype (plugins only: code size) lftype =
    t_UNKNOWN | t_ADDb | t_ADDw | t_ADDd | t_ORb | t_ORw | t_ORd | t_ADCb | t_ADCw
     | t_ADCd | t_SBBb | t_SBBw | t_SBBd | t_ANDb | t_ANDw | t_ANDd | t_SUBb | t_SUBw
     | t_SUBd | t_XORb | t_XORw | t_XORd | t_CMPb | t_CMPw | t_CMPd | t_INCb | t_INCw
     | t_INCd | t_DECb | t_DECw | t_DECd | t_TESTb | t_TESTw | t_TESTd | t_SHLb | t_SHLw
     | t_SHLd | t_SHRb | t_SHRw | t_SHRd | t_SARb | t_SARw | t_SARd | t_ROLb | t_ROLw
     | t_ROLd | t_RORb | t_RORw | t_RORd | t_RCLb | t_RCLw | t_RCLd | t_RCRb | t_RCRw
     | t_RCRd | t_NEGb | t_NEGw | t_NEGd | t_DSHLw | t_DSHLd | t_DSHRw | t_DSHRd | t_MUL
     | t_DIV | t_NOTDONE | t_LASTFLAG

text \<open>
  \<^verbatim>\<open>struct LazyFlags\<close>. The three \<^verbatim>\<open>GenReg32\<close> unions are kept as their 32-bit member; the byte and
  word members are views of its low bits.
\<close>

record LazyFlags =
  lf_var1d :: u32
  lf_var2d :: u32
  lf_resd :: u32
  lf_type :: lftype
  lf_oldcf :: u8

text \<open>
  The part of the CPU the flag code touches: FLAGS, the current privilege level, the string
  direction (a 64-bit \<^verbatim>\<open>Bits\<close>), the extra toggle mask of the CPU model, and the registers the
  instruction bodies of \<^verbatim>\<open>instructions.h\<close> use implicitly.
\<close>

record cpu = LazyFlags +
  reg_flags :: u32
  reg_eax :: u32
  reg_edx :: u32
  cpl :: nat
  direction :: u64
  extflags_toggle :: u32

definition lf_var1b :: "'a LazyFlags_scheme \<Rightarrow> u8" where "lf_var1b s = ucast (lf_var1d s)"
definition lf_var2b :: "'a LazyFlags_scheme \<Rightarrow> u8" where "lf_var2b s = ucast (lf_var2d s)"
definition lf_resb :: "'a LazyFlags_scheme \<Rightarrow> u8" where "lf_resb s = ucast (lf_resd s)"
definition lf_var1w :: "'a LazyFlags_scheme \<Rightarrow> u16" where "lf_var1w s = ucast (lf_var1d s)"
definition lf_var2w :: "'a LazyFlags_scheme \<Rightarrow> u16" where "lf_var2w s = ucast (lf_var2d s)"
definition lf_resw :: "'a LazyFlags_scheme \<Rightarrow> u16" where "lf_resw s = ucast (lf_resd s)"

text \<open>
  The helper asserts that the count is positive; with assertions compiled out the 8-bit
  subtraction wraps, as here.
\<close>

definition lf_var2b_minus_one :: "'a LazyFlags_scheme \<Rightarrow> u8" where
  "lf_var2b_minus_one s = lf_var2b s - 1"

section \<open>The FLAGS register\<close>

definition FLAG_CF :: u32 where "FLAG_CF = push_bit 0 1"
definition FLAG_PF :: u32 where "FLAG_PF = push_bit 2 1"
definition FLAG_AF :: u32 where "FLAG_AF = push_bit 4 1"
definition FLAG_ZF :: u32 where "FLAG_ZF = push_bit 6 1"
definition FLAG_SF :: u32 where "FLAG_SF = push_bit 7 1"
definition FLAG_OF :: u32 where "FLAG_OF = push_bit 11 1"
definition FLAG_TF :: u32 where "FLAG_TF = push_bit 8 1"
definition FLAG_IF :: u32 where "FLAG_IF = push_bit 9 1"
definition FLAG_DF :: u32 where "FLAG_DF = push_bit 10 1"
definition FLAG_IOPL :: u32 where "FLAG_IOPL = push_bit 12 1 OR push_bit 13 1"
definition FLAG_NT :: u32 where "FLAG_NT = push_bit 14 1"

definition FMASK_TEST :: u32 where
  "FMASK_TEST = FLAG_CF OR FLAG_PF OR FLAG_AF OR FLAG_ZF OR FLAG_SF OR FLAG_OF"

definition FMASK_NORMAL :: u32 where
  "FMASK_NORMAL = FMASK_TEST OR FLAG_DF OR FLAG_TF OR FLAG_IF"

definition FMASK_ALL :: u32 where
  "FMASK_ALL = FMASK_NORMAL OR FLAG_IOPL OR FLAG_NT"

text \<open>\<^verbatim>\<open>SETFLAGBIT(TYPE,TEST)\<close> and \<^verbatim>\<open>GETFLAG(TYPE)\<close>, with the flag's mask as an argument.\<close>

definition SETFLAGBIT :: "u32 \<Rightarrow> bool \<Rightarrow> 'a cpu_scheme \<Rightarrow> 'a cpu_scheme" where
  "SETFLAGBIT m b s =
     (if b then s\<lparr>reg_flags := reg_flags s OR m\<rparr> else s\<lparr>reg_flags := reg_flags s AND NOT m\<rparr>)"

definition GETFLAG :: "u32 \<Rightarrow> 'a cpu_scheme \<Rightarrow> u32" where
  "GETFLAG m s = reg_flags s AND m"

text \<open>\<^verbatim>\<open>CPU_SetFlags\<close>: the direction is computed in 32-bit unsigned arithmetic and then widened.\<close>

definition CPU_SetFlags :: "u32 \<Rightarrow> u32 \<Rightarrow> 'a cpu_scheme \<Rightarrow> 'a cpu_scheme" where
  "CPU_SetFlags w msk s =
     (let msk' = msk OR extflags_toggle s;
          fl = (reg_flags s AND NOT msk') OR (w AND msk') OR 2
      in s\<lparr>reg_flags := fl, direction := ucast ((1::u32) - drop_bit 9 (fl AND FLAG_DF))\<rparr>)"

definition CPU_SetFlagsd :: "u32 \<Rightarrow> 'a cpu_scheme \<Rightarrow> 'a cpu_scheme" where
  "CPU_SetFlagsd w s = CPU_SetFlags w (if cpl s \<noteq> 0 then FMASK_NORMAL else FMASK_ALL) s"

definition CPU_SetFlagsw :: "u32 \<Rightarrow> 'a cpu_scheme \<Rightarrow> 'a cpu_scheme" where
  "CPU_SetFlagsw w s =
     CPU_SetFlags w ((if cpl s \<noteq> 0 then FMASK_NORMAL else FMASK_ALL) AND 0xffff) s"

section \<open>The flag getters\<close>

text \<open>
  A getter returns a 32-bit value whose callers only test it against zero. A C++ comparison is
  \<open>of_bool\<close>; an 8- or 16-bit operand is promoted with \<open>ucast\<close>. The shift counts the sources use are
  below the width (the instruction bodies mask them with 31 and skip a zero count); outside that
  range the C++ shift is undefined and the value here has no meaning.
\<close>

definition get_CF :: "'a cpu_scheme \<Rightarrow> u32" where
  "get_CF s = (case lf_type s of
       t_UNKNOWN \<Rightarrow> GETFLAG FLAG_CF s
     | t_INCb \<Rightarrow> GETFLAG FLAG_CF s
     | t_INCw \<Rightarrow> GETFLAG FLAG_CF s
     | t_INCd \<Rightarrow> GETFLAG FLAG_CF s
     | t_DECb \<Rightarrow> GETFLAG FLAG_CF s
     | t_DECw \<Rightarrow> GETFLAG FLAG_CF s
     | t_DECd \<Rightarrow> GETFLAG FLAG_CF s
     | t_MUL \<Rightarrow> GETFLAG FLAG_CF s
     | t_ADDb \<Rightarrow> of_bool (lf_resb s < lf_var1b s)
     | t_ADDw \<Rightarrow> of_bool (lf_resw s < lf_var1w s)
     | t_ADDd \<Rightarrow> of_bool (lf_resd s < lf_var1d s)
     | t_ADCb \<Rightarrow>
         of_bool (lf_resb s < lf_var1b s \<or> lf_oldcf s \<noteq> 0 \<and> lf_resb s = lf_var1b s)
     | t_ADCw \<Rightarrow>
         of_bool (lf_resw s < lf_var1w s \<or> lf_oldcf s \<noteq> 0 \<and> lf_resw s = lf_var1w s)
     | t_ADCd \<Rightarrow>
         of_bool (lf_resd s < lf_var1d s \<or> lf_oldcf s \<noteq> 0 \<and> lf_resd s = lf_var1d s)
     | t_SBBb \<Rightarrow>
         of_bool (lf_var1b s < lf_resb s \<or> lf_oldcf s \<noteq> 0 \<and> lf_var2b s = 0xff)
     | t_SBBw \<Rightarrow>
         of_bool (lf_var1w s < lf_resw s \<or> lf_oldcf s \<noteq> 0 \<and> lf_var2w s = 0xffff)
     | t_SBBd \<Rightarrow>
         of_bool (lf_var1d s < lf_resd s \<or> lf_oldcf s \<noteq> 0 \<and> lf_var2d s = 0xffffffff)
     | t_SUBb \<Rightarrow> of_bool (lf_var1b s < lf_var2b s)
     | t_CMPb \<Rightarrow> of_bool (lf_var1b s < lf_var2b s)
     | t_SUBw \<Rightarrow> of_bool (lf_var1w s < lf_var2w s)
     | t_CMPw \<Rightarrow> of_bool (lf_var1w s < lf_var2w s)
     | t_SUBd \<Rightarrow> of_bool (lf_var1d s < lf_var2d s)
     | t_CMPd \<Rightarrow> of_bool (lf_var1d s < lf_var2d s)
     | t_SHLb \<Rightarrow>
         (if 8 < lf_var2b s then 0 else ucast (drop_bit (8 - unat (lf_var2b s)) (lf_var1b s)) AND 1)
     | t_SHLw \<Rightarrow>
         (if 16 < lf_var2b s then 0 else ucast (drop_bit (16 - unat (lf_var2b s)) (lf_var1w s)) AND 1)
     | t_SHLd \<Rightarrow> drop_bit (32 - unat (lf_var2b s)) (lf_var1d s) AND 1
     | t_DSHLw \<Rightarrow> drop_bit (32 - unat (lf_var2b s)) (lf_var1d s) AND 1
     | t_DSHLd \<Rightarrow> drop_bit (32 - unat (lf_var2b s)) (lf_var1d s) AND 1
     | t_RCRb \<Rightarrow> ucast (drop_bit (unat (lf_var2b_minus_one s)) (lf_var1b s)) AND 1
     | t_SHRb \<Rightarrow> ucast (drop_bit (unat (lf_var2b_minus_one s)) (lf_var1b s)) AND 1
     | t_RCRw \<Rightarrow> ucast (drop_bit (unat (lf_var2b_minus_one s)) (lf_var1w s)) AND 1
     | t_SHRw \<Rightarrow> ucast (drop_bit (unat (lf_var2b_minus_one s)) (lf_var1w s)) AND 1
     | t_RCRd \<Rightarrow> drop_bit (unat (lf_var2b_minus_one s)) (lf_var1d s) AND 1
     | t_SHRd \<Rightarrow> drop_bit (unat (lf_var2b_minus_one s)) (lf_var1d s) AND 1
     | t_DSHRw \<Rightarrow> drop_bit (unat (lf_var2b_minus_one s)) (lf_var1d s) AND 1
     | t_DSHRd \<Rightarrow> drop_bit (unat (lf_var2b_minus_one s)) (lf_var1d s) AND 1
     | t_SARb \<Rightarrow> ucast (signed_drop_bit (unat (lf_var2b_minus_one s)) (lf_var1b s)) AND 1
     | t_SARw \<Rightarrow> ucast (signed_drop_bit (unat (lf_var2b_minus_one s)) (lf_var1w s)) AND 1
     | t_SARd \<Rightarrow> signed_drop_bit (unat (lf_var2b_minus_one s)) (lf_var1d s) AND 1
     | t_NEGb \<Rightarrow> ucast (lf_var1b s)
     | t_NEGw \<Rightarrow> ucast (lf_var1w s)
     | t_NEGd \<Rightarrow> lf_var1d s
     | t_ORb \<Rightarrow> 0
     | t_ORw \<Rightarrow> 0
     | t_ORd \<Rightarrow> 0
     | t_ANDb \<Rightarrow> 0
     | t_ANDw \<Rightarrow> 0
     | t_ANDd \<Rightarrow> 0
     | t_XORb \<Rightarrow> 0
     | t_XORw \<Rightarrow> 0
     | t_XORd \<Rightarrow> 0
     | t_TESTb \<Rightarrow> 0
     | t_TESTw \<Rightarrow> 0
     | t_TESTd \<Rightarrow> 0
     | t_DIV \<Rightarrow> 0
     | _ \<Rightarrow> 0)"

definition get_AF :: "'a cpu_scheme \<Rightarrow> u32" where
  "get_AF s = (case lf_type s of
       t_UNKNOWN \<Rightarrow> GETFLAG FLAG_AF s
     | t_ADDb \<Rightarrow> ucast ((lf_var1b s XOR lf_var2b s XOR lf_resb s) AND 0x10)
     | t_ADCb \<Rightarrow> ucast ((lf_var1b s XOR lf_var2b s XOR lf_resb s) AND 0x10)
     | t_SBBb \<Rightarrow> ucast ((lf_var1b s XOR lf_var2b s XOR lf_resb s) AND 0x10)
     | t_SUBb \<Rightarrow> ucast ((lf_var1b s XOR lf_var2b s XOR lf_resb s) AND 0x10)
     | t_CMPb \<Rightarrow> ucast ((lf_var1b s XOR lf_var2b s XOR lf_resb s) AND 0x10)
     | t_ADDw \<Rightarrow> ucast ((lf_var1w s XOR lf_var2w s XOR lf_resw s) AND 0x10)
     | t_ADCw \<Rightarrow> ucast ((lf_var1w s XOR lf_var2w s XOR lf_resw s) AND 0x10)
     | t_SBBw \<Rightarrow> ucast ((lf_var1w s XOR lf_var2w s XOR lf_resw s) AND 0x10)
     | t_SUBw \<Rightarrow> ucast ((lf_var1w s XOR lf_var2w s XOR lf_resw s) AND 0x10)
     | t_CMPw \<Rightarrow> ucast ((lf_var1w s XOR lf_var2w s XOR lf_resw s) AND 0x10)
     | t_ADDd \<Rightarrow> (lf_var1d s XOR lf_var2d s XOR lf_resd s) AND 0x10
     | t_ADCd \<Rightarrow> (lf_var1d s XOR lf_var2d s XOR lf_resd s) AND 0x10
     | t_SBBd \<Rightarrow> (lf_var1d s XOR lf_var2d s XOR lf_resd s) AND 0x10
     | t_SUBd \<Rightarrow> (lf_var1d s XOR lf_var2d s XOR lf_resd s) AND 0x10
     | t_CMPd \<Rightarrow> (lf_var1d s XOR lf_var2d s XOR lf_resd s) AND 0x10
     | t_INCb \<Rightarrow> of_bool (lf_resb s AND 0x0f = 0)
     | t_INCw \<Rightarrow> of_bool (lf_resw s AND 0x0f = 0)
     | t_INCd \<Rightarrow> of_bool (lf_resd s AND 0x0f = 0)
     | t_DECb \<Rightarrow> of_bool (lf_resb s AND 0x0f = 0x0f)
     | t_DECw \<Rightarrow> of_bool (lf_resw s AND 0x0f = 0x0f)
     | t_DECd \<Rightarrow> of_bool (lf_resd s AND 0x0f = 0x0f)
     | t_NEGb \<Rightarrow> ucast (lf_var1b s AND 0x0f)
     | t_NEGw \<Rightarrow> ucast (lf_var1w s AND 0x0f)
     | t_NEGd \<Rightarrow> lf_var1d s AND 0x0f
     | t_SHLb \<Rightarrow> ucast (lf_var2b s AND 0x1f)
     | t_SHRb \<Rightarrow> ucast (lf_var2b s AND 0x1f)
     | t_SARb \<Rightarrow> ucast (lf_var2b s AND 0x1f)
     | t_SHLw \<Rightarrow> ucast (lf_var2w s AND 0x1f)
     | t_SHRw \<Rightarrow> ucast (lf_var2w s AND 0x1f)
     | t_SARw \<Rightarrow> ucast (lf_var2w s AND 0x1f)
     | t_SHLd \<Rightarrow> lf_var2d s AND 0x1f
     | t_SHRd \<Rightarrow> lf_var2d s AND 0x1f
     | t_SARd \<Rightarrow> lf_var2d s AND 0x1f
     | t_ORb \<Rightarrow> 0
     | t_ORw \<Rightarrow> 0
     | t_ORd \<Rightarrow> 0
     | t_ANDb \<Rightarrow> 0
     | t_ANDw \<Rightarrow> 0
     | t_ANDd \<Rightarrow> 0
     | t_XORb \<Rightarrow> 0
     | t_XORw \<Rightarrow> 0
     | t_XORd \<Rightarrow> 0
     | t_TESTb \<Rightarrow> 0
     | t_TESTw \<Rightarrow> 0
     | t_TESTd \<Rightarrow> 0
     | t_DSHLw \<Rightarrow> 0
     | t_DSHLd \<Rightarrow> 0
     | t_DSHRw \<Rightarrow> 0
     | t_DSHRd \<Rightarrow> 0
     | t_DIV \<Rightarrow> 0
     | t_MUL \<Rightarrow> 0
     | _ \<Rightarrow> 0)"

definition get_ZF :: "'a cpu_scheme \<Rightarrow> u32" where
  "get_ZF s = (case lf_type s of
       t_UNKNOWN \<Rightarrow> GETFLAG FLAG_ZF s
     | t_ADDb \<Rightarrow> of_bool (lf_resb s = 0)
     | t_ORb \<Rightarrow> of_bool (lf_resb s = 0)
     | t_ADCb \<Rightarrow> of_bool (lf_resb s = 0)
     | t_SBBb \<Rightarrow> of_bool (lf_resb s = 0)
     | t_ANDb \<Rightarrow> of_bool (lf_resb s = 0)
     | t_XORb \<Rightarrow> of_bool (lf_resb s = 0)
     | t_SUBb \<Rightarrow> of_bool (lf_resb s = 0)
     | t_CMPb \<Rightarrow> of_bool (lf_resb s = 0)
     | t_INCb \<Rightarrow> of_bool (lf_resb s = 0)
     | t_DECb \<Rightarrow> of_bool (lf_resb s = 0)
     | t_TESTb \<Rightarrow> of_bool (lf_resb s = 0)
     | t_SHLb \<Rightarrow> of_bool (lf_resb s = 0)
     | t_SHRb \<Rightarrow> of_bool (lf_resb s = 0)
     | t_SARb \<Rightarrow> of_bool (lf_resb s = 0)
     | t_NEGb \<Rightarrow> of_bool (lf_resb s = 0)
     | t_ADDw \<Rightarrow> of_bool (lf_resw s = 0)
     | t_ORw \<Rightarrow> of_bool (lf_resw s = 0)
     | t_ADCw \<Rightarrow> of_bool (lf_resw s = 0)
     | t_SBBw \<Rightarrow> of_bool (lf_resw s = 0)
     | t_ANDw \<Rightarrow> of_bool (lf_resw s = 0)
     | t_XORw \<Rightarrow> of_bool (lf_resw s = 0)
     | t_SUBw \<Rightarrow> of_bool (lf_resw s = 0)
     | t_CMPw \<Rightarrow> of_bool (lf_resw s = 0)
     | t_INCw \<Rightarrow> of_bool (lf_resw s = 0)
     | t_DECw \<Rightarrow> of_bool (lf_resw s = 0)
     | t_TESTw \<Rightarrow> of_bool (lf_resw s = 0)
     | t_SHLw \<Rightarrow> of_bool (lf_resw s = 0)
     | t_SHRw \<Rightarrow> of_bool (lf_resw s = 0)
     | t_SARw \<Rightarrow> of_bool (lf_resw s = 0)
     | t_DSHLw \<Rightarrow> of_bool (lf_resw s = 0)
     | t_DSHRw \<Rightarrow> of_bool (lf_resw s = 0)
     | t_NEGw \<Rightarrow> of_bool (lf_resw s = 0)
     | t_ADDd \<Rightarrow> of_bool (lf_resd s = 0)
     | t_ORd \<Rightarrow> of_bool (lf_resd s = 0)
     | t_ADCd \<Rightarrow> of_bool (lf_resd s = 0)
     | t_SBBd \<Rightarrow> of_bool (lf_resd s = 0)
     | t_ANDd \<Rightarrow> of_bool (lf_resd s = 0)
     | t_XORd \<Rightarrow> of_bool (lf_resd s = 0)
     | t_SUBd \<Rightarrow> of_bool (lf_resd s = 0)
     | t_CMPd \<Rightarrow> of_bool (lf_resd s = 0)
     | t_INCd \<Rightarrow> of_bool (lf_resd s = 0)
     | t_DECd \<Rightarrow> of_bool (lf_resd s = 0)
     | t_TESTd \<Rightarrow> of_bool (lf_resd s = 0)
     | t_SHLd \<Rightarrow> of_bool (lf_resd s = 0)
     | t_SHRd \<Rightarrow> of_bool (lf_resd s = 0)
     | t_SARd \<Rightarrow> of_bool (lf_resd s = 0)
     | t_DSHLd \<Rightarrow> of_bool (lf_resd s = 0)
     | t_DSHRd \<Rightarrow> of_bool (lf_resd s = 0)
     | t_NEGd \<Rightarrow> of_bool (lf_resd s = 0)
     | t_DIV \<Rightarrow> 0
     | t_MUL \<Rightarrow> 0
     | _ \<Rightarrow> 0)"

definition get_SF :: "'a cpu_scheme \<Rightarrow> u32" where
  "get_SF s = (case lf_type s of
       t_UNKNOWN \<Rightarrow> GETFLAG FLAG_SF s
     | t_ADDb \<Rightarrow> ucast (lf_resb s AND 0x80)
     | t_ORb \<Rightarrow> ucast (lf_resb s AND 0x80)
     | t_ADCb \<Rightarrow> ucast (lf_resb s AND 0x80)
     | t_SBBb \<Rightarrow> ucast (lf_resb s AND 0x80)
     | t_ANDb \<Rightarrow> ucast (lf_resb s AND 0x80)
     | t_XORb \<Rightarrow> ucast (lf_resb s AND 0x80)
     | t_SUBb \<Rightarrow> ucast (lf_resb s AND 0x80)
     | t_CMPb \<Rightarrow> ucast (lf_resb s AND 0x80)
     | t_INCb \<Rightarrow> ucast (lf_resb s AND 0x80)
     | t_DECb \<Rightarrow> ucast (lf_resb s AND 0x80)
     | t_TESTb \<Rightarrow> ucast (lf_resb s AND 0x80)
     | t_SHLb \<Rightarrow> ucast (lf_resb s AND 0x80)
     | t_SHRb \<Rightarrow> ucast (lf_resb s AND 0x80)
     | t_SARb \<Rightarrow> ucast (lf_resb s AND 0x80)
     | t_NEGb \<Rightarrow> ucast (lf_resb s AND 0x80)
     | t_ADDw \<Rightarrow> ucast (lf_resw s AND 0x8000)
     | t_ORw \<Rightarrow> ucast (lf_resw s AND 0x8000)
     | t_ADCw \<Rightarrow> ucast (lf_resw s AND 0x8000)
     | t_SBBw \<Rightarrow> ucast (lf_resw s AND 0x8000)
     | t_ANDw \<Rightarrow> ucast (lf_resw s AND 0x8000)
     | t_XORw \<Rightarrow> ucast (lf_resw s AND 0x8000)
     | t_SUBw \<Rightarrow> ucast (lf_resw s AND 0x8000)
     | t_CMPw \<Rightarrow> ucast (lf_resw s AND 0x8000)
     | t_INCw \<Rightarrow> ucast (lf_resw s AND 0x8000)
     | t_DECw \<Rightarrow> ucast (lf_resw s AND 0x8000)
     | t_TESTw \<Rightarrow> ucast (lf_resw s AND 0x8000)
     | t_SHLw \<Rightarrow> ucast (lf_resw s AND 0x8000)
     | t_SHRw \<Rightarrow> ucast (lf_resw s AND 0x8000)
     | t_SARw \<Rightarrow> ucast (lf_resw s AND 0x8000)
     | t_DSHLw \<Rightarrow> ucast (lf_resw s AND 0x8000)
     | t_DSHRw \<Rightarrow> ucast (lf_resw s AND 0x8000)
     | t_NEGw \<Rightarrow> ucast (lf_resw s AND 0x8000)
     | t_ADDd \<Rightarrow> lf_resd s AND 0x80000000
     | t_ORd \<Rightarrow> lf_resd s AND 0x80000000
     | t_ADCd \<Rightarrow> lf_resd s AND 0x80000000
     | t_SBBd \<Rightarrow> lf_resd s AND 0x80000000
     | t_ANDd \<Rightarrow> lf_resd s AND 0x80000000
     | t_XORd \<Rightarrow> lf_resd s AND 0x80000000
     | t_SUBd \<Rightarrow> lf_resd s AND 0x80000000
     | t_CMPd \<Rightarrow> lf_resd s AND 0x80000000
     | t_INCd \<Rightarrow> lf_resd s AND 0x80000000
     | t_DECd \<Rightarrow> lf_resd s AND 0x80000000
     | t_TESTd \<Rightarrow> lf_resd s AND 0x80000000
     | t_SHLd \<Rightarrow> lf_resd s AND 0x80000000
     | t_SHRd \<Rightarrow> lf_resd s AND 0x80000000
     | t_SARd \<Rightarrow> lf_resd s AND 0x80000000
     | t_DSHLd \<Rightarrow> lf_resd s AND 0x80000000
     | t_DSHRd \<Rightarrow> lf_resd s AND 0x80000000
     | t_NEGd \<Rightarrow> lf_resd s AND 0x80000000
     | t_DIV \<Rightarrow> 0
     | t_MUL \<Rightarrow> 0
     | _ \<Rightarrow> 0)"

definition get_OF :: "'a cpu_scheme \<Rightarrow> u32" where
  "get_OF s = (case lf_type s of
       t_UNKNOWN \<Rightarrow> GETFLAG FLAG_OF s
     | t_MUL \<Rightarrow> GETFLAG FLAG_OF s
     | t_ADDb \<Rightarrow>
         ucast (((lf_var1b s XOR lf_var2b s XOR 0x80) AND (lf_resb s XOR lf_var2b s)) AND 0x80)
     | t_ADCb \<Rightarrow>
         ucast (((lf_var1b s XOR lf_var2b s XOR 0x80) AND (lf_resb s XOR lf_var2b s)) AND 0x80)
     | t_ADDw \<Rightarrow>
         ucast (((lf_var1w s XOR lf_var2w s XOR 0x8000) AND (lf_resw s XOR lf_var2w s)) AND 0x8000)
     | t_ADCw \<Rightarrow>
         ucast (((lf_var1w s XOR lf_var2w s XOR 0x8000) AND (lf_resw s XOR lf_var2w s)) AND 0x8000)
     | t_ADDd \<Rightarrow>
         ((lf_var1d s XOR lf_var2d s XOR 0x80000000) AND (lf_resd s XOR lf_var2d s)) AND 0x80000000
     | t_ADCd \<Rightarrow>
         ((lf_var1d s XOR lf_var2d s XOR 0x80000000) AND (lf_resd s XOR lf_var2d s)) AND 0x80000000
     | t_SBBb \<Rightarrow>
         ucast (((lf_var1b s XOR lf_var2b s) AND (lf_var1b s XOR lf_resb s)) AND 0x80)
     | t_SUBb \<Rightarrow>
         ucast (((lf_var1b s XOR lf_var2b s) AND (lf_var1b s XOR lf_resb s)) AND 0x80)
     | t_CMPb \<Rightarrow>
         ucast (((lf_var1b s XOR lf_var2b s) AND (lf_var1b s XOR lf_resb s)) AND 0x80)
     | t_SBBw \<Rightarrow>
         ucast (((lf_var1w s XOR lf_var2w s) AND (lf_var1w s XOR lf_resw s)) AND 0x8000)
     | t_SUBw \<Rightarrow>
         ucast (((lf_var1w s XOR lf_var2w s) AND (lf_var1w s XOR lf_resw s)) AND 0x8000)
     | t_CMPw \<Rightarrow>
         ucast (((lf_var1w s XOR lf_var2w s) AND (lf_var1w s XOR lf_resw s)) AND 0x8000)
     | t_SBBd \<Rightarrow>
         ((lf_var1d s XOR lf_var2d s) AND (lf_var1d s XOR lf_resd s)) AND 0x80000000
     | t_SUBd \<Rightarrow>
         ((lf_var1d s XOR lf_var2d s) AND (lf_var1d s XOR lf_resd s)) AND 0x80000000
     | t_CMPd \<Rightarrow>
         ((lf_var1d s XOR lf_var2d s) AND (lf_var1d s XOR lf_resd s)) AND 0x80000000
     | t_INCb \<Rightarrow> of_bool (lf_resb s = 0x80)
     | t_INCw \<Rightarrow> of_bool (lf_resw s = 0x8000)
     | t_INCd \<Rightarrow> of_bool (lf_resd s = 0x80000000)
     | t_DECb \<Rightarrow> of_bool (lf_resb s = 0x7f)
     | t_DECw \<Rightarrow> of_bool (lf_resw s = 0x7fff)
     | t_DECd \<Rightarrow> of_bool (lf_resd s = 0x7fffffff)
     | t_NEGb \<Rightarrow> of_bool (lf_var1b s = 0x80)
     | t_NEGw \<Rightarrow> of_bool (lf_var1w s = 0x8000)
     | t_NEGd \<Rightarrow> of_bool (lf_var1d s = 0x80000000)
     | t_SHLb \<Rightarrow> ucast ((lf_resb s XOR lf_var1b s) AND 0x80)
     | t_SHLw \<Rightarrow> ucast ((lf_resw s XOR lf_var1w s) AND 0x8000)
     | t_DSHRw \<Rightarrow> ucast ((lf_resw s XOR lf_var1w s) AND 0x8000)
     | t_DSHLw \<Rightarrow> ucast ((lf_resw s XOR lf_var1w s) AND 0x8000)
     | t_SHLd \<Rightarrow> (lf_resd s XOR lf_var1d s) AND 0x80000000
     | t_DSHRd \<Rightarrow> (lf_resd s XOR lf_var1d s) AND 0x80000000
     | t_DSHLd \<Rightarrow> (lf_resd s XOR lf_var1d s) AND 0x80000000
     | t_SHRb \<Rightarrow> (if lf_var2b s AND 0x1f = 1 then of_bool (0x80 < lf_var1b s) else 0)
     | t_SHRw \<Rightarrow> (if lf_var2b s AND 0x1f = 1 then of_bool (0x8000 < lf_var1w s) else 0)
     | t_SHRd \<Rightarrow>
         (if lf_var2b s AND 0x1f = 1 then of_bool (0x80000000 < lf_var1d s) else 0)
     | t_ORb \<Rightarrow> 0
     | t_ORw \<Rightarrow> 0
     | t_ORd \<Rightarrow> 0
     | t_ANDb \<Rightarrow> 0
     | t_ANDw \<Rightarrow> 0
     | t_ANDd \<Rightarrow> 0
     | t_XORb \<Rightarrow> 0
     | t_XORw \<Rightarrow> 0
     | t_XORd \<Rightarrow> 0
     | t_TESTb \<Rightarrow> 0
     | t_TESTw \<Rightarrow> 0
     | t_TESTd \<Rightarrow> 0
     | t_SARb \<Rightarrow> 0
     | t_SARw \<Rightarrow> 0
     | t_SARd \<Rightarrow> 0
     | t_DIV \<Rightarrow> 0
     | _ \<Rightarrow> 0)"

text \<open>The table is a \<^verbatim>\<open>uint16_t\<close> array holding \<^verbatim>\<open>FLAG_PF\<close> or 0 for every byte.\<close>

abbreviation FLAG_PF16 :: u16 where "FLAG_PF16 \<equiv> 4"

definition parity_lookup :: "u16 list" where
  "parity_lookup = [
     FLAG_PF16, 0, 0, FLAG_PF16, 0, FLAG_PF16, FLAG_PF16, 0, 0, FLAG_PF16, FLAG_PF16, 0, FLAG_PF16, 0, 0, FLAG_PF16,
     0, FLAG_PF16, FLAG_PF16, 0, FLAG_PF16, 0, 0, FLAG_PF16, FLAG_PF16, 0, 0, FLAG_PF16, 0, FLAG_PF16, FLAG_PF16, 0,
     0, FLAG_PF16, FLAG_PF16, 0, FLAG_PF16, 0, 0, FLAG_PF16, FLAG_PF16, 0, 0, FLAG_PF16, 0, FLAG_PF16, FLAG_PF16, 0,
     FLAG_PF16, 0, 0, FLAG_PF16, 0, FLAG_PF16, FLAG_PF16, 0, 0, FLAG_PF16, FLAG_PF16, 0, FLAG_PF16, 0, 0, FLAG_PF16,
     0, FLAG_PF16, FLAG_PF16, 0, FLAG_PF16, 0, 0, FLAG_PF16, FLAG_PF16, 0, 0, FLAG_PF16, 0, FLAG_PF16, FLAG_PF16, 0,
     FLAG_PF16, 0, 0, FLAG_PF16, 0, FLAG_PF16, FLAG_PF16, 0, 0, FLAG_PF16, FLAG_PF16, 0, FLAG_PF16, 0, 0, FLAG_PF16,
     FLAG_PF16, 0, 0, FLAG_PF16, 0, FLAG_PF16, FLAG_PF16, 0, 0, FLAG_PF16, FLAG_PF16, 0, FLAG_PF16, 0, 0, FLAG_PF16,
     0, FLAG_PF16, FLAG_PF16, 0, FLAG_PF16, 0, 0, FLAG_PF16, FLAG_PF16, 0, 0, FLAG_PF16, 0, FLAG_PF16, FLAG_PF16, 0,
     0, FLAG_PF16, FLAG_PF16, 0, FLAG_PF16, 0, 0, FLAG_PF16, FLAG_PF16, 0, 0, FLAG_PF16, 0, FLAG_PF16, FLAG_PF16, 0,
     FLAG_PF16, 0, 0, FLAG_PF16, 0, FLAG_PF16, FLAG_PF16, 0, 0, FLAG_PF16, FLAG_PF16, 0, FLAG_PF16, 0, 0, FLAG_PF16,
     FLAG_PF16, 0, 0, FLAG_PF16, 0, FLAG_PF16, FLAG_PF16, 0, 0, FLAG_PF16, FLAG_PF16, 0, FLAG_PF16, 0, 0, FLAG_PF16,
     0, FLAG_PF16, FLAG_PF16, 0, FLAG_PF16, 0, 0, FLAG_PF16, FLAG_PF16, 0, 0, FLAG_PF16, 0, FLAG_PF16, FLAG_PF16, 0,
     FLAG_PF16, 0, 0, FLAG_PF16, 0, FLAG_PF16, FLAG_PF16, 0, 0, FLAG_PF16, FLAG_PF16, 0, FLAG_PF16, 0, 0, FLAG_PF16,
     0, FLAG_PF16, FLAG_PF16, 0, FLAG_PF16, 0, 0, FLAG_PF16, FLAG_PF16, 0, 0, FLAG_PF16, 0, FLAG_PF16, FLAG_PF16, 0,
     0, FLAG_PF16, FLAG_PF16, 0, FLAG_PF16, 0, 0, FLAG_PF16, FLAG_PF16, 0, 0, FLAG_PF16, 0, FLAG_PF16, FLAG_PF16, 0,
     FLAG_PF16, 0, 0, FLAG_PF16, 0, FLAG_PF16, FLAG_PF16, 0, 0, FLAG_PF16, FLAG_PF16, 0, FLAG_PF16, 0, 0, FLAG_PF16]"

definition get_PF :: "'a cpu_scheme \<Rightarrow> u32" where
  "get_PF s = (case lf_type s of
       t_UNKNOWN \<Rightarrow> GETFLAG FLAG_PF s
     | _ \<Rightarrow> ucast (parity_lookup ! unat (lf_resb s)))"

section \<open>Materialising the flags\<close>

text \<open>The statement macros \<^verbatim>\<open>DOFLAG_*\<close>.\<close>

definition DOFLAG_PF :: "'a cpu_scheme \<Rightarrow> 'a cpu_scheme" where
  "DOFLAG_PF s = s\<lparr>reg_flags :=
     (reg_flags s AND NOT FLAG_PF) OR ucast (parity_lookup ! unat (lf_resb s))\<rparr>"

definition DOFLAG_AF :: "'a cpu_scheme \<Rightarrow> 'a cpu_scheme" where
  "DOFLAG_AF s = s\<lparr>reg_flags :=
     (reg_flags s AND NOT FLAG_AF) OR ucast ((lf_var1b s XOR lf_var2b s XOR lf_resb s) AND 0x10)\<rparr>"

definition DOFLAG_ZFb :: "'a cpu_scheme \<Rightarrow> 'a cpu_scheme" where
  "DOFLAG_ZFb s = SETFLAGBIT FLAG_ZF (lf_resb s = 0) s"
definition DOFLAG_ZFw :: "'a cpu_scheme \<Rightarrow> 'a cpu_scheme" where
  "DOFLAG_ZFw s = SETFLAGBIT FLAG_ZF (lf_resw s = 0) s"
definition DOFLAG_ZFd :: "'a cpu_scheme \<Rightarrow> 'a cpu_scheme" where
  "DOFLAG_ZFd s = SETFLAGBIT FLAG_ZF (lf_resd s = 0) s"

definition DOFLAG_SFb :: "'a cpu_scheme \<Rightarrow> 'a cpu_scheme" where
  "DOFLAG_SFb s = s\<lparr>reg_flags :=
     (reg_flags s AND NOT FLAG_SF) OR ucast (drop_bit 0 (lf_resb s AND 0x80))\<rparr>"
definition DOFLAG_SFw :: "'a cpu_scheme \<Rightarrow> 'a cpu_scheme" where
  "DOFLAG_SFw s = s\<lparr>reg_flags :=
     (reg_flags s AND NOT FLAG_SF) OR ucast (drop_bit 8 (lf_resw s AND 0x8000))\<rparr>"
definition DOFLAG_SFd :: "'a cpu_scheme \<Rightarrow> 'a cpu_scheme" where
  "DOFLAG_SFd s = s\<lparr>reg_flags :=
     (reg_flags s AND NOT FLAG_SF) OR drop_bit 24 (lf_resd s AND 0x80000000)\<rparr>"

text \<open>
  The switch of \<^verbatim>\<open>FillFlags\<close>, in four groups of cases; \<open>None\<close> means that no case of the group
  matches. The operands read are those at entry: no statement of a case writes \<^verbatim>\<open>lflags\<close>.
\<close>

definition FillFlags_arith :: "'a cpu_scheme \<Rightarrow> 'a cpu_scheme option" where
  "FillFlags_arith s = (case lf_type s of
       t_ADDb \<Rightarrow> Some (seq_do [
          SETFLAGBIT FLAG_CF (lf_resb s < lf_var1b s), DOFLAG_AF, DOFLAG_ZFb, DOFLAG_SFb,
          SETFLAGBIT FLAG_OF ((((lf_var1b s XOR lf_var2b s XOR 0x80) AND (lf_resb s XOR lf_var1b s)) AND 0x80) \<noteq> 0),
          DOFLAG_PF] s)
     | t_ADDw \<Rightarrow> Some (seq_do [
          SETFLAGBIT FLAG_CF (lf_resw s < lf_var1w s), DOFLAG_AF, DOFLAG_ZFw, DOFLAG_SFw,
          SETFLAGBIT FLAG_OF ((((lf_var1w s XOR lf_var2w s XOR 0x8000) AND (lf_resw s XOR lf_var1w s)) AND 0x8000) \<noteq> 0),
          DOFLAG_PF] s)
     | t_ADDd \<Rightarrow> Some (seq_do [
          SETFLAGBIT FLAG_CF (lf_resd s < lf_var1d s), DOFLAG_AF, DOFLAG_ZFd, DOFLAG_SFd,
          SETFLAGBIT FLAG_OF ((((lf_var1d s XOR lf_var2d s XOR 0x80000000) AND (lf_resd s XOR lf_var1d s)) AND 0x80000000) \<noteq> 0),
          DOFLAG_PF] s)
     | t_ADCb \<Rightarrow> Some (seq_do [
          SETFLAGBIT FLAG_CF (lf_resb s < lf_var1b s \<or> lf_oldcf s \<noteq> 0 \<and> lf_resb s = lf_var1b s),
          DOFLAG_AF, DOFLAG_ZFb, DOFLAG_SFb,
          SETFLAGBIT FLAG_OF ((((lf_var1b s XOR lf_var2b s XOR 0x80) AND (lf_resb s XOR lf_var1b s)) AND 0x80) \<noteq> 0),
          DOFLAG_PF] s)
     | t_ADCw \<Rightarrow> Some (seq_do [
          SETFLAGBIT FLAG_CF (lf_resw s < lf_var1w s \<or> lf_oldcf s \<noteq> 0 \<and> lf_resw s = lf_var1w s),
          DOFLAG_AF, DOFLAG_ZFw, DOFLAG_SFw,
          SETFLAGBIT FLAG_OF ((((lf_var1w s XOR lf_var2w s XOR 0x8000) AND (lf_resw s XOR lf_var1w s)) AND 0x8000) \<noteq> 0),
          DOFLAG_PF] s)
     | t_ADCd \<Rightarrow> Some (seq_do [
          SETFLAGBIT FLAG_CF (lf_resd s < lf_var1d s \<or> lf_oldcf s \<noteq> 0 \<and> lf_resd s = lf_var1d s),
          DOFLAG_AF, DOFLAG_ZFd, DOFLAG_SFd,
          SETFLAGBIT FLAG_OF ((((lf_var1d s XOR lf_var2d s XOR 0x80000000) AND (lf_resd s XOR lf_var1d s)) AND 0x80000000) \<noteq> 0),
          DOFLAG_PF] s)
     | t_SBBb \<Rightarrow> Some (seq_do [
          SETFLAGBIT FLAG_CF (lf_var1b s < lf_resb s \<or> lf_oldcf s \<noteq> 0 \<and> lf_var2b s = 0xff),
          DOFLAG_AF, DOFLAG_ZFb, DOFLAG_SFb,
          SETFLAGBIT FLAG_OF (((lf_var1b s XOR lf_var2b s) AND (lf_var1b s XOR lf_resb s) AND 0x80) \<noteq> 0),
          DOFLAG_PF] s)
     | t_SBBw \<Rightarrow> Some (seq_do [
          SETFLAGBIT FLAG_CF (lf_var1w s < lf_resw s \<or> lf_oldcf s \<noteq> 0 \<and> lf_var2w s = 0xffff),
          DOFLAG_AF, DOFLAG_ZFw, DOFLAG_SFw,
          SETFLAGBIT FLAG_OF (((lf_var1w s XOR lf_var2w s) AND (lf_var1w s XOR lf_resw s) AND 0x8000) \<noteq> 0),
          DOFLAG_PF] s)
     | t_SBBd \<Rightarrow> Some (seq_do [
          SETFLAGBIT FLAG_CF (lf_var1d s < lf_resd s \<or> lf_oldcf s \<noteq> 0 \<and> lf_var2d s = 0xffffffff),
          DOFLAG_AF, DOFLAG_ZFd, DOFLAG_SFd,
          SETFLAGBIT FLAG_OF (((lf_var1d s XOR lf_var2d s) AND (lf_var1d s XOR lf_resd s) AND 0x80000000) \<noteq> 0),
          DOFLAG_PF] s)
     | t_SUBb \<Rightarrow> Some (seq_do [
          SETFLAGBIT FLAG_CF (lf_var1b s < lf_var2b s), DOFLAG_AF, DOFLAG_ZFb, DOFLAG_SFb,
          SETFLAGBIT FLAG_OF (((lf_var1b s XOR lf_var2b s) AND (lf_var1b s XOR lf_resb s) AND 0x80) \<noteq> 0),
          DOFLAG_PF] s)
     | t_CMPb \<Rightarrow> Some (seq_do [
          SETFLAGBIT FLAG_CF (lf_var1b s < lf_var2b s), DOFLAG_AF, DOFLAG_ZFb, DOFLAG_SFb,
          SETFLAGBIT FLAG_OF (((lf_var1b s XOR lf_var2b s) AND (lf_var1b s XOR lf_resb s) AND 0x80) \<noteq> 0),
          DOFLAG_PF] s)
     | t_SUBw \<Rightarrow> Some (seq_do [
          SETFLAGBIT FLAG_CF (lf_var1w s < lf_var2w s), DOFLAG_AF, DOFLAG_ZFw, DOFLAG_SFw,
          SETFLAGBIT FLAG_OF (((lf_var1w s XOR lf_var2w s) AND (lf_var1w s XOR lf_resw s) AND 0x8000) \<noteq> 0),
          DOFLAG_PF] s)
     | t_CMPw \<Rightarrow> Some (seq_do [
          SETFLAGBIT FLAG_CF (lf_var1w s < lf_var2w s), DOFLAG_AF, DOFLAG_ZFw, DOFLAG_SFw,
          SETFLAGBIT FLAG_OF (((lf_var1w s XOR lf_var2w s) AND (lf_var1w s XOR lf_resw s) AND 0x8000) \<noteq> 0),
          DOFLAG_PF] s)
     | t_SUBd \<Rightarrow> Some (seq_do [
          SETFLAGBIT FLAG_CF (lf_var1d s < lf_var2d s), DOFLAG_AF, DOFLAG_ZFd, DOFLAG_SFd,
          SETFLAGBIT FLAG_OF (((lf_var1d s XOR lf_var2d s) AND (lf_var1d s XOR lf_resd s) AND 0x80000000) \<noteq> 0),
          DOFLAG_PF] s)
     | t_CMPd \<Rightarrow> Some (seq_do [
          SETFLAGBIT FLAG_CF (lf_var1d s < lf_var2d s), DOFLAG_AF, DOFLAG_ZFd, DOFLAG_SFd,
          SETFLAGBIT FLAG_OF (((lf_var1d s XOR lf_var2d s) AND (lf_var1d s XOR lf_resd s) AND 0x80000000) \<noteq> 0),
          DOFLAG_PF] s)
     | _ \<Rightarrow> None)"

definition FillFlags_logic :: "'a cpu_scheme \<Rightarrow> 'a cpu_scheme option" where
  "FillFlags_logic s = (case lf_type s of
       t_ORb \<Rightarrow> Some (seq_do [
          SETFLAGBIT FLAG_CF (False), SETFLAGBIT FLAG_AF (False), DOFLAG_ZFb, DOFLAG_SFb,
          SETFLAGBIT FLAG_OF (False), DOFLAG_PF] s)
     | t_TESTb \<Rightarrow> Some (seq_do [
          SETFLAGBIT FLAG_CF (False), SETFLAGBIT FLAG_AF (False), DOFLAG_ZFb, DOFLAG_SFb,
          SETFLAGBIT FLAG_OF (False), DOFLAG_PF] s)
     | t_ANDb \<Rightarrow> Some (seq_do [
          SETFLAGBIT FLAG_CF (False), SETFLAGBIT FLAG_AF (False), DOFLAG_ZFb, DOFLAG_SFb,
          SETFLAGBIT FLAG_OF (False), DOFLAG_PF] s)
     | t_XORb \<Rightarrow> Some (seq_do [
          SETFLAGBIT FLAG_CF (False), SETFLAGBIT FLAG_AF (False), DOFLAG_ZFb, DOFLAG_SFb,
          SETFLAGBIT FLAG_OF (False), DOFLAG_PF] s)
     | t_ORw \<Rightarrow> Some (seq_do [
          SETFLAGBIT FLAG_CF (False), SETFLAGBIT FLAG_AF (False), DOFLAG_ZFw, DOFLAG_SFw,
          SETFLAGBIT FLAG_OF (False), DOFLAG_PF] s)
     | t_TESTw \<Rightarrow> Some (seq_do [
          SETFLAGBIT FLAG_CF (False), SETFLAGBIT FLAG_AF (False), DOFLAG_ZFw, DOFLAG_SFw,
          SETFLAGBIT FLAG_OF (False), DOFLAG_PF] s)
     | t_ANDw \<Rightarrow> Some (seq_do [
          SETFLAGBIT FLAG_CF (False), SETFLAGBIT FLAG_AF (False), DOFLAG_ZFw, DOFLAG_SFw,
          SETFLAGBIT FLAG_OF (False), DOFLAG_PF] s)
     | t_XORw \<Rightarrow> Some (seq_do [
          SETFLAGBIT FLAG_CF (False), SETFLAGBIT FLAG_AF (False), DOFLAG_ZFw, DOFLAG_SFw,
          SETFLAGBIT FLAG_OF (False), DOFLAG_PF] s)
     | t_ORd \<Rightarrow> Some (seq_do [
          SETFLAGBIT FLAG_CF (False), SETFLAGBIT FLAG_AF (False), DOFLAG_ZFd, DOFLAG_SFd,
          SETFLAGBIT FLAG_OF (False), DOFLAG_PF] s)
     | t_TESTd \<Rightarrow> Some (seq_do [
          SETFLAGBIT FLAG_CF (False), SETFLAGBIT FLAG_AF (False), DOFLAG_ZFd, DOFLAG_SFd,
          SETFLAGBIT FLAG_OF (False), DOFLAG_PF] s)
     | t_ANDd \<Rightarrow> Some (seq_do [
          SETFLAGBIT FLAG_CF (False), SETFLAGBIT FLAG_AF (False), DOFLAG_ZFd, DOFLAG_SFd,
          SETFLAGBIT FLAG_OF (False), DOFLAG_PF] s)
     | t_XORd \<Rightarrow> Some (seq_do [
          SETFLAGBIT FLAG_CF (False), SETFLAGBIT FLAG_AF (False), DOFLAG_ZFd, DOFLAG_SFd,
          SETFLAGBIT FLAG_OF (False), DOFLAG_PF] s)
     | _ \<Rightarrow> None)"

definition FillFlags_shift :: "'a cpu_scheme \<Rightarrow> 'a cpu_scheme option" where
  "FillFlags_shift s = (case lf_type s of
       t_SHLb \<Rightarrow> Some (seq_do [
          SETFLAGBIT FLAG_CF (if 8 < lf_var2b s then False else drop_bit (8 - unat (lf_var2b s)) (lf_var1b s) AND 1 \<noteq> 0),
          DOFLAG_ZFb, DOFLAG_SFb,
          SETFLAGBIT FLAG_OF ((lf_resb s XOR lf_var1b s) AND 0x80 \<noteq> 0), DOFLAG_PF,
          SETFLAGBIT FLAG_AF (lf_var2b s AND 0x1f \<noteq> 0)] s)
     | t_SHLw \<Rightarrow> Some (seq_do [
          SETFLAGBIT FLAG_CF (if 16 < lf_var2b s then False else drop_bit (16 - unat (lf_var2b s)) (lf_var1w s) AND 1 \<noteq> 0),
          DOFLAG_ZFw, DOFLAG_SFw,
          SETFLAGBIT FLAG_OF ((lf_resw s XOR lf_var1w s) AND 0x8000 \<noteq> 0), DOFLAG_PF,
          SETFLAGBIT FLAG_AF (lf_var2w s AND 0x1f \<noteq> 0)] s)
     | t_SHLd \<Rightarrow> Some (seq_do [
          SETFLAGBIT FLAG_CF (drop_bit (32 - unat (lf_var2b s)) (lf_var1d s) AND 1 \<noteq> 0),
          DOFLAG_ZFd, DOFLAG_SFd,
          SETFLAGBIT FLAG_OF ((lf_resd s XOR lf_var1d s) AND 0x80000000 \<noteq> 0), DOFLAG_PF,
          SETFLAGBIT FLAG_AF (lf_var2d s AND 0x1f \<noteq> 0)] s)
     | t_DSHLw \<Rightarrow> Some (seq_do [
          SETFLAGBIT FLAG_CF (drop_bit (32 - unat (lf_var2b s)) (lf_var1d s) AND 1 \<noteq> 0),
          DOFLAG_ZFw, DOFLAG_SFw,
          SETFLAGBIT FLAG_OF ((lf_resw s XOR lf_var1w s) AND 0x8000 \<noteq> 0), DOFLAG_PF] s)
     | t_DSHLd \<Rightarrow> Some (seq_do [
          SETFLAGBIT FLAG_CF (drop_bit (32 - unat (lf_var2b s)) (lf_var1d s) AND 1 \<noteq> 0),
          DOFLAG_ZFd, DOFLAG_SFd,
          SETFLAGBIT FLAG_OF ((lf_resd s XOR lf_var1d s) AND 0x80000000 \<noteq> 0),
          DOFLAG_PF] s)
     | t_SHRb \<Rightarrow> Some (seq_do [
          SETFLAGBIT FLAG_CF (drop_bit (unat (lf_var2b_minus_one s)) (lf_var1b s) AND 1 \<noteq> 0),
          DOFLAG_ZFb, DOFLAG_SFb,
          SETFLAGBIT FLAG_OF (if lf_var2b s AND 0x1f = 1 then 0x80 \<le> lf_var1b s else False),
          DOFLAG_PF, SETFLAGBIT FLAG_AF (lf_var2b s AND 0x1f \<noteq> 0)] s)
     | t_SHRw \<Rightarrow> Some (seq_do [
          SETFLAGBIT FLAG_CF (drop_bit (unat (lf_var2b_minus_one s)) (lf_var1w s) AND 1 \<noteq> 0),
          DOFLAG_ZFw, DOFLAG_SFw,
          SETFLAGBIT FLAG_OF (if lf_var2w s AND 0x1f = 1 then 0x8000 \<le> lf_var1w s else False),
          DOFLAG_PF, SETFLAGBIT FLAG_AF (lf_var2w s AND 0x1f \<noteq> 0)] s)
     | t_SHRd \<Rightarrow> Some (seq_do [
          SETFLAGBIT FLAG_CF (drop_bit (unat (lf_var2b_minus_one s)) (lf_var1d s) AND 1 \<noteq> 0),
          DOFLAG_ZFd, DOFLAG_SFd,
          SETFLAGBIT FLAG_OF (if lf_var2d s AND 0x1f = 1 then 0x80000000 \<le> lf_var1d s else False),
          DOFLAG_PF, SETFLAGBIT FLAG_AF (lf_var2d s AND 0x1f \<noteq> 0)] s)
     | t_DSHRw \<Rightarrow> Some (seq_do [
          SETFLAGBIT FLAG_CF (drop_bit (unat (lf_var2b_minus_one s)) (lf_var1d s) AND 1 \<noteq> 0),
          DOFLAG_ZFw, DOFLAG_SFw,
          SETFLAGBIT FLAG_OF ((lf_resw s XOR lf_var1w s) AND 0x8000 \<noteq> 0), DOFLAG_PF] s)
     | t_DSHRd \<Rightarrow> Some (seq_do [
          SETFLAGBIT FLAG_CF (drop_bit (unat (lf_var2b_minus_one s)) (lf_var1d s) AND 1 \<noteq> 0),
          DOFLAG_ZFd, DOFLAG_SFd,
          SETFLAGBIT FLAG_OF ((lf_resd s XOR lf_var1d s) AND 0x80000000 \<noteq> 0),
          DOFLAG_PF] s)
     | t_SARb \<Rightarrow> Some (seq_do [
          SETFLAGBIT FLAG_CF (signed_drop_bit (unat (lf_var2b_minus_one s)) (lf_var1b s) AND 1 \<noteq> 0),
          DOFLAG_ZFb, DOFLAG_SFb, SETFLAGBIT FLAG_OF (False), DOFLAG_PF,
          SETFLAGBIT FLAG_AF (lf_var2b s AND 0x1f \<noteq> 0)] s)
     | t_SARw \<Rightarrow> Some (seq_do [
          SETFLAGBIT FLAG_CF (signed_drop_bit (unat (lf_var2b_minus_one s)) (lf_var1w s) AND 1 \<noteq> 0),
          DOFLAG_ZFw, DOFLAG_SFw, SETFLAGBIT FLAG_OF (False), DOFLAG_PF,
          SETFLAGBIT FLAG_AF (lf_var2w s AND 0x1f \<noteq> 0)] s)
     | t_SARd \<Rightarrow> Some (seq_do [
          SETFLAGBIT FLAG_CF (signed_drop_bit (unat (lf_var2b_minus_one s)) (lf_var1d s) AND 1 \<noteq> 0),
          DOFLAG_ZFd, DOFLAG_SFd, SETFLAGBIT FLAG_OF (False), DOFLAG_PF,
          SETFLAGBIT FLAG_AF (lf_var2d s AND 0x1f \<noteq> 0)] s)
     | _ \<Rightarrow> None)"

definition FillFlags_incdec :: "'a cpu_scheme \<Rightarrow> 'a cpu_scheme option" where
  "FillFlags_incdec s = (case lf_type s of
       t_INCb \<Rightarrow> Some (seq_do [
          SETFLAGBIT FLAG_AF (lf_resb s AND 0x0f = 0), DOFLAG_ZFb, DOFLAG_SFb,
          SETFLAGBIT FLAG_OF (lf_resb s = 0x80), DOFLAG_PF] s)
     | t_INCw \<Rightarrow> Some (seq_do [
          SETFLAGBIT FLAG_AF (lf_resw s AND 0x0f = 0), DOFLAG_ZFw, DOFLAG_SFw,
          SETFLAGBIT FLAG_OF (lf_resw s = 0x8000), DOFLAG_PF] s)
     | t_INCd \<Rightarrow> Some (seq_do [
          SETFLAGBIT FLAG_AF (lf_resd s AND 0x0f = 0), DOFLAG_ZFd, DOFLAG_SFd,
          SETFLAGBIT FLAG_OF (lf_resd s = 0x80000000), DOFLAG_PF] s)
     | t_DECb \<Rightarrow> Some (seq_do [
          SETFLAGBIT FLAG_AF (lf_resb s AND 0x0f = 0x0f), DOFLAG_ZFb, DOFLAG_SFb,
          SETFLAGBIT FLAG_OF (lf_resb s = 0x7f), DOFLAG_PF] s)
     | t_DECw \<Rightarrow> Some (seq_do [
          SETFLAGBIT FLAG_AF (lf_resw s AND 0x0f = 0x0f), DOFLAG_ZFw, DOFLAG_SFw,
          SETFLAGBIT FLAG_OF (lf_resw s = 0x7fff), DOFLAG_PF] s)
     | t_DECd \<Rightarrow> Some (seq_do [
          SETFLAGBIT FLAG_AF (lf_resd s AND 0x0f = 0x0f), DOFLAG_ZFd, DOFLAG_SFd,
          SETFLAGBIT FLAG_OF (lf_resd s = 0x7fffffff), DOFLAG_PF] s)
     | t_NEGb \<Rightarrow> Some (seq_do [
          SETFLAGBIT FLAG_CF (lf_var1b s \<noteq> 0),
          SETFLAGBIT FLAG_AF (lf_resb s AND 0x0f \<noteq> 0), DOFLAG_ZFb, DOFLAG_SFb,
          SETFLAGBIT FLAG_OF (lf_var1b s = 0x80), DOFLAG_PF] s)
     | t_NEGw \<Rightarrow> Some (seq_do [
          SETFLAGBIT FLAG_CF (lf_var1w s \<noteq> 0),
          SETFLAGBIT FLAG_AF (lf_resw s AND 0x0f \<noteq> 0), DOFLAG_ZFw, DOFLAG_SFw,
          SETFLAGBIT FLAG_OF (lf_var1w s = 0x8000), DOFLAG_PF] s)
     | t_NEGd \<Rightarrow> Some (seq_do [
          SETFLAGBIT FLAG_CF (lf_var1d s \<noteq> 0),
          SETFLAGBIT FLAG_AF (lf_resd s AND 0x0f \<noteq> 0), DOFLAG_ZFd, DOFLAG_SFd,
          SETFLAGBIT FLAG_OF (lf_var1d s = 0x80000000), DOFLAG_PF] s)
     | _ \<Rightarrow> None)"

definition FillFlagsNoCFOF_arith :: "'a cpu_scheme \<Rightarrow> 'a cpu_scheme option" where
  "FillFlagsNoCFOF_arith s = (case lf_type s of
       t_ADDb \<Rightarrow> Some (seq_do [DOFLAG_AF, DOFLAG_ZFb, DOFLAG_SFb, DOFLAG_PF] s)
     | t_ADDw \<Rightarrow> Some (seq_do [DOFLAG_AF, DOFLAG_ZFw, DOFLAG_SFw, DOFLAG_PF] s)
     | t_ADDd \<Rightarrow> Some (seq_do [DOFLAG_AF, DOFLAG_ZFd, DOFLAG_SFd, DOFLAG_PF] s)
     | t_ADCb \<Rightarrow> Some (seq_do [DOFLAG_AF, DOFLAG_ZFb, DOFLAG_SFb, DOFLAG_PF] s)
     | t_ADCw \<Rightarrow> Some (seq_do [DOFLAG_AF, DOFLAG_ZFw, DOFLAG_SFw, DOFLAG_PF] s)
     | t_ADCd \<Rightarrow> Some (seq_do [DOFLAG_AF, DOFLAG_ZFd, DOFLAG_SFd, DOFLAG_PF] s)
     | t_SBBb \<Rightarrow> Some (seq_do [DOFLAG_AF, DOFLAG_ZFb, DOFLAG_SFb, DOFLAG_PF] s)
     | t_SBBw \<Rightarrow> Some (seq_do [DOFLAG_AF, DOFLAG_ZFw, DOFLAG_SFw, DOFLAG_PF] s)
     | t_SBBd \<Rightarrow> Some (seq_do [DOFLAG_AF, DOFLAG_ZFd, DOFLAG_SFd, DOFLAG_PF] s)
     | t_SUBb \<Rightarrow> Some (seq_do [DOFLAG_AF, DOFLAG_ZFb, DOFLAG_SFb, DOFLAG_PF] s)
     | t_CMPb \<Rightarrow> Some (seq_do [DOFLAG_AF, DOFLAG_ZFb, DOFLAG_SFb, DOFLAG_PF] s)
     | t_SUBw \<Rightarrow> Some (seq_do [DOFLAG_AF, DOFLAG_ZFw, DOFLAG_SFw, DOFLAG_PF] s)
     | t_CMPw \<Rightarrow> Some (seq_do [DOFLAG_AF, DOFLAG_ZFw, DOFLAG_SFw, DOFLAG_PF] s)
     | t_SUBd \<Rightarrow> Some (seq_do [DOFLAG_AF, DOFLAG_ZFd, DOFLAG_SFd, DOFLAG_PF] s)
     | t_CMPd \<Rightarrow> Some (seq_do [DOFLAG_AF, DOFLAG_ZFd, DOFLAG_SFd, DOFLAG_PF] s)
     | _ \<Rightarrow> None)"

definition FillFlagsNoCFOF_logic :: "'a cpu_scheme \<Rightarrow> 'a cpu_scheme option" where
  "FillFlagsNoCFOF_logic s = (case lf_type s of
       t_ORb \<Rightarrow> Some (seq_do [
          SETFLAGBIT FLAG_AF (False), DOFLAG_ZFb, DOFLAG_SFb, DOFLAG_PF] s)
     | t_TESTb \<Rightarrow> Some (seq_do [
          SETFLAGBIT FLAG_AF (False), DOFLAG_ZFb, DOFLAG_SFb, DOFLAG_PF] s)
     | t_ANDb \<Rightarrow> Some (seq_do [
          SETFLAGBIT FLAG_AF (False), DOFLAG_ZFb, DOFLAG_SFb, DOFLAG_PF] s)
     | t_XORb \<Rightarrow> Some (seq_do [
          SETFLAGBIT FLAG_AF (False), DOFLAG_ZFb, DOFLAG_SFb, DOFLAG_PF] s)
     | t_ORw \<Rightarrow> Some (seq_do [
          SETFLAGBIT FLAG_AF (False), DOFLAG_ZFw, DOFLAG_SFw, DOFLAG_PF] s)
     | t_TESTw \<Rightarrow> Some (seq_do [
          SETFLAGBIT FLAG_AF (False), DOFLAG_ZFw, DOFLAG_SFw, DOFLAG_PF] s)
     | t_ANDw \<Rightarrow> Some (seq_do [
          SETFLAGBIT FLAG_AF (False), DOFLAG_ZFw, DOFLAG_SFw, DOFLAG_PF] s)
     | t_XORw \<Rightarrow> Some (seq_do [
          SETFLAGBIT FLAG_AF (False), DOFLAG_ZFw, DOFLAG_SFw, DOFLAG_PF] s)
     | t_ORd \<Rightarrow> Some (seq_do [
          SETFLAGBIT FLAG_AF (False), DOFLAG_ZFd, DOFLAG_SFd, DOFLAG_PF] s)
     | t_TESTd \<Rightarrow> Some (seq_do [
          SETFLAGBIT FLAG_AF (False), DOFLAG_ZFd, DOFLAG_SFd, DOFLAG_PF] s)
     | t_ANDd \<Rightarrow> Some (seq_do [
          SETFLAGBIT FLAG_AF (False), DOFLAG_ZFd, DOFLAG_SFd, DOFLAG_PF] s)
     | t_XORd \<Rightarrow> Some (seq_do [
          SETFLAGBIT FLAG_AF (False), DOFLAG_ZFd, DOFLAG_SFd, DOFLAG_PF] s)
     | _ \<Rightarrow> None)"

definition FillFlagsNoCFOF_shift :: "'a cpu_scheme \<Rightarrow> 'a cpu_scheme option" where
  "FillFlagsNoCFOF_shift s = (case lf_type s of
       t_DSHLw \<Rightarrow> Some (seq_do [DOFLAG_ZFw, DOFLAG_SFw, DOFLAG_PF] s)
     | t_DSHRw \<Rightarrow> Some (seq_do [DOFLAG_ZFw, DOFLAG_SFw, DOFLAG_PF] s)
     | t_DSHLd \<Rightarrow> Some (seq_do [DOFLAG_ZFd, DOFLAG_SFd, DOFLAG_PF] s)
     | t_DSHRd \<Rightarrow> Some (seq_do [DOFLAG_ZFd, DOFLAG_SFd, DOFLAG_PF] s)
     | t_SHLb \<Rightarrow> Some (seq_do [
          DOFLAG_ZFb, DOFLAG_SFb, DOFLAG_PF,
          SETFLAGBIT FLAG_AF (lf_var2b s AND 0x1f \<noteq> 0)] s)
     | t_SHRb \<Rightarrow> Some (seq_do [
          DOFLAG_ZFb, DOFLAG_SFb, DOFLAG_PF,
          SETFLAGBIT FLAG_AF (lf_var2b s AND 0x1f \<noteq> 0)] s)
     | t_SARb \<Rightarrow> Some (seq_do [
          DOFLAG_ZFb, DOFLAG_SFb, DOFLAG_PF,
          SETFLAGBIT FLAG_AF (lf_var2b s AND 0x1f \<noteq> 0)] s)
     | t_SHLw \<Rightarrow> Some (seq_do [
          DOFLAG_ZFw, DOFLAG_SFw, DOFLAG_PF,
          SETFLAGBIT FLAG_AF (lf_var2w s AND 0x1f \<noteq> 0)] s)
     | t_SHRw \<Rightarrow> Some (seq_do [
          DOFLAG_ZFw, DOFLAG_SFw, DOFLAG_PF,
          SETFLAGBIT FLAG_AF (lf_var2w s AND 0x1f \<noteq> 0)] s)
     | t_SARw \<Rightarrow> Some (seq_do [
          DOFLAG_ZFw, DOFLAG_SFw, DOFLAG_PF,
          SETFLAGBIT FLAG_AF (lf_var2w s AND 0x1f \<noteq> 0)] s)
     | t_SHLd \<Rightarrow> Some (seq_do [
          DOFLAG_ZFd, DOFLAG_SFd, DOFLAG_PF,
          SETFLAGBIT FLAG_AF (lf_var2d s AND 0x1f \<noteq> 0)] s)
     | t_SHRd \<Rightarrow> Some (seq_do [
          DOFLAG_ZFd, DOFLAG_SFd, DOFLAG_PF,
          SETFLAGBIT FLAG_AF (lf_var2d s AND 0x1f \<noteq> 0)] s)
     | t_SARd \<Rightarrow> Some (seq_do [
          DOFLAG_ZFd, DOFLAG_SFd, DOFLAG_PF,
          SETFLAGBIT FLAG_AF (lf_var2d s AND 0x1f \<noteq> 0)] s)
     | _ \<Rightarrow> None)"

definition FillFlagsNoCFOF_incdec :: "'a cpu_scheme \<Rightarrow> 'a cpu_scheme option" where
  "FillFlagsNoCFOF_incdec s = (case lf_type s of
       t_INCb \<Rightarrow> Some (seq_do [
          SETFLAGBIT FLAG_AF (lf_resb s AND 0x0f = 0), DOFLAG_ZFb, DOFLAG_SFb, DOFLAG_PF] s)
     | t_INCw \<Rightarrow> Some (seq_do [
          SETFLAGBIT FLAG_AF (lf_resw s AND 0x0f = 0), DOFLAG_ZFw, DOFLAG_SFw, DOFLAG_PF] s)
     | t_INCd \<Rightarrow> Some (seq_do [
          SETFLAGBIT FLAG_AF (lf_resd s AND 0x0f = 0), DOFLAG_ZFd, DOFLAG_SFd, DOFLAG_PF] s)
     | t_DECb \<Rightarrow> Some (seq_do [
          SETFLAGBIT FLAG_AF (lf_resb s AND 0x0f = 0x0f), DOFLAG_ZFb, DOFLAG_SFb, DOFLAG_PF] s)
     | t_DECw \<Rightarrow> Some (seq_do [
          SETFLAGBIT FLAG_AF (lf_resw s AND 0x0f = 0x0f), DOFLAG_ZFw, DOFLAG_SFw, DOFLAG_PF] s)
     | t_DECd \<Rightarrow> Some (seq_do [
          SETFLAGBIT FLAG_AF (lf_resd s AND 0x0f = 0x0f), DOFLAG_ZFd, DOFLAG_SFd, DOFLAG_PF] s)
     | t_NEGb \<Rightarrow> Some (seq_do [
          SETFLAGBIT FLAG_AF (lf_resb s AND 0x0f \<noteq> 0), DOFLAG_ZFb, DOFLAG_SFb,
          DOFLAG_PF] s)
     | t_NEGw \<Rightarrow> Some (seq_do [
          SETFLAGBIT FLAG_AF (lf_resw s AND 0x0f \<noteq> 0), DOFLAG_ZFw, DOFLAG_SFw,
          DOFLAG_PF] s)
     | t_NEGd \<Rightarrow> Some (seq_do [
          SETFLAGBIT FLAG_AF (lf_resd s AND 0x0f \<noteq> 0), DOFLAG_ZFd, DOFLAG_SFd,
          DOFLAG_PF] s)
     | _ \<Rightarrow> None)"

text \<open>
  \<^verbatim>\<open>FillFlags\<close> returns the register and forgets the pending operation; an unhandled kind
  (rotates through carry and the two sentinels) logs an error, returns 0 and keeps the kind.
\<close>

definition FillFlags :: "'a cpu_scheme \<Rightarrow> u32 \<times> 'a cpu_scheme" where
  "FillFlags s =
     (let finish = (\<lambda>t. (reg_flags t, t\<lparr>lf_type := t_UNKNOWN\<rparr>))
      in if lf_type s = t_UNKNOWN \<or> lf_type s = t_DIV \<or> lf_type s = t_MUL then finish s
         else (case FillFlags_arith s of Some t \<Rightarrow> finish t | None \<Rightarrow>
              (case FillFlags_logic s of Some t \<Rightarrow> finish t | None \<Rightarrow>
              (case FillFlags_shift s of Some t \<Rightarrow> finish t | None \<Rightarrow>
              (case FillFlags_incdec s of Some t \<Rightarrow> finish t | None \<Rightarrow> (0, s))))))"

text \<open>\<^verbatim>\<open>FillFlagsNoCFOF\<close> has no early return: an unhandled kind is forgotten as well.\<close>

definition FillFlagsNoCFOF :: "'a cpu_scheme \<Rightarrow> 'a cpu_scheme" where
  "FillFlagsNoCFOF s =
     (let finish = (\<lambda>t. t\<lparr>lf_type := t_UNKNOWN\<rparr>)
      in if lf_type s = t_UNKNOWN then s
         else if lf_type s = t_DIV \<or> lf_type s = t_MUL then finish s
         else (case FillFlagsNoCFOF_arith s of Some t \<Rightarrow> finish t | None \<Rightarrow>
              (case FillFlagsNoCFOF_logic s of Some t \<Rightarrow> finish t | None \<Rightarrow>
              (case FillFlagsNoCFOF_shift s of Some t \<Rightarrow> finish t | None \<Rightarrow>
              (case FillFlagsNoCFOF_incdec s of Some t \<Rightarrow> finish t | None \<Rightarrow> finish s)))))"

definition DestroyConditionFlags :: "'a cpu_scheme \<Rightarrow> 'a cpu_scheme" where
  "DestroyConditionFlags s = s\<lparr>lf_type := t_UNKNOWN\<rparr>"

section \<open>Setting flags wholesale\<close>

definition SETFLAGSb :: "u8 \<Rightarrow> 'a cpu_scheme \<Rightarrow> 'a cpu_scheme" where
  "SETFLAGSb FLAGB s = seq_do
     [SETFLAGBIT FLAG_OF (get_OF s \<noteq> 0),
      \<lambda>t. t\<lparr>lf_type := t_UNKNOWN\<rparr>,
      CPU_SetFlags (ucast FLAGB) (FMASK_NORMAL AND 0xff)] s"

definition SETFLAGSw :: "u16 \<Rightarrow> 'a cpu_scheme \<Rightarrow> 'a cpu_scheme" where
  "SETFLAGSw FLAGW s = CPU_SetFlagsw (ucast FLAGW) (s\<lparr>lf_type := t_UNKNOWN\<rparr>)"

definition SETFLAGSd :: "u32 \<Rightarrow> 'a cpu_scheme \<Rightarrow> 'a cpu_scheme" where
  "SETFLAGSd FLAGD s = CPU_SetFlagsd FLAGD (s\<lparr>lf_type := t_UNKNOWN\<rparr>)"

definition LoadCF :: "'a cpu_scheme \<Rightarrow> 'a cpu_scheme" where
  "LoadCF s = SETFLAGBIT FLAG_CF (get_CF s \<noteq> 0) s"
definition LoadZF :: "'a cpu_scheme \<Rightarrow> 'a cpu_scheme" where
  "LoadZF s = SETFLAGBIT FLAG_ZF (get_ZF s \<noteq> 0) s"
definition LoadSF :: "'a cpu_scheme \<Rightarrow> 'a cpu_scheme" where
  "LoadSF s = SETFLAGBIT FLAG_SF (get_SF s \<noteq> 0) s"
definition LoadOF :: "'a cpu_scheme \<Rightarrow> 'a cpu_scheme" where
  "LoadOF s = SETFLAGBIT FLAG_OF (get_OF s \<noteq> 0) s"
definition LoadAF :: "'a cpu_scheme \<Rightarrow> 'a cpu_scheme" where
  "LoadAF s = SETFLAGBIT FLAG_AF (get_AF s \<noteq> 0) s"

text \<open>The sixteen condition codes the conditional jumps and moves test.\<close>

definition TFLG_O :: "'a cpu_scheme \<Rightarrow> bool" where "TFLG_O s = (get_OF s \<noteq> 0)"
definition TFLG_NO :: "'a cpu_scheme \<Rightarrow> bool" where "TFLG_NO s = (get_OF s = 0)"
definition TFLG_B :: "'a cpu_scheme \<Rightarrow> bool" where "TFLG_B s = (get_CF s \<noteq> 0)"
definition TFLG_NB :: "'a cpu_scheme \<Rightarrow> bool" where "TFLG_NB s = (get_CF s = 0)"
definition TFLG_Z :: "'a cpu_scheme \<Rightarrow> bool" where "TFLG_Z s = (get_ZF s \<noteq> 0)"
definition TFLG_NZ :: "'a cpu_scheme \<Rightarrow> bool" where "TFLG_NZ s = (get_ZF s = 0)"
definition TFLG_BE :: "'a cpu_scheme \<Rightarrow> bool" where
  "TFLG_BE s = (get_CF s \<noteq> 0 \<or> get_ZF s \<noteq> 0)"
definition TFLG_NBE :: "'a cpu_scheme \<Rightarrow> bool" where
  "TFLG_NBE s = (get_CF s = 0 \<and> get_ZF s = 0)"
definition TFLG_S :: "'a cpu_scheme \<Rightarrow> bool" where "TFLG_S s = (get_SF s \<noteq> 0)"
definition TFLG_NS :: "'a cpu_scheme \<Rightarrow> bool" where "TFLG_NS s = (get_SF s = 0)"
definition TFLG_P :: "'a cpu_scheme \<Rightarrow> bool" where "TFLG_P s = (get_PF s \<noteq> 0)"
definition TFLG_NP :: "'a cpu_scheme \<Rightarrow> bool" where "TFLG_NP s = (get_PF s = 0)"
definition TFLG_L :: "'a cpu_scheme \<Rightarrow> bool" where
  "TFLG_L s = ((get_SF s \<noteq> 0) \<noteq> (get_OF s \<noteq> 0))"
definition TFLG_NL :: "'a cpu_scheme \<Rightarrow> bool" where
  "TFLG_NL s = ((get_SF s \<noteq> 0) = (get_OF s \<noteq> 0))"
definition TFLG_LE :: "'a cpu_scheme \<Rightarrow> bool" where
  "TFLG_LE s = (get_ZF s \<noteq> 0 \<or> ((get_SF s \<noteq> 0) \<noteq> (get_OF s \<noteq> 0)))"
definition TFLG_NLE :: "'a cpu_scheme \<Rightarrow> bool" where
  "TFLG_NLE s = (get_ZF s = 0 \<and> ((get_SF s \<noteq> 0) = (get_OF s \<noteq> 0)))"

section \<open>Flags after a division\<close>

text \<open>
  \<^verbatim>\<open>CpuTestFlags\<close> collects the flags to clear and to set. The two asserted conditions (only test
  flags are cleared, only cleared flags are set) are theorems below.
\<close>

record CpuTestFlags =
  clear_mask :: u32
  has_carry :: bool
  has_odd_parity :: bool
  has_auxiliary :: bool
  is_zero :: bool
  is_sign_negative :: bool
  has_overflow :: bool

definition GetSetMask :: "CpuTestFlags \<Rightarrow> u32" where
  "GetSetMask f =
     (if has_carry f then FLAG_CF else 0) OR
     (if has_odd_parity f then FLAG_PF else 0) OR
     (if has_auxiliary f then FLAG_AF else 0) OR
     (if is_zero f then FLAG_ZF else 0) OR
     (if is_sign_negative f then FLAG_SF else 0) OR
     (if has_overflow f then FLAG_OF else 0)"

definition ApplyTestFlags :: "CpuTestFlags \<Rightarrow> 'a cpu_scheme \<Rightarrow> 'a cpu_scheme" where
  "ApplyTestFlags f s =
     s\<lparr>reg_flags := (reg_flags s AND NOT (clear_mask f)) OR GetSetMask f\<rparr>"

definition lower_8_has_odd_parity :: "'w::len word \<Rightarrow> bool" where
  "lower_8_has_odd_parity v = (parity_lookup ! unat (v AND 0xff) \<noteq> 0)"

text \<open>
  \<^verbatim>\<open>set_cpu_test_flags_for_division\<close> is instantiated at three unsigned and three signed types; the
  first argument says which.
\<close>

definition is_negative :: "bool \<Rightarrow> 'w::len word \<Rightarrow> bool" where
  "is_negative is_signed v = (is_signed \<and> sint v < 0)"

definition division_test_flags :: "bool \<Rightarrow> 'w::len word \<Rightarrow> CpuTestFlags" where
  "division_test_flags is_signed quo =
     \<lparr>clear_mask = FLAG_CF OR FLAG_OF OR FLAG_PF OR FLAG_SF OR FLAG_ZF,
      has_carry = False, has_odd_parity = lower_8_has_odd_parity quo,
      has_auxiliary = False, is_zero = (quo = 0),
      is_sign_negative = is_negative is_signed quo, has_overflow = False\<rparr>"

definition set_cpu_test_flags_for_division ::
    "bool \<Rightarrow> 'w::len word \<Rightarrow> 'a cpu_scheme \<Rightarrow> 'a cpu_scheme" where
  "set_cpu_test_flags_for_division is_signed quo s =
     ApplyTestFlags (division_test_flags is_signed quo) (s\<lparr>lf_type := t_UNKNOWN\<rparr>)"

end
