(* ===== verification/Lazy_Width.thy ===== *)
theory Lazy_Width
  imports Cpu_Flags
begin

text \<open>
  The laws of the lazy flags. The interface \<open>lazy_width\<close> states what the getters and \<open>FillFlags\<close>
  compute for one operand width; it is interpreted for 8, 16 and 32 bits, and from the three
  interpretations follows that \<open>FillFlags\<close> writes exactly what the getters report in every
  state \<open>lf_coherent\<close> admits. The parity table is shown to be the even-parity predicate.
\<close>

unbundle bit_operations_syntax

section \<open>Laws of the register primitives\<close>

lemma flag_mask_values [flag_masks]:
  "FLAG_CF = 1" "FLAG_PF = 4" "FLAG_AF = 0x10" "FLAG_ZF = 0x40" "FLAG_SF = 0x80"
  "FLAG_OF = 0x800" "FLAG_TF = 0x100" "FLAG_IF = 0x200" "FLAG_DF = 0x400"
  "FLAG_IOPL = 0x3000" "FLAG_NT = 0x4000"
  by (simp_all add: FLAG_CF_def FLAG_PF_def FLAG_AF_def FLAG_ZF_def FLAG_SF_def FLAG_OF_def
      FLAG_TF_def FLAG_IF_def FLAG_DF_def FLAG_IOPL_def FLAG_NT_def push_bit_eq_mult)

lemma flag_group_values [flag_masks]:
  "FMASK_TEST = 0x8d5" "FMASK_NORMAL = 0xfd5" "FMASK_ALL = 0x7fd5"
  by (simp_all add: FMASK_TEST_def FMASK_NORMAL_def FMASK_ALL_def flag_mask_values)

lemma GETFLAG_SETFLAGBIT_same [simp]:
  "GETFLAG m (SETFLAGBIT m b s) = (if b then m else 0)"
  by (simp add: GETFLAG_def SETFLAGBIT_def word_masked_or_self)

lemma GETFLAG_SETFLAGBIT_other:
  "m' AND m = 0 \<Longrightarrow> GETFLAG m (SETFLAGBIT m' b s) = GETFLAG m s"
  by (simp add: GETFLAG_def SETFLAGBIT_def word_masked_disjoint)

text \<open>The six status flags have pairwise different masks.\<close>

lemma GETFLAG_SETFLAGBIT_distinct [simp]:
  "GETFLAG FLAG_CF (SETFLAGBIT FLAG_PF b s) = GETFLAG FLAG_CF s"
  "GETFLAG FLAG_CF (SETFLAGBIT FLAG_AF b s) = GETFLAG FLAG_CF s"
  "GETFLAG FLAG_CF (SETFLAGBIT FLAG_ZF b s) = GETFLAG FLAG_CF s"
  "GETFLAG FLAG_CF (SETFLAGBIT FLAG_SF b s) = GETFLAG FLAG_CF s"
  "GETFLAG FLAG_CF (SETFLAGBIT FLAG_OF b s) = GETFLAG FLAG_CF s"
  "GETFLAG FLAG_PF (SETFLAGBIT FLAG_CF b s) = GETFLAG FLAG_PF s"
  "GETFLAG FLAG_PF (SETFLAGBIT FLAG_AF b s) = GETFLAG FLAG_PF s"
  "GETFLAG FLAG_PF (SETFLAGBIT FLAG_ZF b s) = GETFLAG FLAG_PF s"
  "GETFLAG FLAG_PF (SETFLAGBIT FLAG_SF b s) = GETFLAG FLAG_PF s"
  "GETFLAG FLAG_PF (SETFLAGBIT FLAG_OF b s) = GETFLAG FLAG_PF s"
  "GETFLAG FLAG_AF (SETFLAGBIT FLAG_CF b s) = GETFLAG FLAG_AF s"
  "GETFLAG FLAG_AF (SETFLAGBIT FLAG_PF b s) = GETFLAG FLAG_AF s"
  "GETFLAG FLAG_AF (SETFLAGBIT FLAG_ZF b s) = GETFLAG FLAG_AF s"
  "GETFLAG FLAG_AF (SETFLAGBIT FLAG_SF b s) = GETFLAG FLAG_AF s"
  "GETFLAG FLAG_AF (SETFLAGBIT FLAG_OF b s) = GETFLAG FLAG_AF s"
  "GETFLAG FLAG_ZF (SETFLAGBIT FLAG_CF b s) = GETFLAG FLAG_ZF s"
  "GETFLAG FLAG_ZF (SETFLAGBIT FLAG_PF b s) = GETFLAG FLAG_ZF s"
  "GETFLAG FLAG_ZF (SETFLAGBIT FLAG_AF b s) = GETFLAG FLAG_ZF s"
  "GETFLAG FLAG_ZF (SETFLAGBIT FLAG_SF b s) = GETFLAG FLAG_ZF s"
  "GETFLAG FLAG_ZF (SETFLAGBIT FLAG_OF b s) = GETFLAG FLAG_ZF s"
  "GETFLAG FLAG_SF (SETFLAGBIT FLAG_CF b s) = GETFLAG FLAG_SF s"
  "GETFLAG FLAG_SF (SETFLAGBIT FLAG_PF b s) = GETFLAG FLAG_SF s"
  "GETFLAG FLAG_SF (SETFLAGBIT FLAG_AF b s) = GETFLAG FLAG_SF s"
  "GETFLAG FLAG_SF (SETFLAGBIT FLAG_ZF b s) = GETFLAG FLAG_SF s"
  "GETFLAG FLAG_SF (SETFLAGBIT FLAG_OF b s) = GETFLAG FLAG_SF s"
  "GETFLAG FLAG_OF (SETFLAGBIT FLAG_CF b s) = GETFLAG FLAG_OF s"
  "GETFLAG FLAG_OF (SETFLAGBIT FLAG_PF b s) = GETFLAG FLAG_OF s"
  "GETFLAG FLAG_OF (SETFLAGBIT FLAG_AF b s) = GETFLAG FLAG_OF s"
  "GETFLAG FLAG_OF (SETFLAGBIT FLAG_ZF b s) = GETFLAG FLAG_OF s"
  "GETFLAG FLAG_OF (SETFLAGBIT FLAG_SF b s) = GETFLAG FLAG_OF s"
  by (rule GETFLAG_SETFLAGBIT_other, simp add: flag_masks)+

lemma flag_mask_nonzero [simp]:
  "FLAG_CF \<noteq> 0" "FLAG_PF \<noteq> 0" "FLAG_AF \<noteq> 0" "FLAG_ZF \<noteq> 0" "FLAG_SF \<noteq> 0" "FLAG_OF \<noteq> 0"
  by (simp_all add: flag_masks)

lemma GETFLAG_lf_type [simp]: "GETFLAG m (s\<lparr>lf_type := t\<rparr>) = GETFLAG m s"
  by (simp add: GETFLAG_def)

lemma SETFLAGBIT_frame [simp]:
  "lf_var1d (SETFLAGBIT m b s) = lf_var1d s" "lf_var2d (SETFLAGBIT m b s) = lf_var2d s"
  "lf_resd (SETFLAGBIT m b s) = lf_resd s" "lf_type (SETFLAGBIT m b s) = lf_type s"
  "lf_oldcf (SETFLAGBIT m b s) = lf_oldcf s" "reg_eax (SETFLAGBIT m b s) = reg_eax s"
  "reg_edx (SETFLAGBIT m b s) = reg_edx s" "cpl (SETFLAGBIT m b s) = cpl s"
  "lf_var1b (SETFLAGBIT m b s) = lf_var1b s" "lf_var2b (SETFLAGBIT m b s) = lf_var2b s"
  "lf_resb (SETFLAGBIT m b s) = lf_resb s" "lf_var1w (SETFLAGBIT m b s) = lf_var1w s"
  "lf_var2w (SETFLAGBIT m b s) = lf_var2w s" "lf_resw (SETFLAGBIT m b s) = lf_resw s"
  by (simp_all add: SETFLAGBIT_def lf_var1b_def lf_var2b_def lf_resb_def
      lf_var1w_def lf_var2w_def lf_resw_def)

lemma SETFLAGBIT_alt:
  "y = (if b then m else 0) \<Longrightarrow> s\<lparr>reg_flags := (reg_flags s AND NOT m) OR y\<rparr> = SETFLAGBIT m b s"
  by (simp add: SETFLAGBIT_def word_set_masked)

section \<open>The parity table\<close>

text \<open>The number of set bits of a byte.\<close>

definition ones8 :: "u8 \<Rightarrow> nat" where
  "ones8 b = length (filter (bit b) [0..<8])"

lemma parity_table:
  "parity_lookup = map (\<lambda>i::int.
     if even (length (filter (\<lambda>k. odd (i div k)) [1, 2, 4, 8, 16, 32, 64, 128]))
     then FLAG_PF16 else 0) [0..255]"
  by code_simp

lemma ones8_div: "ones8 b = length (filter (\<lambda>k. odd (uint b div k)) [1, 2, 4, 8, 16, 32, 64, 128])"
proof -
  have b: "bit b n = odd (uint b div 2 ^ n)" for n
    using bit_uint_iff [of b n] by (auto simp: bit_iff_odd [of "uint b"] dest: bit_imp_le_length)
  have u: "[0..<8] = [0, 1, 2, 3, 4, 5, 6, 7::nat]" by (simp add: upt_rec)
  show ?thesis unfolding ones8_def u by (simp add: b)
qed

lemma nth_map_upto: "int n \<le> j \<Longrightarrow> map f [0..j] ! n = f (int n)"
  by (simp add: nth_upto)

lemma parity_lookup_even:
  "parity_lookup ! unat b = (if even (ones8 b) then FLAG_PF16 else 0)"
proof -
  have "int (unat b) \<le> 255" using uint_lt2p [of b] by simp
  from nth_map_upto [OF this] show ?thesis
    by (simp only: parity_table ones8_div uint_nat)
qed

section \<open>FillFlags against the getters\<close>

text \<open>Each \<open>DOFLAG\<close> statement is a \<^verbatim>\<open>SETFLAGBIT\<close> of the flag's defining condition.\<close>

lemma DOFLAG_PF_SETFLAGBIT: "DOFLAG_PF s = SETFLAGBIT FLAG_PF (even (ones8 (lf_resb s))) s"
  unfolding DOFLAG_PF_def
  by (rule SETFLAGBIT_alt) (simp add: parity_lookup_even flag_masks)

lemma DOFLAG_AF_SETFLAGBIT:
  "DOFLAG_AF s = SETFLAGBIT FLAG_AF (bit (lf_var1b s XOR lf_var2b s XOR lf_resb s) 4) s"
  unfolding DOFLAG_AF_def
  by (rule SETFLAGBIT_alt)
     (use word_and_power [of 4 "lf_var1b s XOR lf_var2b s XOR lf_resb s"] in
       \<open>simp add: flag_masks\<close>)

lemma DOFLAG_SF_SETFLAGBIT:
  "DOFLAG_SFb s = SETFLAGBIT FLAG_SF (bit (lf_resb s) 7) s"
  "DOFLAG_SFw s = SETFLAGBIT FLAG_SF (bit (lf_resw s) 15) s"
  "DOFLAG_SFd s = SETFLAGBIT FLAG_SF (bit (lf_resd s) 31) s"
  unfolding DOFLAG_SFb_def DOFLAG_SFw_def DOFLAG_SFd_def
  by (rule SETFLAGBIT_alt,
      use word_and_power [of 7 "lf_resb s"] word_and_power [of 15 "lf_resw s"]
        word_and_power [of 31 "lf_resd s"] in \<open>simp add: flag_masks drop_bit_eq_div\<close>)+

lemmas DOFLAG_SETFLAGBIT =
  DOFLAG_PF_SETFLAGBIT DOFLAG_AF_SETFLAGBIT DOFLAG_SF_SETFLAGBIT
  DOFLAG_ZFb_def DOFLAG_ZFw_def DOFLAG_ZFd_def

lemmas FillFlags_defs =
  FillFlags_def FillFlags_arith_def FillFlags_logic_def FillFlags_shift_def FillFlags_incdec_def

lemmas FillFlagsNoCFOF_defs =
  FillFlagsNoCFOF_def FillFlagsNoCFOF_arith_def FillFlagsNoCFOF_logic_def
  FillFlagsNoCFOF_shift_def FillFlagsNoCFOF_incdec_def


section \<open>The architectural flags and the register view\<close>

text \<open>The six status flags as the architecture defines them, and the two places they live.\<close>

record status_flags =
  f_CF :: bool
  f_PF :: bool
  f_AF :: bool
  f_ZF :: bool
  f_SF :: bool
  f_OF :: bool

definition lazy_view :: "'a cpu_scheme \<Rightarrow> status_flags" where
  "lazy_view s = \<lparr>f_CF = get_CF s \<noteq> 0, f_PF = get_PF s \<noteq> 0, f_AF = get_AF s \<noteq> 0,
     f_ZF = get_ZF s \<noteq> 0, f_SF = get_SF s \<noteq> 0, f_OF = get_OF s \<noteq> 0\<rparr>"

definition reg_view :: "u32 \<Rightarrow> status_flags" where
  "reg_view r = \<lparr>f_CF = r AND FLAG_CF \<noteq> 0, f_PF = r AND FLAG_PF \<noteq> 0, f_AF = r AND FLAG_AF \<noteq> 0,
     f_ZF = r AND FLAG_ZF \<noteq> 0, f_SF = r AND FLAG_SF \<noteq> 0, f_OF = r AND FLAG_OF \<noteq> 0\<rparr>"

text \<open>The bits of FLAGS that are no status flag.\<close>

definition reg_rest :: "'a cpu_scheme \<Rightarrow> u32" where
  "reg_rest s = reg_flags s AND NOT FMASK_TEST"

lemma reg_view_state:
  "reg_view (reg_flags s) = \<lparr>f_CF = GETFLAG FLAG_CF s \<noteq> 0, f_PF = GETFLAG FLAG_PF s \<noteq> 0,
     f_AF = GETFLAG FLAG_AF s \<noteq> 0, f_ZF = GETFLAG FLAG_ZF s \<noteq> 0,
     f_SF = GETFLAG FLAG_SF s \<noteq> 0, f_OF = GETFLAG FLAG_OF s \<noteq> 0\<rparr>"
  by (simp add: reg_view_def GETFLAG_def)

lemma lazy_view_UNKNOWN: "lf_type s = t_UNKNOWN \<Longrightarrow> lazy_view s = reg_view (reg_flags s)"
  by (simp add: lazy_view_def reg_view_def get_CF_def get_PF_def get_AF_def get_ZF_def get_SF_def
      get_OF_def GETFLAG_def)

lemma reg_rest_SETFLAGBIT [simp]:
  "reg_rest (SETFLAGBIT FLAG_CF b s) = reg_rest s" "reg_rest (SETFLAGBIT FLAG_PF b s) = reg_rest s"
  "reg_rest (SETFLAGBIT FLAG_AF b s) = reg_rest s" "reg_rest (SETFLAGBIT FLAG_ZF b s) = reg_rest s"
  "reg_rest (SETFLAGBIT FLAG_SF b s) = reg_rest s" "reg_rest (SETFLAGBIT FLAG_OF b s) = reg_rest s"
  unfolding reg_rest_def SETFLAGBIT_def
  by (cases b; simp; rule word_masked_disjoint; simp add: flag_masks)+

lemma reg_rest_lf_type [simp]: "reg_rest (s\<lparr>lf_type := t\<rparr>) = reg_rest s"
  by (simp add: reg_rest_def)

lemma get_PF_even: "lf_type s \<noteq> t_UNKNOWN \<Longrightarrow> get_PF s \<noteq> 0 \<longleftrightarrow> even (ones8 (lf_resb s))"
  by (auto simp: get_PF_def parity_lookup_even split: lftype.split)

text \<open>
  \<open>fill_ok s\<close>: from state \<open>s\<close>, \<open>FillFlags\<close> returns the register it leaves, the register holds the
  flags the getters reported, its other bits are unchanged and nothing is pending.
\<close>

definition fill_ok :: "'a cpu_scheme \<Rightarrow> bool" where
  "fill_ok s = (case FillFlags s of (r, t) \<Rightarrow>
     r = reg_flags t \<and> lf_type t = t_UNKNOWN \<and> reg_view r = lazy_view s \<and> reg_rest t = reg_rest s)"

text \<open>
  \<open>fill_no_cf_of_ok s\<close>: \<open>FillFlagsNoCFOF\<close> does the same for the four flags other than carry and
  overflow, which keep their register bits.
\<close>

definition fill_no_cf_of_ok :: "'a cpu_scheme \<Rightarrow> bool" where
  "fill_no_cf_of_ok s = (let t = FillFlagsNoCFOF s in
     lf_type t = t_UNKNOWN \<and> reg_rest t = reg_rest s \<and>
     reg_view (reg_flags t) = (lazy_view s)
       \<lparr>f_CF := f_CF (reg_view (reg_flags s)), f_OF := f_OF (reg_view (reg_flags s))\<rparr>)"

definition fill_done :: "'a cpu_scheme \<Rightarrow> u32 \<times> 'a cpu_scheme" where
  "fill_done t = (reg_flags t, t\<lparr>lf_type := t_UNKNOWN\<rparr>)"

lemma fill_okI:
  assumes "FillFlags s = fill_done t" and "reg_view (reg_flags t) = lazy_view s"
    and "reg_rest t = reg_rest s"
  shows "fill_ok s"
  using assms by (simp add: fill_ok_def fill_done_def)

lemma f_OF_update_same: "v\<lparr>f_OF := b\<rparr> = v \<longleftrightarrow> b = f_OF v"
  by (cases v) auto

section \<open>One width of the lazy flags\<close>

text \<open>
  The 8-, 16- and 32-bit cases of the getters and of \<open>FillFlags\<close> are the same code over three
  views of the operands. The interface states what the code of one width computes, over the
  view \<open>v1\<close>, \<open>v2\<close>, \<open>r\<close> and the tags of that width; the correctness of \<open>FillFlags\<close> is proved
  once from it and holds for the three interpretations below.
\<close>

locale lazy_width =
  fixes v1 v2 r :: "cpu \<Rightarrow> 'w::len word"
    and tADD tADC tSBB tSUB tCMP tOR tAND tXOR tTEST :: lftype
    and tINC tDEC tNEG tSHL tSHR tSAR :: lftype
    and zf sf :: "cpu \<Rightarrow> cpu"
    and shl_cf :: "cpu \<Rightarrow> bool"
  assumes width: "8 \<le> LENGTH('w)"
    and low: "ucast (v1 s) = lf_var1b s" "ucast (v2 s) = lf_var2b s" "ucast (r s) = lf_resb s"
    and pending: "t_UNKNOWN \<notin> {tADD, tADC, tSBB, tSUB, tCMP, tOR, tAND, tXOR, tTEST,
      tINC, tDEC, tNEG, tSHL, tSHR, tSAR}"
    and frame: "r (SETFLAGBIT m b s) = r s"
    and zf: "zf s = SETFLAGBIT FLAG_ZF (r s = 0) s"
    and sf: "sf s = SETFLAGBIT FLAG_SF (sint (r s) < 0) s"
    and CF_ADD: "lf_type s = tADD \<Longrightarrow> get_CF s \<noteq> 0 \<longleftrightarrow> r s < v1 s"
    and CF_ADC: "lf_type s = tADC \<Longrightarrow> get_CF s \<noteq> 0 \<longleftrightarrow> r s < v1 s \<or> lf_oldcf s \<noteq> 0 \<and> r s = v1 s"
    and CF_SBB: "lf_type s = tSBB \<Longrightarrow> get_CF s \<noteq> 0 \<longleftrightarrow> v1 s < r s \<or> lf_oldcf s \<noteq> 0 \<and> v2 s = - 1"
    and CF_SUB: "lf_type s \<in> {tSUB, tCMP} \<Longrightarrow> get_CF s \<noteq> 0 \<longleftrightarrow> v1 s < v2 s"
    and CF_logic: "lf_type s \<in> {tOR, tAND, tXOR, tTEST} \<Longrightarrow> get_CF s = 0"
    and CF_INC: "lf_type s \<in> {tINC, tDEC} \<Longrightarrow> get_CF s = GETFLAG FLAG_CF s"
    and CF_NEG: "lf_type s = tNEG \<Longrightarrow> get_CF s \<noteq> 0 \<longleftrightarrow> v1 s \<noteq> 0"
    and CF_SHL: "lf_type s = tSHL \<Longrightarrow> get_CF s \<noteq> 0 \<longleftrightarrow> shl_cf s"
    and shl_cf: "unat (lf_var2b s) < 32 \<Longrightarrow> shl_cf s \<longleftrightarrow>
      unat (lf_var2b s) \<le> LENGTH('w) \<and> bit (v1 s) (LENGTH('w) - unat (lf_var2b s))"
    and CF_SHR: "lf_type s = tSHR \<Longrightarrow> get_CF s \<noteq> 0 \<longleftrightarrow> bit (v1 s) (unat (lf_var2b_minus_one s))"
    and CF_SAR: "lf_type s = tSAR \<Longrightarrow> get_CF s \<noteq> 0 \<longleftrightarrow>
      bit (signed_drop_bit (unat (lf_var2b_minus_one s)) (v1 s)) 0"
    and AF_arith: "lf_type s \<in> {tADD, tADC, tSBB, tSUB, tCMP} \<Longrightarrow>
      get_AF s \<noteq> 0 \<longleftrightarrow> bit (v1 s XOR v2 s XOR r s) 4"
    and AF_logic: "lf_type s \<in> {tOR, tAND, tXOR, tTEST} \<Longrightarrow> get_AF s = 0"
    and AF_INC: "lf_type s = tINC \<Longrightarrow> get_AF s \<noteq> 0 \<longleftrightarrow> r s AND 0x0f = 0"
    and AF_DEC: "lf_type s = tDEC \<Longrightarrow> get_AF s \<noteq> 0 \<longleftrightarrow> r s AND 0x0f = 0x0f"
    and AF_NEG: "lf_type s = tNEG \<Longrightarrow> get_AF s \<noteq> 0 \<longleftrightarrow> v1 s AND 0x0f \<noteq> 0"
    and AF_shift: "lf_type s \<in> {tSHL, tSHR, tSAR} \<Longrightarrow> get_AF s \<noteq> 0 \<longleftrightarrow> v2 s AND 0x1f \<noteq> 0"
    and ZF_all: "lf_type s \<in> {tADD, tADC, tSBB, tSUB, tCMP, tOR, tAND, tXOR, tTEST,
      tINC, tDEC, tNEG, tSHL, tSHR, tSAR} \<Longrightarrow> get_ZF s \<noteq> 0 \<longleftrightarrow> r s = 0"
    and SF_all: "lf_type s \<in> {tADD, tADC, tSBB, tSUB, tCMP, tOR, tAND, tXOR, tTEST,
      tINC, tDEC, tNEG, tSHL, tSHR, tSAR} \<Longrightarrow> get_SF s \<noteq> 0 \<longleftrightarrow> sint (r s) < 0"
    and OF_ADD: "lf_type s \<in> {tADD, tADC} \<Longrightarrow> get_OF s \<noteq> 0 \<longleftrightarrow>
      (sint (v1 s) < 0 \<longleftrightarrow> sint (v2 s) < 0) \<and> (sint (r s) < 0 \<longleftrightarrow> \<not> sint (v2 s) < 0)"
    and OF_SUB: "lf_type s \<in> {tSBB, tSUB, tCMP} \<Longrightarrow> get_OF s \<noteq> 0 \<longleftrightarrow>
      (sint (v1 s) < 0 \<longleftrightarrow> \<not> sint (v2 s) < 0) \<and> (sint (v1 s) < 0 \<longleftrightarrow> \<not> sint (r s) < 0)"
    and OF_INC: "lf_type s = tINC \<Longrightarrow> get_OF s \<noteq> 0 \<longleftrightarrow> r s = 2 ^ (LENGTH('w) - 1)"
    and OF_DEC: "lf_type s = tDEC \<Longrightarrow> get_OF s \<noteq> 0 \<longleftrightarrow> r s = 2 ^ (LENGTH('w) - 1) - 1"
    and OF_NEG: "lf_type s = tNEG \<Longrightarrow> get_OF s \<noteq> 0 \<longleftrightarrow> v1 s = 2 ^ (LENGTH('w) - 1)"
    and OF_SHL: "lf_type s = tSHL \<Longrightarrow> get_OF s \<noteq> 0 \<longleftrightarrow> (sint (r s) < 0 \<longleftrightarrow> \<not> sint (v1 s) < 0)"
    and OF_SHR: "lf_type s = tSHR \<Longrightarrow> get_OF s \<noteq> 0 \<longleftrightarrow>
      v2 s AND 0x1f = 1 \<and> 2 ^ (LENGTH('w) - 1) < v1 s"
    and OF_none: "lf_type s \<in> {tOR, tAND, tXOR, tTEST, tSAR} \<Longrightarrow> get_OF s = 0"
    and fill_ADD: "lf_type s = tADD \<Longrightarrow> FillFlags s = fill_done (seq_do
      [SETFLAGBIT FLAG_CF (r s < v1 s), DOFLAG_AF, zf, sf,
       SETFLAGBIT FLAG_OF ((sint (v1 s) < 0 \<longleftrightarrow> sint (v2 s) < 0) \<and> (sint (r s) < 0 \<longleftrightarrow> \<not> sint (v1 s) < 0)),
       DOFLAG_PF] s)"
    and fill_ADC: "lf_type s = tADC \<Longrightarrow> FillFlags s = fill_done (seq_do
      [SETFLAGBIT FLAG_CF (r s < v1 s \<or> lf_oldcf s \<noteq> 0 \<and> r s = v1 s), DOFLAG_AF, zf, sf,
       SETFLAGBIT FLAG_OF ((sint (v1 s) < 0 \<longleftrightarrow> sint (v2 s) < 0) \<and> (sint (r s) < 0 \<longleftrightarrow> \<not> sint (v1 s) < 0)),
       DOFLAG_PF] s)"
    and fill_SBB: "lf_type s = tSBB \<Longrightarrow> FillFlags s = fill_done (seq_do
      [SETFLAGBIT FLAG_CF (v1 s < r s \<or> lf_oldcf s \<noteq> 0 \<and> v2 s = - 1), DOFLAG_AF, zf, sf,
       SETFLAGBIT FLAG_OF ((sint (v1 s) < 0 \<longleftrightarrow> \<not> sint (v2 s) < 0) \<and> (sint (v1 s) < 0 \<longleftrightarrow> \<not> sint (r s) < 0)),
       DOFLAG_PF] s)"
    and fill_SUB: "lf_type s \<in> {tSUB, tCMP} \<Longrightarrow> FillFlags s = fill_done (seq_do
      [SETFLAGBIT FLAG_CF (v1 s < v2 s), DOFLAG_AF, zf, sf,
       SETFLAGBIT FLAG_OF ((sint (v1 s) < 0 \<longleftrightarrow> \<not> sint (v2 s) < 0) \<and> (sint (v1 s) < 0 \<longleftrightarrow> \<not> sint (r s) < 0)),
       DOFLAG_PF] s)"
    and fill_logic: "lf_type s \<in> {tOR, tAND, tXOR, tTEST} \<Longrightarrow> FillFlags s = fill_done (seq_do
      [SETFLAGBIT FLAG_CF False, SETFLAGBIT FLAG_AF False, zf, sf, SETFLAGBIT FLAG_OF False,
       DOFLAG_PF] s)"
    and fill_SHL: "lf_type s = tSHL \<Longrightarrow> FillFlags s = fill_done (seq_do
      [SETFLAGBIT FLAG_CF (shl_cf s), zf, sf, SETFLAGBIT FLAG_OF (sint (r s) < 0 \<longleftrightarrow> \<not> sint (v1 s) < 0), DOFLAG_PF,
       SETFLAGBIT FLAG_AF (v2 s AND 0x1f \<noteq> 0)] s)"
    and fill_SHR: "lf_type s = tSHR \<Longrightarrow> FillFlags s = fill_done (seq_do
      [SETFLAGBIT FLAG_CF (bit (v1 s) (unat (lf_var2b_minus_one s))), zf, sf,
       SETFLAGBIT FLAG_OF (v2 s AND 0x1f = 1 \<and> 2 ^ (LENGTH('w) - 1) \<le> v1 s), DOFLAG_PF,
       SETFLAGBIT FLAG_AF (v2 s AND 0x1f \<noteq> 0)] s)"
    and fill_SAR: "lf_type s = tSAR \<Longrightarrow> FillFlags s = fill_done (seq_do
      [SETFLAGBIT FLAG_CF (bit (signed_drop_bit (unat (lf_var2b_minus_one s)) (v1 s)) 0), zf, sf,
       SETFLAGBIT FLAG_OF False, DOFLAG_PF, SETFLAGBIT FLAG_AF (v2 s AND 0x1f \<noteq> 0)] s)"
    and fill_INC: "lf_type s = tINC \<Longrightarrow> FillFlags s = fill_done (seq_do
      [SETFLAGBIT FLAG_AF (r s AND 0x0f = 0), zf, sf,
       SETFLAGBIT FLAG_OF (r s = 2 ^ (LENGTH('w) - 1)), DOFLAG_PF] s)"
    and fill_DEC: "lf_type s = tDEC \<Longrightarrow> FillFlags s = fill_done (seq_do
      [SETFLAGBIT FLAG_AF (r s AND 0x0f = 0x0f), zf, sf,
       SETFLAGBIT FLAG_OF (r s = 2 ^ (LENGTH('w) - 1) - 1), DOFLAG_PF] s)"
    and fill_NEG: "lf_type s = tNEG \<Longrightarrow> FillFlags s = fill_done (seq_do
      [SETFLAGBIT FLAG_CF (v1 s \<noteq> 0), SETFLAGBIT FLAG_AF (r s AND 0x0f \<noteq> 0), zf, sf,
       SETFLAGBIT FLAG_OF (v1 s = 2 ^ (LENGTH('w) - 1)), DOFLAG_PF] s)"
    and nofill_arith: "lf_type s \<in> {tADD, tADC, tSBB, tSUB, tCMP} \<Longrightarrow> FillFlagsNoCFOF s =
      (seq_do [DOFLAG_AF, zf, sf, DOFLAG_PF] s)\<lparr>lf_type := t_UNKNOWN\<rparr>"
    and nofill_logic: "lf_type s \<in> {tOR, tAND, tXOR, tTEST} \<Longrightarrow> FillFlagsNoCFOF s =
      (seq_do [SETFLAGBIT FLAG_AF False, zf, sf, DOFLAG_PF] s)\<lparr>lf_type := t_UNKNOWN\<rparr>"
    and nofill_shift: "lf_type s \<in> {tSHL, tSHR, tSAR} \<Longrightarrow> FillFlagsNoCFOF s =
      (seq_do [zf, sf, DOFLAG_PF, SETFLAGBIT FLAG_AF (v2 s AND 0x1f \<noteq> 0)] s)\<lparr>lf_type := t_UNKNOWN\<rparr>"
    and nofill_INC: "lf_type s = tINC \<Longrightarrow> FillFlagsNoCFOF s =
      (seq_do [SETFLAGBIT FLAG_AF (r s AND 0x0f = 0), zf, sf, DOFLAG_PF] s)\<lparr>lf_type := t_UNKNOWN\<rparr>"
    and nofill_DEC: "lf_type s = tDEC \<Longrightarrow> FillFlagsNoCFOF s =
      (seq_do [SETFLAGBIT FLAG_AF (r s AND 0x0f = 0x0f), zf, sf, DOFLAG_PF] s)\<lparr>lf_type := t_UNKNOWN\<rparr>"
    and nofill_NEG: "lf_type s = tNEG \<Longrightarrow> FillFlagsNoCFOF s =
      (seq_do [SETFLAGBIT FLAG_AF (r s AND 0x0f \<noteq> 0), zf, sf, DOFLAG_PF] s)\<lparr>lf_type := t_UNKNOWN\<rparr>"
begin

lemma low_bit4: "bit (v1 s XOR v2 s XOR r s) 4 = bit (lf_var1b s XOR lf_var2b s XOR lf_resb s) 4"
  using width by (simp add: bit_simps flip: low)

lemmas fill_rewrites = reg_view_state lazy_view_def fill_done_def DOFLAG_PF_SETFLAGBIT
  DOFLAG_AF_SETFLAGBIT zf sf frame low_bit4 get_PF_even

lemma fill_ok_arith:
  fixes s :: cpu
  assumes "lf_type s \<in> {tADD, tADC, tSBB, tSUB, tCMP}"
  shows "fill_ok s"
proof -
  have np: "lf_type s \<noteq> t_UNKNOWN" "get_ZF s \<noteq> 0 \<longleftrightarrow> r s = 0"
    "get_SF s \<noteq> 0 \<longleftrightarrow> sint (r s) < 0"
    using assms pending ZF_all [of s] SF_all [of s] by auto
  consider "lf_type s = tADD" | "lf_type s = tADC" | "lf_type s = tSBB" | "lf_type s \<in> {tSUB, tCMP}"
    using assms by blast
  then show ?thesis
  proof cases
    case 1 show ?thesis
      by (rule fill_okI [OF fill_ADD [OF 1]])
         (use np 1 in \<open>auto simp: fill_rewrites CF_ADD AF_arith OF_ADD\<close>)
  next
    case 2 show ?thesis
      by (rule fill_okI [OF fill_ADC [OF 2]])
         (use np 2 in \<open>auto simp: fill_rewrites CF_ADC AF_arith OF_ADD\<close>)
  next
    case 3 show ?thesis
      by (rule fill_okI [OF fill_SBB [OF 3]])
         (use np 3 in \<open>auto simp: fill_rewrites CF_SBB AF_arith OF_SUB\<close>)
  next
    case 4 show ?thesis
      by (rule fill_okI [OF fill_SUB [OF 4]])
         (use np 4 in \<open>auto simp: fill_rewrites CF_SUB AF_arith OF_SUB\<close>)
  qed
qed

lemma fill_ok_logic:
  fixes s :: cpu
  assumes "lf_type s \<in> {tOR, tAND, tXOR, tTEST}"
  shows "fill_ok s"
proof -
  have np: "lf_type s \<noteq> t_UNKNOWN" "get_ZF s \<noteq> 0 \<longleftrightarrow> r s = 0"
    "get_SF s \<noteq> 0 \<longleftrightarrow> sint (r s) < 0"
    using assms pending ZF_all [of s] SF_all [of s] by auto
  show ?thesis
    by (rule fill_okI [OF fill_logic [OF assms]])
       (use np assms in \<open>auto simp: fill_rewrites CF_logic AF_logic OF_none\<close>)
qed

lemma fill_ok_incdec:
  fixes s :: cpu
  assumes "lf_type s \<in> {tINC, tDEC}"
  shows "fill_ok s"
proof -
  have np: "lf_type s \<noteq> t_UNKNOWN" "get_ZF s \<noteq> 0 \<longleftrightarrow> r s = 0"
    "get_SF s \<noteq> 0 \<longleftrightarrow> sint (r s) < 0"
    using assms pending ZF_all [of s] SF_all [of s] by auto
  consider "lf_type s = tINC" | "lf_type s = tDEC" using assms by blast
  then show ?thesis
  proof cases
    case 1 show ?thesis
      by (rule fill_okI [OF fill_INC [OF 1]])
         (use np 1 in \<open>auto simp: fill_rewrites CF_INC AF_INC OF_INC\<close>)
  next
    case 2 show ?thesis
      by (rule fill_okI [OF fill_DEC [OF 2]])
         (use np 2 in \<open>auto simp: fill_rewrites CF_INC AF_DEC OF_DEC\<close>)
  qed
qed

lemma fill_ok_NEG:
  fixes s :: cpu
  assumes "lf_type s = tNEG" and "r s = - v1 s"
  shows "fill_ok s"
proof -
  have np: "lf_type s \<noteq> t_UNKNOWN" "get_ZF s \<noteq> 0 \<longleftrightarrow> r s = 0"
    "get_SF s \<noteq> 0 \<longleftrightarrow> sint (r s) < 0"
    using assms pending ZF_all [of s] SF_all [of s] by auto
  show ?thesis
    by (rule fill_okI [OF fill_NEG [OF assms(1)]])
       (use np assms in \<open>auto simp: fill_rewrites CF_NEG AF_NEG OF_NEG minus_low_nibble\<close>)
qed

lemma fill_ok_SHL_SAR:
  fixes s :: cpu
  assumes "lf_type s \<in> {tSHL, tSAR}"
  shows "fill_ok s"
proof -
  have np: "lf_type s \<noteq> t_UNKNOWN" "get_ZF s \<noteq> 0 \<longleftrightarrow> r s = 0"
    "get_SF s \<noteq> 0 \<longleftrightarrow> sint (r s) < 0"
    using assms pending ZF_all [of s] SF_all [of s] by auto
  consider "lf_type s = tSHL" | "lf_type s = tSAR" using assms by blast
  then show ?thesis
  proof cases
    case 1 show ?thesis
      by (rule fill_okI [OF fill_SHL [OF 1]])
         (use np 1 in \<open>auto simp: fill_rewrites CF_SHL AF_shift OF_SHL\<close>)
  next
    case 2 show ?thesis
      by (rule fill_okI [OF fill_SAR [OF 2]])
         (use np 2 in \<open>auto simp: fill_rewrites CF_SAR AF_shift OF_none\<close>)
  qed
qed

text \<open>
  A logical right shift by one of exactly the sign bit is where the two disagree: \<open>get_OF\<close>
  compares with \<open><\<close>, \<open>FillFlags\<close> with \<open>\<le>\<close>.
\<close>

lemma fill_SHR_view:
  fixes s :: cpu
  assumes "lf_type s = tSHR"
  shows "reg_view (fst (FillFlags s)) = (lazy_view s)
    \<lparr>f_OF := v2 s AND 0x1f = 1 \<and> 2 ^ (LENGTH('w) - 1) \<le> v1 s\<rparr>"
    and "f_OF (lazy_view s) \<longleftrightarrow> v2 s AND 0x1f = 1 \<and> 2 ^ (LENGTH('w) - 1) < v1 s"
    and "snd (FillFlags s) = t \<Longrightarrow>
      fst (FillFlags s) = reg_flags t \<and> lf_type t = t_UNKNOWN \<and> reg_rest t = reg_rest s"
proof -
  have np: "lf_type s \<noteq> t_UNKNOWN" "get_ZF s \<noteq> 0 \<longleftrightarrow> r s = 0"
    "get_SF s \<noteq> 0 \<longleftrightarrow> sint (r s) < 0"
    using assms pending ZF_all [of s] SF_all [of s] by auto
  show "reg_view (fst (FillFlags s)) = (lazy_view s)
      \<lparr>f_OF := v2 s AND 0x1f = 1 \<and> 2 ^ (LENGTH('w) - 1) \<le> v1 s\<rparr>"
    using np assms by (auto simp: fill_SHR fill_rewrites CF_SHR AF_shift)
  show "f_OF (lazy_view s) \<longleftrightarrow> v2 s AND 0x1f = 1 \<and> 2 ^ (LENGTH('w) - 1) < v1 s"
    using assms by (simp add: lazy_view_def OF_SHR)
  show "snd (FillFlags s) = t \<Longrightarrow>
      fst (FillFlags s) = reg_flags t \<and> lf_type t = t_UNKNOWN \<and> reg_rest t = reg_rest s"
    using assms by (auto simp: fill_SHR fill_rewrites)
qed

lemma fill_ok_SHR_iff:
  fixes s :: cpu
  assumes "lf_type s = tSHR"
  shows "fill_ok s \<longleftrightarrow> \<not> (v2 s AND 0x1f = 1 \<and> v1 s = 2 ^ (LENGTH('w) - 1))"
proof -
  have "fill_ok s \<longleftrightarrow> reg_view (fst (FillFlags s)) = lazy_view s"
    using fill_SHR_view(3) [OF assms refl] by (auto simp: fill_ok_def split: prod.split)
  also have "\<dots> \<longleftrightarrow> (v2 s AND 0x1f = 1 \<and> 2 ^ (LENGTH('w) - 1) \<le> v1 s) = f_OF (lazy_view s)"
    unfolding fill_SHR_view(1) [OF assms] by (rule f_OF_update_same)
  finally show ?thesis
    unfolding fill_SHR_view(2) [OF assms] by (auto simp: order_less_le)
qed

lemma nofill_ok_all:
  fixes s :: cpu
  assumes "lf_type s \<in> {tADD, tADC, tSBB, tSUB, tCMP, tOR, tAND, tXOR, tTEST, tINC, tDEC,
      tSHL, tSHR, tSAR} \<or> lf_type s = tNEG \<and> r s = - v1 s"
  shows "fill_no_cf_of_ok s"
proof -
  have np: "lf_type s \<noteq> t_UNKNOWN" "get_ZF s \<noteq> 0 \<longleftrightarrow> r s = 0"
    "get_SF s \<noteq> 0 \<longleftrightarrow> sint (r s) < 0"
    using assms pending ZF_all [of s] SF_all [of s] by auto
  consider "lf_type s \<in> {tADD, tADC, tSBB, tSUB, tCMP}" | "lf_type s \<in> {tOR, tAND, tXOR, tTEST}"
    | "lf_type s \<in> {tSHL, tSHR, tSAR}" | "lf_type s = tINC" | "lf_type s = tDEC"
    | "lf_type s = tNEG" "r s = - v1 s"
    using assms by blast
  then show ?thesis
  proof cases
    case 1 with np show ?thesis
      by (simp add: fill_no_cf_of_ok_def nofill_arith [OF 1] fill_rewrites AF_arith [OF 1])
  next
    case 2 with np show ?thesis
      by (simp add: fill_no_cf_of_ok_def nofill_logic [OF 2] fill_rewrites AF_logic [OF 2])
  next
    case 3 with np show ?thesis
      by (simp add: fill_no_cf_of_ok_def nofill_shift [OF 3] fill_rewrites AF_shift [OF 3])
  next
    case 4 with np show ?thesis
      by (simp add: fill_no_cf_of_ok_def nofill_INC [OF 4] fill_rewrites AF_INC [OF 4])
  next
    case 5 with np show ?thesis
      by (simp add: fill_no_cf_of_ok_def nofill_DEC [OF 5] fill_rewrites AF_DEC [OF 5])
  next
    case 6 with np show ?thesis
      by (simp add: fill_no_cf_of_ok_def nofill_NEG [OF 6(1)] fill_rewrites AF_NEG [OF 6(1)]
          minus_low_nibble)
  qed
qed

end

section \<open>The three widths\<close>

lemma mask_bits:
  "(x::u8) AND 0x80 = 0 \<longleftrightarrow> \<not> bit x 7" "(y::u16) AND 0x8000 = 0 \<longleftrightarrow> \<not> bit y 15"
  "(z::u32) AND 0x80000000 = 0 \<longleftrightarrow> \<not> bit z 31"
  "x AND 0x10 = 0 \<longleftrightarrow> \<not> bit x 4" "y AND 0x10 = 0 \<longleftrightarrow> \<not> bit y 4" "z AND 0x10 = 0 \<longleftrightarrow> \<not> bit z 4"
  using and_exp_eq_0_iff_not_bit [of x 7] and_exp_eq_0_iff_not_bit [of y 15]
    and_exp_eq_0_iff_not_bit [of z 31] and_exp_eq_0_iff_not_bit [of x 4]
    and_exp_eq_0_iff_not_bit [of y 4] and_exp_eq_0_iff_not_bit [of z 4]
  by simp_all

lemma sign_bits:
  "bit (x::u8) 7 \<longleftrightarrow> sint x < 0" "bit (y::u16) 15 \<longleftrightarrow> sint y < 0" "bit (z::u32) 31 \<longleftrightarrow> sint z < 0"
  using bit_last_iff [of x] bit_last_iff [of y] bit_last_iff [of z] by simp_all

lemma ucast_eq_0 [simp]:
  "ucast (x::u8) = (0::u32) \<longleftrightarrow> x = 0" "ucast (y::u16) = (0::u32) \<longleftrightarrow> y = 0"
  by (simp_all add: ucast_up_eq_0)

lemma all_ones: "(- 1 :: u8) = 0xff" "(- 1 :: u16) = 0xffff" "(- 1 :: u32) = 0xffffffff"
  by simp_all

text \<open>The low five bits of the count are the same in every view.\<close>

lemma low5:
  "lf_var2b s AND 0x1f = 1 \<longleftrightarrow> lf_var2d s AND 0x1f = 1"
  "lf_var2w s AND 0x1f = 1 \<longleftrightarrow> lf_var2d s AND 0x1f = 1"
  by (simp_all add: lf_var2b_def lf_var2w_def ucast_and_1f)

lemma of_masks:
  fixes a b c :: u8 and a' b' c' :: u16 and a'' b'' c'' :: u32
  shows
  "((a XOR b XOR 0x80) AND (c XOR a)) AND 0x80 = 0 \<longleftrightarrow>
    \<not> ((sint a < 0 \<longleftrightarrow> sint b < 0) \<and> (sint c < 0 \<longleftrightarrow> \<not> sint a < 0))"
  "(a XOR b) AND (a XOR c) AND 0x80 = 0 \<longleftrightarrow>
    \<not> ((sint a < 0 \<longleftrightarrow> \<not> sint b < 0) \<and> (sint a < 0 \<longleftrightarrow> \<not> sint c < 0))"
  "(c XOR a) AND 0x80 = 0 \<longleftrightarrow> \<not> (sint c < 0 \<longleftrightarrow> \<not> sint a < 0)"
  "((a' XOR b' XOR 0x8000) AND (c' XOR a')) AND 0x8000 = 0 \<longleftrightarrow>
    \<not> ((sint a' < 0 \<longleftrightarrow> sint b' < 0) \<and> (sint c' < 0 \<longleftrightarrow> \<not> sint a' < 0))"
  "(a' XOR b') AND (a' XOR c') AND 0x8000 = 0 \<longleftrightarrow>
    \<not> ((sint a' < 0 \<longleftrightarrow> \<not> sint b' < 0) \<and> (sint a' < 0 \<longleftrightarrow> \<not> sint c' < 0))"
  "(c' XOR a') AND 0x8000 = 0 \<longleftrightarrow> \<not> (sint c' < 0 \<longleftrightarrow> \<not> sint a' < 0)"
  "((a'' XOR b'' XOR 0x80000000) AND (c'' XOR a'')) AND 0x80000000 = 0 \<longleftrightarrow>
    \<not> ((sint a'' < 0 \<longleftrightarrow> sint b'' < 0) \<and> (sint c'' < 0 \<longleftrightarrow> \<not> sint a'' < 0))"
  "(a'' XOR b'') AND (a'' XOR c'') AND 0x80000000 = 0 \<longleftrightarrow>
    \<not> ((sint a'' < 0 \<longleftrightarrow> \<not> sint b'' < 0) \<and> (sint a'' < 0 \<longleftrightarrow> \<not> sint c'' < 0))"
  "(c'' XOR a'') AND 0x80000000 = 0 \<longleftrightarrow> \<not> (sint c'' < 0 \<longleftrightarrow> \<not> sint a'' < 0)"
  by (auto simp: mask_bits bit_simps simp flip: sign_bits and.assoc)

lemma if_False_conj: "(if a then b else False) = (a \<and> b)"
  by simp

subsection \<open>8 bits\<close>

definition shl_cf_b :: "'a cpu_scheme \<Rightarrow> bool" where
  "shl_cf_b s = (if 8 < lf_var2b s then False
     else drop_bit (8 - unat (lf_var2b s)) (lf_var1b s) AND 1 \<noteq> 0)"

lemma CF_b:
  "lf_type s = t_ADDb \<Longrightarrow> get_CF s \<noteq> 0 \<longleftrightarrow> lf_resb s < lf_var1b s"
  "lf_type s = t_ADCb \<Longrightarrow> get_CF s \<noteq> 0 \<longleftrightarrow> lf_resb s < lf_var1b s \<or> lf_oldcf s \<noteq> 0 \<and> lf_resb s = lf_var1b s"
  "lf_type s = t_SBBb \<Longrightarrow> get_CF s \<noteq> 0 \<longleftrightarrow> lf_var1b s < lf_resb s \<or> lf_oldcf s \<noteq> 0 \<and> lf_var2b s = - 1"
  "lf_type s = t_NEGb \<Longrightarrow> get_CF s \<noteq> 0 \<longleftrightarrow> lf_var1b s \<noteq> 0"
  "lf_type s = t_SHLb \<Longrightarrow> get_CF s \<noteq> 0 \<longleftrightarrow> shl_cf_b s"
  "lf_type s = t_SHRb \<Longrightarrow> get_CF s \<noteq> 0 \<longleftrightarrow> bit (lf_var1b s) (unat (lf_var2b_minus_one s))"
  "lf_type s = t_SARb \<Longrightarrow> get_CF s \<noteq> 0 \<longleftrightarrow>
    bit (signed_drop_bit (unat (lf_var2b_minus_one s)) (lf_var1b s)) 0"
  by (simp_all add: get_CF_def all_ones and_1_bits bit_unsigned_iff bit_drop_bit_eq shl_cf_b_def)

lemma CF_sets_b:
  "lf_type s \<in> {t_SUBb, t_CMPb} \<Longrightarrow> get_CF s \<noteq> 0 \<longleftrightarrow> lf_var1b s < lf_var2b s"
  "lf_type s \<in> {t_ORb, t_ANDb, t_XORb, t_TESTb} \<Longrightarrow> get_CF s = 0"
  "lf_type s \<in> {t_INCb, t_DECb} \<Longrightarrow> get_CF s = GETFLAG FLAG_CF s"
  by (elim insertE emptyE; simp add: get_CF_def)+

lemma shl_cf_b_bit:
  "unat (lf_var2b s) < 32 \<Longrightarrow> shl_cf_b s \<longleftrightarrow>
    unat (lf_var2b s) \<le> 8 \<and> bit (lf_var1b s) (8 - unat (lf_var2b s))"
  by (auto simp: shl_cf_b_def and_1_bits bit_drop_bit_eq word_less_nat_alt)

lemma AF_b:
  "lf_type s \<in> {t_ADDb, t_ADCb, t_SBBb, t_SUBb, t_CMPb} \<Longrightarrow>
    get_AF s \<noteq> 0 \<longleftrightarrow> bit (lf_var1b s XOR lf_var2b s XOR lf_resb s) 4"
  "lf_type s \<in> {t_ORb, t_ANDb, t_XORb, t_TESTb} \<Longrightarrow> get_AF s = 0"
  "lf_type s \<in> {t_SHLb, t_SHRb, t_SARb} \<Longrightarrow> get_AF s \<noteq> 0 \<longleftrightarrow> lf_var2b s AND 0x1f \<noteq> 0"
  by (elim insertE emptyE; simp add: get_AF_def mask_bits)+

lemma AF_incdec_b:
  "lf_type s = t_INCb \<Longrightarrow> get_AF s \<noteq> 0 \<longleftrightarrow> lf_resb s AND 0x0f = 0"
  "lf_type s = t_DECb \<Longrightarrow> get_AF s \<noteq> 0 \<longleftrightarrow> lf_resb s AND 0x0f = 0x0f"
  "lf_type s = t_NEGb \<Longrightarrow> get_AF s \<noteq> 0 \<longleftrightarrow> lf_var1b s AND 0x0f \<noteq> 0"
  by (simp_all add: get_AF_def)

lemma ZF_SF_b:
  "lf_type s \<in> {t_ADDb, t_ADCb, t_SBBb, t_SUBb, t_CMPb, t_ORb, t_ANDb, t_XORb,
      t_TESTb, t_INCb, t_DECb, t_NEGb, t_SHLb, t_SHRb, t_SARb}
    \<Longrightarrow> get_ZF s \<noteq> 0 \<longleftrightarrow> lf_resb s = 0"
  "lf_type s \<in> {t_ADDb, t_ADCb, t_SBBb, t_SUBb, t_CMPb, t_ORb, t_ANDb, t_XORb,
      t_TESTb, t_INCb, t_DECb, t_NEGb, t_SHLb, t_SHRb, t_SARb}
    \<Longrightarrow> get_SF s \<noteq> 0 \<longleftrightarrow> sint (lf_resb s) < 0"
  by (elim insertE emptyE; simp add: get_ZF_def get_SF_def mask_bits sign_bits)+

lemma OF_b:
  "lf_type s \<in> {t_ADDb, t_ADCb} \<Longrightarrow> get_OF s \<noteq> 0 \<longleftrightarrow>
    (sint (lf_var1b s) < 0 \<longleftrightarrow> sint (lf_var2b s) < 0) \<and> (sint (lf_resb s) < 0 \<longleftrightarrow> \<not> sint (lf_var2b s) < 0)"
  "lf_type s \<in> {t_SBBb, t_SUBb, t_CMPb} \<Longrightarrow> get_OF s \<noteq> 0 \<longleftrightarrow>
    (sint (lf_var1b s) < 0 \<longleftrightarrow> \<not> sint (lf_var2b s) < 0) \<and> (sint (lf_var1b s) < 0 \<longleftrightarrow> \<not> sint (lf_resb s) < 0)"
  "lf_type s \<in> {t_ORb, t_ANDb, t_XORb, t_TESTb, t_SARb} \<Longrightarrow> get_OF s = 0"
  by (elim insertE emptyE; auto simp: get_OF_def mask_bits bit_simps simp flip: sign_bits)+

lemma OF_misc_b:
  "lf_type s = t_INCb \<Longrightarrow> get_OF s \<noteq> 0 \<longleftrightarrow> lf_resb s = 2 ^ (8 - 1)"
  "lf_type s = t_DECb \<Longrightarrow> get_OF s \<noteq> 0 \<longleftrightarrow> lf_resb s = 2 ^ (8 - 1) - 1"
  "lf_type s = t_NEGb \<Longrightarrow> get_OF s \<noteq> 0 \<longleftrightarrow> lf_var1b s = 2 ^ (8 - 1)"
  "lf_type s = t_SHLb \<Longrightarrow> get_OF s \<noteq> 0 \<longleftrightarrow> (sint (lf_resb s) < 0 \<longleftrightarrow> \<not> sint (lf_var1b s) < 0)"
  "lf_type s = t_SHRb \<Longrightarrow> get_OF s \<noteq> 0 \<longleftrightarrow> lf_var2b s AND 0x1f = 1 \<and> 2 ^ (8 - 1) < lf_var1b s"
  by (auto simp: get_OF_def mask_bits bit_simps low5 simp flip: sign_bits)

lemma fill_arith_b:
  "lf_type s = t_ADDb \<Longrightarrow> FillFlags s = fill_done (seq_do
      [SETFLAGBIT FLAG_CF (lf_resb s < lf_var1b s), DOFLAG_AF, DOFLAG_ZFb, DOFLAG_SFb,
       SETFLAGBIT FLAG_OF ((sint (lf_var1b s) < 0 \<longleftrightarrow> sint (lf_var2b s) < 0) \<and>
         (sint (lf_resb s) < 0 \<longleftrightarrow> \<not> sint (lf_var1b s) < 0)), DOFLAG_PF] s)"
  "lf_type s = t_ADCb \<Longrightarrow> FillFlags s = fill_done (seq_do
      [SETFLAGBIT FLAG_CF (lf_resb s < lf_var1b s \<or> lf_oldcf s \<noteq> 0 \<and> lf_resb s = lf_var1b s), DOFLAG_AF,
       DOFLAG_ZFb, DOFLAG_SFb,
       SETFLAGBIT FLAG_OF ((sint (lf_var1b s) < 0 \<longleftrightarrow> sint (lf_var2b s) < 0) \<and>
         (sint (lf_resb s) < 0 \<longleftrightarrow> \<not> sint (lf_var1b s) < 0)), DOFLAG_PF] s)"
  "lf_type s = t_SBBb \<Longrightarrow> FillFlags s = fill_done (seq_do
      [SETFLAGBIT FLAG_CF (lf_var1b s < lf_resb s \<or> lf_oldcf s \<noteq> 0 \<and> lf_var2b s = - 1), DOFLAG_AF,
       DOFLAG_ZFb, DOFLAG_SFb,
       SETFLAGBIT FLAG_OF ((sint (lf_var1b s) < 0 \<longleftrightarrow> \<not> sint (lf_var2b s) < 0) \<and>
         (sint (lf_var1b s) < 0 \<longleftrightarrow> \<not> sint (lf_resb s) < 0)), DOFLAG_PF] s)"
  by (simp_all add: FillFlags_def FillFlags_arith_def fill_done_def of_masks all_ones)

lemma fill_SUB_b:
  "lf_type s \<in> {t_SUBb, t_CMPb} \<Longrightarrow> FillFlags s = fill_done (seq_do
      [SETFLAGBIT FLAG_CF (lf_var1b s < lf_var2b s), DOFLAG_AF, DOFLAG_ZFb, DOFLAG_SFb,
       SETFLAGBIT FLAG_OF ((sint (lf_var1b s) < 0 \<longleftrightarrow> \<not> sint (lf_var2b s) < 0) \<and>
         (sint (lf_var1b s) < 0 \<longleftrightarrow> \<not> sint (lf_resb s) < 0)), DOFLAG_PF] s)"
  by (elim insertE emptyE; simp add: FillFlags_def FillFlags_arith_def fill_done_def of_masks)

lemma fill_logic_b:
  "lf_type s \<in> {t_ORb, t_ANDb, t_XORb, t_TESTb} \<Longrightarrow> FillFlags s = fill_done (seq_do
      [SETFLAGBIT FLAG_CF False, SETFLAGBIT FLAG_AF False, DOFLAG_ZFb, DOFLAG_SFb,
       SETFLAGBIT FLAG_OF False, DOFLAG_PF] s)"
  by (elim insertE emptyE; simp add: FillFlags_def FillFlags_arith_def FillFlags_logic_def
      fill_done_def)

lemma fill_shift_b:
  "lf_type s = t_SHLb \<Longrightarrow> FillFlags s = fill_done (seq_do
      [SETFLAGBIT FLAG_CF (shl_cf_b s), DOFLAG_ZFb, DOFLAG_SFb,
       SETFLAGBIT FLAG_OF (sint (lf_resb s) < 0 \<longleftrightarrow> \<not> sint (lf_var1b s) < 0), DOFLAG_PF,
       SETFLAGBIT FLAG_AF (lf_var2b s AND 0x1f \<noteq> 0)] s)"
  "lf_type s = t_SHRb \<Longrightarrow> FillFlags s = fill_done (seq_do
      [SETFLAGBIT FLAG_CF (bit (lf_var1b s) (unat (lf_var2b_minus_one s))), DOFLAG_ZFb, DOFLAG_SFb,
       SETFLAGBIT FLAG_OF (lf_var2b s AND 0x1f = 1 \<and> 2 ^ (8 - 1) \<le> lf_var1b s), DOFLAG_PF,
       SETFLAGBIT FLAG_AF (lf_var2b s AND 0x1f \<noteq> 0)] s)"
  "lf_type s = t_SARb \<Longrightarrow> FillFlags s = fill_done (seq_do
      [SETFLAGBIT FLAG_CF (bit (signed_drop_bit (unat (lf_var2b_minus_one s)) (lf_var1b s)) 0),
       DOFLAG_ZFb, DOFLAG_SFb, SETFLAGBIT FLAG_OF False, DOFLAG_PF,
       SETFLAGBIT FLAG_AF (lf_var2b s AND 0x1f \<noteq> 0)] s)"
  by (simp_all add: FillFlags_defs fill_done_def of_masks bit_drop_bit_eq shl_cf_b_def
      and_1_bits if_False_conj)

lemma fill_incdec_b:
  "lf_type s = t_INCb \<Longrightarrow> FillFlags s = fill_done (seq_do
      [SETFLAGBIT FLAG_AF (lf_resb s AND 0x0f = 0), DOFLAG_ZFb, DOFLAG_SFb,
       SETFLAGBIT FLAG_OF (lf_resb s = 2 ^ (8 - 1)), DOFLAG_PF] s)"
  "lf_type s = t_DECb \<Longrightarrow> FillFlags s = fill_done (seq_do
      [SETFLAGBIT FLAG_AF (lf_resb s AND 0x0f = 0x0f), DOFLAG_ZFb, DOFLAG_SFb,
       SETFLAGBIT FLAG_OF (lf_resb s = 2 ^ (8 - 1) - 1), DOFLAG_PF] s)"
  "lf_type s = t_NEGb \<Longrightarrow> FillFlags s = fill_done (seq_do
      [SETFLAGBIT FLAG_CF (lf_var1b s \<noteq> 0), SETFLAGBIT FLAG_AF (lf_resb s AND 0x0f \<noteq> 0),
       DOFLAG_ZFb, DOFLAG_SFb, SETFLAGBIT FLAG_OF (lf_var1b s = 2 ^ (8 - 1)), DOFLAG_PF] s)"
  by (simp_all add: FillFlags_defs fill_done_def)

lemma nofill_b:
  "lf_type s \<in> {t_ADDb, t_ADCb, t_SBBb, t_SUBb, t_CMPb} \<Longrightarrow> FillFlagsNoCFOF s =
    (seq_do [DOFLAG_AF, DOFLAG_ZFb, DOFLAG_SFb, DOFLAG_PF] s)\<lparr>lf_type := t_UNKNOWN\<rparr>"
  "lf_type s \<in> {t_ORb, t_ANDb, t_XORb, t_TESTb} \<Longrightarrow> FillFlagsNoCFOF s =
    (seq_do [SETFLAGBIT FLAG_AF False, DOFLAG_ZFb, DOFLAG_SFb, DOFLAG_PF] s)
      \<lparr>lf_type := t_UNKNOWN\<rparr>"
  "lf_type s \<in> {t_SHLb, t_SHRb, t_SARb} \<Longrightarrow> FillFlagsNoCFOF s =
    (seq_do [DOFLAG_ZFb, DOFLAG_SFb, DOFLAG_PF, SETFLAGBIT FLAG_AF (lf_var2b s AND 0x1f \<noteq> 0)] s)
      \<lparr>lf_type := t_UNKNOWN\<rparr>"
  by (elim insertE emptyE; simp add: FillFlagsNoCFOF_defs)+

lemma nofill_incdec_b:
  "lf_type s = t_INCb \<Longrightarrow> FillFlagsNoCFOF s =
    (seq_do [SETFLAGBIT FLAG_AF (lf_resb s AND 0x0f = 0), DOFLAG_ZFb, DOFLAG_SFb, DOFLAG_PF] s)
      \<lparr>lf_type := t_UNKNOWN\<rparr>"
  "lf_type s = t_DECb \<Longrightarrow> FillFlagsNoCFOF s =
    (seq_do [SETFLAGBIT FLAG_AF (lf_resb s AND 0x0f = 0x0f), DOFLAG_ZFb, DOFLAG_SFb, DOFLAG_PF] s)
      \<lparr>lf_type := t_UNKNOWN\<rparr>"
  "lf_type s = t_NEGb \<Longrightarrow> FillFlagsNoCFOF s =
    (seq_do [SETFLAGBIT FLAG_AF (lf_resb s AND 0x0f \<noteq> 0), DOFLAG_ZFb, DOFLAG_SFb, DOFLAG_PF] s)
      \<lparr>lf_type := t_UNKNOWN\<rparr>"
  by (simp_all add: FillFlagsNoCFOF_defs)

lemmas laws_b = CF_b CF_sets_b shl_cf_b_bit AF_b AF_incdec_b ZF_SF_b OF_b OF_misc_b
  fill_arith_b fill_SUB_b fill_logic_b fill_shift_b fill_incdec_b nofill_b nofill_incdec_b

interpretation byte: lazy_width lf_var1b lf_var2b lf_resb
  t_ADDb t_ADCb t_SBBb t_SUBb t_CMPb t_ORb t_ANDb t_XORb t_TESTb
  t_INCb t_DECb t_NEGb t_SHLb t_SHRb t_SARb DOFLAG_ZFb DOFLAG_SFb shl_cf_b
  by unfold_locales
    (simp_all only: laws_b DOFLAG_ZFb_def DOFLAG_SF_SETFLAGBIT sign_bits SETFLAGBIT_frame,
     simp_all add: lf_var1b_def lf_var2b_def lf_resb_def)

subsection \<open>16 bits\<close>

definition shl_cf_w :: "'a cpu_scheme \<Rightarrow> bool" where
  "shl_cf_w s = (if 16 < lf_var2b s then False
     else drop_bit (16 - unat (lf_var2b s)) (lf_var1w s) AND 1 \<noteq> 0)"

lemma CF_w:
  "lf_type s = t_ADDw \<Longrightarrow> get_CF s \<noteq> 0 \<longleftrightarrow> lf_resw s < lf_var1w s"
  "lf_type s = t_ADCw \<Longrightarrow> get_CF s \<noteq> 0 \<longleftrightarrow> lf_resw s < lf_var1w s \<or> lf_oldcf s \<noteq> 0 \<and> lf_resw s = lf_var1w s"
  "lf_type s = t_SBBw \<Longrightarrow> get_CF s \<noteq> 0 \<longleftrightarrow> lf_var1w s < lf_resw s \<or> lf_oldcf s \<noteq> 0 \<and> lf_var2w s = - 1"
  "lf_type s = t_NEGw \<Longrightarrow> get_CF s \<noteq> 0 \<longleftrightarrow> lf_var1w s \<noteq> 0"
  "lf_type s = t_SHLw \<Longrightarrow> get_CF s \<noteq> 0 \<longleftrightarrow> shl_cf_w s"
  "lf_type s = t_SHRw \<Longrightarrow> get_CF s \<noteq> 0 \<longleftrightarrow> bit (lf_var1w s) (unat (lf_var2b_minus_one s))"
  "lf_type s = t_SARw \<Longrightarrow> get_CF s \<noteq> 0 \<longleftrightarrow>
    bit (signed_drop_bit (unat (lf_var2b_minus_one s)) (lf_var1w s)) 0"
  by (simp_all add: get_CF_def all_ones and_1_bits bit_unsigned_iff bit_drop_bit_eq shl_cf_w_def)

lemma CF_sets_w:
  "lf_type s \<in> {t_SUBw, t_CMPw} \<Longrightarrow> get_CF s \<noteq> 0 \<longleftrightarrow> lf_var1w s < lf_var2w s"
  "lf_type s \<in> {t_ORw, t_ANDw, t_XORw, t_TESTw} \<Longrightarrow> get_CF s = 0"
  "lf_type s \<in> {t_INCw, t_DECw} \<Longrightarrow> get_CF s = GETFLAG FLAG_CF s"
  by (elim insertE emptyE; simp add: get_CF_def)+

lemma shl_cf_w_bit:
  "unat (lf_var2b s) < 32 \<Longrightarrow> shl_cf_w s \<longleftrightarrow>
    unat (lf_var2b s) \<le> 16 \<and> bit (lf_var1w s) (16 - unat (lf_var2b s))"
  by (auto simp: shl_cf_w_def and_1_bits bit_drop_bit_eq word_less_nat_alt)

lemma AF_w:
  "lf_type s \<in> {t_ADDw, t_ADCw, t_SBBw, t_SUBw, t_CMPw} \<Longrightarrow>
    get_AF s \<noteq> 0 \<longleftrightarrow> bit (lf_var1w s XOR lf_var2w s XOR lf_resw s) 4"
  "lf_type s \<in> {t_ORw, t_ANDw, t_XORw, t_TESTw} \<Longrightarrow> get_AF s = 0"
  "lf_type s \<in> {t_SHLw, t_SHRw, t_SARw} \<Longrightarrow> get_AF s \<noteq> 0 \<longleftrightarrow> lf_var2w s AND 0x1f \<noteq> 0"
  by (elim insertE emptyE; simp add: get_AF_def mask_bits)+

lemma AF_incdec_w:
  "lf_type s = t_INCw \<Longrightarrow> get_AF s \<noteq> 0 \<longleftrightarrow> lf_resw s AND 0x0f = 0"
  "lf_type s = t_DECw \<Longrightarrow> get_AF s \<noteq> 0 \<longleftrightarrow> lf_resw s AND 0x0f = 0x0f"
  "lf_type s = t_NEGw \<Longrightarrow> get_AF s \<noteq> 0 \<longleftrightarrow> lf_var1w s AND 0x0f \<noteq> 0"
  by (simp_all add: get_AF_def)

lemma ZF_SF_w:
  "lf_type s \<in> {t_ADDw, t_ADCw, t_SBBw, t_SUBw, t_CMPw, t_ORw, t_ANDw, t_XORw,
      t_TESTw, t_INCw, t_DECw, t_NEGw, t_SHLw, t_SHRw, t_SARw}
    \<Longrightarrow> get_ZF s \<noteq> 0 \<longleftrightarrow> lf_resw s = 0"
  "lf_type s \<in> {t_ADDw, t_ADCw, t_SBBw, t_SUBw, t_CMPw, t_ORw, t_ANDw, t_XORw,
      t_TESTw, t_INCw, t_DECw, t_NEGw, t_SHLw, t_SHRw, t_SARw}
    \<Longrightarrow> get_SF s \<noteq> 0 \<longleftrightarrow> sint (lf_resw s) < 0"
  by (elim insertE emptyE; simp add: get_ZF_def get_SF_def mask_bits sign_bits)+

lemma OF_w:
  "lf_type s \<in> {t_ADDw, t_ADCw} \<Longrightarrow> get_OF s \<noteq> 0 \<longleftrightarrow>
    (sint (lf_var1w s) < 0 \<longleftrightarrow> sint (lf_var2w s) < 0) \<and> (sint (lf_resw s) < 0 \<longleftrightarrow> \<not> sint (lf_var2w s) < 0)"
  "lf_type s \<in> {t_SBBw, t_SUBw, t_CMPw} \<Longrightarrow> get_OF s \<noteq> 0 \<longleftrightarrow>
    (sint (lf_var1w s) < 0 \<longleftrightarrow> \<not> sint (lf_var2w s) < 0) \<and> (sint (lf_var1w s) < 0 \<longleftrightarrow> \<not> sint (lf_resw s) < 0)"
  "lf_type s \<in> {t_ORw, t_ANDw, t_XORw, t_TESTw, t_SARw} \<Longrightarrow> get_OF s = 0"
  by (elim insertE emptyE; auto simp: get_OF_def mask_bits bit_simps simp flip: sign_bits)+

lemma OF_misc_w:
  "lf_type s = t_INCw \<Longrightarrow> get_OF s \<noteq> 0 \<longleftrightarrow> lf_resw s = 2 ^ (16 - 1)"
  "lf_type s = t_DECw \<Longrightarrow> get_OF s \<noteq> 0 \<longleftrightarrow> lf_resw s = 2 ^ (16 - 1) - 1"
  "lf_type s = t_NEGw \<Longrightarrow> get_OF s \<noteq> 0 \<longleftrightarrow> lf_var1w s = 2 ^ (16 - 1)"
  "lf_type s = t_SHLw \<Longrightarrow> get_OF s \<noteq> 0 \<longleftrightarrow> (sint (lf_resw s) < 0 \<longleftrightarrow> \<not> sint (lf_var1w s) < 0)"
  "lf_type s = t_SHRw \<Longrightarrow> get_OF s \<noteq> 0 \<longleftrightarrow> lf_var2w s AND 0x1f = 1 \<and> 2 ^ (16 - 1) < lf_var1w s"
  by (auto simp: get_OF_def mask_bits bit_simps low5 simp flip: sign_bits)

lemma fill_arith_w:
  "lf_type s = t_ADDw \<Longrightarrow> FillFlags s = fill_done (seq_do
      [SETFLAGBIT FLAG_CF (lf_resw s < lf_var1w s), DOFLAG_AF, DOFLAG_ZFw, DOFLAG_SFw,
       SETFLAGBIT FLAG_OF ((sint (lf_var1w s) < 0 \<longleftrightarrow> sint (lf_var2w s) < 0) \<and>
         (sint (lf_resw s) < 0 \<longleftrightarrow> \<not> sint (lf_var1w s) < 0)), DOFLAG_PF] s)"
  "lf_type s = t_ADCw \<Longrightarrow> FillFlags s = fill_done (seq_do
      [SETFLAGBIT FLAG_CF (lf_resw s < lf_var1w s \<or> lf_oldcf s \<noteq> 0 \<and> lf_resw s = lf_var1w s), DOFLAG_AF,
       DOFLAG_ZFw, DOFLAG_SFw,
       SETFLAGBIT FLAG_OF ((sint (lf_var1w s) < 0 \<longleftrightarrow> sint (lf_var2w s) < 0) \<and>
         (sint (lf_resw s) < 0 \<longleftrightarrow> \<not> sint (lf_var1w s) < 0)), DOFLAG_PF] s)"
  "lf_type s = t_SBBw \<Longrightarrow> FillFlags s = fill_done (seq_do
      [SETFLAGBIT FLAG_CF (lf_var1w s < lf_resw s \<or> lf_oldcf s \<noteq> 0 \<and> lf_var2w s = - 1), DOFLAG_AF,
       DOFLAG_ZFw, DOFLAG_SFw,
       SETFLAGBIT FLAG_OF ((sint (lf_var1w s) < 0 \<longleftrightarrow> \<not> sint (lf_var2w s) < 0) \<and>
         (sint (lf_var1w s) < 0 \<longleftrightarrow> \<not> sint (lf_resw s) < 0)), DOFLAG_PF] s)"
  by (simp_all add: FillFlags_def FillFlags_arith_def fill_done_def of_masks all_ones)

lemma fill_SUB_w:
  "lf_type s \<in> {t_SUBw, t_CMPw} \<Longrightarrow> FillFlags s = fill_done (seq_do
      [SETFLAGBIT FLAG_CF (lf_var1w s < lf_var2w s), DOFLAG_AF, DOFLAG_ZFw, DOFLAG_SFw,
       SETFLAGBIT FLAG_OF ((sint (lf_var1w s) < 0 \<longleftrightarrow> \<not> sint (lf_var2w s) < 0) \<and>
         (sint (lf_var1w s) < 0 \<longleftrightarrow> \<not> sint (lf_resw s) < 0)), DOFLAG_PF] s)"
  by (elim insertE emptyE; simp add: FillFlags_def FillFlags_arith_def fill_done_def of_masks)

lemma fill_logic_w:
  "lf_type s \<in> {t_ORw, t_ANDw, t_XORw, t_TESTw} \<Longrightarrow> FillFlags s = fill_done (seq_do
      [SETFLAGBIT FLAG_CF False, SETFLAGBIT FLAG_AF False, DOFLAG_ZFw, DOFLAG_SFw,
       SETFLAGBIT FLAG_OF False, DOFLAG_PF] s)"
  by (elim insertE emptyE; simp add: FillFlags_def FillFlags_arith_def FillFlags_logic_def
      fill_done_def)

lemma fill_shift_w:
  "lf_type s = t_SHLw \<Longrightarrow> FillFlags s = fill_done (seq_do
      [SETFLAGBIT FLAG_CF (shl_cf_w s), DOFLAG_ZFw, DOFLAG_SFw,
       SETFLAGBIT FLAG_OF (sint (lf_resw s) < 0 \<longleftrightarrow> \<not> sint (lf_var1w s) < 0), DOFLAG_PF,
       SETFLAGBIT FLAG_AF (lf_var2w s AND 0x1f \<noteq> 0)] s)"
  "lf_type s = t_SHRw \<Longrightarrow> FillFlags s = fill_done (seq_do
      [SETFLAGBIT FLAG_CF (bit (lf_var1w s) (unat (lf_var2b_minus_one s))), DOFLAG_ZFw, DOFLAG_SFw,
       SETFLAGBIT FLAG_OF (lf_var2w s AND 0x1f = 1 \<and> 2 ^ (16 - 1) \<le> lf_var1w s), DOFLAG_PF,
       SETFLAGBIT FLAG_AF (lf_var2w s AND 0x1f \<noteq> 0)] s)"
  "lf_type s = t_SARw \<Longrightarrow> FillFlags s = fill_done (seq_do
      [SETFLAGBIT FLAG_CF (bit (signed_drop_bit (unat (lf_var2b_minus_one s)) (lf_var1w s)) 0),
       DOFLAG_ZFw, DOFLAG_SFw, SETFLAGBIT FLAG_OF False, DOFLAG_PF,
       SETFLAGBIT FLAG_AF (lf_var2w s AND 0x1f \<noteq> 0)] s)"
  by (simp_all add: FillFlags_defs fill_done_def of_masks bit_drop_bit_eq shl_cf_w_def
      and_1_bits if_False_conj)

lemma fill_incdec_w:
  "lf_type s = t_INCw \<Longrightarrow> FillFlags s = fill_done (seq_do
      [SETFLAGBIT FLAG_AF (lf_resw s AND 0x0f = 0), DOFLAG_ZFw, DOFLAG_SFw,
       SETFLAGBIT FLAG_OF (lf_resw s = 2 ^ (16 - 1)), DOFLAG_PF] s)"
  "lf_type s = t_DECw \<Longrightarrow> FillFlags s = fill_done (seq_do
      [SETFLAGBIT FLAG_AF (lf_resw s AND 0x0f = 0x0f), DOFLAG_ZFw, DOFLAG_SFw,
       SETFLAGBIT FLAG_OF (lf_resw s = 2 ^ (16 - 1) - 1), DOFLAG_PF] s)"
  "lf_type s = t_NEGw \<Longrightarrow> FillFlags s = fill_done (seq_do
      [SETFLAGBIT FLAG_CF (lf_var1w s \<noteq> 0), SETFLAGBIT FLAG_AF (lf_resw s AND 0x0f \<noteq> 0),
       DOFLAG_ZFw, DOFLAG_SFw, SETFLAGBIT FLAG_OF (lf_var1w s = 2 ^ (16 - 1)), DOFLAG_PF] s)"
  by (simp_all add: FillFlags_defs fill_done_def)

lemma nofill_w:
  "lf_type s \<in> {t_ADDw, t_ADCw, t_SBBw, t_SUBw, t_CMPw} \<Longrightarrow> FillFlagsNoCFOF s =
    (seq_do [DOFLAG_AF, DOFLAG_ZFw, DOFLAG_SFw, DOFLAG_PF] s)\<lparr>lf_type := t_UNKNOWN\<rparr>"
  "lf_type s \<in> {t_ORw, t_ANDw, t_XORw, t_TESTw} \<Longrightarrow> FillFlagsNoCFOF s =
    (seq_do [SETFLAGBIT FLAG_AF False, DOFLAG_ZFw, DOFLAG_SFw, DOFLAG_PF] s)
      \<lparr>lf_type := t_UNKNOWN\<rparr>"
  "lf_type s \<in> {t_SHLw, t_SHRw, t_SARw} \<Longrightarrow> FillFlagsNoCFOF s =
    (seq_do [DOFLAG_ZFw, DOFLAG_SFw, DOFLAG_PF, SETFLAGBIT FLAG_AF (lf_var2w s AND 0x1f \<noteq> 0)] s)
      \<lparr>lf_type := t_UNKNOWN\<rparr>"
  by (elim insertE emptyE; simp add: FillFlagsNoCFOF_defs)+

lemma nofill_incdec_w:
  "lf_type s = t_INCw \<Longrightarrow> FillFlagsNoCFOF s =
    (seq_do [SETFLAGBIT FLAG_AF (lf_resw s AND 0x0f = 0), DOFLAG_ZFw, DOFLAG_SFw, DOFLAG_PF] s)
      \<lparr>lf_type := t_UNKNOWN\<rparr>"
  "lf_type s = t_DECw \<Longrightarrow> FillFlagsNoCFOF s =
    (seq_do [SETFLAGBIT FLAG_AF (lf_resw s AND 0x0f = 0x0f), DOFLAG_ZFw, DOFLAG_SFw, DOFLAG_PF] s)
      \<lparr>lf_type := t_UNKNOWN\<rparr>"
  "lf_type s = t_NEGw \<Longrightarrow> FillFlagsNoCFOF s =
    (seq_do [SETFLAGBIT FLAG_AF (lf_resw s AND 0x0f \<noteq> 0), DOFLAG_ZFw, DOFLAG_SFw, DOFLAG_PF] s)
      \<lparr>lf_type := t_UNKNOWN\<rparr>"
  by (simp_all add: FillFlagsNoCFOF_defs)

lemmas laws_w = CF_w CF_sets_w shl_cf_w_bit AF_w AF_incdec_w ZF_SF_w OF_w OF_misc_w
  fill_arith_w fill_SUB_w fill_logic_w fill_shift_w fill_incdec_w nofill_w nofill_incdec_w

interpretation word16: lazy_width lf_var1w lf_var2w lf_resw
  t_ADDw t_ADCw t_SBBw t_SUBw t_CMPw t_ORw t_ANDw t_XORw t_TESTw
  t_INCw t_DECw t_NEGw t_SHLw t_SHRw t_SARw DOFLAG_ZFw DOFLAG_SFw shl_cf_w
  by unfold_locales
    (simp_all only: laws_w DOFLAG_ZFw_def DOFLAG_SF_SETFLAGBIT sign_bits SETFLAGBIT_frame,
     simp_all add: lf_var1w_def lf_var2w_def lf_resw_def lf_var1b_def lf_var2b_def lf_resb_def
       ucast_ucast_low8)

subsection \<open>32 bits\<close>

definition shl_cf_d :: "'a cpu_scheme \<Rightarrow> bool" where
  "shl_cf_d s = (drop_bit (32 - unat (lf_var2b s)) (lf_var1d s) AND 1 \<noteq> 0)"

lemma CF_d:
  "lf_type s = t_ADDd \<Longrightarrow> get_CF s \<noteq> 0 \<longleftrightarrow> lf_resd s < lf_var1d s"
  "lf_type s = t_ADCd \<Longrightarrow> get_CF s \<noteq> 0 \<longleftrightarrow> lf_resd s < lf_var1d s \<or> lf_oldcf s \<noteq> 0 \<and> lf_resd s = lf_var1d s"
  "lf_type s = t_SBBd \<Longrightarrow> get_CF s \<noteq> 0 \<longleftrightarrow> lf_var1d s < lf_resd s \<or> lf_oldcf s \<noteq> 0 \<and> lf_var2d s = - 1"
  "lf_type s = t_NEGd \<Longrightarrow> get_CF s \<noteq> 0 \<longleftrightarrow> lf_var1d s \<noteq> 0"
  "lf_type s = t_SHLd \<Longrightarrow> get_CF s \<noteq> 0 \<longleftrightarrow> shl_cf_d s"
  "lf_type s = t_SHRd \<Longrightarrow> get_CF s \<noteq> 0 \<longleftrightarrow> bit (lf_var1d s) (unat (lf_var2b_minus_one s))"
  "lf_type s = t_SARd \<Longrightarrow> get_CF s \<noteq> 0 \<longleftrightarrow>
    bit (signed_drop_bit (unat (lf_var2b_minus_one s)) (lf_var1d s)) 0"
  by (simp_all add: get_CF_def all_ones and_1_bits bit_unsigned_iff bit_drop_bit_eq shl_cf_d_def)

lemma CF_sets_d:
  "lf_type s \<in> {t_SUBd, t_CMPd} \<Longrightarrow> get_CF s \<noteq> 0 \<longleftrightarrow> lf_var1d s < lf_var2d s"
  "lf_type s \<in> {t_ORd, t_ANDd, t_XORd, t_TESTd} \<Longrightarrow> get_CF s = 0"
  "lf_type s \<in> {t_INCd, t_DECd} \<Longrightarrow> get_CF s = GETFLAG FLAG_CF s"
  by (elim insertE emptyE; simp add: get_CF_def)+

lemma shl_cf_d_bit:
  "unat (lf_var2b s) < 32 \<Longrightarrow> shl_cf_d s \<longleftrightarrow>
    unat (lf_var2b s) \<le> 32 \<and> bit (lf_var1d s) (32 - unat (lf_var2b s))"
  by (auto simp: shl_cf_d_def and_1_bits bit_drop_bit_eq word_less_nat_alt)

lemma AF_d:
  "lf_type s \<in> {t_ADDd, t_ADCd, t_SBBd, t_SUBd, t_CMPd} \<Longrightarrow>
    get_AF s \<noteq> 0 \<longleftrightarrow> bit (lf_var1d s XOR lf_var2d s XOR lf_resd s) 4"
  "lf_type s \<in> {t_ORd, t_ANDd, t_XORd, t_TESTd} \<Longrightarrow> get_AF s = 0"
  "lf_type s \<in> {t_SHLd, t_SHRd, t_SARd} \<Longrightarrow> get_AF s \<noteq> 0 \<longleftrightarrow> lf_var2d s AND 0x1f \<noteq> 0"
  by (elim insertE emptyE; simp add: get_AF_def mask_bits)+

lemma AF_incdec_d:
  "lf_type s = t_INCd \<Longrightarrow> get_AF s \<noteq> 0 \<longleftrightarrow> lf_resd s AND 0x0f = 0"
  "lf_type s = t_DECd \<Longrightarrow> get_AF s \<noteq> 0 \<longleftrightarrow> lf_resd s AND 0x0f = 0x0f"
  "lf_type s = t_NEGd \<Longrightarrow> get_AF s \<noteq> 0 \<longleftrightarrow> lf_var1d s AND 0x0f \<noteq> 0"
  by (simp_all add: get_AF_def)

lemma ZF_SF_d:
  "lf_type s \<in> {t_ADDd, t_ADCd, t_SBBd, t_SUBd, t_CMPd, t_ORd, t_ANDd, t_XORd,
      t_TESTd, t_INCd, t_DECd, t_NEGd, t_SHLd, t_SHRd, t_SARd}
    \<Longrightarrow> get_ZF s \<noteq> 0 \<longleftrightarrow> lf_resd s = 0"
  "lf_type s \<in> {t_ADDd, t_ADCd, t_SBBd, t_SUBd, t_CMPd, t_ORd, t_ANDd, t_XORd,
      t_TESTd, t_INCd, t_DECd, t_NEGd, t_SHLd, t_SHRd, t_SARd}
    \<Longrightarrow> get_SF s \<noteq> 0 \<longleftrightarrow> sint (lf_resd s) < 0"
  by (elim insertE emptyE; simp add: get_ZF_def get_SF_def mask_bits sign_bits)+

lemma OF_d:
  "lf_type s \<in> {t_ADDd, t_ADCd} \<Longrightarrow> get_OF s \<noteq> 0 \<longleftrightarrow>
    (sint (lf_var1d s) < 0 \<longleftrightarrow> sint (lf_var2d s) < 0) \<and> (sint (lf_resd s) < 0 \<longleftrightarrow> \<not> sint (lf_var2d s) < 0)"
  "lf_type s \<in> {t_SBBd, t_SUBd, t_CMPd} \<Longrightarrow> get_OF s \<noteq> 0 \<longleftrightarrow>
    (sint (lf_var1d s) < 0 \<longleftrightarrow> \<not> sint (lf_var2d s) < 0) \<and> (sint (lf_var1d s) < 0 \<longleftrightarrow> \<not> sint (lf_resd s) < 0)"
  "lf_type s \<in> {t_ORd, t_ANDd, t_XORd, t_TESTd, t_SARd} \<Longrightarrow> get_OF s = 0"
  by (elim insertE emptyE; auto simp: get_OF_def mask_bits bit_simps simp flip: sign_bits)+

lemma OF_misc_d:
  "lf_type s = t_INCd \<Longrightarrow> get_OF s \<noteq> 0 \<longleftrightarrow> lf_resd s = 2 ^ (32 - 1)"
  "lf_type s = t_DECd \<Longrightarrow> get_OF s \<noteq> 0 \<longleftrightarrow> lf_resd s = 2 ^ (32 - 1) - 1"
  "lf_type s = t_NEGd \<Longrightarrow> get_OF s \<noteq> 0 \<longleftrightarrow> lf_var1d s = 2 ^ (32 - 1)"
  "lf_type s = t_SHLd \<Longrightarrow> get_OF s \<noteq> 0 \<longleftrightarrow> (sint (lf_resd s) < 0 \<longleftrightarrow> \<not> sint (lf_var1d s) < 0)"
  "lf_type s = t_SHRd \<Longrightarrow> get_OF s \<noteq> 0 \<longleftrightarrow> lf_var2d s AND 0x1f = 1 \<and> 2 ^ (32 - 1) < lf_var1d s"
  by (auto simp: get_OF_def mask_bits bit_simps low5 simp flip: sign_bits)

lemma fill_arith_d:
  "lf_type s = t_ADDd \<Longrightarrow> FillFlags s = fill_done (seq_do
      [SETFLAGBIT FLAG_CF (lf_resd s < lf_var1d s), DOFLAG_AF, DOFLAG_ZFd, DOFLAG_SFd,
       SETFLAGBIT FLAG_OF ((sint (lf_var1d s) < 0 \<longleftrightarrow> sint (lf_var2d s) < 0) \<and>
         (sint (lf_resd s) < 0 \<longleftrightarrow> \<not> sint (lf_var1d s) < 0)), DOFLAG_PF] s)"
  "lf_type s = t_ADCd \<Longrightarrow> FillFlags s = fill_done (seq_do
      [SETFLAGBIT FLAG_CF (lf_resd s < lf_var1d s \<or> lf_oldcf s \<noteq> 0 \<and> lf_resd s = lf_var1d s), DOFLAG_AF,
       DOFLAG_ZFd, DOFLAG_SFd,
       SETFLAGBIT FLAG_OF ((sint (lf_var1d s) < 0 \<longleftrightarrow> sint (lf_var2d s) < 0) \<and>
         (sint (lf_resd s) < 0 \<longleftrightarrow> \<not> sint (lf_var1d s) < 0)), DOFLAG_PF] s)"
  "lf_type s = t_SBBd \<Longrightarrow> FillFlags s = fill_done (seq_do
      [SETFLAGBIT FLAG_CF (lf_var1d s < lf_resd s \<or> lf_oldcf s \<noteq> 0 \<and> lf_var2d s = - 1), DOFLAG_AF,
       DOFLAG_ZFd, DOFLAG_SFd,
       SETFLAGBIT FLAG_OF ((sint (lf_var1d s) < 0 \<longleftrightarrow> \<not> sint (lf_var2d s) < 0) \<and>
         (sint (lf_var1d s) < 0 \<longleftrightarrow> \<not> sint (lf_resd s) < 0)), DOFLAG_PF] s)"
  by (simp_all add: FillFlags_def FillFlags_arith_def fill_done_def of_masks all_ones)

lemma fill_SUB_d:
  "lf_type s \<in> {t_SUBd, t_CMPd} \<Longrightarrow> FillFlags s = fill_done (seq_do
      [SETFLAGBIT FLAG_CF (lf_var1d s < lf_var2d s), DOFLAG_AF, DOFLAG_ZFd, DOFLAG_SFd,
       SETFLAGBIT FLAG_OF ((sint (lf_var1d s) < 0 \<longleftrightarrow> \<not> sint (lf_var2d s) < 0) \<and>
         (sint (lf_var1d s) < 0 \<longleftrightarrow> \<not> sint (lf_resd s) < 0)), DOFLAG_PF] s)"
  by (elim insertE emptyE; simp add: FillFlags_def FillFlags_arith_def fill_done_def of_masks)

lemma fill_logic_d:
  "lf_type s \<in> {t_ORd, t_ANDd, t_XORd, t_TESTd} \<Longrightarrow> FillFlags s = fill_done (seq_do
      [SETFLAGBIT FLAG_CF False, SETFLAGBIT FLAG_AF False, DOFLAG_ZFd, DOFLAG_SFd,
       SETFLAGBIT FLAG_OF False, DOFLAG_PF] s)"
  by (elim insertE emptyE; simp add: FillFlags_def FillFlags_arith_def FillFlags_logic_def
      fill_done_def)

lemma fill_shift_d:
  "lf_type s = t_SHLd \<Longrightarrow> FillFlags s = fill_done (seq_do
      [SETFLAGBIT FLAG_CF (shl_cf_d s), DOFLAG_ZFd, DOFLAG_SFd,
       SETFLAGBIT FLAG_OF (sint (lf_resd s) < 0 \<longleftrightarrow> \<not> sint (lf_var1d s) < 0), DOFLAG_PF,
       SETFLAGBIT FLAG_AF (lf_var2d s AND 0x1f \<noteq> 0)] s)"
  "lf_type s = t_SHRd \<Longrightarrow> FillFlags s = fill_done (seq_do
      [SETFLAGBIT FLAG_CF (bit (lf_var1d s) (unat (lf_var2b_minus_one s))), DOFLAG_ZFd, DOFLAG_SFd,
       SETFLAGBIT FLAG_OF (lf_var2d s AND 0x1f = 1 \<and> 2 ^ (32 - 1) \<le> lf_var1d s), DOFLAG_PF,
       SETFLAGBIT FLAG_AF (lf_var2d s AND 0x1f \<noteq> 0)] s)"
  "lf_type s = t_SARd \<Longrightarrow> FillFlags s = fill_done (seq_do
      [SETFLAGBIT FLAG_CF (bit (signed_drop_bit (unat (lf_var2b_minus_one s)) (lf_var1d s)) 0),
       DOFLAG_ZFd, DOFLAG_SFd, SETFLAGBIT FLAG_OF False, DOFLAG_PF,
       SETFLAGBIT FLAG_AF (lf_var2d s AND 0x1f \<noteq> 0)] s)"
  by (simp_all add: FillFlags_defs fill_done_def of_masks bit_drop_bit_eq shl_cf_d_def
      and_1_bits if_False_conj)

lemma fill_incdec_d:
  "lf_type s = t_INCd \<Longrightarrow> FillFlags s = fill_done (seq_do
      [SETFLAGBIT FLAG_AF (lf_resd s AND 0x0f = 0), DOFLAG_ZFd, DOFLAG_SFd,
       SETFLAGBIT FLAG_OF (lf_resd s = 2 ^ (32 - 1)), DOFLAG_PF] s)"
  "lf_type s = t_DECd \<Longrightarrow> FillFlags s = fill_done (seq_do
      [SETFLAGBIT FLAG_AF (lf_resd s AND 0x0f = 0x0f), DOFLAG_ZFd, DOFLAG_SFd,
       SETFLAGBIT FLAG_OF (lf_resd s = 2 ^ (32 - 1) - 1), DOFLAG_PF] s)"
  "lf_type s = t_NEGd \<Longrightarrow> FillFlags s = fill_done (seq_do
      [SETFLAGBIT FLAG_CF (lf_var1d s \<noteq> 0), SETFLAGBIT FLAG_AF (lf_resd s AND 0x0f \<noteq> 0),
       DOFLAG_ZFd, DOFLAG_SFd, SETFLAGBIT FLAG_OF (lf_var1d s = 2 ^ (32 - 1)), DOFLAG_PF] s)"
  by (simp_all add: FillFlags_defs fill_done_def)

lemma nofill_d:
  "lf_type s \<in> {t_ADDd, t_ADCd, t_SBBd, t_SUBd, t_CMPd} \<Longrightarrow> FillFlagsNoCFOF s =
    (seq_do [DOFLAG_AF, DOFLAG_ZFd, DOFLAG_SFd, DOFLAG_PF] s)\<lparr>lf_type := t_UNKNOWN\<rparr>"
  "lf_type s \<in> {t_ORd, t_ANDd, t_XORd, t_TESTd} \<Longrightarrow> FillFlagsNoCFOF s =
    (seq_do [SETFLAGBIT FLAG_AF False, DOFLAG_ZFd, DOFLAG_SFd, DOFLAG_PF] s)
      \<lparr>lf_type := t_UNKNOWN\<rparr>"
  "lf_type s \<in> {t_SHLd, t_SHRd, t_SARd} \<Longrightarrow> FillFlagsNoCFOF s =
    (seq_do [DOFLAG_ZFd, DOFLAG_SFd, DOFLAG_PF, SETFLAGBIT FLAG_AF (lf_var2d s AND 0x1f \<noteq> 0)] s)
      \<lparr>lf_type := t_UNKNOWN\<rparr>"
  by (elim insertE emptyE; simp add: FillFlagsNoCFOF_defs)+

lemma nofill_incdec_d:
  "lf_type s = t_INCd \<Longrightarrow> FillFlagsNoCFOF s =
    (seq_do [SETFLAGBIT FLAG_AF (lf_resd s AND 0x0f = 0), DOFLAG_ZFd, DOFLAG_SFd, DOFLAG_PF] s)
      \<lparr>lf_type := t_UNKNOWN\<rparr>"
  "lf_type s = t_DECd \<Longrightarrow> FillFlagsNoCFOF s =
    (seq_do [SETFLAGBIT FLAG_AF (lf_resd s AND 0x0f = 0x0f), DOFLAG_ZFd, DOFLAG_SFd, DOFLAG_PF] s)
      \<lparr>lf_type := t_UNKNOWN\<rparr>"
  "lf_type s = t_NEGd \<Longrightarrow> FillFlagsNoCFOF s =
    (seq_do [SETFLAGBIT FLAG_AF (lf_resd s AND 0x0f \<noteq> 0), DOFLAG_ZFd, DOFLAG_SFd, DOFLAG_PF] s)
      \<lparr>lf_type := t_UNKNOWN\<rparr>"
  by (simp_all add: FillFlagsNoCFOF_defs)

lemmas laws_d = CF_d CF_sets_d shl_cf_d_bit AF_d AF_incdec_d ZF_SF_d OF_d OF_misc_d
  fill_arith_d fill_SUB_d fill_logic_d fill_shift_d fill_incdec_d nofill_d nofill_incdec_d

interpretation dword: lazy_width lf_var1d lf_var2d lf_resd
  t_ADDd t_ADCd t_SBBd t_SUBd t_CMPd t_ORd t_ANDd t_XORd t_TESTd
  t_INCd t_DECd t_NEGd t_SHLd t_SHRd t_SARd DOFLAG_ZFd DOFLAG_SFd shl_cf_d
  by unfold_locales
    (simp_all only: laws_d DOFLAG_ZFd_def DOFLAG_SF_SETFLAGBIT sign_bits SETFLAGBIT_frame,
     simp_all add: lf_var1b_def lf_var2b_def lf_resb_def)

section \<open>All kinds of operations\<close>

text \<open>
  The pending states from which \<open>FillFlags\<close> agrees with the getters: a negation must have
  stored the negated operand, a right shift by one must not be of exactly the sign bit, the
  double shifts must find AF clear (the getter reports it clear, \<open>FillFlags\<close> keeps it), and the
  kinds \<open>FillFlags\<close> does not handle are excluded.
\<close>

definition lf_coherent :: "'a cpu_scheme \<Rightarrow> bool" where
  "lf_coherent s = (case lf_type s of
       t_NEGb \<Rightarrow> lf_resb s = - lf_var1b s
     | t_NEGw \<Rightarrow> lf_resw s = - lf_var1w s
     | t_NEGd \<Rightarrow> lf_resd s = - lf_var1d s
     | t_SHRb \<Rightarrow> \<not> (lf_var2b s AND 0x1f = 1 \<and> lf_var1b s = 0x80)
     | t_SHRw \<Rightarrow> \<not> (lf_var2w s AND 0x1f = 1 \<and> lf_var1w s = 0x8000)
     | t_SHRd \<Rightarrow> \<not> (lf_var2d s AND 0x1f = 1 \<and> lf_var1d s = 0x80000000)
     | t_DSHLw \<Rightarrow> GETFLAG FLAG_AF s = 0
     | t_DSHLd \<Rightarrow> GETFLAG FLAG_AF s = 0
     | t_DSHRw \<Rightarrow> GETFLAG FLAG_AF s = 0
     | t_DSHRd \<Rightarrow> GETFLAG FLAG_AF s = 0
     | t_ROLb \<Rightarrow> False | t_ROLw \<Rightarrow> False | t_ROLd \<Rightarrow> False
     | t_RORb \<Rightarrow> False | t_RORw \<Rightarrow> False | t_RORd \<Rightarrow> False
     | t_RCLb \<Rightarrow> False | t_RCLw \<Rightarrow> False | t_RCLd \<Rightarrow> False
     | t_RCRb \<Rightarrow> False | t_RCRw \<Rightarrow> False | t_RCRd \<Rightarrow> False
     | t_MUL \<Rightarrow> False | t_DIV \<Rightarrow> False | t_NOTDONE \<Rightarrow> False | t_LASTFLAG \<Rightarrow> False
     | _ \<Rightarrow> True)"

lemma fill_ok_UNKNOWN: "lf_type s = t_UNKNOWN \<Longrightarrow> fill_ok s"
  by (simp add: fill_ok_def FillFlags_def lazy_view_UNKNOWN)

lemma fill_ok_double_shift:
  assumes "lf_type s \<in> {t_DSHLw, t_DSHLd, t_DSHRw, t_DSHRd}" and "GETFLAG FLAG_AF s = 0"
  shows "fill_ok s"
  using assms
  by (elim insertE emptyE;
      simp add: fill_ok_def FillFlags_defs DOFLAG_SETFLAGBIT reg_view_state lazy_view_def
        get_PF_even get_CF_def get_AF_def get_ZF_def get_SF_def get_OF_def of_masks
        mask_bits sign_bits)

lemmas fill_ok_rules =
  fill_ok_UNKNOWN fill_ok_double_shift
  byte.fill_ok_arith byte.fill_ok_logic byte.fill_ok_incdec byte.fill_ok_NEG byte.fill_ok_SHL_SAR
  word16.fill_ok_arith word16.fill_ok_logic word16.fill_ok_incdec word16.fill_ok_NEG
  word16.fill_ok_SHL_SAR
  dword.fill_ok_arith dword.fill_ok_logic dword.fill_ok_incdec dword.fill_ok_NEG
  dword.fill_ok_SHL_SAR

lemma fill_ok_coherent:
  fixes s :: cpu
  assumes "lf_coherent s"
  shows "fill_ok s"
  using assms byte.fill_ok_SHR_iff [of s] word16.fill_ok_SHR_iff [of s] dword.fill_ok_SHR_iff [of s]
  by (cases "lf_type s") (simp_all add: lf_coherent_def fill_ok_rules)

text \<open>A CPU with all state zero and nothing pending, for concrete instances.\<close>

definition zero_cpu :: cpu where
  "zero_cpu = \<lparr>lf_var1d = 0, lf_var2d = 0, lf_resd = 0, lf_type = t_UNKNOWN, lf_oldcf = 0,
     reg_flags = 0, reg_eax = 0, reg_edx = 0, cpl = 0, direction = 0, extflags_toggle = 0\<rparr>"

lemma fill_no_cf_of_ok_coherent:
  fixes s :: cpu
  assumes "lf_coherent s"
  shows "fill_no_cf_of_ok s"
proof -
  have "fill_no_cf_of_ok s" if "lf_type s = t_UNKNOWN"
    using that by (simp add: fill_no_cf_of_ok_def FillFlagsNoCFOF_def lazy_view_UNKNOWN)
  moreover have "fill_no_cf_of_ok s" if "lf_type s \<in> {t_DSHLw, t_DSHLd, t_DSHRw, t_DSHRd}"
    using that assms
    by (elim insertE emptyE;
        simp add: fill_no_cf_of_ok_def lf_coherent_def FillFlagsNoCFOF_defs DOFLAG_SETFLAGBIT
          reg_view_state lazy_view_def get_PF_even get_AF_def get_ZF_def get_SF_def mask_bits sign_bits)
  ultimately show ?thesis
    using assms byte.nofill_ok_all [of s] word16.nofill_ok_all [of s] dword.nofill_ok_all [of s]
    by (cases "lf_type s") (simp_all add: lf_coherent_def)
qed

text \<open>What filling the flags must not touch: everything but the FLAGS register and the pending operation.\<close>

definition besides_flags :: "cpu \<Rightarrow> cpu" where
  "besides_flags s = s\<lparr>reg_flags := 0, lf_type := t_UNKNOWN\<rparr>"

lemma besides_flags_steps:
  "besides_flags (SETFLAGBIT m b s) = besides_flags s" "besides_flags (s\<lparr>lf_type := x\<rparr>) = besides_flags s"
  "besides_flags (s\<lparr>reg_flags := w\<rparr>) = besides_flags s"
  by (simp_all add: besides_flags_def SETFLAGBIT_def)

lemma besides_flags_DOFLAG:
  "besides_flags (DOFLAG_PF s) = besides_flags s" "besides_flags (DOFLAG_AF s) = besides_flags s"
  "besides_flags (DOFLAG_ZFb s) = besides_flags s" "besides_flags (DOFLAG_ZFw s) = besides_flags s" "besides_flags (DOFLAG_ZFd s) = besides_flags s"
  "besides_flags (DOFLAG_SFb s) = besides_flags s" "besides_flags (DOFLAG_SFw s) = besides_flags s" "besides_flags (DOFLAG_SFd s) = besides_flags s"
  by (simp_all add: DOFLAG_SETFLAGBIT besides_flags_steps)

lemma besides_flags_fill:
  "besides_flags (snd (FillFlags s)) = besides_flags s" "besides_flags (FillFlagsNoCFOF s) = besides_flags s"
  by (cases "lf_type s"; simp add: FillFlags_defs fill_done_def besides_flags_steps besides_flags_DOFLAG)
    (cases "lf_type s"; simp add: FillFlagsNoCFOF_defs besides_flags_steps besides_flags_DOFLAG)

lemma besides_flags_eq: "besides_flags t = besides_flags s \<longleftrightarrow> t = s\<lparr>reg_flags := reg_flags t, lf_type := lf_type t\<rparr>"
proof
  assume "besides_flags t = besides_flags s"
  then have "(besides_flags t)\<lparr>reg_flags := reg_flags t, lf_type := lf_type t\<rparr> = (besides_flags s)\<lparr>reg_flags := reg_flags t, lf_type := lf_type t\<rparr>" by simp
  then show "t = s\<lparr>reg_flags := reg_flags t, lf_type := lf_type t\<rparr>" by (simp add: besides_flags_def)
next
  assume "t = s\<lparr>reg_flags := reg_flags t, lf_type := lf_type t\<rparr>"
  then show "besides_flags t = besides_flags s" by (metis besides_flags_steps(2,3))
qed

section \<open>Properties\<close>

text \<open>
  Property C1. Materialising the lazy flags is transparent: in every coherent pending state,
  \<^verbatim>\<open>FillFlags\<close> returns the FLAGS register it leaves, that register holds exactly the six status
  flags the getters reported, no other bit of it changes, nothing stays pending, the getters
  report the same afterwards, and no other field of the processor changes: the general registers,
  the direction flag's copy and the operands of the last operation included.
  \<^verbatim>\<open>FillFlagsNoCFOF\<close> does the same for all but CF and OF, whose register bits it keeps.
\<close>

theorem FillFlags_transparent:
  fixes s :: cpu
  assumes "lf_coherent s"
  shows "(case FillFlags s of (r, t) \<Rightarrow> r = reg_flags t \<and> lf_type t = t_UNKNOWN \<and>
       reg_view r = lazy_view s \<and> reg_rest t = reg_rest s \<and> lazy_view t = lazy_view s \<and>
       t = s\<lparr>reg_flags := r, lf_type := t_UNKNOWN\<rparr>) \<and>
    (let t = FillFlagsNoCFOF s in lf_type t = t_UNKNOWN \<and> reg_rest t = reg_rest s \<and>
       reg_view (reg_flags t) = (lazy_view s)
         \<lparr>f_CF := f_CF (reg_view (reg_flags s)), f_OF := f_OF (reg_view (reg_flags s))\<rparr> \<and>
       t = s\<lparr>reg_flags := reg_flags t, lf_type := t_UNKNOWN\<rparr>)"
proof -
  have "snd (FillFlags s) = s\<lparr>reg_flags := reg_flags (snd (FillFlags s)), lf_type := lf_type (snd (FillFlags s))\<rparr>"
    "FillFlagsNoCFOF s = s\<lparr>reg_flags := reg_flags (FillFlagsNoCFOF s), lf_type := lf_type (FillFlagsNoCFOF s)\<rparr>"
    by (simp_all only: besides_flags_eq [symmetric] besides_flags_fill)
  then show ?thesis
    using fill_ok_coherent [OF assms] fill_no_cf_of_ok_coherent [OF assms]
    by (auto simp: fill_ok_def fill_no_cf_of_ok_def Let_def lazy_view_UNKNOWN)
qed

definition carry_pending :: cpu where
  "carry_pending = zero_cpu\<lparr>lf_type := t_ADDb, lf_var1d := 0xf0, lf_var2d := 0x20, lf_resd := 0x10, reg_eax := 5\<rparr>"

theorem FillFlags_transparent_witness:
  "lf_coherent carry_pending \<and>
   (case FillFlags carry_pending of (r, t) \<Rightarrow> f_CF (reg_view r) \<and> lf_type t = t_UNKNOWN \<and> reg_eax t = 5 \<and> lf_resd t = 0x10)"
proof -
  have coherent: "lf_coherent carry_pending" by (simp add: lf_coherent_def carry_pending_def)
  have carry: "f_CF (lazy_view carry_pending)" by code_simp
  obtain r t where rt: "FillFlags carry_pending = (r, t)" by fastforce
  note filled = FillFlags_transparent [OF coherent, unfolded rt prod.case, THEN conjunct1]
  have t: "t = carry_pending\<lparr>reg_flags := r, lf_type := t_UNKNOWN\<rparr>" using filled by (elim conjE)
  have "reg_view r = lazy_view carry_pending" using filled by (elim conjE)
  then show ?thesis unfolding rt prod.case t using coherent carry by (simp add: carry_pending_def)
qed

end
