(* ===== verification/Cpu_Alu.thy ===== *)
theory Cpu_Alu
  imports Cpu_Flags "HOL-Library.Signed_Division"
begin

text \<open>
  The instruction bodies of \<^verbatim>\<open>src/cpu/instructions.h\<close> (with the negations of
  \<^verbatim>\<open>src/cpu/core_normal\<close>). A macro \<^verbatim>\<open>OP(op1,op2,load,save)\<close> becomes a function from the loaded
  value of \<open>op1\<close>, the second operand and the CPU to the saved value and the new CPU: where the
  operand lives (register or memory) is the decoder's business. A body that leaves through
  \<^verbatim>\<open>break\<close> before saving returns \<open>None\<close> as the saved value. \<^verbatim>\<open>EXCEPTION(0)\<close> and a host division
  trap are error values.
\<close>

unbundle bit_operations_syntax

section \<open>Operand and register views\<close>

text \<open>Assigning an 8- or 16-bit union member keeps the upper bits of the 32-bit one.\<close>

definition low8_set :: "u8 \<Rightarrow> u32 \<Rightarrow> u32" where
  "low8_set x d = (d AND NOT 0xff) OR ucast x"

definition low16_set :: "u16 \<Rightarrow> u32 \<Rightarrow> u32" where
  "low16_set x d = (d AND NOT 0xffff) OR ucast x"

definition set_lf_var1b :: "u8 \<Rightarrow> 'a LazyFlags_scheme \<Rightarrow> 'a LazyFlags_scheme" where
  "set_lf_var1b x s = s\<lparr>lf_var1d := low8_set x (lf_var1d s)\<rparr>"
definition set_lf_var1w :: "u16 \<Rightarrow> 'a LazyFlags_scheme \<Rightarrow> 'a LazyFlags_scheme" where
  "set_lf_var1w x s = s\<lparr>lf_var1d := low16_set x (lf_var1d s)\<rparr>"
definition set_lf_var1d :: "u32 \<Rightarrow> 'a LazyFlags_scheme \<Rightarrow> 'a LazyFlags_scheme" where
  "set_lf_var1d x s = s\<lparr>lf_var1d := x\<rparr>"

definition set_lf_var2b :: "u8 \<Rightarrow> 'a LazyFlags_scheme \<Rightarrow> 'a LazyFlags_scheme" where
  "set_lf_var2b x s = s\<lparr>lf_var2d := low8_set x (lf_var2d s)\<rparr>"
definition set_lf_var2w :: "u16 \<Rightarrow> 'a LazyFlags_scheme \<Rightarrow> 'a LazyFlags_scheme" where
  "set_lf_var2w x s = s\<lparr>lf_var2d := low16_set x (lf_var2d s)\<rparr>"
definition set_lf_var2d :: "u32 \<Rightarrow> 'a LazyFlags_scheme \<Rightarrow> 'a LazyFlags_scheme" where
  "set_lf_var2d x s = s\<lparr>lf_var2d := x\<rparr>"

definition set_lf_resb :: "u8 \<Rightarrow> 'a LazyFlags_scheme \<Rightarrow> 'a LazyFlags_scheme" where
  "set_lf_resb x s = s\<lparr>lf_resd := low8_set x (lf_resd s)\<rparr>"
definition set_lf_resw :: "u16 \<Rightarrow> 'a LazyFlags_scheme \<Rightarrow> 'a LazyFlags_scheme" where
  "set_lf_resw x s = s\<lparr>lf_resd := low16_set x (lf_resd s)\<rparr>"
definition set_lf_resd :: "u32 \<Rightarrow> 'a LazyFlags_scheme \<Rightarrow> 'a LazyFlags_scheme" where
  "set_lf_resd x s = s\<lparr>lf_resd := x\<rparr>"

definition reg_al :: "'a cpu_scheme \<Rightarrow> u8" where "reg_al s = ucast (reg_eax s)"
definition reg_ah :: "'a cpu_scheme \<Rightarrow> u8" where "reg_ah s = ucast (drop_bit 8 (reg_eax s))"
definition reg_ax :: "'a cpu_scheme \<Rightarrow> u16" where "reg_ax s = ucast (reg_eax s)"
definition reg_dx :: "'a cpu_scheme \<Rightarrow> u16" where "reg_dx s = ucast (reg_edx s)"

definition set_reg_al :: "u8 \<Rightarrow> 'a cpu_scheme \<Rightarrow> 'a cpu_scheme" where
  "set_reg_al x s = s\<lparr>reg_eax := low8_set x (reg_eax s)\<rparr>"
definition set_reg_ah :: "u8 \<Rightarrow> 'a cpu_scheme \<Rightarrow> 'a cpu_scheme" where
  "set_reg_ah x s = s\<lparr>reg_eax := (reg_eax s AND NOT 0xff00) OR push_bit 8 (ucast x)\<rparr>"
definition set_reg_ax :: "u16 \<Rightarrow> 'a cpu_scheme \<Rightarrow> 'a cpu_scheme" where
  "set_reg_ax x s = s\<lparr>reg_eax := low16_set x (reg_eax s)\<rparr>"
definition set_reg_dx :: "u16 \<Rightarrow> 'a cpu_scheme \<Rightarrow> 'a cpu_scheme" where
  "set_reg_dx x s = s\<lparr>reg_edx := low16_set x (reg_edx s)\<rparr>"

section \<open>Two-operand arithmetic and logic\<close>

definition ADDB :: "u8 \<Rightarrow> u8 \<Rightarrow> 'a cpu_scheme \<Rightarrow> u8 \<times> 'a cpu_scheme" where
  "ADDB op1 op2 s = (let t = seq_do
     [set_lf_var1b op1,
      set_lf_var2b op2,
      \<lambda>t. set_lf_resb (lf_var1b t + lf_var2b t) t,
      \<lambda>t. t\<lparr>lf_type := t_ADDb\<rparr>] s
   in (lf_resb t, t))"

definition ADCB :: "u8 \<Rightarrow> u8 \<Rightarrow> 'a cpu_scheme \<Rightarrow> u8 \<times> 'a cpu_scheme" where
  "ADCB op1 op2 s = (let t = seq_do
     [\<lambda>t. t\<lparr>lf_oldcf := of_bool (get_CF t \<noteq> 0)\<rparr>,
      set_lf_var1b op1,
      set_lf_var2b op2,
      \<lambda>t. set_lf_resb (lf_var1b t + lf_var2b t + ucast (lf_oldcf t)) t,
      \<lambda>t. t\<lparr>lf_type := t_ADCb\<rparr>] s
   in (lf_resb t, t))"

definition SBBB :: "u8 \<Rightarrow> u8 \<Rightarrow> 'a cpu_scheme \<Rightarrow> u8 \<times> 'a cpu_scheme" where
  "SBBB op1 op2 s = (let t = seq_do
     [\<lambda>t. t\<lparr>lf_oldcf := of_bool (get_CF t \<noteq> 0)\<rparr>,
      set_lf_var1b op1,
      set_lf_var2b op2,
      \<lambda>t. set_lf_resb (lf_var1b t - (lf_var2b t + ucast (lf_oldcf t))) t,
      \<lambda>t. t\<lparr>lf_type := t_SBBb\<rparr>] s
   in (lf_resb t, t))"

definition SUBB :: "u8 \<Rightarrow> u8 \<Rightarrow> 'a cpu_scheme \<Rightarrow> u8 \<times> 'a cpu_scheme" where
  "SUBB op1 op2 s = (let t = seq_do
     [set_lf_var1b op1,
      set_lf_var2b op2,
      \<lambda>t. set_lf_resb (lf_var1b t - lf_var2b t) t,
      \<lambda>t. t\<lparr>lf_type := t_SUBb\<rparr>] s
   in (lf_resb t, t))"

definition ORB :: "u8 \<Rightarrow> u8 \<Rightarrow> 'a cpu_scheme \<Rightarrow> u8 \<times> 'a cpu_scheme" where
  "ORB op1 op2 s = (let t = seq_do
     [set_lf_var1b op1,
      set_lf_var2b op2,
      \<lambda>t. set_lf_resb (lf_var1b t OR lf_var2b t) t,
      \<lambda>t. t\<lparr>lf_type := t_ORb\<rparr>] s
   in (lf_resb t, t))"

definition XORB :: "u8 \<Rightarrow> u8 \<Rightarrow> 'a cpu_scheme \<Rightarrow> u8 \<times> 'a cpu_scheme" where
  "XORB op1 op2 s = (let t = seq_do
     [set_lf_var1b op1,
      set_lf_var2b op2,
      \<lambda>t. set_lf_resb (lf_var1b t XOR lf_var2b t) t,
      \<lambda>t. t\<lparr>lf_type := t_XORb\<rparr>] s
   in (lf_resb t, t))"

definition ANDB :: "u8 \<Rightarrow> u8 \<Rightarrow> 'a cpu_scheme \<Rightarrow> u8 \<times> 'a cpu_scheme" where
  "ANDB op1 op2 s = (let t = seq_do
     [set_lf_var1b op1,
      set_lf_var2b op2,
      \<lambda>t. set_lf_resb (lf_var1b t AND lf_var2b t) t,
      \<lambda>t. t\<lparr>lf_type := t_ANDb\<rparr>] s
   in (lf_resb t, t))"

definition CMPB :: "u8 \<Rightarrow> u8 \<Rightarrow> 'a cpu_scheme \<Rightarrow> 'a cpu_scheme" where
  "CMPB op1 op2 s = seq_do
     [set_lf_var1b op1,
      set_lf_var2b op2,
      \<lambda>t. set_lf_resb (lf_var1b t - lf_var2b t) t,
      \<lambda>t. t\<lparr>lf_type := t_CMPb\<rparr>] s"

definition TESTB :: "u8 \<Rightarrow> u8 \<Rightarrow> 'a cpu_scheme \<Rightarrow> 'a cpu_scheme" where
  "TESTB op1 op2 s = seq_do
     [set_lf_var1b op1,
      set_lf_var2b op2,
      \<lambda>t. set_lf_resb (lf_var1b t AND lf_var2b t) t,
      \<lambda>t. t\<lparr>lf_type := t_TESTb\<rparr>] s"

definition ADDW :: "u16 \<Rightarrow> u16 \<Rightarrow> 'a cpu_scheme \<Rightarrow> u16 \<times> 'a cpu_scheme" where
  "ADDW op1 op2 s = (let t = seq_do
     [set_lf_var1w op1,
      set_lf_var2w op2,
      \<lambda>t. set_lf_resw (lf_var1w t + lf_var2w t) t,
      \<lambda>t. t\<lparr>lf_type := t_ADDw\<rparr>] s
   in (lf_resw t, t))"

definition ADCW :: "u16 \<Rightarrow> u16 \<Rightarrow> 'a cpu_scheme \<Rightarrow> u16 \<times> 'a cpu_scheme" where
  "ADCW op1 op2 s = (let t = seq_do
     [\<lambda>t. t\<lparr>lf_oldcf := of_bool (get_CF t \<noteq> 0)\<rparr>,
      set_lf_var1w op1,
      set_lf_var2w op2,
      \<lambda>t. set_lf_resw (lf_var1w t + lf_var2w t + ucast (lf_oldcf t)) t,
      \<lambda>t. t\<lparr>lf_type := t_ADCw\<rparr>] s
   in (lf_resw t, t))"

definition SBBW :: "u16 \<Rightarrow> u16 \<Rightarrow> 'a cpu_scheme \<Rightarrow> u16 \<times> 'a cpu_scheme" where
  "SBBW op1 op2 s = (let t = seq_do
     [\<lambda>t. t\<lparr>lf_oldcf := of_bool (get_CF t \<noteq> 0)\<rparr>,
      set_lf_var1w op1,
      set_lf_var2w op2,
      \<lambda>t. set_lf_resw (lf_var1w t - (lf_var2w t + ucast (lf_oldcf t))) t,
      \<lambda>t. t\<lparr>lf_type := t_SBBw\<rparr>] s
   in (lf_resw t, t))"

definition SUBW :: "u16 \<Rightarrow> u16 \<Rightarrow> 'a cpu_scheme \<Rightarrow> u16 \<times> 'a cpu_scheme" where
  "SUBW op1 op2 s = (let t = seq_do
     [set_lf_var1w op1,
      set_lf_var2w op2,
      \<lambda>t. set_lf_resw (lf_var1w t - lf_var2w t) t,
      \<lambda>t. t\<lparr>lf_type := t_SUBw\<rparr>] s
   in (lf_resw t, t))"

definition ORW :: "u16 \<Rightarrow> u16 \<Rightarrow> 'a cpu_scheme \<Rightarrow> u16 \<times> 'a cpu_scheme" where
  "ORW op1 op2 s = (let t = seq_do
     [set_lf_var1w op1,
      set_lf_var2w op2,
      \<lambda>t. set_lf_resw (lf_var1w t OR lf_var2w t) t,
      \<lambda>t. t\<lparr>lf_type := t_ORw\<rparr>] s
   in (lf_resw t, t))"

definition XORW :: "u16 \<Rightarrow> u16 \<Rightarrow> 'a cpu_scheme \<Rightarrow> u16 \<times> 'a cpu_scheme" where
  "XORW op1 op2 s = (let t = seq_do
     [set_lf_var1w op1,
      set_lf_var2w op2,
      \<lambda>t. set_lf_resw (lf_var1w t XOR lf_var2w t) t,
      \<lambda>t. t\<lparr>lf_type := t_XORw\<rparr>] s
   in (lf_resw t, t))"

definition ANDW :: "u16 \<Rightarrow> u16 \<Rightarrow> 'a cpu_scheme \<Rightarrow> u16 \<times> 'a cpu_scheme" where
  "ANDW op1 op2 s = (let t = seq_do
     [set_lf_var1w op1,
      set_lf_var2w op2,
      \<lambda>t. set_lf_resw (lf_var1w t AND lf_var2w t) t,
      \<lambda>t. t\<lparr>lf_type := t_ANDw\<rparr>] s
   in (lf_resw t, t))"

definition CMPW :: "u16 \<Rightarrow> u16 \<Rightarrow> 'a cpu_scheme \<Rightarrow> 'a cpu_scheme" where
  "CMPW op1 op2 s = seq_do
     [set_lf_var1w op1,
      set_lf_var2w op2,
      \<lambda>t. set_lf_resw (lf_var1w t - lf_var2w t) t,
      \<lambda>t. t\<lparr>lf_type := t_CMPw\<rparr>] s"

definition TESTW :: "u16 \<Rightarrow> u16 \<Rightarrow> 'a cpu_scheme \<Rightarrow> 'a cpu_scheme" where
  "TESTW op1 op2 s = seq_do
     [set_lf_var1w op1,
      set_lf_var2w op2,
      \<lambda>t. set_lf_resw (lf_var1w t AND lf_var2w t) t,
      \<lambda>t. t\<lparr>lf_type := t_TESTw\<rparr>] s"

definition ADDD :: "u32 \<Rightarrow> u32 \<Rightarrow> 'a cpu_scheme \<Rightarrow> u32 \<times> 'a cpu_scheme" where
  "ADDD op1 op2 s = (let t = seq_do
     [set_lf_var1d op1,
      set_lf_var2d op2,
      \<lambda>t. set_lf_resd (lf_var1d t + lf_var2d t) t,
      \<lambda>t. t\<lparr>lf_type := t_ADDd\<rparr>] s
   in (lf_resd t, t))"

definition ADCD :: "u32 \<Rightarrow> u32 \<Rightarrow> 'a cpu_scheme \<Rightarrow> u32 \<times> 'a cpu_scheme" where
  "ADCD op1 op2 s = (let t = seq_do
     [\<lambda>t. t\<lparr>lf_oldcf := of_bool (get_CF t \<noteq> 0)\<rparr>,
      set_lf_var1d op1,
      set_lf_var2d op2,
      \<lambda>t. set_lf_resd (lf_var1d t + lf_var2d t + ucast (lf_oldcf t)) t,
      \<lambda>t. t\<lparr>lf_type := t_ADCd\<rparr>] s
   in (lf_resd t, t))"

definition SBBD :: "u32 \<Rightarrow> u32 \<Rightarrow> 'a cpu_scheme \<Rightarrow> u32 \<times> 'a cpu_scheme" where
  "SBBD op1 op2 s = (let t = seq_do
     [\<lambda>t. t\<lparr>lf_oldcf := of_bool (get_CF t \<noteq> 0)\<rparr>,
      set_lf_var1d op1,
      set_lf_var2d op2,
      \<lambda>t. set_lf_resd (lf_var1d t - (lf_var2d t + ucast (lf_oldcf t))) t,
      \<lambda>t. t\<lparr>lf_type := t_SBBd\<rparr>] s
   in (lf_resd t, t))"

definition SUBD :: "u32 \<Rightarrow> u32 \<Rightarrow> 'a cpu_scheme \<Rightarrow> u32 \<times> 'a cpu_scheme" where
  "SUBD op1 op2 s = (let t = seq_do
     [set_lf_var1d op1,
      set_lf_var2d op2,
      \<lambda>t. set_lf_resd (lf_var1d t - lf_var2d t) t,
      \<lambda>t. t\<lparr>lf_type := t_SUBd\<rparr>] s
   in (lf_resd t, t))"

definition ORD :: "u32 \<Rightarrow> u32 \<Rightarrow> 'a cpu_scheme \<Rightarrow> u32 \<times> 'a cpu_scheme" where
  "ORD op1 op2 s = (let t = seq_do
     [set_lf_var1d op1,
      set_lf_var2d op2,
      \<lambda>t. set_lf_resd (lf_var1d t OR lf_var2d t) t,
      \<lambda>t. t\<lparr>lf_type := t_ORd\<rparr>] s
   in (lf_resd t, t))"

definition XORD :: "u32 \<Rightarrow> u32 \<Rightarrow> 'a cpu_scheme \<Rightarrow> u32 \<times> 'a cpu_scheme" where
  "XORD op1 op2 s = (let t = seq_do
     [set_lf_var1d op1,
      set_lf_var2d op2,
      \<lambda>t. set_lf_resd (lf_var1d t XOR lf_var2d t) t,
      \<lambda>t. t\<lparr>lf_type := t_XORd\<rparr>] s
   in (lf_resd t, t))"

definition ANDD :: "u32 \<Rightarrow> u32 \<Rightarrow> 'a cpu_scheme \<Rightarrow> u32 \<times> 'a cpu_scheme" where
  "ANDD op1 op2 s = (let t = seq_do
     [set_lf_var1d op1,
      set_lf_var2d op2,
      \<lambda>t. set_lf_resd (lf_var1d t AND lf_var2d t) t,
      \<lambda>t. t\<lparr>lf_type := t_ANDd\<rparr>] s
   in (lf_resd t, t))"

definition CMPD :: "u32 \<Rightarrow> u32 \<Rightarrow> 'a cpu_scheme \<Rightarrow> 'a cpu_scheme" where
  "CMPD op1 op2 s = seq_do
     [set_lf_var1d op1,
      set_lf_var2d op2,
      \<lambda>t. set_lf_resd (lf_var1d t - lf_var2d t) t,
      \<lambda>t. t\<lparr>lf_type := t_CMPd\<rparr>] s"

definition TESTD :: "u32 \<Rightarrow> u32 \<Rightarrow> 'a cpu_scheme \<Rightarrow> 'a cpu_scheme" where
  "TESTD op1 op2 s = seq_do
     [set_lf_var1d op1,
      set_lf_var2d op2,
      \<lambda>t. set_lf_resd (lf_var1d t AND lf_var2d t) t,
      \<lambda>t. t\<lparr>lf_type := t_TESTd\<rparr>] s"

section \<open>Increment, decrement, negation\<close>

definition INCB :: "u8 \<Rightarrow> 'a cpu_scheme \<Rightarrow> u8 \<times> 'a cpu_scheme" where
  "INCB op1 s = (let t = seq_do
     [LoadCF,
      set_lf_var1b op1,
      \<lambda>t. set_lf_resb (lf_var1b t + 1) t,
      \<lambda>t. t\<lparr>lf_type := t_INCb\<rparr>] s
   in (lf_resb t, t))"

definition INCW :: "u16 \<Rightarrow> 'a cpu_scheme \<Rightarrow> u16 \<times> 'a cpu_scheme" where
  "INCW op1 s = (let t = seq_do
     [LoadCF,
      set_lf_var1w op1,
      \<lambda>t. set_lf_resw (lf_var1w t + 1) t,
      \<lambda>t. t\<lparr>lf_type := t_INCw\<rparr>] s
   in (lf_resw t, t))"

definition INCD :: "u32 \<Rightarrow> 'a cpu_scheme \<Rightarrow> u32 \<times> 'a cpu_scheme" where
  "INCD op1 s = (let t = seq_do
     [LoadCF,
      set_lf_var1d op1,
      \<lambda>t. set_lf_resd (lf_var1d t + 1) t,
      \<lambda>t. t\<lparr>lf_type := t_INCd\<rparr>] s
   in (lf_resd t, t))"

definition DECB :: "u8 \<Rightarrow> 'a cpu_scheme \<Rightarrow> u8 \<times> 'a cpu_scheme" where
  "DECB op1 s = (let t = seq_do
     [LoadCF,
      set_lf_var1b op1,
      \<lambda>t. set_lf_resb (lf_var1b t - 1) t,
      \<lambda>t. t\<lparr>lf_type := t_DECb\<rparr>] s
   in (lf_resb t, t))"

definition DECW :: "u16 \<Rightarrow> 'a cpu_scheme \<Rightarrow> u16 \<times> 'a cpu_scheme" where
  "DECW op1 s = (let t = seq_do
     [LoadCF,
      set_lf_var1w op1,
      \<lambda>t. set_lf_resw (lf_var1w t - 1) t,
      \<lambda>t. t\<lparr>lf_type := t_DECw\<rparr>] s
   in (lf_resw t, t))"

definition DECD :: "u32 \<Rightarrow> 'a cpu_scheme \<Rightarrow> u32 \<times> 'a cpu_scheme" where
  "DECD op1 s = (let t = seq_do
     [LoadCF,
      set_lf_var1d op1,
      \<lambda>t. set_lf_resd (lf_var1d t - 1) t,
      \<lambda>t. t\<lparr>lf_type := t_DECd\<rparr>] s
   in (lf_resd t, t))"

definition NEGB :: "u8 \<Rightarrow> 'a cpu_scheme \<Rightarrow> u8 \<times> 'a cpu_scheme" where
  "NEGB op1 s = (let t = seq_do
     [\<lambda>t. t\<lparr>lf_type := t_NEGb\<rparr>,
      set_lf_var1b op1,
      \<lambda>t. set_lf_resb (0 - lf_var1b t) t] s
   in (lf_resb t, t))"

definition NEGW :: "u16 \<Rightarrow> 'a cpu_scheme \<Rightarrow> u16 \<times> 'a cpu_scheme" where
  "NEGW op1 s = (let t = seq_do
     [\<lambda>t. t\<lparr>lf_type := t_NEGw\<rparr>,
      set_lf_var1w op1,
      \<lambda>t. set_lf_resw (0 - lf_var1w t) t] s
   in (lf_resw t, t))"

definition NEGD :: "u32 \<Rightarrow> 'a cpu_scheme \<Rightarrow> u32 \<times> 'a cpu_scheme" where
  "NEGD op1 s = (let t = seq_do
     [\<lambda>t. t\<lparr>lf_type := t_NEGd\<rparr>,
      set_lf_var1d op1,
      \<lambda>t. set_lf_resd (0 - lf_var1d t) t] s
   in (lf_resd t, t))"

section \<open>Rotates\<close>

text \<open>
  The operand is an 8- or 16-bit value promoted to \<^verbatim>\<open>int\<close> and the result is truncated again, so
  a left shift of the narrow word is the same; the counts are below the promoted width.
\<close>

definition ROLB :: "u8 \<Rightarrow> u8 \<Rightarrow> 'a cpu_scheme \<Rightarrow> u8 \<times> 'a cpu_scheme" where
  "ROLB op1 op2 s = (let t = seq_do
     [FillFlagsNoCFOF,
      set_lf_var1b op1,
      set_lf_var2b (op2 AND 0x07),
      \<lambda>t. set_lf_resb
        (push_bit (unat (lf_var2b t)) (lf_var1b t) OR
         drop_bit (8 - unat (lf_var2b t)) (lf_var1b t)) t,
      \<lambda>t. SETFLAGBIT FLAG_CF (lf_resb t AND 1 \<noteq> 0) t,
      \<lambda>t. SETFLAGBIT FLAG_OF ((lf_resb t AND 1) XOR drop_bit 7 (lf_resb t) \<noteq> 0) t] s
   in (lf_resb t, t))"

definition ROLW :: "u16 \<Rightarrow> u8 \<Rightarrow> 'a cpu_scheme \<Rightarrow> u16 \<times> 'a cpu_scheme" where
  "ROLW op1 op2 s = (let t = seq_do
     [FillFlagsNoCFOF,
      set_lf_var1w op1,
      set_lf_var2b (op2 AND 0xf),
      \<lambda>t. set_lf_resw
        (push_bit (unat (lf_var2b t)) (lf_var1w t) OR
         drop_bit (16 - unat (lf_var2b t)) (lf_var1w t)) t,
      \<lambda>t. SETFLAGBIT FLAG_CF (lf_resw t AND 1 \<noteq> 0) t,
      \<lambda>t. SETFLAGBIT FLAG_OF ((lf_resw t AND 1) XOR drop_bit 15 (lf_resw t) \<noteq> 0) t] s
   in (lf_resw t, t))"

definition ROLD :: "u32 \<Rightarrow> u8 \<Rightarrow> 'a cpu_scheme \<Rightarrow> u32 \<times> 'a cpu_scheme" where
  "ROLD op1 op2 s = (let t = seq_do
     [FillFlagsNoCFOF,
      set_lf_var1d op1,
      set_lf_var2b (op2),
      \<lambda>t. set_lf_resd
        (push_bit (unat (lf_var2b t)) (lf_var1d t) OR
         drop_bit (32 - unat (lf_var2b t)) (lf_var1d t)) t,
      \<lambda>t. SETFLAGBIT FLAG_CF (lf_resd t AND 1 \<noteq> 0) t,
      \<lambda>t. SETFLAGBIT FLAG_OF ((lf_resd t AND 1) XOR drop_bit 31 (lf_resd t) \<noteq> 0) t] s
   in (lf_resd t, t))"

definition RORB :: "u8 \<Rightarrow> u8 \<Rightarrow> 'a cpu_scheme \<Rightarrow> u8 \<times> 'a cpu_scheme" where
  "RORB op1 op2 s = (let t = seq_do
     [FillFlagsNoCFOF,
      set_lf_var1b op1,
      set_lf_var2b (op2 AND 0x07),
      \<lambda>t. set_lf_resb
        (drop_bit (unat (lf_var2b t)) (lf_var1b t) OR
         push_bit (8 - unat (lf_var2b t)) (lf_var1b t)) t,
      \<lambda>t. SETFLAGBIT FLAG_CF (lf_resb t AND 0x80 \<noteq> 0) t,
      \<lambda>t. SETFLAGBIT FLAG_OF ((lf_resb t XOR push_bit 1 (lf_resb t)) AND 0x80 \<noteq> 0) t] s
   in (lf_resb t, t))"

definition RORW :: "u16 \<Rightarrow> u8 \<Rightarrow> 'a cpu_scheme \<Rightarrow> u16 \<times> 'a cpu_scheme" where
  "RORW op1 op2 s = (let t = seq_do
     [FillFlagsNoCFOF,
      set_lf_var1w op1,
      set_lf_var2b (op2 AND 0xf),
      \<lambda>t. set_lf_resw
        (drop_bit (unat (lf_var2b t)) (lf_var1w t) OR
         push_bit (16 - unat (lf_var2b t)) (lf_var1w t)) t,
      \<lambda>t. SETFLAGBIT FLAG_CF (lf_resw t AND 0x8000 \<noteq> 0) t,
      \<lambda>t. SETFLAGBIT FLAG_OF ((lf_resw t XOR push_bit 1 (lf_resw t)) AND 0x8000 \<noteq> 0) t] s
   in (lf_resw t, t))"

definition RORD :: "u32 \<Rightarrow> u8 \<Rightarrow> 'a cpu_scheme \<Rightarrow> u32 \<times> 'a cpu_scheme" where
  "RORD op1 op2 s = (let t = seq_do
     [FillFlagsNoCFOF,
      set_lf_var1d op1,
      set_lf_var2b (op2),
      \<lambda>t. set_lf_resd
        (drop_bit (unat (lf_var2b t)) (lf_var1d t) OR
         push_bit (32 - unat (lf_var2b t)) (lf_var1d t)) t,
      \<lambda>t. SETFLAGBIT FLAG_CF (lf_resd t AND 0x80000000 \<noteq> 0) t,
      \<lambda>t. SETFLAGBIT FLAG_OF ((lf_resd t XOR push_bit 1 (lf_resd t)) AND 0x80000000 \<noteq> 0) t] s
   in (lf_resd t, t))"

text \<open>Rotates through carry: the carry is read from the register \<open>FillFlags\<close> returns.\<close>

definition RCLB :: "u8 \<Rightarrow> u8 \<Rightarrow> 'a cpu_scheme \<Rightarrow> u8 option \<times> 'a cpu_scheme" where
  "RCLB op1 op2 s = (if op2 mod 9 = 0 then (None, s) else
     let cf = (ucast (fst (FillFlags s)) :: u8) AND 1;
         t = seq_do
     [set_lf_var1b op1,
      set_lf_var2b (op2 mod 9),
      \<lambda>t. set_lf_resb
        (push_bit (unat (lf_var2b t)) (lf_var1b t) OR
         push_bit (unat (lf_var2b t) - 1) cf OR
         drop_bit (9 - unat (lf_var2b t)) (lf_var1b t)) t,
      \<lambda>t. SETFLAGBIT FLAG_CF (drop_bit (8 - unat (lf_var2b t)) (lf_var1b t) AND 1 \<noteq> 0) t,
      \<lambda>t. SETFLAGBIT FLAG_OF ((reg_flags t AND 1) XOR ucast (drop_bit 7 (lf_resb t)) \<noteq> 0) t] (snd (FillFlags s))
   in (Some (lf_resb t), t))"

definition RCRB :: "u8 \<Rightarrow> u8 \<Rightarrow> 'a cpu_scheme \<Rightarrow> u8 option \<times> 'a cpu_scheme" where
  "RCRB op1 op2 s = (if op2 mod 9 = 0 then (None, s) else
     let cf = (ucast (fst (FillFlags s)) :: u8) AND 1;
         t = seq_do
     [set_lf_var1b op1,
      set_lf_var2b (op2 mod 9),
      \<lambda>t. set_lf_resb
        (drop_bit (unat (lf_var2b t)) (lf_var1b t) OR
         push_bit (8 - unat (lf_var2b t)) cf OR
         push_bit (9 - unat (lf_var2b t)) (lf_var1b t)) t,
      \<lambda>t. SETFLAGBIT FLAG_CF (drop_bit (unat (lf_var2b_minus_one t)) (lf_var1b t) AND 1 \<noteq> 0) t,
      \<lambda>t. SETFLAGBIT FLAG_OF ((lf_resb t XOR push_bit 1 (lf_resb t)) AND 0x80 \<noteq> 0) t] (snd (FillFlags s))
   in (Some (lf_resb t), t))"

definition RCLW :: "u16 \<Rightarrow> u8 \<Rightarrow> 'a cpu_scheme \<Rightarrow> u16 option \<times> 'a cpu_scheme" where
  "RCLW op1 op2 s = (if op2 mod 17 = 0 then (None, s) else
     let cf = (ucast (fst (FillFlags s)) :: u16) AND 1;
         t = seq_do
     [set_lf_var1w op1,
      set_lf_var2b (op2 mod 17),
      \<lambda>t. set_lf_resw
        (push_bit (unat (lf_var2b t)) (lf_var1w t) OR
         push_bit (unat (lf_var2b t) - 1) cf OR
         drop_bit (17 - unat (lf_var2b t)) (lf_var1w t)) t,
      \<lambda>t. SETFLAGBIT FLAG_CF (drop_bit (16 - unat (lf_var2b t)) (lf_var1w t) AND 1 \<noteq> 0) t,
      \<lambda>t. SETFLAGBIT FLAG_OF ((reg_flags t AND 1) XOR ucast (drop_bit 15 (lf_resw t)) \<noteq> 0) t] (snd (FillFlags s))
   in (Some (lf_resw t), t))"

definition RCRW :: "u16 \<Rightarrow> u8 \<Rightarrow> 'a cpu_scheme \<Rightarrow> u16 option \<times> 'a cpu_scheme" where
  "RCRW op1 op2 s = (if op2 mod 17 = 0 then (None, s) else
     let cf = (ucast (fst (FillFlags s)) :: u16) AND 1;
         t = seq_do
     [set_lf_var1w op1,
      set_lf_var2b (op2 mod 17),
      \<lambda>t. set_lf_resw
        (drop_bit (unat (lf_var2b t)) (lf_var1w t) OR
         push_bit (16 - unat (lf_var2b t)) cf OR
         push_bit (17 - unat (lf_var2b t)) (lf_var1w t)) t,
      \<lambda>t. SETFLAGBIT FLAG_CF (drop_bit (unat (lf_var2b_minus_one t)) (lf_var1w t) AND 1 \<noteq> 0) t,
      \<lambda>t. SETFLAGBIT FLAG_OF ((lf_resw t XOR push_bit 1 (lf_resw t)) AND 0x8000 \<noteq> 0) t] (snd (FillFlags s))
   in (Some (lf_resw t), t))"

definition RCLD :: "u32 \<Rightarrow> u8 \<Rightarrow> 'a cpu_scheme \<Rightarrow> u32 option \<times> 'a cpu_scheme" where
  "RCLD op1 op2 s = (if op2 = 0 then (None, s) else
     let cf = fst (FillFlags s) AND 1;
         t = seq_do
     [set_lf_var1d op1,
      set_lf_var2b (op2),
      \<lambda>t. set_lf_resd
        (if lf_var2b t = 1 then push_bit 1 (lf_var1d t) OR cf
         else push_bit (unat (lf_var2b t)) (lf_var1d t) OR
              push_bit (unat (lf_var2b_minus_one t)) cf OR
              drop_bit (33 - unat (lf_var2b t)) (lf_var1d t)) t,
      \<lambda>t. SETFLAGBIT FLAG_CF (drop_bit (32 - unat (lf_var2b t)) (lf_var1d t) AND 1 \<noteq> 0) t,
      \<lambda>t. SETFLAGBIT FLAG_OF ((reg_flags t AND 1) XOR drop_bit 31 (lf_resd t) \<noteq> 0) t] (snd (FillFlags s))
   in (Some (lf_resd t), t))"

definition RCRD :: "u32 \<Rightarrow> u8 \<Rightarrow> 'a cpu_scheme \<Rightarrow> u32 option \<times> 'a cpu_scheme" where
  "RCRD op1 op2 s = (if op2 = 0 then (None, s) else
     let cf = fst (FillFlags s) AND 1;
         t = seq_do
     [set_lf_var1d op1,
      set_lf_var2b (op2),
      \<lambda>t. set_lf_resd
        (if lf_var2b t = 1 then drop_bit 1 (lf_var1d t) OR push_bit 31 cf
         else drop_bit (unat (lf_var2b t)) (lf_var1d t) OR
              push_bit (32 - unat (lf_var2b t)) cf OR
              push_bit (33 - unat (lf_var2b t)) (lf_var1d t)) t,
      \<lambda>t. SETFLAGBIT FLAG_CF (drop_bit (unat (lf_var2b_minus_one t)) (lf_var1d t) AND 1 \<noteq> 0) t,
      \<lambda>t. SETFLAGBIT FLAG_OF ((lf_resd t XOR push_bit 1 (lf_resd t)) AND 0x80000000 \<noteq> 0) t] (snd (FillFlags s))
   in (Some (lf_resd t), t))"

section \<open>Shifts\<close>

definition SHLB :: "u8 \<Rightarrow> u8 \<Rightarrow> 'a cpu_scheme \<Rightarrow> u8 \<times> 'a cpu_scheme" where
  "SHLB op1 op2 s = (let t = seq_do
     [set_lf_var1b op1,
      set_lf_var2b op2,
      \<lambda>t. set_lf_resb (push_bit (unat (lf_var2b t)) (lf_var1b t)) t,
      \<lambda>t. t\<lparr>lf_type := t_SHLb\<rparr>] s
   in (lf_resb t, t))"

definition SHLW :: "u16 \<Rightarrow> u8 \<Rightarrow> 'a cpu_scheme \<Rightarrow> u16 \<times> 'a cpu_scheme" where
  "SHLW op1 op2 s = (let t = seq_do
     [set_lf_var1w op1,
      set_lf_var2b op2,
      \<lambda>t. set_lf_resw (push_bit (unat (lf_var2b t)) (lf_var1w t)) t,
      \<lambda>t. t\<lparr>lf_type := t_SHLw\<rparr>] s
   in (lf_resw t, t))"

definition SHLD :: "u32 \<Rightarrow> u8 \<Rightarrow> 'a cpu_scheme \<Rightarrow> u32 \<times> 'a cpu_scheme" where
  "SHLD op1 op2 s = (let t = seq_do
     [set_lf_var1d op1,
      set_lf_var2b op2,
      \<lambda>t. set_lf_resd (push_bit (unat (lf_var2b t)) (lf_var1d t)) t,
      \<lambda>t. t\<lparr>lf_type := t_SHLd\<rparr>] s
   in (lf_resd t, t))"

definition SHRB :: "u8 \<Rightarrow> u8 \<Rightarrow> 'a cpu_scheme \<Rightarrow> u8 \<times> 'a cpu_scheme" where
  "SHRB op1 op2 s = (let t = seq_do
     [set_lf_var1b op1,
      set_lf_var2b op2,
      \<lambda>t. set_lf_resb (drop_bit (unat (lf_var2b t)) (lf_var1b t)) t,
      \<lambda>t. t\<lparr>lf_type := t_SHRb\<rparr>] s
   in (lf_resb t, t))"

definition SHRW :: "u16 \<Rightarrow> u8 \<Rightarrow> 'a cpu_scheme \<Rightarrow> u16 \<times> 'a cpu_scheme" where
  "SHRW op1 op2 s = (let t = seq_do
     [set_lf_var1w op1,
      set_lf_var2b op2,
      \<lambda>t. set_lf_resw (drop_bit (unat (lf_var2b t)) (lf_var1w t)) t,
      \<lambda>t. t\<lparr>lf_type := t_SHRw\<rparr>] s
   in (lf_resw t, t))"

definition SHRD :: "u32 \<Rightarrow> u8 \<Rightarrow> 'a cpu_scheme \<Rightarrow> u32 \<times> 'a cpu_scheme" where
  "SHRD op1 op2 s = (let t = seq_do
     [set_lf_var1d op1,
      set_lf_var2b op2,
      \<lambda>t. set_lf_resd (drop_bit (unat (lf_var2b t)) (lf_var1d t)) t,
      \<lambda>t. t\<lparr>lf_type := t_SHRd\<rparr>] s
   in (lf_resd t, t))"

definition SARB :: "u8 \<Rightarrow> u8 \<Rightarrow> 'a cpu_scheme \<Rightarrow> u8 \<times> 'a cpu_scheme" where
  "SARB op1 op2 s = (let t = seq_do
     [set_lf_var1b op1,
      set_lf_var2b op2,
      \<lambda>t. if 8 < lf_var2b t then set_lf_var2b 8 t else t,
      \<lambda>t. if lf_var1b t AND 0x80 \<noteq> 0
          then set_lf_resb (drop_bit (unat (lf_var2b t)) (lf_var1b t) OR
                            push_bit (8 - unat (lf_var2b t)) 0xff) t
          else set_lf_resb (drop_bit (unat (lf_var2b t)) (lf_var1b t)) t,
      \<lambda>t. t\<lparr>lf_type := t_SARb\<rparr>] s
   in (lf_resb t, t))"

definition SARW :: "u16 \<Rightarrow> u8 \<Rightarrow> 'a cpu_scheme \<Rightarrow> u16 \<times> 'a cpu_scheme" where
  "SARW op1 op2 s = (let t = seq_do
     [set_lf_var1w op1,
      set_lf_var2b op2,
      \<lambda>t. if 16 < lf_var2b t then set_lf_var2b 16 t else t,
      \<lambda>t. if lf_var1w t AND 0x8000 \<noteq> 0
          then set_lf_resw (drop_bit (unat (lf_var2b t)) (lf_var1w t) OR
                            push_bit (16 - unat (lf_var2b t)) 0xffff) t
          else set_lf_resw (drop_bit (unat (lf_var2b t)) (lf_var1w t)) t,
      \<lambda>t. t\<lparr>lf_type := t_SARw\<rparr>] s
   in (lf_resw t, t))"

definition SARD :: "u32 \<Rightarrow> u8 \<Rightarrow> 'a cpu_scheme \<Rightarrow> u32 \<times> 'a cpu_scheme" where
  "SARD op1 op2 s = (let t = seq_do
     [set_lf_var2b op2,
      set_lf_var1d op1,
      \<lambda>t. if lf_var1d t AND 0x80000000 \<noteq> 0
          then set_lf_resd (drop_bit (unat (lf_var2b t)) (lf_var1d t) OR
                            push_bit (32 - unat (lf_var2b t)) 0xffffffff) t
          else set_lf_resd (drop_bit (unat (lf_var2b t)) (lf_var1d t)) t,
      \<lambda>t. t\<lparr>lf_type := t_SARd\<rparr>] s
   in (lf_resd t, t))"

definition GRP2B :: "nat \<Rightarrow> u8 \<Rightarrow> u8 \<Rightarrow> 'a cpu_scheme \<Rightarrow> u8 option \<times> 'a cpu_scheme" where
  "GRP2B which blah op1 s = (let val = blah AND 0x1f in
     if val = 0 then (None, s)
     else if which = 0 then apfst Some (ROLB op1 val s)
     else if which = 1 then apfst Some (RORB op1 val s)
     else if which = 2 then RCLB op1 val s
     else if which = 3 then RCRB op1 val s
     else if which = 4 \<or> which = 6 then apfst Some (SHLB op1 val s)
     else if which = 5 then apfst Some (SHRB op1 val s)
     else if which = 7 then apfst Some (SARB op1 val s)
     else (None, s))"

definition GRP2W :: "nat \<Rightarrow> u8 \<Rightarrow> u16 \<Rightarrow> 'a cpu_scheme \<Rightarrow> u16 option \<times> 'a cpu_scheme" where
  "GRP2W which blah op1 s = (let val = blah AND 0x1f in
     if val = 0 then (None, s)
     else if which = 0 then apfst Some (ROLW op1 val s)
     else if which = 1 then apfst Some (RORW op1 val s)
     else if which = 2 then RCLW op1 val s
     else if which = 3 then RCRW op1 val s
     else if which = 4 \<or> which = 6 then apfst Some (SHLW op1 val s)
     else if which = 5 then apfst Some (SHRW op1 val s)
     else if which = 7 then apfst Some (SARW op1 val s)
     else (None, s))"

definition GRP2D :: "nat \<Rightarrow> u8 \<Rightarrow> u32 \<Rightarrow> 'a cpu_scheme \<Rightarrow> u32 option \<times> 'a cpu_scheme" where
  "GRP2D which blah op1 s = (let val = blah AND 0x1f in
     if val = 0 then (None, s)
     else if which = 0 then apfst Some (ROLD op1 val s)
     else if which = 1 then apfst Some (RORD op1 val s)
     else if which = 2 then RCLD op1 val s
     else if which = 3 then RCRD op1 val s
     else if which = 4 \<or> which = 6 then apfst Some (SHLD op1 val s)
     else if which = 5 then apfst Some (SHRD op1 val s)
     else if which = 7 then apfst Some (SARD op1 val s)
     else (None, s))"

section \<open>Double-precision shifts and byte swap\<close>

definition DSHLW :: "u16 \<Rightarrow> u16 \<Rightarrow> u8 \<Rightarrow> 'a cpu_scheme \<Rightarrow> u16 option \<times> 'a cpu_scheme" where
  "DSHLW op1 op2 op3 s = (let val = op3 AND 0x1f in
     if val = 0 then (None, s) else
     let s1 = seq_do [set_lf_var2b val, set_lf_var1d (push_bit 16 (ucast op1) OR ucast op2)] s;
         tempd = push_bit (unat (lf_var2b s1)) (lf_var1d s1);
         tempd' = (if 16 < lf_var2b s1
                   then tempd OR push_bit (unat (lf_var2b s1) - 16) (ucast op2) else tempd);
         t = seq_do [set_lf_resw (ucast (drop_bit 16 tempd')), \<lambda>t. t\<lparr>lf_type := t_DSHLw\<rparr>] s1
     in (Some (lf_resw t), t))"

definition DSHLD :: "u32 \<Rightarrow> u32 \<Rightarrow> u8 \<Rightarrow> 'a cpu_scheme \<Rightarrow> u32 option \<times> 'a cpu_scheme" where
  "DSHLD op1 op2 op3 s = (let val = op3 AND 0x1f in
     if val = 0 then (None, s) else
     let t = seq_do
       [set_lf_var2b val, set_lf_var1d op1,
        \<lambda>t. set_lf_resd (push_bit (unat (lf_var2b t)) (lf_var1d t) OR
                         drop_bit (32 - unat (lf_var2b t)) op2) t,
        \<lambda>t. t\<lparr>lf_type := t_DSHLd\<rparr>] s
     in (Some (lf_resd t), t))"

definition DSHRW :: "u16 \<Rightarrow> u16 \<Rightarrow> u8 \<Rightarrow> 'a cpu_scheme \<Rightarrow> u16 option \<times> 'a cpu_scheme" where
  "DSHRW op1 op2 op3 s = (let val = op3 AND 0x1f in
     if val = 0 then (None, s) else
     let s1 = seq_do [set_lf_var2b val, set_lf_var1d (push_bit 16 (ucast op2) OR ucast op1)] s;
         tempd = drop_bit (unat (lf_var2b s1)) (lf_var1d s1);
         tempd' = (if 16 < lf_var2b s1
                   then tempd OR push_bit (32 - unat (lf_var2b s1)) (ucast op2) else tempd);
         t = seq_do [set_lf_resw (ucast tempd'), \<lambda>t. t\<lparr>lf_type := t_DSHRw\<rparr>] s1
     in (Some (lf_resw t), t))"

definition DSHRD :: "u32 \<Rightarrow> u32 \<Rightarrow> u8 \<Rightarrow> 'a cpu_scheme \<Rightarrow> u32 option \<times> 'a cpu_scheme" where
  "DSHRD op1 op2 op3 s = (let val = op3 AND 0x1f in
     if val = 0 then (None, s) else
     let t = seq_do
       [set_lf_var2b val, set_lf_var1d op1,
        \<lambda>t. set_lf_resd (drop_bit (unat (lf_var2b t)) (lf_var1d t) OR
                         push_bit (32 - unat (lf_var2b t)) op2) t,
        \<lambda>t. t\<lparr>lf_type := t_DSHRd\<rparr>] s
     in (Some (lf_resd t), t))"

definition BSWAPW :: "u16 \<Rightarrow> u16" where
  "BSWAPW op1 = 0"

definition BSWAPD :: "u32 \<Rightarrow> u32" where
  "BSWAPD op1 = drop_bit 24 op1 OR (drop_bit 8 op1 AND 0xff00) OR (push_bit 8 op1 AND 0xff0000) OR
     (push_bit 24 op1 AND 0xff000000)"

section \<open>Decimal adjustments\<close>

text \<open>
  An instruction can leave through \<^verbatim>\<open>EXCEPTION(0)\<close>, the divide error, with the state as it was.
  \<open>HostUndefined\<close> is an evaluation the host language leaves undefined: the division of the least
  integer by minus one, or a product outside \<^verbatim>\<open>int\<close>.
\<close>

datatype alu_error = DivideError | HostUndefined

text \<open>The last statements the decimal adjustments share.\<close>

definition set_SZP_al :: "'a cpu_scheme \<Rightarrow> 'a cpu_scheme" where
  "set_SZP_al s = seq_do
     [\<lambda>t. SETFLAGBIT FLAG_SF (reg_al t AND 0x80 \<noteq> 0) t,
      \<lambda>t. SETFLAGBIT FLAG_ZF (reg_al t = 0) t,
      \<lambda>t. SETFLAGBIT FLAG_PF (parity_lookup ! unat (reg_al t) \<noteq> 0) t] s"

definition DAA :: "'a cpu_scheme \<Rightarrow> 'a cpu_scheme" where
  "DAA s = (let
     s1 = (if 0x09 < reg_al s AND 0x0f \<or> get_AF s \<noteq> 0 then
             let t = (if 0x99 < reg_al s \<or> get_CF s \<noteq> 0
                      then SETFLAGBIT FLAG_CF True (set_reg_al (reg_al s + 0x60) s)
                      else SETFLAGBIT FLAG_CF False s)
             in SETFLAGBIT FLAG_AF True (set_reg_al (reg_al t + 0x06) t)
           else
             let t = (if 0x99 < reg_al s \<or> get_CF s \<noteq> 0
                      then SETFLAGBIT FLAG_CF True (set_reg_al (reg_al s + 0x60) s)
                      else SETFLAGBIT FLAG_CF False s)
             in SETFLAGBIT FLAG_AF False t)
     in (set_SZP_al s1)\<lparr>lf_type := t_UNKNOWN\<rparr>)"

definition DAS :: "'a cpu_scheme \<Rightarrow> 'a cpu_scheme" where
  "DAS s = (let
     osigned = reg_al s AND 0x80;
     s1 = (if 9 < reg_al s AND 0x0f \<or> get_AF s \<noteq> 0 then
             let t = (if 0x99 < reg_al s \<or> get_CF s \<noteq> 0
                      then SETFLAGBIT FLAG_CF True (set_reg_al (reg_al s - 0x60) s)
                      else SETFLAGBIT FLAG_CF (reg_al s \<le> 0x05) s)
             in SETFLAGBIT FLAG_AF True (set_reg_al (reg_al t - 6) t)
           else
             let t = (if 0x99 < reg_al s \<or> get_CF s \<noteq> 0
                      then SETFLAGBIT FLAG_CF True (set_reg_al (reg_al s - 0x60) s)
                      else SETFLAGBIT FLAG_CF False s)
             in SETFLAGBIT FLAG_AF False t);
     s2 = SETFLAGBIT FLAG_OF (osigned \<noteq> 0 \<and> reg_al s1 AND 0x80 = 0) s1
     in (set_SZP_al s2)\<lparr>lf_type := t_UNKNOWN\<rparr>)"

definition AAA :: "'a cpu_scheme \<Rightarrow> 'a cpu_scheme" where
  "AAA s = (let
     s1 = SETFLAGBIT FLAG_SF (0x7a \<le> reg_al s \<and> reg_al s \<le> 0xf9) s;
     s2 = (if 9 < reg_al s1 AND 0xf then seq_do
             [\<lambda>t. SETFLAGBIT FLAG_OF (reg_al t AND 0xf0 = 0x70) t,
              \<lambda>t. set_reg_ax (reg_ax t + 0x106) t,
              SETFLAGBIT FLAG_CF True,
              \<lambda>t. SETFLAGBIT FLAG_ZF (reg_al t = 0) t,
              SETFLAGBIT FLAG_AF True] s1
           else if get_AF s1 \<noteq> 0 then seq_do
             [\<lambda>t. set_reg_ax (reg_ax t + 0x106) t,
              SETFLAGBIT FLAG_OF False, SETFLAGBIT FLAG_CF True, SETFLAGBIT FLAG_ZF False,
              SETFLAGBIT FLAG_AF True] s1
           else seq_do
             [SETFLAGBIT FLAG_OF False, SETFLAGBIT FLAG_CF False,
              \<lambda>t. SETFLAGBIT FLAG_ZF (reg_al t = 0) t,
              SETFLAGBIT FLAG_AF False] s1)
     in seq_do
       [\<lambda>t. SETFLAGBIT FLAG_PF (parity_lookup ! unat (reg_al t) \<noteq> 0) t,
        \<lambda>t. set_reg_al (reg_al t AND 0x0f) t,
        \<lambda>t. t\<lparr>lf_type := t_UNKNOWN\<rparr>] s2)"

definition AAS :: "'a cpu_scheme \<Rightarrow> 'a cpu_scheme" where
  "AAS s = (let
     s2 = (if 9 < reg_al s AND 0x0f then seq_do
             [\<lambda>t. SETFLAGBIT FLAG_SF (0x85 < reg_al t) t,
              \<lambda>t. set_reg_ax (reg_ax t - 0x106) t,
              SETFLAGBIT FLAG_OF False, SETFLAGBIT FLAG_CF True, SETFLAGBIT FLAG_AF True] s
           else if get_AF s \<noteq> 0 then seq_do
             [\<lambda>t. SETFLAGBIT FLAG_OF (0x80 \<le> reg_al t \<and> reg_al t \<le> 0x85) t,
              \<lambda>t. SETFLAGBIT FLAG_SF (reg_al t < 0x06 \<or> 0x85 < reg_al t) t,
              \<lambda>t. set_reg_ax (reg_ax t - 0x106) t,
              SETFLAGBIT FLAG_CF True, SETFLAGBIT FLAG_AF True] s
           else seq_do
             [\<lambda>t. SETFLAGBIT FLAG_SF (0x80 \<le> reg_al t) t,
              SETFLAGBIT FLAG_OF False, SETFLAGBIT FLAG_CF False, SETFLAGBIT FLAG_AF False] s)
     in seq_do
       [\<lambda>t. SETFLAGBIT FLAG_ZF (reg_al t = 0) t,
        \<lambda>t. SETFLAGBIT FLAG_PF (parity_lookup ! unat (reg_al t) \<noteq> 0) t,
        \<lambda>t. set_reg_al (reg_al t AND 0x0f) t,
        \<lambda>t. t\<lparr>lf_type := t_UNKNOWN\<rparr>] s2)"

definition AAM :: "u8 \<Rightarrow> 'a cpu_scheme \<Rightarrow> alu_error + 'a cpu_scheme" where
  "AAM op1 s = (let dv = op1 in
     if dv \<noteq> 0 then Inr (seq_do
       [\<lambda>t. set_reg_ah (reg_al t div dv) t,
        \<lambda>t. set_reg_al (reg_al t mod dv) t,
        set_SZP_al,
        SETFLAGBIT FLAG_CF False, SETFLAGBIT FLAG_OF False, SETFLAGBIT FLAG_AF False,
        \<lambda>t. t\<lparr>lf_type := t_UNKNOWN\<rparr>] s)
     else Inl DivideError)"

definition AAD :: "u8 \<Rightarrow> 'a cpu_scheme \<Rightarrow> 'a cpu_scheme" where
  "AAD op1 s = (let
     ax1 = (ucast (reg_ah s) * ucast op1 :: u16);
     ax2 = ax1 + ucast (reg_al s)
     in seq_do
       [set_reg_al (ucast ax2), set_reg_ah 0,
        SETFLAGBIT FLAG_CF False, SETFLAGBIT FLAG_OF False, SETFLAGBIT FLAG_AF False,
        \<lambda>t. SETFLAGBIT FLAG_SF (0x80 \<le> reg_al t) t,
        \<lambda>t. SETFLAGBIT FLAG_ZF (reg_al t = 0) t,
        \<lambda>t. SETFLAGBIT FLAG_PF (parity_lookup ! unat (reg_al t) \<noteq> 0) t,
        \<lambda>t. t\<lparr>lf_type := t_UNKNOWN\<rparr>] s)"

section \<open>Multiplication and division\<close>

text \<open>\<^verbatim>\<open>SETFLAGBIT(CF,b);SETFLAGBIT(OF,b)\<close>, how every multiplication ends.\<close>

definition set_CF_OF :: "bool \<Rightarrow> 'a cpu_scheme \<Rightarrow> 'a cpu_scheme" where
  "set_CF_OF b s = SETFLAGBIT FLAG_OF b (SETFLAGBIT FLAG_CF b s)"

definition MULB :: "u8 \<Rightarrow> 'a cpu_scheme \<Rightarrow> 'a cpu_scheme" where
  "MULB op1 s = seq_do
     [\<lambda>t. set_reg_ax (ucast (reg_al t) * ucast op1) t,
      FillFlagsNoCFOF,
      \<lambda>t. SETFLAGBIT FLAG_ZF (reg_al t = 0) t,
      \<lambda>t. set_CF_OF (reg_ax t AND 0xff00 \<noteq> 0) t] s"

definition MULW :: "u16 \<Rightarrow> 'a cpu_scheme \<Rightarrow> 'a cpu_scheme" where
  "MULW op1 s = (let res = (ucast (reg_ax s) * ucast op1 :: u32) in seq_do
     [set_reg_ax (ucast res), set_reg_dx (ucast (drop_bit 16 res)),
      FillFlagsNoCFOF,
      \<lambda>t. SETFLAGBIT FLAG_ZF (reg_ax t = 0) t,
      \<lambda>t. set_CF_OF (reg_dx t \<noteq> 0) t] s)"

definition MULD :: "u32 \<Rightarrow> 'a cpu_scheme \<Rightarrow> 'a cpu_scheme" where
  "MULD op1 s = (let res = (ucast (reg_eax s) * ucast op1 :: u64) in seq_do
     [\<lambda>t. t\<lparr>reg_eax := ucast res\<rparr>, \<lambda>t. t\<lparr>reg_edx := ucast (drop_bit 32 res)\<rparr>,
      FillFlagsNoCFOF,
      \<lambda>t. SETFLAGBIT FLAG_ZF (reg_eax t = 0) t,
      \<lambda>t. set_CF_OF (reg_edx t \<noteq> 0) t] s)"

text \<open>\<^verbatim>\<open>Bitu\<close> and \<^verbatim>\<open>Bits\<close> are 64 bits wide: quotients are computed there and then narrowed.\<close>

definition DIVB :: "u8 \<Rightarrow> 'a cpu_scheme \<Rightarrow> alu_error + 'a cpu_scheme" where
  "DIVB op1 s = (let val = (ucast op1 :: u64) in
     if val = 0 then Inl DivideError else let
     quo = ucast (reg_ax s) div val;
     rem = (ucast (ucast (reg_ax s) mod val :: u64) :: u8);
     quo8 = (ucast (quo AND 0xff) :: u8) in
     if 0xff < quo then Inl DivideError
     else Inr (seq_do [set_reg_ah rem, set_reg_al quo8,
                       set_cpu_test_flags_for_division False quo8] s))"

definition DIVW :: "u16 \<Rightarrow> 'a cpu_scheme \<Rightarrow> alu_error + 'a cpu_scheme" where
  "DIVW op1 s = (let val = (ucast op1 :: u64) in
     if val = 0 then Inl DivideError else let
     num = (ucast (push_bit 16 (ucast (reg_dx s) :: u32) OR ucast (reg_ax s)) :: u64);
     quo = num div val;
     rem = (ucast (num mod val) :: u16);
     quo16 = (ucast (quo AND 0xffff) :: u16) in
     if quo \<noteq> ucast quo16 then Inl DivideError
     else Inr (seq_do [set_reg_dx rem, set_reg_ax quo16,
                       set_cpu_test_flags_for_division False quo16] s))"

definition DIVD :: "u32 \<Rightarrow> 'a cpu_scheme \<Rightarrow> alu_error + 'a cpu_scheme" where
  "DIVD op1 s = (let val = (ucast op1 :: u64) in
     if val = 0 then Inl DivideError else let
     num = push_bit 32 (ucast (reg_edx s) :: u64) OR ucast (reg_eax s);
     quo = num div val;
     rem = (ucast (num mod val) :: u32);
     quo32 = (ucast (quo AND 0xffffffff) :: u32) in
     if quo \<noteq> ucast quo32 then Inl DivideError
     else Inr (seq_do [\<lambda>t. t\<lparr>reg_edx := rem\<rparr>, \<lambda>t. t\<lparr>reg_eax := quo32\<rparr>,
                       set_cpu_test_flags_for_division False quo32] s))"

text \<open>Signed division truncates; the operands are read as signed integers.\<close>

definition IDIVB :: "u8 \<Rightarrow> 'a cpu_scheme \<Rightarrow> alu_error + 'a cpu_scheme" where
  "IDIVB op1 s = (let val = sint op1 in
     if val = 0 then Inl DivideError else let
     quo = sint (reg_ax s) sdiv val;
     rem = (word_of_int (sint (reg_ax s) smod val) :: u8);
     quo8s = (word_of_int quo :: u8) in
     if quo \<noteq> sint quo8s then Inl DivideError
     else Inr (seq_do [set_reg_ah rem, set_reg_al quo8s,
                       set_cpu_test_flags_for_division True quo8s] s))"

definition IDIVW :: "u16 \<Rightarrow> 'a cpu_scheme \<Rightarrow> alu_error + 'a cpu_scheme" where
  "IDIVW op1 s = (let val = sint op1 in
     if val = 0 then Inl DivideError else let
     num = sint (push_bit 16 (ucast (reg_dx s) :: u32) OR ucast (reg_ax s)) in
     if num = - (2 ^ 31) \<and> val = - 1 then Inl HostUndefined else let
     quo = num sdiv val;
     rem = num smod val;
     quo16s = (word_of_int quo :: u16) in
     if quo \<noteq> sint quo16s then Inl DivideError
     else Inr (seq_do [set_reg_ax quo16s, set_reg_dx (word_of_int rem),
                       set_cpu_test_flags_for_division True quo16s] s))"

definition IDIVD :: "u32 \<Rightarrow> 'a cpu_scheme \<Rightarrow> alu_error + 'a cpu_scheme" where
  "IDIVD op1 s = (let val = sint op1 in
     if val = 0 then Inl DivideError else let
     num = sint (push_bit 32 (ucast (reg_edx s) :: u64) OR ucast (reg_eax s)) in
     if num = - (2 ^ 63) \<and> val = - 1 then Inl HostUndefined else let
     quo = num sdiv val;
     rem = (word_of_int (num smod val) :: u32);
     quo32s = (word_of_int quo :: u32) in
     if quo \<noteq> sint quo32s then Inl DivideError
     else Inr (seq_do [\<lambda>t. t\<lparr>reg_edx := rem\<rparr>, \<lambda>t. t\<lparr>reg_eax := quo32s\<rparr>,
                       set_cpu_test_flags_for_division True quo32s] s))"

definition IMULB :: "u8 \<Rightarrow> 'a cpu_scheme \<Rightarrow> 'a cpu_scheme" where
  "IMULB op1 s = seq_do
     [\<lambda>t. set_reg_ax (scast (reg_al t) * scast op1) t,
      FillFlagsNoCFOF,
      \<lambda>t. SETFLAGBIT FLAG_ZF (reg_al t = 0) t,
      \<lambda>t. SETFLAGBIT FLAG_SF (reg_al t AND 0x80 \<noteq> 0) t,
      \<lambda>t. set_CF_OF (\<not> (reg_ax t AND 0xff80 = 0xff80 \<or> reg_ax t AND 0xff80 = 0)) t] s"

definition IMULW :: "u16 \<Rightarrow> 'a cpu_scheme \<Rightarrow> 'a cpu_scheme" where
  "IMULW op1 s = (let res = (scast (reg_ax s) * scast op1 :: u32) in seq_do
     [set_reg_ax (ucast res), set_reg_dx (ucast (signed_drop_bit 16 res)),
      FillFlagsNoCFOF,
      \<lambda>t. SETFLAGBIT FLAG_ZF (reg_ax t = 0) t,
      \<lambda>t. SETFLAGBIT FLAG_SF (reg_ax t AND 0x8000 \<noteq> 0) t,
      set_CF_OF (\<not> (res AND 0xffff8000 = 0xffff8000 \<or> res AND 0xffff8000 = 0))] s)"

definition IMULD :: "u32 \<Rightarrow> 'a cpu_scheme \<Rightarrow> 'a cpu_scheme" where
  "IMULD op1 s = (let temps = (scast (reg_eax s) * scast op1 :: u64) in seq_do
     [\<lambda>t. t\<lparr>reg_eax := ucast temps\<rparr>, \<lambda>t. t\<lparr>reg_edx := ucast (signed_drop_bit 32 temps)\<rparr>,
      FillFlagsNoCFOF,
      \<lambda>t. SETFLAGBIT FLAG_ZF (reg_eax t = 0) t,
      \<lambda>t. SETFLAGBIT FLAG_SF (reg_eax t AND 0x80000000 \<noteq> 0) t,
      \<lambda>t. if reg_edx t = 0xffffffff \<and> reg_eax t AND 0x80000000 \<noteq> 0 then set_CF_OF False t
          else if reg_edx t = 0 \<and> reg_eax t < 0x80000000 then set_CF_OF False t
          else set_CF_OF True t] s)"

text \<open>
  The operands of \<^verbatim>\<open>DIMULW\<close> are whatever the call site passes, promoted to \<^verbatim>\<open>int\<close>: the macro
  multiplies them as they are. The core passes the unsigned register or memory word and, as the
  other factor, an unsigned register (\<^verbatim>\<open>IMUL Gw,Ew\<close>) or a signed immediate (\<^verbatim>\<open>IMUL Gw,Ew,Iw\<close>).
\<close>

definition DIMULW :: "int \<Rightarrow> int \<Rightarrow> 'a cpu_scheme \<Rightarrow> alu_error + u16 \<times> 'a cpu_scheme" where
  "DIMULW op2 op3 s = (let res = op2 * op3 in
     if res < - (2 ^ 31) \<or> 2 ^ 31 \<le> res then Inl HostUndefined
     else Inr (word_of_int res AND 0xffff,
       set_CF_OF (\<not> (- 32768 \<le> res \<and> res \<le> 32767)) (FillFlagsNoCFOF s)))"

definition IMUL_Gw_Ew :: "u16 \<Rightarrow> u16 \<Rightarrow> 'a cpu_scheme \<Rightarrow> alu_error + u16 \<times> 'a cpu_scheme" where
  "IMUL_Gw_Ew rmrw ea s = DIMULW (uint ea) (uint rmrw) s"

definition IMUL_Gw_Ew_Iw :: "u16 \<Rightarrow> u16 \<Rightarrow> 'a cpu_scheme \<Rightarrow> alu_error + u16 \<times> 'a cpu_scheme" where
  "IMUL_Gw_Ew_Iw ea imm s = DIMULW (uint ea) (sint imm) s"

definition DIMULD :: "u32 \<Rightarrow> u32 \<Rightarrow> 'a cpu_scheme \<Rightarrow> u32 \<times> 'a cpu_scheme" where
  "DIMULD op2 op3 s = (let
     result_i64 = (scast op2 * scast op3 :: u64);
     result_i32 = (ucast result_i64 :: u32);
     had_overflow = (sint result_i32 \<noteq> sint result_i64)
     in (result_i32, set_CF_OF had_overflow (FillFlagsNoCFOF s)))"

end
