(* ===== verification/Cpu_Arith.thy ===== *)
theory Cpu_Arith
  imports Lazy_Width Cpu_Alu
begin

text \<open>
  The flags of the arithmetic and logic bodies. Generic facts on carries, borrows, nibble carries
  and signed overflow of words lead to the architectural flag functions \<open>add_flags\<close>, \<open>sub_flags\<close>
  and \<open>logic_flags\<close>; the interface \<open>alu_width\<close> extends \<open>lazy_width\<close> by the operations of one width
  and derives their flags, and is interpreted on the bodies of the three widths.
\<close>

unbundle bit_operations_syntax

section \<open>Carries, borrows and signed overflow of words\<close>

lemma sint_bounds:
  fixes x :: "'w::len word"
  shows "- (2 ^ (LENGTH('w) - 1)) \<le> sint x" "sint x < 2 ^ (LENGTH('w) - 1)"
  using sint_greater_eq [of x] sint_lt [of x] by auto

lemma two_power_half: "(2::int) ^ LENGTH('w::len) = 2 * 2 ^ (LENGTH('w) - 1)"
  by (simp flip: power_Suc)

text \<open>A signed value computed within one wrap of the range is off by at most one modulus.\<close>

lemma sint_word_of_int_cases:
  fixes x :: "'w::len word"
  assumes "x = word_of_int v"
    and "- 2 * 2 ^ (LENGTH('w) - 1) \<le> v" and "v < 2 * 2 ^ (LENGTH('w) - 1)"
  shows "sint x = v \<and> - (2 ^ (LENGTH('w) - 1)) \<le> v \<and> v < 2 ^ (LENGTH('w) - 1)
    \<or> sint x = v - 2 * 2 ^ (LENGTH('w) - 1) \<and> 2 ^ (LENGTH('w) - 1) \<le> v
    \<or> sint x = v + 2 * 2 ^ (LENGTH('w) - 1) \<and> v < - (2 ^ (LENGTH('w) - 1))"
proof -
  define M :: int where "M = 2 ^ (LENGTH('w) - 1)"
  have len: "Suc (LENGTH('w) - 1) = LENGTH('w)" by simp
  have "sint x = (v + M) mod (2 * M) - M"
    using len unfolding assms(1) M_def
    by (simp add: signed_of_int signed_take_bit_eq_take_bit_shift take_bit_eq_mod two_power_half
)
  moreover have "(v + M) mod (2 * M) =
     (if v < - M then v + M + 2 * M else if v < M then v + M else v + M - 2 * M)"
  proof -
    have M: "0 < M" by (simp add: M_def)
    consider "v < - M" | "- M \<le> v" "v < M" | "M \<le> v" by linarith
    then show ?thesis
    proof cases
      case 1
      have "(v + M) mod (2 * M) = (v + M + 2 * M) mod (2 * M)" by (simp only: mod_add_self2)
      also have "\<dots> = v + M + 2 * M" using 1 assms M by (intro mod_pos_pos_trivial) (simp_all add: M_def)
      finally show ?thesis using 1 by simp
    next
      case 2 then show ?thesis using M by (simp add: mod_pos_pos_trivial)
    next
      case 3
      have "(v + M) mod (2 * M) = (v + M - 2 * M) mod (2 * M)"
        by (metis minus_mod_self2)
      also have "\<dots> = v + M - 2 * M" using 3 assms M by (intro mod_pos_pos_trivial) (simp_all add: M_def)
      finally show ?thesis using 3 M by simp
    qed
  qed
  ultimately show ?thesis
    unfolding M_def [symmetric] by (auto split: if_splits)
qed

lemma mod_once:
  fixes v N :: int
  assumes "0 \<le> v" and "v < 2 * N"
  shows "v mod N = (if v < N then v else v - N)"
proof (cases "v < N")
  case False
  have "v mod N = (v - N) mod N" by (simp only: minus_mod_self2)
  also have "\<dots> = v - N" using False assms by (intro mod_pos_pos_trivial) auto
  finally show ?thesis using False by simp
qed (use assms in simp)

lemma word_as_sints:
  fixes a b :: "'w::len word"
  shows "a + b + of_bool c = word_of_int (sint a + sint b + of_bool c)"
    and "a - b - of_bool c = word_of_int (sint a - sint b - of_bool c)"
  by simp_all

definition in_range :: "nat \<Rightarrow> int \<Rightarrow> bool" where
  "in_range n v = (- (2 ^ (n - 1)) \<le> v \<and> v < 2 ^ (n - 1))"

lemma sum_range_int:
  fixes A B C X M :: int
  assumes "0 < M" "- M \<le> A" "A < M" "- M \<le> B" "B < M" "0 \<le> C" "C \<le> 1"
    and "X = A + B + C \<and> - M \<le> A + B + C \<and> A + B + C < M \<or>
      X = A + B + C - 2 * M \<and> M \<le> A + B + C \<or> X = A + B + C + 2 * M \<and> A + B + C < - M"
  shows "(A < 0 \<longleftrightarrow> B < 0) \<and> (X < 0 \<longleftrightarrow> \<not> B < 0) \<longleftrightarrow> \<not> (- M \<le> A + B + C \<and> A + B + C < M)"
  using assms by (cases "A < 0"; cases "B < 0"; cases "X < 0"; auto)

lemma diff_range_int:
  fixes A B C X M :: int
  assumes "0 < M" "- M \<le> A" "A < M" "- M \<le> B" "B < M" "0 \<le> C" "C \<le> 1"
    and "X = A - B - C \<and> - M \<le> A - B - C \<and> A - B - C < M \<or>
      X = A - B - C - 2 * M \<and> M \<le> A - B - C \<or> X = A - B - C + 2 * M \<and> A - B - C < - M"
  shows "(A < 0 \<longleftrightarrow> \<not> B < 0) \<and> (A < 0 \<longleftrightarrow> \<not> X < 0) \<longleftrightarrow> \<not> (- M \<le> A - B - C \<and> A - B - C < M)"
  using assms by (cases "A < 0"; cases "B < 0"; cases "X < 0"; auto)

lemma carry_bounds: "0 \<le> (of_bool c :: int)" "(of_bool c :: int) \<le> 1"
  by simp_all

lemma sum_bounds:
  fixes A B M :: int
  assumes "- M \<le> A" "A < M" "- M \<le> B" "B < M"
  shows "- 2 * M \<le> A + B + of_bool c" "A + B + of_bool c < 2 * M"
    "- 2 * M \<le> A - B - of_bool c" "A - B - of_bool c < 2 * M"
  using assms by (cases c; simp)+

lemma add_overflow:
  fixes a b :: "'w::len word"
  shows "(sint a < 0 \<longleftrightarrow> sint b < 0) \<and> (sint (a + b + of_bool c) < 0 \<longleftrightarrow> \<not> sint b < 0)
    \<longleftrightarrow> \<not> in_range LENGTH('w) (sint a + sint b + of_bool c)"
  unfolding in_range_def
  by (rule sum_range_int)
     (use sint_bounds [of a] sint_bounds [of b] in
       \<open>simp_all only: sint_word_of_int_cases [OF word_as_sints(1) [of a b c]] carry_bounds
          sum_bounds zero_less_power zero_less_numeral\<close>)

lemma sub_overflow:
  fixes a b :: "'w::len word"
  shows "(sint a < 0 \<longleftrightarrow> \<not> sint b < 0) \<and> (sint a < 0 \<longleftrightarrow> \<not> sint (a - b - of_bool c) < 0)
    \<longleftrightarrow> \<not> in_range LENGTH('w) (sint a - sint b - of_bool c)"
  unfolding in_range_def
  by (rule diff_range_int)
     (use sint_bounds [of a] sint_bounds [of b] in
       \<open>simp_all only: sint_word_of_int_cases [OF word_as_sints(2) [of a b c]] carry_bounds
          sum_bounds zero_less_power zero_less_numeral\<close>)

lemma uint_add_carry:
  fixes a b :: "'w::len word"
  shows "uint (a + b + of_bool c) = (let v = uint a + uint b + of_bool c in
    if v < 2 ^ LENGTH('w) then v else v - 2 ^ LENGTH('w))"
proof -
  have "uint (a + b + of_bool c) = (uint a + uint b + of_bool c) mod 2 ^ LENGTH('w)"
    by (cases c) (simp_all add: uint_word_ariths mod_simps)
  also have "\<dots> = (let v = uint a + uint b + of_bool c in
      if v < 2 ^ LENGTH('w) then v else v - 2 ^ LENGTH('w))"
    unfolding Let_def
    using uint_lt2p [of a] uint_lt2p [of b] uint_ge_0 [of a] uint_ge_0 [of b] carry_bounds [of c]
    by (intro mod_once) linarith+
  finally show ?thesis .
qed

lemma uint_sub_borrow:
  fixes a b :: "'w::len word"
  shows "uint (a - b - of_bool c) = (let v = uint a - uint b - of_bool c in
    if 0 \<le> v then v else v + 2 ^ LENGTH('w))"
proof -
  let ?N = "2 ^ LENGTH('w) :: int"
  have "uint (a - b - of_bool c) = (uint a - uint b - of_bool c) mod ?N"
    by (cases c) (simp_all add: uint_word_ariths mod_simps)
  also have "\<dots> = (uint a - uint b - of_bool c + ?N) mod ?N" by (simp only: mod_add_self2)
  also have "\<dots> = (if uint a - uint b - of_bool c + ?N < ?N
      then uint a - uint b - of_bool c + ?N else uint a - uint b - of_bool c + ?N - ?N)"
    using uint_lt2p [of a] uint_lt2p [of b] uint_ge_0 [of a] uint_ge_0 [of b] carry_bounds [of c]
    by (intro mod_once) linarith+
  finally show ?thesis by (simp add: Let_def)
qed

lemma carry_int:
  fixes A B N :: int
  assumes "0 \<le> A" "A < N" "0 \<le> B" "B < N"
    and "X = (if A + B + of_bool c < N then A + B + of_bool c else A + B + of_bool c - N)"
    and "Y = (if 0 \<le> A - B - of_bool c then A - B - of_bool c else A - B - of_bool c + N)"
  shows "X < A \<or> c \<and> X = A \<longleftrightarrow> N \<le> A + B + of_bool c"
    and "A < Y \<or> c \<and> B = N - 1 \<longleftrightarrow> A < B + of_bool c"
  using assms by (cases c; auto)+

lemma add_carry:
  fixes a b :: "'w::len word"
  shows "a + b + of_bool c < a \<or> c \<and> a + b + of_bool c = a
    \<longleftrightarrow> 2 ^ LENGTH('w) \<le> uint a + uint b + of_bool c"
  unfolding word_less_def word_uint_eq_iff
  by (rule carry_int(1)) (simp_all only: uint_add_carry Let_def uint_lt2p uint_ge_0)

lemma sub_borrow:
  fixes a b :: "'w::len word"
  shows "a < a - b - of_bool c \<or> c \<and> b = - 1 \<longleftrightarrow> uint a < uint b + of_bool c"
proof -
  have m1: "b = - 1 \<longleftrightarrow> uint b = 2 ^ LENGTH('w) - 1"
    unfolding word_uint_eq_iff by (simp add: unsigned_minus_1_eq_mask mask_eq_exp_minus_1)
  show ?thesis unfolding m1 word_less_def
    by (rule carry_int(2)) (simp_all only: uint_sub_borrow Let_def uint_lt2p uint_ge_0)
qed

lemma nibble_int:
  fixes A B :: int
  shows "odd (A div 16) \<noteq> (odd (B div 16) \<noteq> odd ((A + B + of_bool c) div 16))
      \<longleftrightarrow> 16 \<le> A mod 16 + B mod 16 + of_bool c"
    and "odd (A div 16) \<noteq> (odd (B div 16) \<noteq> odd ((A - B - of_bool c) div 16))
      \<longleftrightarrow> A mod 16 < B mod 16 + of_bool c"
proof -
  have d: "(16 * q + r) div 16 = q + r div 16" for q r :: int by simp
  have s: "A + B + of_bool c = 16 * (A div 16 + B div 16) + (A mod 16 + B mod 16 + of_bool c)"
    "A - B - of_bool c = 16 * (A div 16 - B div 16) + (A mod 16 - B mod 16 - of_bool c)"
    by (simp_all add: algebra_simps)
  have m: "0 \<le> A mod 16" "A mod 16 < 16" "0 \<le> B mod 16" "B mod 16 < 16" by simp_all
  have v: "r div 16 = (if r < 0 then - 1 else if r < 16 then 0 else 1)" if "- 16 \<le> r" "r < 32" for r :: int
  proof -
    consider "r < 0" | "0 \<le> r" "r < 16" | "16 \<le> r" by linarith
    then show ?thesis
    proof cases
      case 1 then show ?thesis using that div_pos_neg_trivial [of r 16] div_add_self2 [of 16 "r"]
        div_pos_pos_trivial [of "r + 16" 16] by simp
    next
      case 3 then show ?thesis using that div_add_self2 [of 16 "r - 16"]
        div_pos_pos_trivial [of "r - 16" 16] by simp
    qed simp
  qed
  have par: "(odd x \<noteq> (odd y \<noteq> odd (x + y + of_bool p))) \<longleftrightarrow> p"
    "(odd x \<noteq> (odd y \<noteq> odd (x - y - of_bool p))) \<longleftrightarrow> p" for x y :: int and p
    by (cases p; simp; blast)+
  define r where "r = A mod 16 + B mod 16 + of_bool c"
  define r' where "r' = A mod 16 - B mod 16 - of_bool c"
  have r: "- 16 \<le> r" "0 \<le> r" "r < 32" "- 16 \<le> r'" "r' < 16" "r' < 32"
    unfolding r_def r'_def using m carry_bounds [of c] by linarith+
  have "(A + B + of_bool c) div 16 = A div 16 + B div 16 + of_bool (16 \<le> r)"
    unfolding s(1) d r_def [symmetric] v [OF r(1,3)] using r by simp
  moreover have "(A - B - of_bool c) div 16 = A div 16 - B div 16 - of_bool (r' < 0)"
    unfolding s(2) d r'_def [symmetric] v [OF r(4,6)] using r by simp
  moreover have "r' < 0 \<longleftrightarrow> A mod 16 < B mod 16 + of_bool c" unfolding r'_def by linarith
  ultimately show
    "odd (A div 16) \<noteq> (odd (B div 16) \<noteq> odd ((A + B + of_bool c) div 16)) \<longleftrightarrow> 16 \<le> A mod 16 + B mod 16 + of_bool c"
    "odd (A div 16) \<noteq> (odd (B div 16) \<noteq> odd ((A - B - of_bool c) div 16)) \<longleftrightarrow> A mod 16 < B mod 16 + of_bool c"
    unfolding r_def by (simp_all only: par)
qed

lemma nibble_carry:
  fixes a b :: "'w::len word"
  assumes "8 \<le> LENGTH('w)"
  shows "bit (a XOR b XOR (a + b + of_bool c)) 4 \<longleftrightarrow> 16 \<le> uint a mod 16 + uint b mod 16 + of_bool c"
    and "bit (a XOR b XOR (a - b - of_bool c)) 4 \<longleftrightarrow> uint a mod 16 < uint b mod 16 + of_bool c"
proof -
  have b: "bit (word_of_int v :: 'w word) 4 \<longleftrightarrow> odd (v div 16)" for v
    using assms bit_iff_odd [of v 4] by (simp add: bit_word_of_int_iff)
  have sums: "a + b + of_bool c = word_of_int (uint a + uint b + of_bool c)"
    "a - b - of_bool c = word_of_int (uint a - uint b - of_bool c)" by simp_all
  have ab: "bit a 4 \<longleftrightarrow> odd (uint a div 16)" "bit b 4 \<longleftrightarrow> odd (uint b div 16)"
    using b [of "uint a"] b [of "uint b"] by simp_all
  show "bit (a XOR b XOR (a + b + of_bool c)) 4 \<longleftrightarrow> 16 \<le> uint a mod 16 + uint b mod 16 + of_bool c"
    unfolding bit_xor_iff ab sums b by (rule nibble_int)
  show "bit (a XOR b XOR (a - b - of_bool c)) 4 \<longleftrightarrow> uint a mod 16 < uint b mod 16 + of_bool c"
    unfolding bit_xor_iff ab sums b by (rule nibble_int)
qed

text \<open>The shortcuts the code takes for increments, decrements and negations.\<close>

lemma sint_extremes:
  fixes a :: "'w::len word"
  assumes "8 \<le> LENGTH('w)"
  shows "a = 2 ^ (LENGTH('w) - 1) \<longleftrightarrow> sint a = - (2 ^ (LENGTH('w) - 1))"
    and "a = 2 ^ (LENGTH('w) - 1) - 1 \<longleftrightarrow> sint a = 2 ^ (LENGTH('w) - 1) - 1"
    and "sint (1 :: 'w word) = 1"
proof -
  let ?M = "(2::int) ^ (LENGTH('w) - 1)"
  have M: "?M \<ge> 2 ^ 7" using assms by (intro power_increasing) auto
  have e: "a = b \<longleftrightarrow> sint a = sint b" for a b :: "'w word" by (auto intro: signed_word_eqI)
  have c: "sint x = v" if "x = word_of_int v" "- ?M \<le> v" "v < ?M" for x :: "'w word" and v
    using sint_word_of_int_cases [OF that(1)] that by auto
  have m: "sint (2 ^ (LENGTH('w) - 1) :: 'w word) = - ?M"
    using sint_word_of_int_cases [of "2 ^ (LENGTH('w) - 1) :: 'w word" ?M] M by auto
  show "a = 2 ^ (LENGTH('w) - 1) \<longleftrightarrow> sint a = - (2 ^ (LENGTH('w) - 1))"
    unfolding e m ..
  have "sint (2 ^ (LENGTH('w) - 1) - 1 :: 'w word) = ?M - 1"
    by (rule c) (use M in simp_all)
  then show "a = 2 ^ (LENGTH('w) - 1) - 1 \<longleftrightarrow> sint a = 2 ^ (LENGTH('w) - 1) - 1"
    unfolding e by simp
  show "sint (1 :: 'w word) = 1" by (rule c) (use M in simp_all)
qed

lemma range_edges:
  fixes A M :: int
  assumes "- M \<le> A" "A < M"
  shows "A = M - 1 \<longleftrightarrow> \<not> (- M \<le> A + 1 \<and> A + 1 < M)" "A = - M \<longleftrightarrow> \<not> (- M \<le> A - 1 \<and> A - 1 < M)"
    "A = - M \<longleftrightarrow> \<not> (- M \<le> - A \<and> - A < M)"
  using assms by auto

lemma inc_dec_overflow:
  fixes a :: "'w::len word"
  assumes "8 \<le> LENGTH('w)"
  shows "a + 1 = 2 ^ (LENGTH('w) - 1) \<longleftrightarrow> \<not> in_range LENGTH('w) (sint a + sint (1 :: 'w word))"
    and "a - 1 = 2 ^ (LENGTH('w) - 1) - 1 \<longleftrightarrow> \<not> in_range LENGTH('w) (sint a - sint (1 :: 'w word))"
    and "a = 2 ^ (LENGTH('w) - 1) \<longleftrightarrow> \<not> in_range LENGTH('w) (- sint a)"
proof -
  have "a + 1 = 2 ^ (LENGTH('w) - 1) \<longleftrightarrow> a = 2 ^ (LENGTH('w) - 1) - 1"
    "a - 1 = 2 ^ (LENGTH('w) - 1) - 1 \<longleftrightarrow> a = 2 ^ (LENGTH('w) - 1)"
    by (auto simp: eq_diff_eq)
  note e = this sint_extremes(1,2) [OF assms, of a] sint_extremes(3) [OF assms]
  show "a + 1 = 2 ^ (LENGTH('w) - 1) \<longleftrightarrow> \<not> in_range LENGTH('w) (sint a + sint (1 :: 'w word))"
    unfolding in_range_def e by (rule range_edges(1) [OF sint_bounds])
  show "a - 1 = 2 ^ (LENGTH('w) - 1) - 1 \<longleftrightarrow> \<not> in_range LENGTH('w) (sint a - sint (1 :: 'w word))"
    unfolding in_range_def e by (rule range_edges(2) [OF sint_bounds])
  show "a = 2 ^ (LENGTH('w) - 1) \<longleftrightarrow> \<not> in_range LENGTH('w) (- sint a)"
    unfolding in_range_def e by (rule range_edges(3) [OF sint_bounds])
qed

lemma and_0f_uint:
  fixes a :: "'w::len word"
  assumes "8 \<le> LENGTH('w)"
  shows "a AND 0x0f = 0 \<longleftrightarrow> uint a mod 16 = 0" "a AND 0x0f = 0x0f \<longleftrightarrow> uint a mod 16 = 15"
    "uint (1 :: 'w word) = 1" "uint (a AND 0x0f) = uint a mod 16"
proof -
  have t: "a AND 0x0f = take_bit 4 a" by (simp add: take_bit_eq_mask mask_numeral)
  show u: "uint (a AND 0x0f) = uint a mod 16"
    unfolding t unsigned_take_bit_eq by (simp add: take_bit_eq_mod)
  have "(2::int) ^ 8 \<le> 2 ^ LENGTH('w)" using assms by (intro power_increasing) auto
  then have "(15::int) mod 2 ^ LENGTH('w) = 15" by (intro mod_pos_pos_trivial) simp_all
  then have f: "uint (0x0f :: 'w word) = 15" "uint (0 :: 'w word) = 0"
    by (simp_all only: uint_numeral take_bit_eq_mod unsigned_0)
  show "a AND 0x0f = 0 \<longleftrightarrow> uint a mod 16 = 0" "a AND 0x0f = 0x0f \<longleftrightarrow> uint a mod 16 = 15"
    unfolding word_uint_eq_iff [where 'a = 'w] u f by simp_all
  show "uint (1 :: 'w word) = 1" by simp
qed

lemma inc_dec_nibble:
  fixes a :: "'w::len word"
  assumes "8 \<le> LENGTH('w)"
  shows "(a + 1) AND 0x0f = 0 \<longleftrightarrow> 16 \<le> uint a mod 16 + uint (1 :: 'w word) mod 16"
    and "(a - 1) AND 0x0f = 0x0f \<longleftrightarrow> uint a mod 16 < uint (1 :: 'w word) mod 16"
    and "a AND 0x0f \<noteq> 0 \<longleftrightarrow> 0 < uint a mod 16"
proof -
  have d: "16 dvd (2::int) ^ LENGTH('w)" using le_imp_power_dvd [of 4 "LENGTH('w)" "2::int"] assms by simp
  have "uint (a + 1) mod 16 = (uint a mod 16 + 1) mod 16"
    by (simp add: uint_word_ariths mod_mod_cancel [OF d] mod_simps)
  moreover have "uint (a - 1) mod 16 = (uint a mod 16 - 1) mod 16"
    by (simp add: uint_word_ariths mod_mod_cancel [OF d] mod_simps)
  moreover have one_mod: "(1::int) mod 16 = 1" by simp
  moreover have m: "0 \<le> uint a mod 16" "uint a mod 16 < 16" by simp_all
  moreover have v: "(v + 1) mod 16 = 0 \<longleftrightarrow> 16 \<le> v + 1" "(v - 1) mod 16 = 15 \<longleftrightarrow> v < 1"
    if "0 \<le> v" "v < 16" for v :: int
    using that mod_once [of "v + 1" 16] mod_once [of "v - 1 + 16" 16]
    unfolding mod_add_self2 [of "v - 1" 16] by (simp_all split: if_splits)
  ultimately show "(a + 1) AND 0x0f = 0 \<longleftrightarrow> 16 \<le> uint a mod 16 + uint (1 :: 'w word) mod 16"
    "(a - 1) AND 0x0f = 0x0f \<longleftrightarrow> uint a mod 16 < uint (1 :: 'w word) mod 16"
    unfolding and_0f_uint(1,2,3) [OF assms] one_mod by (simp_all only: v [OF m])
  show "a AND 0x0f \<noteq> 0 \<longleftrightarrow> 0 < uint a mod 16"
    unfolding and_0f_uint(1) [OF assms] using m by linarith
qed

lemma word_neq_0_uint: "a \<noteq> 0 \<longleftrightarrow> 0 < uint a" for a :: "'w::len word"
  using uint_ge_0 [of a] uint_0_iff [of a] by linarith

section \<open>Architectural flags\<close>

text \<open>The flags the x86 architecture defines for an addition and a subtraction with carry in.\<close>

definition add_flags :: "'w::len word \<Rightarrow> 'w word \<Rightarrow> bool \<Rightarrow> status_flags" where
  "add_flags a b c = (let x = a + b + of_bool c in
     \<lparr>f_CF = (2 ^ LENGTH('w) \<le> uint a + uint b + of_bool c),
      f_PF = even (ones8 (ucast x)),
      f_AF = (16 \<le> uint a mod 16 + uint b mod 16 + of_bool c),
      f_ZF = (x = 0), f_SF = (sint x < 0),
      f_OF = (\<not> in_range LENGTH('w) (sint a + sint b + of_bool c))\<rparr>)"

definition sub_flags :: "'w::len word \<Rightarrow> 'w word \<Rightarrow> bool \<Rightarrow> status_flags" where
  "sub_flags a b c = (let x = a - b - of_bool c in
     \<lparr>f_CF = (uint a < uint b + of_bool c),
      f_PF = even (ones8 (ucast x)),
      f_AF = (uint a mod 16 < uint b mod 16 + of_bool c),
      f_ZF = (x = 0), f_SF = (sint x < 0),
      f_OF = (\<not> in_range LENGTH('w) (sint a - sint b - of_bool c))\<rparr>)"

definition logic_flags :: "'w::len word \<Rightarrow> status_flags" where
  "logic_flags x = \<lparr>f_CF = False, f_PF = even (ones8 (ucast x)), f_AF = False,
     f_ZF = (x = 0), f_SF = (sint x < 0), f_OF = False\<rparr>"

text \<open>After a comparison, the condition codes decide the unsigned and the signed order.\<close>

definition decides_order :: "'w::len word \<Rightarrow> 'w word \<Rightarrow> 'a cpu_scheme \<Rightarrow> bool" where
  "decides_order a b s \<longleftrightarrow>
     (TFLG_B s \<longleftrightarrow> uint a < uint b) \<and> (TFLG_BE s \<longleftrightarrow> uint a \<le> uint b) \<and>
     (TFLG_L s \<longleftrightarrow> sint a < sint b) \<and> (TFLG_LE s \<longleftrightarrow> sint a \<le> sint b) \<and>
     (TFLG_Z s \<longleftrightarrow> a = b) \<and> (TFLG_NB s \<longleftrightarrow> uint b \<le> uint a) \<and> (TFLG_NBE s \<longleftrightarrow> uint b < uint a) \<and>
     (TFLG_NL s \<longleftrightarrow> sint b \<le> sint a) \<and> (TFLG_NLE s \<longleftrightarrow> sint b < sint a) \<and> (TFLG_NZ s \<longleftrightarrow> a \<noteq> b)"

lemma signed_order_int:
  fixes A B X M :: int
  assumes "0 < M" "- M \<le> A" "A < M" "- M \<le> B" "B < M"
    and "X = A - B \<and> - M \<le> A - B \<and> A - B < M \<or>
      X = A - B - 2 * M \<and> M \<le> A - B \<or> X = A - B + 2 * M \<and> A - B < - M"
  shows "(X < 0) \<noteq> (\<not> (- M \<le> A - B \<and> A - B < M)) \<longleftrightarrow> A < B"
  using assms by (cases "X < 0") auto

lemma signed_order:
  fixes a b :: "'w::len word"
  shows "(sint (a - b) < 0) \<noteq> (\<not> in_range LENGTH('w) (sint a - sint b)) \<longleftrightarrow> sint a < sint b"
  unfolding in_range_def
  by (rule signed_order_int)
     (use sint_bounds [of a] sint_bounds [of b] sum_bounds [of _ "sint a" "sint b" False]
        sint_word_of_int_cases [OF word_as_sints(2) [of a b False]] in simp_all)

lemma decides_order_sub:
  fixes a b :: "'w::len word"
  assumes "lazy_view s = sub_flags a b False"
  shows "decides_order a b s"
proof -
  have v: "get_CF s \<noteq> 0 \<longleftrightarrow> uint a < uint b" "get_ZF s \<noteq> 0 \<longleftrightarrow> a = b"
    "(get_SF s \<noteq> 0) \<noteq> (get_OF s \<noteq> 0) \<longleftrightarrow> sint a < sint b"
    using assms signed_order [of a b] by (simp_all add: lazy_view_def sub_flags_def Let_def)
  have e: "a = b \<longleftrightarrow> uint a = uint b" "a = b \<longleftrightarrow> sint a = sint b"
    by (rule word_uint_eq_iff) (auto intro: signed_word_eqI)
  show ?thesis
    unfolding decides_order_def TFLG_B_def TFLG_BE_def TFLG_L_def TFLG_LE_def TFLG_Z_def TFLG_NB_def
      TFLG_NBE_def TFLG_NL_def TFLG_NLE_def TFLG_NZ_def
    using v e by (intro conjI) (auto simp only: linorder_not_less order_le_less)
qed

section \<open>What the operand stores keep\<close>

lemma low_masks: "(0xff::u32) = mask 8" "(0xffff::u32) = mask 16"
  by (simp_all add: mask_eq_exp_minus_1)

lemma low_set_low:
  "(ucast (low8_set x d) :: u8) = x" "(ucast (low16_set y d) :: u16) = y"
  unfolding low8_set_def low16_set_def low_masks
  by (rule bit_word_eqI; simp add: bit_simps)+

lemmas set_lf_defs = set_lf_var1b_def set_lf_var1w_def set_lf_var1d_def set_lf_var2b_def
  set_lf_var2w_def set_lf_var2d_def set_lf_resb_def set_lf_resw_def set_lf_resd_def
  lf_var1b_def lf_var1w_def lf_var2b_def lf_var2w_def lf_resb_def lf_resw_def

lemma set_lf_read [lf_view]:
  "lf_var1b (set_lf_var1b xb s) = xb" "lf_var1w (set_lf_var1w xw s) = xw"
  "lf_var1d (set_lf_var1d xd s) = xd" "lf_var2b (set_lf_var2b xb s) = xb"
  "lf_var2w (set_lf_var2w xw s) = xw" "lf_var2d (set_lf_var2d xd s) = xd"
  "lf_resb (set_lf_resb xb s) = xb" "lf_resw (set_lf_resw xw s) = xw"
  "lf_resd (set_lf_resd xd s) = xd"
  by (simp_all add: set_lf_defs low_set_low)

lemma set_lf_other [lf_view]:
  "lf_var2b (set_lf_var1b xb s) = lf_var2b s" "lf_var2w (set_lf_var1b xb s) = lf_var2w s"
  "lf_var2d (set_lf_var1b xb s) = lf_var2d s" "lf_resb (set_lf_var1b xb s) = lf_resb s"
  "lf_resw (set_lf_var1b xb s) = lf_resw s" "lf_resd (set_lf_var1b xb s) = lf_resd s"
  "lf_var2b (set_lf_var1w xw s) = lf_var2b s" "lf_var2w (set_lf_var1w xw s) = lf_var2w s"
  "lf_var2d (set_lf_var1w xw s) = lf_var2d s" "lf_resb (set_lf_var1w xw s) = lf_resb s"
  "lf_resw (set_lf_var1w xw s) = lf_resw s" "lf_resd (set_lf_var1w xw s) = lf_resd s"
  "lf_var2b (set_lf_var1d xd s) = lf_var2b s" "lf_var2w (set_lf_var1d xd s) = lf_var2w s"
  "lf_var2d (set_lf_var1d xd s) = lf_var2d s" "lf_resb (set_lf_var1d xd s) = lf_resb s"
  "lf_resw (set_lf_var1d xd s) = lf_resw s" "lf_resd (set_lf_var1d xd s) = lf_resd s"
  "lf_var1b (set_lf_var2b xb s) = lf_var1b s" "lf_var1w (set_lf_var2b xb s) = lf_var1w s"
  "lf_var1d (set_lf_var2b xb s) = lf_var1d s" "lf_resb (set_lf_var2b xb s) = lf_resb s"
  "lf_resw (set_lf_var2b xb s) = lf_resw s" "lf_resd (set_lf_var2b xb s) = lf_resd s"
  "lf_var1b (set_lf_var2w xw s) = lf_var1b s" "lf_var1w (set_lf_var2w xw s) = lf_var1w s"
  "lf_var1d (set_lf_var2w xw s) = lf_var1d s" "lf_resb (set_lf_var2w xw s) = lf_resb s"
  "lf_resw (set_lf_var2w xw s) = lf_resw s" "lf_resd (set_lf_var2w xw s) = lf_resd s"
  "lf_var1b (set_lf_var2d xd s) = lf_var1b s" "lf_var1w (set_lf_var2d xd s) = lf_var1w s"
  "lf_var1d (set_lf_var2d xd s) = lf_var1d s" "lf_resb (set_lf_var2d xd s) = lf_resb s"
  "lf_resw (set_lf_var2d xd s) = lf_resw s" "lf_resd (set_lf_var2d xd s) = lf_resd s"
  "lf_var1b (set_lf_resb xb s) = lf_var1b s" "lf_var1w (set_lf_resb xb s) = lf_var1w s"
  "lf_var1d (set_lf_resb xb s) = lf_var1d s" "lf_var2b (set_lf_resb xb s) = lf_var2b s"
  "lf_var2w (set_lf_resb xb s) = lf_var2w s" "lf_var2d (set_lf_resb xb s) = lf_var2d s"
  "lf_var1b (set_lf_resw xw s) = lf_var1b s" "lf_var1w (set_lf_resw xw s) = lf_var1w s"
  "lf_var1d (set_lf_resw xw s) = lf_var1d s" "lf_var2b (set_lf_resw xw s) = lf_var2b s"
  "lf_var2w (set_lf_resw xw s) = lf_var2w s" "lf_var2d (set_lf_resw xw s) = lf_var2d s"
  "lf_var1b (set_lf_resd xd s) = lf_var1b s" "lf_var1w (set_lf_resd xd s) = lf_var1w s"
  "lf_var1d (set_lf_resd xd s) = lf_var1d s" "lf_var2b (set_lf_resd xd s) = lf_var2b s"
  "lf_var2w (set_lf_resd xd s) = lf_var2w s" "lf_var2d (set_lf_resd xd s) = lf_var2d s"
  by (simp_all add: set_lf_defs)

lemma set_lf_frame [lf_view]:
  "lf_type (set_lf_var1b xb s) = lf_type s" "lf_oldcf (set_lf_var1b xb s) = lf_oldcf s"
  "reg_flags (set_lf_var1b xb s) = reg_flags s" "reg_eax (set_lf_var1b xb s) = reg_eax s"
  "reg_edx (set_lf_var1b xb s) = reg_edx s" "lf_type (set_lf_var1w xw s) = lf_type s"
  "lf_oldcf (set_lf_var1w xw s) = lf_oldcf s" "reg_flags (set_lf_var1w xw s) = reg_flags s"
  "reg_eax (set_lf_var1w xw s) = reg_eax s" "reg_edx (set_lf_var1w xw s) = reg_edx s"
  "lf_type (set_lf_var1d xd s) = lf_type s" "lf_oldcf (set_lf_var1d xd s) = lf_oldcf s"
  "reg_flags (set_lf_var1d xd s) = reg_flags s" "reg_eax (set_lf_var1d xd s) = reg_eax s"
  "reg_edx (set_lf_var1d xd s) = reg_edx s" "lf_type (set_lf_var2b xb s) = lf_type s"
  "lf_oldcf (set_lf_var2b xb s) = lf_oldcf s" "reg_flags (set_lf_var2b xb s) = reg_flags s"
  "reg_eax (set_lf_var2b xb s) = reg_eax s" "reg_edx (set_lf_var2b xb s) = reg_edx s"
  "lf_type (set_lf_var2w xw s) = lf_type s" "lf_oldcf (set_lf_var2w xw s) = lf_oldcf s"
  "reg_flags (set_lf_var2w xw s) = reg_flags s" "reg_eax (set_lf_var2w xw s) = reg_eax s"
  "reg_edx (set_lf_var2w xw s) = reg_edx s" "lf_type (set_lf_var2d xd s) = lf_type s"
  "lf_oldcf (set_lf_var2d xd s) = lf_oldcf s" "reg_flags (set_lf_var2d xd s) = reg_flags s"
  "reg_eax (set_lf_var2d xd s) = reg_eax s" "reg_edx (set_lf_var2d xd s) = reg_edx s"
  "lf_type (set_lf_resb xb s) = lf_type s" "lf_oldcf (set_lf_resb xb s) = lf_oldcf s"
  "reg_flags (set_lf_resb xb s) = reg_flags s" "reg_eax (set_lf_resb xb s) = reg_eax s"
  "reg_edx (set_lf_resb xb s) = reg_edx s" "lf_type (set_lf_resw xw s) = lf_type s"
  "lf_oldcf (set_lf_resw xw s) = lf_oldcf s" "reg_flags (set_lf_resw xw s) = reg_flags s"
  "reg_eax (set_lf_resw xw s) = reg_eax s" "reg_edx (set_lf_resw xw s) = reg_edx s"
  "lf_type (set_lf_resd xd s) = lf_type s" "lf_oldcf (set_lf_resd xd s) = lf_oldcf s"
  "reg_flags (set_lf_resd xd s) = reg_flags s" "reg_eax (set_lf_resd xd s) = reg_eax s"
  "reg_edx (set_lf_resd xd s) = reg_edx s"
  by (simp_all add: set_lf_defs)

lemma lf_scalar_frame [lf_view]:
  "lf_var1b (s\<lparr>lf_type := k\<rparr>) = lf_var1b s" "lf_var1w (s\<lparr>lf_type := k\<rparr>) = lf_var1w s"
  "lf_var2b (s\<lparr>lf_type := k\<rparr>) = lf_var2b s" "lf_var2w (s\<lparr>lf_type := k\<rparr>) = lf_var2w s"
  "lf_resb (s\<lparr>lf_type := k\<rparr>) = lf_resb s" "lf_resw (s\<lparr>lf_type := k\<rparr>) = lf_resw s"
  "lf_var1b (s\<lparr>lf_oldcf := o'\<rparr>) = lf_var1b s" "lf_var1w (s\<lparr>lf_oldcf := o'\<rparr>) = lf_var1w s"
  "lf_var2b (s\<lparr>lf_oldcf := o'\<rparr>) = lf_var2b s" "lf_var2w (s\<lparr>lf_oldcf := o'\<rparr>) = lf_var2w s"
  "lf_resb (s\<lparr>lf_oldcf := o'\<rparr>) = lf_resb s" "lf_resw (s\<lparr>lf_oldcf := o'\<rparr>) = lf_resw s"
  by (simp_all add: lf_var1b_def lf_var1w_def lf_var2b_def lf_var2w_def lf_resb_def lf_resw_def)

lemma GETFLAG_set_lf [lf_view]:
  "GETFLAG m (set_lf_var1b xb s) = GETFLAG m s" "GETFLAG m (set_lf_var1w xw s) = GETFLAG m s"
  "GETFLAG m (set_lf_var1d xd s) = GETFLAG m s" "GETFLAG m (set_lf_var2b xb s) = GETFLAG m s"
  "GETFLAG m (set_lf_var2w xw s) = GETFLAG m s" "GETFLAG m (set_lf_var2d xd s) = GETFLAG m s"
  "GETFLAG m (set_lf_resb xb s) = GETFLAG m s" "GETFLAG m (set_lf_resw xw s) = GETFLAG m s"
  "GETFLAG m (set_lf_resd xd s) = GETFLAG m s"
  by (simp_all add: GETFLAG_def lf_view)

section \<open>One width of the arithmetic unit\<close>

text \<open>
  The interface of the arithmetic bodies over a width of the lazy flags: each operation returns
  its result and leaves operands, result and kind pending. The flags it stands for are then
  derived once.
\<close>

locale alu_width = lazy_width +
  fixes ADD ADC SBB SUB OR_op XOR_op AND_op :: "'w::len word \<Rightarrow> 'w word \<Rightarrow> cpu \<Rightarrow> 'w word \<times> cpu"
    and CMP TEST :: "'w word \<Rightarrow> 'w word \<Rightarrow> cpu \<Rightarrow> cpu"
    and INC DEC NEG :: "'w word \<Rightarrow> cpu \<Rightarrow> 'w word \<times> cpu"
  assumes ADD: "ADD a b s = (x, t) \<Longrightarrow>
      x = a + b \<and> v1 t = a \<and> v2 t = b \<and> r t = x \<and> lf_type t = tADD"
    and ADC: "ADC a b s = (x, t) \<Longrightarrow> x = a + b + of_bool (get_CF s \<noteq> 0) \<and> v1 t = a \<and> v2 t = b \<and>
      r t = x \<and> lf_type t = tADC \<and> lf_oldcf t = of_bool (get_CF s \<noteq> 0)"
    and SBB: "SBB a b s = (x, t) \<Longrightarrow> x = a - b - of_bool (get_CF s \<noteq> 0) \<and> v1 t = a \<and> v2 t = b \<and>
      r t = x \<and> lf_type t = tSBB \<and> lf_oldcf t = of_bool (get_CF s \<noteq> 0)"
    and SUB: "SUB a b s = (x, t) \<Longrightarrow>
      x = a - b \<and> v1 t = a \<and> v2 t = b \<and> r t = x \<and> lf_type t = tSUB"
    and CMP: "CMP a b s = t \<Longrightarrow> v1 t = a \<and> v2 t = b \<and> r t = a - b \<and> lf_type t = tCMP"
    and OR_op: "OR_op a b s = (x, t) \<Longrightarrow> x = (a OR b) \<and> r t = x \<and> lf_type t = tOR"
    and XOR_op: "XOR_op a b s = (x, t) \<Longrightarrow> x = (a XOR b) \<and> r t = x \<and> lf_type t = tXOR"
    and AND_op: "AND_op a b s = (x, t) \<Longrightarrow> x = (a AND b) \<and> r t = x \<and> lf_type t = tAND"
    and TEST: "TEST a b s = t \<Longrightarrow> r t = (a AND b) \<and> lf_type t = tTEST"
    and INC: "INC a s = (x, t) \<Longrightarrow> x = a + 1 \<and> r t = x \<and> lf_type t = tINC \<and>
      (GETFLAG FLAG_CF t \<noteq> 0 \<longleftrightarrow> get_CF s \<noteq> 0)"
    and DEC: "DEC a s = (x, t) \<Longrightarrow> x = a - 1 \<and> r t = x \<and> lf_type t = tDEC \<and>
      (GETFLAG FLAG_CF t \<noteq> 0 \<longleftrightarrow> get_CF s \<noteq> 0)"
    and NEG: "NEG a s = (x, t) \<Longrightarrow> x = - a \<and> v1 t = a \<and> r t = x \<and> lf_type t = tNEG"
begin

lemma PF_result: "lf_type s \<noteq> t_UNKNOWN \<Longrightarrow> get_PF s \<noteq> 0 \<longleftrightarrow> even (ones8 (ucast (r s)))"
  by (simp add: get_PF_even low)

lemma pending_facts:
  fixes s :: cpu
  assumes "lf_type s \<in> {tADD, tADC, tSBB, tSUB, tCMP, tOR, tAND, tXOR, tTEST, tINC, tDEC, tNEG}"
  shows "get_PF s \<noteq> 0 \<longleftrightarrow> even (ones8 (ucast (r s)))" "get_ZF s \<noteq> 0 \<longleftrightarrow> r s = 0"
    "get_SF s \<noteq> 0 \<longleftrightarrow> sint (r s) < 0"
  using assms pending PF_result [of s] ZF_all [of s] SF_all [of s] by auto

lemma add_view:
  fixes t :: cpu
  assumes "lf_type t = tADD \<and> \<not> c \<or> lf_type t = tADC \<and> lf_oldcf t = of_bool c"
    and "r t = v1 t + v2 t + of_bool c"
  shows "lazy_view t = add_flags (v1 t) (v2 t) c"
  using assms(1)
proof (elim disjE conjE)
  assume k: "lf_type t = tADD" "\<not> c"
  then show ?thesis
    using pending_facts [of t] assms(2) add_carry [of "v1 t" "v2 t" c] add_overflow [of "v1 t" "v2 t" c]
      nibble_carry(1) [OF width, of "v1 t" "v2 t" c]
    by (simp add: lazy_view_def add_flags_def Let_def CF_ADD AF_arith OF_ADD)
next
  assume k: "lf_type t = tADC" "lf_oldcf t = of_bool c"
  then show ?thesis
    using pending_facts [of t] assms(2) add_carry [of "v1 t" "v2 t" c] add_overflow [of "v1 t" "v2 t" c]
      nibble_carry(1) [OF width, of "v1 t" "v2 t" c]
    by (simp add: lazy_view_def add_flags_def Let_def CF_ADC AF_arith OF_ADD)
qed

lemma sub_view:
  fixes t :: cpu
  assumes "lf_type t \<in> {tSUB, tCMP} \<and> \<not> c \<or> lf_type t = tSBB \<and> lf_oldcf t = of_bool c"
    and "r t = v1 t - v2 t - of_bool c"
  shows "lazy_view t = sub_flags (v1 t) (v2 t) c"
  using assms(1)
proof (elim disjE conjE)
  assume k: "lf_type t \<in> {tSUB, tCMP}" "\<not> c"
  then have k': "lf_type t \<in> {tADD, tADC, tSBB, tSUB, tCMP}" "lf_type t \<in> {tSBB, tSUB, tCMP}"
    "lf_type t \<in> {tADD, tADC, tSBB, tSUB, tCMP, tOR, tAND, tXOR, tTEST, tINC, tDEC, tNEG}" by auto
  then show ?thesis
    using pending_facts [OF k'(3)] assms(2) sub_overflow [of "v1 t" "v2 t" c]
      nibble_carry(2) [OF width, of "v1 t" "v2 t" c] k(2)
    by (simp add: lazy_view_def sub_flags_def Let_def CF_SUB [OF k(1)] AF_arith [OF k'(1)]
        OF_SUB [OF k'(2)] word_less_def)
next
  assume k: "lf_type t = tSBB" "lf_oldcf t = of_bool c"
  then show ?thesis
    using pending_facts [of t] assms(2) sub_borrow [of "v1 t" "v2 t" c] sub_overflow [of "v1 t" "v2 t" c]
      nibble_carry(2) [OF width, of "v1 t" "v2 t" c]
    by (simp add: lazy_view_def sub_flags_def Let_def CF_SBB AF_arith OF_SUB)
qed

lemma ADD_flags: "ADD a b s = (x, t) \<Longrightarrow> x = a + b \<and> lazy_view t = add_flags a b False"
  using ADD [of a b s x t] add_view [of t False] by auto

lemma ADC_flags: "ADC a b s = (x, t) \<Longrightarrow> x = a + b + of_bool (get_CF s \<noteq> 0) \<and>
    lazy_view t = add_flags a b (get_CF s \<noteq> 0)"
  using ADC [of a b s x t] add_view [of t "get_CF s \<noteq> 0"] by auto

lemma SUB_flags: "SUB a b s = (x, t) \<Longrightarrow> x = a - b \<and> lazy_view t = sub_flags a b False"
  using SUB [of a b s x t] sub_view [of t False] by auto

lemma SBB_flags: "SBB a b s = (x, t) \<Longrightarrow> x = a - b - of_bool (get_CF s \<noteq> 0) \<and>
    lazy_view t = sub_flags a b (get_CF s \<noteq> 0)"
  using SBB [of a b s x t] sub_view [of t "get_CF s \<noteq> 0"] by auto

lemma CMP_flags: "lazy_view (CMP a b s) = sub_flags a b False"
  using CMP [of a b s] sub_view [of "CMP a b s" False] by auto

lemma logic_view:
  fixes t :: cpu
  assumes "lf_type t \<in> {tOR, tAND, tXOR, tTEST}"
  shows "lazy_view t = logic_flags (r t)"
proof -
  have k: "lf_type t \<in> {tOR, tAND, tXOR, tTEST, tSAR}"
    "lf_type t \<in> {tADD, tADC, tSBB, tSUB, tCMP, tOR, tAND, tXOR, tTEST, tINC, tDEC, tNEG}"
    using assms by auto
  show ?thesis
    using pending_facts [OF k(2)] CF_logic [OF assms] AF_logic [OF assms] OF_none [OF k(1)]
    by (simp add: lazy_view_def logic_flags_def)
qed

lemma logic_ops:
  "OR_op a b s = (x, t) \<Longrightarrow> x = (a OR b) \<and> lazy_view t = logic_flags x"
  "XOR_op a b s = (x, t) \<Longrightarrow> x = (a XOR b) \<and> lazy_view t = logic_flags x"
  "AND_op a b s = (x, t) \<Longrightarrow> x = (a AND b) \<and> lazy_view t = logic_flags x"
  "lazy_view (TEST a b s) = logic_flags (a AND b)"
  using OR_op [of a b s x t] XOR_op [of a b s x t] AND_op [of a b s x t] TEST [of a b s]
    logic_view [of t] logic_view [of "TEST a b s"]
  by auto

lemma INC_flags: "INC a s = (x, t) \<Longrightarrow> x = a + 1 \<and>
    lazy_view t = (add_flags a 1 False)\<lparr>f_CF := get_CF s \<noteq> 0\<rparr>"
  using INC [of a s x t] pending_facts [of t]
    inc_dec_overflow(1) [OF width, of a] inc_dec_nibble(1) [OF width, of a]
  by (simp add: lazy_view_def add_flags_def Let_def CF_INC AF_INC OF_INC)

lemma DEC_flags: "DEC a s = (x, t) \<Longrightarrow> x = a - 1 \<and>
    lazy_view t = (sub_flags a 1 False)\<lparr>f_CF := get_CF s \<noteq> 0\<rparr>"
  using DEC [of a s x t] pending_facts [of t]
    inc_dec_overflow(2) [OF width, of a] inc_dec_nibble(2) [OF width, of a]
  by (simp add: lazy_view_def sub_flags_def Let_def CF_INC AF_DEC OF_DEC)

lemma NEG_flags: "NEG a s = (x, t) \<Longrightarrow> x = - a \<and> lazy_view t = sub_flags 0 a False"
  using NEG [of a s x t] pending_facts [of t]
    inc_dec_overflow(3) [OF width, of a] inc_dec_nibble(3) [OF width, of a]
    word_neq_0_uint [of a]
  by (simp add: lazy_view_def sub_flags_def Let_def CF_NEG AF_NEG OF_NEG)

end

lemmas alu_defs_b = ADDB_def ADCB_def SBBB_def SUBB_def ORB_def XORB_def ANDB_def CMPB_def TESTB_def INCB_def DECB_def NEGB_def

interpretation byte_alu: alu_width lf_var1b lf_var2b lf_resb
  t_ADDb t_ADCb t_SBBb t_SUBb t_CMPb t_ORb t_ANDb t_XORb t_TESTb
  t_INCb t_DECb t_NEGb t_SHLb t_SHRb t_SARb DOFLAG_ZFb DOFLAG_SFb shl_cf_b
  ADDB ADCB SBBB SUBB ORB XORB ANDB CMPB TESTB INCB DECB NEGB
  by unfold_locales (auto simp: alu_defs_b Let_def lf_view LoadCF_def)

lemmas alu_defs_w = ADDW_def ADCW_def SBBW_def SUBW_def ORW_def XORW_def ANDW_def CMPW_def TESTW_def INCW_def DECW_def NEGW_def

interpretation word_alu: alu_width lf_var1w lf_var2w lf_resw
  t_ADDw t_ADCw t_SBBw t_SUBw t_CMPw t_ORw t_ANDw t_XORw t_TESTw
  t_INCw t_DECw t_NEGw t_SHLw t_SHRw t_SARw DOFLAG_ZFw DOFLAG_SFw shl_cf_w
  ADDW ADCW SBBW SUBW ORW XORW ANDW CMPW TESTW INCW DECW NEGW
  by unfold_locales (auto simp: alu_defs_w Let_def lf_view LoadCF_def)

lemmas alu_defs_d = ADDD_def ADCD_def SBBD_def SUBD_def ORD_def XORD_def ANDD_def CMPD_def TESTD_def INCD_def DECD_def NEGD_def

interpretation dword_alu: alu_width lf_var1d lf_var2d lf_resd
  t_ADDd t_ADCd t_SBBd t_SUBd t_CMPd t_ORd t_ANDd t_XORd t_TESTd
  t_INCd t_DECd t_NEGd t_SHLd t_SHRd t_SARd DOFLAG_ZFd DOFLAG_SFd shl_cf_d
  ADDD ADCD SBBD SUBD ORD XORD ANDD CMPD TESTD INCD DECD NEGD
  by unfold_locales (auto simp: alu_defs_d Let_def lf_view LoadCF_def)

lemmas alu_arith_rules =
  byte_alu.ADD_flags byte_alu.ADC_flags byte_alu.SUB_flags byte_alu.SBB_flags
  word_alu.ADD_flags word_alu.ADC_flags word_alu.SUB_flags word_alu.SBB_flags
  dword_alu.ADD_flags dword_alu.ADC_flags dword_alu.SUB_flags dword_alu.SBB_flags

lemmas alu_unary_rules =
  byte_alu.INC_flags byte_alu.DEC_flags byte_alu.NEG_flags
  word_alu.INC_flags word_alu.DEC_flags word_alu.NEG_flags
  dword_alu.INC_flags dword_alu.DEC_flags dword_alu.NEG_flags
  byte_alu.logic_ops(1-3)
  word_alu.logic_ops(1-3)
  dword_alu.logic_ops(1-3)

lemmas alu_pure_rules =
  byte_alu.CMP_flags byte_alu.logic_ops(4)
  word_alu.CMP_flags word_alu.logic_ops(4)
  dword_alu.CMP_flags dword_alu.logic_ops(4)

section \<open>Properties\<close>

text \<open>
  Property C7. Addition and subtraction, with and without carry in, and comparison: at each of the
  three widths the body returns the wrapped result, and the lazy flags it leaves are the
  architecture's: CF is the unsigned carry or borrow, OF the signed overflow, AF the carry out of
  the low nibble, ZF, SF and PF those of the result.
\<close>

theorem alu_add_sub_flags:
  fixes a8 b8 :: u8 and a16 b16 :: u16 and a32 b32 :: u32 and s :: cpu
  shows "(case ADDB a8 b8 s of (x, t) \<Rightarrow> x = a8 + b8 \<and> lazy_view t = add_flags a8 b8 False) \<and>
   (case ADCB a8 b8 s of (x, t) \<Rightarrow> x = a8 + b8 + of_bool (get_CF s \<noteq> 0) \<and> lazy_view t = add_flags a8 b8 (get_CF s \<noteq> 0)) \<and>
   (case SUBB a8 b8 s of (x, t) \<Rightarrow> x = a8 - b8 \<and> lazy_view t = sub_flags a8 b8 False) \<and>
   (case SBBB a8 b8 s of (x, t) \<Rightarrow> x = a8 - b8 - of_bool (get_CF s \<noteq> 0) \<and> lazy_view t = sub_flags a8 b8 (get_CF s \<noteq> 0)) \<and>
   lazy_view (CMPB a8 b8 s) = sub_flags a8 b8 False \<and>
   (case ADDW a16 b16 s of (x, t) \<Rightarrow> x = a16 + b16 \<and> lazy_view t = add_flags a16 b16 False) \<and>
   (case ADCW a16 b16 s of (x, t) \<Rightarrow> x = a16 + b16 + of_bool (get_CF s \<noteq> 0) \<and> lazy_view t = add_flags a16 b16 (get_CF s \<noteq> 0)) \<and>
   (case SUBW a16 b16 s of (x, t) \<Rightarrow> x = a16 - b16 \<and> lazy_view t = sub_flags a16 b16 False) \<and>
   (case SBBW a16 b16 s of (x, t) \<Rightarrow> x = a16 - b16 - of_bool (get_CF s \<noteq> 0) \<and> lazy_view t = sub_flags a16 b16 (get_CF s \<noteq> 0)) \<and>
   lazy_view (CMPW a16 b16 s) = sub_flags a16 b16 False \<and>
   (case ADDD a32 b32 s of (x, t) \<Rightarrow> x = a32 + b32 \<and> lazy_view t = add_flags a32 b32 False) \<and>
   (case ADCD a32 b32 s of (x, t) \<Rightarrow> x = a32 + b32 + of_bool (get_CF s \<noteq> 0) \<and> lazy_view t = add_flags a32 b32 (get_CF s \<noteq> 0)) \<and>
   (case SUBD a32 b32 s of (x, t) \<Rightarrow> x = a32 - b32 \<and> lazy_view t = sub_flags a32 b32 False) \<and>
   (case SBBD a32 b32 s of (x, t) \<Rightarrow> x = a32 - b32 - of_bool (get_CF s \<noteq> 0) \<and> lazy_view t = sub_flags a32 b32 (get_CF s \<noteq> 0)) \<and>
   lazy_view (CMPD a32 b32 s) = sub_flags a32 b32 False"
  by (intro conjI) (auto split: prod.split dest!: alu_arith_rules simp: alu_pure_rules)

text \<open>
  Property C29. Increment and decrement set the flags of an addition or subtraction of one but keep
  the carry; negation sets those of a subtraction from zero; the bitwise operations clear carry,
  overflow and AF. At each width.
\<close>

theorem alu_unary_logic_flags:
  fixes a8 b8 :: u8 and a16 b16 :: u16 and a32 b32 :: u32 and s :: cpu
  shows "(case INCB a8 s of (x, t) \<Rightarrow> x = a8 + 1 \<and> lazy_view t = (add_flags a8 1 False)\<lparr>f_CF := get_CF s \<noteq> 0\<rparr>) \<and>
   (case DECB a8 s of (x, t) \<Rightarrow> x = a8 - 1 \<and> lazy_view t = (sub_flags a8 1 False)\<lparr>f_CF := get_CF s \<noteq> 0\<rparr>) \<and>
   (case NEGB a8 s of (x, t) \<Rightarrow> x = - a8 \<and> lazy_view t = sub_flags 0 a8 False) \<and>
   (case ORB a8 b8 s of (x, t) \<Rightarrow> x = (a8 OR b8) \<and> lazy_view t = logic_flags (a8 OR b8)) \<and>
   (case XORB a8 b8 s of (x, t) \<Rightarrow> x = (a8 XOR b8) \<and> lazy_view t = logic_flags (a8 XOR b8)) \<and>
   (case ANDB a8 b8 s of (x, t) \<Rightarrow> x = (a8 AND b8) \<and> lazy_view t = logic_flags (a8 AND b8)) \<and>
   lazy_view (TESTB a8 b8 s) = logic_flags (a8 AND b8) \<and>
   (case INCW a16 s of (x, t) \<Rightarrow> x = a16 + 1 \<and> lazy_view t = (add_flags a16 1 False)\<lparr>f_CF := get_CF s \<noteq> 0\<rparr>) \<and>
   (case DECW a16 s of (x, t) \<Rightarrow> x = a16 - 1 \<and> lazy_view t = (sub_flags a16 1 False)\<lparr>f_CF := get_CF s \<noteq> 0\<rparr>) \<and>
   (case NEGW a16 s of (x, t) \<Rightarrow> x = - a16 \<and> lazy_view t = sub_flags 0 a16 False) \<and>
   (case ORW a16 b16 s of (x, t) \<Rightarrow> x = (a16 OR b16) \<and> lazy_view t = logic_flags (a16 OR b16)) \<and>
   (case XORW a16 b16 s of (x, t) \<Rightarrow> x = (a16 XOR b16) \<and> lazy_view t = logic_flags (a16 XOR b16)) \<and>
   (case ANDW a16 b16 s of (x, t) \<Rightarrow> x = (a16 AND b16) \<and> lazy_view t = logic_flags (a16 AND b16)) \<and>
   lazy_view (TESTW a16 b16 s) = logic_flags (a16 AND b16) \<and>
   (case INCD a32 s of (x, t) \<Rightarrow> x = a32 + 1 \<and> lazy_view t = (add_flags a32 1 False)\<lparr>f_CF := get_CF s \<noteq> 0\<rparr>) \<and>
   (case DECD a32 s of (x, t) \<Rightarrow> x = a32 - 1 \<and> lazy_view t = (sub_flags a32 1 False)\<lparr>f_CF := get_CF s \<noteq> 0\<rparr>) \<and>
   (case NEGD a32 s of (x, t) \<Rightarrow> x = - a32 \<and> lazy_view t = sub_flags 0 a32 False) \<and>
   (case ORD a32 b32 s of (x, t) \<Rightarrow> x = (a32 OR b32) \<and> lazy_view t = logic_flags (a32 OR b32)) \<and>
   (case XORD a32 b32 s of (x, t) \<Rightarrow> x = (a32 XOR b32) \<and> lazy_view t = logic_flags (a32 XOR b32)) \<and>
   (case ANDD a32 b32 s of (x, t) \<Rightarrow> x = (a32 AND b32) \<and> lazy_view t = logic_flags (a32 AND b32)) \<and>
   lazy_view (TESTD a32 b32 s) = logic_flags (a32 AND b32)"
  by (intro conjI) (auto split: prod.split dest!: alu_unary_rules simp: alu_pure_rules)

text \<open>
  Property C25. After a comparison the condition codes of the conditional jumps decide the order of
  the operands, unsigned (B, BE, NB, NBE), signed (L, LE, NL, NLE) and equality (Z, NZ), at each
  width.
\<close>

theorem cmp_decides_order:
  fixes a8 b8 :: u8 and a16 b16 :: u16 and a32 b32 :: u32 and s :: cpu
  shows "decides_order a8 b8 (CMPB a8 b8 s) \<and> decides_order a16 b16 (CMPW a16 b16 s) \<and>
    decides_order a32 b32 (CMPD a32 b32 s)"
  by (intro conjI) (rule decides_order_sub, rule byte_alu.CMP_flags word_alu.CMP_flags dword_alu.CMP_flags)+

end
