(* ===== verification/Cpu_Shift.thy ===== *)
theory Cpu_Shift
  imports Cpu_Arith
begin

text \<open>
  Rotates and shifts against reference definitions: plain rotates are the library's word
  rotations, rotates through carry are rotations of the operand extended by the carry bit, and
  the shifts multiply and divide by powers of two with the last bit shifted out in the carry.
\<close>

unbundle bit_operations_syntax

section \<open>Rotations of words\<close>

lemma bit_rotl:
  fixes x :: "'w::len word"
  assumes "n < LENGTH('w)" "0 < k" "k < LENGTH('w)"
  shows "bit (word_rotl k x) n \<longleftrightarrow> (if k \<le> n then bit x (n - k) else bit x (n + LENGTH('w) - k))"
proof -
  have "(n + (LENGTH('w) - k mod LENGTH('w))) mod LENGTH('w) =
      (if k \<le> n then n - k else n + LENGTH('w) - k)"
    using assms by (simp add: mod_if)
  with assms show ?thesis unfolding bit_word_rotl_iff by simp
qed

lemma bit_rotr:
  fixes x :: "'w::len word"
  assumes "n < LENGTH('w)" "0 < k" "k < LENGTH('w)"
  shows "bit (word_rotr k x) n \<longleftrightarrow>
    (if n + k < LENGTH('w) then bit x (n + k) else bit x (n + k - LENGTH('w)))"
proof -
  have "(n + k) mod LENGTH('w) = (if n + k < LENGTH('w) then n + k else n + k - LENGTH('w))"
    using assms by (simp add: mod_if)
  with assms show ?thesis unfolding bit_word_rotr_iff by simp
qed

lemma bit_beyond: "LENGTH('w) \<le> n \<Longrightarrow> \<not> bit (x :: 'w::len word) n"
  using bit_imp_le_length by fastforce

lemmas shift_bits = bit_or_iff bit_push_bit_iff bit_drop_bit_eq comp_apply possible_bit_word

lemma rotl_parts:
  fixes x :: "'w::len word"
  assumes "k < LENGTH('w)"
  shows "push_bit k x OR drop_bit (LENGTH('w) - k) x = word_rotl k x"
proof (cases "k = 0")
  case True
  then show ?thesis by (simp add: bit_eq_iff [where ?'a = "'w word"] bit_simps bit_beyond)
next
  case False
  show ?thesis
  proof (rule bit_word_eqI)
    fix n assume n: "n < LENGTH('w)"
    show "bit (push_bit k x OR drop_bit (LENGTH('w) - k) x) n = bit (word_rotl k x) n"
      using False assms n unfolding shift_bits
      by (simp add: bit_rotl bit_beyond add.commute)
  qed
qed

lemma rotr_parts:
  fixes x :: "'w::len word"
  assumes "k < LENGTH('w)"
  shows "drop_bit k x OR push_bit (LENGTH('w) - k) x = word_rotr k x"
proof (cases "k = 0")
  case True
  then show ?thesis by (simp add: bit_eq_iff [where ?'a = "'w word"] bit_simps bit_beyond)
next
  case False
  show ?thesis
  proof (rule bit_word_eqI)
    fix n assume n: "n < LENGTH('w)"
    show "bit (drop_bit k x OR push_bit (LENGTH('w) - k) x) n = bit (word_rotr k x) n"
      using False assms n unfolding shift_bits
      by (simp add: bit_rotr bit_beyond add.commute) linarith
  qed
qed

text \<open>The operand with the carry above its top bit.\<close>

definition with_carry :: "bool \<Rightarrow> 'w::len word \<Rightarrow> 'v::len word" where
  "with_carry c x = push_bit LENGTH('w) (of_bool c) OR ucast x"

lemma bit_with_carry:
  fixes x :: "'w::len word"
  assumes "LENGTH('v::len) = Suc LENGTH('w)"
  shows "bit (with_carry c x :: 'v word) n \<longleftrightarrow> (if n = LENGTH('w) then c else bit x n)"
  using assms by (auto simp: with_carry_def bit_simps dest: bit_imp_le_length)

lemma rcl_parts:
  fixes x :: "'w::len word"
  assumes "LENGTH('v::len) = Suc LENGTH('w)" "0 < k" "k \<le> LENGTH('w)"
  shows "with_carry (bit x (LENGTH('w) - k))
      (push_bit k x OR push_bit (k - 1) (of_bool c) OR drop_bit (Suc LENGTH('w) - k) x) =
    word_rotl k (with_carry c x :: 'v word)"
proof (rule bit_word_eqI)
  fix n assume n: "n < LENGTH('v)"
  show "bit (with_carry (bit x (LENGTH('w) - k))
      (push_bit k x OR push_bit (k - 1) (of_bool c) OR drop_bit (Suc LENGTH('w) - k) x) :: 'v word) n =
    bit (word_rotl k (with_carry c x :: 'v word)) n"
    using assms n unfolding shift_bits bit_with_carry [OF assms(1)]
    by (simp add: bit_rotl bit_with_carry [OF assms(1)] bit_of_bool_iff bit_beyond add.commute) auto
qed

lemma rcr_parts:
  fixes x :: "'w::len word"
  assumes "LENGTH('v::len) = Suc LENGTH('w)" "0 < k" "k \<le> LENGTH('w)"
  shows "with_carry (bit x (k - 1))
      (drop_bit k x OR push_bit (LENGTH('w) - k) (of_bool c) OR push_bit (Suc LENGTH('w) - k) x) =
    word_rotr k (with_carry c x :: 'v word)"
proof (rule bit_word_eqI)
  fix n assume n: "n < LENGTH('v)"
  show "bit (with_carry (bit x (k - 1))
      (drop_bit k x OR push_bit (LENGTH('w) - k) (of_bool c) OR push_bit (Suc LENGTH('w) - k) x) :: 'v word) n =
    bit (word_rotr k (with_carry c x :: 'v word)) n"
    using assms n unfolding shift_bits bit_with_carry [OF assms(1)]
    by (simp add: bit_rotr bit_with_carry [OF assms(1)] bit_of_bool_iff bit_beyond add.commute) auto
qed

lemma rotl_mod: "word_rotl (k mod LENGTH('w)) x = word_rotl k (x :: 'w::len word)"
  and rotr_mod: "word_rotr (k mod LENGTH('w)) x = word_rotr k (x :: 'w::len word)"
  by (simp_all add: bit_eq_iff [where ?'a = "'w word"] bit_simps mod_add_right_eq)

section \<open>Counts\<close>

lemma count_mod:
  fixes n :: u8
  shows "unat (n AND 7) = unat n mod 8" "unat (n AND 0xf) = unat n mod 16"
    "unat (n AND 0x1f) = unat n mod 32" "unat (n mod 9) = unat n mod 9" "unat (n mod 17) = unat n mod 17"
proof -
  have "n AND 7 = take_bit 3 n" "n AND 0xf = take_bit 4 n" "n AND 0x1f = take_bit 5 n"
    by (simp_all add: take_bit_eq_mask mask_numeral)
  then show "unat (n AND 7) = unat n mod 8" "unat (n AND 0xf) = unat n mod 16"
    "unat (n AND 0x1f) = unat n mod 32"
    by (simp_all only: unsigned_take_bit_eq) (simp_all add: take_bit_eq_mod)
  show "unat (n mod 9) = unat n mod 9" "unat (n mod 17) = unat n mod 17"
    by (simp_all add: unat_mod)
qed

lemma count_lt_32: "unat (n AND 0x1f) < 32" for n :: u8
  by (simp add: count_mod)

section \<open>Plain rotates\<close>

lemma rol_results:
  "fst (ROLB a n s) = word_rotl (unat n) a" "fst (ROLW b n s) = word_rotl (unat n) b"
  "unat n < 32 \<Longrightarrow> fst (ROLD c n s) = word_rotl (unat n) c"
  using rotl_parts [of "unat n mod 8" a] rotl_parts [of "unat n mod 16" b] rotl_parts [of "unat n" c]
    rotl_mod [of "unat n" a] rotl_mod [of "unat n" b]
  by (simp_all add: ROLB_def ROLW_def ROLD_def Let_def lf_view count_mod)

lemma ror_results:
  "fst (RORB a n s) = word_rotr (unat n) a" "fst (RORW b n s) = word_rotr (unat n) b"
  "unat n < 32 \<Longrightarrow> fst (RORD c n s) = word_rotr (unat n) c"
  using rotr_parts [of "unat n mod 8" a] rotr_parts [of "unat n mod 16" b] rotr_parts [of "unat n" c]
    rotr_mod [of "unat n" a] rotr_mod [of "unat n" b]
  by (simp_all add: RORB_def RORW_def RORD_def Let_def lf_view count_mod)

lemma rol_carries:
  "GETFLAG FLAG_CF (snd (ROLB a n s)) \<noteq> 0 \<longleftrightarrow> bit (fst (ROLB a n s)) 0"
  "GETFLAG FLAG_CF (snd (ROLW b n s)) \<noteq> 0 \<longleftrightarrow> bit (fst (ROLW b n s)) 0"
  "GETFLAG FLAG_CF (snd (ROLD c n s)) \<noteq> 0 \<longleftrightarrow> bit (fst (ROLD c n s)) 0"
  by (simp_all add: ROLB_def ROLW_def ROLD_def Let_def lf_view and_1_bits)

lemma ror_carries:
  "GETFLAG FLAG_CF (snd (RORB a n s)) \<noteq> 0 \<longleftrightarrow> bit (fst (RORB a n s)) 7"
  "GETFLAG FLAG_CF (snd (RORW b n s)) \<noteq> 0 \<longleftrightarrow> bit (fst (RORW b n s)) 15"
  "GETFLAG FLAG_CF (snd (RORD c n s)) \<noteq> 0 \<longleftrightarrow> bit (fst (RORD c n s)) 31"
  by (simp_all add: RORB_def RORW_def RORD_def Let_def lf_view mask_bits)

section \<open>Rotates through carry\<close>

lemma fill_CF:
  fixes s :: cpu
  assumes "lf_coherent s"
  shows "(ucast (fst (FillFlags s)) :: u8) AND 1 = of_bool (get_CF s \<noteq> 0)"
    "(ucast (fst (FillFlags s)) :: u16) AND 1 = of_bool (get_CF s \<noteq> 0)"
    "fst (FillFlags s) AND 1 = of_bool (get_CF s \<noteq> 0)"
    "lf_type (snd (FillFlags s)) = t_UNKNOWN"
proof -
  obtain r t where f: "FillFlags s = (r, t)" by fastforce
  have ok: "reg_view r = lazy_view s" "lf_type t = t_UNKNOWN"
    using fill_ok_coherent [OF assms] f by (auto simp: fill_ok_def)
  then have "bit r 0 \<longleftrightarrow> get_CF s \<noteq> 0"
    by (simp add: reg_view_def lazy_view_def flag_masks and_1_bits)
  moreover have one: "x AND 1 = of_bool (bit x 0)" for x :: "'x::len word"
    using word_and_power [of 0 x] by simp
  ultimately show "(ucast (fst (FillFlags s)) :: u8) AND 1 = of_bool (get_CF s \<noteq> 0)"
    "(ucast (fst (FillFlags s)) :: u16) AND 1 = of_bool (get_CF s \<noteq> 0)"
    "fst (FillFlags s) AND 1 = of_bool (get_CF s \<noteq> 0)"
    unfolding one by (simp_all add: f bit_simps)
  show "lf_type (snd (FillFlags s)) = t_UNKNOWN" using ok f by simp
qed

text \<open>A rotate of the operand and the carry together: what a result and a state stand for.\<close>

definition rotates_through ::
    "('v::len word \<Rightarrow> 'v word) \<Rightarrow> 'w::len word \<Rightarrow> cpu \<Rightarrow> 'w word option \<times> cpu \<Rightarrow> bool" where
  "rotates_through rot a s out = (case out of
     (None, t) \<Rightarrow> t = s \<and> rot (with_carry (get_CF s \<noteq> 0) a) = with_carry (get_CF s \<noteq> 0) a
   | (Some x, t) \<Rightarrow> with_carry (get_CF t \<noteq> 0) x = rot (with_carry (get_CF s \<noteq> 0) a))"

lemma get_CF_UNKNOWN: "lf_type t = t_UNKNOWN \<Longrightarrow> get_CF t = GETFLAG FLAG_CF t"
  by (simp add: get_CF_def)

lemma rot_0: "word_rotl 0 x = x" "word_rotr 0 x = (x :: 'w::len word)"
  by (simp_all add: bit_eq_iff [where ?'a = "'w word"] bit_simps bit_beyond)

lemma count_pos:
  fixes m :: u8
  assumes "m \<noteq> 0"
  shows "0 < unat m" "unat (m - 1) = unat m - 1"
  using assms by (simp_all add: unat_gt_0 unat_minus_one)

lemmas rc_rules = rotates_through_def Let_def lf_view lf_var2b_minus_one_def get_CF_UNKNOWN
  and_1_bits bit_drop_bit_eq

lemma drop_all: "LENGTH('w) \<le> k \<Longrightarrow> drop_bit k (x :: 'w::len word) = 0"
  by (simp add: bit_eq_iff [where ?'a = "'w word"] bit_simps bit_beyond)

lemma push_all: "LENGTH('w) \<le> k \<Longrightarrow> push_bit k (x :: 'w::len word) = 0"
  by (simp add: bit_eq_iff [where ?'a = "'w word"] bit_simps) 

lemma rcl_byte:
  fixes s :: cpu
  assumes "lf_coherent s"
  shows "rotates_through (word_rotl (unat n) :: 9 word \<Rightarrow> _) a s (RCLB a n s)"
proof (cases "n mod 9 = 0")
  case True
  then have "unat n mod 9 = 0" by (simp flip: count_mod)
  then show ?thesis
    using True rotl_mod [of "unat n" "with_carry (get_CF s \<noteq> 0) a :: 9 word"]
    by (simp add: rotates_through_def RCLB_def rot_0)
next
  case False
  define k where "k = unat n mod 9"
  have m: "unat (n mod 9) = k" by (simp add: k_def count_mod)
  have k: "0 < k" "k \<le> 8" "unat (n mod 9 - 1) = k - 1"
    using count_pos [OF False] by (simp_all add: m) (simp add: k_def)
  show ?thesis
    using False k m rcl_parts [of k a "get_CF s \<noteq> 0", where 'v = 9]
      rotl_mod [of "unat n" "with_carry (get_CF s \<noteq> 0) a :: 9 word"]
    by (cases "get_CF s = 0"; cases "bit a (8 - k)")
       (simp_all add: RCLB_def rc_rules fill_CF [OF assms] flip: k_def)
qed

lemma rcr_byte:
  fixes s :: cpu
  assumes "lf_coherent s"
  shows "rotates_through (word_rotr (unat n) :: 9 word \<Rightarrow> _) a s (RCRB a n s)"
proof (cases "n mod 9 = 0")
  case True
  then have "unat n mod 9 = 0" by (simp flip: count_mod)
  then show ?thesis
    using True rotr_mod [of "unat n" "with_carry (get_CF s \<noteq> 0) a :: 9 word"]
    by (simp add: rotates_through_def RCRB_def rot_0)
next
  case False
  define k where "k = unat n mod 9"
  have m: "unat (n mod 9) = k" by (simp add: k_def count_mod)
  have k: "0 < k" "k \<le> 8" "unat (n mod 9 - 1) = k - 1"
    using count_pos [OF False] by (simp_all add: m) (simp add: k_def)
  show ?thesis
    using False k m rcr_parts [of k a "get_CF s \<noteq> 0", where 'v = 9]
      rotr_mod [of "unat n" "with_carry (get_CF s \<noteq> 0) a :: 9 word"]
    by (cases "get_CF s = 0"; cases "bit a (k - 1)")
       (simp_all add: RCRB_def rc_rules fill_CF [OF assms] flip: k_def)
qed

lemma rcl_word:
  fixes s :: cpu
  assumes "lf_coherent s"
  shows "rotates_through (word_rotl (unat n) :: 17 word \<Rightarrow> _) a s (RCLW a n s)"
proof (cases "n mod 17 = 0")
  case True
  then have "unat n mod 17 = 0" by (simp flip: count_mod)
  then show ?thesis
    using True rotl_mod [of "unat n" "with_carry (get_CF s \<noteq> 0) a :: 17 word"]
    by (simp add: rotates_through_def RCLW_def rot_0)
next
  case False
  define k where "k = unat n mod 17"
  have m: "unat (n mod 17) = k" by (simp add: k_def count_mod)
  have k: "0 < k" "k \<le> 16" "unat (n mod 17 - 1) = k - 1"
    using count_pos [OF False] by (simp_all add: m) (simp add: k_def)
  show ?thesis
    using False k m rcl_parts [of k a "get_CF s \<noteq> 0", where 'v = 17]
      rotl_mod [of "unat n" "with_carry (get_CF s \<noteq> 0) a :: 17 word"]
    by (cases "get_CF s = 0"; cases "bit a (16 - k)")
       (simp_all add: RCLW_def rc_rules fill_CF [OF assms] flip: k_def)
qed

lemma rcr_word:
  fixes s :: cpu
  assumes "lf_coherent s"
  shows "rotates_through (word_rotr (unat n) :: 17 word \<Rightarrow> _) a s (RCRW a n s)"
proof (cases "n mod 17 = 0")
  case True
  then have "unat n mod 17 = 0" by (simp flip: count_mod)
  then show ?thesis
    using True rotr_mod [of "unat n" "with_carry (get_CF s \<noteq> 0) a :: 17 word"]
    by (simp add: rotates_through_def RCRW_def rot_0)
next
  case False
  define k where "k = unat n mod 17"
  have m: "unat (n mod 17) = k" by (simp add: k_def count_mod)
  have k: "0 < k" "k \<le> 16" "unat (n mod 17 - 1) = k - 1"
    using count_pos [OF False] by (simp_all add: m) (simp add: k_def)
  show ?thesis
    using False k m rcr_parts [of k a "get_CF s \<noteq> 0", where 'v = 17]
      rotr_mod [of "unat n" "with_carry (get_CF s \<noteq> 0) a :: 17 word"]
    by (cases "get_CF s = 0"; cases "bit a (k - 1)")
       (simp_all add: RCRW_def rc_rules fill_CF [OF assms] flip: k_def)
qed

lemma rcl_dword:
  fixes s :: cpu
  assumes "lf_coherent s" and "unat n < 32"
  shows "rotates_through (word_rotl (unat n) :: 33 word \<Rightarrow> _) a s (RCLD a n s)"
proof (cases "n = 0")
  case True
  then show ?thesis by (simp add: rotates_through_def RCLD_def rot_0)
next
  case False
  then show ?thesis
    using count_pos [OF False] assms(2) rcl_parts [of "unat n" a "get_CF s \<noteq> 0", where 'v = 33]
    by (cases "n = 1"; cases "get_CF s = 0"; cases "bit a (32 - unat n)")
       (simp_all add: RCLD_def rc_rules fill_CF [OF assms(1)] drop_all push_all)
qed

lemma rcr_dword:
  fixes s :: cpu
  assumes "lf_coherent s" and "unat n < 32"
  shows "rotates_through (word_rotr (unat n) :: 33 word \<Rightarrow> _) a s (RCRD a n s)"
proof (cases "n = 0")
  case True
  then show ?thesis by (simp add: rotates_through_def RCRD_def rot_0)
next
  case False
  then show ?thesis
    using count_pos [OF False] assms(2) rcr_parts [of "unat n" a "get_CF s \<noteq> 0", where 'v = 33]
    by (cases "n = 1"; cases "get_CF s = 0"; cases "bit a (unat n - 1)")
       (simp_all add: RCRD_def rc_rules fill_CF [OF assms(1)] drop_all push_all)
qed

section \<open>Shifts\<close>

lemma odd_uint_bit: "odd (uint x div 2 ^ k) \<longleftrightarrow> bit x k" for x :: "'w::len word"
  using bit_uint_iff [of x k] by (auto simp: bit_iff_odd [of "uint x"] dest: bit_imp_le_length)

lemma shl_carry_int:
  fixes x :: "'w::len word"
  shows "odd (uint x * 2 ^ k div 2 ^ LENGTH('w)) \<longleftrightarrow> k \<le> LENGTH('w) \<and> bit x (LENGTH('w) - k)"
proof (cases "k \<le> LENGTH('w)")
  case True
  have "uint x * 2 ^ k div 2 ^ LENGTH('w) = uint x * 2 ^ k div (2 ^ (LENGTH('w) - k) * 2 ^ k)"
    using True by (simp flip: power_add)
  also have "\<dots> = uint x div 2 ^ (LENGTH('w) - k)" by simp
  finally show ?thesis using True by (simp add: odd_uint_bit)
next
  case False
  have "uint x * 2 ^ k div 2 ^ LENGTH('w) = uint x * 2 ^ (k - LENGTH('w)) * 2 ^ LENGTH('w) div 2 ^ LENGTH('w)"
    using False by (simp add: mult.assoc flip: power_add)
  also have "\<dots> = uint x * 2 ^ (k - LENGTH('w))" by simp
  finally show ?thesis using False by simp
qed

lemma shift_values:
  fixes x :: "'w::len word"
  shows "uint (push_bit k x) = uint x * 2 ^ k mod 2 ^ LENGTH('w)"
    and "uint (drop_bit k x) = uint x div 2 ^ k"
    and "sint (signed_drop_bit k x) = sint x div 2 ^ k"
    and "bit (signed_drop_bit k x) 0 \<longleftrightarrow> odd (sint x div 2 ^ k)"
proof -
  show "uint (push_bit k x) = uint x * 2 ^ k mod 2 ^ LENGTH('w)"
    unfolding unsigned_push_bit_eq by (simp add: push_bit_eq_mult take_bit_eq_mod)
  show "uint (drop_bit k x) = uint x div 2 ^ k"
    unfolding unsigned_drop_bit_eq by (simp add: drop_bit_eq_div take_bit_eq_mod)
  show s: "sint (signed_drop_bit k x) = sint x div 2 ^ k"
    unfolding sint_signed_drop_bit_eq by (simp add: drop_bit_eq_div)
  have "bit y 0 \<longleftrightarrow> bit (sint y) 0" for y :: "'w word"
    by (simp add: bit_sint_iff)
  then show "bit (signed_drop_bit k x) 0 \<longleftrightarrow> odd (sint x div 2 ^ k)"
    unfolding s [symmetric] by (simp add: bit_0)
qed

lemma sar_parts:
  fixes x :: "'w::len word"
  assumes "m \<le> LENGTH('w)"
  shows "(if sint x < 0 then drop_bit m x OR push_bit (LENGTH('w) - m) (- 1) else drop_bit m x) =
    signed_drop_bit m x"
proof (rule bit_word_eqI)
  fix n assume n: "n < LENGTH('w)"
  have "sint x < 0 \<longleftrightarrow> bit x (LENGTH('w) - 1)" by (simp add: bit_last_iff)
  then show "bit (if sint x < 0 then drop_bit m x OR push_bit (LENGTH('w) - m) (- 1) else drop_bit m x) n =
    bit (signed_drop_bit m x) n"
    using n assms by (auto simp: bit_signed_drop_bit_iff shift_bits bit_simps bit_beyond)
qed

lemma sar_cap:
  fixes x :: "'w::len word"
  assumes "LENGTH('w) \<le> m"
  shows "signed_drop_bit m x = signed_drop_bit LENGTH('w) x"
    and "bit (signed_drop_bit m x) 0 \<longleftrightarrow> bit (signed_drop_bit (LENGTH('w) - 1) x) 0"
  using assms
  by (auto intro!: bit_word_eqI simp: bit_signed_drop_bit_iff)

definition result_flags :: "bool \<Rightarrow> 'w::len word \<Rightarrow> cpu \<Rightarrow> bool" where
  "result_flags cf x t = (f_CF (lazy_view t) = cf \<and> f_ZF (lazy_view t) = (x = 0) \<and>
     f_SF (lazy_view t) = (sint x < 0) \<and> f_PF (lazy_view t) = even (ones8 (ucast x)))"

definition shl_ok :: "'w::len word \<Rightarrow> nat \<Rightarrow> 'w word \<times> cpu \<Rightarrow> bool" where
  "shl_ok a k out = (case out of (x, t) \<Rightarrow> uint x = uint a * 2 ^ k mod 2 ^ LENGTH('w) \<and>
     result_flags (odd (uint a * 2 ^ k div 2 ^ LENGTH('w))) x t)"

definition shr_ok :: "'w::len word \<Rightarrow> nat \<Rightarrow> 'w word \<times> cpu \<Rightarrow> bool" where
  "shr_ok a k out = (case out of (x, t) \<Rightarrow> uint x = uint a div 2 ^ k \<and>
     result_flags (odd (uint a div 2 ^ (k - 1))) x t)"

definition sar_ok :: "'w::len word \<Rightarrow> nat \<Rightarrow> 'w word \<times> cpu \<Rightarrow> bool" where
  "sar_ok a k out = (case out of (x, t) \<Rightarrow> sint x = sint a div 2 ^ k \<and>
     result_flags (odd (sint a div 2 ^ (k - 1))) x t)"

locale shift_width = lazy_width +
  fixes SHL SHR SAR :: "'w::len word \<Rightarrow> u8 \<Rightarrow> cpu \<Rightarrow> 'w word \<times> cpu"
  assumes SHL: "SHL a n s = (x, t) \<Longrightarrow> x = push_bit (unat n) a \<and> r t = x \<and> v1 t = a \<and>
      lf_var2b t = n \<and> lf_type t = tSHL"
    and SHR: "SHR a n s = (x, t) \<Longrightarrow> x = drop_bit (unat n) a \<and> r t = x \<and> v1 t = a \<and>
      lf_var2b t = n \<and> lf_type t = tSHR"
    and SAR: "SAR a n s = (x, t) \<Longrightarrow> unat n < 32 \<Longrightarrow> x = signed_drop_bit (min (unat n) LENGTH('w)) a \<and>
      r t = x \<and> v1 t = a \<and> unat (lf_var2b t) = min (unat n) LENGTH('w) \<and> lf_type t = tSAR"
begin

lemma shift_pending:
  fixes t :: cpu
  assumes "lf_type t \<in> {tSHL, tSHR, tSAR}"
  shows "get_PF t \<noteq> 0 \<longleftrightarrow> even (ones8 (ucast (r t)))" "get_ZF t \<noteq> 0 \<longleftrightarrow> r t = 0"
    "get_SF t \<noteq> 0 \<longleftrightarrow> sint (r t) < 0"
  using assms pending get_PF_even [of t] ZF_all [of t] SF_all [of t] by (auto simp: low)

lemma SHL_ok:
  assumes "unat n < 32"
  shows "shl_ok a (unat n) (SHL a n s)"
proof -
  obtain x t where o: "SHL a n s = (x, t)" by fastforce
  note S = SHL [OF o]
  have "get_CF t \<noteq> 0 \<longleftrightarrow> odd (uint a * 2 ^ unat n div 2 ^ LENGTH('w))"
    using S assms shl_cf [of t] CF_SHL [of t] by (simp add: shl_carry_int)
  then show ?thesis
    using S shift_pending [of t]
    by (simp add: o shl_ok_def result_flags_def lazy_view_def shift_values(1))
qed

lemma SHR_ok:
  assumes "n \<noteq> 0"
  shows "shr_ok a (unat n) (SHR a n s)"
proof -
  obtain x t where o: "SHR a n s = (x, t)" by fastforce
  note S = SHR [OF o]
  have "get_CF t \<noteq> 0 \<longleftrightarrow> odd (uint a div 2 ^ (unat n - 1))"
    using S CF_SHR [of t] count_pos [OF assms] by (simp add: odd_uint_bit lf_var2b_minus_one_def)
  then show ?thesis
    using S shift_pending [of t]
    by (simp add: o shr_ok_def result_flags_def lazy_view_def shift_values(2))
qed

lemma SAR_ok:
  assumes "n \<noteq> 0" "unat n < 32"
  shows "sar_ok a (unat n) (SAR a n s)"
proof -
  define x t where "x = fst (SAR a n s)" and "t = snd (SAR a n s)"
  have o: "SAR a n s = (x, t)" by (simp add: x_def t_def)
  note S = SAR [OF o assms(2)]
  have "0 < min (unat n) LENGTH('w)" using count_pos(1) [OF assms(1)] by simp
  with S have v: "lf_var2b t \<noteq> 0" by (metis less_irrefl unat_0)
  have m: "unat (lf_var2b_minus_one t) = min (unat n) LENGTH('w) - 1"
    using S count_pos [OF v] by (simp add: lf_var2b_minus_one_def)
  have "signed_drop_bit (min (unat n) LENGTH('w)) a = signed_drop_bit (unat n) a"
    using sar_cap(1) [of "unat n" a] by (cases "unat n \<le> LENGTH('w)") simp_all
  moreover have "bit (signed_drop_bit (min (unat n) LENGTH('w) - 1) a) 0 \<longleftrightarrow>
      bit (signed_drop_bit (unat n - 1) a) 0"
    using sar_cap(2) [of "unat n - 1" a] by (cases "unat n \<le> LENGTH('w)") simp_all
  then have "get_CF t \<noteq> 0 \<longleftrightarrow> odd (sint a div 2 ^ (unat n - 1))"
    using S m CF_SAR [of t] by (simp add: shift_values(4))
  ultimately show ?thesis
    using S shift_pending [of t]
    by (simp add: o sar_ok_def result_flags_def lazy_view_def shift_values(3))
qed

end

lemma sign_masks: "(a::u8) AND 0x80 \<noteq> 0 \<longleftrightarrow> sint a < 0" "(b::u16) AND 0x8000 \<noteq> 0 \<longleftrightarrow> sint b < 0"
  "(c::u32) AND 0x80000000 \<noteq> 0 \<longleftrightarrow> sint c < 0"
  by (simp_all add: mask_bits sign_bits)

lemma count_cap: "unat (if 8 < n then 8 else n) = min (unat n) 8" "unat (if 16 < n then 16 else n) = min (unat n) 16"
  for n :: u8
  by (auto simp: word_less_nat_alt)

lemma sar_law_b:
  assumes "SARB a n s = (x, t)" "unat n < 32"
  shows "x = signed_drop_bit (min (unat n) 8) a \<and> lf_resb t = x \<and> lf_var1b t = a \<and>
    unat (lf_var2b t) = min (unat n) 8 \<and> lf_type t = t_SARb"
  using assms sar_parts [of "min (unat n) 8" a, unfolded all_ones]
  by (cases "8 < n"; cases "sint a < 0")
     (auto simp: SARB_def Let_def lf_view sign_masks word_less_nat_alt min_def)

interpretation byte_shift: shift_width lf_var1b lf_var2b lf_resb
  t_ADDb t_ADCb t_SBBb t_SUBb t_CMPb t_ORb t_ANDb t_XORb t_TESTb
  t_INCb t_DECb t_NEGb t_SHLb t_SHRb t_SARb DOFLAG_ZFb DOFLAG_SFb shl_cf_b
  SHLB SHRB SARB
  by unfold_locales (auto simp: SHLB_def SHRB_def Let_def lf_view dest: sar_law_b)

lemma sar_law_w:
  assumes "SARW a n s = (x, t)" "unat n < 32"
  shows "x = signed_drop_bit (min (unat n) 16) a \<and> lf_resw t = x \<and> lf_var1w t = a \<and>
    unat (lf_var2b t) = min (unat n) 16 \<and> lf_type t = t_SARw"
  using assms sar_parts [of "min (unat n) 16" a, unfolded all_ones]
  by (cases "16 < n"; cases "sint a < 0")
     (auto simp: SARW_def Let_def lf_view sign_masks word_less_nat_alt min_def)

interpretation word_shift: shift_width lf_var1w lf_var2w lf_resw
  t_ADDw t_ADCw t_SBBw t_SUBw t_CMPw t_ORw t_ANDw t_XORw t_TESTw
  t_INCw t_DECw t_NEGw t_SHLw t_SHRw t_SARw DOFLAG_ZFw DOFLAG_SFw shl_cf_w
  SHLW SHRW SARW
  by unfold_locales (auto simp: SHLW_def SHRW_def Let_def lf_view dest: sar_law_w)

lemma sar_law_d:
  assumes "SARD a n s = (x, t)" "unat n < 32"
  shows "x = signed_drop_bit (min (unat n) 32) a \<and> lf_resd t = x \<and> lf_var1d t = a \<and>
    unat (lf_var2b t) = min (unat n) 32 \<and> lf_type t = t_SARd"
  using assms sar_parts [of "min (unat n) 32" a, unfolded all_ones]
  by (cases "32 < n"; cases "sint a < 0")
     (auto simp: SARD_def Let_def lf_view sign_masks word_less_nat_alt min_def)

interpretation dword_shift: shift_width lf_var1d lf_var2d lf_resd
  t_ADDd t_ADCd t_SBBd t_SUBd t_CMPd t_ORd t_ANDd t_XORd t_TESTd
  t_INCd t_DECd t_NEGd t_SHLd t_SHRd t_SARd DOFLAG_ZFd DOFLAG_SFd shl_cf_d
  SHLD SHRD SARD
  by unfold_locales (auto simp: SHLD_def SHRD_def Let_def lf_view dest: sar_law_d)

section \<open>The rotate group\<close>

lemmas grp2_defs = GRP2B_def GRP2W_def GRP2D_def Let_def

lemma rotates_none: "rotates_through (word_rotl 0) a s (None, s)" "rotates_through (word_rotr 0) a s (None, s)"
  by (simp_all add: rotates_through_def rot_0)

lemma grp2_plain:
  "fst (GRP2B 0 n a s) = (if unat (n AND 0x1f) = 0 then None else Some (word_rotl (unat (n AND 0x1f)) a))"
  "fst (GRP2B 1 n a s) = (if unat (n AND 0x1f) = 0 then None else Some (word_rotr (unat (n AND 0x1f)) a))"
  "fst (GRP2W 0 n b s) = (if unat (n AND 0x1f) = 0 then None else Some (word_rotl (unat (n AND 0x1f)) b))"
  "fst (GRP2W 1 n b s) = (if unat (n AND 0x1f) = 0 then None else Some (word_rotr (unat (n AND 0x1f)) b))"
  "fst (GRP2D 0 n c s) = (if unat (n AND 0x1f) = 0 then None else Some (word_rotl (unat (n AND 0x1f)) c))"
  "fst (GRP2D 1 n c s) = (if unat (n AND 0x1f) = 0 then None else Some (word_rotr (unat (n AND 0x1f)) c))"
  using count_lt_32 [of n] by (simp_all add: grp2_defs unat_eq_zero rol_results ror_results)

lemma grp2_carry:
  fixes s :: cpu
  assumes "lf_coherent s"
  shows "rotates_through (word_rotl (unat (n AND 0x1f)) :: 9 word \<Rightarrow> _) a s (GRP2B 2 n a s)"
    "rotates_through (word_rotr (unat (n AND 0x1f)) :: 9 word \<Rightarrow> _) a s (GRP2B 3 n a s)"
    "rotates_through (word_rotl (unat (n AND 0x1f)) :: 17 word \<Rightarrow> _) b s (GRP2W 2 n b s)"
    "rotates_through (word_rotr (unat (n AND 0x1f)) :: 17 word \<Rightarrow> _) b s (GRP2W 3 n b s)"
    "rotates_through (word_rotl (unat (n AND 0x1f)) :: 33 word \<Rightarrow> _) c s (GRP2D 2 n c s)"
    "rotates_through (word_rotr (unat (n AND 0x1f)) :: 33 word \<Rightarrow> _) c s (GRP2D 3 n c s)"
  using rcl_byte [OF assms] rcr_byte [OF assms] rcl_word [OF assms] rcr_word [OF assms]
    rcl_dword [OF assms count_lt_32] rcr_dword [OF assms count_lt_32]
  by (simp_all add: grp2_defs rotates_none)

section \<open>Properties\<close>

text \<open>
  Property C30. The rotate group: with the count masked to five bits, ROL and ROR are the rotations
  of the operand, and RCL and RCR the rotations of the operand extended by the carry (9, 17 and 33
  bits), the carry read from the pending flags and left in the flags. A count that is zero after
  masking changes nothing.
\<close>

theorem grp2_rotates:
  fixes s :: cpu and n :: u8
  assumes "lf_coherent s"
  defines "k \<equiv> unat (n AND 0x1f)"
  shows "fst (GRP2B 0 n a8 s) = (if k = 0 then None else Some (word_rotl k a8)) \<and>
   fst (GRP2B 1 n a8 s) = (if k = 0 then None else Some (word_rotr k a8)) \<and>
   rotates_through (word_rotl k :: 9 word \<Rightarrow> _) a8 s (GRP2B 2 n a8 s) \<and>
   rotates_through (word_rotr k :: 9 word \<Rightarrow> _) a8 s (GRP2B 3 n a8 s) \<and>
   fst (GRP2W 0 n a16 s) = (if k = 0 then None else Some (word_rotl k a16)) \<and>
   fst (GRP2W 1 n a16 s) = (if k = 0 then None else Some (word_rotr k a16)) \<and>
   rotates_through (word_rotl k :: 17 word \<Rightarrow> _) a16 s (GRP2W 2 n a16 s) \<and>
   rotates_through (word_rotr k :: 17 word \<Rightarrow> _) a16 s (GRP2W 3 n a16 s) \<and>
   fst (GRP2D 0 n a32 s) = (if k = 0 then None else Some (word_rotl k a32)) \<and>
   fst (GRP2D 1 n a32 s) = (if k = 0 then None else Some (word_rotr k a32)) \<and>
   rotates_through (word_rotl k :: 33 word \<Rightarrow> _) a32 s (GRP2D 2 n a32 s) \<and>
   rotates_through (word_rotr k :: 33 word \<Rightarrow> _) a32 s (GRP2D 3 n a32 s)"
  unfolding k_def by (intro conjI) (rule grp2_plain grp2_carry [OF assms(1)])+

theorem grp2_rotates_witness:
  "lf_coherent (zero_cpu\<lparr>reg_flags := 1\<rparr>) \<and>
   rotates_through (word_rotl (unat ((3::u8) AND 0x1f)) :: 9 word \<Rightarrow> _) (0x81 :: u8)
     (zero_cpu\<lparr>reg_flags := 1\<rparr>) (GRP2B 2 3 0x81 (zero_cpu\<lparr>reg_flags := 1\<rparr>))"
  using grp2_rotates [of "zero_cpu\<lparr>reg_flags := 1\<rparr>" 3]
  by (simp add: lf_coherent_def zero_cpu_def)

text \<open>
  Property C31. Shifts by 1 to 31: SHL multiplies by a power of two modulo the width, SHR divides
  the unsigned value, SAR the signed value rounding down; the carry is the last bit shifted out,
  and ZF, SF and PF are those of the result, at each width.
\<close>

theorem shifts_arithmetic:
  fixes s :: cpu and n :: u8
  assumes "n \<noteq> 0" and "unat n < 32"
  shows "shl_ok a8 (unat n) (SHLB a8 n s) \<and>
   shr_ok a8 (unat n) (SHRB a8 n s) \<and>
   sar_ok a8 (unat n) (SARB a8 n s) \<and>
   shl_ok a16 (unat n) (SHLW a16 n s) \<and>
   shr_ok a16 (unat n) (SHRW a16 n s) \<and>
   sar_ok a16 (unat n) (SARW a16 n s) \<and>
   shl_ok a32 (unat n) (SHLD a32 n s) \<and>
   shr_ok a32 (unat n) (SHRD a32 n s) \<and>
   sar_ok a32 (unat n) (SARD a32 n s)"
  by (intro conjI)
     (rule byte_shift.SHL_ok byte_shift.SHR_ok byte_shift.SAR_ok word_shift.SHL_ok word_shift.SHR_ok
        word_shift.SAR_ok dword_shift.SHL_ok dword_shift.SHR_ok dword_shift.SAR_ok,
      use assms in simp_all)+

theorem shifts_arithmetic_witness:
  "(3::u8) \<noteq> 0 \<and> unat (3::u8) < 32 \<and> sar_ok (0x81::u8) 3 (SARB 0x81 3 zero_cpu)"
  using shifts_arithmetic [of 3 "0x81" zero_cpu 0 0] by simp

text \<open>
  Property C32. The overflow flag of a logical right shift by one: the register \<^verbatim>\<open>FillFlags\<close> builds
  agrees with the getters unless the operand is exactly the sign bit, where \<^verbatim>\<open>get_OF\<close> reports no
  overflow and \<^verbatim>\<open>FillFlags\<close> sets OF.
\<close>

theorem shr_by_one_overflow:
  fixes s :: cpu
  shows "(fill_ok (snd (SHRB a8 1 s)) \<longleftrightarrow> a8 \<noteq> 0x80) \<and>
   (fill_ok (snd (SHRW a16 1 s)) \<longleftrightarrow> a16 \<noteq> 0x8000) \<and>
   (fill_ok (snd (SHRD a32 1 s)) \<longleftrightarrow> a32 \<noteq> 0x80000000)"
proof -
  have c: "lf_var2w t AND 0x1f = 1 \<longleftrightarrow> lf_var2b t AND 0x1f = 1"
    "lf_var2d t AND 0x1f = 1 \<longleftrightarrow> lf_var2b t AND 0x1f = 1" for t :: cpu
    by (simp_all only: low5)
  show ?thesis
    using byte.fill_ok_SHR_iff [of "snd (SHRB a8 1 s)"] word16.fill_ok_SHR_iff [of "snd (SHRW a16 1 s)"]
      dword.fill_ok_SHR_iff [of "snd (SHRD a32 1 s)"]
    unfolding c by (simp add: SHRB_def SHRW_def SHRD_def Let_def lf_view)
qed

end
