(* ===== verification/Cpu_MulDiv.thy ===== *)
theory Cpu_MulDiv
  imports Cpu_Shift
begin

text \<open>
  Multiplication, division and the decimal instructions: results in the register pairs against
  integer arithmetic, the divide error exactly when the quotient does not fit, packed decimal
  addition, and the unpacked decimal round trip.
\<close>

unbundle bit_operations_syntax

section \<open>Register halves\<close>

lemma high_masks: "(0xff00::u32) = push_bit 8 (mask 8)"
  by (simp add: mask_eq_exp_minus_1 push_bit_eq_mult)

lemma reg_low_views [lf_view]:
  "reg_al (set_reg_al x s) = x" "reg_ax (set_reg_ax y s) = y" "reg_dx (set_reg_dx y s) = y"
  "reg_dx (set_reg_ax y s) = reg_dx s" "reg_ax (set_reg_dx y s) = reg_ax s"
  "reg_al (set_reg_dx y s) = reg_al s" "reg_ah (set_reg_dx y s) = reg_ah s"
  by (simp_all add: reg_al_def reg_ah_def set_reg_al_def reg_ax_def set_reg_ax_def reg_dx_def set_reg_dx_def
      low_set_low)

lemma reg_high_views [lf_view]:
  "reg_ah (set_reg_ah x s) = x" "reg_al (set_reg_ah x s) = reg_al s" "reg_ah (set_reg_al x s) = reg_ah s"
  unfolding reg_ah_def reg_al_def set_reg_ah_def set_reg_al_def low8_set_def high_masks low_masks
  by (rule bit_word_eqI; simp add: bit_simps bit_beyond)+

lemma reg_halves:
  "reg_al s = ucast (reg_ax s)" "reg_ah s = ucast (drop_bit 8 (reg_ax s))"
  unfolding reg_al_def reg_ax_def reg_ah_def by (rule bit_word_eqI; simp add: bit_simps)+

lemma reg_frame [lf_view]:
  "reg_al (SETFLAGBIT m b s) = reg_al s" "reg_ah (SETFLAGBIT m b s) = reg_ah s"
  "reg_ax (SETFLAGBIT m b s) = reg_ax s" "reg_dx (SETFLAGBIT m b s) = reg_dx s"
  "reg_al (s\<lparr>lf_type := k\<rparr>) = reg_al s" "reg_ah (s\<lparr>lf_type := k\<rparr>) = reg_ah s"
  "reg_ax (s\<lparr>lf_type := k\<rparr>) = reg_ax s" "reg_dx (s\<lparr>lf_type := k\<rparr>) = reg_dx s"
  by (simp_all add: reg_al_def reg_ah_def reg_ax_def reg_dx_def)

lemma set_reg_frame [lf_view]:
  "lf_type (set_reg_al x s) = lf_type s" "lf_type (set_reg_ah x s) = lf_type s"
  "lf_type (set_reg_ax y s) = lf_type s" "lf_type (set_reg_dx y s) = lf_type s"
  "reg_flags (set_reg_al x s) = reg_flags s" "reg_flags (set_reg_ah x s) = reg_flags s"
  "reg_flags (set_reg_ax y s) = reg_flags s" "reg_flags (set_reg_dx y s) = reg_flags s"
  "GETFLAG m (set_reg_al x s) = GETFLAG m s" "GETFLAG m (set_reg_ax y s) = GETFLAG m s"
  "GETFLAG m (set_reg_ah x s) = GETFLAG m s" "GETFLAG m (set_reg_dx y s) = GETFLAG m s"
  by (simp_all add: set_reg_al_def set_reg_ah_def set_reg_ax_def set_reg_dx_def GETFLAG_def)

lemma test_flags_frame [lf_view]:
  "reg_eax (set_cpu_test_flags_for_division g q s) = reg_eax s"
  "reg_edx (set_cpu_test_flags_for_division g q s) = reg_edx s"
  "lf_type (set_cpu_test_flags_for_division g q s) = t_UNKNOWN"
  by (simp_all add: set_cpu_test_flags_for_division_def ApplyTestFlags_def)

lemma test_flags_regs [lf_view]:
  "reg_al (set_cpu_test_flags_for_division g q s) = reg_al s"
  "reg_ah (set_cpu_test_flags_for_division g q s) = reg_ah s"
  "reg_ax (set_cpu_test_flags_for_division g q s) = reg_ax s"
  "reg_dx (set_cpu_test_flags_for_division g q s) = reg_dx s"
  by (simp_all add: reg_al_def reg_ah_def reg_ax_def reg_dx_def lf_view)

lemma DOFLAG_frame:
  "reg_eax (DOFLAG_PF s) = reg_eax s" "reg_eax (DOFLAG_AF s) = reg_eax s"
  "reg_eax (DOFLAG_ZFb s) = reg_eax s" "reg_eax (DOFLAG_ZFw s) = reg_eax s" "reg_eax (DOFLAG_ZFd s) = reg_eax s"
  "reg_eax (DOFLAG_SFb s) = reg_eax s" "reg_eax (DOFLAG_SFw s) = reg_eax s" "reg_eax (DOFLAG_SFd s) = reg_eax s"
  "reg_edx (DOFLAG_PF s) = reg_edx s" "reg_edx (DOFLAG_AF s) = reg_edx s"
  "reg_edx (DOFLAG_ZFb s) = reg_edx s" "reg_edx (DOFLAG_ZFw s) = reg_edx s" "reg_edx (DOFLAG_ZFd s) = reg_edx s"
  "reg_edx (DOFLAG_SFb s) = reg_edx s" "reg_edx (DOFLAG_SFw s) = reg_edx s" "reg_edx (DOFLAG_SFd s) = reg_edx s"
  by (simp_all add: DOFLAG_SETFLAGBIT)

lemma nofill_frame [lf_view]:
  "reg_eax (FillFlagsNoCFOF s) = reg_eax s" "reg_edx (FillFlagsNoCFOF s) = reg_edx s"
  "lf_type (FillFlagsNoCFOF s) = t_UNKNOWN"
  by (cases "lf_type s"; simp add: FillFlagsNoCFOF_defs DOFLAG_frame)+

lemma nofill_regs [lf_view]:
  "reg_al (FillFlagsNoCFOF s) = reg_al s" "reg_ax (FillFlagsNoCFOF s) = reg_ax s"
  "reg_dx (FillFlagsNoCFOF s) = reg_dx s"
  by (simp_all add: reg_al_def reg_ax_def reg_dx_def lf_view)

section \<open>Unsigned division\<close>

definition div_ok :: "nat \<Rightarrow> int \<Rightarrow> int \<Rightarrow> (cpu \<Rightarrow> int) \<Rightarrow> (cpu \<Rightarrow> int) \<Rightarrow> alu_error + cpu \<Rightarrow> bool" where
  "div_ok width num val quo rem out = (case out of
     Inl e \<Rightarrow> e = DivideError \<and> (val = 0 \<or> 2 ^ width \<le> num div val)
   | Inr t \<Rightarrow> val \<noteq> 0 \<and> num div val < 2 ^ width \<and> quo t = num div val \<and> rem t = num mod val)"

lemma ucast_small:
  fixes x :: u64
  shows "uint (ucast (x AND 0xff) :: u8) = uint x mod 2 ^ 8"
    "uint (ucast (x AND 0xffff) :: u16) = uint x mod 2 ^ 16"
    "uint (ucast (x AND 0xffffffff) :: u32) = uint x mod 2 ^ 32"
proof -
  have "x AND 0xff = take_bit 8 x" "x AND 0xffff = take_bit 16 x" "x AND 0xffffffff = take_bit 32 x"
    by (simp_all add: take_bit_eq_mask mask_eq_exp_minus_1)
  then show "uint (ucast (x AND 0xff) :: u8) = uint x mod 2 ^ 8"
    "uint (ucast (x AND 0xffff) :: u16) = uint x mod 2 ^ 16"
    "uint (ucast (x AND 0xffffffff) :: u32) = uint x mod 2 ^ 32"
    by (simp_all only: unsigned_ucast_eq unsigned_take_bit_eq) (simp_all add: take_bit_eq_mod mod_mod_cancel)
qed

lemma pair_value:
  "uint (push_bit 16 (ucast (h::u16) :: u32) OR ucast (l::u16)) = uint h * 2 ^ 16 + uint l"
  "uint (push_bit 32 (ucast (h'::u32) :: u64) OR ucast (l'::u32)) = uint h' * 2 ^ 32 + uint l'"
proof -
  have "push_bit 16 (ucast h :: u32) OR ucast l = push_bit 16 (ucast h) + ucast l"
    by (rule disjunctive_add_eq_or [symmetric], rule bit_eqI) (auto simp: bit_simps bit_beyond)
  moreover have "push_bit 32 (ucast h' :: u64) OR ucast l' = push_bit 32 (ucast h') + ucast l'"
    by (rule disjunctive_add_eq_or [symmetric], rule bit_eqI) (auto simp: bit_simps bit_beyond)
  moreover have "uint h < 2 ^ 16" "uint l < 2 ^ 16" "uint h' < 2 ^ 32" "uint l' < 2 ^ 32"
    using uint_lt2p [of h] uint_lt2p [of l] uint_lt2p [of h'] uint_lt2p [of l'] by simp_all
  ultimately show "uint (push_bit 16 (ucast h :: u32) OR ucast l) = uint h * 2 ^ 16 + uint l"
    "uint (push_bit 32 (ucast h' :: u64) OR ucast l') = uint h' * 2 ^ 32 + uint l'"
    by (simp_all add: uint_word_ariths push_bit_eq_mult unsigned_ucast_eq take_bit_eq_mod
        mod_pos_pos_trivial)
qed

lemma div_narrow:
  fixes num val :: u64
  assumes "val \<noteq> 0"
  shows "uint val \<noteq> 0" "uint (num div val) = uint num div uint val" "uint (num mod val) = uint num mod uint val"
  using assms by (simp_all add: uint_div uint_mod uint_0_iff)

lemma uint_up:
  fixes x :: "'w::len word"
  assumes "LENGTH('w) \<le> LENGTH('v::len)"
  shows "uint (ucast x :: 'v word) = uint x"
proof -
  have "uint x < 2 ^ LENGTH('v)"
    using uint_lt2p [of x] assms by (meson less_le_trans one_le_numeral power_increasing)
  then show ?thesis by (simp add: unsigned_ucast_eq take_bit_eq_mod mod_pos_pos_trivial)
qed

text \<open>The quotient and remainder computed in 64 bits and narrowed to the width of the divisor.\<close>

lemma div_narrowed:
  fixes num :: u64 and v :: "'w::len word"
  assumes "LENGTH('w) \<le> 64" and "v \<noteq> 0"
  defines "val \<equiv> ucast v :: u64"
  shows "val \<noteq> 0" and "uint (num div val) = uint num div uint v"
    and "uint (ucast (num mod val) :: 'w word) = uint num mod uint v"
    and "uint num div uint v mod 2 ^ LENGTH('w) = uint num div uint v \<longleftrightarrow>
      uint num div uint v < 2 ^ LENGTH('w)"
proof -
  have u: "uint val = uint v" using assms(1) by (simp add: val_def uint_up)
  show z: "val \<noteq> 0" using assms u by (simp add: word_uint_eq_iff)
  note d = div_narrow(1) [OF z, unfolded u] div_narrow(2,3) [OF z, of num, unfolded u]
  show "uint (num div val) = uint num div uint v" by (rule d)
  have "0 < uint v" using assms(2) by (simp add: word_neq_0_uint)
  then have "uint num mod uint v < uint v" "0 \<le> uint num mod uint v" by simp_all
  then have "uint num mod uint v mod 2 ^ LENGTH('w) = uint num mod uint v"
    using uint_lt2p [of v] by (intro mod_pos_pos_trivial) linarith+
  then show "uint (ucast (num mod val) :: 'w word) = uint num mod uint v"
    by (simp only: unsigned_ucast_eq take_bit_eq_mod d)
  have "0 \<le> uint num div uint v" using uint_ge_0 [of v] by (simp add: div_int_pos_iff)
  then show "uint num div uint v mod 2 ^ LENGTH('w) = uint num div uint v \<longleftrightarrow>
      uint num div uint v < 2 ^ LENGTH('w)"
    by (metis mod_pos_pos_trivial pos_mod_bound zero_less_numeral zero_less_power)
qed

lemma DIVB_ok:
  "div_ok 8 (uint (reg_ax s)) (uint v) (\<lambda>t. uint (reg_al t)) (\<lambda>t. uint (reg_ah t)) (DIVB v s)"
proof (cases "v = 0")
  case False
  have n: "uint (ucast (reg_ax s) :: u64) = uint (reg_ax s)" by (simp add: uint_up)
  note d = div_narrowed(1) [OF _ False, simplified] div_narrowed(2-4) [OF _ False, of "ucast (reg_ax s)", unfolded n, simplified]
  show ?thesis
    using False d word_neq_0_uint [of v]
    by (auto simp: div_ok_def DIVB_def Let_def lf_view word_less_def ucast_small)
qed (simp add: div_ok_def DIVB_def)

lemma DIVW_ok:
  "div_ok 16 (uint (reg_dx s) * 2 ^ 16 + uint (reg_ax s)) (uint v)
     (\<lambda>t. uint (reg_ax t)) (\<lambda>t. uint (reg_dx t)) (DIVW v s)"
proof (cases "v = 0")
  case False
  have n: "uint (ucast (push_bit 16 (ucast (reg_dx s) :: u32) OR ucast (reg_ax s)) :: u64) =
      uint (reg_dx s) * 2 ^ 16 + uint (reg_ax s)"
    by (subst uint_up) (simp_all only: pair_value, simp)
  note d = div_narrowed(1) [OF _ False, simplified] div_narrowed(2-4) [OF _ False, of "ucast (push_bit 16 (ucast (reg_dx s) :: u32) OR ucast (reg_ax s))",
      unfolded n, simplified]
  show ?thesis
    using False d
    by (auto simp: div_ok_def DIVW_def Let_def lf_view word_uint_eq_iff ucast_small uint_up)
qed (simp add: div_ok_def DIVW_def)

lemma DIVD_ok:
  "div_ok 32 (uint (reg_edx s) * 2 ^ 32 + uint (reg_eax s)) (uint v)
     (\<lambda>t. uint (reg_eax t)) (\<lambda>t. uint (reg_edx t)) (DIVD v s)"
proof (cases "v = 0")
  case False
  note d = div_narrowed(1) [OF _ False, simplified] div_narrowed(2-4) [OF _ False, of "push_bit 32 (ucast (reg_edx s) :: u64) OR ucast (reg_eax s)",
      unfolded pair_value, simplified]
  show ?thesis
    using False d
    by (auto simp: div_ok_def DIVD_def Let_def lf_view word_uint_eq_iff ucast_small uint_up)
qed (simp add: div_ok_def DIVD_def)

section \<open>Signed division\<close>

definition idiv_ok :: "nat \<Rightarrow> int \<Rightarrow> int \<Rightarrow> (cpu \<Rightarrow> int) \<Rightarrow> (cpu \<Rightarrow> int) \<Rightarrow> alu_error + cpu \<Rightarrow> bool" where
  "idiv_ok width num val quo rem out = (case out of
     Inl DivideError \<Rightarrow> val = 0 \<or> \<not> in_range width (num sdiv val)
   | Inl HostUndefined \<Rightarrow> num = - (2 ^ (2 * width - 1)) \<and> val = - 1
   | Inr t \<Rightarrow> val \<noteq> 0 \<and> in_range width (num sdiv val) \<and> quo t = num sdiv val \<and> rem t = num smod val)"

lemma sint_word_of_int_in_range:
  "sint (word_of_int v :: 'w::len word) = v \<longleftrightarrow> in_range LENGTH('w) v"
proof -
  have "sint (word_of_int v :: 'w word) = signed_take_bit (LENGTH('w) - 1) v"
    by (simp add: signed_of_int)
  then show ?thesis by (simp add: signed_take_bit_int_eq_self_iff in_range_def)
qed

lemma smod_in_range:
  fixes v :: "'w::len word"
  assumes "sint v \<noteq> 0"
  shows "in_range LENGTH('w) (num smod sint v)"
  using smod_int_range [OF assms, of num] sint_bounds [of v] by (auto simp: in_range_def)

lemma pair_cat:
  "push_bit 16 (ucast (h::u16) :: u32) OR ucast (l::u16) = word_cat h l"
  "push_bit 32 (ucast (h'::u32) :: u64) OR ucast (l'::u32) = word_cat h' l'"
  by (rule bit_word_eqI; simp add: bit_simps bit_word_cat_iff bit_beyond; linarith?)+

lemma IDIVB_ok:
  "idiv_ok 8 (sint (reg_ax s)) (sint v) (\<lambda>t. sint (reg_al t)) (\<lambda>t. sint (reg_ah t)) (IDIVB v s)"
  using sint_word_of_int_in_range [where 'w = 8, of "sint (reg_ax s) sdiv sint v"]
    sint_word_of_int_in_range [where 'w = 8, of "sint (reg_ax s) smod sint v"]
    smod_in_range [of v "sint (reg_ax s)"]
  by (auto simp: idiv_ok_def IDIVB_def Let_def lf_view)

lemma IDIVW_ok:
  "idiv_ok 16 (sint (word_cat (reg_dx s) (reg_ax s) :: u32)) (sint v)
     (\<lambda>t. sint (reg_ax t)) (\<lambda>t. sint (reg_dx t)) (IDIVW v s)"
  using sint_word_of_int_in_range [where 'w = 16, of "sint (word_cat (reg_dx s) (reg_ax s) :: u32) sdiv sint v"]
    sint_word_of_int_in_range [where 'w = 16, of "sint (word_cat (reg_dx s) (reg_ax s) :: u32) smod sint v"]
    smod_in_range [of v "sint (word_cat (reg_dx s) (reg_ax s) :: u32)"]
  by (auto simp: idiv_ok_def IDIVW_def Let_def lf_view pair_cat)

lemma IDIVD_ok:
  "idiv_ok 32 (sint (word_cat (reg_edx s) (reg_eax s) :: u64)) (sint v)
     (\<lambda>t. sint (reg_eax t)) (\<lambda>t. sint (reg_edx t)) (IDIVD v s)"
  using sint_word_of_int_in_range [where 'w = 32, of "sint (word_cat (reg_edx s) (reg_eax s) :: u64) sdiv sint v"]
    sint_word_of_int_in_range [where 'w = 32, of "sint (word_cat (reg_edx s) (reg_eax s) :: u64) smod sint v"]
    smod_in_range [of v "sint (word_cat (reg_edx s) (reg_eax s) :: u64)"]
  by (auto simp: idiv_ok_def IDIVD_def Let_def lf_view pair_cat)

section \<open>Multiplication\<close>

definition carry_overflow :: "bool \<Rightarrow> cpu \<Rightarrow> bool" where
  "carry_overflow b t = ((get_CF t \<noteq> 0) = b \<and> (get_OF t \<noteq> 0) = b)"

lemma set_CF_OF_flags:
  "lf_type t = t_UNKNOWN \<Longrightarrow> carry_overflow b (set_CF_OF b t)"
  by (simp add: carry_overflow_def set_CF_OF_def get_CF_def get_OF_def)

lemma set_CF_OF_frame [lf_view]:
  "reg_eax (set_CF_OF b t) = reg_eax t" "reg_edx (set_CF_OF b t) = reg_edx t"
  "reg_al (set_CF_OF b t) = reg_al t" "reg_ax (set_CF_OF b t) = reg_ax t" "reg_dx (set_CF_OF b t) = reg_dx t"
  by (simp_all add: set_CF_OF_def lf_view)

lemma product_bounds:
  fixes a b :: "'w::len word"
  shows "0 \<le> uint a * uint b" "uint a * uint b < 2 ^ (2 * LENGTH('w))"
proof -
  show "0 \<le> uint a * uint b" by simp
  have "uint a * uint b < 2 ^ LENGTH('w) * 2 ^ LENGTH('w)"
    using uint_lt2p [of a] uint_lt2p [of b] by (intro mult_strict_mono') simp_all
  then show "uint a * uint b < 2 ^ (2 * LENGTH('w))" by (simp add: mult_2 power_add)
qed

lemma wide_product:
  fixes a b :: "'w::len word"
  assumes "LENGTH('v::len) = 2 * LENGTH('w)"
  shows "uint (ucast a * ucast b :: 'v word) = uint a * uint b"
proof -
  have "uint (ucast a * ucast b :: 'v word) = uint a * uint b mod 2 ^ LENGTH('v)"
    using assms by (simp add: uint_word_ariths uint_up)
  also have "\<dots> = uint a * uint b" using product_bounds [of a b] assms by (intro mod_pos_pos_trivial) simp_all
  finally show ?thesis .
qed

lemma high_half:
  fixes x :: "'v::len word"
  assumes "LENGTH('v) = 2 * LENGTH('w::len)"
  shows "uint (ucast x :: 'w word) + uint (ucast (drop_bit LENGTH('w) x) :: 'w word) * 2 ^ LENGTH('w) = uint x"
proof -
  have "uint x < 2 ^ LENGTH('w) * 2 ^ LENGTH('w)"
    using uint_lt2p [of x] assms by (simp add: mult_2 power_add)
  moreover have "uint x div 2 ^ LENGTH('w) * 2 ^ LENGTH('w) \<le> uint x"
    by (simp flip: minus_mod_eq_div_mult)
  ultimately have "uint x div 2 ^ LENGTH('w) * 2 ^ LENGTH('w) < 2 ^ LENGTH('w) * 2 ^ LENGTH('w)" by linarith
  then have "uint x div 2 ^ LENGTH('w) < 2 ^ LENGTH('w)" by (simp only: mult_less_cancel_right_pos zero_less_power zero_less_numeral)
  then have "uint (ucast (drop_bit LENGTH('w) x) :: 'w word) = uint x div 2 ^ LENGTH('w)"
    by (simp add: unsigned_ucast_eq take_bit_eq_mod shift_values(2) mod_pos_pos_trivial div_int_pos_iff)
  moreover have "uint (ucast x :: 'w word) = uint x mod 2 ^ LENGTH('w)"
    by (simp add: unsigned_ucast_eq take_bit_eq_mod)
  ultimately show ?thesis by (simp add: mod_mult_div_eq mult.commute add.commute)
qed

lemma and_not_mask_0:
  fixes x :: "'v::len word"
  shows "x AND NOT (mask k) = 0 \<longleftrightarrow> uint x < 2 ^ k"
proof -
  have z: "x AND NOT (mask k) = push_bit k (drop_bit k x)" "drop_bit k (x AND NOT (mask k)) = drop_bit k x"
    by (rule bit_word_eqI; auto simp: bit_simps bit_beyond dest: bit_imp_le_length)+
  have "x AND NOT (mask k) = 0 \<longleftrightarrow> drop_bit k x = 0" using z by auto
  also have "\<dots> \<longleftrightarrow> uint x div 2 ^ k = 0" by (simp add: word_uint_eq_iff shift_values(2))
  also have "\<dots> \<longleftrightarrow> uint x < 2 ^ k" using uint_ge_0 [of x] by (auto simp: zdiv_eq_0_iff)
  finally show ?thesis .
qed

lemma sint_not: "sint (NOT x) = - sint x - 1" for x :: "'v::len word"
proof -
  have "in_range LENGTH('v) (- sint x - 1)" using sint_bounds [of x] by (auto simp: in_range_def)
  then have "sint (word_of_int (- sint x - 1) :: 'v word) = - sint x - 1"
    by (simp only: sint_word_of_int_in_range)
  then show ?thesis by (simp add: not_eq_complement)
qed

lemma and_not_mask_signed:
  fixes x :: "'v::len word"
  assumes "k < LENGTH('v)"
  shows "x AND NOT (mask k) = 0 \<longleftrightarrow> 0 \<le> sint x \<and> sint x < 2 ^ k"
    and "x AND NOT (mask k) = NOT (mask k) \<longleftrightarrow> - (2 ^ k) \<le> sint x \<and> sint x < 0"
proof -
  have a: "y AND NOT (mask k) = 0 \<longleftrightarrow> 0 \<le> sint y \<and> sint y < 2 ^ k" for y :: "'v word"
  proof -
    have "y AND NOT (mask k) = 0 \<longleftrightarrow> signed_drop_bit k y = 0"
    proof
      assume z: "y AND NOT (mask k) = 0"
      have "\<not> bit y n" if "k \<le> n" for n
        using z that by (metis bit_0_eq bit_and_iff bit_mask_iff bit_not_iff bit_beyond bot_apply bot_bool_def linorder_not_less possible_bit_word)
      then show "signed_drop_bit k y = 0"
        using assms by (intro bit_word_eqI) (simp add: bit_signed_drop_bit_iff)
    next
      assume z: "signed_drop_bit k y = 0"
      show "y AND NOT (mask k) = 0"
      proof (rule bit_word_eqI)
        fix n assume n: "n < LENGTH('v)"
        have "bit (signed_drop_bit k y) (n - k) = bit y n" if "k \<le> n"
          using that n assms by (auto simp: bit_signed_drop_bit_iff)
        with z n show "bit (y AND NOT (mask k)) n = bit 0 n"
          by (cases "k \<le> n") (auto simp: bit_simps)
      qed
    qed
    also have "\<dots> \<longleftrightarrow> sint y div 2 ^ k = 0"
      using shift_values(3) [of k y] by (metis signed_0 signed_word_eqI)
    finally show ?thesis using zero_less_power [of "2::int" k] unfolding zdiv_eq_0_iff by linarith
  qed
  show "x AND NOT (mask k) = 0 \<longleftrightarrow> 0 \<le> sint x \<and> sint x < 2 ^ k" by (rule a)
  have "x AND NOT (mask k) = NOT (mask k) \<longleftrightarrow> NOT x AND NOT (mask k) = 0"
    by (auto simp: bit_eq_iff [where ?'a = "'v word"] bit_simps)
  also have "\<dots> \<longleftrightarrow> 0 \<le> - sint x - 1 \<and> - sint x - 1 < 2 ^ k"
    by (simp only: a sint_not)
  finally show "x AND NOT (mask k) = NOT (mask k) \<longleftrightarrow> - (2 ^ k) \<le> sint x \<and> sint x < 0" by auto
qed

lemma fits_signed:
  fixes x :: "'v::len word"
  assumes "k < LENGTH('v)"
  shows "x AND NOT (mask k) = NOT (mask k) \<or> x AND NOT (mask k) = 0 \<longleftrightarrow> in_range (Suc k) (sint x)"
  unfolding and_not_mask_signed [OF assms] in_range_def
  using zero_less_power [of "2::int" k] by (simp only: diff_Suc_1) linarith

lemma mul_masks:
  "(0xff00::u16) = NOT (mask 8)" "(0xff80::u16) = NOT (mask 7)" "(0xffff8000::u32) = NOT (mask 15)"
  "(0x80000000::u32) = NOT (mask 31)"
  by code_simp+

lemma double_power: "0 < n \<Longrightarrow> (2::int) ^ (2 * n - 1) = 2 ^ (n - 1) * 2 ^ n"
proof -
  assume "0 < n"
  then have "2 * n - 1 = (n - 1) + n" by simp
  then show ?thesis by (simp only: power_add)
qed

lemma sint_product_bounds:
  fixes a b :: "'w::len word"
  assumes "LENGTH('v::len) = 2 * LENGTH('w)"
  shows "in_range LENGTH('v) (sint a * sint b)"
proof -
  define M :: int where "M = 2 ^ (LENGTH('w) - 1)"
  have "\<bar>sint a\<bar> \<le> M" "\<bar>sint b\<bar> \<le> M" using sint_bounds [of a] sint_bounds [of b] by (auto simp: M_def)
  then have "\<bar>sint a * sint b\<bar> \<le> M * M" unfolding abs_mult by (intro mult_mono) auto
  moreover have "2 ^ (LENGTH('v) - 1) = M * M * 2"
    unfolding assms unfolding double_power [OF len_gt_0] two_power_half M_def by simp
  moreover have "0 < M * M" by (simp add: M_def)
  ultimately show ?thesis unfolding in_range_def by linarith
qed

lemma wide_signed_product:
  fixes a b :: "'w::len word"
  assumes "LENGTH('v::len) = 2 * LENGTH('w)"
  shows "sint (scast a * scast b :: 'v word) = sint a * sint b"
proof -
  have "scast a * scast b = (word_of_int (sint a * sint b) :: 'v word)"
    unfolding scast_eq by (simp only: of_int_mult)
  with sint_product_bounds [OF assms, of a b] show ?thesis
    by (simp only: sint_word_of_int_in_range)
qed

lemma ucast_down:
  fixes x :: "'v::len word"
  assumes "LENGTH('w::len) \<le> LENGTH('v)"
  shows "(ucast x :: 'w word) = word_of_int (sint x)"
proof -
  have "is_down (ucast :: 'v word \<Rightarrow> 'w word)" using assms by (simp add: is_down)
  from ucast_down_wi [OF this, of "sint x"] show ?thesis by simp
qed

lemma signed_halves:
  fixes x :: "'v::len word"
  assumes "LENGTH('v) = 2 * LENGTH('w::len)"
  shows "sint (ucast (signed_drop_bit LENGTH('w) x) :: 'w word) = sint x div 2 ^ LENGTH('w)"
    and "uint (ucast x :: 'w word) = sint x mod 2 ^ LENGTH('w)"
proof -
  define N :: int where "N = 2 ^ LENGTH('w)"
  define M :: int where "M = 2 ^ (LENGTH('w) - 1)"
  have N: "0 < N" by (simp add: N_def)
  have V: "2 ^ (LENGTH('v) - 1) = M * N"
    unfolding assms N_def M_def by (simp only: double_power len_gt_0)
  have b: "(- M) * N \<le> sint x" "sint x < M * N" using sint_bounds [of x] V by simp_all
  have "sint x div N * N \<le> sint x" "sint x < (sint x div N + 1) * N"
    using N pos_mod_bound [OF N, of "sint x"] pos_mod_sign [OF N, of "sint x"]
      div_mult_mod_eq [of "sint x" N] unfolding distrib_right by linarith+
  with b have "sint x div N * N < M * N" "(- M) * N < (sint x div N + 1) * N" by linarith+
  then have "sint x div N < M" "- M < sint x div N + 1"
    using N by (simp_all only: mult_less_cancel_right_pos)
  then have "in_range LENGTH('w) (sint x div N)" by (simp add: in_range_def M_def)
  moreover have "(ucast (signed_drop_bit LENGTH('w) x) :: 'w word) = word_of_int (sint x div N)"
    using assms by (simp add: ucast_down shift_values(3) N_def)
  ultimately show "sint (ucast (signed_drop_bit LENGTH('w) x) :: 'w word) = sint x div 2 ^ LENGTH('w)"
    unfolding N_def [symmetric] by (simp only: sint_word_of_int_in_range)
  show "uint (ucast x :: 'w word) = sint x mod 2 ^ LENGTH('w)"
    using assms by (subst ucast_down) (simp_all only: unsigned_of_int take_bit_eq_mod, simp)
qed

lemma high_pos_int:
  fixes A B X N :: int
  assumes "A + B * N = X" "0 \<le> A" "A < N" "0 \<le> B"
  shows "0 < B \<longleftrightarrow> N \<le> X"
proof -
  have "N \<le> B * N" if "0 < B" using that assms mult_right_mono [of 1 B N] by simp
  moreover have "B * N = 0" if "\<not> 0 < B" using that assms by simp
  ultimately show ?thesis using assms by linarith
qed

lemma fits32_int:
  fixes L H :: int
  assumes "0 \<le> L" "L < 2 ^ 32"
  shows "H = - 1 \<and> 2 ^ 31 \<le> L \<or> H = 0 \<and> L < 2 ^ 31 \<longleftrightarrow> - (2 ^ 31) \<le> H * 2 ^ 32 + L \<and> H * 2 ^ 32 + L < 2 ^ 31"
  using assms by auto

lemma MULB_ok: "uint (reg_ax (MULB v s)) = uint (reg_al s) * uint v \<and>
    carry_overflow (2 ^ 8 \<le> uint (reg_al s) * uint v) (MULB v s)"
proof -
  define x :: u16 where "x = ucast (reg_al s) * ucast v"
  have u: "uint x = uint (reg_al s) * uint v" unfolding x_def by (rule wide_product) simp
  have h: "x AND 0xff00 \<noteq> 0 \<longleftrightarrow> 2 ^ 8 \<le> uint x"
    unfolding mul_masks and_not_mask_0 by linarith
  show ?thesis
    unfolding u [symmetric] h [symmetric]
    by (simp add: MULB_def lf_view set_CF_OF_flags flip: x_def)
qed

lemma MULW_ok: "uint (reg_ax (MULW v s)) + uint (reg_dx (MULW v s)) * 2 ^ 16 = uint (reg_ax s) * uint v \<and>
    carry_overflow (2 ^ 16 \<le> uint (reg_ax s) * uint v) (MULW v s)"
proof -
  define x :: u32 where "x = ucast (reg_ax s) * ucast v"
  have u: "uint x = uint (reg_ax s) * uint v" unfolding x_def by (rule wide_product) simp
  note h = high_half [where 'w = 16, of x, simplified]
  have c: "(ucast (drop_bit 16 x) :: u16) \<noteq> 0 \<longleftrightarrow> 2 ^ 16 \<le> uint x"
    unfolding word_neq_0_uint
    by (rule high_pos_int [of "uint (ucast x :: u16)"])
       (use h uint_lt2p [of "ucast x :: u16"] in simp_all)
  show ?thesis
    unfolding u [symmetric] c [symmetric] using h
    by (simp add: MULW_def Let_def lf_view set_CF_OF_flags flip: x_def)
qed

lemma MULD_ok: "uint (reg_eax (MULD v s)) + uint (reg_edx (MULD v s)) * 2 ^ 32 = uint (reg_eax s) * uint v \<and>
    carry_overflow (2 ^ 32 \<le> uint (reg_eax s) * uint v) (MULD v s)"
proof -
  define x :: u64 where "x = ucast (reg_eax s) * ucast v"
  have u: "uint x = uint (reg_eax s) * uint v" unfolding x_def by (rule wide_product) simp
  note h = high_half [where 'w = 32, of x, simplified]
  have c: "(ucast (drop_bit 32 x) :: u32) \<noteq> 0 \<longleftrightarrow> 2 ^ 32 \<le> uint x"
    unfolding word_neq_0_uint
    by (rule high_pos_int [of "uint (ucast x :: u32)"])
       (use h uint_lt2p [of "ucast x :: u32"] in simp_all)
  show ?thesis
    unfolding u [symmetric] c [symmetric] using h
    by (simp add: MULD_def Let_def lf_view set_CF_OF_flags flip: x_def)
qed

lemma IMULB_ok: "sint (reg_ax (IMULB v s)) = sint (reg_al s) * sint v \<and>
    carry_overflow (\<not> in_range 8 (sint (reg_al s) * sint v)) (IMULB v s)"
proof -
  define x :: u16 where "x = scast (reg_al s) * scast v"
  have u: "sint x = sint (reg_al s) * sint v" unfolding x_def by (rule wide_signed_product) simp
  have c: "x AND 0xff80 = 0xff80 \<or> x AND 0xff80 = 0 \<longleftrightarrow> in_range 8 (sint x)"
    unfolding mul_masks using fits_signed [of 7 x] by simp
  show ?thesis
    unfolding u [symmetric] c [symmetric]
    by (simp add: IMULB_def lf_view set_CF_OF_flags flip: x_def)
qed

lemma signed_pair:
  fixes x :: "'v::len word"
  assumes "LENGTH('v) = 2 * LENGTH('w::len)"
  shows "sint (ucast (signed_drop_bit LENGTH('w) x) :: 'w word) * 2 ^ LENGTH('w) + uint (ucast x :: 'w word) = sint x"
  unfolding signed_halves [OF assms] by (rule div_mult_mod_eq)

lemma IMULW_ok: "sint (reg_dx (IMULW v s)) * 2 ^ 16 + uint (reg_ax (IMULW v s)) = sint (reg_ax s) * sint v \<and>
    carry_overflow (\<not> in_range 16 (sint (reg_ax s) * sint v)) (IMULW v s)"
proof -
  define x :: u32 where "x = scast (reg_ax s) * scast v"
  have u: "sint x = sint (reg_ax s) * sint v" unfolding x_def by (rule wide_signed_product) simp
  have c: "x AND 0xffff8000 = 0xffff8000 \<or> x AND 0xffff8000 = 0 \<longleftrightarrow> in_range 16 (sint x)"
    unfolding mul_masks using fits_signed [of 15 x] by simp
  show ?thesis
    unfolding u [symmetric] c [symmetric] using signed_pair [where 'w = 16, of x]
    by (simp add: IMULW_def Let_def lf_view set_CF_OF_flags flip: x_def)
qed

lemma IMULD_ok: "sint (reg_edx (IMULD v s)) * 2 ^ 32 + uint (reg_eax (IMULD v s)) = sint (reg_eax s) * sint v \<and>
    carry_overflow (\<not> in_range 32 (sint (reg_eax s) * sint v)) (IMULD v s)"
proof -
  define x :: u64 where "x = scast (reg_eax s) * scast v"
  define hi lo :: u32 where "hi = ucast (signed_drop_bit 32 x)" and "lo = ucast x"
  have u: "sint x = sint (reg_eax s) * sint v" unfolding x_def by (rule wide_signed_product) simp
  have p: "sint hi * 2 ^ 32 + uint lo = sint x"
    using signed_pair [where 'w = 32, of x] by (simp add: hi_def lo_def)
  have hi: "hi = 0xffffffff \<longleftrightarrow> sint hi = - 1" "hi = 0 \<longleftrightarrow> sint hi = 0"
    by (auto intro: signed_word_eqI)
  have lo: "lo AND 0x80000000 \<noteq> 0 \<longleftrightarrow> 2 ^ 31 \<le> uint lo" "lo < 0x80000000 \<longleftrightarrow> uint lo < 2 ^ 31"
    unfolding mul_masks and_not_mask_0 by (simp_all add: word_less_def linorder_not_less mask_eq_exp_minus_1)
  have c: "hi = 0xffffffff \<and> lo AND 0x80000000 \<noteq> 0 \<or> hi = 0 \<and> lo < 0x80000000 \<longleftrightarrow> in_range 32 (sint x)"
    unfolding hi lo in_range_def p [symmetric]
    using fits32_int [of "uint lo" "sint hi"] uint_lt2p [of lo] by simp
  have "reg_edx (IMULD v s) = hi" "reg_eax (IMULD v s) = lo"
    by (simp_all add: IMULD_def Let_def lf_view flip: x_def hi_def lo_def)
  moreover have "carry_overflow (\<not> (hi = 0xffffffff \<and> lo AND 0x80000000 \<noteq> 0 \<or> hi = 0 \<and> lo < 0x80000000))
      (IMULD v s)"
    by (simp add: IMULD_def Let_def lf_view set_CF_OF_flags flip: x_def hi_def lo_def)
  ultimately show ?thesis unfolding u [symmetric] c using p by simp
qed

lemma DIMULD_ok: "case DIMULD a b s of (x, t) \<Rightarrow>
    x = a * b \<and> carry_overflow (\<not> in_range 32 (sint a * sint b)) t"
proof -
  define x :: u64 where "x = scast a * scast b"
  have u: "sint x = sint a * sint b" unfolding x_def by (rule wide_signed_product) simp
  have x: "(ucast x :: u32) = word_of_int (sint a * sint b)" by (simp add: ucast_down u)
  then have "(ucast x :: u32) = a * b" by simp
  moreover have "sint (ucast x :: u32) = sint x \<longleftrightarrow> in_range 32 (sint x)"
    using sint_word_of_int_in_range [where 'w = 32, of "sint x"] by (simp add: x u)
  ultimately show ?thesis
    by (simp add: DIMULD_def Let_def lf_view set_CF_OF_flags u flip: x_def)
qed

lemma DIMULW_result:
  assumes "- (2 ^ 31) \<le> p * q" "p * q < 2 ^ 31"
  shows "case DIMULW p q s of Inl e \<Rightarrow> False
    | Inr (x, t) \<Rightarrow> x = word_of_int (p * q) \<and> carry_overflow (\<not> in_range 16 (p * q)) t"
proof -
  have "(x::u16) AND 0xffff = x" for x
    by (simp flip: all_ones)
  then show ?thesis
    using assms set_CF_OF_flags [of "FillFlagsNoCFOF s" "\<not> (- 32768 \<le> p * q \<and> p * q \<le> 32767)"]
    by (simp add: DIMULW_def Let_def lf_view in_range_def zle_diff1_eq [of "p * q" 32768, symmetric])
qed

lemma DIMULW_nonneg:
  assumes "0 \<le> p * q"
  shows "case DIMULW p q s of Inl e \<Rightarrow> e = HostUndefined \<and> 2 ^ 31 \<le> p * q
    | Inr (x, t) \<Rightarrow> p * q < 2 ^ 31 \<and> x = word_of_int (p * q) \<and> carry_overflow (32767 < p * q) t"
proof (cases "p * q < 2 ^ 31")
  case True
  have "\<not> in_range 16 (p * q) \<longleftrightarrow> 32767 < p * q" using assms by (auto simp: in_range_def)
  then show ?thesis using True assms DIMULW_result [of p q s] by (auto split: sum.splits)
next
  case False
  then show ?thesis by (simp add: DIMULW_def Let_def)
qed

section \<open>Decimal arithmetic\<close>

definition valid_bcd :: "u8 \<Rightarrow> bool" where
  "valid_bcd x = (uint x mod 16 \<le> 9 \<and> uint x div 16 \<le> 9)"

definition bcd :: "u8 \<Rightarrow> int" where
  "bcd x = uint x div 16 * 10 + uint x mod 16"

lemma DAA_result:
  "reg_al (DAA s) = reg_al s + (if 0x99 < reg_al s \<or> get_CF s \<noteq> 0 then 0x60 else 0) +
     (if 0x09 < reg_al s AND 0x0f \<or> get_AF s \<noteq> 0 then 0x06 else 0)"
  "get_CF (DAA s) \<noteq> 0 \<longleftrightarrow> 0x99 < reg_al s \<or> get_CF s \<noteq> 0"
proof -
  have z: "reg_al (set_SZP_al t) = reg_al t" "GETFLAG FLAG_CF (set_SZP_al t) = GETFLAG FLAG_CF t"
    for t :: "'a cpu_scheme"
    by (simp_all add: set_SZP_al_def lf_view)
  show "reg_al (DAA s) = reg_al s + (if 0x99 < reg_al s \<or> get_CF s \<noteq> 0 then 0x60 else 0) +
     (if 0x09 < reg_al s AND 0x0f \<or> get_AF s \<noteq> 0 then 0x06 else 0)"
    by (simp add: DAA_def Let_def z lf_view)
  show "get_CF (DAA s) \<noteq> 0 \<longleftrightarrow> 0x99 < reg_al s \<or> get_CF s \<noteq> 0"
    by (simp add: DAA_def Let_def z lf_view get_CF_UNKNOWN)
qed

lemma digits_unique:
  fixes p q :: int
  assumes "0 \<le> q" "q < 16"
  shows "(16 * p + q) div 16 = p" "(16 * p + q) mod 16 = q"
  using assms by simp_all

lemma bcd_add_int:
  fixes p q r t :: int
  assumes d: "0 \<le> p" "p \<le> 9" "0 \<le> q" "q \<le> 9" "0 \<le> r" "r \<le> 9" "0 \<le> t" "t \<le> 9"
  defines "S \<equiv> (16 * p + q + (16 * r + t)) mod 256"
  defines "lo \<equiv> 9 < S mod 16 \<or> 16 \<le> q + t" and "hi \<equiv> 0x99 < S \<or> 256 \<le> 16 * p + q + (16 * r + t)"
  defines "R \<equiv> (S + (if hi then 0x60 else 0) + (if lo then 6 else 0)) mod 256"
  shows "R div 16 * 10 + R mod 16 + 100 * of_bool hi = 10 * p + q + (10 * r + t)"
    and "R mod 16 \<le> 9 \<and> R div 16 \<le> 9"
proof -
  define T where "T = 16 * p + q + (16 * r + t)"
  have T: "0 \<le> T" "T < 512" using d by (auto simp: T_def)
  have S: "S = (if T < 256 then T else T - 256)" using mod_once [of T 256] T by (simp add: S_def T_def)
  have m: "S mod 16 = (q + t) mod 16"
  proof -
    have "T mod 16 = (q + t) mod 16" unfolding T_def
      using mod_mult_self1 [of "q + t" "p + r" 16] by (simp add: algebra_simps)
    then show ?thesis unfolding S_def T_def [symmetric] by (simp add: mod_mod_cancel)
  qed
  have qt: "(q + t) mod 16 = (if q + t < 16 then q + t else q + t - 16)" using mod_once [of "q + t" 16] d by simp
  have lo: "lo \<longleftrightarrow> 10 \<le> q + t" unfolding lo_def m qt using d by (auto split: if_splits)
  have hi: "hi \<longleftrightarrow> 154 \<le> T" unfolding hi_def S T_def [symmetric] by (auto split: if_splits)
  have hi': "hi \<longleftrightarrow> 10 \<le> p + r + of_bool (10 \<le> q + t)" unfolding hi T_def using d by (cases "10 \<le> q + t") auto
  define P Q where "P = p + r + of_bool lo - 10 * of_bool hi" and "Q = q + t - 10 * of_bool lo"
  have PQ: "0 \<le> P" "P \<le> 9" "0 \<le> Q" "Q \<le> 9"
    unfolding P_def Q_def lo hi' using d by (auto simp: of_bool_def)
  have "(S + (if hi then 0x60 else 0) + (if lo then 6 else 0)) mod 256 = (16 * P + Q) mod 256"
  proof -
    have "S + (if hi then 0x60 else 0) + (if lo then 6 else 0) + 256 * (of_bool (256 \<le> T) - of_bool hi) = 16 * P + Q"
      unfolding S P_def Q_def T_def by (cases hi; cases lo) auto
    then show ?thesis by (metis mod_mult_self2)
  qed
  then have R: "R = 16 * P + Q" unfolding R_def using PQ by (simp add: mod_pos_pos_trivial)
  have dm: "R div 16 = P" "R mod 16 = Q" unfolding R using PQ by (auto intro: digits_unique)
  show "R div 16 * 10 + R mod 16 + 100 * of_bool hi = 10 * p + q + (10 * r + t)"
    unfolding dm P_def Q_def by simp
  show "R mod 16 \<le> 9 \<and> R div 16 \<le> 9" unfolding dm using PQ by simp
qed

lemma set_reg_al_lf [lf_view]:
  "lf_var1b (set_reg_al x s) = lf_var1b s" "lf_var2b (set_reg_al x s) = lf_var2b s"
  "lf_resb (set_reg_al x s) = lf_resb s" "lf_oldcf (set_reg_al x s) = lf_oldcf s"
  by (simp_all add: set_reg_al_def lf_var1b_def lf_var2b_def lf_resb_def)

lemma uint_low_nibble: "uint (x AND 0x0f) = uint x mod 16" for x :: u8
  using and_0f_uint(4) [of x] by simp

lemma daa_after_add:
  fixes s :: cpu
  assumes "valid_bcd a" "valid_bcd b" and "ADDB a b s = (x, t)"
  defines "t' \<equiv> DAA (set_reg_al x t)"
  shows "bcd (reg_al t') + 100 * of_bool (get_CF t' \<noteq> 0) = bcd a + bcd b" "valid_bcd (reg_al t')"
proof -
  let ?u = "set_reg_al x t"
  have A: "x = a + b" "lf_var1b t = a" "lf_var2b t = b" "lf_resb t = x" "lf_type t = t_ADDb"
    using byte_alu.ADD [OF assms(3)] by simp_all
  then have v: "lazy_view ?u = add_flags a b False"
    using byte_alu.add_view [of ?u False] by (simp add: lf_view)
  then have f: "get_CF ?u \<noteq> 0 \<longleftrightarrow> 256 \<le> uint a + uint b" "get_AF ?u \<noteq> 0 \<longleftrightarrow> 16 \<le> uint a mod 16 + uint b mod 16"
    by (simp_all add: lazy_view_def add_flags_def Let_def)
  define p q r k where "p = uint a div 16" and "q = uint a mod 16" and "r = uint b div 16" and "k = uint b mod 16"
  have ab: "uint a = 16 * p + q" "uint b = 16 * r + k" by (simp_all add: p_def q_def r_def k_def)
  have d: "0 \<le> p" "p \<le> 9" "0 \<le> q" "q \<le> 9" "0 \<le> r" "r \<le> 9" "0 \<le> k" "k \<le> 9"
    using assms(1,2) by (simp_all add: valid_bcd_def p_def q_def r_def k_def div_int_pos_iff)
  have x: "uint x = (16 * p + q + (16 * r + k)) mod 256" unfolding A(1) ab [symmetric] by (simp add: uint_word_ariths)
  have c: "0x99 < x \<longleftrightarrow> 0x99 < uint x" "0x09 < x AND 0x0f \<longleftrightarrow> 9 < uint x mod 16"
    by (simp_all add: word_less_def uint_low_nibble)
  have r: "uint (reg_al t') = (uint x + (if 0x99 < uint x \<or> 256 \<le> uint a + uint b then 0x60 else 0) +
      (if 9 < uint x mod 16 \<or> 16 \<le> q + k then 6 else 0)) mod 256"
    unfolding t'_def DAA_result
    by (simp add: lf_view f c uint_word_ariths q_def k_def mod_simps)
  have g: "get_CF t' \<noteq> 0 \<longleftrightarrow> 0x99 < uint x \<or> 256 \<le> uint a + uint b"
    unfolding t'_def DAA_result by (simp add: lf_view f c)
  define R where "R = uint (reg_al t')"
  note B = bcd_add_int [OF d, folded x, folded ab, folded r, folded R_def g]
  show "bcd (reg_al t') + 100 * of_bool (get_CF t' \<noteq> 0) = bcd a + bcd b"
    unfolding bcd_def R_def [symmetric] p_def [symmetric] q_def [symmetric] r_def [symmetric] k_def [symmetric]
    using B(1) by linarith
  show "valid_bcd (reg_al t')" unfolding valid_bcd_def R_def [symmetric] using B(2) by simp
qed

lemma aam_aad_value:
  assumes "AAM d s = Inr t"
  shows "reg_al (AAD d t) = reg_al s \<and> reg_ah (AAD d t) = 0"
proof -
  have d: "d \<noteq> 0" using assms by (auto simp: AAM_def Let_def split: if_splits)
  have z: "reg_al (set_SZP_al u) = reg_al u" "reg_ah (set_SZP_al u) = reg_ah u" for u :: "'a cpu_scheme"
    by (simp_all add: set_SZP_al_def lf_view)
  have t: "reg_ah t = reg_al s div d" "reg_al t = reg_al s mod d"
    using assms d by (auto simp: AAM_def Let_def z lf_view)
  have "(ucast (ucast (reg_al s div d) * ucast d + ucast (reg_al s mod d) :: u16) :: u8) =
      reg_al s div d * d + reg_al s mod d"
  proof -
    have "(ucast (ucast x * ucast y + ucast z :: u16) :: u8) = x * y + z" for x y z :: u8
      by (simp add: word_uint_eq_iff uint_word_ariths unsigned_ucast_eq take_bit_eq_mod mod_mod_cancel mod_simps)
    then show ?thesis by blast
  qed
  also have "\<dots> = reg_al s" by (rule div_mult_mod_eq)
  finally show ?thesis by (simp add: AAD_def Let_def lf_view t)
qed

section \<open>Properties\<close>

text \<open>
  Property C23. Unsigned division at each width raises the divide error exactly when the divisor is
  zero or the quotient does not fit the destination, and otherwise leaves the quotient and the
  remainder of the double-width dividend in the registers.
\<close>

theorem div_unsigned:
  fixes s :: cpu
  shows "div_ok 8 (uint (reg_ax s)) (uint v8) (\<lambda>t. uint (reg_al t)) (\<lambda>t. uint (reg_ah t)) (DIVB v8 s) \<and>
   div_ok 16 (uint (reg_dx s) * 2 ^ 16 + uint (reg_ax s)) (uint v16)
     (\<lambda>t. uint (reg_ax t)) (\<lambda>t. uint (reg_dx t)) (DIVW v16 s) \<and>
   div_ok 32 (uint (reg_edx s) * 2 ^ 32 + uint (reg_eax s)) (uint v32)
     (\<lambda>t. uint (reg_eax t)) (\<lambda>t. uint (reg_edx t)) (DIVD v32 s)"
  by (intro conjI DIVB_ok DIVW_ok DIVD_ok)

text \<open>
  Property C24. Signed division at each width truncates, with the remainder taking the sign of the
  dividend, and raises the divide error exactly when the divisor is zero or the quotient does not
  fit, except that dividing the least double-width value by minus one, which must raise the divide
  error, is an overflowing host division at 16 and 32 bits.
\<close>

theorem div_signed:
  fixes s :: cpu
  shows "idiv_ok 8 (sint (reg_ax s)) (sint v8) (\<lambda>t. sint (reg_al t)) (\<lambda>t. sint (reg_ah t)) (IDIVB v8 s) \<and>
   idiv_ok 16 (sint (word_cat (reg_dx s) (reg_ax s) :: u32)) (sint v16)
     (\<lambda>t. sint (reg_ax t)) (\<lambda>t. sint (reg_dx t)) (IDIVW v16 s) \<and>
   idiv_ok 32 (sint (word_cat (reg_edx s) (reg_eax s) :: u64)) (sint v32)
     (\<lambda>t. sint (reg_eax t)) (\<lambda>t. sint (reg_edx t)) (IDIVD v32 s) \<and>
   IDIVB v8 s \<noteq> Inl HostUndefined \<and>
   (IDIVW v16 s = Inl HostUndefined \<longleftrightarrow>
      sint (word_cat (reg_dx s) (reg_ax s) :: u32) = - (2 ^ 31) \<and> sint v16 = - 1) \<and>
   (IDIVD v32 s = Inl HostUndefined \<longleftrightarrow>
      sint (word_cat (reg_edx s) (reg_eax s) :: u64) = - (2 ^ 63) \<and> sint v32 = - 1)"
proof (intro conjI IDIVB_ok IDIVW_ok IDIVD_ok)
  show "IDIVB v8 s \<noteq> Inl HostUndefined" by (simp add: IDIVB_def Let_def)
  show "IDIVW v16 s = Inl HostUndefined \<longleftrightarrow>
      sint (word_cat (reg_dx s) (reg_ax s) :: u32) = - (2 ^ 31) \<and> sint v16 = - 1"
    by (auto simp: IDIVW_def Let_def pair_cat)
  show "IDIVD v32 s = Inl HostUndefined \<longleftrightarrow>
      sint (word_cat (reg_edx s) (reg_eax s) :: u64) = - (2 ^ 63) \<and> sint v32 = - 1"
    by (auto simp: IDIVD_def Let_def pair_cat)
qed

text \<open>
  Property C33. Multiplication: the register pair holds the full product, unsigned for MUL and signed
  for IMUL, and CF and OF both say whether the product needs the upper half; the two-operand form
  DIMULD keeps the low half and flags a signed product that does not fit.
\<close>

theorem mul_products:
  fixes s :: cpu
  shows "uint (reg_ax (MULB v8 s)) = uint (reg_al s) * uint v8 \<and>
   carry_overflow (2 ^ 8 \<le> uint (reg_al s) * uint v8) (MULB v8 s) \<and>
   uint (reg_ax (MULW v16 s)) + uint (reg_dx (MULW v16 s)) * 2 ^ 16 = uint (reg_ax s) * uint v16 \<and>
   carry_overflow (2 ^ 16 \<le> uint (reg_ax s) * uint v16) (MULW v16 s) \<and>
   uint (reg_eax (MULD v32 s)) + uint (reg_edx (MULD v32 s)) * 2 ^ 32 = uint (reg_eax s) * uint v32 \<and>
   carry_overflow (2 ^ 32 \<le> uint (reg_eax s) * uint v32) (MULD v32 s) \<and>
   sint (reg_ax (IMULB v8 s)) = sint (reg_al s) * sint v8 \<and>
   carry_overflow (\<not> in_range 8 (sint (reg_al s) * sint v8)) (IMULB v8 s) \<and>
   sint (reg_dx (IMULW v16 s)) * 2 ^ 16 + uint (reg_ax (IMULW v16 s)) = sint (reg_ax s) * sint v16 \<and>
   carry_overflow (\<not> in_range 16 (sint (reg_ax s) * sint v16)) (IMULW v16 s) \<and>
   sint (reg_edx (IMULD v32 s)) * 2 ^ 32 + uint (reg_eax (IMULD v32 s)) = sint (reg_eax s) * sint v32 \<and>
   carry_overflow (\<not> in_range 32 (sint (reg_eax s) * sint v32)) (IMULD v32 s) \<and>
   (case DIMULD a32 b32 s of (x, t) \<Rightarrow> x = a32 * b32 \<and> carry_overflow (\<not> in_range 32 (sint a32 * sint b32)) t)"
  by (simp only: MULB_ok MULW_ok MULD_ok IMULB_ok IMULW_ok IMULD_ok DIMULD_ok simp_thms)

text \<open>
  Property C34. The 16-bit two-operand multiplication multiplies the operands as unsigned values: it
  is undefined on the host when their product exceeds an \<^verbatim>\<open>int\<close>, the low half is right otherwise,
  and CF and OF say whether the unsigned product exceeds 32767. So for minus one times one, whose
  signed product fits, they are set.
\<close>

theorem imul_word_unsigned_factors:
  fixes s :: cpu
  shows "(case IMUL_Gw_Ew rm ea s of
      Inl e \<Rightarrow> e = HostUndefined \<and> 2 ^ 31 \<le> uint ea * uint rm
    | Inr (x, t) \<Rightarrow> uint ea * uint rm < 2 ^ 31 \<and> x = ea * rm \<and> carry_overflow (32767 < uint ea * uint rm) t) \<and>
    (case IMUL_Gw_Ew 1 0xffff s of Inl e \<Rightarrow> False
     | Inr (x, t) \<Rightarrow> in_range 16 (sint (0xffff::u16) * sint (1::u16)) \<and> carry_overflow True t)"
proof (intro conjI)
  show "case IMUL_Gw_Ew rm ea s of
      Inl e \<Rightarrow> e = HostUndefined \<and> 2 ^ 31 \<le> uint ea * uint rm
    | Inr (x, t) \<Rightarrow> uint ea * uint rm < 2 ^ 31 \<and> x = ea * rm \<and> carry_overflow (32767 < uint ea * uint rm) t"
    using DIMULW_nonneg [OF product_bounds(1) [of ea rm], of s]
    by (auto simp: IMUL_Gw_Ew_def split: sum.splits)
  show "case IMUL_Gw_Ew 1 0xffff s of Inl e \<Rightarrow> False
     | Inr (x, t) \<Rightarrow> in_range 16 (sint (0xffff::u16) * sint (1::u16)) \<and> carry_overflow True t"
    by (simp add: IMUL_Gw_Ew_def DIMULW_def set_CF_OF_flags lf_view in_range_def)
qed

text \<open>
  Packed decimal addition: ADD of two bytes that hold two decimal digits each, the sum
  stored in AL, followed by DAA leaves two decimal digits in AL which, with the carry as the
  hundreds, are the decimal sum.
\<close>

theorem daa_decimal_sum:
  fixes s :: cpu
  assumes "valid_bcd a" and "valid_bcd b"
  shows "case ADDB a b s of (x, t) \<Rightarrow> (let t' = DAA (set_reg_al x t) in
    bcd (reg_al t') + 100 * of_bool (get_CF t' \<noteq> 0) = bcd a + bcd b \<and> valid_bcd (reg_al t'))"
proof -
  obtain x t where "ADDB a b s = (x, t)" by fastforce
  from daa_after_add [OF assms this] this show ?thesis
    by (simp only: prod.case Let_def simp_thms)
qed

theorem daa_decimal_sum_witness:
  "valid_bcd 0x47 \<and> valid_bcd 0x85 \<and> (case ADDB 0x47 0x85 zero_cpu of (x, t) \<Rightarrow>
     (let t' = DAA (set_reg_al x t) in
       bcd (reg_al t') + 100 * of_bool (get_CF t' \<noteq> 0) = bcd 0x47 + bcd 0x85 \<and> valid_bcd (reg_al t')))"
proof -
  have "valid_bcd 0x47" "valid_bcd 0x85" by (simp_all add: valid_bcd_def)
  with daa_decimal_sum [OF this, of zero_cpu] show ?thesis by blast
qed

text \<open>
  Unpacked decimal round trip in any non-zero base: AAD with the base that AAM used
  restores AL and clears AH.
\<close>

theorem aam_aad_roundtrip:
  "case AAM d s of Inl e \<Rightarrow> d = 0 \<and> e = DivideError
   | Inr t \<Rightarrow> reg_al (AAD d t) = reg_al s \<and> reg_ah (AAD d t) = 0"
  using aam_aad_value [of d s] by (auto simp: AAM_def Let_def split: sum.split if_splits)

end
