(* ===== verification/Pic.thy ===== *)
theory Pic
  imports Emu_Prelude
begin

text \<open>
  The two 8259A programmable interrupt controllers of \<^verbatim>\<open>src/hardware/pic.cpp\<close>: their registers,
  the request, mask and in-service logic, the command and data ports, and the delivery of
  interrupts to the CPU. \<open>this == &primary_controller\<close> becomes a controller identity; the calls
  \<^verbatim>\<open>CPU_HW_Interrupt(num)\<close> are recorded in order. The cycle counters are modelled as unbounded
  integers: the operations here only move cycles between them.
\<close>

unbundle bit_operations_syntax

section \<open>State\<close>

record PIC_Controller =
  icw_words :: nat
  icw_index :: nat
  special :: bool
  auto_eoi :: bool
  rotate_on_auto_eoi :: bool
  single :: bool
  request_issr :: bool
  vector_base :: u8
  irr :: u8
  imr :: u8
  imrr :: u8
  isr :: u8
  isrr :: u8
  active_irq :: nat

datatype pic_id = Primary | Secondary

record pic_state =
  primary_controller :: PIC_Controller
  secondary_controller :: PIC_Controller
  PIC_IRQCheck :: u32
  PIC_Ticks :: u32
  CPU_Cycles :: int
  CPU_CycleLeft :: int
  machine_is_pcjr :: bool
  machine_is_ega_or_better :: bool
  hw_interrupts :: "nat list"

fun pics :: "pic_id \<Rightarrow> pic_state \<Rightarrow> PIC_Controller" where
  "pics Primary s = primary_controller s"
| "pics Secondary s = secondary_controller s"

fun upd_pic :: "pic_id \<Rightarrow> (PIC_Controller \<Rightarrow> PIC_Controller) \<Rightarrow> pic_state \<Rightarrow> pic_state" where
  "upd_pic Primary f s = s\<lparr>primary_controller := f (primary_controller s)\<rparr>"
| "upd_pic Secondary f s = s\<lparr>secondary_controller := f (secondary_controller s)\<rparr>"

definition CPU_HW_Interrupt :: "nat \<Rightarrow> pic_state \<Rightarrow> pic_state" where
  "CPU_HW_Interrupt num s = s\<lparr>hw_interrupts := hw_interrupts s @ [num]\<rparr>"

text \<open>\<^verbatim>\<open>static_cast<uint8_t>(1 << val)\<close>\<close>

definition irq_bit :: "nat \<Rightarrow> u8" where
  "irq_bit val = push_bit val 1"

text \<open>The first set bit below a limit, as the scanning loops find it.\<close>

definition first_irq :: "u8 \<Rightarrow> nat \<Rightarrow> nat option" where
  "first_irq p limit = find (\<lambda>i. p AND irq_bit i \<noteq> 0) [0..<limit]"

definition possible_irqs :: "PIC_Controller \<Rightarrow> u8" where
  "possible_irqs c = (irr c AND imrr c) AND isrr c"

definition irq_limit :: "PIC_Controller \<Rightarrow> nat" where
  "irq_limit c = (if special c then 8 else active_irq c)"

section \<open>Requests\<close>

text \<open>
  Activation of the secondary controller raises IRQ 2 of the primary, and a request that is not
  masked and not in service activates its controller.
\<close>

function activate :: "pic_id \<Rightarrow> pic_state \<Rightarrow> pic_state"
  and raise_irq :: "pic_id \<Rightarrow> nat \<Rightarrow> pic_state \<Rightarrow> pic_state" where
  "activate Primary s = s\<lparr>PIC_IRQCheck := 1,
     CPU_CycleLeft := CPU_CycleLeft s + CPU_Cycles s, CPU_Cycles := 0\<rparr>"
| "activate Secondary s = raise_irq Primary 2 s"
| "raise_irq pid val s = (let c = pics pid s in
     if irr c AND irq_bit val = 0 then
       let s1 = upd_pic pid (\<lambda>c. c\<lparr>irr := irr c OR irq_bit val\<rparr>) s in
       if (irq_bit val AND imrr c) AND isrr c \<noteq> 0 \<and> (special c \<or> val < active_irq c)
       then activate pid s1 else s1
     else s)"
  by pat_completeness auto
termination
  by (relation "measure (\<lambda>x. case x of
       Inl (pid, s) \<Rightarrow> (if pid = Secondary then 2 else 0)
     | Inr (pid, val, s) \<Rightarrow> (if pid = Secondary then 3 else 1))") auto

function deactivate :: "pic_id \<Rightarrow> pic_state \<Rightarrow> pic_state"
  and check_for_irq :: "pic_id \<Rightarrow> pic_state \<Rightarrow> pic_state"
  and lower_irq :: "pic_id \<Rightarrow> nat \<Rightarrow> pic_state \<Rightarrow> pic_state" where
  "deactivate Primary s = s\<lparr>PIC_IRQCheck := 0\<rparr>"
| "deactivate Secondary s = lower_irq Primary 2 s"
| "check_for_irq pid s = (let c = pics pid s in
     if possible_irqs c \<noteq> 0 \<and> first_irq (possible_irqs c) (irq_limit c) \<noteq> None
     then activate pid s else deactivate pid s)"
| "lower_irq pid val s = (let c = pics pid s in
     if irr c AND irq_bit val \<noteq> 0 then
       let s1 = upd_pic pid (\<lambda>c. c\<lparr>irr := irr c AND NOT (irq_bit val)\<rparr>) s in
       if (irq_bit val AND imrr c) AND isrr c \<noteq> 0 \<and> (special c \<or> val < active_irq c)
       then check_for_irq pid s1 else s1
     else s)"
  by pat_completeness auto
termination
  by (relation "measure (\<lambda>x. case x of
       Inl (pid, s) \<Rightarrow> (if pid = Secondary then 4 else 0)
     | Inr (Inl (pid, s)) \<Rightarrow> (if pid = Secondary then 5 else 1)
     | Inr (Inr (pid, val, s)) \<Rightarrow> (if pid = Secondary then 6 else 2))") auto

declare activate.simps(2) [simp del] raise_irq.simps [simp del]
declare deactivate.simps(2) [simp del] check_for_irq.simps [simp del] lower_irq.simps [simp del]

section \<open>Masks, end of interrupt, start of service\<close>

definition update_active_irq :: "PIC_Controller \<Rightarrow> PIC_Controller" where
  "update_active_irq c = (if isr c = 0 then c\<lparr>active_irq := 8\<rparr>
     else case first_irq (isr c) 8 of None \<Rightarrow> c | Some i \<Rightarrow> c\<lparr>active_irq := i\<rparr>)"

definition check_after_EOI :: "pic_id \<Rightarrow> pic_state \<Rightarrow> pic_state" where
  "check_after_EOI pid s = (let s1 = upd_pic pid update_active_irq s in
     if possible_irqs (pics pid s1) \<noteq> 0 then check_for_irq pid s1 else s1)"

definition set_imr :: "pic_id \<Rightarrow> u8 \<Rightarrow> pic_state \<Rightarrow> pic_state" where
  "set_imr pid val0 s = (let
     val = (if machine_is_pcjr s \<and> pid = Primary then val0 AND NOT (irq_bit 6) else val0);
     change = imr (pics pid s) XOR val;
     s1 = upd_pic pid (\<lambda>c. c\<lparr>imr := val, imrr := NOT val\<rparr>) s;
     c = pics pid s1
     in if (irr c AND change) AND isrr c \<noteq> 0 then check_for_irq pid s1 else s1)"

definition start_irq :: "nat \<Rightarrow> PIC_Controller \<Rightarrow> PIC_Controller" where
  "start_irq val c = (let c1 = c\<lparr>irr := irr c AND NOT (irq_bit val)\<rparr> in
     if \<not> auto_eoi c1
     then let i = isr c1 OR irq_bit val in c1\<lparr>active_irq := val, isr := i, isrr := NOT i\<rparr>
     else c1)"

text \<open>Clearing a bit of the in-service register and what follows.\<close>

definition end_irq :: "pic_id \<Rightarrow> nat \<Rightarrow> pic_state \<Rightarrow> pic_state" where
  "end_irq pid val s = check_after_EOI pid
     (upd_pic pid (\<lambda>c. let i = isr c AND NOT (irq_bit val) in c\<lparr>isr := i, isrr := NOT i\<rparr>) s)"

section \<open>Ports\<close>

definition command_pic :: "u16 \<Rightarrow> pic_id" where
  "command_pic port = (if port = 0x20 then Primary else Secondary)"

definition data_pic :: "u16 \<Rightarrow> pic_id" where
  "data_pic port = (if port = 0x21 then Primary else Secondary)"

text \<open>
  A specific end of interrupt with the rotate bit set shifts by \<open>val - 0x60\<close>, at least 128: the
  shift is undefined, modelled as \<open>None\<close>. The messages about unsupported modes change no state.
\<close>

definition write_command :: "u16 \<Rightarrow> u8 \<Rightarrow> pic_state \<Rightarrow> pic_state option" where
  "write_command port val s = (let pid = command_pic port in
     if val AND 0x10 \<noteq> 0 then
       Some (upd_pic pid (\<lambda>c. c\<lparr>single := (val AND 0x02 = 0x02), icw_index := 1,
               icw_words := 2 + unat (val AND 0x01)\<rparr>) (set_imr pid 0 s))
     else if val AND 0x08 \<noteq> 0 then
       (let s1 = (if val AND 0x02 \<noteq> 0
                  then upd_pic pid (\<lambda>c. c\<lparr>request_issr := (val AND 0x01 \<noteq> 0)\<rparr>) s else s)
        in Some (if val AND 0x40 \<noteq> 0
                 then check_for_irq pid (upd_pic pid (\<lambda>c. c\<lparr>special := (val AND 0x20 \<noteq> 0)\<rparr>) s1)
                 else s1))
     else if val AND 0x20 \<noteq> 0 then
       (if val AND 0x40 \<noteq> 0 then
          (if unat (val - 0x60) < 32 then Some (end_irq pid (unat (val - 0x60)) s) else None)
        else if active_irq (pics pid s) \<noteq> 8 then Some (end_irq pid (active_irq (pics pid s)) s)
        else Some s)
     else if val AND 0x40 = 0 then
       Some (upd_pic pid (\<lambda>c. c\<lparr>rotate_on_auto_eoi := (val AND 0x80 \<noteq> 0)\<rparr>) s)
     else Some s)"

text \<open>\<^verbatim>\<open>if (pic->icw_index++ >= pic->icw_words) pic->icw_index = 0\<close>\<close>

definition next_icw :: "PIC_Controller \<Rightarrow> PIC_Controller" where
  "next_icw c = (if icw_words c \<le> icw_index c then c\<lparr>icw_index := 0\<rparr>
     else c\<lparr>icw_index := icw_index c + 1\<rparr>)"

definition write_data :: "u16 \<Rightarrow> u8 \<Rightarrow> pic_state \<Rightarrow> pic_state" where
  "write_data port val s = (let pid = data_pic port; n = icw_index (pics pid s) in
     if n = 0 then set_imr pid val s
     else if n = 1 then upd_pic pid (\<lambda>c. let c1 = c\<lparr>vector_base := val AND 0xf8\<rparr> in
       if icw_words c1 \<le> icw_index c1 then c1\<lparr>icw_index := 0\<rparr>
       else if single c1 then c1\<lparr>icw_index := 3\<rparr>
       else c1\<lparr>icw_index := icw_index c1 + 1\<rparr>) s
     else if n = 2 then upd_pic pid next_icw s
     else if n = 3 then upd_pic pid (\<lambda>c. next_icw (c\<lparr>auto_eoi := (val AND 0x2 \<noteq> 0)\<rparr>)) s
     else s)"

definition read_command :: "u16 \<Rightarrow> pic_state \<Rightarrow> u8" where
  "read_command port s = (let c = pics (command_pic port) s in
     if request_issr c then isr c else irr c)"

definition read_data :: "u16 \<Rightarrow> pic_state \<Rightarrow> u8" where
  "read_data port s = imr (pics (data_pic port) s)"

section \<open>The emulator's interface\<close>

definition irq_pic :: "nat \<Rightarrow> pic_id \<times> nat" where
  "irq_pic irq = (if 7 < irq then (Secondary, irq - 8) else (Primary, irq))"

definition PIC_ActivateIRQ :: "nat \<Rightarrow> pic_state \<Rightarrow> pic_state" where
  "PIC_ActivateIRQ irq s = (case irq_pic irq of (pid, t) \<Rightarrow>
     let OldCycles = CPU_Cycles s; s1 = raise_irq pid t s in
     if OldCycles \<noteq> CPU_Cycles s1
     then s1\<lparr>CPU_CycleLeft := CPU_CycleLeft s1 - 2, CPU_Cycles := 2\<rparr> else s1)"

definition PIC_DeActivateIRQ :: "nat \<Rightarrow> pic_state \<Rightarrow> pic_state" where
  "PIC_DeActivateIRQ irq s = (case irq_pic irq of (pid, t) \<Rightarrow> lower_irq pid t s)"

definition secondary_startIRQ :: "pic_state \<Rightarrow> pic_state" where
  "secondary_startIRQ s = (let c = secondary_controller s in
     case first_irq (possible_irqs c) (irq_limit c) of
       None \<Rightarrow> s
     | Some pic1_irq \<Rightarrow> CPU_HW_Interrupt (unat (vector_base c) + pic1_irq)
         (upd_pic Primary (start_irq 2) (upd_pic Secondary (start_irq pic1_irq) s)))"

definition primary_startIRQ :: "nat \<Rightarrow> pic_state \<Rightarrow> pic_state" where
  "primary_startIRQ i s = CPU_HW_Interrupt (unat (vector_base (primary_controller s)) + i)
     (upd_pic Primary (start_irq i) s)"

text \<open>The interrupt flag and whether the trap core runs belong to the CPU: they are arguments.\<close>

definition PIC_runIRQs :: "bool \<Rightarrow> bool \<Rightarrow> pic_state \<Rightarrow> pic_state" where
  "PIC_runIRQs if_flag trap_run s =
     (if \<not> if_flag \<or> PIC_IRQCheck s = 0 \<or> trap_run then s
      else let c = primary_controller s;
               s1 = (case first_irq (possible_irqs c) (irq_limit c) of
                       None \<Rightarrow> s
                     | Some i \<Rightarrow> if i = 2 then secondary_startIRQ s else primary_startIRQ i s)
           in s1\<lparr>PIC_IRQCheck := 0\<rparr>)"

definition PIC_SetIRQMask :: "nat \<Rightarrow> bool \<Rightarrow> pic_state \<Rightarrow> pic_state" where
  "PIC_SetIRQMask irq masked s = (case irq_pic irq of (pid, t) \<Rightarrow>
     let newmask = imr (pics pid s) AND NOT (irq_bit t);
         newmask' = (if masked then newmask OR irq_bit t else newmask)
     in set_imr pid newmask' s)"

definition reset_controller :: "u8 \<Rightarrow> PIC_Controller" where
  "reset_controller base = \<lparr>icw_words = 0, icw_index = 0, special = False, auto_eoi = False,
     rotate_on_auto_eoi = False, single = False, request_issr = False, vector_base = base,
     irr = 0, imr = 0xff, imrr = 0, isr = 0, isrr = 0xff, active_irq = 8\<rparr>"

definition PIC_8259A :: "pic_state \<Rightarrow> pic_state" where
  "PIC_8259A s0 = seq_do
     [\<lambda>s. s\<lparr>PIC_IRQCheck := 0, PIC_Ticks := 0, primary_controller := reset_controller 0x08,
            secondary_controller := reset_controller 0x70\<rparr>,
      PIC_SetIRQMask 0 False, PIC_SetIRQMask 1 False, PIC_SetIRQMask 2 False, PIC_SetIRQMask 8 False,
      \<lambda>s. if machine_is_ega_or_better s then PIC_DeActivateIRQ 9 (PIC_SetIRQMask 9 False s) else s,
      \<lambda>s. if machine_is_pcjr s then PIC_SetIRQMask 6 False s else s] s0"

end
