(* ===== verification/Ieee_Double.thy ===== *)
theory Ieee_Double
  imports Complex_Main
begin

text \<open>
  The arithmetic of C++'s \<^verbatim>\<open>double\<close> as the event queue uses it: a finite double is the rational it
  denotes, and every operation computes the exact result and rounds it to the nearest double, ties
  to even, with 53 significant bits and the exponent bounded below by -1074 (subnormals). Signed
  zeros are identified, and infinities and NaNs are not represented: the queue's numbers are
  milliseconds and cycle counts, far below the overflow threshold, and the one division is by the
  cycle maximum, which its caller checks not to be zero.
\<close>

section \<open>Rounding\<close>

function nbits :: "int \<Rightarrow> nat" where
  "nbits n = (if n \<le> 0 then 0 else Suc (nbits (n div 2)))"
  by pat_completeness auto
termination
  by (relation "measure nat") auto

declare nbits.simps [simp del]

text \<open>The binary exponent of a non-zero number: \<open>2 powi binade x \<le> \<bar>x\<bar> < 2 powi (binade x + 1)\<close>.\<close>

definition binade :: "rat \<Rightarrow> int" where
  "binade x = (case quotient_of \<bar>x\<bar> of (p, q) \<Rightarrow>
     let k = int (nbits p) - int (nbits q) in if \<bar>x\<bar> < 2 powi k then k - 1 else k)"

definition lsb_exp :: "rat \<Rightarrow> int" where
  "lsb_exp x = max (binade x - 52) (- 1074)"

definition round_half_even :: "rat \<Rightarrow> int" where
  "round_half_even x = (let n = \<lfloor>x\<rfloor>; d = x - of_int n in
     if d < 1 / 2 then n else if 1 / 2 < d then n + 1 else if even n then n else n + 1)"

definition dbl :: "rat \<Rightarrow> rat" where
  "dbl x = (if x = 0 then 0 else of_int (round_half_even (x / 2 powi lsb_exp x)) * 2 powi lsb_exp x)"

text \<open>The conversion of a double to an integer type drops the fraction.\<close>

definition truncate_dbl :: "rat \<Rightarrow> int" where
  "truncate_dbl x = (if 0 \<le> x then \<lfloor>x\<rfloor> else \<lceil>x\<rceil>)"

section \<open>The exponent\<close>

lemma nbits_bounds: "0 < n \<Longrightarrow> 2 ^ (nbits n - 1) \<le> n \<and> n < 2 ^ nbits n"
proof (induction n rule: nbits.induct)
  case (1 n)
  show ?case
  proof (cases "n div 2 = 0")
    case True
    then have "n = 1" using "1.prems" by linarith
    then show ?thesis by (simp add: nbits.simps [of 0] nbits.simps [of 1])
  next
    case False
    then have pos: "0 < n div 2" using "1.prems" by linarith
    then have "2 ^ (nbits (n div 2) - 1) \<le> n div 2 \<and> n div 2 < 2 ^ nbits (n div 2)" using "1.IH" "1.prems" by simp
    moreover have "nbits n = Suc (nbits (n div 2))" using "1.prems" by (simp add: nbits.simps)
    moreover have "0 < nbits (n div 2)" using pos by (simp add: nbits.simps)
    then have "(2::int) ^ nbits (n div 2) = 2 * 2 ^ (nbits (n div 2) - 1)" by (simp add: power_eq_if)
    ultimately show ?thesis by simp linarith
  qed
qed

lemma powi_int_diff: "(2::rat) powi (int a - int b) = 2 ^ a / 2 ^ b"
  by (simp add: power_int_diff)

lemma binade_bounds:
  assumes "x \<noteq> 0"
  shows "2 powi binade x \<le> \<bar>x\<bar> \<and> \<bar>x\<bar> < 2 powi (binade x + 1)"
proof -
  obtain p q where pq: "quotient_of \<bar>x\<bar> = (p, q)" by (cases "quotient_of \<bar>x\<bar>")
  have q: "0 < q" by (rule quotient_of_denom_pos [OF pq])
  have x: "\<bar>x\<bar> = of_int p / of_int q" by (rule quotient_of_div [OF pq])
  have p: "0 < p" using x assms q by (metis abs_of_nonneg divide_le_0_iff divide_eq_0_iff linorder_not_le not_less_iff_gr_or_eq of_int_0_less_iff of_int_0_le_iff zero_less_abs_iff zero_less_divide_iff)
  define a b where "a = nbits p" and "b = nbits q"
  have a: "2 ^ (a - 1) \<le> (of_int p :: rat)" "(of_int p :: rat) < 2 ^ a" "0 < a"
  proof -
    have "2 ^ (a - 1) \<le> p \<and> p < 2 ^ a" using nbits_bounds [of p] p by (simp add: a_def)
    then show "2 ^ (a - 1) \<le> (of_int p :: rat)" "(of_int p :: rat) < 2 ^ a"
      by (metis of_int_le_iff of_int_numeral of_int_power, metis of_int_less_iff of_int_numeral of_int_power)
    show "0 < a" using p by (simp add: a_def nbits.simps)
  qed
  have b: "2 ^ (b - 1) \<le> (of_int q :: rat)" "(of_int q :: rat) < 2 ^ b" "0 < b"
  proof -
    have "2 ^ (b - 1) \<le> q \<and> q < 2 ^ b" using nbits_bounds [of q] q by (simp add: b_def)
    then show "2 ^ (b - 1) \<le> (of_int q :: rat)" "(of_int q :: rat) < 2 ^ b"
      by (metis of_int_le_iff of_int_numeral of_int_power, metis of_int_less_iff of_int_numeral of_int_power)
    show "0 < b" using q by (simp add: b_def nbits.simps)
  qed
  define k where "k = int a - int b"
  have up: "\<bar>x\<bar> < 2 powi (k + 1)"
  proof -
    have "\<bar>x\<bar> \<le> of_int p / 2 ^ (b - 1)" unfolding x using b(1) p by (intro divide_left_mono) (simp_all add: q)
    also have "\<dots> < 2 ^ a / 2 ^ (b - 1)" using a(2) by (simp add: divide_strict_right_mono)
    also have "\<dots> = 2 powi (k + 1)" using powi_int_diff [of a "b - 1"] b(3) by (simp add: k_def of_nat_diff algebra_simps)
    finally show ?thesis .
  qed
  have lo: "2 powi (k - 1) \<le> \<bar>x\<bar>"
  proof -
    have "2 powi (k - 1) = 2 ^ (a - 1) / (2 ^ b :: rat)" using powi_int_diff [of "a - 1" b] a(3) by (simp add: k_def of_nat_diff algebra_simps)
    also have "\<dots> \<le> of_int p / 2 ^ b" using a(1) by (simp add: divide_right_mono)
    also have "\<dots> \<le> \<bar>x\<bar>" unfolding x using b(2) p by (intro divide_left_mono) (simp_all add: q)
    finally show ?thesis .
  qed
  show ?thesis using up lo by (simp add: binade_def pq Let_def a_def [symmetric] b_def [symmetric] k_def [symmetric])
qed

lemma powi_mono2: "(2::rat) powi a \<le> 2 powi b \<longleftrightarrow> a \<le> b"
  by (meson linorder_not_le one_less_numeral_iff order.strict_iff_order power_int_increasing power_int_strict_increasing semiring_norm(76))

lemma powi_less2: "(2::rat) powi a < 2 powi b \<longleftrightarrow> a < b"
  by (meson linorder_not_le powi_mono2)

lemma binade_mono: "0 < x \<Longrightarrow> x \<le> y \<Longrightarrow> binade x \<le> binade y"
proof -
  assume "0 < x" "x \<le> y"
  then have "2 powi binade x < (2::rat) powi (binade y + 1)"
    using binade_bounds [of x] binade_bounds [of y] by (simp add: order_le_less_trans)
  then show ?thesis by (simp add: powi_less2)
qed

lemma binade_abs: "binade (- x) = binade x" "lsb_exp (- x) = lsb_exp x"
  by (simp_all add: binade_def lsb_exp_def)

section \<open>Rounding to an integer\<close>

lemma rhe_of_int [simp]: "round_half_even (of_int n) = n"
  by (simp add: round_half_even_def)

lemma rhe_near: "of_int (round_half_even x) \<le> x + 1 / 2" "x - 1 / 2 \<le> of_int (round_half_even x)"
  by (auto simp: round_half_even_def Let_def; linarith)+

lemma rhe_mono:
  assumes "x \<le> y"
  shows "round_half_even x \<le> round_half_even y"
proof -
  have f: "\<lfloor>x\<rfloor> \<le> \<lfloor>y\<rfloor>" using assms by (rule floor_mono)
  show ?thesis
  proof (cases "\<lfloor>x\<rfloor> = \<lfloor>y\<rfloor>")
    case True
    then show ?thesis using assms by (simp add: round_half_even_def Let_def)
  next
    case False
    then show ?thesis using f by (simp add: round_half_even_def Let_def)
  qed
qed

lemma rhe_minus: "round_half_even (- x) = - round_half_even x"
proof (cases "x = of_int \<lfloor>x\<rfloor>")
  case True
  then show ?thesis by (metis of_int_minus rhe_of_int)
next
  case False
  have "of_int \<lfloor>x\<rfloor> < x" "x < of_int \<lfloor>x\<rfloor> + 1" using False of_int_floor_le [of x] by linarith+
  then have "\<lfloor>- x\<rfloor> = - \<lfloor>x\<rfloor> - 1" by (intro floor_unique) simp_all
  then show ?thesis by (auto simp: round_half_even_def Let_def)
qed

section \<open>Rounding to a double\<close>

lemma dbl_0 [simp]: "dbl 0 = 0"
  by (simp add: dbl_def)

lemma dbl_minus: "dbl (- x) = - dbl x"
  by (simp add: dbl_def binade_abs rhe_minus)

text \<open>The numbers with at most 53 significant bits round to themselves.\<close>

lemma dbl_scaled:
  assumes "lsb_exp x \<le> e" and "x = of_int m * 2 powi e"
  shows "dbl x = x"
proof (cases "x = 0")
  case False
  define j where "j = nat (e - lsb_exp x)"
  have "(2::rat) powi e = 2 powi lsb_exp x * 2 ^ j"
    using assms(1) by (simp add: j_def flip: power_int_add power_int_of_nat)
  then have "x = of_int (m * 2 ^ j) * 2 powi lsb_exp x" using assms(2) by (metis mult.assoc mult.commute of_int_mult of_int_numeral of_int_power)
  then have s: "x / 2 powi lsb_exp x = of_int (m * 2 ^ j)"
    by (metis nonzero_mult_div_cancel_right power_int_not_zero zero_neq_numeral)
  show ?thesis unfolding dbl_def s rhe_of_int using False s by (simp add: field_simps)
qed simp

lemma dbl_representable:
  assumes "\<bar>m\<bar> \<le> 2 ^ 53" and "- 1074 \<le> e"
  shows "dbl (of_int m * 2 powi e) = of_int m * 2 powi e"
proof -
  have small: "dbl (of_int m * 2 powi e) = of_int m * 2 powi e" if m: "\<bar>m\<bar> < 2 ^ 53" "m \<noteq> 0" and e: "- 1074 \<le> e" for m e
  proof (rule dbl_scaled)
    let ?x = "of_int m * 2 powi e :: rat"
    have x0: "?x \<noteq> 0" using m by simp
    have "\<bar>?x\<bar> < 2 ^ 53 * 2 powi e"
      using m by (simp add: abs_mult flip: of_int_abs)
    also have "\<dots> = 2 powi (53 + e)" by (simp add: power_int_add)
    finally have "2 powi binade ?x < (2::rat) powi (53 + e)" using binade_bounds [OF x0] by linarith
    then show "lsb_exp ?x \<le> e" using e by (simp add: powi_less2 lsb_exp_def)
  qed simp
  have "dbl (of_int m * 2 powi e) = of_int m * 2 powi e" if "\<bar>m\<bar> = 2 ^ 53"
  proof -
    define m' where "m' = (if m < 0 then - (2 ^ 52) else 2 ^ 52 :: int)"
    have r: "(of_int m * 2 powi e :: rat) = of_int m' * 2 powi (e + 1)"
      using that by (auto simp: m'_def power_int_add abs_if split: if_splits)
    show ?thesis unfolding r by (rule small) (use assms(2) in \<open>auto simp: m'_def\<close>)
  qed
  then show ?thesis using small [of m e] assms by (cases "m = 0"; cases "\<bar>m\<bar> = 2 ^ 53") auto
qed

lemma dbl_of_int: "\<bar>m\<bar> \<le> 2 ^ 53 \<Longrightarrow> dbl (of_int m) = of_int m"
  using dbl_representable [of m 0] by simp

text \<open>A power of two is a bound the rounding does not cross.\<close>

lemma rhe_scaled_bounds:
  assumes "0 < x"
  shows "0 \<le> round_half_even (x / 2 powi lsb_exp x)" "round_half_even (x / 2 powi lsb_exp x) \<le> 2 ^ 53"
proof -
  have "x < 2 powi (binade x + 1)" using binade_bounds [of x] assms by simp
  also have "\<dots> \<le> 2 powi (53 + lsb_exp x)" unfolding powi_mono2 by (simp add: lsb_exp_def)
  also have "\<dots> = 2 ^ 53 * 2 powi lsb_exp x" by (simp add: power_int_add)
  finally have "x / 2 powi lsb_exp x \<le> of_int (2 ^ 53)" by (simp add: divide_le_eq)
  then show "round_half_even (x / 2 powi lsb_exp x) \<le> 2 ^ 53" using rhe_mono rhe_of_int by metis
  have "of_int 0 \<le> x / 2 powi lsb_exp x" using assms by simp
  then show "0 \<le> round_half_even (x / 2 powi lsb_exp x)" using rhe_mono rhe_of_int by metis
qed

lemma dbl_idem_pos: "0 < x \<Longrightarrow> dbl (dbl x) = dbl x"
  using dbl_representable [of "round_half_even (x / 2 powi lsb_exp x)" "lsb_exp x"] rhe_scaled_bounds [of x]
  by (simp add: dbl_def [of x] lsb_exp_def [of x])

lemma dbl_idem [simp]: "dbl (dbl x) = dbl x"
  by (cases "0 < x"; cases "x = 0") (use dbl_idem_pos [of "- x"] in \<open>auto simp: dbl_idem_pos dbl_minus\<close>)

lemma dbl_below_power:
  assumes "0 < x" and "x < 2 powi e" and "lsb_exp x \<le> e"
  shows "dbl x \<le> 2 powi e"
proof -
  define j where "j = nat (e - lsb_exp x)"
  have pw: "(2::rat) powi e = of_int (2 ^ j) * 2 powi lsb_exp x"
    using assms(3) by (simp add: j_def mult.commute flip: power_int_add power_int_of_nat)
  then have "x / 2 powi lsb_exp x \<le> of_int (2 ^ j)" using assms(2) by (simp add: divide_le_eq)
  then have "round_half_even (x / 2 powi lsb_exp x) \<le> 2 ^ j" using rhe_mono rhe_of_int by metis
  then have "of_int (round_half_even (x / 2 powi lsb_exp x)) * 2 powi lsb_exp x \<le> (of_int (2 ^ j) * 2 powi lsb_exp x :: rat)"
    by (intro mult_right_mono) (simp_all only: of_int_le_iff, simp)
  then show ?thesis using assms(1) pw by (simp add: dbl_def)
qed

lemma dbl_above_power:
  assumes "0 < x" and "2 powi e \<le> x" and "lsb_exp x \<le> e"
  shows "2 powi e \<le> dbl x"
proof -
  define j where "j = nat (e - lsb_exp x)"
  have pw: "(2::rat) powi e = of_int (2 ^ j) * 2 powi lsb_exp x"
    using assms(3) by (simp add: j_def mult.commute flip: power_int_add power_int_of_nat)
  then have "of_int (2 ^ j) \<le> x / 2 powi lsb_exp x" using assms(2) by (simp add: le_divide_eq)
  then have "2 ^ j \<le> round_half_even (x / 2 powi lsb_exp x)" using rhe_mono rhe_of_int by metis
  then have "(of_int (2 ^ j) * 2 powi lsb_exp x :: rat) \<le> of_int (round_half_even (x / 2 powi lsb_exp x)) * 2 powi lsb_exp x"
    by (intro mult_right_mono) (simp_all only: of_int_le_iff, simp)
  then show ?thesis using assms(1) pw by (simp add: dbl_def)
qed

lemma dbl_mono_pos:
  assumes "0 < x" and "x \<le> y"
  shows "dbl x \<le> dbl y"
proof (cases "lsb_exp x = lsb_exp y")
  case True
  have "round_half_even (x / 2 powi lsb_exp y) \<le> round_half_even (y / 2 powi lsb_exp y)"
    using assms by (intro rhe_mono) (simp add: divide_right_mono)
  then show ?thesis using assms True by (simp add: dbl_def mult_right_mono)
next
  case False
  have b: "binade x \<le> binade y" using binade_mono assms by blast
  with False have l: "- 1074 < binade y - 52" "binade x < binade y" "lsb_exp y = binade y - 52"
    by (auto simp: lsb_exp_def max_def split: if_splits)
  have "x < 2 powi (binade x + 1)" using binade_bounds [of x] assms by simp
  also have "\<dots> \<le> 2 powi binade y" unfolding powi_mono2 using l by simp
  finally have "dbl x \<le> 2 powi binade y"
    using assms(1) l by (intro dbl_below_power) (auto simp: lsb_exp_def)
  moreover have "2 powi binade y \<le> dbl y"
    using assms l binade_bounds [of y] by (intro dbl_above_power) auto
  ultimately show ?thesis by linarith
qed

lemma dbl_nonneg: "0 \<le> x \<Longrightarrow> 0 \<le> dbl x"
  using rhe_scaled_bounds(1) [of x] by (cases "x = 0") (auto simp: dbl_def)

lemma dbl_mono: "x \<le> y \<Longrightarrow> dbl x \<le> dbl y"
proof -
  assume xy: "x \<le> y"
  consider "0 < x" | "x \<le> 0" "0 \<le> y" | "y < 0" using xy by linarith
  then show ?thesis
  proof cases
    case 2
    then show ?thesis using dbl_nonneg [of y] dbl_nonneg [of "- x"] by (simp add: dbl_minus)
  next
    case 3
    then show ?thesis using dbl_mono_pos [of "- y" "- x"] xy by (simp add: dbl_minus)
  qed (use xy dbl_mono_pos in blast)
qed

lemma dbl_less_imp: "dbl x < dbl y \<Longrightarrow> x < y"
  using dbl_mono [of y x] by linarith

text \<open>A double between two bounds that are doubles stays between them.\<close>

lemma dbl_le_fixed: "x \<le> y \<Longrightarrow> dbl y = y \<Longrightarrow> dbl x \<le> y"
  using dbl_mono [of x y] by simp

lemma dbl_ge_fixed: "x \<le> y \<Longrightarrow> dbl x = x \<Longrightarrow> x \<le> dbl y"
  using dbl_mono [of x y] by simp

lemma truncate_bounds: "0 \<le> x \<Longrightarrow> 0 \<le> truncate_dbl x" "0 \<le> x \<Longrightarrow> of_int (truncate_dbl x) \<le> x"
  by (simp_all add: truncate_dbl_def)

end
