(* ===== verification/Event_Queue.thy ===== *)
theory Event_Queue
  imports Pic Ieee_Double "HOL-Library.Monad_Syntax"
begin

text \<open>
  The timed event queue and the tick handlers of \<^verbatim>\<open>src/hardware/pic.cpp\<close> and the tick index of
  \<^verbatim>\<open>src/hardware/pic.h\<close>. The array of 512 entries is an explicit store addressed by slot, with the
  \<^verbatim>\<open>next\<close> pointers as slot numbers, threaded into the pending list and the free list; the tick
  handlers are blocks of a heap. Event and tick handlers are code of other components: a function
  from handler, value and state to state, which the operations take as an argument. \<open>machine\<close> is
  whatever else handlers act on. Loops over the lists are partial functions: a loop that does not
  end, a failed assertion, a conversion out of range and a use of freed memory are \<open>None\<close>.
\<close>

section \<open>State\<close>

definition PIC_QUEUESIZE :: nat where
  "PIC_QUEUESIZE = 512"

record 'h PICEntry =
  event_index :: rat
  event_value :: u64
  pic_event :: 'h
  next_event :: "nat option"

record 'h pic_queue =
  entries :: "nat \<Rightarrow> 'h PICEntry"
  free_entry :: "nat option"
  next_entry :: "nat option"

record 't TickerBlock =
  ticker_handler :: 't
  next_ticker :: "nat option"

record ('h, 't, 'm) events =
  queue :: "'h pic_queue"
  pic :: pic_state
  CPU_CycleMax :: int
  atomic_pic_index :: rat
  InEventService :: bool
  srv_lag :: rat
  firstticker :: "nat option"
  tickers :: "nat \<Rightarrow> 't TickerBlock option"
  heap_top :: nat
  machine :: 'm

definition set_next :: "nat \<Rightarrow> nat option \<Rightarrow> 'h pic_queue \<Rightarrow> 'h pic_queue" where
  "set_next e n q = q\<lparr>entries := (entries q)(e := (entries q e)\<lparr>next_event := n\<rparr>)\<rparr>"

section \<open>The tick index\<close>

definition PIC_TickIndexND :: "('h, 't, 'm) events \<Rightarrow> int" where
  "PIC_TickIndexND s = CPU_CycleMax s - CPU_CycleLeft (pic s) - CPU_Cycles (pic s)"

definition PIC_TickIndex :: "('h, 't, 'm) events \<Rightarrow> rat option" where
  "PIC_TickIndex s = (if CPU_CycleMax s = 0 then None
     else Some (dbl (of_int (PIC_TickIndexND s) / of_int (CPU_CycleMax s))))"

text \<open>A conversion to \<^verbatim>\<open>int32_t\<close> of a number outside its range is undefined.\<close>

definition to_int32 :: "rat \<Rightarrow> int option" where
  "to_int32 x = (if - (2 ^ 31) \<le> x \<and> x \<le> 2 ^ 31 - 1 then Some (truncate_dbl x) else None)"

definition PIC_MakeCycles :: "rat \<Rightarrow> ('h, 't, 'm) events \<Rightarrow> int option" where
  "PIC_MakeCycles amount s = to_int32 (dbl (of_int (CPU_CycleMax s) * amount))"

definition PIC_FullIndex :: "('h, 't, 'm) events \<Rightarrow> rat option" where
  "PIC_FullIndex s = map_option (\<lambda>i. dbl (of_nat (unat (PIC_Ticks (pic s))) + i)) (PIC_TickIndex s)"

definition PIC_UpdateAtomicIndex :: "('h, 't, 'm) events \<Rightarrow> ('h, 't, 'm) events option" where
  "PIC_UpdateAtomicIndex s = map_option (\<lambda>i. s\<lparr>atomic_pic_index := i\<rparr>) (PIC_FullIndex s)"

text \<open>\<^verbatim>\<open>CPU_CycleLeft += CPU_Cycles; CPU_Cycles = 0\<close>\<close>

definition stop_cycles :: "('h, 't, 'm) events \<Rightarrow> ('h, 't, 'm) events" where
  "stop_cycles s = s\<lparr>pic := (pic s)\<lparr>CPU_CycleLeft := CPU_CycleLeft (pic s) + CPU_Cycles (pic s), CPU_Cycles := 0\<rparr>\<rparr>"

section \<open>Adding and removing events\<close>

text \<open>The search of \<^verbatim>\<open>AddEntry\<close> for the place behind \<open>find_entry\<close>.\<close>

partial_function (option) add_after :: "nat \<Rightarrow> nat \<Rightarrow> 'h pic_queue \<Rightarrow> 'h pic_queue option" where
  "add_after entry find_entry q = (case next_event (entries q find_entry) of
     Some n \<Rightarrow> if event_index (entries q entry) < event_index (entries q n)
       then Some (set_next find_entry (Some entry) (set_next entry (Some n) q))
       else add_after entry n q
   | None \<Rightarrow> Some (set_next find_entry (Some entry) (set_next entry None q)))"

definition link_entry :: "nat \<Rightarrow> 'h pic_queue \<Rightarrow> 'h pic_queue option" where
  "link_entry entry q = (case next_entry q of
     None \<Rightarrow> Some ((set_next entry None q)\<lparr>next_entry := Some entry\<rparr>)
   | Some first \<Rightarrow>
       if event_index (entries q entry) < event_index (entries q first)
       then Some (set_next entry (Some first) (q\<lparr>next_entry := Some entry\<rparr>))
       else add_after entry first q)"

definition AddEntry :: "nat \<Rightarrow> ('h, 't, 'm) events \<Rightarrow> ('h, 't, 'm) events option" where
  "AddEntry entry s = do {
     q \<leftarrow> link_entry entry (queue s);
     tick \<leftarrow> PIC_TickIndex s;
     first \<leftarrow> next_entry q;
     cycles \<leftarrow> PIC_MakeCycles (dbl (event_index (entries q first) - tick)) s;
     let s1 = s\<lparr>queue := q\<rparr>;
     Some (if cycles < CPU_Cycles (pic s1) then stop_cycles s1 else s1)
   }"

text \<open>Filling the first free entry and taking it off the free list.\<close>

definition claim_entry :: "nat \<Rightarrow> rat \<Rightarrow> 'h \<Rightarrow> u64 \<Rightarrow> 'h pic_queue \<Rightarrow> 'h pic_queue" where
  "claim_entry entry i handler val q = (let
     e = (entries q entry)\<lparr>event_index := i, pic_event := handler, event_value := val\<rparr>
     in q\<lparr>entries := (entries q)(entry := e), free_entry := next_event e\<rparr>)"

definition PIC_AddEvent :: "'h \<Rightarrow> rat \<Rightarrow> u32 \<Rightarrow> ('h, 't, 'm) events \<Rightarrow> ('h, 't, 'm) events option" where
  "PIC_AddEvent handler delay val s = (case free_entry (queue s) of
     None \<Rightarrow> Some s
   | Some entry \<Rightarrow> do {
       base \<leftarrow> if InEventService s then Some (srv_lag s) else PIC_TickIndex s;
       AddEntry entry (s\<lparr>queue := claim_entry entry (dbl (delay + base)) handler (ucast val) (queue s)\<rparr>)
     })"

text \<open>
  The loop the two removal functions share, with the test of an entry as an argument: a matching
  entry is unlinked from its predecessor (or from the head) and put in front of the free list.
\<close>

partial_function (option) remove_loop ::
  "('h PICEntry \<Rightarrow> bool) \<Rightarrow> nat option \<Rightarrow> nat option \<Rightarrow> 'h pic_queue \<Rightarrow> 'h pic_queue option" where
  "remove_loop matches prev_entry entry q = (case entry of
     None \<Rightarrow> Some q
   | Some e \<Rightarrow>
       if matches (entries q e) then
         (case prev_entry of
            Some p \<Rightarrow>
              (let q1 = set_next p (next_event (entries q e)) q;
                   q2 = (set_next e (free_entry q1) q1)\<lparr>free_entry := Some e\<rparr>
               in remove_loop matches prev_entry (next_event (entries q2 p)) q2)
          | None \<Rightarrow>
              (let q1 = q\<lparr>next_entry := next_event (entries q e)\<rparr>;
                   q2 = (set_next e (free_entry q1) q1)\<lparr>free_entry := Some e\<rparr>
               in remove_loop matches prev_entry (next_entry q2) q2))
       else remove_loop matches (Some e) (next_event (entries q e)) q)"

definition PIC_RemoveSpecificEvents :: "'h \<Rightarrow> u32 \<Rightarrow> ('h, 't, 'm) events \<Rightarrow> ('h, 't, 'm) events option" where
  "PIC_RemoveSpecificEvents handler val s = map_option (\<lambda>q. s\<lparr>queue := q\<rparr>)
     (remove_loop (\<lambda>e. pic_event e = handler \<and> event_value e = ucast val) None (next_entry (queue s)) (queue s))"

definition PIC_RemoveEvents :: "'h \<Rightarrow> ('h, 't, 'm) events \<Rightarrow> ('h, 't, 'm) events option" where
  "PIC_RemoveEvents handler s = map_option (\<lambda>q. s\<lparr>queue := q\<rparr>)
     (remove_loop (\<lambda>e. pic_event e = handler) None (next_entry (queue s)) (queue s))"

section \<open>Running the queue\<close>

type_synonym ('h, 't, 'm) event_code = "'h \<Rightarrow> u32 \<Rightarrow> ('h, 't, 'm) events \<Rightarrow> ('h, 't, 'm) events option"

text \<open>Taking the first entry off the list, and putting a served entry on the free list.\<close>

definition take_entry :: "nat \<Rightarrow> ('h, 't, 'm) events \<Rightarrow> ('h, 't, 'm) events" where
  "take_entry e s = s\<lparr>queue := (queue s)\<lparr>next_entry := next_event (entries (queue s) e)\<rparr>,
     srv_lag := event_index (entries (queue s) e)\<rparr>"

definition free_slot :: "nat \<Rightarrow> ('h, 't, 'm) events \<Rightarrow> ('h, 't, 'm) events" where
  "free_slot e s = s\<lparr>queue := (set_next e (free_entry (queue s)) (queue s))\<lparr>free_entry := Some e\<rparr>\<rparr>"

definition due :: "rat \<Rightarrow> ('h, 't, 'm) events \<Rightarrow> nat \<Rightarrow> bool" where
  "due index_nd_f s e = (dbl (event_index (entries (queue s) e) * of_int (CPU_CycleMax s)) \<le> index_nd_f)"

partial_function (option) service_loop ::
  "('h, 't, 'm) event_code \<Rightarrow> rat \<Rightarrow> ('h, 't, 'm) events \<Rightarrow> ('h, 't, 'm) events option" where
  "service_loop run index_nd_f s = (case next_entry (queue s) of
     None \<Rightarrow> Some s
   | Some e \<Rightarrow>
       if due index_nd_f s e then
         Option.bind (run (pic_event (entries (queue s) e)) (ucast (event_value (entries (queue s) e))) (take_entry e s))
           (\<lambda>s1. service_loop run index_nd_f (free_slot e s1))
       else Some s)"

text \<open>The cycles to run until the next event, and the split of the cycles left.\<close>

definition next_cycles :: "rat \<Rightarrow> ('h, 't, 'm) events \<Rightarrow> int option" where
  "next_cycles index_nd_f s = (case next_entry (queue s) of
     None \<Rightarrow> Some (CPU_CycleLeft (pic s))
   | Some e \<Rightarrow> do {
       c \<leftarrow> to_int32 (dbl (dbl (event_index (entries (queue s) e) * of_int (CPU_CycleMax s)) - index_nd_f));
       let cycles = (if c = 0 then 1 else c);
       Some (if cycles < CPU_CycleLeft (pic s) then cycles else CPU_CycleLeft (pic s))
     })"

definition start_cycles :: "int \<Rightarrow> ('h, 't, 'm) events \<Rightarrow> ('h, 't, 'm) events" where
  "start_cycles c s = s\<lparr>pic := (pic s)\<lparr>CPU_Cycles := c, CPU_CycleLeft := CPU_CycleLeft (pic s) - c\<rparr>\<rparr>"

definition PIC_RunQueue ::
  "('h, 't, 'm) event_code \<Rightarrow> bool \<Rightarrow> bool \<Rightarrow> ('h, 't, 'm) events \<Rightarrow> (bool \<times> ('h, 't, 'm) events) option" where
  "PIC_RunQueue run if_flag trap_run s0 = do {
     s1 \<leftarrow> PIC_UpdateAtomicIndex s0;
     let s2 = stop_cycles s1;
     if CPU_CycleLeft (pic s2) \<le> 0 then Some (False, s2)
     else do {
       let index_nd_f = of_int (PIC_TickIndexND s2);
       s3 \<leftarrow> service_loop run index_nd_f (s2\<lparr>InEventService := True\<rparr>);
       let s4 = s3\<lparr>InEventService := False\<rparr>;
       c \<leftarrow> next_cycles index_nd_f s4;
       let s5 = start_cycles c s4;
       Some (True, s5\<lparr>pic := PIC_runIRQs if_flag trap_run (pic s5)\<rparr>)
     }
   }"

section \<open>Ticks\<close>

text \<open>\<^verbatim>\<open>tick_where\<close> points to the head variable or to the \<^verbatim>\<open>next\<close> field of a block.\<close>

definition store_ticker_link :: "nat option \<Rightarrow> nat option \<Rightarrow> ('h, 't, 'm) events \<Rightarrow> ('h, 't, 'm) events" where
  "store_ticker_link tick_where n s = (case tick_where of
     None \<Rightarrow> s\<lparr>firstticker := n\<rparr>
   | Some b \<Rightarrow> s\<lparr>tickers := (tickers s)(b := map_option (\<lambda>t. t\<lparr>next_ticker := n\<rparr>) (tickers s b))\<rparr>)"

partial_function (option) del_ticker_loop ::
  "'t \<Rightarrow> nat option \<Rightarrow> nat option \<Rightarrow> ('h, 't, 'm) events \<Rightarrow> ('h, 't, 'm) events option" where
  "del_ticker_loop handler tick_where ticker s = (case ticker of
     None \<Rightarrow> Some s
   | Some b \<Rightarrow> (case tickers s b of
       None \<Rightarrow> None
     | Some t \<Rightarrow>
         if ticker_handler t = handler then
           (let s1 = store_ticker_link tick_where (next_ticker t) s
            in Some (s1\<lparr>tickers := (tickers s1)(b := None)\<rparr>))
         else del_ticker_loop handler (Some b) (next_ticker t) s))"

definition TIMER_DelTickHandler :: "'t \<Rightarrow> ('h, 't, 'm) events \<Rightarrow> ('h, 't, 'm) events option" where
  "TIMER_DelTickHandler handler s = del_ticker_loop handler None (firstticker s) s"

text \<open>\<^verbatim>\<open>new\<close> returns a block that was never used: freed blocks stay invalid.\<close>

definition TIMER_AddTickHandler :: "'t \<Rightarrow> ('h, 't, 'm) events \<Rightarrow> ('h, 't, 'm) events" where
  "TIMER_AddTickHandler handler s = s\<lparr>
     tickers := (tickers s)(heap_top s \<mapsto> \<lparr>ticker_handler = handler, next_ticker = firstticker s\<rparr>),
     firstticker := Some (heap_top s), heap_top := heap_top s + 1\<rparr>"

partial_function (option) lower_loop :: "nat option \<Rightarrow> 'h pic_queue \<Rightarrow> 'h pic_queue option" where
  "lower_loop entry q = (case entry of
     None \<Rightarrow> Some q
   | Some e \<Rightarrow>
       (let q1 = q\<lparr>entries := (entries q)(e := (entries q e)\<lparr>event_index := dbl (event_index (entries q e) - 1)\<rparr>)\<rparr>
        in lower_loop (next_event (entries q1 e)) q1))"

partial_function (option) ticker_loop ::
  "('t \<Rightarrow> ('h, 't, 'm) events \<Rightarrow> ('h, 't, 'm) events option) \<Rightarrow> nat option \<Rightarrow> ('h, 't, 'm) events \<Rightarrow> ('h, 't, 'm) events option" where
  "ticker_loop run_ticker ticker s = (case ticker of
     None \<Rightarrow> Some s
   | Some b \<Rightarrow> (case tickers s b of
       None \<Rightarrow> None
     | Some t \<Rightarrow> Option.bind (run_ticker (ticker_handler t) s) (\<lambda>s1. ticker_loop run_ticker (next_ticker t) s1)))"

definition TIMER_AddTick ::
  "('t \<Rightarrow> ('h, 't, 'm) events \<Rightarrow> ('h, 't, 'm) events option) \<Rightarrow> ('h, 't, 'm) events \<Rightarrow> ('h, 't, 'm) events option" where
  "TIMER_AddTick run_ticker s0 = do {
     let s = s0\<lparr>pic := (pic s0)\<lparr>CPU_CycleLeft := CPU_CycleMax s0, CPU_Cycles := 0, PIC_Ticks := PIC_Ticks (pic s0) + 1\<rparr>\<rparr>;
     q \<leftarrow> lower_loop (next_entry (queue s)) (queue s);
     ticker_loop run_ticker (firstticker s) (s\<lparr>queue := q\<rparr>)
   }"

section \<open>Initialisation\<close>

definition init_queue :: "'h pic_queue \<Rightarrow> 'h pic_queue" where
  "init_queue q = (set_next (PIC_QUEUESIZE - 1) None (fold (\<lambda>i. set_next i (Some (i + 1))) [0..<PIC_QUEUESIZE - 1] q))
     \<lparr>free_entry := Some 0, next_entry := None\<rparr>"

text \<open>The constructor of \<^verbatim>\<open>PIC_8259A\<close>: the controllers, then the queue.\<close>

definition PIC_Init :: "('h, 't, 'm) events \<Rightarrow> ('h, 't, 'm) events" where
  "PIC_Init s = s\<lparr>pic := PIC_8259A (pic s), queue := init_queue (queue s)\<rparr>"

end
