(* ===== verification/Event_Lists.thy ===== *)
theory Event_Lists
  imports Event_Queue
begin

text \<open>
  The pointer structure of the event queue: the slots a chain of \<^verbatim>\<open>next\<close> pointers visits as a list,
  the representation invariant (pending and free slots partition the array, pending indices are
  sorted doubles), and what linking, unlinking and walking do to the lists.
\<close>

section \<open>Chains\<close>

fun threaded :: "(nat \<Rightarrow> 'h PICEntry) \<Rightarrow> nat option \<Rightarrow> nat list \<Rightarrow> nat option \<Rightarrow> bool" where
  "threaded es p [] r \<longleftrightarrow> p = r"
| "threaded es p (x # xs) r \<longleftrightarrow> p = Some x \<and> threaded es (next_event (es x)) xs r"

lemma threaded_append [simp]: "threaded es p (xs @ ys) r \<longleftrightarrow> (\<exists>m. threaded es p xs m \<and> threaded es m ys r)"
  by (induction xs arbitrary: p) auto

lemma threaded_None [simp]: "threaded es None xs None \<longleftrightarrow> xs = []"
  by (cases xs) auto

lemma threaded_frame: "(\<And>x. x \<in> set xs \<Longrightarrow> next_event (es' x) = next_event (es x)) \<Longrightarrow> threaded es' p xs r \<longleftrightarrow> threaded es p xs r"
  by (induction xs arbitrary: p) auto

lemma threaded_upd [simp]: "x \<notin> set xs \<Longrightarrow> threaded (es(x := e)) p xs r \<longleftrightarrow> threaded es p xs r"
  by (rule threaded_frame) auto

lemma threaded_unique: "threaded es p xs None \<Longrightarrow> threaded es p ys None \<Longrightarrow> xs = ys"
proof (induction xs arbitrary: p ys)
  case Nil
  then show ?case by simp
next
  case (Cons x xs)
  then show ?case by (cases ys) auto
qed

text \<open>What an entry tells apart from its link.\<close>

definition ev_data :: "'h PICEntry \<Rightarrow> rat \<times> 'h \<times> u64" where
  "ev_data e = (event_index e, pic_event e, event_value e)"

lemma ev_data_next [simp]: "ev_data (e\<lparr>next_event := n\<rparr>) = ev_data e"
  by (simp add: ev_data_def)

lemma fst_ev_data [simp]: "fst (ev_data e) = event_index e"
  by (simp add: ev_data_def)

lemma set_next_simps [simp]:
  "entries (set_next e n q) = (entries q)(e := (entries q e)\<lparr>next_event := n\<rparr>)"
  "free_entry (set_next e n q) = free_entry q" "next_entry (set_next e n q) = next_entry q"
  by (simp_all add: set_next_def)

text \<open>
  \<open>relinked V q q'\<close>: only links changed, and only those of slots in \<open>V\<close>.
\<close>

definition relinked :: "nat set \<Rightarrow> 'h pic_queue \<Rightarrow> 'h pic_queue \<Rightarrow> bool" where
  "relinked V q q' \<longleftrightarrow> (\<forall>p. ev_data (entries q' p) = ev_data (entries q p)) \<and> (\<forall>p. p \<notin> V \<longrightarrow> entries q' p = entries q p)"

lemma relinked_refl [simp]: "relinked V q q"
  by (simp add: relinked_def)

lemma relinked_trans: "relinked V q1 q2 \<Longrightarrow> relinked V q2 q3 \<Longrightarrow> relinked V q1 q3"
  by (simp add: relinked_def)

lemma relinked_mono: "relinked V q q' \<Longrightarrow> V \<subseteq> W \<Longrightarrow> relinked W q q'"
  by (auto simp: relinked_def)

lemma relinked_set_next [intro]: "relinked V q (set_next e n q)" if "e \<in> V"
  using that by (simp add: relinked_def)

lemma relinked_heads [simp]:
  "relinked V q (q'\<lparr>next_entry := h\<rparr>) = relinked V q q'" "relinked V q (q'\<lparr>free_entry := h\<rparr>) = relinked V q q'"
  "relinked V (q\<lparr>next_entry := h\<rparr>) q' = relinked V q q'" "relinked V (q\<lparr>free_entry := h\<rparr>) q' = relinked V q q'"
  by (simp_all add: relinked_def)

lemma relinked_data:
  assumes "relinked V q q'"
  shows "ev_data (entries q' p) = ev_data (entries q p)" "event_index (entries q' p) = event_index (entries q p)"
  using assms by (auto simp: relinked_def ev_data_def)

lemma relinked_chain:
  assumes "relinked V q q'" and "V \<inter> set xs = {}"
  shows "threaded (entries q') p xs r \<longleftrightarrow> threaded (entries q) p xs r"
proof (rule threaded_frame)
  fix x assume "x \<in> set xs"
  then show "next_event (entries q' x) = next_event (entries q x)" using assms by (auto simp: relinked_def)
qed

section \<open>Linking an entry\<close>

text \<open>Insertion behind all entries that are not later.\<close>

definition insert_slot :: "'h pic_queue \<Rightarrow> nat \<Rightarrow> nat list \<Rightarrow> nat list" where
  "insert_slot q e ps = (let early = (\<lambda>p. event_index (entries q p) \<le> event_index (entries q e))
     in takeWhile early ps @ e # dropWhile early ps)"

lemma insert_slot_simps:
  "insert_slot q e [] = [e]"
  "event_index (entries q p) \<le> event_index (entries q e) \<Longrightarrow> insert_slot q e (p # ps) = p # insert_slot q e ps"
  "event_index (entries q e) < event_index (entries q p) \<Longrightarrow> insert_slot q e (p # ps) = e # p # ps"
  by (simp_all add: insert_slot_def Let_def)

lemma set_insert_slot [simp]: "set (insert_slot q e ps) = insert e (set ps)"
proof -
  have "set (takeWhile P ps) \<union> set (dropWhile P ps) = set ps" for P
    by (metis set_append takeWhile_dropWhile_id)
  then show ?thesis by (auto simp: insert_slot_def Let_def)
qed

lemma distinct_insert_slot [simp]: "distinct (insert_slot q e ps) \<longleftrightarrow> distinct ps \<and> e \<notin> set ps"
proof -
  have "distinct (takeWhile P ps @ e # dropWhile P ps) \<longleftrightarrow> distinct (takeWhile P ps @ dropWhile P ps) \<and> e \<notin> set (takeWhile P ps @ dropWhile P ps)" for P
    by (simp only: distinct_append distinct.simps set_append set_simps) blast
  then show ?thesis by (simp only: insert_slot_def Let_def takeWhile_dropWhile_id)
qed

lemma add_after_chain:
  assumes "threaded (entries q) (Some x) (x # xs) None" and "distinct (x # xs)" and "e \<notin> set (x # xs)"
  shows "\<exists>q'. add_after e x q = Some q' \<and> threaded (entries q') (Some x) (x # insert_slot q e xs) None \<and>
    relinked (insert e (set (x # xs))) q q' \<and> next_entry q' = next_entry q \<and> free_entry q' = free_entry q"
  using assms
proof (induction xs arbitrary: x)
  case Nil
  then show ?case
    by (subst add_after.simps) (auto simp: insert_slot_simps relinked_def)
next
  case (Cons y ys)
  then have nx: "next_event (entries q x) = Some y" by simp
  show ?case
  proof (cases "event_index (entries q e) < event_index (entries q y)")
    case True
    then show ?thesis
      using Cons.prems nx by (subst add_after.simps) (auto simp: insert_slot_simps relinked_def)
  next
    case False
    have "threaded (entries q) (Some y) (y # ys) None" "distinct (y # ys)" "e \<notin> set (y # ys)"
      using Cons.prems by auto
    from Cons.IH [OF this] obtain q' where q': "add_after e y q = Some q'" "threaded (entries q') (Some y) (y # insert_slot q e ys) None"
      "relinked (insert e (set (y # ys))) q q'" "next_entry q' = next_entry q" "free_entry q' = free_entry q" by blast
    have "entries q' x = entries q x" using q'(3) Cons.prems by (auto simp: relinked_def)
    moreover have "relinked (insert e (set (x # y # ys))) q q'" using q'(3) by (rule relinked_mono) auto
    moreover have "add_after e x q = Some q'" using nx False q'(1) by (subst add_after.simps) simp
    ultimately show ?thesis using q' False nx by (simp add: insert_slot_simps)
  qed
qed

lemma link_entry_chain:
  assumes "threaded (entries q) (next_entry q) ps None" and "distinct ps" and "e \<notin> set ps"
  shows "\<exists>q'. link_entry e q = Some q' \<and> threaded (entries q') (next_entry q') (insert_slot q e ps) None \<and>
    relinked (insert e (set ps)) q q' \<and> free_entry q' = free_entry q"
proof (cases ps)
  case Nil
  then show ?thesis using assms(1) by (simp add: link_entry_def insert_slot_simps relinked_def)
next
  case (Cons x xs)
  then have h: "next_entry q = Some x" using assms(1) by simp
  show ?thesis
  proof (cases "event_index (entries q e) < event_index (entries q x)")
    case True
    then show ?thesis using assms Cons h by (simp add: link_entry_def insert_slot_simps relinked_def)
  next
    case False
    with add_after_chain [of q x xs e] assms Cons h show ?thesis by (auto simp: link_entry_def insert_slot_simps)
  qed
qed

section \<open>Unlinking entries\<close>

text \<open>A test that reads the handler and the value only.\<close>

definition link_blind :: "('h PICEntry \<Rightarrow> bool) \<Rightarrow> bool" where
  "link_blind matches \<longleftrightarrow> (\<forall>e e'. ev_data e = ev_data e' \<longrightarrow> matches e = matches e')"

lemma threaded_snoc_upd:
  "distinct (us @ [u]) \<Longrightarrow> threaded es p (us @ [u]) r \<Longrightarrow> threaded (es(u := (es u)\<lparr>next_event := r'\<rparr>)) p (us @ [u]) r'"
  by auto

lemma remove_loop_chain:
  assumes "threaded (entries q) (next_entry q) (us @ xs) None" and "threaded (entries q) (free_entry q) fs None"
    and "distinct (us @ xs @ fs)" and "link_blind matches"
    and "prev = (if us = [] then None else Some (last us))" and "entry = (case xs of [] \<Rightarrow> None | x # _ \<Rightarrow> Some x)"
  shows "\<exists>q'. remove_loop matches prev entry q = Some q' \<and>
    threaded (entries q') (next_entry q') (us @ filter (\<lambda>p. \<not> matches (entries q p)) xs) None \<and>
    threaded (entries q') (free_entry q') (rev (filter (\<lambda>p. matches (entries q p)) xs) @ fs) None \<and>
    relinked (set (us @ xs)) q q'"
  using assms
proof (induction xs arbitrary: q us fs prev entry)
  case Nil
  then show ?case by (subst remove_loop.simps) simp
next
  case (Cons x xs)
  have en: "entry = Some x" using Cons.prems(6) by simp
  have nx: "threaded (entries q) (next_event (entries q x)) xs None" using Cons.prems(1) by auto
  then have nx': "next_event (entries q x) = (case xs of [] \<Rightarrow> None | x # _ \<Rightarrow> Some x)" by (cases xs) auto
  show ?case
  proof (cases "matches (entries q x)")
    case False
    have "remove_loop matches prev entry q = remove_loop matches (Some x) (next_event (entries q x)) q"
      using False en by (subst remove_loop.simps) simp
    moreover have "threaded (entries q) (next_entry q) ((us @ [x]) @ xs) None" using Cons.prems(1) by simp
    moreover have "distinct ((us @ [x]) @ xs @ fs)" using Cons.prems(3) by simp
    moreover have "Some x = (if us @ [x] = [] then None else Some (last (us @ [x])))" by simp
    from Cons.IH [OF calculation(2) Cons.prems(2) calculation(3) Cons.prems(4) this nx']
    obtain q' where "remove_loop matches (Some x) (next_event (entries q x)) q = Some q'"
      "threaded (entries q') (next_entry q') ((us @ [x]) @ filter (\<lambda>p. \<not> matches (entries q p)) xs) None"
      "threaded (entries q') (free_entry q') (rev (filter (\<lambda>p. matches (entries q p)) xs) @ fs) None"
      "relinked (set ((us @ [x]) @ xs)) q q'" by blast
    ultimately show ?thesis using False by simp
  next
    case True
    define q2 where "q2 = (case prev of
        Some p \<Rightarrow> (set_next x (free_entry q) (set_next p (next_event (entries q x)) q))\<lparr>free_entry := Some x\<rparr>
      | None \<Rightarrow> (set_next x (free_entry q) (q\<lparr>next_entry := next_event (entries q x)\<rparr>))\<lparr>free_entry := Some x\<rparr>)"
    have r: "remove_loop matches prev entry q = remove_loop matches prev (next_event (entries q x)) q2"
    proof (cases "us = []")
      case True
      then show ?thesis using \<open>matches (entries q x)\<close> en Cons.prems(5) by (subst remove_loop.simps) (simp add: q2_def Let_def)
    next
      case False
      then have "last us \<noteq> x" using Cons.prems(3) by (cases us rule: rev_cases) auto
      then show ?thesis using \<open>matches (entries q x)\<close> en Cons.prems(5) False by (subst remove_loop.simps) (simp add: q2_def Let_def)
    qed
    have rl: "relinked (set (us @ x # xs)) q q2"
      using Cons.prems(5) by (auto simp: q2_def relinked_def)
    have c1: "threaded (entries q2) (next_entry q2) (us @ xs) None"
    proof (cases us rule: rev_cases)
      case Nil
      then show ?thesis using nx Cons.prems by (simp add: q2_def)
    next
      case (snoc vs v)
      then show ?thesis using nx Cons.prems by (auto simp: q2_def)
    qed
    have c2: "threaded (entries q2) (free_entry q2) (x # fs) None"
      using Cons.prems by (cases us rule: rev_cases) (auto simp: q2_def)
    have d: "distinct (us @ xs @ x # fs)" using Cons.prems(3) by auto
    have m: "matches (entries q2 p) = matches (entries q p)" for p
      using Cons.prems(4) relinked_data(1) [OF rl] unfolding link_blind_def by blast
    from Cons.IH [OF c1 c2 d Cons.prems(4,5) nx']
    obtain q' where "remove_loop matches prev (next_event (entries q x)) q2 = Some q'"
      "threaded (entries q') (next_entry q') (us @ filter (\<lambda>p. \<not> matches (entries q p)) xs) None"
      "threaded (entries q') (free_entry q') (rev (filter (\<lambda>p. matches (entries q p)) xs) @ x # fs) None"
      "relinked (set (us @ xs)) q2 q'" unfolding m by blast
    moreover have "relinked (set (us @ x # xs)) q q'"
      by (rule relinked_trans [OF rl]) (rule relinked_mono [OF calculation(4)], auto)
    ultimately show ?thesis using r True by auto
  qed
qed

section \<open>Lowering the indices\<close>

definition lowered :: "'h PICEntry \<Rightarrow> 'h PICEntry" where
  "lowered e = e\<lparr>event_index := dbl (event_index e - 1)\<rparr>"

lemma lower_loop_chain:
  assumes "threaded (entries q) p ps None" and "distinct ps"
  shows "lower_loop p q = Some (q\<lparr>entries := (\<lambda>x. if x \<in> set ps then lowered (entries q x) else entries q x)\<rparr>)"
  using assms
proof (induction ps arbitrary: p q)
  case Nil
  then show ?case by (subst lower_loop.simps) simp
next
  case (Cons x xs)
  define q1 where "q1 = q\<lparr>entries := (entries q)(x := lowered (entries q x))\<rparr>"
  have "threaded (entries q1) (next_event (entries q x)) xs None" using Cons.prems by (simp add: q1_def)
  from Cons.IH [OF this] Cons.prems have
    "lower_loop (next_event (entries q x)) q1 = Some (q1\<lparr>entries := (\<lambda>y. if y \<in> set xs then lowered (entries q1 y) else entries q1 y)\<rparr>)" by simp
  moreover have "lower_loop p q = lower_loop (next_event (entries q x)) q1"
    using Cons.prems by (subst lower_loop.simps) (simp add: q1_def lowered_def Let_def)
  moreover have "(\<lambda>y. if y \<in> set xs then lowered (entries q1 y) else entries q1 y) = (\<lambda>y. if y \<in> set (x # xs) then lowered (entries q y) else entries q y)"
    using Cons.prems by (auto simp: q1_def)
  ultimately show ?case by (simp add: q1_def)
qed

end
