(* ===== verification/Event_Store.thy ===== *)
theory Event_Store
  imports Event_Lists
begin

text \<open>
  The event queue as an abstract data type: a sorted list of pending events and a number of free
  slots. The locale states what a bounded timed queue promises; the array with its two threaded
  lists is shown to be one, for any slots that are being served.
\<close>

section \<open>The interface\<close>

definition insert_event :: "'k::linorder \<times> 'e \<Rightarrow> ('k \<times> 'e) list \<Rightarrow> ('k \<times> 'e) list" where
  "insert_event ev xs = takeWhile (\<lambda>x. fst x \<le> fst ev) xs @ ev # dropWhile (\<lambda>x. fst x \<le> fst ev) xs"

lemma set_insert_event [simp]: "set (insert_event ev xs) = insert ev (set xs)"
proof -
  have "set (takeWhile P xs) \<union> set (dropWhile P xs) = set xs" for P
    by (metis set_append takeWhile_dropWhile_id)
  then show ?thesis by (auto simp: insert_event_def)
qed

lemma length_insert_event [simp]: "length (insert_event ev xs) = Suc (length xs)"
  by (simp add: insert_event_def) (metis length_append takeWhile_dropWhile_id)

lemma insert_event_Cons:
  "insert_event ev (x # xs) = (if fst x \<le> fst ev then x # insert_event ev xs else ev # x # xs)"
  by (simp add: insert_event_def)

lemma insert_event_Nil [simp]: "insert_event ev [] = [ev]"
  by (simp add: insert_event_def)

lemma sorted_insert_event: "sorted (map fst xs) \<Longrightarrow> sorted (map fst (insert_event ev xs))"
  by (induction xs) (auto simp: insert_event_Cons)

lemma filter_insert_event: "filter P (insert_event ev xs) = (if P ev then insert_event ev (filter P xs) else filter P xs)"
  if "sorted (map fst xs)"
  using that
proof (induction xs)
  case (Cons x xs)
  have "insert_event ev ys = ev # ys" if "\<forall>y\<in>set ys. fst ev < fst y" for ys
    using that by (cases ys) (auto simp: insert_event_Cons)
  moreover have "\<forall>y\<in>set (filter P xs). fst ev < fst y" if "\<not> fst x \<le> fst ev" using Cons.prems that by fastforce
  ultimately show ?case using Cons by (auto simp: insert_event_Cons)
qed simp

locale timed_queue =
  fixes stored :: "'s \<Rightarrow> ('k::linorder \<times> 'e) list \<Rightarrow> nat \<Rightarrow> bool"
    and capacity :: nat
    and put :: "'k \<Rightarrow> 'e \<Rightarrow> 's \<Rightarrow> 's option"
    and del :: "('e \<Rightarrow> bool) \<Rightarrow> 's \<Rightarrow> 's option"
  assumes stored_sorted: "stored s xs n \<Longrightarrow> sorted (map fst xs)"
    and stored_capacity: "stored s xs n \<Longrightarrow> length xs + n = capacity"
    and put_full: "stored s xs 0 \<Longrightarrow> put k e s = Some s"
    and put_inserts: "stored s xs (Suc n) \<Longrightarrow> \<exists>t. put k e s = Some t \<and> stored t (insert_event (k, e) xs) n"
    and del_filters: "stored s xs n \<Longrightarrow>
      \<exists>t. del P s = Some t \<and> stored t (filter (\<lambda>x. \<not> P (snd x)) xs) (n + length (filter (\<lambda>x. P (snd x)) xs))"
begin

text \<open>An operation of the queue never fails and never loses or invents a slot.\<close>

lemma put_returns:
  assumes "stored s xs n"
  shows "\<exists>t ys m. put k e s = Some t \<and> stored t ys m \<and> length ys + m = length xs + n"
proof (cases n)
  case 0
  with assms put_full show ?thesis by blast
next
  case (Suc m)
  with assms put_inserts [of s xs m k e] show ?thesis by force
qed

text \<open>Scheduling an event and removing the events of that kind undo each other.\<close>

lemma put_del:
  assumes st: "stored s xs (Suc n)" and "P e" and "\<forall>x\<in>set xs. \<not> P (snd x)"
  shows "\<exists>t u. put k e s = Some t \<and> del P t = Some u \<and> stored u xs (Suc n)"
proof -
  obtain t where t: "put k e s = Some t" "stored t (insert_event (k, e) xs) n" using put_inserts [OF st] by blast
  obtain u where u: "del P t = Some u"
    "stored u (filter (\<lambda>x. \<not> P (snd x)) (insert_event (k, e) xs)) (n + length (filter (\<lambda>x. P (snd x)) (insert_event (k, e) xs)))"
    using del_filters [OF t(2)] by blast
  have "filter (\<lambda>x. P (snd x)) xs = []" "filter (\<lambda>x. \<not> P (snd x)) xs = xs" using assms(3) by auto
  with u(2) have "stored u xs (Suc n)" using assms(2) by (simp add: filter_insert_event [OF stored_sorted [OF st]])
  with t(1) u(1) show ?thesis by blast
qed

text \<open>The first pending event after an insertion is the new one or the old first, whichever is earlier.\<close>

lemma put_first:
  assumes st: "stored s xs (Suc n)"
  shows "\<exists>t y ys. put k e s = Some t \<and> stored t (y # ys) n \<and>
    (y = (if xs = [] \<or> k < fst (hd xs) then (k, e) else hd xs))"
  using put_inserts [OF st, of k e] by (cases xs) (auto simp: insert_event_Cons not_less split: if_splits)

end

section \<open>The array of entries\<close>

definition queue_rep :: "nat list \<Rightarrow> 'h pic_queue \<Rightarrow> nat list \<Rightarrow> nat list \<Rightarrow> bool" where
  "queue_rep busy q ps fs \<longleftrightarrow> threaded (entries q) (next_entry q) ps None \<and> threaded (entries q) (free_entry q) fs None \<and>
     distinct (busy @ ps @ fs) \<and> set (busy @ ps @ fs) = {..<PIC_QUEUESIZE} \<and>
     sorted (map (\<lambda>p. event_index (entries q p)) ps)"

definition stored :: "nat list \<Rightarrow> 'h pic_queue \<Rightarrow> (rat \<times> 'h \<times> u64) list \<Rightarrow> nat \<Rightarrow> bool" where
  "stored busy q xs n \<longleftrightarrow> (\<exists>ps fs. queue_rep busy q ps fs \<and> xs = map (\<lambda>p. ev_data (entries q p)) ps \<and> n = length fs)"

definition put_event :: "rat \<Rightarrow> 'h \<times> u64 \<Rightarrow> 'h pic_queue \<Rightarrow> 'h pic_queue option" where
  "put_event i hv q = (case free_entry q of None \<Rightarrow> Some q
     | Some e \<Rightarrow> link_entry e (claim_entry e i (fst hv) (snd hv) q))"

definition del_events :: "('h \<times> u64 \<Rightarrow> bool) \<Rightarrow> 'h pic_queue \<Rightarrow> 'h pic_queue option" where
  "del_events P q = remove_loop (\<lambda>e. P (pic_event e, event_value e)) None (next_entry q) q"

lemma rep_slots:
  assumes "queue_rep busy q ps fs"
  shows "length busy + length ps + length fs = PIC_QUEUESIZE"
proof -
  have "card (set (busy @ ps @ fs)) = length (busy @ ps @ fs)"
    using assms by (intro distinct_card) (simp add: queue_rep_def)
  moreover have "set (busy @ ps @ fs) = {..<PIC_QUEUESIZE}" using assms by (simp only: queue_rep_def)
  ultimately show ?thesis by simp
qed

lemma insert_slot_data:
  "map (\<lambda>p. ev_data (entries q p)) (insert_slot q e ps) = insert_event (ev_data (entries q e)) (map (\<lambda>p. ev_data (entries q p)) ps)"
  by (induction ps) (auto simp: insert_slot_def insert_event_def Let_def)

lemma map_fst_data: "map fst (map (\<lambda>p. ev_data (entries q p)) ps) = map (\<lambda>p. event_index (entries q p)) ps"
  by simp

lemma put_event_rep:
  assumes rep: "queue_rep busy q ps (f # fs)"
  shows "\<exists>q' ps'. put_event i hv q = Some q' \<and> queue_rep busy q' ps' fs \<and>
    map (\<lambda>p. ev_data (entries q' p)) ps' = insert_event (i, hv) (map (\<lambda>p. ev_data (entries q p)) ps)"
proof -
  define q1 where "q1 = claim_entry f i (fst hv) (snd hv) q"
  have fr: "free_entry q = Some f" using rep by (simp add: queue_rep_def)
  have f: "f \<notin> set ps" "f \<notin> set fs" using rep by (auto simp: queue_rep_def)
  have same: "entries q1 p = entries q p" if "p \<noteq> f" for p using that by (simp add: q1_def claim_entry_def Let_def)
  have dat: "ev_data (entries q1 f) = (i, hv)" by (simp add: q1_def claim_entry_def Let_def ev_data_def)
  have c: "threaded (entries q1) (next_entry q1) ps None" "threaded (entries q1) (free_entry q1) fs None"
    using rep f by (simp_all add: queue_rep_def q1_def claim_entry_def Let_def)
  have d: "distinct ps" using rep by (simp add: queue_rep_def)
  from link_entry_chain [OF c(1) d f(1)] obtain q' where q': "link_entry f q1 = Some q'"
    "threaded (entries q') (next_entry q') (insert_slot q1 f ps) None" "relinked (insert f (set ps)) q1 q'"
    "free_entry q' = free_entry q1" by blast
  have "insert f (set ps) \<inter> set fs = {}" using rep f by (auto simp: queue_rep_def)
  then have "threaded (entries q') (free_entry q') fs None" using relinked_chain [OF q'(3)] c(2) q'(4) by simp
  moreover have "ev_data (entries q1 p) = ev_data (entries q p)" if "p \<in> set ps" for p
  proof -
    from that f(1) have "p \<noteq> f" by blast
    then show ?thesis by (simp add: same)
  qed
  then have data: "map (\<lambda>p. ev_data (entries q1 p)) ps = map (\<lambda>p. ev_data (entries q p)) ps"
    by (simp only: map_eq_conv) blast
  then have dd: "map (\<lambda>p. ev_data (entries q' p)) (insert_slot q1 f ps) = insert_event (i, hv) (map (\<lambda>p. ev_data (entries q p)) ps)"
    using insert_slot_data [of q1 f ps] by (simp only: data dat relinked_data(1) [OF q'(3)])
  moreover have "sorted (map (\<lambda>p. event_index (entries q' p)) (insert_slot q1 f ps))"
    unfolding map_fst_data [symmetric] dd using rep by (intro sorted_insert_event) (simp add: queue_rep_def comp_def)
  moreover have "distinct (busy @ insert_slot q1 f ps @ fs)" "set (busy @ insert_slot q1 f ps @ fs) = {..<PIC_QUEUESIZE}"
    using rep f by (auto simp: queue_rep_def)
  ultimately have "queue_rep busy q' (insert_slot q1 f ps) fs" using q'(2) unfolding queue_rep_def by blast
  moreover have "put_event i hv q = Some q'" using fr q'(1) by (simp add: put_event_def q1_def)
  ultimately show ?thesis using dd by blast
qed

lemma del_events_rep:
  assumes rep: "queue_rep busy q ps fs"
  shows "\<exists>q'. del_events P q = Some q' \<and>
    queue_rep busy q' (filter (\<lambda>p. \<not> P (snd (ev_data (entries q p)))) ps) (rev (filter (\<lambda>p. P (snd (ev_data (entries q p)))) ps) @ fs) \<and>
    (\<forall>p. ev_data (entries q' p) = ev_data (entries q p))"
proof -
  let ?m = "\<lambda>e. P (pic_event e, event_value e)"
  have m: "?m e = P (snd (ev_data e))" for e by (simp add: ev_data_def)
  have blind: "link_blind ?m" by (auto simp: link_blind_def ev_data_def)
  have c: "threaded (entries q) (next_entry q) ([] @ ps) None" "threaded (entries q) (free_entry q) fs None" "distinct ([] @ ps @ fs)"
    using rep by (simp_all add: queue_rep_def)
  have ne: "next_entry q = (case ps of [] \<Rightarrow> None | x # _ \<Rightarrow> Some x)" using c(1) by (cases ps) auto
  from remove_loop_chain [OF c blind _ ne] obtain q' where q': "del_events P q = Some q'"
    "threaded (entries q') (next_entry q') (filter (\<lambda>p. \<not> ?m (entries q p)) ps) None"
    "threaded (entries q') (free_entry q') (rev (filter (\<lambda>p. ?m (entries q p)) ps) @ fs) None"
    "relinked (set ps) q q'" by (auto simp: del_events_def simp del: threaded_append)
  have s: "sorted (map (\<lambda>p. event_index (entries q' p)) (filter (\<lambda>p. \<not> ?m (entries q p)) ps))"
    using rep relinked_data(2) [OF q'(4)] by (simp add: queue_rep_def sorted_filter)
  have "distinct (busy @ filter (\<lambda>p. \<not> ?m (entries q p)) ps @ rev (filter (\<lambda>p. ?m (entries q p)) ps) @ fs)"
    "set (busy @ filter (\<lambda>p. \<not> ?m (entries q p)) ps @ rev (filter (\<lambda>p. ?m (entries q p)) ps) @ fs) = {..<PIC_QUEUESIZE}"
    using rep by (auto simp: queue_rep_def)
  with q' s have "queue_rep busy q' (filter (\<lambda>p. \<not> ?m (entries q p)) ps) (rev (filter (\<lambda>p. ?m (entries q p)) ps) @ fs)"
    unfolding queue_rep_def by blast
  then show ?thesis using q'(1) relinked_data(1) [OF q'(4)] unfolding m by blast
qed

interpretation evq: timed_queue "stored busy" "PIC_QUEUESIZE - length busy" put_event del_events for busy :: "nat list"
proof
  fix q :: "'a pic_queue" and xs n
  assume st: "stored busy q xs n"
  then obtain ps fs where rep: "queue_rep busy q ps fs" "xs = map (\<lambda>p. ev_data (entries q p)) ps" "n = length fs"
    unfolding stored_def by blast
  show "sorted (map fst xs)" using rep by (simp add: queue_rep_def comp_def)
  show "length xs + n = PIC_QUEUESIZE - length busy" using rep rep_slots [OF rep(1)] by simp
  fix P :: "'a \<times> u64 \<Rightarrow> bool"
  from del_events_rep [OF rep(1), of P] obtain q' where q': "del_events P q = Some q'"
    "queue_rep busy q' (filter (\<lambda>p. \<not> P (snd (ev_data (entries q p)))) ps) (rev (filter (\<lambda>p. P (snd (ev_data (entries q p)))) ps) @ fs)"
    "\<forall>p. ev_data (entries q' p) = ev_data (entries q p)" by blast
  then have "stored busy q' (filter (\<lambda>x. \<not> P (snd x)) xs) (n + length (filter (\<lambda>x. P (snd x)) xs))"
    unfolding stored_def rep(2,3) filter_map comp_def length_map
    by (intro exI conjI) (assumption, simp_all)
  with q'(1) show "\<exists>t. del_events P q = Some t \<and> stored busy t (filter (\<lambda>x. \<not> P (snd x)) xs) (n + length (filter (\<lambda>x. P (snd x)) xs))" by blast
next
  fix q :: "'a pic_queue" and xs k e
  assume "stored busy q xs 0"
  then show "put_event k e q = Some q" by (auto simp: stored_def queue_rep_def put_event_def)
next
  fix q :: "'a pic_queue" and xs n k e
  assume "stored busy q xs (Suc n)"
  then obtain ps f fs where rep: "queue_rep busy q ps (f # fs)" "xs = map (\<lambda>p. ev_data (entries q p)) ps" "n = length fs"
    unfolding stored_def by (metis length_Suc_conv)
  from put_event_rep [OF rep(1), of k e] show "\<exists>t. put_event k e q = Some t \<and> stored busy t (insert_event (k, e) xs) n"
    unfolding stored_def rep(2,3) by metis
qed

section \<open>The other steps of the queue\<close>

lemma stored_head:
  assumes "stored busy q xs n"
  shows "next_entry q = None \<longleftrightarrow> xs = []"
    "next_entry q = Some e \<Longrightarrow> xs = ev_data (entries q e) # tl xs"
    "next_entry q = Some e \<Longrightarrow> stored (e # busy) (q\<lparr>next_entry := next_event (entries q e)\<rparr>) (tl xs) n"
proof -
  from assms obtain ps fs where rep: "queue_rep busy q ps fs" "xs = map (\<lambda>p. ev_data (entries q p)) ps" "n = length fs"
    unfolding stored_def by blast
  show "next_entry q = None \<longleftrightarrow> xs = []" "next_entry q = Some e \<Longrightarrow> xs = ev_data (entries q e) # tl xs"
    using rep by (cases ps; simp add: queue_rep_def)+
  assume e: "next_entry q = Some e"
  then obtain ps' where ps': "ps = e # ps'" using rep(1) by (cases ps) (auto simp: queue_rep_def)
  then have "queue_rep (e # busy) (q\<lparr>next_entry := next_event (entries q e)\<rparr>) ps' fs"
    using rep(1) by (auto simp: queue_rep_def)
  then show "stored (e # busy) (q\<lparr>next_entry := next_event (entries q e)\<rparr>) (tl xs) n"
    unfolding stored_def using rep ps' by auto
qed

lemma stored_release:
  assumes "stored (e # busy) q xs n"
  shows "stored busy ((set_next e (free_entry q) q)\<lparr>free_entry := Some e\<rparr>) xs (Suc n)"
proof -
  from assms obtain ps fs where rep: "queue_rep (e # busy) q ps fs" "xs = map (\<lambda>p. ev_data (entries q p)) ps" "n = length fs"
    unfolding stored_def by blast
  then have e: "e \<notin> set ps" "e \<notin> set fs" by (auto simp: queue_rep_def)
  then have "map (\<lambda>p. event_index (entries ((set_next e (free_entry q) q)\<lparr>free_entry := Some e\<rparr>) p)) ps = map (\<lambda>p. event_index (entries q p)) ps"
    by (auto simp: queue_rep_def)
  with rep(1) e have "queue_rep busy ((set_next e (free_entry q) q)\<lparr>free_entry := Some e\<rparr>) ps (e # fs)"
    unfolding queue_rep_def by (simp del: map_eq_conv)
  moreover have "map (\<lambda>p. ev_data (entries ((set_next e (free_entry q) q)\<lparr>free_entry := Some e\<rparr>) p)) ps = xs"
    using rep by auto
  ultimately show ?thesis unfolding stored_def rep(3) by force
qed

lemma stored_lower:
  assumes "stored busy q xs n"
  shows "\<exists>q'. lower_loop (next_entry q) q = Some q' \<and> stored busy q' (map (\<lambda>x. (dbl (fst x - 1), snd x)) xs) n"
proof -
  from assms obtain ps fs where rep: "queue_rep busy q ps fs" "xs = map (\<lambda>p. ev_data (entries q p)) ps" "n = length fs"
    unfolding stored_def by blast
  define q' where "q' = q\<lparr>entries := (\<lambda>x. if x \<in> set ps then lowered (entries q x) else entries q x)\<rparr>"
  have l: "lower_loop (next_entry q) q = Some q'"
    unfolding q'_def using rep(1) by (intro lower_loop_chain) (simp_all add: queue_rep_def)
  have heads: "next_entry q' = next_entry q" "free_entry q' = free_entry q" by (simp_all add: q'_def)
  have nx: "next_event (entries q' p) = next_event (entries q p)" for p by (simp add: q'_def lowered_def)
  have mono: "sorted (map f ys)" if "sorted ys" "\<And>x y. x \<le> y \<Longrightarrow> f x \<le> f y" for f :: "rat \<Rightarrow> rat" and ys
    using that by (induction ys) auto
  have "map (\<lambda>p. event_index (entries q' p)) ps = map (\<lambda>k. dbl (k - 1)) (map (\<lambda>p. event_index (entries q p)) ps)"
    by (simp add: q'_def lowered_def)
  moreover have "sorted (map (\<lambda>k. dbl (k - 1)) (map (\<lambda>p. event_index (entries q p)) ps))"
    using rep(1) by (intro mono) (simp_all add: queue_rep_def dbl_mono)
  ultimately have "sorted (map (\<lambda>p. event_index (entries q' p)) ps)" by (simp only:)
  then have "queue_rep busy q' ps fs"
    using rep(1) threaded_frame [of _ "entries q'" "entries q", OF nx] unfolding queue_rep_def
    by (simp add: heads comp_def)
  moreover have "map (\<lambda>p. ev_data (entries q' p)) ps = map (\<lambda>x. (dbl (fst x - 1), snd x)) xs"
    unfolding rep(2) by (simp add: q'_def lowered_def ev_data_def)
  ultimately show ?thesis using l rep(3) unfolding stored_def by metis
qed

lemma init_chain:
  "threaded (entries (fold (\<lambda>i. set_next i (Some (i + 1))) [a..<b] q)) (Some a) [a..<b] (Some b)" if "a \<le> b"
  using that
proof (induction b)
  case (Suc b)
  show ?case
  proof (cases "a \<le> b")
    case True
    let ?q = "fold (\<lambda>i. set_next i (Some (i + 1))) [a..<b] q"
    have "threaded (entries (set_next b (Some (b + 1)) ?q)) (Some a) [a..<b] (Some b)"
      using Suc.IH True by (subst threaded_frame [of _ _ "entries ?q"]) auto
    then show ?thesis unfolding upt_Suc_append [OF True] fold_append threaded_append comp_apply
      by (auto intro!: exI [of _ "Some b"])
  next
    case False
    with Suc.prems show ?thesis by simp
  qed
qed simp

lemma init_stored: "stored [] (init_queue q) [] PIC_QUEUESIZE"
proof -
  have "[0..<PIC_QUEUESIZE] = [0..<PIC_QUEUESIZE - 1] @ [PIC_QUEUESIZE - 1]"
    by (simp add: PIC_QUEUESIZE_def flip: upt_Suc_append)
  then have "threaded (entries (init_queue q)) (free_entry (init_queue q)) [0..<PIC_QUEUESIZE] None"
    using init_chain [of 0 "PIC_QUEUESIZE - 1" q] by (auto simp: init_queue_def simp del: upt_rec_numeral)
  then have "queue_rep [] (init_queue q) [] [0..<PIC_QUEUESIZE]"
    by (auto simp: queue_rep_def init_queue_def simp del: upt_rec_numeral)
  then show ?thesis unfolding stored_def by force
qed

end
