(* ===== verification/Pic_Props.thy ===== *)
theory Pic_Props
  imports Pic
begin

text \<open>
  Properties of the interrupt controllers. The interface \<open>irq_controller\<close> states what a controller
  needs of its outgoing signal; it is interpreted for the primary, whose signal is \<open>PIC_IRQCheck\<close>,
  and for the secondary, whose signal is request 2 of the primary. From both follows the invariant
  of every state reachable while neither special mask mode nor automatic end of interrupt is used.
\<close>

unbundle bit_operations_syntax

section \<open>Scanning\<close>

lemma irq_bit_test: "p AND irq_bit i \<noteq> 0 \<longleftrightarrow> bit p i"
proof -
  have "irq_bit i = 2 ^ i" by (simp add: irq_bit_def push_bit_eq_mult)
  then show ?thesis using and_exp_eq_0_iff_not_bit [of p i] by simp
qed

lemma irq_bit_test': "p AND irq_bit i = 0 \<longleftrightarrow> \<not> bit p i" "irq_bit i AND p = 0 \<longleftrightarrow> \<not> bit p i"
  using irq_bit_test [of p i] by (auto simp: and.commute)

lemma bit_irq_bit: "bit (irq_bit i) j \<longleftrightarrow> i = j \<and> j < 8"
  by (auto simp: irq_bit_def bit_simps)

lemma irq_masked_test: "(irq_bit i AND p) AND q \<noteq> 0 \<longleftrightarrow> bit p i \<and> bit q i"
proof -
  have "(irq_bit i AND p) AND q = (p AND q) AND irq_bit i" by (simp add: ac_simps)
  then show ?thesis by (simp add: irq_bit_test bit_and_iff)
qed

lemma first_irq_Some: "first_irq p n = Some i \<longleftrightarrow> i < n \<and> bit p i \<and> (\<forall>j<i. \<not> bit p j)"
  unfolding first_irq_def irq_bit_test
  by (auto simp: find_Some_iff)

lemma first_irq_None: "first_irq p n = None \<longleftrightarrow> (\<forall>i<n. \<not> bit p i)"
  unfolding first_irq_def irq_bit_test by (auto simp: find_None_iff)

definition deliverable :: "PIC_Controller \<Rightarrow> bool" where
  "deliverable c = (\<exists>i<irq_limit c. bit (possible_irqs c) i)"

lemma bit_possible: "bit (possible_irqs c) i \<longleftrightarrow> bit (irr c) i \<and> bit (imrr c) i \<and> bit (isrr c) i"
  by (auto simp: possible_irqs_def bit_and_iff)

lemma check_condition:
  "possible_irqs c \<noteq> 0 \<and> first_irq (possible_irqs c) (irq_limit c) \<noteq> None \<longleftrightarrow> deliverable c"
  by (auto simp: deliverable_def first_irq_None)

lemma pics_upd [simp]: "pics p (upd_pic p f s) = f (pics p s)"
  by (cases p) simp_all

section \<open>A controller and its outgoing signal\<close>

lemma bit_lt_8: "bit (x::u8) i \<Longrightarrow> i < 8"
  using bit_imp_le_length [of x i] by simp

lemma deliverable_raise:
  "deliverable (c\<lparr>irr := irr c OR irq_bit v\<rparr>) \<longleftrightarrow>
    deliverable c \<or> bit (imrr c) v \<and> bit (isrr c) v \<and> v < irq_limit c"
proof -
  have "bit (possible_irqs (c\<lparr>irr := irr c OR irq_bit v\<rparr>)) i \<longleftrightarrow>
      bit (possible_irqs c) i \<or> i = v \<and> bit (imrr c) v \<and> bit (isrr c) v" for i
    by (auto simp: bit_possible bit_or_iff bit_irq_bit dest: bit_lt_8)
  then show ?thesis by (auto simp: deliverable_def irq_limit_def)
qed

lemma deliverable_lower:
  assumes "\<not> (bit (imrr c) v \<and> bit (isrr c) v \<and> v < irq_limit c)"
  shows "deliverable (c\<lparr>irr := irr c AND NOT (irq_bit v)\<rparr>) \<longleftrightarrow> deliverable c"
proof -
  have b: "bit (possible_irqs (c\<lparr>irr := irr c AND NOT (irq_bit v)\<rparr>)) i \<longleftrightarrow> bit (possible_irqs c) i \<and> i \<noteq> v" for i
    by (auto simp: bit_possible bit_and_iff bit_not_iff bit_irq_bit dest: bit_lt_8)
  have "irq_limit (c\<lparr>irr := irr c AND NOT (irq_bit v)\<rparr>) = irq_limit c" by (simp add: irq_limit_def)
  with assms show ?thesis unfolding deliverable_def b bit_possible [of c v] by (metis bit_possible)
qed

lemma limit_test:
  "bit q v \<Longrightarrow> (special c \<or> v < active_irq c) \<longleftrightarrow> v < irq_limit c" for q :: u8
  by (auto simp: irq_limit_def dest: bit_imp_le_length)

locale irq_controller =
  fixes pid :: pic_id and signal :: "pic_state \<Rightarrow> bool"
  assumes activate_signal: "signal (activate pid s)"
    and activate_keeps: "pics pid (activate pid s) = pics pid s"
    and deactivate_signal: "\<not> signal (deactivate pid s)"
    and deactivate_keeps: "pics pid (deactivate pid s) = pics pid s"
    and signal_own: "signal (upd_pic pid f s) = signal s"
begin

lemma check_signal:
  "pics pid (check_for_irq pid s) = pics pid s"
  "signal (check_for_irq pid s) \<longleftrightarrow> deliverable (pics pid s)"
  unfolding check_for_irq.simps Let_def check_condition
  by (simp_all add: activate_signal activate_keeps deactivate_signal deactivate_keeps)

lemma raise_controller:
  "pics pid (raise_irq pid v s) = (pics pid s)\<lparr>irr := irr (pics pid s) OR irq_bit v\<rparr>"
proof (cases "bit (irr (pics pid s)) v")
  case True
  then have "irr (pics pid s) OR irq_bit v = irr (pics pid s)"
    by (auto simp: bit_eq_iff [where ?'a = u8] bit_or_iff bit_irq_bit)
  then show ?thesis
    using True by (simp add: raise_irq.simps Let_def irq_bit_test')
qed (simp add: raise_irq.simps Let_def irq_bit_test' activate_keeps)

lemma raise_signal:
  assumes "signal s \<longleftrightarrow> deliverable (pics pid s)"
  shows "signal (raise_irq pid v s) \<longleftrightarrow> deliverable (pics pid (raise_irq pid v s))"
proof (cases "bit (irr (pics pid s)) v")
  case True
  then show ?thesis using assms by (simp add: raise_irq.simps Let_def irq_bit_test')
next
  case False
  let ?c = "pics pid s"
  have go: "(irq_bit v AND imrr ?c) AND isrr ?c \<noteq> 0 \<and> (special ?c \<or> v < active_irq ?c) \<longleftrightarrow>
      bit (imrr ?c) v \<and> bit (isrr ?c) v \<and> v < irq_limit ?c"
    unfolding irq_masked_test using limit_test [of "isrr ?c" v ?c] by blast
  show ?thesis
    unfolding raise_controller deliverable_raise
    using False assms go by (auto simp: raise_irq.simps Let_def irq_bit_test' activate_signal signal_own)
qed

lemma lower_controller:
  "pics pid (lower_irq pid v s) = (pics pid s)\<lparr>irr := irr (pics pid s) AND NOT (irq_bit v)\<rparr>"
proof (cases "bit (irr (pics pid s)) v")
  case False
  then have "irr (pics pid s) AND NOT (irq_bit v) = irr (pics pid s)"
    by (auto simp: bit_eq_iff [where ?'a = u8] bit_and_iff bit_not_iff bit_irq_bit dest: bit_imp_le_length)
  then show ?thesis
    using False by (simp add: lower_irq.simps Let_def irq_bit_test')
qed (simp add: lower_irq.simps Let_def irq_bit_test' check_signal)

lemma lower_signal:
  assumes "signal s \<longleftrightarrow> deliverable (pics pid s)"
  shows "signal (lower_irq pid v s) \<longleftrightarrow> deliverable (pics pid (lower_irq pid v s))"
proof (cases "bit (irr (pics pid s)) v")
  case False
  then show ?thesis using assms by (simp add: lower_irq.simps Let_def irq_bit_test')
next
  case True
  let ?c = "pics pid s"
  have go: "(irq_bit v AND imrr ?c) AND isrr ?c \<noteq> 0 \<and> (special ?c \<or> v < active_irq ?c) \<longleftrightarrow>
      bit (imrr ?c) v \<and> bit (isrr ?c) v \<and> v < irq_limit ?c"
    unfolding irq_masked_test using limit_test [of "isrr ?c" v ?c] by blast
  show ?thesis
    using True assms go deliverable_lower [of ?c v]
    by (auto simp: lower_irq.simps Let_def irq_bit_test' check_signal signal_own)
qed

end

interpretation pri: irq_controller Primary "\<lambda>s. PIC_IRQCheck s \<noteq> 0"
  by unfold_locales auto

lemma bit_raise_lower_2:
  "bit (irr (primary_controller (raise_irq Primary 2 s))) 2"
  "\<not> bit (irr (primary_controller (lower_irq Primary 2 s))) 2"
  using pri.raise_controller [of 2 s] pri.lower_controller [of 2 s]
  by (simp_all add: bit_or_iff bit_and_iff bit_not_iff bit_irq_bit)

lemma primary_keeps_secondary [simp]:
  "secondary_controller (raise_irq Primary v s) = secondary_controller s"
  "secondary_controller (check_for_irq Primary s) = secondary_controller s"
  "secondary_controller (lower_irq Primary v s) = secondary_controller s"
  by (simp_all add: raise_irq.simps lower_irq.simps check_for_irq.simps Let_def)

interpretation sec: irq_controller Secondary "\<lambda>s. bit (irr (primary_controller s)) 2"
  by unfold_locales (simp_all add: activate.simps deactivate.simps bit_raise_lower_2)

section \<open>Controller invariants\<close>

text \<open>
  What holds of a controller in every mode, and what the normal mode (no special mask, no automatic
  end of interrupt) adds: the active request is the highest-priority one in service.
\<close>

definition ctrl_ok :: "PIC_Controller \<Rightarrow> bool" where
  "ctrl_ok c = (imrr c = NOT (imr c) \<and> isrr c = NOT (isr c) \<and> active_irq c \<le> 8 \<and>
     (active_irq c = 8 \<longleftrightarrow> isr c = 0) \<and> (active_irq c < 8 \<longrightarrow> bit (isr c) (active_irq c)) \<and>
     vector_base c AND 7 = 0 \<and> icw_index c \<le> 3 \<and> (icw_index c \<noteq> 0 \<longrightarrow> icw_words c \<in> {2, 3}))"

definition normal_mode :: "PIC_Controller \<Rightarrow> bool" where
  "normal_mode c = (\<not> special c \<and> \<not> auto_eoi c \<and> (\<forall>j<active_irq c. \<not> bit (isr c) j))"

lemma irr_irrelevant [simp]:
  "ctrl_ok (c\<lparr>irr := x\<rparr>) = ctrl_ok c" "normal_mode (c\<lparr>irr := x\<rparr>) = normal_mode c"
  by (simp_all add: ctrl_ok_def normal_mode_def)

lemma primary_request_frame:
  "\<exists>x. primary_controller (raise_irq Primary v s) = (primary_controller s)\<lparr>irr := x\<rparr>"
  "\<exists>x. primary_controller (lower_irq Primary v s) = (primary_controller s)\<lparr>irr := x\<rparr>"
  using pri.raise_controller [of v s] pri.lower_controller [of v s] by auto

lemma self_irr: "\<exists>x. c = c\<lparr>irr := x\<rparr>" for c :: PIC_Controller
  by (rule exI [of _ "irr c"]) simp

lemma secondary_request_frame:
  "\<exists>x. primary_controller (activate Secondary s) = (primary_controller s)\<lparr>irr := x\<rparr>"
  "\<exists>x. primary_controller (check_for_irq Secondary s) = (primary_controller s)\<lparr>irr := x\<rparr>"
  "\<exists>x. primary_controller (raise_irq Secondary v s) = (primary_controller s)\<lparr>irr := x\<rparr>"
  "\<exists>x. primary_controller (lower_irq Secondary v s) = (primary_controller s)\<lparr>irr := x\<rparr>"
proof -
  have act: "\<exists>x. primary_controller (activate Secondary s) = (primary_controller s)\<lparr>irr := x\<rparr>" for s
    unfolding activate.simps(2) by (rule primary_request_frame)
  have chk: "\<exists>x. primary_controller (check_for_irq Secondary s) = (primary_controller s)\<lparr>irr := x\<rparr>" for s
    using act [of s] primary_request_frame(2) [of 2 s]
    unfolding check_for_irq.simps [of Secondary] Let_def deactivate.simps(2) by simp
  show "\<exists>x. primary_controller (activate Secondary s) = (primary_controller s)\<lparr>irr := x\<rparr>"
    "\<exists>x. primary_controller (check_for_irq Secondary s) = (primary_controller s)\<lparr>irr := x\<rparr>"
    by (rule act, rule chk)
  let ?s = "upd_pic Secondary (\<lambda>c. c\<lparr>irr := irr c OR irq_bit v\<rparr>) s"
  let ?t = "upd_pic Secondary (\<lambda>c. c\<lparr>irr := irr c AND NOT (irq_bit v)\<rparr>) s"
  show "\<exists>x. primary_controller (raise_irq Secondary v s) = (primary_controller s)\<lparr>irr := x\<rparr>"
    using act [of ?s] self_irr [of "primary_controller s"]
    unfolding raise_irq.simps [of Secondary] Let_def by simp
  show "\<exists>x. primary_controller (lower_irq Secondary v s) = (primary_controller s)\<lparr>irr := x\<rparr>"
    using chk [of ?t] self_irr [of "primary_controller s"]
    unfolding lower_irq.simps [of Secondary] Let_def by simp
qed

lemma own_request_frame:
  "\<exists>x. secondary_controller (raise_irq Secondary v s) = (secondary_controller s)\<lparr>irr := x\<rparr>"
  "\<exists>x. secondary_controller (lower_irq Secondary v s) = (secondary_controller s)\<lparr>irr := x\<rparr>"
  "\<exists>x. secondary_controller (check_for_irq Secondary s) = (secondary_controller s)\<lparr>irr := x\<rparr>"
  "\<exists>x. primary_controller (check_for_irq Primary s) = (primary_controller s)\<lparr>irr := x\<rparr>"
  using sec.raise_controller [of v s] sec.lower_controller [of v s] sec.check_signal(1) [of s]
    pri.check_signal(1) [of s] self_irr [of "secondary_controller s"] self_irr [of "primary_controller s"]
  by (auto simp only: pics.simps)

lemma request_frame:
  "\<exists>x. pics q (raise_irq p v s) = (pics q s)\<lparr>irr := x\<rparr>"
  "\<exists>x. pics q (lower_irq p v s) = (pics q s)\<lparr>irr := x\<rparr>"
  "\<exists>x. pics q (check_for_irq p s) = (pics q s)\<lparr>irr := x\<rparr>"
  by (cases p; cases q; simp only: pics.simps primary_keeps_secondary;
      rule primary_request_frame secondary_request_frame own_request_frame self_irr)+

lemma request_ctrl [simp]:
  "ctrl_ok (pics q (raise_irq p v s)) = ctrl_ok (pics q s)"
  "ctrl_ok (pics q (lower_irq p v s)) = ctrl_ok (pics q s)"
  "ctrl_ok (pics q (check_for_irq p s)) = ctrl_ok (pics q s)"
  "normal_mode (pics q (raise_irq p v s)) = normal_mode (pics q s)"
  "normal_mode (pics q (lower_irq p v s)) = normal_mode (pics q s)"
  "normal_mode (pics q (check_for_irq p s)) = normal_mode (pics q s)"
  using request_frame(1) [of q p v s] request_frame(2) [of q p v s] request_frame(3) [of q p s]
  by auto

lemma update_active_ok:
  assumes "imrr c = NOT (imr c)" "isrr c = NOT (isr c)" "vector_base c AND 7 = 0" "icw_index c \<le> 3"
    "icw_index c \<noteq> 0 \<longrightarrow> icw_words c \<in> {2, 3}"
  shows "ctrl_ok (update_active_irq c)"
    and "\<not> special c \<Longrightarrow> \<not> auto_eoi c \<Longrightarrow> normal_mode (update_active_irq c)"
proof -
  have "ctrl_ok (update_active_irq c) \<and> (\<not> special c \<longrightarrow> \<not> auto_eoi c \<longrightarrow> normal_mode (update_active_irq c))"
  proof (cases "first_irq (isr c) 8")
    case None
    then have "isr c = 0" by (intro bit_word_eqI) (simp add: first_irq_None)
    then show ?thesis using assms by (simp add: update_active_irq_def ctrl_ok_def normal_mode_def)
  next
    case (Some i)
    then have i: "i < 8" "bit (isr c) i" "\<forall>j<i. \<not> bit (isr c) j" by (simp_all add: first_irq_Some)
    then have "isr c \<noteq> 0" by auto
    then show ?thesis using Some i assms by (simp add: update_active_irq_def ctrl_ok_def normal_mode_def)
  qed
  then show "ctrl_ok (update_active_irq c)"
    and "\<not> special c \<Longrightarrow> \<not> auto_eoi c \<Longrightarrow> normal_mode (update_active_irq c)" by simp_all
qed

lemma start_irq_ok:
  assumes "ctrl_ok c" "v < 8"
  shows "ctrl_ok (start_irq v c)"
    and "normal_mode c \<Longrightarrow> v < active_irq c \<Longrightarrow> normal_mode (start_irq v c)"
proof -
  have "bit (isr c OR irq_bit v) v" using assms by (simp add: bit_or_iff bit_irq_bit)
  then have "isr c OR irq_bit v \<noteq> 0" by auto
  with assms show "ctrl_ok (start_irq v c)"
    by (auto simp: start_irq_def Let_def ctrl_ok_def bit_or_iff bit_irq_bit)
  show "normal_mode c \<Longrightarrow> v < active_irq c \<Longrightarrow> normal_mode (start_irq v c)"
    by (auto simp: start_irq_def Let_def normal_mode_def bit_or_iff bit_irq_bit)
qed

section \<open>The system of both controllers\<close>

text \<open>
  In normal mode the pending-check flag of the CPU says exactly whether the primary has a request to
  deliver, and request 2 of the primary exactly whether the secondary has one.
\<close>

definition ctrl_inv :: "PIC_Controller \<Rightarrow> bool" where
  "ctrl_inv c = (ctrl_ok c \<and> normal_mode c)"

definition pic_inv :: "pic_state \<Rightarrow> bool" where
  "pic_inv s = (ctrl_inv (primary_controller s) \<and> ctrl_inv (secondary_controller s) \<and>
     (PIC_IRQCheck s \<noteq> 0 \<longleftrightarrow> deliverable (primary_controller s)) \<and>
     (bit (irr (primary_controller s)) 2 \<longleftrightarrow> deliverable (secondary_controller s)))"

lemma request_inv [simp]:
  "ctrl_inv (pics q (raise_irq p v s)) = ctrl_inv (pics q s)"
  "ctrl_inv (pics q (lower_irq p v s)) = ctrl_inv (pics q s)"
  "ctrl_inv (pics q (check_for_irq p s)) = ctrl_inv (pics q s)"
  by (simp_all add: ctrl_inv_def)

lemmas request_inv_ps [simp] = request_inv [where q = Primary, unfolded pics.simps]
  request_inv [where q = Secondary, unfolded pics.simps]

text \<open>Requests on the secondary only touch the primary through its request 2.\<close>

lemma IRQCheck_upd_secondary [simp]:
  "PIC_IRQCheck (upd_pic Secondary f s) = PIC_IRQCheck s"
  "primary_controller (upd_pic Secondary f s) = primary_controller s"
  "secondary_controller (upd_pic Primary f s) = secondary_controller s"
  "PIC_IRQCheck (upd_pic Primary f s) = PIC_IRQCheck s"
  by simp_all

definition line_ok :: "pic_state \<Rightarrow> bool" where
  "line_ok s = (PIC_IRQCheck s \<noteq> 0 \<longleftrightarrow> deliverable (primary_controller s))"

lemma line_ok_primary:
  assumes "line_ok s"
  shows "line_ok (raise_irq Primary v s)" "line_ok (lower_irq Primary v s)"
  using assms pri.raise_signal [of s v] pri.lower_signal [of s v] by (simp_all add: line_ok_def)

lemma line_ok_secondary:
  assumes "line_ok s"
  shows "line_ok (activate Secondary s)" "line_ok (check_for_irq Secondary s)"
    "line_ok (raise_irq Secondary v s)" "line_ok (lower_irq Secondary v s)"
proof -
  have act: "line_ok (activate Secondary s)" if "line_ok s" for s
    unfolding activate.simps(2) by (rule line_ok_primary(1) [OF that])
  have chk: "line_ok (check_for_irq Secondary s)" if "line_ok s" for s
    using act [OF that] line_ok_primary(2) [OF that, of 2]
    unfolding check_for_irq.simps [of Secondary] Let_def deactivate.simps(2) by simp
  have upd: "line_ok (upd_pic Secondary f s)" for f
    using assms unfolding line_ok_def IRQCheck_upd_secondary by simp
  show "line_ok (activate Secondary s)" "line_ok (check_for_irq Secondary s)"
    by (rule act [OF assms], rule chk [OF assms])
  show "line_ok (raise_irq Secondary v s)"
    unfolding raise_irq.simps [of Secondary] Let_def using assms act [OF upd] upd by (simp del: upd_pic.simps)
  show "line_ok (lower_irq Secondary v s)"
    unfolding lower_irq.simps [of Secondary] Let_def using assms chk [OF upd] upd by (simp del: upd_pic.simps)
qed

lemma pic_inv_line: "pic_inv s \<longleftrightarrow> ctrl_inv (primary_controller s) \<and> ctrl_inv (secondary_controller s) \<and>
    line_ok s \<and> (bit (irr (primary_controller s)) 2 \<longleftrightarrow> deliverable (secondary_controller s))"
  by (auto simp: pic_inv_def line_ok_def)

lemma inv_raise:
  assumes "pic_inv s" and "p = Primary \<longrightarrow> v \<noteq> 2"
  shows "pic_inv (raise_irq p v s)"
proof (cases p)
  case Primary
  have "bit (irr (primary_controller (raise_irq Primary v s))) 2 = bit (irr (primary_controller s)) 2"
    using pri.raise_controller [of v s] assms(2) Primary by (simp add: bit_or_iff bit_irq_bit)
  then show ?thesis
    using assms(1) line_ok_primary(1) [of s v] Primary by (simp add: pic_inv_line)
next
  case Secondary
  then show ?thesis
    using assms(1) line_ok_secondary(3) [of s v] sec.raise_signal [of s v] by (simp add: pic_inv_line)
qed

lemma inv_lower:
  assumes "pic_inv s" and "p = Primary \<longrightarrow> v \<noteq> 2"
  shows "pic_inv (lower_irq p v s)"
proof (cases p)
  case Primary
  have "bit (irr (primary_controller (lower_irq Primary v s))) 2 = bit (irr (primary_controller s)) 2"
    using pri.lower_controller [of v s] assms(2) Primary by (simp add: bit_and_iff bit_not_iff bit_irq_bit)
  then show ?thesis
    using assms(1) line_ok_primary(2) [of s v] Primary by (simp add: pic_inv_line)
next
  case Secondary
  then show ?thesis
    using assms(1) line_ok_secondary(4) [of s v] sec.lower_signal [of s v] by (simp add: pic_inv_line)
qed

text \<open>A change of one controller followed by a recheck, or one that makes no difference.\<close>

lemma inv_check:
  assumes "pic_inv s" and "ctrl_inv (f (pics p s))" and "irr (f (pics p s)) = irr (pics p s)"
  shows "pic_inv (check_for_irq p (upd_pic p f s))"
proof (cases p)
  case Primary
  let ?s = "upd_pic Primary f s"
  have "primary_controller (check_for_irq Primary ?s) = f (primary_controller s)"
    "PIC_IRQCheck (check_for_irq Primary ?s) \<noteq> 0 \<longleftrightarrow> deliverable (f (primary_controller s))"
    using pri.check_signal [of ?s] by simp_all
  then show ?thesis using assms Primary by (simp add: pic_inv_def)
next
  case Secondary
  let ?s = "upd_pic Secondary f s"
  have l: "line_ok ?s" using assms(1) by (simp add: pic_inv_line line_ok_def)
  have "secondary_controller (check_for_irq Secondary ?s) = f (secondary_controller s)"
    "bit (irr (primary_controller (check_for_irq Secondary ?s))) 2 \<longleftrightarrow> deliverable (f (secondary_controller s))"
    using sec.check_signal [of ?s] by simp_all
  moreover have "ctrl_inv (primary_controller (check_for_irq Secondary ?s))"
    using assms(1) by (simp add: pic_inv_def)
  ultimately show ?thesis
    using assms Secondary line_ok_secondary(2) [OF l] by (simp add: pic_inv_line)
qed

lemma inv_keep:
  assumes "pic_inv s" and "ctrl_inv (f (pics p s))" and "irr (f (pics p s)) = irr (pics p s)"
    and "deliverable (f (pics p s)) = deliverable (pics p s)"
  shows "pic_inv (upd_pic p f s)"
  using assms by (cases p) (simp_all add: pic_inv_def)

lemma inv_pics: "pic_inv s \<Longrightarrow> ctrl_inv (pics p s)"
  by (cases p) (simp_all add: pic_inv_def)

section \<open>Masks and end of interrupt\<close>

lemma ctrl_inv_fields:
  assumes "ctrl_inv c"
  shows "ctrl_inv (c\<lparr>imr := m, imrr := NOT m\<rparr>)" "ctrl_inv (c\<lparr>request_issr := b\<rparr>)"
    "ctrl_inv (c\<lparr>rotate_on_auto_eoi := b\<rparr>)" "ctrl_inv (c\<lparr>special := False\<rparr>)"
    "w \<in> {2, 3} \<Longrightarrow> ctrl_inv (c\<lparr>single := b, icw_index := 1, icw_words := w\<rparr>)"
  using assms by (auto simp: ctrl_inv_def ctrl_ok_def normal_mode_def)

lemma ctrl_ok_fields:
  assumes "ctrl_ok c"
  shows "ctrl_ok (c\<lparr>imr := m, imrr := NOT m\<rparr>)" "ctrl_ok (c\<lparr>request_issr := b\<rparr>)"
    "ctrl_ok (c\<lparr>rotate_on_auto_eoi := b\<rparr>)" "ctrl_ok (c\<lparr>special := b\<rparr>)"
    "w \<in> {2, 3} \<Longrightarrow> ctrl_ok (c\<lparr>single := b, icw_index := 1, icw_words := w\<rparr>)"
  using assms by (auto simp: ctrl_ok_def)

lemma deliverable_cong:
  "irr c = irr d \<Longrightarrow> imrr c = imrr d \<Longrightarrow> isrr c = isrr d \<Longrightarrow> special c = special d \<Longrightarrow>
    active_irq c = active_irq d \<Longrightarrow> deliverable c = deliverable d"
  by (simp add: deliverable_def possible_irqs_def irq_limit_def)

lemma set_imr_inv:
  assumes "pic_inv s"
  shows "pic_inv (set_imr p v s)"
proof -
  define val where "val = (if machine_is_pcjr s \<and> p = Primary then v AND NOT (irq_bit 6) else v)"
  define f where "f = (\<lambda>c::PIC_Controller. c\<lparr>imr := val, imrr := NOT val\<rparr>)"
  let ?c = "pics p s"
  have fi: "ctrl_inv (f ?c)" "irr (f ?c) = irr ?c" "isrr (f ?c) = isrr ?c"
    using inv_pics [OF assms, of p] by (simp_all add: f_def ctrl_inv_fields)
  have m: "imrr ?c = NOT (imr ?c)" using inv_pics [OF assms, of p] by (simp add: ctrl_inv_def ctrl_ok_def)
  have eq: "set_imr p v s = (if (irr ?c AND (imr ?c XOR val)) AND isrr ?c \<noteq> 0
      then check_for_irq p (upd_pic p f s) else upd_pic p f s)"
    by (simp add: set_imr_def Let_def val_def f_def)
  show ?thesis
  proof (cases "(irr ?c AND (imr ?c XOR val)) AND isrr ?c = 0")
    case True
    have "\<not> (bit (irr ?c) i \<and> bit (imr ?c) i \<noteq> bit val i \<and> bit (isrr ?c) i)" for i
    proof -
      have "\<not> bit ((irr ?c AND (imr ?c XOR val)) AND isrr ?c) i" using True by simp
      then show ?thesis by (auto simp: bit_and_iff bit_xor_iff)
    qed
    then have "bit (possible_irqs (f ?c)) i = bit (possible_irqs ?c) i" for i
      by (auto simp: bit_possible f_def m bit_not_iff)
    then have "deliverable (f ?c) = deliverable ?c"
      by (simp add: deliverable_def irq_limit_def f_def)
    with True show ?thesis unfolding eq using inv_keep [where f = f, OF assms fi(1,2)] by simp
  qed (use eq inv_check [where f = f, OF assms fi(1,2)] in simp)
qed

lemma set_imr_ok: "ctrl_ok (pics q s) \<Longrightarrow> ctrl_ok (pics q (set_imr p v s))"
  by (cases p; cases q)
     (simp_all add: set_imr_def Let_def ctrl_ok_fields request_ctrl(3) [where q = Primary, unfolded pics.simps]
        request_ctrl(3) [where q = Secondary, unfolded pics.simps])

definition clear_isr :: "nat \<Rightarrow> PIC_Controller \<Rightarrow> PIC_Controller" where
  "clear_isr v c = update_active_irq (let i = isr c AND NOT (irq_bit v) in c\<lparr>isr := i, isrr := NOT i\<rparr>)"

lemma upd_upd: "upd_pic p f (upd_pic p g s) = upd_pic p (\<lambda>c. f (g c)) s"
  by (cases p) simp_all

lemma update_active_fields:
  "irr (update_active_irq c) = irr c" "imrr (update_active_irq c) = imrr c"
  "isrr (update_active_irq c) = isrr c" "isr (update_active_irq c) = isr c"
  "special (update_active_irq c) = special c"
  by (simp_all add: update_active_irq_def split: option.split)

lemma end_irq_eq:
  "end_irq p v s = (if possible_irqs (clear_isr v (pics p s)) \<noteq> 0
     then check_for_irq p (upd_pic p (clear_isr v) s) else upd_pic p (clear_isr v) s)"
proof -
  have "clear_isr v = (\<lambda>c. update_active_irq (let i = isr c AND NOT (irq_bit v) in c\<lparr>isr := i, isrr := NOT i\<rparr>))"
    by (rule ext) (simp add: clear_isr_def)
  then show ?thesis
    unfolding end_irq_def check_after_EOI_def upd_upd by (simp only: Let_def pics_upd)
qed

lemma clear_isr_inv:
  assumes "ctrl_ok c"
  shows "ctrl_ok (clear_isr v c)" "normal_mode c \<Longrightarrow> normal_mode (clear_isr v c)"
proof -
  let ?d = "c\<lparr>isr := isr c AND NOT (irq_bit v), isrr := NOT (isr c AND NOT (irq_bit v))\<rparr>"
  have d: "imrr ?d = NOT (imr ?d)" "isrr ?d = NOT (isr ?d)" "vector_base ?d AND 7 = 0" "icw_index ?d \<le> 3"
    "icw_index ?d \<noteq> 0 \<longrightarrow> icw_words ?d \<in> {2, 3}" "special ?d = special c" "auto_eoi ?d = auto_eoi c"
    using assms by (simp_all add: ctrl_ok_def)
  show "ctrl_ok (clear_isr v c)" "normal_mode c \<Longrightarrow> normal_mode (clear_isr v c)"
    unfolding clear_isr_def Let_def
    using update_active_ok(1) [OF d(1-5)] update_active_ok(2) [OF d(1-5)] d(6,7)
    by (simp_all add: normal_mode_def [of c])
qed

lemma end_irq_inv:
  assumes "pic_inv s"
  shows "pic_inv (end_irq p v s)"
proof -
  let ?c = "pics p s"
  have c: "ctrl_inv ?c" by (rule inv_pics [OF assms])
  then have fi: "ctrl_inv (clear_isr v ?c)" "irr (clear_isr v ?c) = irr ?c"
    by (simp_all add: ctrl_inv_def clear_isr_inv) (simp add: clear_isr_def update_active_fields Let_def)
  show ?thesis
  proof (cases "possible_irqs (clear_isr v ?c) = 0")
    case True
    have sub: "bit (possible_irqs ?c) i \<Longrightarrow> bit (possible_irqs (clear_isr v ?c)) i" for i
      using c by (auto simp: bit_possible clear_isr_def update_active_fields Let_def ctrl_inv_def ctrl_ok_def
          bit_not_iff bit_and_iff bit_or_iff)
    have "\<not> deliverable (clear_isr v ?c)" "\<not> deliverable ?c"
      using True sub by (auto simp: deliverable_def)
    then show ?thesis unfolding end_irq_eq using True inv_keep [where f = "clear_isr v", OF assms fi] by simp
  qed (use end_irq_eq inv_check [where f = "clear_isr v", OF assms fi] in simp)
qed

lemma end_irq_ok: "ctrl_ok (pics q s) \<Longrightarrow> ctrl_ok (pics q (end_irq p v s))"
  by (cases p; cases q)
     (simp_all add: end_irq_eq clear_isr_inv request_ctrl(3) [where q = Primary, unfolded pics.simps]
        request_ctrl(3) [where q = Secondary, unfolded pics.simps])

lemma end_irq_irr:
  "i \<noteq> 2 \<or> p = Primary \<Longrightarrow> bit (irr (primary_controller (end_irq p v s))) i = bit (irr (primary_controller s)) i"
  "irr (secondary_controller (end_irq p v s)) = irr (secondary_controller s)"
proof -
  have k: "irr (clear_isr v c) = irr c" for c by (simp add: clear_isr_def update_active_fields Let_def)
  have P: "primary_controller (end_irq Primary v s) = clear_isr v (primary_controller s)"
    "secondary_controller (end_irq Primary v s) = secondary_controller s"
    using pri.check_signal(1) [of "upd_pic Primary (clear_isr v) s"] by (simp_all add: end_irq_eq)
  let ?s = "upd_pic Secondary (clear_isr v) s"
  have S: "secondary_controller (end_irq Secondary v s) = clear_isr v (secondary_controller s)"
    using sec.check_signal(1) [of ?s] by (simp add: end_irq_eq)
  have b: "bit (irr (primary_controller (check_for_irq Secondary u))) i = bit (irr (primary_controller u)) i"
    if "i \<noteq> 2" for u
    using that pri.raise_controller [of 2 u] pri.lower_controller [of 2 u]
    by (simp add: check_for_irq.simps [of Secondary] Let_def activate.simps(2) deactivate.simps(2)
        bit_or_iff bit_and_iff bit_not_iff bit_irq_bit) (auto dest: bit_lt_8)
  show "i \<noteq> 2 \<or> p = Primary \<Longrightarrow> bit (irr (primary_controller (end_irq p v s))) i = bit (irr (primary_controller s)) i"
    using P b [of ?s] by (cases p) (auto simp: k end_irq_eq)
  show "irr (secondary_controller (end_irq p v s)) = irr (secondary_controller s)"
    using P S by (cases p) (simp_all add: k)
qed

section \<open>Delivery\<close>

lemma start_irq_fields:
  "irr (start_irq v c) = irr c AND NOT (irq_bit v)" "vector_base (start_irq v c) = vector_base c"
  by (simp_all add: start_irq_def Let_def)

lemma start_not_deliverable:
  assumes "ctrl_inv c" and "first_irq (possible_irqs c) (irq_limit c) = Some v"
  shows "ctrl_inv (start_irq v c)" "\<not> deliverable (start_irq v c)" "v < 8" "v < active_irq c"
proof -
  have v: "v < irq_limit c" "bit (possible_irqs c) v" "\<forall>j<v. \<not> bit (possible_irqs c) j"
    using assms(2) by (simp_all add: first_irq_Some)
  show va: "v < active_irq c" using v(1) assms(1) by (simp add: irq_limit_def ctrl_inv_def normal_mode_def)
  show v8: "v < 8" using bit_lt_8 [OF v(2)] .
  show "ctrl_inv (start_irq v c)"
    using assms(1) start_irq_ok [of c v] va v8 by (simp add: ctrl_inv_def)
  have n: "\<not> auto_eoi c" "\<not> special c" using assms(1) by (simp_all add: ctrl_inv_def normal_mode_def)
  have "bit (possible_irqs (start_irq v c)) i \<Longrightarrow> bit (possible_irqs c) i" for i
    using assms(1) n by (auto simp: bit_possible start_irq_def Let_def bit_and_iff bit_or_iff bit_not_iff
        ctrl_inv_def ctrl_ok_def)
  moreover have "irq_limit (start_irq v c) = v" using n by (simp add: irq_limit_def start_irq_def Let_def)
  ultimately show "\<not> deliverable (start_irq v c)" using v(3) by (auto simp: deliverable_def)
qed

lemma start_irq_served:
  assumes "ctrl_inv c" and "first_irq (possible_irqs c) (irq_limit c) = Some v"
  shows "v < active_irq c" "bit (possible_irqs c) v" "\<forall>j<v. \<not> bit (possible_irqs c) j"
    "bit (isr (start_irq v c)) v" "\<not> bit (irr (start_irq v c)) v"
  using start_not_deliverable(3,4) [OF assms] assms
  by (simp_all add: first_irq_Some start_irq_def Let_def ctrl_inv_def normal_mode_def bit_or_iff bit_and_iff
      bit_not_iff bit_irq_bit)

lemma deliverable_first: "deliverable c \<longleftrightarrow> (\<exists>v. first_irq (possible_irqs c) (irq_limit c) = Some v)"
  using first_irq_None [of "possible_irqs c" "irq_limit c"] by (auto simp: deliverable_def)

lemma run_delivers:
  assumes "pic_inv s" and "PIC_IRQCheck s \<noteq> 0"
  shows "\<exists>i. first_irq (possible_irqs (primary_controller s)) (irq_limit (primary_controller s)) = Some i \<and>
    (if i = 2 then \<exists>j. first_irq (possible_irqs (secondary_controller s)) (irq_limit (secondary_controller s)) = Some j \<and>
        PIC_runIRQs True False s = s\<lparr>primary_controller := start_irq 2 (primary_controller s),
          secondary_controller := start_irq j (secondary_controller s),
          hw_interrupts := hw_interrupts s @ [unat (vector_base (secondary_controller s)) + j], PIC_IRQCheck := 0\<rparr>
     else PIC_runIRQs True False s = s\<lparr>primary_controller := start_irq i (primary_controller s),
          hw_interrupts := hw_interrupts s @ [unat (vector_base (primary_controller s)) + i], PIC_IRQCheck := 0\<rparr>)"
proof -
  obtain i where i: "first_irq (possible_irqs (primary_controller s)) (irq_limit (primary_controller s)) = Some i"
    using assms by (auto simp: pic_inv_def deliverable_first)
  show ?thesis
  proof (cases "i = 2")
    case True
    then have "bit (irr (primary_controller s)) 2" using i by (simp add: first_irq_Some bit_possible)
    then obtain j where j: "first_irq (possible_irqs (secondary_controller s)) (irq_limit (secondary_controller s)) = Some j"
      using assms(1) by (auto simp: pic_inv_def deliverable_first)
    show ?thesis
      using True i j assms(2)
      by (simp add: PIC_runIRQs_def Let_def secondary_startIRQ_def CPU_HW_Interrupt_def)
  next
    case False
    then show ?thesis
      using i assms(2) by (simp add: PIC_runIRQs_def Let_def primary_startIRQ_def CPU_HW_Interrupt_def)
  qed
qed

lemma run_inv:
  assumes "pic_inv s"
  shows "pic_inv (PIC_runIRQs f t s)"
proof (cases "f \<and> \<not> t \<and> PIC_IRQCheck s \<noteq> 0")
  case True
  then obtain i where i: "first_irq (possible_irqs (primary_controller s)) (irq_limit (primary_controller s)) = Some i"
    and r: "if i = 2 then \<exists>j. first_irq (possible_irqs (secondary_controller s)) (irq_limit (secondary_controller s)) = Some j \<and>
        PIC_runIRQs True False s = s\<lparr>primary_controller := start_irq 2 (primary_controller s),
          secondary_controller := start_irq j (secondary_controller s),
          hw_interrupts := hw_interrupts s @ [unat (vector_base (secondary_controller s)) + j], PIC_IRQCheck := 0\<rparr>
     else PIC_runIRQs True False s = s\<lparr>primary_controller := start_irq i (primary_controller s),
          hw_interrupts := hw_interrupts s @ [unat (vector_base (primary_controller s)) + i], PIC_IRQCheck := 0\<rparr>"
    using run_delivers [OF assms] by blast
  have cp: "ctrl_inv (primary_controller s)" "ctrl_inv (secondary_controller s)"
    using assms by (simp_all add: pic_inv_def)
  note P = start_not_deliverable [OF cp(1) i]
  show ?thesis
  proof (cases "i = 2")
    case 2: True
    then obtain j where j: "first_irq (possible_irqs (secondary_controller s)) (irq_limit (secondary_controller s)) = Some j"
      and e: "PIC_runIRQs True False s = s\<lparr>primary_controller := start_irq 2 (primary_controller s),
          secondary_controller := start_irq j (secondary_controller s),
          hw_interrupts := hw_interrupts s @ [unat (vector_base (secondary_controller s)) + j], PIC_IRQCheck := 0\<rparr>"
      using r by auto
    note S = start_not_deliverable [OF cp(2) j]
    show ?thesis
      using True e P S 2
      by (simp add: pic_inv_def start_irq_fields bit_and_iff bit_not_iff bit_irq_bit)
  next
    case False
    then show ?thesis
      using True r P assms
      by (simp add: pic_inv_def start_irq_fields bit_and_iff bit_not_iff bit_irq_bit)
  qed
next
  case False
  then show ?thesis using assms by (auto simp: PIC_runIRQs_def)
qed

section \<open>Operations and reachable states\<close>

datatype pic_op = RaiseIRQ nat | LowerIRQ nat | WriteCommand u16 u8 | WriteData u16 u8
  | RunIRQs bool bool | SetMask nat bool

fun pic_exec :: "pic_op \<Rightarrow> pic_state \<Rightarrow> pic_state option" where
  "pic_exec (RaiseIRQ irq) s = Some (PIC_ActivateIRQ irq s)"
| "pic_exec (LowerIRQ irq) s = Some (PIC_DeActivateIRQ irq s)"
| "pic_exec (WriteCommand port v) s = write_command port v s"
| "pic_exec (WriteData port v) s = Some (write_data port v s)"
| "pic_exec (RunIRQs f t) s = Some (PIC_runIRQs f t s)"
| "pic_exec (SetMask irq m) s = Some (PIC_SetIRQMask irq m s)"

text \<open>
  The operations that keep the normal mode: devices use the request lines other than the cascade
  line 2, special mask mode is not selected and automatic end of interrupt not programmed.
\<close>

fun normal_op :: "pic_op \<Rightarrow> pic_state \<Rightarrow> bool" where
  "normal_op (RaiseIRQ irq) s = (irq \<noteq> 2)"
| "normal_op (LowerIRQ irq) s = (irq \<noteq> 2)"
| "normal_op (WriteCommand port v) s =
     (v AND 0x10 = 0 \<and> v AND 0x08 \<noteq> 0 \<and> v AND 0x40 \<noteq> 0 \<longrightarrow> v AND 0x20 = 0)"
| "normal_op (WriteData port v) s = (icw_index (pics (data_pic port) s) = 3 \<longrightarrow> v AND 0x2 = 0)"
| "normal_op (RunIRQs f t) s = True"
| "normal_op (SetMask irq m) s = True"

inductive pic_reach :: "pic_state \<Rightarrow> bool" where
  init: "hw_interrupts s0 = [] \<Longrightarrow> pic_reach (PIC_8259A s0)"
| step: "pic_reach s \<Longrightarrow> pic_exec op s = Some t \<Longrightarrow> pic_reach t"

inductive pic_normal_reach :: "pic_state \<Rightarrow> bool" where
  init: "hw_interrupts s0 = [] \<Longrightarrow> pic_normal_reach (PIC_8259A s0)"
| step: "pic_normal_reach s \<Longrightarrow> normal_op op s \<Longrightarrow> pic_exec op s = Some t \<Longrightarrow> pic_normal_reach t"

lemma pic_inv_scalars:
  "pic_inv (s\<lparr>CPU_CycleLeft := x, CPU_Cycles := y\<rparr>) = pic_inv s"
  by (simp add: pic_inv_def)

lemma PIC_ActivateIRQ_inv: "pic_inv s \<Longrightarrow> irq \<noteq> 2 \<Longrightarrow> pic_inv (PIC_ActivateIRQ irq s)"
  using inv_raise [of s Primary irq] inv_raise [of s Secondary "irq - 8"]
  by (simp add: PIC_ActivateIRQ_def irq_pic_def Let_def pic_inv_scalars)

lemma PIC_DeActivateIRQ_inv: "pic_inv s \<Longrightarrow> irq \<noteq> 2 \<Longrightarrow> pic_inv (PIC_DeActivateIRQ irq s)"
  using inv_lower [of s Primary irq] inv_lower [of s Secondary "irq - 8"]
  by (simp add: PIC_DeActivateIRQ_def irq_pic_def)

lemma PIC_SetIRQMask_inv: "pic_inv s \<Longrightarrow> pic_inv (PIC_SetIRQMask irq m s)"
  by (simp add: PIC_SetIRQMask_def Let_def set_imr_inv split: prod.split)

lemma icw4_bit: "2 + unat (v AND 1) \<in> {2, 3}" for v :: u8
proof -
  have "v AND 1 = (if bit v 0 then 1 else 0)" using word_and_power [of 0 v] by simp
  then show ?thesis by simp
qed

lemma inv_same:
  assumes "pic_inv s" "ctrl_inv (f (pics p s))" "irr (f (pics p s)) = irr (pics p s)"
    "imrr (f (pics p s)) = imrr (pics p s)" "isrr (f (pics p s)) = isrr (pics p s)"
    "special (f (pics p s)) = special (pics p s)" "active_irq (f (pics p s)) = active_irq (pics p s)"
  shows "pic_inv (upd_pic p f s)"
  using assms by (intro inv_keep deliverable_cong) simp_all

lemma write_command_inv:
  assumes "pic_inv s" "normal_op (WriteCommand port v) s" "write_command port v s = Some t"
  shows "pic_inv t"
proof -
  let ?p = "command_pic port"
  note c = inv_pics [OF assms(1), of ?p]
  consider (icw1) "v AND 0x10 \<noteq> 0" | (ocw3) "v AND 0x10 = 0" "v AND 0x08 \<noteq> 0"
    | (eoi) "v AND 0x10 = 0" "v AND 0x08 = 0" "v AND 0x20 \<noteq> 0"
    | (other) "v AND 0x10 = 0" "v AND 0x08 = 0" "v AND 0x20 = 0" by blast
  then show ?thesis
  proof cases
    case icw1
    have i: "pic_inv (set_imr ?p 0 s)" by (rule set_imr_inv [OF assms(1)])
    have "pic_inv (upd_pic ?p (\<lambda>c. c\<lparr>single := (v AND 0x02 = 0x02), icw_index := 1,
        icw_words := 2 + unat (v AND 0x01)\<rparr>) (set_imr ?p 0 s))"
      by (rule inv_same [OF i]) (simp_all only: ctrl_inv_fields(5) [OF inv_pics [OF i] icw4_bit], simp_all)
    then show ?thesis using icw1 assms(3) by (simp add: write_command_def Let_def)
  next
    case ocw3
    define s1 where "s1 = (if v AND 0x02 \<noteq> 0 then upd_pic ?p (\<lambda>c. c\<lparr>request_issr := (v AND 0x01 \<noteq> 0)\<rparr>) s else s)"
    have i: "pic_inv s1"
      unfolding s1_def using assms(1) by (auto intro!: inv_same [OF assms(1)] ctrl_inv_fields c)
    have "pic_inv (check_for_irq ?p (upd_pic ?p (\<lambda>c. c\<lparr>special := False\<rparr>) s1))"
      by (rule inv_check [OF i]) (simp_all add: ctrl_inv_fields(4) [OF inv_pics [OF i]])
    then show ?thesis
      using ocw3 assms(2,3) i by (auto simp: write_command_def Let_def s1_def split: if_splits)
  next
    case eoi
    then show ?thesis
      using assms(1,3) end_irq_inv [OF assms(1)] by (auto simp: write_command_def Let_def split: if_splits)
  next
    case other
    have "pic_inv (upd_pic ?p (\<lambda>c. c\<lparr>rotate_on_auto_eoi := (v AND 0x80 \<noteq> 0)\<rparr>) s)"
      by (rule inv_same [OF assms(1)]) (simp_all add: ctrl_inv_fields(3) [OF c])
    then show ?thesis
      using other assms(1,3) by (auto simp: write_command_def Let_def split: if_splits)
  qed
qed

lemma vector_mask: "(v AND 0xf8) AND 7 = 0" for v :: u8
  by (simp add: and.assoc)

lemma write_data_ctrl:
  assumes "ctrl_ok c" "icw_index c \<noteq> 0"
  shows "ctrl_ok (next_icw c)" "ctrl_ok (next_icw (c\<lparr>auto_eoi := b\<rparr>))"
    "ctrl_ok (let c1 = c\<lparr>vector_base := v AND 0xf8\<rparr> in
       if icw_words c1 \<le> icw_index c1 then c1\<lparr>icw_index := 0\<rparr>
       else if single c1 then c1\<lparr>icw_index := 3\<rparr>
       else c1\<lparr>icw_index := icw_index c1 + 1\<rparr>)"
  using assms by (auto simp: next_icw_def ctrl_ok_def Let_def vector_mask)

lemma write_data_inv:
  assumes "pic_inv s" "normal_op (WriteData port v) s"
  shows "pic_inv (write_data port v s)"
proof -
  let ?p = "data_pic port"
  note c = inv_pics [OF assms(1), of ?p]
  have ok: "ctrl_ok (pics ?p s)" "normal_mode (pics ?p s)" using c by (simp_all add: ctrl_inv_def)
  have n: "normal_mode (next_icw (pics ?p s))" "normal_mode (next_icw ((pics ?p s)\<lparr>auto_eoi := False\<rparr>))"
    using ok by (simp_all add: normal_mode_def next_icw_def)
  have d2: "pic_inv (upd_pic ?p next_icw s)" if "icw_index (pics ?p s) = 2"
    using that ok n
    by (intro inv_same [OF assms(1)]) (simp_all add: ctrl_inv_def write_data_ctrl, simp_all add: next_icw_def)
  have d3: "pic_inv (upd_pic ?p (\<lambda>c. next_icw (c\<lparr>auto_eoi := False\<rparr>)) s)" if "icw_index (pics ?p s) = 3"
    using that ok n
    by (intro inv_same [OF assms(1)]) (simp_all add: ctrl_inv_def write_data_ctrl, simp_all add: next_icw_def)
  let ?f = "\<lambda>c. let c1 = c\<lparr>vector_base := v AND 0xf8\<rparr> in
       if icw_words c1 \<le> icw_index c1 then c1\<lparr>icw_index := 0\<rparr>
       else if single c1 then c1\<lparr>icw_index := 3\<rparr>
       else c1\<lparr>icw_index := icw_index c1 + 1\<rparr>"
  have "normal_mode (?f (pics ?p s))" using ok by (simp add: normal_mode_def Let_def)
  then have d1: "pic_inv (upd_pic ?p ?f s)" if "icw_index (pics ?p s) = 1"
    using that ok write_data_ctrl(3) [OF ok(1), of v]
    by (intro inv_same [OF assms(1)]) (simp_all add: ctrl_inv_def, simp_all add: Let_def)
  show ?thesis
    unfolding write_data_def Let_def [of "data_pic port"] Let_def [of "icw_index _"]
    using assms d1 d2 d3 set_imr_inv [OF assms(1)] by simp
qed

lemma pic_exec_inv:
  assumes "pic_inv s" "normal_op op s" "pic_exec op s = Some t"
  shows "pic_inv t"
  using assms
  by (cases op) (auto simp: PIC_ActivateIRQ_inv PIC_DeActivateIRQ_inv PIC_SetIRQMask_inv run_inv
      write_data_inv intro: write_command_inv simp del: normal_op.simps(3,4))

lemma init_inv: "pic_inv (PIC_8259A s)"
proof -
  let ?s = "s\<lparr>PIC_IRQCheck := 0, PIC_Ticks := 0, primary_controller := reset_controller 0x08,
      secondary_controller := reset_controller 0x70\<rparr>"
  have "pic_inv ?s"
    by (simp add: pic_inv_def ctrl_inv_def ctrl_ok_def normal_mode_def reset_controller_def deliverable_def
        possible_irqs_def)
  then show ?thesis
    unfolding PIC_8259A_def by (simp add: PIC_SetIRQMask_inv PIC_DeActivateIRQ_inv)
qed

section \<open>Every mode\<close>

text \<open>The delivered interrupts and the cycle budget, which no request, mask or command changes.\<close>

definition book :: "pic_state \<Rightarrow> nat list \<times> int" where
  "book s = (hw_interrupts s, CPU_Cycles s + CPU_CycleLeft s)"

lemma book_upd [simp]: "book (upd_pic p f s) = book s"
  by (cases p) (simp_all add: book_def)

lemma book_requests [simp]:
  "book (raise_irq p v s) = book s" "book (check_for_irq p s) = book s" "book (lower_irq p v s) = book s"
proof -
  have r1: "book (raise_irq Primary v s) = book s" for v s
    by (simp add: raise_irq.simps Let_def book_def)
  have c1: "book (check_for_irq Primary s) = book s" for s
    by (simp add: check_for_irq.simps Let_def book_def)
  have l1: "book (lower_irq Primary v s) = book s" for v s
    by (simp add: lower_irq.simps Let_def c1 del: upd_pic.simps)
  have r2: "book (raise_irq Secondary v s) = book s" for v s
    by (simp add: raise_irq.simps [of Secondary] Let_def activate.simps(2) r1 del: upd_pic.simps)
  have c2: "book (check_for_irq Secondary s) = book s" for s
    by (simp add: check_for_irq.simps [of Secondary] Let_def activate.simps(2) deactivate.simps(2) r1 l1)
  have l2: "book (lower_irq Secondary v s) = book s" for v s
    by (simp add: lower_irq.simps [of Secondary] Let_def c2 del: upd_pic.simps)
  show "book (raise_irq p v s) = book s" "book (check_for_irq p s) = book s" "book (lower_irq p v s) = book s"
    by (cases p; simp only: r1 r2 c1 c2 l1 l2)+
qed

lemma book_mask [simp]: "book (set_imr p v s) = book s" "book (end_irq p i s) = book s"
  by (simp_all add: set_imr_def end_irq_eq Let_def del: upd_pic.simps)

lemma raise_cycles: "CPU_Cycles (raise_irq p v s) \<in> {CPU_Cycles s, 0}"
proof -
  have r1: "CPU_Cycles (raise_irq Primary v s) \<in> {CPU_Cycles s, 0}" for v s
    by (simp add: raise_irq.simps Let_def)
  have "CPU_Cycles (raise_irq Secondary v s) \<in> {CPU_Cycles s, 0}"
    using r1 [of 2 "upd_pic Secondary (\<lambda>c. c\<lparr>irr := irr c OR irq_bit v\<rparr>) s"]
    by (simp add: raise_irq.simps [of Secondary] Let_def activate.simps(2))
  with r1 show ?thesis by (cases p) simp_all
qed

lemma book_ops:
  "book (PIC_ActivateIRQ irq s) = book s" "book (PIC_DeActivateIRQ irq s) = book s"
  "book (PIC_SetIRQMask irq m s) = book s" "book (write_data port v s) = book s"
  "write_command port v s = Some t \<Longrightarrow> book t = book s"
proof -
  have "CPU_Cycles (raise_irq p v s) + CPU_CycleLeft (raise_irq p v s) = CPU_Cycles s + CPU_CycleLeft s"
    "hw_interrupts (raise_irq p v s) = hw_interrupts s" for p v
    using book_requests(1) [of p v s] by (simp_all add: book_def)
  note b = this
  obtain p k where pt: "irq_pic irq = (p, k)" by fastforce
  show "book (PIC_ActivateIRQ irq s) = book s"
    using b [of p k] raise_cycles [of p k s] by (auto simp: PIC_ActivateIRQ_def Let_def book_def pt)
  show "book (PIC_DeActivateIRQ irq s) = book s" "book (PIC_SetIRQMask irq m s) = book s"
    by (simp_all add: PIC_DeActivateIRQ_def PIC_SetIRQMask_def Let_def split: prod.split)
  show "book (write_data port v s) = book s"
    by (simp add: write_data_def Let_def del: upd_pic.simps)
  show "write_command port v s = Some t \<Longrightarrow> book t = book s"
    by (auto simp: write_command_def Let_def split: if_splits simp del: upd_pic.simps)
qed

lemma ctrl_ok_upd: "ctrl_ok (pics q s) \<Longrightarrow> (q = p \<Longrightarrow> ctrl_ok (f (pics p s))) \<Longrightarrow> ctrl_ok (pics q (upd_pic p f s))"
  by (cases p; cases q) simp_all

lemma write_command_ok:
  assumes "\<And>q. ctrl_ok (pics q s)" "write_command port v s = Some t"
  shows "ctrl_ok (pics q t)"
proof -
  have icw: "ctrl_ok (pics q (upd_pic p (\<lambda>c. c\<lparr>single := b, icw_index := 1, icw_words := 2 + unat (v AND 1)\<rparr>)
      (set_imr p 0 s)))" for p b
    using assms(1) by (intro ctrl_ok_upd ctrl_ok_fields icw4_bit set_imr_ok)
  have f: "ctrl_ok (pics q (upd_pic p (\<lambda>c. c\<lparr>request_issr := b\<rparr>) s))"
    "ctrl_ok (pics q (upd_pic p (\<lambda>c. c\<lparr>rotate_on_auto_eoi := b\<rparr>) s))" for p b q
    using assms(1) by (auto intro!: ctrl_ok_upd ctrl_ok_fields)
  have sp: "ctrl_ok (pics q (upd_pic p (\<lambda>c. c\<lparr>special := b\<rparr>) u))" if "\<And>q. ctrl_ok (pics q u)" for p b u
    using that by (auto intro!: ctrl_ok_upd ctrl_ok_fields)
  show ?thesis
    using assms(2) icw f sp [OF assms(1)] sp [OF f(1)] end_irq_ok [OF assms(1)] assms(1)
    by (auto simp: write_command_def Let_def split: if_splits simp del: upd_pic.simps)
qed

lemma write_data_ok:
  assumes "\<And>q. ctrl_ok (pics q s)"
  shows "ctrl_ok (pics q (write_data port v s))"
proof -
  let ?p = "data_pic port"
  let ?f = "\<lambda>c. let c1 = c\<lparr>vector_base := v AND 0xf8\<rparr> in
       if icw_words c1 \<le> icw_index c1 then c1\<lparr>icw_index := 0\<rparr>
       else if single c1 then c1\<lparr>icw_index := 3\<rparr>
       else c1\<lparr>icw_index := icw_index c1 + 1\<rparr>"
  have "ctrl_ok (pics q (upd_pic ?p next_icw s))" "ctrl_ok (pics q (upd_pic ?p (\<lambda>c. next_icw (c\<lparr>auto_eoi := b\<rparr>)) s))"
    "ctrl_ok (pics q (upd_pic ?p ?f s))" if "icw_index (pics ?p s) \<noteq> 0" for b
    by (rule ctrl_ok_upd [OF assms], rule write_data_ctrl [OF assms that])+
  then show ?thesis
    unfolding write_data_def Let_def [of "data_pic port"] Let_def [of "icw_index _"]
    using assms set_imr_ok [OF assms] by (simp del: upd_pic.simps)
qed

lemma run_ok:
  assumes "\<And>q. ctrl_ok (pics q s)"
  shows "ctrl_ok (pics q (PIC_runIRQs f t s))"
    and "\<exists>ns. hw_interrupts (PIC_runIRQs f t s) = hw_interrupts s @ ns \<and> (\<forall>n\<in>set ns. n < 256)"
    and "CPU_Cycles (PIC_runIRQs f t s) + CPU_CycleLeft (PIC_runIRQs f t s) = CPU_Cycles s + CPU_CycleLeft s"
proof -
  have ok: "ctrl_ok (primary_controller s)" "ctrl_ok (secondary_controller s)"
    using assms [of Primary] assms [of Secondary] by simp_all
  have first: "i < 8" if "first_irq (possible_irqs c) n = Some i" for c n i
    using that bit_lt_8 by (auto simp: first_irq_Some)
  have vec: "unat (vector_base c) + i < 256" if "ctrl_ok c" "i < 8" for c i
  proof -
    have "vector_base c AND 7 = take_bit 3 (vector_base c)" by (simp add: take_bit_eq_mask mask_numeral)
    then have "take_bit 3 (vector_base c) = 0" using that(1) by (simp add: ctrl_ok_def)
    then have "take_bit 3 (unat (vector_base c)) = 0" by (simp flip: unsigned_take_bit_eq)
    then have "unat (vector_base c) mod 8 = 0" by (simp add: take_bit_eq_mod)
    moreover have "unat (vector_base c) < 256" using unsigned_less [of "vector_base c"] by simp
    ultimately show ?thesis using that(2) by presburger
  qed
  show "ctrl_ok (pics q (PIC_runIRQs f t s))"
    using ok first start_irq_ok(1)
    by (cases q) (auto simp: PIC_runIRQs_def Let_def secondary_startIRQ_def primary_startIRQ_def CPU_HW_Interrupt_def
        split: option.split)
  show "\<exists>ns. hw_interrupts (PIC_runIRQs f t s) = hw_interrupts s @ ns \<and> (\<forall>n\<in>set ns. n < 256)"
    using ok first vec
    by (auto simp: PIC_runIRQs_def Let_def secondary_startIRQ_def primary_startIRQ_def CPU_HW_Interrupt_def
        split: option.split)
  show "CPU_Cycles (PIC_runIRQs f t s) + CPU_CycleLeft (PIC_runIRQs f t s) = CPU_Cycles s + CPU_CycleLeft s"
    by (simp add: PIC_runIRQs_def Let_def secondary_startIRQ_def primary_startIRQ_def CPU_HW_Interrupt_def
        split: option.split)
qed

lemma request_ops_ok:
  assumes "\<And>q. ctrl_ok (pics q s)"
  shows "ctrl_ok (pics q (PIC_ActivateIRQ irq s))" "ctrl_ok (pics q (PIC_DeActivateIRQ irq s))"
    "ctrl_ok (pics q (PIC_SetIRQMask irq m s))"
proof -
  have e: "pics q (t\<lparr>CPU_CycleLeft := x, CPU_Cycles := y\<rparr>) = pics q t" for t x y by (cases q) simp_all
  show "ctrl_ok (pics q (PIC_ActivateIRQ irq s))" "ctrl_ok (pics q (PIC_DeActivateIRQ irq s))"
    "ctrl_ok (pics q (PIC_SetIRQMask irq m s))"
    using assms by (auto simp: PIC_ActivateIRQ_def PIC_DeActivateIRQ_def PIC_SetIRQMask_def Let_def e set_imr_ok
        split: prod.split)
qed

definition pic_wf :: "pic_state \<Rightarrow> bool" where
  "pic_wf s = (ctrl_ok (primary_controller s) \<and> ctrl_ok (secondary_controller s) \<and>
     (\<forall>n\<in>set (hw_interrupts s). n < 256))"

lemma pic_wf_pics: "pic_wf s \<longleftrightarrow> (\<forall>q. ctrl_ok (pics q s)) \<and> (\<forall>n\<in>set (hw_interrupts s). n < 256)"
  unfolding pic_wf_def by (metis (full_types) pic_id.exhaust pics.simps)

lemma pic_exec_wf:
  assumes "pic_wf s" "pic_exec op s = Some t"
  shows "pic_wf t"
proof -
  have ok: "ctrl_ok (pics q s)" for q using assms(1) by (simp add: pic_wf_pics)
  have "ctrl_ok (pics q t)" for q
    using assms(2) ok request_ops_ok [OF ok] write_command_ok [OF ok] write_data_ok [OF ok] run_ok(1) [OF ok]
    by (cases op) auto
  moreover have "\<forall>n\<in>set (hw_interrupts t). n < 256"
  proof (cases "\<exists>f g. op = RunIRQs f g")
    case True
    then obtain f g where o: "op = RunIRQs f g" by blast
    obtain ns where "hw_interrupts (PIC_runIRQs f g s) = hw_interrupts s @ ns" "\<forall>n\<in>set ns. n < 256"
      using run_ok(2) [OF ok, of f g] by blast
    then show ?thesis using assms o by (auto simp: pic_wf_pics)
  next
    case False
    then have "book t = book s" using assms(2) book_ops by (cases op) auto
    then show ?thesis using assms(1) by (simp add: book_def pic_wf_pics)
  qed
  ultimately show ?thesis by (simp add: pic_wf_pics)
qed

lemma init_log: "hw_interrupts (PIC_8259A s) = hw_interrupts s"
proof -
  have h: "book u = book v \<Longrightarrow> hw_interrupts u = hw_interrupts v" for u v by (simp add: book_def)
  have o: "hw_interrupts (PIC_SetIRQMask irq m u) = hw_interrupts u"
    "hw_interrupts (PIC_DeActivateIRQ irq u) = hw_interrupts u" for irq m u
    by (rule h, rule book_ops)+
  show ?thesis by (simp add: PIC_8259A_def o)
qed

lemma normal_reach_inv: "pic_normal_reach s \<Longrightarrow> pic_inv s"
proof (induction rule: pic_normal_reach.induct)
  case (init s0)
  show ?case by (rule init_inv)
next
  case (step s op t)
  then show ?case by (blast intro: pic_exec_inv)
qed

text \<open>A machine before the controllers are set up, for concrete instances.\<close>

definition zero_pic :: pic_state where
  "zero_pic = \<lparr>primary_controller = reset_controller 0, secondary_controller = reset_controller 0,
     PIC_IRQCheck = 0, PIC_Ticks = 0, CPU_Cycles = 100, CPU_CycleLeft = 3000,
     machine_is_pcjr = False, machine_is_ega_or_better = True, hw_interrupts = []\<rparr>"

lemma normal_reach_raise:
  "pic_normal_reach (PIC_ActivateIRQ 1 (PIC_8259A zero_pic))"
proof -
  have "pic_normal_reach (PIC_8259A zero_pic)" by (rule pic_normal_reach.init) (simp add: zero_pic_def)
  then show ?thesis by (rule pic_normal_reach.step [where op = "RaiseIRQ 1"]) simp_all
qed

lemma normal_reach_run:
  "pic_normal_reach (PIC_runIRQs True False (PIC_ActivateIRQ 1 (PIC_8259A zero_pic)))"
  by (rule pic_normal_reach.step [OF normal_reach_raise, where op = "RunIRQs True False"]) simp_all

lemma run_in_service:
  "isr (primary_controller (PIC_runIRQs True False (PIC_ActivateIRQ 1 (PIC_8259A zero_pic)))) \<noteq> 0"
  by code_simp

lemma set_imr_fields:
  "imr (pics p (set_imr p 0 s)) = 0" "auto_eoi (pics p (set_imr p v s)) = auto_eoi (pics p s)"
proof -
  have keep: "imr (pics p (check_for_irq p t)) = imr (pics p t)"
    "auto_eoi (pics p (check_for_irq p t)) = auto_eoi (pics p t)" for t
    using request_frame(3) [of p p t] by auto
  show "imr (pics p (set_imr p 0 s)) = 0" "auto_eoi (pics p (set_imr p v s)) = auto_eoi (pics p s)"
    by (simp_all add: set_imr_def Let_def keep)
qed

section \<open>Properties\<close>

text \<open>
  Property C28. In every state reachable by raising and lowering requests, writing the command and
  data ports, changing masks and running interrupts, in any mode: the reversed registers are the
  complements, the active request is a request in service and is 8 exactly when none is, the
  initialisation index stays in range, the vector base is a multiple of 8, and every interrupt
  number handed to the CPU is below 256.
\<close>

theorem pic_reach_wf:
  assumes "pic_reach s"
  shows "ctrl_ok (primary_controller s) \<and> ctrl_ok (secondary_controller s) \<and>
    (\<forall>n\<in>set (hw_interrupts s). n < 256)"
proof -
  have "pic_wf s" using assms
  proof (induction rule: pic_reach.induct)
    case (init s0)
    then show ?case using init_inv [of s0] by (simp add: pic_wf_def pic_inv_def ctrl_inv_def init_log)
  next
    case (step s op t)
    then show ?case by (blast intro: pic_exec_wf)
  qed
  then show ?thesis by (simp add: pic_wf_def)
qed

theorem pic_reach_wf_witness:
  "pic_reach (PIC_runIRQs True False (PIC_ActivateIRQ 1 (PIC_8259A zero_pic))) \<and>
   ctrl_ok (primary_controller (PIC_runIRQs True False (PIC_ActivateIRQ 1 (PIC_8259A zero_pic))))"
proof -
  have "pic_reach (PIC_8259A zero_pic)" by (rule pic_reach.init) (simp add: zero_pic_def)
  then have "pic_reach (PIC_ActivateIRQ 1 (PIC_8259A zero_pic))"
    by (rule pic_reach.step [where op = "RaiseIRQ 1"]) simp
  then have "pic_reach (PIC_runIRQs True False (PIC_ActivateIRQ 1 (PIC_8259A zero_pic)))"
    by (rule pic_reach.step [where op = "RunIRQs True False"]) simp
  with pic_reach_wf [OF this] show ?thesis by blast
qed

text \<open>
  Property C17. While neither special mask mode nor automatic end of interrupt is used and devices
  leave the cascade line alone, the CPU's pending-check flag is set exactly when the primary has an
  unmasked request of higher priority than what is in service, request 2 of the primary is raised
  exactly when the secondary has one, and in each controller the active request is the
  highest-priority one in service.
\<close>

theorem pic_normal_signals:
  assumes "pic_normal_reach s"
  shows "(PIC_IRQCheck s \<noteq> 0 \<longleftrightarrow> deliverable (primary_controller s)) \<and>
    (bit (irr (primary_controller s)) 2 \<longleftrightarrow> deliverable (secondary_controller s)) \<and>
    normal_mode (primary_controller s) \<and> normal_mode (secondary_controller s)"
  using normal_reach_inv [OF assms] by (simp add: pic_inv_def ctrl_inv_def)

theorem pic_normal_signals_witness:
  "pic_normal_reach (PIC_ActivateIRQ 1 (PIC_8259A zero_pic)) \<and>
   normal_mode (primary_controller (PIC_ActivateIRQ 1 (PIC_8259A zero_pic)))"
  using pic_normal_signals [OF normal_reach_raise] normal_reach_raise by blast

text \<open>
  Property C6. In normal mode, with neither automatic end of interrupt nor the special mask mode in
  use since start-up, with interrupts enabled and outside a trap run, a pending deliverable request
  is delivered: exactly one
  interrupt is raised, that of the highest-priority unmasked request (of the secondary's when the
  primary's is the cascade line), its request is cleared and it is put in service, and the check
  flag is reset. The spurious branch of the cascade is never taken.
\<close>

theorem pic_delivers_highest:
  assumes "pic_normal_reach s" and "deliverable (primary_controller s)"
  shows "let t = PIC_runIRQs True False s; p = primary_controller s; c = secondary_controller s in
    PIC_IRQCheck t = 0 \<and>
    (\<exists>i<active_irq p. bit (possible_irqs p) i \<and> (\<forall>j<i. \<not> bit (possible_irqs p) j) \<and>
      bit (isr (primary_controller t)) i \<and> \<not> bit (irr (primary_controller t)) i \<and>
      (if i = 2 then \<exists>j<active_irq c. bit (possible_irqs c) j \<and> (\<forall>k<j. \<not> bit (possible_irqs c) k) \<and>
           bit (isr (secondary_controller t)) j \<and> \<not> bit (irr (secondary_controller t)) j \<and>
           hw_interrupts t = hw_interrupts s @ [unat (vector_base c) + j]
       else hw_interrupts t = hw_interrupts s @ [unat (vector_base p) + i]))"
proof -
  have inv: "pic_inv s" by (rule normal_reach_inv [OF assms(1)])
  then have chk: "PIC_IRQCheck s \<noteq> 0" using assms(2) by (simp add: pic_inv_def)
  have cp: "ctrl_inv (primary_controller s)" "ctrl_inv (secondary_controller s)"
    using inv by (simp_all add: pic_inv_def)
  obtain i where i: "first_irq (possible_irqs (primary_controller s)) (irq_limit (primary_controller s)) = Some i"
    and r: "if i = 2 then \<exists>j. first_irq (possible_irqs (secondary_controller s)) (irq_limit (secondary_controller s)) = Some j \<and>
        PIC_runIRQs True False s = s\<lparr>primary_controller := start_irq 2 (primary_controller s),
          secondary_controller := start_irq j (secondary_controller s),
          hw_interrupts := hw_interrupts s @ [unat (vector_base (secondary_controller s)) + j], PIC_IRQCheck := 0\<rparr>
     else PIC_runIRQs True False s = s\<lparr>primary_controller := start_irq i (primary_controller s),
          hw_interrupts := hw_interrupts s @ [unat (vector_base (primary_controller s)) + i], PIC_IRQCheck := 0\<rparr>"
    using run_delivers [OF inv chk] by blast
  note P = start_irq_served [OF cp(1) i]
  show ?thesis
  proof (cases "i = 2")
    case True
    then obtain j where j: "first_irq (possible_irqs (secondary_controller s)) (irq_limit (secondary_controller s)) = Some j"
      and e: "PIC_runIRQs True False s = s\<lparr>primary_controller := start_irq 2 (primary_controller s),
          secondary_controller := start_irq j (secondary_controller s),
          hw_interrupts := hw_interrupts s @ [unat (vector_base (secondary_controller s)) + j], PIC_IRQCheck := 0\<rparr>"
      using r by auto
    show ?thesis
      unfolding Let_def e using P start_irq_served [OF cp(2) j] True by auto
  next
    case False
    then have e: "PIC_runIRQs True False s = s\<lparr>primary_controller := start_irq i (primary_controller s),
          hw_interrupts := hw_interrupts s @ [unat (vector_base (primary_controller s)) + i], PIC_IRQCheck := 0\<rparr>"
      using r by simp
    show ?thesis unfolding Let_def e using P False by auto
  qed
qed

lemma raise_deliverable: "deliverable (primary_controller (PIC_ActivateIRQ 1 (PIC_8259A zero_pic)))"
  by code_simp

theorem pic_delivers_highest_witness:
  "pic_normal_reach (PIC_ActivateIRQ 1 (PIC_8259A zero_pic)) \<and>
   deliverable (primary_controller (PIC_ActivateIRQ 1 (PIC_8259A zero_pic))) \<and>
   PIC_IRQCheck (PIC_runIRQs True False (PIC_ActivateIRQ 1 (PIC_8259A zero_pic))) = 0"
  using pic_delivers_highest [OF normal_reach_raise raise_deliverable] normal_reach_raise raise_deliverable
  unfolding Let_def by blast

text \<open>
  Property C35. The non-specific end of interrupt in normal mode: with nothing in service it changes
  nothing; otherwise it takes exactly the highest-priority request out of service, the next one in
  service becomes the active one, no request is lost, and the signals are those the new state calls
  for.
\<close>

theorem pic_nonspecific_eoi:
  assumes "pic_normal_reach s" and p_def: "p = command_pic port"
  shows "case write_command port 0x20 s of None \<Rightarrow> False
    | Some t \<Rightarrow> (if isr (pics p s) = 0 then t = s
       else isr (pics p t) = isr (pics p s) AND NOT (irq_bit (active_irq (pics p s))) \<and>
         (\<forall>j<active_irq (pics p t). \<not> bit (isr (pics p t)) j) \<and>
         (isr (pics p t) \<noteq> 0 \<longrightarrow> bit (isr (pics p t)) (active_irq (pics p t))) \<and>
         (\<forall>i. i \<noteq> 2 \<or> p = Primary \<longrightarrow> bit (irr (primary_controller t)) i = bit (irr (primary_controller s)) i) \<and>
         irr (secondary_controller t) = irr (secondary_controller s) \<and>
         (PIC_IRQCheck t \<noteq> 0 \<longleftrightarrow> deliverable (primary_controller t)) \<and>
         (bit (irr (primary_controller t)) 2 \<longleftrightarrow> deliverable (secondary_controller t)))"
proof -
  have inv: "pic_inv s" by (rule normal_reach_inv [OF assms(1)])
  define a where "a = active_irq (pics p s)"
  have c: "ctrl_inv (pics p s)" by (rule inv_pics [OF inv])
  have w: "write_command port 0x20 s = (if a = 8 then Some s else Some (end_irq p a s))"
    by (simp add: write_command_def Let_def p_def a_def)
  have z: "a = 8 \<longleftrightarrow> isr (pics p s) = 0" using c by (simp add: a_def ctrl_inv_def ctrl_ok_def)
  let ?t = "end_irq p a s"
  have ti: "pic_inv ?t" by (rule end_irq_inv [OF inv])
  have fields: "isr (pics p ?t) = isr (pics p s) AND NOT (irq_bit a)"
    using request_frame(3) [of p p "upd_pic p (clear_isr a) s"]
    by (auto simp: end_irq_eq clear_isr_def update_active_fields Let_def)
  have "normal_mode (pics p ?t)" "ctrl_ok (pics p ?t)"
    using inv_pics [OF ti, of p] by (simp_all add: ctrl_inv_def)
  moreover have "bit (isr (pics p ?t)) (active_irq (pics p ?t))" if "isr (pics p ?t) \<noteq> 0"
    using \<open>ctrl_ok (pics p ?t)\<close> that by (auto simp: ctrl_ok_def)
  moreover have "bit (irr (primary_controller ?t)) i = bit (irr (primary_controller s)) i" if "i \<noteq> 2 \<or> p = Primary" for i
    by (rule end_irq_irr(1) [OF that])
  moreover have "irr (secondary_controller ?t) = irr (secondary_controller s)" by (rule end_irq_irr(2))
  ultimately show ?thesis
    unfolding w using z fields ti by (simp add: normal_mode_def pic_inv_def a_def)
qed

theorem pic_nonspecific_eoi_witness:
  "let s = PIC_runIRQs True False (PIC_ActivateIRQ 1 (PIC_8259A zero_pic)) in
   pic_normal_reach s \<and> isr (primary_controller s) \<noteq> 0 \<and>
   (case write_command 0x20 0x20 s of None \<Rightarrow> False
    | Some t \<Rightarrow> isr (primary_controller t) = isr (primary_controller s) AND NOT (irq_bit (active_irq (primary_controller s))))"
  using pic_nonspecific_eoi [OF normal_reach_run refl, of "0x20"] normal_reach_run run_in_service
  by (auto split: option.splits simp: command_pic_def)

text \<open>
  Interrupt handling never creates or loses emulated cycles: every operation keeps the
  sum of the cycles being run and the cycles left, whatever the mode.
\<close>

theorem pic_cycles_conserved:
  assumes "pic_exec op s = Some t"
  shows "CPU_Cycles t + CPU_CycleLeft t = CPU_Cycles s + CPU_CycleLeft s"
proof (cases "\<exists>f g. op = RunIRQs f g")
  case True
  then show ?thesis
    using assms by (auto simp: PIC_runIRQs_def Let_def secondary_startIRQ_def primary_startIRQ_def CPU_HW_Interrupt_def
        split: option.split)
next
  case False
  then have "book t = book s" using assms book_ops by (cases op) auto
  then show ?thesis by (simp add: book_def)
qed

theorem pic_cycles_conserved_witness:
  "let t = PIC_ActivateIRQ 1 (PIC_8259A zero_pic); s = PIC_8259A zero_pic in
   pic_exec (RaiseIRQ 1) s = Some t \<and> CPU_Cycles t + CPU_CycleLeft t = CPU_Cycles s + CPU_CycleLeft s"
  using pic_cycles_conserved [of "RaiseIRQ 1" "PIC_8259A zero_pic" "PIC_ActivateIRQ 1 (PIC_8259A zero_pic)"]
  by (simp add: Let_def)

text \<open>
  The initialisation sequence: after the first command word the data port takes a fixed
  number of initialisation words and then is the mask register again, whatever the words are. The
  first sets the vector base (rounded down to a multiple of 8). In cascade mode there are two words,
  or three when the fourth command word was announced; in single mode there are always two, the
  second being taken as the fourth command word even when it was not announced.
\<close>

theorem pic_icw_sequence:
  assumes "v AND 0x10 \<noteq> 0" and "data_pic dp = command_pic port"
  shows "let p = command_pic port; one = (v AND 0x02 = 0x02);
      len = (if one \<or> v AND 0x01 = 0 then 2 else 3); c = (\<lambda>t. pics p t);
      run = (\<lambda>ws s0. fold (write_data dp) ws s0)
    in case write_command port v s of None \<Rightarrow> False
     | Some s0 \<Rightarrow> imr (c s0) = 0 \<and>
        (\<forall>ws. length ws < len \<longrightarrow> icw_index (c (run ws s0)) \<noteq> 0) \<and>
        (\<forall>ws. length ws = len \<longrightarrow> icw_index (c (run ws s0)) = 0 \<and> imr (c (run ws s0)) = 0 \<and>
           vector_base (c (run ws s0)) = hd ws AND 0xf8 \<and>
           auto_eoi (c (run ws s0)) = (if one \<or> v AND 0x01 \<noteq> 0 then last ws AND 0x2 \<noteq> 0 else auto_eoi (c s)) \<and>
           (\<forall>m. write_data dp m (run ws s0) = set_imr p m (run ws s0)))"
proof -
  define p where "p = command_pic port"
  define s1 where "s1 = set_imr p 0 s"
  define f where "f = (\<lambda>c. c\<lparr>single := (v AND 0x02 = 0x02), icw_index := 1, icw_words := 2 + unat (v AND 0x01)\<rparr> :: PIC_Controller)"
  have w: "write_command port v s = Some (upd_pic p f s1)"
    using assms(1) by (simp add: write_command_def Let_def p_def s1_def f_def)
  have i1: "imr (pics p s1) = 0" "auto_eoi (pics p s1) = auto_eoi (pics p s)"
    by (simp_all add: s1_def set_imr_fields)
  have b: "unat (v AND 1) = (if v AND 1 = 0 then 0 else 1)"
    using icw4_bit [of v] by (auto simp: unat_eq_0)
  have d: "data_pic dp = p" using assms(2) by (simp add: p_def)
  have two: "length ws < 2 \<longleftrightarrow> ws = [] \<or> (\<exists>x. ws = [x])" "length ws < 3 \<longleftrightarrow> ws = [] \<or> (\<exists>x. ws = [x]) \<or> (\<exists>x y. ws = [x, y])"
    "length ws = 2 \<longleftrightarrow> (\<exists>x y. ws = [x, y])" "length ws = 3 \<longleftrightarrow> (\<exists>x y z. ws = [x, y, z])" for ws :: "u8 list"
    by (auto simp: numeral_2_eq_2 numeral_3_eq_3 less_Suc_eq length_Suc_conv)
  note step = write_data_def Let_def d upd_upd f_def b next_icw_def
  show ?thesis
    unfolding Let_def w p_def [symmetric] option.case
    by (cases "v AND 1 = 0"; cases "v AND 2 = 2")
      (auto simp: two step i1 simp del: upd_pic.simps)
qed

theorem pic_icw_sequence_witness:
  "(0x11::u8) AND 0x10 \<noteq> 0 \<and> data_pic 0x21 = command_pic 0x20 \<and>
   write_command 0x20 0x11 (PIC_8259A zero_pic) \<noteq> None"
proof -
  have h: "(0x11::u8) AND 0x10 \<noteq> 0" "data_pic 0x21 = command_pic 0x20"
    by (simp_all add: data_pic_def command_pic_def)
  show ?thesis using pic_icw_sequence [OF h, of "PIC_8259A zero_pic"] h
    by (auto simp: Let_def split: option.splits)
qed

end
