(* ===== verification/Event_Props.thy ===== *)
theory Event_Props
  imports Event_Store Pic_Props
begin

text \<open>
  What the event queue guarantees: scheduling is a stable sorted insertion that never lets the CPU
  run past the next event, removal is filtering, and a tick shifts every event by one millisecond
  and calls every tick handler once.
\<close>

section \<open>The tick index and conversions\<close>

text \<open>
  The cycle counts the configuration allows (\<^verbatim>\<open>CpuCyclesMax\<close> is 2000000) and a position within the
  current millisecond that an instruction may overrun.
\<close>

definition timing_ok :: "('h, 't, 'm) events \<Rightarrow> bool" where
  "timing_ok s \<longleftrightarrow> 0 < CPU_CycleMax s \<and> CPU_CycleMax s \<le> 2 ^ 21 \<and> 0 \<le> PIC_TickIndexND s \<and> PIC_TickIndexND s \<le> 2 * CPU_CycleMax s"

lemma tick_queue [simp]:
  "PIC_TickIndex (s\<lparr>queue := q\<rparr>) = PIC_TickIndex s" "PIC_MakeCycles a (s\<lparr>queue := q\<rparr>) = PIC_MakeCycles a s"
  by (simp_all add: PIC_TickIndex_def PIC_TickIndexND_def PIC_MakeCycles_def)

lemma dbl_between_int:
  assumes "of_int a \<le> x" and "x \<le> of_int b" and "\<bar>a\<bar> \<le> 2 ^ 53" and "\<bar>b\<bar> \<le> 2 ^ 53"
  shows "of_int a \<le> dbl x" "dbl x \<le> of_int b"
  using dbl_ge_fixed [OF assms(1) dbl_of_int [OF assms(3)]] dbl_le_fixed [OF assms(2) dbl_of_int [OF assms(4)]] by simp_all

lemma tick_bounds:
  assumes "timing_ok s"
  shows "\<exists>t. PIC_TickIndex s = Some t \<and> 0 \<le> t \<and> t \<le> 2"
proof -
  have m: "0 < (of_int (CPU_CycleMax s) :: rat)" using assms by (simp add: timing_ok_def)
  have "of_int (PIC_TickIndexND s) \<le> (of_int (2 * CPU_CycleMax s) :: rat)" using assms by (simp only: timing_ok_def of_int_le_iff)
  then have q: "of_int 0 \<le> (of_int (PIC_TickIndexND s) / of_int (CPU_CycleMax s) :: rat)"
    "of_int (PIC_TickIndexND s) / of_int (CPU_CycleMax s) \<le> (of_int 2 :: rat)"
    using m assms by (auto simp: timing_ok_def divide_le_eq)
  from dbl_between_int [OF q] show ?thesis using m by (simp add: PIC_TickIndex_def)
qed

lemma to_int32_defined: "- (2 ^ 31) \<le> x \<Longrightarrow> x \<le> 2 ^ 31 - 1 \<Longrightarrow> to_int32 x = Some (truncate_dbl x)"
  by (simp add: to_int32_def)

lemma make_cycles_defined:
  assumes "timing_ok s" and "PIC_TickIndex s = Some tick" and "\<bar>x\<bar> \<le> 1000"
  shows "\<exists>c. PIC_MakeCycles (dbl (x - tick)) s = Some c"
proof -
  have t: "0 \<le> tick" "tick \<le> 2" using tick_bounds [OF assms(1)] assms(2) by auto
  define d where "d = dbl (x - tick)"
  have d: "- 1002 \<le> d" "d \<le> 1002"
    using dbl_between_int [of "- 1002" "x - tick" 1002] t assms(3) by (auto simp: d_def abs_le_iff)
  define m where "m = (of_int (CPU_CycleMax s) :: rat)"
  have "of_int (CPU_CycleMax s) \<le> (of_int (2 ^ 21) :: rat)" using assms(1) by (simp only: timing_ok_def of_int_le_iff)
  then have m: "0 < m" "m \<le> 2097152" using assms(1) by (simp_all add: timing_ok_def m_def)
  have "\<bar>m * d\<bar> \<le> 2097152 * 1002" unfolding abs_mult using m d by (intro mult_mono) auto
  then have "of_int (- 2101346304) \<le> m * d" "m * d \<le> of_int 2101346304" by (auto simp: abs_le_iff)
  from dbl_between_int [OF this] show ?thesis
    by (simp add: PIC_MakeCycles_def to_int32_def d_def [symmetric] m_def [symmetric])
qed

section \<open>Scheduling\<close>

definition base_index :: "('h, 't, 'm) events \<Rightarrow> rat option" where
  "base_index s = (if InEventService s then Some (srv_lag s) else PIC_TickIndex s)"

text \<open>What scheduling keeps of the state outside the queue: cycles only move between the counters.\<close>

definition clock_frame :: "('h, 't, 'm) events \<Rightarrow> ('h, 't, 'm) events \<Rightarrow> bool" where
  "clock_frame s t \<longleftrightarrow> CPU_CycleMax t = CPU_CycleMax s \<and> InEventService t = InEventService s \<and> srv_lag t = srv_lag s \<and>
     CPU_Cycles (pic t) + CPU_CycleLeft (pic t) = CPU_Cycles (pic s) + CPU_CycleLeft (pic s) \<and>
     (CPU_Cycles (pic s) = 0 \<longrightarrow> CPU_Cycles (pic t) = 0)"

lemma clock_frame_refl [simp]: "clock_frame s s"
  by (simp add: clock_frame_def)

lemma clock_frame_trans: "clock_frame s t \<Longrightarrow> clock_frame t u \<Longrightarrow> clock_frame s u"
  by (simp add: clock_frame_def)

lemma stop_cycles_simps [simp]:
  "queue (stop_cycles s) = queue s" "InEventService (stop_cycles s) = InEventService s"
  "PIC_TickIndexND (stop_cycles s) = PIC_TickIndexND s" "CPU_CycleMax (stop_cycles s) = CPU_CycleMax s"
  "clock_frame s (stop_cycles s)" "CPU_Cycles (pic (stop_cycles s)) = 0"
  "CPU_CycleLeft (pic (stop_cycles s)) = CPU_CycleLeft (pic s) + CPU_Cycles (pic s)"
  by (simp_all add: stop_cycles_def clock_frame_def PIC_TickIndexND_def)

text \<open>Scheduling is the insertion of the queue followed by the cycle bookkeeping.\<close>

lemma AddEvent_eq:
  assumes "free_entry (queue s) \<noteq> None"
  shows "PIC_AddEvent h delay v s = do {
     b \<leftarrow> base_index s;
     q \<leftarrow> put_event (dbl (delay + b)) (h, ucast v) (queue s);
     tick \<leftarrow> PIC_TickIndex s;
     first \<leftarrow> next_entry q;
     c \<leftarrow> PIC_MakeCycles (dbl (event_index (entries q first) - tick)) s;
     Some (if c < CPU_Cycles (pic s) then stop_cycles (s\<lparr>queue := q\<rparr>) else s\<lparr>queue := q\<rparr>)}"
  using assms by (auto simp: PIC_AddEvent_def AddEntry_def put_event_def base_index_def Let_def cong: Option.bind_cong split: option.split)

lemma stored_free: "stored busy q xs n \<Longrightarrow> free_entry q = None \<longleftrightarrow> n = 0"
  by (auto simp: stored_def queue_rep_def)

lemma stored_first:
  assumes "stored busy q (x # xs) n"
  shows "\<exists>f. next_entry q = Some f \<and> ev_data (entries q f) = x"
  using stored_head(1,2) [OF assms] by (cases "next_entry q") auto

lemma AddEvent_returns_iff:
  assumes st: "stored busy (queue s) xs (Suc n)" and b: "base_index s = Some b" and ev_def: "ev = (dbl (delay + b), h, ucast v)"
  shows "\<exists>q. stored busy q (insert_event ev xs) n \<and>
    PIC_AddEvent h delay v s = do {
      tick \<leftarrow> PIC_TickIndex s;
      c \<leftarrow> PIC_MakeCycles (dbl (fst (hd (insert_event ev xs)) - tick)) s;
      Some (if c < CPU_Cycles (pic s) then stop_cycles (s\<lparr>queue := q\<rparr>) else s\<lparr>queue := q\<rparr>)}"
proof -
  have fr: "free_entry (queue s) \<noteq> None" using stored_free [OF st] by simp
  obtain q where q: "put_event (dbl (delay + b)) (h, ucast v) (queue s) = Some q" "stored busy q (insert_event ev xs) n"
    using evq.put_inserts [OF st, of "dbl (delay + b)" "(h, ucast v)"] by (auto simp: ev_def)
  obtain y ys where ins: "insert_event ev xs = y # ys" by (cases "insert_event ev xs") (auto simp: insert_event_def)
  obtain f where f: "next_entry q = Some f" "ev_data (entries q f) = y" using stored_first q(2) ins by metis
  then have "event_index (entries q f) = fst (hd (insert_event ev xs))" using ins by (metis fst_ev_data list.sel(1))
  then show ?thesis using q f(1) b by (intro exI [of _ q]) (simp add: AddEvent_eq [OF fr])
qed

lemma AddEvent_stored:
  assumes "PIC_AddEvent h delay v s = Some t" and st: "stored busy (queue s) xs n"
  shows "clock_frame s t \<and> (n = 0 \<and> t = s \<or> (\<exists>m b. n = Suc m \<and> base_index s = Some b \<and>
    stored busy (queue t) (insert_event (dbl (delay + b), h, ucast v) xs) m))"
proof (cases n)
  case 0
  then show ?thesis using assms stored_free [OF st] by (simp add: PIC_AddEvent_def)
next
  case (Suc m)
  then have "free_entry (queue s) \<noteq> None" using stored_free [OF st] by simp
  then obtain b where b: "base_index s = Some b" using assms(1) by (auto simp: AddEvent_eq bind_eq_Some_conv)
  have "clock_frame s (s\<lparr>queue := q\<rparr>)" "clock_frame s (stop_cycles (s\<lparr>queue := q\<rparr>))" for q
    by (simp_all add: clock_frame_def stop_cycles_def)
  note frames = this
  obtain q where q: "stored busy q (insert_event (dbl (delay + b), h, ucast v) xs) m" "PIC_AddEvent h delay v s = do {
      tick \<leftarrow> PIC_TickIndex s;
      c \<leftarrow> PIC_MakeCycles (dbl (fst (hd (insert_event (dbl (delay + b), h, ucast v :: u64) xs)) - tick)) s;
      Some (if c < CPU_Cycles (pic s) then stop_cycles (s\<lparr>queue := q\<rparr>) else s\<lparr>queue := q\<rparr>)}"
    using AddEvent_returns_iff [OF st [unfolded Suc] b refl, of delay h v] by blast
  with assms(1) have "t = stop_cycles (s\<lparr>queue := q\<rparr>) \<or> t = s\<lparr>queue := q\<rparr>"
    by (auto simp: bind_eq_Some_conv split: if_splits)
  with frames q(1) Suc b show ?thesis by auto
qed

text \<open>Pending events within a second of the start of the millisecond.\<close>

definition near :: "(rat \<times> 'e) list \<Rightarrow> bool" where
  "near xs \<longleftrightarrow> (\<forall>x\<in>set xs. \<bar>fst x\<bar> \<le> 1000)"

lemma AddEvent_near:
  assumes "stored busy (queue s) xs (Suc m)" and "timing_ok s" and "base_index s = Some b" and "near xs" and "\<bar>dbl (delay + b)\<bar> \<le> 1000"
    and ys: "ys = insert_event (dbl (delay + b), h, ucast v) xs"
  shows "\<exists>q tick c. stored busy q ys m \<and> PIC_TickIndex s = Some tick \<and> PIC_MakeCycles (dbl (fst (hd ys) - tick)) s = Some c \<and>
    PIC_AddEvent h delay v s = Some (if c < CPU_Cycles (pic s) then stop_cycles (s\<lparr>queue := q\<rparr>) else s\<lparr>queue := q\<rparr>)"
proof -
  obtain q where q: "stored busy q ys m" "PIC_AddEvent h delay v s = do {
      tick \<leftarrow> PIC_TickIndex s; c \<leftarrow> PIC_MakeCycles (dbl (fst (hd ys) - tick)) s;
      Some (if c < CPU_Cycles (pic s) then stop_cycles (s\<lparr>queue := q\<rparr>) else s\<lparr>queue := q\<rparr>)}"
    using AddEvent_returns_iff [OF assms(1,3) refl, of delay h v] unfolding ys by blast
  obtain tick where tick: "PIC_TickIndex s = Some tick" using tick_bounds [OF assms(2)] by blast
  have "hd ys \<in> set ys" using hd_in_set [of ys] by (auto simp: ys insert_event_def)
  then have "\<bar>fst (hd ys)\<bar> \<le> 1000" using assms(4,5) by (auto simp: ys near_def)
  then obtain c where c: "PIC_MakeCycles (dbl (fst (hd ys) - tick)) s = Some c"
    using make_cycles_defined [OF assms(2) tick] by blast
  show ?thesis using q tick c by auto
qed

text \<open>
  Property C15. Scheduling an event refines stable insertion into the list of pending events, sorted
  by time: when no slot is free nothing happens; otherwise, for events within a second of the
  present, the operation returns, the new event is put behind every pending event that is not
  later, one slot less is free, and only the queue and the two cycle counters change. The counters
  keep their sum, and when the running slice of cycles reaches beyond the first pending event the
  slice is ended.
\<close>

theorem event_add_refines:
  assumes "stored busy (queue s) xs n" and "timing_ok s" and "base_index s = Some b"
    and "\<forall>x\<in>set xs. \<bar>fst x\<bar> \<le> 1000" and "\<bar>dbl (delay + b)\<bar> \<le> 1000"
  shows "\<exists>t. PIC_AddEvent h delay v s = Some t \<and>
    (if n = 0 then t = s
     else let ys = insert_event (dbl (delay + b), h, ucast v) xs; p = pic s in
       stored busy (queue t) ys (n - 1) \<and> sorted (map fst ys) \<and>
       (\<exists>tick c. PIC_TickIndex s = Some tick \<and> PIC_MakeCycles (dbl (fst (hd ys) - tick)) s = Some c \<and>
          t = s\<lparr>queue := queue t, pic := (if c < CPU_Cycles p
            then p\<lparr>CPU_Cycles := 0, CPU_CycleLeft := CPU_CycleLeft p + CPU_Cycles p\<rparr> else p)\<rparr>))"
proof (cases n)
  case 0
  then show ?thesis using stored_free [OF assms(1)] by (simp add: PIC_AddEvent_def)
next
  case (Suc m)
  define ys where "ys = insert_event (dbl (delay + b), h, ucast v) xs"
  have "near xs" using assms(4) by (simp add: near_def)
  from AddEvent_near [OF assms(1) [unfolded Suc] assms(2,3) this assms(5) ys_def] obtain q tick c where
    q: "stored busy q ys m" "PIC_TickIndex s = Some tick" "PIC_MakeCycles (dbl (fst (hd ys) - tick)) s = Some c"
      "PIC_AddEvent h delay v s = Some (if c < CPU_Cycles (pic s) then stop_cycles (s\<lparr>queue := q\<rparr>) else s\<lparr>queue := q\<rparr>)" by blast
  show ?thesis
    using q Suc evq.stored_sorted [OF q(1)] unfolding ys_def [symmetric] by (auto simp: Let_def stop_cycles_def)
qed

section \<open>Removal\<close>

text \<open>
  Property C26. Removing the events of a handler, or those of a handler with one value, refines
  filtering of the pending list: the loops end, exactly the matching events are gone and the order
  of the others is kept, every slot of a removed event is free again, and nothing else changes.
\<close>

theorem event_remove_refines:
  assumes "stored busy (queue s) xs n"
  shows "(\<exists>t. PIC_RemoveEvents h s = Some t \<and> t = s\<lparr>queue := queue t\<rparr> \<and>
      stored busy (queue t) (filter (\<lambda>(i, g, w). g \<noteq> h) xs) (n + length (filter (\<lambda>(i, g, w). g = h) xs))) \<and>
    (\<exists>t. PIC_RemoveSpecificEvents h v s = Some t \<and> t = s\<lparr>queue := queue t\<rparr> \<and>
      stored busy (queue t) (filter (\<lambda>(i, g, w). \<not> (g = h \<and> w = ucast v)) xs)
        (n + length (filter (\<lambda>(i, g, w). g = h \<and> w = ucast v) xs)))"
  using evq.del_filters [OF assms, of "\<lambda>(g, w). g = h"] evq.del_filters [OF assms, of "\<lambda>(g, w). g = h \<and> w = ucast v"]
  by (auto simp: PIC_RemoveEvents_def PIC_RemoveSpecificEvents_def del_events_def case_prod_unfold)

section \<open>Ticks\<close>

fun ticker_chain :: "(nat \<Rightarrow> 't TickerBlock option) \<Rightarrow> nat option \<Rightarrow> (nat \<times> 't) list \<Rightarrow> bool" where
  "ticker_chain hp p [] \<longleftrightarrow> p = None"
| "ticker_chain hp p ((b, h) # bs) \<longleftrightarrow> p = Some b \<and>
     (case hp b of None \<Rightarrow> False | Some t \<Rightarrow> ticker_handler t = h \<and> ticker_chain hp (next_ticker t) bs)"

text \<open>The allocated blocks are exactly those of the list.\<close>

definition ticker_rep :: "('h, 't, 'm) events \<Rightarrow> (nat \<times> 't) list \<Rightarrow> bool" where
  "ticker_rep s bs \<longleftrightarrow> ticker_chain (tickers s) (firstticker s) bs \<and> distinct (map fst bs) \<and>
     (\<forall>b. tickers s b \<noteq> None \<longleftrightarrow> b \<in> fst ` set bs) \<and> (\<forall>b\<in>fst ` set bs. b < heap_top s)"

lemma ticker_chain_upd [simp]: "b \<notin> fst ` set bs \<Longrightarrow> ticker_chain (hp(b := x)) p bs \<longleftrightarrow> ticker_chain hp p bs"
proof (induction bs arbitrary: p)
  case (Cons y bs)
  then show ?case by (cases y) (auto split: option.split)
qed simp

lemma add_ticker_rep: "ticker_rep s bs \<Longrightarrow> ticker_rep (TIMER_AddTickHandler h s) ((heap_top s, h) # bs)"
proof -
  assume rep: "ticker_rep s bs"
  then have "heap_top s \<notin> fst ` set bs" by (auto simp: ticker_rep_def)
  with rep show ?thesis by (auto simp: ticker_rep_def TIMER_AddTickHandler_def)
qed

lemma ticker_chain_snoc:
  "ticker_chain hp p (us @ [(u, h)] @ bs) \<Longrightarrow> distinct (map fst (us @ [(u, h)] @ bs)) \<Longrightarrow> ticker_chain hp n bs' \<Longrightarrow> u \<notin> fst ` set bs' \<Longrightarrow> fst ` set us \<inter> fst ` set bs' = {} \<Longrightarrow>
    ticker_chain (hp(u := map_option (\<lambda>t. t\<lparr>next_ticker := n\<rparr>) (hp u))) p (us @ [(u, h)] @ bs')"
proof (induction us arbitrary: p)
  case Nil
  then obtain t where "p = Some u" "hp u = Some t" "ticker_handler t = h" by (auto split: option.splits)
  then show ?case using ticker_chain_upd [OF Nil.prems(4), of hp _ n] Nil.prems(3)
    by (simp only: append.simps ticker_chain.simps fun_upd_same option.map option.case) simp
next
  case (Cons y us)
  then show ?case by (cases y) (auto split: option.splits)
qed

lemma del_ticker_loop_rep:
  assumes "ticker_rep s (us @ bs)" and "\<forall>u\<in>set us. snd u \<noteq> h"
    and "where = (if us = [] then None else Some (fst (last us)))" and "p = (case bs of [] \<Rightarrow> None | b # _ \<Rightarrow> Some (fst b))"
  shows "\<exists>t bs'. del_ticker_loop h where p s = Some t \<and> ticker_rep t bs' \<and> map snd bs' = remove1 h (map snd (us @ bs)) \<and>
    t = s\<lparr>firstticker := firstticker t, tickers := tickers t\<rparr>"
  using assms
proof (induction bs arbitrary: us "where" p)
  case Nil
  then have "remove1 h (map snd us) = map snd us" by (intro remove1_idem) auto
  with Nil show ?case by (subst del_ticker_loop.simps) auto
next
  case (Cons y bs)
  obtain b g where y: "y = (b, g)" by (cases y)
  have pb: "p = Some b" using Cons.prems(4) y by simp
  have rep: "ticker_rep s (us @ (b, g) # bs)" using Cons.prems(1) y by simp
  have ex: "\<exists>t. tickers s b = Some t \<and> ticker_handler t = g \<and> ticker_chain (tickers s) (next_ticker t) bs"
  proof -
    have "ticker_chain hp q (vs @ (b, g) # bs) \<Longrightarrow> \<exists>t. hp b = Some t \<and> ticker_handler t = g \<and> ticker_chain hp (next_ticker t) bs" for hp q and vs :: "(nat \<times> 'b) list"
    proof (induction vs arbitrary: q)
      case (Cons v vs)
      then show ?case by (cases v) (auto split: option.splits)
    qed (auto split: option.splits)
    then show ?thesis using rep unfolding ticker_rep_def by blast
  qed
  then obtain t where t: "tickers s b = Some t" "ticker_handler t = g" "ticker_chain (tickers s) (next_ticker t) bs" by blast
  show ?case
  proof (cases "g = h")
    case False
    have n: "next_ticker t = (case bs of [] \<Rightarrow> None | b # _ \<Rightarrow> Some (fst b))" using t(3) by (cases bs) auto
    have "del_ticker_loop h where p s = del_ticker_loop h (Some b) (next_ticker t) s"
      using False t pb by (subst del_ticker_loop.simps) simp
    with Cons.IH [of "us @ [(b, g)]" "Some b" "next_ticker t"] rep Cons.prems(2) False n y show ?thesis by simp
  next
    case True
    define s1 where "s1 = store_ticker_link where (next_ticker t) s"
    define s2 where "s2 = s1\<lparr>tickers := (tickers s1)(b := None)\<rparr>"
    have r: "del_ticker_loop h where p s = Some s2"
      using True t pb by (subst del_ticker_loop.simps) (simp add: s2_def s1_def Let_def)
    have dis: "distinct (map fst (us @ (b, g) # bs))" using rep unfolding ticker_rep_def by blast
    have "ticker_rep s2 (us @ bs)"
    proof (cases us rule: rev_cases)
      case Nil
      then show ?thesis using rep t Cons.prems(3) by (auto simp: ticker_rep_def s2_def s1_def store_ticker_link_def)
    next
      case (snoc vs v)
      obtain u k where v: "v = (u, k)" by (cases v)
      have w: "where = Some u" using Cons.prems(3) snoc v by simp
      have c: "ticker_chain ((tickers s)(u := map_option (\<lambda>x. x\<lparr>next_ticker := next_ticker t\<rparr>) (tickers s u))) (firstticker s) (vs @ [(u, k)] @ bs)"
        by (rule ticker_chain_snoc [of _ _ _ _ _ "(b, g) # bs"]) (use rep dis t(3) snoc v in \<open>auto simp: ticker_rep_def\<close>)
      have "u \<noteq> b" using dis snoc v by auto
      moreover have "tickers s u \<noteq> None" using rep snoc v by (simp add: ticker_rep_def)
      moreover have "b \<notin> fst ` set (vs @ [(u, k)] @ bs)" using dis snoc v by auto
      note ticker_chain_upd [OF this]
      moreover have "tickers s2 = (tickers s)(u := map_option (\<lambda>x. x\<lparr>next_ticker := next_ticker t\<rparr>) (tickers s u), b := None)"
        "firstticker s2 = firstticker s" "heap_top s2 = heap_top s"
        by (simp_all add: s2_def s1_def store_ticker_link_def w)
      moreover have "distinct (map fst (us @ bs))" "\<forall>x. tickers s x \<noteq> None \<longleftrightarrow> x = b \<or> x \<in> fst ` set (us @ bs)" "b \<notin> fst ` set (us @ bs)"
        "\<forall>x\<in>fst ` set (us @ bs). x < heap_top s" using rep by (auto simp: ticker_rep_def)
      ultimately show ?thesis using c snoc v unfolding ticker_rep_def by (simp del: ticker_chain.simps)
    qed
    moreover have "map snd (us @ bs) = remove1 h (map snd (us @ y # bs))"
      using Cons.prems(2) True y by (auto simp: remove1_append)
    moreover have "s2 = s\<lparr>firstticker := firstticker s2, tickers := tickers s2\<rparr>"
      by (simp add: s2_def s1_def store_ticker_link_def split: option.split)
    ultimately show ?thesis using r by metis
  qed
qed

definition run_all :: "('t \<Rightarrow> 's \<Rightarrow> 's option) \<Rightarrow> 't list \<Rightarrow> 's \<Rightarrow> 's option" where
  "run_all run hs s = foldl (\<lambda>r h. Option.bind r (run h)) (Some s) hs"

lemma run_all_simps [simp]: "run_all run [] s = Some s" "run_all run (h # hs) s = Option.bind (run h s) (run_all run hs)"
proof -
  have "foldl (\<lambda>r h. Option.bind r (run h)) None hs = None" for hs by (induction hs) simp_all
  then show "run_all run (h # hs) s = Option.bind (run h s) (run_all run hs)"
    by (cases "run h s") (simp_all add: run_all_def [abs_def])
qed (simp add: run_all_def)

definition keeps_tickers :: "('t \<Rightarrow> ('h, 't, 'm) events \<Rightarrow> ('h, 't, 'm) events option) \<Rightarrow> bool" where
  "keeps_tickers run_ticker \<longleftrightarrow> (\<forall>h s t. run_ticker h s = Some t \<longrightarrow> tickers t = tickers s)"

lemma ticker_loop_runs:
  assumes "ticker_chain (tickers s) p bs" and keep: "keeps_tickers run_ticker"
  shows "ticker_loop run_ticker p s = run_all run_ticker (map snd bs) s"
  using assms(1)
proof (induction bs arbitrary: p s)
  case Nil
  then show ?case by (subst ticker_loop.simps) simp
next
  case (Cons y bs)
  obtain b h where y: "y = (b, h)" by (cases y)
  with Cons.prems obtain t where t: "p = Some b" "tickers s b = Some t" "ticker_handler t = h" "ticker_chain (tickers s) (next_ticker t) bs"
    by (auto split: option.splits)
  have "ticker_loop run_ticker (next_ticker t) u = run_all run_ticker (map snd bs) u" if "run_ticker h s = Some u" for u
    using Cons.IH t(4) keep that unfolding keeps_tickers_def by metis
  then show ?case using t y by (subst ticker_loop.simps) (cases "run_ticker h s"; simp)
qed

text \<open>
  Property C36. A new millisecond. The tick counter advances (modulo \<open>2^32\<close>), all cycles of the
  millisecond are available, every pending event moves one millisecond closer with the order of the
  queue kept, whatever the rounding, and every registered tick handler is called exactly once, the
  last registered first, provided tick handlers do not change the registrations. Registering puts a
  handler in front; unregistering removes its latest registration and frees exactly that block.
\<close>

theorem timer_tick:
  assumes "stored busy (queue s) xs n" and "ticker_rep s bs"
    and keep: "keeps_tickers run_ticker"
  shows "(\<exists>q. stored busy q (map (\<lambda>(i, e). (dbl (i - 1), e)) xs) n \<and>
      TIMER_AddTick run_ticker s = run_all run_ticker (map snd bs)
        (s\<lparr>pic := (pic s)\<lparr>CPU_CycleLeft := CPU_CycleMax s, CPU_Cycles := 0, PIC_Ticks := PIC_Ticks (pic s) + 1\<rparr>, queue := q\<rparr>)) \<and>
    (\<exists>cs. ticker_rep (TIMER_AddTickHandler h s) cs \<and> map snd cs = h # map snd bs) \<and>
    (\<exists>t cs. TIMER_DelTickHandler h s = Some t \<and> ticker_rep t cs \<and> map snd cs = remove1 h (map snd bs) \<and>
      t = s\<lparr>firstticker := firstticker t, tickers := tickers t\<rparr>)"
proof (intro conjI)
  obtain q where q: "lower_loop (next_entry (queue s)) (queue s) = Some q" "stored busy q (map (\<lambda>x. (dbl (fst x - 1), snd x)) xs) n"
    using stored_lower [OF assms(1)] by blast
  let ?s = "s\<lparr>pic := (pic s)\<lparr>CPU_CycleLeft := CPU_CycleMax s, CPU_Cycles := 0, PIC_Ticks := PIC_Ticks (pic s) + 1\<rparr>, queue := q\<rparr>"
  have "ticker_loop run_ticker (firstticker s) ?s = run_all run_ticker (map snd bs) ?s"
    using assms(2) by (intro ticker_loop_runs keep) (simp_all add: ticker_rep_def)
  then show "\<exists>q. stored busy q (map (\<lambda>(i, e). (dbl (i - 1), e)) xs) n \<and>
      TIMER_AddTick run_ticker s = run_all run_ticker (map snd bs)
        (s\<lparr>pic := (pic s)\<lparr>CPU_CycleLeft := CPU_CycleMax s, CPU_Cycles := 0, PIC_Ticks := PIC_Ticks (pic s) + 1\<rparr>, queue := q\<rparr>)"
    using q by (intro exI [of _ q]) (simp add: TIMER_AddTick_def Let_def case_prod_unfold)
  show "\<exists>cs. ticker_rep (TIMER_AddTickHandler h s) cs \<and> map snd cs = h # map snd bs"
    using add_ticker_rep [OF assms(2)] by (metis list.simps(9) snd_conv)
  have "firstticker s = (case bs of [] \<Rightarrow> None | b # _ \<Rightarrow> Some (fst b))"
    using assms(2) by (cases bs) (auto simp: ticker_rep_def split: option.splits)
  then show "\<exists>t cs. TIMER_DelTickHandler h s = Some t \<and> ticker_rep t cs \<and> map snd cs = remove1 h (map snd bs) \<and>
      t = s\<lparr>firstticker := firstticker t, tickers := tickers t\<rparr>"
    using del_ticker_loop_rep [of s "[]" bs h] assms(2) by (simp add: TIMER_DelTickHandler_def)
qed

section \<open>Witnesses\<close>

definition boot_events :: "(nat, nat, nat) events" where
  "boot_events = \<lparr>queue = init_queue \<lparr>entries = (\<lambda>_. \<lparr>event_index = 0, event_value = 0, pic_event = 0, next_event = None\<rparr>),
       free_entry = None, next_entry = None\<rparr>,
     pic = zero_pic, CPU_CycleMax = 3200, atomic_pic_index = 0, InEventService = False, srv_lag = 0,
     firstticker = None, tickers = (\<lambda>_. None), heap_top = 0, machine = 0\<rparr>"

lemma boot_stored: "stored [] (queue boot_events) [] 512"
  using init_stored by (simp add: boot_events_def PIC_QUEUESIZE_def)

lemma boot_tick: "PIC_TickIndex boot_events = Some (1 / 32)"
proof -
  have "dbl (of_int 100 / of_int 3200) = 1 / 32" by code_simp
  then show ?thesis by (simp add: PIC_TickIndex_def PIC_TickIndexND_def boot_events_def zero_pic_def)
qed

lemma boot_ready: "timing_ok boot_events" "base_index boot_events = Some (1 / 32)"
  using boot_tick by (simp_all add: timing_ok_def base_index_def PIC_TickIndexND_def boot_events_def zero_pic_def)

theorem event_add_refines_witness:
  "\<exists>t. PIC_AddEvent 7 (1 / 2) 1 boot_events = Some t \<and> stored [] (queue t) [(17 / 32, 7, 1)] 511"
proof -
  have d: "dbl (1 / 2 + 1 / 32) = 17 / 32" by code_simp
  show ?thesis
    using event_add_refines [OF boot_stored boot_ready, of "1 / 2" 7 1] unfolding d by (auto simp: Let_def)
qed

text \<open>A queue with one pending event, due at the start of the millisecond.\<close>

definition one_event :: "nat pic_queue" where
  "one_event = (set_next 0 None (claim_entry 0 0 7 1 (queue boot_events)))\<lparr>next_entry := Some 0\<rparr>"

lemma one_event_stored: "stored [] one_event [(0, 7, 1)] 511"
proof -
  have "stored [] (queue boot_events) [] (Suc 511)" using boot_stored by simp
  from evq.put_inserts [OF this, of 0 "(7, 1)"] obtain q where
    q: "put_event 0 (7, 1) (queue boot_events) = Some q" "stored [] q [(0, 7, 1)] 511" by auto
  have "put_event 0 (7, 1) (queue boot_events) = Some one_event"
    by (simp add: put_event_def link_entry_def one_event_def boot_events_def init_queue_def claim_entry_def Let_def)
  with q show ?thesis by simp
qed

definition due_events :: "(nat, nat, nat) events" where
  "due_events = boot_events\<lparr>queue := one_event\<rparr>"

lemma due_stored: "stored [] (queue due_events) [(0, 7, 1)] 511"
  using one_event_stored by (simp add: due_events_def)

theorem event_remove_refines_witness:
  "\<exists>t. PIC_RemoveSpecificEvents 7 1 due_events = Some t \<and> stored [] (queue t) [] 512"
  using event_remove_refines [OF due_stored, of 7 1] by auto

definition ticking :: "(nat, nat, nat) events" where
  "ticking = TIMER_AddTickHandler 4 (TIMER_AddTickHandler 3 due_events)"

lemma ticking_rep: "\<exists>bs. ticker_rep ticking bs \<and> map snd bs = [4, 3]"
proof -
  have "ticker_rep due_events []" by (simp add: ticker_rep_def due_events_def boot_events_def)
  from add_ticker_rep [OF add_ticker_rep [OF this, of 3], of 4] show ?thesis unfolding ticking_def by force
qed

theorem timer_tick_witness:
  "\<exists>t. TIMER_AddTick (\<lambda>h s. Some (s\<lparr>machine := 10 * machine s + h\<rparr>)) ticking = Some t \<and> machine t = 43 \<and> stored [] (queue t) [(- 1, 7, 1)] 511"
proof -
  obtain bs where bs: "ticker_rep ticking bs" "map snd bs = [4, 3]" using ticking_rep by (elim exE conjE) (rule that)
  have st: "stored [] (queue ticking) [(0, 7, 1)] 511" using due_stored by (simp add: ticking_def TIMER_AddTickHandler_def)
  have d: "dbl (0 - 1) = - 1" using dbl_of_int [of "- 1"] by simp
  have m: "machine ticking = 0" by (simp add: ticking_def TIMER_AddTickHandler_def due_events_def boot_events_def)
  let ?run = "\<lambda>h s. Some (s\<lparr>machine := 10 * machine s + h\<rparr>) :: (nat, nat, nat) events option"
  have "keeps_tickers ?run" by (auto simp: keeps_tickers_def)
  from timer_tick [OF st bs(1) this, THEN conjunct1] obtain q where q: "stored [] q [(- 1, 7, 1)] 511"
    and t: "TIMER_AddTick ?run ticking = run_all ?run [4, 3] (ticking\<lparr>pic := (pic ticking)\<lparr>CPU_CycleLeft := CPU_CycleMax ticking,
      CPU_Cycles := 0, PIC_Ticks := PIC_Ticks (pic ticking) + 1\<rparr>, queue := q\<rparr>)"
    unfolding bs(2) list.map prod.case d by blast
  show ?thesis unfolding t using q by (simp add: m)
qed

text \<open>
  A tick handler that unregisters the handler after it: the loop has already read the pointer to
  that block and goes on into freed memory.
\<close>

lemma tick_into_freed_block:
  assumes "next_entry (queue s) = None" and "firstticker s = Some 5"
    and "tickers s = [5 \<mapsto> \<lparr>ticker_handler = a, next_ticker = Some 4\<rparr>, 4 \<mapsto> \<lparr>ticker_handler = b, next_ticker = None\<rparr>]" and "a \<noteq> b"
  shows "TIMER_AddTick (\<lambda>h s. if h = a then TIMER_DelTickHandler b s else Some s) s = None"
proof -
  have del: "\<exists>t. TIMER_DelTickHandler b u = Some t \<and> tickers t 4 = None"
    if "tickers u = tickers s" "firstticker u = Some 5" for u :: "('a, 'b, 'c) events"
    unfolding TIMER_DelTickHandler_def using that assms(3,4)
    by (subst del_ticker_loop.simps, simp, subst del_ticker_loop.simps) (simp add: Let_def store_ticker_link_def)
  define u where "u = s\<lparr>pic := (pic s)\<lparr>CPU_CycleLeft := CPU_CycleMax s, CPU_Cycles := 0, PIC_Ticks := PIC_Ticks (pic s) + 1\<rparr>, queue := queue s\<rparr>"
  let ?run = "\<lambda>h s. if h = a then TIMER_DelTickHandler b s else Some s"
  have u: "tickers u = tickers s" "firstticker u = Some 5" using assms(2) by (simp_all add: u_def)
  with del obtain t where t: "TIMER_DelTickHandler b u = Some t" "tickers t 4 = None" by blast
  have "ticker_loop ?run (Some 4) t = None" using t(2) by (subst ticker_loop.simps) simp
  then have "ticker_loop ?run (Some 5) u = None" using u(1) assms(3) t(1) by (subst ticker_loop.simps) simp
  moreover have "lower_loop None (queue s) = Some (queue s)" by (subst lower_loop.simps) simp
  ultimately show ?thesis using assms(1,2) by (simp add: TIMER_AddTick_def Let_def u_def)
qed

end
