(* ===== verification/Event_Run.thy ===== *)
theory Event_Run
  imports Event_Props "HOL-Library.Multiset"
begin

text \<open>
  Running the queue. Handlers are code of other components, so what is asked of them is a contract:
  in the states in which the service loop calls them they return, act on the queue and the
  controllers through the interface only, and schedule events a fixed time later than the one being
  served. Under it the loop ends (the pending events decrease in the multiset order of how often
  that time still fits before the horizon), and a run serves exactly the due events, in order.
\<close>

section \<open>The contract of event handlers\<close>

text \<open>
  Handlers are code of other components. What is asked of them: between call and return they act on
  the queue and the controllers only through the interface (schedule, remove, raise and lower
  requests) and otherwise on the rest of the machine. \<open>ok\<close> bounds the delays they schedule with.
\<close>

inductive api_steps :: "(rat \<Rightarrow> ('h, 't, 'm) events \<Rightarrow> bool) \<Rightarrow> ('h, 't, 'm) events \<Rightarrow> ('h, 't, 'm) events \<Rightarrow> bool"
  for ok s where
  return: "api_steps ok s s"
| add: "api_steps ok s t \<Longrightarrow> ok delay t \<Longrightarrow> PIC_AddEvent h delay v t = Some u \<Longrightarrow> api_steps ok s u"
| remove: "api_steps ok s t \<Longrightarrow> PIC_RemoveEvents h t = Some u \<Longrightarrow> api_steps ok s u"
| remove_specific: "api_steps ok s t \<Longrightarrow> PIC_RemoveSpecificEvents h v t = Some u \<Longrightarrow> api_steps ok s u"
| raise: "api_steps ok s t \<Longrightarrow> api_steps ok s (t\<lparr>pic := PIC_ActivateIRQ irq (pic t)\<rparr>)"
| lower: "api_steps ok s t \<Longrightarrow> api_steps ok s (t\<lparr>pic := PIC_DeActivateIRQ irq (pic t)\<rparr>)"
| other: "api_steps ok s t \<Longrightarrow> api_steps ok s (t\<lparr>machine := m\<rparr>)"

text \<open>The states in which the service loop calls a handler.\<close>

definition in_service :: "('h, 't, 'm) events \<Rightarrow> bool" where
  "in_service s \<longleftrightarrow> InEventService s \<and> timing_ok s \<and> \<bar>srv_lag s\<bar> \<le> 1000 \<and>
     dbl (srv_lag s * of_int (CPU_CycleMax s)) \<le> of_int (PIC_TickIndexND s) \<and>
     (\<exists>e xs n. stored [e] (queue s) xs n \<and> near xs \<and> (\<forall>x\<in>set xs. srv_lag s \<le> fst x))"

text \<open>
  A new event lies at least \<open>\<delta>\<close> after the one being served, and within a second of the start of the
  millisecond.
\<close>

definition later_by :: "rat \<Rightarrow> rat \<Rightarrow> ('h, 't, 'm) events \<Rightarrow> bool" where
  "later_by \<delta> delay u \<longleftrightarrow> srv_lag u + \<delta> \<le> dbl (delay + srv_lag u) \<and> dbl (delay + srv_lag u) \<le> 1000"

text \<open>The contract: in these states every handler returns, and acts through the interface.\<close>

definition punctual :: "rat \<Rightarrow> ('h, 't, 'm) event_code \<Rightarrow> bool" where
  "punctual \<delta> run \<longleftrightarrow> (\<forall>h v s. in_service s \<longrightarrow> (\<exists>t. run h v s = Some t \<and> api_steps (later_by \<delta>) s t))"

text \<open>A stopped slice of cycles stays stopped while requests change.\<close>

lemma stopped_requests:
  assumes "CPU_Cycles s = 0"
  shows "CPU_Cycles (raise_irq p v s) = 0" "CPU_Cycles (check_for_irq p s) = 0" "CPU_Cycles (lower_irq p v s) = 0"
proof -
  have u: "CPU_Cycles (upd_pic q f t) = CPU_Cycles t" for q f t by (cases q) simp_all
  have r1: "CPU_Cycles t = 0 \<Longrightarrow> CPU_Cycles (raise_irq Primary v t) = 0" for v t
    by (simp add: raise_irq.simps Let_def)
  have c1: "CPU_Cycles t = 0 \<Longrightarrow> CPU_Cycles (check_for_irq Primary t) = 0" for t
    by (simp add: check_for_irq.simps Let_def)
  have l1: "CPU_Cycles t = 0 \<Longrightarrow> CPU_Cycles (lower_irq Primary v t) = 0" for v t
    by (simp add: lower_irq.simps Let_def c1 u del: upd_pic.simps)
  have r2: "CPU_Cycles t = 0 \<Longrightarrow> CPU_Cycles (raise_irq Secondary v t) = 0" for v t
    by (simp add: raise_irq.simps [of Secondary] activate.simps Let_def r1 u del: upd_pic.simps)
  have c2: "CPU_Cycles t = 0 \<Longrightarrow> CPU_Cycles (check_for_irq Secondary t) = 0" for t
    by (simp add: check_for_irq.simps [of Secondary] activate.simps deactivate.simps Let_def r1 l1)
  have l2: "CPU_Cycles t = 0 \<Longrightarrow> CPU_Cycles (lower_irq Secondary v t) = 0" for v t
    by (simp add: lower_irq.simps [of Secondary] Let_def c2 u del: upd_pic.simps)
  show "CPU_Cycles (raise_irq p v s) = 0" "CPU_Cycles (check_for_irq p s) = 0" "CPU_Cycles (lower_irq p v s) = 0"
    using assms by (cases p; simp add: r1 r2 c1 c2 l1 l2)+
qed

lemma clock_frame_requests:
  "clock_frame s (s\<lparr>pic := PIC_ActivateIRQ irq (pic s)\<rparr>)" "clock_frame s (s\<lparr>pic := PIC_DeActivateIRQ irq (pic s)\<rparr>)"
proof -
  obtain p k where pt: "irq_pic irq = (p, k)" by fastforce
  show "clock_frame s (s\<lparr>pic := PIC_ActivateIRQ irq (pic s)\<rparr>)"
    using book_ops(1) [of irq "pic s"] stopped_requests(1) [of "pic s" p k]
    by (auto simp: clock_frame_def book_def PIC_ActivateIRQ_def pt Let_def)
  show "clock_frame s (s\<lparr>pic := PIC_DeActivateIRQ irq (pic s)\<rparr>)"
    using book_ops(2) [of irq "pic s"] stopped_requests(3) [of "pic s" p k]
    by (auto simp: clock_frame_def book_def PIC_DeActivateIRQ_def pt)
qed

lemma RemoveEvents_stored:
  assumes "stored busy (queue s) xs n"
  shows "PIC_RemoveEvents h s = Some t \<Longrightarrow> clock_frame s t \<and> (\<exists>P m. stored busy (queue t) (filter P xs) m)"
    "PIC_RemoveSpecificEvents h v s = Some t \<Longrightarrow> clock_frame s t \<and> (\<exists>P m. stored busy (queue t) (filter P xs) m)"
  using evq.del_filters [OF assms, of "\<lambda>(g, w). g = h"] evq.del_filters [OF assms, of "\<lambda>(g, w). g = h \<and> w = ucast v"]
  by (auto simp: PIC_RemoveEvents_def PIC_RemoveSpecificEvents_def del_events_def case_prod_unfold clock_frame_def) blast+

text \<open>
  What a handler can do to the list of pending events: cancel some and schedule allowed ones.
\<close>

lemma mset_insert_event [simp]: "mset (insert_event ev xs) = add_mset ev (mset xs)"
  by (induction xs) (auto simp: insert_event_Cons)

inductive edited :: "(rat \<Rightarrow> bool) \<Rightarrow> (rat \<times> 'e) list \<Rightarrow> (rat \<times> 'e) list \<Rightarrow> bool" for new xs where
  kept: "edited new xs xs"
| scheduled: "edited new xs ys \<Longrightarrow> new (fst ev) \<Longrightarrow> edited new xs (insert_event ev ys)"
| cancelled: "edited new xs ys \<Longrightarrow> edited new xs (filter P ys)"

lemma edited_new: "edited new xs ys \<Longrightarrow> y \<in># mset ys - mset xs \<Longrightarrow> new (fst y)"
proof (induction rule: edited.induct)
  case (scheduled ys ev)
  then show ?case by (cases "y = ev") (auto simp: in_diff_count)
next
  case (cancelled ys P)
  then show ?case by (auto simp: in_diff_count split: if_splits)
qed simp

lemma edited_member: "edited new xs ys \<Longrightarrow> y \<in> set ys \<Longrightarrow> y \<in> set xs \<or> new (fst y)"
  using edited_new [of new xs ys y] count_mset_gt_0 [of y ys] by (cases "y \<in> set xs") (auto simp: in_diff_count simp flip: count_mset_0_iff)

lemma api_steps_edited:
  assumes "api_steps ok s t" and st: "stored busy (queue s) xs n" and ins: "InEventService s"
    and new: "\<And>delay u. ok delay u \<Longrightarrow> clock_frame s u \<Longrightarrow> new (dbl (delay + srv_lag s))"
  shows "clock_frame s t \<and> (\<exists>ys m. stored busy (queue t) ys m \<and> edited new xs ys)"
  using assms(1)
proof (induction rule: api_steps.induct)
  case return
  then show ?case using st edited.kept by auto
next
  case (add t delay h v u)
  then obtain ys m where f: "clock_frame s t" and ys: "stored busy (queue t) ys m" "edited new xs ys" by blast
  have b: "base_index t = Some (srv_lag s)" using f ins by (simp add: base_index_def clock_frame_def)
  have "edited new xs (insert_event (dbl (delay + srv_lag s), h, ucast v) ys)"
    using new [OF add.hyps(2) f] by (intro edited.scheduled [OF ys(2)]) simp
  with AddEvent_stored [OF add.hyps(3) ys(1)] b f ys show ?case using clock_frame_trans by (metis option.sel)
next
  case (remove t h u)
  then show ?case using RemoveEvents_stored(1) clock_frame_trans edited.cancelled by metis
next
  case (remove_specific t h v u)
  then show ?case using RemoveEvents_stored(2) clock_frame_trans edited.cancelled by metis
next
  case (raise t irq)
  then show ?case using clock_frame_trans [OF _ clock_frame_requests(1)] by auto
next
  case (lower t irq)
  then show ?case using clock_frame_trans [OF _ clock_frame_requests(2)] by auto
next
  case (other t m)
  then show ?case by (auto simp: clock_frame_def)
qed

section \<open>The service loop\<close>

text \<open>What serving an event keeps of the state outside the queue.\<close>

definition service_frame :: "('h, 't, 'm) events \<Rightarrow> ('h, 't, 'm) events \<Rightarrow> bool" where
  "service_frame s t \<longleftrightarrow> CPU_CycleMax t = CPU_CycleMax s \<and> InEventService t = InEventService s \<and>
     CPU_Cycles (pic t) + CPU_CycleLeft (pic t) = CPU_Cycles (pic s) + CPU_CycleLeft (pic s) \<and>
     (CPU_Cycles (pic s) = 0 \<longrightarrow> CPU_Cycles (pic t) = 0)"

lemma service_frame_trans: "service_frame s t \<Longrightarrow> service_frame t u \<Longrightarrow> service_frame s u"
  by (simp add: service_frame_def)

lemma service_frame_refl [simp]: "service_frame s s"
  by (simp add: service_frame_def)

lemma due_iff:
  assumes "stored busy (queue s) xs n" and "next_entry (queue s) = Some e"
  shows "due nd s e \<longleftrightarrow> dbl (fst (hd xs) * of_int (CPU_CycleMax s)) \<le> nd" "xs \<noteq> []" "event_index (entries (queue s) e) = fst (hd xs)"
  using stored_head(2) [OF assms] by (cases xs; simp add: due_def ev_data_def; fail)+

lemma take_stored: "stored busy (queue s) xs n \<Longrightarrow> next_entry (queue s) = Some e \<Longrightarrow> stored (e # busy) (queue (take_entry e s)) (tl xs) n"
  using stored_head(3) by (simp add: take_entry_def)

lemma free_slot_stored: "stored (e # busy) (queue s) xs n \<Longrightarrow> stored busy (queue (free_slot e s)) xs (Suc n)"
  using stored_release by (simp add: free_slot_def)

lemma take_entry_fields [simp]:
  "InEventService (take_entry e s) = InEventService s" "srv_lag (take_entry e s) = event_index (entries (queue s) e)"
  "CPU_CycleMax (take_entry e s) = CPU_CycleMax s"
  by (simp_all add: take_entry_def)

text \<open>Nothing is due when the first pending event is not.\<close>

lemma none_due:
  assumes "stored busy (queue s) xs n" and "\<forall>e. next_entry (queue s) = Some e \<longrightarrow> \<not> due nd s e" and "0 < CPU_CycleMax s"
  shows "\<forall>x\<in>set xs. nd < dbl (fst x * of_int (CPU_CycleMax s))"
proof (cases xs)
  case (Cons y ys)
  then obtain e where e: "next_entry (queue s) = Some e" using stored_head(1) [OF assms(1)] by auto
  then have "nd < dbl (fst y * of_int (CPU_CycleMax s))" using assms(2) due_iff(1) [OF assms(1) e, of nd] Cons by auto
  moreover have "dbl (fst y * of_int (CPU_CycleMax s)) \<le> dbl (fst x * of_int (CPU_CycleMax s))" if "x \<in> set xs" for x
    using evq.stored_sorted [OF assms(1)] that Cons assms(3) by (intro dbl_mono mult_right_mono) auto
  ultimately show ?thesis by (meson order_less_le_trans)
qed simp

text \<open>
  What a run is to do, on the list of pending events: while the first one is due it is taken off the
  list, its handler is called with its value and with its time as the lag, and the loop goes on with
  whatever events the handler leaves. The list \<open>es\<close> holds the events served, \<open>ys\<close> those that remain.
\<close>

inductive serves :: "('h, 't, 'm) event_code \<Rightarrow> rat \<Rightarrow> ('h, 't, 'm) events \<Rightarrow> (rat \<times> 'h \<times> u64) list \<Rightarrow>
    (rat \<times> 'h \<times> u64) list \<Rightarrow> (rat \<times> 'h \<times> u64) list \<Rightarrow> ('h, 't, 'm) events \<Rightarrow> bool" for run nd where
  rest: "stored [] (queue s) xs n \<Longrightarrow> \<forall>x\<in>set xs. nd < dbl (fst x * of_int (CPU_CycleMax s)) \<Longrightarrow> serves run nd s xs [] xs s"
| serve: "stored [] (queue s) ((i, h, v) # xs) n \<Longrightarrow> dbl (i * of_int (CPU_CycleMax s)) \<le> nd \<Longrightarrow>
    stored [e] q xs n \<Longrightarrow> run h (ucast v) (s\<lparr>queue := q, srv_lag := i\<rparr>) = Some u \<Longrightarrow>
    stored [e] (queue u) ys m \<Longrightarrow> stored [] r ys (Suc m) \<Longrightarrow> serves run nd (u\<lparr>queue := r\<rparr>) ys es zs t \<Longrightarrow>
    serves run nd s ((i, h, v) # xs) ((i, h, v) # es) zs t"

text \<open>Handlers that neither schedule nor cancel.\<close>

definition quiet :: "('h, 't, 'm) event_code \<Rightarrow> bool" where
  "quiet run \<longleftrightarrow> (\<forall>h v s t. run h v s = Some t \<longrightarrow> queue t = queue s)"

lemma serves_end:
  "serves run nd s xs es ys t \<Longrightarrow> \<exists>n. stored [] (queue t) ys n \<and> (\<forall>x\<in>set ys. nd < dbl (fst x * of_int (CPU_CycleMax t)))"
  by (induction rule: serves.induct) auto

lemma stored_unique: "stored busy q xs n \<Longrightarrow> stored busy q ys m \<Longrightarrow> xs = ys \<and> n = m"
  unfolding stored_def queue_rep_def by (metis threaded_unique)

text \<open>A lap of the service loop, on the list of pending events.\<close>

lemma service_lap:
  assumes "stored [] (queue s) ((i, h, v) # xs) n" and d: "dbl (i * of_int (CPU_CycleMax s)) \<le> nd"
  shows "\<exists>e q. stored [e] q xs n \<and> service_loop run nd s = Option.bind (run h (ucast v) (s\<lparr>queue := q, srv_lag := i\<rparr>))
    (\<lambda>s1. service_loop run nd (free_slot e s1))"
proof -
  obtain e where e: "next_entry (queue s) = Some e" using stored_head(1) [OF assms(1)] by (cases "next_entry (queue s)") auto
  have h: "ev_data (entries (queue s) e) = (i, h, v)" using stored_head(2) [OF assms(1) e] by simp
  have du: "due nd s e" using due_iff(1) [OF assms(1) e] d by simp
  have t: "take_entry e s = s\<lparr>queue := queue (take_entry e s), srv_lag := i\<rparr>" using h by (simp add: take_entry_def ev_data_def)
  have "service_loop run nd s = Option.bind (run h (ucast v) (take_entry e s)) (\<lambda>s1. service_loop run nd (free_slot e s1))"
    using e du h by (subst service_loop.simps) (simp add: ev_data_def)
  with t take_stored [OF assms(1) e] show ?thesis by (metis list.sel(3))
qed

lemma service_stops:
  assumes "stored [] (queue s) xs n" and "\<not> dbl (fst (hd xs) * of_int (CPU_CycleMax s)) \<le> nd \<or> xs = []"
  shows "service_loop run nd s = Some s" "\<forall>e. next_entry (queue s) = Some e \<longrightarrow> \<not> due nd s e"
proof -
  show nd: "\<forall>e. next_entry (queue s) = Some e \<longrightarrow> \<not> due nd s e" using due_iff(1,2) [OF assms(1)] assms(2) by blast
  then show "service_loop run nd s = Some s" by (subst service_loop.simps) (auto split: option.split)
qed

text \<open>How many times \<open>\<delta>\<close> fits before the horizon of one second: new events are on a lower level.\<close>

definition level :: "rat \<Rightarrow> rat \<Rightarrow> nat" where
  "level \<delta> i = nat \<lfloor>(1000 - i) / \<delta>\<rfloor>"

lemma level_less:
  assumes "0 < \<delta>" and "i + \<delta> \<le> j" and "j \<le> 1000"
  shows "level \<delta> j < level \<delta> i"
proof -
  have "1 \<le> (j - i) / \<delta>" using assms(1,2) by (simp add: le_divide_eq)
  then have "(1000 - j) / \<delta> + 1 \<le> (1000 - i) / \<delta>" by (simp add: diff_divide_distrib)
  then have "\<lfloor>(1000 - j) / \<delta>\<rfloor> + 1 \<le> \<lfloor>(1000 - i) / \<delta>\<rfloor>" by (metis floor_mono floor_add_int of_int_1)
  moreover have "0 \<le> \<lfloor>(1000 - j) / \<delta>\<rfloor>" using assms(1,3) by simp
  ultimately show ?thesis unfolding level_def by (simp only: nat_less_eq_zless)
qed

definition progress :: "rat \<Rightarrow> ((rat \<times> 'e) list \<times> (rat \<times> 'e) list) set" where
  "progress \<delta> = inv_image (mult less_than) (\<lambda>xs. image_mset (level \<delta> \<circ> fst) (mset xs))"

lemma wf_progress: "wf (progress \<delta>)"
  by (simp add: progress_def wf_mult)

lemma edited_progress:
  assumes ed: "edited new xs ys" and new: "\<And>j. new j \<Longrightarrow> level \<delta> j < level \<delta> (fst x)"
  shows "(ys, x # xs) \<in> progress \<delta>"
proof -
  let ?l = "image_mset (level \<delta> \<circ> fst)"
  define c where "c = mset ys \<inter># mset xs"
  have ys: "mset ys = c + (mset ys - mset xs)" and xs: "mset (x # xs) = c + add_mset x (mset xs - mset ys)"
    by (auto simp: c_def multiset_eq_iff min_def)
  have "(?l c + ?l (mset ys - mset xs), ?l c + ?l (add_mset x (mset xs - mset ys))) \<in> mult less_than"
  proof (rule one_step_implies_mult)
    show "\<forall>k\<in>set_mset (?l (mset ys - mset xs)). \<exists>j\<in>set_mset (?l (add_mset x (mset xs - mset ys))). (k, j) \<in> less_than"
      using edited_new [OF ed] new by auto
  qed simp
  then show ?thesis unfolding progress_def in_inv_image using ys xs by (metis image_mset_union)
qed


lemma in_service_frame:
  assumes "clock_frame s t"
  shows "PIC_TickIndexND t = PIC_TickIndexND s" "timing_ok s \<Longrightarrow> timing_ok t"
  using assms by (auto simp: clock_frame_def timing_ok_def PIC_TickIndexND_def)

lemma service_frame_timing:
  assumes "service_frame s t"
  shows "PIC_TickIndexND t = PIC_TickIndexND s" "timing_ok s \<Longrightarrow> timing_ok t"
  using assms by (auto simp: service_frame_def timing_ok_def PIC_TickIndexND_def)

lemma handler_lap:
  assumes "punctual \<delta> run" and "0 < \<delta>" and st: "stored [e] q xs n" and "InEventService s" and "timing_ok s" and "near ((i, h, v) # xs)"
    and srt: "\<forall>x\<in>set xs. i \<le> fst x" and d: "dbl (i * of_int (CPU_CycleMax s)) \<le> of_int (PIC_TickIndexND s)"
  shows "\<exists>s1 ys m. run h (ucast v) (s\<lparr>queue := q, srv_lag := i\<rparr>) = Some s1 \<and> stored [e] (queue s1) ys m \<and>
    service_frame s (free_slot e s1) \<and> near ys \<and> (\<forall>y\<in>set ys. i \<le> fst y) \<and> (ys, (i, h, v) # xs) \<in> progress \<delta>"
proof -
  define s0 where "s0 = s\<lparr>queue := q, srv_lag := i\<rparr>"
  define new where "new = (\<lambda>j. i + \<delta> \<le> j \<and> j \<le> 1000)"
  have "in_service s0" unfolding in_service_def s0_def using assms by (auto simp: near_def timing_ok_def PIC_TickIndexND_def)
  then obtain s1 where s1: "run h (ucast v) s0 = Some s1" "api_steps (later_by \<delta>) s0 s1" using assms(1) unfolding punctual_def by blast
  have "clock_frame s0 s1 \<and> (\<exists>ys m. stored [e] (queue s1) ys m \<and> edited new xs ys)"
    by (rule api_steps_edited [OF s1(2)]) (use assms in \<open>auto simp: s0_def later_by_def clock_frame_def new_def\<close>)
  then obtain ys m where ys: "clock_frame s0 s1" "stored [e] (queue s1) ys m" "edited new xs ys" by blast
  have "\<bar>fst y\<bar> \<le> 1000 \<and> i \<le> fst y" if "y \<in> set ys" for y
    using edited_member [OF ys(3) that] assms(2,6) srt by (auto simp: near_def new_def)
  moreover have "(ys, (i, h, v) # xs) \<in> progress \<delta>"
    by (rule edited_progress [OF ys(3)]) (use level_less [OF assms(2)] in \<open>auto simp: new_def\<close>)
  moreover have "service_frame s (free_slot e s1)" using ys(1) by (simp add: s0_def clock_frame_def service_frame_def free_slot_def)
  ultimately show ?thesis using s1(1) ys(2) by (auto simp: s0_def near_def)
qed

lemma service_loop_serves:
  assumes "punctual \<delta> run" and "0 < \<delta>"
    and "stored [] (queue s) xs n" and "InEventService s" and "timing_ok s" and "near xs" and "nd = of_int (PIC_TickIndexND s)"
  shows "\<exists>es ys u. service_loop run nd s = Some u \<and> serves run nd s xs es ys u \<and> service_frame s u \<and> near ys \<and>
    sorted (map fst es) \<and> (\<forall>x\<in>set es. dbl (fst x * of_int (CPU_CycleMax s)) \<le> nd) \<and>
    (\<forall>k. (\<forall>x\<in>set xs. k \<le> fst x) \<longrightarrow> (\<forall>x\<in>set es. k \<le> fst x)) \<and>
    (quiet run \<longrightarrow> es = takeWhile (\<lambda>x. dbl (fst x * of_int (CPU_CycleMax s)) \<le> nd) xs \<and>
       ys = dropWhile (\<lambda>x. dbl (fst x * of_int (CPU_CycleMax s)) \<le> nd) xs)"
  using wf_progress [of \<delta>] assms(3-7)
proof (induction xs arbitrary: s n rule: wf_induct_rule)
  case (less xs)
  show ?case
  proof (cases "xs = [] \<or> \<not> dbl (fst (hd xs) * of_int (CPU_CycleMax s)) \<le> nd")
    case True
    then have stop: "service_loop run nd s = Some s" "\<forall>e. next_entry (queue s) = Some e \<longrightarrow> \<not> due nd s e"
      using service_stops [OF less.prems(1)] by blast+
    have "0 < CPU_CycleMax s" using less.prems(3) by (simp add: timing_ok_def)
    from serves.rest [OF less.prems(1) none_due [OF less.prems(1) stop(2) this]] stop(1) less.prems(4) True show ?thesis
      by (intro exI [of _ "[]"] exI [of _ xs] exI [of _ s]) (cases xs; simp)
  next
    case False
    then obtain i h v xs' where xs: "xs = (i, h, v) # xs'" and d: "dbl (i * of_int (CPU_CycleMax s)) \<le> nd" by (cases xs) auto
    note st = less.prems(1) [unfolded xs]
    obtain e q where eq: "stored [e] q xs' n" "service_loop run nd s = Option.bind (run h (ucast v) (s\<lparr>queue := q, srv_lag := i\<rparr>))
      (\<lambda>s1. service_loop run nd (free_slot e s1))" using service_lap [OF st d] by blast
    have srt: "\<forall>x\<in>set xs'. i \<le> fst x" using evq.stored_sorted [OF st] by simp
    from handler_lap [OF assms(1,2) eq(1) less.prems(2,3) _ srt] less.prems(4,5) d xs obtain s1 ys m where
      s1: "run h (ucast v) (s\<lparr>queue := q, srv_lag := i\<rparr>) = Some s1" "stored [e] (queue s1) ys m" "service_frame s (free_slot e s1)"
        "near ys" "\<forall>y\<in>set ys. i \<le> fst y" "(ys, xs) \<in> progress \<delta>" by blast
    have fr: "InEventService (free_slot e s1)" "timing_ok (free_slot e s1)" "nd = of_int (PIC_TickIndexND (free_slot e s1))"
      "CPU_CycleMax (free_slot e s1) = CPU_CycleMax s"
      using s1(3) less.prems(2,3,5) service_frame_timing [OF s1(3)] by (simp_all add: service_frame_def)
    from less.IH [OF s1(6) free_slot_stored [OF s1(2)] fr(1,2) s1(4) fr(3)] obtain es zs u where
      ih: "service_loop run nd (free_slot e s1) = Some u" "serves run nd (free_slot e s1) ys es zs u" "service_frame (free_slot e s1) u" "near zs"
        "sorted (map fst es)" "\<forall>x\<in>set es. dbl (fst x * of_int (CPU_CycleMax s)) \<le> nd" "\<forall>k. (\<forall>x\<in>set ys. k \<le> fst x) \<longrightarrow> (\<forall>x\<in>set es. k \<le> fst x)"
        "quiet run \<longrightarrow> es = takeWhile (\<lambda>x. dbl (fst x * of_int (CPU_CycleMax s)) \<le> nd) ys \<and>
          zs = dropWhile (\<lambda>x. dbl (fst x * of_int (CPU_CycleMax s)) \<le> nd) ys"
      unfolding fr(4) by blast
    have "free_slot e s1 = s1\<lparr>queue := queue (free_slot e s1)\<rparr>" by (simp add: free_slot_def)
    then have sv: "serves run nd s xs ((i, h, v) # es) zs u"
      unfolding xs using serves.serve [where run = run and r = "queue (free_slot e s1)", OF st d eq(1) s1(1,2) free_slot_stored [OF s1(2)]] ih(2) by simp
    have ge: "\<forall>x\<in>set es. i \<le> fst x" using ih(7) s1(5) by blast
    have lb: "\<forall>k. (\<forall>x\<in>set xs. k \<le> fst x) \<longrightarrow> (\<forall>x\<in>set ((i, h, v) # es). k \<le> fst x)" using ge by (auto simp: xs)
    have loop: "service_loop run nd s = Some u" using eq(2) s1(1) ih(1) by simp
    have "ys = xs'" if "quiet run"
    proof -
      have "queue s1 = q" using that s1(1) unfolding quiet_def by fastforce
      then show ?thesis using stored_unique eq(1) s1(2) by metis
    qed
    then have q: "quiet run \<longrightarrow> (i, h, v) # es = takeWhile (\<lambda>x. dbl (fst x * of_int (CPU_CycleMax s)) \<le> nd) xs \<and>
        zs = dropWhile (\<lambda>x. dbl (fst x * of_int (CPU_CycleMax s)) \<le> nd) xs" using ih(8) d xs by auto
    have sd: "sorted (map fst ((i, h, v) # es))" "\<forall>x\<in>set ((i, h, v) # es). dbl (fst x * of_int (CPU_CycleMax s)) \<le> nd"
      using ih(5,6) ge d by auto
    from loop sv service_frame_trans [OF s1(3) ih(3)] ih(4) sd lb q show ?thesis by blast
  qed
qed


section \<open>A run of the queue\<close>

lemma runIRQs_cycles [simp]:
  "CPU_Cycles (PIC_runIRQs f g p) = CPU_Cycles p" "CPU_CycleLeft (PIC_runIRQs f g p) = CPU_CycleLeft p"
  by (auto simp: PIC_runIRQs_def Let_def secondary_startIRQ_def primary_startIRQ_def CPU_HW_Interrupt_def split: option.split)

lemma next_cycles_bounds:
  assumes st: "stored busy (queue s) xs n" and c: "next_cycles nd s = Some c" and "0 < CPU_CycleLeft (pic s)" and "0 < CPU_CycleMax s"
    and later: "\<forall>x\<in>set xs. nd < dbl (fst x * of_int (CPU_CycleMax s))"
  shows "1 \<le> c \<and> c \<le> CPU_CycleLeft (pic s) \<and>
    (\<forall>x\<in>set xs. of_int c \<le> max 1 (dbl (dbl (fst x * of_int (CPU_CycleMax s)) - nd)))"
proof (cases "next_entry (queue s)")
  case None
  then show ?thesis using c assms(3) stored_head(1) [OF st] by (simp add: next_cycles_def)
next
  case (Some e)
  define d where "d = (\<lambda>x. dbl (dbl (x * of_int (CPU_CycleMax s)) - nd))"
  note hd = due_iff [OF st Some]
  obtain k where k: "to_int32 (d (fst (hd xs))) = Some k" and ck: "c = (let cy = (if k = 0 then 1 else k) in if cy < CPU_CycleLeft (pic s) then cy else CPU_CycleLeft (pic s))"
    using c Some hd(3) by (auto simp: next_cycles_def d_def bind_eq_Some_conv Let_def)
  have "0 \<le> d (fst (hd xs))" unfolding d_def using later hd(2) by (intro dbl_nonneg) (simp add: less_imp_le)
  then have kb: "0 \<le> k" "of_int k \<le> d (fst (hd xs))"
    using k truncate_bounds [of "d (fst (hd xs))"] by (auto simp: to_int32_def split: if_splits)
  have mono: "d (fst (hd xs)) \<le> d (fst x)" if "x \<in> set xs" for x
  proof -
    have "fst (hd xs) \<le> fst x" using evq.stored_sorted [OF st] that hd(2) by (cases xs) auto
    then show ?thesis unfolding d_def using assms(4) by (intro dbl_mono diff_right_mono mult_right_mono) auto
  qed
  have "c \<le> max 1 k" "1 \<le> c" "c \<le> CPU_CycleLeft (pic s)" using ck kb assms(3) by (auto simp: Let_def split: if_splits)
  moreover have "of_int c \<le> max 1 (d (fst x))" if "x \<in> set xs" for x
  proof -
    have "of_int c \<le> (of_int (max 1 k) :: rat)" using \<open>c \<le> max 1 k\<close> by (simp only: of_int_le_iff)
    also have "\<dots> \<le> max 1 (d (fst x))" using kb mono [OF that] by (auto simp: max_def)
    finally show ?thesis .
  qed
  ultimately show ?thesis by (simp add: d_def)
qed

text \<open>The phases of a run of the queue.\<close>

definition service_start :: "('h, 't, 'm) events \<Rightarrow> ('h, 't, 'm) events \<Rightarrow> bool" where
  "service_start s s3 \<longleftrightarrow> queue s3 = queue s \<and> CPU_CycleMax s3 = CPU_CycleMax s \<and> InEventService s3 \<and> srv_lag s3 = srv_lag s \<and>
     firstticker s3 = firstticker s \<and> tickers s3 = tickers s \<and> heap_top s3 = heap_top s \<and> machine s3 = machine s \<and>
     pic s3 = (pic s)\<lparr>CPU_CycleLeft := CPU_CycleLeft (pic s) + CPU_Cycles (pic s), CPU_Cycles := 0\<rparr>"

lemma RunQueue_phases:
  assumes "CPU_CycleMax s \<noteq> 0"
  shows "\<exists>s3. service_start s s3 \<and> PIC_RunQueue run f g s =
    (if CPU_CycleLeft (pic s) + CPU_Cycles (pic s) \<le> 0 then Some (False, s3\<lparr>InEventService := InEventService s\<rparr>)
     else do { s4 \<leftarrow> service_loop run (of_int (PIC_TickIndexND s)) s3;
               let s5 = s4\<lparr>InEventService := False\<rparr>;
               c \<leftarrow> next_cycles (of_int (PIC_TickIndexND s)) s5;
               Some (True, (start_cycles c s5)\<lparr>pic := PIC_runIRQs f g (pic (start_cycles c s5))\<rparr>) })"
proof -
  obtain i where i: "PIC_UpdateAtomicIndex s = Some (s\<lparr>atomic_pic_index := i\<rparr>)"
    using assms by (simp add: PIC_UpdateAtomicIndex_def PIC_FullIndex_def PIC_TickIndex_def)
  define s2 where "s2 = stop_cycles (s\<lparr>atomic_pic_index := i\<rparr>)"
  have nd: "PIC_TickIndexND s2 = PIC_TickIndexND s" unfolding s2_def stop_cycles_simps by (simp add: PIC_TickIndexND_def)
  have f: "CPU_CycleLeft (pic s2) = CPU_CycleLeft (pic s) + CPU_Cycles (pic s)" "s2\<lparr>InEventService := InEventService s\<rparr> = s2"
    "service_start s (s2\<lparr>InEventService := True\<rparr>)"
    by (simp_all add: s2_def stop_cycles_def service_start_def)
  show ?thesis
    by (rule exI [of _ "s2\<lparr>InEventService := True\<rparr>"])
      (simp add: PIC_RunQueue_def i s2_def [symmetric] nd f Let_def)
qed

lemma next_cycles_defined:
  assumes st: "stored busy (queue t) ys m" and "\<forall>y\<in>set ys. dbl (fst y * of_int (CPU_CycleMax t)) - nd \<le> 2 ^ 31 - 1"
    and "\<forall>e. next_entry (queue t) = Some e \<longrightarrow> \<not> due nd t e"
  shows "\<exists>c. next_cycles nd t = Some c"
proof (cases "next_entry (queue t)")
  case None
  then show ?thesis by (simp add: next_cycles_def)
next
  case (Some e)
  note hd = due_iff [OF st Some]
  let ?x = "dbl (fst (hd ys) * of_int (CPU_CycleMax t)) - nd"
  have "of_int 0 \<le> ?x" "?x \<le> of_int (2 ^ 31 - 1)" using assms(2,3) Some hd(1,2) by auto
  from dbl_between_int [OF this] have "to_int32 (dbl ?x) = Some (truncate_dbl (dbl ?x))" by (intro to_int32_defined) auto
  then show ?thesis using Some hd(3) by (simp add: next_cycles_def Let_def)
qed

text \<open>The length of the next slice of cycles.\<close>

definition slice :: "rat \<Rightarrow> int \<Rightarrow> int \<Rightarrow> (rat \<times> 'e) list \<Rightarrow> int" where
  "slice nd M left ys = (case ys of [] \<Rightarrow> left | y # _ \<Rightarrow> min left (max 1 (truncate_dbl (dbl (dbl (fst y * of_int M) - nd)))))"

lemma next_cycles_slice:
  assumes st: "stored busy (queue s) ys n" and c: "next_cycles nd s = Some c"
    and later: "\<forall>x\<in>set ys. nd < dbl (fst x * of_int (CPU_CycleMax s))"
  shows "c = slice nd (CPU_CycleMax s) (CPU_CycleLeft (pic s)) ys"
proof (cases "next_entry (queue s)")
  case None
  then show ?thesis using c stored_head(1) [OF st] by (simp add: next_cycles_def slice_def)
next
  case (Some e)
  note hd = due_iff [OF st Some]
  define k where "k = truncate_dbl (dbl (dbl (fst (hd ys) * of_int (CPU_CycleMax s)) - nd))"
  have "0 \<le> dbl (dbl (fst (hd ys) * of_int (CPU_CycleMax s)) - nd)" using later hd(2) by (intro dbl_nonneg) (simp add: less_imp_le)
  then have k: "0 \<le> k" using truncate_bounds unfolding k_def by blast
  have "c = (let cy = (if k = 0 then 1 else k) in if cy < CPU_CycleLeft (pic s) then cy else CPU_CycleLeft (pic s))"
    using c Some hd(3) by (auto simp: next_cycles_def bind_eq_Some_conv Let_def to_int32_def k_def split: if_splits)
  then have "c = min (CPU_CycleLeft (pic s)) (max 1 k)" using k by (auto simp: Let_def)
  then show ?thesis using hd(2) by (cases ys) (simp_all add: slice_def k_def)
qed

lemma near_cycles:
  assumes "near ys" and "timing_ok s" and "y \<in> set ys"
  shows "dbl (fst y * of_int (CPU_CycleMax s)) - of_int (PIC_TickIndexND s) \<le> 2 ^ 31 - 1"
proof -
  have m: "0 \<le> (of_int (CPU_CycleMax s) :: rat)" "0 \<le> (of_int (PIC_TickIndexND s) :: rat)" using assms(2) by (simp_all add: timing_ok_def)
  have "of_int (CPU_CycleMax s) \<le> (of_int (2 ^ 21) :: rat)" using assms(2) by (simp only: timing_ok_def of_int_le_iff)
  moreover have "fst y \<le> 1000" using assms(1,3) by (auto simp: near_def)
  ultimately have "fst y * of_int (CPU_CycleMax s) \<le> 1000 * of_int (2 ^ 21)" using m(1) by (intro mult_mono) auto
  then have "fst y * of_int (CPU_CycleMax s) \<le> of_int (1000 * 2 ^ 21)" by simp
  from dbl_le_fixed [OF this dbl_of_int] m(2) show ?thesis by simp
qed

text \<open>
  Property C4. Running the queue. The pending events lie within a second, and every handler, in the
  states in which the service loop calls it, returns, acts on the queue and the controllers only
  through their interface, and schedules at least \<open>\<delta>\<close> after the event being served. Then the run
  returns, and it reports a new millisecond exactly when no cycles are left, with the queue
  untouched. Otherwise it serves events as the list \<open>xs\<close> of pending ones prescribes: always the first,
  only due ones, each with its own handler, value and lag, going on with the list the handler left.
  The served times never decrease, the remaining events are the ones the result's queue holds and
  none of them is due, and all 512 slots are accounted for. When handlers leave the queue alone,
  exactly the due events are served and exactly the others remain. The next slice is the exact
  number of cycles up to the first remaining event, at least one and at most what is left, no cycle
  is lost, and requests are then delivered; nothing else changes.
\<close>

theorem run_queue_in_order:
  assumes st: "stored [] (queue s) xs n" and tm: "timing_ok s" and nr: "near xs" and contract: "0 < \<delta>" "punctual \<delta> run"
  shows "let nd = of_int (PIC_TickIndexND s); M = CPU_CycleMax s; left = CPU_CycleLeft (pic s) + CPU_Cycles (pic s) in
    \<exists>b t. PIC_RunQueue run f g s = Some (b, t) \<and> (b \<longleftrightarrow> 0 < left) \<and>
    (if b then \<exists>s0 es ys u. service_start s s0 \<and> serves run nd s0 xs es ys u \<and>
        sorted (map fst es) \<and> (\<forall>x\<in>set es. dbl (fst x * of_int M) \<le> nd) \<and>
        stored [] (queue t) ys (PIC_QUEUESIZE - length ys) \<and> (\<forall>y\<in>set ys. nd < dbl (fst y * of_int M)) \<and>
        (quiet run \<longrightarrow> es = takeWhile (\<lambda>x. dbl (fst x * of_int M) \<le> nd) xs \<and> ys = dropWhile (\<lambda>x. dbl (fst x * of_int M) \<le> nd) xs) \<and>
        t = u\<lparr>InEventService := False, pic := PIC_runIRQs f g
          ((pic u)\<lparr>CPU_Cycles := slice nd M left ys, CPU_CycleLeft := left - slice nd M left ys\<rparr>)\<rparr> \<and>
        1 \<le> slice nd M left ys \<and> slice nd M left ys \<le> left \<and>
        (\<forall>y\<in>set ys. of_int (slice nd M left ys) \<le> max 1 (dbl (dbl (fst y * of_int M) - nd)))
     else \<exists>s0. service_start s s0 \<and> t = s0\<lparr>InEventService := InEventService s\<rparr>)"
proof -
  define nd where "nd = (of_int (PIC_TickIndexND s) :: rat)"
  define left where "left = CPU_CycleLeft (pic s) + CPU_Cycles (pic s)"
  have pos: "0 < CPU_CycleMax s" using tm by (simp add: timing_ok_def)
  obtain s3 where s3: "service_start s s3" and r: "PIC_RunQueue run f g s =
    (if left \<le> 0 then Some (False, s3\<lparr>InEventService := InEventService s\<rparr>)
     else do { s4 \<leftarrow> service_loop run nd s3; let s5 = s4\<lparr>InEventService := False\<rparr>; c \<leftarrow> next_cycles nd s5;
               Some (True, (start_cycles c s5)\<lparr>pic := PIC_runIRQs f g (pic (start_cycles c s5))\<rparr>) })"
    using RunQueue_phases [of s run f g] pos unfolding nd_def left_def by auto
  show ?thesis
  proof (cases "left \<le> 0")
    case True
    then show ?thesis using r s3 unfolding left_def by (auto simp: Let_def)
  next
    case False
    have q3: "queue s3 = queue s" "InEventService s3" "CPU_CycleMax s3 = CPU_CycleMax s" "PIC_TickIndexND s3 = PIC_TickIndexND s"
      "CPU_CycleLeft (pic s3) = left" "CPU_Cycles (pic s3) = 0"
      using s3 by (simp_all add: service_start_def PIC_TickIndexND_def left_def)
    have "stored [] (queue s3) xs n" "timing_ok s3" "nd = of_int (PIC_TickIndexND s3)" using st tm q3 by (simp_all add: timing_ok_def nd_def)
    from service_loop_serves [OF contract(2,1) this(1) q3(2) this(2) nr this(3)] obtain es ys u where
      u: "service_loop run nd s3 = Some u" "serves run nd s3 xs es ys u" "service_frame s3 u" "near ys"
        "sorted (map fst es)" "\<forall>x\<in>set es. dbl (fst x * of_int (CPU_CycleMax s)) \<le> nd"
        "quiet run \<longrightarrow> es = takeWhile (\<lambda>x. dbl (fst x * of_int (CPU_CycleMax s)) \<le> nd) xs \<and>
          ys = dropWhile (\<lambda>x. dbl (fst x * of_int (CPU_CycleMax s)) \<le> nd) xs"
      unfolding q3(3) by blast
    obtain m where ys: "stored [] (queue u) ys m" "\<forall>x\<in>set ys. nd < dbl (fst x * of_int (CPU_CycleMax u))" using serves_end [OF u(2)] by blast
    have fr: "CPU_CycleMax u = CPU_CycleMax s" "CPU_Cycles (pic u) = 0" "CPU_CycleLeft (pic u) = left"
      using u(3) q3 by (simp_all add: service_frame_def)
    have m: "m = PIC_QUEUESIZE - length ys" using evq.stored_capacity [OF ys(1)] by simp
    define s5 where "s5 = u\<lparr>InEventService := False\<rparr>"
    have s5: "stored [] (queue s5) ys m" "CPU_CycleMax s5 = CPU_CycleMax s" "CPU_CycleLeft (pic s5) = left"
      using ys(1) fr by (simp_all add: s5_def)
    have nodue: "\<forall>e. next_entry (queue s5) = Some e \<longrightarrow> \<not> due nd s5 e"
    proof (intro allI impI)
      fix e assume e: "next_entry (queue s5) = Some e"
      note hd = due_iff [OF s5(1) e]
      show "\<not> due nd s5 e" using hd(1) bspec [OF ys(2) hd_in_set [OF hd(2)]] fr s5(2) by simp
    qed
    have "\<forall>y\<in>set ys. dbl (fst y * of_int (CPU_CycleMax s5)) - nd \<le> 2 ^ 31 - 1"
      using near_cycles [OF u(4) tm] s5(2) by (simp add: nd_def)
    from next_cycles_defined [OF s5(1) this nodue] obtain c where c: "next_cycles nd s5 = Some c" by blast
    have ce: "c = slice nd (CPU_CycleMax s) left ys" using next_cycles_slice [OF s5(1) c] ys(2) fr s5 by simp
    have cb: "1 \<le> c \<and> c \<le> left \<and> (\<forall>x\<in>set ys. of_int c \<le> max 1 (dbl (dbl (fst x * of_int (CPU_CycleMax s)) - nd)))"
      using next_cycles_bounds [OF s5(1) c] ys(2) fr s5 False pos by simp
    define t where "t = u\<lparr>InEventService := False, pic := PIC_runIRQs f g ((pic u)\<lparr>CPU_Cycles := c, CPU_CycleLeft := left - c\<rparr>)\<rparr>"
    have "PIC_RunQueue run f g s = Some (True, t)"
      using r u(1) c False fr by (simp add: s5_def [symmetric]) (simp add: t_def s5_def start_cycles_def)
    moreover have "queue t = queue u" by (simp add: t_def)
    ultimately show ?thesis
      unfolding Let_def nd_def [symmetric] left_def [symmetric]
      using False s3 u(2,5,6,7) ys fr m cb ce t_def by (intro exI [of _ True] exI [of _ t]) (simp, blast)
  qed
qed


section \<open>A handler that reschedules itself\<close>

text \<open>A timer: it raises its interrupt and schedules itself again, two milliseconds later.\<close>

definition metronome :: "(nat, nat, nat) event_code" where
  "metronome h v s = PIC_AddEvent h 2 v (s\<lparr>pic := PIC_ActivateIRQ 0 (pic s)\<rparr>)"

text \<open>A served event is less than three milliseconds into the present one; two more are a whole one later, whatever the rounding.\<close>

lemma in_service_lag:
  assumes "in_service s"
  shows "srv_lag s < 3" "srv_lag s + 1 \<le> dbl (2 + srv_lag s)" "\<bar>dbl (2 + srv_lag s)\<bar> \<le> 1000"
proof -
  have tm: "timing_ok s" and l: "\<bar>srv_lag s\<bar> \<le> 1000" and d: "dbl (srv_lag s * of_int (CPU_CycleMax s)) \<le> of_int (PIC_TickIndexND s)"
    using assms by (simp_all add: in_service_def)
  have m: "0 < (of_int (CPU_CycleMax s) :: rat)" using tm by (simp add: timing_ok_def)
  show lt: "srv_lag s < 3"
  proof (rule ccontr)
    assume "\<not> srv_lag s < 3"
    then have "of_int (3 * CPU_CycleMax s) \<le> srv_lag s * of_int (CPU_CycleMax s)" using m by simp
    from dbl_ge_fixed [OF this dbl_of_int] d tm have "of_int (3 * CPU_CycleMax s) \<le> (of_int (PIC_TickIndexND s) :: rat)"
      by (auto simp: timing_ok_def)
    then show False using tm unfolding of_int_le_iff by (simp add: timing_ok_def)
  qed
  define k where "k = \<lfloor>2 + srv_lag s\<rfloor>"
  have "- 998 \<le> k" "k \<le> 1002" using l unfolding k_def le_floor_iff floor_le_iff by (simp_all add: abs_le_iff)
  then have "\<bar>k\<bar> \<le> 2 ^ 53" by simp
  from dbl_ge_fixed [OF _ dbl_of_int [OF this], of "2 + srv_lag s"] show ge: "srv_lag s + 1 \<le> dbl (2 + srv_lag s)"
    unfolding k_def by linarith
  have "2 + srv_lag s \<le> of_int 5" "of_int (- 998) \<le> 2 + srv_lag s" using lt l by (auto simp: abs_le_iff)
  from dbl_le_fixed [OF this(1) dbl_of_int] dbl_ge_fixed [OF this(2) dbl_of_int] show "\<bar>dbl (2 + srv_lag s)\<bar> \<le> 1000" by (simp add: abs_le_iff)
qed

lemma metronome_punctual: "punctual 1 metronome"
  unfolding punctual_def
proof (intro allI impI)
  fix h v and s :: "(nat, nat, nat) events"
  assume sv: "in_service s"
  define u where "u = s\<lparr>pic := PIC_ActivateIRQ 0 (pic s)\<rparr>"
  have fr: "clock_frame s u" unfolding u_def by (rule clock_frame_requests)
  have u: "timing_ok u" "base_index u = Some (srv_lag s)" "srv_lag u = srv_lag s"
    using sv in_service_frame(2) [OF fr] fr by (simp_all add: in_service_def base_index_def clock_frame_def)
  obtain e xs n where xs: "stored [e] (queue u) xs n" "near xs" using sv by (auto simp: in_service_def u_def)
  have "\<exists>t. PIC_AddEvent h 2 v u = Some t"
  proof (cases n)
    case 0
    then show ?thesis using stored_free [OF xs(1)] by (simp add: PIC_AddEvent_def)
  next
    case (Suc m)
    then show ?thesis using AddEvent_near [OF xs(1) [unfolded Suc] u(1,2) xs(2) _ refl] in_service_lag(3) [OF sv] by blast
  qed
  then obtain t where t: "PIC_AddEvent h 2 v u = Some t" by blast
  have "later_by 1 2 u" using in_service_lag(2,3) [OF sv] u(3) by (simp add: later_by_def abs_le_iff)
  from api_steps.add [where ok = "later_by 1", OF api_steps.raise [OF api_steps.return] this [unfolded u_def] t [unfolded u_def]] t
  show "\<exists>t. metronome h v s = Some t \<and> api_steps (later_by 1) s t" by (simp add: metronome_def u_def)
qed

theorem run_queue_in_order_witness:
  "\<exists>t. PIC_RunQueue metronome True False due_events = Some (True, t) \<and> stored [] (queue t) [(2, 7, 1)] 511 \<and> CPU_Cycles (pic t) = 3100"
proof -
  have tm: "timing_ok due_events" and m: "CPU_CycleMax due_events = 3200" "CPU_CycleLeft (pic due_events) + CPU_Cycles (pic due_events) = 3100"
    "PIC_TickIndexND due_events = 100"
    by (simp_all add: due_events_def boot_events_def zero_pic_def timing_ok_def PIC_TickIndexND_def)
  have d: "dbl 2 = 2" "dbl (2 * 3200) = 6400" "dbl 0 = 0" "dbl 6300 = 6300" using dbl_of_int [of 2] dbl_of_int [of 6400] dbl_of_int [of 0] dbl_of_int [of 6300] by simp_all
  have "near [(0 :: rat, 7 :: nat, 1 :: u64)]" by (simp add: near_def)
  note run = run_queue_in_order [OF due_stored tm this _ metronome_punctual, of True False, unfolded Let_def m]
  then obtain t s0 es ys u where t: "PIC_RunQueue metronome True False due_events = Some (True, t)" and s0: "service_start due_events s0"
    and sv: "serves metronome 100 s0 [(0, 7, 1)] es ys u" and ys: "stored [] (queue t) ys (PIC_QUEUESIZE - length ys)" "\<forall>y\<in>set ys. 100 < dbl (fst y * 3200)"
    and c: "t = u\<lparr>InEventService := False, pic := PIC_runIRQs True False
          ((pic u)\<lparr>CPU_Cycles := slice 100 3200 3100 ys, CPU_CycleLeft := 3100 - slice 100 3200 3100 ys\<rparr>)\<rparr>"
    by auto
  have s0: "InEventService s0" "CPU_CycleMax s0 = 3200" using s0 m by (simp_all add: service_start_def)
  from sv have "ys = [(2, 7, 1)]"
  proof (cases rule: serves.cases)
    case (rest n)
    then show ?thesis using s0 d by simp
  next
    case (serve n e q w zs k r es')
    define u0 where "u0 = s0\<lparr>queue := q, srv_lag := 0, pic := PIC_ActivateIRQ 0 (pic s0)\<rparr>"
    have "PIC_AddEvent 7 2 1 u0 = Some w" using serve by (simp add: metronome_def u0_def)
    moreover have "stored [e] (queue u0) [] 511" using serve evq.stored_capacity [OF serve(4)] by (simp add: u0_def PIC_QUEUESIZE_def)
    moreover have "base_index u0 = Some 0" using s0 by (simp add: base_index_def u0_def)
    ultimately have "clock_frame u0 w" "\<exists>n. stored [e] (queue w) [(2, 7, 1)] n" using AddEvent_stored [of 7 2 1 u0 w "[e]" "[]" 511] d by auto
    then have z: "zs = [(2, 7, 1)]" "CPU_CycleMax w = 3200" using stored_unique serve s0 by (metis, simp add: clock_frame_def u0_def)
    from serve(8) [unfolded z] show ?thesis by (cases rule: serves.cases) (use z d in auto)
  qed
  then show ?thesis using t ys c d by (auto simp: PIC_QUEUESIZE_def slice_def truncate_dbl_def)
qed

end
