(* ===== verification/Dos_Memory.thy ===== *)
theory Dos_Memory
  imports Emu_Prelude
begin

text \<open>
  The DOS memory manager of \<^verbatim>\<open>src/dos/dos_memory.cpp\<close>: memory control blocks, the compaction of free
  blocks, allocation with the first, best and last fit strategies and upper memory, resizing,
  freeing, and the construction of the initial chains. A memory control block is exactly one
  paragraph, so the headers of two segments never overlap and the guest memory that holds them is a
  store from segments to headers; segment arithmetic wraps at 16 bits as in the code. Loops over
  a chain may run forever on a corrupt one: they are partial functions whose value \<open>None\<close> is not
  returning. \<open>E_Exit\<close> is the error value \<open>CorruptChain\<close>. Messages are left out.
\<close>

unbundle bit_operations_syntax

section \<open>State\<close>

record DOS_MCB =
  mcb_type :: u8
  psp_segment :: u16
  mcb_size :: u16
  filename :: "u8 list"

datatype McbFaultStrategy = Deny | Repair | Report | Allow

datatype machine_kind = Tandy | PCjr | OtherMachine

record dos_mem =
  mcbs :: "u16 \<Rightarrow> DOS_MCB"
  firstMCB :: u16
  info_firstMCB :: u16
  startOfUMBChain :: u16
  chainingUMB :: u8
  dos_psp :: u16
  errorcode :: u16
  allocation_strategy :: u16
  mcb_fault_strategy :: McbFaultStrategy
  machine :: machine_kind
  real_vectors :: "u8 \<Rightarrow> u16 \<times> u16"
  real_bytes :: "u16 \<times> u16 \<Rightarrow> u8"

datatype dm_error = CorruptChain

definition middle_mcb_type :: u8 where "middle_mcb_type = 0x4d"
definition ending_mcb_type :: u8 where "ending_mcb_type = 0x5a"
definition umb_start_seg :: u16 where "umb_start_seg = 0x9fff"
definition MCB_FREE :: u16 where "MCB_FREE = 0"
definition MCB_DOS :: u16 where "MCB_DOS = 8"
definition DOS_MEM_START :: u16 where "DOS_MEM_START = 0x16f"
definition max_allowed_faults :: nat where "max_allowed_faults = 100"
definition DOSERR_MCB_DESTROYED :: u16 where "DOSERR_MCB_DESTROYED = 7"
definition DOSERR_INSUFFICIENT_MEMORY :: u16 where "DOSERR_INSUFFICIENT_MEMORY = 8"
definition DOSERR_MB_ADDRESS_INVALID :: u16 where "DOSERR_MB_ADDRESS_INVALID = 9"

definition GetType :: "u16 \<Rightarrow> dos_mem \<Rightarrow> u8" where "GetType seg s = mcb_type (mcbs s seg)"
definition GetSize :: "u16 \<Rightarrow> dos_mem \<Rightarrow> u16" where "GetSize seg s = mcb_size (mcbs s seg)"
definition GetPSPSeg :: "u16 \<Rightarrow> dos_mem \<Rightarrow> u16" where "GetPSPSeg seg s = psp_segment (mcbs s seg)"
definition GetFileName :: "u16 \<Rightarrow> dos_mem \<Rightarrow> u8 list" where "GetFileName seg s = filename (mcbs s seg)"

definition SetType :: "u16 \<Rightarrow> u8 \<Rightarrow> dos_mem \<Rightarrow> dos_mem" where
  "SetType seg v s = s\<lparr>mcbs := (mcbs s)(seg := (mcbs s seg)\<lparr>mcb_type := v\<rparr>)\<rparr>"

definition SetSize :: "u16 \<Rightarrow> u16 \<Rightarrow> dos_mem \<Rightarrow> dos_mem" where
  "SetSize seg v s = s\<lparr>mcbs := (mcbs s)(seg := (mcbs s seg)\<lparr>mcb_size := v\<rparr>)\<rparr>"

definition SetPSPSeg :: "u16 \<Rightarrow> u16 \<Rightarrow> dos_mem \<Rightarrow> dos_mem" where
  "SetPSPSeg seg v s = s\<lparr>mcbs := (mcbs s)(seg := (mcbs s seg)\<lparr>psp_segment := v\<rparr>)\<rparr>"

definition SetFileName :: "u16 \<Rightarrow> u8 list \<Rightarrow> dos_mem \<Rightarrow> dos_mem" where
  "SetFileName seg v s = s\<lparr>mcbs := (mcbs s)(seg := (mcbs s seg)\<lparr>filename := v\<rparr>)\<rparr>"

definition DOS_SetError :: "u16 \<Rightarrow> dos_mem \<Rightarrow> dos_mem" where
  "DOS_SetError code s = s\<lparr>errorcode := code\<rparr>"

section \<open>Faults and compaction\<close>

text \<open>The preference is one of the four names; any other string is an assertion failure, \<open>None\<close>.\<close>

definition DOS_SetMcbFaultStrategy :: "string \<Rightarrow> dos_mem \<Rightarrow> dos_mem option" where
  "DOS_SetMcbFaultStrategy pref s =
     (if pref = ''deny'' then Some (s\<lparr>mcb_fault_strategy := Deny\<rparr>)
      else if pref = ''repair'' then Some (s\<lparr>mcb_fault_strategy := Repair\<rparr>)
      else if pref = ''report'' then Some (s\<lparr>mcb_fault_strategy := Report\<rparr>)
      else if pref = ''allow'' then Some (s\<lparr>mcb_fault_strategy := Allow\<rparr>)
      else None)"

definition triage_block :: "u16 \<Rightarrow> u8 \<Rightarrow> dos_mem \<Rightarrow> dm_error + (nat \<times> dos_mem)" where
  "triage_block seg repair_type s =
     (if GetType seg s = middle_mcb_type \<or> GetType seg s = ending_mcb_type then Inr (0, s)
      else case mcb_fault_strategy s of
        Deny \<Rightarrow> Inl CorruptChain
      | Repair \<Rightarrow> Inr (1, SetType seg repair_type s)
      | Report \<Rightarrow> Inr (1, s)
      | Allow \<Rightarrow> Inr (1, s))"

partial_function (option) compress_loop :: "u16 \<Rightarrow> nat \<Rightarrow> dos_mem \<Rightarrow> (dm_error + dos_mem) option" where
  "compress_loop mcb faults s =
     (if GetType mcb s \<noteq> ending_mcb_type \<and> faults < max_allowed_faults then
        let mcb_next = mcb + GetSize mcb s + 1 in
        if GetPSPSeg mcb s = MCB_FREE \<and> GetPSPSeg mcb_next s = MCB_FREE then
          case triage_block mcb_next (GetType mcb s) s of
            Inl e \<Rightarrow> Some (Inl e)
          | Inr (f, s1) \<Rightarrow>
              let s2 = SetSize mcb (GetSize mcb s1 + GetSize mcb_next s1 + 1) s1
              in compress_loop mcb (faults + f) (SetType mcb (GetType mcb_next s2) s2)
        else compress_loop (mcb + GetSize mcb s + 1) faults s
      else Some (Inr s))"

definition DOS_CompressMemory :: "dos_mem \<Rightarrow> (dm_error + dos_mem) option" where
  "DOS_CompressMemory s = compress_loop (firstMCB s) 0 s"

text \<open>What follows a call that may exit or not return.\<close>

definition and_then :: "(dm_error + 'a) option \<Rightarrow> ('a \<Rightarrow> (dm_error + 'b) option) \<Rightarrow> (dm_error + 'b) option" where
  "and_then x f = (case x of None \<Rightarrow> None | Some (Inl e) \<Rightarrow> Some (Inl e) | Some (Inr a) \<Rightarrow> f a)"

section \<open>Freeing a process\<close>

partial_function (option) free_psp_loop :: "u16 \<Rightarrow> u16 \<Rightarrow> nat \<Rightarrow> dos_mem \<Rightarrow> (dm_error + dos_mem) option" where
  "free_psp_loop pspseg mcb faults s =
     (if faults < max_allowed_faults then
        let s1 = (if GetPSPSeg mcb s = pspseg then SetPSPSeg mcb MCB_FREE s else s) in
        if GetType mcb s1 = ending_mcb_type then Some (Inr s1)
        else case triage_block mcb middle_mcb_type s1 of
            Inl e \<Rightarrow> Some (Inl e)
          | Inr (f, s2) \<Rightarrow> free_psp_loop pspseg (mcb + GetSize mcb s2 + 1) (faults + f) s2
      else Some (Inr s))"

definition DOS_FreeProcessMemory :: "u16 \<Rightarrow> dos_mem \<Rightarrow> (dm_error + dos_mem) option" where
  "DOS_FreeProcessMemory pspseg s =
     and_then (free_psp_loop pspseg (firstMCB s) 0 s) (\<lambda>s1.
     and_then (if startOfUMBChain s1 = umb_start_seg
               then free_psp_loop pspseg (startOfUMBChain s1) 0 s1 else Some (Inr s1))
     DOS_CompressMemory)"

section \<open>Allocation\<close>

definition DOS_GetMemAllocStrategy :: "dos_mem \<Rightarrow> u16" where
  "DOS_GetMemAllocStrategy s = allocation_strategy s"

definition DOS_SetMemAllocStrategy :: "u16 \<Rightarrow> dos_mem \<Rightarrow> bool \<times> dos_mem" where
  "DOS_SetMemAllocStrategy strat s =
     (if strat AND 0x3f < 3 then (True, s\<lparr>allocation_strategy := strat\<rparr>) else (False, s))"

text \<open>
  The result of an allocation or of a resize: success with the segment, or failure with the value
  written back to \<^verbatim>\<open>*blocks\<close>.
\<close>

datatype alloc_result = Allocated u16 | NoMemory u16

record search =
  bigsize :: u16
  found_seg :: u16
  found_seg_size :: u16

text \<open>The blocks carved out of a free one: at its beginning (first and best fit), at its end (last fit).\<close>

definition take_front :: "u16 \<Rightarrow> u16 \<Rightarrow> u16 \<Rightarrow> u8 list \<Rightarrow> dos_mem \<Rightarrow> dos_mem" where
  "take_front mcb block_size blocks psp_name s0 = (let mcb_next = mcb + blocks + 1 in seq_do
     [SetPSPSeg mcb_next MCB_FREE,
      \<lambda>s. SetType mcb_next (GetType mcb s) s,
      SetSize mcb_next (block_size - blocks - 1),
      SetSize mcb blocks,
      SetType mcb middle_mcb_type,
      \<lambda>s. SetPSPSeg mcb (dos_psp s) s,
      SetFileName mcb psp_name] s0)"

definition take_back :: "u16 \<Rightarrow> u16 \<Rightarrow> u16 \<Rightarrow> u8 list \<Rightarrow> dos_mem \<Rightarrow> dos_mem" where
  "take_back mcb block_size blocks psp_name s0 =
     (let mcb_next = (mcb + 1 + block_size - blocks) - 1 in seq_do
     [SetSize mcb_next blocks,
      \<lambda>s. SetType mcb_next (GetType mcb s) s,
      \<lambda>s. SetPSPSeg mcb_next (dos_psp s) s,
      SetFileName mcb_next psp_name,
      SetSize mcb (block_size - blocks - 1),
      SetPSPSeg mcb MCB_FREE,
      SetType mcb middle_mcb_type] s0)"

definition allocate_found :: "u16 \<Rightarrow> u16 \<Rightarrow> u8 list \<Rightarrow> search \<Rightarrow> dos_mem \<Rightarrow> alloc_result \<times> dos_mem" where
  "allocate_found blocks mem_strat psp_name r s =
     (if found_seg r \<noteq> 0 then
        if mem_strat AND 0x3f = 1 then
          (Allocated (found_seg r + 1), take_front (found_seg r) (found_seg_size r) blocks psp_name s)
        else if found_seg_size r = blocks then
          (Allocated (found_seg r + 1), SetFileName (found_seg r) psp_name (SetPSPSeg (found_seg r) (dos_psp s) s))
        else
          (Allocated (found_seg r + 1 + found_seg_size r - blocks),
           take_back (found_seg r) (found_seg_size r) blocks psp_name s)
      else (NoMemory (bigsize r), DOS_SetError DOSERR_INSUFFICIENT_MEMORY s))"

partial_function (option) allocate_loop ::
  "u16 \<Rightarrow> u16 \<Rightarrow> u8 list \<Rightarrow> u16 \<Rightarrow> u16 \<Rightarrow> search \<Rightarrow> dos_mem \<Rightarrow> (alloc_result \<times> dos_mem) option" where
  "allocate_loop blocks umb_start psp_name mem_strat mcb r s =
     (let block_size = GetSize mcb s; free = (GetPSPSeg mcb s = MCB_FREE) in
      if free \<and> \<not> block_size < blocks \<and> block_size = blocks \<and> mem_strat AND 0x3f < 2 then
        Some (Allocated (mcb + 1), SetPSPSeg mcb (dos_psp s) s)
      else if free \<and> \<not> block_size < blocks \<and> mem_strat AND 0x3f = 0 then
        Some (Allocated (mcb + 1), take_front mcb block_size blocks psp_name s)
      else
        let r1 = (if \<not> free then r
                  else if block_size < blocks then
                    (if bigsize r < block_size then r\<lparr>bigsize := block_size\<rparr> else r)
                  else if mem_strat AND 0x3f = 1 then
                    (if found_seg_size r = 0 \<or> block_size < found_seg_size r
                     then r\<lparr>found_seg := mcb, found_seg_size := block_size\<rparr> else r)
                  else r\<lparr>found_seg := mcb, found_seg_size := block_size\<rparr>)
        in if GetType mcb s = ending_mcb_type then
             if mem_strat AND 0x80 \<noteq> 0 \<and> umb_start = umb_start_seg
             then allocate_loop blocks umb_start psp_name (mem_strat AND NOT 0xc0) (firstMCB s) r1 s
             else Some (allocate_found blocks mem_strat psp_name r1 s)
           else allocate_loop blocks umb_start psp_name mem_strat (mcb + GetSize mcb s + 1) r1 s)"

definition DOS_AllocateMemory :: "u16 \<Rightarrow> dos_mem \<Rightarrow> (dm_error + (alloc_result \<times> dos_mem)) option" where
  "DOS_AllocateMemory blocks s0 = and_then (DOS_CompressMemory s0) (\<lambda>s.
     let mem_strat = allocation_strategy s;
         umb_start = startOfUMBChain s;
         mcb_segment = (if umb_start = umb_start_seg \<and> mem_strat AND 0xc0 \<noteq> 0 then umb_start else firstMCB s);
         psp_name = GetFileName (dos_psp s - 1) s
     in map_option Inr (allocate_loop blocks umb_start psp_name mem_strat mcb_segment
          \<lparr>bigsize = 0, found_seg = 0, found_seg_size = 0\<rparr> s))"

section \<open>Resizing and freeing\<close>

text \<open>Success is \<open>Allocated segment\<close>.\<close>

definition resize_shrink :: "u16 \<Rightarrow> u16 \<Rightarrow> u16 \<Rightarrow> dos_mem \<Rightarrow> dos_mem" where
  "resize_shrink segment total_size blocks s0 =
     (let mcb = segment - 1; mcb_new_next = segment + blocks in seq_do
     [SetSize mcb blocks,
      \<lambda>s. SetType mcb_new_next (GetType mcb s) s,
      \<lambda>s. if GetType mcb s = ending_mcb_type then SetType mcb middle_mcb_type s else s,
      SetSize mcb_new_next (total_size - blocks - 1),
      SetPSPSeg mcb_new_next MCB_FREE,
      \<lambda>s. SetPSPSeg mcb (dos_psp s) s] s0)"

definition resize_grow :: "u16 \<Rightarrow> u16 \<Rightarrow> u16 \<Rightarrow> u16 \<Rightarrow> dos_mem \<Rightarrow> dos_mem" where
  "resize_grow segment mcb_next0 total_size blocks s0 =
     (let mcb = segment - 1; mcb_next = segment + blocks in seq_do
     [\<lambda>s. if GetType mcb s \<noteq> ending_mcb_type then SetType mcb (GetType mcb_next0 s) s else s,
      SetSize mcb blocks,
      SetSize mcb_next (total_size - blocks - 1),
      \<lambda>s. SetType mcb_next (GetType mcb s) s,
      SetPSPSeg mcb_next MCB_FREE,
      SetType mcb middle_mcb_type,
      \<lambda>s. SetPSPSeg mcb (dos_psp s) s] s0)"

definition resize_max :: "u16 \<Rightarrow> u16 \<Rightarrow> u16 \<Rightarrow> dos_mem \<Rightarrow> dos_mem" where
  "resize_max segment mcb_next total_size s0 = (let mcb = segment - 1 in seq_do
     [\<lambda>s. if GetPSPSeg mcb_next s = MCB_FREE \<and> GetType mcb s \<noteq> ending_mcb_type
          then SetType mcb (GetType mcb_next s) s else s,
      SetSize mcb total_size,
      \<lambda>s. SetPSPSeg mcb (dos_psp s) s] s0)"

text \<open>The part after the first compaction.\<close>

definition resize_block :: "u16 \<Rightarrow> u16 \<Rightarrow> dos_mem \<Rightarrow> (dm_error + (alloc_result \<times> dos_mem)) option" where
  "resize_block segment blocks s = (let mcb = segment - 1; total0 = GetSize mcb s; mcb_next = segment + total0 in
     if blocks \<le> total0 then
       if blocks = total0 then Some (Inr (Allocated segment, SetPSPSeg mcb (dos_psp s) s))
       else and_then (DOS_CompressMemory (resize_shrink segment total0 blocks s))
              (\<lambda>t. Some (Inr (Allocated segment, t)))
     else
       let total_size = (if GetType mcb s \<noteq> ending_mcb_type \<and> GetPSPSeg mcb_next s = MCB_FREE
                         then total0 + (GetSize mcb_next s + 1) else total0) in
       if blocks < total_size then
         and_then (DOS_CompressMemory (resize_grow segment mcb_next total_size blocks s))
           (\<lambda>t. Some (Inr (Allocated segment, t)))
       else
         let s1 = resize_max segment mcb_next total_size s in
         if blocks = total_size then Some (Inr (Allocated segment, SetPSPSeg mcb (dos_psp s1) s1))
         else Some (Inr (NoMemory total_size, DOS_SetError DOSERR_INSUFFICIENT_MEMORY s1)))"

definition DOS_ResizeMemory :: "u16 \<Rightarrow> u16 \<Rightarrow> dos_mem \<Rightarrow> (dm_error + (alloc_result \<times> dos_mem)) option" where
  "DOS_ResizeMemory segment blocks s0 =
     (if GetType (segment - 1) s0 \<noteq> middle_mcb_type \<and> GetType (segment - 1) s0 \<noteq> ending_mcb_type then
        Some (Inr (NoMemory blocks, DOS_SetError DOSERR_MCB_DESTROYED s0))
      else and_then (DOS_CompressMemory s0) (resize_block segment blocks))"

definition DOS_FreeMemory :: "u16 \<Rightarrow> dos_mem \<Rightarrow> bool \<times> dos_mem" where
  "DOS_FreeMemory segment s =
     (if segment < DOS_MEM_START + 1 then (False, DOS_SetError DOSERR_MB_ADDRESS_INVALID s)
      else let mcb = segment - 1 in
        if GetType mcb s \<noteq> middle_mcb_type \<and> GetType mcb s \<noteq> ending_mcb_type
        then (False, DOS_SetError DOSERR_MB_ADDRESS_INVALID s)
        else (True, SetPSPSeg mcb MCB_FREE s))"

section \<open>Upper memory and setup\<close>

partial_function (option) last_mcb :: "u16 \<Rightarrow> dos_mem \<Rightarrow> u16 option" where
  "last_mcb mcb s = (if GetType mcb s = ending_mcb_type then Some mcb
     else last_mcb (mcb + GetSize mcb s + 1) s)"

definition DOS_BuildUMBChain :: "bool \<Rightarrow> bool \<Rightarrow> dos_mem \<Rightarrow> dos_mem option" where
  "DOS_BuildUMBChain umb_active ems_active s0 =
     (if umb_active \<and> machine s0 = OtherMachine then
        let first_umb_seg = 0xd000;
            first_umb_size = (if ems_active then 0x1000 else 0x2000);
            s = seq_do
              [\<lambda>s. s\<lparr>startOfUMBChain := umb_start_seg\<rparr>, \<lambda>s. s\<lparr>chainingUMB := 0\<rparr>,
               SetPSPSeg first_umb_seg 0, SetSize first_umb_seg (first_umb_size - 1),
               SetType first_umb_seg ending_mcb_type] s0
        in case last_mcb (firstMCB s) s of
             None \<Rightarrow> None
           | Some seg \<Rightarrow> let cover_mcb = seg + GetSize seg s + 1 in Some (seq_do
               [SetType cover_mcb middle_mcb_type, SetPSPSeg cover_mcb 8,
                SetSize cover_mcb (first_umb_seg - cover_mcb - 1),
                SetFileName cover_mcb [0x53, 0x43, 0x20, 0x20, 0x20, 0x20, 0x20, 0x20]] s)
      else Some (s0\<lparr>startOfUMBChain := 0xffff, chainingUMB := 0\<rparr>))"

partial_function (option) find_umb :: "u16 \<Rightarrow> u16 \<Rightarrow> u16 \<Rightarrow> dos_mem \<Rightarrow> (u16 \<times> u16) option" where
  "find_umb umb_start mcb prev_mcb s =
     (if mcb \<noteq> umb_start \<and> GetType mcb s \<noteq> ending_mcb_type
      then find_umb umb_start (mcb + GetSize mcb s + 1) mcb s
      else Some (mcb, prev_mcb))"

definition DOS_LinkUMBsToMemChain :: "u16 \<Rightarrow> dos_mem \<Rightarrow> (bool \<times> dos_mem) option" where
  "DOS_LinkUMBsToMemChain linkstate s = (let umb_start = startOfUMBChain s in
     if umb_start \<noteq> umb_start_seg then Some (False, s)
     else if linkstate AND 1 = ucast (chainingUMB s) AND 1 then Some (True, s)
     else case find_umb umb_start (firstMCB s) (firstMCB s) s of
       None \<Rightarrow> None
     | Some (mcb, prev_mcb) \<Rightarrow>
         if linkstate = 0 then
           let s1 = (if GetType prev_mcb s = middle_mcb_type \<and> mcb = umb_start
                     then SetType prev_mcb ending_mcb_type s else s)
           in Some (True, s1\<lparr>chainingUMB := 0\<rparr>)
         else if linkstate = 1 then
           Some (True, if GetType mcb s = ending_mcb_type
                       then (SetType mcb middle_mcb_type s)\<lparr>chainingUMB := 1\<rparr> else s)
         else Some (False, s))"

definition kilobytes_to_segment :: "nat \<Rightarrow> u16" where
  "kilobytes_to_segment address_kb = of_nat ((address_kb * 1024) div 16)"

definition write_mcb :: "u16 \<Rightarrow> u16 \<Rightarrow> u16 \<Rightarrow> u8 \<Rightarrow> dos_mem \<Rightarrow> dos_mem" where
  "write_mcb seg psp sz t s = SetType seg t (SetSize seg sz (SetPSPSeg seg psp s))"

text \<open>The setting \<^verbatim>\<open>pcjr_memory_config\<close> is the argument: \<open>True\<close> for \<open>expanded\<close>.\<close>

definition DOS_SetupMemory :: "bool \<Rightarrow> dos_mem \<Rightarrow> dos_mem" where
  "DOS_SetupMemory expanded s0 = (let ihseg = 0x70; ihofs = 0xF4; start = DOS_MEM_START + 24;
     video_memory_start = kilobytes_to_segment (128 - 32);
     application_segment = video_memory_start + kilobytes_to_segment (32 + 16)
     in seq_do
     [\<lambda>s. s\<lparr>real_bytes := (real_bytes s)((ihseg, ihofs) := 0xCF)\<rparr>,
      \<lambda>s. s\<lparr>real_vectors := (real_vectors s)(1 := (ihseg, ihofs), 2 := (ihseg, ihofs),
             3 := (ihseg, ihofs), 4 := (ihseg, ihofs), 0x0f := (ihseg, ihofs))\<rparr>,
      write_mcb DOS_MEM_START MCB_DOS 1 middle_mcb_type,
      write_mcb (DOS_MEM_START + 2) MCB_FREE 4 middle_mcb_type,
      write_mcb (DOS_MEM_START + 7) 0x40 16 middle_mcb_type,
      \<lambda>s. (case machine s of
            Tandy \<Rightarrow> write_mcb start MCB_FREE (0x9BFF - DOS_MEM_START - 24) ending_mcb_type s
          | PCjr \<Rightarrow>
              if expanded then
                write_mcb application_segment MCB_FREE (umb_start_seg - application_segment - 1) ending_mcb_type
                  (write_mcb start MCB_DOS (application_segment - start - 1) middle_mcb_type s)
              else write_mcb start MCB_FREE (video_memory_start - start - 1) ending_mcb_type s
          | OtherMachine \<Rightarrow> write_mcb start MCB_FREE (0x9FFE - DOS_MEM_START - 24) ending_mcb_type s),
      \<lambda>s. s\<lparr>firstMCB := DOS_MEM_START, info_firstMCB := DOS_MEM_START\<rparr>] s0)"

end
