(* ===== verification/Dos_Chain.thy ===== *)
theory Dos_Chain
  imports Dos_Memory
begin

text \<open>
  What a well-formed chain of memory control blocks is: a list of abstract blocks that tile a range
  of segments, each block's header standing in its first paragraph, the last one marked as the end.
  The lemmas split a chain at a block, replace blocks in the middle of a chain and show that the
  compaction loop refines the merging of neighbouring free blocks.
\<close>

unbundle bit_operations_syntax

section \<open>Blocks and chains\<close>

datatype blk = Blk (owner: u16) (len: nat)

definition span :: "blk list \<Rightarrow> nat" where
  "span bs = (\<Sum>b\<leftarrow>bs. len b + 1)"

definition hdr :: "(u16 \<Rightarrow> DOS_MCB) \<Rightarrow> nat \<Rightarrow> u8 \<Rightarrow> blk \<Rightarrow> bool" where
  "hdr m a t b = (a + len b < 65536 \<and> mcb_type (m (of_nat a)) = t \<and>
     psp_segment (m (of_nat a)) = owner b \<and> mcb_size (m (of_nat a)) = of_nat (len b))"

text \<open>A run of blocks with others to follow, and a complete chain.\<close>

primrec mid :: "(u16 \<Rightarrow> DOS_MCB) \<Rightarrow> nat \<Rightarrow> blk list \<Rightarrow> bool" where
  "mid m a [] = True"
| "mid m a (b # bs) = (hdr m a middle_mcb_type b \<and> mid m (a + len b + 1) bs)"

fun chain :: "(u16 \<Rightarrow> DOS_MCB) \<Rightarrow> nat \<Rightarrow> blk list \<Rightarrow> bool" where
  "chain m a [] = False"
| "chain m a [b] = hdr m a ending_mcb_type b"
| "chain m a (b # c # bs) = (hdr m a middle_mcb_type b \<and> chain m (a + len b + 1) (c # bs))"

lemma span_simps [simp]:
  "span [] = 0" "span (b # bs) = len b + 1 + span bs" "span (xs @ ys) = span xs + span ys"
  by (simp_all add: span_def)

lemma types_differ [simp]: "middle_mcb_type \<noteq> ending_mcb_type" "ending_mcb_type \<noteq> middle_mcb_type"
  by (simp_all add: middle_mcb_type_def ending_mcb_type_def)

lemma seg_inj: "a < 65536 \<Longrightarrow> b < 65536 \<Longrightarrow> (of_nat a :: u16) = of_nat b \<longleftrightarrow> a = b"
  by (simp add: of_nat_inverse word_unat_eq_iff unat_of_nat)

lemma unat_seg [simp]: "a < 65536 \<Longrightarrow> unat (of_nat a :: u16) = a"
  by (simp add: unat_of_nat)

lemma seg_less: "a < 65536 \<Longrightarrow> b < 65536 \<Longrightarrow> (of_nat a :: u16) < of_nat b \<longleftrightarrow> a < b"
  by (simp add: word_less_nat_alt)

lemma chain_Cons:
  "bs \<noteq> [] \<Longrightarrow> chain m a (b # bs) = (hdr m a middle_mcb_type b \<and> chain m (a + len b + 1) bs)"
  by (cases bs) simp_all

lemma chain_nonempty [simp]: "chain m a bs \<Longrightarrow> bs \<noteq> []"
  by auto

lemma mid_append: "mid m a (xs @ ys) = (mid m a xs \<and> mid m (a + span xs) ys)"
  by (induction xs arbitrary: a) (simp_all add: add.assoc)

lemma chain_append: "ys \<noteq> [] \<Longrightarrow> chain m a (xs @ ys) = (mid m a xs \<and> chain m (a + span xs) ys)"
  by (induction xs arbitrary: a) (simp_all add: chain_Cons add.assoc)

lemma chain_bound: "chain m a bs \<Longrightarrow> a + span bs \<le> 65536"
  by (induction m a bs rule: chain.induct) (auto simp: hdr_def)

lemma mid_bound: "mid m a bs \<Longrightarrow> bs \<noteq> [] \<Longrightarrow> a + span bs \<le> 65536"
proof (induction bs arbitrary: a)
  case (Cons b bs)
  then show ?case using Cons.IH [of "a + len b + 1"] by (cases bs) (auto simp: hdr_def)
qed simp

lemma hdr_next: "hdr m a t b \<Longrightarrow> of_nat a + mcb_size (m (of_nat a)) + 1 = (of_nat (a + len b + 1) :: u16)"
  by (simp add: hdr_def)

lemma hdr_cong: "m' (of_nat a) = m (of_nat a) \<Longrightarrow> hdr m' a t b = hdr m a t b"
  by (simp add: hdr_def)

text \<open>The part of the store a chain depends on.\<close>

lemma mid_cong:
  assumes "\<And>x. a \<le> x \<Longrightarrow> x < a + span bs \<Longrightarrow> m' (of_nat x) = m (of_nat x)"
  shows "mid m' a bs = mid m a bs"
  using assms
proof (induction bs arbitrary: a)
  case (Cons b bs)
  have "hdr m' a middle_mcb_type b = hdr m a middle_mcb_type b" by (rule hdr_cong) (rule Cons.prems, simp_all)
  moreover have "mid m' (a + len b + 1) bs = mid m (a + len b + 1) bs"
    by (rule Cons.IH) (rule Cons.prems, simp_all)
  ultimately show ?case by simp
qed simp

lemma chain_cong:
  assumes "\<And>x. a \<le> x \<Longrightarrow> x < a + span bs \<Longrightarrow> m' (of_nat x) = m (of_nat x)"
  shows "chain m' a bs = chain m a bs"
proof (cases bs rule: rev_cases)
  case (snoc xs b)
  have "mid m' a xs = mid m a xs" by (rule mid_cong) (rule assms, simp_all add: snoc)
  moreover have "hdr m' (a + span xs) ending_mcb_type b = hdr m (a + span xs) ending_mcb_type b"
    by (rule hdr_cong) (rule assms, simp_all add: snoc)
  ultimately show ?thesis by (simp add: snoc chain_append)
qed simp

text \<open>Replacing a run of blocks by another of the same extent.\<close>

lemma chain_replace:
  assumes c: "chain m a (us @ cs @ vs)" and ne: "cs \<noteq> []" "news \<noteq> []" and sp: "span news = span cs"
    and frame: "\<And>x. x < 65536 \<Longrightarrow> x < a + span us \<or> a + span us + span cs \<le> x \<Longrightarrow> m' (of_nat x) = m (of_nat x)"
    and loc: "vs = [] \<Longrightarrow> chain m' (a + span us) news" "vs \<noteq> [] \<Longrightarrow> mid m' (a + span us) news"
  shows "chain m' a (us @ news @ vs)"
proof -
  have b: "a + span us + span cs + span vs \<le> 65536" using chain_bound [OF c] by simp
  have "mid m a us" using c ne by (simp add: chain_append)
  moreover have "mid m' a us = mid m a us" by (rule mid_cong) (rule frame, use b in auto)
  ultimately have u: "mid m' a us" by simp
  show ?thesis
  proof (cases "vs = []")
    case True
    then show ?thesis using u loc ne by (simp add: chain_append)
  next
    case False
    have "chain m (a + span us + span cs) vs" using c ne False by (simp add: chain_append)
    moreover have "chain m' (a + span us + span cs) vs = chain m (a + span us + span cs) vs"
      by (rule chain_cong) (rule frame, use b in auto)
    ultimately show ?thesis using u loc ne False sp by (simp add: chain_append)
  qed
qed

section \<open>Compaction\<close>

text \<open>The abstract compaction: neighbouring free blocks become one, their headers included.\<close>

fun merge_free :: "blk list \<Rightarrow> blk list" where
  "merge_free [] = []"
| "merge_free [b] = [b]"
| "merge_free (a # b # bs) = (if owner a = MCB_FREE \<and> owner b = MCB_FREE
     then merge_free (Blk MCB_FREE (len a + len b + 1) # bs) else a # merge_free (b # bs))"

lemma merge_free_span [simp]: "span (merge_free bs) = span bs"
  by (induction bs rule: merge_free.induct) simp_all

lemma merge_free_nonempty [simp]: "merge_free bs = [] \<longleftrightarrow> bs = []"
  by (induction bs rule: merge_free.induct) simp_all

lemma merge_free_hd: "bs \<noteq> [] \<Longrightarrow> owner (hd (merge_free bs)) = owner (hd bs)"
  by (induction bs rule: merge_free.induct) simp_all

lemma merge_free_hd_owned: "bs \<noteq> [] \<Longrightarrow> owner (hd bs) \<noteq> MCB_FREE \<Longrightarrow> hd (merge_free bs) = hd bs"
  by (cases bs rule: merge_free.cases) simp_all

lemma merge_free_append:
  "ys \<noteq> [] \<Longrightarrow> owner (hd ys) \<noteq> MCB_FREE \<Longrightarrow> merge_free (xs @ ys) = merge_free xs @ merge_free ys"
proof (induction xs rule: merge_free.induct)
  case (2 b)
  then show ?case by (cases ys) simp_all
qed simp_all

text \<open>No two neighbouring free blocks remain, and the owned blocks stay where they are.\<close>

fun no_free_pair :: "blk list \<Rightarrow> bool" where
  "no_free_pair (a # b # bs) = (\<not> (owner a = MCB_FREE \<and> owner b = MCB_FREE) \<and> no_free_pair (b # bs))"
| "no_free_pair _ = True"

lemma merge_free_no_pair: "no_free_pair (merge_free bs)"
proof (induction bs rule: merge_free.induct)
  case (3 a b bs)
  show ?case
  proof (cases "owner a = MCB_FREE \<and> owner b = MCB_FREE")
    case False
    obtain c cs where m: "merge_free (b # bs) = c # cs" by (cases "merge_free (b # bs)") simp_all
    then have "owner c = owner b" using merge_free_hd [of "b # bs"] by simp
    then show ?thesis using 3 False m by auto
  qed (use 3 in simp)
qed simp_all

primrec locs :: "nat \<Rightarrow> blk list \<Rightarrow> (nat \<times> blk) list" where
  "locs a [] = []"
| "locs a (b # bs) = (a, b) # locs (a + len b + 1) bs"

definition owned :: "nat \<Rightarrow> blk list \<Rightarrow> (nat \<times> blk) list" where
  "owned a bs = filter (\<lambda>(x, b). owner b \<noteq> MCB_FREE) (locs a bs)"

lemma locs_append [simp]: "locs a (xs @ ys) = locs a xs @ locs (a + span xs) ys"
  by (induction xs arbitrary: a) (simp_all add: add.assoc)

lemma merge_free_owned: "owned a (merge_free bs) = owned a bs"
  by (induction bs arbitrary: a rule: merge_free.induct) (simp_all add: owned_def add.assoc add.left_commute)

lemma merge_free_idem: "no_free_pair bs \<Longrightarrow> merge_free bs = bs"
  by (induction bs rule: merge_free.induct) auto

lemmas mcb_access = GetType_def GetSize_def GetPSPSeg_def GetFileName_def
  SetType_def SetSize_def SetPSPSeg_def SetFileName_def

lemma triage_valid:
  "GetType x s = middle_mcb_type \<or> GetType x s = ending_mcb_type \<Longrightarrow> triage_block x t s = Inr (0, s)"
  by (auto simp: triage_block_def)

lemma chain_type: "chain m a bs \<Longrightarrow> mcb_type (m (of_nat a)) = (if length bs = 1 then ending_mcb_type else middle_mcb_type)"
  by (induction m a bs rule: chain.induct) (auto simp: hdr_def)

text \<open>One merge: the first of two free headers takes over the second.\<close>

lemma chain_merge_two:
  assumes c: "chain m a (b # c # bs)" and free: "owner b = MCB_FREE" "owner c = MCB_FREE"
    and n: "n = of_nat (a + len b + 1)"
    and m': "m' = m(of_nat a := (m (of_nat a))\<lparr>mcb_size := mcb_size (m (of_nat a)) + mcb_size (m n) + 1,
        mcb_type := mcb_type (m n)\<rparr>)"
  shows "chain m' a (Blk MCB_FREE (len b + len c + 1) # bs)"
proof -
  have bd: "a + len b + 1 + len c + 1 + span bs \<le> 65536" using chain_bound [OF c] by simp
  have hb: "hdr m a middle_mcb_type b" and cc: "chain m (a + len b + 1) (c # bs)" using c by simp_all
  have hc: "hdr m (a + len b + 1) (if bs = [] then ending_mcb_type else middle_mcb_type) c"
    using cc by (cases bs) simp_all
  have h: "hdr m' a (if bs = [] then ending_mcb_type else middle_mcb_type) (Blk MCB_FREE (len b + len c + 1))"
    using hb hc free bd by (simp add: hdr_def m' n add.commute add.left_commute)
  show ?thesis
  proof (cases "bs = []")
    case False
    have "chain m (a + len b + 1 + len c + 1) bs" using cc False by (simp add: chain_Cons)
    moreover have "chain m' (a + len b + 1 + len c + 1) bs = chain m (a + len b + 1 + len c + 1) bs"
      by (rule chain_cong) (use bd in \<open>simp add: m' seg_inj\<close>)
    ultimately show ?thesis using h False by (simp add: chain_Cons add.assoc)
  qed (use h in simp)
qed

text \<open>
  The loop of \<^verbatim>\<open>DOS_CompressMemory\<close> on a well-formed chain: it returns, merges the free blocks, and
  outside the free headers the store is what it was.
\<close>

definition keeps_owned :: "(u16 \<Rightarrow> DOS_MCB) \<Rightarrow> (u16 \<Rightarrow> DOS_MCB) \<Rightarrow> bool" where
  "keeps_owned m m' = (\<forall>x. psp_segment (m' x) = psp_segment (m x) \<and> filename (m' x) = filename (m x) \<and>
     (psp_segment (m x) \<noteq> MCB_FREE \<longrightarrow> m' x = m x))"

lemma keeps_owned_trans: "keeps_owned m m' \<Longrightarrow> keeps_owned m' m'' \<Longrightarrow> keeps_owned m m''"
  unfolding keeps_owned_def by metis

lemma compress_loop_chain:
  assumes "chain (mcbs s) a bs" "f < max_allowed_faults"
  shows "\<exists>m. compress_loop (of_nat a) f s = Some (Inr (s\<lparr>mcbs := m\<rparr>)) \<and> chain m a (merge_free bs) \<and>
    keeps_owned (mcbs s) m \<and> (\<forall>x<65536. x < a \<or> a + span bs \<le> x \<longrightarrow> m (of_nat x) = mcbs s (of_nat x))"
  using assms(1)
proof (induction bs arbitrary: a s rule: merge_free.induct)
  case (2 b)
  have "compress_loop (of_nat a) f s = Some (Inr s)"
    using 2 by (simp add: compress_loop.simps GetType_def hdr_def)
  then show ?case using 2 by (intro exI [of _ "mcbs s"]) (simp add: keeps_owned_def)
next
  case (3 b c bs)
  let ?m = "mcbs s"
  let ?n = "of_nat (a + len b + 1) :: u16"
  have hb: "hdr ?m a middle_mcb_type b" and cc: "chain ?m (a + len b + 1) (c # bs)" using "3.prems" by simp_all
  have bd: "a + len b + 1 + len c + 1 + span bs \<le> 65536" using chain_bound [OF "3.prems"] by simp
  have nx: "of_nat a + GetSize (of_nat a) s + 1 = ?n" using hb by (simp add: GetSize_def hdr_def)
  have tb: "GetType (of_nat a) s = middle_mcb_type" using hb by (simp add: GetType_def hdr_def)
  have tc: "GetType ?n s = middle_mcb_type \<or> GetType ?n s = ending_mcb_type"
    using chain_type [OF cc] by (auto simp: GetType_def)
  have oc: "GetPSPSeg (of_nat a) s = owner b" "GetPSPSeg ?n s = owner c"
    using hb cc by (cases bs; simp add: GetPSPSeg_def hdr_def)+
  show ?case
  proof (cases "owner b = MCB_FREE \<and> owner c = MCB_FREE")
    case True
    define m1 where "m1 = ?m(of_nat a := (?m (of_nat a))\<lparr>mcb_size := mcb_size (?m (of_nat a)) + mcb_size (?m ?n) + 1,
        mcb_type := mcb_type (?m ?n)\<rparr>)"
    have "(of_nat a :: u16) \<noteq> ?n" using bd by (subst seg_inj) simp_all
    then have step: "compress_loop (of_nat a) f s = compress_loop (of_nat a) f (s\<lparr>mcbs := m1\<rparr>)"
      by (subst compress_loop.simps)
        (simp only: tb nx oc True Let_def triage_valid [OF tc], use assms(2) in \<open>simp add: mcb_access m1_def True\<close>)
    have c1: "chain m1 a (Blk MCB_FREE (len b + len c + 1) # bs)"
      by (rule chain_merge_two [OF "3.prems"]) (simp_all add: True m1_def)
    obtain m where m: "compress_loop (of_nat a) f (s\<lparr>mcbs := m1\<rparr>) = Some (Inr (s\<lparr>mcbs := m\<rparr>))"
      "chain m a (merge_free (b # c # bs))" "keeps_owned m1 m"
      "\<forall>x<65536. x < a \<or> a + span (b # c # bs) \<le> x \<longrightarrow> m (of_nat x) = m1 (of_nat x)"
      using "3.IH"(1) [OF True, of "s\<lparr>mcbs := m1\<rparr>" a] c1 True by (auto simp: add.assoc)
    have "keeps_owned ?m m1" using oc True by (auto simp: keeps_owned_def m1_def GetPSPSeg_def)
    then have k: "keeps_owned ?m m" using m(3) by (rule keeps_owned_trans)
    have "m1 (of_nat x) = ?m (of_nat x)" if "x < 65536" "x < a \<or> a + span (b # c # bs) \<le> x" for x
      using that bd by (auto simp: m1_def seg_inj)
    then show ?thesis using m k step by (intro exI [of _ m]) auto
  next
    case False
    have step: "compress_loop (of_nat a) f s = compress_loop ?n f s"
      by (subst compress_loop.simps) (simp only: tb nx oc Let_def if_not_P [OF False] types_differ assms(2) simp_thms if_True)
    obtain m where m: "compress_loop ?n f s = Some (Inr (s\<lparr>mcbs := m\<rparr>))"
      "chain m (a + len b + 1) (merge_free (c # bs))" "keeps_owned ?m m"
      "\<forall>x<65536. x < a + len b + 1 \<or> a + len b + 1 + span (c # bs) \<le> x \<longrightarrow> m (of_nat x) = ?m (of_nat x)"
      using "3.IH"(2) [OF False cc] by auto
    have "hdr m a middle_mcb_type b" using m(4) hb bd by (subst hdr_cong [where m = ?m]) auto
    then have "chain m a (merge_free (b # c # bs))"
      using m(2) False by (auto simp: chain_Cons)
    then show ?thesis using m step by (intro exI [of _ m]) auto
  qed
qed simp

end
