(* ===== verification/Dos_Alloc.thy ===== *)
theory Dos_Alloc
  imports Dos_Chain
begin

text \<open>
  The search of \<^verbatim>\<open>DOS_AllocateMemory\<close>. The loop visits a list of located blocks (one chain, or the
  upper memory chain and then the conventional one) and refines a choice on that list: the first
  block that fits, the smallest, or the last, and the largest free block when none does.
\<close>

unbundle bit_operations_syntax

section \<open>The abstract choice\<close>

definition fits :: "nat \<Rightarrow> blk \<Rightarrow> bool" where
  "fits n b = (owner b = MCB_FREE \<and> n \<le> len b)"

definition pick :: "u16 \<Rightarrow> nat \<Rightarrow> (nat \<times> blk) list \<Rightarrow> blk \<Rightarrow> (nat \<times> blk) list \<Rightarrow> bool" where
  "pick k n us b vs = (if k = 0 then \<forall>c\<in>set us. \<not> fits n (snd c)
     else if k = 1 then (\<forall>c\<in>set us. fits n (snd c) \<longrightarrow> len b < len (snd c)) \<and>
                        (\<forall>c\<in>set vs. fits n (snd c) \<longrightarrow> len b \<le> len (snd c))
     else \<forall>c\<in>set vs. \<not> fits n (snd c))"

definition chosen :: "nat \<Rightarrow> u16 \<Rightarrow> (nat \<times> blk) list \<Rightarrow> nat \<Rightarrow> blk \<Rightarrow> bool" where
  "chosen n k vis x b = (\<exists>us vs. vis = us @ (x, b) # vs \<and> fits n b \<and> pick k n us b vs)"

definition big :: "nat \<Rightarrow> (nat \<times> blk) list \<Rightarrow> nat" where
  "big n vis = fold (\<lambda>c g. if owner (snd c) = MCB_FREE \<and> len (snd c) < n then max g (len (snd c)) else g) vis 0"

definition place :: "nat \<Rightarrow> u16 \<Rightarrow> u8 list \<Rightarrow> nat \<Rightarrow> blk \<Rightarrow> dos_mem \<Rightarrow> alloc_result \<times> dos_mem" where
  "place n k name x b s = (let seg = of_nat x; size = of_nat (len b); blocks = of_nat n in
     if k < 2 then (Allocated (seg + 1),
       if len b = n then SetPSPSeg seg (dos_psp s) s else take_front seg size blocks name s)
     else if len b = n then (Allocated (seg + 1), SetFileName seg name (SetPSPSeg seg (dos_psp s) s))
     else (Allocated (seg + 1 + size - blocks), take_back seg size blocks name s))"

definition outcome :: "nat \<Rightarrow> u16 \<Rightarrow> u8 list \<Rightarrow> dos_mem \<Rightarrow> (nat \<times> blk) list \<Rightarrow> alloc_result \<times> dos_mem \<Rightarrow> bool" where
  "outcome n k name s vis res = (if \<exists>c\<in>set vis. fits n (snd c)
     then \<exists>x b. chosen n k vis x b \<and> res = place n k name x b s
     else res = (NoMemory (of_nat (big n vis)), DOS_SetError DOSERR_INSUFFICIENT_MEMORY s))"

section \<open>The accumulators\<close>

definition acc :: "nat \<Rightarrow> u16 \<Rightarrow> (nat \<times> blk) list \<Rightarrow> search \<Rightarrow> bool" where
  "acc n k vis r = (bigsize r = of_nat (big n vis) \<and> big n vis < 65536 \<and>
     (\<forall>c\<in>set vis. 0 < fst c \<and> fst c + len (snd c) < 65536) \<and>
     ((\<forall>c\<in>set vis. \<not> fits n (snd c)) \<and> found_seg r = 0 \<and> found_seg_size r = 0 \<or>
      k \<noteq> 0 \<and> (\<exists>x b. chosen n k vis x b \<and> found_seg r = of_nat x \<and> found_seg_size r = of_nat (len b) \<and>
        (k = 1 \<longrightarrow> len b \<noteq> n))))"

lemma big_snoc: "big n (vis @ [c]) = (if owner (snd c) = MCB_FREE \<and> len (snd c) < n
    then max (big n vis) (len (snd c)) else big n vis)"
  by (simp add: big_def)

lemma chosen_fits: "chosen n k vis x b \<Longrightarrow> fits n b \<and> (x, b) \<in> set vis"
  by (auto simp: chosen_def)

lemma strat_classes: "(k::u16) < 2 \<longleftrightarrow> k = 0 \<or> k = 1"
proof -
  have "k < 2 \<longleftrightarrow> unat k = 0 \<or> unat k = 1" by (auto simp: word_less_nat_alt)
  then show ?thesis by (simp add: word_unat_eq_iff)
qed

lemma chosen_snoc_skip:
  assumes "chosen n k vis x b" and "\<not> fits n c \<or> k = 0 \<or> k = 1 \<and> len b \<le> len c"
  shows "chosen n k (vis @ [(y, c)]) x b"
  using assms unfolding chosen_def pick_def by (fastforce split: if_splits)

lemma chosen_snoc_new:
  assumes "fits n c" and "(\<forall>d\<in>set vis. \<not> fits n (snd d)) \<or> k \<noteq> 0 \<and> k \<noteq> 1 \<or>
    k = 1 \<and> (\<exists>x b. chosen n k vis x b \<and> len c < len b)"
  shows "chosen n k (vis @ [(y, c)]) y c"
proof -
  have "pick k n vis c []"
    using assms(2) unfolding pick_def chosen_def by (force split: if_splits)
  then show ?thesis using assms(1) unfolding chosen_def by blast
qed

text \<open>How one block changes the accumulators, when it does not end the search.\<close>

definition scan_block :: "u16 \<Rightarrow> u16 \<Rightarrow> u16 \<Rightarrow> u16 \<Rightarrow> bool \<Rightarrow> search \<Rightarrow> search" where
  "scan_block blocks k mcb block_size free r = (if \<not> free then r
     else if block_size < blocks then
       (if bigsize r < block_size then r\<lparr>bigsize := block_size\<rparr> else r)
     else if k = 1 then
       (if found_seg_size r = 0 \<or> block_size < found_seg_size r
        then r\<lparr>found_seg := mcb, found_seg_size := block_size\<rparr> else r)
     else r\<lparr>found_seg := mcb, found_seg_size := block_size\<rparr>)"

lemma allocate_loop_unfold:
  "allocate_loop blocks umb name strat mcb r s =
     (let size = GetSize mcb s; free = (GetPSPSeg mcb s = MCB_FREE); k = strat AND 0x3f in
      if free \<and> \<not> size < blocks \<and> size = blocks \<and> k < 2 then
        Some (Allocated (mcb + 1), SetPSPSeg mcb (dos_psp s) s)
      else if free \<and> \<not> size < blocks \<and> k = 0 then
        Some (Allocated (mcb + 1), take_front mcb size blocks name s)
      else let r1 = scan_block blocks k mcb size free r in
        if GetType mcb s = ending_mcb_type then
          if strat AND 0x80 \<noteq> 0 \<and> umb = umb_start_seg
          then allocate_loop blocks umb name (strat AND NOT 0xc0) (firstMCB s) r1 s
          else Some (allocate_found blocks strat name r1 s)
        else allocate_loop blocks umb name strat (mcb + GetSize mcb s + 1) r1 s)"
  unfolding scan_block_def by (subst allocate_loop.simps) (simp only: Let_def)

lemma acc_small:
  assumes a: "acc n k vis r" and b: "0 < x" "x + len b < 65536" "n < 65536" "\<not> fits n b"
  shows "acc n k (vis @ [(x, b)]) (scan_block (of_nat n) k (of_nat x) (of_nat (len b)) (owner b = MCB_FREE) r)"
proof -
  let ?r = "scan_block (of_nat n) k (of_nat x) (of_nat (len b)) (owner b = MCB_FREE) r"
  have bg: "big n vis < 65536" "bigsize r = of_nat (big n vis)" using a by (simp_all add: acc_def)
  have lt: "(of_nat (len b) :: u16) < of_nat n \<longleftrightarrow> len b < n" using b by (simp add: seg_less)
  have lg: "(of_nat (big n vis) :: u16) < of_nat (len b) \<longleftrightarrow> big n vis < len b" using b bg by (simp add: seg_less)
  have keep: "found_seg ?r = found_seg r" "found_seg_size ?r = found_seg_size r"
    using b(4) lt by (auto simp: scan_block_def fits_def)
  have "bigsize ?r = of_nat (big n (vis @ [(x, b)]))" "big n (vis @ [(x, b)]) < 65536"
    using b lt lg bg by (auto simp: scan_block_def fits_def big_snoc max_def)
  moreover have "\<forall>c\<in>set (vis @ [(x, b)]). 0 < fst c \<and> fst c + len (snd c) < 65536" using a b by (auto simp: acc_def)
  moreover have "(\<forall>c\<in>set (vis @ [(x, b)]). \<not> fits n (snd c)) \<and> found_seg r = 0 \<and> found_seg_size r = 0 \<or>
      k \<noteq> 0 \<and> (\<exists>y c. chosen n k (vis @ [(x, b)]) y c \<and> found_seg r = of_nat y \<and> found_seg_size r = of_nat (len c) \<and>
        (k = 1 \<longrightarrow> len c \<noteq> n))"
    using a b(4) chosen_snoc_skip [where c = b and y = x] unfolding acc_def by fastforce
  ultimately show ?thesis unfolding acc_def keep by blast
qed

lemma acc_fit:
  assumes a: "acc n k vis r" and b: "0 < x" "x + len b < 65536" "n < 65536" "fits n b"
    and k: "k \<noteq> 0" "k = 1 \<longrightarrow> len b \<noteq> n"
  shows "acc n k (vis @ [(x, b)]) (scan_block (of_nat n) k (of_nat x) (of_nat (len b)) (owner b = MCB_FREE) r)"
proof -
  let ?r = "scan_block (of_nat n) k (of_nat x) (of_nat (len b)) (owner b = MCB_FREE) r"
  have nl: "\<not> (of_nat (len b) :: u16) < of_nat n" and fr: "owner b = MCB_FREE"
    using b by (simp_all add: seg_less fits_def)
  have bg: "bigsize ?r = of_nat (big n (vis @ [(x, b)]))" "big n (vis @ [(x, b)]) < 65536"
    using a b(4) nl fr by (auto simp: scan_block_def big_snoc acc_def fits_def)
  have al: "\<forall>c\<in>set (vis @ [(x, b)]). 0 < fst c \<and> fst c + len (snd c) < 65536" using a b by (auto simp: acc_def)
  have new: "\<exists>y c. chosen n k (vis @ [(x, b)]) y c \<and> found_seg ?r = of_nat y \<and> found_seg_size ?r = of_nat (len c) \<and>
        (k = 1 \<longrightarrow> len c \<noteq> n)"
    if "chosen n k (vis @ [(x, b)]) x b" "found_seg ?r = of_nat x" "found_seg_size ?r = of_nat (len b)"
    using that k by blast
  consider (none) "\<forall>c\<in>set vis. \<not> fits n (snd c)" "found_seg_size r = 0" | (some) y c where
      "chosen n k vis y c" "found_seg r = of_nat y" "found_seg_size r = of_nat (len c)" "k = 1 \<longrightarrow> len c \<noteq> n"
    using a by (auto simp: acc_def)
  then have "\<exists>y c. chosen n k (vis @ [(x, b)]) y c \<and> found_seg ?r = of_nat y \<and> found_seg_size ?r = of_nat (len c) \<and>
        (k = 1 \<longrightarrow> len c \<noteq> n)"
  proof cases
    case none
    show ?thesis by (rule new, rule chosen_snoc_new) (use none b nl fr k in \<open>auto simp: scan_block_def\<close>)
  next
    case some
    have c: "len c < 65536" "fits n c" using chosen_fits [OF some(1)] a by (auto simp: acc_def)
    then have z: "(of_nat (len c) :: u16) \<noteq> 0" if "k = 1"
      using that some(4) seg_inj [of "len c" 0] by (auto simp: fits_def)
    have lt: "(of_nat (len b) :: u16) < of_nat (len c) \<longleftrightarrow> len b < len c" using b c by (simp add: seg_less)
    show ?thesis
    proof (cases "k = 1 \<and> \<not> len b < len c")
      case True
      then have "?r = r" using some z nl fr lt by (simp add: scan_block_def)
      then show ?thesis using chosen_snoc_skip [OF some(1), of b x] True some by auto
    next
      case False
      show ?thesis by (rule new, rule chosen_snoc_new) (use False some b nl fr k lt in \<open>auto simp: scan_block_def\<close>)
    qed
  qed
  then show ?thesis unfolding acc_def using bg al k(1) by blast
qed

lemma early_chosen:
  assumes a: "acc n k vis r" and f: "fits n b" and k: "k = 0 \<or> k = 1 \<and> len b = n"
  shows "chosen n k (vis @ (x, b) # rest) x b"
proof -
  have "pick k n vis b rest"
  proof (cases "k = 0")
    case True
    then show ?thesis using a by (auto simp: pick_def acc_def)
  next
    case False
    then have k1: "k = 1" "len b = n" using k by simp_all
    have "len b < len (snd d)" if d: "d \<in> set vis" "fits n (snd d)" for d
    proof -
      obtain y c where c: "chosen n k vis y c" "len c \<noteq> n" using a k1(1) d unfolding acc_def by blast
      then obtain us vs where "vis = us @ (y, c) # vs" "fits n c" "pick k n us c vs" by (auto simp: chosen_def)
      then have "len c \<le> len (snd d)" using d k1 by (auto simp: pick_def)
      then show ?thesis using c k1 \<open>fits n c\<close> by (auto simp: fits_def)
    qed
    then show ?thesis using k1 by (auto simp: pick_def fits_def)
  qed
  then show ?thesis using f by (auto simp: chosen_def)
qed

section \<open>The loop\<close>

lemma place_early:
  assumes "k = 0 \<or> k = 1 \<and> len b = n"
  shows "place n k name x b s = (Allocated (of_nat x + 1), if len b = n then SetPSPSeg (of_nat x) (dos_psp s) s
     else take_front (of_nat x) (of_nat (len b)) (of_nat n) name s)"
  using assms by (auto simp: place_def Let_def strat_classes)

lemma alloc_step:
  assumes h: "hdr (mcbs s) a t b" and a: "acc n k vis r" and "0 < a" "n < 65536" and k: "k = strat AND 0x3f"
  shows "(allocate_loop (of_nat n) umb name strat (of_nat a) r s = Some (place n k name a b s) \<and>
      fits n b \<and> (\<forall>rest. chosen n k (vis @ (a, b) # rest) a b)) \<or>
    (\<exists>r1. acc n k (vis @ [(a, b)]) r1 \<and> allocate_loop (of_nat n) umb name strat (of_nat a) r s =
      (if t = ending_mcb_type then
         if strat AND 0x80 \<noteq> 0 \<and> umb = umb_start_seg
         then allocate_loop (of_nat n) umb name (strat AND NOT 0xc0) (firstMCB s) r1 s
         else Some (allocate_found (of_nat n) strat name r1 s)
       else allocate_loop (of_nat n) umb name strat (of_nat (a + len b + 1)) r1 s))"
proof -
  have bd: "a + len b < 65536" using h by (simp add: hdr_def)
  have rd: "GetSize (of_nat a) s = of_nat (len b)" "GetPSPSeg (of_nat a) s = owner b" "GetType (of_nat a) s = t"
    using h by (simp_all add: hdr_def mcb_access)
  have lt: "(of_nat (len b) :: u16) < of_nat n \<longleftrightarrow> len b < n" "(of_nat (len b) :: u16) = of_nat n \<longleftrightarrow> len b = n"
    using bd assms(4) by (simp_all add: seg_less seg_inj)
  note un = allocate_loop_unfold [of "of_nat n" umb name strat "of_nat a" r s, unfolded rd k [symmetric] Let_def lt]
  have nx: "of_nat a + of_nat (len b) + 1 = (of_nat (a + len b + 1) :: u16)" by simp
  show ?thesis
  proof (cases "fits n b \<and> (k = 0 \<or> k = 1 \<and> len b = n)")
    case True
    then have e: "allocate_loop (of_nat n) umb name strat (of_nat a) r s = Some (place n k name a b s)"
      by (subst un) (auto simp: place_early fits_def strat_classes)
    show ?thesis using True e early_chosen [OF a] by blast
  next
    case False
    let ?r = "scan_block (of_nat n) k (of_nat a) (of_nat (len b)) (owner b = MCB_FREE) r"
    have "acc n k (vis @ [(a, b)]) ?r"
      using acc_small [OF a] acc_fit [OF a] False assms(3,4) bd by blast
    moreover have c1: "(owner b = MCB_FREE \<and> \<not> len b < n \<and> len b = n \<and> k < 2) = False"
      and c2: "(owner b = MCB_FREE \<and> \<not> len b < n \<and> k = 0) = False"
      using False by (auto simp: fits_def strat_classes)
    have "allocate_loop (of_nat n) umb name strat (of_nat a) r s =
      (if t = ending_mcb_type then
         if strat AND 0x80 \<noteq> 0 \<and> umb = umb_start_seg
         then allocate_loop (of_nat n) umb name (strat AND NOT 0xc0) (firstMCB s) ?r s
         else Some (allocate_found (of_nat n) strat name ?r s)
       else allocate_loop (of_nat n) umb name strat (of_nat (a + len b + 1)) ?r s)"
      by (subst un) (simp only: c1 c2 if_False nx)
    ultimately show ?thesis by blast
  qed
qed

lemma acc_found:
  assumes a: "acc n k vis r" and k: "k = strat AND 0x3f" and n: "n < 65536"
  shows "outcome n k name s vis (allocate_found (of_nat n) strat name r s)"
proof -
  consider (none) "\<forall>c\<in>set vis. \<not> fits n (snd c)" "found_seg r = 0" | (some) x b where "k \<noteq> 0"
      "chosen n k vis x b" "found_seg r = of_nat x" "found_seg_size r = of_nat (len b)" "k = 1 \<longrightarrow> len b \<noteq> n"
    using a by (auto simp: acc_def)
  then show ?thesis
  proof cases
    case none
    then show ?thesis using a by (auto simp: outcome_def allocate_found_def acc_def)
  next
    case some
    have xb: "0 < x" "x + len b < 65536" "fits n b" "(x, b) \<in> set vis" using chosen_fits [OF some(2)] a by (auto simp: acc_def)
    then have nz: "(of_nat x :: u16) \<noteq> 0" using seg_inj [of x 0] by simp
    have e: "(of_nat (len b) :: u16) = of_nat n \<longleftrightarrow> len b = n" using xb n by (simp add: seg_inj)
    have "allocate_found (of_nat n) strat name r s = place n k name x b s"
      using some nz e unfolding allocate_found_def place_def k [symmetric] Let_def by (auto simp: strat_classes)
    moreover have "\<exists>c\<in>set vis. fits n (snd c)" using xb by force
    ultimately show ?thesis using some(2) unfolding outcome_def by auto
  qed
qed

lemma outcome_early:
  assumes "fits n b" "chosen n k (vis @ (a, b) # rest) a b"
  shows "outcome n k name s (vis @ (a, b) # rest) (place n k name a b s)"
  using assms unfolding outcome_def by auto

text \<open>One chain: either the search ends in it, or it goes on from its last block.\<close>

lemma alloc_loop_chain:
  assumes "chain (mcbs s) a bs" "acc n k vis r" "0 < a" "n < 65536" "k = strat AND 0x3f"
  shows "(\<exists>res. allocate_loop (of_nat n) umb name strat (of_nat a) r s = Some res \<and>
      (\<forall>rest. outcome n k name s (vis @ locs a bs @ rest) res)) \<or>
    (\<exists>r1. acc n k (vis @ locs a bs) r1 \<and> allocate_loop (of_nat n) umb name strat (of_nat a) r s =
         (if strat AND 0x80 \<noteq> 0 \<and> umb = umb_start_seg
          then allocate_loop (of_nat n) umb name (strat AND NOT 0xc0) (firstMCB s) r1 s
          else Some (allocate_found (of_nat n) strat name r1 s)))"
  using assms(1,2,3)
proof (induction bs arbitrary: a vis r)
  case (Cons b bs)
  let ?t = "if bs = [] then ending_mcb_type else middle_mcb_type"
  have h: "hdr (mcbs s) a ?t b" using Cons.prems(1) by (cases bs) simp_all
  note st = alloc_step [OF h Cons.prems(2,3) assms(4,5), of umb name]
  then show ?case
  proof
    assume e: "allocate_loop (of_nat n) umb name strat (of_nat a) r s = Some (place n k name a b s) \<and>
      fits n b \<and> (\<forall>rest. chosen n k (vis @ (a, b) # rest) a b)"
    then have "outcome n k name s (vis @ locs a (b # bs) @ rest) (place n k name a b s)" for rest
      using outcome_early [of n b k vis a "locs (a + len b + 1) bs @ rest"] by simp
    then show ?thesis using e by blast
  next
    assume "\<exists>r1. acc n k (vis @ [(a, b)]) r1 \<and> allocate_loop (of_nat n) umb name strat (of_nat a) r s =
      (if ?t = ending_mcb_type then
         if strat AND 0x80 \<noteq> 0 \<and> umb = umb_start_seg
         then allocate_loop (of_nat n) umb name (strat AND NOT 0xc0) (firstMCB s) r1 s
         else Some (allocate_found (of_nat n) strat name r1 s)
       else allocate_loop (of_nat n) umb name strat (of_nat (a + len b + 1)) r1 s)"
    then obtain r1 where r1: "acc n k (vis @ [(a, b)]) r1" "allocate_loop (of_nat n) umb name strat (of_nat a) r s =
      (if ?t = ending_mcb_type then
         if strat AND 0x80 \<noteq> 0 \<and> umb = umb_start_seg
         then allocate_loop (of_nat n) umb name (strat AND NOT 0xc0) (firstMCB s) r1 s
         else Some (allocate_found (of_nat n) strat name r1 s)
       else allocate_loop (of_nat n) umb name strat (of_nat (a + len b + 1)) r1 s)" by blast
    show ?thesis
    proof (cases "bs = []")
      case True
      then show ?thesis using r1 by auto
    next
      case False
      then have "chain (mcbs s) (a + len b + 1) bs" using Cons.prems(1) by (simp add: chain_Cons)
      from Cons.IH [OF this r1(1)] show ?thesis using r1(2) False by simp
    qed
  qed
qed simp

text \<open>A single pass, and the two passes of a search that starts in upper memory.\<close>

lemma alloc_single:
  assumes "chain (mcbs s) a bs" "acc n k vis r" "0 < a" "n < 65536" "k = strat AND 0x3f"
    and "\<not> (strat AND 0x80 \<noteq> 0 \<and> umb = umb_start_seg)"
  shows "\<exists>res. allocate_loop (of_nat n) umb name strat (of_nat a) r s = Some res \<and>
    outcome n k name s (vis @ locs a bs) res"
  using alloc_loop_chain [OF assms(1-5), of umb name]
proof
  assume "\<exists>res. allocate_loop (of_nat n) umb name strat (of_nat a) r s = Some res \<and>
      (\<forall>rest. outcome n k name s (vis @ locs a bs @ rest) res)"
  then show ?thesis by (metis append_Nil2)
next
  assume "\<exists>r1. acc n k (vis @ locs a bs) r1 \<and> allocate_loop (of_nat n) umb name strat (of_nat a) r s =
         (if strat AND 0x80 \<noteq> 0 \<and> umb = umb_start_seg
          then allocate_loop (of_nat n) umb name (strat AND NOT 0xc0) (firstMCB s) r1 s
          else Some (allocate_found (of_nat n) strat name r1 s))"
  then obtain r1 where "acc n k (vis @ locs a bs) r1" "allocate_loop (of_nat n) umb name strat (of_nat a) r s =
      Some (allocate_found (of_nat n) strat name r1 s)" using assms(6) by auto
  then show ?thesis using acc_found [OF _ assms(5,4)] by blast
qed

lemma strat_low_bits: "(strat AND NOT 0xc0) AND 0x3f = strat AND (0x3f::u16)" "(strat AND NOT 0xc0) AND 0x80 = (0::u16)"
  by (simp_all add: and.assoc)

lemma acc_init: "acc n k [] \<lparr>bigsize = 0, found_seg = 0, found_seg_size = 0\<rparr>"
  by (simp add: acc_def big_def)

lemma alloc_double:
  assumes c: "chain (mcbs s) a bs" "chain (mcbs s) f ls" "firstMCB s = of_nat f" "0 < a" "0 < f" "n < 65536"
    and "k = strat AND 0x3f" and "strat AND 0x80 \<noteq> 0" "umb = umb_start_seg" and "acc n k vis r"
  shows "\<exists>res. allocate_loop (of_nat n) umb name strat (of_nat a) r s = Some res \<and>
    outcome n k name s (vis @ locs a bs @ locs f ls) res"
  using alloc_loop_chain [OF c(1) assms(10) c(4,6) assms(7), of umb name]
proof
  assume "\<exists>res. allocate_loop (of_nat n) umb name strat (of_nat a) r s = Some res \<and>
      (\<forall>rest. outcome n k name s (vis @ locs a bs @ rest) res)"
  then show ?thesis by blast
next
  assume "\<exists>r1. acc n k (vis @ locs a bs) r1 \<and> allocate_loop (of_nat n) umb name strat (of_nat a) r s =
         (if strat AND 0x80 \<noteq> 0 \<and> umb = umb_start_seg
          then allocate_loop (of_nat n) umb name (strat AND NOT 0xc0) (firstMCB s) r1 s
          else Some (allocate_found (of_nat n) strat name r1 s))"
  then obtain r1 where r1: "acc n k (vis @ locs a bs) r1" "allocate_loop (of_nat n) umb name strat (of_nat a) r s =
      allocate_loop (of_nat n) umb name (strat AND NOT 0xc0) (of_nat f) r1 s"
    using assms(8,9) c(3) by auto
  have k': "k = (strat AND NOT 0xc0) AND 0x3f" using assms(7) strat_low_bits(1) [of strat] by simp
  have z: "\<not> ((strat AND NOT 0xc0) AND 0x80 \<noteq> 0 \<and> umb = umb_start_seg)" using strat_low_bits(2) [of strat] by blast
  show ?thesis using alloc_single [OF c(2) r1(1) c(5,6) k' z] r1(2) by simp
qed

end
