(* ===== verification/Dos_Inv.thy ===== *)
theory Dos_Inv
  imports Dos_Alloc
begin

text \<open>
  The invariant of the memory manager: the conventional chain and the upper memory chain, linked or
  not, and what each operation does to the two lists of blocks.
\<close>

unbundle bit_operations_syntax

section \<open>The invariant\<close>

definition umb_on :: "dos_mem \<Rightarrow> bool" where
  "umb_on s = (startOfUMBChain s = umb_start_seg)"

definition linked :: "dos_mem \<Rightarrow> bool" where
  "linked s = (umb_on s \<and> chainingUMB s AND 1 \<noteq> 0)"

definition dos_inv :: "dos_mem \<Rightarrow> blk list \<Rightarrow> blk list \<Rightarrow> bool" where
  "dos_inv s pre up = (0 < unat (firstMCB s) \<and> pre \<noteq> [] \<and>
     chain (mcbs s) (unat (firstMCB s)) (pre @ (if linked s then up else [])) \<and>
     (if umb_on s then up \<noteq> [] \<and> owner (hd up) \<noteq> MCB_FREE \<and> unat (firstMCB s) + span pre = 0x9fff \<and>
        chain (mcbs s) 0x9fff up else up = []))"

lemma umb_linked_upd [simp]:
  "umb_on (s\<lparr>mcbs := m\<rparr>) = umb_on s" "linked (s\<lparr>mcbs := m\<rparr>) = linked s"
  "umb_on (s\<lparr>errorcode := e\<rparr>) = umb_on s" "linked (s\<lparr>errorcode := e\<rparr>) = linked s"
  by (simp_all add: umb_on_def linked_def)

lemma dos_inv_error [simp]: "dos_inv (DOS_SetError e s) = dos_inv s" "dos_inv (s\<lparr>errorcode := e\<rparr>) = dos_inv s"
  by (intro ext; simp add: dos_inv_def DOS_SetError_def)+

text \<open>Rewriting the part of a chain that starts at a given segment.\<close>

fun at :: "nat \<Rightarrow> blk list \<Rightarrow> nat \<Rightarrow> (blk list \<Rightarrow> blk list) \<Rightarrow> blk list" where
  "at a [] x g = []"
| "at a (b # bs) x g = (if a = x then g (b # bs) else b # at (a + len b + 1) bs x g)"

lemma locs_ge: "(x, b) \<in> set (locs a bs) \<Longrightarrow> a \<le> x \<and> x + len b + 1 \<le> a + span bs"
  by (induction bs arbitrary: a) fastforce+

lemma locs_split: "(x, b) \<in> set (locs a bs) \<Longrightarrow> \<exists>us vs. bs = us @ b # vs \<and> x = a + span us"
proof (induction bs arbitrary: a)
  case (Cons c bs)
  show ?case
  proof (cases "(x, b) = (a, c)")
    case True
    then show ?thesis by (intro exI [of _ "[]"] exI [of _ bs]) auto
  next
    case False
    then have "(x, b) \<in> set (locs (a + len c + 1) bs)" using Cons.prems by auto
    then obtain us vs where "bs = us @ b # vs" "x = a + len c + 1 + span us" using Cons.IH by blast
    then show ?thesis by (intro exI [of _ "c # us"] exI [of _ vs]) simp
  qed
qed simp

lemma at_split: "bs \<noteq> [] \<Longrightarrow> x = a + span us \<Longrightarrow> at a (us @ bs) x g = us @ g bs"
proof (induction us arbitrary: a)
  case Nil
  then show ?case by (cases bs) simp_all
qed simp

lemma at_outside: "x < a \<or> a + span bs \<le> x \<Longrightarrow> at a bs x g = bs"
  by (induction bs arbitrary: a) auto

lemma at_nonempty: "bs \<noteq> [] \<Longrightarrow> (\<And>cs. cs \<noteq> [] \<Longrightarrow> g cs \<noteq> []) \<Longrightarrow> at a bs x g \<noteq> []"
  by (cases bs) simp_all

text \<open>
  The effect of an operation on the blocks \<open>cs\<close> at segment \<open>x\<close>: \<open>news\<close> takes their place, within
  the same extent, and the store changes nowhere else.
\<close>

definition rewritten :: "(u16 \<Rightarrow> DOS_MCB) \<Rightarrow> (u16 \<Rightarrow> DOS_MCB) \<Rightarrow> nat \<Rightarrow> blk list \<Rightarrow> blk list \<Rightarrow> bool" where
  "rewritten m m' x cs news = (cs \<noteq> [] \<and> news \<noteq> [] \<and> span news = span cs \<and>
     (\<forall>y<65536. y < x \<or> x + span cs \<le> y \<longrightarrow> m' (of_nat y) = m (of_nat y)) \<and>
     (chain m x cs \<longrightarrow> chain m' x news) \<and> (mid m x cs \<longrightarrow> mid m' x news))"

lemma rewritten_chain:
  assumes "rewritten m m' (a + span us) cs news" "chain m a (us @ cs @ vs)"
  shows "chain m' a (us @ news @ vs)"
proof (rule chain_replace [OF assms(2)])
  have c: "vs = [] \<Longrightarrow> chain m (a + span us) cs" "vs \<noteq> [] \<Longrightarrow> mid m (a + span us) cs"
    using assms by (auto simp: rewritten_def chain_append)
  show "vs = [] \<Longrightarrow> chain m' (a + span us) news" "vs \<noteq> [] \<Longrightarrow> mid m' (a + span us) news"
    using c assms(1) by (auto simp: rewritten_def)
qed (use assms(1) in \<open>auto simp: rewritten_def\<close>)

lemma rewritten_outside:
  assumes "rewritten m m' x cs news" "chain m a bs" "x + span cs \<le> a \<or> a + span bs \<le> x"
  shows "chain m' a bs"
proof -
  have "a + span bs \<le> 65536" by (rule chain_bound [OF assms(2)])
  then have "chain m' a bs = chain m a bs"
    by (intro chain_cong) (use assms in \<open>auto simp: rewritten_def\<close>)
  then show ?thesis using assms(2) by simp
qed

text \<open>
  Where the blocks \<open>cs\<close> stand: at segment \<open>x\<close> of the conventional chain or of the upper one.
\<close>

definition stands :: "dos_mem \<Rightarrow> blk list \<Rightarrow> blk list \<Rightarrow> nat \<Rightarrow> blk list \<Rightarrow> blk list \<Rightarrow> bool" where
  "stands s pre up x cs vs = ((\<exists>us. pre = us @ cs @ vs \<and> x = unat (firstMCB s) + span us) \<or>
     umb_on s \<and> (\<exists>us. up = us @ cs @ vs \<and> x = 0x9fff + span us))"

lemma stands_at:
  assumes inv: "dos_inv s pre up" and st: "stands s pre up x cs vs" and ne: "cs \<noteq> []"
  shows "(\<exists>us. pre = us @ cs @ vs \<and> x = unat (firstMCB s) + span us \<and>
       at (unat (firstMCB s)) pre x g = us @ g (cs @ vs) \<and> at 0x9fff up x g = up) \<or>
    umb_on s \<and> (\<exists>us. up = us @ cs @ vs \<and> x = 0x9fff + span us \<and>
       at (unat (firstMCB s)) pre x g = pre \<and> at 0x9fff up x g = us @ g (cs @ vs))"
  using st unfolding stands_def
proof (elim disjE conjE exE)
  let ?f = "unat (firstMCB s)"
  fix us assume us: "pre = us @ cs @ vs" "x = ?f + span us"
  have pos: "0 < span cs" using ne by (cases cs) simp_all
  have "at 0x9fff up x g = up"
    using inv us pos by (cases "umb_on s") (simp_all add: dos_inv_def at_outside)
  then show ?thesis using us ne by (simp add: at_split)
next
  fix us assume us: "umb_on s" "up = us @ cs @ vs" "x = 0x9fff + span us"
  then show ?thesis using inv ne by (simp add: dos_inv_def at_split at_outside)
qed

lemma inv_rewrite:
  assumes inv: "dos_inv s pre up" and st: "stands s pre up x cs vs" and rw: "rewritten (mcbs s) m' x cs news"
    and g: "g (cs @ vs) = news @ vs" and own: "umb_on s \<Longrightarrow> x = 0x9fff \<Longrightarrow> owner (hd news) \<noteq> MCB_FREE"
  shows "dos_inv (s\<lparr>mcbs := m'\<rparr>) (at (unat (firstMCB s)) pre x g) (at 0x9fff up x g)"
proof -
  let ?f = "unat (firstMCB s)" and ?l = "if linked s then up else []"
  have ne: "cs \<noteq> []" "news \<noteq> []" and sp: "span news = span cs" using rw by (simp_all add: rewritten_def)
  have inv': "0 < ?f" "pre \<noteq> []" "chain (mcbs s) ?f (pre @ ?l)"
    "umb_on s \<Longrightarrow> up \<noteq> [] \<and> owner (hd up) \<noteq> MCB_FREE \<and> ?f + span pre = 0x9fff \<and> chain (mcbs s) 0x9fff up"
    "\<not> umb_on s \<Longrightarrow> up = []" "linked s \<Longrightarrow> umb_on s"
    using inv by (simp_all add: dos_inv_def linked_def split: if_splits)
  from stands_at [OF inv st ne(1), of g] show ?thesis
  proof (elim disjE conjE exE)
    fix us assume us: "pre = us @ cs @ vs" "x = ?f + span us"
      "at ?f pre x g = us @ g (cs @ vs)" "at 0x9fff up x g = up"
    have c1: "chain m' ?f ((us @ news @ vs) @ ?l)"
      using rewritten_chain [of "mcbs s" m' ?f us cs news "vs @ ?l"] rw inv'(3) us by simp
    have c2: "chain m' 0x9fff up" if "umb_on s"
      by (rule rewritten_outside [OF rw]) (use that inv'(4) us in auto)
    show ?thesis unfolding us(3,4) g using inv' c1 c2 us ne sp by (auto simp: dos_inv_def)
  next
    fix us assume on: "umb_on s" and us: "up = us @ cs @ vs" "x = 0x9fff + span us"
      "at ?f pre x g = pre" "at 0x9fff up x g = us @ g (cs @ vs)"
    note I = inv'(4) [OF on]
    have c2: "chain m' 0x9fff (us @ news @ vs)"
      by (rule rewritten_chain [where cs = cs]) (use rw us I in auto)
    have c1: "chain m' ?f (pre @ (if linked s then us @ news @ vs else []))"
    proof (cases "linked s")
      case True
      then show ?thesis
        using rewritten_chain [of "mcbs s" m' ?f "pre @ us" cs news vs] rw inv'(3) us I by (simp add: add.assoc [symmetric])
    next
      case False
      then show ?thesis using rewritten_outside [OF rw inv'(3)] us I by simp
    qed
    have "owner (hd (us @ news @ vs)) \<noteq> MCB_FREE" using own [OF on] us I ne by (cases us) (auto simp: hd_append)
    then show ?thesis unfolding us(3,4) g using inv' c1 c2 ne on I by (auto simp: dos_inv_def)
  qed
qed

section \<open>Compaction\<close>

definition compacted :: "dos_mem \<Rightarrow> blk list \<Rightarrow> blk list" where
  "compacted s up = (if linked s then merge_free up else up)"

lemma compacted_upd [simp]: "compacted (s\<lparr>mcbs := m\<rparr>) up = compacted s up"
  by (simp add: compacted_def)

lemma compress_inv:
  assumes inv: "dos_inv s pre up"
  shows "\<exists>m. DOS_CompressMemory s = Some (Inr (s\<lparr>mcbs := m\<rparr>)) \<and> keeps_owned (mcbs s) m \<and>
    dos_inv (s\<lparr>mcbs := m\<rparr>) (merge_free pre) (compacted s up)"
proof -
  let ?f = "unat (firstMCB s)" and ?l = "if linked s then up else []"
  have I: "0 < ?f" "pre \<noteq> []" "chain (mcbs s) ?f (pre @ ?l)"
    "umb_on s \<Longrightarrow> up \<noteq> [] \<and> owner (hd up) \<noteq> MCB_FREE \<and> ?f + span pre = 0x9fff \<and> chain (mcbs s) 0x9fff up"
    "\<not> umb_on s \<Longrightarrow> up = []" "linked s \<Longrightarrow> umb_on s"
    using inv by (simp_all add: dos_inv_def linked_def split: if_splits)
  have f: "of_nat ?f = firstMCB s" by simp
  obtain m where m: "compress_loop (firstMCB s) 0 s = Some (Inr (s\<lparr>mcbs := m\<rparr>))"
    "chain m ?f (merge_free (pre @ ?l))" "keeps_owned (mcbs s) m"
    "\<forall>x<65536. x < ?f \<or> ?f + span (pre @ ?l) \<le> x \<longrightarrow> m (of_nat x) = mcbs s (of_nat x)"
    using compress_loop_chain [OF I(3), of 0] unfolding f max_allowed_faults_def by auto
  have mg: "merge_free (pre @ ?l) = merge_free pre @ (if linked s then compacted s up else [])"
    using I(4,6) by (simp add: merge_free_append compacted_def)
  have up: "chain m 0x9fff (compacted s up)" if on: "umb_on s"
  proof (cases "linked s")
    case True
    then show ?thesis using m(2) mg I(4) [OF on] by (simp add: chain_append compacted_def)
  next
    case False
    have "0x9fff + span up \<le> 65536" using I(4) [OF on] chain_bound by blast
    then have "chain m 0x9fff up = chain (mcbs s) 0x9fff up"
      by (intro chain_cong) (use m(4) False I(4) [OF on] in auto)
    then show ?thesis using False I(4) [OF on] by (simp add: compacted_def)
  qed
  have "owner (hd (compacted s up)) \<noteq> MCB_FREE" "compacted s up \<noteq> []" if "umb_on s"
    using I(4) [OF that] by (simp_all add: compacted_def merge_free_hd)
  then have "dos_inv (s\<lparr>mcbs := m\<rparr>) (merge_free pre) (compacted s up)"
    using m(2) mg up I by (auto simp: dos_inv_def compacted_def)
  then show ?thesis using m by (auto simp: DOS_CompressMemory_def)
qed

end
