(* ===== verification/Dos_Ops.thy ===== *)
theory Dos_Ops
  imports Dos_Inv
begin

text \<open>
  The effect of the store operations of the memory manager on the blocks of a chain: carving a block
  out of a free one, resizing, freeing, and freeing everything a process owns.
\<close>

unbundle bit_operations_syntax

section \<open>Carving\<close>

definition carve :: "u16 \<Rightarrow> nat \<Rightarrow> u16 \<Rightarrow> blk \<Rightarrow> blk list" where
  "carve k n p b = (if len b = n then [Blk p n]
     else if k < 2 then [Blk p n, Blk MCB_FREE (len b - n - 1)]
     else [Blk MCB_FREE (len b - n - 1), Blk p n])"

definition alloc_seg :: "u16 \<Rightarrow> nat \<Rightarrow> nat \<Rightarrow> blk \<Rightarrow> nat" where
  "alloc_seg k n x b = (if k < 2 then x + 1 else x + 1 + len b - n)"

text \<open>A local rewrite whose last header keeps the type of the old last one.\<close>

lemma rewritten_one:
  assumes "\<And>t. hdr m x t b \<Longrightarrow> hdr m' x t c" "len c = len b"
    and "\<And>y. y < 65536 \<Longrightarrow> y \<noteq> x \<Longrightarrow> m' (of_nat y) = m (of_nat y)"
  shows "rewritten m m' x [b] [c]"
  using assms by (auto simp: rewritten_def)

lemma rewritten_two:
  assumes "\<And>t. hdr m x t b \<Longrightarrow> hdr m' x middle_mcb_type c \<and> hdr m' (x + len c + 1) t d"
    and "len b = len c + len d + 1"
    and "\<And>y. y < 65536 \<Longrightarrow> y \<noteq> x \<Longrightarrow> y \<noteq> x + len c + 1 \<Longrightarrow> m' (of_nat y) = m (of_nat y)"
  shows "rewritten m m' x [b] [c, d]"
  using assms by (auto simp: rewritten_def)

lemma hdr_upd_same:
  "hdr (m(of_nat x := e)) x t b \<longleftrightarrow> x + len b < 65536 \<and> mcb_type e = t \<and> psp_segment e = owner b \<and> mcb_size e = of_nat (len b)"
  by (simp add: hdr_def)

lemma hdr_upd_other:
  "x < 65536 \<Longrightarrow> y < 65536 \<Longrightarrow> x \<noteq> y \<Longrightarrow> hdr (m(of_nat y := e)) x t b = hdr m x t b"
  by (rule hdr_cong) (simp add: seg_inj)

lemma set_psp_rewritten:
  "x < 65536 \<Longrightarrow> \<exists>m'. SetPSPSeg (of_nat x) p s = s\<lparr>mcbs := m'\<rparr> \<and> rewritten (mcbs s) m' x [b] [Blk p (len b)]"
  unfolding SetPSPSeg_def by (intro exI conjI, rule refl, rule rewritten_one) (auto simp: hdr_def seg_inj)

lemma set_psp_name_rewritten:
  "x < 65536 \<Longrightarrow> \<exists>m'. SetFileName (of_nat x) name (SetPSPSeg (of_nat x) p s) = s\<lparr>mcbs := m'\<rparr> \<and>
     rewritten (mcbs s) m' x [b] [Blk p (len b)]"
  unfolding SetPSPSeg_def SetFileName_def
  by (intro exI conjI, simp, rule rewritten_one) (auto simp: hdr_def seg_inj)

lemma seg_diff: "n < l \<Longrightarrow> (of_nat l - of_nat n - 1 :: u16) = of_nat (l - n - 1)"
  by (simp add: of_nat_diff)

lemma take_front_rewritten:
  assumes "x + len b < 65536" "n < len b"
  shows "\<exists>m'. take_front (of_nat x) (of_nat (len b)) (of_nat n) name s = s\<lparr>mcbs := m'\<rparr> \<and>
    rewritten (mcbs s) m' x [b] [Blk (dos_psp s) n, Blk MCB_FREE (len b - n - 1)]"
proof -
  have nx: "of_nat x + of_nat n + 1 = (of_nat (x + n + 1) :: u16)" by simp
  have ne: "(of_nat x :: u16) \<noteq> of_nat (x + n + 1)" "(of_nat (x + n + 1) :: u16) \<noteq> of_nat x"
    using assms by (simp_all only: seg_inj)
  define e1 where "e1 = (mcbs s (of_nat (x + n + 1)))\<lparr>psp_segment := MCB_FREE,
     mcb_type := mcb_type (mcbs s (of_nat x)), mcb_size := of_nat (len b - n - 1)\<rparr>"
  define e2 where "e2 = (mcbs s (of_nat x))\<lparr>mcb_size := of_nat n, mcb_type := middle_mcb_type,
     psp_segment := dos_psp s, filename := name\<rparr>"
  let ?m = "(mcbs s)(of_nat (x + n + 1) := e1, of_nat x := e2)"
  have "take_front (of_nat x) (of_nat (len b)) (of_nat n) name s = s\<lparr>mcbs := ?m\<rparr>"
    unfolding take_front_def Let_def nx seg_diff [OF assms(2)] seq_do_Cons seq_do_Nil mcb_access
    by (simp add: ne e1_def e2_def fun_upd_twist del: of_nat_add of_nat_Suc)
  moreover have "rewritten (mcbs s) ?m x [b] [Blk (dos_psp s) n, Blk MCB_FREE (len b - n - 1)]"
  proof (rule rewritten_two)
    fix t assume h: "hdr (mcbs s) x t b"
    have "hdr ?m x middle_mcb_type (Blk (dos_psp s) n)"
      unfolding hdr_upd_same using assms by (simp add: e2_def)
    moreover have "hdr ?m (x + n + 1) t (Blk MCB_FREE (len b - n - 1))"
      by (subst hdr_upd_other) (use assms h in \<open>simp_all only: hdr_upd_same, simp_all add: e1_def hdr_def\<close>)
    ultimately show "hdr ?m x middle_mcb_type (Blk (dos_psp s) n) \<and>
      hdr ?m (x + len (Blk (dos_psp s) n) + 1) t (Blk MCB_FREE (len b - n - 1))" by simp
  next
    fix y assume "y < 65536" "y \<noteq> x" "y \<noteq> x + len (Blk (dos_psp s) n) + 1"
    then show "?m (of_nat y) = mcbs s (of_nat y)"
      using assms seg_inj [of y x] seg_inj [of y "x + n + 1"] by (simp del: of_nat_add of_nat_Suc)
  qed (use assms in simp)
  ultimately show ?thesis by blast
qed

lemma take_back_rewritten:
  assumes "x + len b < 65536" "n < len b"
  shows "\<exists>m'. take_back (of_nat x) (of_nat (len b)) (of_nat n) name s = s\<lparr>mcbs := m'\<rparr> \<and>
    rewritten (mcbs s) m' x [b] [Blk MCB_FREE (len b - n - 1), Blk (dos_psp s) n]"
proof -
  define y where "y = x + (len b - n - 1) + 1"
  have yb: "y < 65536" "y \<noteq> x" "y + n < 65536" using assms by (simp_all add: y_def)
  have nx: "of_nat x + 1 + of_nat (len b) - of_nat n - 1 = (of_nat y :: u16)" using assms by (simp add: of_nat_diff y_def)
  have ne: "(of_nat x :: u16) \<noteq> of_nat y" "(of_nat y :: u16) \<noteq> of_nat x" using assms yb by (simp_all add: seg_inj)
  define e1 where "e1 = (mcbs s (of_nat y))\<lparr>mcb_size := of_nat n, mcb_type := mcb_type (mcbs s (of_nat x)),
     psp_segment := dos_psp s, filename := name\<rparr>"
  define e2 where "e2 = (mcbs s (of_nat x))\<lparr>mcb_size := of_nat (len b - n - 1), psp_segment := MCB_FREE,
     mcb_type := middle_mcb_type\<rparr>"
  let ?m = "(mcbs s)(of_nat y := e1, of_nat x := e2)"
  have "take_back (of_nat x) (of_nat (len b)) (of_nat n) name s = s\<lparr>mcbs := ?m\<rparr>"
    unfolding take_back_def Let_def nx seg_diff [OF assms(2)] seq_do_Cons seq_do_Nil mcb_access
    by (simp add: ne e1_def e2_def fun_upd_twist del: of_nat_add of_nat_Suc)
  moreover have "rewritten (mcbs s) ?m x [b] [Blk MCB_FREE (len b - n - 1), Blk (dos_psp s) n]"
  proof (rule rewritten_two)
    fix t assume h: "hdr (mcbs s) x t b"
    have "hdr ?m x middle_mcb_type (Blk MCB_FREE (len b - n - 1))"
      unfolding hdr_upd_same using assms by (simp add: e2_def)
    moreover have "hdr ?m y t (Blk (dos_psp s) n)"
      by (subst hdr_upd_other) (use assms yb h in \<open>simp_all add: hdr_upd_same e1_def hdr_def\<close>)
    ultimately show "hdr ?m x middle_mcb_type (Blk MCB_FREE (len b - n - 1)) \<and>
      hdr ?m (x + len (Blk MCB_FREE (len b - n - 1)) + 1) t (Blk (dos_psp s) n)" by (simp add: y_def)
  next
    fix z assume "z < 65536" "z \<noteq> x" "z \<noteq> x + len (Blk MCB_FREE (len b - n - 1)) + 1"
    moreover from this have "z \<noteq> y" by (simp add: y_def)
    ultimately show "?m (of_nat z) = mcbs s (of_nat z)" using assms yb by (simp add: seg_inj)
  qed (use assms in simp)
  ultimately show ?thesis by blast
qed

lemma place_rewritten:
  assumes "x + len b < 65536" "fits n b"
  shows "\<exists>m'. place n k name x b s = (Allocated (of_nat (alloc_seg k n x b)), s\<lparr>mcbs := m'\<rparr>) \<and>
    rewritten (mcbs s) m' x [b] (carve k n (dos_psp s) b)"
proof -
  have seg: "of_nat x + 1 + of_nat (len b) - of_nat n = (of_nat (x + 1 + len b - n) :: u16)"
    using assms by (simp add: of_nat_diff fits_def)
  consider (whole) "len b = n" "k < 2" | (named) "len b = n" "\<not> k < 2" | (front) "n < len b" "k < 2" | (rear) "n < len b" "\<not> k < 2"
    using assms(2) by (force simp: fits_def)
  then show ?thesis
  proof cases
    case whole
    then show ?thesis using set_psp_rewritten [of x "dos_psp s" s b] assms
      by (auto simp: place_def carve_def alloc_seg_def)
  next
    case named
    then show ?thesis using set_psp_name_rewritten [of x name "dos_psp s" s b] assms
      by (auto simp: place_def carve_def alloc_seg_def)
  next
    case front
    then show ?thesis using take_front_rewritten [OF assms(1) front(1), of name s]
      by (auto simp: place_def carve_def alloc_seg_def)
  next
    case rear
    then show ?thesis using take_back_rewritten [OF assms(1) rear(1), of name s]
      by (auto simp: place_def carve_def alloc_seg_def seg Let_def)
  qed
qed

section \<open>Allocation\<close>

definition visited :: "dos_mem \<Rightarrow> blk list \<Rightarrow> blk list \<Rightarrow> (nat \<times> blk) list" where
  "visited s pre up = (let strat = allocation_strategy s;
     low = locs (unat (firstMCB s)) pre @ (if linked s then locs 0x9fff up else [])
     in if umb_on s \<and> strat AND 0xc0 \<noteq> 0 then locs 0x9fff up @ (if strat AND 0x80 \<noteq> 0 then low else [])
        else low)"

text \<open>Where a free block of a visited list stands, and that the search never hits the cover block.\<close>

lemma visited_stands:
  assumes inv: "dos_inv s pre up" and v: "(x, b) \<in> set (visited s pre up)"
  shows "\<exists>vs. stands s pre up x [b] vs" and "x + len b < 65536"
    and "umb_on s \<Longrightarrow> x = 0x9fff \<Longrightarrow> owner b \<noteq> MCB_FREE"
proof -
  let ?f = "unat (firstMCB s)"
  have loc: "(x, b) \<in> set (locs ?f pre) \<or> umb_on s \<and> (x, b) \<in> set (locs 0x9fff up)"
    using v by (auto simp: visited_def Let_def linked_def split: if_splits)
  then show "\<exists>vs. stands s pre up x [b] vs"
    unfolding stands_def by (metis append_Cons append_Nil locs_split)
  have "?f + span pre \<le> 65536" using inv chain_bound [where a = ?f] by (fastforce simp: dos_inv_def)
  moreover have "0x9fff + span up \<le> 65536" if "umb_on s" using inv that chain_bound [where a = "0x9fff"] by (auto simp: dos_inv_def)
  ultimately show "x + len b < 65536" using loc locs_ge [of x b] by fastforce
  show "owner b \<noteq> MCB_FREE" if on: "umb_on s" "x = 0x9fff"
  proof -
    have e: "?f + span pre = 0x9fff" "up \<noteq> []" "owner (hd up) \<noteq> MCB_FREE" using inv on by (simp_all add: dos_inv_def)
    have "(x, b) \<notin> set (locs ?f pre)" using e on locs_ge [of x b ?f pre] by auto
    then have "(x, b) \<in> set (locs 0x9fff up)" using loc by blast
    then obtain us vs where us: "up = us @ b # vs" "0x9fff = 0x9fff + span us" using locs_split on by metis
    then have "us = []" by (cases us) simp_all
    then show ?thesis using us e by simp
  qed
qed

definition alloc_effect :: "u16 \<Rightarrow> nat \<Rightarrow> u16 \<Rightarrow> blk list \<Rightarrow> blk list" where
  "alloc_effect k n p cs = (case cs of [] \<Rightarrow> [] | b # bs \<Rightarrow> carve k n p b @ bs)"

lemma allocate_search:
  assumes inv: "dos_inv s pre up" and n: "n < 65536"
  shows "\<exists>res. allocate_loop (of_nat n) (startOfUMBChain s) name (allocation_strategy s)
       (if startOfUMBChain s = umb_start_seg \<and> allocation_strategy s AND 0xc0 \<noteq> 0 then startOfUMBChain s else firstMCB s)
       \<lparr>bigsize = 0, found_seg = 0, found_seg_size = 0\<rparr> s = Some res \<and>
     outcome n (allocation_strategy s AND 0x3f) name s (visited s pre up) res"
proof -
  let ?f = "unat (firstMCB s)" and ?st = "allocation_strategy s" and ?k = "allocation_strategy s AND 0x3f"
  let ?low = "pre @ (if linked s then up else [])"
  have f: "firstMCB s = of_nat ?f" by simp
  have I: "0 < ?f" "chain (mcbs s) ?f ?low" "umb_on s \<Longrightarrow> chain (mcbs s) 0x9fff up \<and> ?f + span pre = 0x9fff"
    using inv by (simp_all add: dos_inv_def)
  have low: "locs ?f ?low = locs ?f pre @ (if linked s then locs 0x9fff up else [])"
    using I(3) by (simp add: linked_def)
  have u: "(umb_start_seg :: u16) = of_nat 0x9fff" by (simp add: umb_start_seg_def)
  have hi: "?st AND 0x80 = 0" if "?st AND 0xc0 = 0"
  proof -
    have "?st AND 0x80 = (?st AND 0xc0) AND 0x80" by (simp add: and.assoc)
    then show ?thesis using that by simp
  qed
  note single = alloc_single [OF _ acc_init _ n refl, where strat = "allocation_strategy s" and s = s]
  show ?thesis
  proof (cases "umb_on s \<and> ?st AND 0xc0 \<noteq> 0")
    case False
    have np: "\<not> (?st AND 0x80 \<noteq> 0 \<and> startOfUMBChain s = umb_start_seg)" using False hi by (auto simp: umb_on_def)
    have ns: "\<not> (startOfUMBChain s = umb_start_seg \<and> ?st AND 0xc0 \<noteq> 0)" using False by (simp add: umb_on_def)
    have vl: "visited s pre up = locs ?f ?low" unfolding low using False by (auto simp: visited_def Let_def)
    show ?thesis using single [OF I(2) I(1) np, of name] unfolding if_not_P [OF ns] vl f [symmetric] by simp
  next
    case True
    note C = I(3) [OF conjunct1 [OF True]]
    have on: "startOfUMBChain s = umb_start_seg" using True by (simp add: umb_on_def)
    have st: "(if startOfUMBChain s = umb_start_seg \<and> ?st AND 0xc0 \<noteq> 0 then startOfUMBChain s else firstMCB s) = of_nat 0x9fff"
      using True on u by simp
    show ?thesis
    proof (cases "?st AND 0x80 = 0")
      case nb: True
      have vl: "visited s pre up = [] @ locs 0x9fff up" using True nb by (simp add: visited_def Let_def)
      show ?thesis unfolding st vl
        by (rule single) (use C nb in simp_all)
    next
      case False
      have vl: "visited s pre up = [] @ locs 0x9fff up @ locs ?f ?low" unfolding low using True False by (simp add: visited_def Let_def)
      show ?thesis unfolding st vl
        by (rule alloc_double [OF _ I(2) f _ I(1) n refl False on acc_init]) (use C in simp_all)
    qed
  qed
qed

lemma allocate_inv:
  assumes inv: "dos_inv s pre up" and n: "n < 65536" and o: "outcome n k name s (visited s pre up) res"
  shows "if \<exists>c\<in>set (visited s pre up). fits n (snd c)
    then \<exists>x b m. chosen n k (visited s pre up) x b \<and> res = (Allocated (of_nat (alloc_seg k n x b)), s\<lparr>mcbs := m\<rparr>) \<and>
      dos_inv (s\<lparr>mcbs := m\<rparr>) (at (unat (firstMCB s)) pre x (alloc_effect k n (dos_psp s)))
        (at 0x9fff up x (alloc_effect k n (dos_psp s)))
    else res = (NoMemory (of_nat (big n (visited s pre up))), s\<lparr>errorcode := DOSERR_INSUFFICIENT_MEMORY\<rparr>)"
proof (cases "\<exists>c\<in>set (visited s pre up). fits n (snd c)")
  case False
  then show ?thesis using o by (simp add: outcome_def DOS_SetError_def)
next
  case True
  then obtain x b where c: "chosen n k (visited s pre up) x b" "res = place n k name x b s"
    using o by (auto simp: outcome_def)
  then have v: "(x, b) \<in> set (visited s pre up)" "fits n b" using chosen_fits by auto
  obtain vs where st: "stands s pre up x [b] vs" using visited_stands(1) [OF inv v(1)] by blast
  obtain m where m: "place n k name x b s = (Allocated (of_nat (alloc_seg k n x b)), s\<lparr>mcbs := m\<rparr>)"
    "rewritten (mcbs s) m x [b] (carve k n (dos_psp s) b)"
    using place_rewritten [OF visited_stands(2) [OF inv v(1)] v(2)] by blast
  have "dos_inv (s\<lparr>mcbs := m\<rparr>) (at (unat (firstMCB s)) pre x (alloc_effect k n (dos_psp s)))
        (at 0x9fff up x (alloc_effect k n (dos_psp s)))"
    by (rule inv_rewrite [OF inv st m(2)])
      (use visited_stands(3) [OF inv v(1)] v(2) in \<open>auto simp: alloc_effect_def fits_def\<close>)
  then show ?thesis using True c m by auto
qed

lemma big_largest:
  assumes "\<forall>c\<in>set vis. \<not> fits n (snd c)"
  shows "big n vis = Max (insert 0 {len b | x b. (x, b) \<in> set vis \<and> owner b = MCB_FREE})"
  using assms
proof (induction vis rule: rev_induct)
  case (snoc c vis)
  let ?S = "\<lambda>vis. {len b | x b. (x, b) \<in> set vis \<and> owner b = MCB_FREE}"
  have fin: "finite (?S vis)" for vis
    by (rule finite_subset [of _ "(\<lambda>c. len (snd c)) ` set vis"]) force+
  have "?S (vis @ [c]) = (if owner (snd c) = MCB_FREE then insert (len (snd c)) (?S vis) else ?S vis)"
    by (cases c) auto
  moreover have "Max (insert (len (snd c)) (insert 0 (?S vis))) = max (len (snd c)) (Max (insert 0 (?S vis)))"
    by (rule Max_insert) (use fin in auto)
  ultimately have "Max (insert 0 (?S (vis @ [c]))) = (if owner (snd c) = MCB_FREE
      then max (Max (insert 0 (?S vis))) (len (snd c)) else Max (insert 0 (?S vis)))"
    by (simp only: insert_commute [of 0] max.commute split: if_split) simp
  then show ?case using snoc by (auto simp: big_snoc fits_def)
qed (simp add: big_def)

end
