(* ===== verification/Dos_Resize.thy ===== *)
theory Dos_Resize
  imports Dos_Ops
begin

text \<open>
  Freeing a block, resizing a block and freeing all blocks of a process, as rewrites of the two
  lists of blocks.
\<close>

unbundle bit_operations_syntax

section \<open>Freeing one block\<close>

definition free_effect :: "blk list \<Rightarrow> blk list" where
  "free_effect cs = (case cs of [] \<Rightarrow> [] | b # bs \<Rightarrow> Blk MCB_FREE (len b) # bs)"

text \<open>A chain depends on its headers only.\<close>

lemma mid_cong_hdr: "(\<And>x b. (x, b) \<in> set (locs a bs) \<Longrightarrow> m' (of_nat x) = m (of_nat x)) \<Longrightarrow> mid m' a bs = mid m a bs"
proof (induction bs arbitrary: a)
  case (Cons b bs)
  have "hdr m' a middle_mcb_type b = hdr m a middle_mcb_type b" by (rule hdr_cong) (rule Cons.prems [of _ b], simp)
  moreover have "mid m' (a + len b + 1) bs = mid m (a + len b + 1) bs"
    by (rule Cons.IH) (use Cons.prems in auto)
  ultimately show ?case by simp
qed simp

lemma chain_cong_hdr:
  assumes "\<And>x b. (x, b) \<in> set (locs a bs) \<Longrightarrow> m' (of_nat x) = m (of_nat x)"
  shows "chain m' a bs = chain m a bs"
proof (cases bs rule: rev_cases)
  case (snoc xs b)
  have "mid m' a xs = mid m a xs" by (rule mid_cong_hdr) (rule assms, auto simp: snoc)
  moreover have "hdr m' (a + span xs) ending_mcb_type b = hdr m (a + span xs) ending_mcb_type b"
    by (rule hdr_cong) (rule assms [of _ b], simp add: snoc)
  ultimately show ?thesis by (simp add: snoc chain_append)
qed simp

lemma at_notin: "x \<notin> fst ` set (locs a bs) \<Longrightarrow> at a bs x g = bs"
  by (induction bs arbitrary: a) auto

definition block_at :: "dos_mem \<Rightarrow> blk list \<Rightarrow> blk list \<Rightarrow> nat \<Rightarrow> blk \<Rightarrow> bool" where
  "block_at s pre up x b = ((x, b) \<in> set (locs (unat (firstMCB s)) pre) \<or> umb_on s \<and> (x, b) \<in> set (locs 0x9fff up))"

lemma block_at_stands: "block_at s pre up x b \<Longrightarrow> \<exists>vs. stands s pre up x [b] vs"
  unfolding block_at_def stands_def by (metis append_Cons append_Nil locs_split)

lemma stands_hdr:
  assumes inv: "dos_inv s pre up" and st: "stands s pre up x [b] vs"
  shows "\<exists>t. hdr (mcbs s) x t b \<and> (if vs = [] then t = ending_mcb_type \<or>
        t = middle_mcb_type \<and> GetPSPSeg (of_nat (x + len b + 1)) s \<noteq> MCB_FREE
      else t = middle_mcb_type \<and> (\<exists>t'. hdr (mcbs s) (x + len b + 1) t' (hd vs) \<and> t' \<in> {middle_mcb_type, ending_mcb_type}))"
proof -
  let ?f = "unat (firstMCB s)" and ?l = "if linked s then up else []"
  have C: "chain (mcbs s) ?f (pre @ ?l)" using inv by (simp add: dos_inv_def)
  have gen: ?thesis if "chain (mcbs s) a (us @ [b] @ ws)" "x = a + span us" "ws = vs \<or> vs = [] \<and> ws = up \<and> linked s" for a us ws
  proof -
    have c: "chain (mcbs s) x (b # ws)" using that by (simp add: chain_append)
    show ?thesis
    proof (cases ws)
      case Nil
      then show ?thesis using c that by (auto simp: dos_inv_def)
    next
      case (Cons w ws')
      then have h: "hdr (mcbs s) x middle_mcb_type b" and cw: "chain (mcbs s) (x + len b + 1) ws" using c by (simp_all add: chain_Cons)
      then have hw: "hdr (mcbs s) (x + len b + 1) (if ws' = [] then ending_mcb_type else middle_mcb_type) w"
        using Cons by (cases ws') simp_all
      show ?thesis
      proof (cases "vs = []")
        case True
        then have "owner w \<noteq> MCB_FREE" using that(3) Cons inv by (auto simp: dos_inv_def linked_def)
        then show ?thesis using h hw True by (auto simp: hdr_def GetPSPSeg_def simp del: of_nat_add)
      next
        case False
        then show ?thesis using h hw that(3) Cons by (auto split: if_splits)
      qed
    qed
  qed
  from st show ?thesis unfolding stands_def
  proof (elim disjE conjE exE)
    fix us assume us: "pre = us @ [b] @ vs" "x = ?f + span us"
    show ?thesis
    proof (cases "vs = [] \<and> linked s")
      case True
      then show ?thesis using gen [of ?f us up] C us by simp
    next
      case False
      show ?thesis
      proof (cases "linked s")
        case True
        have c: "chain (mcbs s) ?f (us @ b # vs @ up)" using C us True by simp
        have "up \<noteq> []" using inv True by (simp add: dos_inv_def linked_def)
        then have "mid (mcbs s) x (b # vs)" using c us chain_append [of up "mcbs s" ?f "us @ b # vs"] by (simp add: mid_append)
        then show ?thesis using False True by (cases vs) auto
      next
        case nl: False
        then show ?thesis using gen [of ?f us vs] C us by simp
      qed
    qed
  next
    fix us assume "umb_on s" "up = us @ [b] @ vs" "x = 0x9fff + span us"
    then show ?thesis using gen [of "0x9fff" us vs] inv by (simp add: dos_inv_def)
  qed
qed

lemma free_inv:
  assumes inv: "dos_inv s pre up" and x: "x < 65536" and cover: "umb_on s \<Longrightarrow> x \<noteq> 0x9fff"
  shows "\<exists>m. SetPSPSeg (of_nat x) MCB_FREE s = s\<lparr>mcbs := m\<rparr> \<and>
    dos_inv (s\<lparr>mcbs := m\<rparr>) (at (unat (firstMCB s)) pre x free_effect) (at 0x9fff up x free_effect)"
proof (cases "\<exists>b. block_at s pre up x b")
  case True
  then obtain b vs where st: "stands s pre up x [b] vs" using block_at_stands by blast
  obtain m where m: "SetPSPSeg (of_nat x) MCB_FREE s = s\<lparr>mcbs := m\<rparr>" "rewritten (mcbs s) m x [b] [Blk MCB_FREE (len b)]"
    using set_psp_rewritten [OF x] by blast
  have "dos_inv (s\<lparr>mcbs := m\<rparr>) (at (unat (firstMCB s)) pre x free_effect) (at 0x9fff up x free_effect)"
    by (rule inv_rewrite [OF inv st m(2)]) (use cover in \<open>simp_all add: free_effect_def\<close>)
  then show ?thesis using m by blast
next
  case False
  let ?f = "unat (firstMCB s)" and ?l = "if linked s then up else []"
  define m where "m = (mcbs s)(of_nat x := (mcbs s (of_nat x))\<lparr>psp_segment := MCB_FREE\<rparr>)"
  have I: "chain (mcbs s) ?f (pre @ ?l)" "umb_on s \<Longrightarrow> chain (mcbs s) 0x9fff up \<and> ?f + span pre = 0x9fff"
    "linked s \<Longrightarrow> umb_on s" "\<not> umb_on s \<Longrightarrow> up = []"
    using inv by (simp_all add: dos_inv_def linked_def)
  have no: "x \<notin> fst ` set (locs ?f pre)" "umb_on s \<Longrightarrow> x \<notin> fst ` set (locs 0x9fff up)"
    using False by (auto simp: block_at_def)
  have small: "y < 65536" if "chain (mcbs s) a bs" "(y, b) \<in> set (locs a bs)" for y b a bs
    using chain_bound [OF that(1)] locs_ge [OF that(2)] by simp
  have keep: "chain m a bs = chain (mcbs s) a bs" if "chain (mcbs s) a bs" "x \<notin> fst ` set (locs a bs)" for a bs
    by (rule chain_cong_hdr) (use that small [OF that(1)] x in \<open>force simp: m_def seg_inj\<close>)
  have "x \<notin> fst ` set (locs ?f (pre @ ?l))" using no I(2,3) by (auto simp: linked_def)
  then have "dos_inv (s\<lparr>mcbs := m\<rparr>) pre up" using inv keep I no unfolding dos_inv_def by auto
  moreover have "at ?f pre x free_effect = pre" using no(1) by (rule at_notin)
  moreover have "at 0x9fff up x free_effect = up" using no(2) I(4) by (cases "umb_on s") (simp_all add: at_notin)
  ultimately show ?thesis unfolding SetPSPSeg_def m_def by auto
qed

section \<open>Resizing\<close>

text \<open>What a block can grow to: itself, and the free block after it when there is one.\<close>

definition avail :: "blk \<Rightarrow> blk list \<Rightarrow> nat" where
  "avail b vs = (case vs of [] \<Rightarrow> len b | c # ws \<Rightarrow> if owner c = MCB_FREE then len b + len c + 1 else len b)"

definition resize_effect :: "u16 \<Rightarrow> nat \<Rightarrow> blk list \<Rightarrow> blk list" where
  "resize_effect p n cs = (case cs of [] \<Rightarrow> [] | b # vs \<Rightarrow>
     if n = len b then Blk p n # vs
     else if n < len b then Blk p n # Blk MCB_FREE (len b - n - 1) # vs
     else let most = avail b vs; ws = (if most = len b then vs else tl vs) in
       if n < most then Blk p n # Blk MCB_FREE (most - n - 1) # ws else Blk p most # ws)"

lemma resize_shrink_rewritten:
  assumes "hdr (mcbs s) x t b" "n < len b" "t \<in> {middle_mcb_type, ending_mcb_type}"
  shows "\<exists>m'. resize_shrink (of_nat (x + 1)) (of_nat (len b)) (of_nat n) s = s\<lparr>mcbs := m'\<rparr> \<and>
    rewritten (mcbs s) m' x [b] [Blk (dos_psp s) n, Blk MCB_FREE (len b - n - 1)]"
proof -
  define y where "y = x + n + 1"
  have bd: "x + len b < 65536" "y < 65536" "y \<noteq> x" "x \<noteq> y" using assms by (simp_all add: hdr_def y_def)
  have nx: "of_nat (x + 1) + of_nat n = (of_nat y :: u16)" "of_nat (x + 1) - 1 = (of_nat x :: u16)" by (simp_all add: y_def)
  have ne: "(of_nat x :: u16) \<noteq> of_nat y" "(of_nat y :: u16) \<noteq> of_nat x" using bd by (simp_all add: seg_inj)
  have ty: "mcb_type (mcbs s (of_nat x)) = t" using assms by (simp add: hdr_def)
  define e1 where "e1 = (mcbs s (of_nat y))\<lparr>mcb_type := t, mcb_size := of_nat (len b - n - 1), psp_segment := MCB_FREE\<rparr>"
  define e2 where "e2 = (let r = (mcbs s (of_nat x))\<lparr>mcb_size := of_nat n\<rparr>
     in (if t = ending_mcb_type then r\<lparr>mcb_type := middle_mcb_type\<rparr> else r)\<lparr>psp_segment := dos_psp s\<rparr>)"
  have e2: "mcb_type e2 = middle_mcb_type" "mcb_size e2 = of_nat n" "psp_segment e2 = dos_psp s"
    using assms(3) ty by (auto simp: e2_def Let_def)
  let ?m = "(mcbs s)(of_nat y := e1, of_nat x := e2)"
  have "resize_shrink (of_nat (x + 1)) (of_nat (len b)) (of_nat n) s = s\<lparr>mcbs := ?m\<rparr>"
    unfolding resize_shrink_def Let_def nx seg_diff [OF assms(2)] seq_do_Cons seq_do_Nil mcb_access
    using assms(3) by (auto simp: ne ty e1_def e2_def Let_def fun_upd_twist)
  moreover have "rewritten (mcbs s) ?m x [b] [Blk (dos_psp s) n, Blk MCB_FREE (len b - n - 1)]"
  proof (rule rewritten_two)
    fix t' assume h: "hdr (mcbs s) x t' b"
    have "hdr ?m y t' (Blk MCB_FREE (len b - n - 1))"
      by (subst hdr_upd_other) (use bd assms h in \<open>simp_all add: hdr_upd_same e1_def hdr_def y_def\<close>)
    then show "hdr ?m x middle_mcb_type (Blk (dos_psp s) n) \<and>
      hdr ?m (x + len (Blk (dos_psp s) n) + 1) t' (Blk MCB_FREE (len b - n - 1))"
      using bd assms(2) by (simp add: hdr_upd_same e2 y_def)
  next
    fix z assume "z < 65536" "z \<noteq> x" "z \<noteq> x + len (Blk (dos_psp s) n) + 1"
    moreover from this have "z \<noteq> y" by (simp add: y_def)
    ultimately show "?m (of_nat z) = mcbs s (of_nat z)" using bd by (simp add: seg_inj)
  qed (use assms in simp)
  ultimately show ?thesis by blast
qed

lemma resize_grow_rewritten:
  assumes hb: "hdr (mcbs s) x middle_mcb_type b" and hc: "hdr (mcbs s) (x + len b + 1) t c"
    and n: "len b < n" "n < len b + len c + 1"
  shows "\<exists>m'. resize_grow (of_nat (x + 1)) (of_nat (x + len b + 1)) (of_nat (len b + len c + 1)) (of_nat n) s = s\<lparr>mcbs := m'\<rparr> \<and>
    rewritten (mcbs s) m' x [b, c] [Blk (dos_psp s) n, Blk MCB_FREE (len b + len c + 1 - n - 1)]"
proof -
  define y where "y = x + n + 1"
  define w where "w = x + len b + 1"
  have bd: "x + len b + 1 + len c < 65536" "y < 65536" "y \<noteq> x" "x \<noteq> y" "w < 65536" "w \<noteq> x"
    using assms by (simp_all add: hdr_def y_def w_def)
  have nx: "of_nat (x + 1) + of_nat n = (of_nat y :: u16)" "of_nat (x + 1) - 1 = (of_nat x :: u16)" by (simp_all add: y_def)
  have ne: "(of_nat x :: u16) \<noteq> of_nat y" "(of_nat y :: u16) \<noteq> of_nat x" using bd by (simp_all add: seg_inj)
  have ty: "mcb_type (mcbs s (of_nat x)) = middle_mcb_type" "mcb_type (mcbs s (of_nat w)) = t"
    using assms by (simp_all add: hdr_def w_def)
  define e1 where "e1 = (mcbs s (of_nat y))\<lparr>mcb_size := of_nat (len b + len c + 1 - n - 1), mcb_type := t, psp_segment := MCB_FREE\<rparr>"
  define e2 where "e2 = (mcbs s (of_nat x))\<lparr>mcb_size := of_nat n, mcb_type := middle_mcb_type, psp_segment := dos_psp s\<rparr>"
  let ?m = "(mcbs s)(of_nat y := e1, of_nat x := e2)"
  have "resize_grow (of_nat (x + 1)) (of_nat (x + len b + 1)) (of_nat (len b + len c + 1)) (of_nat n) s = s\<lparr>mcbs := ?m\<rparr>"
    unfolding resize_grow_def Let_def nx seg_diff [OF n(2)] seq_do_Cons seq_do_Nil mcb_access w_def [symmetric]
    by (auto simp: ne ty e1_def e2_def fun_upd_twist)
  moreover have "rewritten (mcbs s) ?m x [b, c] [Blk (dos_psp s) n, Blk MCB_FREE (len b + len c + 1 - n - 1)]"
  proof -
    have h1: "hdr ?m x middle_mcb_type (Blk (dos_psp s) n)" using bd n by (simp add: hdr_upd_same e2_def)
    have yb: "y + (len b + len c + 1 - n - 1) < 65536" using bd n by (simp add: y_def)
    have h2: "hdr ?m y t (Blk MCB_FREE (len b + len c + 1 - n - 1))"
      by (subst hdr_upd_other) (use bd yb in \<open>simp_all add: hdr_upd_same e1_def\<close>)
    have tt: "t' = t" if "hdr (mcbs s) (x + len b + 1) t' c" for t' using that hc by (simp add: hdr_def)
    have "?m (of_nat z) = mcbs s (of_nat z)" if "z < 65536" "z < x \<or> x + span [b, c] \<le> z" for z
    proof -
      have "z \<noteq> x" "z \<noteq> y" using that(2) n by (auto simp: y_def)
      then show ?thesis using bd that(1) by (simp add: seg_inj)
    qed
    then show ?thesis using h1 h2 tt n bd by (auto simp: rewritten_def y_def)
  qed
  ultimately show ?thesis by blast
qed

lemma resize_max_alone:
  assumes "hdr (mcbs s) x t b" "t = ending_mcb_type \<or> GetPSPSeg next s \<noteq> MCB_FREE"
  shows "\<exists>m'. resize_max (of_nat (x + 1)) next (of_nat (len b)) s = s\<lparr>mcbs := m'\<rparr> \<and>
    rewritten (mcbs s) m' x [b] [Blk (dos_psp s) (len b)]"
proof -
  let ?m = "(mcbs s)(of_nat x := (mcbs s (of_nat x))\<lparr>mcb_size := of_nat (len b), psp_segment := dos_psp s\<rparr>)"
  have "of_nat (x + 1) - 1 = (of_nat x :: u16)" by simp
  then have "resize_max (of_nat (x + 1)) next (of_nat (len b)) s = s\<lparr>mcbs := ?m\<rparr>"
    unfolding resize_max_def Let_def seq_do_Cons seq_do_Nil using assms by (auto simp: mcb_access hdr_def)
  moreover have "rewritten (mcbs s) ?m x [b] [Blk (dos_psp s) (len b)]"
    by (rule rewritten_one) (use assms in \<open>auto simp: hdr_def seg_inj\<close>)
  ultimately show ?thesis by blast
qed

lemma resize_max_join:
  assumes hb: "hdr (mcbs s) x middle_mcb_type b" and hc: "hdr (mcbs s) (x + len b + 1) t c" and "owner c = MCB_FREE"
  shows "\<exists>m'. resize_max (of_nat (x + 1)) (of_nat (x + len b + 1)) (of_nat (len b + len c + 1)) s = s\<lparr>mcbs := m'\<rparr> \<and>
    rewritten (mcbs s) m' x [b, c] [Blk (dos_psp s) (len b + len c + 1)]"
proof -
  define w where "w = x + len b + 1"
  have bd: "x + len b + 1 + len c < 65536" using assms by (simp_all add: hdr_def)
  define e where "e = (mcbs s (of_nat x))\<lparr>mcb_type := t, mcb_size := of_nat (len b + len c + 1), psp_segment := dos_psp s\<rparr>"
  have seg: "of_nat (x + 1) - 1 = (of_nat x :: u16)" by simp
  have ty: "mcb_type (mcbs s (of_nat x)) = middle_mcb_type" "mcb_type (mcbs s (of_nat w)) = t" "psp_segment (mcbs s (of_nat w)) = MCB_FREE"
    using assms by (simp_all add: hdr_def w_def)
  have "resize_max (of_nat (x + 1)) (of_nat (x + len b + 1)) (of_nat (len b + len c + 1)) s = s\<lparr>mcbs := (mcbs s)(of_nat x := e)\<rparr>"
    unfolding resize_max_def Let_def seg seq_do_Cons seq_do_Nil mcb_access w_def [symmetric]
    by (auto simp: ty e_def)
  moreover have "rewritten (mcbs s) ((mcbs s)(of_nat x := e)) x [b, c] [Blk (dos_psp s) (len b + len c + 1)]"
  proof -
    have h: "hdr ((mcbs s)(of_nat x := e)) x t (Blk (dos_psp s) (len b + len c + 1))" using bd by (simp add: hdr_upd_same e_def)
    have tt: "t' = t" if "hdr (mcbs s) (x + len b + 1) t' c" for t' using that hc by (simp add: hdr_def)
    show ?thesis using h tt bd by (auto simp: rewritten_def seg_inj)
  qed
  ultimately show ?thesis by blast
qed

text \<open>Compaction changes nothing when no two free blocks are neighbours.\<close>

lemma no_free_pair_Cons:
  "no_free_pair (b # bs) \<longleftrightarrow> no_free_pair bs \<and> (bs \<noteq> [] \<longrightarrow> owner b \<noteq> MCB_FREE \<or> owner (hd bs) \<noteq> MCB_FREE)"
  by (cases bs) auto

lemma no_free_pair_split: "owner d \<noteq> MCB_FREE \<Longrightarrow> no_free_pair (us @ d # ws) \<longleftrightarrow> no_free_pair us \<and> no_free_pair ws"
  by (induction us) (auto simp: no_free_pair_Cons hd_append)

lemma no_free_pair_append: "no_free_pair (us @ ws) \<Longrightarrow> no_free_pair us \<and> no_free_pair ws"
  by (induction us) (auto simp: no_free_pair_Cons hd_append)

definition settled :: "dos_mem \<Rightarrow> blk list \<Rightarrow> blk list \<Rightarrow> bool" where
  "settled s pre up = (no_free_pair pre \<and> (linked s \<longrightarrow> no_free_pair up))"

lemma settled_compacted: "settled (s\<lparr>mcbs := m\<rparr>) (merge_free pre) (compacted s up)"
  by (simp add: settled_def compacted_def merge_free_no_pair)

lemma settled_at:
  assumes inv: "dos_inv s pre up" and st: "stands s pre up x cs vs" and ne: "cs \<noteq> []" and set: "settled s pre up"
    and g: "g (cs @ vs) = d # vs" "owner d \<noteq> MCB_FREE"
  shows "merge_free (at (unat (firstMCB s)) pre x g) = at (unat (firstMCB s)) pre x g"
    "compacted s (at 0x9fff up x g) = at 0x9fff up x g"
proof -
  have np: "no_free_pair (us @ d # vs)" if "no_free_pair (us @ cs @ vs)" for us
    using that no_free_pair_append [of us "cs @ vs"] no_free_pair_append [of cs vs] g(2) by (simp add: no_free_pair_split)
  show "merge_free (at (unat (firstMCB s)) pre x g) = at (unat (firstMCB s)) pre x g"
    "compacted s (at 0x9fff up x g) = at 0x9fff up x g"
    using stands_at [OF inv st ne, of g] set np g by (auto simp: settled_def compacted_def merge_free_idem)
qed

text \<open>The three ways a resize ends: a header rewritten in place, or two headers and a compaction.\<close>

lemma resize_in_place:
  assumes inv: "dos_inv s pre up" and st: "stands s pre up x cs vs" and set: "settled s pre up"
    and rw: "rewritten (mcbs s) m x cs [Blk p l]" and p: "p \<noteq> MCB_FREE" and g: "g (cs @ vs) = Blk p l # vs"
  shows "dos_inv (s\<lparr>mcbs := m\<rparr>) (merge_free (at (unat (firstMCB s)) pre x g)) (compacted s (at 0x9fff up x g))"
proof -
  have ne: "cs \<noteq> []" using rw by (simp add: rewritten_def)
  have "dos_inv (s\<lparr>mcbs := m\<rparr>) (at (unat (firstMCB s)) pre x g) (at 0x9fff up x g)"
    by (rule inv_rewrite [OF inv st rw]) (simp_all add: g p)
  then show ?thesis using settled_at [where g = g, OF inv st ne set g] p by simp
qed

lemma resize_and_compress:
  assumes inv: "dos_inv s pre up" and st: "stands s pre up x cs vs"
    and rw: "rewritten (mcbs s) m x cs [Blk p l, c]" and p: "p \<noteq> MCB_FREE" and g: "g (cs @ vs) = [Blk p l, c] @ vs"
  shows "\<exists>m'. and_then (DOS_CompressMemory (s\<lparr>mcbs := m\<rparr>)) (\<lambda>t. Some (Inr (r, t))) = Some (Inr (r, s\<lparr>mcbs := m'\<rparr>)) \<and>
    dos_inv (s\<lparr>mcbs := m'\<rparr>) (merge_free (at (unat (firstMCB s)) pre x g)) (compacted s (at 0x9fff up x g))"
proof -
  have "dos_inv (s\<lparr>mcbs := m\<rparr>) (at (unat (firstMCB s)) pre x g) (at 0x9fff up x g)"
    by (rule inv_rewrite [where g = g, OF inv st rw g]) (simp add: p)
  from compress_inv [OF this] show ?thesis by (auto simp: and_then_def compacted_def)
qed

lemma set_psp_same: "psp_segment (mcbs s x) = p \<Longrightarrow> SetPSPSeg x p s = s"
  by (simp add: SetPSPSeg_def fun_upd_idem)

lemma resize_block_inv:
  assumes inv: "dos_inv s pre up" and st: "stands s pre up x [b] vs" and set: "settled s pre up"
    and p: "dos_psp s \<noteq> MCB_FREE" and n: "n < 65536"
  shows "\<exists>m. resize_block (of_nat (x + 1)) (of_nat n) s = Some (Inr (if n \<le> avail b vs
       then (Allocated (of_nat (x + 1)), s\<lparr>mcbs := m\<rparr>)
       else (NoMemory (of_nat (avail b vs)), DOS_SetError DOSERR_INSUFFICIENT_MEMORY (s\<lparr>mcbs := m\<rparr>)))) \<and>
    dos_inv (s\<lparr>mcbs := m\<rparr>) (merge_free (at (unat (firstMCB s)) pre x (resize_effect (dos_psp s) n)))
      (compacted s (at 0x9fff up x (resize_effect (dos_psp s) n)))"
proof -
  let ?g = "resize_effect (dos_psp s) n"
  obtain t where t: "hdr (mcbs s) x t b" and tv: "if vs = [] then t = ending_mcb_type \<or>
        t = middle_mcb_type \<and> GetPSPSeg (of_nat (x + len b + 1)) s \<noteq> MCB_FREE
      else t = middle_mcb_type \<and> (\<exists>t'. hdr (mcbs s) (x + len b + 1) t' (hd vs) \<and> t' \<in> {middle_mcb_type, ending_mcb_type})"
    using stands_hdr [OF inv st] by blast
  have tt: "t \<in> {middle_mcb_type, ending_mcb_type}" using tv by (auto split: if_splits)
  have bd: "x + len b < 65536" using t by (simp add: hdr_def)
  have seg: "of_nat (x + 1) - 1 = (of_nat x :: u16)" "of_nat (x + 1) + of_nat (len b) = (of_nat (x + len b + 1) :: u16)" by simp_all
  have rd: "GetSize (of_nat x) s = of_nat (len b)" "GetType (of_nat x) s = t" using t by (simp_all add: hdr_def mcb_access)
  have cmp: "(of_nat n :: u16) \<le> of_nat l \<longleftrightarrow> n \<le> l" "(of_nat n :: u16) < of_nat l \<longleftrightarrow> n < l" "(of_nat n :: u16) = of_nat l \<longleftrightarrow> n = l"
    if "l < 65536" for l
    using n that by (simp_all add: seg_less seg_inj word_le_nat_alt)
  note body = resize_block_def [of "of_nat (x + 1)" "of_nat n" s, unfolded seg Let_def rd]
  consider (same) "n = len b" | (less) "n < len b" | (more) "len b < n" by linarith
  then show ?thesis
  proof cases
    case same
    obtain m where m: "SetPSPSeg (of_nat x) (dos_psp s) s = s\<lparr>mcbs := m\<rparr>" "rewritten (mcbs s) m x [b] [Blk (dos_psp s) (len b)]"
      using set_psp_rewritten [of x] bd by fastforce
    have "n \<le> avail b vs" using same by (simp add: avail_def split: list.split)
    moreover have "resize_block (of_nat (x + 1)) (of_nat n) s = Some (Inr (Allocated (of_nat (x + 1)), s\<lparr>mcbs := m\<rparr>))"
      by (subst body) (simp add: same m(1))
    moreover have "dos_inv (s\<lparr>mcbs := m\<rparr>) (merge_free (at (unat (firstMCB s)) pre x ?g)) (compacted s (at 0x9fff up x ?g))"
      by (rule resize_in_place [OF inv st set m(2) p]) (simp add: resize_effect_def same)
    ultimately show ?thesis by auto
  next
    case less
    obtain m where m: "resize_shrink (of_nat (x + 1)) (of_nat (len b)) (of_nat n) s = s\<lparr>mcbs := m\<rparr>"
      "rewritten (mcbs s) m x [b] [Blk (dos_psp s) n, Blk MCB_FREE (len b - n - 1)]"
      using resize_shrink_rewritten [OF t less tt] by blast
    have g: "?g ([b] @ vs) = [Blk (dos_psp s) n, Blk MCB_FREE (len b - n - 1)] @ vs" using less by (simp add: resize_effect_def)
    have "n \<le> avail b vs" using less by (simp add: avail_def split: list.split)
    moreover have "resize_block (of_nat (x + 1)) (of_nat n) s =
        and_then (DOS_CompressMemory (s\<lparr>mcbs := m\<rparr>)) (\<lambda>t. Some (Inr (Allocated (of_nat (x + 1)), t)))"
      by (subst body) (use less bd cmp [of "len b"] m(1) in simp)
    ultimately show ?thesis using resize_and_compress [where g = ?g and r = "Allocated (of_nat (x + 1))", OF inv st m(2) p g] by auto
  next
    case more
    have nle: "\<not> (of_nat n :: u16) \<le> of_nat (len b)" using more bd cmp by simp
    show ?thesis
    proof (cases "avail b vs = len b")
      case True
      have nx: "t = ending_mcb_type \<or> GetPSPSeg (of_nat (x + len b + 1)) s \<noteq> MCB_FREE"
        using tv True by (cases vs) (auto simp: avail_def hdr_def GetPSPSeg_def simp del: of_nat_add split: if_splits)
      obtain m where m: "resize_max (of_nat (x + 1)) (of_nat (x + len b + 1)) (of_nat (len b)) s = s\<lparr>mcbs := m\<rparr>"
        "rewritten (mcbs s) m x [b] [Blk (dos_psp s) (len b)]" using resize_max_alone [OF t nx] by blast
      have "resize_block (of_nat (x + 1)) (of_nat n) s = Some (Inr (NoMemory (of_nat (len b)), DOS_SetError DOSERR_INSUFFICIENT_MEMORY (s\<lparr>mcbs := m\<rparr>)))"
        by (subst body, simp only: nle if_False, use nx more bd cmp [of "len b"] m(1) in \<open>auto simp del: of_nat_add\<close>)
      moreover have "dos_inv (s\<lparr>mcbs := m\<rparr>) (merge_free (at (unat (firstMCB s)) pre x ?g)) (compacted s (at 0x9fff up x ?g))"
        by (rule resize_in_place [OF inv st set m(2) p]) (use True more in \<open>simp add: resize_effect_def\<close>)
      ultimately show ?thesis using True more by auto
    next
      case False
      then obtain c ws where vs: "vs = c # ws" "owner c = MCB_FREE" "avail b vs = len b + len c + 1"
        by (cases vs) (auto simp: avail_def split: if_splits)
      obtain t' where h: "hdr (mcbs s) x middle_mcb_type b" "hdr (mcbs s) (x + len b + 1) t' c"
        and t': "t' = middle_mcb_type \<or> t' = ending_mcb_type" using t tv vs by auto
      have st2: "stands s pre up x [b, c] ws" using st vs by (simp add: stands_def)
      have nf: "GetPSPSeg (of_nat (x + len b + 1)) s = MCB_FREE" "GetSize (of_nat (x + len b + 1)) s = of_nat (len c)"
        using h(2) vs(2) by (simp_all add: hdr_def mcb_access del: of_nat_add)
      have tot: "of_nat (len b) + (of_nat (len c) + 1) = (of_nat (len b + len c + 1) :: u16)" by simp
      have tb: "len b + len c + 1 < 65536" using h(2) by (simp add: hdr_def)
      have tm: "t \<noteq> ending_mcb_type" using tv vs by auto
      note body2 = body [unfolded nf tot if_not_P [OF nle]]
      show ?thesis
      proof (cases "n < avail b vs")
        case True
        obtain m where m: "resize_grow (of_nat (x + 1)) (of_nat (x + len b + 1)) (of_nat (len b + len c + 1)) (of_nat n) s = s\<lparr>mcbs := m\<rparr>"
          "rewritten (mcbs s) m x [b, c] [Blk (dos_psp s) n, Blk MCB_FREE (len b + len c + 1 - n - 1)]"
          using resize_grow_rewritten [OF h more] True vs(3) by auto
        have g: "?g ([b, c] @ ws) = [Blk (dos_psp s) n, Blk MCB_FREE (len b + len c + 1 - n - 1)] @ ws"
          using more True vs by (simp add: resize_effect_def Let_def)
        have "resize_block (of_nat (x + 1)) (of_nat n) s =
            and_then (DOS_CompressMemory (s\<lparr>mcbs := m\<rparr>)) (\<lambda>t. Some (Inr (Allocated (of_nat (x + 1)), t)))"
          by (subst body2) (use tm True vs(3) cmp [OF tb] m(1) in \<open>simp del: of_nat_add\<close>)
        then show ?thesis using True resize_and_compress [where g = ?g and r = "Allocated (of_nat (x + 1))", OF inv st2 m(2) p g] by auto
      next
        case F2: False
        obtain m where m: "resize_max (of_nat (x + 1)) (of_nat (x + len b + 1)) (of_nat (len b + len c + 1)) s = s\<lparr>mcbs := m\<rparr>"
          "rewritten (mcbs s) m x [b, c] [Blk (dos_psp s) (len b + len c + 1)]"
          using resize_max_join [OF h vs(2)] by blast
        have "psp_segment (m (of_nat x)) = dos_psp s"
          using m(2) h t' by (auto simp: rewritten_def hdr_def)
        then have same: "SetPSPSeg (of_nat x) (dos_psp s) (s\<lparr>mcbs := m\<rparr>) = s\<lparr>mcbs := m\<rparr>" by (simp add: set_psp_same)
        have "resize_block (of_nat (x + 1)) (of_nat n) s = Some (Inr (if n = len b + len c + 1
           then (Allocated (of_nat (x + 1)), s\<lparr>mcbs := m\<rparr>)
           else (NoMemory (of_nat (len b + len c + 1)), DOS_SetError DOSERR_INSUFFICIENT_MEMORY (s\<lparr>mcbs := m\<rparr>))))"
          by (subst body2) (use tm F2 vs(3) cmp [OF tb] m(1) same in \<open>simp del: of_nat_add\<close>)
        moreover have "dos_inv (s\<lparr>mcbs := m\<rparr>) (merge_free (at (unat (firstMCB s)) pre x ?g)) (compacted s (at 0x9fff up x ?g))"
          by (rule resize_in_place [OF inv st2 set m(2) p]) (use more F2 vs in \<open>simp add: resize_effect_def Let_def\<close>)
        ultimately show ?thesis using F2 vs(3) by auto
      qed
    qed
  qed
qed

end
