(* ===== verification/Dos_Umb.thy ===== *)
theory Dos_Umb
  imports Dos_Resize
begin

text \<open>
  Freeing what a process owns, building the chains at start-up, and linking the upper memory blocks
  into the conventional chain.
\<close>

unbundle bit_operations_syntax

section \<open>Freeing a process\<close>

definition disown :: "u16 \<Rightarrow> blk \<Rightarrow> blk" where
  "disown p b = (if owner b = p then Blk MCB_FREE (len b) else b)"

lemma disown_simps [simp]: "len (disown p b) = len b" "disown p (disown p b) = disown p b"
  by (simp_all add: disown_def)

lemma span_disown [simp]: "span (map (disown p) bs) = span bs"
  by (induction bs) simp_all

lemma map_disown_idem [simp]: "map (disown p) (map (disown p) bs) = map (disown p) bs"
  by simp

lemma hdr_disown:
  assumes "hdr (mcbs s) a t b"
  shows "hdr (mcbs (if GetPSPSeg (of_nat a) s = p then SetPSPSeg (of_nat a) MCB_FREE s else s)) a t (disown p b)"
  using assms by (auto simp: hdr_def disown_def mcb_access)

lemma free_psp_chain:
  assumes "chain (mcbs s) a bs" "f < max_allowed_faults"
  shows "\<exists>m. free_psp_loop p (of_nat a) f s = Some (Inr (s\<lparr>mcbs := m\<rparr>)) \<and> chain m a (map (disown p) bs) \<and>
    (\<forall>x<65536. x < a \<or> a + span bs \<le> x \<longrightarrow> m (of_nat x) = mcbs s (of_nat x))"
  using assms(1)
proof (induction bs arbitrary: a s)
  case (Cons b bs)
  define s1 where "s1 = (if GetPSPSeg (of_nat a) s = p then SetPSPSeg (of_nat a) MCB_FREE s else s)"
  obtain m1 where m1: "s1 = s\<lparr>mcbs := m1\<rparr>" and fr: "\<And>x. x \<noteq> of_nat a \<Longrightarrow> m1 x = mcbs s x"
  proof
    show "s1 = s\<lparr>mcbs := mcbs s1\<rparr>" "\<And>x. x \<noteq> of_nat a \<Longrightarrow> mcbs s1 x = mcbs s x"
      by (simp_all add: s1_def SetPSPSeg_def)
  qed
  let ?t = "if bs = [] then ending_mcb_type else middle_mcb_type"
  have h: "hdr (mcbs s) a ?t b" using Cons.prems by (cases bs) simp_all
  have h1: "hdr m1 a ?t (disown p b)" using hdr_disown [OF h, of p] m1 by (simp add: s1_def)
  have bd: "a + len b + 1 + span bs \<le> 65536" using chain_bound [OF Cons.prems] by simp
  have fr': "m1 (of_nat x) = mcbs s (of_nat x)" if "x < 65536" "x \<noteq> a" for x
    using that bd by (intro fr) (simp add: seg_inj)
  have ty: "GetType (of_nat a) s1 = ?t" using h1 m1 by (simp add: hdr_def GetType_def)
  show ?case
  proof (cases "bs = []")
    case True
    then have "free_psp_loop p (of_nat a) f s = Some (Inr (s\<lparr>mcbs := m1\<rparr>))"
      using ty assms(2) m1 by (subst free_psp_loop.simps) (simp add: s1_def [symmetric] Let_def)
    then show ?thesis using True h1 fr' by (intro exI [of _ m1]) auto
  next
    case False
    have nx: "of_nat a + GetSize (of_nat a) s1 + 1 = (of_nat (a + len b + 1) :: u16)"
      using h1 m1 by (simp add: hdr_def GetSize_def)
    have tr: "triage_block (of_nat a) middle_mcb_type s1 = Inr (0, s1)" by (rule triage_valid) (use ty in simp)
    have step: "free_psp_loop p (of_nat a) f s = free_psp_loop p (of_nat (a + len b + 1)) f s1"
      by (subst free_psp_loop.simps, simp only: s1_def [symmetric] Let_def ty tr nx)
        (use False assms(2) nx in \<open>simp add: ac_simps\<close>)
    have "chain (mcbs s) (a + len b + 1) bs" using Cons.prems False by (simp add: chain_Cons)
    moreover have "chain m1 (a + len b + 1) bs = chain (mcbs s) (a + len b + 1) bs"
      by (rule chain_cong) (use fr' bd in auto)
    ultimately have "chain (mcbs s1) (a + len b + 1) bs" by (simp add: m1)
    from Cons.IH [OF this] obtain m where m: "free_psp_loop p (of_nat (a + len b + 1)) f s1 = Some (Inr (s\<lparr>mcbs := m\<rparr>))"
      "chain m (a + len b + 1) (map (disown p) bs)"
      "\<forall>x<65536. x < a + len b + 1 \<or> a + len b + 1 + span bs \<le> x \<longrightarrow> m (of_nat x) = m1 (of_nat x)"
      by (auto simp: m1)
    have "hdr m a middle_mcb_type (disown p b)"
      using h1 False m(3) bd by (subst hdr_cong [where m = m1]) auto
    then have "chain m a (map (disown p) (b # bs))" using m(2) False by (simp add: chain_Cons)
    then show ?thesis using step m fr' by (intro exI [of _ m]) auto
  qed
qed simp

lemma free_process_inv:
  assumes inv: "dos_inv s pre up" and cover: "umb_on s \<Longrightarrow> owner (hd up) \<noteq> p"
  shows "\<exists>m. DOS_FreeProcessMemory p s = Some (Inr (s\<lparr>mcbs := m\<rparr>)) \<and>
    dos_inv (s\<lparr>mcbs := m\<rparr>) (merge_free (map (disown p) pre)) (compacted s (map (disown p) up))"
proof -
  let ?f = "unat (firstMCB s)" and ?l = "if linked s then up else []" and ?d = "map (disown p)"
  have I: "0 < ?f" "pre \<noteq> []" "chain (mcbs s) ?f (pre @ ?l)"
    "umb_on s \<Longrightarrow> up \<noteq> [] \<and> owner (hd up) \<noteq> MCB_FREE \<and> ?f + span pre = 0x9fff \<and> chain (mcbs s) 0x9fff up"
    "\<not> umb_on s \<Longrightarrow> up = []" "linked s \<Longrightarrow> umb_on s"
    using inv by (simp_all add: dos_inv_def linked_def split: if_splits)
  obtain m1 where m1: "free_psp_loop p (firstMCB s) 0 s = Some (Inr (s\<lparr>mcbs := m1\<rparr>))" "chain m1 ?f (?d (pre @ ?l))"
    "\<forall>x<65536. x < ?f \<or> ?f + span (pre @ ?l) \<le> x \<longrightarrow> m1 (of_nat x) = mcbs s (of_nat x)"
    using free_psp_chain [OF I(3), of 0 p] by (auto simp: max_allowed_faults_def)
  have "\<exists>m2. (if umb_on s then free_psp_loop p umb_start_seg 0 (s\<lparr>mcbs := m1\<rparr>) else Some (Inr (s\<lparr>mcbs := m1\<rparr>))) =
      Some (Inr (s\<lparr>mcbs := m2\<rparr>)) \<and> dos_inv (s\<lparr>mcbs := m2\<rparr>) (?d pre) (?d up)"
  proof (cases "umb_on s")
    case False
    then show ?thesis using m1(2) I by (intro exI [of _ m1]) (auto simp: dos_inv_def)
  next
    case on: True
    note U = I(4) [OF on]
    have ub: "0x9fff + span up \<le> 65536" using U chain_bound by blast
    define us where "us = (if linked s then ?d up else up)"
    have us: "?d us = ?d up" "span us = span up" by (simp_all add: us_def)
    have cu: "chain m1 0x9fff us"
    proof (cases "linked s")
      case True
      then show ?thesis using m1(2) U by (simp add: chain_append us_def)
    next
      case False
      have "chain m1 0x9fff up = chain (mcbs s) 0x9fff up"
        by (rule chain_cong) (use False m1(3) ub U in auto)
      then show ?thesis using False U by (simp add: us_def)
    qed
    have seg: "(umb_start_seg :: u16) = of_nat 0x9fff" by (simp add: umb_start_seg_def)
    obtain m2 where m2: "free_psp_loop p umb_start_seg 0 (s\<lparr>mcbs := m1\<rparr>) = Some (Inr (s\<lparr>mcbs := m2\<rparr>))"
      "chain m2 0x9fff (?d up)" "\<forall>x<65536. x < 0x9fff \<or> 0x9fff + span up \<le> x \<longrightarrow> m2 (of_nat x) = m1 (of_nat x)"
      using free_psp_chain [of "s\<lparr>mcbs := m1\<rparr>" "0x9fff" us 0 p] cu us unfolding seg by (auto simp: max_allowed_faults_def)
    have low: "chain m2 ?f (?d pre @ (if linked s then ?d up else []))"
    proof (cases "linked s")
      case True
      have "mid m1 ?f (?d pre)" using m1(2) True U by (simp add: chain_append)
      moreover have "mid m2 ?f (?d pre) = mid m1 ?f (?d pre)"
        by (rule mid_cong) (use m2(3) U in auto)
      ultimately show ?thesis using m2(2) True U by (simp add: chain_append)
    next
      case False
      have "chain m2 ?f (?d pre) = chain m1 ?f (?d pre)"
        by (rule chain_cong) (use m2(3) U in auto)
      then show ?thesis using m1(2) False by simp
    qed
    have "owner (hd (?d up)) \<noteq> MCB_FREE" using cover [OF on] U by (cases up) (simp_all add: disown_def)
    then have "dos_inv (s\<lparr>mcbs := m2\<rparr>) (?d pre) (?d up)" using low m2(2) I U on by (simp add: dos_inv_def)
    then show ?thesis using m2(1) on by auto
  qed
  then obtain m2 where m2: "(if umb_on s then free_psp_loop p umb_start_seg 0 (s\<lparr>mcbs := m1\<rparr>) else Some (Inr (s\<lparr>mcbs := m1\<rparr>))) =
      Some (Inr (s\<lparr>mcbs := m2\<rparr>))" "dos_inv (s\<lparr>mcbs := m2\<rparr>) (?d pre) (?d up)" by blast
  have "DOS_FreeProcessMemory p s = DOS_CompressMemory (s\<lparr>mcbs := m2\<rparr>)"
    using m2(1) by (simp add: DOS_FreeProcessMemory_def and_then_def m1(1) umb_on_def split: if_splits)
  then show ?thesis using compress_inv [OF m2(2)] by (auto simp: compacted_def)
qed

section \<open>Linking\<close>

lemma find_umb_mid:
  assumes "mid (mcbs s) a (bs @ [b])" "a + span (bs @ [b]) = u" "u < 65536"
  shows "find_umb (of_nat u) (of_nat a) prev s = Some (of_nat u, of_nat (a + span bs))"
  using assms
proof (induction bs arbitrary: a prev)
  case Nil
  then have h: "hdr (mcbs s) a middle_mcb_type b" "u = a + len b + 1" by simp_all
  then have "(of_nat a :: u16) \<noteq> of_nat u" "of_nat a + GetSize (of_nat a) s + 1 = (of_nat u :: u16)" "GetType (of_nat a) s = middle_mcb_type"
    using Nil by (simp_all only: seg_inj, simp_all add: hdr_def mcb_access)
  then show ?case by (subst find_umb.simps) (simp, subst find_umb.simps, simp)
next
  case (Cons c bs)
  have h: "hdr (mcbs s) a middle_mcb_type c" "mid (mcbs s) (a + len c + 1) (bs @ [b])" using Cons.prems by simp_all
  have "(of_nat a :: u16) \<noteq> of_nat u" using Cons.prems by (simp add: seg_inj)
  moreover have "of_nat a + GetSize (of_nat a) s + 1 = (of_nat (a + len c + 1) :: u16)" "GetType (of_nat a) s = middle_mcb_type"
    using h by (simp_all add: hdr_def mcb_access)
  ultimately have "find_umb (of_nat u) (of_nat a) prev s = find_umb (of_nat u) (of_nat (a + len c + 1)) (of_nat a) s"
    by (subst find_umb.simps) (simp del: of_nat_add of_nat_Suc)
  then show ?case using Cons.IH [OF h(2)] Cons.prems by (simp add: add.assoc)
qed

lemma find_umb_chain:
  assumes "chain (mcbs s) a (bs @ [b])" "a + span (bs @ [b]) \<le> u" "u < 65536"
  shows "\<exists>q. find_umb (of_nat u) (of_nat a) prev s = Some (of_nat (a + span bs), q)"
  using assms
proof (induction bs arbitrary: a prev)
  case Nil
  then show ?case by (subst find_umb.simps) (simp add: hdr_def mcb_access)
next
  case (Cons c bs)
  have h: "hdr (mcbs s) a middle_mcb_type c" "chain (mcbs s) (a + len c + 1) (bs @ [b])"
    using Cons.prems by (simp_all add: chain_Cons)
  have "(of_nat a :: u16) \<noteq> of_nat u" using Cons.prems by (simp add: seg_inj)
  moreover have "of_nat a + GetSize (of_nat a) s + 1 = (of_nat (a + len c + 1) :: u16)" "GetType (of_nat a) s = middle_mcb_type"
    using h by (simp_all add: hdr_def mcb_access)
  ultimately have "find_umb (of_nat u) (of_nat a) prev s = find_umb (of_nat u) (of_nat (a + len c + 1)) (of_nat a) s"
    by (subst find_umb.simps) (simp del: of_nat_add of_nat_Suc)
  then show ?case using Cons.IH [OF h(2)] Cons.prems by (simp add: add.assoc)
qed

text \<open>Changing the type of the last conventional header joins or separates the chains.\<close>

lemma set_last_type:
  assumes c: "if t = middle_mcb_type then mid m a (bs @ [b]) else chain m a (bs @ [b])"
    and t: "t \<in> {middle_mcb_type, ending_mcb_type}" "t' \<in> {middle_mcb_type, ending_mcb_type}" and bd: "a + span (bs @ [b]) \<le> 65536"
    and m': "m' = m(of_nat (a + span bs) := (m (of_nat (a + span bs)))\<lparr>mcb_type := t'\<rparr>)"
  shows "if t' = middle_mcb_type then mid m' a (bs @ [b]) else chain m' a (bs @ [b])"
    "\<And>x. x < 65536 \<Longrightarrow> x \<noteq> a + span bs \<Longrightarrow> m' (of_nat x) = m (of_nat x)"
proof -
  show fr: "m' (of_nat x) = m (of_nat x)" if "x < 65536" "x \<noteq> a + span bs" for x
    using that bd seg_inj [of x "a + span bs"] unfolding m' by (simp del: of_nat_add)
  have "mid m a bs" "hdr m (a + span bs) t b" using c t by (auto simp: mid_append chain_append split: if_splits)
  moreover have "mid m' a bs = mid m a bs" by (rule mid_cong) (use fr bd in auto)
  ultimately have "mid m' a bs" "hdr m' (a + span bs) t' b" by (simp_all add: m' hdr_def)
  then show "if t' = middle_mcb_type then mid m' a (bs @ [b]) else chain m' a (bs @ [b])"
    using t by (auto simp: mid_append chain_append)
qed

lemma link_inv:
  assumes inv: "dos_inv s pre up" and on: "umb_on s" and nl: "\<not> linked s"
  shows "\<exists>m. DOS_LinkUMBsToMemChain 1 s = Some (True, s\<lparr>mcbs := m, chainingUMB := 1\<rparr>) \<and>
    m = (mcbs s)(of_nat (unat (firstMCB s) + span (butlast pre)) :=
      (mcbs s (of_nat (unat (firstMCB s) + span (butlast pre))))\<lparr>mcb_type := middle_mcb_type\<rparr>) \<and>
    dos_inv (s\<lparr>mcbs := m, chainingUMB := 1\<rparr>) pre up"
proof -
  let ?f = "unat (firstMCB s)"
  have I: "0 < ?f" "pre \<noteq> []" "chain (mcbs s) ?f pre" "up \<noteq> []" "owner (hd up) \<noteq> MCB_FREE"
    "?f + span pre = 0x9fff" "chain (mcbs s) 0x9fff up"
    using inv on nl by (simp_all add: dos_inv_def)
  obtain bs b where pre: "pre = bs @ [b]" using I(2) by (cases pre rule: rev_cases) simp_all
  let ?a = "?f + span bs"
  define m where "m = (mcbs s)(of_nat ?a := (mcbs s (of_nat ?a))\<lparr>mcb_type := middle_mcb_type\<rparr>)"
  have u: "umb_start_seg = (of_nat 0x9fff :: u16)" by (simp add: umb_start_seg_def)
  obtain q where q: "find_umb (of_nat 0x9fff) (firstMCB s) (firstMCB s) s = Some (of_nat ?a, q)"
    using find_umb_chain [of s ?f bs b "0x9fff" "firstMCB s"] I pre by auto
  have ty: "GetType (of_nat ?a) s = ending_mcb_type" using I(3) pre by (simp add: chain_append hdr_def GetType_def)
  have st: "\<not> ((1::u16) AND 1 = ucast (chainingUMB s) AND 1)"
  proof -
    have "chainingUMB s AND 1 = 0" using nl on by (simp add: linked_def)
    then have "ucast (chainingUMB s) AND (1::u16) = 0"
      by (metis and_1_bits bit_ucast_iff)
    then show ?thesis by simp
  qed
  have e: "DOS_LinkUMBsToMemChain 1 s = Some (True, s\<lparr>mcbs := m, chainingUMB := 1\<rparr>)"
    unfolding DOS_LinkUMBsToMemChain_def Let_def using on st q ty
    by (simp add: umb_on_def u SetType_def m_def del: of_nat_add)
  have s1: "mid m ?f pre" and fr: "\<And>x. x < 65536 \<Longrightarrow> x \<noteq> ?a \<Longrightarrow> m (of_nat x) = mcbs s (of_nat x)"
    using set_last_type [where t = ending_mcb_type and t' = middle_mcb_type, of "mcbs s" ?f bs b m] I pre by (simp_all add: m_def del: of_nat_add)
  have ub: "0x9fff + span up \<le> 65536" using I(7) chain_bound by blast
  have "chain m 0x9fff up = chain (mcbs s) 0x9fff up"
    by (rule chain_cong) (use fr ub I(6) pre in auto)
  then have "chain m ?f (pre @ up)" using s1 I by (simp add: chain_append)
  then have "dos_inv (s\<lparr>mcbs := m, chainingUMB := 1\<rparr>) pre up"
    using I on \<open>chain m 0x9fff up = _\<close> by (simp add: dos_inv_def linked_def umb_on_def)
  then show ?thesis using e pre by (auto simp: m_def simp del: of_nat_add)
qed

lemma unlink_inv:
  assumes inv: "dos_inv s pre up" and li: "linked s"
  shows "\<exists>m. DOS_LinkUMBsToMemChain 0 s = Some (True, s\<lparr>mcbs := m, chainingUMB := 0\<rparr>) \<and>
    m = (mcbs s)(of_nat (unat (firstMCB s) + span (butlast pre)) :=
      (mcbs s (of_nat (unat (firstMCB s) + span (butlast pre))))\<lparr>mcb_type := ending_mcb_type\<rparr>) \<and>
    dos_inv (s\<lparr>mcbs := m, chainingUMB := 0\<rparr>) pre up"
proof -
  let ?f = "unat (firstMCB s)"
  have on: "umb_on s" using li by (simp add: linked_def)
  have I: "0 < ?f" "pre \<noteq> []" "chain (mcbs s) ?f (pre @ up)" "up \<noteq> []" "owner (hd up) \<noteq> MCB_FREE"
    "?f + span pre = 0x9fff" "chain (mcbs s) 0x9fff up"
    using inv on li by (simp_all add: dos_inv_def)
  then have mp: "mid (mcbs s) ?f pre" by (simp add: chain_append)
  obtain bs b where pre: "pre = bs @ [b]" using I(2) by (cases pre rule: rev_cases) simp_all
  let ?a = "?f + span bs"
  define m where "m = (mcbs s)(of_nat ?a := (mcbs s (of_nat ?a))\<lparr>mcb_type := ending_mcb_type\<rparr>)"
  have u: "umb_start_seg = (of_nat 0x9fff :: u16)" by (simp add: umb_start_seg_def)
  have q: "find_umb (of_nat 0x9fff) (firstMCB s) (firstMCB s) s = Some (of_nat 0x9fff, of_nat ?a)"
    using find_umb_mid [of s ?f bs b "0x9fff" "firstMCB s"] mp I pre by simp
  have ty: "GetType (of_nat ?a) s = middle_mcb_type" using mp pre by (simp add: mid_append hdr_def GetType_def)
  have st: "\<not> ((0::u16) AND 1 = ucast (chainingUMB s) AND 1)"
  proof -
    have "bit (chainingUMB s) 0" using li and_1_bits [of "chainingUMB s"] by (simp add: linked_def)
    then have "ucast (chainingUMB s) AND (1::u16) \<noteq> 0" by (simp add: and_1_bits bit_ucast_iff)
    then show ?thesis by simp
  qed
  have e: "DOS_LinkUMBsToMemChain 0 s = Some (True, s\<lparr>mcbs := m, chainingUMB := 0\<rparr>)"
    unfolding DOS_LinkUMBsToMemChain_def Let_def using on st q ty
    by (simp add: umb_on_def u SetType_def m_def del: of_nat_add)
  have s1: "chain m ?f pre" and fr: "\<And>x. x < 65536 \<Longrightarrow> x \<noteq> ?a \<Longrightarrow> m (of_nat x) = mcbs s (of_nat x)"
    using set_last_type [where t = middle_mcb_type and t' = ending_mcb_type, of "mcbs s" ?f bs b m] mp I(6) pre by (simp_all add: m_def del: of_nat_add)
  have ub: "0x9fff + span up \<le> 65536" using I(7) chain_bound by blast
  have "chain m 0x9fff up = chain (mcbs s) 0x9fff up"
    by (rule chain_cong) (use fr ub I(6) pre in auto)
  then have "dos_inv (s\<lparr>mcbs := m, chainingUMB := 0\<rparr>) pre up"
    using I on s1 by (simp add: dos_inv_def linked_def umb_on_def)
  then show ?thesis using e pre by (auto simp: m_def simp del: of_nat_add)
qed

end
