(* ===== verification/Dos_Memory_Props.thy ===== *)
theory Dos_Memory_Props
  imports Dos_Umb
begin

text \<open>
  The memory manager as a whole: the chains built at start-up satisfy the invariant, every operation
  keeps it and returns, and as a pool of blocks it never hands out memory that is in use.
\<close>

unbundle bit_operations_syntax

section \<open>Start-up\<close>

definition initial_blocks :: "machine_kind \<Rightarrow> bool \<Rightarrow> blk list" where
  "initial_blocks mk expanded = [Blk MCB_DOS 1, Blk MCB_FREE 4, Blk 0x40 16] @ (case mk of
     Tandy \<Rightarrow> [Blk MCB_FREE (0x9BFF - 0x187)]
   | PCjr \<Rightarrow> if expanded then [Blk MCB_DOS (0x2400 - 0x187 - 1), Blk MCB_FREE (0x9FFF - 0x2400 - 1)]
             else [Blk MCB_FREE (0x1800 - 0x187 - 1)]
   | OtherMachine \<Rightarrow> [Blk MCB_FREE (0x9FFE - 0x187)])"

lemma setup_chain:
  "chain (mcbs (DOS_SetupMemory e s)) 0x16f (initial_blocks (machine s) e)"
  "firstMCB (DOS_SetupMemory e s) = 0x16f"
  "machine (DOS_SetupMemory e s) = machine s" "dos_psp (DOS_SetupMemory e s) = dos_psp s"
  by (cases "machine s"; cases e;
      simp add: DOS_SetupMemory_def Let_def initial_blocks_def write_mcb_def mcb_access hdr_def DOS_MEM_START_def
        kilobytes_to_segment_def umb_start_seg_def MCB_DOS_def MCB_FREE_def)+

lemma last_mcb_chain: "chain (mcbs s) a (bs @ [b]) \<Longrightarrow> last_mcb (of_nat a) s = Some (of_nat (a + span bs))"
proof (induction bs arbitrary: a)
  case Nil
  then show ?case by (subst last_mcb.simps) (simp add: hdr_def GetType_def)
next
  case (Cons c bs)
  have h: "hdr (mcbs s) a middle_mcb_type c" "chain (mcbs s) (a + len c + 1) (bs @ [b])"
    using Cons.prems by (simp_all add: chain_Cons)
  have "of_nat a + GetSize (of_nat a) s + 1 = (of_nat (a + len c + 1) :: u16)" "GetType (of_nat a) s = middle_mcb_type"
    using h by (simp_all add: hdr_def mcb_access)
  then have "last_mcb (of_nat a) s = last_mcb (of_nat (a + len c + 1)) s"
    by (subst last_mcb.simps) (simp del: of_nat_add of_nat_Suc)
  then show ?case using Cons.IH [OF h(2)] by (simp add: add.assoc)
qed

definition upper_blocks :: "bool \<Rightarrow> blk list" where
  "upper_blocks ems = [Blk 8 (0xd000 - 0x9fff - 1), Blk MCB_FREE (if ems then 0x0fff else 0x1fff)]"

lemma build_off:
  assumes "\<not> (umb \<and> machine s = OtherMachine)"
  shows "DOS_BuildUMBChain umb ems (DOS_SetupMemory e s) = Some ((DOS_SetupMemory e s)\<lparr>startOfUMBChain := 0xffff, chainingUMB := 0\<rparr>)"
    "dos_inv ((DOS_SetupMemory e s)\<lparr>startOfUMBChain := 0xffff, chainingUMB := 0\<rparr>) (initial_blocks (machine s) e) []"
  using assms setup_chain [of e s]
  by (auto simp: DOS_BuildUMBChain_def dos_inv_def linked_def umb_on_def umb_start_seg_def initial_blocks_def)

lemma build_on:
  assumes "machine s = OtherMachine"
  shows "\<exists>t. DOS_BuildUMBChain True ems (DOS_SetupMemory e s) = Some t \<and> umb_on t \<and> chainingUMB t = 0 \<and>
    dos_psp t = dos_psp s \<and> firstMCB t = 0x16f \<and> dos_inv t (initial_blocks OtherMachine e) (upper_blocks ems)"
proof -
  let ?s = "DOS_SetupMemory e s"
  let ?i = "initial_blocks OtherMachine e"
  define n where "n = (if ems then 0x0fff else 0x1fff :: nat)"
  have sp: "span ?i = 0x9fff - 0x16f" "span (butlast ?i) = 24" "?i \<noteq> []" "last ?i = Blk MCB_FREE (0x9FFE - 0x187)"
    by (simp_all add: initial_blocks_def)
  have split: "?i = butlast ?i @ [last ?i]" using sp(3) by simp
  define s1 where "s1 = seq_do [\<lambda>s. s\<lparr>startOfUMBChain := umb_start_seg\<rparr>, \<lambda>s. s\<lparr>chainingUMB := 0\<rparr>,
     SetPSPSeg 0xd000 0, SetSize 0xd000 ((if ems then 0x1000 else 0x2000) - 1), SetType 0xd000 ending_mcb_type] ?s"
  have m1: "mcbs s1 = (mcbs ?s)(0xd000 := (mcbs ?s 0xd000)\<lparr>psp_segment := 0, mcb_size := of_nat n, mcb_type := ending_mcb_type\<rparr>)"
    "firstMCB s1 = 0x16f" "startOfUMBChain s1 = umb_start_seg" "chainingUMB s1 = 0" "dos_psp s1 = dos_psp s"
    using setup_chain [of e s] by (auto simp: s1_def mcb_access n_def)
  have c1: "chain (mcbs s1) 0x16f ?i"
  proof -
    have "chain (mcbs s1) 0x16f ?i = chain (mcbs ?s) 0x16f ?i"
      by (rule chain_cong) (use seg_inj [of _ "0xd000"] sp in \<open>simp add: m1\<close>)
    then show ?thesis using setup_chain(1) [of e s] assms by simp
  qed
  have cover: "0x9fff = (of_nat (0x16f + 24) + GetSize (of_nat (0x16f + 24)) s1 + 1 :: u16)"
    "last_mcb (0x16f) s1 = Some (of_nat (0x16f + 24))"
  proof -
    have "hdr (mcbs s1) (0x16f + 24) ending_mcb_type (last ?i)"
      using c1 sp by (subst (asm) split) (simp add: chain_append)
    then show "0x9fff = (of_nat (0x16f + 24) + GetSize (of_nat (0x16f + 24)) s1 + 1 :: u16)"
      using sp(4) by (simp add: hdr_def GetSize_def)
    show "last_mcb (0x16f) s1 = Some (of_nat (0x16f + 24))"
      using last_mcb_chain [of s1 "0x16f" "butlast ?i" "last ?i", unfolded append_butlast_last_id [OF sp(3)]] c1 sp(2) by simp
  qed
  define t where "t = seq_do [SetType 0x9fff middle_mcb_type, SetPSPSeg 0x9fff 8, SetSize 0x9fff (0xd000 - 0x9fff - 1),
      SetFileName 0x9fff [0x53, 0x43, 0x20, 0x20, 0x20, 0x20, 0x20, 0x20]] s1"
  have b: "DOS_BuildUMBChain True ems ?s = Some t"
  proof -
    have c: "True \<and> machine ?s = OtherMachine" using assms setup_chain(3) by simp
    show ?thesis
      unfolding DOS_BuildUMBChain_def if_P [OF c] Let_def s1_def [symmetric] m1(2) cover(2) option.case
        cover(1) [symmetric] t_def by (rule refl)
  qed
  have mt: "mcbs t = (mcbs s1)(0x9fff := (mcbs s1 0x9fff)\<lparr>mcb_type := middle_mcb_type, psp_segment := 8,
      mcb_size := 0xd000 - 0x9fff - 1, filename := [0x53, 0x43, 0x20, 0x20, 0x20, 0x20, 0x20, 0x20]\<rparr>)"
    "firstMCB t = 0x16f" "startOfUMBChain t = umb_start_seg" "chainingUMB t = 0" "dos_psp t = dos_psp s"
    by (simp_all add: t_def mcb_access m1)
  have c2: "chain (mcbs t) 0x16f ?i"
  proof -
    have "chain (mcbs t) 0x16f ?i = chain (mcbs s1) 0x16f ?i"
      by (rule chain_cong) (use seg_inj [of _ "0x9fff"] sp in \<open>simp add: mt\<close>)
    then show ?thesis using c1 by simp
  qed
  have c3: "chain (mcbs t) 0x9fff (upper_blocks ems)"
    by (simp add: upper_blocks_def mt m1 hdr_def n_def MCB_FREE_def)
  have "dos_inv t ?i (upper_blocks ems)"
    using c2 c3 sp by (simp add: dos_inv_def mt umb_on_def linked_def) (simp add: upper_blocks_def MCB_FREE_def)
  then show ?thesis using b mt by (auto simp: umb_on_def linked_def)
qed

section \<open>Reachable states\<close>

datatype dm_op = OpAlloc u16 | OpResize u16 u16 | OpFree u16 | OpFreeProcess u16 | OpStrategy u16
  | OpLink u16 | OpPsp u16

fun dm_exec :: "dm_op \<Rightarrow> dos_mem \<Rightarrow> (dm_error + dos_mem) option" where
  "dm_exec (OpAlloc n) s = and_then (DOS_AllocateMemory n s) (\<lambda>(r, t). Some (Inr t))"
| "dm_exec (OpResize seg n) s = and_then (DOS_ResizeMemory seg n s) (\<lambda>(r, t). Some (Inr t))"
| "dm_exec (OpFree seg) s = Some (Inr (snd (DOS_FreeMemory seg s)))"
| "dm_exec (OpFreeProcess p) s = DOS_FreeProcessMemory p s"
| "dm_exec (OpStrategy v) s = Some (Inr (snd (DOS_SetMemAllocStrategy v s)))"
| "dm_exec (OpLink v) s = map_option (\<lambda>(r, t). Inr t) (DOS_LinkUMBsToMemChain v s)"
| "dm_exec (OpPsp p) s = Some (Inr (s\<lparr>dos_psp := p\<rparr>))"

text \<open>
  What a well-behaved program does: it resizes segments that head a block in use, leaves the system
  block that covers the video memory alone, and a process identifier is not zero.
\<close>

fun dm_allowed :: "dm_op \<Rightarrow> dos_mem \<Rightarrow> bool" where
  "dm_allowed (OpResize seg n) s = (\<exists>pre up b. dos_inv s pre up \<and> block_at s pre up (unat (seg - 1)) b \<and> owner b \<noteq> MCB_FREE)"
| "dm_allowed (OpFree seg) s = (seg \<noteq> 0xA000)"
| "dm_allowed (OpFreeProcess p) s = (GetPSPSeg 0x9fff s \<noteq> p)"
| "dm_allowed (OpPsp p) s = (p \<noteq> MCB_FREE)"
| "dm_allowed _ s = True"

inductive dm_reach :: "dos_mem \<Rightarrow> bool" where
  boot: "DOS_BuildUMBChain umb ems (DOS_SetupMemory e s0) = Some s \<Longrightarrow> dos_psp s0 \<noteq> MCB_FREE \<Longrightarrow> dm_reach s"
| step: "dm_reach s \<Longrightarrow> dm_allowed op s \<Longrightarrow> dm_exec op s = Some (Inr t) \<Longrightarrow> dm_reach t"

definition dm_wf :: "dos_mem \<Rightarrow> bool" where
  "dm_wf s = (dos_psp s \<noteq> MCB_FREE \<and> (\<exists>pre up. dos_inv s pre up))"

lemma chain_unique: "chain m a bs \<Longrightarrow> chain m a bs' \<Longrightarrow> bs = bs'"
proof (induction m a bs arbitrary: bs' rule: chain.induct)
  case (2 m a b)
  then obtain b' cs where "bs' = b' # cs" by (cases bs') simp_all
  then show ?case using 2 by (cases cs) (auto simp: hdr_def seg_inj intro!: blk.expand)
next
  case (3 m a b c bs)
  then obtain b' c' cs where b': "bs' = b' # c' # cs"
    by (cases "(m, a, bs')" rule: chain.cases) (auto simp: hdr_def)
  then have "len b = len b'" "owner b = owner b'" using 3 by (auto simp: hdr_def seg_inj)
  then have e: "b = b'" by (intro blk.expand) simp
  then have "c # bs = c' # cs" using 3 b' by simp
  then show ?case using e b' by simp
qed simp

lemma dos_inv_unique: "dos_inv s pre up \<Longrightarrow> dos_inv s pre' up' \<Longrightarrow> pre = pre' \<and> up = up'"
proof -
  assume a: "dos_inv s pre up" "dos_inv s pre' up'"
  have u: "up = up'" using a chain_unique by (auto simp: dos_inv_def split: if_splits)
  have "pre @ (if linked s then up else []) = pre' @ (if linked s then up' else [])"
    using a chain_unique unfolding dos_inv_def by blast
  then show ?thesis using u by simp
qed

lemma block_at_compact:
  assumes "block_at s pre up x b" "owner b \<noteq> MCB_FREE"
  shows "block_at (s\<lparr>mcbs := m\<rparr>) (merge_free pre) (compacted s up) x b"
proof -
  have "(x, b) \<in> set (locs a (merge_free bs))" if "(x, b) \<in> set (locs a bs)" for a bs
  proof -
    have "(x, b) \<in> set (owned a (merge_free bs))" unfolding merge_free_owned using that assms(2) by (simp add: owned_def)
    then show ?thesis by (simp add: owned_def)
  qed
  then show ?thesis using assms(1) by (auto simp: block_at_def compacted_def)
qed

lemma allocate_total:
  assumes inv: "dos_inv s pre up" and n: "n < 65536"
  shows "\<exists>res t m. DOS_AllocateMemory (of_nat n) s = Some (Inr (res, t)) \<and>
    (let s1 = s\<lparr>mcbs := m\<rparr>; pre1 = merge_free pre; up1 = compacted s up; k = allocation_strategy s AND 0x3f;
         vis = visited s pre1 up1 in keeps_owned (mcbs s) m \<and> dos_inv s1 pre1 up1 \<and>
     (if \<exists>c\<in>set vis. fits n (snd c)
      then \<exists>x b m'. chosen n k vis x b \<and> res = Allocated (of_nat (alloc_seg k n x b)) \<and> t = s\<lparr>mcbs := m'\<rparr> \<and>
        dos_inv t (at (unat (firstMCB s)) pre1 x (alloc_effect k n (dos_psp s)))
          (at 0x9fff up1 x (alloc_effect k n (dos_psp s)))
      else res = NoMemory (of_nat (big n vis)) \<and> t = s1\<lparr>errorcode := DOSERR_INSUFFICIENT_MEMORY\<rparr>))"
proof -
  obtain m where m: "DOS_CompressMemory s = Some (Inr (s\<lparr>mcbs := m\<rparr>))" "keeps_owned (mcbs s) m"
    "dos_inv (s\<lparr>mcbs := m\<rparr>) (merge_free pre) (compacted s up)" using compress_inv [OF inv] by blast
  let ?s = "s\<lparr>mcbs := m\<rparr>" and ?k = "allocation_strategy s AND 0x3f" and ?name = "GetFileName (dos_psp s - 1) (s\<lparr>mcbs := m\<rparr>)"
  have v: "visited ?s p u = visited s p u" for p u by (simp add: visited_def)
  obtain res where r: "allocate_loop (of_nat n) (startOfUMBChain s) ?name (allocation_strategy s)
       (if startOfUMBChain s = umb_start_seg \<and> allocation_strategy s AND 0xc0 \<noteq> 0 then startOfUMBChain s else firstMCB s)
       \<lparr>bigsize = 0, found_seg = 0, found_seg_size = 0\<rparr> ?s = Some res"
    "outcome n ?k ?name ?s (visited s (merge_free pre) (compacted s up)) res"
    using allocate_search [OF m(3) n, of ?name] by (simp add: v cong: if_cong) blast
  have e: "DOS_AllocateMemory (of_nat n) s = Some (Inr res)"
    using r(1) by (simp add: DOS_AllocateMemory_def and_then_def m(1) Let_def cong: if_cong split del: if_split)
  have "outcome n ?k ?name ?s (visited ?s (merge_free pre) (compacted s up)) res" using r(2) by (simp add: v)
  note A = allocate_inv [OF m(3) n this, unfolded v]
  obtain q t where res: "res = (q, t)" by (cases res)
  show ?thesis
    by (rule exI [of _ q], rule exI [of _ t], rule exI [of _ m])
      (use A m e res in \<open>auto simp: Let_def split: if_splits\<close>)
qed

lemma resize_total:
  assumes inv: "dos_inv s pre up" and b: "block_at s pre up x b" "owner b \<noteq> MCB_FREE"
    and p: "dos_psp s \<noteq> MCB_FREE" and n: "n < 65536"
  shows "\<exists>vs m. stands s (merge_free pre) (compacted s up) x [b] vs \<and>
    DOS_ResizeMemory (of_nat (x + 1)) (of_nat n) s = Some (Inr (if n \<le> avail b vs
       then (Allocated (of_nat (x + 1)), s\<lparr>mcbs := m\<rparr>)
       else (NoMemory (of_nat (avail b vs)), DOS_SetError DOSERR_INSUFFICIENT_MEMORY (s\<lparr>mcbs := m\<rparr>)))) \<and>
    dos_inv (s\<lparr>mcbs := m\<rparr>)
      (merge_free (at (unat (firstMCB s)) (merge_free pre) x (resize_effect (dos_psp s) n)))
      (compacted s (at 0x9fff (compacted s up) x (resize_effect (dos_psp s) n)))"
proof -
  obtain m0 where m0: "DOS_CompressMemory s = Some (Inr (s\<lparr>mcbs := m0\<rparr>))"
    "dos_inv (s\<lparr>mcbs := m0\<rparr>) (merge_free pre) (compacted s up)" using compress_inv [OF inv] by blast
  obtain vs where st: "stands (s\<lparr>mcbs := m0\<rparr>) (merge_free pre) (compacted s up) x [b] vs"
    using block_at_stands [OF block_at_compact [OF b]] by blast
  obtain m where m: "resize_block (of_nat (x + 1)) (of_nat n) (s\<lparr>mcbs := m0\<rparr>) = Some (Inr (if n \<le> avail b vs
       then (Allocated (of_nat (x + 1)), s\<lparr>mcbs := m\<rparr>)
       else (NoMemory (of_nat (avail b vs)), DOS_SetError DOSERR_INSUFFICIENT_MEMORY (s\<lparr>mcbs := m\<rparr>))))"
    "dos_inv (s\<lparr>mcbs := m\<rparr>) (merge_free (at (unat (firstMCB s)) (merge_free pre) x (resize_effect (dos_psp s) n)))
      (compacted s (at 0x9fff (compacted s up) x (resize_effect (dos_psp s) n)))"
    using resize_block_inv [OF m0(2) st settled_compacted _ n] p by (simp cong: if_cong) blast
  obtain ws where "stands s pre up x [b] ws" using block_at_stands [OF b(1)] by blast
  then have "GetType (of_nat x) s = middle_mcb_type \<or> GetType (of_nat x) s = ending_mcb_type"
    using stands_hdr [OF inv] by (fastforce simp: hdr_def GetType_def split: if_splits)
  then have "DOS_ResizeMemory (of_nat (x + 1)) (of_nat n) s = resize_block (of_nat (x + 1)) (of_nat n) (s\<lparr>mcbs := m0\<rparr>)"
    by (auto simp: DOS_ResizeMemory_def and_then_def m0(1))
  then show ?thesis using m st by (intro exI [of _ vs] exI [of _ m]) (simp add: stands_def)
qed

lemma free_total:
  assumes inv: "dos_inv s pre up" and cover: "umb_on s \<Longrightarrow> seg \<noteq> 0xA000"
  shows "\<exists>m. snd (DOS_FreeMemory seg s) = (if fst (DOS_FreeMemory seg s) then s\<lparr>mcbs := m\<rparr>
       else DOS_SetError DOSERR_MB_ADDRESS_INVALID s) \<and>
    dos_inv (s\<lparr>mcbs := m\<rparr>) (at (unat (firstMCB s)) pre (unat (seg - 1)) free_effect) (at 0x9fff up (unat (seg - 1)) free_effect)"
proof -
  have "unat (seg - 1) < 65536" using unsigned_less [of "seg - 1"] by simp
  moreover have "unat (seg - 1) \<noteq> 0x9fff" if "umb_on s"
  proof
    assume "unat (seg - 1) = 0x9fff"
    then have "seg - 1 = 0x9fff" by (simp add: word_unat_eq_iff)
    then have "seg = 0xA000" by (simp add: diff_eq_eq)
    then show False using cover that by blast
  qed
  ultimately obtain m where "SetPSPSeg (of_nat (unat (seg - 1))) MCB_FREE s = s\<lparr>mcbs := m\<rparr>"
    "dos_inv (s\<lparr>mcbs := m\<rparr>) (at (unat (firstMCB s)) pre (unat (seg - 1)) free_effect) (at 0x9fff up (unat (seg - 1)) free_effect)"
    using free_inv [OF inv] by blast
  then show ?thesis by (intro exI [of _ m]) (auto simp: DOS_FreeMemory_def Let_def)
qed

lemma link_total:
  assumes inv: "dos_inv s pre up"
  shows "\<exists>r t. DOS_LinkUMBsToMemChain v s = Some (r, t) \<and> dos_psp t = dos_psp s \<and> dos_inv t pre up"
proof (cases "umb_on s \<and> v AND 1 \<noteq> ucast (chainingUMB s) AND 1")
  case False
  then show ?thesis using inv by (auto simp: DOS_LinkUMBsToMemChain_def Let_def umb_on_def)
next
  case True
  then have on: "umb_on s" by simp
  have b: "ucast (chainingUMB s) AND (1::u16) = 0 \<longleftrightarrow> \<not> linked s"
    using on by (simp add: linked_def and_1_bits bit_ucast_iff)
  show ?thesis
  proof (cases "v = 0 \<or> v = 1")
    case v: True
    have "(ucast (chainingUMB s) :: u16) AND 1 \<noteq> 0 \<Longrightarrow> (ucast (chainingUMB s) :: u16) AND 1 = 1"
      by (simp add: and_one_eq mod2_eq_if split: if_splits)
    then have "v = 0 \<and> linked s \<or> v = 1 \<and> \<not> linked s" using True b v by auto
    then show ?thesis using link_inv [OF inv on] unlink_inv [OF inv] by fastforce
  next
    case v: False
    let ?f = "unat (firstMCB s)"
    have I: "pre \<noteq> []" "chain (mcbs s) ?f (pre @ (if linked s then up else []))" "up \<noteq> []" "?f + span pre = 0x9fff"
      using inv on by (simp_all add: dos_inv_def)
    obtain bs c where pre: "pre = bs @ [c]" using I(1) by (cases pre rule: rev_cases) simp_all
    have u: "umb_start_seg = (of_nat 0x9fff :: u16)" by (simp add: umb_start_seg_def)
    have "\<exists>q. find_umb (of_nat 0x9fff) (firstMCB s) (firstMCB s) s = Some q"
    proof (cases "linked s")
      case li: True
      then have "mid (mcbs s) ?f pre" using I by (simp add: chain_append)
      then show ?thesis using find_umb_mid [of s ?f bs c "0x9fff"] I pre by simp
    next
      case False
      then show ?thesis using find_umb_chain [of s ?f bs c "0x9fff"] I pre by fastforce
    qed
    then show ?thesis using inv True v unfolding DOS_LinkUMBsToMemChain_def Let_def umb_on_def u by auto
  qed
qed

section \<open>Every operation returns and keeps the invariant\<close>

lemma seg_pred: "of_nat (unat (seg - 1) + 1) = (seg :: u16)"
  by simp

lemma dm_exec_wf:
  assumes wf: "dm_wf s" and al: "dm_allowed op s"
  shows "\<exists>t. dm_exec op s = Some (Inr t) \<and> dm_wf t"
proof -
  obtain pre up where inv: "dos_inv s pre up" and p: "dos_psp s \<noteq> MCB_FREE" using wf by (auto simp: dm_wf_def)
  show ?thesis
  proof (cases op)
    case (OpAlloc n)
    have n: "unat n < 65536" "of_nat (unat n) = n" using unsigned_less [of n] by simp_all
    obtain res t m where a: "DOS_AllocateMemory n s = Some (Inr (res, t))" "dos_inv (s\<lparr>mcbs := m\<rparr>) (merge_free pre) (compacted s up)"
      "(\<exists>x b m' p1 u1. t = s\<lparr>mcbs := m'\<rparr> \<and> dos_inv t p1 u1) \<or> t = s\<lparr>mcbs := m\<rparr>\<lparr>errorcode := DOSERR_INSUFFICIENT_MEMORY\<rparr>"
      using allocate_total [OF inv n(1)] unfolding n(2) Let_def by (metis (lifting))
    have "dm_wf t" using a(3)
    proof
      assume "t = s\<lparr>mcbs := m\<rparr>\<lparr>errorcode := DOSERR_INSUFFICIENT_MEMORY\<rparr>"
      then show ?thesis using a(2) p by (auto simp: dm_wf_def)
    qed (use p in \<open>auto simp: dm_wf_def\<close>)
    then show ?thesis using a OpAlloc by (simp add: and_then_def)
  next
    case (OpResize seg n)
    have n: "unat n < 65536" "of_nat (unat n) = n" using unsigned_less [of n] by simp_all
    obtain b where b: "block_at s pre up (unat (seg - 1)) b" "owner b \<noteq> MCB_FREE"
      using al OpResize dos_inv_unique [OF inv] by auto
    show ?thesis using resize_total [OF inv b p n(1)] p unfolding n(2) seg_pred
      by (auto simp: OpResize and_then_def dm_wf_def DOS_SetError_def split: if_splits) blast+
  next
    case (OpFree seg)
    have "seg \<noteq> 0xA000" using al OpFree by simp
    then show ?thesis using free_total [OF inv, of seg] inv p
      by (auto simp: OpFree dm_wf_def DOS_SetError_def split: if_splits) blast+
  next
    case (OpFreeProcess q)
    have "owner (hd up) \<noteq> q" if "umb_on s"
    proof -
      have "chain (mcbs s) 0x9fff up" "up \<noteq> []" using inv that by (simp_all add: dos_inv_def)
      then have "owner (hd up) = GetPSPSeg 0x9fff s"
        by (cases "(mcbs s, 0x9fff::nat, up)" rule: chain.cases) (auto simp: hdr_def GetPSPSeg_def)
      then show ?thesis using al OpFreeProcess by simp
    qed
    then show ?thesis using free_process_inv [OF inv] p by (fastforce simp: OpFreeProcess dm_wf_def)
  next
    case (OpStrategy v)
    have "dos_inv (s\<lparr>allocation_strategy := v\<rparr>) pre up" using inv by (simp add: dos_inv_def umb_on_def linked_def)
    then show ?thesis using inv p by (auto simp: OpStrategy dm_wf_def DOS_SetMemAllocStrategy_def)
  next
    case (OpLink v)
    then show ?thesis using link_total [OF inv, of v] p by (fastforce simp: dm_wf_def)
  next
    case (OpPsp q)
    have "dos_inv (s\<lparr>dos_psp := q\<rparr>) pre up" using inv by (simp add: dos_inv_def umb_on_def linked_def)
    then show ?thesis using al by (auto simp: OpPsp dm_wf_def)
  qed
qed

lemma dm_boot_wf:
  assumes "DOS_BuildUMBChain umb ems (DOS_SetupMemory e s0) = Some s" "dos_psp s0 \<noteq> MCB_FREE"
  shows "dm_wf s"
proof (cases "umb \<and> machine s0 = OtherMachine")
  case True
  then show ?thesis using build_on [of s0 ems e] assms by (auto simp: dm_wf_def)
next
  case False
  then show ?thesis using build_off(1) [OF False, of ems e] build_off(2) [OF False, of e] assms setup_chain(4) [of e s0] by (auto simp: dm_wf_def)
qed

lemma dm_reach_wf: "dm_reach s \<Longrightarrow> dm_wf s"
proof (induction rule: dm_reach.induct)
  case (boot umb ems e s0 s)
  then show ?case by (rule dm_boot_wf)
next
  case (step s op t)
  then show ?case using dm_exec_wf [of s op] by auto
qed

section \<open>The manager as a pool of blocks\<close>

text \<open>
  What a client of a memory manager relies on: the blocks held never overlap (a header lies between
  two of them), a successful request adds exactly one block of the requested size, and releasing a
  held block removes exactly that one.
\<close>

locale block_pool =
  fixes wf :: "'s \<Rightarrow> bool" and held :: "'s \<Rightarrow> (nat \<times> nat) set"
    and grab :: "nat \<Rightarrow> 's \<Rightarrow> nat \<Rightarrow> 's \<Rightarrow> bool" and release :: "nat \<Rightarrow> 's \<Rightarrow> 's"
  assumes held_apart: "wf s \<Longrightarrow> (a, l) \<in> held s \<Longrightarrow> (a', l') \<in> held s \<Longrightarrow>
      (a, l) = (a', l') \<or> a + l < a' \<or> a' + l' < a"
    and grab_wf: "wf s \<Longrightarrow> grab n s a t \<Longrightarrow> wf t"
    and grab_held: "wf s \<Longrightarrow> grab n s a t \<Longrightarrow> held t = insert (a, n) (held s) \<and> (a, n) \<notin> held s"
    and release_wf: "wf s \<Longrightarrow> (a, l) \<in> held s \<Longrightarrow> wf (release a s)"
    and release_held: "wf s \<Longrightarrow> (a, l) \<in> held s \<Longrightarrow> held (release a s) = held s - {(a, l)}"
begin

lemma grab_release:
  assumes "wf s" "grab n s a t"
  shows "wf (release a t) \<and> held (release a t) = held s"
  using grab_wf [OF assms] grab_held [OF assms] release_wf [of t a n] release_held [of t a n] by auto

lemma grab_disjoint:
  assumes "wf s" "grab n s a t" "(b, l) \<in> held s"
  shows "{a ..< a + n} \<inter> {b ..< b + l} = {}"
proof -
  have "(a, n) \<noteq> (b, l)" using grab_held [OF assms(1,2)] assms(3) by auto
  then have "a + n < b \<or> b + l < a"
    using held_apart [OF grab_wf [OF assms(1,2)], of a n b l] grab_held [OF assms(1,2)] assms(3) by auto
  then show ?thesis by auto
qed

end

definition pool_wf :: "dos_mem \<Rightarrow> bool" where
  "pool_wf s = (dm_wf s \<and> DOS_MEM_START \<le> firstMCB s)"

text \<open>The blocks of at least one paragraph in use, the system's cover block apart: first segment and size.\<close>

definition used :: "dos_mem \<Rightarrow> blk list \<Rightarrow> blk list \<Rightarrow> (nat \<times> blk) set" where
  "used s pre up = {(x, b). block_at s pre up x b \<and> owner b \<noteq> MCB_FREE \<and> 0 < len b \<and> \<not> (umb_on s \<and> x = 0x9fff)}"

definition in_use :: "dos_mem \<Rightarrow> blk list \<Rightarrow> blk list \<Rightarrow> (nat \<times> nat) set" where
  "in_use s pre up = (\<lambda>(x, b). (x + 1, len b)) ` used s pre up"

definition pool_held :: "dos_mem \<Rightarrow> (nat \<times> nat) set" where
  "pool_held s = {c. \<exists>pre up. dos_inv s pre up \<and> c \<in> in_use s pre up}"

definition pool_grab :: "nat \<Rightarrow> dos_mem \<Rightarrow> nat \<Rightarrow> dos_mem \<Rightarrow> bool" where
  "pool_grab n s a t = (0 < n \<and> n < 65536 \<and> a < 65536 \<and> DOS_AllocateMemory (of_nat n) s = Some (Inr (Allocated (of_nat a), t)))"

definition pool_release :: "nat \<Rightarrow> dos_mem \<Rightarrow> dos_mem" where
  "pool_release a s = snd (DOS_FreeMemory (of_nat a) s)"

lemma pool_held_inv: "dos_inv s pre up \<Longrightarrow> pool_held s = in_use s pre up"
  using dos_inv_unique unfolding pool_held_def by blast

lemma in_use_upd [simp]: "used (s\<lparr>mcbs := m\<rparr>) = used s" "in_use (s\<lparr>mcbs := m\<rparr>) = in_use s"
  by (intro ext; simp add: in_use_def used_def block_at_def)+

lemma owned_iff: "(x, b) \<in> set (owned a bs) \<longleftrightarrow> (x, b) \<in> set (locs a bs) \<and> owner b \<noteq> MCB_FREE"
  by (auto simp: owned_def)

lemma used_owned: "used s pre up = {(x, b). ((x, b) \<in> set (owned (unat (firstMCB s)) pre) \<or>
    umb_on s \<and> (x, b) \<in> set (owned 0x9fff up)) \<and> 0 < len b \<and> \<not> (umb_on s \<and> x = 0x9fff)}"
  unfolding used_def block_at_def owned_iff by blast

lemma in_use_compact: "in_use s (merge_free pre) (compacted s up) = in_use s pre up"
proof -
  have "owned 0x9fff (compacted s up) = owned 0x9fff up" by (simp add: compacted_def merge_free_owned)
  then show ?thesis by (simp add: in_use_def used_owned merge_free_owned)
qed

lemma locs_apart:
  "(x, b) \<in> set (locs a bs) \<Longrightarrow> (y, c) \<in> set (locs a bs) \<Longrightarrow> (x, b) = (y, c) \<or> x + len b < y \<or> y + len c < x"
proof (induction bs arbitrary: a)
  case (Cons d bs)
  have ge: "a + len d < z" if "(z, e) \<in> set (locs (a + len d + 1) bs)" for z e using locs_ge [OF that] by simp
  show ?case using Cons.prems Cons.IH [of "a + len d + 1"] ge by auto
qed simp

lemma block_at_apart:
  assumes inv: "dos_inv s pre up" and xy: "block_at s pre up x b" "block_at s pre up y c"
  shows "(x, b) = (y, c) \<or> x + len b < y \<or> y + len c < x"
proof -
  have e: "unat (firstMCB s) + span pre = 0x9fff" if "umb_on s" using inv that by (simp add: dos_inv_def)
  have cross: "z + len d < w" if "(z, d) \<in> set (locs (unat (firstMCB s)) pre)" "(w, f) \<in> set (locs 0x9fff up)" "umb_on s" for z d w f
    using locs_ge [OF that(1)] locs_ge [OF that(2)] e [OF that(3)] by simp
  show ?thesis using xy locs_apart cross unfolding block_at_def by metis
qed

lemma in_use_apart:
  assumes "dos_inv s pre up" "(a, l) \<in> in_use s pre up" "(a', l') \<in> in_use s pre up"
  shows "(a, l) = (a', l') \<or> a + l < a' \<or> a' + l' < a"
  using assms(2,3) block_at_apart [OF assms(1)] by (fastforce simp: in_use_def used_def)

text \<open>How rewriting a block changes the blocks in use.\<close>

lemma used_at:
  assumes inv: "dos_inv s pre up" and st: "stands s pre up x [b] vs"
    and g: "g (b # vs) = news @ vs" and sp: "span news = len b + 1"
  shows "used s (at (unat (firstMCB s)) pre x g) (at 0x9fff up x g) = (used s pre up - {(x, b)}) \<union>
    {(y, c). (y, c) \<in> set (owned x news) \<and> 0 < len c \<and> \<not> (umb_on s \<and> y = 0x9fff)}"
proof -
  let ?f = "unat (firstMCB s)"
  have ow: "set (owned a (us @ news @ vs)) = (set (owned a (us @ b # vs)) - {(a + span us, b)}) \<union> set (owned (a + span us) news)" for a us
  proof -
    have "(a + span us, b) \<notin> set (locs a us)" "(a + span us, b) \<notin> set (locs (a + span us + len b + 1) vs)"
      using locs_ge [of "a + span us" b a us] locs_ge [of "a + span us" b "a + span us + len b + 1" vs] by auto
    then show ?thesis using sp by (auto simp: owned_def add.assoc)
  qed
  have far: "(x, b) \<notin> set (owned a bs)" if "x < a \<or> a + span bs \<le> x" for a bs
    using that locs_ge [of x b a bs] by (auto simp: owned_iff)
  have e: "umb_on s \<Longrightarrow> ?f + span pre = 0x9fff" using inv by (simp add: dos_inv_def)
  have "[b] \<noteq> []" by simp
  from stands_at [OF inv st this, of g] show ?thesis
  proof (elim disjE conjE exE)
    fix us assume us: "pre = us @ [b] @ vs" "x = ?f + span us" "at ?f pre x g = us @ g ([b] @ vs)" "at 0x9fff up x g = up"
    have f2: "umb_on s \<Longrightarrow> (x, b) \<notin> set (owned 0x9fff up)" using e us by (intro far) simp
    have "at ?f pre x g = us @ news @ vs" using us g by simp
    then show ?thesis unfolding used_owned us(4) using ow [of ?f us] us(1,2) f2 by auto
  next
    fix us assume on: "umb_on s" and us: "up = us @ [b] @ vs" "x = 0x9fff + span us" "at ?f pre x g = pre" "at 0x9fff up x g = us @ g ([b] @ vs)"
    have f2: "(x, b) \<notin> set (owned ?f pre)" using e [OF on] us by (intro far) simp
    have "at 0x9fff up x g = us @ news @ vs" using us g by simp
    then show ?thesis unfolding used_owned us(3) using ow [of "0x9fff" us] us(1,2) f2 on by auto
  qed
qed

lemma owned_carve:
  assumes "p \<noteq> MCB_FREE" "n \<le> len b"
  shows "owned x (carve k n p b) = [(alloc_seg k n x b - 1, Blk p n)]"
  using assms by (auto simp: owned_def carve_def alloc_seg_def)

lemma span_carve: "n \<le> len b \<Longrightarrow> span (carve k n p b) = len b + 1"
  by (simp add: carve_def)

lemma pool_grab_effect:
  assumes inv: "dos_inv s pre up" and p: "dos_psp s \<noteq> MCB_FREE" and gr: "pool_grab n s a t"
  shows "\<exists>p1 u1 m. t = s\<lparr>mcbs := m\<rparr> \<and> dos_inv t p1 u1 \<and> in_use s p1 u1 = insert (a, n) (in_use s pre up) \<and>
    (a, n) \<notin> in_use s pre up"
proof -
  have n: "n < 65536" "a < 65536" "0 < n" using gr by (simp_all add: pool_grab_def)
  let ?pre = "merge_free pre" and ?up = "compacted s up" and ?k = "allocation_strategy s AND 0x3f" and ?f = "unat (firstMCB s)"
  let ?vis = "visited s (merge_free pre) (compacted s up)"
  obtain m x b m' where c: "dos_inv (s\<lparr>mcbs := m\<rparr>) ?pre ?up" "chosen n ?k ?vis x b" "of_nat a = (of_nat (alloc_seg ?k n x b) :: u16)"
    "t = s\<lparr>mcbs := m'\<rparr>" "dos_inv t (at ?f ?pre x (alloc_effect ?k n (dos_psp s))) (at 0x9fff ?up x (alloc_effect ?k n (dos_psp s)))"
    using allocate_total [OF inv n(1)] gr by (auto simp: pool_grab_def Let_def split: if_splits)
  have v: "visited (s\<lparr>mcbs := m\<rparr>) p u = visited s p u" "umb_on (s\<lparr>mcbs := m\<rparr>) = umb_on s" for p u by (simp_all add: visited_def)
  have xb: "(x, b) \<in> set (visited (s\<lparr>mcbs := m\<rparr>) ?pre ?up)" and fit: "n \<le> len b" "owner b = MCB_FREE"
    using chosen_fits [OF c(2)] by (auto simp: v fits_def)
  note vs = visited_stands [OF c(1) xb]
  obtain ws where st: "stands (s\<lparr>mcbs := m\<rparr>) ?pre ?up x [b] ws" using vs(1) by blast
  have al: "alloc_seg ?k n x b = a" 
  proof -
    have "x + 1 < 65536" "x + 1 + len b - n < 65536" using vs(2) n fit by linarith+
    then have "alloc_seg ?k n x b < 65536" by (simp add: alloc_seg_def)
    then show ?thesis using c(3) n(2) by (simp only: seg_inj)
  qed
  have ge: "x \<le> a - 1" "a - 1 \<le> x + len b" "1 \<le> a" unfolding al [symmetric] using fit by (auto simp: alloc_seg_def)
  have cov: "\<not> (umb_on s \<and> a - 1 = 0x9fff)"
  proof
    assume u: "umb_on s \<and> a - 1 = 0x9fff"
    then have "x \<noteq> 0x9fff" using vs(3) fit by auto
    moreover have "x + len b < 0x9fff \<or> 0x9fff \<le> x" using st unfolding stands_def
    proof (elim disjE conjE exE)
      fix us assume e: "?pre = us @ [b] @ ws" "x = unat (firstMCB (s\<lparr>mcbs := m\<rparr>)) + span us"
      have "?f + span ?pre = 0x9fff" using u c(1) by (simp add: dos_inv_def)
      then show ?thesis using e(2) unfolding e(1) by simp
    qed simp
    ultimately show False using ge u by auto
  qed
  have nu: "(x, b) \<notin> used s ?pre ?up" using fit by (simp add: used_def)
  have U: "used s (at ?f ?pre x (alloc_effect ?k n (dos_psp s))) (at 0x9fff ?up x (alloc_effect ?k n (dos_psp s))) =
      (used s ?pre ?up - {(x, b)}) \<union> {(y, c). (y, c) \<in> set (owned x (carve ?k n (dos_psp s) b)) \<and> 0 < len c \<and> \<not> (umb_on s \<and> y = 0x9fff)}"
    using used_at [OF c(1) st, of "alloc_effect ?k n (dos_psp s)" "carve ?k n (dos_psp s) b"] fit(1)
    by (simp add: alloc_effect_def span_carve)
  have "used s (at ?f ?pre x (alloc_effect ?k n (dos_psp s))) (at 0x9fff ?up x (alloc_effect ?k n (dos_psp s))) =
      insert (a - 1, Blk (dos_psp s) n) (used s ?pre ?up)"
    unfolding U owned_carve [OF p fit(1)] al using cov nu n(3) by auto
  then have iu: "in_use s (at ?f ?pre x (alloc_effect ?k n (dos_psp s))) (at 0x9fff ?up x (alloc_effect ?k n (dos_psp s))) =
      insert (a, n) (in_use s pre up)"
    using ge in_use_compact [of s pre up] by (simp add: in_use_def)
  have fresh: "(a, n) \<notin> in_use s pre up"
  proof
    assume "(a, n) \<in> in_use s pre up"
    then obtain d where d: "block_at (s\<lparr>mcbs := m\<rparr>) ?pre ?up (a - 1) d" "owner d \<noteq> MCB_FREE"
      unfolding in_use_compact [of s pre up, symmetric] by (auto simp: in_use_def used_def block_at_def) blast+
    have "block_at (s\<lparr>mcbs := m\<rparr>) ?pre ?up x b" using st by (auto simp: stands_def block_at_def)
    from block_at_apart [OF c(1) this d(1)] show False using ge d(2) fit by auto
  qed
  show ?thesis using c(4,5) iu fresh by blast
qed

lemma pool_release_effect:
  assumes inv: "dos_inv s pre up" and u: "(a, l) \<in> in_use s pre up" and st0: "DOS_MEM_START \<le> firstMCB s"
  shows "\<exists>p1 u1 m. pool_release a s = s\<lparr>mcbs := m\<rparr> \<and> dos_inv (s\<lparr>mcbs := m\<rparr>) p1 u1 \<and>
    in_use s p1 u1 = in_use s pre up - {(a, l)}"
proof -
  let ?f = "unat (firstMCB s)"
  obtain x b where x: "(x, b) \<in> used s pre up" "a = x + 1" "l = len b" using u by (auto simp: in_use_def)
  then have b: "block_at s pre up x b" "\<not> (umb_on s \<and> x = 0x9fff)" by (simp_all add: used_def)
  obtain vs where st: "stands s pre up x [b] vs" using block_at_stands [OF b(1)] by blast
  obtain t where t: "hdr (mcbs s) x t b" "t = middle_mcb_type \<or> t = ending_mcb_type"
    using stands_hdr [OF inv st] by (fastforce split: if_splits)
  have seg: "of_nat a - 1 = (of_nat x :: u16)" using x by simp
  have xb: "x + len b < 65536" "0 < len b" using t x by (simp_all add: hdr_def used_def)
  have "?f \<le> x" using b(1) inv locs_ge [of x b ?f pre] locs_ge [of x b "0x9fff" up] by (auto simp: block_at_def dos_inv_def)
  moreover have "0x16f \<le> ?f" using st0 by (simp add: DOS_MEM_START_def word_le_nat_alt)
  ultimately have nf: "\<not> (of_nat a < (DOS_MEM_START + 1 :: u16))"
    using xb x(2) by (simp add: word_less_nat_alt DOS_MEM_START_def del: of_nat_add of_nat_Suc)
  have ok: "fst (DOS_FreeMemory (of_nat a) s)"
    using nf t unfolding DOS_FreeMemory_def Let_def seg by (auto simp: hdr_def GetType_def)
  have ux: "unat (of_nat a - 1 :: u16) = x" using xb unfolding seg by simp
  have c: "umb_on s \<Longrightarrow> (of_nat a :: u16) \<noteq> 0xA000" using b(2) xb x(2) seg_inj [of a "0xA000"] by auto
  obtain m where m: "pool_release a s = s\<lparr>mcbs := m\<rparr>"
    "dos_inv (s\<lparr>mcbs := m\<rparr>) (at ?f pre x free_effect) (at 0x9fff up x free_effect)"
    using free_total [OF inv c] ok unfolding ux pool_release_def by auto
  have "used s (at ?f pre x free_effect) (at 0x9fff up x free_effect) = used s pre up - {(x, b)}"
    using used_at [OF inv st, of free_effect "[Blk MCB_FREE (len b)]"] by (auto simp: free_effect_def owned_def)
  moreover have "(\<lambda>(x, b). (x + 1, len b)) ` (used s pre up - {(x, b)}) = in_use s pre up - {(a, l)}"
  proof -
    have "inj_on (\<lambda>(x, b). (x + 1, len b)) (used s pre up)"
      using block_at_apart [OF inv] by (fastforce simp: inj_on_def used_def)
    then show ?thesis unfolding in_use_def using x by (subst inj_on_image_set_diff) auto
  qed
  ultimately have "in_use s (at ?f pre x free_effect) (at 0x9fff up x free_effect) = in_use s pre up - {(a, l)}"
    by (simp add: in_use_def)
  then show ?thesis using m by blast
qed

interpretation dos: block_pool pool_wf pool_held pool_grab pool_release
proof
  fix s :: dos_mem and a l a' l' n t
  assume wf: "pool_wf s"
  then obtain pre up where inv: "dos_inv s pre up" and p: "dos_psp s \<noteq> MCB_FREE" "DOS_MEM_START \<le> firstMCB s"
    by (auto simp: pool_wf_def dm_wf_def)
  note H = pool_held_inv [OF inv]
  show "(a, l) \<in> pool_held s \<Longrightarrow> (a', l') \<in> pool_held s \<Longrightarrow> (a, l) = (a', l') \<or> a + l < a' \<or> a' + l' < a"
    unfolding H by (rule in_use_apart [OF inv])
  show "pool_wf t" "pool_held t = insert (a, n) (pool_held s) \<and> (a, n) \<notin> pool_held s" if g: "pool_grab n s a t"
  proof -
    obtain p1 u1 m where e: "t = s\<lparr>mcbs := m\<rparr>" "dos_inv t p1 u1" "in_use s p1 u1 = insert (a, n) (in_use s pre up)" "(a, n) \<notin> in_use s pre up"
      using pool_grab_effect [OF inv p(1) g] by blast
    show "pool_wf t" using e(1,2) p by (auto simp: pool_wf_def dm_wf_def)
    have "pool_held t = in_use s p1 u1" using pool_held_inv [OF e(2)] by (simp add: e(1))
    then show "pool_held t = insert (a, n) (pool_held s) \<and> (a, n) \<notin> pool_held s" using e H by simp
  qed
  show "pool_wf (pool_release a s)" "pool_held (pool_release a s) = pool_held s - {(a, l)}" if h: "(a, l) \<in> pool_held s"
  proof -
    obtain p1 u1 m where e: "pool_release a s = s\<lparr>mcbs := m\<rparr>" "dos_inv (s\<lparr>mcbs := m\<rparr>) p1 u1" "in_use s p1 u1 = in_use s pre up - {(a, l)}"
      using pool_release_effect [OF inv _ p(2)] h unfolding H by blast
    show "pool_wf (pool_release a s)" using e(1,2) p by (auto simp: pool_wf_def dm_wf_def)
    show "pool_held (pool_release a s) = pool_held s - {(a, l)}" using pool_held_inv [OF e(2)] e H by simp
  qed
qed

section \<open>Properties\<close>

text \<open>A machine before DOS is set up, and the same after, for concrete instances.\<close>

definition zero_dos :: dos_mem where
  "zero_dos = \<lparr>mcbs = (\<lambda>_. \<lparr>mcb_type = 0, psp_segment = 0, mcb_size = 0, filename = []\<rparr>), firstMCB = 0,
     info_firstMCB = 0, startOfUMBChain = 0xffff, chainingUMB = 0, dos_psp = 0x200, errorcode = 0,
     allocation_strategy = 0, mcb_fault_strategy = Repair, machine = OtherMachine,
     real_vectors = (\<lambda>_. (0, 0)), real_bytes = (\<lambda>_. 0)\<rparr>"

definition booted :: dos_mem where
  "booted = (DOS_SetupMemory False zero_dos)\<lparr>startOfUMBChain := 0xffff, chainingUMB := 0\<rparr>"

lemma booted_inv: "dos_inv booted (initial_blocks OtherMachine False) []" "dos_psp booted = 0x200" "firstMCB booted = 0x16f"
  "allocation_strategy booted = 0"
  using build_off(2) [of False zero_dos False] setup_chain [of False zero_dos]
  by (simp_all add: booted_def zero_dos_def) (simp add: DOS_SetupMemory_def Let_def write_mcb_def mcb_access)

lemma booted_umb: "\<not> umb_on booted"
  by (simp add: umb_on_def booted_def umb_start_seg_def)

lemma booted_reach: "dm_reach booted"
  by (rule dm_reach.boot [of False False False zero_dos])
    (use build_off(1) [of False zero_dos False False] in \<open>simp_all add: booted_def zero_dos_def MCB_FREE_def\<close>)

text \<open>
  Property C2. In every state reachable from start-up by allocations, resizes, releases, process ends,
  strategy changes and linking of the upper memory blocks, both chains of memory control blocks are
  well formed: the blocks tile the conventional memory and the upper memory without gap or overlap,
  exactly the last header of a chain is marked as the end, and no chain wraps around.
\<close>

theorem dos_chains_invariant:
  assumes "dm_reach s"
  shows "\<exists>pre up. dos_inv s pre up"
  using dm_reach_wf [OF assms] by (simp add: dm_wf_def)

theorem dos_chains_invariant_witness: "dm_reach booted \<and> (\<exists>pre up. dos_inv booted pre up)"
  using dos_chains_invariant [OF booted_reach] booted_reach by blast

text \<open>
  Property C22. On a reachable state no operation of the memory manager loops or exits: every allowed
  operation returns a state, whatever the sizes, the strategy and the link state are.
\<close>

theorem dos_operations_return:
  assumes "dm_reach s" and "dm_allowed op s"
  shows "\<exists>t. dm_exec op s = Some (Inr t) \<and> dm_reach t"
  using dm_exec_wf [OF dm_reach_wf [OF assms(1)] assms(2)] dm_reach.step [OF assms] by blast

theorem dos_operations_return_witness:
  "dm_reach booted \<and> dm_allowed (OpAlloc 0x1000) booted \<and> (\<exists>t. dm_exec (OpAlloc 0x1000) booted = Some (Inr t))"
  using dos_operations_return [OF booted_reach, of "OpAlloc 0x1000"] booted_reach by auto

text \<open>
  Property C27. Compaction refines the merging of neighbouring free blocks: it returns, no two free
  blocks are neighbours afterwards, the blocks in use keep place, size and owner, headers in use are
  not written, and the range covered is the same.
\<close>

theorem dos_compress_refines:
  assumes "dos_inv s pre up"
  shows "\<exists>m. DOS_CompressMemory s = Some (Inr (s\<lparr>mcbs := m\<rparr>)) \<and> dos_inv (s\<lparr>mcbs := m\<rparr>) (merge_free pre) (compacted s up) \<and>
    keeps_owned (mcbs s) m \<and> no_free_pair (merge_free pre) \<and> span (merge_free pre) = span pre \<and>
    (\<forall>a. owned a (merge_free pre) = owned a pre)"
  using compress_inv [OF assms] merge_free_no_pair [of pre] merge_free_owned by auto

theorem dos_compress_refines_witness:
  "dos_inv booted (initial_blocks OtherMachine False) [] \<and> DOS_CompressMemory booted \<noteq> None"
  using dos_compress_refines [OF booted_inv(1)] booted_inv(1) by auto

text \<open>
  Property C5. Allocation refines a choice on the blocks the strategy visits, after compaction: with a
  free block that fits, it takes the first, the smallest or the last one as the strategy says, returns
  the segment after its header, gives the current process exactly the requested size and leaves the
  rest as a free block. With none it changes no block, sets the error and returns the size of the
  largest free block visited.
\<close>

theorem dos_allocate_refines:
  assumes "dos_inv s pre up" and "n < 65536"
  shows "\<exists>res t m. DOS_AllocateMemory (of_nat n) s = Some (Inr (res, t)) \<and>
    (let s1 = s\<lparr>mcbs := m\<rparr>; pre1 = merge_free pre; up1 = compacted s up; k = allocation_strategy s AND 0x3f;
         vis = visited s pre1 up1 in dos_inv s1 pre1 up1 \<and>
     (if \<exists>c\<in>set vis. fits n (snd c)
      then \<exists>x b m'. chosen n k vis x b \<and> res = Allocated (of_nat (alloc_seg k n x b)) \<and> t = s\<lparr>mcbs := m'\<rparr> \<and>
        dos_inv t (at (unat (firstMCB s)) pre1 x (alloc_effect k n (dos_psp s)))
          (at 0x9fff up1 x (alloc_effect k n (dos_psp s)))
      else res = NoMemory (of_nat (Max (insert 0 {len b | x b. (x, b) \<in> set vis \<and> owner b = MCB_FREE}))) \<and>
        t = s1\<lparr>errorcode := DOSERR_INSUFFICIENT_MEMORY\<rparr>))"
proof -
  have big: "big n vis = Max (insert 0 {len b | x b. (x, b) \<in> set vis \<and> owner b = MCB_FREE})"
    if "\<not> (\<exists>c\<in>set vis. fits n (snd c))" for vis
    by (rule big_largest) (use that in blast)
  obtain res t m where a: "DOS_AllocateMemory (of_nat n) s = Some (Inr (res, t))"
    "(let s1 = s\<lparr>mcbs := m\<rparr>; pre1 = merge_free pre; up1 = compacted s up; k = allocation_strategy s AND 0x3f;
         vis = visited s pre1 up1 in keeps_owned (mcbs s) m \<and> dos_inv s1 pre1 up1 \<and>
     (if \<exists>c\<in>set vis. fits n (snd c)
      then \<exists>x b m'. chosen n k vis x b \<and> res = Allocated (of_nat (alloc_seg k n x b)) \<and> t = s\<lparr>mcbs := m'\<rparr> \<and>
        dos_inv t (at (unat (firstMCB s)) pre1 x (alloc_effect k n (dos_psp s)))
          (at 0x9fff up1 x (alloc_effect k n (dos_psp s)))
      else res = NoMemory (of_nat (big n vis)) \<and> t = s1\<lparr>errorcode := DOSERR_INSUFFICIENT_MEMORY\<rparr>))"
    using allocate_total [OF assms] by blast
  show ?thesis
    by (rule exI [of _ res], rule exI [of _ t], rule exI [of _ m])
      (use a big in \<open>simp add: Let_def split: if_splits\<close>)
qed

theorem dos_allocate_refines_witness:
  "dos_inv booted (initial_blocks OtherMachine False) [] \<and> (0x1000::nat) < 65536 \<and> DOS_AllocateMemory 0x1000 booted \<noteq> None"
  using dos_allocate_refines [OF booted_inv(1), of "0x1000"] booted_inv(1) by auto

text \<open>
  Property C18. Resizing a block in use: a size up to the block plus the free block after it succeeds
  and makes the block exactly that long, with what is left over a free block merged with what
  follows; a larger size fails with the maximum as the answer, the block grown to it. Every other
  block keeps its place, and the owner becomes the current process.
\<close>

theorem dos_resize_refines:
  assumes "dos_inv s pre up" and "block_at s pre up x b" and "owner b \<noteq> MCB_FREE"
    and "dos_psp s \<noteq> MCB_FREE" and "n < 65536"
  shows "\<exists>vs m. stands s (merge_free pre) (compacted s up) x [b] vs \<and>
    DOS_ResizeMemory (of_nat (x + 1)) (of_nat n) s = Some (Inr (if n \<le> avail b vs
       then (Allocated (of_nat (x + 1)), s\<lparr>mcbs := m\<rparr>)
       else (NoMemory (of_nat (avail b vs)), DOS_SetError DOSERR_INSUFFICIENT_MEMORY (s\<lparr>mcbs := m\<rparr>)))) \<and>
    dos_inv (s\<lparr>mcbs := m\<rparr>)
      (merge_free (at (unat (firstMCB s)) (merge_free pre) x (resize_effect (dos_psp s) n)))
      (compacted s (at 0x9fff (compacted s up) x (resize_effect (dos_psp s) n)))"
  by (rule resize_total [OF assms])

theorem dos_resize_refines_witness:
  "dos_inv booted (initial_blocks OtherMachine False) [] \<and> block_at booted (initial_blocks OtherMachine False) [] 0x16f (Blk MCB_DOS 1) \<and>
   DOS_ResizeMemory 0x170 3 booted \<noteq> None"
proof -
  have b: "block_at booted (initial_blocks OtherMachine False) [] 0x16f (Blk MCB_DOS 1)"
    by (simp add: block_at_def initial_blocks_def booted_inv)
  show ?thesis using dos_resize_refines [OF booted_inv(1) b, of 3] booted_inv b by (auto simp: MCB_DOS_def MCB_FREE_def)
qed

text \<open>
  Ending a process frees exactly its blocks, in conventional and in upper memory, and
  then merges the free blocks; every other block keeps place, size and owner.
\<close>

theorem dos_free_process_refines:
  assumes "dos_inv s pre up" and "umb_on s \<longrightarrow> owner (hd up) \<noteq> p"
  shows "\<exists>m. DOS_FreeProcessMemory p s = Some (Inr (s\<lparr>mcbs := m\<rparr>)) \<and>
    dos_inv (s\<lparr>mcbs := m\<rparr>) (merge_free (map (disown p) pre)) (compacted s (map (disown p) up))"
  using free_process_inv [OF assms(1)] assms(2) by blast

theorem dos_free_process_refines_witness:
  "dos_inv booted (initial_blocks OtherMachine False) [] \<and> DOS_FreeProcessMemory 0x40 booted \<noteq> None"
  using dos_free_process_refines [OF booted_inv(1), of "0x40"] booted_inv(1) booted_umb by auto

text \<open>
  Property C14. Memory handed out is not in use: a successful allocation does not overlap any block in
  use, and releasing it again leaves exactly the blocks in use that were there before.
\<close>

theorem dos_allocation_disjoint:
  assumes "pool_wf s" and "pool_grab n s a t"
  shows "(\<forall>(b, l)\<in>pool_held s. {a ..< a + n} \<inter> {b ..< b + l} = {}) \<and>
    pool_held t = insert (a, n) (pool_held s) \<and>
    pool_wf (pool_release a t) \<and> pool_held (pool_release a t) = pool_held s"
  using dos.grab_disjoint [OF assms] dos.grab_held [OF assms] dos.grab_release [OF assms] by blast

lemma booted_grab: "\<exists>a t. pool_grab 0x1000 booted a t"
proof -
  have vis: "visited booted (merge_free (initial_blocks OtherMachine False)) (compacted booted []) =
     [(0x16f, Blk 8 1), (0x171, Blk 0 4), (0x176, Blk 0x40 16), (0x187, Blk 0 (0x9FFE - 0x187))]"
    using booted_umb by (simp add: visited_def booted_inv initial_blocks_def compacted_def linked_def MCB_DOS_def MCB_FREE_def)
  obtain res t where r: "DOS_AllocateMemory (of_nat 0x1000) booted = Some (Inr (res, t))"
    "\<exists>x b m'. chosen 0x1000 0 [(0x16f, Blk 8 1), (0x171, Blk 0 4), (0x176, Blk 0x40 16), (0x187, Blk 0 (0x9FFE - 0x187))] x b \<and>
       res = Allocated (of_nat (alloc_seg 0 0x1000 x b))"
    using allocate_total [OF booted_inv(1), of "0x1000"] unfolding Let_def vis booted_inv(4)
    by (auto simp: fits_def MCB_FREE_def)
  then obtain x b where "chosen 0x1000 0 [(0x16f, Blk 8 1), (0x171, Blk 0 4), (0x176, Blk 0x40 16), (0x187, Blk 0 (0x9FFE - 0x187))] x b"
    "res = Allocated (of_nat (alloc_seg 0 0x1000 x b))" by blast
  moreover from this(1) have "x < 0x9000" using chosen_fits by fastforce
  ultimately show ?thesis using r(1) by (intro exI [of _ "alloc_seg 0 0x1000 x b"] exI [of _ t]) (simp add: pool_grab_def alloc_seg_def)
qed

theorem dos_allocation_disjoint_witness:
  "pool_wf booted \<and> (\<exists>a t. pool_grab 0x1000 booted a t \<and> pool_held (pool_release a t) = pool_held booted)"
proof -
  have wf: "pool_wf booted" unfolding pool_wf_def dm_wf_def DOS_MEM_START_def MCB_FREE_def
    using booted_inv by auto
  obtain a t where "pool_grab 0x1000 booted a t" using booted_grab by blast
  then show ?thesis using wf dos_allocation_disjoint [OF wf] by blast
qed

text \<open>
  Property C39. Linking the upper memory blocks and unlinking them again restores the memory manager's
  state exactly, and in between the conventional chain is the two chains joined.
\<close>

theorem dos_link_unlink:
  assumes "dos_inv s pre up" and "umb_on s" and "chainingUMB s = 0"
  shows "\<exists>t. DOS_LinkUMBsToMemChain 1 s = Some (True, t) \<and> linked t \<and>
    chain (mcbs t) (unat (firstMCB t)) (pre @ up) \<and> DOS_LinkUMBsToMemChain 0 t = Some (True, s)"
proof -
  have nl: "\<not> linked s" using assms(3) by (simp add: linked_def)
  let ?x = "of_nat (unat (firstMCB s) + span (butlast pre)) :: u16"
  obtain m where m: "DOS_LinkUMBsToMemChain 1 s = Some (True, s\<lparr>mcbs := m, chainingUMB := 1\<rparr>)"
    "m = (mcbs s)(?x := (mcbs s ?x)\<lparr>mcb_type := middle_mcb_type\<rparr>)"
    "dos_inv (s\<lparr>mcbs := m, chainingUMB := 1\<rparr>) pre up" using link_inv [OF assms(1,2) nl] by blast
  let ?t = "s\<lparr>mcbs := m, chainingUMB := 1\<rparr>"
  have li: "linked ?t" using assms(2) by (simp add: linked_def umb_on_def)
  have e: "mcb_type (mcbs s ?x) = ending_mcb_type"
  proof -
    obtain bs b where pre: "pre = bs @ [b]" using assms(1) by (cases pre rule: rev_cases) (simp_all add: dos_inv_def)
    have "chain (mcbs s) (unat (firstMCB s)) pre" using assms(1) nl by (simp add: dos_inv_def)
    then show ?thesis using pre by (simp add: chain_append hdr_def)
  qed
  have "(mcbs ?t)(?x := (mcbs ?t ?x)\<lparr>mcb_type := ending_mcb_type\<rparr>) = mcbs s"
    using e by (auto simp: m(2) fun_eq_iff)
  then have "DOS_LinkUMBsToMemChain 0 ?t = Some (True, s)"
    using unlink_inv [OF m(3) li] assms(3) by auto
  moreover have "chain (mcbs ?t) (unat (firstMCB ?t)) (pre @ up)" using m(3) li by (simp add: dos_inv_def)
  ultimately show ?thesis using m(1) li by blast
qed

theorem dos_link_unlink_witness:
  "\<exists>s pre up. dos_inv s pre up \<and> umb_on s \<and> chainingUMB s = 0 \<and> DOS_LinkUMBsToMemChain 1 s \<noteq> None"
proof -
  obtain t where t: "umb_on t" "chainingUMB t = 0" "dos_inv t (initial_blocks OtherMachine False) (upper_blocks False)"
    using build_on [of zero_dos False False] by (auto simp: zero_dos_def)
  show ?thesis using dos_link_unlink [OF t(3,1,2)] t by fastforce
qed

end
