(* ===== verification/Dma.thy ===== *)
theory Dma
  imports Emu_Prelude
begin

text \<open>
  The two 8237 DMA controllers of \<^verbatim>\<open>src/hardware/dma.cpp\<close> and \<^verbatim>\<open>src/hardware/dma.h\<close>: channel registers and
  their port programming, the transfer of blocks between a device buffer and physical memory
  through the page mappings, auto-initialisation and terminal count, masks, requests and
  reservations. The callback a device registers is code elsewhere: a function from channel number,
  event and the state of channel and surroundings to that state, which the operations take as an
  argument, so it may also transfer on the channel itself. Notifications that another device gives up
  a channel are recorded in a log, in order. Physical memory is a store of bytes at 32-bit addresses;
  messages, assertions and the installation of port handlers are left out.
\<close>

unbundle bit_operations_syntax

section \<open>State\<close>

datatype DmaDirection = DmaRead | DmaWrite

datatype DmaEvent = ReachedTC | IsMasked | IsUnmasked

datatype dma_call = Evict u8 string | TandySoundDestroy

record DmaChannel =
  page_base :: u32
  curr_addr :: u32
  base_addr :: u16
  base_count :: u16
  curr_count :: u16
  chan_num :: u8
  page_num :: u8
  is_16bit :: nat
  is_incremented :: bool
  is_autoiniting :: bool
  is_masked :: bool
  has_reached_terminal_count :: bool
  has_raised_request :: bool
  callback :: bool
  evict_callback :: bool
  reservation_owner_name :: string

text \<open>What all channels share: physical memory, the page mappings, the wrap mask, the calls made.\<close>

record dma_env =
  phys_mem :: "u32 \<Rightarrow> u8"
  firstmb :: "u32 \<Rightarrow> u32"
  ems_board_mapping :: "u32 \<Rightarrow> u32"
  dma_wrapping :: u32
  dma_calls :: "dma_call list"

record DmaController =
  flipflop :: bool
  dma_channels :: "nat \<Rightarrow> DmaChannel"
  dma_index :: nat

record dma_state =
  dma_primary :: "DmaController option"
  dma_secondary :: "DmaController option"
  env :: dma_env

definition EMM_PAGEFRAME4K :: u32 where "EMM_PAGEFRAME4K = (0xE000 * 16) div 4096"
definition LINK_START :: u32 where "LINK_START = (1024 + 64) div 4"

definition UpdateEMSMapping :: "dma_env \<Rightarrow> dma_env" where
  "UpdateEMSMapping e = e\<lparr>ems_board_mapping := (\<lambda>p.
     if EMM_PAGEFRAME4K \<le> p \<and> p < EMM_PAGEFRAME4K + 0x10 then firstmb e p else ems_board_mapping e p)\<rparr>"

section \<open>Block transfers\<close>

definition dma_page :: "dma_env \<Rightarrow> u32 \<Rightarrow> u32" where
  "dma_page e page = (if page < EMM_PAGEFRAME4K then firstmb e page
     else if page < EMM_PAGEFRAME4K + 0x10 then ems_board_mapping e page
     else if page < LINK_START then firstmb e page
     else page)"

text \<open>
  One round of the loop of \<^verbatim>\<open>perform_dma_io\<close>: the physical start of the chunk and its length, which
  ends at the page boundary.
\<close>

definition dma_chunk :: "dma_env \<Rightarrow> u32 \<Rightarrow> u32 \<Rightarrow> nat \<Rightarrow> u32 \<times> nat" where
  "dma_chunk e highpart_addr_page mem_address remaining_bytes =
     (let page = dma_page e (highpart_addr_page + drop_bit 12 mem_address);
          pos_in_page = mem_address AND (4096 - 1);
          bytes_to_page_end = 4096 - unat pos_in_page
      in (page * 4096 + pos_in_page, min remaining_bytes bytes_to_page_end))"

definition read_chunk :: "u32 \<Rightarrow> nat \<Rightarrow> dma_env \<Rightarrow> u8 list" where
  "read_chunk chunk_start chunk_bytes e = map (\<lambda>i. phys_mem e (chunk_start + of_nat i)) [0..<chunk_bytes]"

definition write_chunk :: "u32 \<Rightarrow> nat \<Rightarrow> u8 list \<Rightarrow> dma_env \<Rightarrow> dma_env" where
  "write_chunk chunk_start chunk_bytes data e =
     fold (\<lambda>i e. e\<lparr>phys_mem := (phys_mem e)(chunk_start + of_nat i := data ! i)\<rparr>) [0..<chunk_bytes] e"

lemma chunk_progress: "remaining - snd (dma_chunk e h a remaining) \<noteq> 0 \<Longrightarrow> remaining - snd (dma_chunk e h a remaining) < remaining"
proof -
  have "unat (a AND (4096 - 1)) < 4096"
  proof -
    have "a AND (4096 - 1) = take_bit 12 a" by (simp add: take_bit_eq_mask mask_numeral)
    then have "unat (a AND (4096 - 1)) = take_bit 12 (unat a)" by (simp add: unsigned_take_bit_eq)
    then show ?thesis by (simp add: take_bit_eq_mod)
  qed
  then show "remaining - snd (dma_chunk e h a remaining) \<noteq> 0 \<Longrightarrow> remaining - snd (dma_chunk e h a remaining) < remaining"
    by (simp add: dma_chunk_def Let_def)
qed

function dma_io_loop :: "DmaDirection \<Rightarrow> u32 \<Rightarrow> u32 \<Rightarrow> u8 list \<Rightarrow> nat \<Rightarrow> dma_env \<Rightarrow> u8 list \<times> dma_env" where
  "dma_io_loop direction highpart_addr_page mem_address data remaining_bytes e =
     (case dma_chunk e highpart_addr_page mem_address remaining_bytes of (chunk_start, chunk_bytes) \<Rightarrow>
        let got = (case direction of DmaRead \<Rightarrow> read_chunk chunk_start chunk_bytes e | DmaWrite \<Rightarrow> []);
            e1 = (case direction of DmaRead \<Rightarrow> e | DmaWrite \<Rightarrow> write_chunk chunk_start chunk_bytes data e)
        in if remaining_bytes - chunk_bytes = 0 then (got, e1)
           else case dma_io_loop direction highpart_addr_page (mem_address + of_nat chunk_bytes)
                       (drop chunk_bytes data) (remaining_bytes - chunk_bytes) e1
                of (rest, e2) \<Rightarrow> (got @ rest, e2))"
  by pat_completeness auto
termination
  by (relation "measure (\<lambda>(d, h, a, xs, n, e). n)")
    (use chunk_progress in \<open>force simp: prod_eq_iff\<close>)+

declare dma_io_loop.simps [simp del]

text \<open>A read returns the bytes put into the buffer, a write takes them from it.\<close>

definition perform_dma_io :: "DmaDirection \<Rightarrow> u32 \<Rightarrow> u32 \<Rightarrow> u8 list \<Rightarrow> nat \<Rightarrow> nat \<Rightarrow> dma_env \<Rightarrow> u8 list \<times> dma_env" where
  "perform_dma_io direction spage mem_address data num_words is_dma16 e =
     dma_io_loop direction (drop_bit 12 spage) (push_bit is_dma16 mem_address) data (num_words * 2 ^ is_dma16) e"

section \<open>Channels\<close>

type_synonym dma_device = "u8 \<Rightarrow> DmaEvent \<Rightarrow> DmaChannel \<times> dma_env \<Rightarrow> DmaChannel \<times> dma_env"

definition DmaChannel_init :: "u8 \<Rightarrow> bool \<Rightarrow> DmaChannel" where
  "DmaChannel_init num dma16 = \<lparr>page_base = 0, curr_addr = 0, base_addr = 0, base_count = 0, curr_count = 0,
     chan_num = num, page_num = 0, is_16bit = (if dma16 then 1 else 0), is_incremented = True, is_autoiniting = False,
     is_masked = True, has_reached_terminal_count = False, has_raised_request = False, callback = False,
     evict_callback = False, reservation_owner_name = []\<rparr>"

definition DoCallback :: "dma_device \<Rightarrow> DmaEvent \<Rightarrow> DmaChannel \<times> dma_env \<Rightarrow> DmaChannel \<times> dma_env" where
  "DoCallback dev event ce = (if callback (fst ce) then dev (chan_num (fst ce)) event ce else ce)"

definition SetMask :: "dma_device \<Rightarrow> bool \<Rightarrow> DmaChannel \<times> dma_env \<Rightarrow> DmaChannel \<times> dma_env" where
  "SetMask dev mask_val ce = (case ce of (c, e) \<Rightarrow> let c1 = c\<lparr>is_masked := mask_val\<rparr> in
     DoCallback dev (if is_masked c1 then IsMasked else IsUnmasked) (c1, e))"

definition RaiseRequest :: "DmaChannel \<Rightarrow> DmaChannel" where
  "RaiseRequest c = c\<lparr>has_raised_request := True\<rparr>"

definition ClearRequest :: "DmaChannel \<Rightarrow> DmaChannel" where
  "ClearRequest c = c\<lparr>has_raised_request := False\<rparr>"

definition RegisterCallback :: "dma_device \<Rightarrow> bool \<Rightarrow> DmaChannel \<times> dma_env \<Rightarrow> DmaChannel \<times> dma_env" where
  "RegisterCallback dev cb ce = (case ce of (c, e) \<Rightarrow>
     case SetMask dev (is_masked c) (c\<lparr>callback := cb\<rparr>, e) of (c1, e1) \<Rightarrow>
       (if callback c1 then RaiseRequest c1 else ClearRequest c1, e1))"

definition ReachedTerminalCount :: "dma_device \<Rightarrow> DmaChannel \<times> dma_env \<Rightarrow> DmaChannel \<times> dma_env" where
  "ReachedTerminalCount dev ce = (case ce of (c, e) \<Rightarrow> DoCallback dev ReachedTC (c\<lparr>has_reached_terminal_count := True\<rparr>, e))"

definition SetPage :: "u8 \<Rightarrow> DmaChannel \<Rightarrow> DmaChannel" where
  "SetPage val c = c\<lparr>page_num := val,
     page_base := push_bit (16 + is_16bit c) (drop_bit (is_16bit c) (ucast val))\<rparr>"

text \<open>
  The transfer loop of \<^verbatim>\<open>ReadOrWrite\<close>: \<open>done\<close> words, the bytes read, the channel and its
  surroundings afterwards.
\<close>

function rw_loop :: "dma_device \<Rightarrow> DmaDirection \<Rightarrow> nat \<Rightarrow> u8 list \<Rightarrow> DmaChannel \<times> dma_env \<Rightarrow> nat \<times> u8 list \<times> (DmaChannel \<times> dma_env)" where
  "rw_loop dev direction want buffer (c, e) = (let left = unat (curr_count c) + 1 in
     if want < left then
       case perform_dma_io direction (page_base c) (curr_addr c) buffer want (is_16bit c) e of (got, e1) \<Rightarrow>
         (want, got, (c\<lparr>curr_addr := curr_addr c + of_nat want, curr_count := curr_count c - of_nat want\<rparr>, e1))
     else
       case perform_dma_io direction (page_base c) (curr_addr c) buffer left (is_16bit c) e of (got, e1) \<Rightarrow>
       case ReachedTerminalCount dev (c, e1) of (c2, e2) \<Rightarrow>
         if is_autoiniting c2 then
           let c3 = c2\<lparr>curr_count := base_count c2, curr_addr := ucast (base_addr c2)\<rparr> in
           if want - left \<noteq> 0 then
             case rw_loop dev direction (want - left) (drop (left * 2 ^ is_16bit c) buffer) (c3, e2) of (n, rest, ce) \<Rightarrow>
               (left + n, got @ rest, ce)
           else (left, got, (c3, UpdateEMSMapping e2))
         else
           let c3 = c2\<lparr>curr_addr := curr_addr c2 + of_nat left, curr_count := 0xffff, is_masked := True\<rparr> in
           (left, got, DoCallback dev IsMasked (c3, UpdateEMSMapping e2)))"
  by pat_completeness auto
termination
  by (relation "measure (\<lambda>(f, d, w, b, ce). w)") auto

declare rw_loop.simps [simp del]

definition ReadOrWrite :: "dma_device \<Rightarrow> DmaDirection \<Rightarrow> nat \<Rightarrow> u8 list \<Rightarrow> DmaChannel \<times> dma_env \<Rightarrow> nat \<times> u8 list \<times> (DmaChannel \<times> dma_env)" where
  "ReadOrWrite dev direction words buffer ce = (case ce of (c, e) \<Rightarrow>
     rw_loop dev direction words buffer (c\<lparr>curr_addr := curr_addr c AND dma_wrapping e\<rparr>, e))"

definition HasReservation :: "DmaChannel \<Rightarrow> bool" where
  "HasReservation c = (evict_callback c \<and> reservation_owner_name c \<noteq> [])"

definition EvictReserver :: "DmaChannel \<times> dma_env \<Rightarrow> DmaChannel \<times> dma_env" where
  "EvictReserver ce = (case ce of (c, e) \<Rightarrow>
     (c\<lparr>evict_callback := False, reservation_owner_name := []\<rparr>,
      e\<lparr>dma_calls := dma_calls e @ [Evict (chan_num c) (reservation_owner_name c)]\<rparr>))"

definition Reset :: "DmaChannel \<Rightarrow> DmaChannel" where
  "Reset c = c\<lparr>page_base := 0, curr_addr := 0, base_addr := 0, base_count := 0, curr_count := 0, page_num := 0,
     is_incremented := True, is_autoiniting := False, is_masked := True, has_reached_terminal_count := False,
     has_raised_request := False, callback := False, evict_callback := False, reservation_owner_name := []\<rparr>"

definition ReserveFor :: "string \<Rightarrow> DmaChannel \<times> dma_env \<Rightarrow> DmaChannel \<times> dma_env" where
  "ReserveFor owner_name ce = (case (if HasReservation (fst ce) then EvictReserver ce else ce) of (c, e) \<Rightarrow>
     ((Reset c)\<lparr>evict_callback := True, reservation_owner_name := owner_name\<rparr>, e))"

text \<open>The destructor of a channel.\<close>

definition destroy_channel :: "DmaChannel \<Rightarrow> dma_env \<Rightarrow> dma_env" where
  "destroy_channel c e = (if HasReservation c then snd (EvictReserver (c, e)) else e)"

section \<open>Controllers\<close>

definition DmaController_init :: "nat \<Rightarrow> DmaController" where
  "DmaController_init controller_index = \<lparr>flipflop = False,
     dma_channels = (\<lambda>i. DmaChannel_init (of_nat (i + controller_index * 4)) (controller_index = 1)),
     dma_index = controller_index\<rparr>"

definition destroy_controller :: "DmaController \<Rightarrow> dma_env \<Rightarrow> dma_env" where
  "destroy_controller k e = fold (\<lambda>i. destroy_channel (dma_channels k i)) [0..<4] e"

definition upd_chan :: "nat \<Rightarrow> (DmaChannel \<times> dma_env \<Rightarrow> DmaChannel \<times> dma_env) \<Rightarrow> DmaController \<times> dma_env \<Rightarrow> DmaController \<times> dma_env" where
  "upd_chan i f ke = (case ke of (k, e) \<Rightarrow> case f (dma_channels k i, e) of (c, e1) \<Rightarrow>
     (k\<lparr>dma_channels := (dma_channels k)(i := c)\<rparr>, e1))"

text \<open>The two bytes of a 16-bit register, chosen by the flip-flop.\<close>

definition set_addr :: "bool \<Rightarrow> u16 \<Rightarrow> DmaChannel \<Rightarrow> DmaChannel" where
  "set_addr low val c = (if low
     then c\<lparr>base_addr := (base_addr c AND 0xff00) OR val, curr_addr := (curr_addr c AND 0xff00) OR ucast val\<rparr>
     else c\<lparr>base_addr := (base_addr c AND 0x00ff) OR push_bit 8 val,
            curr_addr := (curr_addr c AND 0x00ff) OR push_bit 8 (ucast val)\<rparr>)"

definition set_count :: "bool \<Rightarrow> u16 \<Rightarrow> DmaChannel \<Rightarrow> DmaChannel" where
  "set_count low val c = (if low
     then c\<lparr>base_count := (base_count c AND 0xff00) OR val, curr_count := (curr_count c AND 0xff00) OR val\<rparr>
     else c\<lparr>base_count := (base_count c AND 0x00ff) OR push_bit 8 val,
            curr_count := (curr_count c AND 0x00ff) OR push_bit 8 val\<rparr>)"

definition all_chans :: "(nat \<Rightarrow> DmaChannel \<times> dma_env \<Rightarrow> DmaChannel \<times> dma_env) \<Rightarrow> DmaController \<times> dma_env \<Rightarrow> DmaController \<times> dma_env" where
  "all_chans f ke = fold (\<lambda>ct. upd_chan ct (f ct)) [0..<4] ke"

definition WriteControllerReg :: "dma_device \<Rightarrow> nat \<Rightarrow> u16 \<Rightarrow> DmaController \<times> dma_env \<Rightarrow> DmaController \<times> dma_env" where
  "WriteControllerReg dev reg val ke = (case ke of (k, e) \<Rightarrow>
     if reg \<in> {0, 2, 4, 6} then
       let k1 = k\<lparr>flipflop := \<not> flipflop k\<rparr> in
       upd_chan (reg div 2) (\<lambda>(c, e). (set_addr (flipflop k1) val c, e)) (k1, UpdateEMSMapping e)
     else if reg \<in> {1, 3, 5, 7} then
       let k1 = k\<lparr>flipflop := \<not> flipflop k\<rparr> in
       upd_chan (reg div 2) (\<lambda>(c, e). (set_count (flipflop k1) val c, e)) (k1, UpdateEMSMapping e)
     else if reg = 0xa then
       upd_chan (unat (val AND 3)) (SetMask dev (val AND 0x4 \<noteq> 0)) (k, if val AND 0x4 = 0 then UpdateEMSMapping e else e)
     else if reg = 0xb then
       upd_chan (unat (val AND 3)) (\<lambda>(c, e). (c\<lparr>is_autoiniting := (val AND 0x10 \<noteq> 0), is_incremented := (val AND 0x20 \<noteq> 0)\<rparr>, e))
         (k, UpdateEMSMapping e)
     else if reg = 0xc then (k\<lparr>flipflop := False\<rparr>, e)
     else if reg = 0xd then
       case all_chans (\<lambda>ct ce. case SetMask dev True ce of (c, e) \<Rightarrow> (c\<lparr>has_reached_terminal_count := False\<rparr>, e)) (k, e)
       of (k1, e1) \<Rightarrow> (k1\<lparr>flipflop := False\<rparr>, e1)
     else if reg = 0xe then all_chans (\<lambda>ct. SetMask dev False) (k, UpdateEMSMapping e)
     else if reg = 0xf then all_chans (\<lambda>ct. SetMask dev (drop_bit ct val AND 1 \<noteq> 0)) (k, UpdateEMSMapping e)
     else (k, e))"

definition status_bits :: "(nat \<Rightarrow> DmaChannel) \<Rightarrow> u16" where
  "status_bits cs = fold (\<lambda>ct ret. let ret1 = (if has_reached_terminal_count (cs ct) then ret OR push_bit ct 1 else ret)
     in if has_raised_request (cs ct) then ret1 OR push_bit (4 + ct) 1 else ret1) [0..<4] 0"

definition ReadControllerReg :: "nat \<Rightarrow> DmaController \<Rightarrow> u16 \<times> DmaController" where
  "ReadControllerReg reg k =
     (if reg \<in> {0, 2, 4, 6} then
        let k1 = k\<lparr>flipflop := \<not> flipflop k\<rparr>; c = dma_channels k (reg div 2) in
        (if flipflop k1 then ucast (curr_addr c AND 0xff) else ucast (drop_bit 8 (curr_addr c) AND 0xff), k1)
      else if reg \<in> {1, 3, 5, 7} then
        let k1 = k\<lparr>flipflop := \<not> flipflop k\<rparr>; c = dma_channels k (reg div 2) in
        (if flipflop k1 then curr_count c AND 0xff else drop_bit 8 (curr_count c) AND 0xff, k1)
      else if reg = 8 then
        (status_bits (dma_channels k), k\<lparr>dma_channels := (\<lambda>ct.
           if ct < 4 then (dma_channels k ct)\<lparr>has_reached_terminal_count := False\<rparr> else dma_channels k ct)\<rparr>)
      else (0xffff, k))"

definition ResetChannel :: "nat \<Rightarrow> DmaController \<Rightarrow> DmaController" where
  "ResetChannel num k = (if num < 4 then k\<lparr>dma_channels := (dma_channels k)(num := Reset (dma_channels k num))\<rparr> else k)"

section \<open>The two controllers\<close>

datatype controller_id = PrimaryDma | SecondaryDma

definition is_primary :: "nat \<Rightarrow> bool" where "is_primary channel_num = (channel_num < 4)"
definition is_secondary :: "nat \<Rightarrow> bool" where "is_secondary channel_num = (4 \<le> channel_num \<and> channel_num \<le> 7)"
definition to_secondary_num :: "nat \<Rightarrow> nat" where "to_secondary_num channel_num = channel_num - 4"

definition activate_primary :: "dma_state \<Rightarrow> dma_state" where
  "activate_primary s = s\<lparr>dma_primary := Some (DmaController_init 0)\<rparr>"

definition activate_secondary :: "dma_state \<Rightarrow> dma_state" where
  "activate_secondary s = s\<lparr>env := (env s)\<lparr>dma_calls := dma_calls (env s) @ [TandySoundDestroy]\<rparr>,
     dma_secondary := Some (DmaController_init 1)\<rparr>"

text \<open>A channel is returned as its controller and its number there; a missing controller is created.\<close>

definition DMA_GetChannel :: "nat \<Rightarrow> dma_state \<Rightarrow> (controller_id \<times> nat) option \<times> dma_state" where
  "DMA_GetChannel channel_num s =
     (if is_primary channel_num then
        (Some (PrimaryDma, channel_num), if dma_primary s = None then activate_primary s else s)
      else if is_secondary channel_num then
        (Some (SecondaryDma, to_secondary_num channel_num), if dma_secondary s = None then activate_secondary s else s)
      else (None, s))"

definition DMA_ShutdownSecondaryController :: "dma_state \<Rightarrow> dma_state" where
  "DMA_ShutdownSecondaryController s = (case dma_secondary s of None \<Rightarrow> s
     | Some k \<Rightarrow> s\<lparr>dma_secondary := None, env := destroy_controller k (env s)\<rparr>)"

definition page_port_channel :: "u16 \<Rightarrow> nat" where
  "page_port_channel port = (if port = 0x81 then 2 else if port = 0x82 then 3 else if port = 0x83 then 1
     else if port = 0x87 then 0 else if port = 0x89 then 6 else if port = 0x8a then 7
     else if port = 0x8b then 5 else if port = 0x8f then 4 else 255)"

definition GetChannelFromPort :: "u16 \<Rightarrow> dma_state \<Rightarrow> (controller_id \<times> nat) option \<times> dma_state" where
  "GetChannelFromPort port s = DMA_GetChannel (page_port_channel port) s"

definition get_controller :: "controller_id \<Rightarrow> dma_state \<Rightarrow> DmaController option" where
  "get_controller i s = (case i of PrimaryDma \<Rightarrow> dma_primary s | SecondaryDma \<Rightarrow> dma_secondary s)"

definition put_controller :: "controller_id \<Rightarrow> DmaController \<times> dma_env \<Rightarrow> dma_state \<Rightarrow> dma_state" where
  "put_controller i ke s = (case i of PrimaryDma \<Rightarrow> s\<lparr>dma_primary := Some (fst ke), env := snd ke\<rparr>
     | SecondaryDma \<Rightarrow> s\<lparr>dma_secondary := Some (fst ke), env := snd ke\<rparr>)"

text \<open>A register access without its controller dereferences a null pointer: \<open>None\<close>.\<close>

definition DMA_Write_Port :: "dma_device \<Rightarrow> u16 \<Rightarrow> u16 \<Rightarrow> dma_state \<Rightarrow> dma_state option" where
  "DMA_Write_Port dev port val s =
     (if port < 0x10 then
        map_option (\<lambda>k. put_controller PrimaryDma (WriteControllerReg dev (unat port) val (k, env s)) s) (dma_primary s)
      else if 0xc0 \<le> port \<and> port \<le> 0xdf then
        map_option (\<lambda>k. put_controller SecondaryDma (WriteControllerReg dev (unat (drop_bit 1 (port - 0xc0))) val (k, env s)) s) (dma_secondary s)
      else case GetChannelFromPort port (s\<lparr>env := UpdateEMSMapping (env s)\<rparr>) of
          (None, s1) \<Rightarrow> Some s1
        | (Some (i, n), s1) \<Rightarrow> map_option (\<lambda>k. put_controller i
            (upd_chan n (\<lambda>(c, e). (SetPage (ucast val) c, e)) (k, env s1)) s1) (get_controller i s1))"

definition DMA_Read_Port :: "u16 \<Rightarrow> dma_state \<Rightarrow> (u16 \<times> dma_state) option" where
  "DMA_Read_Port port s =
     (if port < 0x10 then
        map_option (\<lambda>k. case ReadControllerReg (unat port) k of (v, k1) \<Rightarrow> (v, put_controller PrimaryDma (k1, env s) s)) (dma_primary s)
      else if 0xc0 \<le> port \<and> port \<le> 0xdf then
        map_option (\<lambda>k. case ReadControllerReg (unat (drop_bit 1 (port - 0xc0))) k of (v, k1) \<Rightarrow>
          (v, put_controller SecondaryDma (k1, env s) s)) (dma_secondary s)
      else case GetChannelFromPort port s of
          (None, s1) \<Rightarrow> Some (0, s1)
        | (Some (i, n), s1) \<Rightarrow> map_option (\<lambda>k. (ucast (page_num (dma_channels k n)), s1)) (get_controller i s1))"

definition DMA_ResetChannel :: "nat \<Rightarrow> dma_state \<Rightarrow> dma_state" where
  "DMA_ResetChannel channel_num s =
     (if is_primary channel_num \<and> dma_primary s \<noteq> None
      then s\<lparr>dma_primary := map_option (ResetChannel channel_num) (dma_primary s)\<rparr>
      else if is_secondary channel_num \<and> dma_secondary s \<noteq> None
      then s\<lparr>dma_secondary := map_option (ResetChannel (to_secondary_num channel_num)) (dma_secondary s)\<rparr>
      else s)"

definition DMA_SetWrapping :: "u32 \<Rightarrow> dma_state \<Rightarrow> dma_state" where
  "DMA_SetWrapping wrap s = s\<lparr>env := (env s)\<lparr>dma_wrapping := wrap\<rparr>\<rparr>"

definition DMA_Destroy :: "dma_state \<Rightarrow> dma_state" where
  "DMA_Destroy s0 = (let s = (case dma_primary s0 of None \<Rightarrow> s0
       | Some k \<Rightarrow> s0\<lparr>dma_primary := None, env := destroy_controller k (env s0)\<rparr>)
     in DMA_ShutdownSecondaryController s)"

definition DMA_Init :: "dma_state \<Rightarrow> dma_state" where
  "DMA_Init s = (let s1 = DMA_SetWrapping 0xffff s in s1\<lparr>env := (env s1)\<lparr>ems_board_mapping :=
     (\<lambda>i. if i < LINK_START then i else ems_board_mapping (env s1) i)\<rparr>\<rparr>)"

end
