(* ===== verification/Dma_Props.thy ===== *)
theory Dma_Props
  imports Dma
begin

text \<open>
  The DMA controllers: the chunked copy equals a byte-by-byte copy through the page mappings, what a
  whole transfer moves and leaves with and without auto-initialisation, the programming of the 16-bit
  registers through 8-bit ports, the status register, and channel lookup and reservation.
\<close>

unbundle bit_operations_syntax

section \<open>Address translation\<close>

definition dma_translate :: "dma_env \<Rightarrow> u32 \<Rightarrow> u32 \<Rightarrow> u32" where
  "dma_translate e highpart a = dma_page e (highpart + drop_bit 12 a) * 4096 + (a AND 0xfff)"

lemma and_fff: "(a::u32) AND 0xfff = take_bit 12 a"
  by (simp add: take_bit_eq_mask mask_numeral)

lemma unat_fff: "unat ((a::u32) AND 0xfff) = unat a mod 4096"
proof -
  have "unat (take_bit 12 a) = take_bit 12 (unat a)" by (rule unsigned_take_bit_eq)
  also have "\<dots> = unat a mod 4096" unfolding take_bit_eq_mod by simp
  finally show ?thesis unfolding and_fff .
qed

lemma unat_page: "unat (drop_bit 12 (a::u32)) = unat a div 4096"
proof -
  have "unat (drop_bit 12 a) = drop_bit 12 (unat a)" by (rule unat_drop_bit_eq)
  also have "\<dots> = unat a div 4096" unfolding drop_bit_eq_div by simp
  finally show ?thesis .
qed

lemma page_arith:
  fixes x :: nat
  assumes "x < 4294967296" "x mod 4096 + i < 4096"
  shows "x + i < 4294967296" "(x + i) div 4096 = x div 4096" "(x + i) mod 4096 = x mod 4096 + i"
proof -
  define q r where "q = x div 4096" and "r = x mod 4096"
  have x: "x = 4096 * q + r" by (simp add: q_def r_def)
  have "q < 1048576" using assms(1) x by linarith
  then show "x + i < 4294967296" using x assms(2) unfolding r_def [symmetric] by linarith
  have e: "x + i = (r + i) + 4096 * q" using x by simp
  show "(x + i) div 4096 = x div 4096" using assms(2) unfolding e q_def [symmetric] r_def [symmetric] by simp
  show "(x + i) mod 4096 = x mod 4096 + i" using assms(2) unfolding e r_def [symmetric] by simp
qed

lemma within_page:
  fixes a :: u32
  assumes "unat (a AND 0xfff) + i < 4096"
  shows "drop_bit 12 (a + of_nat i) = drop_bit 12 a" and "(a + of_nat i) AND 0xfff = (a AND 0xfff) + of_nat i"
proof -
  have lt: "unat a mod 4096 + i < 4096" using assms by (simp add: unat_fff)
  have "unat a < 4294967296" using unsigned_less [of a] by simp
  note A = page_arith [OF this lt]
  have s: "unat (a + of_nat i) = unat a + i"
    using A(1) by (simp add: unat_word_ariths(1) unat_of_nat)
  show "drop_bit 12 (a + of_nat i) = drop_bit 12 a"
    by (simp only: word_unat_eq_iff unat_page s A(2))
  have "unat ((a AND 0xfff) + of_nat i) = unat a mod 4096 + i"
    using lt by (simp only: unat_word_ariths(1) unat_of_nat unat_fff) simp
  then show "(a + of_nat i) AND 0xfff = (a AND 0xfff) + of_nat i"
    by (simp only: word_unat_eq_iff unat_fff s A(3))
qed

lemma chunk_bounds:
  assumes "dma_chunk e h a n = (start, l)"
  shows "l \<le> n" and "0 < n \<Longrightarrow> 0 < l" and "i < l \<Longrightarrow> dma_translate e h (a + of_nat i) = start + of_nat i"
proof -
  have u: "unat (a AND 0xfff) < 4096" by (simp add: unat_fff)
  have c: "start = dma_page e (h + drop_bit 12 a) * 4096 + (a AND 0xfff)" "l = min n (4096 - unat (a AND 0xfff))"
    using assms by (simp_all add: dma_chunk_def Let_def)
  show "l \<le> n" "0 < n \<Longrightarrow> 0 < l" using c u by simp_all
  show "dma_translate e h (a + of_nat i) = start + of_nat i" if "i < l"
  proof -
    have "i < 4096 - unat (a AND 0xfff)" using that c(2) by simp
    then have "unat (a AND 0xfff) + i < 4096" by linarith
    then show ?thesis unfolding dma_translate_def c(1) by (simp add: within_page)
  qed
qed

section \<open>The copy loop\<close>

definition write_byte :: "u32 \<Rightarrow> u8 \<Rightarrow> dma_env \<Rightarrow> dma_env" where
  "write_byte a v e = e\<lparr>phys_mem := (phys_mem e)(a := v)\<rparr>"

text \<open>The reference: one byte after the other.\<close>

definition copy_in :: "dma_env \<Rightarrow> u32 \<Rightarrow> u32 \<Rightarrow> nat \<Rightarrow> u8 list" where
  "copy_in e h a n = map (\<lambda>i. phys_mem e (dma_translate e h (a + of_nat i))) [0..<n]"

definition copy_out :: "u32 \<Rightarrow> u32 \<Rightarrow> u8 list \<Rightarrow> nat \<Rightarrow> dma_env \<Rightarrow> dma_env" where
  "copy_out h a data n e = fold (\<lambda>i e'. write_byte (dma_translate e h (a + of_nat i)) (data ! i) e') [0..<n] e"

lemma upt_split: "l \<le> n \<Longrightarrow> [0..<n] = [0..<l] @ map (\<lambda>i. i + l) [0..<n - l]"
  using upt_add_eq_append [of 0 l "n - l"] by (simp add: map_add_upt)

lemma copy_in_split:
  assumes "l \<le> n"
  shows "copy_in e h a n = copy_in e h a l @ copy_in e h (a + of_nat l) (n - l)"
  unfolding copy_in_def by (subst upt_split [OF assms]) (simp add: comp_def ac_simps)

lemma write_bytes_maps: "\<exists>m. fold (\<lambda>i e'. write_byte (f i) (g i) e') xs e = e\<lparr>phys_mem := m\<rparr>"
proof (induction xs arbitrary: e)
  case Nil
  show ?case by (rule exI [of _ "phys_mem e"]) simp
next
  case (Cons x xs)
  obtain m where "fold (\<lambda>i e'. write_byte (f i) (g i) e') xs (write_byte (f x) (g x) e) = (write_byte (f x) (g x) e)\<lparr>phys_mem := m\<rparr>"
    using Cons.IH by blast
  then show ?case by (intro exI [of _ m]) (simp add: write_byte_def)
qed

lemma dma_page_upd [simp]: "dma_page (e\<lparr>phys_mem := m\<rparr>) = dma_page e"
  by (intro ext) (simp add: dma_page_def)

lemma dma_translate_upd [simp]: "dma_translate (e\<lparr>phys_mem := m\<rparr>) = dma_translate e"
  by (intro ext) (simp add: dma_translate_def)

lemma copy_out_upd: "\<exists>m. copy_out h a data n e = e\<lparr>phys_mem := m\<rparr>"
  unfolding copy_out_def by (rule write_bytes_maps)

lemma copy_out_translate [simp]: "dma_translate (copy_out h a data n e) = dma_translate e"
  using copy_out_upd [of h a data n e] by auto

lemma fold_shift: "fold F (map (\<lambda>i. i + l) xs) e = fold (\<lambda>i. F (i + l)) xs e" for l :: nat
  by (induction xs arbitrary: e) simp_all

lemma copy_out_split:
  assumes "l \<le> n" "n \<le> length data"
  shows "copy_out h a data n e = copy_out h (a + of_nat l) (drop l data) (n - l) (copy_out h a data l e)"
proof -
  have "copy_out h a data n e = fold (\<lambda>i e'. write_byte (dma_translate e h (a + of_nat i)) (data ! i) e') (map (\<lambda>i. i + l) [0..<n - l]) (copy_out h a data l e)"
    unfolding copy_out_def by (subst upt_split [OF assms(1)]) simp
  also have "\<dots> = copy_out h (a + of_nat l) (drop l data) (n - l) (copy_out h a data l e)"
    unfolding copy_out_def [of h "a + of_nat l"] fold_shift
    by (rule fold_cong) (use assms in \<open>simp_all add: ac_simps\<close>)
  finally show ?thesis .
qed

lemma chunk_copies:
  assumes "dma_chunk e h a n = (start, l)"
  shows "read_chunk start l e = copy_in e h a l" and "write_chunk start l data e = copy_out h a data l e"
proof -
  show "read_chunk start l e = copy_in e h a l"
    unfolding read_chunk_def copy_in_def using chunk_bounds(3) [OF assms] by simp
  show "write_chunk start l data e = copy_out h a data l e"
    unfolding write_chunk_def copy_out_def write_byte_def
    by (rule fold_cong) (use chunk_bounds(3) [OF assms] in auto)
qed

lemma dma_io_read: "dma_io_loop DmaRead h a data n e = (copy_in e h a n, e)"
proof (induction n arbitrary: a data rule: less_induct)
  case (less n)
  obtain start l where c: "dma_chunk e h a n = (start, l)" by (cases "dma_chunk e h a n")
  note b = chunk_bounds [OF c] and k = chunk_copies [OF c]
  show ?case
  proof (cases "n - l = 0")
    case True
    then have "l = n" using b(1) by simp
    then show ?thesis using k(1) by (subst dma_io_loop.simps) (simp add: c)
  next
    case False
    then have "0 < l" "n - l < n" using b(1,2) by auto
    from less [OF this(2)] False k(1) show ?thesis
      by (subst dma_io_loop.simps) (simp add: c copy_in_split [OF b(1)])
  qed
qed

lemma dma_io_write: "n \<le> length data \<Longrightarrow> dma_io_loop DmaWrite h a data n e = ([], copy_out h a data n e)"
proof (induction n arbitrary: a data e rule: less_induct)
  case (less n)
  obtain start l where c: "dma_chunk e h a n = (start, l)" by (cases "dma_chunk e h a n")
  note b = chunk_bounds [OF c] and k = chunk_copies [OF c]
  show ?case
  proof (cases "n - l = 0")
    case True
    then have "l = n" using b(1) by simp
    then show ?thesis using k(2) by (subst dma_io_loop.simps) (simp add: c)
  next
    case False
    then have l: "0 < l" "n - l < n" using b(1,2) by auto
    have d: "n - l \<le> length (drop l data)" using less.prems by simp
    have "dma_io_loop DmaWrite h (a + of_nat l) (drop l data) (n - l) (copy_out h a data l e) =
        ([], copy_out h (a + of_nat l) (drop l data) (n - l) (copy_out h a data l e))"
      by (rule less.IH [OF l(2) d])
    then show ?thesis using False k(2)
      by (subst dma_io_loop.simps) (simp add: c copy_out_split [OF b(1) less.prems])
  qed
qed

lemmas dma_io = dma_io_read dma_io_write

section \<open>Transfers\<close>

text \<open>
  The reference for a whole transfer: byte \<open>k\<close> of the buffer goes with address \<open>f k\<close>, one byte after the other.
\<close>

definition byte_moves :: "DmaDirection \<Rightarrow> u32 \<Rightarrow> (nat \<Rightarrow> u32) \<Rightarrow> u8 list \<Rightarrow> nat \<Rightarrow> dma_env \<Rightarrow> u8 list \<times> dma_env" where
  "byte_moves d h f data n e = (case d of
     DmaRead \<Rightarrow> (map (\<lambda>k. phys_mem e (dma_translate e h (f k))) [0..<n], e)
   | DmaWrite \<Rightarrow> ([], fold (\<lambda>k e'. write_byte (dma_translate e h (f k)) (data ! k) e') [0..<n] e))"

lemma perform_moves:
  "(d = DmaWrite \<longrightarrow> n * 2 ^ w \<le> length data) \<Longrightarrow>
    perform_dma_io d sp a data n w e = byte_moves d (drop_bit 12 sp) (\<lambda>k. push_bit w a + of_nat k) data (n * 2 ^ w) e"
  by (cases d) (simp_all add: perform_dma_io_def dma_io byte_moves_def copy_in_def copy_out_def)

lemma byte_moves_upd: "\<exists>m. snd (byte_moves d h f data n e) = e\<lparr>phys_mem := m\<rparr>"
proof (cases d)
  case DmaRead
  then show ?thesis by (intro exI [of _ "phys_mem e"]) (simp add: byte_moves_def)
next
  case DmaWrite
  then show ?thesis using write_bytes_maps [of "\<lambda>k. dma_translate e h (f k)" "\<lambda>k. data ! k" "[0..<n]" e] by (simp add: byte_moves_def)
qed

lemma byte_moves_split:
  assumes "l \<le> n" and "d = DmaWrite \<longrightarrow> n \<le> length data"
  shows "byte_moves d h f data n e = (case byte_moves d h f data l e of (got, e1) \<Rightarrow>
    case byte_moves d h (\<lambda>k. f (k + l)) (drop l data) (n - l) e1 of (rest, e2) \<Rightarrow> (got @ rest, e2))"
proof (cases d)
  case DmaRead
  then show ?thesis by (simp add: byte_moves_def upt_split [OF assms(1)] comp_def)
next
  case DmaWrite
  have tr: "dma_translate (snd (byte_moves DmaWrite h f data l e)) = dma_translate e" using byte_moves_upd [of DmaWrite h f data l e] by auto
  have "fold (\<lambda>k e'. write_byte (dma_translate e h (f k)) (data ! k) e') [0..<n] e =
    fold (\<lambda>k e'. write_byte (dma_translate e h (f (k + l))) (data ! (k + l)) e') [0..<n - l] (snd (byte_moves DmaWrite h f data l e))"
    by (simp add: upt_split [OF assms(1)] fold_shift byte_moves_def)
  also have "\<dots> = snd (byte_moves DmaWrite h (\<lambda>k. f (k + l)) (drop l data) (n - l) (snd (byte_moves DmaWrite h f data l e)))"
    unfolding byte_moves_def [of DmaWrite h "\<lambda>k. f (k + l)"] tr DmaDirection.case snd_conv
    by (rule fold_cong) (use assms DmaWrite in \<open>simp_all add: add.commute\<close>)
  finally show ?thesis using DmaWrite by (simp add: byte_moves_def split: prod.split)
qed

lemma byte_moves_cong: "(\<And>k. k < n \<Longrightarrow> f k = g k) \<Longrightarrow> byte_moves d h f data n e = byte_moves d h g data n e"
  by (cases d) (auto simp: byte_moves_def intro!: fold_cong)

text \<open>
  The address of byte \<open>k\<close>: first the rest of the current range, then, with auto-initialisation, the base range over and over.
\<close>

definition dma_byte_addr :: "DmaChannel \<Rightarrow> nat \<Rightarrow> u32" where
  "dma_byte_addr c k = (let w = is_16bit c; l = (unat (curr_count c) + 1) * 2 ^ w in
     if k < l then push_bit w (curr_addr c) + of_nat k
     else push_bit w (ucast (base_addr c)) + of_nat ((k - l) mod ((unat (base_count c) + 1) * 2 ^ w)))"

definition reinit :: "DmaChannel \<Rightarrow> DmaChannel" where
  "reinit c = c\<lparr>has_reached_terminal_count := True, curr_count := base_count c, curr_addr := ucast (base_addr c)\<rparr>"

lemma reinit_fields [simp]:
  "curr_count (reinit c) = base_count c" "base_count (reinit c) = base_count c" "base_addr (reinit c) = base_addr c"
  "is_16bit (reinit c) = is_16bit c" "page_base (reinit c) = page_base c" "is_autoiniting (reinit c) = is_autoiniting c"
  "callback (reinit c) = callback c" "chan_num (reinit c) = chan_num c" "curr_addr (reinit c) = ucast (base_addr c)"
  by (simp_all add: reinit_def)

lemma reinit_upd:
  "(reinit c)\<lparr>has_reached_terminal_count := True, curr_count := x, curr_addr := y\<rparr> = c\<lparr>has_reached_terminal_count := True, curr_count := x, curr_addr := y\<rparr>"
  by (simp add: reinit_def)

lemma byte_addr_next: "dma_byte_addr c (k + (unat (curr_count c) + 1) * 2 ^ is_16bit c) = dma_byte_addr (reinit c) k"
proof -
  have p: "0 < (unat (base_count c) + 1) * 2 ^ is_16bit c" by simp
  show ?thesis by (cases "k < (unat (base_count c) + 1) * 2 ^ is_16bit c") (simp_all add: dma_byte_addr_def Let_def le_mod_geq not_less)
qed

text \<open>
  The contract of a device: at the terminal count its callback acts neither on the channel nor on memory. (The callback for
  the mask, which comes last, may do anything.)
\<close>

definition quiet_device :: "dma_device \<Rightarrow> DmaChannel \<Rightarrow> bool" where
  "quiet_device dev c \<longleftrightarrow> callback c \<longrightarrow> (\<forall>ce. dev (chan_num c) ReachedTC ce = ce)"

lemma quiet_reinit [simp]: "quiet_device dev (reinit c) = quiet_device dev c"
  by (simp add: quiet_device_def)

lemma quiet_terminal: "quiet_device dev c \<Longrightarrow> ReachedTerminalCount dev (c, e) = (c\<lparr>has_reached_terminal_count := True\<rparr>, e)"
  by (simp add: quiet_device_def ReachedTerminalCount_def DoCallback_def)

text \<open>What a transfer of \<open>n\<close> words leaves, on a channel that reached its terminal count or did not.\<close>

definition transferred :: "DmaDirection \<Rightarrow> nat \<Rightarrow> u8 list \<Rightarrow> DmaChannel \<times> dma_env \<Rightarrow> u8 list \<times> dma_env" where
  "transferred d n data ce = (case ce of (c, e) \<Rightarrow>
     byte_moves d (drop_bit 12 (page_base c)) (dma_byte_addr c) data (n * 2 ^ is_16bit c) e)"

lemma transferred_within:
  assumes "n \<le> unat (curr_count c) + 1" and "d = DmaWrite \<longrightarrow> n * 2 ^ is_16bit c \<le> length data"
  shows "perform_dma_io d (page_base c) (curr_addr c) data n (is_16bit c) e = transferred d n data (c, e)"
proof -
  have "k < (unat (curr_count c) + 1) * 2 ^ is_16bit c" if "k < n * 2 ^ is_16bit c" for k
    using that mult_le_mono1 [OF assms(1), of "2 ^ is_16bit c"] by linarith
  then show ?thesis unfolding perform_moves [OF assms(2)] transferred_def prod.case
    by (intro byte_moves_cong) (simp add: dma_byte_addr_def Let_def)
qed

lemma rw_stop:
  assumes "want < unat (curr_count c) + 1" and "d = DmaWrite \<longrightarrow> want * 2 ^ is_16bit c \<le> length buf"
  shows "rw_loop dev d want buf (c, e) = (case transferred d want buf (c, e) of (got, e1) \<Rightarrow>
    (want, got, (c\<lparr>curr_addr := curr_addr c + of_nat want, curr_count := curr_count c - of_nat want\<rparr>, e1)))"
  using assms transferred_within [of want c d buf e] by (subst rw_loop.simps) (simp add: Let_def)

lemma rw_terminal:
  assumes "\<not> want < unat (curr_count c) + 1" "\<not> is_autoiniting c" "quiet_device dev c"
    and "d = DmaWrite \<longrightarrow> (unat (curr_count c) + 1) * 2 ^ is_16bit c \<le> length buf"
  shows "rw_loop dev d want buf (c, e) = (case transferred d (unat (curr_count c) + 1) buf (c, e) of (got, e1) \<Rightarrow>
    (unat (curr_count c) + 1, got, DoCallback dev IsMasked
      (c\<lparr>has_reached_terminal_count := True, curr_addr := curr_addr c + of_nat (unat (curr_count c) + 1),
         curr_count := 0xffff, is_masked := True\<rparr>, UpdateEMSMapping e1)))"
  using assms transferred_within [of "unat (curr_count c) + 1" c d buf e]
  by (subst rw_loop.simps) (simp add: Let_def quiet_terminal split: prod.split)

lemma transferred_split:
  assumes "unat (curr_count c) + 1 \<le> n" and "d = DmaWrite \<longrightarrow> n * 2 ^ is_16bit c \<le> length data"
  shows "transferred d n data (c, e) = (case transferred d (unat (curr_count c) + 1) data (c, e) of (got, e1) \<Rightarrow>
    case transferred d (n - (unat (curr_count c) + 1)) (drop ((unat (curr_count c) + 1) * 2 ^ is_16bit c) data) (reinit c, e1) of (rest, e2) \<Rightarrow>
      (got @ rest, e2))"
proof -
  let ?l = "unat (curr_count c) + 1" and ?w = "is_16bit c"
  have l: "?l * 2 ^ ?w \<le> n * 2 ^ ?w" using assms(1) by (rule mult_le_mono1)
  have s: "n * 2 ^ ?w - ?l * 2 ^ ?w = (n - ?l) * 2 ^ ?w" by (simp add: diff_mult_distrib)
  show ?thesis
    unfolding transferred_def prod.case byte_moves_split [OF l assms(2)] s byte_addr_next by simp
qed

lemma rw_auto:
  assumes "\<not> want < unat (curr_count c) + 1" and "is_autoiniting c" and "quiet_device dev c"
    and "d = DmaWrite \<longrightarrow> want * 2 ^ is_16bit c \<le> length buf"
  shows "rw_loop dev d want buf (c, e) = (let r = (want - (unat (curr_count c) + 1)) mod (unat (base_count c) + 1) in
    case transferred d want buf (c, e) of (got, e1) \<Rightarrow> (want, got,
      (c\<lparr>has_reached_terminal_count := True, curr_count := base_count c - of_nat r, curr_addr := ucast (base_addr c) + of_nat r\<rparr>,
       if r = 0 then UpdateEMSMapping e1 else e1)))"
  using assms
proof (induction want arbitrary: c e buf rule: less_induct)
  case (less want)
  let ?left = "unat (curr_count c) + 1" and ?b = "unat (base_count c) + 1" and ?w = "is_16bit c"
  let ?buf = "drop (?left * 2 ^ ?w) buf"
  have le: "?left \<le> want" using less.prems(1) by simp
  have room: "d = DmaWrite \<longrightarrow> ?left * 2 ^ ?w \<le> length buf" using less.prems(4) mult_le_mono1 [OF le, of "2 ^ ?w"] by auto
  obtain got e1 where p: "transferred d ?left buf (c, e) = (got, e1)" by fastforce
  have un: "rw_loop dev d want buf (c, e) = (if want - ?left \<noteq> 0
      then case rw_loop dev d (want - ?left) ?buf (reinit c, e1) of (n, rest, ce) \<Rightarrow> (?left + n, got @ rest, ce)
      else (?left, got, (reinit c, UpdateEMSMapping e1)))"
    using less.prems(1-3) p transferred_within [of ?left c d buf e, OF _ room]
    by (subst rw_loop.simps) (simp add: Let_def quiet_terminal reinit_def)
  obtain rest e2 where q: "transferred d (want - ?left) ?buf (reinit c, e1) = (rest, e2)" by fastforce
  have tw: "transferred d want buf (c, e) = (got @ rest, e2)" using transferred_split [OF le less.prems(4)] p q by simp
  have buf: "d = DmaWrite \<longrightarrow> (want - ?left) * 2 ^ is_16bit (reinit c) \<le> length ?buf"
    using less.prems(4) by (auto simp: diff_mult_distrib intro: diff_le_mono)
  show ?case
  proof (cases "want - ?left = 0")
    case True
    then have w: "want = ?left" using le by simp
    show ?thesis using un True p w by (simp add: Let_def reinit_def)
  next
    case False
    show ?thesis
    proof (cases "want - ?left < ?b")
      case True
      then have "want - ?left < unat (curr_count (reinit c)) + 1" by simp
      from rw_stop [OF this buf, of dev e1] un False True le tw q show ?thesis by (simp add: Let_def reinit_def)
    next
      case nt: False
      have lt: "want - ?left < want" using le by simp
      have n: "\<not> want - ?left < unat (curr_count (reinit c)) + 1" using nt by simp
      have m: "(want - ?left - ?b) mod ?b = (want - ?left) mod ?b" using nt by (simp add: le_mod_geq)
      let ?r = "(want - ?left) mod ?b"
      have "rw_loop dev d (want - ?left) ?buf (reinit c, e1) = (want - ?left, rest,
          (c\<lparr>has_reached_terminal_count := True, curr_count := base_count c - of_nat ?r, curr_addr := ucast (base_addr c) + of_nat ?r\<rparr>,
           if ?r = 0 then UpdateEMSMapping e2 else e2))"
        using less.IH [OF lt n _ _ buf, of e1] less.prems(2,3) q by (simp only: m reinit_fields quiet_reinit reinit_upd Let_def prod.case simp_thms)
      then show ?thesis using un False le tw by (simp add: Let_def)
    qed
  qed
qed

section \<open>Registers behind a flip-flop\<close>

text \<open>
  A 16-bit register accessed through an 8-bit port: what the write and read functions promise, and
  that two writes followed by two reads give the bytes back. Address and count are two instances.
\<close>

locale byte_port_register =
  fixes put :: "bool \<Rightarrow> u16 \<Rightarrow> 'c \<Rightarrow> 'c" and get :: "bool \<Rightarrow> 'c \<Rightarrow> u16"
  assumes get_low: "v < 256 \<Longrightarrow> get True (put True v c) = v"
    and get_high: "v < 256 \<Longrightarrow> get False (put False v c) = v"
    and keep_low: "v < 256 \<Longrightarrow> get True (put False v c) = get True c"
begin

lemma low_high: "lo < 256 \<Longrightarrow> hi < 256 \<Longrightarrow>
    get True (put False hi (put True lo c)) = lo \<and> get False (put False hi (put True lo c)) = hi"
  by (simp add: get_high keep_low get_low)

end

definition get_addr :: "bool \<Rightarrow> DmaChannel \<Rightarrow> u16" where
  "get_addr low c = (if low then ucast (curr_addr c AND 0xff) else ucast (drop_bit 8 (curr_addr c) AND 0xff))"

definition get_count :: "bool \<Rightarrow> DmaChannel \<Rightarrow> u16" where
  "get_count low c = (if low then curr_count c AND 0xff else drop_bit 8 (curr_count c) AND 0xff)"

lemma byte_bits:
  assumes "(v::u16) < 256" "bit v n"
  shows "n < 8"
proof -
  have "unat v < 2 ^ 8" using assms(1) by (simp add: word_less_nat_alt)
  then have "take_bit 8 (unat v) = unat v" by (simp only: take_bit_nat_eq_self_iff)
  then have "take_bit 8 v = v" by (simp add: word_unat_eq_iff unsigned_take_bit_eq)
  then show ?thesis using assms(2) by (metis bit_take_bit_iff)
qed

lemma byte_mask_bits: "bit (0xff::int) n \<longleftrightarrow> n < 8" "bit (0xff00::int) n \<longleftrightarrow> 8 \<le> n \<and> n < 16"
proof -
  have m: "(0xff::int) = mask 8" "(0xff00::int) = push_bit 8 (mask 8)" by (simp_all add: mask_numeral push_bit_eq_mult)
  show "bit (0xff::int) n \<longleftrightarrow> n < 8" "bit (0xff00::int) n \<longleftrightarrow> 8 \<le> n \<and> n < 16"
    unfolding m by (auto simp: bit_simps)
qed

lemmas reg_bits = bit_simps byte_mask_bits

interpretation addr_reg: byte_port_register set_addr get_addr
proof
  fix v :: u16 and c :: DmaChannel
  assume v: "v < 256"
  note b = byte_bits [OF v]
  show "get_addr True (set_addr True v c) = v"
    by (rule bit_word_eqI) (use b in \<open>auto simp: get_addr_def set_addr_def reg_bits\<close>)
  show "get_addr False (set_addr False v c) = v"
    by (rule bit_word_eqI) (use b in \<open>auto simp: get_addr_def set_addr_def reg_bits\<close>)
  show "get_addr True (set_addr False v c) = get_addr True c"
    by (rule bit_word_eqI) (use b in \<open>auto simp: get_addr_def set_addr_def reg_bits\<close>)
qed

interpretation count_reg: byte_port_register set_count get_count
proof
  fix v :: u16 and c :: DmaChannel
  assume v: "v < 256"
  note b = byte_bits [OF v]
  show "get_count True (set_count True v c) = v"
    by (rule bit_word_eqI) (use b in \<open>auto simp: get_count_def set_count_def reg_bits\<close>)
  show "get_count False (set_count False v c) = v"
    by (rule bit_word_eqI) (use b in \<open>auto simp: get_count_def set_count_def reg_bits\<close>)
  show "get_count True (set_count False v c) = get_count True c"
    by (rule bit_word_eqI) (use b in \<open>auto simp: get_count_def set_count_def reg_bits\<close>)
qed

lemma addr_value:
  assumes "lo < 256"
  shows "base_addr (set_addr False hi (set_addr True lo c)) = push_bit 8 hi OR lo"
    and "hi < 256 \<Longrightarrow> curr_addr (set_addr False hi (set_addr True lo c)) = ucast (push_bit 8 hi OR lo)"
proof -
  note b = byte_bits [OF assms]
  show "base_addr (set_addr False hi (set_addr True lo c)) = push_bit 8 hi OR lo"
    by (rule bit_word_eqI) (use b in \<open>auto simp: set_addr_def reg_bits\<close>)
  show "curr_addr (set_addr False hi (set_addr True lo c)) = ucast (push_bit 8 hi OR lo)" if "hi < 256"
    by (rule bit_word_eqI) (use b in \<open>auto simp: set_addr_def reg_bits dest: byte_bits [OF that]\<close>)
qed

lemma count_value:
  assumes "lo < 256"
  shows "base_count (set_count False hi (set_count True lo c)) = push_bit 8 hi OR lo"
    and "curr_count (set_count False hi (set_count True lo c)) = push_bit 8 hi OR lo"
proof -
  note b = byte_bits [OF assms]
  show "base_count (set_count False hi (set_count True lo c)) = push_bit 8 hi OR lo"
    "curr_count (set_count False hi (set_count True lo c)) = push_bit 8 hi OR lo"
    by (rule bit_word_eqI, use b in \<open>auto simp: set_count_def reg_bits\<close>)+
qed

lemma write_addr_reg:
  "n < 4 \<Longrightarrow> WriteControllerReg dev (2 * n) v (k, e) = (k\<lparr>flipflop := \<not> flipflop k,
     dma_channels := (dma_channels k)(n := set_addr (\<not> flipflop k) v (dma_channels k n))\<rparr>, UpdateEMSMapping e)"
  by (auto simp: WriteControllerReg_def upd_chan_def Let_def)

lemma write_count_reg:
  assumes "n < 4"
  shows "WriteControllerReg dev (2 * n + 1) v (k, e) = (k\<lparr>flipflop := \<not> flipflop k,
     dma_channels := (dma_channels k)(n := set_count (\<not> flipflop k) v (dma_channels k n))\<rparr>, UpdateEMSMapping e)"
proof -
  have "2 * n + 1 \<notin> {0, 2, 4, 6}" "2 * n + 1 \<in> {1, 3, 5, 7}" "(2 * n + 1) div 2 = n" using assms by (auto; presburger)+
  then show ?thesis by (simp add: WriteControllerReg_def upd_chan_def Let_def)
qed

lemma read_addr_reg:
  "n < 4 \<Longrightarrow> ReadControllerReg (2 * n) k = (get_addr (\<not> flipflop k) (dma_channels k n), k\<lparr>flipflop := \<not> flipflop k\<rparr>)"
  by (auto simp: ReadControllerReg_def get_addr_def Let_def)

lemma read_count_reg:
  assumes "n < 4"
  shows "ReadControllerReg (2 * n + 1) k = (get_count (\<not> flipflop k) (dma_channels k n), k\<lparr>flipflop := \<not> flipflop k\<rparr>)"
proof -
  have "2 * n + 1 \<notin> {0, 2, 4, 6}" "2 * n + 1 \<in> {1, 3, 5, 7}" "(2 * n + 1) div 2 = n" using assms by (auto; presburger)+
  then show ?thesis by (simp add: ReadControllerReg_def get_count_def Let_def)
qed

section \<open>Mask commands\<close>

lemma upt4: "[0..<4] = [0, 1, 2, 3 :: nat]"
  by (simp add: upt_rec)

lemma all_chans_unfold: "all_chans f ke = upd_chan 3 (f 3) (upd_chan 2 (f 2) (upd_chan 1 (f 1) (upd_chan 0 (f 0) ke)))"
  by (simp add: all_chans_def upt4)

lemma less4: "(n::nat) < 4 \<longleftrightarrow> n = 0 \<or> n = 1 \<or> n = 2 \<or> n = 3"
  by auto

lemma SetMask_fst: "\<not> callback (fst ce) \<Longrightarrow> SetMask dev b ce = ((fst ce)\<lparr>is_masked := b\<rparr>, snd ce)"
  by (cases ce) (simp add: SetMask_def DoCallback_def Let_def)

lemma upd_chan_plain:
  "\<not> callback (dma_channels k i) \<Longrightarrow> (\<And>c e. \<not> callback c \<Longrightarrow> f (c, e) = (g c, e)) \<Longrightarrow>
    upd_chan i f (k, e) = (k\<lparr>dma_channels := (dma_channels k)(i := g (dma_channels k i))\<rparr>, e)"
  by (simp add: upd_chan_def)

lemma all_chans_plain:
  assumes "\<forall>i. \<not> callback (dma_channels k i)" and f: "\<And>i c e. \<not> callback c \<Longrightarrow> f i (c, e) = (g i c, e)"
  shows "dma_channels (fst (all_chans f (k, e))) n = (if n < 4 then g n (dma_channels k n) else dma_channels k n)"
proof -
  have u: "upd_chan i (f i) (k', e) = (k'\<lparr>dma_channels := (dma_channels k')(i := g i (dma_channels k' i))\<rparr>, e)"
    if "\<not> callback (dma_channels k' i)" for i k' using that f by (intro upd_chan_plain)
  show ?thesis using assms(1) by (simp add: all_chans_unfold u less4)
qed

lemma drop_and_1: "drop_bit n (v::u16) AND 1 \<noteq> 0 \<longleftrightarrow> bit v n"
  by (simp add: and_1_bits bit_simps)

section \<open>Properties\<close>

text \<open>
  Property C8. The copy between buffer and memory, done in chunks that end at page boundaries, is the
  byte-by-byte copy through the page mapping: byte \<open>i\<close> of the buffer is the byte at the translation of
  address \<open>a + i\<close>, also across pages, across the EMS page frame and when the address wraps at 32 bits.
\<close>

theorem dma_io_bytewise:
  assumes "n * 2 ^ w \<le> length data"
  shows "perform_dma_io DmaRead sp a data n w e = (copy_in e (drop_bit 12 sp) (push_bit w a) (n * 2 ^ w), e) \<and>
    perform_dma_io DmaWrite sp a data n w e = ([], copy_out (drop_bit 12 sp) (push_bit w a) data (n * 2 ^ w) e)"
  using assms by (simp add: perform_dma_io_def dma_io)

definition zero_env :: dma_env where
  "zero_env = \<lparr>phys_mem = (\<lambda>_. 0), firstmb = (\<lambda>p. p), ems_board_mapping = (\<lambda>p. p), dma_wrapping = 0xffff, dma_calls = []\<rparr>"

theorem dma_io_bytewise_witness:
  "(2::nat) * 2 ^ 0 \<le> length [1, 2 :: u8] \<and>
   fst (perform_dma_io DmaRead 0x10000 0xfff [1, 2] 2 0 zero_env) = copy_in zero_env 0x10 0xfff 2"
  using dma_io_bytewise [of 2 0 "[1, 2]" "0x10000" "0xfff" zero_env] by simp

text \<open>
  Property C37. A whole transfer, on a channel whose ranges are at most 64 KB and with a device whose callback at the
  terminal count leaves channel and memory alone. Below the count all words are done, and address and count move by as many. Otherwise
  the terminal count is reached: without auto-initialisation the transfer stops after the remaining words, the
  count is all ones and the channel is masked, and the device is told so with everything else already done; with
  it, all words are done and address and count stand where the passes over the base range leave them. In every case
  the bytes moved are exactly those of the words done, each between its place in the buffer and the translation
  of its own address: the rest of the current range first, then the base range over and over.
\<close>

theorem dma_transfer_registers:
  assumes "is_16bit c \<le> 1" and "(unat (curr_count c) + 1) * 2 ^ is_16bit c \<le> 65536" and "(unat (base_count c) + 1) * 2 ^ is_16bit c \<le> 65536"
    and "quiet_device dev c" and "d = DmaWrite \<longrightarrow> words * 2 ^ is_16bit c \<le> length buf"
  shows "let left = unat (curr_count c) + 1; c0 = c\<lparr>curr_addr := curr_addr c AND dma_wrapping e\<rparr>;
      n = (if words < left \<or> is_autoiniting c then words else left);
      r = (words - left) mod (unat (base_count c) + 1);
      (got, e1) = byte_moves d (drop_bit 12 (page_base c)) (dma_byte_addr c0) buf (n * 2 ^ is_16bit c) e
   in ReadOrWrite dev d words buf (c, e) = (n, got,
     if words < left then (c0\<lparr>curr_addr := curr_addr c0 + of_nat words, curr_count := curr_count c - of_nat words\<rparr>, e1)
     else if is_autoiniting c then
       (c0\<lparr>has_reached_terminal_count := True, curr_count := base_count c - of_nat r, curr_addr := ucast (base_addr c) + of_nat r\<rparr>,
        if r = 0 then UpdateEMSMapping e1 else e1)
     else DoCallback dev IsMasked
       (c0\<lparr>has_reached_terminal_count := True, curr_addr := curr_addr c0 + of_nat left, curr_count := 0xffff, is_masked := True\<rparr>,
        UpdateEMSMapping e1))"
proof -
  let ?c0 = "c\<lparr>curr_addr := curr_addr c AND dma_wrapping e\<rparr>"
  have o: "ReadOrWrite dev d words buf (c, e) = rw_loop dev d words buf (?c0, e)" by (simp add: ReadOrWrite_def)
  have q: "quiet_device dev ?c0" using assms(4) by (simp add: quiet_device_def)
  have room: "d = DmaWrite \<longrightarrow> words * 2 ^ is_16bit ?c0 \<le> length buf" using assms(5) by simp
  consider (stop) "words < unat (curr_count ?c0) + 1" | (au) "\<not> words < unat (curr_count ?c0) + 1" "is_autoiniting ?c0"
    | (tc) "\<not> words < unat (curr_count ?c0) + 1" "\<not> is_autoiniting ?c0" by blast
  then show ?thesis
  proof cases
    case stop
    then show ?thesis using rw_stop [OF stop room, of dev e] unfolding Let_def o by (simp add: transferred_def split: prod.split)
  next
    case au
    then show ?thesis using rw_auto [OF au q room, of e] unfolding Let_def o by (simp add: transferred_def Let_def split: prod.split)
  next
    case tc
    have "unat (curr_count c) + 1 \<le> words" using tc(1) by simp
    from mult_le_mono1 [OF this, of "2 ^ is_16bit c"] have "d = DmaWrite \<longrightarrow> (unat (curr_count ?c0) + 1) * 2 ^ is_16bit ?c0 \<le> length buf"
      using room by auto
    from rw_terminal [OF tc q this, of e] tc show ?thesis unfolding Let_def o by (simp add: transferred_def split: prod.split)
  qed
qed

text \<open>A device that reads on when its channel is masked, from a channel of two bytes that wraps round.\<close>

definition rereading :: dma_device where
  "rereading num event ce = (if event = IsMasked then (\<lambda>(n, got, ce'). ce') (ReadOrWrite (\<lambda>_ _ x. x) DmaRead 1 [] ce) else ce)"

definition two_bytes :: DmaChannel where
  "two_bytes = (DmaChannel_init 1 False)\<lparr>curr_addr := 0x10, curr_count := 1, base_addr := 0x20, base_count := 1, is_autoiniting := True, callback := True\<rparr>"

definition byte_env :: dma_env where
  "byte_env = zero_env\<lparr>phys_mem := (\<lambda>a. ucast a)\<rparr>"

theorem dma_transfer_registers_witness:
  "fst (ReadOrWrite rereading DmaRead 5 [] (two_bytes, byte_env)) = 5 \<and>
   fst (snd (ReadOrWrite rereading DmaRead 5 [] (two_bytes, byte_env))) = [0x10, 0x11, 0x20, 0x21, 0x20] \<and>
   curr_count (fst (snd (snd (ReadOrWrite rereading DmaRead 5 [] (two_bytes, byte_env))))) = 0"
proof -
  have f: "is_16bit two_bytes = 0" "curr_count two_bytes = 1" "base_count two_bytes = 1" "is_autoiniting two_bytes" "page_base two_bytes = 0"
    "curr_addr two_bytes = 0x10" "base_addr two_bytes = 0x20" "dma_wrapping byte_env = 0xffff"
    by (simp_all add: two_bytes_def DmaChannel_init_def byte_env_def zero_env_def)
  have a: "(0x10 :: u32) AND 0xffff = 0x10" by code_simp
  have q: "quiet_device rereading two_bytes" by (simp add: quiet_device_def rereading_def)
  have m: "(3 :: nat) mod Suc (Suc 0) = 1" by code_simp
  have ks: "[0..<5] = [0, 1, 2, 3, 4 :: nat]" by (simp add: upt_rec)
  have b: "fst (byte_moves DmaRead 0 (dma_byte_addr (two_bytes\<lparr>curr_addr := 0x10\<rparr>)) [] 5 byte_env) = [0x10, 0x11, 0x20, 0x21, 0x20]"
    unfolding byte_moves_def DmaDirection.case fst_conv ks list.map by code_simp
  show ?thesis
    using dma_transfer_registers [of two_bytes rereading DmaRead 5 "[]" byte_env] q b by (simp add: f a m Let_def split: prod.splits)
qed

text \<open>
  Property C38. The 16-bit address and count registers behind the 8-bit ports: from a cleared flip-flop,
  writing a low and a high byte sets base and current register to the word, leaves the flip-flop
  cleared and every other channel alone, and two reads return the low and the high byte and leave the
  controller as it was.
\<close>

theorem dma_register_roundtrip:
  assumes "n < 4" and "\<not> flipflop k" and "lo < 256" and "hi < 256"
  shows "let k2 = fst (WriteControllerReg dev (2 * n) hi (WriteControllerReg dev (2 * n) lo (k, e)));
       k3 = fst (WriteControllerReg dev (2 * n + 1) hi (WriteControllerReg dev (2 * n + 1) lo (k, e)));
       v = push_bit 8 hi OR lo in
     base_addr (dma_channels k2 n) = v \<and> curr_addr (dma_channels k2 n) = ucast v \<and> \<not> flipflop k2 \<and>
     (\<forall>j. j \<noteq> n \<longrightarrow> dma_channels k2 j = dma_channels k j) \<and>
     fst (ReadControllerReg (2 * n) k2) = lo \<and> ReadControllerReg (2 * n) (snd (ReadControllerReg (2 * n) k2)) = (hi, k2) \<and>
     base_count (dma_channels k3 n) = v \<and> curr_count (dma_channels k3 n) = v \<and> \<not> flipflop k3 \<and>
     (\<forall>j. j \<noteq> n \<longrightarrow> dma_channels k3 j = dma_channels k j) \<and>
     fst (ReadControllerReg (2 * n + 1) k3) = lo \<and>
     ReadControllerReg (2 * n + 1) (snd (ReadControllerReg (2 * n + 1) k3)) = (hi, k3)"
  unfolding Let_def write_addr_reg [OF assms(1)] write_count_reg [OF assms(1)] read_addr_reg [OF assms(1)] read_count_reg [OF assms(1)]
  using assms addr_reg.low_high [OF assms(3,4)] count_reg.low_high [OF assms(3,4)] addr_value [OF assms(3)] count_value [OF assms(3)]
  by simp

theorem dma_register_roundtrip_witness:
  "\<not> flipflop (DmaController_init 0) \<and>
   base_addr (dma_channels (fst (WriteControllerReg rereading 2 0x12 (WriteControllerReg rereading 2 0x34 (DmaController_init 0, zero_env)))) 1) = push_bit 8 0x12 OR 0x34"
  using dma_register_roundtrip [of 1 "DmaController_init 0" "0x34" "0x12" rereading zero_env]
  by (simp add: DmaController_init_def Let_def)

text \<open>
  The status register reports in bits 0 to 3 which channels have reached their terminal
  count and in bits 4 to 7 which have raised a request; reading it clears the first four and changes
  nothing else, so a second read reports only the requests.
\<close>

theorem dma_status_read:
  "let (v, k') = ReadControllerReg 8 k in
     (\<forall>n<4. bit v n = has_reached_terminal_count (dma_channels k n) \<and> bit v (n + 4) = has_raised_request (dma_channels k n)) \<and>
     (\<forall>n. 8 \<le> n \<longrightarrow> \<not> bit v n) \<and>
     (\<forall>n. dma_channels k' n = (if n < 4 then (dma_channels k n)\<lparr>has_reached_terminal_count := False\<rparr> else dma_channels k n)) \<and>
     fst (ReadControllerReg 8 k') = v AND 0xf0"
proof -
  have b: "bit (status_bits cs) m \<longleftrightarrow> (m < 4 \<and> has_reached_terminal_count (cs m) \<or> 4 \<le> m \<and> m < 8 \<and> has_raised_request (cs (m - 4)))" for cs m
  proof -
    have st: "bit (if P then r OR q else r) j \<longleftrightarrow> bit r j \<or> P \<and> bit q j" for P j and r q :: u16
      by (simp add: bit_or_iff)
    have pb: "bit (push_bit i 1 :: u16) j \<longleftrightarrow> j = i \<and> j < 16" for i j
      by (auto simp: bit_simps)
    have "bit (status_bits cs) m \<longleftrightarrow> m \<in> {0, 1, 2, 3} \<and> has_reached_terminal_count (cs m) \<or> m \<in> {4, 5, 6, 7} \<and> has_raised_request (cs (m - 4))"
    proof -
      define F where "F = (\<lambda>ct ret. let ret1 = (if has_reached_terminal_count (cs ct) then ret OR push_bit ct 1 else ret :: u16)
        in if has_raised_request (cs ct) then ret1 OR push_bit (4 + ct) 1 else ret1)"
      have F: "bit (F ct ret) j \<longleftrightarrow> bit ret j \<or> has_reached_terminal_count (cs ct) \<and> j = ct \<and> j < 16 \<or>
          has_raised_request (cs ct) \<and> j = 4 + ct \<and> j < 16" for ct ret j
        unfolding F_def Let_def st pb by blast
      have "status_bits cs = F 3 (F 2 (F 1 (F 0 0)))" unfolding status_bits_def F_def [symmetric] upt4 by simp
      then have e: "bit (status_bits cs) m \<longleftrightarrow> bit (F 3 (F 2 (F 1 (F 0 0)))) m" by simp
      have "m = 0 \<or> m = 1 \<or> m = 2 \<or> m = 3 \<or> m = 4 \<or> m = 5 \<or> m = 6 \<or> m = 7 \<or> 8 \<le> m" by linarith
      then show ?thesis unfolding e F by (elim disjE) simp_all
    qed
    moreover have "m \<in> {0, 1, 2, 3} \<longleftrightarrow> m < 4" "m \<in> {4, 5, 6, 7} \<longleftrightarrow> 4 \<le> m \<and> m < 8" by auto
    ultimately show ?thesis by blast
  qed
  have f0: "bit (0xf0::u16) m \<longleftrightarrow> 4 \<le> m \<and> m < 8" for m
  proof -
    have e: "(0xf0::u16) = push_bit 4 (mask 4)" by (simp add: mask_numeral)
    show ?thesis unfolding e by (auto simp: bit_simps)
  qed
  have e: "status_bits (\<lambda>ct. if ct < 4 then (dma_channels k ct)\<lparr>has_reached_terminal_count := False\<rparr> else dma_channels k ct) =
      status_bits (dma_channels k) AND 0xf0"
    by (rule bit_word_eqI) (auto simp: b f0 bit_and_iff simp del: bit_numeral_word_iff)
  show ?thesis by (auto simp: ReadControllerReg_def e b)
qed

theorem dma_status_read_witness:
  "let k = (DmaController_init 0)\<lparr>dma_channels := (\<lambda>_. (DmaChannel_init 0 False)\<lparr>has_reached_terminal_count := True\<rparr>)\<rparr> in
   bit (fst (ReadControllerReg 8 k)) 2 \<and> fst (ReadControllerReg 8 (snd (ReadControllerReg 8 k))) = fst (ReadControllerReg 8 k) AND 0xf0"
  using dma_status_read [of "(DmaController_init 0)\<lparr>dma_channels := (\<lambda>_. (DmaChannel_init 0 False)\<lparr>has_reached_terminal_count := True\<rparr>)\<rparr>"]
  by (auto simp: Let_def split: prod.splits)

text \<open>
  The mask commands, on channels without a callback: the multiple-mask register masks exactly the channels whose bit is
  set, clearing the masks unmasks all four, the master clear masks all four and clears terminal counts
  and flip-flop, and the single-mask register changes the mask of one channel only.
\<close>

lemma dma_mask_commands:
  assumes "\<forall>i. \<not> callback (dma_channels k i)"
  shows "(\<forall>n<4. is_masked (dma_channels (fst (WriteControllerReg dev 0xf v (k, e))) n) = bit v n) \<and>
   (\<forall>n<4. \<not> is_masked (dma_channels (fst (WriteControllerReg dev 0xe v (k, e))) n)) \<and>
   (\<forall>n<4. is_masked (dma_channels (fst (WriteControllerReg dev 0xd v (k, e))) n) \<and>
      \<not> has_reached_terminal_count (dma_channels (fst (WriteControllerReg dev 0xd v (k, e))) n)) \<and>
   \<not> flipflop (fst (WriteControllerReg dev 0xd v (k, e))) \<and>
   (\<forall>n. dma_channels (fst (WriteControllerReg dev 0xa v (k, e))) n =
      (if n = unat (v AND 3) then (dma_channels k n)\<lparr>is_masked := (v AND 4 \<noteq> 0)\<rparr> else dma_channels k n))"
proof -
  note plain = all_chans_plain [OF assms]
  have f: "\<forall>n<4. is_masked (dma_channels (fst (WriteControllerReg dev 0xf v (k, e))) n) = bit v n"
    using plain [of "\<lambda>ct. SetMask dev (drop_bit ct v AND 1 \<noteq> 0)" "\<lambda>ct c. c\<lparr>is_masked := (drop_bit ct v AND 1 \<noteq> 0)\<rparr>"] drop_and_1 [of _ v]
    by (simp add: WriteControllerReg_def SetMask_fst)
  have c: "\<forall>n<4. \<not> is_masked (dma_channels (fst (WriteControllerReg dev 0xe v (k, e))) n)"
    using plain [of "\<lambda>ct. SetMask dev False" "\<lambda>ct c. c\<lparr>is_masked := False\<rparr>"] by (simp add: WriteControllerReg_def SetMask_fst)
  let ?F = "\<lambda>ct ce. case SetMask dev True ce of (c, e) \<Rightarrow> (c\<lparr>has_reached_terminal_count := False\<rparr>, e)"
  have d: "fst (WriteControllerReg dev 0xd v (k, e)) = (fst (all_chans ?F (k, e)))\<lparr>flipflop := False\<rparr>"
    by (simp add: WriteControllerReg_def split: prod.split)
  have F: "dma_channels (fst (all_chans ?F (k, e))) n =
      (if n < 4 then (dma_channels k n)\<lparr>is_masked := True, has_reached_terminal_count := False\<rparr> else dma_channels k n)" for n
    by (rule plain [where g = "\<lambda>ct c. c\<lparr>is_masked := True, has_reached_terminal_count := False\<rparr>"]) (simp add: SetMask_fst)
  have a: "fst (WriteControllerReg dev 0xa v (k, e)) = k\<lparr>dma_channels := (dma_channels k)(unat (v AND 3) :=
      (dma_channels k (unat (v AND 3)))\<lparr>is_masked := (v AND 4 \<noteq> 0)\<rparr>)\<rparr>"
    using assms by (simp add: WriteControllerReg_def upd_chan_plain [where g = "\<lambda>c. c\<lparr>is_masked := (v AND 4 \<noteq> 0)\<rparr>"] SetMask_fst)
  show ?thesis using f c unfolding d a by (simp add: F)
qed

text \<open>
  Reserving a channel resets it, makes the caller its only owner and evicts the previous
  owner exactly when there was one.
\<close>

lemma dma_reservation:
  "let (c', e') = ReserveFor name (c, e) in
     c' = (Reset c)\<lparr>evict_callback := True, reservation_owner_name := name\<rparr> \<and>
     (name \<noteq> [] \<longrightarrow> HasReservation c') \<and>
     e' = e\<lparr>dma_calls := dma_calls e @ (if HasReservation c then [Evict (chan_num c) (reservation_owner_name c)] else [])\<rparr>"
  by (simp add: ReserveFor_def EvictReserver_def HasReservation_def Reset_def)

end
