(* ===== verification/Mem_Pages.thy ===== *)
theory Mem_Pages
  imports Emu_Prelude "HOL-Library.Monad_Syntax"
begin

text \<open>
  Emulated memory, \<^verbatim>\<open>src/hardware/memory.cpp\<close>: the bytes and page handlers, the accesses of the guest
  through the first megabyte's page map and the A20 gate, and the page allocator that extended and
  expanded memory share. \<^verbatim>\<open>mhandles\<close> holds one number per 4 KB page: 0 for a free page, the next
  page of its block, or -1 at a block's end; a block is named by its first page. An access beyond
  the table, a walk that does not end and the emulator's fatal error are \<open>None\<close>. Page
  numbers and counts are far below the limits of their C++ types and are not wrapped; byte
  addresses are 32-bit words. The accesses are those with paging switched off; the translation
  buffer only caches the page map and the handlers, and the handlers are those of memory.cpp, without a
  linear frame buffer.
\<close>

unbundle bit_operations_syntax

section \<open>State\<close>

type_synonym MemHandle = int

definition XMS_START :: nat where
  "XMS_START = 0x110"

datatype PageHandler = ram_page_handler | rom_page_handler | illegal_page_handler

text \<open>\<^verbatim>\<open>memory\<close>, with \<^verbatim>\<open>paging.firstmb\<close>; \<open>ram\<close> are the bytes of all \<^verbatim>\<open>pages\<close> by physical address.\<close>

record MemoryBlock =
  ram :: "u32 \<Rightarrow> u8"
  phandlers :: "PageHandler list"
  firstmb_map :: "u32 \<Rightarrow> u32"
  mhandles :: "MemHandle list"
  a20_enabled :: bool
  a20_controlport :: u8

definition MEM_TotalPages :: "MemoryBlock \<Rightarrow> nat" where
  "MEM_TotalPages m = length (mhandles m)"

definition get_handle :: "MemHandle \<Rightarrow> MemoryBlock \<Rightarrow> MemHandle option" where
  "get_handle h m = (if 0 \<le> h \<and> nat h < length (mhandles m) then Some (mhandles m ! nat h) else None)"

definition set_handle :: "MemHandle \<Rightarrow> MemHandle \<Rightarrow> MemoryBlock \<Rightarrow> MemoryBlock option" where
  "set_handle h v m = (if 0 \<le> h \<and> nat h < length (mhandles m) then Some (m\<lparr>mhandles := (mhandles m)[nat h := v]\<rparr>) else None)"

section \<open>Guest accesses\<close>

definition FIRST_LINK :: u32 where "FIRST_LINK = (1024 + 64) div 4"

text \<open>
  Linear pages from \<^verbatim>\<open>LINK_START\<close> on are linked into the page tables by \<^verbatim>\<open>PAGING_LinkPage\<close>, which is not
  modelled: all callers here map pages below.
\<close>

definition PAGING_MapPage :: "u32 \<Rightarrow> u32 \<Rightarrow> MemoryBlock \<Rightarrow> MemoryBlock" where
  "PAGING_MapPage lin_page phys_page m =
     (if lin_page < FIRST_LINK then m\<lparr>firstmb_map := (firstmb_map m)(lin_page := phys_page)\<rparr> else m)"

definition InitPage :: "u32 \<Rightarrow> MemoryBlock \<Rightarrow> u32" where
  "InitPage lin_page m = (if lin_page < FIRST_LINK then firstmb_map m lin_page else lin_page)"

definition MEM_GetPageHandler :: "u32 \<Rightarrow> MemoryBlock \<Rightarrow> PageHandler" where
  "MEM_GetPageHandler phys_page m =
     (if unat phys_page < length (phandlers m) then phandlers m ! unat phys_page else illegal_page_handler)"

fun MEM_SetPageHandler :: "nat \<Rightarrow> nat \<Rightarrow> PageHandler \<Rightarrow> MemoryBlock \<Rightarrow> MemoryBlock" where
  "MEM_SetPageHandler phys_page 0 handler m = m"
| "MEM_SetPageHandler phys_page (Suc pages) handler m =
     MEM_SetPageHandler (phys_page + 1) pages handler (m\<lparr>phandlers := (phandlers m)[phys_page := handler]\<rparr>)"

definition phys_addr :: "u32 \<Rightarrow> MemoryBlock \<Rightarrow> u32" where
  "phys_addr address m = push_bit 12 (InitPage (drop_bit 12 address) m) OR (address AND 0xfff)"

definition mem_readb :: "u32 \<Rightarrow> MemoryBlock \<Rightarrow> u8" where
  "mem_readb address m = (case MEM_GetPageHandler (InitPage (drop_bit 12 address) m) m of
     illegal_page_handler \<Rightarrow> 0xff
   | _ \<Rightarrow> ram m (phys_addr address m))"

definition mem_writeb :: "u32 \<Rightarrow> u8 \<Rightarrow> MemoryBlock \<Rightarrow> MemoryBlock" where
  "mem_writeb address val m = (case MEM_GetPageHandler (InitPage (drop_bit 12 address) m) m of
     ram_page_handler \<Rightarrow> m\<lparr>ram := (ram m)(phys_addr address m := val)\<rparr>
   | _ \<Rightarrow> m)"

text \<open>
  A wider access within a page goes to consecutive bytes of the page's memory or to the handler's
  default, which splits it into bytes; across pages it is split as well.
\<close>

definition mem_readw :: "u32 \<Rightarrow> MemoryBlock \<Rightarrow> u16" where
  "mem_readw address m = ucast (mem_readb address m) OR push_bit 8 (ucast (mem_readb (address + 1) m))"

definition mem_readd :: "u32 \<Rightarrow> MemoryBlock \<Rightarrow> u32" where
  "mem_readd address m = ucast (mem_readb address m) OR push_bit 8 (ucast (mem_readb (address + 1) m))
     OR push_bit 16 (ucast (mem_readb (address + 2) m)) OR push_bit 24 (ucast (mem_readb (address + 3) m))"

definition mem_writew :: "u32 \<Rightarrow> u16 \<Rightarrow> MemoryBlock \<Rightarrow> MemoryBlock" where
  "mem_writew address val m = mem_writeb (address + 1) (ucast (drop_bit 8 val)) (mem_writeb address (ucast val) m)"

definition mem_writed :: "u32 \<Rightarrow> u32 \<Rightarrow> MemoryBlock \<Rightarrow> MemoryBlock" where
  "mem_writed address val m = mem_writeb (address + 3) (ucast (drop_bit 24 val)) (mem_writeb (address + 2) (ucast (drop_bit 16 val))
     (mem_writeb (address + 1) (ucast (drop_bit 8 val)) (mem_writeb address (ucast val) m)))"

fun mem_strlen_from :: "nat \<Rightarrow> u32 \<Rightarrow> nat \<Rightarrow> MemoryBlock \<Rightarrow> nat" where
  "mem_strlen_from 0 pt x m = 0"
| "mem_strlen_from (Suc k) pt x m = (if mem_readb (pt + of_nat x) m = 0 then x else mem_strlen_from k pt (x + 1) m)"

definition mem_strlen :: "u32 \<Rightarrow> MemoryBlock \<Rightarrow> nat" where
  "mem_strlen pt m = mem_strlen_from 1024 pt 0 m"

fun mem_memcpy :: "u32 \<Rightarrow> u32 \<Rightarrow> nat \<Rightarrow> MemoryBlock \<Rightarrow> MemoryBlock" where
  "mem_memcpy dest src 0 m = m"
| "mem_memcpy dest src (Suc sz) m = mem_memcpy (dest + 1) (src + 1) sz (mem_writeb dest (mem_readb src m) m)"

fun MEM_BlockRead :: "u32 \<Rightarrow> nat \<Rightarrow> MemoryBlock \<Rightarrow> u8 list" where
  "MEM_BlockRead pt 0 m = []"
| "MEM_BlockRead pt (Suc sz) m = mem_readb pt m # MEM_BlockRead (pt + 1) sz m"

fun MEM_BlockWrite :: "u32 \<Rightarrow> u8 list \<Rightarrow> MemoryBlock \<Rightarrow> MemoryBlock" where
  "MEM_BlockWrite pt [] m = m"
| "MEM_BlockWrite pt (b # data) m = MEM_BlockWrite (pt + 1) data (mem_writeb pt b m)"

definition MEM_BlockCopy :: "u32 \<Rightarrow> u32 \<Rightarrow> nat \<Rightarrow> MemoryBlock \<Rightarrow> MemoryBlock" where
  "MEM_BlockCopy dest src sz m = mem_memcpy dest src sz m"

section \<open>Queries\<close>

fun free_largest_loop :: "MemHandle list \<Rightarrow> nat \<Rightarrow> nat \<Rightarrow> nat" where
  "free_largest_loop [] sz largest = max sz largest"
| "free_largest_loop (h # hs) sz largest =
     (if h = 0 then free_largest_loop hs (sz + 1) largest else free_largest_loop hs 0 (max sz largest))"

definition MEM_FreeLargest :: "MemoryBlock \<Rightarrow> nat" where
  "MEM_FreeLargest m = free_largest_loop (drop XMS_START (mhandles m)) 0 0"

fun free_total_loop :: "MemHandle list \<Rightarrow> nat \<Rightarrow> nat" where
  "free_total_loop [] free = free"
| "free_total_loop (h # hs) free = free_total_loop hs (if h = 0 then free + 1 else free)"

definition MEM_FreeTotal :: "MemoryBlock \<Rightarrow> nat" where
  "MEM_FreeTotal m = free_total_loop (drop XMS_START (mhandles m)) 0"

partial_function (option) allocated_loop :: "MemHandle \<Rightarrow> nat \<Rightarrow> MemoryBlock \<Rightarrow> nat option" where
  "allocated_loop handle pages m = (if 0 < handle then
     Option.bind (get_handle handle m) (\<lambda>next. allocated_loop next (pages + 1) m) else Some pages)"

definition MEM_AllocatedPages :: "MemHandle \<Rightarrow> MemoryBlock \<Rightarrow> nat option" where
  "MEM_AllocatedPages handle m = allocated_loop handle 0 m"

text \<open>
  The search for the free run that fits best: \<open>first\<close> is the start of the run being scanned or 0,
  \<open>best\<close> and \<open>best_first\<close> the shortest run found that is longer than needed. A run that fits exactly ends the
  search.
\<close>

fun best_loop :: "nat \<Rightarrow> MemHandle list \<Rightarrow> nat \<Rightarrow> nat \<Rightarrow> nat \<Rightarrow> nat \<Rightarrow> nat" where
  "best_loop sz [] index first best best_first =
     (if first \<noteq> 0 \<and> sz \<le> index - first \<and> index - first < best then first else best_first)"
| "best_loop sz (h # hs) index first best best_first =
     (if first = 0 then best_loop sz hs (index + 1) (if h = 0 then index else first) best best_first
      else if h \<noteq> 0 then
        (let pages = index - first in
         if pages = sz then first
         else if sz < pages \<and> pages < best then best_loop sz hs (index + 1) 0 pages first
         else best_loop sz hs (index + 1) 0 best best_first)
      else best_loop sz hs (index + 1) first best best_first)"

definition BestMatch :: "nat \<Rightarrow> MemoryBlock \<Rightarrow> nat" where
  "BestMatch sz m = best_loop sz (drop XMS_START (mhandles m)) XMS_START 0 0xfffffff 0"

definition MEM_GetNextFreePage :: "MemoryBlock \<Rightarrow> MemHandle" where
  "MEM_GetNextFreePage m = int (BestMatch 1 m)"

section \<open>Allocation\<close>

text \<open>
  \<^verbatim>\<open>*next = v\<close>, where \<^verbatim>\<open>next\<close> points to the result variable (\<open>None\<close>) or to a page's number.
\<close>

definition store_next :: "MemHandle option \<Rightarrow> MemHandle \<Rightarrow> MemHandle \<times> MemoryBlock \<Rightarrow> (MemHandle \<times> MemoryBlock) option" where
  "store_next n v rm = (case rm of (ret, m) \<Rightarrow> case n of
     None \<Rightarrow> Some (v, m)
   | Some p \<Rightarrow> map_option (\<lambda>m'. (ret, m')) (set_handle p v m))"

fun link_run :: "nat \<Rightarrow> MemHandle \<Rightarrow> MemHandle option \<Rightarrow> MemHandle \<times> MemoryBlock \<Rightarrow> (MemHandle \<times> MemoryBlock) option" where
  "link_run 0 index n rm = store_next n (- 1) rm"
| "link_run (Suc pages) index n rm = do { rm' \<leftarrow> store_next n index rm; link_run pages (index + 1) (Some index) rm' }"

text \<open>The inner loop takes free pages from \<open>index\<close> on while more are needed.\<close>

partial_function (option) take_free ::
  "nat \<Rightarrow> MemHandle \<Rightarrow> MemHandle option \<Rightarrow> MemHandle \<times> MemoryBlock \<Rightarrow> (nat \<times> MemHandle option \<times> MemHandle \<times> MemoryBlock) option" where
  "take_free pages index n rm = (if pages = 0 then Some (pages, n, rm) else
     Option.bind (get_handle index (snd rm)) (\<lambda>h.
       if h = 0 then Option.bind (store_next n index rm) (\<lambda>rm'. take_free (pages - 1) (index + 1) (Some index) rm')
       else Some (pages, n, rm)))"

partial_function (option) scatter_loop ::
  "nat \<Rightarrow> MemHandle option \<Rightarrow> MemHandle \<times> MemoryBlock \<Rightarrow> (MemHandle \<times> MemoryBlock) option" where
  "scatter_loop pages n rm = (if pages = 0 then Some rm else
     let index = BestMatch 1 (snd rm) in
     if index = 0 then None else
     Option.bind (take_free pages (int index) n rm) (\<lambda>(pages', n', rm').
       Option.bind (store_next n' (- 1) rm') (\<lambda>rm''. scatter_loop pages' n' rm'')))"

definition MEM_AllocatePages :: "nat \<Rightarrow> bool \<Rightarrow> MemoryBlock \<Rightarrow> (MemHandle \<times> MemoryBlock) option" where
  "MEM_AllocatePages pages sequence m = (if pages = 0 then Some (0, m)
     else if sequence then
       (let index = BestMatch pages m in if index = 0 then Some (0, m) else link_run pages (int index) None (0, m))
     else if MEM_FreeTotal m < pages then Some (0, m)
     else scatter_loop pages None (0, m))"

partial_function (option) MEM_ReleasePages :: "MemHandle \<Rightarrow> MemoryBlock \<Rightarrow> MemoryBlock option" where
  "MEM_ReleasePages handle m = (if 0 < handle then
     Option.bind (get_handle handle m) (\<lambda>next.
       Option.bind (set_handle handle 0 m) (\<lambda>m'. MEM_ReleasePages next m')) else Some m)"

section \<open>Resizing\<close>

text \<open>The last page and the number of pages of a block.\<close>

partial_function (option) find_last :: "MemHandle \<Rightarrow> MemHandle \<Rightarrow> nat \<Rightarrow> MemoryBlock \<Rightarrow> (MemHandle \<times> nat) option" where
  "find_last index lastp old_pages m = (if 0 < index then
     Option.bind (get_handle index m) (\<lambda>next. find_last next index (old_pages + 1) m) else Some (lastp, old_pages))"

fun walk :: "nat \<Rightarrow> MemHandle \<Rightarrow> MemoryBlock \<Rightarrow> MemHandle option" where
  "walk 0 index m = Some index"
| "walk (Suc n) index m = Option.bind (get_handle index m) (\<lambda>next. walk n next m)"

fun free_pages :: "nat \<Rightarrow> MemHandle \<Rightarrow> MemoryBlock \<Rightarrow> MemoryBlock option" where
  "free_pages 0 index m = Some m"
| "free_pages (Suc n) index m = do { next \<leftarrow> get_handle index m; m' \<leftarrow> set_handle index 0 m; free_pages n next m' }"

definition shrink_block :: "MemHandle \<Rightarrow> nat \<Rightarrow> nat \<Rightarrow> MemoryBlock \<Rightarrow> MemoryBlock option" where
  "shrink_block handle pages old_pages m = do {
     index \<leftarrow> walk (pages - 1) handle m;
     next \<leftarrow> get_handle index m;
     m' \<leftarrow> set_handle index (- 1) m;
     free_pages (old_pages - pages) next m' }"

text \<open>The number of free pages from \<open>index\<close> on.\<close>

fun count_free :: "MemHandle list \<Rightarrow> nat" where
  "count_free [] = 0"
| "count_free (h # hs) = (if h = 0 then 1 + count_free hs else 0)"

fun extend_run :: "nat \<Rightarrow> MemHandle \<Rightarrow> MemoryBlock \<Rightarrow> MemoryBlock option" where
  "extend_run 0 index m = set_handle index (- 1) m"
| "extend_run (Suc need) index m = do { m' \<leftarrow> set_handle index (index + 1) m; extend_run need (index + 1) m' }"

text \<open>
  Result, new handle and memory. The count of free pages starts behind the block's last page.
\<close>

record realloc_result =
  ra_ok :: bool
  ra_handle :: MemHandle
  ra_mem :: MemoryBlock

definition realloc_res :: "bool \<Rightarrow> MemHandle \<Rightarrow> MemoryBlock \<Rightarrow> realloc_result" where
  "realloc_res ok h m = \<lparr>ra_ok = ok, ra_handle = h, ra_mem = m\<rparr>"

definition MEM_ReAllocatePages :: "MemHandle \<Rightarrow> nat \<Rightarrow> bool \<Rightarrow> MemoryBlock \<Rightarrow> realloc_result option" where
  "MEM_ReAllocatePages handle pages sequence m =
    (if handle \<le> 0 then
       (if pages = 0 then Some (realloc_res True handle m)
        else do { (h, m') \<leftarrow> MEM_AllocatePages pages sequence m; Some (realloc_res (0 < h) h m') })
     else if pages = 0 then do { m' \<leftarrow> MEM_ReleasePages handle m; Some (realloc_res True (- 1) m') }
     else do {
       (lastp, old_pages) \<leftarrow> find_last handle 0 0 m;
       if old_pages = pages then Some (realloc_res True handle m)
       else if pages < old_pages then do { m' \<leftarrow> shrink_block handle pages old_pages m; Some (realloc_res True handle m') }
       else if sequence then
         (if pages - old_pages \<le> count_free (drop (nat lastp + 1) (mhandles m)) then
            do { m' \<leftarrow> extend_run (pages - old_pages) lastp m; Some (realloc_res True handle m') }
          else do {
            (newhandle, m1) \<leftarrow> MEM_AllocatePages pages True m;
            if newhandle = 0 then Some (realloc_res False handle m1)
            else do {
              m2 \<leftarrow> MEM_ReleasePages handle
                (MEM_BlockCopy (word_of_int (newhandle * 4096)) (word_of_int (handle * 4096)) (old_pages * 4096) m1);
              Some (realloc_res True newhandle m2) } })
       else do {
         (rem, m1) \<leftarrow> MEM_AllocatePages (pages - old_pages) False m;
         if rem = 0 then Some (realloc_res False handle m1)
         else do { m2 \<leftarrow> set_handle lastp rem m1; Some (realloc_res True handle m2) } }
     })"

definition MEM_NextHandle :: "MemHandle \<Rightarrow> MemoryBlock \<Rightarrow> MemHandle option" where
  "MEM_NextHandle handle m = get_handle handle m"

definition MEM_NextHandleAt :: "MemHandle \<Rightarrow> nat \<Rightarrow> MemoryBlock \<Rightarrow> MemHandle option" where
  "MEM_NextHandleAt handle where m = walk where handle m"

section \<open>The A20 gate\<close>

definition MEM_A20_Enable :: "bool \<Rightarrow> MemoryBlock \<Rightarrow> MemoryBlock" where
  "MEM_A20_Enable enabled m = (if a20_enabled m = enabled then m else
     let phys_base_page = (if enabled then 0x100 else 0) in
     (fold (\<lambda>page. PAGING_MapPage (0x100 + of_nat page) (phys_base_page + of_nat page)) [0..<16] m)\<lparr>a20_enabled := enabled\<rparr>)"

definition InitA20 :: "MemoryBlock \<Rightarrow> MemoryBlock" where
  "InitA20 m = MEM_A20_Enable False (m\<lparr>a20_enabled := True\<rparr>)"

definition write_p92 :: "u8 \<Rightarrow> MemoryBlock \<Rightarrow> MemoryBlock option" where
  "write_p92 val m = (if val AND 1 \<noteq> 0 then None
     else Some (MEM_A20_Enable (val AND 2 \<noteq> 0) (m\<lparr>a20_controlport := val AND NOT 2\<rparr>)))"

definition read_p92 :: "MemoryBlock \<Rightarrow> u8" where
  "read_p92 m = a20_controlport m OR (if a20_enabled m then 0x02 else 0)"

text \<open>
  The constructor of the memory module: the memory size in megabytes, whether the machine is a PCjr,
  the bytes the vector of pages keeps (zero the first time) and the page map, which the paging unit sets
  up.
\<close>

definition MEM_RemoveEMSPageFrame :: "MemoryBlock \<Rightarrow> MemoryBlock" where
  "MEM_RemoveEMSPageFrame m = MEM_SetPageHandler 0xe0 0x10 rom_page_handler m"

definition MEM_PreparePCJRCartRom :: "MemoryBlock \<Rightarrow> MemoryBlock" where
  "MEM_PreparePCJRCartRom m = MEM_SetPageHandler 0xd0 0x10 rom_page_handler m"

definition MEM_Init :: "nat \<Rightarrow> bool \<Rightarrow> (u32 \<Rightarrow> u8) \<Rightarrow> (u32 \<Rightarrow> u32) \<Rightarrow> MemoryBlock" where
  "MEM_Init num_megabytes is_pcjr bytes pgmap =
     (let num_pages = num_megabytes * 256;
          m0 = \<lparr>ram = bytes, phandlers = replicate num_pages ram_page_handler, firstmb_map = pgmap,
                mhandles = replicate num_pages 0, a20_enabled = False, a20_controlport = 0\<rparr>;
          m1 = MEM_SetPageHandler 0xc0 8 rom_page_handler m0;
          m2 = MEM_SetPageHandler 0xf0 0x10 rom_page_handler m1;
          m3 = (if is_pcjr then MEM_SetPageHandler 0xe0 0x10 rom_page_handler m2 else m2)
      in InitA20 m3)"

end
