(* ===== verification/Guest_Regs.thy ===== *)
theory Guest_Regs
  imports Emu_Prelude
begin

text \<open>
  The registers of the guest that the handlers of memory services read and write, with their
  halves, after \<^verbatim>\<open>src/cpu/registers.h\<close>. A service that needs more registers extends the record.
\<close>

unbundle bit_operations_syntax

text \<open>General registers as 32-bit words, the base of the segment DS and the value of ES.\<close>

record guest_regs =
  reg_eax :: u32
  reg_ebx :: u32
  reg_ecx :: u32
  reg_edx :: u32
  reg_si :: u16
  phys_ds :: u32
  val_es :: u16

definition low_word :: "u32 \<Rightarrow> u16" where "low_word x = ucast x"
definition low_byte :: "u32 \<Rightarrow> u8" where "low_byte x = ucast x"
definition high_byte :: "u32 \<Rightarrow> u8" where "high_byte x = ucast (drop_bit 8 x)"
definition put_word :: "u16 \<Rightarrow> u32 \<Rightarrow> u32" where "put_word v x = (x AND NOT 0xffff) OR ucast v"
definition put_low :: "u8 \<Rightarrow> u32 \<Rightarrow> u32" where "put_low v x = (x AND NOT 0xff) OR ucast v"
definition put_high :: "u8 \<Rightarrow> u32 \<Rightarrow> u32" where "put_high v x = (x AND NOT 0xff00) OR push_bit 8 (ucast v)"

definition put_ax :: "u16 \<Rightarrow> 'a guest_regs_scheme \<Rightarrow> 'a guest_regs_scheme" where "put_ax v r = r\<lparr>reg_eax := put_word v (reg_eax r)\<rparr>"
definition put_bx :: "u16 \<Rightarrow> 'a guest_regs_scheme \<Rightarrow> 'a guest_regs_scheme" where "put_bx v r = r\<lparr>reg_ebx := put_word v (reg_ebx r)\<rparr>"
definition put_cx :: "u16 \<Rightarrow> 'a guest_regs_scheme \<Rightarrow> 'a guest_regs_scheme" where "put_cx v r = r\<lparr>reg_ecx := put_word v (reg_ecx r)\<rparr>"
definition put_dx :: "u16 \<Rightarrow> 'a guest_regs_scheme \<Rightarrow> 'a guest_regs_scheme" where "put_dx v r = r\<lparr>reg_edx := put_word v (reg_edx r)\<rparr>"
definition put_bl :: "u8 \<Rightarrow> 'a guest_regs_scheme \<Rightarrow> 'a guest_regs_scheme" where "put_bl v r = r\<lparr>reg_ebx := put_low v (reg_ebx r)\<rparr>"
definition put_bh :: "u8 \<Rightarrow> 'a guest_regs_scheme \<Rightarrow> 'a guest_regs_scheme" where "put_bh v r = r\<lparr>reg_ebx := put_high v (reg_ebx r)\<rparr>"

end
