(* ===== verification/Xms.thy ===== *)
theory Xms
  imports Mem_Pages Guest_Regs Dos_Memory
begin

text \<open>
  The extended memory manager of \<^verbatim>\<open>src/ints/xms.cpp\<close>: the handle table over the page allocator, the counted
  A20 gate, the high memory area's bookkeeping, upper memory requests through the DOS memory manager, and
  the handler of all driver functions over the registers of the caller. \<open>None\<close> is an access
  outside a table, a loop that does not end or the emulator's fatal exit. Messages, and the handler's assertion that
  the driver is installed, are left out. The headers of
  DOS memory blocks are kept in the store of the DOS memory manager, apart from the guest's bytes. The port
  0x92 is read and written by the handlers that the memory module installs for it.
\<close>

unbundle bit_operations_syntax

section \<open>State\<close>

datatype Result = ResultOK | NotImplemented | VDiskDetected | A20LineError | GeneralDriverError
  | HMA_NOT_EXIST | HmaInUse | HmaNotBigEnough | HmaNotAllocated | A20StillEnabled
  | XmsOutOfSpace | XmsOutOfHandles | XmsInvalidHandle | XmsInvalidSrcHandle | XmsInvalidSrcOffset
  | XmsInvalidDestHandle | XmsInvalidDestOffset | XmsInvalidLength | XmsInvalidOverlap | XmsParityError
  | XmsBlockNotLocked | XmsBlockLocked | XmsLockCountOverflow | XmsLockFailed
  | UmbOnlySmallerBlock | UmbNoBlocksAvailable | UmbInvalidSegment

fun result_code :: "Result \<Rightarrow> u8" where
  "result_code ResultOK = 0x00"
| "result_code NotImplemented = 0x80"
| "result_code VDiskDetected = 0x81"
| "result_code A20LineError = 0x82"
| "result_code GeneralDriverError = 0x8e"
| "result_code HMA_NOT_EXIST = 0x90"
| "result_code HmaInUse = 0x91"
| "result_code HmaNotBigEnough = 0x92"
| "result_code HmaNotAllocated = 0x93"
| "result_code A20StillEnabled = 0x94"
| "result_code XmsOutOfSpace = 0xa0"
| "result_code XmsOutOfHandles = 0xa1"
| "result_code XmsInvalidHandle = 0xa2"
| "result_code XmsInvalidSrcHandle = 0xa3"
| "result_code XmsInvalidSrcOffset = 0xa4"
| "result_code XmsInvalidDestHandle = 0xa5"
| "result_code XmsInvalidDestOffset = 0xa6"
| "result_code XmsInvalidLength = 0xa7"
| "result_code XmsInvalidOverlap = 0xa8"
| "result_code XmsParityError = 0xa9"
| "result_code XmsBlockNotLocked = 0xaa"
| "result_code XmsBlockLocked = 0xab"
| "result_code XmsLockCountOverflow = 0xac"
| "result_code XmsLockFailed = 0xad"
| "result_code UmbOnlySmallerBlock = 0xb0"
| "result_code UmbNoBlocksAvailable = 0xb1"
| "result_code UmbInvalidSegment = 0xb2"

record XMS_Block =
  size_kb :: u32
  mem_handle :: MemHandle
  lock_count :: u8
  is_free :: bool

definition XMS_Block_init :: XMS_Block where
  "XMS_Block_init = \<lparr>size_kb = 0, mem_handle = - 1, lock_count = 0, is_free = True\<rparr>"

definition NumXmsHandles :: nat where "NumXmsHandles = 128"
definition XmsVersion :: u16 where "XmsVersion = 0x0300"
definition XmsDriverVersion :: u16 where "XmsDriverVersion = 0x0301"
definition A20MaxTimesEnabled :: u32 where "A20MaxTimesEnabled = 0xffffffff"

text \<open>The static variables of the driver, the memory and the DOS state it works on.\<close>

record xms_state =
  enable_global :: bool
  num_times_enabled :: u32
  hma_is_available :: bool
  dos_has_control :: bool
  app_has_control :: bool
  min_alloc_size :: u16
  umb_is_available :: bool
  xms_is_available :: bool
  xms_callback :: u32
  handles :: "XMS_Block list"
  mem :: MemoryBlock
  dos :: dos_mem
  other_memsystems :: int
  Multiplex :: "string list"

definition RealSegment :: "u32 \<Rightarrow> u16" where "RealSegment pt = ucast (drop_bit 16 pt)"
definition RealOffset :: "u32 \<Rightarrow> u16" where "RealOffset pt = ucast (pt AND 0xffff)"
definition RealToPhysical :: "u32 \<Rightarrow> u32" where
  "RealToPhysical pt = push_bit 4 (ucast (RealSegment pt)) + ucast (RealOffset pt)"
definition RealMake :: "u16 \<Rightarrow> u16 \<Rightarrow> u32" where
  "RealMake seg off = push_bit 16 (ucast seg) + ucast off"

section \<open>Helpers\<close>

definition get_num_pages :: "u32 \<Rightarrow> nat" where
  "get_num_pages kb = unat (kb div 4 + (if kb AND 3 \<noteq> 0 then 1 else 0))"

definition get_mem_free_total_kb :: "xms_state \<Rightarrow> u32" where
  "get_mem_free_total_kb s = of_nat (MEM_FreeTotal (mem s) * 4)"

definition get_mem_free_largest_kb :: "xms_state \<Rightarrow> u32" where
  "get_mem_free_largest_kb s = of_nat (MEM_FreeLargest (mem s) * 4)"

definition get_mem_highest_address :: "xms_state \<Rightarrow> u32" where
  "get_mem_highest_address s = of_nat (MEM_TotalPages (mem s)) * 4096 - 1"

definition clamp_to_uint16 :: "u32 \<Rightarrow> u16" where
  "clamp_to_uint16 val = (if 0xffff < val then 0xffff else ucast val)"

section \<open>The A20 gate\<close>

definition a20_enable :: "bool \<Rightarrow> xms_state \<Rightarrow> xms_state option" where
  "a20_enable enable s = (let val = read_p92 (mem s) in
     map_option (\<lambda>m. s\<lparr>mem := m\<rparr>) (write_p92 (if enable then val OR 2 else val AND NOT 2) (mem s)))"

definition a20_is_enabled :: "xms_state \<Rightarrow> bool" where
  "a20_is_enabled s = (read_p92 (mem s) AND 2 \<noteq> 0)"

definition a20_local_enable :: "xms_state \<Rightarrow> (Result \<times> xms_state) option" where
  "a20_local_enable s =
     (if num_times_enabled s = A20MaxTimesEnabled then Some (A20LineError, s)
      else let s1 = s\<lparr>num_times_enabled := num_times_enabled s + 1\<rparr> in
        if num_times_enabled s = 0 then map_option (\<lambda>s2. (ResultOK, s2)) (a20_enable True s1)
        else Some (ResultOK, s1))"

definition a20_local_disable :: "xms_state \<Rightarrow> (Result \<times> xms_state) option" where
  "a20_local_disable s =
     (if num_times_enabled s = 0 then Some (A20LineError, s)
      else let s1 = s\<lparr>num_times_enabled := num_times_enabled s - 1\<rparr> in
        if num_times_enabled s1 \<noteq> 0 then Some (A20StillEnabled, s1)
        else map_option (\<lambda>s2. (ResultOK, s2)) (a20_enable False s1))"

section \<open>Blocks\<close>

definition xms_is_handle_valid :: "u16 \<Rightarrow> xms_state \<Rightarrow> bool" where
  "xms_is_handle_valid handle s = (handle \<noteq> 0 \<and> unat handle < NumXmsHandles \<and> \<not> is_free (handles s ! unat handle))"

definition upd_handle :: "nat \<Rightarrow> XMS_Block \<Rightarrow> xms_state \<Rightarrow> xms_state" where
  "upd_handle i b s = s\<lparr>handles := (handles s)[i := b]\<rparr>"

text \<open>The result, the largest and the total free size.\<close>

definition xms_query_free_memory :: "xms_state \<Rightarrow> Result \<times> u32 \<times> u32" where
  "xms_query_free_memory s = (let total_kb = get_mem_free_total_kb s; largest_kb = get_mem_free_largest_kb s in
     (if total_kb \<noteq> 0 then ResultOK else XmsOutOfSpace, largest_kb, total_kb))"

fun find_free_handle :: "XMS_Block list \<Rightarrow> nat \<Rightarrow> nat option" where
  "find_free_handle [] index = None"
| "find_free_handle (b # bs) index = (if is_free b then Some index else find_free_handle bs (index + 1))"

text \<open>The result and the handle, 0 unless allocated.\<close>

definition xms_allocate_memory :: "u32 \<Rightarrow> xms_state \<Rightarrow> (Result \<times> u16 \<times> xms_state) option" where
  "xms_allocate_memory kb s = (case find_free_handle (drop 1 (handles s)) 1 of
     None \<Rightarrow> Some (XmsOutOfHandles, 0, s)
   | Some index \<Rightarrow> do {
       (h, m) \<leftarrow> (if kb \<noteq> 0 then MEM_AllocatePages (get_num_pages kb) True (mem s) else Some (MEM_GetNextFreePage (mem s), mem s));
       if kb \<noteq> 0 \<and> h = 0 then Some (XmsOutOfSpace, 0, s\<lparr>mem := m\<rparr>)
       else Some (ResultOK, of_nat index,
         upd_handle index \<lparr>size_kb = kb, mem_handle = h, lock_count = 0, is_free = False\<rparr> (s\<lparr>mem := m\<rparr>)) })"

definition xms_free_memory :: "u16 \<Rightarrow> xms_state \<Rightarrow> (Result \<times> xms_state) option" where
  "xms_free_memory handle s =
     (if \<not> xms_is_handle_valid handle s then Some (XmsInvalidHandle, s)
      else if lock_count (handles s ! unat handle) \<noteq> 0 then Some (XmsBlockLocked, s)
      else do {
        m \<leftarrow> MEM_ReleasePages (mem_handle (handles s ! unat handle)) (mem s);
        Some (ResultOK, upd_handle (unat handle) XMS_Block_init (s\<lparr>mem := m\<rparr>)) })"

text \<open>
  One side of a move: a handle and an offset give an address in a block, handle 0 and a real mode pointer an
  address in conventional memory. The errors for the handle and the offset are the side's own.
\<close>

definition move_address :: "u16 \<Rightarrow> u32 \<Rightarrow> u32 \<Rightarrow> Result \<Rightarrow> Result \<Rightarrow> xms_state \<Rightarrow> Result + u32" where
  "move_address handle offset len bad_handle bad_offset s =
     (if handle \<noteq> 0 then
        if \<not> xms_is_handle_valid handle s then Inl bad_handle
        else let b = handles s ! unat handle in
          if size_kb b * 1024 \<le> offset then Inl bad_offset
          else if size_kb b * 1024 - offset < len then Inl XmsInvalidLength
          else Inr (word_of_int (mem_handle b) * 4096 + offset)
      else let pt = RealToPhysical offset in
        if 0x10FFF0 < pt + len then Inl XmsInvalidLength else Inr pt)"

definition move_bytes :: "u32 \<Rightarrow> u32 \<Rightarrow> u32 \<Rightarrow> xms_state \<Rightarrow> xms_state option" where
  "move_bytes destpt srcpt len s = (let a20_was_enabled = a20_is_enabled s in do {
     s1 \<leftarrow> a20_enable True (s\<lparr>num_times_enabled := num_times_enabled s + 1\<rparr>);
     let s2 = s1\<lparr>mem := mem_memcpy destpt srcpt (unat len) (mem s1)\<rparr>;
     let s3 = s2\<lparr>num_times_enabled := num_times_enabled s2 - 1\<rparr>;
     if \<not> a20_was_enabled then a20_enable False s3 else Some s3 })"

definition xms_move_memory :: "u32 \<Rightarrow> xms_state \<Rightarrow> (Result \<times> xms_state) option" where
  "xms_move_memory bpt s = (let len = mem_readd bpt (mem s) in
     if len mod 2 \<noteq> 0 then Some (XmsParityError, s)
     else
       let src_handle = mem_readw (bpt + 4) (mem s); src = mem_readd (bpt + 6) (mem s);
           dest_handle = mem_readw (bpt + 10) (mem s); dest = mem_readd (bpt + 12) (mem s)
       in case move_address src_handle src len XmsInvalidSrcHandle XmsInvalidSrcOffset s of
            Inl e \<Rightarrow> Some (e, s)
          | Inr srcpt \<Rightarrow>
              (case move_address dest_handle dest len XmsInvalidDestHandle XmsInvalidDestOffset s of
                 Inl e \<Rightarrow> Some (e, s)
               | Inr destpt \<Rightarrow>
                   if len \<noteq> 0 then map_option (\<lambda>s'. (ResultOK, s')) (move_bytes destpt srcpt len s)
                   else Some (ResultOK, s)))"

definition xms_lock_memory :: "u16 \<Rightarrow> xms_state \<Rightarrow> Result \<times> u32 \<times> xms_state" where
  "xms_lock_memory handle s =
     (if \<not> xms_is_handle_valid handle s then (XmsInvalidHandle, 0, s)
      else let b = handles s ! unat handle in
        if 0xff \<le> lock_count b then (XmsLockCountOverflow, 0, s)
        else (ResultOK, word_of_int (mem_handle b * 4096), upd_handle (unat handle) (b\<lparr>lock_count := lock_count b + 1\<rparr>) s))"

definition xms_unlock_memory :: "u16 \<Rightarrow> xms_state \<Rightarrow> Result \<times> xms_state" where
  "xms_unlock_memory handle s =
     (if \<not> xms_is_handle_valid handle s then (XmsInvalidHandle, s)
      else let b = handles s ! unat handle in
        if lock_count b \<noteq> 0 then (ResultOK, upd_handle (unat handle) (b\<lparr>lock_count := lock_count b - 1\<rparr>) s)
        else (XmsBlockNotLocked, s))"

text \<open>The lock count, the number of free handles and the size, unless the handle is invalid.\<close>

fun count_free_handles :: "XMS_Block list \<Rightarrow> u8 \<Rightarrow> u8" where
  "count_free_handles [] n = n"
| "count_free_handles (b # bs) n = count_free_handles bs (if is_free b then n + 1 else n)"

definition xms_get_handle_information :: "u16 \<Rightarrow> xms_state \<Rightarrow> (u8 \<times> u8 \<times> u32) option" where
  "xms_get_handle_information handle s =
     (if \<not> xms_is_handle_valid handle s then None
      else let b = handles s ! unat handle in
        Some (lock_count b, count_free_handles (drop 1 (handles s)) 0, size_kb b))"

definition xms_resize_memory :: "u16 \<Rightarrow> u32 \<Rightarrow> xms_state \<Rightarrow> (Result \<times> xms_state) option" where
  "xms_resize_memory handle new_size_kb s =
     (if \<not> xms_is_handle_valid handle s then Some (XmsInvalidHandle, s)
      else let b = handles s ! unat handle in
        if lock_count b \<noteq> 0 then Some (XmsBlockLocked, s)
        else do {
          r \<leftarrow> MEM_ReAllocatePages (mem_handle b) (get_num_pages new_size_kb) True (mem s);
          let s1 = upd_handle (unat handle) (b\<lparr>mem_handle := ra_handle r\<rparr>) (s\<lparr>mem := ra_mem r\<rparr>);
          if ra_ok r then Some (ResultOK, upd_handle (unat handle) (b\<lparr>mem_handle := ra_handle r, size_kb := new_size_kb\<rparr>) s1)
          else Some (XmsOutOfSpace, s1) })"

definition xms_multiplex :: "guest_regs \<Rightarrow> xms_state \<Rightarrow> bool \<times> guest_regs" where
  "xms_multiplex r s =
     (if low_word (reg_eax r) = 0x4300 then (True, r\<lparr>reg_eax := put_low 0x80 (reg_eax r)\<rparr>)
      else if low_word (reg_eax r) = 0x4310 then
        (True, put_bx (RealOffset (xms_callback s)) (r\<lparr>val_es := RealSegment (xms_callback s)\<rparr>))
      else (False, r))"

section \<open>Upper memory\<close>

definition exits :: "(dm_error + 'a) option \<Rightarrow> 'a option" where
  "exits x = (case x of Some (Inr a) \<Rightarrow> Some a | _ \<Rightarrow> None)"

definition set_return_value :: "Result \<Rightarrow> guest_regs \<Rightarrow> guest_regs" where
  "set_return_value result r = put_ax (if result = ResultOK then 1 else 0) (put_bl (result_code result) r)"

definition set_return_value_bl_only_fail :: "Result \<Rightarrow> guest_regs \<Rightarrow> guest_regs" where
  "set_return_value_bl_only_fail result r =
     put_ax (if result = ResultOK then 1 else 0) (if result \<noteq> ResultOK then put_bl (result_code result) r else r)"

definition request_umb :: "guest_regs \<Rightarrow> xms_state \<Rightarrow> (guest_regs \<times> xms_state) option" where
  "request_umb r s =
     (if \<not> umb_is_available s then Some (set_return_value NotImplemented r, s)
      else if startOfUMBChain (dos s) = 0xffff then Some (put_dx 0 (set_return_value UmbNoBlocksAvailable r), s)
      else
        let umb_flag = chainingUMB (dos s) in do {
          d1 \<leftarrow> (if umb_flag AND 1 = 0 then map_option snd (DOS_LinkUMBsToMemChain 1 (dos s)) else Some (dos s));
          let old_memstrat = (ucast (DOS_GetMemAllocStrategy d1 AND 0xff) :: u8);
          let d2 = snd (DOS_SetMemAllocStrategy 0x40 d1);
          (res, d3) \<leftarrow> exits (DOS_AllocateMemory (low_word (reg_edx r)) d2);
          let r' = (case res of
              Allocated seg \<Rightarrow> put_bx seg (put_ax 1 r)
            | NoMemory sz \<Rightarrow> put_dx sz (set_return_value (if sz = 0 then UmbNoBlocksAvailable else UmbOnlySmallerBlock) r));
          d4 \<leftarrow> (if chainingUMB d3 AND 1 \<noteq> umb_flag AND 1 then map_option snd (DOS_LinkUMBsToMemChain (ucast umb_flag) d3) else Some d3);
          Some (r', s\<lparr>dos := snd (DOS_SetMemAllocStrategy (ucast old_memstrat) d4)\<rparr>) })"

definition release_umb :: "guest_regs \<Rightarrow> xms_state \<Rightarrow> guest_regs \<times> xms_state" where
  "release_umb r s =
     (if \<not> umb_is_available s then (set_return_value NotImplemented r, s)
      else if startOfUMBChain (dos s) \<noteq> 0xffff then
        (case DOS_FreeMemory (low_word (reg_edx r)) (dos s) of (ok, d) \<Rightarrow>
          (if ok then put_ax 1 r else set_return_value UmbNoBlocksAvailable r, s\<lparr>dos := d\<rparr>))
      else (set_return_value UmbNoBlocksAvailable r, s))"

section \<open>The handler\<close>

definition request_hma :: "guest_regs \<Rightarrow> xms_state \<Rightarrow> guest_regs \<times> xms_state" where
  "request_hma r s =
     (if \<not> hma_is_available s then (set_return_value HMA_NOT_EXIST r, s)
      else if app_has_control s \<or> dos_has_control s then (set_return_value HmaInUse r, s)
      else if low_word (reg_edx r) < min_alloc_size s then (set_return_value HmaNotBigEnough r, s)
      else (put_ax 1 r, s\<lparr>app_has_control := True\<rparr>))"

definition release_hma :: "guest_regs \<Rightarrow> xms_state \<Rightarrow> guest_regs \<times> xms_state" where
  "release_hma r s =
     (if \<not> hma_is_available s then (set_return_value HMA_NOT_EXIST r, s)
      else if app_has_control s then (put_ax 1 r, s\<lparr>app_has_control := False\<rparr>)
      else (set_return_value HmaNotAllocated r, s))"

definition global_enable_a20 :: "guest_regs \<Rightarrow> xms_state \<Rightarrow> (guest_regs \<times> xms_state) option" where
  "global_enable_a20 r s =
     (if \<not> enable_global s then do {
        (result, s1) \<leftarrow> a20_local_enable s;
        Some (set_return_value result r, if result = ResultOK then s1\<lparr>enable_global := True\<rparr> else s1) }
      else Some (set_return_value ResultOK r, s))"

definition global_disable_a20 :: "guest_regs \<Rightarrow> xms_state \<Rightarrow> (guest_regs \<times> xms_state) option" where
  "global_disable_a20 r s =
     (if enable_global s then do {
        (result, s1) \<leftarrow> a20_local_disable s;
        Some (set_return_value result r, if result = ResultOK then s1\<lparr>enable_global := False\<rparr> else s1) }
      else Some (set_return_value ResultOK r, s))"

definition allocate_call :: "u32 \<Rightarrow> guest_regs \<Rightarrow> xms_state \<Rightarrow> (guest_regs \<times> xms_state) option" where
  "allocate_call kb r s = do {
     (result, handle, s') \<leftarrow> xms_allocate_memory kb s; Some (put_dx handle (set_return_value result r), s') }"

definition result_call :: "guest_regs \<Rightarrow> (Result \<times> xms_state) option \<Rightarrow> (guest_regs \<times> xms_state) option" where
  "result_call r x = do { (result, s') \<leftarrow> x; Some (set_return_value result r, s') }"

definition query_call :: "guest_regs \<Rightarrow> xms_state \<Rightarrow> guest_regs" where
  "query_call r s = (case xms_query_free_memory s of (result, largest_kb, total_kb) \<Rightarrow>
     put_bl (result_code result) (r\<lparr>reg_eax := largest_kb, reg_edx := total_kb\<rparr>))"

definition XMS_Handler :: "guest_regs \<Rightarrow> xms_state \<Rightarrow> (guest_regs \<times> xms_state) option" where
  "XMS_Handler r s = (let ah = high_byte (reg_eax r); dx = low_word (reg_edx r) in
     if ah = 0x00 then Some (put_dx (if hma_is_available s then 1 else 0) (put_bx XmsDriverVersion (put_ax XmsVersion r)), s)
     else if ah = 0x01 then Some (request_hma r s)
     else if ah = 0x02 then Some (release_hma r s)
     else if ah = 0x03 then global_enable_a20 r s
     else if ah = 0x04 then global_disable_a20 r s
     else if ah = 0x05 then result_call r (a20_local_enable s)
     else if ah = 0x06 then result_call r (a20_local_disable s)
     else if ah = 0x07 then Some (put_bl 0 (put_ax (if a20_is_enabled s then 1 else 0) r), s)
     else if ah = 0x08 then (let q = query_call r s in
       Some (q\<lparr>reg_eax := ucast (clamp_to_uint16 (reg_eax q)), reg_edx := ucast (clamp_to_uint16 (reg_edx q))\<rparr>, s))
     else if ah = 0x09 then allocate_call (ucast dx) r s
     else if ah = 0x0a then result_call r (xms_free_memory dx s)
     else if ah = 0x0b then do {
       (result, s') \<leftarrow> xms_move_memory (phys_ds r + ucast (reg_si r)) s; Some (set_return_value_bl_only_fail result r, s') }
     else if ah = 0x0c then (case xms_lock_memory dx s of (result, address, s') \<Rightarrow>
       let r1 = set_return_value result r in
       Some (if result = ResultOK then put_dx (RealSegment address) (put_bx (RealOffset address) r1) else r1, s'))
     else if ah = 0x0d then result_call r (Some (xms_unlock_memory dx s))
     else if ah = 0x0e then (let r1 = (case xms_get_handle_information dx s of
           None \<Rightarrow> set_return_value_bl_only_fail XmsInvalidHandle r
         | Some (locks, num_free, kb) \<Rightarrow>
             set_return_value_bl_only_fail ResultOK ((put_bl num_free (put_bh locks r))\<lparr>reg_edx := kb\<rparr>)) in
       Some (r1\<lparr>reg_edx := reg_edx r1 AND 0xffff\<rparr>, s))
     else if ah = 0x0f then result_call r (xms_resize_memory dx (ucast (low_word (reg_ebx r))) s)
     else if ah = 0x10 then request_umb r s
     else if ah = 0x11 then Some (release_umb r s)
     else if ah = 0x12 then Some (set_return_value NotImplemented r, s)
     else if ah = 0x88 then Some ((query_call r s)\<lparr>reg_ecx := get_mem_highest_address s\<rparr>, s)
     else if ah = 0x89 then allocate_call (reg_edx r) r s
     else if ah = 0x8e then Some (case xms_get_handle_information dx s of
         None \<Rightarrow> set_return_value_bl_only_fail XmsInvalidHandle r
       | Some (locks, num_free, kb) \<Rightarrow>
           put_cx (ucast num_free) (set_return_value_bl_only_fail ResultOK ((put_bh locks r)\<lparr>reg_edx := kb\<rparr>)), s)
     else if ah = 0x8f then result_call r (xms_resize_memory dx (reg_ebx r) s)
     else Some (set_return_value NotImplemented r, s))"

section \<open>Setup and removal\<close>

definition BIOS_ZeroExtendedSize :: "bool \<Rightarrow> xms_state \<Rightarrow> xms_state" where
  "BIOS_ZeroExtendedSize zero s =
     s\<lparr>other_memsystems := max 0 (if zero then other_memsystems s + 1 else other_memsystems s - 1)\<rparr>"

definition DOS_AddMultiplexHandler :: "string \<Rightarrow> xms_state \<Rightarrow> xms_state" where
  "DOS_AddMultiplexHandler handler s = s\<lparr>Multiplex := handler # Multiplex s\<rparr>"

definition DOS_DeleteMultiplexHandler :: "string \<Rightarrow> xms_state \<Rightarrow> xms_state" where
  "DOS_DeleteMultiplexHandler handler s = s\<lparr>Multiplex := remove1 handler (Multiplex s)\<rparr>"

text \<open>
  The settings \<^verbatim>\<open>xms\<close> and \<^verbatim>\<open>umb\<close>, whether expanded memory is configured, whether the CPU is a 286 or
  later, and the segment that holds the entry point.
\<close>

definition XMS_Init :: "bool \<Rightarrow> bool \<Rightarrow> bool \<Rightarrow> bool \<Rightarrow> u16 \<Rightarrow> xms_state \<Rightarrow> xms_state option" where
  "XMS_Init xms_on umb_on ems_available is_286 callback_seg s0 =
     (let s1 = s0\<lparr>umb_is_available := False, enable_global := False, num_times_enabled := 0\<rparr> in
      if \<not> xms_on then Some s1
      else if \<not> is_286 then Some s1
      else
        let s2 = DOS_AddMultiplexHandler ''xms_multiplex'' (BIOS_ZeroExtendedSize True (s1\<lparr>xms_is_available := True\<rparr>));
            s3 = s2\<lparr>xms_callback := RealMake callback_seg 0x10,
                    handles := (replicate NumXmsHandles XMS_Block_init)[0 := XMS_Block_init\<lparr>is_free := False\<rparr>],
                    umb_is_available := umb_on\<rparr>
        in map_option (\<lambda>d. s3\<lparr>dos := d\<rparr>) (DOS_BuildUMBChain umb_on ems_available (dos s3)))"

fun free_all :: "nat list \<Rightarrow> xms_state \<Rightarrow> xms_state option" where
  "free_all [] s = Some s"
| "free_all (i # is) s = (let s1 = upd_handle i ((handles s ! i)\<lparr>lock_count := 0\<rparr>) s in
     if \<not> is_free (handles s1 ! i) then do { (result, s2) \<leftarrow> xms_free_memory (of_nat i) s1; free_all is s2 }
     else free_all is s1)"

definition XMS_Destroy :: "xms_state \<Rightarrow> xms_state option" where
  "XMS_Destroy s =
     (let s1 = s\<lparr>dos := (dos s)\<lparr>startOfUMBChain := 0xffff\<rparr>\<rparr>;
          s2 = (if umb_is_available s1 then s1\<lparr>dos := (dos s1)\<lparr>chainingUMB := 0\<rparr>, umb_is_available := False\<rparr> else s1)
      in if \<not> xms_is_available s2 then Some s2
         else map_option (\<lambda>s4. s4\<lparr>xms_is_available := False\<rparr>)
           (free_all [1..<NumXmsHandles] (DOS_DeleteMultiplexHandler ''xms_multiplex'' (BIOS_ZeroExtendedSize False s2))))"

end
