(* ===== verification/Mem_Access.thy ===== *)
theory Mem_Access
  imports Mem_Pages
begin

text \<open>
  Guest accesses: what a byte written is read back as, what a copy does to memory, the range of addresses that
  the page map leaves alone, and the effect of the A20 gate on the page map.
\<close>

section \<open>Bytes\<close>

definition writable :: "u32 \<Rightarrow> MemoryBlock \<Rightarrow> bool" where
  "writable a m \<longleftrightarrow> MEM_GetPageHandler (InitPage (drop_bit 12 a) m) m = ram_page_handler"

lemma access_frame [simp]:
  "InitPage p (m\<lparr>ram := R\<rparr>) = InitPage p m" "MEM_GetPageHandler p (m\<lparr>ram := R\<rparr>) = MEM_GetPageHandler p m"
  "phys_addr a (m\<lparr>ram := R\<rparr>) = phys_addr a m" "writable a (m\<lparr>ram := R\<rparr>) = writable a m"
  "InitPage p (m\<lparr>mhandles := H\<rparr>) = InitPage p m" "MEM_GetPageHandler p (m\<lparr>mhandles := H\<rparr>) = MEM_GetPageHandler p m"
  "phys_addr a (m\<lparr>mhandles := H\<rparr>) = phys_addr a m" "writable a (m\<lparr>mhandles := H\<rparr>) = writable a m"
  by (simp_all add: InitPage_def MEM_GetPageHandler_def phys_addr_def writable_def)

lemma readb_frame [simp]: "mem_readb a (m\<lparr>mhandles := H\<rparr>) = mem_readb a m"
  by (simp add: mem_readb_def split: PageHandler.split)

lemma writable_write: "writable a m \<Longrightarrow> mem_writeb a v m = m\<lparr>ram := (ram m)(phys_addr a m := v)\<rparr>"
  by (simp add: writable_def mem_writeb_def)

lemma writable_read: "writable a m \<Longrightarrow> mem_readb a m = ram m (phys_addr a m)"
  by (simp add: writable_def mem_readb_def)

lemma readb_other:
  "phys_addr b m \<noteq> x \<Longrightarrow> mem_readb b (m\<lparr>ram := (ram m)(x := v)\<rparr>) = mem_readb b m"
  by (simp add: mem_readb_def split: PageHandler.split)

text \<open>
  A copy writes the destination bytes and nothing else; every byte arrives unchanged when no source byte is
  overwritten before it is read.
\<close>

definition copies :: "u32 \<Rightarrow> u32 \<Rightarrow> nat \<Rightarrow> MemoryBlock \<Rightarrow> MemoryBlock \<Rightarrow> bool" where
  "copies dest src n m m' \<longleftrightarrow> m' = m\<lparr>ram := ram m'\<rparr> \<and>
     (\<forall>i<n. ram m' (phys_addr (dest + of_nat i) m) = mem_readb (src + of_nat i) m) \<and>
     (\<forall>a. (\<forall>i<n. a \<noteq> phys_addr (dest + of_nat i) m) \<longrightarrow> ram m' a = ram m a)"

lemma mem_memcpy_copies:
  assumes "\<forall>i<n. writable (dest + of_nat i) m"
    and "\<forall>i j. i < j \<and> j < n \<longrightarrow> phys_addr (dest + of_nat j) m \<noteq> phys_addr (dest + of_nat i) m"
    and "\<forall>i j. i < j \<and> j < n \<longrightarrow> phys_addr (src + of_nat j) m \<noteq> phys_addr (dest + of_nat i) m"
  shows "copies dest src n m (mem_memcpy dest src n m)"
  using assms
proof (induction n arbitrary: dest src m)
  case 0
  then show ?case by (simp add: copies_def)
next
  case (Suc n)
  define m1 where "m1 = mem_writeb dest (mem_readb src m) m"
  have w0: "writable dest m" using Suc.prems(1) [rule_format, of 0] by simp
  then have m1: "m1 = m\<lparr>ram := (ram m)(phys_addr dest m := mem_readb src m)\<rparr>" by (simp add: m1_def writable_write)
  have sh: "a + 1 + of_nat i = a + of_nat (Suc i)" for a :: u32 and i by simp
  have fr: "phys_addr a m1 = phys_addr a m" "writable a m1 = writable a m" for a by (simp_all add: m1)
  have "copies (dest + 1) (src + 1) n m1 (mem_memcpy (dest + 1) (src + 1) n m1)"
  proof (rule Suc.IH)
    show "\<forall>i<n. writable (dest + 1 + of_nat i) m1"
      unfolding fr sh using Suc.prems(1) by blast
    show "\<forall>i j. i < j \<and> j < n \<longrightarrow> phys_addr (dest + 1 + of_nat j) m1 \<noteq> phys_addr (dest + 1 + of_nat i) m1"
      unfolding fr sh using Suc.prems(2) by (metis Suc_less_eq)
    show "\<forall>i j. i < j \<and> j < n \<longrightarrow> phys_addr (src + 1 + of_nat j) m1 \<noteq> phys_addr (dest + 1 + of_nat i) m1"
      unfolding fr sh using Suc.prems(3) by (metis Suc_less_eq)
  qed
  then obtain m' where m': "mem_memcpy (dest + 1) (src + 1) n m1 = m'" and c: "copies (dest + 1) (src + 1) n m1 m'" by blast
  have rest: "ram m' (phys_addr (dest + of_nat (Suc i)) m) = mem_readb (src + of_nat (Suc i)) m" if "i < n" for i
  proof -
    have "ram m' (phys_addr (dest + 1 + of_nat i) m1) = mem_readb (src + 1 + of_nat i) m1" using c that unfolding copies_def by blast
    also have "mem_readb (src + 1 + of_nat i) m1 = mem_readb (src + of_nat (Suc i)) m"
      unfolding m1 sh using Suc.prems(3) [rule_format, of 0 "Suc i"] that by (intro readb_other) simp
    finally show ?thesis unfolding fr sh .
  qed
  have keep: "ram m' a = ram m1 a" if "\<forall>i<n. a \<noteq> phys_addr (dest + of_nat (Suc i)) m" for a
    using c that unfolding copies_def fr sh by blast
  have "ram m' (phys_addr dest m) = mem_readb src m"
    using keep [of "phys_addr dest m"] Suc.prems(2) [rule_format, of 0] by (simp add: m1) (metis Suc_less_eq zero_less_Suc of_nat_Suc)
  then have "\<forall>i<Suc n. ram m' (phys_addr (dest + of_nat i) m) = mem_readb (src + of_nat i) m"
    using rest unfolding All_less_Suc2 by simp
  moreover have "ram m' a = ram m a" if "\<forall>i<Suc n. a \<noteq> phys_addr (dest + of_nat i) m" for a
    using keep [of a] that unfolding All_less_Suc2 by (simp add: m1)
  moreover have "m' = m\<lparr>ram := ram m'\<rparr>" using c m1 unfolding copies_def by (cases m, cases m', cases m1) simp
  ultimately show ?case unfolding copies_def mem_memcpy.simps m1_def [symmetric] m' by blast
qed

section \<open>Memory above the first megabyte\<close>

text \<open>The pages that blocks can be made of are RAM, and 32-bit addresses reach all of them.\<close>

definition ram_above :: "MemoryBlock \<Rightarrow> bool" where
  "ram_above m \<longleftrightarrow> length (phandlers m) = length (mhandles m) \<and> length (mhandles m) \<le> 2 ^ 20 \<and>
     (\<forall>p. XMS_START \<le> p \<and> p < length (mhandles m) \<longrightarrow> phandlers m ! p = ram_page_handler)"

lemma page_of_address: "unat (drop_bit 12 a) = unat a div 4096" for a :: u32
  by (simp add: drop_bit_eq_div unat_div)

lemma page_split: "push_bit 12 (drop_bit 12 a) OR (a AND 0xfff) = a" for a :: u32
proof (rule bit_word_eqI)
  fix n
  have m: "(0xfff :: u32) = mask 12" by (simp add: mask_numeral)
  assume "n < LENGTH(32)"
  then show "bit (push_bit 12 (drop_bit 12 a) OR (a AND 0xfff)) n = bit a n"
    unfolding m by (auto simp: bit_simps bit_mask_iff)
qed

lemma high_page:
  assumes "XMS_START * 4096 \<le> unat a"
  shows "InitPage (drop_bit 12 a) m = drop_bit 12 a" "phys_addr a m = a"
proof -
  have "XMS_START \<le> unat (drop_bit 12 a)" using assms unfolding page_of_address by (simp add: less_eq_div_iff_mult_less_eq)
  then have "\<not> drop_bit 12 a < FIRST_LINK" by (simp add: word_less_nat_alt FIRST_LINK_def XMS_START_def)
  then show "InitPage (drop_bit 12 a) m = drop_bit 12 a" by (simp add: InitPage_def)
  then show "phys_addr a m = a" by (simp add: phys_addr_def page_split)
qed

lemma high_writable:
  assumes "ram_above m" and "XMS_START * 4096 \<le> unat a" and "unat a < length (mhandles m) * 4096"
  shows "writable a m"
proof -
  have "unat a div 4096 < length (mhandles m)" using assms(3) by (simp add: less_mult_imp_div_less)
  moreover have "XMS_START \<le> unat a div 4096" using assms(2) by (simp add: less_eq_div_iff_mult_less_eq)
  ultimately show ?thesis
    using assms(1) by (simp add: writable_def high_page(1) [OF assms(2)] MEM_GetPageHandler_def page_of_address ram_above_def)
qed

text \<open>The address of byte \<open>i\<close> of page \<open>p\<close>.\<close>

definition page_byte :: "nat \<Rightarrow> nat \<Rightarrow> u32" where
  "page_byte p i = of_nat (p * 4096 + i)"

lemma unat_page_byte: "p * 4096 + i < 2 ^ 32 \<Longrightarrow> unat (page_byte p i) = p * 4096 + i"
  unfolding page_byte_def unat_of_nat by simp

lemma page_byte_shift: "page_byte p i + of_nat j = page_byte p (i + j)"
  by (simp add: page_byte_def)

text \<open>Copying between disjoint runs of pages above the first megabyte.\<close>

lemma copy_runs:
  assumes "ram_above m" and "XMS_START \<le> d" "XMS_START \<le> s" and "d + n \<le> length (mhandles m)" "s + n \<le> length (mhandles m)"
    and "d + n \<le> s \<or> s + n \<le> d"
  shows "let m' = MEM_BlockCopy (page_byte d 0) (page_byte s 0) (n * 4096) m in m' = m\<lparr>ram := ram m'\<rparr> \<and>
    (\<forall>i<n * 4096. ram m' (page_byte d i) = ram m (page_byte s i)) \<and>
    (\<forall>a. \<not> (d * 4096 \<le> unat a \<and> unat a < (d + n) * 4096) \<longrightarrow> ram m' a = ram m a)"
proof -
  have len: "length (mhandles m) \<le> 2 ^ 20" using assms(1) by (simp add: ram_above_def)
  have u: "unat (page_byte p i) = p * 4096 + i" if "p + n \<le> length (mhandles m)" "i < n * 4096" for p i
  proof -
    have "p * 4096 + i < (p + n) * 4096" using that(2) by (simp add: distrib_right)
    also have "\<dots> \<le> 2 ^ 20 * 4096" using that(1) len by (intro mult_right_mono) simp_all
    finally show ?thesis by (intro unat_page_byte) simp
  qed
  have lo: "XMS_START * 4096 \<le> unat (page_byte p i)" if "XMS_START \<le> p" "p + n \<le> length (mhandles m)" "i < n * 4096" for p i
    using u [OF that(2,3)] that(1) by (simp add: trans_le_add1)
  have ph: "phys_addr (page_byte p i) m = page_byte p i" if "XMS_START \<le> p" "p + n \<le> length (mhandles m)" "i < n * 4096" for p i
    using high_page(2) lo that by blast
  have w: "writable (page_byte d i) m" if "i < n * 4096" for i
  proof (rule high_writable [OF assms(1)])
    show "XMS_START * 4096 \<le> unat (page_byte d i)" using lo assms(2,4) that by blast
    have "d * 4096 + i < (d + n) * 4096" using that by (simp add: distrib_right)
    then show "unat (page_byte d i) < length (mhandles m) * 4096"
      using u [OF assms(4) that] mult_le_mono1 [OF assms(4), of 4096] by linarith
  qed
  have ne: "page_byte p j \<noteq> page_byte q i" if "p + n \<le> length (mhandles m)" "q + n \<le> length (mhandles m)" "i < n * 4096" "j < n * 4096"
    "p * 4096 + j \<noteq> q * 4096 + i" for p q i j
    using u that by metis
  have "copies (page_byte d 0) (page_byte s 0) (n * 4096) m (mem_memcpy (page_byte d 0) (page_byte s 0) (n * 4096) m)"
  proof (rule mem_memcpy_copies)
    show "\<forall>i<n * 4096. writable (page_byte d 0 + of_nat i) m" using w by (simp add: page_byte_shift)
    show "\<forall>i j. i < j \<and> j < n * 4096 \<longrightarrow> phys_addr (page_byte d 0 + of_nat j) m \<noteq> phys_addr (page_byte d 0 + of_nat i) m"
      using ph assms(2,4) ne [OF assms(4,4)] by (simp add: page_byte_shift)
    show "\<forall>i j. i < j \<and> j < n * 4096 \<longrightarrow> phys_addr (page_byte s 0 + of_nat j) m \<noteq> phys_addr (page_byte d 0 + of_nat i) m"
      using ph assms(2-5) ne [OF assms(5,4)] assms(6) by (auto simp: page_byte_shift)
  qed
  then obtain m' where m': "mem_memcpy (page_byte d 0) (page_byte s 0) (n * 4096) m = m'" and
    c: "copies (page_byte d 0) (page_byte s 0) (n * 4096) m m'" by blast
  have rd: "mem_readb (page_byte s i) m = ram m (page_byte s i)" if "i < n * 4096" for i
  proof -
    have "s * 4096 + i < (s + n) * 4096" using that by (simp add: distrib_right)
    then have "unat (page_byte s i) < length (mhandles m) * 4096"
      using u [OF assms(5) that] mult_le_mono1 [OF assms(5), of 4096] by linarith
    then have "writable (page_byte s i) m" using high_writable [OF assms(1)] lo assms(3,5) that by blast
    then show ?thesis using ph assms(3,5) that by (simp add: writable_read)
  qed
  have "ram m' (page_byte d i) = ram m (page_byte s i)" if "i < n * 4096" for i
    using c ph [OF assms(2,4) that] rd [OF that] that unfolding copies_def page_byte_shift add_0 by metis
  moreover have "ram m' a = ram m a" if "\<not> (d * 4096 \<le> unat a \<and> unat a < (d + n) * 4096)" for a
  proof -
    have "a \<noteq> page_byte d i" if "i < n * 4096" for i
      using u [OF assms(4) that] that \<open>\<not> (d * 4096 \<le> unat a \<and> _)\<close> by (auto simp: distrib_right)
    then show ?thesis using c ph assms(2,4) unfolding copies_def by (simp add: page_byte_shift)
  qed
  moreover have "m' = m\<lparr>ram := ram m'\<rparr>" using c unfolding copies_def by blast
  ultimately show ?thesis unfolding MEM_BlockCopy_def m' Let_def by blast
qed

end
