(* ===== verification/Mem_Pages_Props.thy ===== *)
theory Mem_Pages_Props
  imports Mem_Access
begin

text \<open>
  What the page allocator guarantees: the search finds the shortest free run that is long enough, the
  blocks are disjoint chains that together are exactly the pages in use, and allocation, release and
  resizing change this set of blocks as their names say.
\<close>

section \<open>Free runs\<close>

definition maximal_run :: "MemHandle list \<Rightarrow> nat \<Rightarrow> nat \<Rightarrow> bool" where
  "maximal_run H r n \<longleftrightarrow> XMS_START \<le> r \<and> 0 < n \<and> r + n \<le> length H \<and> (\<forall>i. r \<le> i \<and> i < r + n \<longrightarrow> H ! i = 0) \<and>
     (r = XMS_START \<or> H ! (r - 1) \<noteq> 0) \<and> (r + n = length H \<or> H ! (r + n) \<noteq> 0)"

lemma maximal_run_unique:
  assumes "maximal_run H r n" and "maximal_run H r' n'" and "r \<le> i" "i < r + n" and "r' \<le> i" "i < r' + n'"
  shows "r' = r \<and> n' = n"
proof -
  have le: "a \<le> b" if "maximal_run H a k" "maximal_run H b l" "a \<le> i" "i < a + k" "b \<le> i" "i < b + l" for a k b l
  proof (rule ccontr)
    assume "\<not> a \<le> b"
    then have "b \<le> a - 1" "a - 1 < b + l" using that by simp_all
    then have "H ! (a - 1) = 0" using that(2) unfolding maximal_run_def by blast
    then have "a = XMS_START" using that(1) unfolding maximal_run_def by blast
    then show False using \<open>\<not> a \<le> b\<close> that(2) by (simp add: maximal_run_def)
  qed
  have r: "r' = r" using le [OF assms(1,2) assms(3-6)] le [OF assms(2,1) assms(5,6,3,4)] by simp
  have "\<not> k < l" if "maximal_run H r k" "maximal_run H r l" for k l
  proof
    assume "k < l"
    then have "H ! (r + k) = 0" "r + k < length H" using that(2) by (auto simp: maximal_run_def)
    then show False using that(1) by (auto simp: maximal_run_def)
  qed
  then show ?thesis using r assms(1,2) by (metis linorder_neqE_nat)
qed

text \<open>The runs that end at \<open>k\<close> or before have been looked at.\<close>

definition seen :: "nat \<Rightarrow> MemHandle list \<Rightarrow> nat \<Rightarrow> nat \<Rightarrow> nat \<Rightarrow> bool" where
  "seen sz H k best bf \<longleftrightarrow> (\<forall>r n. maximal_run H r n \<and> r + n \<le> k \<longrightarrow> n < sz \<or> (sz < n \<and> best \<le> n \<and> bf \<noteq> 0)) \<and>
     (if bf = 0 then best = 0xfffffff else maximal_run H bf best \<and> sz < best)"

definition scanning :: "MemHandle list \<Rightarrow> nat \<Rightarrow> nat \<Rightarrow> bool" where
  "scanning H index first \<longleftrightarrow> XMS_START \<le> index \<and>
     (if first = 0 then index = XMS_START \<or> H ! (index - 1) \<noteq> 0
      else XMS_START \<le> first \<and> first < index \<and> (\<forall>i. first \<le> i \<and> i < index \<longrightarrow> H ! i = 0) \<and>
        (first = XMS_START \<or> H ! (first - 1) \<noteq> 0))"

definition best_fit :: "nat \<Rightarrow> MemHandle list \<Rightarrow> nat \<Rightarrow> bool" where
  "best_fit sz H r \<longleftrightarrow> (if r = 0 then \<forall>r n. maximal_run H r n \<longrightarrow> n < sz
     else \<exists>n. maximal_run H r n \<and> sz \<le> n \<and> (\<forall>r' n'. maximal_run H r' n' \<and> sz \<le> n' \<longrightarrow> n \<le> n'))"

lemma start_pos: "0 < XMS_START"
  by (simp add: XMS_START_def)

lemma seen_skip:
  assumes "seen sz H k best bf" and "k < length H" "H ! k \<noteq> 0"
  shows "seen sz H (k + 1) best bf"
proof -
  have "r + n \<noteq> k + 1" if "maximal_run H r n" for r n
  proof
    assume "r + n = k + 1"
    then have "r \<le> k" "k < r + n" using that by (auto simp: maximal_run_def)
    then have "H ! k = 0" using that unfolding maximal_run_def by blast
    with assms(3) show False by simp
  qed
  then show ?thesis using assms(1) unfolding seen_def by (metis Suc_eq_plus1 le_SucE)
qed

lemma run_seen:
  assumes run: "maximal_run H first l" and sn: "seen sz H first best bf" and k: "k \<le> first + l + 1" "first + l = length H \<or> k \<le> length H"
    and b: "maximal_run H r n" "r + n \<le> k"
  shows "(r = first \<and> n = l) \<or> n < sz \<or> (sz < n \<and> best \<le> n \<and> bf \<noteq> 0)"
proof (cases "r + n \<le> first")
  case True
  then show ?thesis using sn b(1) by (auto simp: seen_def)
next
  case False
  have "r + n \<noteq> first + l + 1"
  proof
    assume e: "r + n = first + l + 1"
    then have "r \<le> first + l" "first + l < r + n" "first + l < length H" using b(1) by (auto simp: maximal_run_def)
    then have "H ! (first + l) = 0" using b(1) unfolding maximal_run_def by blast
    with \<open>first + l < length H\<close> run show False by (auto simp: maximal_run_def)
  qed
  then have "r + n \<le> first + l" using b(2) k(1) by simp
  moreover have "0 < n" using b(1) by (simp add: maximal_run_def)
  ultimately have "first \<le> r + n - 1" "r + n - 1 < first + l" "r \<le> r + n - 1" "r + n - 1 < r + n" using False by simp_all
  from maximal_run_unique [OF run b(1) this] show ?thesis by simp
qed

lemma best_loop_fits:
  assumes "hs = drop index H" and "scanning H index first" and "seen sz H (if first = 0 then index else first) best bf"
    and "index \<le> length H \<or> hs = [] \<and> first = 0" and "0 < sz" and "length H < 0xfffffff"
  shows "best_fit sz H (best_loop sz hs index first best bf)"
  using assms
proof (induction hs arbitrary: index first best bf)
  case Nil
  show ?case
  proof (cases "first = 0")
    case True
    then have "r + n \<le> index" if "maximal_run H r n" for r n using that Nil.prems(1) by (auto simp: maximal_run_def)
    then have all: "n < sz \<or> (sz < n \<and> best \<le> n \<and> bf \<noteq> 0)" if "maximal_run H r n" for r n
      using that Nil.prems(3) True by (auto simp: seen_def)
    show ?thesis
    proof (cases "bf = 0")
      case bf: True
      then show ?thesis using all True by (auto simp: best_fit_def)
    next
      case bf: False
      then have "maximal_run H bf best" "sz < best" using Nil.prems(3) by (auto simp: seen_def)
      moreover have "best \<le> n" if "maximal_run H r n" "sz \<le> n" for r n using all [OF that(1)] that(2) by auto
      ultimately show ?thesis using bf True by (auto simp: best_fit_def)
    qed
  next
    case False
    then have ix: "index = length H" using Nil.prems(1,4) by simp
    have run: "maximal_run H first (index - first)" using Nil.prems(2) False ix by (auto simp: scanning_def maximal_run_def)
    have all: "(r = first \<and> n = index - first) \<or> n < sz \<or> (sz < n \<and> best \<le> n \<and> bf \<noteq> 0)" if "maximal_run H r n" for r n
      using run_seen [OF run, of sz best bf "length H" r n] Nil.prems(2,3) False ix that by (auto simp: maximal_run_def scanning_def)
    have big: "bf = 0 \<longrightarrow> best = 0xfffffff" "bf \<noteq> 0 \<longrightarrow> maximal_run H bf best \<and> sz < best"
      using Nil.prems(3) by (auto simp: seen_def split: if_splits)
    show ?thesis
    proof (cases "sz \<le> index - first \<and> index - first < best")
      case True
      then have "\<forall>r' n'. maximal_run H r' n' \<and> sz \<le> n' \<longrightarrow> index - first \<le> n'" using all by force
      then show ?thesis using True run False by (auto simp: best_fit_def)
    next
      case f: False
      show ?thesis
      proof (cases "bf = 0")
        case True
        then have "index - first < sz" using f big(1) Nil.prems(6) ix by auto
        then have "n < sz" if "maximal_run H r n" for r n using all [OF that] True by auto
        then show ?thesis using f True False by (auto simp: best_fit_def)
      next
        case bf: False
        have "best \<le> n" if "maximal_run H r n" "sz \<le> n" for r n using all [OF that(1)] that(2) f by auto
        then show ?thesis using f bf big(2) by (auto simp: best_fit_def)
      qed
    qed
  qed
next
  case (Cons h hs)
  have ix: "index < length H" using Cons.prems(1,4) by (metis drop_eq_Nil le_neq_implies_less list.distinct(1) order_refl)
  have h: "h = H ! index" "hs = drop (index + 1) H" using Cons.prems(1) ix by (metis Cons_nth_drop_Suc list.inject, metis Cons_nth_drop_Suc Suc_eq_plus1 list.inject)
  have pos: "0 < index" using Cons.prems(2) start_pos by (simp add: scanning_def)
  consider (skip) "first = 0" "h \<noteq> 0" | (begins) "first = 0" "h = 0" | (more) "first \<noteq> 0" "h = 0" | (close) "first \<noteq> 0" "h \<noteq> 0" by blast
  then show ?case
  proof cases
    case skip
    have "best_fit sz H (best_loop sz hs (index + 1) 0 best bf)"
      using skip Cons.prems ix h seen_skip [of sz H index best bf] by (intro Cons.IH) (auto simp: scanning_def)
    with skip show ?thesis by simp
  next
    case begins
    have "best_fit sz H (best_loop sz hs (index + 1) index best bf)"
      using begins Cons.prems ix h pos by (intro Cons.IH) (auto simp: scanning_def less_Suc_eq)
    with begins show ?thesis by simp
  next
    case more
    have "best_fit sz H (best_loop sz hs (index + 1) first best bf)"
      using more Cons.prems ix h pos by (intro Cons.IH) (auto simp: scanning_def less_Suc_eq)
    with more show ?thesis by simp
  next
    case close
    let ?l = "index - first"
    have run: "maximal_run H first ?l" using Cons.prems(2) close ix h by (auto simp: scanning_def maximal_run_def)
    have sn: "seen sz H first best bf" using Cons.prems(3) close by simp
    have all: "(r = first \<and> n = ?l) \<or> n < sz \<or> (sz < n \<and> best \<le> n \<and> bf \<noteq> 0)" if "maximal_run H r n" "r + n \<le> index + 1" for r n
      using run_seen [OF run sn, of "index + 1" r n] that close ix Cons.prems(2) by (auto simp: scanning_def)
    have sc: "scanning H (index + 1) 0" using Cons.prems(2) close h by (auto simp: scanning_def)
    have big: "bf = 0 \<longrightarrow> best = 0xfffffff" "bf \<noteq> 0 \<longrightarrow> maximal_run H bf best \<and> sz < best"
      using sn by (auto simp: seen_def split: if_splits)
    consider "?l = sz" | "sz < ?l" "?l < best" | "?l < sz \<or> sz < ?l \<and> best \<le> ?l" by linarith
    then show ?thesis
    proof cases
      case 1
      then show ?thesis using close run by (auto simp: best_fit_def)
    next
      case 2
      then have "seen sz H (index + 1) ?l first" using all run close(1) by (fastforce simp: seen_def)
      then have "best_fit sz H (best_loop sz hs (index + 1) 0 ?l first)"
        using Cons.prems sc h ix by (intro Cons.IH) auto
      with 2 close show ?thesis by (simp add: Let_def)
    next
      case 3
      have "bf \<noteq> 0" if "sz < ?l" "best \<le> ?l" using that big(1) Cons.prems(6) ix by auto
      with 3 have "n < sz \<or> (sz < n \<and> best \<le> n \<and> bf \<noteq> 0)" if "maximal_run H r n" "r + n \<le> index + 1" for r n
        using all [OF that] by auto
      then have "seen sz H (index + 1) best bf" using big unfolding seen_def by auto
      then have "best_fit sz H (best_loop sz hs (index + 1) 0 best bf)"
        using Cons.prems sc h ix by (intro Cons.IH) auto
      with 3 close show ?thesis by (auto simp: Let_def)
    qed
  qed
qed

lemma BestMatch_fits:
  assumes "0 < sz" and "length (mhandles m) < 0xfffffff"
  shows "best_fit sz (mhandles m) (BestMatch sz m)"
proof -
  have "\<not> maximal_run (mhandles m) r n" if "r + n \<le> XMS_START" for r n using that by (auto simp: maximal_run_def)
  then have "seen sz (mhandles m) XMS_START 0xfffffff 0" by (auto simp: seen_def)
  then show ?thesis unfolding BestMatch_def
    using assms by (intro best_loop_fits) (auto simp: scanning_def)
qed

text \<open>A free run of the length asked for exists exactly when the search succeeds.\<close>

definition free_run :: "MemHandle list \<Rightarrow> nat \<Rightarrow> nat \<Rightarrow> bool" where
  "free_run H r n \<longleftrightarrow> XMS_START \<le> r \<and> r + n \<le> length H \<and> (\<forall>i. r \<le> i \<and> i < r + n \<longrightarrow> H ! i = 0)"

lemma free_run_extends:
  assumes "free_run H r n" and "0 < n"
  shows "\<exists>r' n'. maximal_run H r' n' \<and> r' \<le> r \<and> r + n \<le> r' + n'"
proof -
  define P where "P = (\<lambda>k. free_run H (fst k) (snd k) \<and> fst k \<le> r \<and> r + n \<le> fst k + snd k)"
  have "P (r, n)" using assms(1) by (simp add: P_def)
  moreover have "snd k < length H + 1" if "P k" for k using that by (simp add: P_def free_run_def)
  ultimately obtain k where k: "P k" "\<And>j. P j \<Longrightarrow> snd j \<le> snd k"
    using ex_has_greatest_nat [of P "(r, n)" snd "length H + 1"] by (metis less_or_eq_imp_le)
  obtain a l where al: "k = (a, l)" by (cases k)
  have left: "a = XMS_START \<or> H ! (a - 1) \<noteq> 0"
  proof (rule ccontr)
    assume n: "\<not> ?thesis"
    have "H ! i = 0" if "a - 1 \<le> i" "i < a + l" for i
      using that n k(1) al by (cases "i = a - 1") (auto simp: P_def free_run_def)
    then have "P (a - 1, l + 1)" using n k(1) al by (auto simp: P_def free_run_def)
    from k(2) [OF this] show False by (simp add: al)
  qed
  have right: "a + l = length H \<or> H ! (a + l) \<noteq> 0"
  proof (rule ccontr)
    assume n: "\<not> ?thesis"
    then have "P (a, l + 1)" using k(1) al by (auto simp: P_def free_run_def less_Suc_eq)
    from k(2) [OF this] show False by (simp add: al)
  qed
  have "maximal_run H a l \<and> a \<le> r \<and> r + n \<le> a + l"
    using k(1) al left right assms(2) by (auto simp: P_def free_run_def maximal_run_def)
  then show ?thesis by blast
qed

lemma BestMatch_run:
  assumes "0 < sz" and "length (mhandles m) < 0xfffffff"
  shows "BestMatch sz m \<noteq> 0 \<Longrightarrow> free_run (mhandles m) (BestMatch sz m) sz"
    "BestMatch sz m = 0 \<longleftrightarrow> \<not> (\<exists>r. free_run (mhandles m) r sz)"
proof -
  let ?H = "mhandles m"
  note bf = BestMatch_fits [OF assms]
  show fr: "free_run ?H (BestMatch sz m) sz" if "BestMatch sz m \<noteq> 0"
    using bf that by (auto simp: best_fit_def maximal_run_def free_run_def)
  show "BestMatch sz m = 0 \<longleftrightarrow> \<not> (\<exists>r. free_run ?H r sz)"
  proof
    assume z: "BestMatch sz m = 0"
    show "\<not> (\<exists>r. free_run ?H r sz)"
    proof
      assume "\<exists>r. free_run ?H r sz"
      then obtain r r' n' where "maximal_run ?H r' n'" "r' \<le> r" "r + sz \<le> r' + n'" using free_run_extends assms(1) by blast
      then show False using bf z by (fastforce simp: best_fit_def)
    qed
  qed (use fr in blast)
qed

section \<open>Blocks\<close>

text \<open>The pages a block visits, from its handle to an end value.\<close>

fun pages_from :: "MemHandle list \<Rightarrow> MemHandle \<Rightarrow> nat list \<Rightarrow> MemHandle \<Rightarrow> bool" where
  "pages_from H h [] e \<longleftrightarrow> h = e"
| "pages_from H h (p # ps) e \<longleftrightarrow> h = int p \<and> XMS_START \<le> p \<and> p < length H \<and> pages_from H (H ! p) ps e"

definition block :: "MemHandle list \<Rightarrow> nat list \<Rightarrow> bool" where
  "block H ps \<longleftrightarrow> ps \<noteq> [] \<and> distinct ps \<and> pages_from H (int (hd ps)) ps (- 1)"

text \<open>The live blocks are disjoint and are exactly the pages in use.\<close>

definition pool :: "MemoryBlock \<Rightarrow> nat list set \<Rightarrow> bool" where
  "pool m B \<longleftrightarrow> (\<forall>ps\<in>B. block (mhandles m) ps) \<and> (\<forall>ps\<in>B. \<forall>qs\<in>B. ps \<noteq> qs \<longrightarrow> set ps \<inter> set qs = {}) \<and>
     (\<forall>p<length (mhandles m). mhandles m ! p \<noteq> 0 \<longleftrightarrow> (\<exists>ps\<in>B. p \<in> set ps))"

lemma pages_from_append: "pages_from H h (ps @ qs) e \<longleftrightarrow> (\<exists>v. pages_from H h ps v \<and> pages_from H v qs e)"
  by (induction ps arbitrary: h) auto

lemma pages_from_bounds: "pages_from H h ps e \<Longrightarrow> p \<in> set ps \<Longrightarrow> XMS_START \<le> p \<and> p < length H"
  by (induction ps arbitrary: h) auto

lemma pages_from_cong:
  "length H' = length H \<Longrightarrow> (\<And>p. p \<in> set ps \<Longrightarrow> H' ! p = H ! p) \<Longrightarrow> pages_from H' h ps e \<longleftrightarrow> pages_from H h ps e"
  by (induction ps arbitrary: h) auto

lemma pages_from_upd [simp]: "p \<notin> set ps \<Longrightarrow> pages_from (H[p := v]) h ps e \<longleftrightarrow> pages_from H h ps e"
  by (rule pages_from_cong) (auto intro!: nth_list_update_neq)

lemma pages_from_snoc_upd:
  "pages_from H h (ps @ [p]) e \<Longrightarrow> p \<notin> set ps \<Longrightarrow> pages_from (H[p := v]) h (ps @ [p]) v"
  by (auto simp: pages_from_append)

lemma block_cong: "length H' = length H \<Longrightarrow> (\<And>p. p \<in> set ps \<Longrightarrow> H' ! p = H ! p) \<Longrightarrow> block H' ps \<longleftrightarrow> block H ps"
  unfolding block_def by (simp add: pages_from_cong [of H' H])

lemma block_used: "block H ps \<Longrightarrow> p \<in> set ps \<Longrightarrow> H ! p \<noteq> 0"
proof -
  have "pages_from H h ps (- 1) \<Longrightarrow> p \<in> set ps \<Longrightarrow> H ! p \<noteq> 0" for h
  proof (induction ps arbitrary: h)
    case (Cons q ps)
    then show ?case using start_pos by (cases ps) auto
  qed simp
  then show "block H ps \<Longrightarrow> p \<in> set ps \<Longrightarrow> H ! p \<noteq> 0" by (auto simp: block_def)
qed

text \<open>Adding a block of free pages, and taking one away.\<close>

lemma pool_add:
  assumes "pool m B" and "length (mhandles m') = length (mhandles m)" and "block (mhandles m') ps"
    and "\<And>p. p \<in> set ps \<Longrightarrow> mhandles m ! p = 0"
    and "\<And>p. p \<notin> set ps \<Longrightarrow> p < length (mhandles m) \<Longrightarrow> mhandles m' ! p = mhandles m ! p"
  shows "pool m' (insert ps B)"
proof -
  have dis: "set ps \<inter> set qs = {}" if "qs \<in> B" for qs
    using assms(1,4) that block_used unfolding pool_def by blast
  have "block (mhandles m') qs" if "qs \<in> B" for qs
  proof -
    have b: "block (mhandles m) qs" using assms(1) that by (simp add: pool_def)
    then have "p < length (mhandles m)" if "p \<in> set qs" for p using that pages_from_bounds unfolding block_def by blast
    then show ?thesis using b dis [OF that] assms(2,5) by (subst block_cong [of _ "mhandles m"]) auto
  qed
  moreover have "mhandles m' ! p \<noteq> 0 \<longleftrightarrow> (\<exists>qs\<in>insert ps B. p \<in> set qs)" if "p < length (mhandles m')" for p
  proof (cases "p \<in> set ps")
    case True
    then show ?thesis using block_used [OF assms(3)] by simp
  next
    case False
    then show ?thesis using assms(1,2,5) that by (simp add: pool_def)
  qed
  ultimately show ?thesis using assms(1,3) dis unfolding pool_def by (auto; blast)
qed

lemma pool_remove:
  assumes "pool m B" and "ps \<in> B" and "length (mhandles m') = length (mhandles m)"
    and "\<And>p. p \<in> set ps \<Longrightarrow> mhandles m' ! p = 0" and "\<And>p. p \<notin> set ps \<Longrightarrow> mhandles m' ! p = mhandles m ! p"
  shows "pool m' (B - {ps})"
proof -
  have dis: "set ps \<inter> set qs = {}" if "qs \<in> B - {ps}" for qs
    using assms(1,2) that unfolding pool_def by blast
  have "block (mhandles m') qs" if "qs \<in> B - {ps}" for qs
  proof -
    have "block (mhandles m) qs" using assms(1) that by (simp add: pool_def)
    then show ?thesis using dis [OF that] assms(3,5) by (subst block_cong [of _ "mhandles m"]) auto
  qed
  moreover have "mhandles m' ! p \<noteq> 0 \<longleftrightarrow> (\<exists>qs\<in>B - {ps}. p \<in> set qs)" if "p < length (mhandles m')" for p
  proof (cases "p \<in> set ps")
    case True
    then show ?thesis using assms(4) dis by auto
  next
    case False
    then show ?thesis using assms(1,3,5) that by (auto simp: pool_def)
  qed
  ultimately show ?thesis using assms(1) unfolding pool_def by blast
qed

section \<open>Allocation of a contiguous block\<close>

lemma handle_access:
  "p < length (mhandles m) \<Longrightarrow> get_handle (int p) m = Some (mhandles m ! p)"
  "p < length (mhandles m) \<Longrightarrow> set_handle (int p) v m = Some (m\<lparr>mhandles := (mhandles m)[p := v]\<rparr>)"
  by (simp_all add: get_handle_def set_handle_def)

lemma link_run_pages:
  assumes "XMS_START \<le> p" and "p < idx" and "idx + n \<le> length (mhandles m)"
  shows "\<exists>H. link_run n (int idx) (Some (int p)) (ret, m) = Some (ret, m\<lparr>mhandles := H\<rparr>) \<and> length H = length (mhandles m) \<and>
    pages_from H (int p) (p # [idx..<idx + n]) (- 1) \<and> (\<forall>q. q \<noteq> p \<and> \<not> (idx \<le> q \<and> q < idx + n) \<longrightarrow> H ! q = mhandles m ! q)"
  using assms
proof (induction n arbitrary: p idx m)
  case 0
  then show ?case by (intro exI [of _ "(mhandles m)[p := - 1]"]) (simp add: store_next_def handle_access)
next
  case (Suc n)
  define m1 where "m1 = m\<lparr>mhandles := (mhandles m)[p := int idx]\<rparr>"
  have p: "p < length (mhandles m)" using Suc.prems by simp
  have "XMS_START \<le> idx" "idx < idx + 1" "idx + 1 + n \<le> length (mhandles m1)" using Suc.prems by (simp_all add: m1_def)
  from Suc.IH [OF this] obtain H where H: "link_run n (int idx + 1) (Some (int idx)) (ret, m1) = Some (ret, m1\<lparr>mhandles := H\<rparr>)"
    "length H = length (mhandles m)" "pages_from H (int idx) (idx # [idx + 1..<idx + 1 + n]) (- 1)"
    "\<forall>q. q \<noteq> idx \<and> \<not> (idx + 1 \<le> q \<and> q < idx + 1 + n) \<longrightarrow> H ! q = mhandles m1 ! q" by (auto simp: m1_def add.commute)
  have up: "[idx..<idx + Suc n] = idx # [idx + 1..<idx + 1 + n]" by (simp add: upt_conv_Cons)
  have hp: "H ! p = int idx" using H(4) Suc.prems p by (simp add: m1_def)
  have "link_run (Suc n) (int idx) (Some (int p)) (ret, m) = Some (ret, m\<lparr>mhandles := H\<rparr>)"
    using H(1) p by (simp add: store_next_def handle_access m1_def)
  moreover have "pages_from H (int p) (p # [idx..<idx + Suc n]) (- 1)"
    unfolding up using H(2,3) hp Suc.prems p by simp
  moreover have "H ! q = mhandles m ! q" if "q \<noteq> p \<and> \<not> (idx \<le> q \<and> q < idx + Suc n)" for q
  proof -
    have "q \<noteq> idx \<and> \<not> (idx + 1 \<le> q \<and> q < idx + 1 + n)" using that by auto
    then have "H ! q = mhandles m1 ! q" using H(4) by blast
    then show ?thesis using that by (simp add: m1_def)
  qed
  ultimately show ?case using H(2) by blast
qed

definition contiguous :: "nat list \<Rightarrow> bool" where
  "contiguous ps \<longleftrightarrow> ps = [hd ps..<hd ps + length ps]"

text \<open>Freshly linked pages become a block of their own.\<close>

lemma AllocatePages_contiguous:
  assumes "pool m B" and "0 < pages" and "length (mhandles m) < 0xfffffff"
  shows "if \<exists>r. free_run (mhandles m) r pages
    then \<exists>r m'. MEM_AllocatePages pages True m = Some (int r, m') \<and> free_run (mhandles m) r pages \<and> best_fit pages (mhandles m) r \<and>
      pool m' (insert [r..<r + pages] B) \<and> m' = m\<lparr>mhandles := mhandles m'\<rparr> \<and> length (mhandles m') = length (mhandles m)
    else MEM_AllocatePages pages True m = Some (0, m)"
proof (cases "BestMatch pages m = 0")
  case True
  then have "MEM_AllocatePages pages True m = Some (0, m)" using assms(2) by (simp add: MEM_AllocatePages_def Let_def)
  moreover have "\<not> (\<exists>r. free_run (mhandles m) r pages)" using BestMatch_run(2) [OF assms(2,3)] True by simp
  ultimately show ?thesis by simp
next
  case False
  define r where "r = BestMatch pages m"
  have fr: "free_run (mhandles m) r pages" using BestMatch_run(1) [OF assms(2,3)] False by (simp add: r_def)
  obtain k where k: "pages = Suc k" using assms(2) by (cases pages) auto
  have "XMS_START \<le> r" "r < r + 1" "r + 1 + k \<le> length (mhandles m)" using fr k by (simp_all add: free_run_def)
  from link_run_pages [OF this, of "int r"] obtain H where
    H: "link_run k (int r + 1) (Some (int r)) (int r, m) = Some (int r, m\<lparr>mhandles := H\<rparr>)" "length H = length (mhandles m)"
    "pages_from H (int r) (r # [r + 1..<r + 1 + k]) (- 1)" "\<forall>q. q \<noteq> r \<and> \<not> (r + 1 \<le> q \<and> q < r + 1 + k) \<longrightarrow> H ! q = mhandles m ! q"
    by (auto simp: add.commute)
  have up: "r # [r + 1..<r + 1 + k] = [r..<r + pages]" using k by (simp add: upt_conv_Cons)
  have "MEM_AllocatePages pages True m = Some (int r, m\<lparr>mhandles := H\<rparr>)"
    using False H(1) k by (simp add: MEM_AllocatePages_def Let_def r_def store_next_def)
  moreover have "block H [r..<r + pages]" using H(3) assms(2) unfolding up block_def by (simp add: hd_upt del: upt_Suc)
  then have "pool (m\<lparr>mhandles := H\<rparr>) (insert [r..<r + pages] B)"
    using fr H(2,4) k by (intro pool_add [OF assms(1)]) (auto simp: free_run_def)
  moreover have "best_fit pages (mhandles m) r" using BestMatch_fits [OF assms(2,3)] by (simp add: r_def)
  ultimately show ?thesis using fr H(2) by auto
qed

section \<open>Release\<close>

lemma mem_memcpy_mhandles: "mem_memcpy d s n (m\<lparr>mhandles := H\<rparr>) = (mem_memcpy d s n m)\<lparr>mhandles := H\<rparr>"
proof (induction n arbitrary: d s m)
  case (Suc n)
  have "mem_writeb d v (m\<lparr>mhandles := H\<rparr>) = (mem_writeb d v m)\<lparr>mhandles := H\<rparr>" for v
    by (simp add: mem_writeb_def split: PageHandler.split)
  then show ?case using Suc by simp
qed simp

lemma BlockCopy_mhandles: "MEM_BlockCopy d s n (m\<lparr>mhandles := H\<rparr>) = (MEM_BlockCopy d s n m)\<lparr>mhandles := H\<rparr>"
  by (simp add: MEM_BlockCopy_def mem_memcpy_mhandles)

lemma set_list_update_notin: "q \<noteq> p \<Longrightarrow> xs[p := v] ! q = xs ! q"
  by simp

lemma ReleasePages_chain:
  assumes "pages_from (mhandles m) h ps (- 1)" and "distinct ps"
  shows "\<exists>H. MEM_ReleasePages h m = Some (m\<lparr>mhandles := H\<rparr>) \<and> length H = length (mhandles m) \<and>
    (\<forall>p. H ! p = (if p \<in> set ps then 0 else mhandles m ! p))"
  using assms
proof (induction ps arbitrary: h m)
  case Nil
  then show ?case by (subst MEM_ReleasePages.simps) (auto intro!: exI [of _ "mhandles m"])
next
  case (Cons p ps)
  define m1 where "m1 = m\<lparr>mhandles := (mhandles m)[p := 0]\<rparr>"
  have p: "h = int p" "0 < p" "p < length (mhandles m)" using Cons.prems start_pos by auto
  have "pages_from (mhandles m1) (mhandles m ! p) ps (- 1)" "distinct ps" using Cons.prems by (simp_all add: m1_def)
  from Cons.IH [OF this] obtain H where H: "MEM_ReleasePages (mhandles m ! p) m1 = Some (m1\<lparr>mhandles := H\<rparr>)" "length H = length (mhandles m)"
    "\<forall>q. H ! q = (if q \<in> set ps then 0 else mhandles m1 ! q)" by (auto simp: m1_def)
  have "MEM_ReleasePages h m = Some (m\<lparr>mhandles := H\<rparr>)"
    using p H(1) by (subst MEM_ReleasePages.simps) (simp add: handle_access m1_def)
  moreover have "H ! q = (if q \<in> set (p # ps) then 0 else mhandles m ! q)" for q
    using H(3) p(3) by (cases "q = p") (auto simp: m1_def)
  ultimately show ?case using H(2) by blast
qed

lemma ReleasePages_block:
  assumes "pool m B" and "ps \<in> B"
  shows "\<exists>m'. MEM_ReleasePages (int (hd ps)) m = Some m' \<and> pool m' (B - {ps}) \<and> m' = m\<lparr>mhandles := mhandles m'\<rparr> \<and>
    length (mhandles m') = length (mhandles m)"
proof -
  have "block (mhandles m) ps" using assms by (simp add: pool_def)
  then obtain H where H: "MEM_ReleasePages (int (hd ps)) m = Some (m\<lparr>mhandles := H\<rparr>)" "length H = length (mhandles m)"
    "\<forall>p. H ! p = (if p \<in> set ps then 0 else mhandles m ! p)" using ReleasePages_chain [of m "int (hd ps)" ps] by (auto simp: block_def)
  then have "pool (m\<lparr>mhandles := H\<rparr>) (B - {ps})" by (intro pool_remove [OF assms]) auto
  with H(1,2) show ?thesis by auto
qed

section \<open>Resizing\<close>

lemma find_last_chain:
  "pages_from (mhandles m) h ps (- 1) \<Longrightarrow> find_last h l k m = Some (if ps = [] then l else int (last ps), k + length ps)"
proof (induction ps arbitrary: h l k)
  case Nil
  then show ?case by (subst find_last.simps) simp
next
  case (Cons p ps)
  then have "h = int p" "0 < p" "p < length (mhandles m)" "pages_from (mhandles m) (mhandles m ! p) ps (- 1)" using start_pos by auto
  with Cons.IH [of "mhandles m ! p" "int p" "k + 1"] show ?case by (subst find_last.simps) (simp add: handle_access)
qed

lemma walk_chain: "pages_from (mhandles m) h ps e \<Longrightarrow> n < length ps \<Longrightarrow> walk n h m = Some (int (ps ! n))"
proof (induction n arbitrary: h ps)
  case 0
  then show ?case by (cases ps) auto
next
  case (Suc n)
  then show ?case by (cases ps) (auto simp: handle_access)
qed

lemma free_pages_chain:
  assumes "pages_from (mhandles m) h ps e" and "distinct ps"
  shows "\<exists>H. free_pages (length ps) h m = Some (m\<lparr>mhandles := H\<rparr>) \<and> length H = length (mhandles m) \<and>
    (\<forall>p. H ! p = (if p \<in> set ps then 0 else mhandles m ! p))"
  using assms
proof (induction ps arbitrary: h m)
  case Nil
  then show ?case by (auto intro!: exI [of _ "mhandles m"])
next
  case (Cons p ps)
  define m1 where "m1 = m\<lparr>mhandles := (mhandles m)[p := 0]\<rparr>"
  have p: "h = int p" "p < length (mhandles m)" using Cons.prems by auto
  have "pages_from (mhandles m1) (mhandles m ! p) ps e" "distinct ps" using Cons.prems by (simp_all add: m1_def)
  from Cons.IH [OF this] obtain H where H: "free_pages (length ps) (mhandles m ! p) m1 = Some (m1\<lparr>mhandles := H\<rparr>)" "length H = length (mhandles m)"
    "\<forall>q. H ! q = (if q \<in> set ps then 0 else mhandles m1 ! q)" by (auto simp: m1_def)
  have "free_pages (length (p # ps)) h m = Some (m\<lparr>mhandles := H\<rparr>)" using p H(1) by (simp add: handle_access m1_def)
  moreover have "H ! q = (if q \<in> set (p # ps) then 0 else mhandles m ! q)" for q
    using H(3) p(2) by (cases "q = p") (auto simp: m1_def)
  ultimately show ?case using H(2) by blast
qed

text \<open>Replacing a block by another on pages of its own and on free pages.\<close>

lemma pool_replace:
  assumes "pool m B" and "ps \<in> B" and "length (mhandles m') = length (mhandles m)" and "block (mhandles m') qs"
    and "\<And>p. p \<in> set qs \<Longrightarrow> p \<in> set ps \<or> mhandles m ! p = 0" and "\<And>p. p \<in> set ps - set qs \<Longrightarrow> mhandles m' ! p = 0"
    and "\<And>p. p \<notin> set ps \<union> set qs \<Longrightarrow> mhandles m' ! p = mhandles m ! p"
  shows "pool m' (insert qs (B - {ps}))"
proof -
  define m1 where "m1 = m\<lparr>mhandles := map (\<lambda>p. if p \<in> set ps then 0 else mhandles m ! p) [0..<length (mhandles m)]\<rparr>"
  have m1: "mhandles m1 ! p = (if p \<in> set ps then 0 else mhandles m ! p)" if "p < length (mhandles m)" for p using that by (simp add: m1_def)
  have bps: "block (mhandles m) ps" using assms(1,2) by (simp add: pool_def)
  have inr: "p < length (mhandles m)" if "p \<in> set ps \<union> set qs" for p
    using that bps assms(3,4) pages_from_bounds unfolding block_def by (metis Un_iff)
  have "pool m1 (B - {ps})"
  proof -
    have dis: "set ps \<inter> set rs = {}" if "rs \<in> B - {ps}" for rs using assms(1,2) that unfolding pool_def by blast
    have "block (mhandles m1) rs" if "rs \<in> B - {ps}" for rs
    proof -
      have b: "block (mhandles m) rs" using assms(1) that by (simp add: pool_def)
      then have "p < length (mhandles m)" if "p \<in> set rs" for p using that pages_from_bounds unfolding block_def by blast
      then show ?thesis using b dis [OF that] m1 by (subst block_cong [of _ "mhandles m"]) (auto simp: m1_def)
    qed
    moreover have "mhandles m1 ! p \<noteq> 0 \<longleftrightarrow> (\<exists>rs\<in>B - {ps}. p \<in> set rs)" if "p < length (mhandles m1)" for p
      using that m1 [of p] assms(1) dis by (auto simp: pool_def m1_def)
    ultimately show ?thesis using assms(1) unfolding pool_def by blast
  qed
  then show ?thesis
  proof (rule pool_add)
    show "length (mhandles m') = length (mhandles m1)" "block (mhandles m') qs" using assms(3,4) by (simp_all add: m1_def)
    show "mhandles m1 ! p = 0" if "p \<in> set qs" for p using that assms(5) [OF that] m1 inr by auto
    show "mhandles m' ! p = mhandles m1 ! p" if "p \<notin> set qs" "p < length (mhandles m1)" for p
      using that m1 [of p] assms(6,7) by (auto simp: m1_def)
  qed
qed

lemma shrink_block_pool:
  assumes pl: "pool m B" and ps: "ps \<in> B" and n: "0 < n" "n < length ps"
  shows "\<exists>m'. shrink_block (int (hd ps)) n (length ps) m = Some m' \<and> pool m' (insert (take n ps) (B - {ps})) \<and>
    m' = m\<lparr>mhandles := mhandles m'\<rparr> \<and> length (mhandles m') = length (mhandles m)"
proof -
  let ?H = "mhandles m"
  have b: "block ?H ps" using pl ps by (simp add: pool_def)
  then have c: "pages_from ?H (int (hd ps)) (take n ps @ drop n ps) (- 1)" and d: "distinct ps" by (simp_all add: block_def)
  obtain v where v: "pages_from ?H (int (hd ps)) (take n ps) v" "pages_from ?H v (drop n ps) (- 1)" using c unfolding pages_from_append by blast
  define l where "l = ps ! (n - 1)"
  have tk: "take n ps = take (n - 1) ps @ [l]" using n take_Suc_conv_app_nth [of "n - 1" ps] by (simp add: l_def)
  have l: "l < length ?H" "?H ! l = v" using v(1) unfolding tk by (auto simp: pages_from_append)
  have ld: "l \<notin> set (drop n ps)" "l \<notin> set (take (n - 1) ps)"
  proof -
    have "distinct (take n ps @ drop n ps)" using d by simp
    then show "l \<notin> set (drop n ps)" "l \<notin> set (take (n - 1) ps)" unfolding tk by auto
  qed
  define m1 where "m1 = m\<lparr>mhandles := ?H[l := - 1]\<rparr>"
  have "pages_from (mhandles m1) v (drop n ps) (- 1)" "distinct (drop n ps)" using v(2) ld d by (simp_all add: m1_def)
  from free_pages_chain [OF this] obtain H where H: "free_pages (length ps - n) v m1 = Some (m1\<lparr>mhandles := H\<rparr>)" "length H = length ?H"
    "\<forall>p. H ! p = (if p \<in> set (drop n ps) then 0 else mhandles m1 ! p)" by (auto simp: m1_def)
  have w: "walk (n - 1) (int (hd ps)) m = Some (int l)" using walk_chain [of m "int (hd ps)" ps "- 1" "n - 1"] c n by (simp add: l_def)
  have "shrink_block (int (hd ps)) n (length ps) m = Some (m\<lparr>mhandles := H\<rparr>)"
    using w l H(1) by (simp add: shrink_block_def handle_access m1_def)
  moreover have "pool (m\<lparr>mhandles := H\<rparr>) (insert (take n ps) (B - {ps}))"
  proof (rule pool_replace [OF pl ps])
    have "pages_from (?H[l := - 1]) (int (hd ps)) (take n ps) (- 1)"
      using pages_from_snoc_upd [OF v(1) [unfolded tk] ld(2)] unfolding tk .
    moreover have "H ! p = ?H[l := - 1] ! p" if "p \<in> set (take n ps)" for p
      using H(3) that d by (auto simp: m1_def dest: set_take_disj_set_drop_if_distinct [of ps n n])
    ultimately have "pages_from H (int (hd ps)) (take n ps) (- 1)" using H(2) by (subst pages_from_cong [of H "?H[l := - 1]"]) auto
    then show "block (mhandles (m\<lparr>mhandles := H\<rparr>)) (take n ps)" using n d by (auto simp: block_def hd_take)
    show "mhandles (m\<lparr>mhandles := H\<rparr>) ! p = 0" if "p \<in> set ps - set (take n ps)" for p
    proof -
      have "p \<in> set (drop n ps)" using that by (metis Diff_iff Un_iff append_take_drop_id set_append)
      then show ?thesis using H(3) by simp
    qed
    show "mhandles (m\<lparr>mhandles := H\<rparr>) ! p = ?H ! p" if "p \<notin> set ps \<union> set (take n ps)" for p
    proof -
      have "l \<in> set ps" using n by (simp add: l_def)
      then have "p \<noteq> l" "p \<notin> set (drop n ps)" using that by (auto dest: in_set_dropD)
      then show ?thesis using H(3) by (simp add: m1_def)
    qed
  qed (use H(2) in \<open>auto dest: in_set_takeD\<close>)
  ultimately show ?thesis using H(2) by auto
qed

lemma count_free_run: "n \<le> count_free (drop k H) \<Longrightarrow> n = 0 \<or> k + n \<le> length H \<and> (\<forall>i. k \<le> i \<and> i < k + n \<longrightarrow> H ! i = 0)"
proof (induction n arbitrary: k)
  case (Suc n)
  show ?case
  proof (cases "drop k H")
    case Nil
    then show ?thesis using Suc.prems by simp
  next
    case (Cons x xs)
    then have k: "k < length H" "x = H ! k" "xs = drop (k + 1) H"
      by (metis drop_all linorder_not_le list.distinct(1), metis Cons_nth_drop_Suc drop_all linorder_not_le list.inject list.distinct(1),
          metis Cons_nth_drop_Suc Suc_eq_plus1 drop_all linorder_not_le list.inject list.distinct(1))
    then have "x = 0" "n \<le> count_free (drop (k + 1) H)" using Suc.prems Cons by (auto split: if_splits)
    with Suc.IH [of "k + 1"] k have "n = 0 \<or> k + 1 + n \<le> length H \<and> (\<forall>i. k + 1 \<le> i \<and> i < k + 1 + n \<longrightarrow> H ! i = 0)" by blast
    moreover have "i = k \<or> k + 1 \<le> i \<and> i < k + 1 + n" if "k \<le> i" "i < k + Suc n" for i using that by auto
    ultimately have "H ! i = 0" if "k \<le> i" "i < k + Suc n" for i using that k \<open>x = 0\<close> by (metis add_0_right linorder_not_le)
    then show ?thesis using \<open>n = 0 \<or> _\<close> k(1) by auto
  qed
qed simp

lemma extend_run_link: "extend_run n (int p) m = map_option snd (link_run n (int p + 1) (Some (int p)) (0, m))"
proof (induction n arbitrary: p m)
  case 0
  then show ?case by (simp add: store_next_def option.map_comp comp_def option.map_ident)
next
  case (Suc n)
  then show ?case using Suc [of "p + 1"]
    by (cases "set_handle (int p) (int p + 1) m") (simp_all add: store_next_def add.commute)
qed

lemma extend_run_pool:
  assumes pl: "pool m B" and ps: "ps \<in> B" and n: "0 < n" "n \<le> count_free (drop (last ps + 1) (mhandles m))"
  defines "qs \<equiv> ps @ [last ps + 1..<last ps + 1 + n]"
  shows "\<exists>m'. extend_run n (int (last ps)) m = Some m' \<and> pool m' (insert qs (B - {ps})) \<and>
    m' = m\<lparr>mhandles := mhandles m'\<rparr> \<and> length (mhandles m') = length (mhandles m)"
proof -
  let ?H = "mhandles m" and ?l = "last ps"
  have b: "block ?H ps" using pl ps by (simp add: pool_def)
  then have d: "distinct ps" "ps \<noteq> []" and c: "pages_from ?H (int (hd ps)) (butlast ps @ [?l]) (- 1)" by (simp_all add: block_def)
  have fr: "?l + 1 + n \<le> length ?H" "\<forall>i. ?l + 1 \<le> i \<and> i < ?l + 1 + n \<longrightarrow> ?H ! i = 0" using count_free_run [OF n(2)] n(1) by auto
  have l: "XMS_START \<le> ?l" using pages_from_bounds [OF c] by simp
  obtain H where H: "link_run n (int (?l + 1)) (Some (int ?l)) (0, m) = Some (0, m\<lparr>mhandles := H\<rparr>)" "length H = length ?H"
    "pages_from H (int ?l) (?l # [?l + 1..<?l + 1 + n]) (- 1)" "\<forall>q. q \<noteq> ?l \<and> \<not> (?l + 1 \<le> q \<and> q < ?l + 1 + n) \<longrightarrow> H ! q = ?H ! q"
    using link_run_pages [OF l, of "?l + 1" n m 0] fr(1) by auto
  have new: "set [?l + 1..<?l + 1 + n] \<inter> set ps = {}" using fr(2) block_used [OF b] by (auto simp del: upt_Suc)
  have "pages_from H (int (hd ps)) (butlast ps) (int ?l)"
  proof -
    have "pages_from ?H (int (hd ps)) (butlast ps) (int ?l)" using c by (auto simp: pages_from_append)
    moreover have "H ! p = ?H ! p" if "p \<in> set (butlast ps)" for p
    proof -
      have "p \<in> set ps" using that by (rule in_set_butlastD)
      then have n: "p \<notin> set [?l + 1..<?l + 1 + n]" using new by blast
      have "distinct (butlast ps @ [?l])" using d by simp
      then have "p \<noteq> ?l" using that by auto
      with n show ?thesis using H(4) by (simp del: upt_Suc)
    qed
    ultimately show ?thesis using H(2) by (subst pages_from_cong [of H ?H]) auto
  qed
  then have "pages_from H (int (hd ps)) (butlast ps @ ?l # [?l + 1..<?l + 1 + n]) (- 1)" using H(3) unfolding pages_from_append by blast
  moreover have "butlast ps @ ?l # [?l + 1..<?l + 1 + n] = qs" using d(2) by (simp add: qs_def)
  moreover have "hd qs = hd ps" using d(2) by (simp add: qs_def)
  ultimately have "pages_from H (int (hd qs)) qs (- 1)" by (simp only:)
  moreover have "distinct qs" "qs \<noteq> []" using d new by (auto simp: qs_def simp del: upt_Suc)
  ultimately have "block H qs" by (simp add: block_def)
  moreover have "H ! p = ?H ! p" if "p \<notin> set ps" "p \<notin> set qs" for p
  proof -
    have "p \<noteq> ?l" using that(1) last_in_set [OF d(2)] by blast
    moreover have "\<not> (?l + 1 \<le> p \<and> p < ?l + 1 + n)" using that(2) by (simp add: qs_def del: upt_Suc)
    ultimately show ?thesis using H(4) by blast
  qed
  ultimately have "pool (m\<lparr>mhandles := H\<rparr>) (insert qs (B - {ps}))"
    using H(2) fr(2) last_in_set [OF d(2)] by (intro pool_replace [OF pl ps]) (auto simp: qs_def simp del: upt_Suc)
  then show ?thesis using H(1,2) by (auto simp: extend_run_link add.commute)
qed

text \<open>
  Resizing a contiguous block: it keeps its first page when it shrinks or when the pages behind it
  are free, moves as a whole with its contents otherwise, and stays as it is when there is no room.
\<close>

definition moved :: "nat list \<Rightarrow> nat list \<Rightarrow> MemoryBlock \<Rightarrow> MemoryBlock \<Rightarrow> bool" where
  "moved ps qs m m' \<longleftrightarrow> (\<forall>i<length ps * 4096. ram m' (page_byte (hd qs) i) = ram m (page_byte (hd ps) i)) \<and>
     (\<forall>a. unat a div 4096 \<notin> set qs \<longrightarrow> ram m' a = ram m a)"

definition resized :: "nat \<Rightarrow> nat list \<Rightarrow> nat list set \<Rightarrow> MemoryBlock \<Rightarrow> realloc_result \<Rightarrow> bool" where
  "resized n ps B m r \<longleftrightarrow> (if ra_ok r
     then \<exists>qs. ra_handle r = int (hd qs) \<and> length qs = n \<and> contiguous qs \<and> pool (ra_mem r) (insert qs (B - {ps})) \<and>
       (\<forall>p\<in>set qs. p \<in> set ps \<or> mhandles m ! p = 0) \<and>
       (if hd qs = hd ps then ram (ra_mem r) = ram m else set qs \<inter> set ps = {} \<and> moved ps qs m (ra_mem r))
     else ra_mem r = m \<and> ra_handle r = int (hd ps) \<and> \<not> (\<exists>r. free_run (mhandles m) r n))"

lemma realloc_in_place:
  assumes "contiguous qs" "hd qs = hd ps" "length qs = n" "pool m' (insert qs (B - {ps}))" "m' = m\<lparr>mhandles := mhandles m'\<rparr>"
    and "\<forall>p\<in>set qs. p \<in> set ps \<or> mhandles m ! p = 0"
  shows "resized n ps B m (realloc_res True (int (hd ps)) m')"
proof -
  have "ram m' = ram m" using arg_cong [OF assms(5), of ram] by simp
  then show ?thesis using assms(1-4,6) unfolding resized_def realloc_res_def by (auto intro!: exI [of _ qs])
qed

lemma moved_run:
  assumes "ram_above m" "contiguous ps" "free_run (mhandles m) r n" "block (mhandles m) ps" "length ps \<le> n"
  defines "m' \<equiv> MEM_BlockCopy (page_byte r 0) (page_byte (hd ps) 0) (length ps * 4096) m"
  shows "moved ps [r..<r + n] m m'" "m' = m\<lparr>ram := ram m'\<rparr>"
proof -
  have b: "XMS_START \<le> r" "r + n \<le> length (mhandles m)" "\<forall>i. r \<le> i \<and> i < r + n \<longrightarrow> mhandles m ! i = 0"
    using assms(3) by (auto simp: free_run_def)
  have ne: "ps \<noteq> []" using assms(4) by (simp add: block_def)
  have ps: "set ps = {hd ps..<hd ps + length ps}" using assms(2) by (metis contiguous_def set_upt)
  have pb: "XMS_START \<le> p \<and> p < length (mhandles m)" if "p \<in> set ps" for p
    using assms(4) that pages_from_bounds unfolding block_def by blast
  have "hd ps + length ps - 1 \<in> set ps" using ne ps by (cases ps) auto
  then have hi: "hd ps + length ps \<le> length (mhandles m)" using pb ne by fastforce
  have dis: "\<not> (r \<le> p \<and> p < r + n)" if "p \<in> set ps" for p using b(3) block_used [OF assms(4) that] by blast
  have "r + length ps \<le> hd ps \<or> hd ps + length ps \<le> r"
  proof (rule ccontr)
    assume "\<not> ?thesis"
    then have "max r (hd ps) \<in> set ps" "r \<le> max r (hd ps)" "max r (hd ps) < r + n" using ps assms(5) ne by (auto simp: max_def)
    then show False using dis by blast
  qed
  then have c: "let m' = MEM_BlockCopy (page_byte r 0) (page_byte (hd ps) 0) (length ps * 4096) m in m' = m\<lparr>ram := ram m'\<rparr> \<and>
    (\<forall>i<length ps * 4096. ram m' (page_byte r i) = ram m (page_byte (hd ps) i)) \<and>
    (\<forall>a. \<not> (r * 4096 \<le> unat a \<and> unat a < (r + length ps) * 4096) \<longrightarrow> ram m' a = ram m a)"
    using b assms(5) hi pb ne by (intro copy_runs [OF assms(1)]) auto
  show "m' = m\<lparr>ram := ram m'\<rparr>" using c unfolding m'_def Let_def by blast
  have "0 < n" using assms(5) ne by (cases ps) auto
  then have hr: "hd [r..<r + n] = r" by (simp add: hd_upt)
  have "ram m' a = ram m a" if "unat a div 4096 \<notin> set [r..<r + n]" for a
  proof -
    have "\<not> (r * 4096 \<le> unat a \<and> unat a < (r + length ps) * 4096)"
    proof
      assume "r * 4096 \<le> unat a \<and> unat a < (r + length ps) * 4096"
      then have "r \<le> unat a div 4096" "unat a div 4096 < r + length ps"
        by (simp_all add: less_eq_div_iff_mult_less_eq less_mult_imp_div_less)
      then show False using that assms(5) by (simp del: upt_Suc)
    qed
    then show ?thesis using c unfolding m'_def Let_def by blast
  qed
  then show "moved ps [r..<r + n] m m'" unfolding moved_def hr using c unfolding m'_def Let_def by blast
qed

lemma ReAllocatePages_contiguous:
  assumes pl: "pool m B" and ps: "ps \<in> B" and ct: "contiguous ps" and n: "0 < n" and ra: "ram_above m"
  shows "\<exists>r. MEM_ReAllocatePages (int (hd ps)) n True m = Some r \<and> resized n ps B m r \<and>
    ra_mem r = m\<lparr>mhandles := mhandles (ra_mem r), ram := ram (ra_mem r)\<rparr> \<and> length (mhandles (ra_mem r)) = length (mhandles m)"
proof -
  have len: "length (mhandles m) < 0xfffffff" using ra by (simp add: ram_above_def)
  have b: "block (mhandles m) ps" using pl ps by (simp add: pool_def)
  then have ne: "ps \<noteq> []" and pos: "0 < hd ps" and c: "pages_from (mhandles m) (int (hd ps)) ps (- 1)"
    using start_pos by (auto simp: block_def neq_Nil_conv)
  have fl: "find_last (int (hd ps)) 0 0 m = Some (int (last ps), length ps)" using find_last_chain [OF c] ne by simp
  have la: "last ps + 1 = hd ps + length ps"
  proof -
    have "last [hd ps..<hd ps + length ps] = hd ps + length ps - 1" using ne by (cases ps) simp_all
    moreover have "0 < hd ps + length ps" using ne by simp
    ultimately show ?thesis using ct by (simp add: contiguous_def)
  qed
  have nz: "hd ps \<noteq> 0" "n \<noteq> 0" using pos n by simp_all
  note re = MEM_ReAllocatePages_def fl nz
  have stays: ?thesis if "MEM_ReAllocatePages (int (hd ps)) n True m = Some (realloc_res True (int (hd ps)) m')"
    "contiguous qs" "hd qs = hd ps" "length qs = n" "pool m' (insert qs (B - {ps}))" "m' = m\<lparr>mhandles := mhandles m'\<rparr>"
    "length (mhandles m') = length (mhandles m)" "\<forall>p\<in>set qs. p \<in> set ps \<or> mhandles m ! p = 0" for m' qs
  proof -
    have "resized n ps B m (realloc_res True (int (hd ps)) m')" using that by (intro realloc_in_place)
    moreover have "m' = m\<lparr>mhandles := mhandles m', ram := ram m'\<rparr>" using that(6) by (cases m, cases m') simp
    ultimately show ?thesis using that(1,7) by (auto simp: realloc_res_def)
  qed
  consider (same) "length ps = n" | (shrink) "n < length ps" |
    (grow) "length ps < n" "n - length ps \<le> count_free (drop (last ps + 1) (mhandles m))" |
    (move) "length ps < n" "\<not> n - length ps \<le> count_free (drop (last ps + 1) (mhandles m))" by linarith
  then show ?thesis
  proof cases
    case same
    then have "insert ps (B - {ps}) = B" using ps by auto
    then show ?thesis using same pl ct by (intro stays [of m ps]) (auto simp: re)
  next
    case shrink
    from shrink_block_pool [OF pl ps n shrink] obtain m' where m': "shrink_block (int (hd ps)) n (length ps) m = Some m'"
      "pool m' (insert (take n ps) (B - {ps}))" "m' = m\<lparr>mhandles := mhandles m'\<rparr>" "length (mhandles m') = length (mhandles m)" by blast
    have "take n ps = [hd ps..<hd ps + n]" using ct shrink by (metis contiguous_def take_upt less_imp_le add_left_mono)
    then have "contiguous (take n ps)" using n by (simp add: contiguous_def)
    then show ?thesis using shrink m' n ne by (intro stays [of m' "take n ps"]) (auto simp: re dest: in_set_takeD)
  next
    case grow
    from extend_run_pool [OF pl ps _ grow(2)] grow(1) obtain m' where m': "extend_run (n - length ps) (int (last ps)) m = Some m'"
      "pool m' (insert (ps @ [last ps + 1..<last ps + 1 + (n - length ps)]) (B - {ps}))" "m' = m\<lparr>mhandles := mhandles m'\<rparr>"
      "length (mhandles m') = length (mhandles m)" by auto
    have "ps @ [last ps + 1..<last ps + 1 + (n - length ps)] = [hd ps..<hd ps + n]"
      using ct grow(1) unfolding la contiguous_def by (metis add.assoc le_add_diff_inverse less_imp_le upt_add_eq_append le_add1)
    then have "contiguous (ps @ [last ps + 1..<last ps + 1 + (n - length ps)])" using n by (simp add: contiguous_def)
    moreover have "\<forall>p\<in>set (ps @ [last ps + 1..<last ps + 1 + (n - length ps)]). p \<in> set ps \<or> mhandles m ! p = 0"
      using count_free_run [OF grow(2)] grow(1) by (auto simp del: upt_Suc)
    ultimately show ?thesis using grow m' n ne
      by (intro stays [of m' "ps @ [last ps + 1..<last ps + 1 + (n - length ps)]"]) (auto simp: re nat_add_distrib simp del: upt_Suc)
  next
    case move
    show ?thesis
    proof (cases "\<exists>r. free_run (mhandles m) r n")
      case False
      then have "MEM_AllocatePages n True m = Some (0, m)" using AllocatePages_contiguous [OF pl n len] by simp
      then show ?thesis using move False by (auto simp: re realloc_res_def resized_def)
    next
      case True
      then obtain r m1 where a: "MEM_AllocatePages n True m = Some (int r, m1)" "free_run (mhandles m) r n" "pool m1 (insert [r..<r + n] B)"
        "m1 = m\<lparr>mhandles := mhandles m1\<rparr>" "length (mhandles m1) = length (mhandles m)" using AllocatePages_contiguous [OF pl n len] by auto
      define mc where "mc = MEM_BlockCopy (page_byte r 0) (page_byte (hd ps) 0) (length ps * 4096) m"
      define m1c where "m1c = MEM_BlockCopy (page_byte r 0) (page_byte (hd ps) 0) (length ps * 4096) m1"
      have mv: "moved ps [r..<r + n] m mc" "mc = m\<lparr>ram := ram mc\<rparr>"
        using moved_run [OF ra ct a(2) b] move(1) by (simp_all add: mc_def)
      have m1c: "m1c = mc\<lparr>mhandles := mhandles m1\<rparr>"
        unfolding m1c_def mc_def by (subst a(4)) (simp only: BlockCopy_mhandles)
      then have "pool m1c (insert [r..<r + n] B)" using a(3) by (simp add: pool_def)
      moreover have "ps \<in> insert [r..<r + n] B" using ps by simp
      ultimately obtain m2 where m2: "MEM_ReleasePages (int (hd ps)) m1c = Some m2"
        "pool m2 (insert [r..<r + n] B - {ps})" "m2 = m1c\<lparr>mhandles := mhandles m2\<rparr>" "length (mhandles m2) = length (mhandles m1c)"
        using ReleasePages_block by blast
      have dis: "set [r..<r + n] \<inter> set ps = {}" using a(2) block_used [OF b] by (auto simp: free_run_def)
      have r0: "0 < r" using a(2) start_pos by (simp add: free_run_def)
      have "[r..<r + n] \<noteq> ps" using dis n by auto
      then have B: "insert [r..<r + n] B - {ps} = insert [r..<r + n] (B - {ps})" by auto
      have hr1: "hd [r..<r + n] = r" using n by (simp add: hd_upt)
      have "r \<in> set [r..<r + n]" using n by simp
      then have "r \<notin> set ps" using dis by blast
      then have hr: "hd [r..<r + n] = r" "hd [r..<r + n] \<noteq> hd ps" using hr1 hd_in_set [OF ne] by auto
      have fr: "m2 = m\<lparr>mhandles := mhandles m2, ram := ram m2\<rparr>" "ram m2 = ram mc"
        using m2(3) m1c mv(2) by (cases m, cases mc, cases m1c, cases m2, simp)+
      have "MEM_ReAllocatePages (int (hd ps)) n True m = Some (realloc_res True (int r) m2)"
        using move a(1) m2(1) r0 by (simp add: re m1c_def page_byte_def)
      moreover have "resized n ps B m (realloc_res True (int r) m2)"
        unfolding resized_def realloc_res_def using m2(2) B mv(1) fr(2) hr dis n a(2)
        by (auto simp: contiguous_def moved_def free_run_def simp del: upt_Suc intro!: exI [of _ "[r..<r + n]"])
      ultimately show ?thesis using fr(1) m2(4) m1c a(5) by (auto simp: realloc_res_def)
    qed
  qed
qed

end
