(* ===== verification/Mem_Scatter.thy ===== *)
theory Mem_Scatter
  imports Mem_Pages_Props
begin

text \<open>
  Scattered allocation: a block is gathered from free runs, the shortest first, and stays one chain
  of pages. The inner loop reads the number of the page behind a run, also when the run ends with the
  table; a free run there that is longer than all others is taken last and makes this harmless.
\<close>

section \<open>Free pages\<close>

definition free_set :: "MemHandle list \<Rightarrow> nat set" where
  "free_set H = {p. XMS_START \<le> p \<and> p < length H \<and> H ! p = 0}"

lemma finite_free_set [simp]: "finite (free_set H)"
  by (simp add: free_set_def)

lemma free_total_count: "free_total_loop hs k = k + length (filter (\<lambda>h. h = 0) hs)"
  by (induction hs arbitrary: k) auto

lemma FreeTotal_card: "MEM_FreeTotal m = card (free_set (mhandles m))"
proof -
  let ?H = "mhandles m"
  let ?I = "{i. i < length (drop XMS_START ?H) \<and> drop XMS_START ?H ! i = 0}"
  have "MEM_FreeTotal m = card ?I" by (simp add: MEM_FreeTotal_def free_total_count length_filter_conv_card)
  moreover have "bij_betw (\<lambda>i. XMS_START + i) ?I (free_set ?H)"
    by (rule bij_betw_byWitness [where f' = "\<lambda>p. p - XMS_START"]) (auto simp: free_set_def)
  ultimately show ?thesis using bij_betw_same_card by metis
qed

lemma run_free: "maximal_run H r n \<Longrightarrow> {r..<r + n} \<subseteq> free_set H"
  by (auto simp: maximal_run_def free_set_def)

lemma free_in_run:
  assumes "p \<in> free_set H"
  shows "\<exists>r n. maximal_run H r n \<and> r \<le> p \<and> p < r + n"
proof -
  have e: "p \<le> i \<and> i < p + 1 \<longleftrightarrow> i = p" for i by auto
  have "free_run H p 1" using assms unfolding free_run_def free_set_def e by simp
  from free_run_extends [OF this] obtain r n where "maximal_run H r n" "r \<le> p" "p + 1 \<le> r + n" by auto
  then show ?thesis by (intro exI [of _ r] exI [of _ n]) simp
qed

text \<open>The free run at the end of the table, if there is one, is longer than any other.\<close>

definition tail_longest :: "MemHandle list \<Rightarrow> bool" where
  "tail_longest H \<longleftrightarrow> (\<forall>r n r' n'. maximal_run H r n \<and> r + n = length H \<and> maximal_run H r' n' \<and> r' + n' \<noteq> length H \<longrightarrow> n' < n)"

lemma taken_run:
  assumes run: "maximal_run H r n" and len: "length H' = length H"
    and H': "\<And>p. r \<le> p \<Longrightarrow> p < r + n \<Longrightarrow> H' ! p \<noteq> 0" "\<And>p. \<not> (r \<le> p \<and> p < r + n) \<Longrightarrow> H' ! p = 0 \<longleftrightarrow> H ! p = 0"
    and r': "maximal_run H' r' n'"
  shows "maximal_run H r' n'"
proof -
  have out: "\<not> (r \<le> p \<and> p < r + n)" if "r' \<le> p" "p < r' + n'" for p
    using r' that H'(1) unfolding maximal_run_def by blast
  have z: "H ! p = 0" if "r' \<le> p" "p < r' + n'" for p
    using r' that H'(2) [OF out [OF that]] unfolding maximal_run_def by metis
  have b: "XMS_START \<le> r'" "0 < n'" "r' + n' \<le> length H" using r' len by (auto simp: maximal_run_def)
  have left: "r' = XMS_START \<or> H ! (r' - 1) \<noteq> 0"
  proof (rule ccontr)
    assume n: "\<not> ?thesis"
    then have "H' ! (r' - 1) \<noteq> 0" using r' by (auto simp: maximal_run_def)
    with n H'(2) have "r \<le> r' - 1" "r' - 1 < r + n" by metis+
    then have "r' = r + n" using out [of r'] b n by auto
    then show False using z [of r'] b run by (auto simp: maximal_run_def)
  qed
  have right: "r' + n' = length H \<or> H ! (r' + n') \<noteq> 0"
  proof (rule ccontr)
    assume n: "\<not> ?thesis"
    then have "H' ! (r' + n') \<noteq> 0" using r' len by (auto simp: maximal_run_def)
    with n H'(2) have i: "r \<le> r' + n'" "r' + n' < r + n" by metis+
    then have "r = r' + n'" using out [of "r' + n' - 1"] b by fastforce
    then show False using z [of "r - 1"] b run by (auto simp: maximal_run_def)
  qed
  show ?thesis using z b left right by (auto simp: maximal_run_def)
qed

lemma tail_longest_taken:
  assumes "tail_longest H" and run: "maximal_run H r n" and len: "length H' = length H"
    and "\<And>p. r \<le> p \<Longrightarrow> p < r + n \<Longrightarrow> H' ! p \<noteq> 0" "\<And>p. \<not> (r \<le> p \<and> p < r + n) \<Longrightarrow> H' ! p = 0 \<longleftrightarrow> H ! p = 0"
  shows "tail_longest H'"
  using assms(1) taken_run [OF run len assms(4,5)] len unfolding tail_longest_def by metis

section \<open>Linking\<close>

lemma link_run_chain:
  assumes "XMS_START \<le> p" "p < length (mhandles m)" and "\<not> (idx \<le> p \<and> p < idx + n)" and "XMS_START \<le> idx" "idx + n \<le> length (mhandles m)"
  shows "\<exists>H. link_run n (int idx) (Some (int p)) (ret, m) = Some (ret, m\<lparr>mhandles := H\<rparr>) \<and> length H = length (mhandles m) \<and>
    pages_from H (int p) (p # [idx..<idx + n]) (- 1) \<and> (\<forall>q. q \<noteq> p \<and> \<not> (idx \<le> q \<and> q < idx + n) \<longrightarrow> H ! q = mhandles m ! q)"
  using assms
proof (induction n arbitrary: p idx m)
  case 0
  then show ?case by (intro exI [of _ "(mhandles m)[p := - 1]"]) (simp add: store_next_def handle_access)
next
  case (Suc n)
  define m1 where "m1 = m\<lparr>mhandles := (mhandles m)[p := int idx]\<rparr>"
  have p: "p < length (mhandles m)" using Suc.prems by simp
  have "XMS_START \<le> idx" "idx < length (mhandles m1)" "\<not> (idx + 1 \<le> idx \<and> idx < idx + 1 + n)" "XMS_START \<le> idx + 1" "idx + 1 + n \<le> length (mhandles m1)"
    using Suc.prems by (simp_all add: m1_def)
  from Suc.IH [OF this] obtain H where H: "link_run n (int idx + 1) (Some (int idx)) (ret, m1) = Some (ret, m1\<lparr>mhandles := H\<rparr>)"
    "length H = length (mhandles m)" "pages_from H (int idx) (idx # [idx + 1..<idx + 1 + n]) (- 1)"
    "\<forall>q. q \<noteq> idx \<and> \<not> (idx + 1 \<le> q \<and> q < idx + 1 + n) \<longrightarrow> H ! q = mhandles m1 ! q" by (auto simp: m1_def add.commute)
  have up: "[idx..<idx + Suc n] = idx # [idx + 1..<idx + 1 + n]" by (simp add: upt_conv_Cons)
  have "p \<noteq> idx \<and> \<not> (idx + 1 \<le> p \<and> p < idx + 1 + n)" using Suc.prems(3) by auto
  then have hp: "H ! p = int idx" using H(4) p by (simp add: m1_def)
  have "link_run (Suc n) (int idx) (Some (int p)) (ret, m) = Some (ret, m\<lparr>mhandles := H\<rparr>)"
    using H(1) p by (simp add: store_next_def handle_access m1_def)
  moreover have "pages_from H (int p) (p # [idx..<idx + Suc n]) (- 1)"
    unfolding up using H(2,3) hp Suc.prems p by simp
  moreover have "H ! q = mhandles m ! q" if "q \<noteq> p \<and> \<not> (idx \<le> q \<and> q < idx + Suc n)" for q
  proof -
    have "q \<noteq> idx \<and> \<not> (idx + 1 \<le> q \<and> q < idx + 1 + n)" using that by auto
    then have "H ! q = mhandles m1 ! q" using H(4) by blast
    then show ?thesis using that by (simp add: m1_def)
  qed
  ultimately show ?case using H(2) by blast
qed

text \<open>Taking free pages and closing the chain is linking them.\<close>

definition apart :: "MemHandle option \<Rightarrow> nat \<Rightarrow> nat \<Rightarrow> MemoryBlock \<Rightarrow> bool" where
  "apart n idx k m \<longleftrightarrow> (\<forall>q. n = Some q \<longrightarrow> (\<exists>p. q = int p \<and> p < length (mhandles m) \<and> \<not> (idx \<le> p \<and> p < idx + k)))"

lemma store_apart:
  assumes "apart n idx k m" and "v \<noteq> 0"
  obtains ret' H where "store_next n v (ret, m) = Some (ret', m\<lparr>mhandles := H\<rparr>)" "length H = length (mhandles m)"
    "\<And>p. idx \<le> p \<Longrightarrow> p < idx + k \<Longrightarrow> H ! p = mhandles m ! p" "\<And>p. mhandles m ! p \<noteq> 0 \<Longrightarrow> H ! p \<noteq> 0"
proof (cases n)
  case None
  show ?thesis by (rule that [of v "mhandles m"]) (simp_all add: None store_next_def)
next
  case (Some q)
  then obtain p where p: "q = int p" "p < length (mhandles m)" "\<not> (idx \<le> p \<and> p < idx + k)" using assms(1) by (auto simp: apart_def)
  show ?thesis
    by (rule that [of ret "(mhandles m)[p := v]"]) (use p Some assms(2) in \<open>auto simp: store_next_def handle_access nth_list_update\<close>)
qed

lemma take_free_links:
  assumes "\<And>i. idx \<le> i \<Longrightarrow> i < idx + k \<Longrightarrow> mhandles m ! i = 0" and "idx + k \<le> length (mhandles m)"
    and "p \<le> k \<or> idx + k < length (mhandles m) \<and> mhandles m ! (idx + k) \<noteq> 0" and "apart n idx k m" and "0 < idx"
  shows "Option.bind (take_free p (int idx) n (ret, m)) (\<lambda>(p', n', rm'). Option.bind (store_next n' (- 1) rm') (f p' n')) =
    Option.bind (link_run (min p k) (int idx) n (ret, m)) (f (p - min p k) (if min p k = 0 then n else Some (int (idx + min p k) - 1)))"
  using assms
proof (induction k arbitrary: p idx n ret m)
  case 0
  show ?case
  proof (cases "p = 0")
    case False
    then have "get_handle (int idx) m = Some (mhandles m ! idx)" "mhandles m ! idx \<noteq> 0" using 0 by (auto simp: handle_access)
    then show ?thesis using False by (subst take_free.simps) simp
  qed (subst take_free.simps, simp)
next
  case (Suc k)
  show ?case
  proof (cases p)
    case 0
    then show ?thesis by (subst take_free.simps) simp
  next
    case p: (Suc p')
    obtain ret' H where H: "store_next n (int idx) (ret, m) = Some (ret', m\<lparr>mhandles := H\<rparr>)" "length H = length (mhandles m)"
      "\<And>q. idx \<le> q \<Longrightarrow> q < idx + Suc k \<Longrightarrow> H ! q = mhandles m ! q" "\<And>q. mhandles m ! q \<noteq> 0 \<Longrightarrow> H ! q \<noteq> 0"
      using store_apart [OF Suc.prems(4), of "int idx" ret] Suc.prems(5) by (metis of_nat_0_eq_iff less_irrefl)
    have g: "get_handle (int idx) m = Some 0" using Suc.prems(1) [of idx] Suc.prems(2) by (simp add: handle_access)
    have "Option.bind (take_free p' (int (idx + 1)) (Some (int idx)) (ret', m\<lparr>mhandles := H\<rparr>)) (\<lambda>(p', n', rm'). Option.bind (store_next n' (- 1) rm') (f p' n')) =
      Option.bind (link_run (min p' k) (int (idx + 1)) (Some (int idx)) (ret', m\<lparr>mhandles := H\<rparr>))
        (f (p' - min p' k) (if min p' k = 0 then Some (int idx) else Some (int (idx + 1 + min p' k) - 1)))"
      using Suc.prems(1-3) H(2-4) p by (intro Suc.IH) (auto simp: apart_def)
    moreover have "(if min p' k = 0 then Some (int idx) else Some (int (idx + 1 + min p' k) - 1)) = Some (int (idx + min p (Suc k)) - 1)" using p by simp
    ultimately show ?thesis using p g H(1) by (subst take_free.simps) (simp add: add.commute)
  qed
qed

section \<open>Gathering\<close>

text \<open>
  After some rounds: the pages taken so far form a chain that ends at the last of them, and nothing else
  has changed.
\<close>

definition gathered :: "MemoryBlock \<Rightarrow> nat list \<Rightarrow> MemHandle option \<Rightarrow> MemHandle \<Rightarrow> MemHandle list \<Rightarrow> bool" where
  "gathered m qs n ret H \<longleftrightarrow> length H = length (mhandles m) \<and> distinct qs \<and> set qs \<subseteq> free_set (mhandles m) \<and>
     (\<forall>p. p \<notin> set qs \<longrightarrow> H ! p = mhandles m ! p) \<and>
     (if qs = [] then n = None else n = Some (int (last qs)) \<and> ret = int (hd qs) \<and> pages_from H ret qs (- 1))"

lemma gathered_used:
  assumes "gathered m qs n ret H" and "p \<in> set qs"
  shows "H ! p \<noteq> 0"
proof -
  have "block H qs" using assms by (auto simp: gathered_def block_def split: if_splits)
  then show ?thesis using block_used assms(2) by blast
qed

lemma gathered_free: "gathered m qs n ret H \<Longrightarrow> free_set H = free_set (mhandles m) - set qs"
proof -
  assume g: "gathered m qs n ret H"
  have "p \<in> free_set H \<longleftrightarrow> p \<in> free_set (mhandles m) \<and> p \<notin> set qs" for p
  proof (cases "p \<in> set qs")
    case True
    then show ?thesis using gathered_used [OF g True] by (simp add: free_set_def)
  next
    case False
    then show ?thesis using g by (simp add: gathered_def free_set_def)
  qed
  then show ?thesis by blast
qed

lemma link_gathered:
  assumes g: "gathered m qs n ret H" and fr: "free_run H idx j" and j: "0 < j"
  shows "\<exists>ret' H'. link_run j (int idx) n (ret, m\<lparr>mhandles := H\<rparr>) = Some (ret', m\<lparr>mhandles := H'\<rparr>) \<and>
    gathered m (qs @ [idx..<idx + j]) (Some (int (idx + j) - 1)) ret' H'"
proof -
  have b: "XMS_START \<le> idx" "idx + j \<le> length H" "{idx..<idx + j} \<subseteq> free_set H" using fr by (auto simp: free_run_def free_set_def)
  then have new: "{idx..<idx + j} \<subseteq> free_set (mhandles m)" "{idx..<idx + j} \<inter> set qs = {}" using gathered_free [OF g] by auto
  have la: "last (qs @ [idx..<idx + j]) = idx + j - 1" using j by (simp add: last_append)
  have len: "length H = length (mhandles m)" using g by (simp add: gathered_def)
  show ?thesis
  proof (cases "qs = []")
    case True
    obtain k where k: "j = Suc k" using j by (cases j) auto
    have "\<exists>H'. link_run k (int (idx + 1)) (Some (int idx)) (int idx, m\<lparr>mhandles := H\<rparr>) = Some (int idx, m\<lparr>mhandles := H\<rparr>\<lparr>mhandles := H'\<rparr>) \<and>
      length H' = length (mhandles (m\<lparr>mhandles := H\<rparr>)) \<and> pages_from H' (int idx) (idx # [idx + 1..<idx + 1 + k]) (- 1) \<and>
      (\<forall>q. q \<noteq> idx \<and> \<not> (idx + 1 \<le> q \<and> q < idx + 1 + k) \<longrightarrow> H' ! q = mhandles (m\<lparr>mhandles := H\<rparr>) ! q)"
      using b k by (intro link_run_chain) auto
    then obtain H' where H': "link_run k (int (idx + 1)) (Some (int idx)) (int idx, m\<lparr>mhandles := H\<rparr>) = Some (int idx, m\<lparr>mhandles := H'\<rparr>)"
      "length H' = length H" "pages_from H' (int idx) (idx # [idx + 1..<idx + 1 + k]) (- 1)"
      "\<forall>q. q \<noteq> idx \<and> \<not> (idx + 1 \<le> q \<and> q < idx + 1 + k) \<longrightarrow> H' ! q = H ! q" by auto
    have up: "[idx..<idx + j] = idx # [idx + 1..<idx + 1 + k]" using k by (simp add: upt_conv_Cons)
    have "n = None" using g True by (simp add: gathered_def)
    then have "link_run j (int idx) n (ret, m\<lparr>mhandles := H\<rparr>) = Some (int idx, m\<lparr>mhandles := H'\<rparr>)"
      using H'(1) k by (simp add: store_next_def add.commute)
    moreover have "H' ! p = mhandles m ! p" if "p \<notin> set [idx..<idx + j]" for p
    proof -
      have "p \<noteq> idx \<and> \<not> (idx + 1 \<le> p \<and> p < idx + 1 + k)" using that k by auto
      then show ?thesis using H'(4) g True by (simp add: gathered_def)
    qed
    moreover have "pages_from H' (int idx) [idx..<idx + j] (- 1)" unfolding up by (rule H'(3))
    moreover have "[idx..<idx + j] \<noteq> []" "hd [idx..<idx + j] = idx" "last [idx..<idx + j] = idx + j - 1" "distinct [idx..<idx + j]" using j by (simp_all add: hd_upt)
    moreover have "set [idx..<idx + j] \<subseteq> free_set (mhandles m)" using new(1) by simp
    moreover have "Some (int (idx + j) - 1) = Some (int (idx + j - 1))" using j by simp
    ultimately have "gathered m (qs @ [idx..<idx + j]) (Some (int (idx + j) - 1)) (int idx) H'"
      using True H'(2) len unfolding gathered_def by (simp only: append_Nil if_False simp_thms) simp
    then show ?thesis using \<open>link_run j _ _ _ = _\<close> by blast
  next
    case False
    then have n: "n = Some (int (last qs))" "ret = int (hd qs)" "pages_from H ret qs (- 1)" using g unfolding gathered_def by (simp, simp, metis)
    have lb: "XMS_START \<le> last qs" "last qs < length H" "\<not> (idx \<le> last qs \<and> last qs < idx + j)"
      using pages_from_bounds [OF n(3) last_in_set [OF False]] new(2) last_in_set [OF False] by auto
    have "\<exists>H'. link_run j (int idx) (Some (int (last qs))) (ret, m\<lparr>mhandles := H\<rparr>) = Some (ret, m\<lparr>mhandles := H\<rparr>\<lparr>mhandles := H'\<rparr>) \<and>
      length H' = length (mhandles (m\<lparr>mhandles := H\<rparr>)) \<and> pages_from H' (int (last qs)) (last qs # [idx..<idx + j]) (- 1) \<and>
      (\<forall>q. q \<noteq> last qs \<and> \<not> (idx \<le> q \<and> q < idx + j) \<longrightarrow> H' ! q = mhandles (m\<lparr>mhandles := H\<rparr>) ! q)"
      using b lb by (intro link_run_chain) auto
    then obtain H' where H': "link_run j (int idx) n (ret, m\<lparr>mhandles := H\<rparr>) = Some (ret, m\<lparr>mhandles := H'\<rparr>)" "length H' = length H"
      "pages_from H' (int (last qs)) (last qs # [idx..<idx + j]) (- 1)"
      "\<forall>q. q \<noteq> last qs \<and> \<not> (idx \<le> q \<and> q < idx + j) \<longrightarrow> H' ! q = H ! q" using n(1) by auto
    have bl: "butlast qs @ [last qs] = qs" using False by simp
    have d: "distinct (butlast qs @ [last qs])" unfolding bl using g by (simp add: gathered_def)
    have "pages_from H ret (butlast qs @ [last qs]) (- 1)" unfolding bl by (rule n(3))
    then have "pages_from H ret (butlast qs) (int (last qs))" by (auto simp: pages_from_append)
    moreover have "H' ! p = H ! p" if "p \<in> set (butlast qs)" for p
    proof -
      have "p \<noteq> last qs" "p \<in> set qs" using d that in_set_butlastD [OF that] by auto
      moreover from this(2) have "\<not> (idx \<le> p \<and> p < idx + j)" using new(2) by auto
      ultimately show ?thesis using H'(4) by blast
    qed
    ultimately have "pages_from H' ret (butlast qs) (int (last qs))" using H'(2) by (subst pages_from_cong [of H' H]) auto
    then have "pages_from H' ret (butlast qs @ last qs # [idx..<idx + j]) (- 1)" using H'(3) unfolding pages_from_append by blast
    moreover have "butlast qs @ last qs # [idx..<idx + j] = qs @ [idx..<idx + j]" using False by (metis append_Cons append_Nil append_assoc bl)
    ultimately have "pages_from H' ret (qs @ [idx..<idx + j]) (- 1)" by (simp only:)
    moreover have "H' ! p = mhandles m ! p" if "p \<notin> set (qs @ [idx..<idx + j])" for p
    proof -
      have "p \<noteq> last qs" using that False by auto
      then show ?thesis using that H'(4) g by (simp add: gathered_def)
    qed
    ultimately have "gathered m (qs @ [idx..<idx + j]) (Some (int (idx + j) - 1)) ret H'"
      using g H'(2) n(2) la new len j False unfolding gathered_def by (auto simp: of_nat_diff simp del: upt_Suc)
    then show ?thesis using H'(1) by blast
  qed
qed

lemma scatter_gathers:
  assumes "gathered m qs n ret H" and "pages \<le> card (free_set H)" and "tail_longest H" and "length H < 0xfffffff"
  shows "\<exists>rs n' ret' H'. scatter_loop pages n (ret, m\<lparr>mhandles := H\<rparr>) = Some (ret', m\<lparr>mhandles := H'\<rparr>) \<and>
    length rs = pages \<and> gathered m (qs @ rs) n' ret' H'"
  using assms
proof (induction pages arbitrary: qs n ret H rule: less_induct)
  case (less pages)
  show ?case
  proof (cases "pages = 0")
    case True
    then show ?thesis using less.prems(1) by (subst scatter_loop.simps) (auto intro!: exI [of _ n])
  next
    case False
    define M where "M = m\<lparr>mhandles := H\<rparr>"
    have HM: "mhandles M = H" by (simp add: M_def)
    have len1: "length (mhandles M) < 0xfffffff" using less.prems(4) by (simp add: HM)
    have bf: "best_fit 1 H (BestMatch 1 M)" using BestMatch_fits [of 1 M] len1 by (simp add: HM)
    have "free_set H \<noteq> {}" using less.prems(2) False by auto
    then obtain r0 n0 where "maximal_run H r0 n0" using free_in_run by blast
    then have "\<not> (\<forall>r n. maximal_run H r n \<longrightarrow> n < 1)" by (auto simp: maximal_run_def)
    then have bz: "BestMatch 1 M \<noteq> 0" using bf unfolding best_fit_def by metis
    define r where "r = BestMatch 1 M"
    obtain k where k: "maximal_run H r k" "\<And>r' n'. maximal_run H r' n' \<Longrightarrow> 1 \<le> n' \<Longrightarrow> k \<le> n'"
      using bf bz by (auto simp: best_fit_def r_def)
    have kb: "XMS_START \<le> r" "0 < k" "r + k \<le> length H" "\<And>i. r \<le> i \<Longrightarrow> i < r + k \<Longrightarrow> H ! i = 0" using k(1) by (auto simp: maximal_run_def)
    have tail: "pages \<le> k" if "r + k = length H"
    proof -
      have "r' = r" "n' = k" if "maximal_run H r' n'" for r' n'
      proof -
        have "r' + n' = length H"
        proof (rule ccontr)
          assume "r' + n' \<noteq> length H"
          then have "n' < k" using less.prems(3) k(1) \<open>r + k = length H\<close> that unfolding tail_longest_def by blast
          then show False using k(2) [OF that] that by (auto simp: maximal_run_def)
        qed
        moreover have "0 < n'" using that by (auto simp: maximal_run_def)
        ultimately have "r' \<le> length H - 1" "length H - 1 < r' + n'" "r \<le> length H - 1" "length H - 1 < r + k" using \<open>r + k = length H\<close> kb(2) by auto
        then show "r' = r" "n' = k" using maximal_run_unique [OF k(1) that] by auto
      qed
      then have "free_set H \<subseteq> {r..<r + k}" using free_in_run by fastforce
      then have "card (free_set H) \<le> k" using card_mono [of "{r..<r + k}" "free_set H"] by simp
      then show ?thesis using less.prems(2) by simp
    qed
    define j where "j = min pages k"
    have j: "0 < j" "j \<le> pages" "j \<le> k" using False kb(2) by (auto simp: j_def)
    have fr: "free_run H r j" using kb j by (auto simp: free_run_def)
    obtain ret1 H1 where l: "link_run j (int r) n (ret, M) = Some (ret1, m\<lparr>mhandles := H1\<rparr>)"
      and g1: "gathered m (qs @ [r..<r + j]) (Some (int (r + j) - 1)) ret1 H1" using link_gathered [OF less.prems(1) fr j(1)] by (auto simp: M_def)
    have ap: "apart n r k M"
    proof -
      have "\<exists>p. q = int p \<and> p < length H \<and> \<not> (r \<le> p \<and> p < r + k)" if "n = Some q" for q
      proof -
        have qs: "qs \<noteq> []" "q = int (last qs)" "pages_from H ret qs (- 1)" using less.prems(1) that by (auto simp: gathered_def split: if_splits)
        have "H ! last qs \<noteq> 0" using gathered_used [OF less.prems(1)] qs(1) by simp
        then have "\<not> (r \<le> last qs \<and> last qs < r + k)" using kb(4) by blast
        then show ?thesis using qs(2) pages_from_bounds [OF qs(3) last_in_set [OF qs(1)]] by blast
      qed
      then show ?thesis by (simp add: apart_def HM)
    qed
    have stop: "pages \<le> k \<or> r + k < length (mhandles M) \<and> mhandles M ! (r + k) \<noteq> 0" using tail kb(3) k(1) by (auto simp: HM maximal_run_def)
    have "scatter_loop pages n (ret, M) = Option.bind (take_free pages (int r) n (ret, M))
        (\<lambda>(p', n', rm'). Option.bind (store_next n' (- 1) rm') (\<lambda>rm''. scatter_loop p' n' rm''))"
      using False bz by (subst scatter_loop.simps) (simp add: r_def)
    also have "\<dots> = Option.bind (link_run (min pages k) (int r) n (ret, M))
        (scatter_loop (pages - min pages k) (if min pages k = 0 then n else Some (int (r + min pages k) - 1)))"
      using kb start_pos ap stop by (intro take_free_links) (auto simp: HM)
    also have "\<dots> = scatter_loop (pages - j) (Some (int (r + j) - 1)) (ret1, m\<lparr>mhandles := H1\<rparr>)" using l j(1) unfolding j_def [symmetric] by simp
    finally have step: "scatter_loop pages n (ret, M) = scatter_loop (pages - j) (Some (int (r + j) - 1)) (ret1, m\<lparr>mhandles := H1\<rparr>)" .
    have f1: "free_set H1 = free_set H - {r..<r + j}" using gathered_free [OF g1] gathered_free [OF less.prems(1)] by auto
    have "\<exists>rs n' ret' H'. scatter_loop (pages - j) (Some (int (r + j) - 1)) (ret1, m\<lparr>mhandles := H1\<rparr>) = Some (ret', m\<lparr>mhandles := H'\<rparr>) \<and>
      length rs = pages - j \<and> gathered m ((qs @ [r..<r + j]) @ rs) n' ret' H'"
    proof (cases "pages - j = 0")
      case True
      then show ?thesis using g1 by (subst scatter_loop.simps) (auto intro!: exI [of _ "Some (int (r + j) - 1)"])
    next
      case more: False
      then have jk: "j = k" by (auto simp: j_def)
      have sub: "{r..<r + j} \<subseteq> free_set H" using run_free [OF k(1)] j(3) by auto
      have "pages - j \<le> card (free_set H1)" using less.prems(2) sub by (simp add: f1 card_Diff_subset)
      moreover have len: "length H1 = length H" using g1 less.prems(1) by (simp add: gathered_def)
      moreover have "tail_longest H1"
      proof (rule tail_longest_taken [OF less.prems(3) k(1) len])
        show "H1 ! p \<noteq> 0" if "r \<le> p" "p < r + k" for p using gathered_used [OF g1] that jk by simp
        show "H1 ! p = 0 \<longleftrightarrow> H ! p = 0" if "\<not> (r \<le> p \<and> p < r + k)" for p
          using gathered_used [OF g1, of p] gathered_used [OF less.prems(1), of p] g1 less.prems(1) that jk by (cases "p \<in> set qs") (auto simp: gathered_def)
      qed
      ultimately show ?thesis using less.prems(4) j(1,2) by (intro less.IH [OF _ g1]) auto
    qed
    then obtain rs n' ret' H' where x: "scatter_loop pages n (ret, M) = Some (ret', m\<lparr>mhandles := H'\<rparr>)" "length rs = pages - j"
      "gathered m ((qs @ [r..<r + j]) @ rs) n' ret' H'" unfolding step by blast
    have "length ([r..<r + j] @ rs) = pages" using x(2) j(2) by simp
    then show ?thesis using x(1,3) unfolding M_def append_assoc by blast
  qed
qed

section \<open>Allocation\<close>

lemma AllocatePages_scattered:
  assumes pl: "pool m B" and n: "0 < n" and len: "length (mhandles m) < 0xfffffff" and tail: "tail_longest (mhandles m)"
  shows "if MEM_FreeTotal m < n then MEM_AllocatePages n False m = Some (0, m)
    else \<exists>qs m'. MEM_AllocatePages n False m = Some (int (hd qs), m') \<and> length qs = n \<and> set qs \<subseteq> free_set (mhandles m) \<and>
      (\<forall>p. p \<notin> set qs \<longrightarrow> mhandles m' ! p = mhandles m ! p) \<and> pool m' (insert qs B) \<and> m' = m\<lparr>mhandles := mhandles m'\<rparr> \<and> length (mhandles m') = length (mhandles m)"
proof (cases "MEM_FreeTotal m < n")
  case True
  then show ?thesis using n by (simp add: MEM_AllocatePages_def)
next
  case False
  have "gathered m [] None 0 (mhandles m)" by (simp add: gathered_def)
  moreover have "n \<le> card (free_set (mhandles m))" using False by (simp add: FreeTotal_card)
  ultimately obtain qs n' ret H where s: "scatter_loop n None (0, m\<lparr>mhandles := mhandles m\<rparr>) = Some (ret, m\<lparr>mhandles := H\<rparr>)" "length qs = n"
    and g: "gathered m ([] @ qs) n' ret H" using scatter_gathers [OF _ _ tail len] by metis
  have qs: "qs \<noteq> []" using s(2) n by auto
  then have c: "ret = int (hd qs)" "pages_from H (int (hd qs)) qs (- 1)" "distinct qs" "set qs \<subseteq> free_set (mhandles m)" "length H = length (mhandles m)"
    "\<forall>p. p \<notin> set qs \<longrightarrow> H ! p = mhandles m ! p" using g unfolding gathered_def by auto
  have "pool (m\<lparr>mhandles := H\<rparr>) (insert qs B)"
    using c qs by (intro pool_add [OF pl]) (auto simp: block_def free_set_def)
  moreover have "MEM_AllocatePages n False m = Some (int (hd qs), m\<lparr>mhandles := H\<rparr>)" using False n s(1) c(1) by (simp add: MEM_AllocatePages_def)
  ultimately show ?thesis using False s(2) c(4-6) by auto
qed

text \<open>Adding a chain of free pages at the end of a block.\<close>

lemma append_block:
  assumes pl: "pool m B" and ps: "ps \<in> B" and b: "block (mhandles m') qs" and len: "length (mhandles m') = length (mhandles m)"
    and new: "set qs \<subseteq> free_set (mhandles m)" and keep: "\<And>p. p \<notin> set qs \<Longrightarrow> mhandles m' ! p = mhandles m ! p"
  defines "m2 \<equiv> m'\<lparr>mhandles := (mhandles m')[last ps := int (hd qs)]\<rparr>"
  shows "set_handle (int (last ps)) (int (hd qs)) m' = Some m2" "pool m2 (insert (ps @ qs) (B - {ps}))"
proof -
  let ?H = "mhandles m" and ?H' = "mhandles m'" and ?l = "last ps"
  have bp: "block ?H ps" using pl ps by (simp add: pool_def)
  then have d: "distinct ps" "ps \<noteq> []" and c: "pages_from ?H (int (hd ps)) ps (- 1)" by (simp_all add: block_def)
  have l: "?l \<in> set ps" "?l < length ?H'" using d(2) pages_from_bounds [OF c last_in_set [OF d(2)]] len by simp_all
  then show "set_handle (int ?l) (int (hd qs)) m' = Some m2" by (simp add: handle_access m2_def)
  have dis: "set qs \<inter> set ps = {}" using new block_used [OF bp] by (auto simp: free_set_def)
  have bl: "butlast ps @ [?l] = ps" using d(2) by simp
  have "pages_from ?H (int (hd ps)) (butlast ps @ [?l]) (- 1)" unfolding bl by (rule c)
  moreover have "?H' ! p = ?H ! p" if "p \<in> set (butlast ps @ [?l])" for p using keep that dis unfolding bl by blast
  ultimately have "pages_from ?H' (int (hd ps)) (butlast ps @ [?l]) (- 1)" using len by (subst pages_from_cong [of ?H' ?H]) auto
  moreover have "?l \<notin> set (butlast ps)" using d(1) bl by (metis distinct_append IntI empty_iff list.set_intros(1))
  ultimately have "pages_from (?H'[?l := int (hd qs)]) (int (hd ps)) (butlast ps @ [?l]) (int (hd qs))" by (rule pages_from_snoc_upd)
  then have ap: "pages_from (mhandles m2) (int (hd ps)) ps (int (hd qs))" unfolding bl by (simp add: m2_def)
  have "?l \<notin> set qs" using dis l(1) by blast
  then have "pages_from (mhandles m2) (int (hd qs)) qs (- 1)" using b by (simp add: m2_def block_def)
  with ap have "pages_from (mhandles m2) (int (hd ps)) (ps @ qs) (- 1)" unfolding pages_from_append by blast
  then have "block (mhandles m2) (ps @ qs)" using d dis b by (auto simp: block_def)
  then show "pool m2 (insert (ps @ qs) (B - {ps}))"
  proof (rule pool_replace [OF pl ps, rotated])
    show "p \<in> set ps \<or> ?H ! p = 0" if "p \<in> set (ps @ qs)" for p using that new by (auto simp: free_set_def)
    show "mhandles m2 ! p = ?H ! p" if "p \<notin> set ps \<union> set (ps @ qs)" for p
    proof -
      have "p \<noteq> ?l" using that l(1) by auto
      then show ?thesis using that keep by (simp add: m2_def)
    qed
  qed (use len in \<open>auto simp: m2_def\<close>)
qed

text \<open>
  Resizing a scattered block keeps its pages in place: it loses pages at its end or gets free ones
  there, and stays as it is when there are too few.
\<close>

lemma ReAllocatePages_scattered:
  assumes pl: "pool m B" and ps: "ps \<in> B" and n: "0 < n" and len: "length (mhandles m) < 0xfffffff" and tail: "tail_longest (mhandles m)"
  shows "if MEM_FreeTotal m < n - length ps then MEM_ReAllocatePages (int (hd ps)) n False m = Some (realloc_res False (int (hd ps)) m)
    else \<exists>qs m'. MEM_ReAllocatePages (int (hd ps)) n False m = Some (realloc_res True (int (hd ps)) m') \<and> set qs \<subseteq> free_set (mhandles m) \<and>
      length (take n ps @ qs) = n \<and> pool m' (insert (take n ps @ qs) (B - {ps})) \<and> m' = m\<lparr>mhandles := mhandles m'\<rparr> \<and>
      length (mhandles m') = length (mhandles m)"
proof -
  have b: "block (mhandles m) ps" using pl ps by (simp add: pool_def)
  then have ne: "ps \<noteq> []" and pos: "0 < hd ps" and c: "pages_from (mhandles m) (int (hd ps)) ps (- 1)"
    using start_pos by (auto simp: block_def neq_Nil_conv)
  have fl: "find_last (int (hd ps)) 0 0 m = Some (int (last ps), length ps)" using find_last_chain [OF c] ne by simp
  have nz: "hd ps \<noteq> 0" "n \<noteq> 0" using pos n by simp_all
  note re = MEM_ReAllocatePages_def fl nz
  consider (same) "length ps = n" | (shrink) "n < length ps" | (grow) "length ps < n" by linarith
  then show ?thesis
  proof cases
    case same
    moreover have "insert ps (B - {ps}) = B" using ps by auto
    ultimately show ?thesis using pl by (auto simp: re intro!: exI [of _ m])
  next
    case shrink
    from shrink_block_pool [OF pl ps n shrink] obtain m' where m': "shrink_block (int (hd ps)) n (length ps) m = Some m'"
      "pool m' (insert (take n ps) (B - {ps}))" "m' = m\<lparr>mhandles := mhandles m'\<rparr>" "length (mhandles m') = length (mhandles m)" by blast
    then show ?thesis using shrink by (auto simp: re intro!: exI [of _ "[] :: nat list"])
  next
    case grow
    have need: "0 < n - length ps" using grow by simp
    note A = AllocatePages_scattered [OF pl need len tail]
    show ?thesis
    proof (cases "MEM_FreeTotal m < n - length ps")
      case True
      then show ?thesis using A grow by (simp add: re)
    next
      case False
      then obtain qs m1 where q: "MEM_AllocatePages (n - length ps) False m = Some (int (hd qs), m1)" "length qs = n - length ps"
        "set qs \<subseteq> free_set (mhandles m)" "pool m1 (insert qs B)" and keep: "\<forall>p. p \<notin> set qs \<longrightarrow> mhandles m1 ! p = mhandles m ! p"
        and fr: "m1 = m\<lparr>mhandles := mhandles m1\<rparr>" "length (mhandles m1) = length (mhandles m)"
        using A by auto
      have qb: "block (mhandles m1) qs" using q(4) by (simp add: pool_def)
      have hq: "hd qs \<noteq> 0" using qb start_pos by (auto simp: block_def neq_Nil_conv)
      from append_block [OF pl ps qb fr(2) q(3)] keep
      obtain m2 where "set_handle (int (last ps)) (int (hd qs)) m1 = Some m2" "pool m2 (insert (ps @ qs) (B - {ps}))"
        "m2 = m1\<lparr>mhandles := mhandles m2\<rparr>" "length (mhandles m2) = length (mhandles m1)" by auto
      moreover from this fr(1) have "m2 = m\<lparr>mhandles := mhandles m2\<rparr>" by (cases m, cases m1, cases m2) simp
      ultimately show ?thesis using False grow q(1-3) fr(2) hq by (auto simp: re intro!: exI [of _ qs])
    qed
  qed
qed

end
