(* ===== verification/Mem_Owner.thy ===== *)
theory Mem_Owner
  imports Mem_Scatter
begin

text \<open>
  What the memory managers above the page allocator rely on, as a contract: blocks are handed out and taken back whole,
  they are disjoint, and resizing keeps the bytes of the block and of all others. A manager whose table of
  handles names blocks of the pool keeps them apart, whatever it does with them.
\<close>

definition owns :: "('m \<Rightarrow> nat list set \<Rightarrow> bool) \<Rightarrow> 'm \<Rightarrow> ('h \<rightharpoonup> nat list) \<Rightarrow> bool" where
  "owns pl m own \<longleftrightarrow> (\<exists>B. pl m B \<and> ran own \<subseteq> B \<and> inj_on own (dom own))"

lemma owns_insert:
  assumes "pl m B" "ran own \<subseteq> B" "inj_on own (dom own)" and "qs \<notin> B" and "pl m' (insert qs B)" and "own h = None"
  shows "owns pl m' (own(h \<mapsto> qs))"
proof -
  have "ran (own(h \<mapsto> qs)) \<subseteq> insert qs B" using assms(2,6) by auto
  moreover have "inj_on (own(h \<mapsto> qs)) (dom (own(h \<mapsto> qs)))" using assms(2-4) by (auto simp: inj_on_def intro: ranI split: if_splits)
  ultimately show ?thesis using assms(5) unfolding owns_def by blast
qed

lemma owns_replace:
  assumes "pl m B" "ran own \<subseteq> B" "inj_on own (dom own)" and "own h = Some ps" and "qs \<notin> B - {ps}" and "pl m' (insert qs (B - {ps}))"
  shows "owns pl m' (own(h \<mapsto> qs))"
proof -
  have other: "rs \<in> B - {ps}" if "k \<noteq> h" "own k = Some rs" for k rs
    using assms(2-4) that by (metis Diff_iff domI inj_onD ranI singletonD subsetD)
  then have ne: "own k \<noteq> Some qs" if "k \<noteq> h" for k using that assms(5) by blast
  have "ran (own(h \<mapsto> qs)) \<subseteq> insert qs (B - {ps})" using other by (auto simp: ran_def)
  moreover have "inj_on (own(h \<mapsto> qs)) (dom (own(h \<mapsto> qs)))"
    unfolding inj_on_def by (metis assms(3) domIff fun_upd_def inj_onD ne)
  ultimately show ?thesis using assms(6) unfolding owns_def by blast
qed

text \<open>The bytes of the pages of a block.\<close>

definition block_bytes :: "(u32 \<Rightarrow> u8) \<Rightarrow> nat list \<Rightarrow> u8 list" where
  "block_bytes R ps = map R (concat (map (\<lambda>p. map (page_byte p) [0..<4096]) ps))"

locale block_pool =
  fixes pl :: "'m \<Rightarrow> nat list set \<Rightarrow> bool" and sound :: "'m \<Rightarrow> bool" and bytes :: "'m \<Rightarrow> u32 \<Rightarrow> u8"
    and rest :: "'m \<Rightarrow> 'r" and release :: "int \<Rightarrow> 'm \<Rightarrow> 'm option"
  assumes block_nonempty: "pl m B \<Longrightarrow> ps \<in> B \<Longrightarrow> ps \<noteq> [] \<and> 0 < hd ps"
    and blocks_disjoint: "pl m B \<Longrightarrow> ps \<in> B \<Longrightarrow> qs \<in> B \<Longrightarrow> ps \<noteq> qs \<Longrightarrow> set ps \<inter> set qs = {}"
    and release_block: "pl m B \<Longrightarrow> sound m \<Longrightarrow> ps \<in> B \<Longrightarrow>
      \<exists>m'. release (int (hd ps)) m = Some m' \<and> pl m' (B - {ps}) \<and> sound m' \<and> rest m' = rest m \<and> bytes m' = bytes m"
begin

lemma owns_apart: "owns pl m own \<Longrightarrow> own h = Some ps \<Longrightarrow> own k = Some qs \<Longrightarrow> h \<noteq> k \<Longrightarrow> set ps \<inter> set qs = {}"
  unfolding owns_def by (metis blocks_disjoint domI inj_onD ranI subsetD option.inject)

lemma owns_start: "owns pl m own \<Longrightarrow> own h = Some ps \<Longrightarrow> ps \<noteq> [] \<and> 0 < hd ps"
  unfolding owns_def using block_nonempty by (metis ranI subsetD)

lemma owns_release:
  assumes "owns pl m own" and "sound m" and "own h = Some ps"
  shows "\<exists>m'. release (int (hd ps)) m = Some m' \<and> owns pl m' (own(h := None)) \<and> sound m' \<and> rest m' = rest m \<and> bytes m' = bytes m"
proof -
  obtain B where B: "pl m B" "ran own \<subseteq> B" "inj_on own (dom own)" using assms(1) by (auto simp: owns_def)
  have "ps \<in> B" using B(2) assms(3) by (auto intro: ranI)
  from release_block [OF B(1) assms(2) this] obtain m' where m': "release (int (hd ps)) m = Some m'" "pl m' (B - {ps})" "sound m'" "rest m' = rest m" "bytes m' = bytes m" by blast
  have "own k \<noteq> Some ps" if "k \<noteq> h" for k using B(3) assms(3) that by (metis domI inj_onD)
  then have "ran (own(h := None)) \<subseteq> B - {ps}" using B(2) by (auto simp: ran_def)
  moreover have "inj_on (own(h := None)) (dom (own(h := None)))" using B(3) by (auto simp: inj_on_def)
  ultimately show ?thesis using m' unfolding owns_def by blast
qed

end

text \<open>Contiguous blocks, which move with their contents when they grow.\<close>

locale page_pool = block_pool pl sound bytes rest release
  for pl :: "'m \<Rightarrow> nat list set \<Rightarrow> bool" and sound :: "'m \<Rightarrow> bool" and bytes :: "'m \<Rightarrow> u32 \<Rightarrow> u8"
    and rest :: "'m \<Rightarrow> 'r" and release :: "int \<Rightarrow> 'm \<Rightarrow> 'm option" +
  fixes alloc :: "nat \<Rightarrow> 'm \<Rightarrow> (int \<times> 'm) option" and resize :: "int \<Rightarrow> nat \<Rightarrow> 'm \<Rightarrow> (bool \<times> int \<times> 'm) option"
  assumes alloc_block: "pl m B \<Longrightarrow> sound m \<Longrightarrow> 0 < n \<Longrightarrow> alloc n m = Some (0, m) \<or>
      (\<exists>qs m'. alloc n m = Some (int (hd qs), m') \<and> length qs = n \<and> contiguous qs \<and> qs \<notin> B \<and> pl m' (insert qs B) \<and>
        sound m' \<and> rest m' = rest m \<and> bytes m' = bytes m)"
    and resize_block: "pl m B \<Longrightarrow> sound m \<Longrightarrow> ps \<in> B \<Longrightarrow> contiguous ps \<Longrightarrow> 0 < n \<Longrightarrow>
      resize (int (hd ps)) n m = Some (False, int (hd ps), m) \<or>
      (\<exists>qs m'. resize (int (hd ps)) n m = Some (True, int (hd qs), m') \<and> length qs = n \<and> contiguous qs \<and>
        pl m' (insert qs (B - {ps})) \<and> sound m' \<and> rest m' = rest m \<and> (\<forall>rs\<in>B - {ps}. set qs \<inter> set rs = {} \<and> block_bytes (bytes m') rs = block_bytes (bytes m) rs) \<and>
        block_bytes (bytes m') (take (min (length ps) n) qs) = block_bytes (bytes m) (take (min (length ps) n) ps))"
begin

lemma owns_alloc:
  assumes "owns pl m own" and "sound m" and "0 < n" and "own h = None"
  shows "alloc n m = Some (0, m) \<or>
    (\<exists>qs m'. alloc n m = Some (int (hd qs), m') \<and> 0 < hd qs \<and> length qs = n \<and> contiguous qs \<and> owns pl m' (own(h \<mapsto> qs)) \<and>
      sound m' \<and> rest m' = rest m \<and> bytes m' = bytes m)"
proof -
  obtain B where B: "pl m B" "ran own \<subseteq> B" "inj_on own (dom own)" using assms(1) by (auto simp: owns_def)
  from alloc_block [OF B(1) assms(2,3)] show ?thesis
  proof (elim disjE exE conjE)
    fix qs m' assume qs: "alloc n m = Some (int (hd qs), m')" "length qs = n" "contiguous qs" "qs \<notin> B" "pl m' (insert qs B)" "sound m'" "rest m' = rest m" "bytes m' = bytes m"
    have "owns pl m' (own(h \<mapsto> qs))" using owns_insert [where pl = pl and m = m and m' = m', OF B qs(4,5) assms(4)] .
    moreover have "0 < hd qs" using block_nonempty [OF qs(5)] by simp
    ultimately show ?thesis using qs by blast
  qed simp
qed

lemma owns_resize:
  assumes "owns pl m own" and "sound m" and "own h = Some ps" and "contiguous ps" and "0 < n"
  shows "resize (int (hd ps)) n m = Some (False, int (hd ps), m) \<or>
    (\<exists>qs m'. resize (int (hd ps)) n m = Some (True, int (hd qs), m') \<and> 0 < hd qs \<and> length qs = n \<and> contiguous qs \<and>
      owns pl m' (own(h \<mapsto> qs)) \<and> sound m' \<and> rest m' = rest m \<and>
      (\<forall>k rs. k \<noteq> h \<and> own k = Some rs \<longrightarrow> block_bytes (bytes m') rs = block_bytes (bytes m) rs) \<and>
      block_bytes (bytes m') (take (min (length ps) n) qs) = block_bytes (bytes m) (take (min (length ps) n) ps))"
proof -
  obtain B where B: "pl m B" "ran own \<subseteq> B" "inj_on own (dom own)" using assms(1) by (auto simp: owns_def)
  have ps: "ps \<in> B" using B(2) assms(3) by (auto intro: ranI)
  have other: "rs \<in> B - {ps}" if "k \<noteq> h" "own k = Some rs" for k rs
    using B(2,3) assms(3) that by (metis Diff_iff domI inj_onD ranI singletonD subsetD)
  from resize_block [OF B(1) assms(2) ps assms(4,5)] show ?thesis
  proof (elim disjE exE conjE)
    fix qs m' assume qs: "resize (int (hd ps)) n m = Some (True, int (hd qs), m')" "length qs = n" "contiguous qs" "pl m' (insert qs (B - {ps}))"
      "sound m'" "rest m' = rest m" "\<forall>rs\<in>B - {ps}. set qs \<inter> set rs = {} \<and> block_bytes (bytes m') rs = block_bytes (bytes m) rs"
      "block_bytes (bytes m') (take (min (length ps) n) qs) = block_bytes (bytes m) (take (min (length ps) n) ps)"
    have st: "qs \<noteq> [] \<and> 0 < hd qs" using block_nonempty [OF qs(4)] by simp
    then have "qs \<notin> B - {ps}" using qs(7) by (metis Int_absorb set_empty)
    then have "owns pl m' (own(h \<mapsto> qs))" using owns_replace [where pl = pl and m = m and m' = m', OF B assms(3) _ qs(4)] by blast
    moreover have "\<forall>k rs. k \<noteq> h \<and> own k = Some rs \<longrightarrow> block_bytes (bytes m') rs = block_bytes (bytes m) rs" using qs(7) other by blast
    ultimately show ?thesis using qs st by blast
  qed simp
qed

end

text \<open>Scattered blocks, which keep their pages and get more at their end.\<close>

locale scatter_pool = block_pool pl sound bytes rest release
  for pl :: "'m \<Rightarrow> nat list set \<Rightarrow> bool" and sound :: "'m \<Rightarrow> bool" and bytes :: "'m \<Rightarrow> u32 \<Rightarrow> u8"
    and rest :: "'m \<Rightarrow> 'r" and release :: "int \<Rightarrow> 'm \<Rightarrow> 'm option" +
  fixes ready :: "'m \<Rightarrow> bool" and spare :: "'m \<Rightarrow> nat"
    and gather :: "nat \<Rightarrow> 'm \<Rightarrow> (int \<times> 'm) option" and regather :: "int \<Rightarrow> nat \<Rightarrow> 'm \<Rightarrow> (bool \<times> int \<times> 'm) option"
  assumes gather_block: "pl m B \<Longrightarrow> sound m \<Longrightarrow> ready m \<Longrightarrow> 0 < n \<Longrightarrow> if spare m < n then gather n m = Some (0, m)
      else \<exists>qs m'. gather n m = Some (int (hd qs), m') \<and> length qs = n \<and> qs \<notin> B \<and> pl m' (insert qs B) \<and>
        sound m' \<and> rest m' = rest m \<and> bytes m' = bytes m"
    and regather_block: "pl m B \<Longrightarrow> sound m \<Longrightarrow> ready m \<Longrightarrow> ps \<in> B \<Longrightarrow> 0 < n \<Longrightarrow>
      if spare m < n - length ps then regather (int (hd ps)) n m = Some (False, int (hd ps), m)
      else \<exists>qs m'. regather (int (hd ps)) n m = Some (True, int (hd ps), m') \<and> length (take n ps @ qs) = n \<and>
        take n ps @ qs \<notin> B - {ps} \<and> pl m' (insert (take n ps @ qs) (B - {ps})) \<and> sound m' \<and> rest m' = rest m \<and> bytes m' = bytes m"
begin

lemma owns_gather:
  assumes "owns pl m own" and "sound m" and "ready m" and "0 < n" and "own h = None"
  shows "if spare m < n then gather n m = Some (0, m)
    else \<exists>qs m'. gather n m = Some (int (hd qs), m') \<and> 0 < hd qs \<and> length qs = n \<and> owns pl m' (own(h \<mapsto> qs)) \<and>
      sound m' \<and> rest m' = rest m \<and> bytes m' = bytes m"
proof (cases "spare m < n")
  case False
  obtain B where B: "pl m B" "ran own \<subseteq> B" "inj_on own (dom own)" using assms(1) by (auto simp: owns_def)
  from gather_block [OF B(1) assms(2-4)] False obtain qs m' where qs: "gather n m = Some (int (hd qs), m')" "length qs = n" "qs \<notin> B"
    "pl m' (insert qs B)" "sound m'" "rest m' = rest m" "bytes m' = bytes m" by auto
  have "owns pl m' (own(h \<mapsto> qs))" using owns_insert [where pl = pl and m = m and m' = m', OF B qs(3,4) assms(5)] .
  moreover have "0 < hd qs" using block_nonempty [OF qs(4)] by simp
  ultimately show ?thesis using False qs by auto
next
  case True
  obtain B where "pl m B" using assms(1) by (auto simp: owns_def)
  from gather_block [OF this assms(2-4)] True show ?thesis by simp
qed

lemma owns_regather:
  assumes "owns pl m own" and "sound m" and "ready m" and "own h = Some ps" and "0 < n"
  shows "if spare m < n - length ps then regather (int (hd ps)) n m = Some (False, int (hd ps), m)
    else \<exists>qs m'. regather (int (hd ps)) n m = Some (True, int (hd ps), m') \<and> length (take n ps @ qs) = n \<and>
      owns pl m' (own(h \<mapsto> take n ps @ qs)) \<and> sound m' \<and> rest m' = rest m \<and> bytes m' = bytes m"
proof -
  obtain B where B: "pl m B" "ran own \<subseteq> B" "inj_on own (dom own)" using assms(1) by (auto simp: owns_def)
  have ps: "ps \<in> B" using B(2) assms(4) by (auto intro: ranI)
  note r = regather_block [OF B(1) assms(2,3) ps assms(5)]
  show ?thesis
  proof (cases "spare m < n - length ps")
    case False
    then obtain qs m' where qs: "regather (int (hd ps)) n m = Some (True, int (hd ps), m')" "length (take n ps @ qs) = n"
      "take n ps @ qs \<notin> B - {ps}" "pl m' (insert (take n ps @ qs) (B - {ps}))" "sound m'" "rest m' = rest m" "bytes m' = bytes m" using r by auto
    have "owns pl m' (own(h \<mapsto> take n ps @ qs))" using owns_replace [where pl = pl and m = m and m' = m', OF B assms(4) qs(3,4)] .
    then show ?thesis using False qs by auto
  qed (use r in simp)
qed

end

section \<open>The page allocator keeps the contract\<close>

definition mem_rest :: "MemoryBlock \<Rightarrow> PageHandler list \<times> (u32 \<Rightarrow> u32) \<times> bool \<times> u8" where
  "mem_rest m = (phandlers m, firstmb_map m, a20_enabled m, a20_controlport m)"

lemma mem_rest_frame: "m' = m\<lparr>mhandles := mhandles m', ram := ram m'\<rparr> \<Longrightarrow> mem_rest m' = mem_rest m"
  by (cases m, cases m') (simp add: mem_rest_def)

definition resize_pages :: "int \<Rightarrow> nat \<Rightarrow> MemoryBlock \<Rightarrow> (bool \<times> int \<times> MemoryBlock) option" where
  "resize_pages h n m = map_option (\<lambda>r. (ra_ok r, ra_handle r, ra_mem r)) (MEM_ReAllocatePages h n True m)"

lemma ram_above_frame: "ram_above m \<Longrightarrow> m' = m\<lparr>mhandles := mhandles m', ram := ram m'\<rparr> \<Longrightarrow> length (mhandles m') = length (mhandles m) \<Longrightarrow> ram_above m'"
proof -
  assume a: "ram_above m" "m' = m\<lparr>mhandles := mhandles m', ram := ram m'\<rparr>" "length (mhandles m') = length (mhandles m)"
  have "phandlers m' = phandlers m" using arg_cong [OF a(2), of phandlers] by simp
  then show ?thesis using a(1,3) by (simp add: ram_above_def)
qed

lemma handles_frame: "m' = m\<lparr>mhandles := mhandles m'\<rparr> \<Longrightarrow> m' = m\<lparr>mhandles := mhandles m', ram := ram m'\<rparr>" "m' = m\<lparr>mhandles := mhandles m'\<rparr> \<Longrightarrow> ram m' = ram m"
  by (cases m, cases m', simp)+

lemma block_bytes_cong: "(\<And>p i. p \<in> set ps \<Longrightarrow> i < 4096 \<Longrightarrow> R (page_byte p i) = R' (page_byte p i)) \<Longrightarrow> block_bytes R ps = block_bytes R' ps"
  by (auto simp: block_bytes_def)

lemma page_byte_page: "p < 2 ^ 20 \<Longrightarrow> i < 4096 \<Longrightarrow> unat (page_byte p i) div 4096 = p"
  by (subst unat_page_byte) simp_all

lemma block_bytes_moved:
  assumes "moved ps qs m m'" and "contiguous ps" "contiguous qs" and "k \<le> length ps" "k \<le> length qs"
  shows "block_bytes (ram m') (take k qs) = block_bytes (ram m) (take k ps)"
proof -
  have t: "take k xs = map (\<lambda>j. hd xs + j) [0..<k]" if "contiguous xs" "k \<le> length xs" for xs
    using that(2) by (subst that(1) [unfolded contiguous_def]) (simp add: take_upt map_add_upt [symmetric] add.commute comp_def)
  have "ram m' (page_byte (hd qs + j) i) = ram m (page_byte (hd ps + j) i)" if "j < k" "i < 4096" for i j
  proof -
    have "page_byte (p + j) i = page_byte p (j * 4096 + i)" for p by (simp add: page_byte_def distrib_right)
    moreover have "j * 4096 + i < length ps * 4096" using that assms(4) by simp
    ultimately show ?thesis using assms(1) by (simp add: moved_def)
  qed
  then show ?thesis unfolding t [OF assms(2,4)] t [OF assms(3,5)] block_bytes_def
    by (simp add: comp_def map_concat) (intro arg_cong [of _ _ concat] map_cong refl, simp_all)
qed

lemma resize_pages_block:
  assumes pl: "pool m B" and ra: "ram_above m" and ps: "ps \<in> B" and ct: "contiguous ps" and n: "0 < n"
  shows "resize_pages (int (hd ps)) n m = Some (False, int (hd ps), m) \<or>
    (\<exists>qs m'. resize_pages (int (hd ps)) n m = Some (True, int (hd qs), m') \<and> length qs = n \<and> contiguous qs \<and>
      pool m' (insert qs (B - {ps})) \<and> ram_above m' \<and> mem_rest m' = mem_rest m \<and>
      (\<forall>rs\<in>B - {ps}. set qs \<inter> set rs = {} \<and> block_bytes (ram m') rs = block_bytes (ram m) rs) \<and>
      block_bytes (ram m') (take (min (length ps) n) qs) = block_bytes (ram m) (take (min (length ps) n) ps))"
proof -
  from ReAllocatePages_contiguous [OF pl ps ct n ra] obtain r where r: "MEM_ReAllocatePages (int (hd ps)) n True m = Some r"
    "resized n ps B m r" "ra_mem r = m\<lparr>mhandles := mhandles (ra_mem r), ram := ram (ra_mem r)\<rparr>" "length (mhandles (ra_mem r)) = length (mhandles m)" by blast
  show ?thesis
  proof (cases "ra_ok r")
    case False
    then show ?thesis using r(1,2) by (simp add: resized_def resize_pages_def)
  next
    case True
    then obtain qs where qs: "ra_handle r = int (hd qs)" "length qs = n" "contiguous qs" "pool (ra_mem r) (insert qs (B - {ps}))"
      "if hd qs = hd ps then ram (ra_mem r) = ram m else set qs \<inter> set ps = {} \<and> moved ps qs m (ra_mem r)"
      "\<forall>p\<in>set qs. p \<in> set ps \<or> mhandles m ! p = 0" using r(2) unfolding resized_def by auto
    have lt: "p < 2 ^ 20" if "p \<in> set rs" "rs \<in> B" for p rs
      using pl that pages_from_bounds ra unfolding pool_def block_def ram_above_def by (meson less_le_trans)
    have dis: "set qs \<inter> set rs = {}" if "rs \<in> B - {ps}" for rs
    proof -
      have "set ps \<inter> set rs = {}" "block (mhandles m) rs" using pl ps that unfolding pool_def by blast+
      then show ?thesis using qs(6) block_used by blast
    qed
    have ne: "qs \<noteq> []" using qs(2) n by auto
    have keep: "block_bytes (ram (ra_mem r)) rs = block_bytes (ram m) rs" if "rs \<in> B - {ps}" for rs
    proof (rule block_bytes_cong)
      fix p i assume p: "p \<in> set rs" "i < (4096::nat)"
      then have "unat (page_byte p i) div 4096 \<notin> set qs" using page_byte_page lt that dis [OF that] by auto
      then show "ram (ra_mem r) (page_byte p i) = ram m (page_byte p i)" using qs(5) by (auto simp: moved_def split: if_splits)
    qed
    have "block_bytes (ram (ra_mem r)) (take (min (length ps) n) qs) = block_bytes (ram m) (take (min (length ps) n) ps)"
    proof (cases "hd qs = hd ps")
      case True
      have "take (min (length ps) n) qs = take (min (length ps) n) ps"
        using qs(2) by (subst qs(3) [unfolded contiguous_def], subst (2) ct [unfolded contiguous_def]) (simp add: True take_upt)
      then show ?thesis using True qs(5) by simp
    next
      case False
      then show ?thesis using qs(2,3,5) ct by (intro block_bytes_moved) auto
    qed
    moreover have "resize_pages (int (hd ps)) n m = Some (True, int (hd qs), ra_mem r)" using r(1) True qs(1) by (simp add: resize_pages_def)
    ultimately show ?thesis using qs(2-4) dis keep ram_above_frame [OF ra r(3,4)] mem_rest_frame [OF r(3)] by blast
  qed
qed

interpretation mp: page_pool pool ram_above ram mem_rest MEM_ReleasePages "\<lambda>n. MEM_AllocatePages n True" resize_pages
proof
  show "ps \<noteq> [] \<and> 0 < hd ps" if "pool m B" "ps \<in> B" for m B ps
    using that start_pos unfolding pool_def block_def by (cases ps) auto
  show "set ps \<inter> set qs = {}" if "pool m B" "ps \<in> B" "qs \<in> B" "ps \<noteq> qs" for m B ps qs
    using that unfolding pool_def by blast
  show "MEM_AllocatePages n True m = Some (0, m) \<or>
      (\<exists>qs m'. MEM_AllocatePages n True m = Some (int (hd qs), m') \<and> length qs = n \<and> contiguous qs \<and> qs \<notin> B \<and> pool m' (insert qs B) \<and>
        ram_above m' \<and> mem_rest m' = mem_rest m \<and> ram m' = ram m)" if "pool m B" "ram_above m" "0 < n" for m B n
  proof (cases "\<exists>r. free_run (mhandles m) r n")
    case False
    have "length (mhandles m) < 0xfffffff" using that(2) by (simp add: ram_above_def)
    from AllocatePages_contiguous [OF that(1,3) this] False show ?thesis by simp
  next
    case True
    have "length (mhandles m) < 0xfffffff" using that(2) by (simp add: ram_above_def)
    from AllocatePages_contiguous [OF that(1,3) this] True obtain r m' where r: "MEM_AllocatePages n True m = Some (int r, m')"
      "free_run (mhandles m) r n" "pool m' (insert [r..<r + n] B)" "m' = m\<lparr>mhandles := mhandles m'\<rparr>" "length (mhandles m') = length (mhandles m)" by auto
    have "hd [r..<r + n] = r" "contiguous [r..<r + n]" using that(3) by (simp_all add: contiguous_def hd_upt)
    moreover have "[r..<r + n] \<notin> B" using that(1,3) r(2) block_used unfolding pool_def free_run_def
      by (metis atLeastLessThan_iff le_refl less_add_same_cancel1 set_upt)
    ultimately show ?thesis using r(1,3) handles_frame(2) [OF r(4)] ram_above_frame [OF that(2) handles_frame(1) [OF r(4)] r(5)]
      mem_rest_frame [OF handles_frame(1) [OF r(4)]]
      by (metis add_diff_cancel_left' length_upt)
  qed
  show "\<exists>m'. MEM_ReleasePages (int (hd ps)) m = Some m' \<and> pool m' (B - {ps}) \<and> ram_above m' \<and> mem_rest m' = mem_rest m \<and> ram m' = ram m"
    if "pool m B" "ram_above m" "ps \<in> B" for m B ps
    using ReleasePages_block [OF that(1,3)] handles_frame ram_above_frame [OF that(2)] mem_rest_frame by metis
qed (rule resize_pages_block)

definition regather_pages :: "int \<Rightarrow> nat \<Rightarrow> MemoryBlock \<Rightarrow> (bool \<times> int \<times> MemoryBlock) option" where
  "regather_pages h n m = map_option (\<lambda>r. (ra_ok r, ra_handle r, ra_mem r)) (MEM_ReAllocatePages h n False m)"

lemma free_block_new: "pool m B \<Longrightarrow> qs \<noteq> [] \<Longrightarrow> set qs \<subseteq> free_set (mhandles m) \<Longrightarrow> ps \<in> B \<Longrightarrow> set qs \<inter> set ps = {}"
  using block_used by (fastforce simp: pool_def free_set_def)

interpretation sp: scatter_pool pool ram_above ram mem_rest MEM_ReleasePages "\<lambda>m. tail_longest (mhandles m)" MEM_FreeTotal
  "\<lambda>n. MEM_AllocatePages n False" regather_pages
proof
  fix m B and n :: nat
  assume m: "pool m B" "ram_above m" "tail_longest (mhandles m)" and n: "0 < n"
  have len: "length (mhandles m) < 0xfffffff" using m(2) by (simp add: ram_above_def)
  note frame = handles_frame(2) ram_above_frame [OF m(2) handles_frame(1)] mem_rest_frame [OF handles_frame(1)]
  show "if MEM_FreeTotal m < n then MEM_AllocatePages n False m = Some (0, m)
      else \<exists>qs m'. MEM_AllocatePages n False m = Some (int (hd qs), m') \<and> length qs = n \<and> qs \<notin> B \<and> pool m' (insert qs B) \<and>
        ram_above m' \<and> mem_rest m' = mem_rest m \<and> ram m' = ram m"
  proof (cases "MEM_FreeTotal m < n")
    case False
    from AllocatePages_scattered [OF m(1) n len m(3)] False obtain qs m' where q: "MEM_AllocatePages n False m = Some (int (hd qs), m')" "length qs = n"
      "set qs \<subseteq> free_set (mhandles m)" "pool m' (insert qs B)" "m' = m\<lparr>mhandles := mhandles m'\<rparr>" "length (mhandles m') = length (mhandles m)" by auto
    have "qs \<noteq> []" using q(2) n by auto
    then have "qs \<notin> B" using free_block_new [OF m(1) _ q(3)] by (metis Int_absorb set_empty)
    then show ?thesis using False q(1,2,4) frame(1) [OF q(5)] frame(2) [OF q(5,6)] frame(3) [OF q(5)] by auto
  qed (use AllocatePages_scattered [OF m(1) n len m(3)] in simp)
  fix ps assume ps: "ps \<in> B"
  show "if MEM_FreeTotal m < n - length ps then regather_pages (int (hd ps)) n m = Some (False, int (hd ps), m)
      else \<exists>qs m'. regather_pages (int (hd ps)) n m = Some (True, int (hd ps), m') \<and> length (take n ps @ qs) = n \<and>
        take n ps @ qs \<notin> B - {ps} \<and> pool m' (insert (take n ps @ qs) (B - {ps})) \<and> ram_above m' \<and> mem_rest m' = mem_rest m \<and> ram m' = ram m"
  proof (cases "MEM_FreeTotal m < n - length ps")
    case False
    from ReAllocatePages_scattered [OF m(1) ps n len m(3)] False obtain qs m' where q: "MEM_ReAllocatePages (int (hd ps)) n False m = Some (realloc_res True (int (hd ps)) m')"
      "length (take n ps @ qs) = n" "set qs \<subseteq> free_set (mhandles m)" "pool m' (insert (take n ps @ qs) (B - {ps}))" "m' = m\<lparr>mhandles := mhandles m'\<rparr>" "length (mhandles m') = length (mhandles m)" by auto
    have "ps \<noteq> []" using mp.block_nonempty [OF m(1) ps] by simp
    then have h: "hd ps \<in> set (take n ps @ qs)" using n by (cases ps; cases n) auto
    have "take n ps @ qs \<notin> B - {ps}"
    proof
      assume a: "take n ps @ qs \<in> B - {ps}"
      then have "set ps \<inter> set (take n ps @ qs) = {}" using mp.blocks_disjoint [OF m(1) ps, of "take n ps @ qs"] by auto
      with h hd_in_set [OF \<open>ps \<noteq> []\<close>] show False by blast
    qed
    then show ?thesis using False q(1,2,4) frame(1) [OF q(5)] frame(2) [OF q(5,6)] frame(3) [OF q(5)]
      by (auto simp: regather_pages_def realloc_res_def)
  qed (use ReAllocatePages_scattered [OF m(1) ps n len m(3)] in \<open>simp add: regather_pages_def realloc_res_def\<close>)
qed

end
