(* ===== verification/Xms_Inv.thy ===== *)
theory Xms_Inv
  imports Xms Mem_Owner Dos_Memory_Props
begin

text \<open>
  The invariant of the extended memory manager and that every operation keeps it: the gate is open exactly
  while it is counted as such, the handle table has its size, and every live handle of a block names its
  own run of pages of the page allocator.
\<close>

unbundle bit_operations_syntax

section \<open>Sizes\<close>

lemma num_pages_value: "get_num_pages kb = (unat kb + 3) div 4"
proof -
  have m: "mask 2 = (3 :: u32)" by (simp add: mask_numeral)
  have "kb AND 3 = take_bit 2 kb" unfolding take_bit_eq_mask m ..
  then have "kb AND 3 = kb mod 4" by (simp add: take_bit_eq_mod)
  then have "kb AND 3 \<noteq> 0 \<longleftrightarrow> unat kb mod 4 \<noteq> 0" by (simp add: unat_eq_0 [symmetric] unat_mod)
  moreover have "unat (kb div 4 + 1) = unat kb div 4 + 1"
    using unsigned_less [of kb, where ?'a = nat] by (simp add: unat_word_ariths unat_div)
  ultimately show ?thesis unfolding get_num_pages_def by (cases "kb AND 3 = 0") (simp_all add: unat_div, presburger+)
qed

lemma num_pages_zero: "get_num_pages kb = 0 \<longleftrightarrow> kb = 0"
proof -
  have "get_num_pages kb = 0 \<longleftrightarrow> unat kb = 0" unfolding num_pages_value by presburger
  then show ?thesis by (simp add: unat_eq_0)
qed

lemma num_pages_covers: "unat kb * 1024 \<le> get_num_pages kb * 4096"
proof -
  have "unat kb \<le> (unat kb + 3) div 4 * 4" by presburger
  then show ?thesis unfolding num_pages_value by linarith
qed

section \<open>The gate\<close>

lemma A20_Enable_frame [simp]:
  "mhandles (MEM_A20_Enable e m) = mhandles m" "phandlers (MEM_A20_Enable e m) = phandlers m" "ram (MEM_A20_Enable e m) = ram m"
  "a20_controlport (MEM_A20_Enable e m) = a20_controlport m" "a20_enabled (MEM_A20_Enable e m) = e"
proof -
  have "mhandles (fold (\<lambda>p. PAGING_MapPage (f p) (g p)) ps m) = mhandles m \<and> phandlers (fold (\<lambda>p. PAGING_MapPage (f p) (g p)) ps m) = phandlers m \<and>
    ram (fold (\<lambda>p. PAGING_MapPage (f p) (g p)) ps m) = ram m \<and>
    a20_controlport (fold (\<lambda>p. PAGING_MapPage (f p) (g p)) ps m) = a20_controlport m" for f g :: "nat \<Rightarrow> u32" and ps
    by (induction ps arbitrary: m) (simp_all add: PAGING_MapPage_def)
  then show "mhandles (MEM_A20_Enable e m) = mhandles m" "phandlers (MEM_A20_Enable e m) = phandlers m" "ram (MEM_A20_Enable e m) = ram m"
    "a20_controlport (MEM_A20_Enable e m) = a20_controlport m" "a20_enabled (MEM_A20_Enable e m) = e"
    by (simp_all add: MEM_A20_Enable_def Let_def)
qed

lemma A20_fold:
  "k \<le> 16 \<Longrightarrow> firstmb_map (fold (\<lambda>page. PAGING_MapPage (0x100 + of_nat page) (base + of_nat page)) [0..<k] m) p =
    (if 0x100 \<le> unat p \<and> unat p < 0x100 + k then base + (p - 0x100) else firstmb_map m p)"
proof (induction k)
  case (Suc k)
  have "unat (0x100 + of_nat k :: u32) = 0x100 + k" using Suc.prems by (simp add: unat_word_ariths unat_of_nat)
  then have e: "p = 0x100 + of_nat k \<longleftrightarrow> unat p = 0x100 + k" by (metis word_unat_eq_iff)
  have "(0x100 + of_nat k :: u32) < FIRST_LINK" using Suc.prems \<open>unat _ = _\<close> by (simp add: word_less_nat_alt FIRST_LINK_def)
  then show ?case using Suc e by (auto simp: PAGING_MapPage_def)
qed auto

text \<open>With the gate closed the 64 KB above the first megabyte are the lowest 64 KB, with the gate open themselves.\<close>

lemma A20_map:
  "firstmb_map (MEM_A20_Enable e m) p = (if a20_enabled m \<noteq> e \<and> 0x100 \<le> unat p \<and> unat p < 0x110
     then (if e then p else p - 0x100) else firstmb_map m p)"
  using A20_fold [of 16 "if e then 0x100 else 0" m p] by (auto simp: MEM_A20_Enable_def Let_def)

lemma ram_above_A20 [simp]: "ram_above (MEM_A20_Enable e m) = ram_above m"
  by (simp add: ram_above_def)

lemma pool_A20 [simp]: "pool (MEM_A20_Enable e m) B = pool m B"
  by (simp add: pool_def)

text \<open>The two low bits of the port's latch are always clear.\<close>

definition gate_latch :: "MemoryBlock \<Rightarrow> bool" where
  "gate_latch m \<longleftrightarrow> \<not> bit (a20_controlport m) 0 \<and> \<not> bit (a20_controlport m) 1"

lemma a20_enable_value: "gate_latch (mem s) \<Longrightarrow> a20_enable e s = Some (s\<lparr>mem := MEM_A20_Enable e (mem s)\<rparr>)"
proof -
  assume g: "gate_latch (mem s)"
  define v where "v = (if e then read_p92 (mem s) OR 2 else read_p92 (mem s) AND NOT 2)"
  have two: "(2 :: u8) = push_bit 1 1" by simp
  have b: "bit v n \<longleftrightarrow> (if n = 1 then e else bit (a20_controlport (mem s)) n)" if "n < 8" for n
    using g that unfolding v_def read_p92_def gate_latch_def two
    by (auto simp: bit_simps split: if_splits)
  have "v AND 1 = 0" using b [of 0] g and_exp_eq_0_iff_not_bit [of v 0] by (simp add: gate_latch_def)
  moreover have "v AND 2 \<noteq> 0 \<longleftrightarrow> e" using b [of 1] and_exp_eq_0_iff_not_bit [of v 1] by simp
  moreover have "v AND NOT 2 = a20_controlport (mem s)"
  proof (rule bit_word_eqI)
    fix n assume "n < LENGTH(8)"
    then show "bit (v AND NOT 2) n = bit (a20_controlport (mem s)) n"
      using g b [of n] unfolding two gate_latch_def by (auto simp: bit_simps)
  qed
  moreover have "(mem s)\<lparr>a20_controlport := a20_controlport (mem s)\<rparr> = mem s" by simp
  ultimately show ?thesis unfolding a20_enable_def Let_def v_def [symmetric] write_p92_def by simp
qed

lemma a20_is_enabled_value: "gate_latch (mem s) \<Longrightarrow> a20_is_enabled s = a20_enabled (mem s)"
  using and_exp_eq_0_iff_not_bit [of "read_p92 (mem s)" 1] unfolding a20_is_enabled_def read_p92_def gate_latch_def
  by (auto simp: bit_simps)

lemma gate_latch_A20 [simp]: "gate_latch (MEM_A20_Enable e m) = gate_latch m"
  by (simp add: gate_latch_def)

section \<open>The invariant\<close>

text \<open>The pages a live handle owns.\<close>

definition block_run :: "XMS_Block \<Rightarrow> nat list" where
  "block_run b = [nat (mem_handle b)..<nat (mem_handle b) + get_num_pages (size_kb b)]"

definition block_own :: "XMS_Block \<Rightarrow> nat list option" where
  "block_own b = (if \<not> is_free b \<and> size_kb b \<noteq> 0 then Some (block_run b) else None)"

definition xms_own :: "XMS_Block list \<Rightarrow> nat \<Rightarrow> nat list option" where
  "xms_own hs i = (if 0 < i \<and> i < length hs then block_own (hs ! i) else None)"

text \<open>A block without a size names no page.\<close>

definition no_alias :: "XMS_Block \<Rightarrow> bool" where
  "no_alias b \<longleftrightarrow> \<not> is_free b \<and> size_kb b = 0 \<longrightarrow> mem_handle b \<le> 0"

definition table_inv :: "XMS_Block list \<Rightarrow> MemoryBlock \<Rightarrow> bool" where
  "table_inv hs m \<longleftrightarrow> length hs = NumXmsHandles \<and> ram_above m \<and> owns pool m (xms_own hs) \<and> (\<forall>i. 0 < i \<and> i < length hs \<longrightarrow> no_alias (hs ! i))"

definition xms_inv :: "xms_state \<Rightarrow> bool" where
  "xms_inv s \<longleftrightarrow> table_inv (handles s) (mem s) \<and> gate_latch (mem s) \<and> (a20_enabled (mem s) \<longleftrightarrow> num_times_enabled s \<noteq> 0) \<and> dm_wf (dos s)"

lemma table_frame:
  "mhandles m' = mhandles m \<Longrightarrow> phandlers m' = phandlers m \<Longrightarrow> table_inv hs m' = table_inv hs m"
  by (simp add: table_inv_def ram_above_def owns_def pool_def)

lemma xms_own_upd: "0 < i \<Longrightarrow> i < length hs \<Longrightarrow> xms_own (hs[i := b]) = (xms_own hs)(i := block_own b)"
  by (auto simp: xms_own_def fun_eq_iff)

lemma no_alias_upd:
  "\<forall>i. 0 < i \<and> i < length hs \<longrightarrow> no_alias (hs ! i) \<Longrightarrow> no_alias b \<Longrightarrow> \<forall>i. 0 < i \<and> i < length (hs[k := b]) \<longrightarrow> no_alias (hs[k := b] ! i)"
  by (metis length_list_update nth_list_update_eq nth_list_update_neq)

lemma table_same:
  assumes "table_inv hs m" "0 < i" "i < length hs" "block_own b = block_own (hs ! i)" "no_alias b"
  shows "table_inv (hs[i := b]) m"
proof -
  have "(xms_own hs)(i := block_own b) = xms_own hs" using assms(2-4) by (intro fun_upd_idem) (simp add: xms_own_def)
  then show ?thesis using assms no_alias_upd [of hs b i] by (simp add: table_inv_def xms_own_upd)
qed

lemma contiguous_run: "contiguous qs \<Longrightarrow> qs \<noteq> [] \<Longrightarrow> mem_handle b = int (hd qs) \<Longrightarrow> get_num_pages (size_kb b) = length qs \<Longrightarrow> block_run b = qs"
  unfolding block_run_def contiguous_def by simp

lemma block_run_start:
  assumes "table_inv hs m" "0 < i" "i < length hs" "\<not> is_free (hs ! i)" "size_kb (hs ! i) \<noteq> 0"
  shows "xms_own hs i = Some (block_run (hs ! i))" "mem_handle (hs ! i) = int (hd (block_run (hs ! i)))" "contiguous (block_run (hs ! i))"
    "0 < mem_handle (hs ! i)" "length (block_run (hs ! i)) = get_num_pages (size_kb (hs ! i))"
proof -
  have n: "0 < get_num_pages (size_kb (hs ! i))" using assms(5) num_pages_zero by blast
  show o: "xms_own hs i = Some (block_run (hs ! i))" using assms by (simp add: xms_own_def block_own_def)
  have "owns pool m (xms_own hs)" using assms(1) by (simp add: table_inv_def)
  from mp.owns_start [OF this o] have "0 < hd (block_run (hs ! i))" by simp
  moreover have h: "hd (block_run (hs ! i)) = nat (mem_handle (hs ! i))" using n by (simp add: block_run_def hd_upt)
  ultimately show "0 < mem_handle (hs ! i)" by simp
  then show "mem_handle (hs ! i) = int (hd (block_run (hs ! i)))" using h by simp
  show "contiguous (block_run (hs ! i))" unfolding contiguous_def h by (simp add: block_run_def)
  show "length (block_run (hs ! i)) = get_num_pages (size_kb (hs ! i))" by (simp add: block_run_def)
qed

section \<open>Blocks\<close>

lemma find_free_handle_some:
  "find_free_handle bs k = Some i \<Longrightarrow> k \<le> i \<and> i < k + length bs \<and> is_free (bs ! (i - k)) \<and> (\<forall>j. k \<le> j \<and> j < i \<longrightarrow> \<not> is_free (bs ! (j - k)))"
proof (induction bs arbitrary: k)
  case (Cons b bs)
  show ?case
  proof (cases "is_free b")
    case False
    then have a: "k + 1 \<le> i \<and> i < k + 1 + length bs \<and> is_free (bs ! (i - (k + 1))) \<and> (\<forall>j. k + 1 \<le> j \<and> j < i \<longrightarrow> \<not> is_free (bs ! (j - (k + 1))))"
      using Cons.IH [of "k + 1"] Cons.prems by simp
    have "\<not> is_free ((b # bs) ! (j - k))" if "k \<le> j" "j < i" for j
      using a False that by (cases "j = k") (auto simp: nth_Cons' less_eq_Suc_le [symmetric])
    moreover have "is_free ((b # bs) ! (i - k))" using a by (auto simp: nth_Cons')
    ultimately show ?thesis using a by simp
  qed (use Cons.prems in auto)
qed simp

lemma find_free_handle_none: "find_free_handle bs k = None \<longleftrightarrow> (\<forall>b\<in>set bs. \<not> is_free b)"
  by (induction bs arbitrary: k) auto

lemma alloc_table:
  assumes inv: "table_inv hs m" and i: "0 < i" "i < length hs" and own: "block_own (hs ! i) = None" and kb: "kb \<noteq> 0"
  shows "MEM_AllocatePages (get_num_pages kb) True m = Some (0, m) \<or>
    (\<exists>h m'. MEM_AllocatePages (get_num_pages kb) True m = Some (h, m') \<and> 0 < h \<and> ram m' = ram m \<and> mem_rest m' = mem_rest m \<and>
      (\<forall>b. \<not> is_free b \<and> size_kb b = kb \<and> mem_handle b = h \<longrightarrow> table_inv (hs[i := b]) m'))"
proof -
  have n: "0 < get_num_pages kb" using kb num_pages_zero by blast
  have o: "owns pool m (xms_own hs)" "ram_above m" "length hs = NumXmsHandles" and na: "\<forall>i. 0 < i \<and> i < length hs \<longrightarrow> no_alias (hs ! i)"
    using inv by (simp_all add: table_inv_def)
  have "xms_own hs i = None" using i own by (simp add: xms_own_def)
  from mp.owns_alloc [OF o(1,2) n this] show ?thesis
  proof (elim disjE exE conjE)
    fix qs m' assume qs: "MEM_AllocatePages (get_num_pages kb) True m = Some (int (hd qs), m')" "0 < hd qs" "length qs = get_num_pages kb" "contiguous qs"
      "owns pool m' ((xms_own hs)(i \<mapsto> qs))" "ram_above m'" "mem_rest m' = mem_rest m" "ram m' = ram m"
    have "table_inv (hs[i := b]) m'" if b: "\<not> is_free b" "size_kb b = kb" "mem_handle b = int (hd qs)" for b
    proof -
      have "block_run b = qs" using qs(3,4) b n by (intro contiguous_run) auto
      then have "block_own b = Some qs" using b kb by (simp add: block_own_def)
      then show ?thesis using qs(5,6) o(3) i no_alias_upd [OF na, of b i] b kb by (simp add: table_inv_def xms_own_upd no_alias_def)
    qed
    then show ?thesis using qs(1,2,7,8) by auto
  qed simp
qed

lemma release_none: "h \<le> 0 \<Longrightarrow> MEM_ReleasePages h m = Some m"
  by (simp add: MEM_ReleasePages.simps)

lemma release_table:
  assumes inv: "table_inv hs m" and i: "0 < i" "i < length hs" and live: "\<not> is_free (hs ! i)"
  shows "\<exists>m'. MEM_ReleasePages (mem_handle (hs ! i)) m = Some m' \<and> ram m' = ram m \<and> mem_rest m' = mem_rest m \<and>
    (\<forall>b. block_own b = None \<and> no_alias b \<longrightarrow> table_inv (hs[i := b]) m')"
proof (cases "size_kb (hs ! i) = 0")
  case True
  then have "mem_handle (hs ! i) \<le> 0" using inv i live by (auto simp: table_inv_def no_alias_def)
  moreover have "block_own (hs ! i) = None" using True by (simp add: block_own_def)
  ultimately show ?thesis using table_same [OF inv i] by (simp add: release_none)
next
  case False
  note r = block_run_start [OF inv i live False]
  have o: "owns pool m (xms_own hs)" "ram_above m" "length hs = NumXmsHandles" and na: "\<forall>i. 0 < i \<and> i < length hs \<longrightarrow> no_alias (hs ! i)"
    using inv by (simp_all add: table_inv_def)
  from mp.owns_release [OF o(1,2) r(1)] obtain m' where m': "MEM_ReleasePages (mem_handle (hs ! i)) m = Some m'"
    "owns pool m' ((xms_own hs)(i := None))" "ram_above m'" "mem_rest m' = mem_rest m" "ram m' = ram m" unfolding r(2) [symmetric] by blast
  have "table_inv (hs[i := b]) m'" if "block_own b = None" "no_alias b" for b
    using m'(2,3) o(3) i no_alias_upd [OF na that(2), of i] that(1) by (simp add: table_inv_def xms_own_upd)
  then show ?thesis using m' by blast
qed

text \<open>What a resize does to the bytes: all other blocks keep theirs, the block keeps those of the pages it still has.\<close>

definition bytes_kept :: "XMS_Block list \<Rightarrow> nat \<Rightarrow> u32 \<Rightarrow> MemoryBlock \<Rightarrow> MemoryBlock \<Rightarrow> MemHandle \<Rightarrow> bool" where
  "bytes_kept hs i kb m m' h \<longleftrightarrow> (\<forall>k rs. k \<noteq> i \<and> xms_own hs k = Some rs \<longrightarrow> block_bytes (ram m') rs = block_bytes (ram m) rs) \<and>
     (let n = min (get_num_pages (size_kb (hs ! i))) (get_num_pages kb) in
      block_bytes (ram m') [nat h..<nat h + n] = block_bytes (ram m) [nat (mem_handle (hs ! i))..<nat (mem_handle (hs ! i)) + n])"

lemma bytes_kept_same: "ram m' = ram m \<Longrightarrow> size_kb (hs ! i) = 0 \<or> kb = 0 \<or> h = mem_handle (hs ! i) \<Longrightarrow> bytes_kept hs i kb m m' h"
  by (auto simp: bytes_kept_def num_pages_zero Let_def get_num_pages_def)

lemma resize_table:
  assumes inv: "table_inv hs m" and i: "0 < i" "i < length hs" and live: "\<not> is_free (hs ! i)"
  shows "\<exists>r. MEM_ReAllocatePages (mem_handle (hs ! i)) (get_num_pages kb) True m = Some r \<and> mem_rest (ra_mem r) = mem_rest m \<and>
    (if ra_ok r
     then table_inv (hs[i := (hs ! i)\<lparr>mem_handle := ra_handle r, size_kb := kb\<rparr>]) (ra_mem r) \<and> bytes_kept hs i kb m (ra_mem r) (ra_handle r)
     else table_inv (hs[i := (hs ! i)\<lparr>mem_handle := ra_handle r\<rparr>]) (ra_mem r) \<and> ram (ra_mem r) = ram m)"
proof -
  let ?b = "hs ! i"
  have na: "no_alias ?b" using inv i by (simp add: table_inv_def)
  consider (empty) "size_kb ?b = 0" "kb = 0" | (fill) "size_kb ?b = 0" "kb \<noteq> 0" | (clear) "size_kb ?b \<noteq> 0" "kb = 0" | (change) "size_kb ?b \<noteq> 0" "kb \<noteq> 0" by blast
  then show ?thesis
  proof cases
    case empty
    then have "mem_handle ?b \<le> 0" using na live by (simp add: no_alias_def)
    moreover have "table_inv (hs[i := ?b\<lparr>size_kb := 0\<rparr>]) m"
      using empty na by (intro table_same [OF inv i]) (simp_all add: block_own_def no_alias_def)
    moreover have "?b\<lparr>mem_handle := mem_handle ?b, size_kb := 0\<rparr> = ?b\<lparr>size_kb := 0\<rparr>" by simp
    ultimately show ?thesis using empty bytes_kept_same [of m m hs i kb]
      by (simp add: MEM_ReAllocatePages_def realloc_res_def num_pages_zero)
  next
    case fill
    then have h: "mem_handle ?b \<le> 0" using na live by (simp add: no_alias_def)
    have n: "get_num_pages kb \<noteq> 0" using fill num_pages_zero by blast
    have own: "block_own ?b = None" using fill by (simp add: block_own_def)
    from alloc_table [OF inv i own fill(2)] show ?thesis
    proof (elim disjE exE conjE)
      assume a: "MEM_AllocatePages (get_num_pages kb) True m = Some (0, m)"
      have "table_inv (hs[i := ?b\<lparr>mem_handle := 0\<rparr>]) m"
        using fill by (intro table_same [OF inv i]) (simp_all add: block_own_def no_alias_def)
      then show ?thesis using a h n by (simp add: MEM_ReAllocatePages_def realloc_res_def)
    next
      fix h' m' assume a: "MEM_AllocatePages (get_num_pages kb) True m = Some (h', m')" "0 < h'" "ram m' = ram m" "mem_rest m' = mem_rest m"
        "\<forall>b. \<not> is_free b \<and> size_kb b = kb \<and> mem_handle b = h' \<longrightarrow> table_inv (hs[i := b]) m'"
      then show ?thesis using h n live bytes_kept_same [OF a(3)] fill by (simp add: MEM_ReAllocatePages_def realloc_res_def)
    qed
  next
    case clear
    note r = block_run_start [OF inv i live clear(1)]
    from release_table [OF inv i live] obtain m' where m': "MEM_ReleasePages (mem_handle ?b) m = Some m'" "ram m' = ram m" "mem_rest m' = mem_rest m"
      "\<forall>b. block_own b = None \<and> no_alias b \<longrightarrow> table_inv (hs[i := b]) m'" by blast
    have "table_inv (hs[i := ?b\<lparr>mem_handle := - 1, size_kb := 0\<rparr>]) m'" using m'(4) by (simp add: block_own_def no_alias_def)
    then show ?thesis using r(4) m'(1-3) clear bytes_kept_same [OF m'(2)] by (simp add: MEM_ReAllocatePages_def realloc_res_def num_pages_zero)
  next
    case change
    note r = block_run_start [OF inv i live change(1)]
    have o: "owns pool m (xms_own hs)" "ram_above m" "length hs = NumXmsHandles" and nas: "\<forall>i. 0 < i \<and> i < length hs \<longrightarrow> no_alias (hs ! i)"
      using inv by (simp_all add: table_inv_def)
    have n: "0 < get_num_pages kb" using change num_pages_zero by blast
    from mp.owns_resize [OF o(1,2) r(1,3) n] show ?thesis unfolding r(2) [symmetric]
    proof (elim disjE exE conjE)
      assume "resize_pages (mem_handle ?b) (get_num_pages kb) m = Some (False, mem_handle ?b, m)"
      then obtain x where "MEM_ReAllocatePages (mem_handle ?b) (get_num_pages kb) True m = Some x" "\<not> ra_ok x" "ra_handle x = mem_handle ?b" "ra_mem x = m"
        by (auto simp: resize_pages_def)
      then show ?thesis using inv by (simp add: list_update_id)
    next
      fix qs m' assume q: "resize_pages (mem_handle ?b) (get_num_pages kb) m = Some (True, int (hd qs), m')" "0 < hd qs" "length qs = get_num_pages kb"
        "contiguous qs" "owns pool m' ((xms_own hs)(i \<mapsto> qs))" "ram_above m'" "mem_rest m' = mem_rest m"
        "\<forall>k rs. k \<noteq> i \<and> xms_own hs k = Some rs \<longrightarrow> block_bytes (ram m') rs = block_bytes (ram m) rs"
        "block_bytes (ram m') (take (min (length (block_run ?b)) (get_num_pages kb)) qs) =
          block_bytes (ram m) (take (min (length (block_run ?b)) (get_num_pages kb)) (block_run ?b))"
      from q(1) obtain x where x: "MEM_ReAllocatePages (mem_handle ?b) (get_num_pages kb) True m = Some x" "ra_ok x" "ra_handle x = int (hd qs)" "ra_mem x = m'"
        by (auto simp: resize_pages_def)
      let ?b' = "?b\<lparr>mem_handle := int (hd qs), size_kb := kb\<rparr>"
      have "block_run ?b' = qs" using q(3,4) n by (intro contiguous_run) auto
      then have "block_own ?b' = Some qs" using change live by (simp add: block_own_def)
      moreover have "no_alias ?b'" using change by (simp add: no_alias_def)
      ultimately have "table_inv (hs[i := ?b']) m'"
        using q(5,6) o(3) i no_alias_upd [OF nas, of ?b' i] by (simp add: table_inv_def xms_own_upd)
      moreover have "bytes_kept hs i kb m m' (int (hd qs))"
      proof -
        let ?k = "min (get_num_pages (size_kb ?b)) (get_num_pages kb)"
        have "take ?k qs = [hd qs..<hd qs + ?k]"
          by (subst q(4) [unfolded contiguous_def]) (simp add: take_upt q(3))
        moreover have "take ?k (block_run ?b) = [nat (mem_handle ?b)..<nat (mem_handle ?b) + ?k]" by (simp add: block_run_def take_upt)
        ultimately show ?thesis using q(8,9) r(5) unfolding bytes_kept_def Let_def by simp
      qed
      ultimately show ?thesis using x q(7) by auto
    qed
  qed
qed

end
