(* ===== verification/Xms_Ops.thy ===== *)
theory Xms_Ops
  imports Xms_Inv
begin

text \<open>
  Every driver function returns and keeps the invariant, unless it allocates a block of size zero.
\<close>

unbundle bit_operations_syntax

section \<open>Gate and moves\<close>

lemma table_gate [simp]: "table_inv hs (MEM_A20_Enable e m) = table_inv hs m"
  by (rule table_frame) simp_all

lemma rest_gate: "mem_rest m' = mem_rest m \<Longrightarrow> gate_latch m' = gate_latch m \<and> a20_enabled m' = a20_enabled m"
  by (simp add: mem_rest_def gate_latch_def)

lemma local_enable_inv:
  assumes "xms_inv s"
  shows "\<exists>res s'. a20_local_enable s = Some (res, s') \<and> xms_inv s' \<and> handles s' = handles s \<and>
    (if num_times_enabled s = 0xffffffff then res = A20LineError \<and> s' = s
     else res = ResultOK \<and> num_times_enabled s' = num_times_enabled s + 1)"
proof (cases "num_times_enabled s = 0")
  case True
  then show ?thesis using assms a20_enable_value [of "s\<lparr>num_times_enabled := 1\<rparr>" True]
    by (simp add: a20_local_enable_def xms_inv_def A20MaxTimesEnabled_def Let_def)
next
  case False
  have "num_times_enabled s + 1 \<noteq> 0" if "num_times_enabled s \<noteq> 0xffffffff"
  proof
    assume "num_times_enabled s + 1 = 0"
    then have "num_times_enabled s = - 1" by (rule eq_neg_iff_add_eq_0 [THEN iffD2])
    moreover have "(- 1 :: u32) = 0xffffffff" by simp
    ultimately show False using that by metis
  qed
  then show ?thesis using False assms by (simp add: a20_local_enable_def xms_inv_def A20MaxTimesEnabled_def Let_def)
qed

lemma local_disable_inv:
  assumes "xms_inv s"
  shows "\<exists>res s'. a20_local_disable s = Some (res, s') \<and> xms_inv s' \<and> handles s' = handles s \<and>
    (if num_times_enabled s = 0 then res = A20LineError \<and> s' = s
     else num_times_enabled s' = num_times_enabled s - 1 \<and> res = (if num_times_enabled s' = 0 then ResultOK else A20StillEnabled))"
proof -
  have e: "a20_enable False (s\<lparr>num_times_enabled := n\<rparr>) = Some (s\<lparr>num_times_enabled := n, mem := MEM_A20_Enable False (mem s)\<rparr>)" for n
    using a20_enable_value [of "s\<lparr>num_times_enabled := n\<rparr>" False] assms by (simp add: xms_inv_def)
  consider "num_times_enabled s = 0" | "num_times_enabled s \<noteq> 0" "num_times_enabled s - 1 = 0" | "num_times_enabled s \<noteq> 0" "num_times_enabled s - 1 \<noteq> 0" by blast
  then show ?thesis
    by cases (use assms e in \<open>simp_all add: a20_local_disable_def xms_inv_def Let_def\<close>)
qed

lemma memcpy_frame: "\<exists>R. mem_memcpy d p n m = m\<lparr>ram := R\<rparr>"
proof (induction n arbitrary: d p m)
  case 0
  have "m = m\<lparr>ram := ram m\<rparr>" by simp
  then show ?case by (metis mem_memcpy.simps(1))
next
  case (Suc n)
  have "\<exists>R. mem_writeb d v m = m\<lparr>ram := R\<rparr>" for v
    by (cases "MEM_GetPageHandler (InitPage (drop_bit 12 d) m) m") (auto simp: mem_writeb_def intro: exI [of _ "ram m"])
  then obtain R where "mem_writeb d (mem_readb p m) m = m\<lparr>ram := R\<rparr>" by blast
  moreover obtain R' where "mem_memcpy (d + 1) (p + 1) n (m\<lparr>ram := R\<rparr>) = m\<lparr>ram := R, ram := R'\<rparr>" using Suc by blast
  ultimately have "mem_memcpy d p (Suc n) m = m\<lparr>ram := R'\<rparr>" by simp
  then show ?case by blast
qed

text \<open>During a move the gate is open; afterwards gate and count are as before.\<close>

lemma move_bytes_value:
  assumes "xms_inv s"
  shows "\<exists>m'. move_bytes d p n s = Some (s\<lparr>mem := m'\<rparr>) \<and> ram m' = ram (mem_memcpy d p (unat n) (MEM_A20_Enable True (mem s))) \<and>
    mhandles m' = mhandles (mem s) \<and> phandlers m' = phandlers (mem s) \<and> a20_enabled m' = a20_enabled (mem s) \<and>
    a20_controlport m' = a20_controlport (mem s)"
proof -
  have g: "gate_latch (mem s)" using assms by (simp add: xms_inv_def)
  obtain R where R: "mem_memcpy d p (unat n) (MEM_A20_Enable True (mem s)) = (MEM_A20_Enable True (mem s))\<lparr>ram := R\<rparr>" using memcpy_frame by blast
  let ?m = "(MEM_A20_Enable True (mem s))\<lparr>ram := R\<rparr>"
  have e: "a20_enable True (s\<lparr>num_times_enabled := num_times_enabled s + 1\<rparr>) =
    Some (s\<lparr>num_times_enabled := num_times_enabled s + 1, mem := MEM_A20_Enable True (mem s)\<rparr>)"
    using a20_enable_value [of "s\<lparr>num_times_enabled := num_times_enabled s + 1\<rparr>" True] g by simp
  have s3: "s\<lparr>num_times_enabled := num_times_enabled s + 1, mem := x, num_times_enabled := num_times_enabled s\<rparr> = s\<lparr>mem := x\<rparr>" for x by simp
  have g2: "gate_latch ?m" using g by (simp add: gate_latch_def)
  show ?thesis
  proof (cases "a20_enabled (mem s)")
    case True
    then have "move_bytes d p n s = Some (s\<lparr>mem := ?m\<rparr>)"
      using e R a20_is_enabled_value [OF g] by (simp add: move_bytes_def Let_def)
    then show ?thesis using True R by (intro exI [of _ ?m]) simp
  next
    case False
    have "a20_enable False (s\<lparr>mem := ?m\<rparr>) = Some (s\<lparr>mem := MEM_A20_Enable False ?m\<rparr>)"
      using a20_enable_value [of "s\<lparr>mem := ?m\<rparr>" False] g2 by simp
    then have "move_bytes d p n s = Some (s\<lparr>mem := MEM_A20_Enable False ?m\<rparr>)"
      using e R a20_is_enabled_value [OF g] False by (simp add: move_bytes_def Let_def)
    then show ?thesis using False R by (intro exI [of _ "MEM_A20_Enable False ?m"]) simp
  qed
qed

lemma move_memory_inv:
  assumes "xms_inv s"
  shows "\<exists>res s'. xms_move_memory bpt s = Some (res, s') \<and> xms_inv s' \<and> handles s' = handles s"
proof -
  have m: "\<exists>s'. move_bytes d p n s = Some s' \<and> xms_inv s' \<and> handles s' = handles s" for d p n
  proof -
    obtain m' where m': "move_bytes d p n s = Some (s\<lparr>mem := m'\<rparr>)" "mhandles m' = mhandles (mem s)" "phandlers m' = phandlers (mem s)"
      "a20_enabled m' = a20_enabled (mem s)" "a20_controlport m' = a20_controlport (mem s)" using move_bytes_value [OF assms, of d p n] by blast
    have "table_inv (handles s) m' = table_inv (handles s) (mem s)" using m'(2,3) by (rule table_frame)
    then show ?thesis using m' assms by (simp add: xms_inv_def gate_latch_def)
  qed
  show ?thesis unfolding xms_move_memory_def Let_def
    using assms m by (fastforce split: sum.split)
qed

section \<open>Blocks\<close>

lemma valid_index: "xms_inv s \<Longrightarrow> xms_is_handle_valid h s \<Longrightarrow> 0 < unat h \<and> unat h < length (handles s) \<and> \<not> is_free (handles s ! unat h)"
  by (simp add: xms_inv_def table_inv_def xms_is_handle_valid_def unat_gt_0)

lemma xms_inv_mem: "xms_inv s \<Longrightarrow> table_inv hs m \<Longrightarrow> mem_rest m = mem_rest (mem s) \<Longrightarrow> xms_inv (s\<lparr>mem := m, handles := hs\<rparr>)"
  using rest_gate [of m "mem s"] by (simp add: xms_inv_def)

lemma xms_allocate_inv:
  assumes inv: "xms_inv s" and kb: "kb \<noteq> 0"
  shows "\<exists>res h s'. xms_allocate_memory kb s = Some (res, h, s') \<and> xms_inv s' \<and>
    (if res = ResultOK then 0 < unat h \<and> unat h < NumXmsHandles \<and> is_free (handles s ! unat h) \<and> ram (mem s') = ram (mem s) \<and>
       (\<exists>m. 0 < m \<and> handles s' = (handles s)[unat h := \<lparr>size_kb = kb, mem_handle = m, lock_count = 0, is_free = False\<rparr>])
     else h = 0 \<and> s' = s \<and> (if \<exists>i. 0 < i \<and> i < NumXmsHandles \<and> is_free (handles s ! i) then res = XmsOutOfSpace else res = XmsOutOfHandles))"
proof (cases "find_free_handle (drop 1 (handles s)) 1")
  case None
  have len: "length (handles s) = NumXmsHandles" using inv by (simp add: xms_inv_def table_inv_def)
  have "\<not> is_free (handles s ! i)" if "0 < i" "i < NumXmsHandles" for i
  proof -
    have "handles s ! i = drop 1 (handles s) ! (i - 1)" "i - 1 < length (drop 1 (handles s))" using that len by simp_all
    then show ?thesis using None unfolding find_free_handle_none by (metis nth_mem)
  qed
  then show ?thesis using None inv by (auto simp: xms_allocate_memory_def)
next
  case (Some i)
  have tb: "table_inv (handles s) (mem s)" and len: "length (handles s) = NumXmsHandles" using inv by (simp_all add: xms_inv_def table_inv_def)
  from find_free_handle_some [OF Some] have i: "0 < i" "i < length (handles s)" "is_free (handles s ! i)" by auto
  have u: "unat (of_nat i :: u16) = i" using i len by (simp add: unat_of_nat NumXmsHandles_def)
  have own: "block_own (handles s ! i) = None" using i by (simp add: block_own_def)
  from alloc_table [OF tb i(1,2) own kb] show ?thesis
  proof (elim disjE exE conjE)
    assume "MEM_AllocatePages (get_num_pages kb) True (mem s) = Some (0, mem s)"
    then show ?thesis using Some kb inv i len by (auto simp: xms_allocate_memory_def)
  next
    fix h m' assume a: "MEM_AllocatePages (get_num_pages kb) True (mem s) = Some (h, m')" "0 < h" "ram m' = ram (mem s)" "mem_rest m' = mem_rest (mem s)"
      "\<forall>b. \<not> is_free b \<and> size_kb b = kb \<and> mem_handle b = h \<longrightarrow> table_inv ((handles s)[i := b]) m'"
    let ?b = "\<lparr>size_kb = kb, mem_handle = h, lock_count = 0, is_free = False\<rparr>"
    have "xms_inv (s\<lparr>mem := m', handles := (handles s)[i := ?b]\<rparr>)" using a(5) by (intro xms_inv_mem [OF inv _ a(4)]) simp
    then show ?thesis using Some kb a i len u by (auto simp: xms_allocate_memory_def upd_handle_def)
  qed
qed

lemma xms_free_inv:
  assumes inv: "xms_inv s"
  shows "\<exists>res s'. xms_free_memory h s = Some (res, s') \<and> xms_inv s' \<and> ram (mem s') = ram (mem s) \<and>
    (if \<not> xms_is_handle_valid h s then res = XmsInvalidHandle \<and> s' = s
     else if lock_count (handles s ! unat h) \<noteq> 0 then res = XmsBlockLocked \<and> s' = s
     else res = ResultOK \<and> handles s' = (handles s)[unat h := XMS_Block_init])"
proof (cases "xms_is_handle_valid h s \<and> lock_count (handles s ! unat h) = 0")
  case False
  then show ?thesis using inv by (auto simp: xms_free_memory_def)
next
  case True
  have tb: "table_inv (handles s) (mem s)" using inv by (simp add: xms_inv_def)
  from valid_index [OF inv] True have i: "0 < unat h" "unat h < length (handles s)" "\<not> is_free (handles s ! unat h)" by simp_all
  from release_table [OF tb i] obtain m' where m': "MEM_ReleasePages (mem_handle (handles s ! unat h)) (mem s) = Some m'" "ram m' = ram (mem s)"
    "mem_rest m' = mem_rest (mem s)" "\<forall>b. block_own b = None \<and> no_alias b \<longrightarrow> table_inv ((handles s)[unat h := b]) m'" by blast
  have "xms_inv (s\<lparr>mem := m', handles := (handles s)[unat h := XMS_Block_init]\<rparr>)"
    using m'(4) by (intro xms_inv_mem [OF inv _ m'(3)]) (simp add: XMS_Block_init_def block_own_def no_alias_def)
  then show ?thesis using True m'(1,2) by (auto simp: xms_free_memory_def upd_handle_def)
qed

lemma xms_resize_inv:
  assumes inv: "xms_inv s"
  shows "\<exists>res s'. xms_resize_memory h kb s = Some (res, s') \<and> xms_inv s' \<and>
    (if \<not> xms_is_handle_valid h s then res = XmsInvalidHandle \<and> s' = s
     else if lock_count (handles s ! unat h) \<noteq> 0 then res = XmsBlockLocked \<and> s' = s
     else \<exists>m. (if res = ResultOK
        then handles s' = (handles s)[unat h := (handles s ! unat h)\<lparr>mem_handle := m, size_kb := kb\<rparr>] \<and> bytes_kept (handles s) (unat h) kb (mem s) (mem s') m
        else res = XmsOutOfSpace \<and> handles s' = (handles s)[unat h := (handles s ! unat h)\<lparr>mem_handle := m\<rparr>] \<and> ram (mem s') = ram (mem s)))"
proof (cases "xms_is_handle_valid h s \<and> lock_count (handles s ! unat h) = 0")
  case False
  then show ?thesis using inv by (auto simp: xms_resize_memory_def Let_def)
next
  case True
  have tb: "table_inv (handles s) (mem s)" using inv by (simp add: xms_inv_def)
  from valid_index [OF inv] True have i: "0 < unat h" "unat h < length (handles s)" "\<not> is_free (handles s ! unat h)" by simp_all
  let ?b = "handles s ! unat h"
  from resize_table [OF tb i, of kb] obtain r where r: "MEM_ReAllocatePages (mem_handle ?b) (get_num_pages kb) True (mem s) = Some r"
    "mem_rest (ra_mem r) = mem_rest (mem s)"
    "if ra_ok r then table_inv ((handles s)[unat h := ?b\<lparr>mem_handle := ra_handle r, size_kb := kb\<rparr>]) (ra_mem r) \<and>
        bytes_kept (handles s) (unat h) kb (mem s) (ra_mem r) (ra_handle r)
     else table_inv ((handles s)[unat h := ?b\<lparr>mem_handle := ra_handle r\<rparr>]) (ra_mem r) \<and> ram (ra_mem r) = ram (mem s)" by blast
  show ?thesis
  proof (cases "ra_ok r")
    case ok: True
    have "xms_inv (s\<lparr>mem := ra_mem r, handles := (handles s)[unat h := ?b\<lparr>mem_handle := ra_handle r, size_kb := kb\<rparr>]\<rparr>)"
      using r(3) ok by (intro xms_inv_mem [OF inv _ r(2)]) simp
    then show ?thesis using True r(1,3) ok by (auto simp: xms_resize_memory_def upd_handle_def Let_def)
  next
    case ok: False
    have "xms_inv (s\<lparr>mem := ra_mem r, handles := (handles s)[unat h := ?b\<lparr>mem_handle := ra_handle r\<rparr>]\<rparr>)"
      using r(3) ok by (intro xms_inv_mem [OF inv _ r(2)]) simp
    then show ?thesis using True r(1,3) ok by (auto simp: xms_resize_memory_def upd_handle_def Let_def)
  qed
qed

lemma xms_lock_inv:
  assumes inv: "xms_inv s"
  shows "xms_inv (snd (snd (xms_lock_memory h s)))" "xms_inv (snd (xms_unlock_memory h s))"
proof -
  have "xms_inv (upd_handle (unat h) ((handles s ! unat h)\<lparr>lock_count := c\<rparr>) s)" if v: "xms_is_handle_valid h s" for c
  proof -
    from valid_index [OF inv v] have i: "0 < unat h" "unat h < length (handles s)" by simp_all
    have tb: "table_inv (handles s) (mem s)" using inv by (simp add: xms_inv_def)
    then have "no_alias (handles s ! unat h)" using i by (simp add: table_inv_def)
    then have "table_inv ((handles s)[unat h := (handles s ! unat h)\<lparr>lock_count := c\<rparr>]) (mem s)"
      by (intro table_same [OF tb i]) (simp_all add: block_own_def block_run_def no_alias_def)
    then show ?thesis using inv by (simp add: xms_inv_def upd_handle_def)
  qed
  then show "xms_inv (snd (snd (xms_lock_memory h s)))" "xms_inv (snd (xms_unlock_memory h s))"
    using inv by (simp_all add: xms_lock_memory_def xms_unlock_memory_def Let_def)
qed

section \<open>Upper memory\<close>

lemma link_returns: "dm_wf d \<Longrightarrow> \<exists>b d'. DOS_LinkUMBsToMemChain v d = Some (b, d') \<and> dm_wf d'"
  using dm_exec_wf [of d "OpLink v"] by auto

lemma strategy_wf: "dm_wf d \<Longrightarrow> dm_wf (snd (DOS_SetMemAllocStrategy v d))"
  using dm_exec_wf [of d "OpStrategy v"] by simp

lemma request_umb_inv:
  assumes "dm_wf (dos s)"
  shows "\<exists>r' d. request_umb r s = Some (r', s\<lparr>dos := d\<rparr>) \<and> dm_wf d"
proof (cases "umb_is_available s \<and> startOfUMBChain (dos s) \<noteq> 0xffff")
  case False
  then have "\<exists>r'. request_umb r s = Some (r', s\<lparr>dos := dos s\<rparr>)" by (auto simp: request_umb_def)
  then show ?thesis using assms by blast
next
  case True
  let ?u = "chainingUMB (dos s)"
  have "\<exists>d1. (if ?u AND 1 = 0 then map_option snd (DOS_LinkUMBsToMemChain 1 (dos s)) else Some (dos s)) = Some d1 \<and> dm_wf d1"
    using link_returns [OF assms, of 1] assms by auto
  then obtain d1 where d1: "(if ?u AND 1 = 0 then map_option snd (DOS_LinkUMBsToMemChain 1 (dos s)) else Some (dos s)) = Some d1" "dm_wf d1" by blast
  have w2: "dm_wf (snd (DOS_SetMemAllocStrategy 0x40 d1))" by (rule strategy_wf [OF d1(2)])
  obtain res d3 where d3: "DOS_AllocateMemory (low_word (reg_edx r)) (snd (DOS_SetMemAllocStrategy 0x40 d1)) = Some (Inr (res, d3))" "dm_wf d3"
    using dm_exec_wf [OF w2, of "OpAlloc (low_word (reg_edx r))"] by (auto simp: and_then_def split: option.splits sum.splits)
  have "\<exists>d4. (if chainingUMB d3 AND 1 \<noteq> ?u AND 1 then map_option snd (DOS_LinkUMBsToMemChain (ucast ?u) d3) else Some d3) = Some d4 \<and> dm_wf d4"
    using link_returns [OF d3(2), of "ucast ?u"] d3(2) by auto
  then obtain d4 where d4: "(if chainingUMB d3 AND 1 \<noteq> ?u AND 1 then map_option snd (DOS_LinkUMBsToMemChain (ucast ?u) d3) else Some d3) = Some d4" "dm_wf d4" by blast
  show ?thesis unfolding request_umb_def using True d1(1) d3(1) d4 strategy_wf [OF d4(2)]
    by (simp add: exits_def Let_def) blast
qed

lemma release_umb_inv:
  assumes "dm_wf (dos s)" and "low_word (reg_edx r) \<noteq> 0xA000"
  shows "\<exists>r' d. release_umb r s = (r', s\<lparr>dos := d\<rparr>) \<and> dm_wf d"
proof -
  have "dm_wf (snd (DOS_FreeMemory (low_word (reg_edx r)) (dos s)))"
    using dm_exec_wf [OF assms(1), of "OpFree (low_word (reg_edx r))"] assms(2) by simp
  moreover have "\<exists>d. s = s\<lparr>dos := d\<rparr> \<and> dm_wf d" using assms(1) by (intro exI [of _ "dos s"]) simp
  ultimately show ?thesis unfolding release_umb_def by (auto split: prod.split)
qed

section \<open>The handler\<close>

text \<open>
  The calls that keep the invariant: all but the allocation of a block of size zero and the release of the
  system block that covers the video memory.
\<close>

definition xms_allowed :: "guest_regs \<Rightarrow> bool" where
  "xms_allowed r = (let ah = high_byte (reg_eax r) in
     \<not> (ah = 0x09 \<and> low_word (reg_edx r) = 0) \<and> \<not> (ah = 0x89 \<and> reg_edx r = 0) \<and> \<not> (ah = 0x11 \<and> low_word (reg_edx r) = 0xA000))"

definition returns_inv :: "(guest_regs \<times> xms_state) option \<Rightarrow> bool" where
  "returns_inv x \<longleftrightarrow> (\<exists>r' s'. x = Some (r', s') \<and> xms_inv s')"

lemma returns_inv_simps:
  "xms_inv s \<Longrightarrow> returns_inv (Some (r, s))"
  "\<exists>res s'. y = Some (res, s') \<and> xms_inv s' \<Longrightarrow> returns_inv (result_call r y)"
  by (auto simp: returns_inv_def result_call_def)

lemma returns_if: "(c \<Longrightarrow> returns_inv a) \<Longrightarrow> (\<not> c \<Longrightarrow> returns_inv b) \<Longrightarrow> returns_inv (if c then a else b)"
  by simp

lemma inv_update [simp]:
  "xms_inv (s\<lparr>enable_global := e\<rparr>) = xms_inv s" "xms_inv (s\<lparr>app_has_control := e\<rparr>) = xms_inv s"
  by (simp_all add: xms_inv_def)

lemma hma_inv: "xms_inv s \<Longrightarrow> returns_inv (Some (request_hma r s))" "xms_inv s \<Longrightarrow> returns_inv (Some (release_hma r s))"
  by (simp_all add: request_hma_def release_hma_def returns_inv_def)

lemma global_inv:
  assumes "xms_inv s"
  shows "returns_inv (global_enable_a20 r s)" "returns_inv (global_disable_a20 r s)"
  using local_enable_inv [OF assms] local_disable_inv [OF assms] assms
  by (auto simp: global_enable_a20_def global_disable_a20_def returns_inv_def)

lemma allocate_call_inv: "xms_inv s \<Longrightarrow> kb \<noteq> 0 \<Longrightarrow> returns_inv (allocate_call kb r s)"
  using xms_allocate_inv [of s kb] by (auto simp: allocate_call_def returns_inv_def)

lemma dos_update_inv: "xms_inv s \<Longrightarrow> dm_wf d \<Longrightarrow> xms_inv (s\<lparr>dos := d\<rparr>)"
  by (simp add: xms_inv_def)

lemma XMS_Handler_inv:
  assumes inv: "xms_inv s" and al: "xms_allowed r"
  shows "\<exists>r' s'. XMS_Handler r s = Some (r', s') \<and> xms_inv s'"
proof -
  note some = returns_inv_simps(1) [OF inv]
  have dw: "dm_wf (dos s)" using inv by (simp add: xms_inv_def)
  have dx: "ucast (low_word (reg_edx r)) \<noteq> (0 :: u32)" if "low_word (reg_edx r) \<noteq> 0"
    using that by (simp add: ucast_up_eq_0)
  have mv: "returns_inv (do { (result, s') \<leftarrow> xms_move_memory p s; Some (f result, s') })" for p f
    using move_memory_inv [OF inv, of p] by (auto simp: returns_inv_def)
  have lk: "returns_inv (case xms_lock_memory h s of (result, address, s') \<Rightarrow> Some (g result address, s'))" for h g
    using xms_lock_inv(1) [OF inv, of h] by (auto simp: returns_inv_def split: prod.splits)
  have ul: "returns_inv (result_call r (Some (xms_unlock_memory h s)))" for h
    using xms_lock_inv(2) [OF inv, of h] by (cases "xms_unlock_memory h s") (auto simp: returns_inv_def result_call_def)
  have fr: "returns_inv (result_call r (xms_free_memory h s))" for h using xms_free_inv [OF inv, of h] by (intro returns_inv_simps(2)) blast
  have rs: "returns_inv (result_call r (xms_resize_memory h kb s))" for h kb using xms_resize_inv [OF inv, of h kb] by (intro returns_inv_simps(2)) blast
  have le: "returns_inv (result_call r (a20_local_enable s))" using local_enable_inv [OF inv] by (intro returns_inv_simps(2)) blast
  have ld: "returns_inv (result_call r (a20_local_disable s))" using local_disable_inv [OF inv] by (intro returns_inv_simps(2)) blast
  have ru: "returns_inv (request_umb r s)" using request_umb_inv [OF dw, of r] dos_update_inv [OF inv] by (auto simp: returns_inv_def)
  have fu: "returns_inv (Some (release_umb r s))" if "low_word (reg_edx r) \<noteq> 0xA000"
    using release_umb_inv [OF dw that] dos_update_inv [OF inv] by (auto simp: returns_inv_def)
  have "returns_inv (XMS_Handler r s)"
    unfolding XMS_Handler_def Let_def
    by (intro returns_if some hma_inv [OF inv] global_inv [OF inv] mv lk ul fr rs le ld ru fu allocate_call_inv [OF inv])
      (use al dx in \<open>auto simp: xms_allowed_def\<close>)
  then show ?thesis by (simp add: returns_inv_def)
qed

end
