(* ===== verification/Xms_Props.thy ===== *)
theory Xms_Props
  imports Xms_Ops
begin

text \<open>
  The extended memory manager from start-up: the blocks of live handles stay apart, moves between blocks
  and conventional memory, and what a block of size zero does.
\<close>

unbundle bit_operations_syntax

section \<open>Start-up\<close>

lemma SetPageHandler_frame:
  "mhandles (MEM_SetPageHandler p n h m) = mhandles m" "length (phandlers (MEM_SetPageHandler p n h m)) = length (phandlers m)"
  "a20_enabled (MEM_SetPageHandler p n h m) = a20_enabled m" "a20_controlport (MEM_SetPageHandler p n h m) = a20_controlport m"
  "p + n \<le> q \<Longrightarrow> phandlers (MEM_SetPageHandler p n h m) ! q = phandlers m ! q"
  by (induction p n h m rule: MEM_SetPageHandler.induct) simp_all

lemma SetPageHandler_ram: "ram (MEM_SetPageHandler p n h m) = ram m" "firstmb_map (MEM_SetPageHandler p n h m) = firstmb_map m"
  "q < p \<Longrightarrow> phandlers (MEM_SetPageHandler p n h m) ! q = phandlers m ! q"
  by (induction p n h m rule: MEM_SetPageHandler.induct) simp_all

lemma MEM_Init_state:
  "mhandles (MEM_Init mb pcjr R f) = replicate (mb * 256) 0" "gate_latch (MEM_Init mb pcjr R f)" "\<not> a20_enabled (MEM_Init mb pcjr R f)"
  "mb \<le> 3072 \<Longrightarrow> ram_above (MEM_Init mb pcjr R f)"
  by (simp_all add: MEM_Init_def InitA20_def Let_def SetPageHandler_frame gate_latch_def ram_above_def XMS_START_def)

definition start_handles :: "XMS_Block list" where
  "start_handles = (replicate NumXmsHandles XMS_Block_init)[0 := XMS_Block_init\<lparr>is_free := False\<rparr>]"

lemma start_table:
  assumes "mhandles m = replicate n 0" "ram_above m"
  shows "table_inv start_handles m"
proof -
  have h: "start_handles ! i = XMS_Block_init" if "0 < i" "i < length start_handles" for i using that by (simp add: start_handles_def)
  then have "xms_own start_handles = Map.empty" by (auto simp: xms_own_def block_own_def XMS_Block_init_def)
  moreover have "pool m {}" using assms(1) by (simp add: pool_def)
  ultimately show ?thesis using assms(2) h by (auto simp: table_inv_def owns_def start_handles_def no_alias_def XMS_Block_init_def)
qed

text \<open>
  The states of a machine whose extended memory manager is installed at start-up: driver calls, stores to
  memory by the guest, and calls of the DOS memory manager in any order.
\<close>

inductive xms_reach :: "xms_state \<Rightarrow> bool" where
  boot: "XMS_Init True umb ems True seg s0 = Some s \<Longrightarrow> mem s0 = MEM_Init mb pcjr R f \<Longrightarrow> mb \<le> 3072 \<Longrightarrow>
    dos s0 = DOS_SetupMemory e d0 \<Longrightarrow> dos_psp d0 \<noteq> MCB_FREE \<Longrightarrow> xms_reach s"
| call: "xms_reach s \<Longrightarrow> xms_allowed r \<Longrightarrow> XMS_Handler r s = Some (r', s') \<Longrightarrow> xms_reach s'"
| store: "xms_reach s \<Longrightarrow> xms_reach (s\<lparr>mem := mem_writeb a v (mem s)\<rparr>)"
| dos: "xms_reach s \<Longrightarrow> dm_allowed op (dos s) \<Longrightarrow> dm_exec op (dos s) = Some (Inr d) \<Longrightarrow> xms_reach (s\<lparr>dos := d\<rparr>)"

lemma writeb_frame: "\<exists>R. mem_writeb a v m = m\<lparr>ram := R\<rparr>"
  by (cases "MEM_GetPageHandler (InitPage (drop_bit 12 a) m) m") (auto simp: mem_writeb_def intro: exI [of _ "ram m"])

lemma boot_inv:
  assumes "XMS_Init True umb ems True seg s0 = Some s" "mem s0 = MEM_Init mb pcjr R f" "mb \<le> 3072"
    "dos s0 = DOS_SetupMemory e d0" "dos_psp d0 \<noteq> MCB_FREE"
  shows "xms_inv s"
proof -
  obtain d where d: "DOS_BuildUMBChain umb ems (DOS_SetupMemory e d0) = Some d"
    and s: "handles s = start_handles" "mem s = mem s0" "num_times_enabled s = 0" "dos s = d"
    using assms(1,4) by (auto simp: XMS_Init_def Let_def BIOS_ZeroExtendedSize_def DOS_AddMultiplexHandler_def start_handles_def)
  have "dm_wf d" by (rule dm_reach_wf [OF dm_reach.boot [OF d assms(5)]])
  moreover have "table_inv start_handles (mem s0)" using MEM_Init_state(1,4) assms(2,3) by (intro start_table) auto
  ultimately show ?thesis using s MEM_Init_state(2,3) assms(2) by (simp add: xms_inv_def)
qed

lemma xms_reach_inv: "xms_reach s \<Longrightarrow> xms_inv s"
proof (induction rule: xms_reach.induct)
  case (boot umb ems seg s0 s mb pcjr R f e d0)
  then show ?case by (rule boot_inv)
next
  case (call s r r' s')
  then show ?case using XMS_Handler_inv [of s r] by auto
next
  case (store s a v)
  obtain R where R: "mem_writeb a v (mem s) = (mem s)\<lparr>ram := R\<rparr>" using writeb_frame by blast
  have "table_inv (handles s) ((mem s)\<lparr>ram := R\<rparr>) = table_inv (handles s) (mem s)" by (rule table_frame) simp_all
  then show ?case using store unfolding R by (simp add: xms_inv_def gate_latch_def)
next
  case (dos s op d)
  then show ?case using dm_exec_wf [of "dos s" op] dos_update_inv [of s d] by (auto simp: xms_inv_def)
qed

text \<open>
  Property C9. From start-up on, whatever calls the guest makes and wherever it writes, every driver call
  returns (allocations of size zero and the release of the system's own block aside), the A20 gate is open exactly
  while it is counted as enabled, and the blocks of two live handles never share a page: each is a
  contiguous run of as many pages as its size needs, above the high memory area and within the
  machine's memory.
\<close>

theorem xms_handles_apart:
  assumes "xms_reach s"
  shows "(xms_allowed r \<longrightarrow> (\<exists>r' s'. XMS_Handler r s = Some (r', s') \<and> xms_reach s')) \<and>
    (a20_is_enabled s \<longleftrightarrow> num_times_enabled s \<noteq> 0) \<and>
    (xms_is_handle_valid h s \<and> size_kb (handles s ! unat h) \<noteq> 0 \<longrightarrow>
       length (block_run (handles s ! unat h)) = (unat (size_kb (handles s ! unat h)) + 3) div 4 \<and>
       (\<forall>p\<in>set (block_run (handles s ! unat h)). 0x110 \<le> p \<and> p < MEM_TotalPages (mem s)) \<and>
       (\<forall>k. xms_is_handle_valid k s \<and> k \<noteq> h \<and> size_kb (handles s ! unat k) \<noteq> 0 \<longrightarrow>
          set (block_run (handles s ! unat h)) \<inter> set (block_run (handles s ! unat k)) = {}))"
proof (intro conjI impI)
  have inv: "xms_inv s" by (rule xms_reach_inv [OF assms])
  show "\<exists>r' s'. XMS_Handler r s = Some (r', s') \<and> xms_reach s'" if "xms_allowed r"
    using XMS_Handler_inv [OF inv that] xms_reach.call [OF assms that] by blast
  show "a20_is_enabled s \<longleftrightarrow> num_times_enabled s \<noteq> 0" using inv a20_is_enabled_value by (simp add: xms_inv_def)
  have tb: "table_inv (handles s) (mem s)" using inv by (simp add: xms_inv_def)
  then have ow: "owns pool (mem s) (xms_own (handles s))" by (simp add: table_inv_def)
  have run: "xms_own (handles s) (unat k) = Some (block_run (handles s ! unat k))"
    if "xms_is_handle_valid k s" "size_kb (handles s ! unat k) \<noteq> 0" for k
    using block_run_start(1) [OF tb] valid_index [OF inv that(1)] that(2) by blast
  assume h: "xms_is_handle_valid h s \<and> size_kb (handles s ! unat h) \<noteq> 0"
  show "length (block_run (handles s ! unat h)) = (unat (size_kb (handles s ! unat h)) + 3) div 4"
    by (simp add: block_run_def num_pages_value)
  obtain B where B: "pool (mem s) B" "ran (xms_own (handles s)) \<subseteq> B" using ow by (auto simp: owns_def)
  have "block_run (handles s ! unat h) \<in> B" using run h B(2) by (meson ranI subsetD)
  then have "block (mhandles (mem s)) (block_run (handles s ! unat h))" using B(1) by (simp add: pool_def)
  then show "\<forall>p\<in>set (block_run (handles s ! unat h)). 0x110 \<le> p \<and> p < MEM_TotalPages (mem s)"
    using pages_from_bounds unfolding block_def MEM_TotalPages_def XMS_START_def [symmetric] by blast
  show "\<forall>k. xms_is_handle_valid k s \<and> k \<noteq> h \<and> size_kb (handles s ! unat k) \<noteq> 0 \<longrightarrow>
      set (block_run (handles s ! unat h)) \<inter> set (block_run (handles s ! unat k)) = {}"
    using mp.owns_apart [OF ow run run] h by (metis word_unat_eq_iff)
qed

section \<open>Moves between blocks\<close>

text \<open>A range of addresses that are RAM and stand for themselves.\<close>

definition plain :: "nat \<Rightarrow> nat \<Rightarrow> MemoryBlock \<Rightarrow> bool" where
  "plain p n m \<longleftrightarrow> p + n \<le> 2 ^ 32 \<and> (\<forall>i<n. writable (of_nat (p + i)) m \<and> phys_addr (of_nat (p + i)) m = of_nat (p + i))"

lemma plain_address: "plain p n m \<Longrightarrow> i < n \<Longrightarrow> unat (of_nat (p + i) :: u32) = p + i"
  unfolding unat_of_nat by (simp add: plain_def)

lemma high_plain:
  assumes "ram_above m" and "XMS_START * 4096 \<le> p" and "p + n \<le> length (mhandles m) * 4096"
  shows "plain p n m"
proof -
  have len: "length (mhandles m) * 4096 \<le> 2 ^ 32" using assms(1) by (simp add: ram_above_def)
  have u: "unat (of_nat (p + i) :: u32) = p + i" if "i < n" for i unfolding unat_of_nat using assms(3) that len by simp
  show ?thesis unfolding plain_def using assms len u by (auto intro!: high_page(2) high_writable)
qed

lemma copy_plain:
  assumes d: "plain d n m" and p: "plain p n m" and "d \<le> p \<or> p + n \<le> d"
  shows "let m' = mem_memcpy (of_nat d) (of_nat p) n m in
    (\<forall>i<n. ram m' (of_nat (d + i)) = ram m (of_nat (p + i))) \<and> (\<forall>a. \<not> (d \<le> unat a \<and> unat a < d + n) \<longrightarrow> ram m' a = ram m a)"
proof -
  note u = plain_address
  have ph: "phys_addr (of_nat (x + i)) m = of_nat (x + i)" "writable (of_nat (x + i)) m" if "plain x n m" "i < n" for x i
    using that by (simp_all add: plain_def)
  have sh: "of_nat x + of_nat i = (of_nat (x + i) :: u32)" for x i by simp
  have ne: "(of_nat (x + j) :: u32) \<noteq> of_nat (y + i)" if "plain x n m" "plain y n m" "i < n" "j < n" "x + j \<noteq> y + i" for x y i j
    using u that by metis
  have "copies (of_nat d) (of_nat p) n m (mem_memcpy (of_nat d) (of_nat p) n m)"
  proof (rule mem_memcpy_copies; unfold sh)
    show "\<forall>i<n. writable (of_nat (d + i)) m" using ph(2) d by blast
    show "\<forall>i j. i < j \<and> j < n \<longrightarrow> phys_addr (of_nat (d + j)) m \<noteq> phys_addr (of_nat (d + i)) m"
      using ph(1) [OF d] ne [OF d d] by (metis add_left_cancel less_trans nat_neq_iff)
    show "\<forall>i j. i < j \<and> j < n \<longrightarrow> phys_addr (of_nat (p + j)) m \<noteq> phys_addr (of_nat (d + i)) m"
    proof (intro allI impI)
      fix i j assume ij: "i < j \<and> j < n"
      then have "p + j \<noteq> d + i" using assms(3) by linarith
      then show "phys_addr (of_nat (p + j)) m \<noteq> phys_addr (of_nat (d + i)) m"
        using ph(1) [OF d, of i] ph(1) [OF p, of j] ne [OF p d, of i j] ij by simp
    qed
  qed
  then obtain m' where m': "mem_memcpy (of_nat d) (of_nat p) n m = m'" and c: "copies (of_nat d) (of_nat p) n m m'" by blast
  have "ram m' (of_nat (d + i)) = ram m (of_nat (p + i))" if "i < n" for i
  proof -
    have "ram m' (phys_addr (of_nat d + of_nat i) m) = mem_readb (of_nat p + of_nat i) m" using c that by (simp add: copies_def)
    then show ?thesis unfolding sh using ph [OF d that] ph [OF p that] writable_read by simp
  qed
  moreover have "ram m' a = ram m a" if "\<not> (d \<le> unat a \<and> unat a < d + n)" for a
  proof -
    have "a \<noteq> phys_addr (of_nat d + of_nat i) m" if "i < n" for i
      unfolding sh ph(1) [OF d that] using u [OF d that] \<open>\<not> (d \<le> unat a \<and> _)\<close> that by auto
    then show ?thesis using c by (simp add: copies_def)
  qed
  ultimately show ?thesis unfolding m' Let_def by blast
qed

text \<open>The bytes of a live block, without wrap-around.\<close>

lemma block_extent:
  assumes inv: "xms_inv s" and v: "xms_is_handle_valid h s"
  shows "unat (size_kb (handles s ! unat h) * 1024) = unat (size_kb (handles s ! unat h)) * 1024"
    "size_kb (handles s ! unat h) \<noteq> 0 \<Longrightarrow> XMS_START * 4096 \<le> nat (mem_handle (handles s ! unat h)) * 4096 \<and>
      nat (mem_handle (handles s ! unat h)) * 4096 + unat (size_kb (handles s ! unat h)) * 1024 \<le> length (mhandles (mem s)) * 4096"
    "size_kb (handles s ! unat h) \<noteq> 0 \<Longrightarrow> word_of_int (mem_handle (handles s ! unat h)) * 4096 + (off :: u32) =
      of_nat (nat (mem_handle (handles s ! unat h)) * 4096 + unat off)"
proof -
  let ?b = "handles s ! unat h" and ?H = "mhandles (mem s)"
  have tb: "table_inv (handles s) (mem s)" using inv by (simp add: xms_inv_def)
  have ow: "owns pool (mem s) (xms_own (handles s))" "length ?H \<le> 2 ^ 20" using tb by (simp_all add: table_inv_def ram_above_def)
  have fit: "XMS_START \<le> nat (mem_handle ?b) \<and> nat (mem_handle ?b) + get_num_pages (size_kb ?b) \<le> length ?H" if z: "size_kb ?b \<noteq> 0"
  proof -
    note r = block_run_start [OF tb _ _ _ z]
    have r1: "xms_own (handles s) (unat h) = Some (block_run ?b)" using valid_index [OF inv v] by (intro r(1)) simp_all
    obtain B where B: "pool (mem s) B" "ran (xms_own (handles s)) \<subseteq> B" using ow by (auto simp: owns_def)
    have "block_run ?b \<in> B" using r1 B(2) by (meson ranI subsetD)
    then have bl: "block ?H (block_run ?b)" using B(1) by (simp add: pool_def)
    have n: "0 < get_num_pages (size_kb ?b)" using z num_pages_zero by blast
    have "nat (mem_handle ?b) \<in> set (block_run ?b)" "nat (mem_handle ?b) + get_num_pages (size_kb ?b) - 1 \<in> set (block_run ?b)"
      using n by (auto simp: block_run_def)
    then have "XMS_START \<le> nat (mem_handle ?b)" "nat (mem_handle ?b) + get_num_pages (size_kb ?b) - 1 < length ?H"
      using bl pages_from_bounds unfolding block_def by blast+
    then show ?thesis using n by linarith
  qed
  have cov: "unat (size_kb ?b) * 1024 \<le> get_num_pages (size_kb ?b) * 4096" by (rule num_pages_covers)
  show "size_kb ?b \<noteq> 0 \<Longrightarrow> XMS_START * 4096 \<le> nat (mem_handle ?b) * 4096 \<and>
      nat (mem_handle ?b) * 4096 + unat (size_kb ?b) * 1024 \<le> length ?H * 4096"
    using fit cov by fastforce
  show "unat (size_kb ?b * 1024) = unat (size_kb ?b) * 1024"
  proof (cases "size_kb ?b = 0")
    case False
    then have "get_num_pages (size_kb ?b) \<le> length ?H - XMS_START" using fit by fastforce
    then have "unat (size_kb ?b) * 1024 \<le> (length ?H - XMS_START) * 4096" using cov by (meson le_trans mult_le_mono1)
    then have "unat (size_kb ?b) * 1024 < 2 ^ 32" using ow(2) start_pos by (simp add: XMS_START_def)
    then show ?thesis by (simp add: unat_word_ariths)
  qed simp
  show "word_of_int (mem_handle ?b) * 4096 + off = of_nat (nat (mem_handle ?b) * 4096 + unat off)" if z: "size_kb ?b \<noteq> 0"
  proof -
    have "0 < mem_handle ?b" using valid_index [OF inv v] by (intro block_run_start(4) [OF tb _ _ _ z]) simp_all
    then have "word_of_int (mem_handle ?b) = (of_nat (nat (mem_handle ?b)) :: u32)" by (simp add: of_nat_nat)
    then show ?thesis by simp
  qed
qed

text \<open>The runs of two live blocks are apart, so one lies below the other.\<close>

lemma runs_apart:
  assumes inv: "xms_inv s" and v: "xms_is_handle_valid h s" "xms_is_handle_valid k s"
    and z: "size_kb (handles s ! unat h) \<noteq> 0" "size_kb (handles s ! unat k) \<noteq> 0" and ne: "h \<noteq> k"
  shows "set (block_run (handles s ! unat h)) \<inter> set (block_run (handles s ! unat k)) = {}"
proof -
  have tb: "table_inv (handles s) (mem s)" using inv by (simp add: xms_inv_def)
  have "xms_own (handles s) (unat h) = Some (block_run (handles s ! unat h))"
    using valid_index [OF inv v(1)] by (intro block_run_start(1) [OF tb _ _ _ z(1)]) simp_all
  moreover have "xms_own (handles s) (unat k) = Some (block_run (handles s ! unat k))"
    using valid_index [OF inv v(2)] by (intro block_run_start(1) [OF tb _ _ _ z(2)]) simp_all
  moreover have "owns pool (mem s) (xms_own (handles s))" using tb by (simp add: table_inv_def)
  ultimately show ?thesis using mp.owns_apart ne by (metis word_unat_eq_iff)
qed

lemma runs_ordered:
  assumes "xms_inv s" "xms_is_handle_valid h s" "xms_is_handle_valid k s"
    "size_kb (handles s ! unat h) \<noteq> 0" "size_kb (handles s ! unat k) \<noteq> 0" "h \<noteq> k"
  shows "nat (mem_handle (handles s ! unat h)) + get_num_pages (size_kb (handles s ! unat h)) \<le> nat (mem_handle (handles s ! unat k)) \<or>
    nat (mem_handle (handles s ! unat k)) + get_num_pages (size_kb (handles s ! unat k)) \<le> nat (mem_handle (handles s ! unat h))"
proof (rule ccontr)
  let ?a = "nat (mem_handle (handles s ! unat h))" and ?b = "nat (mem_handle (handles s ! unat k))"
  assume n: "\<not> ?thesis"
  have "0 < get_num_pages (size_kb (handles s ! unat h))" "0 < get_num_pages (size_kb (handles s ! unat k))" using assms(4,5) num_pages_zero by blast+
  with n have "max ?a ?b \<in> set (block_run (handles s ! unat h)) \<inter> set (block_run (handles s ! unat k))" by (auto simp: block_run_def max_def)
  then show False using runs_apart [OF assms] by blast
qed

text \<open>
  The checks of one side of a move. A side with a handle is checked against the size of its block, in
  unbounded arithmetic; a real mode pointer only against the end of the high memory area, and by the
  sum modulo \<open>2^32\<close>.
\<close>

definition side_error :: "u16 \<Rightarrow> u32 \<Rightarrow> u32 \<Rightarrow> Result \<Rightarrow> Result \<Rightarrow> xms_state \<Rightarrow> Result option" where
  "side_error h off count bad_handle bad_offset s =
     (if h = 0 then if 0x10FFF0 < (unat (RealToPhysical off) + unat count) mod 2 ^ 32 then Some XmsInvalidLength else None
      else if \<not> xms_is_handle_valid h s then Some bad_handle
      else if unat (size_kb (handles s ! unat h)) * 1024 \<le> unat off then Some bad_offset
      else if unat (size_kb (handles s ! unat h)) * 1024 < unat off + unat count then Some XmsInvalidLength
      else None)"

text \<open>Where a side starts, and the condition on a real mode side under which the move is a plain copy.\<close>

definition side_start :: "u16 \<Rightarrow> u32 \<Rightarrow> xms_state \<Rightarrow> nat" where
  "side_start h off s = (if h = 0 then unat (RealToPhysical off) else nat (mem_handle (handles s ! unat h)) * 4096 + unat off)"

definition side_plain :: "u16 \<Rightarrow> u32 \<Rightarrow> u32 \<Rightarrow> xms_state \<Rightarrow> bool" where
  "side_plain h off count s \<longleftrightarrow> (h = 0 \<longrightarrow> unat (RealToPhysical off) + unat count \<le> 0x10FFF0 \<and>
     plain (unat (RealToPhysical off)) (unat count) (MEM_A20_Enable True (mem s)))"

lemma move_address_side:
  assumes inv: "xms_inv s"
  shows "move_address h off count e1 e2 s = (case side_error h off count e1 e2 s of Some e \<Rightarrow> Inl e
    | None \<Rightarrow> Inr (of_nat (side_start h off s)))"
proof (cases "h = 0")
  case True
  have "0x10FFF0 < RealToPhysical off + count \<longleftrightarrow> 0x10FFF0 < (unat (RealToPhysical off) + unat count) mod 2 ^ 32"
    by (simp add: word_less_nat_alt unat_word_ariths)
  then show ?thesis using True by (simp add: move_address_def side_error_def side_start_def Let_def)
next
  case h: False
  show ?thesis
  proof (cases "xms_is_handle_valid h s")
    case True
    let ?b = "handles s ! unat h"
    note x = block_extent [OF inv True]
    have o: "size_kb ?b * 1024 \<le> off \<longleftrightarrow> unat (size_kb ?b) * 1024 \<le> unat off" by (simp only: word_le_nat_alt x(1))
    show ?thesis
    proof (cases "size_kb ?b * 1024 \<le> off")
      case False
      then have "size_kb ?b \<noteq> 0" by auto
      moreover have "unat (size_kb ?b * 1024 - off) = unat (size_kb ?b) * 1024 - unat off"
        using False by (simp add: unat_sub linorder_not_le x(1))
      ultimately show ?thesis using False True h o x(3)
        by (auto simp: move_address_def side_error_def side_start_def Let_def word_less_nat_alt)
    qed (use True h o in \<open>simp add: move_address_def side_error_def Let_def\<close>)
  qed (use h in \<open>simp add: move_address_def side_error_def\<close>)
qed

text \<open>The first error of a move.\<close>

definition move_error :: "u32 \<Rightarrow> u16 \<Rightarrow> u32 \<Rightarrow> u16 \<Rightarrow> u32 \<Rightarrow> xms_state \<Rightarrow> Result option" where
  "move_error count sh src dh dest s = (if odd (unat count) then Some XmsParityError
     else case side_error sh src count XmsInvalidSrcHandle XmsInvalidSrcOffset s of Some e \<Rightarrow> Some e
     | None \<Rightarrow> side_error dh dest count XmsInvalidDestHandle XmsInvalidDestOffset s)"

lemma side_block:
  assumes "xms_inv s" and "side_error h off count e1 e2 s = None" and "h \<noteq> 0"
  shows "xms_is_handle_valid h s" "size_kb (handles s ! unat h) \<noteq> 0"
    "nat (mem_handle (handles s ! unat h)) * 4096 \<le> side_start h off s"
    "side_start h off s + unat count \<le> (nat (mem_handle (handles s ! unat h)) + get_num_pages (size_kb (handles s ! unat h))) * 4096"
    "XMS_START * 4096 \<le> side_start h off s" "side_start h off s + unat count \<le> length (mhandles (mem s)) * 4096"
proof -
  let ?b = "handles s ! unat h"
  have v: "xms_is_handle_valid h s" "unat off < unat (size_kb ?b) * 1024" "unat off + unat count \<le> unat (size_kb ?b) * 1024"
    using assms(2,3) by (auto simp: side_error_def split: if_splits)
  then have z: "size_kb ?b \<noteq> 0" by auto
  show "xms_is_handle_valid h s" "size_kb ?b \<noteq> 0" by (rule v z)+
  show "nat (mem_handle ?b) * 4096 \<le> side_start h off s" "XMS_START * 4096 \<le> side_start h off s"
    "side_start h off s + unat count \<le> length (mhandles (mem s)) * 4096"
    using block_extent(2) [OF assms(1) v(1) z] v(3) assms(3) by (auto simp: side_start_def)
  show "side_start h off s + unat count \<le> (nat (mem_handle ?b) + get_num_pages (size_kb ?b)) * 4096"
    using v(3) num_pages_covers [of "size_kb ?b"] assms(3) by (simp add: side_start_def distrib_right)
qed

text \<open>Two different sides never overlap: live blocks are apart and above the high memory area.\<close>

lemma sides_apart:
  assumes inv: "xms_inv s" and n: "side_error h off count e1 e2 s = None" "side_error k off' count e3 e4 s = None"
    and pl: "side_plain h off count s" "side_plain k off' count s" and ne: "h \<noteq> k"
  shows "side_start k off' s \<le> side_start h off s \<or> side_start h off s + unat count \<le> side_start k off' s"
proof -
  have real: "side_start x y s + unat count \<le> XMS_START * 4096" if "x = 0" "side_plain x y count s" for x y
    using that by (simp add: side_plain_def side_start_def XMS_START_def)
  consider "h = 0" "k \<noteq> 0" | "h \<noteq> 0" "k = 0" | "h \<noteq> 0" "k \<noteq> 0" using ne by auto
  then show ?thesis
  proof cases
    case 1
    then show ?thesis using real [OF _ pl(1)] side_block(5) [OF inv n(2)] by linarith
  next
    case 2
    then show ?thesis using real [OF _ pl(2)] side_block(5) [OF inv n(1)] by linarith
  next
    case 3
    note b = side_block [OF inv n(1) 3(1)] and c = side_block [OF inv n(2) 3(2)]
    have scale: "x * 4096 \<le> y * 4096" if "x \<le> y" for x y :: nat using that by simp
    from runs_ordered [OF inv b(1) c(1) b(2) c(2) ne] show ?thesis
    proof
      assume "nat (mem_handle (handles s ! unat h)) + get_num_pages (size_kb (handles s ! unat h)) \<le> nat (mem_handle (handles s ! unat k))"
      from scale [OF this] b(4) c(3) show ?thesis by linarith
    next
      assume "nat (mem_handle (handles s ! unat k)) + get_num_pages (size_kb (handles s ! unat k)) \<le> nat (mem_handle (handles s ! unat h))"
      from scale [OF this] c(4) b(3) show ?thesis by linarith
    qed
  qed
qed

lemma side_copied:
  assumes "xms_inv s" and "side_error h off count e1 e2 s = None" and "side_plain h off count s"
  shows "plain (side_start h off s) (unat count) (MEM_A20_Enable True (mem s))"
proof (cases "h = 0")
  case True
  then show ?thesis using assms(3) by (simp add: side_plain_def side_start_def)
next
  case False
  have "ram_above (MEM_A20_Enable True (mem s))" using assms(1) by (simp add: xms_inv_def table_inv_def)
  then show ?thesis using side_block(5,6) [OF assms(1,2) False] by (intro high_plain) simp_all
qed

text \<open>
  Property C16. A move checks, in this order, that the length is even, the source handle, offset and length, and the
  destination handle, offset and length, and returns the first error with the state unchanged. A side with a
  handle is decided as in unbounded arithmetic; a side in conventional memory (handle 0) is refused
  exactly when its end, modulo \<open>2^32\<close>, lies beyond the high memory area. Without an error the move succeeds,
  with handles, gate and count as before. Where a side in conventional memory is RAM that is not remapped and does not wrap
  around, the destination bytes are the old source bytes (unless both sides are the same block or both
  conventional memory and the move is upwards and overlaps), and no other byte of memory changes.
\<close>

theorem xms_move_between_blocks:
  assumes "xms_reach s" and "mem_readw (bpt + 4) (mem s) = sh" "mem_readw (bpt + 10) (mem s) = dh"
    and "mem_readd bpt (mem s) = count" "mem_readd (bpt + 6) (mem s) = src" "mem_readd (bpt + 12) (mem s) = dest"
  shows "case move_error count sh src dh dest s of
      Some e \<Rightarrow> xms_move_memory bpt s = Some (e, s)
    | None \<Rightarrow> \<exists>m'. xms_move_memory bpt s = Some (ResultOK, s\<lparr>mem := m'\<rparr>) \<and>
        mhandles m' = mhandles (mem s) \<and> a20_enabled m' = a20_enabled (mem s) \<and>
        (let source = side_start sh src s; target = side_start dh dest s in
         side_plain sh src count s \<and> side_plain dh dest count s \<and>
         (sh = dh \<longrightarrow> target \<le> source \<or> source + unat count \<le> target) \<longrightarrow>
         (\<forall>i<unat count. ram m' (of_nat (target + i)) = ram (mem s) (of_nat (source + i))) \<and>
         (\<forall>a. \<not> (target \<le> unat a \<and> unat a < target + unat count) \<longrightarrow> ram m' a = ram (mem s) a))"
proof -
  have inv: "xms_inv s" by (rule xms_reach_inv [OF assms(1)])
  note ma = move_address_side [OF inv]
  have par: "count mod 2 \<noteq> 0 \<longleftrightarrow> odd (unat count)" by (simp add: unat_eq_0 [symmetric] unat_mod odd_iff_mod_2_eq_one)
  let ?from = "side_start sh src s" and ?to = "side_start dh dest s"
  show ?thesis
  proof (cases "move_error count sh src dh dest s")
    case (Some e)
    then show ?thesis using assms(2-6) ma par by (auto simp: xms_move_memory_def move_error_def Let_def split: if_splits option.splits)
  next
    case None
    then have n: "\<not> odd (unat count)" "side_error sh src count XmsInvalidSrcHandle XmsInvalidSrcOffset s = None"
      "side_error dh dest count XmsInvalidDestHandle XmsInvalidDestOffset s = None" by (auto simp: move_error_def split: if_splits option.splits)
    have mv: "xms_move_memory bpt s = (if count \<noteq> 0 then map_option (\<lambda>s'. (ResultOK, s')) (move_bytes (of_nat ?to) (of_nat ?from) count s) else Some (ResultOK, s))"
      using assms(2-6) ma par n by (simp add: xms_move_memory_def Let_def)
    show ?thesis
    proof (cases "count = 0")
      case True
      then have "xms_move_memory bpt s = Some (ResultOK, s\<lparr>mem := mem s\<rparr>)" using mv by simp
      then show ?thesis using True None by (auto intro!: exI [of _ "mem s"])
    next
      case False
      obtain m' where m': "move_bytes (of_nat ?to) (of_nat ?from) count s = Some (s\<lparr>mem := m'\<rparr>)"
        "ram m' = ram (mem_memcpy (of_nat ?to) (of_nat ?from) (unat count) (MEM_A20_Enable True (mem s)))"
        "mhandles m' = mhandles (mem s)" "a20_enabled m' = a20_enabled (mem s)" using move_bytes_value [OF inv] by blast
      have "(\<forall>i<unat count. ram m' (of_nat (?to + i)) = ram (mem s) (of_nat (?from + i))) \<and>
        (\<forall>a. \<not> (?to \<le> unat a \<and> unat a < ?to + unat count) \<longrightarrow> ram m' a = ram (mem s) a)"
        if "side_plain sh src count s" "side_plain dh dest count s" "sh = dh \<longrightarrow> ?to \<le> ?from \<or> ?from + unat count \<le> ?to"
      proof -
        have sep: "?to \<le> ?from \<or> ?from + unat count \<le> ?to" using sides_apart [OF inv n(2,3) that(1,2)] that(3) by blast
        from copy_plain [OF side_copied [OF inv n(3) that(2)] side_copied [OF inv n(2) that(1)] sep]
        show ?thesis unfolding m'(2) Let_def by simp
      qed
      moreover have "xms_move_memory bpt s = Some (ResultOK, s\<lparr>mem := m'\<rparr>)" using mv False m'(1) by simp
      ultimately show ?thesis using m'(3,4) unfolding None option.case Let_def by blast
    qed
  qed
qed

section \<open>Blocks of size zero\<close>

lemma find_free_handle_exists:
  assumes "length hs = NumXmsHandles" "0 < i" "i < NumXmsHandles" "is_free (hs ! i)"
  shows "\<exists>a. find_free_handle (drop 1 hs) 1 = Some a \<and> 0 < a \<and> a < NumXmsHandles \<and> is_free (hs ! a)"
proof -
  have "drop 1 hs ! (i - 1) = hs ! i" "i - 1 < length (drop 1 hs)" using assms by simp_all
  then have "\<not> (\<forall>b\<in>set (drop 1 hs). \<not> is_free b)" using assms(4) nth_mem by metis
  then obtain a where "find_free_handle (drop 1 hs) 1 = Some a" using find_free_handle_none [of "drop 1 hs" 1] by fastforce
  with find_free_handle_some [OF this] assms(1) show ?thesis by auto
qed

lemma allocate_one_page:
  assumes "ram_above m" "BestMatch 1 m = p" "p \<noteq> 0"
  shows "MEM_AllocatePages 1 True m = Some (int p, m\<lparr>mhandles := (mhandles m)[p := - 1]\<rparr>)" "p < length (mhandles m)"
proof -
  have "length (mhandles m) < 0xfffffff" using assms(1) by (simp add: ram_above_def)
  then have fr: "free_run (mhandles m) p 1" using BestMatch_run(1) [of 1 m] assms(2,3) by simp
  then show "p < length (mhandles m)" by (simp add: free_run_def)
  then show "MEM_AllocatePages 1 True m = Some (int p, m\<lparr>mhandles := (mhandles m)[p := - 1]\<rparr>)"
    using assms(2,3) by (simp add: MEM_AllocatePages_def Let_def store_next_def set_handle_def)
qed

lemma release_one_page:
  assumes "p < length (mhandles m)" "0 < p" "mhandles m ! p = - 1"
  shows "MEM_ReleasePages (int p) m = Some (m\<lparr>mhandles := (mhandles m)[p := 0]\<rparr>)"
  using assms by (simp add: MEM_ReleasePages.simps [of "int p"] MEM_ReleasePages.simps [of "- 1"] get_handle_def set_handle_def)

text \<open>
  Property C40. A block of size zero aliases the next block. The driver notes the next free page for it without taking it, so a
  following allocation of up to 4 KB gets the same page, and freeing the first handle releases
  the page of the second, which is still live: the page is free again and can be given to a third block.
\<close>

theorem xms_zero_size_alias:
  assumes "xms_reach s" and "MEM_GetNextFreePage (mem s) \<noteq> 0" and "0 < i" "i < j" "j < NumXmsHandles"
    and "is_free (handles s ! i)" "is_free (handles s ! j)" and "0 < kb" "kb \<le> 4"
  shows "\<exists>h k s1 s2 s3. xms_allocate_memory 0 s = Some (ResultOK, h, s1) \<and> xms_allocate_memory kb s1 = Some (ResultOK, k, s2) \<and>
    xms_free_memory h s2 = Some (ResultOK, s3) \<and> k \<noteq> h \<and> xms_is_handle_valid k s3 \<and> size_kb (handles s3 ! unat k) = kb \<and>
    get_handle (mem_handle (handles s3 ! unat k)) (mem s3) = Some 0"
proof -
  have inv: "xms_inv s" by (rule xms_reach_inv [OF assms(1)])
  let ?m = "mem s" and ?hs = "handles s"
  have len: "length ?hs = NumXmsHandles" and ra: "ram_above ?m" using inv by (simp_all add: xms_inv_def table_inv_def)
  define p where "p = BestMatch 1 ?m"
  have p: "p \<noteq> 0" "MEM_GetNextFreePage ?m = int p" using assms(2) by (simp_all add: p_def MEM_GetNextFreePage_def)
  note al = allocate_one_page [OF ra p_def [symmetric] p(1)]
  have u: "unat (of_nat x :: u16) = x" if "x < NumXmsHandles" for x using that by (simp add: unat_of_nat NumXmsHandles_def)
  obtain a where a: "find_free_handle (drop 1 ?hs) 1 = Some a" "0 < a" "a < NumXmsHandles" "is_free (?hs ! a)"
    using find_free_handle_exists [of ?hs i] len assms(3-6) by auto
  let ?z = "\<lparr>size_kb = 0, mem_handle = int p, lock_count = 0, is_free = False\<rparr>"
  define s1 where "s1 = s\<lparr>handles := ?hs[a := ?z]\<rparr>"
  have e1: "xms_allocate_memory 0 s = Some (ResultOK, of_nat a, s1)"
    using a(1) p(2) by (simp add: xms_allocate_memory_def upd_handle_def s1_def)
  have h1: "handles s1 = ?hs[a := ?z]" "mem s1 = ?m" by (simp_all add: s1_def)
  have "is_free (handles s1 ! i) \<or> is_free (handles s1 ! j)" using assms(4,6,7) by (cases "a = i") (simp_all add: h1)
  then obtain b where b: "find_free_handle (drop 1 (handles s1)) 1 = Some b" "0 < b" "b < NumXmsHandles" "is_free (handles s1 ! b)"
    using find_free_handle_exists [of "handles s1" i] find_free_handle_exists [of "handles s1" j] len assms(3-5) by (auto simp: h1)
  have ab: "b \<noteq> a" using b(4) a(3) len by (auto simp: h1)
  let ?k = "\<lparr>size_kb = kb, mem_handle = int p, lock_count = 0, is_free = False\<rparr>" and ?H = "(mhandles ?m)[p := - 1]"
  define s2 where "s2 = s1\<lparr>mem := ?m\<lparr>mhandles := ?H\<rparr>, handles := (handles s1)[b := ?k]\<rparr>"
  have one: "get_num_pages kb = 1" "kb \<noteq> 0"
  proof -
    have "0 < unat kb" "unat kb \<le> 4" using assms(8,9) by (simp_all add: word_less_nat_alt word_le_nat_alt)
    then show "get_num_pages kb = 1" "kb \<noteq> 0" unfolding num_pages_value by auto
  qed
  have e2: "xms_allocate_memory kb s1 = Some (ResultOK, of_nat b, s2)"
    using b(1) al(1) one p(1) by (simp add: xms_allocate_memory_def upd_handle_def s2_def h1)
  have h2: "handles s2 ! a = ?z" "handles s2 ! b = ?k" "mem s2 = ?m\<lparr>mhandles := ?H\<rparr>" "length (handles s2) = NumXmsHandles"
    using a(3) b(3) ab len by (simp_all add: s2_def h1)
  define s3 where "s3 = upd_handle a XMS_Block_init (s2\<lparr>mem := ?m\<lparr>mhandles := ?H[p := 0]\<rparr>\<rparr>)"
  have rl: "MEM_ReleasePages (int p) (mem s2) = Some (?m\<lparr>mhandles := ?H[p := 0]\<rparr>)"
    using release_one_page [of p "mem s2"] al(2) p(1) by (simp add: h2(3))
  have a0: "of_nat a \<noteq> (0 :: u16)" "of_nat b \<noteq> (0 :: u16)" using u a(2,3) b(2,3) by (metis unat_0 less_irrefl)+
  have e3: "xms_free_memory (of_nat a) s2 = Some (ResultOK, s3)"
    using a0 u [OF a(3)] a(3) h2 rl by (simp add: xms_free_memory_def xms_is_handle_valid_def s3_def)
  have "handles s3 ! b = ?k" "mhandles (mem s3) ! p = 0" "length (mhandles (mem s3)) = length (mhandles ?m)"
    using h2 ab al(2) by (simp_all add: s3_def upd_handle_def)
  then have "xms_is_handle_valid (of_nat b) s3" "size_kb (handles s3 ! unat (of_nat b :: u16)) = kb"
    "get_handle (mem_handle (handles s3 ! unat (of_nat b :: u16))) (mem s3) = Some 0"
    using a0 u [OF b(3)] b(3) al(2) by (simp_all add: xms_is_handle_valid_def get_handle_def)
  moreover have "of_nat b \<noteq> (of_nat a :: u16)" using u a(3) b(3) ab by metis
  ultimately show ?thesis using e1 e2 e3 by blast
qed

section \<open>An example machine\<close>

text \<open>
  Two megabytes, extended memory without upper memory, and at 0x500 the parameters of a move of two bytes from
  0000:0540 in conventional memory to the start of block 2.
\<close>

definition demo_bytes :: "u32 \<Rightarrow> u8" where
  "demo_bytes a = (if a = 0x500 then 2 else if a = 0x506 then 0x40 else if a = 0x507 then 5 else if a = 0x50a then 2 else if a = 0x541 then 77 else 0)"

definition demo_start :: xms_state where
  "demo_start = \<lparr>enable_global = False, num_times_enabled = 0, hma_is_available = False, dos_has_control = True, app_has_control = False,
     min_alloc_size = 0, umb_is_available = False, xms_is_available = False, xms_callback = 0, handles = [],
     mem = MEM_Init 2 False demo_bytes (\<lambda>p. p), dos = DOS_SetupMemory False zero_dos, other_memsystems = 0, Multiplex = []\<rparr>"

definition demo :: xms_state where
  "demo = the (XMS_Init True False False True 0x100 demo_start)"

lemma demo_init: "XMS_Init True False False True 0x100 demo_start = Some demo"
  by (simp add: demo_def XMS_Init_def DOS_BuildUMBChain_def Let_def)

lemma demo_fields: "handles demo = start_handles" "mem demo = MEM_Init 2 False demo_bytes (\<lambda>p. p)"
  by (simp_all add: demo_def XMS_Init_def DOS_BuildUMBChain_def Let_def start_handles_def demo_start_def BIOS_ZeroExtendedSize_def DOS_AddMultiplexHandler_def)

lemma demo_reach: "xms_reach demo"
  by (rule xms_reach.boot [OF demo_init, of 2 False demo_bytes "\<lambda>p. p" False zero_dos]) (simp_all add: demo_start_def zero_dos_def MCB_FREE_def)

lemma start_handles_list: "start_handles = XMS_Block_init\<lparr>is_free := False\<rparr> # XMS_Block_init # replicate 126 XMS_Block_init"
proof -
  have N: "NumXmsHandles = Suc (Suc 126)" by (simp add: NumXmsHandles_def)
  show ?thesis by (simp only: start_handles_def N replicate_Suc list_update.simps nat.case)
qed

lemma demo_pool: "pool (mem demo) {}" "length (mhandles (mem demo)) = 512" "ram (mem demo) = demo_bytes"
  by (simp_all add: demo_fields MEM_Init_state pool_def) (simp add: MEM_Init_def InitA20_def Let_def SetPageHandler_ram)

text \<open>Allocation succeeds when a handle and a run of pages are free.\<close>

lemma allocate_ok:
  assumes "pool (mem s) B" "ram_above (mem s)" "find_free_handle (drop 1 (handles s)) 1 = Some i" "free_run (mhandles (mem s)) q (get_num_pages kb)" "kb \<noteq> 0"
  shows "\<exists>r m'. xms_allocate_memory kb s = Some (ResultOK, of_nat i,
      s\<lparr>mem := m', handles := (handles s)[i := \<lparr>size_kb = kb, mem_handle = int r, lock_count = 0, is_free = False\<rparr>]\<rparr>) \<and>
    free_run (mhandles (mem s)) r (get_num_pages kb) \<and> best_fit (get_num_pages kb) (mhandles (mem s)) r \<and>
    pool m' (insert [r..<r + get_num_pages kb] B) \<and> m' = (mem s)\<lparr>mhandles := mhandles m'\<rparr> \<and> length (mhandles m') = length (mhandles (mem s))"
proof -
  have n: "0 < get_num_pages kb" using assms(5) num_pages_zero by blast
  have "length (mhandles (mem s)) < 0xfffffff" using assms(2) by (simp add: ram_above_def)
  note a = AllocatePages_contiguous [OF assms(1) n this]
  have ex: "\<exists>r. free_run (mhandles (mem s)) r (get_num_pages kb)" using assms(4) by blast
  obtain r m' where r: "MEM_AllocatePages (get_num_pages kb) True (mem s) = Some (int r, m')"
    "free_run (mhandles (mem s)) r (get_num_pages kb)" "best_fit (get_num_pages kb) (mhandles (mem s)) r"
    "pool m' (insert [r..<r + get_num_pages kb] B)" "m' = (mem s)\<lparr>mhandles := mhandles m'\<rparr>" "length (mhandles m') = length (mhandles (mem s))"
    using a unfolding if_P [OF ex] by blast
  have "0 < r" using r(2) start_pos by (simp add: free_run_def)
  then have "xms_allocate_memory kb s = Some (ResultOK, of_nat i,
      s\<lparr>mem := m', handles := (handles s)[i := \<lparr>size_kb = kb, mem_handle = int r, lock_count = 0, is_free = False\<rparr>]\<rparr>)"
    using r(1) assms(3,5) by (simp add: xms_allocate_memory_def upd_handle_def)
  then show ?thesis using r(2-6) by blast
qed

lemma find_free_replicate: "is_free b \<Longrightarrow> 0 < n \<Longrightarrow> find_free_handle (replicate n b) k = Some k"
  by (cases n) simp_all

lemma pool_free: "pool m B \<Longrightarrow> XMS_START \<le> q \<Longrightarrow> q + n \<le> length (mhandles m) \<Longrightarrow> (\<And>p ps. ps \<in> B \<Longrightarrow> p \<in> set ps \<Longrightarrow> \<not> (q \<le> p \<and> p < q + n)) \<Longrightarrow> free_run (mhandles m) q n"
proof -
  assume a: "pool m B" "XMS_START \<le> q" "q + n \<le> length (mhandles m)" "\<And>p ps. ps \<in> B \<Longrightarrow> p \<in> set ps \<Longrightarrow> \<not> (q \<le> p \<and> p < q + n)"
  have "mhandles m ! i = 0" if "q \<le> i" "i < q + n" for i
  proof -
    have "i < length (mhandles m)" "\<not> (\<exists>ps\<in>B. i \<in> set ps)" using that a(3,4) by auto
    then show ?thesis using a(1) unfolding pool_def by blast
  qed
  then show ?thesis using a(2,3) by (simp add: free_run_def)
qed

lemma handler_allocate: "high_byte (reg_eax r) = 0x09 \<Longrightarrow> XMS_Handler r s = allocate_call (ucast (low_word (reg_edx r))) r s"
  by (simp add: XMS_Handler_def Let_def)

definition demo_regs :: guest_regs where
  "demo_regs = \<lparr>reg_eax = 0x900, reg_ebx = 0, reg_ecx = 0, reg_edx = 64, reg_si = 0x500, phys_ds = 0, val_es = 0\<rparr>"

lemma demo_regs_call: "XMS_Handler demo_regs s = allocate_call 64 demo_regs s" "xms_allowed demo_regs"
proof -
  have h: "high_byte (reg_eax demo_regs) = 0x09" "low_word (reg_edx demo_regs) = 64" by (simp_all add: demo_regs_def high_byte_def low_word_def drop_bit_eq_div)
  then show "XMS_Handler demo_regs s = allocate_call 64 demo_regs s" by (simp add: handler_allocate)
  show "xms_allowed demo_regs" using h by (simp add: xms_allowed_def)
qed

lemma sixteen: "get_num_pages 64 = 16" "get_num_pages 16 = 4"
  by (simp_all add: num_pages_value)

text \<open>After an allocation of 64 KB the machine has one live block, after another two.\<close>

lemma demo_one_block:
  "\<exists>s r m1. s = demo\<lparr>mem := m1, handles := (handles demo)[1 := \<lparr>size_kb = 64, mem_handle = int r, lock_count = 0, is_free = False\<rparr>]\<rparr> \<and>
    xms_reach s \<and> pool m1 {[r..<r + 16]} \<and> m1 = (mem demo)\<lparr>mhandles := mhandles m1\<rparr> \<and> length (mhandles m1) = 512"
proof -
  have ra: "ram_above (mem demo)" using xms_reach_inv [OF demo_reach] by (simp add: xms_inv_def table_inv_def)
  have f1: "find_free_handle (drop 1 (handles demo)) 1 = Some 1"
    by (simp add: demo_fields start_handles_list XMS_Block_init_def)
  have fr1: "free_run (mhandles (mem demo)) XMS_START (get_num_pages 64)"
    by (rule pool_free [OF demo_pool(1)]) (simp_all add: demo_pool sixteen XMS_START_def)
  from allocate_ok [OF demo_pool(1) ra f1 fr1] obtain r m1 where a1: "xms_allocate_memory 64 demo = Some (ResultOK, 1,
      demo\<lparr>mem := m1, handles := (handles demo)[1 := \<lparr>size_kb = 64, mem_handle = int r, lock_count = 0, is_free = False\<rparr>]\<rparr>)"
    "pool m1 {[r..<r + 16]}" "m1 = (mem demo)\<lparr>mhandles := mhandles m1\<rparr>" "length (mhandles m1) = 512"
    by (auto simp: sixteen demo_pool)
  define s1 where "s1 = demo\<lparr>mem := m1, handles := (handles demo)[1 := \<lparr>size_kb = 64, mem_handle = int r, lock_count = 0, is_free = False\<rparr>]\<rparr>"
  have "xms_reach s1"
    by (rule xms_reach.call [OF demo_reach demo_regs_call(2)]) (simp add: demo_regs_call allocate_call_def a1(1) s1_def)
  with s1_def a1(2-4) show ?thesis by blast
qed

lemma demo_two_blocks:
  "\<exists>s. xms_reach s \<and> xms_is_handle_valid 1 s \<and> xms_is_handle_valid 2 s \<and> size_kb (handles s ! 1) = 64 \<and> size_kb (handles s ! 2) = 64 \<and>
    lock_count (handles s ! 1) = 0 \<and> ram (mem s) = demo_bytes \<and> phandlers (mem s) = phandlers (mem demo) \<and> firstmb_map (mem s) = firstmb_map (mem demo)"
proof -
  obtain s1 r m1 where s1_def: "s1 = demo\<lparr>mem := m1, handles := (handles demo)[1 := \<lparr>size_kb = 64, mem_handle = int r, lock_count = 0, is_free = False\<rparr>]\<rparr>"
    and r1: "xms_reach s1" and m1: "pool m1 {[r..<r + 16]}" "m1 = (mem demo)\<lparr>mhandles := mhandles m1\<rparr>" "length (mhandles m1) = 512"
    using demo_one_block by blast
  have ra1: "ram_above (mem s1)" using xms_reach_inv [OF r1] by (simp add: xms_inv_def table_inv_def)
  have f2: "find_free_handle (drop 1 (handles s1)) 1 = Some 2" 
    by (simp add: s1_def demo_fields start_handles_list XMS_Block_init_def find_free_replicate)
  have p1: "pool (mem s1) {[r..<r + 16]}" using m1(1) by (simp add: s1_def)
  have "\<exists>q. free_run (mhandles (mem s1)) q (get_num_pages 64)"
  proof (cases "r < XMS_START + 16")
    case True
    then have "free_run (mhandles (mem s1)) (XMS_START + 32) 16" by (intro pool_free [OF p1]) (auto simp: s1_def m1(3) XMS_START_def)
    then show ?thesis by (auto simp: sixteen)
  next
    case False
    then have "free_run (mhandles (mem s1)) XMS_START 16" by (intro pool_free [OF p1]) (auto simp: s1_def m1(3) XMS_START_def)
    then show ?thesis by (auto simp: sixteen)
  qed
  then obtain q where "free_run (mhandles (mem s1)) q (get_num_pages 64)" by blast
  from allocate_ok [OF p1 ra1 f2 this] obtain r2 m2 where a2: "xms_allocate_memory 64 s1 = Some (ResultOK, 2,
      s1\<lparr>mem := m2, handles := (handles s1)[2 := \<lparr>size_kb = 64, mem_handle = int r2, lock_count = 0, is_free = False\<rparr>]\<rparr>)"
    "m2 = (mem s1)\<lparr>mhandles := mhandles m2\<rparr>" by auto
  define s2 where "s2 = s1\<lparr>mem := m2, handles := (handles s1)[2 := \<lparr>size_kb = 64, mem_handle = int r2, lock_count = 0, is_free = False\<rparr>]\<rparr>"
  have r2: "xms_reach s2"
    by (rule xms_reach.call [OF r1 demo_regs_call(2)]) (simp add: demo_regs_call allocate_call_def a2(1) s2_def)
  have ln: "length start_handles = NumXmsHandles" by (simp add: start_handles_def)
  have m: "ram (mem s2) = demo_bytes" "phandlers (mem s2) = phandlers (mem demo)" "firstmb_map (mem s2) = firstmb_map (mem demo)"
    using arg_cong [OF a2(2), of ram] arg_cong [OF m1(2), of ram] arg_cong [OF a2(2), of phandlers] arg_cong [OF m1(2), of phandlers]
      arg_cong [OF a2(2), of firstmb_map] arg_cong [OF m1(2), of firstmb_map] demo_pool(3) by (simp_all add: s1_def s2_def)
  have "handles s2 ! 1 = \<lparr>size_kb = 64, mem_handle = int r, lock_count = 0, is_free = False\<rparr>"
    "handles s2 ! 2 = \<lparr>size_kb = 64, mem_handle = int r2, lock_count = 0, is_free = False\<rparr>"
    using ln by (simp_all add: s2_def s1_def demo_fields NumXmsHandles_def)
  then show ?thesis using r2 m by (intro exI [of _ s2]) (simp add: xms_is_handle_valid_def NumXmsHandles_def)
qed

theorem xms_handles_apart_witness:
  "\<exists>s. xms_reach s \<and> xms_is_handle_valid 1 s \<and> xms_is_handle_valid 2 s \<and>
    set (block_run (handles s ! 1)) \<inter> set (block_run (handles s ! 2)) = {} \<and> length (block_run (handles s ! 1)) = 16"
proof -
  obtain s where s: "xms_reach s" "xms_is_handle_valid 1 s" "xms_is_handle_valid 2 s" "size_kb (handles s ! 1) = 64" "size_kb (handles s ! 2) = 64"
    using demo_two_blocks by blast
  show ?thesis using xms_handles_apart [OF s(1), of demo_regs 1] s by (intro exI [of _ s]) (force simp: unat_1)
qed

lemma demo_low:
  assumes "phandlers m = phandlers (mem demo)" "firstmb_map m = firstmb_map (mem demo)" "a < 0x1000"
  shows "writable a m" "phys_addr a m = a" "writable a (MEM_A20_Enable True m)" "phys_addr a (MEM_A20_Enable True m) = a"
proof -
  have "unat (drop_bit 12 a) = 0" using assms(3) by (simp add: page_of_address word_less_nat_alt)
  then have d: "drop_bit 12 a = 0" by (simp only: unat_eq_0)
  have i: "InitPage 0 m = 0" "InitPage 0 (MEM_A20_Enable True m) = 0"
    using assms(2) by (simp_all add: InitPage_def demo_fields MEM_Init_def InitA20_def Let_def A20_map SetPageHandler_ram)
  then show "phys_addr a m = a" "phys_addr a (MEM_A20_Enable True m) = a" using page_split [of a] d by (simp_all add: phys_addr_def)
  have "MEM_GetPageHandler 0 m = ram_page_handler"
    using assms(1) by (simp add: MEM_GetPageHandler_def demo_fields MEM_Init_def InitA20_def Let_def SetPageHandler_frame SetPageHandler_ram)
  moreover have "MEM_GetPageHandler 0 (MEM_A20_Enable True m) = MEM_GetPageHandler 0 m" by (simp add: MEM_GetPageHandler_def)
  ultimately show "writable a m" "writable a (MEM_A20_Enable True m)" using d i by (simp_all add: writable_def)
qed

theorem xms_move_between_blocks_witness:
  "\<exists>s m'. xms_reach s \<and> mem_readw (0x500 + 4) (mem s) = 0 \<and> mem_readw (0x500 + 10) (mem s) = 2 \<and>
    xms_move_memory 0x500 s = Some (ResultOK, s\<lparr>mem := m'\<rparr>) \<and>
    ram m' (of_nat (nat (mem_handle (handles s ! 2)) * 4096 + 1)) = 77"
proof -
  obtain s where s: "xms_reach s" "xms_is_handle_valid 2 s" "size_kb (handles s ! 2) = 64"
    "ram (mem s) = demo_bytes" "phandlers (mem s) = phandlers (mem demo)" "firstmb_map (mem s) = firstmb_map (mem demo)"
    using demo_two_blocks by blast
  note low = demo_low [OF s(5,6)]
  have rd: "mem_readb a (mem s) = demo_bytes a" if "a < 0x1000" for a
    using low(1,2) [OF that] s(4) by (simp add: writable_read)
  have p: "mem_readw (0x500 + 4) (mem s) = 0" "mem_readw (0x500 + 10) (mem s) = 2" "mem_readd 0x500 (mem s) = 2"
    "mem_readd (0x500 + 6) (mem s) = 0x540" "mem_readd (0x500 + 12) (mem s) = 0"
    by (simp_all add: mem_readw_def mem_readd_def rd demo_bytes_def)
  have pt: "RealToPhysical 0x540 = 0x540" by (simp add: RealToPhysical_def RealSegment_def RealOffset_def drop_bit_eq_div)
  have e: "move_error 2 0 0x540 2 0 s = None" using s(2,3) by (simp add: move_error_def side_error_def pt)
  have "plain 0x540 2 (MEM_A20_Enable True (mem s))"
    unfolding plain_def using low(3,4) by (auto dest!: less_2_cases)
  then have pl: "side_plain 0 0x540 2 s" "side_plain 2 0 2 s" by (simp_all add: side_plain_def pt)
  obtain m' where mv: "xms_move_memory 0x500 s = Some (ResultOK, s\<lparr>mem := m'\<rparr>)"
    "\<forall>i<2. ram m' (of_nat (nat (mem_handle (handles s ! 2)) * 4096 + i)) = ram (mem s) (of_nat (0x540 + i))"
    using xms_move_between_blocks [OF s(1) p] e pl by (auto simp: Let_def side_start_def pt)
  have "(1 :: nat) < 2" by simp
  from mv(2) [rule_format, OF this] have "ram m' (of_nat (nat (mem_handle (handles s ! 2)) * 4096 + 1)) = 77"
    by (simp add: s(4) demo_bytes_def)
  then show ?thesis using s(1) p(1,2) mv(1) by blast
qed

theorem xms_zero_size_alias_witness:
  "\<exists>h k s1 s2 s3. xms_allocate_memory 0 demo = Some (ResultOK, h, s1) \<and> xms_allocate_memory 4 s1 = Some (ResultOK, k, s2) \<and>
    xms_free_memory h s2 = Some (ResultOK, s3) \<and> k \<noteq> h \<and> xms_is_handle_valid k s3 \<and> size_kb (handles s3 ! unat k) = 4 \<and>
    get_handle (mem_handle (handles s3 ! unat k)) (mem s3) = Some 0"
proof -
  have "free_run (mhandles (mem demo)) XMS_START 1" by (rule pool_free [OF demo_pool(1)]) (simp_all add: demo_pool XMS_START_def)
  moreover have "length (mhandles (mem demo)) < 0xfffffff" by (simp add: demo_pool)
  ultimately have "MEM_GetNextFreePage (mem demo) \<noteq> 0" using BestMatch_run(2) [of 1 "mem demo"] by (auto simp: MEM_GetNextFreePage_def)
  then show ?thesis by (rule xms_zero_size_alias [OF demo_reach, of 1 2 4])
    (simp_all add: demo_fields start_handles_list XMS_Block_init_def NumXmsHandles_def)
qed

end
