(* ===== verification/Xms_Umb.thy ===== *)
theory Xms_Umb
  imports Xms_Props
begin

text \<open>
  Requests for upper memory: the extended memory driver links the upper blocks, has the DOS memory manager search
  them only, and restores the link state and the strategy. The driver and the DOS memory manager
  together refine a first fit on the merged upper blocks.
\<close>

unbundle bit_operations_syntax

definition upper_only :: "dos_mem \<Rightarrow> dos_mem" where
  "upper_only d = d\<lparr>allocation_strategy := 0x40\<rparr>"

lemma strategy_value: "v AND 0x3f < 3 \<Longrightarrow> snd (DOS_SetMemAllocStrategy v d) = d\<lparr>allocation_strategy := v\<rparr>"
  by (simp add: DOS_SetMemAllocStrategy_def)

lemma dos_inv_strategy [simp]: "dos_inv (d\<lparr>allocation_strategy := v\<rparr>) = dos_inv d"
  by (simp add: dos_inv_def linked_def umb_on_def fun_eq_iff)

lemma dos_inv_upper:
  "dos_inv ((upper_only d)\<lparr>mcbs := m\<rparr>) = dos_inv (d\<lparr>mcbs := m\<rparr>)" "dos_inv ((upper_only d)\<lparr>mcbs := m, errorcode := e\<rparr>) = dos_inv (d\<lparr>mcbs := m\<rparr>)"
  by (simp_all add: upper_only_def dos_inv_def linked_def umb_on_def fun_eq_iff)

text \<open>The search with strategy 0x40 on linked chains visits the merged upper blocks and takes the first that fits.\<close>

definition umb_fit :: "nat \<Rightarrow> blk list \<Rightarrow> bool" where
  "umb_fit n up \<longleftrightarrow> (\<exists>b\<in>set (merge_free up). fits n b)"

definition umb_largest :: "blk list \<Rightarrow> nat" where
  "umb_largest up = Max (insert 0 {len b | b. b \<in> set (merge_free up) \<and> owner b = MCB_FREE})"

lemma locs_snd: "snd ` set (locs a bs) = set bs"
  by (induction bs arbitrary: a) (simp_all add: image_Un)

lemma alloc_upper:
  assumes inv: "dos_inv d pre up" and li: "linked d" and n: "n < 65536"
  shows "\<exists>m. if umb_fit n up
    then \<exists>x b. chosen n 0 (locs 0x9fff (merge_free up)) x b \<and>
      DOS_AllocateMemory (of_nat n) (upper_only d) = Some (Inr (Allocated (of_nat (x + 1)), (upper_only d)\<lparr>mcbs := m\<rparr>)) \<and>
      dos_inv (d\<lparr>mcbs := m\<rparr>) (merge_free pre) (at 0x9fff (merge_free up) x (alloc_effect 0 n (dos_psp d)))
    else DOS_AllocateMemory (of_nat n) (upper_only d) =
        Some (Inr (NoMemory (of_nat (umb_largest up)), (upper_only d)\<lparr>mcbs := m, errorcode := DOSERR_INSUFFICIENT_MEMORY\<rparr>)) \<and>
      dos_inv (d\<lparr>mcbs := m\<rparr>) (merge_free pre) (merge_free up)"
proof -
  let ?d = "upper_only d" and ?up = "merge_free up" and ?pre = "merge_free pre"
  have on: "umb_on d" using li by (simp add: linked_def)
  have inv2: "dos_inv ?d pre up" using inv by (simp add: upper_only_def)
  have c: "compacted ?d up = ?up" using li by (simp add: compacted_def upper_only_def linked_def umb_on_def)
  have k: "allocation_strategy ?d AND 0x3f = 0" "allocation_strategy ?d AND 0xc0 \<noteq> 0" "allocation_strategy ?d AND 0x80 = 0"
    by (simp_all add: upper_only_def)
  have vis: "visited ?d ?pre ?up = locs 0x9fff ?up" using on k by (simp add: visited_def Let_def umb_on_def upper_only_def)
  have ft: "(\<exists>c\<in>set (locs 0x9fff ?up). fits n (snd c)) \<longleftrightarrow> umb_fit n up"
    unfolding umb_fit_def locs_snd [of "0x9fff", symmetric] by auto
  from allocate_total [OF inv2 n] obtain res t m where a: "DOS_AllocateMemory (of_nat n) ?d = Some (Inr (res, t))"
    "dos_inv (?d\<lparr>mcbs := m\<rparr>) ?pre ?up"
    "if umb_fit n up then \<exists>x b m'. chosen n 0 (locs 0x9fff ?up) x b \<and> res = Allocated (of_nat (alloc_seg 0 n x b)) \<and> t = ?d\<lparr>mcbs := m'\<rparr> \<and>
        dos_inv t (at (unat (firstMCB ?d)) ?pre x (alloc_effect 0 n (dos_psp ?d))) (at 0x9fff ?up x (alloc_effect 0 n (dos_psp ?d)))
      else res = NoMemory (of_nat (big n (locs 0x9fff ?up))) \<and> t = ?d\<lparr>mcbs := m\<rparr>\<lparr>errorcode := DOSERR_INSUFFICIENT_MEMORY\<rparr>"
    unfolding Let_def c vis k(1) ft by blast
  show ?thesis
  proof (cases "umb_fit n up")
    case True
    then obtain x b m' where x: "chosen n 0 (locs 0x9fff ?up) x b" "res = Allocated (of_nat (alloc_seg 0 n x b))" "t = ?d\<lparr>mcbs := m'\<rparr>"
      "dos_inv t (at (unat (firstMCB ?d)) ?pre x (alloc_effect 0 n (dos_psp ?d))) (at 0x9fff ?up x (alloc_effect 0 n (dos_psp ?d)))" using a(3) by auto
    have "(x, b) \<in> set (locs 0x9fff ?up)" using x(1) by (auto simp: chosen_def)
    then have "0x9fff \<le> x" using locs_ge by blast
    moreover have "unat (firstMCB ?d) + span ?pre = 0x9fff" using inv on by (simp add: dos_inv_def upper_only_def)
    ultimately have "at (unat (firstMCB ?d)) ?pre x (alloc_effect 0 n (dos_psp ?d)) = ?pre" by (intro at_outside) simp
    then have "dos_inv (d\<lparr>mcbs := m'\<rparr>) ?pre (at 0x9fff ?up x (alloc_effect 0 n (dos_psp d)))"
      using x(3,4) dos_inv_upper(1) [of m' d] by (simp add: upper_only_def)
    then show ?thesis using True a(1) x(1-3) by (auto simp: alloc_seg_def)
  next
    case False
    have "big n (locs 0x9fff ?up) = Max (insert 0 {len b | x b. (x, b) \<in> set (locs 0x9fff ?up) \<and> owner b = MCB_FREE})"
      by (rule big_largest) (use False ft in blast)
    moreover have "{len b | x b. (x, b) \<in> set (locs 0x9fff ?up) \<and> owner b = MCB_FREE} = {len b | b. b \<in> set ?up \<and> owner b = MCB_FREE}"
      unfolding locs_snd [of "0x9fff", symmetric] by force
    ultimately have "big n (locs 0x9fff ?up) = umb_largest up" by (simp add: umb_largest_def)
    then show ?thesis using False a dos_inv_upper(1) [of m d] by auto
  qed
qed

lemma low_byte_word:
  assumes "x < (0x100 :: u16)"
  shows "ucast (ucast (x AND 0xff) :: u8) = x"
proof (rule bit_word_eqI)
  fix n assume n: "n < LENGTH(16)"
  have m: "(0xff :: u16) = mask 8" by (simp add: mask_numeral)
  have "unat (take_bit 8 x) = unat x" using assms by (simp add: word_less_nat_alt take_bit_eq_mod unat_mod)
  then have "take_bit 8 x = x" by (simp add: word_unat_eq_iff)
  then have "bit x n \<longleftrightarrow> n < 8 \<and> bit x n" by (metis bit_take_bit_iff)
  then show "bit (ucast (ucast (x AND 0xff) :: u8) :: u16) n = bit x n" unfolding m by (auto simp: bit_simps bit_mask_iff)
qed

lemma restore_link:
  assumes inv: "dos_inv d pre up" and c1: "chainingUMB d = 1" and on: "umb_on d" and c: "c = 0 \<or> c = 1"
  shows "\<exists>m. (if chainingUMB d AND 1 \<noteq> c AND 1 then map_option snd (DOS_LinkUMBsToMemChain (ucast c) d) else Some d) =
      Some (d\<lparr>mcbs := m, chainingUMB := c\<rparr>) \<and> dos_inv (d\<lparr>mcbs := m, chainingUMB := c\<rparr>) pre up"
  using c
proof
  assume "c = 0"
  moreover have "linked d" using on c1 by (simp add: linked_def)
  ultimately show ?thesis using unlink_inv [OF inv] c1 by auto
next
  assume c': "c = 1"
  have e: "d\<lparr>mcbs := mcbs d, chainingUMB := 1\<rparr> = d" using c1 by simp
  show ?thesis unfolding c' by (rule exI [of _ "mcbs d"], unfold e) (use inv c1 in simp)
qed

text \<open>
  Property C19. A request for upper memory, with the upper blocks unlinked or linked: the driver returns, the
  strategy and the link state are as before, and the conventional blocks are only merged. When one of the
  merged upper blocks is free and large enough, the first such block is given to the current process and its segment
  returned in BX with AX = 1. Otherwise AX = 0, DX is the size of the largest free upper block, and BL says
  whether there is none at all.
\<close>

theorem xms_umb_request:
  assumes "dos_inv (dos s) pre up" and "umb_is_available s" and "umb_on (dos s)" and "chainingUMB (dos s) = 0 \<or> chainingUMB (dos s) = 1"
    and "allocation_strategy (dos s) AND 0x3f < 3" "allocation_strategy (dos s) < 0x100" and "unat (low_word (reg_edx r)) = n"
  shows "\<exists>r' d up'. request_umb r s = Some (r', s\<lparr>dos := d\<rparr>) \<and> allocation_strategy d = allocation_strategy (dos s) \<and>
    chainingUMB d = chainingUMB (dos s) \<and> dos_inv d (merge_free pre) up' \<and>
    (if umb_fit n up
     then \<exists>x b. chosen n 0 (locs 0x9fff (merge_free up)) x b \<and> r' = put_bx (of_nat (x + 1)) (put_ax 1 r) \<and>
       up' = at 0x9fff (merge_free up) x (alloc_effect 0 n (dos_psp (dos s)))
     else up' = merge_free up \<and> r' = put_dx (of_nat (umb_largest up))
       (set_return_value (if of_nat (umb_largest up) = (0 :: u16) then UmbNoBlocksAvailable else UmbOnlySmallerBlock) r))"
proof -
  let ?d0 = "dos s" and ?dx = "low_word (reg_edx r)"
  have dx: "of_nat n = ?dx" "n < 65536" using assms(7) unsigned_less [of ?dx, where ?'a = nat] by auto
  have st: "startOfUMBChain ?d0 \<noteq> 0xffff" using assms(3) by (simp add: umb_on_def umb_start_seg_def)
  obtain m1 where d1: "(if chainingUMB ?d0 AND 1 = 0 then map_option snd (DOS_LinkUMBsToMemChain 1 ?d0) else Some ?d0) = Some (?d0\<lparr>mcbs := m1, chainingUMB := 1\<rparr>)"
    "dos_inv (?d0\<lparr>mcbs := m1, chainingUMB := 1\<rparr>) pre up"
  proof (cases "chainingUMB ?d0 = 0")
    case True
    then have "\<not> linked ?d0" by (simp add: linked_def)
    then show ?thesis using link_inv [OF assms(1,3)] True that by auto
  next
    case False
    then have c: "chainingUMB ?d0 = 1" using assms(4) by blast
    then have "?d0\<lparr>mcbs := mcbs ?d0, chainingUMB := 1\<rparr> = ?d0" by simp
    note e = this
    show ?thesis by (rule that [of "mcbs ?d0"], unfold e) (use c assms(1) in simp_all)
  qed
  let ?d1 = "?d0\<lparr>mcbs := m1, chainingUMB := 1\<rparr>"
  have li: "linked ?d1" using assms(3) by (simp add: linked_def umb_on_def)
  have d2: "snd (DOS_SetMemAllocStrategy 0x40 ?d1) = upper_only ?d1" by (simp add: strategy_value upper_only_def)
  define old where "old = (ucast (DOS_GetMemAllocStrategy ?d1 AND 0xff) :: u8)"
  have old: "ucast old = allocation_strategy ?d0"
    unfolding old_def DOS_GetMemAllocStrategy_def using low_byte_word [OF assms(6)] by simp
  have ok: "request_umb r s = Some (r', s\<lparr>dos := d4\<lparr>allocation_strategy := allocation_strategy ?d0\<rparr>\<rparr>)"
    if "DOS_AllocateMemory ?dx (upper_only ?d1) = Some (Inr (res, d3))"
      "(if chainingUMB d3 AND 1 \<noteq> chainingUMB ?d0 AND 1 then map_option snd (DOS_LinkUMBsToMemChain (ucast (chainingUMB ?d0)) d3) else Some d3) = Some d4"
      "(case res of Allocated seg \<Rightarrow> put_bx seg (put_ax 1 r)
        | NoMemory sz \<Rightarrow> put_dx sz (set_return_value (if sz = 0 then UmbNoBlocksAvailable else UmbOnlySmallerBlock) r)) = r'" for res d3 d4 r'
    unfolding request_umb_def using assms(2,5) st that d1(1) d2 old
    by (simp add: exits_def Let_def old_def [symmetric] strategy_value)
  obtain m where m: "if umb_fit n up
    then \<exists>x b. chosen n 0 (locs 0x9fff (merge_free up)) x b \<and>
      DOS_AllocateMemory ?dx (upper_only ?d1) = Some (Inr (Allocated (of_nat (x + 1)), (upper_only ?d1)\<lparr>mcbs := m\<rparr>)) \<and>
      dos_inv (?d1\<lparr>mcbs := m\<rparr>) (merge_free pre) (at 0x9fff (merge_free up) x (alloc_effect 0 n (dos_psp ?d1)))
    else DOS_AllocateMemory ?dx (upper_only ?d1) =
        Some (Inr (NoMemory (of_nat (umb_largest up)), (upper_only ?d1)\<lparr>mcbs := m, errorcode := DOSERR_INSUFFICIENT_MEMORY\<rparr>)) \<and>
      dos_inv (?d1\<lparr>mcbs := m\<rparr>) (merge_free pre) (merge_free up)"
    using alloc_upper [OF d1(2) li dx(2)] unfolding dx(1) by (elim exE)
  show ?thesis
  proof (cases "umb_fit n up")
    case True
    then obtain x b where x: "chosen n 0 (locs 0x9fff (merge_free up)) x b"
      "DOS_AllocateMemory ?dx (upper_only ?d1) = Some (Inr (Allocated (of_nat (x + 1)), (upper_only ?d1)\<lparr>mcbs := m\<rparr>))"
      "dos_inv (?d1\<lparr>mcbs := m\<rparr>) (merge_free pre) (at 0x9fff (merge_free up) x (alloc_effect 0 n (dos_psp ?d0)))" using m by auto
    let ?d3 = "(upper_only ?d1)\<lparr>mcbs := m\<rparr>"
    have "dos_inv ?d3 (merge_free pre) (at 0x9fff (merge_free up) x (alloc_effect 0 n (dos_psp ?d0)))" using x(3) by (simp only: dos_inv_upper)
    from restore_link [OF this _ _ assms(4)] assms(3) obtain m4 where m4:
      "(if chainingUMB ?d3 AND 1 \<noteq> chainingUMB ?d0 AND 1 then map_option snd (DOS_LinkUMBsToMemChain (ucast (chainingUMB ?d0)) ?d3) else Some ?d3) =
        Some (?d3\<lparr>mcbs := m4, chainingUMB := chainingUMB ?d0\<rparr>)"
      "dos_inv (?d3\<lparr>mcbs := m4, chainingUMB := chainingUMB ?d0\<rparr>) (merge_free pre) (at 0x9fff (merge_free up) x (alloc_effect 0 n (dos_psp ?d0)))"
      by (auto simp: upper_only_def umb_on_def)
    let ?final = "?d3\<lparr>mcbs := m4, chainingUMB := chainingUMB ?d0\<rparr>\<lparr>allocation_strategy := allocation_strategy ?d0\<rparr>"
    have "request_umb r s = Some (put_bx (of_nat (x + 1)) (put_ax 1 r), s\<lparr>dos := ?final\<rparr>)" by (rule ok [OF x(2) m4(1)]) simp
    moreover have "allocation_strategy ?final = allocation_strategy ?d0" "chainingUMB ?final = chainingUMB ?d0" by simp_all
    moreover have "dos_inv ?final (merge_free pre) (at 0x9fff (merge_free up) x (alloc_effect 0 n (dos_psp ?d0)))" unfolding dos_inv_strategy by (rule m4(2))
    ultimately show ?thesis using x(1) unfolding if_P [OF True] by blast
  next
    case False
    let ?d3 = "(upper_only ?d1)\<lparr>mcbs := m, errorcode := DOSERR_INSUFFICIENT_MEMORY\<rparr>"
    have a: "DOS_AllocateMemory ?dx (upper_only ?d1) = Some (Inr (NoMemory (of_nat (umb_largest up)), ?d3))"
      "dos_inv (?d1\<lparr>mcbs := m\<rparr>) (merge_free pre) (merge_free up)" using m False by simp_all
    have "dos_inv ?d3 (merge_free pre) (merge_free up)" using a(2) by (simp only: dos_inv_upper)
    from restore_link [OF this _ _ assms(4)] assms(3) obtain m4 where m4:
      "(if chainingUMB ?d3 AND 1 \<noteq> chainingUMB ?d0 AND 1 then map_option snd (DOS_LinkUMBsToMemChain (ucast (chainingUMB ?d0)) ?d3) else Some ?d3) =
        Some (?d3\<lparr>mcbs := m4, chainingUMB := chainingUMB ?d0\<rparr>)"
      "dos_inv (?d3\<lparr>mcbs := m4, chainingUMB := chainingUMB ?d0\<rparr>) (merge_free pre) (merge_free up)"
      by (auto simp: upper_only_def umb_on_def)
    let ?final = "?d3\<lparr>mcbs := m4, chainingUMB := chainingUMB ?d0\<rparr>\<lparr>allocation_strategy := allocation_strategy ?d0\<rparr>"
    have "request_umb r s = Some (put_dx (of_nat (umb_largest up))
      (set_return_value (if of_nat (umb_largest up) = (0 :: u16) then UmbNoBlocksAvailable else UmbOnlySmallerBlock) r), s\<lparr>dos := ?final\<rparr>)"
      by (rule ok [OF a(1) m4(1)]) simp
    moreover have "allocation_strategy ?final = allocation_strategy ?d0" "chainingUMB ?final = chainingUMB ?d0" by simp_all
    moreover have "dos_inv ?final (merge_free pre) (merge_free up)" unfolding dos_inv_strategy by (rule m4(2))
    ultimately show ?thesis unfolding if_not_P [OF False] by blast
  qed
qed

theorem xms_umb_request_witness:
  "\<exists>s r' d. umb_is_available s \<and> umb_on (dos s) \<and> request_umb demo_regs s = Some (r', s\<lparr>dos := d\<rparr>) \<and> chainingUMB d = 0 \<and> allocation_strategy d = 0"
proof -
  obtain t where t: "umb_on t" "chainingUMB t = 0" "dos_inv t (initial_blocks OtherMachine False) (upper_blocks False)"
    using build_on [of zero_dos False False] by (auto simp: zero_dos_def)
  let ?s = "demo\<lparr>dos := t\<lparr>allocation_strategy := 0\<rparr>, umb_is_available := True\<rparr>"
  have "umb_on (dos ?s)" "umb_is_available ?s" using t(1) by (simp_all add: umb_on_def)
  moreover have "\<exists>r' d. request_umb demo_regs ?s = Some (r', ?s\<lparr>dos := d\<rparr>) \<and> chainingUMB d = 0 \<and> allocation_strategy d = 0"
    using xms_umb_request [of ?s "initial_blocks OtherMachine False" "upper_blocks False" demo_regs _, OF _ _ _ _ _ _ refl] t calculation by fastforce
  ultimately show ?thesis by blast
qed

end
