(* ===== verification/Xms_Resize.thy ===== *)
theory Xms_Resize
  imports Xms_Umb
begin

text \<open>
  Resizing an extended memory block: when there is room, where the block goes, and that no byte of it or of any
  other block is lost.
\<close>

section \<open>Where the pages go\<close>

lemma count_free_ge:
  "k + n \<le> length H \<Longrightarrow> (\<And>i. k \<le> i \<Longrightarrow> i < k + n \<Longrightarrow> H ! i = 0) \<Longrightarrow> n \<le> count_free (drop k H)"
proof (induction n arbitrary: k)
  case (Suc n)
  then have "n \<le> count_free (drop (Suc k) H)" by simp
  moreover have "drop k H = 0 # drop (Suc k) H" using Suc.prems Cons_nth_drop_Suc [of k H] by simp
  ultimately show ?case by simp
qed simp

lemma count_free_iff:
  assumes "XMS_START \<le> k" and "0 < n"
  shows "n \<le> count_free (drop k H) \<longleftrightarrow> free_run H k n"
  using count_free_run [of n k H] count_free_ge [of k n H] assms unfolding free_run_def by blast

lemma ReAllocatePages_place:
  assumes pl: "pool m B" and ps: "ps \<in> B" and ct: "contiguous ps" and n: "0 < n" and ra: "ram_above m"
    and r: "MEM_ReAllocatePages (int (hd ps)) n True m = Some r"
  shows "if n \<le> length ps \<or> free_run (mhandles m) (hd ps + length ps) (n - length ps) then ra_ok r \<and> ra_handle r = int (hd ps)
    else if \<exists>q. free_run (mhandles m) q n
      then ra_ok r \<and> (\<exists>q. ra_handle r = int q \<and> free_run (mhandles m) q n \<and> best_fit n (mhandles m) q)
    else \<not> ra_ok r \<and> ra_handle r = int (hd ps) \<and> ra_mem r = m"
proof -
  have len: "length (mhandles m) < 0xfffffff" using ra by (simp add: ram_above_def)
  have b: "block (mhandles m) ps" using pl ps by (simp add: pool_def)
  then have ne: "ps \<noteq> []" and pos: "0 < hd ps" "XMS_START \<le> hd ps" and c: "pages_from (mhandles m) (int (hd ps)) ps (- 1)"
    using start_pos by (auto simp: block_def neq_Nil_conv)
  have fl: "find_last (int (hd ps)) 0 0 m = Some (int (last ps), length ps)" using find_last_chain [OF c] ne by simp
  have la: "last ps + 1 = hd ps + length ps"
  proof -
    have "last [hd ps..<hd ps + length ps] = hd ps + length ps - 1" using ne by (cases ps) simp_all
    moreover have "0 < hd ps + length ps" using ne by simp
    ultimately show ?thesis using ct by (simp add: contiguous_def)
  qed
  have nz: "hd ps \<noteq> 0" "n \<noteq> 0" using pos n by simp_all
  note re = MEM_ReAllocatePages_def fl nz
  show ?thesis
  proof (cases "n \<le> length ps")
    case True
    then show ?thesis using r by (auto simp: re realloc_res_def bind_eq_Some_conv split: if_splits)
  next
    case False
    have grow: "n - length ps \<le> count_free (drop (last ps + 1) (mhandles m)) \<longleftrightarrow> free_run (mhandles m) (hd ps + length ps) (n - length ps)"
      unfolding la using False pos(2) by (intro count_free_iff) auto
    show ?thesis
    proof (cases "free_run (mhandles m) (hd ps + length ps) (n - length ps)")
      case True
      then show ?thesis using r False grow by (auto simp: re realloc_res_def bind_eq_Some_conv nat_add_distrib)
    next
      case no: False
      note a = AllocatePages_contiguous [OF pl n len]
      show ?thesis
      proof (cases "\<exists>q. free_run (mhandles m) q n")
        case True
        then obtain q m1 where q: "MEM_AllocatePages n True m = Some (int q, m1)" "free_run (mhandles m) q n" "best_fit n (mhandles m) q"
          using a by auto
        have "q \<noteq> 0" using q(2) start_pos by (simp add: free_run_def)
        then have "ra_ok r \<and> ra_handle r = int q"
          using r False no grow q(1) by (auto simp: re realloc_res_def bind_eq_Some_conv nat_add_distrib)
        then show ?thesis using q True False no by auto
      next
        case none: False
        then have "MEM_AllocatePages n True m = Some (0, m)" using a by simp
        then show ?thesis using r False no none grow by (auto simp: re realloc_res_def bind_eq_Some_conv nat_add_distrib)
      qed
    qed
  qed
qed

section \<open>Blocks\<close>

text \<open>
  A block can keep its place when it does not grow or when enough pages directly behind it are free. There is room when it
  can, or when some free run is long enough for the whole block.
\<close>

definition fits_in_place :: "XMS_Block \<Rightarrow> u32 \<Rightarrow> MemoryBlock \<Rightarrow> bool" where
  "fits_in_place b kb m \<longleftrightarrow> size_kb b \<noteq> 0 \<and> (get_num_pages kb \<le> get_num_pages (size_kb b) \<or>
     free_run (mhandles m) (nat (mem_handle b) + get_num_pages (size_kb b)) (get_num_pages kb - get_num_pages (size_kb b)))"

definition has_room :: "XMS_Block \<Rightarrow> u32 \<Rightarrow> MemoryBlock \<Rightarrow> bool" where
  "has_room b kb m \<longleftrightarrow> kb = 0 \<or> fits_in_place b kb m \<or> (\<exists>q. free_run (mhandles m) q (get_num_pages kb))"

definition resized_to :: "XMS_Block \<Rightarrow> u32 \<Rightarrow> MemoryBlock \<Rightarrow> MemHandle \<Rightarrow> bool" where
  "resized_to b kb m h \<longleftrightarrow> (if kb = 0 then h = (if size_kb b = 0 then mem_handle b else - 1)
     else if fits_in_place b kb m then h = mem_handle b
     else \<exists>q. h = int q \<and> free_run (mhandles m) q (get_num_pages kb) \<and> best_fit (get_num_pages kb) (mhandles m) q)"

lemma resize_outcome:
  assumes inv: "table_inv hs m" and i: "0 < i" "i < length hs" and live: "\<not> is_free (hs ! i)"
    and r: "MEM_ReAllocatePages (mem_handle (hs ! i)) (get_num_pages kb) True m = Some r"
  shows "if has_room (hs ! i) kb m then ra_ok r \<and> resized_to (hs ! i) kb m (ra_handle r)
    else \<not> ra_ok r \<and> ra_mem r = m \<and> ra_handle r = (if size_kb (hs ! i) = 0 then 0 else mem_handle (hs ! i))"
proof -
  let ?b = "hs ! i"
  have na: "no_alias ?b" and ra: "ram_above m" and ow: "owns pool m (xms_own hs)" using inv i by (simp_all add: table_inv_def)
  obtain B where B: "pool m B" "ran (xms_own hs) \<subseteq> B" using ow by (auto simp: owns_def)
  have len: "length (mhandles m) < 0xfffffff" using ra by (simp add: ram_above_def)
  show ?thesis
  proof (cases "kb = 0")
    case True
    show ?thesis
    proof (cases "size_kb ?b = 0")
      case z: True
      then have "mem_handle ?b \<le> 0" using na live by (simp add: no_alias_def)
      then show ?thesis using r True z by (auto simp: MEM_ReAllocatePages_def realloc_res_def has_room_def resized_to_def num_pages_zero)
    next
      case z: False
      have "0 < mem_handle ?b" by (rule block_run_start(4) [OF inv i live z])
      then show ?thesis using r True z
        by (auto simp: MEM_ReAllocatePages_def realloc_res_def has_room_def resized_to_def num_pages_zero bind_eq_Some_conv)
    qed
  next
    case False
    then have n: "0 < get_num_pages kb" using num_pages_zero by blast
    show ?thesis
    proof (cases "size_kb ?b = 0")
      case True
      then have h: "mem_handle ?b \<le> 0" using na live by (simp add: no_alias_def)
      have nf: "\<not> fits_in_place ?b kb m" using True by (simp add: fits_in_place_def)
      note a = AllocatePages_contiguous [OF B(1) n len]
      show ?thesis
      proof (cases "\<exists>q. free_run (mhandles m) q (get_num_pages kb)")
        case run: True
        then obtain q m1 where q: "MEM_AllocatePages (get_num_pages kb) True m = Some (int q, m1)" "free_run (mhandles m) q (get_num_pages kb)"
          "best_fit (get_num_pages kb) (mhandles m) q" using a by auto
        have "q \<noteq> 0" using q(2) start_pos by (simp add: free_run_def)
        then have "ra_ok r" "ra_handle r = int q" using r h n q(1) by (auto simp: MEM_ReAllocatePages_def realloc_res_def)
        then show ?thesis using run q(2,3) False nf by (auto simp: has_room_def resized_to_def)
      next
        case none: False
        then have "MEM_AllocatePages (get_num_pages kb) True m = Some (0, m)" using a by simp
        then have "\<not> ra_ok r \<and> ra_mem r = m \<and> ra_handle r = 0" using r h n by (auto simp: MEM_ReAllocatePages_def realloc_res_def)
        moreover have "\<not> has_room ?b kb m" using none False nf by (simp add: has_room_def)
        ultimately show ?thesis using True by simp
      qed
    next
      case z: False
      note rs = block_run_start [OF inv i live z]
      have "block_run ?b \<in> B" using rs(1) B(2) by (meson ranI subsetD)
      moreover have hd: "hd (block_run ?b) = nat (mem_handle ?b)" using rs(2) by (metis nat_int)
      moreover have fp: "fits_in_place ?b kb m \<longleftrightarrow> get_num_pages kb \<le> length (block_run ?b) \<or>
          free_run (mhandles m) (hd (block_run ?b) + length (block_run ?b)) (get_num_pages kb - length (block_run ?b))"
        unfolding hd rs(5) using z by (simp add: fits_in_place_def)
      ultimately have "if fits_in_place ?b kb m then ra_ok r \<and> ra_handle r = mem_handle ?b
        else if \<exists>q. free_run (mhandles m) q (get_num_pages kb)
          then ra_ok r \<and> (\<exists>q. ra_handle r = int q \<and> free_run (mhandles m) q (get_num_pages kb) \<and> best_fit (get_num_pages kb) (mhandles m) q)
        else \<not> ra_ok r \<and> ra_handle r = mem_handle ?b \<and> ra_mem r = m"
        using ReAllocatePages_place [OF B(1) _ rs(3) n ra r [unfolded rs(2)]] unfolding fp rs(2) [symmetric] by blast
      then show ?thesis using False z unfolding has_room_def resized_to_def by (auto split: if_splits)
    qed
  qed
qed

text \<open>
  Property C20. Resizing a block returns on every reachable state. It refuses invalid and locked handles and changes
  nothing then. It succeeds exactly when there is room: the new size needs no more pages than the block has, enough pages
  directly behind the block are free, or some run of free pages is long enough. In the first two cases the block
  keeps its place, otherwise it moves to a smallest such run. The block then has the new size, every
  other block keeps all its bytes, and the block keeps those of the pages it had and still has, even when it moved;
  only memory contents, the page table and this handle change. When there is no room nothing changes at all,
  but for the handle of a block of size zero, whose page number becomes 0.
\<close>

theorem xms_resize_keeps_bytes:
  assumes "xms_reach s"
  shows "\<exists>res s'. xms_resize_memory h kb s = Some (res, s') \<and> (let b = handles s ! unat h in
    if \<not> xms_is_handle_valid h s then res = XmsInvalidHandle \<and> s' = s
    else if lock_count b \<noteq> 0 then res = XmsBlockLocked \<and> s' = s
    else if has_room b kb (mem s) then res = ResultOK \<and>
      (\<exists>m. resized_to b kb (mem s) m \<and> bytes_kept (handles s) (unat h) kb (mem s) (mem s') m \<and>
         s' = s\<lparr>mem := mem s', handles := (handles s)[unat h := b\<lparr>mem_handle := m, size_kb := kb\<rparr>]\<rparr> \<and>
         mem_rest (mem s') = mem_rest (mem s))
    else res = XmsOutOfSpace \<and> s' = (if size_kb b = 0 then s\<lparr>handles := (handles s)[unat h := b\<lparr>mem_handle := 0\<rparr>]\<rparr> else s))"
proof (cases "xms_is_handle_valid h s \<and> lock_count (handles s ! unat h) = 0")
  case False
  then show ?thesis by (auto simp: xms_resize_memory_def Let_def)
next
  case True
  have inv: "xms_inv s" by (rule xms_reach_inv [OF assms])
  then have tb: "table_inv (handles s) (mem s)" by (simp add: xms_inv_def)
  from valid_index [OF inv] True have i: "0 < unat h" "unat h < length (handles s)" "\<not> is_free (handles s ! unat h)" by simp_all
  let ?b = "handles s ! unat h"
  from resize_table [OF tb i, of kb] obtain r where r: "MEM_ReAllocatePages (mem_handle ?b) (get_num_pages kb) True (mem s) = Some r"
    "mem_rest (ra_mem r) = mem_rest (mem s)" "ra_ok r \<Longrightarrow> bytes_kept (handles s) (unat h) kb (mem s) (ra_mem r) (ra_handle r)"
    by (auto split: if_splits)
  note out = resize_outcome [OF tb i r(1)]
  show ?thesis
  proof (cases "has_room ?b kb (mem s)")
    case room: True
    then have "ra_ok r" "resized_to ?b kb (mem s) (ra_handle r)" using out by simp_all
    then show ?thesis using True room r
      by (auto simp: xms_resize_memory_def upd_handle_def Let_def intro!: exI [of _ "ra_handle r"])
  next
    case none: False
    then have "\<not> ra_ok r" "ra_mem r = mem s" "ra_handle r = (if size_kb ?b = 0 then 0 else mem_handle ?b)" using out by simp_all
    then show ?thesis using True none r(1) by (auto simp: xms_resize_memory_def upd_handle_def Let_def)
  qed
qed

text \<open>The example machine has room to double its block.\<close>

theorem xms_resize_keeps_bytes_witness:
  "\<exists>s s'. xms_reach s \<and> size_kb (handles s ! 1) = 64 \<and> xms_resize_memory 1 128 s = Some (ResultOK, s') \<and> size_kb (handles s' ! 1) = 128"
proof -
  obtain s r m1 where s: "s = demo\<lparr>mem := m1, handles := (handles demo)[1 := \<lparr>size_kb = 64, mem_handle = int r, lock_count = 0, is_free = False\<rparr>]\<rparr>"
    and rs: "xms_reach s" and m1: "pool m1 {[r..<r + 16]}" "length (mhandles m1) = 512" using demo_one_block by blast
  have ln: "length start_handles = NumXmsHandles" by (simp add: start_handles_def)
  have h: "handles s ! 1 = \<lparr>size_kb = 64, mem_handle = int r, lock_count = 0, is_free = False\<rparr>" "length (handles s) = NumXmsHandles" "mem s = m1"
    using ln by (simp_all add: s demo_fields NumXmsHandles_def)
  then have v: "xms_is_handle_valid 1 s" by (simp add: xms_is_handle_valid_def NumXmsHandles_def unat_1)
  have n: "get_num_pages 128 = 32" by (simp add: num_pages_value)
  have "\<exists>q. free_run (mhandles m1) q 32"
  proof (cases "r < XMS_START + 32")
    case True
    then have "free_run (mhandles m1) (XMS_START + 48) 32" by (intro pool_free [OF m1(1)]) (auto simp: m1(2) XMS_START_def)
    then show ?thesis by blast
  next
    case False
    then have "free_run (mhandles m1) XMS_START 32" by (intro pool_free [OF m1(1)]) (auto simp: m1(2) XMS_START_def)
    then show ?thesis by blast
  qed
  then have room: "has_room (handles s ! 1) 128 (mem s)" by (simp add: has_room_def n h)
  obtain res s' where r: "xms_resize_memory 1 128 s = Some (res, s')" "res = ResultOK"
    "\<exists>m. s' = s\<lparr>mem := mem s', handles := (handles s)[1 := (handles s ! 1)\<lparr>mem_handle := m, size_kb := 128\<rparr>]\<rparr>"
    using xms_resize_keeps_bytes [OF rs, of 1 128] v room h(1) unfolding Let_def unat_1 by auto
  then obtain m where "handles s' = (handles s)[1 := (handles s ! 1)\<lparr>mem_handle := m, size_kb := 128\<rparr>]" by (metis (no_types, lifting) xms_state.select_convs xms_state.surjective xms_state.update_convs)
  then have "size_kb (handles s' ! 1) = 128" using h(2) by (simp add: NumXmsHandles_def)
  then show ?thesis using rs h(1) r(1,2) by (intro exI [of _ s] exI [of _ s']) simp
qed

end
