(* ===== verification/Ems.thy ===== *)
theory Ems
  imports Mem_Pages Guest_Regs "HOL-Library.Signed_Division"
begin

text \<open>
  The expanded memory manager of \<^verbatim>\<open>src/ints/ems.cpp\<close>: handles over scattered blocks of the page
  allocator, the page frame and the other mappable segments of the first megabyte, saving and
  restoring of mappings, moves of memory regions, and the dispatcher of interrupt 67h with the VCPI functions
  up to the switch of the CPU's mode. \<open>None\<close> is an access outside a table or the emulator's fatal exit;
  messages are left out. A page number times the page size wraps at 32 bits like the
  address it becomes.
\<close>

unbundle bit_operations_syntax

section \<open>State\<close>

definition EMM_PAGEFRAME :: nat where "EMM_PAGEFRAME = 0xE000"
definition EMM_PAGEFRAME_4K :: nat where "EMM_PAGEFRAME_4K = EMM_PAGEFRAME * 16 div 4096"
definition EMM_MAX_HANDLES :: nat where "EMM_MAX_HANDLES = 200"
definition EMM_MAX_PHYS :: nat where "EMM_MAX_PHYS = 4"
definition EmsPageSize :: nat where "EmsPageSize = 16 * 1024"
definition MaxPages :: nat where "MaxPages = 0x7fff"
definition NULL_HANDLE :: u16 where "NULL_HANDLE = 0xffff"
definition NULL_PAGE :: u16 where "NULL_PAGE = 0xffff"

datatype emm_error = EMM_NO_ERROR | EMM_INVALID_HANDLE | EMM_FUNC_NOSUP | EMM_OUT_OF_HANDLES | EMM_OUT_OF_LOG
  | EMM_ZERO_PAGES | EMM_LOG_OUT_RANGE | EMM_ILL_PHYS | EMM_PAGE_MAP_SAVED | EMM_NO_SAVED_PAGE_MAP
  | EMM_INVALID_SUB | EMM_ATTR_UNDEF | EMM_FEAT_NOSUP | EMM_NOT_FOUND

fun emm_code :: "emm_error \<Rightarrow> u8" where
  "emm_code EMM_NO_ERROR = 0x00"
| "emm_code EMM_INVALID_HANDLE = 0x83"
| "emm_code EMM_FUNC_NOSUP = 0x84"
| "emm_code EMM_OUT_OF_HANDLES = 0x85"
| "emm_code EMM_OUT_OF_LOG = 0x88"
| "emm_code EMM_ZERO_PAGES = 0x89"
| "emm_code EMM_LOG_OUT_RANGE = 0x8a"
| "emm_code EMM_ILL_PHYS = 0x8b"
| "emm_code EMM_PAGE_MAP_SAVED = 0x8d"
| "emm_code EMM_NO_SAVED_PAGE_MAP = 0x8e"
| "emm_code EMM_INVALID_SUB = 0x8f"
| "emm_code EMM_ATTR_UNDEF = 0x90"
| "emm_code EMM_FEAT_NOSUP = 0x91"
| "emm_code EMM_NOT_FOUND = 0xa0"

record EMM_Mapping =
  map_handle :: u16
  map_page :: u16

definition unmapped :: EMM_Mapping where
  "unmapped = \<lparr>map_handle = NULL_HANDLE, map_page = NULL_PAGE\<rparr>"

record EMM_Handle =
  emm_pages :: u16
  emm_mem :: MemHandle
  emm_name :: "u8 list"
  saved_page_map :: bool
  page_map :: "EMM_Mapping list"

record vcpi_data =
  vcpi_enabled :: bool
  pm_interface :: u32
  private_area :: u32
  pic1_remapping :: u8
  pic2_remapping :: u8

record ems_state =
  ems_type :: nat
  emm_handles :: "EMM_Handle list"
  emm_mappings :: "EMM_Mapping list"
  emm_segmentmappings :: "EMM_Mapping list"
  vcpi :: vcpi_data
  ems_mem :: MemoryBlock

text \<open>The registers of the caller: those of \<^typ>\<open>guest_regs\<close>, and more.\<close>

record ems_regs = guest_regs +
  reg_di :: u16
  phys_es :: u32
  val_ds :: u16
  flag_VM :: bool
  flag_IF :: bool
  cpu_pmode :: bool

definition put_al :: "u8 \<Rightarrow> ems_regs \<Rightarrow> ems_regs" where "put_al v r = r\<lparr>reg_eax := put_low v (reg_eax r)\<rparr>"
definition put_ah :: "u8 \<Rightarrow> ems_regs \<Rightarrow> ems_regs" where "put_ah v r = r\<lparr>reg_eax := put_high v (reg_eax r)\<rparr>"

definition the_handle :: "u16 \<Rightarrow> ems_state \<Rightarrow> EMM_Handle" where
  "the_handle h s = emm_handles s ! unat h"

definition set_emm_handle :: "u16 \<Rightarrow> EMM_Handle \<Rightarrow> ems_state \<Rightarrow> ems_state" where
  "set_emm_handle h e s = s\<lparr>emm_handles := (emm_handles s)[unat h := e]\<rparr>"

section \<open>Handles and pages\<close>

definition get_total_pages :: "ems_state \<Rightarrow> u16" where
  "get_total_pages s = of_nat (min MaxPages (MEM_TotalPages (ems_mem s) div EMM_MAX_PHYS))"

definition get_free_pages :: "ems_state \<Rightarrow> u16" where
  "get_free_pages s = of_nat (min MaxPages (MEM_FreeTotal (ems_mem s) div EMM_MAX_PHYS))"

definition ValidHandle :: "u16 \<Rightarrow> ems_state \<Rightarrow> bool" where
  "ValidHandle handle s = (unat handle < EMM_MAX_HANDLES \<and> emm_pages (the_handle handle s) \<noteq> NULL_HANDLE)"

fun find_unused :: "EMM_Handle list \<Rightarrow> nat \<Rightarrow> nat option" where
  "find_unused [] handle = None"
| "find_unused (e # es) handle = (if emm_pages e = NULL_HANDLE then Some handle else find_unused es (handle + 1))"

text \<open>The status, the handle if one was allocated, and the state.\<close>

definition EMM_AllocateMemory :: "u16 \<Rightarrow> bool \<Rightarrow> ems_state \<Rightarrow> (emm_error \<times> u16 option \<times> ems_state) option" where
  "EMM_AllocateMemory n can_allocate_zpages s =
     (if n = 0 \<and> \<not> can_allocate_zpages then Some (EMM_ZERO_PAGES, None, s)
      else if get_free_pages s < n then Some (EMM_OUT_OF_LOG, None, s)
      else case find_unused (drop 1 (emm_handles s)) 1 of
        None \<Rightarrow> Some (EMM_OUT_OF_HANDLES, None, s)
      | Some handle \<Rightarrow> do {
          (h, m) \<leftarrow> (if n \<noteq> 0 then MEM_AllocatePages (unat n * 4) False (ems_mem s) else Some (0, ems_mem s));
          if n \<noteq> 0 \<and> h = 0 then None
          else let e = (emm_handles s ! handle)\<lparr>emm_pages := n, emm_mem := h\<rparr> in
            Some (EMM_NO_ERROR, Some (of_nat handle), set_emm_handle (of_nat handle) e (s\<lparr>ems_mem := m\<rparr>)) })"

definition EMM_AllocateSystemHandle :: "u16 \<Rightarrow> ems_state \<Rightarrow> (emm_error \<times> ems_state) option" where
  "EMM_AllocateSystemHandle n s =
     (if get_free_pages s < n then Some (EMM_OUT_OF_LOG, s)
      else do {
        m1 \<leftarrow> (if emm_pages (the_handle 0 s) \<noteq> NULL_HANDLE then MEM_ReleasePages (emm_mem (the_handle 0 s)) (ems_mem s)
               else Some (ems_mem s));
        (h, m) \<leftarrow> MEM_AllocatePages (unat n * 4) False m1;
        if h = 0 then None
        else Some (EMM_NO_ERROR, set_emm_handle 0 ((the_handle 0 s)\<lparr>emm_pages := n, emm_mem := h\<rparr>) (s\<lparr>ems_mem := m\<rparr>)) })"

definition EMM_ReallocatePages :: "u16 \<Rightarrow> u16 \<Rightarrow> ems_state \<Rightarrow> (emm_error \<times> ems_state) option" where
  "EMM_ReallocatePages handle n s =
     (if \<not> ValidHandle handle s then Some (EMM_INVALID_HANDLE, s)
      else let e = the_handle handle s in
        if emm_pages e \<noteq> 0 then do {
          r \<leftarrow> MEM_ReAllocatePages (emm_mem e) (unat n * 4) False (ems_mem s);
          let s1 = set_emm_handle handle (e\<lparr>emm_mem := ra_handle r\<rparr>) (s\<lparr>ems_mem := ra_mem r\<rparr>);
          if \<not> ra_ok r then Some (EMM_OUT_OF_LOG, s1)
          else Some (EMM_NO_ERROR, set_emm_handle handle (e\<lparr>emm_mem := ra_handle r, emm_pages := n\<rparr>) s1) }
        else do {
          (h, m) \<leftarrow> MEM_AllocatePages (unat n * 4) False (ems_mem s);
          if h = 0 then None
          else Some (EMM_NO_ERROR, set_emm_handle handle (e\<lparr>emm_mem := h, emm_pages := n\<rparr>) (s\<lparr>ems_mem := m\<rparr>)) })"

definition EMM_ReleaseMemory :: "u16 \<Rightarrow> ems_state \<Rightarrow> (emm_error \<times> ems_state) option" where
  "EMM_ReleaseMemory handle s =
     (if \<not> ValidHandle handle s then Some (EMM_INVALID_HANDLE, s)
      else let e = the_handle handle s in do {
        m \<leftarrow> (if emm_pages e \<noteq> 0 then MEM_ReleasePages (emm_mem e) (ems_mem s) else Some (ems_mem s));
        Some (EMM_NO_ERROR, set_emm_handle handle
          (e\<lparr>emm_mem := 0, emm_pages := if handle = 0 then 0 else NULL_HANDLE, saved_page_map := False, emm_name := replicate 8 0\<rparr>)
          (s\<lparr>ems_mem := m\<rparr>)) })"

section \<open>Mapping\<close>

text \<open>Four 4 KB pages mapped to themselves, and to four consecutive pages of a block.\<close>

fun unmap_pages :: "nat \<Rightarrow> nat \<Rightarrow> MemoryBlock \<Rightarrow> MemoryBlock" where
  "unmap_pages lin 0 m = m"
| "unmap_pages lin (Suc n) m = unmap_pages (lin + 1) n (PAGING_MapPage (of_nat lin) (of_nat lin) m)"

fun map_pages :: "nat \<Rightarrow> MemHandle \<Rightarrow> nat \<Rightarrow> MemoryBlock \<Rightarrow> MemoryBlock option" where
  "map_pages lin memh 0 m = Some m"
| "map_pages lin memh (Suc n) m = do {
     let m1 = PAGING_MapPage (of_nat lin) (word_of_int memh) m;
     memh' \<leftarrow> MEM_NextHandle memh m1;
     map_pages (lin + 1) memh' n m1 }"

definition map_block :: "nat \<Rightarrow> u16 \<Rightarrow> u16 \<Rightarrow> ems_state \<Rightarrow> ems_state option" where
  "map_block lin handle log_page s = do {
     memh \<leftarrow> MEM_NextHandleAt (emm_mem (the_handle handle s)) (unat log_page * 4) (ems_mem s);
     m \<leftarrow> map_pages lin memh 4 (ems_mem s);
     Some (s\<lparr>ems_mem := m\<rparr>) }"

definition EMM_MapPage :: "nat \<Rightarrow> u16 \<Rightarrow> u16 \<Rightarrow> ems_state \<Rightarrow> (emm_error \<times> ems_state) option" where
  "EMM_MapPage phys_page handle log_page s =
     (if EMM_MAX_PHYS \<le> phys_page then Some (EMM_ILL_PHYS, s)
      else let lin = EMM_PAGEFRAME_4K + phys_page * 4 in
        if log_page = NULL_PAGE then
          Some (EMM_NO_ERROR, s\<lparr>emm_mappings := (emm_mappings s)[phys_page := unmapped], ems_mem := unmap_pages lin 4 (ems_mem s)\<rparr>)
        else if \<not> ValidHandle handle s then Some (EMM_INVALID_HANDLE, s)
        else if log_page < emm_pages (the_handle handle s) then
          map_option (Pair EMM_NO_ERROR) (map_block lin handle log_page
            (s\<lparr>emm_mappings := (emm_mappings s)[phys_page := \<lparr>map_handle = handle, map_page = log_page\<rparr>]\<rparr>))
        else Some (EMM_LOG_OUT_RANGE, s))"

definition valid_segment :: "nat \<Rightarrow> ems_state \<Rightarrow> bool" where
  "valid_segment segment s =
     (if ems_type s = 1 \<or> ems_type s = 3 then segment < 0xf000 + 0x1000
      else (0xa000 \<le> segment \<and> segment < 0xb000) \<or> (EMM_PAGEFRAME \<le> segment \<and> segment < EMM_PAGEFRAME + 0x1000))"

text \<open>The entry of a segment: that of a page of the frame, or one of \<^verbatim>\<open>emm_segmentmappings\<close>. The division truncates.\<close>

definition set_segment_mapping :: "nat \<Rightarrow> EMM_Mapping \<Rightarrow> ems_state \<Rightarrow> ems_state" where
  "set_segment_mapping segment e s =
     (let tphysPage = (int segment - int EMM_PAGEFRAME) sdiv int (0x1000 div EMM_MAX_PHYS) in
      if 0 \<le> tphysPage \<and> tphysPage < int EMM_MAX_PHYS then s\<lparr>emm_mappings := (emm_mappings s)[nat tphysPage := e]\<rparr>
      else s\<lparr>emm_segmentmappings := (emm_segmentmappings s)[segment div 0x400 := e]\<rparr>)"

definition EMM_MapSegment :: "nat \<Rightarrow> u16 \<Rightarrow> u16 \<Rightarrow> ems_state \<Rightarrow> (emm_error \<times> ems_state) option" where
  "EMM_MapSegment segment handle log_page s =
     (if \<not> valid_segment segment s then Some (EMM_ILL_PHYS, s)
      else let lin = segment * 16 div 4096 in
        if log_page = NULL_PAGE then
          (let s1 = set_segment_mapping segment unmapped s in
           Some (EMM_NO_ERROR, s1\<lparr>ems_mem := unmap_pages lin 4 (ems_mem s1)\<rparr>))
        else if \<not> ValidHandle handle s then Some (EMM_INVALID_HANDLE, s)
        else if log_page < emm_pages (the_handle handle s) then
          map_option (Pair EMM_NO_ERROR) (map_block lin handle log_page
            (set_segment_mapping segment \<lparr>map_handle = handle, map_page = log_page\<rparr> s))
        else Some (EMM_LOG_OUT_RANGE, s))"

section \<open>Saving and restoring mappings\<close>

definition EMM_SavePageMap :: "u16 \<Rightarrow> ems_state \<Rightarrow> emm_error \<times> ems_state" where
  "EMM_SavePageMap handle s =
     (if \<not> ValidHandle handle s \<and> handle \<noteq> 0 then (EMM_INVALID_HANDLE, s)
      else let e = the_handle handle s in
        if saved_page_map e then (EMM_PAGE_MAP_SAVED, s)
        else (EMM_NO_ERROR, set_emm_handle handle (e\<lparr>page_map := emm_mappings s, saved_page_map := True\<rparr>) s))"

fun restore_segments :: "nat list \<Rightarrow> ems_state \<Rightarrow> ems_state option" where
  "restore_segments [] s = Some s"
| "restore_segments (i # is) s =
     (if EMM_PAGEFRAME div 0x400 \<le> i \<and> i < EMM_PAGEFRAME div 0x400 + EMM_MAX_PHYS then restore_segments is s
      else let e = emm_segmentmappings s ! i in do {
        (_, s1) \<leftarrow> EMM_MapSegment (i * 0x400) (map_handle e) (map_page e) s; restore_segments is s1 })"

fun restore_frame :: "nat list \<Rightarrow> ems_state \<Rightarrow> ems_state option" where
  "restore_frame [] s = Some s"
| "restore_frame (i # is) s = (let e = emm_mappings s ! i in do {
     (_, s1) \<leftarrow> EMM_MapPage i (map_handle e) (map_page e) s; restore_frame is s1 })"

definition EMM_RestoreMappingTable :: "ems_state \<Rightarrow> (emm_error \<times> ems_state) option" where
  "EMM_RestoreMappingTable s = do {
     s1 \<leftarrow> restore_segments [0..<0x40] s;
     s2 \<leftarrow> restore_frame [0..<EMM_MAX_PHYS] s1;
     Some (EMM_NO_ERROR, s2) }"

definition EMM_RestorePageMap :: "u16 \<Rightarrow> ems_state \<Rightarrow> (emm_error \<times> ems_state) option" where
  "EMM_RestorePageMap handle s =
     (if \<not> ValidHandle handle s \<and> handle \<noteq> 0 then Some (EMM_INVALID_HANDLE, s)
      else let e = the_handle handle s in
        if \<not> saved_page_map e then Some (EMM_NO_SAVED_PAGE_MAP, s)
        else EMM_RestoreMappingTable ((set_emm_handle handle (e\<lparr>saved_page_map := False\<rparr>) s)\<lparr>emm_mappings := page_map e\<rparr>))"

fun write_handle_pages :: "nat \<Rightarrow> EMM_Handle list \<Rightarrow> u32 \<Rightarrow> u16 \<Rightarrow> MemoryBlock \<Rightarrow> u16 \<times> MemoryBlock" where
  "write_handle_pages i [] table n m = (n, m)"
| "write_handle_pages i (e # es) table n m =
     (if emm_pages e \<noteq> NULL_HANDLE then
        write_handle_pages (i + 1) es (table + 4) (n + 1) (mem_writew (table + 2) (emm_pages e) (mem_writew table (of_nat i) m))
      else write_handle_pages (i + 1) es table n m)"

definition EMM_GetPagesForAllHandles :: "u32 \<Rightarrow> ems_state \<Rightarrow> emm_error \<times> u16 \<times> ems_state" where
  "EMM_GetPagesForAllHandles table s = (case write_handle_pages 0 (emm_handles s) table 0 (ems_mem s) of
     (n, m) \<Rightarrow> (EMM_NO_ERROR, n, s\<lparr>ems_mem := m\<rparr>))"

section \<open>Partial page maps\<close>

text \<open>One round of saving: the entry is a page number, the low byte of the handle, and the logical page.\<close>

fun save_partial :: "nat \<Rightarrow> u32 \<Rightarrow> u32 \<Rightarrow> ems_state \<Rightarrow> emm_error \<times> ems_state" where
  "save_partial 0 list data s = (EMM_NO_ERROR, s)"
| "save_partial (Suc count) list data s =
     (let segment = unat (mem_readw list (ems_mem s));
          entry = (\<lambda>page e. mem_writew (data + 2) (map_page e)
            (mem_writeb (data + 1) (ucast (map_handle e)) (mem_writeb data (of_nat page) (ems_mem s))))
      in if EMM_PAGEFRAME \<le> segment \<and> segment < EMM_PAGEFRAME + 0x1000 then
           (let page = (segment - EMM_PAGEFRAME) div 0x400 in
            save_partial count (list + 2) (data + 4) (s\<lparr>ems_mem := entry page (emm_mappings s ! page)\<rparr>))
         else if ems_type s = 1 \<or> ems_type s = 3 \<or> (EMM_PAGEFRAME - 0x1000 \<le> segment \<and> segment < EMM_PAGEFRAME) \<or>
             (0xa000 \<le> segment \<and> segment < 0xb000) then
           (let page = segment div 0x400 in
            save_partial count (list + 2) (data + 4) (s\<lparr>ems_mem := entry page (emm_segmentmappings s ! page)\<rparr>))
         else (EMM_ILL_PHYS, s))"

fun load_partial :: "nat \<Rightarrow> u32 \<Rightarrow> ems_state \<Rightarrow> emm_error \<times> ems_state" where
  "load_partial 0 data s = (EMM_NO_ERROR, s)"
| "load_partial (Suc count) data s =
     (let page = unat (mem_readb data (ems_mem s));
          e = \<lparr>map_handle = ucast (mem_readb (data + 1) (ems_mem s)), map_page = mem_readw (data + 2) (ems_mem s)\<rparr>
      in if page < EMM_MAX_PHYS then load_partial count (data + 4) (s\<lparr>emm_mappings := (emm_mappings s)[page := e]\<rparr>)
         else if page < 0x40 then load_partial count (data + 4) (s\<lparr>emm_segmentmappings := (emm_segmentmappings s)[page := e]\<rparr>)
         else (EMM_ILL_PHYS, s))"

definition EMM_PartialPageMapping :: "ems_regs \<Rightarrow> ems_state \<Rightarrow> (emm_error \<times> ems_regs \<times> ems_state) option" where
  "EMM_PartialPageMapping r s = (let al = low_byte (reg_eax r) in
     if al = 0 then
       (let list = phys_ds r + ucast (reg_si r); data = phys_es r + ucast (reg_di r); count = mem_readw list (ems_mem s);
            (e, s') = save_partial (unat count) (list + 2) (data + 2) (s\<lparr>ems_mem := mem_writew data count (ems_mem s)\<rparr>)
        in Some (e, r, s'))
     else if al = 1 then
       (let data = phys_ds r + ucast (reg_si r); count = mem_readw data (ems_mem s)
        in case load_partial (unat count) (data + 2) s of (e, s1) \<Rightarrow>
          if e \<noteq> EMM_NO_ERROR then Some (e, r, s1)
          else map_option (\<lambda>(e2, s2). (e2, r, s2)) (EMM_RestoreMappingTable s1))
     else if al = 2 then Some (EMM_NO_ERROR, put_al (ucast (2 + low_word (reg_ebx r) * 4)) r, s)
     else Some (EMM_FUNC_NOSUP, r, s))"

section \<open>Names and attributes\<close>

fun write_handle_names :: "nat \<Rightarrow> EMM_Handle list \<Rightarrow> u32 \<Rightarrow> u8 \<Rightarrow> MemoryBlock \<Rightarrow> u8 \<times> MemoryBlock" where
  "write_handle_names i [] data n m = (n, m)"
| "write_handle_names i (e # es) data n m =
     (if emm_pages e \<noteq> NULL_HANDLE then
        write_handle_names (i + 1) es (data + 10) (n + 1) (MEM_BlockWrite (data + 2) (emm_name e) (mem_writew data (of_nat i) m))
      else write_handle_names (i + 1) es data n m)"

text \<open>The bytes of a string up to a length or its end, with the terminator, and the comparison of two strings up to a length.\<close>

fun MEM_StrCopy :: "u32 \<Rightarrow> nat \<Rightarrow> MemoryBlock \<Rightarrow> u8 list" where
  "MEM_StrCopy pt 0 m = [0]"
| "MEM_StrCopy pt (Suc sz) m = (let c = mem_readb pt m in if c = 0 then [0] else c # MEM_StrCopy (pt + 1) sz m)"

fun strncmp_same :: "nat \<Rightarrow> u8 list \<Rightarrow> u8 list \<Rightarrow> bool" where
  "strncmp_same 0 xs ys = True"
| "strncmp_same (Suc n) (x # xs) (y # ys) = (x = y \<and> (x = 0 \<or> strncmp_same n xs ys))"
| "strncmp_same (Suc n) _ _ = False"

fun search_name :: "u8 list \<Rightarrow> nat \<Rightarrow> EMM_Handle list \<Rightarrow> nat option" where
  "search_name name i [] = None"
| "search_name name i (e # es) =
     (if emm_pages e \<noteq> NULL_HANDLE \<and> strncmp_same 8 name (emm_name e) then Some i else search_name name (i + 1) es)"

definition HandleNameSearch :: "ems_regs \<Rightarrow> ems_state \<Rightarrow> emm_error \<times> ems_regs \<times> ems_state" where
  "HandleNameSearch r s = (let al = low_byte (reg_eax r) in
     if al = 0 then (case write_handle_names 0 (emm_handles s) (phys_es r + ucast (reg_di r)) 0 (ems_mem s) of
       (n, m) \<Rightarrow> (EMM_NO_ERROR, put_al n r, s\<lparr>ems_mem := m\<rparr>))
     else if al = 1 then
       (case search_name (MEM_StrCopy (phys_ds r + ucast (reg_si r)) 8 (ems_mem s)) 0 (emm_handles s) of
          None \<Rightarrow> (EMM_NOT_FOUND, r, s)
        | Some handle \<Rightarrow> (EMM_NO_ERROR, put_dx (of_nat handle) r, s))
     else if al = 2 then (EMM_NO_ERROR, put_bx (of_nat EMM_MAX_HANDLES) r, s)
     else (EMM_INVALID_SUB, r, s))"

definition GetSetHandleName :: "ems_regs \<Rightarrow> ems_state \<Rightarrow> emm_error \<times> ems_state" where
  "GetSetHandleName r s = (let handle = low_word (reg_edx r); al = low_byte (reg_eax r) in
     if al = 0 then
       (if \<not> ValidHandle handle s then (EMM_INVALID_HANDLE, s)
        else (EMM_NO_ERROR, s\<lparr>ems_mem := MEM_BlockWrite (phys_es r + ucast (reg_di r)) (emm_name (the_handle handle s)) (ems_mem s)\<rparr>))
     else if al = 1 then
       (if \<not> ValidHandle handle s then (EMM_INVALID_HANDLE, s)
        else (EMM_NO_ERROR, set_emm_handle handle
          ((the_handle handle s)\<lparr>emm_name := MEM_BlockRead (phys_ds r + ucast (reg_si r)) 8 (ems_mem s)\<rparr>) s))
     else (EMM_INVALID_SUB, s))"

definition GetSetHandleAttributes :: "ems_regs \<Rightarrow> ems_state \<Rightarrow> emm_error \<times> ems_regs" where
  "GetSetHandleAttributes r s = (let handle = low_word (reg_edx r); al = low_byte (reg_eax r) in
     if al = 0 then (if \<not> ValidHandle handle s then (EMM_INVALID_HANDLE, r) else (EMM_NO_ERROR, put_al 0 r))
     else if al = 1 then
       (if \<not> ValidHandle handle s then (EMM_INVALID_HANDLE, r)
        else if low_byte (reg_ebx r) = 0 then (EMM_NO_ERROR, r)
        else if low_byte (reg_ebx r) = 1 then (EMM_FEAT_NOSUP, r)
        else (EMM_ATTR_UNDEF, r))
     else if al = 2 then (EMM_NO_ERROR, put_al 0 r)
     else (EMM_INVALID_SUB, r))"

section \<open>Moving memory regions\<close>

record MoveRegion =
  bytes :: u32
  src_type :: u8
  src_handle :: u16
  src_offset :: u16
  src_page_seg :: u16
  dest_type :: u8
  dest_handle :: u16
  dest_offset :: u16
  dest_page_seg :: u16

definition LoadMoveRegion :: "u32 \<Rightarrow> MemoryBlock \<Rightarrow> MoveRegion" where
  "LoadMoveRegion data m = \<lparr>bytes = mem_readd data m,
     src_type = mem_readb (data + 0x4) m, src_handle = mem_readw (data + 0x5) m,
     src_offset = mem_readw (data + 0x7) m, src_page_seg = mem_readw (data + 0x9) m,
     dest_type = mem_readb (data + 0xb) m, dest_handle = mem_readw (data + 0xc) m,
     dest_offset = mem_readw (data + 0xe) m, dest_page_seg = mem_readw (data + 0x10) m\<rparr>"

text \<open>One side of a move: an address of conventional memory, or a page of a block and an offset into it.\<close>

datatype side = Real u32 | Paged MemHandle nat

definition parse_side :: "u8 \<Rightarrow> u16 \<Rightarrow> u16 \<Rightarrow> u16 \<Rightarrow> u32 \<Rightarrow> ems_state \<Rightarrow> (emm_error + side) option" where
  "parse_side typ handle offset page_seg len s =
     (if typ = 0 then Some (Inr (Real (of_nat (unat page_seg * 16 + unat offset))))
      else if \<not> ValidHandle handle s then Some (Inl EMM_INVALID_HANDLE)
      else if (of_nat (unat (emm_pages (the_handle handle s)) * EmsPageSize) :: u32) < of_nat (unat page_seg * EmsPageSize + unat offset) + len
      then Some (Inl EMM_LOG_OUT_RANGE)
      else do {
        h \<leftarrow> MEM_NextHandleAt (emm_mem (the_handle handle s)) (unat page_seg * 4 + unat offset div 4096) (ems_mem s);
        Some (Inr (Paged h (unat offset mod 4096))) })"

fun read_side :: "side \<Rightarrow> nat \<Rightarrow> MemoryBlock \<Rightarrow> u8 list option" where
  "read_side (Real a) n m = Some (MEM_BlockRead a n m)"
| "read_side (Paged h off) n m =
     (if n \<le> 4096 - off then Some (MEM_BlockRead (word_of_int h * 4096 + of_nat off) n m)
      else do {
        h' \<leftarrow> MEM_NextHandle h m;
        Some (MEM_BlockRead (word_of_int h * 4096 + of_nat off) (4096 - off) m @
          MEM_BlockRead (word_of_int h' * 4096) (n - (4096 - off)) m) })"

fun write_side :: "side \<Rightarrow> u8 list \<Rightarrow> MemoryBlock \<Rightarrow> MemoryBlock option" where
  "write_side (Real a) bs m = Some (MEM_BlockWrite a bs m)"
| "write_side (Paged h off) bs m =
     (if length bs \<le> 4096 - off then Some (MEM_BlockWrite (word_of_int h * 4096 + of_nat off) bs m)
      else do {
        let m1 = MEM_BlockWrite (word_of_int h * 4096 + of_nat off) (take (4096 - off) bs) m;
        h' \<leftarrow> MEM_NextHandle h m1;
        Some (MEM_BlockWrite (word_of_int h' * 4096) (drop (4096 - off) bs) m1) })"

fun advance :: "side \<Rightarrow> nat \<Rightarrow> MemoryBlock \<Rightarrow> side option" where
  "advance (Real a) n m = Some (Real (a + of_nat n))"
| "advance (Paged h off) n m = do { h' \<leftarrow> MEM_NextHandle h m; Some (Paged h' off) }"

text \<open>The loop moves or exchanges up to a page of bytes per round.\<close>

function region_loop :: "bool \<Rightarrow> nat \<Rightarrow> side \<Rightarrow> side \<Rightarrow> MemoryBlock \<Rightarrow> MemoryBlock option" where
  "region_loop exchange 0 src dest m = Some m"
| "region_loop exchange (Suc k) src dest m =
     (let toread = min (Suc k) 4096 in do {
        buf_src \<leftarrow> read_side src toread m;
        m1 \<leftarrow> (if exchange then do { buf_dest \<leftarrow> read_side dest toread m; write_side src buf_dest m } else Some m);
        m2 \<leftarrow> write_side dest buf_src m1;
        src' \<leftarrow> advance src toread m2;
        dest' \<leftarrow> advance dest toread m2;
        region_loop exchange (Suc k - toread) src' dest' m2 })"
  by pat_completeness auto

termination
  by (relation "measure (\<lambda>(_, n, _). n)") auto

definition MemoryRegion :: "ems_regs \<Rightarrow> ems_state \<Rightarrow> (emm_error \<times> ems_state) option" where
  "MemoryRegion r s = (let al = low_byte (reg_eax r) in
     if 1 < al then Some (EMM_FUNC_NOSUP, s)
     else let g = LoadMoveRegion (phys_ds r + ucast (reg_si r)) (ems_mem s) in do {
       src \<leftarrow> parse_side (src_type g) (src_handle g) (src_offset g) (src_page_seg g) (bytes g) s;
       case src of Inl e \<Rightarrow> Some (e, s) | Inr sd \<Rightarrow> do {
         dest \<leftarrow> parse_side (dest_type g) (dest_handle g) (dest_offset g) (dest_page_seg g) (bytes g) s;
         case dest of Inl e \<Rightarrow> Some (e, s) | Inr dd \<Rightarrow>
           map_option (\<lambda>m. (EMM_NO_ERROR, s\<lparr>ems_mem := m\<rparr>)) (region_loop (al = 1) (unat (bytes g)) sd dd (ems_mem s)) } })"

section \<open>VCPI\<close>

definition DosPageSize :: u32 where "DosPageSize = 4096"

definition CALLBACK_GetBase :: u32 where "CALLBACK_GetBase = push_bit 4 0xF000 + 0x1000"

definition real_writeb :: "u16 \<Rightarrow> u16 \<Rightarrow> u8 \<Rightarrow> MemoryBlock \<Rightarrow> MemoryBlock" where
  "real_writeb seg off val m = mem_writeb (push_bit 4 (ucast seg) + ucast off) val m"

definition real_writew :: "u16 \<Rightarrow> u16 \<Rightarrow> u16 \<Rightarrow> MemoryBlock \<Rightarrow> MemoryBlock" where
  "real_writew seg off val m = mem_writew (push_bit 4 (ucast seg) + ucast off) val m"

definition real_writed :: "u16 \<Rightarrow> u16 \<Rightarrow> u32 \<Rightarrow> MemoryBlock \<Rightarrow> MemoryBlock" where
  "real_writed seg off val m = mem_writed (push_bit 4 (ucast seg) + ucast off) val m"

text \<open>The first page of a mapped logical page, from a handle that is not checked.\<close>

definition mapped_page :: "EMM_Mapping \<Rightarrow> ems_state \<Rightarrow> MemHandle option" where
  "mapped_page e s = (if unat (map_handle e) < EMM_MAX_HANDLES
     then MEM_NextHandleAt (emm_mem (the_handle (map_handle e) s)) (unat (map_page e) * 4) (ems_mem s) else None)"

definition page_table_entry :: "u16 \<Rightarrow> u16 \<Rightarrow> nat \<Rightarrow> MemoryBlock \<Rightarrow> MemoryBlock" where
  "page_table_entry seg off ct m = seq_do [
     real_writeb seg (off + of_nat (ct * 4)) 0x67,
     real_writew seg (off + of_nat (ct * 4) + 1) (if ct < 0xff then of_nat (ct * 0x10) else of_nat ((ct - 0xff) * 0x10 + 0x1100)),
     real_writeb seg (off + of_nat (ct * 4) + 3) 0x00] m"

fun frame_entries :: "nat list \<Rightarrow> u16 \<Rightarrow> u16 \<Rightarrow> ems_state \<Rightarrow> ems_state option" where
  "frame_entries [] seg off s = Some s"
| "frame_entries (ct # cts) seg off s =
     (let e = emm_mappings s ! ct in
      if map_handle e \<noteq> NULL_HANDLE then do {
        h \<leftarrow> mapped_page e s;
        let memh = (word_of_int h :: u16);
        let entry_addr = off + of_nat (EMM_PAGEFRAME div 64) + of_nat (ct * 0x10);
        let m = seq_do [real_writew seg (entry_addr + 0x01) (memh * 0x10), real_writew seg (entry_addr + 0x05) ((memh + 1) * 0x10),
          real_writew seg (entry_addr + 0x09) ((memh + 2) * 0x10), real_writew seg (entry_addr + 0x0d) ((memh + 3) * 0x10)] (ems_mem s);
        frame_entries cts seg off (s\<lparr>ems_mem := m\<rparr>) }
      else frame_entries cts seg off s)"

definition vcpi_interface :: "ems_regs \<Rightarrow> ems_state \<Rightarrow> (ems_regs \<times> ems_state) option" where
  "vcpi_interface r s = do {
     let m = fold (page_table_entry (val_es r) (reg_di r)) [0..<0x100] (ems_mem s);
     s1 \<leftarrow> frame_entries [0..<4] (val_es r) (reg_di r) (s\<lparr>ems_mem := m\<rparr>);
     let cbseg_low = push_bit 16 (CALLBACK_GetBase AND 0xffff);
     let cbseg_high = drop_bit 16 (CALLBACK_GetBase AND 0x1f0000);
     let m2 = seq_do [
       real_writed (val_ds r) (reg_si r) (0x0000ffff OR cbseg_low), real_writed (val_ds r) (reg_si r + 0x04) (0x00009a00 OR cbseg_high),
       real_writed (val_ds r) (reg_si r + 0x08) 0x0000ffff, real_writed (val_ds r) (reg_si r + 0x0c) 0x00009200,
       real_writed (val_ds r) (reg_si r + 0x10) 0x0000ffff, real_writed (val_ds r) (reg_si r + 0x14) 0x00009200] (ems_mem s1);
     Some (r\<lparr>reg_di := reg_di r + 0x400, reg_ebx := pm_interface (vcpi s1) AND 0xffff\<rparr>, s1\<lparr>ems_mem := m2\<rparr>) }"

definition vcpi_allocate_page :: "ems_regs \<Rightarrow> ems_state \<Rightarrow> (ems_regs \<times> ems_state) option" where
  "vcpi_allocate_page r s = do {
     (h, m) \<leftarrow> MEM_AllocatePages 1 False (ems_mem s);
     Some (if h \<noteq> 0 then put_ah (emm_code EMM_NO_ERROR) (r\<lparr>reg_edx := word_of_int (h * 4096)\<rparr>) else put_ah (emm_code EMM_OUT_OF_LOG) r,
       s\<lparr>ems_mem := m\<rparr>) }"

definition vcpi_free_page :: "ems_regs \<Rightarrow> ems_state \<Rightarrow> (ems_regs \<times> ems_state) option" where
  "vcpi_free_page r s = do {
     m \<leftarrow> MEM_ReleasePages (int (unat (drop_bit 12 (reg_edx r)))) (ems_mem s);
     Some (put_ah (emm_code EMM_NO_ERROR) r, s\<lparr>ems_mem := m\<rparr>) }"

definition vcpi_physical_address :: "ems_regs \<Rightarrow> ems_state \<Rightarrow> ems_regs option" where
  "vcpi_physical_address r s = (let mem_seg = unat (low_word (reg_ecx r)) * 256 in
     if EMM_PAGEFRAME \<le> mem_seg \<and> mem_seg < EMM_PAGEFRAME + 0x1000 then
       (let phys_page = (if mem_seg < EMM_PAGEFRAME + 0x400 then 0 else if mem_seg < EMM_PAGEFRAME + 0x800 then 1
              else if mem_seg < EMM_PAGEFRAME + 0xc00 then 2 else 3);
            e = emm_mappings s ! phys_page
        in if map_handle e = NULL_HANDLE then Some (put_ah (emm_code EMM_ILL_PHYS) r)
           else map_option (\<lambda>memh. put_ah (emm_code EMM_NO_ERROR)
             (r\<lparr>reg_edx := (word_of_int memh + (reg_ecx r AND 3)) * 4096\<rparr>)) (mapped_page e s))
     else Some (put_ah (emm_code EMM_NO_ERROR) (r\<lparr>reg_edx := push_bit 12 (ucast (low_word (reg_ecx r)))\<rparr>)))"

text \<open>
  A call returns to its caller, or switches the mode of the CPU; the latter is modelled up to the point where
  the switch begins.
\<close>

datatype int67_result = Returned ems_regs ems_state | Mode_Switch ems_regs ems_state

definition vcpi_call :: "ems_regs \<Rightarrow> ems_state \<Rightarrow> int67_result option" where
  "vcpi_call r s = (let al = low_byte (reg_eax r); ok = put_ah (emm_code EMM_NO_ERROR);
       ret = map_option (\<lambda>(r', s'). Returned r' s') in
     if al = 0x00 then
       (if (low_word (reg_ecx r) = 0 \<and> reg_di r = 0x0012) \<or> (cpu_pmode r \<and> flag_VM r)
        then Some (Returned (put_bx 0x100 (ok r)) s) else Some (Returned (put_ah (emm_code EMM_FUNC_NOSUP) r) s))
     else if al = 0x01 then ret (do { (r', s') \<leftarrow> vcpi_interface r s; Some (ok r', s') })
     else if al = 0x02 then Some (Returned (ok (r\<lparr>reg_edx := (of_nat (MEM_TotalPages (ems_mem s)) * DosPageSize - 1) AND 0xfffff000\<rparr>)) s)
     else if al = 0x03 then Some (Returned (ok (r\<lparr>reg_edx := of_nat (MEM_FreeTotal (ems_mem s))\<rparr>)) s)
     else if al = 0x04 then ret (vcpi_allocate_page r s)
     else if al = 0x05 then ret (vcpi_free_page r s)
     else if al = 0x06 then map_option (\<lambda>r'. Returned r' s) (vcpi_physical_address r s)
     else if al = 0x0a then Some (Returned (ok (put_cx (ucast (pic2_remapping (vcpi s))) (put_bx (ucast (pic1_remapping (vcpi s))) r))) s)
     else if al = 0x0b then Some (Returned (ok (r\<lparr>flag_IF := False\<rparr>))
       (s\<lparr>vcpi := (vcpi s)\<lparr>pic1_remapping := low_byte (reg_ebx r), pic2_remapping := low_byte (reg_ecx r)\<rparr>\<rparr>))
     else if al = 0x0c then Some (Mode_Switch (r\<lparr>flag_IF := False\<rparr>) s)
     else Some (Returned (put_ah (emm_code EMM_FUNC_NOSUP) r) s))"

definition VCPI_PM_Handler :: "ems_regs \<Rightarrow> ems_state \<Rightarrow> int67_result option" where
  "VCPI_PM_Handler r s = (let ax = low_word (reg_eax r); ret = map_option (\<lambda>(r', s'). Returned r' s') in
     if ax = 0xDE03 then Some (Returned (put_ah (emm_code EMM_NO_ERROR) (r\<lparr>reg_edx := of_nat (MEM_FreeTotal (ems_mem s))\<rparr>)) s)
     else if ax = 0xDE04 then ret (vcpi_allocate_page r s)
     else if ax = 0xDE05 then ret (vcpi_free_page r s)
     else if ax = 0xDE0C then Some (Mode_Switch (r\<lparr>flag_IF := False\<rparr>) s)
     else Some (Returned r s))"

section \<open>Interrupt 67h\<close>

text \<open>The bytes of the table of the page frame, in the host's order, least significant first.\<close>

fun mapping_bytes :: "EMM_Mapping list \<Rightarrow> u8 list" where
  "mapping_bytes [] = []"
| "mapping_bytes (e # es) = [ucast (map_handle e), ucast (drop_bit 8 (map_handle e)), ucast (map_page e), ucast (drop_bit 8 (map_page e))] @
     mapping_bytes es"

fun bytes_mapping :: "u8 list \<Rightarrow> EMM_Mapping list" where
  "bytes_mapping (a # b # c # d # bs) =
     \<lparr>map_handle = ucast a OR push_bit 8 (ucast b), map_page = ucast c OR push_bit 8 (ucast d)\<rparr> # bytes_mapping bs"
| "bytes_mapping _ = []"

definition save_map :: "ems_regs \<Rightarrow> ems_state \<Rightarrow> ems_state" where
  "save_map r s = s\<lparr>ems_mem := MEM_BlockWrite (phys_es r + ucast (reg_di r)) (mapping_bytes (emm_mappings s)) (ems_mem s)\<rparr>"

definition restore_map :: "ems_regs \<Rightarrow> ems_state \<Rightarrow> (emm_error \<times> ems_state) option" where
  "restore_map r s = EMM_RestoreMappingTable
     (s\<lparr>emm_mappings := bytes_mapping (MEM_BlockRead (phys_ds r + ucast (reg_si r)) 16 (ems_mem s))\<rparr>)"

text \<open>Mapping of several pages stops at the first error.\<close>

fun map_multiple :: "(nat \<Rightarrow> u16 \<Rightarrow> u16 \<Rightarrow> ems_state \<Rightarrow> (emm_error \<times> ems_state) option) \<Rightarrow> nat \<Rightarrow> u32 \<Rightarrow> u16 \<Rightarrow> ems_state \<Rightarrow> (emm_error \<times> ems_state) option" where
  "map_multiple mapper 0 data handle s = Some (EMM_NO_ERROR, s)"
| "map_multiple mapper (Suc n) data handle s = do {
     (e, s1) \<leftarrow> mapper (unat (mem_readw (data + 2) (ems_mem s))) handle (mem_readw data (ems_mem s)) s;
     if e \<noteq> EMM_NO_ERROR then Some (e, s1) else map_multiple mapper n (data + 4) handle s1 }"

definition mappable_array :: "u32 \<Rightarrow> MemoryBlock \<Rightarrow> MemoryBlock" where
  "mappable_array data m = fold (\<lambda>i. mem_writew (data + of_nat (i * 4 + 2)) (of_nat i) \<circ>
     mem_writew (data + of_nat (i * 4)) (of_nat (EMM_PAGEFRAME + 0x1000 div EMM_MAX_PHYS * i))) [0..<EMM_MAX_PHYS] m"

definition hardware_info :: "u32 \<Rightarrow> MemoryBlock \<Rightarrow> MemoryBlock" where
  "hardware_info data m = seq_do [mem_writew data 0x0400, mem_writew (data + 2) 0, mem_writew (data + 4) 16,
     mem_writew (data + 6) 0, mem_writew (data + 8) 0] m"

definition status :: "emm_error \<Rightarrow> ems_regs \<Rightarrow> ems_regs" where
  "status e r = put_ah (emm_code e) r"

definition ret_status :: "ems_regs \<Rightarrow> (emm_error \<times> ems_state) option \<Rightarrow> int67_result option" where
  "ret_status r x = map_option (\<lambda>(e, s). Returned (status e r) s) x"

definition ret_alloc :: "ems_regs \<Rightarrow> (emm_error \<times> u16 option \<times> ems_state) option \<Rightarrow> int67_result option" where
  "ret_alloc r x = map_option (\<lambda>(e, h, s). Returned (status e (case h of None \<Rightarrow> r | Some d \<Rightarrow> put_dx d r)) s) x"

definition INT67_Handler :: "ems_regs \<Rightarrow> ems_state \<Rightarrow> int67_result option" where
  "INT67_Handler r s = (let ah = high_byte (reg_eax r); al = low_byte (reg_eax r); bx = low_word (reg_ebx r); dx = low_word (reg_edx r);
       ds_si = phys_ds r + ucast (reg_si r); es_di = phys_es r + ucast (reg_di r); ok = status EMM_NO_ERROR in
     if ah = 0x40 then Some (Returned (ok r) s)
     else if ah = 0x41 then Some (Returned (ok (put_bx (of_nat EMM_PAGEFRAME) r)) s)
     else if ah = 0x42 then Some (Returned (ok (put_bx (get_free_pages s) (put_dx (get_total_pages s) r))) s)
     else if ah = 0x43 then ret_alloc r (EMM_AllocateMemory bx False s)
     else if ah = 0x44 then ret_status r (EMM_MapPage (unat al) dx bx s)
     else if ah = 0x45 then ret_status r (EMM_ReleaseMemory dx s)
     else if ah = 0x46 then Some (Returned (put_al 0x40 (ok r)) s)
     else if ah = 0x47 then ret_status r (Some (EMM_SavePageMap dx s))
     else if ah = 0x48 then ret_status r (EMM_RestorePageMap dx s)
     else if ah = 0x4b then
       Some (Returned (ok (put_bx (of_nat (length (filter (\<lambda>e. emm_pages e \<noteq> NULL_HANDLE) (emm_handles s)))) r)) s)
     else if ah = 0x4c then Some (if \<not> ValidHandle dx s then Returned (status EMM_INVALID_HANDLE r) s
       else Returned (ok (put_bx (emm_pages (the_handle dx s)) r)) s)
     else if ah = 0x4d then (case EMM_GetPagesForAllHandles es_di s of (e, n, s') \<Rightarrow> Some (Returned (status e (put_bx n r)) s'))
     else if ah = 0x4e then
       (if al = 0 then Some (Returned (ok r) (save_map r s))
        else if al = 1 then ret_status r (restore_map r s)
        else if al = 2 then ret_status r (restore_map r (save_map r s))
        else if al = 3 then Some (Returned (ok (put_al 16 r)) s)
        else Some (Returned (status EMM_INVALID_SUB r) s))
     else if ah = 0x4f then map_option (\<lambda>(e, r', s'). Returned (status e r') s') (EMM_PartialPageMapping r s)
     else if ah = 0x50 then
       (if al = 0 then ret_status r (map_multiple EMM_MapPage (unat (low_word (reg_ecx r))) ds_si dx s)
        else if al = 1 then ret_status r (map_multiple EMM_MapSegment (unat (low_word (reg_ecx r))) ds_si dx s)
        else Some (Returned (status EMM_INVALID_SUB r) s))
     else if ah = 0x51 then ret_status r (EMM_ReallocatePages dx bx s)
     else if ah = 0x52 then (case GetSetHandleAttributes r s of (e, r') \<Rightarrow> Some (Returned (status e r') s))
     else if ah = 0x53 then ret_status r (Some (GetSetHandleName r s))
     else if ah = 0x54 then (case HandleNameSearch r s of (e, r', s') \<Rightarrow> Some (Returned (status e r') s'))
     else if ah = 0x57 then ret_status r (MemoryRegion r s)
     else if ah = 0x58 then Some (Returned (ok (put_cx (of_nat EMM_MAX_PHYS) r))
       (if al = 0 then s\<lparr>ems_mem := mappable_array es_di (ems_mem s)\<rparr> else s))
     else if ah = 0x59 then
       (if al = 0 then Some (Returned (ok r) (s\<lparr>ems_mem := hardware_info es_di (ems_mem s)\<rparr>))
        else if al = 1 then Some (Returned (put_bx (get_free_pages s) (put_dx (get_total_pages s) (ok r))) s)
        else Some (Returned (status EMM_INVALID_SUB r) s))
     else if ah = 0x5A then
       (if al \<le> 0x01 then ret_alloc r (EMM_AllocateMemory bx True s) else Some (Returned (status EMM_INVALID_SUB r) s))
     else if ah = 0xDE then (if \<not> vcpi_enabled (vcpi s) then Some (Returned (status EMM_FUNC_NOSUP r) s) else vcpi_call r s)
     else Some (Returned (status EMM_FUNC_NOSUP r) s))"

section \<open>Setup\<close>

text \<open>The descriptor tables, the stubs of the interrupts and the task segment of the VCPI server.\<close>

definition idt_entry :: "u32 \<Rightarrow> nat \<Rightarrow> MemoryBlock \<Rightarrow> MemoryBlock" where
  "idt_entry area int_ct m = seq_do [
     mem_writeb (area + 0x2800 + of_nat (int_ct * 4)) 0xe8,
     mem_writew (area + 0x2800 + of_nat (int_ct * 4) + 1) (0x05fd - of_nat (int_ct * 4)),
     mem_writeb (area + 0x2800 + of_nat (int_ct * 4) + 3) 0xcf,
     mem_writed (area + 0x2000 + of_nat (int_ct * 8)) (0x000c0000 OR of_nat (0x2800 + int_ct * 4)),
     mem_writed (area + 0x2000 + of_nat (int_ct * 8) + 4) 0x0000ee00] m"

definition desc_low :: "u32 \<Rightarrow> u32 \<Rightarrow> u32" where
  "desc_low address limit = push_bit 16 (address AND 0xffff) OR limit"

definition desc_high :: "u32 \<Rightarrow> u32 \<Rightarrow> u32" where
  "desc_high address attributes = drop_bit 16 (address AND 0xff0000) OR (address AND 0xff000000) OR attributes"

definition SetupVCPI :: "ems_state \<Rightarrow> ems_state" where
  "SetupVCPI s = (let area = word_of_int (emm_mem (the_handle 0 s)) * 4096 in
     s\<lparr>vcpi := (vcpi s)\<lparr>vcpi_enabled := True, pic1_remapping := 0x08, pic2_remapping := 0x70, private_area := area\<rparr>,
       ems_mem := seq_do [
         mem_writed area 0, mem_writed (area + 0x0004) 0,
         mem_writed (area + 0x0008) (desc_low (area + 0x1000) 0xff), mem_writed (area + 0x000c) (desc_high (area + 0x1000) 0x8200),
         mem_writed (area + 0x0010) (desc_low (area + 0x3000) (0x0068 + 0x200)), mem_writed (area + 0x0014) (desc_high (area + 0x3000) 0x8900),
         mem_writed (area + 0x1000) 0, mem_writed (area + 0x1004) 0,
         mem_writed (area + 0x1008) (desc_low area 0xffff), mem_writed (area + 0x100c) (desc_high area 0x9a00),
         mem_writed (area + 0x1010) (desc_low area 0xffff), mem_writed (area + 0x1014) (desc_high area 0x9200),
         fold (idt_entry area) [0..<0x100],
         fold (\<lambda>_. mem_writeb (area + 0x3000) 0) [0..<0x68 + 0x200],
         mem_writed (area + 0x3004) 0x00002000, mem_writed (area + 0x3008) 0x00000014,
         mem_writed (area + 0x3066) 0x0068] (ems_mem s)\<rparr>)"

definition clear_tables :: "ems_state \<Rightarrow> ems_state" where
  "clear_tables s = s\<lparr>
     emm_handles := map (\<lambda>e. e\<lparr>emm_mem := 0, emm_pages := NULL_HANDLE, emm_name := replicate 8 0\<rparr>) (emm_handles s),
     emm_mappings := replicate EMM_MAX_PHYS unmapped, emm_segmentmappings := replicate 0x40 unmapped\<rparr>"

text \<open>
  The constructor's work on the tables and the memory: cleared tables, the system handle of 384 KB, the VCPI
  server unless the board is emulated, and the code that calls the monitor, whose callback has number \<open>v86mon\<close>.
\<close>

definition ems_setup :: "u32 \<Rightarrow> u16 \<Rightarrow> ems_state \<Rightarrow> ems_state option" where
  "ems_setup pm v86mon s = do {
     (e, s1) \<leftarrow> EMM_AllocateSystemHandle 24 (clear_tables s);
     if ems_type s1 \<noteq> 2 then
       let s2 = SetupVCPI (s1\<lparr>vcpi := (vcpi s1)\<lparr>pm_interface := pm\<rparr>\<rparr>); area = private_area (vcpi s2) in
       Some (s2\<lparr>ems_mem := seq_do [mem_writeb (area + 0x2e00) 0xFE, mem_writeb (area + 0x2e01) 0x38, mem_writew (area + 0x2e02) v86mon,
         mem_writeb (area + 0x2e04) 0x66, mem_writeb (area + 0x2e05) 0xCF] (ems_mem s2)\<rparr>)
     else Some s1 }"

end
