(* ===== verification/Ems_Inv.thy ===== *)
theory Ems_Inv
  imports Ems Mem_Owner
begin

text \<open>
  The invariant of the expanded memory manager: every handle with pages names its own chain of four
  times as many 4 KB pages, and other owners of memory keep theirs. The operations on handles keep it, return
  outside of the cases in which the emulator exits, and leave the bytes of all blocks alone.
\<close>

unbundle bit_operations_syntax

section \<open>Ownership\<close>

definition emm_live :: "EMM_Handle \<Rightarrow> bool" where
  "emm_live e \<longleftrightarrow> emm_pages e \<noteq> NULL_HANDLE \<and> emm_pages e \<noteq> 0"

definition entry_ok :: "EMM_Handle \<Rightarrow> nat list option \<Rightarrow> bool" where
  "entry_ok e o' \<longleftrightarrow> (case o' of None \<Rightarrow> \<not> emm_live e
     | Some ps \<Rightarrow> emm_live e \<and> emm_mem e = int (hd ps) \<and> length ps = unat (emm_pages e) * 4)"

text \<open>
  \<open>own\<close> gives the pages of each handle, \<open>oth\<close> those of every other owner of blocks.
\<close>

definition ems_table :: "EMM_Handle list \<Rightarrow> MemoryBlock \<Rightarrow> (nat \<rightharpoonup> nat list) \<Rightarrow> ('x \<rightharpoonup> nat list) \<Rightarrow> bool" where
  "ems_table hs m own oth \<longleftrightarrow> length hs = EMM_MAX_HANDLES \<and> ram_above m \<and> owns pool m (case_sum own oth) \<and>
     (\<forall>i<EMM_MAX_HANDLES. entry_ok (hs ! i) (own i)) \<and> (\<forall>i\<ge>EMM_MAX_HANDLES. own i = None)"

definition ems_inv :: "ems_state \<Rightarrow> (nat \<rightharpoonup> nat list) \<Rightarrow> ('x \<rightharpoonup> nat list) \<Rightarrow> bool" where
  "ems_inv s own oth \<longleftrightarrow> ems_table (emm_handles s) (ems_mem s) own oth \<and>
     length (emm_mappings s) = EMM_MAX_PHYS \<and> length (emm_segmentmappings s) = 0x40 \<and>
     (\<forall>e\<in>set (emm_handles s). saved_page_map e \<longrightarrow> length (page_map e) = EMM_MAX_PHYS)"

lemma sum_upd [simp]:
  "(case_sum f g)(Inl i := v) = case_sum (f(i := v)) g" "(case_sum f g)(Inr j := v) = case_sum f (g(j := v))"
  by (auto split: sum.split)

lemma table_upd:
  assumes "ems_table hs m own oth" and "i < EMM_MAX_HANDLES" and "ram_above m'" "owns pool m' (case_sum (own(i := o')) oth')" and "entry_ok e o'"
  shows "ems_table (hs[i := e]) m' (own(i := o')) oth'"
  using assms by (auto simp: ems_table_def nth_list_update)

lemma ems_table_frame:
  "mhandles m' = mhandles m \<Longrightarrow> phandlers m' = phandlers m \<Longrightarrow> ems_table hs m' own oth = ems_table hs m own oth"
  by (simp add: ems_table_def ram_above_def owns_def pool_def)

lemma live_block:
  assumes "ems_table hs m own oth" and "i < EMM_MAX_HANDLES" and "emm_live (hs ! i)"
  obtains ps where "own i = Some ps" "emm_mem (hs ! i) = int (hd ps)" "length ps = unat (emm_pages (hs ! i)) * 4"
    "ps \<noteq> []" "pages_from (mhandles m) (int (hd ps)) ps (- 1)"
proof -
  obtain ps where ps: "own i = Some ps" "emm_mem (hs ! i) = int (hd ps)" "length ps = unat (emm_pages (hs ! i)) * 4"
    using assms by (auto simp: ems_table_def entry_ok_def split: option.splits)
  obtain B where B: "pool m B" "ran (case_sum own oth) \<subseteq> B" using assms(1) by (auto simp: ems_table_def owns_def)
  have "case_sum own oth (Inl i) = Some ps" using ps(1) by simp
  then have "ps \<in> B" using B(2) by (metis ranI subsetD)
  then have "block (mhandles m) ps" using B(1) by (simp add: pool_def)
  then show ?thesis using that [OF ps] by (simp add: block_def)
qed

lemma unused_owner:
  assumes "ems_table hs m own oth" and "i < EMM_MAX_HANDLES" and "\<not> emm_live (hs ! i)"
  shows "own i = None"
  using assms by (auto simp: ems_table_def entry_ok_def split: option.splits)

section \<open>Blocks of handles\<close>

text \<open>A handle without pages gets some, has its pages taken away, or gets another number of them.\<close>

lemma gather_entry:
  assumes t: "ems_table hs m own oth" and i: "i < EMM_MAX_HANDLES" "\<not> emm_live (hs ! i)"
    and r: "tail_longest (mhandles m)" and n: "n \<noteq> 0" "n \<noteq> NULL_HANDLE"
  shows "if MEM_FreeTotal m < unat n * 4 then MEM_AllocatePages (unat n * 4) False m = Some (0, m)
    else \<exists>h m' ps. MEM_AllocatePages (unat n * 4) False m = Some (h, m') \<and> 0 < h \<and> ram m' = ram m \<and> mem_rest m' = mem_rest m \<and>
      (\<forall>e. emm_pages e = n \<and> emm_mem e = h \<longrightarrow> ems_table (hs[i := e]) m' (own(i \<mapsto> ps)) oth)"
proof (cases "MEM_FreeTotal m < unat n * 4")
  case False
  have o: "owns pool m (case_sum own oth)" "ram_above m" using t by (simp_all add: ems_table_def)
  have k: "0 < unat n * 4" using n(1) by (simp add: unat_gt_0)
  have "case_sum own oth (Inl i) = None" using unused_owner [OF t i] by simp
  from sp.owns_gather [OF o r k this] False obtain qs m' where q: "MEM_AllocatePages (unat n * 4) False m = Some (int (hd qs), m')"
    "0 < hd qs" "length qs = unat n * 4" "owns pool m' ((case_sum own oth)(Inl i \<mapsto> qs))" "ram_above m'" "mem_rest m' = mem_rest m" "ram m' = ram m" by auto
  have "ems_table (hs[i := e]) m' (own(i \<mapsto> qs)) oth" if "emm_pages e = n" "emm_mem e = int (hd qs)" for e
    using table_upd [OF t i(1) q(5), of "Some qs" oth e] q(3,4) that n by (simp add: entry_ok_def emm_live_def)
  then show ?thesis using False q(1,2,6,7) by auto
next
  case True
  have o: "owns pool m (case_sum own oth)" "ram_above m" using t by (simp_all add: ems_table_def)
  have k: "0 < unat n * 4" using n(1) by (simp add: unat_gt_0)
  have "case_sum own oth (Inl i) = None" using unused_owner [OF t i] by simp
  from sp.owns_gather [OF o r k this] True show ?thesis by simp
qed

lemma release_entry:
  assumes t: "ems_table hs m own oth" and i: "i < EMM_MAX_HANDLES"
  shows "\<exists>m'. (if emm_live (hs ! i) then MEM_ReleasePages (emm_mem (hs ! i)) m else Some m) = Some m' \<and> ram m' = ram m \<and> mem_rest m' = mem_rest m \<and>
    (\<forall>e. \<not> emm_live e \<longrightarrow> ems_table (hs[i := e]) m' (own(i := None)) oth)"
proof (cases "emm_live (hs ! i)")
  case True
  obtain ps where ps: "own i = Some ps" "emm_mem (hs ! i) = int (hd ps)" using live_block [OF t i True] by metis
  have o: "owns pool m (case_sum own oth)" "ram_above m" "case_sum own oth (Inl i) = Some ps" using t ps by (simp_all add: ems_table_def)
  from mp.owns_release [OF o] obtain m' where m': "MEM_ReleasePages (int (hd ps)) m = Some m'" "owns pool m' ((case_sum own oth)(Inl i := None))"
    "ram_above m'" "mem_rest m' = mem_rest m" "ram m' = ram m" by blast
  have "ems_table (hs[i := e]) m' (own(i := None)) oth" if "\<not> emm_live e" for e
    using table_upd [OF t i m'(3), of None oth e] m'(2) that by (simp add: entry_ok_def)
  then show ?thesis using True ps(2) m' by auto
next
  case False
  have "own(i := None) = own" using unused_owner [OF t i False] by auto
  moreover have "ems_table (hs[i := e]) m (own(i := None)) oth" if "\<not> emm_live e" for e
    using table_upd [OF t i, of m None oth e] t that by (simp add: entry_ok_def ems_table_def calculation)
  ultimately show ?thesis using False by auto
qed

lemma regather_entry:
  assumes t: "ems_table hs m own oth" and i: "i < EMM_MAX_HANDLES" and ps: "own i = Some ps"
    and r: "tail_longest (mhandles m)" and n: "n \<noteq> 0" "n \<noteq> NULL_HANDLE"
  shows "if MEM_FreeTotal m < unat n * 4 - length ps
    then MEM_ReAllocatePages (emm_mem (hs ! i)) (unat n * 4) False m = Some (realloc_res False (emm_mem (hs ! i)) m)
    else \<exists>m' qs. MEM_ReAllocatePages (emm_mem (hs ! i)) (unat n * 4) False m = Some (realloc_res True (emm_mem (hs ! i)) m') \<and>
      ram m' = ram m \<and> mem_rest m' = mem_rest m \<and>
      (\<forall>e. emm_pages e = n \<and> emm_mem e = emm_mem (hs ! i) \<longrightarrow>
        ems_table (hs[i := e]) m' (own(i \<mapsto> take (unat n * 4) ps @ qs)) oth)"
proof -
  have o: "owns pool m (case_sum own oth)" "ram_above m" "case_sum own oth (Inl i) = Some ps" using t ps by (simp_all add: ems_table_def)
  have h: "emm_mem (hs ! i) = int (hd ps)" using t i ps by (auto simp: ems_table_def entry_ok_def split: option.splits)
  have k: "0 < unat n * 4" using n(1) by (simp add: unat_gt_0)
  note R = sp.owns_regather [OF o(1,2) r o(3) k]
  have re: "MEM_ReAllocatePages (int (hd ps)) (unat n * 4) False m = Some (realloc_res b h' m')"
    if "regather_pages (int (hd ps)) (unat n * 4) m = Some (b, h', m')" for b h' m'
    using that by (auto simp: regather_pages_def realloc_res_def)
  show ?thesis
  proof (cases "MEM_FreeTotal m < unat n * 4 - length ps")
    case True
    then show ?thesis using R re [of False "int (hd ps)" m] h by simp
  next
    case False
    then obtain qs m' where q: "regather_pages (int (hd ps)) (unat n * 4) m = Some (True, int (hd ps), m')" "length (take (unat n * 4) ps @ qs) = unat n * 4"
      "owns pool m' ((case_sum own oth)(Inl i \<mapsto> take (unat n * 4) ps @ qs))" "ram_above m'" "mem_rest m' = mem_rest m" "ram m' = ram m" using R by auto
    have ne: "ps \<noteq> []" using mp.owns_start [OF o(1,3)] by simp
    have hd: "hd (take (unat n * 4) ps @ qs) = hd ps" using ne k by (cases ps; cases "unat n") auto
    have "ems_table (hs[i := e]) m' (own(i \<mapsto> take (unat n * 4) ps @ qs)) oth" if "emm_pages e = n" "emm_mem e = int (hd ps)" for e
      using table_upd [OF t i q(4), of "Some (take (unat n * 4) ps @ qs)" oth e] q(2,3) that n hd by (simp add: entry_ok_def emm_live_def)
    then show ?thesis using False re [OF q(1)] h q(5,6) by auto
  qed
qed

section \<open>Operations on handles\<close>

lemma inv_upd:
  assumes "ems_inv s own oth" and "i < EMM_MAX_HANDLES" and "ems_table ((emm_handles s)[i := e]) m own' oth'"
    and "saved_page_map e \<longrightarrow> length (page_map e) = EMM_MAX_PHYS"
  shows "ems_inv (s\<lparr>emm_handles := (emm_handles s)[i := e], ems_mem := m\<rparr>) own' oth'"
  using assms by (auto simp: ems_inv_def dest: set_update_subset_insert [THEN subsetD])

lemma inv_saved: "ems_inv s own oth \<Longrightarrow> i < EMM_MAX_HANDLES \<Longrightarrow> saved_page_map (emm_handles s ! i) \<longrightarrow> length (page_map (emm_handles s ! i)) = EMM_MAX_PHYS"
  by (simp add: ems_inv_def ems_table_def)

lemma set_emm_handle_mem: "set_emm_handle h e (s\<lparr>ems_mem := m\<rparr>) = s\<lparr>emm_handles := (emm_handles s)[unat h := e], ems_mem := m\<rparr>"
  by (simp add: set_emm_handle_def)

lemma free_pages_enough:
  assumes "\<not> get_free_pages s < n"
  shows "unat n * 4 \<le> MEM_FreeTotal (ems_mem s)" "n \<noteq> NULL_HANDLE"
proof -
  have "unat (get_free_pages s) = min MaxPages (MEM_FreeTotal (ems_mem s) div EMM_MAX_PHYS)"
    by (simp add: get_free_pages_def unat_of_nat MaxPages_def min_def)
  then have "unat n \<le> MEM_FreeTotal (ems_mem s) div 4" "unat n \<le> 0x7fff"
    using assms by (auto simp: word_less_nat_alt EMM_MAX_PHYS_def MaxPages_def min_def split: if_splits)
  then show "unat n * 4 \<le> MEM_FreeTotal (ems_mem s)" "n \<noteq> NULL_HANDLE" by (auto simp: NULL_HANDLE_def)
qed

lemma find_unused_some:
  "find_unused es k = Some i \<Longrightarrow> k \<le> i \<and> i < k + length es \<and> emm_pages (es ! (i - k)) = NULL_HANDLE \<and>
    (\<forall>j. k \<le> j \<and> j < i \<longrightarrow> emm_pages (es ! (j - k)) \<noteq> NULL_HANDLE)"
proof (induction es arbitrary: k)
  case (Cons e es)
  show ?case
  proof (cases "emm_pages e = NULL_HANDLE")
    case False
    then have a: "k + 1 \<le> i \<and> i < k + 1 + length es \<and> emm_pages (es ! (i - (k + 1))) = NULL_HANDLE \<and>
        (\<forall>j. k + 1 \<le> j \<and> j < i \<longrightarrow> emm_pages (es ! (j - (k + 1))) \<noteq> NULL_HANDLE)"
      using Cons.IH [of "k + 1"] Cons.prems by simp
    have "emm_pages ((e # es) ! (j - k)) \<noteq> NULL_HANDLE" if "k \<le> j" "j < i" for j
      using a False that by (cases "j = k") (auto simp: nth_Cons' less_eq_Suc_le [symmetric])
    moreover have "emm_pages ((e # es) ! (i - k)) = NULL_HANDLE" using a by (auto simp: nth_Cons')
    ultimately show ?thesis using a by simp
  qed (use Cons.prems in auto)
qed simp

lemma find_unused_none: "find_unused es k = None \<longleftrightarrow> (\<forall>e\<in>set es. emm_pages e \<noteq> NULL_HANDLE)"
  by (induction es arbitrary: k) auto

text \<open>What an operation on handles may change: the table of handles and the page allocator's table.\<close>

definition handles_only :: "ems_state \<Rightarrow> ems_state \<Rightarrow> bool" where
  "handles_only s s' \<longleftrightarrow> s' = s\<lparr>emm_handles := emm_handles s', ems_mem := ems_mem s'\<rparr> \<and> ram (ems_mem s') = ram (ems_mem s) \<and>
     mem_rest (ems_mem s') = mem_rest (ems_mem s)"

lemma AllocateMemory_spec:
  assumes inv: "ems_inv s own oth" and r: "tail_longest (mhandles (ems_mem s))"
  shows "if n = 0 \<and> \<not> z then EMM_AllocateMemory n z s = Some (EMM_ZERO_PAGES, None, s)
    else if get_free_pages s < n then EMM_AllocateMemory n z s = Some (EMM_OUT_OF_LOG, None, s)
    else if \<forall>i. 0 < i \<and> i < EMM_MAX_HANDLES \<longrightarrow> emm_pages (emm_handles s ! i) \<noteq> NULL_HANDLE
    then EMM_AllocateMemory n z s = Some (EMM_OUT_OF_HANDLES, None, s)
    else \<exists>i s' o'. EMM_AllocateMemory n z s = Some (EMM_NO_ERROR, Some (of_nat i), s') \<and> 0 < i \<and> i < EMM_MAX_HANDLES \<and>
      emm_pages (emm_handles s ! i) = NULL_HANDLE \<and> (\<forall>j. 0 < j \<and> j < i \<longrightarrow> emm_pages (emm_handles s ! j) \<noteq> NULL_HANDLE) \<and>
      emm_pages (emm_handles s' ! i) = n \<and> (\<forall>j. j \<noteq> i \<longrightarrow> emm_handles s' ! j = emm_handles s ! j) \<and>
      ems_inv s' (own(i := o')) oth \<and> handles_only s s'"
proof -
  have t: "ems_table (emm_handles s) (ems_mem s) own oth" and len: "length (emm_handles s) = EMM_MAX_HANDLES" using inv by (simp_all add: ems_inv_def ems_table_def)
  have nth: "drop 1 (emm_handles s) ! (j - 1) = emm_handles s ! j" if "0 < j" "j < EMM_MAX_HANDLES" for j using that len by simp
  show ?thesis
  proof (cases "(n = 0 \<and> \<not> z) \<or> get_free_pages s < n")
    case False
    show ?thesis
    proof (cases "find_unused (drop 1 (emm_handles s)) 1")
      case None
      have "emm_pages (emm_handles s ! i) \<noteq> NULL_HANDLE" if "0 < i" "i < EMM_MAX_HANDLES" for i
      proof -
        have "drop 1 (emm_handles s) ! (i - 1) \<in> set (drop 1 (emm_handles s))" using that len by (intro nth_mem) simp
        then show ?thesis using None nth that unfolding find_unused_none by metis
      qed
      then show ?thesis using False None by (simp add: EMM_AllocateMemory_def)
    next
      case (Some i)
      note F = find_unused_some [OF Some]
      have i: "0 < i" "i < EMM_MAX_HANDLES" and u: "emm_pages (emm_handles s ! i) = NULL_HANDLE" using F len nth [of i] by auto
      have before: "\<forall>j. 0 < j \<and> j < i \<longrightarrow> emm_pages (emm_handles s ! j) \<noteq> NULL_HANDLE" using F i(2) nth by auto
      have ui: "unat (of_nat i :: u16) = i" using i(2) by (simp add: unat_of_nat EMM_MAX_HANDLES_def)
      have nl: "\<not> emm_live (emm_handles s ! i)" using u by (simp add: emm_live_def)
      obtain h m' o' where a: "(if n \<noteq> 0 then MEM_AllocatePages (unat n * 4) False (ems_mem s) else Some (0, ems_mem s)) = Some (h, m')" "n = 0 \<or> h \<noteq> 0"
        "ram m' = ram (ems_mem s)" "mem_rest m' = mem_rest (ems_mem s)"
        "ems_table ((emm_handles s)[i := (emm_handles s ! i)\<lparr>emm_pages := n, emm_mem := h\<rparr>]) m' (own(i := o')) oth"
      proof (cases "n = 0")
        case True
        then show ?thesis using release_entry [OF t i(2)] nl that [of 0 "ems_mem s" None] by (auto simp: emm_live_def)
      next
        case n: False
        have f: "unat n * 4 \<le> MEM_FreeTotal (ems_mem s)" "n \<noteq> NULL_HANDLE" using free_pages_enough False by auto
        from gather_entry [OF t i(2) nl r n f(2)] f(1) obtain h m' ps where
          "MEM_AllocatePages (unat n * 4) False (ems_mem s) = Some (h, m')" "0 < h" "ram m' = ram (ems_mem s)" "mem_rest m' = mem_rest (ems_mem s)"
          "\<forall>e. emm_pages e = n \<and> emm_mem e = h \<longrightarrow> ems_table ((emm_handles s)[i := e]) m' (own(i \<mapsto> ps)) oth" by auto
        then show ?thesis using n by (intro that [of h m' "Some ps"]) auto
      qed
      let ?e = "(emm_handles s ! i)\<lparr>emm_pages := n, emm_mem := h\<rparr>"
      define s' where "s' = s\<lparr>emm_handles := (emm_handles s)[i := ?e], ems_mem := m'\<rparr>"
      have "EMM_AllocateMemory n z s = Some (EMM_NO_ERROR, Some (of_nat i), s')"
        using False Some a(1,2) by (simp add: EMM_AllocateMemory_def set_emm_handle_mem ui s'_def Let_def)
      moreover have "ems_inv s' (own(i := o')) oth" unfolding s'_def using inv_saved [OF inv i(2)] by (intro inv_upd [OF inv i(2) a(5)]) simp
      moreover have "handles_only s s'" using a(3,4) by (simp add: handles_only_def s'_def)
      moreover have "emm_pages (emm_handles s' ! i) = n" "\<forall>j. j \<noteq> i \<longrightarrow> emm_handles s' ! j = emm_handles s ! j" using i(2) len by (simp_all add: s'_def)
      ultimately show ?thesis using False i u before by (auto simp del: fun_upd_apply)
    qed
  qed (auto simp: EMM_AllocateMemory_def)
qed

lemma handle_reset [simp]: "set_emm_handle h (the_handle h s) s = s"
  by (simp add: set_emm_handle_def the_handle_def)

lemma ReallocatePages_spec:
  fixes handle :: u16
  assumes inv: "ems_inv s own oth" and r: "tail_longest (mhandles (ems_mem s))" and n: "n \<noteq> NULL_HANDLE"
  defines "p \<equiv> emm_pages (the_handle handle s)" and "free \<equiv> MEM_FreeTotal (ems_mem s)"
  shows "if \<not> ValidHandle handle s then EMM_ReallocatePages handle n s = Some (EMM_INVALID_HANDLE, s)
    else if p = 0 \<and> (n = 0 \<or> free < unat n * 4) then EMM_ReallocatePages handle n s = None
    else if free < unat n * 4 - unat p * 4 then EMM_ReallocatePages handle n s = Some (EMM_OUT_OF_LOG, s)
    else \<exists>s' ps. EMM_ReallocatePages handle n s = Some (EMM_NO_ERROR, s') \<and> emm_pages (the_handle handle s') = n \<and>
      (\<forall>j. j \<noteq> unat handle \<longrightarrow> emm_handles s' ! j = emm_handles s ! j) \<and> handles_only s s' \<and>
      ems_inv s' (own(unat handle := if n = 0 then None else Some ps)) oth \<and>
      (\<forall>qs. own (unat handle) = Some qs \<and> n \<noteq> 0 \<longrightarrow> take (min (unat n * 4) (length qs)) ps = take (unat n * 4) qs)"
proof (cases "ValidHandle handle s")
  case True
  define i where "i = unat handle"
  define e where "e = emm_handles s ! i"
  have th: "the_handle handle s = e" by (simp add: the_handle_def i_def e_def)
  have t: "ems_table (emm_handles s) (ems_mem s) own oth" and len: "length (emm_handles s) = EMM_MAX_HANDLES" using inv by (simp_all add: ems_inv_def ems_table_def)
  have i: "i < EMM_MAX_HANDLES" "emm_pages e \<noteq> NULL_HANDLE" using True by (simp_all add: ValidHandle_def th) (simp add: i_def)
  have sv: "saved_page_map e \<longrightarrow> length (page_map e) = EMM_MAX_PHYS" using inv_saved [OF inv i(1)] by (simp add: e_def)
  have fin: ?thesis if x: "EMM_ReallocatePages handle n s = Some (EMM_NO_ERROR, s\<lparr>emm_handles := (emm_handles s)[i := e\<lparr>emm_mem := h, emm_pages := n\<rparr>], ems_mem := m\<rparr>)"
    and "ram m = ram (ems_mem s)" "mem_rest m = mem_rest (ems_mem s)" and tb: "ems_table ((emm_handles s)[i := e\<lparr>emm_mem := h, emm_pages := n\<rparr>]) m (own(i := if n = 0 then None else Some ps)) oth"
    and "\<And>qs. own i = Some qs \<Longrightarrow> n \<noteq> 0 \<Longrightarrow> take (min (unat n * 4) (length qs)) ps = take (unat n * 4) qs"
    and "\<not> (p = 0 \<and> (n = 0 \<or> free < unat n * 4))" "\<not> free < unat n * 4 - unat p * 4" for h m ps
  proof -
    let ?s' = "s\<lparr>emm_handles := (emm_handles s)[i := e\<lparr>emm_mem := h, emm_pages := n\<rparr>], ems_mem := m\<rparr>"
    have "ems_inv ?s' (own(i := if n = 0 then None else Some ps)) oth" using sv by (intro inv_upd [OF inv i(1) tb]) simp
    moreover have "handles_only s ?s'" using that(2,3) by (simp add: handles_only_def)
    moreover have "emm_pages (the_handle handle ?s') = n" "\<forall>j. j \<noteq> unat handle \<longrightarrow> emm_handles ?s' ! j = emm_handles s ! j"
      using i(1) len by (simp_all add: the_handle_def i_def)
    ultimately show ?thesis using True that(1,5-7) unfolding i_def
      by (simp only: if_True if_False simp_thms) blast
  qed
  show ?thesis
  proof (cases "emm_pages e = 0")
    case empty: True
    have nl: "\<not> emm_live e" using empty by (simp add: emm_live_def)
    show ?thesis
    proof (cases "n = 0 \<or> free < unat n * 4")
      case no: True
      have "MEM_AllocatePages (unat n * 4) False (ems_mem s) = Some (0, ems_mem s)"
        using no gather_entry [OF t i(1) _ r _ n] nl by (cases "n = 0") (auto simp: MEM_AllocatePages_def free_def e_def)
      then show ?thesis using True no empty by (simp add: EMM_ReallocatePages_def p_def th Let_def)
    next
      case False
      then obtain h m ps where a: "MEM_AllocatePages (unat n * 4) False (ems_mem s) = Some (h, m)" "0 < h" "ram m = ram (ems_mem s)" "mem_rest m = mem_rest (ems_mem s)"
        "\<forall>e. emm_pages e = n \<and> emm_mem e = h \<longrightarrow> ems_table ((emm_handles s)[i := e]) m (own(i \<mapsto> ps)) oth"
        using gather_entry [OF t i(1) _ r _ n] nl by (auto simp: free_def e_def)
      have "own i = None" using unused_owner [OF t i(1)] nl by (simp add: e_def)
      then show ?thesis using a False True empty
        by (intro fin [where h = h and m = m and ps = ps]) (simp_all add: EMM_ReallocatePages_def th p_def Let_def set_emm_handle_mem i_def [symmetric])
    qed
  next
    case False
    have live: "emm_live (emm_handles s ! i)" using False i(2) by (simp add: emm_live_def e_def)
    obtain qs where qs: "own i = Some qs" "emm_mem e = int (hd qs)" "length qs = unat p * 4"
      using live_block [OF t i(1) live] by (metis e_def p_def th)
    have pos: "0 < emm_mem e" using mp.owns_start [of "ems_mem s" "case_sum own oth" "Inl i" qs] t qs by (simp add: ems_table_def)
    show ?thesis
    proof (cases "n = 0")
      case z: True
      from release_entry [OF t i(1)] live obtain m where m: "MEM_ReleasePages (emm_mem e) (ems_mem s) = Some m" "ram m = ram (ems_mem s)" "mem_rest m = mem_rest (ems_mem s)"
        "\<forall>e. \<not> emm_live e \<longrightarrow> ems_table ((emm_handles s)[i := e]) m (own(i := None)) oth" by (auto simp: e_def)
      have "EMM_ReallocatePages handle n s = Some (EMM_NO_ERROR, s\<lparr>emm_handles := (emm_handles s)[i := e\<lparr>emm_mem := - 1, emm_pages := n\<rparr>], ems_mem := m\<rparr>)"
        using True False z m(1) pos by (simp add: EMM_ReallocatePages_def th Let_def MEM_ReAllocatePages_def realloc_res_def set_emm_handle_def i_def [symmetric])
      moreover have "ems_table ((emm_handles s)[i := e\<lparr>emm_mem := - 1, emm_pages := n\<rparr>]) m (own(i := None)) oth" using m(4) z by (simp add: emm_live_def)
      ultimately show ?thesis using m(2,3) z False by (intro fin [where h = "- 1" and m = m]) (simp_all add: p_def th)
    next
      case nz: False
      note R = regather_entry [OF t i(1) qs(1) r nz n]
      show ?thesis
      proof (cases "free < unat n * 4 - unat p * 4")
        case few: True
        then have "MEM_ReAllocatePages (emm_mem e) (unat n * 4) False (ems_mem s) = Some (realloc_res False (emm_mem e) (ems_mem s))"
          using R qs(3) by (simp add: free_def e_def)
        moreover have "set_emm_handle handle (e\<lparr>emm_mem := emm_mem e\<rparr>) (s\<lparr>ems_mem := ems_mem s\<rparr>) = s" using handle_reset [of handle s] by (simp add: th)
        ultimately show ?thesis using True False few nz by (simp add: EMM_ReallocatePages_def th p_def Let_def realloc_res_def)
      next
        case enough: False
        then obtain m rs where m: "MEM_ReAllocatePages (emm_mem e) (unat n * 4) False (ems_mem s) = Some (realloc_res True (emm_mem e) m)"
          "ram m = ram (ems_mem s)" "mem_rest m = mem_rest (ems_mem s)"
          "\<forall>e'. emm_pages e' = n \<and> emm_mem e' = emm_mem e \<longrightarrow> ems_table ((emm_handles s)[i := e']) m (own(i \<mapsto> take (unat n * 4) qs @ rs)) oth"
          using R qs(3) by (auto simp: free_def e_def)
        have "EMM_ReallocatePages handle n s = Some (EMM_NO_ERROR, s\<lparr>emm_handles := (emm_handles s)[i := e\<lparr>emm_mem := emm_mem e, emm_pages := n\<rparr>], ems_mem := m\<rparr>)"
          using True False m(1) by (simp add: EMM_ReallocatePages_def th Let_def realloc_res_def set_emm_handle_def i_def [symmetric])
        moreover have "take (min (unat n * 4) (length qs)) (take (unat n * 4) qs @ rs) = take (unat n * 4) qs" by (simp add: min_def)
        ultimately show ?thesis using m nz False enough qs(1)
          by (intro fin [where h = "emm_mem e" and m = m and ps = "take (unat n * 4) qs @ rs"]) (auto simp: p_def th)
      qed
    qed
  qed
qed (simp add: EMM_ReallocatePages_def)

lemma ReleaseMemory_spec:
  fixes handle :: u16
  assumes inv: "ems_inv s own oth"
  shows "if \<not> ValidHandle handle s then EMM_ReleaseMemory handle s = Some (EMM_INVALID_HANDLE, s)
    else \<exists>s'. EMM_ReleaseMemory handle s = Some (EMM_NO_ERROR, s') \<and> handles_only s s' \<and> ems_inv s' (own(unat handle := None)) oth \<and>
      emm_pages (the_handle handle s') = (if handle = 0 then 0 else NULL_HANDLE) \<and>
      (\<forall>j. j \<noteq> unat handle \<longrightarrow> emm_handles s' ! j = emm_handles s ! j)"
proof (cases "ValidHandle handle s")
  case True
  define i where "i = unat handle"
  define e where "e = emm_handles s ! i"
  have th: "the_handle handle s = e" by (simp add: the_handle_def i_def e_def)
  have t: "ems_table (emm_handles s) (ems_mem s) own oth" and len: "length (emm_handles s) = EMM_MAX_HANDLES" using inv by (simp_all add: ems_inv_def ems_table_def)
  have i: "i < EMM_MAX_HANDLES" "emm_pages e \<noteq> NULL_HANDLE" using True by (simp_all add: ValidHandle_def th) (simp add: i_def)
  obtain m where m: "(if emm_pages e \<noteq> 0 then MEM_ReleasePages (emm_mem e) (ems_mem s) else Some (ems_mem s)) = Some m"
    "ram m = ram (ems_mem s)" "mem_rest m = mem_rest (ems_mem s)" "\<forall>e. \<not> emm_live e \<longrightarrow> ems_table ((emm_handles s)[i := e]) m (own(i := None)) oth"
  proof -
    have "emm_live (emm_handles s ! i) \<longleftrightarrow> emm_pages e \<noteq> 0" using i(2) by (simp add: emm_live_def e_def)
    then show thesis using release_entry [OF t i(1)] that unfolding e_def by auto
  qed
  let ?e = "e\<lparr>emm_mem := 0, emm_pages := if handle = 0 then 0 else NULL_HANDLE, saved_page_map := False, emm_name := replicate 8 0\<rparr>"
  let ?s' = "s\<lparr>emm_handles := (emm_handles s)[i := ?e], ems_mem := m\<rparr>"
  have "EMM_ReleaseMemory handle s = Some (EMM_NO_ERROR, ?s')"
    using True m(1) by (simp add: EMM_ReleaseMemory_def th Let_def set_emm_handle_mem i_def [symmetric])
  moreover have "ems_table ((emm_handles s)[i := ?e]) m (own(i := None)) oth" using m(4) by (simp add: emm_live_def)
  then have "ems_inv ?s' (own(unat handle := None)) oth" unfolding i_def [symmetric] by (intro inv_upd [OF inv i(1)]) simp_all
  moreover have "handles_only s ?s'" using m(2,3) by (simp add: handles_only_def)
  ultimately show ?thesis using True i(1) len by (auto simp: the_handle_def i_def)
qed (simp add: EMM_ReleaseMemory_def)

lemma SavePageMap_spec:
  fixes handle :: u16
  assumes inv: "ems_inv s own oth"
  shows "if \<not> ValidHandle handle s \<and> handle \<noteq> 0 then EMM_SavePageMap handle s = (EMM_INVALID_HANDLE, s)
    else if saved_page_map (the_handle handle s) then EMM_SavePageMap handle s = (EMM_PAGE_MAP_SAVED, s)
    else \<exists>s'. EMM_SavePageMap handle s = (EMM_NO_ERROR, s') \<and> ems_inv s' own oth \<and> handles_only s s' \<and>
      the_handle handle s' = (the_handle handle s)\<lparr>page_map := emm_mappings s, saved_page_map := True\<rparr> \<and>
      (\<forall>j. j \<noteq> unat handle \<longrightarrow> emm_handles s' ! j = emm_handles s ! j)"
proof (cases "(\<not> ValidHandle handle s \<and> handle \<noteq> 0) \<or> saved_page_map (the_handle handle s)")
  case False
  define i where "i = unat handle"
  let ?e = "(emm_handles s ! i)\<lparr>page_map := emm_mappings s, saved_page_map := True\<rparr>"
  have t: "ems_table (emm_handles s) (ems_mem s) own oth" and len: "length (emm_handles s) = EMM_MAX_HANDLES" using inv by (simp_all add: ems_inv_def ems_table_def)
  have i: "i < EMM_MAX_HANDLES" using False by (auto simp: ValidHandle_def i_def EMM_MAX_HANDLES_def)
  have "entry_ok ?e (own i)" using t i by (auto simp: ems_table_def entry_ok_def emm_live_def split: option.splits)
  then have "ems_table ((emm_handles s)[i := ?e]) (ems_mem s) (own(i := own i)) oth" using t by (intro table_upd [OF t i]) (simp_all add: ems_table_def)
  then have "ems_inv (s\<lparr>emm_handles := (emm_handles s)[i := ?e], ems_mem := ems_mem s\<rparr>) own oth"
    using inv by (intro inv_upd [OF inv i]) (simp_all add: ems_inv_def)
  moreover have "EMM_SavePageMap handle s = (EMM_NO_ERROR, s\<lparr>emm_handles := (emm_handles s)[i := ?e]\<rparr>)"
    using False by (auto simp: EMM_SavePageMap_def Let_def set_emm_handle_def the_handle_def i_def)
  ultimately show ?thesis using False i len by (auto simp: handles_only_def the_handle_def i_def)
qed (auto simp: EMM_SavePageMap_def)

section \<open>Mapping\<close>

definition window :: "nat \<Rightarrow> nat list \<Rightarrow> (u32 \<Rightarrow> u32) \<Rightarrow> u32 \<Rightarrow> u32" where
  "window lin qs f p = (if lin \<le> unat p \<and> unat p < lin + length qs then of_nat (qs ! (unat p - lin)) else f p)"

lemma window_Nil: "window lin [] f = f"
  by (auto simp: window_def fun_eq_iff)

lemma window_Cons:
  assumes "lin < 2 ^ 32"
  shows "window lin (q # qs) f = window (lin + 1) qs (f(of_nat lin := of_nat q))"
proof
  fix p :: u32
  have "p = of_nat lin \<longleftrightarrow> unat p = lin" using assms by (auto simp: unat_of_nat)
  then show "window lin (q # qs) f p = window (lin + 1) qs (f(of_nat lin := of_nat q)) p"
    by (auto simp: window_def nth_Cons' not_less_eq_eq)
qed

lemma MapPage_window: "lin < 0x110 \<Longrightarrow> PAGING_MapPage (of_nat lin) x m = m\<lparr>firstmb_map := (firstmb_map m)(of_nat lin := x)\<rparr>"
  by (simp add: PAGING_MapPage_def FIRST_LINK_def word_less_nat_alt unat_of_nat)

lemma unmap_pages_window: "lin + n \<le> 0x110 \<Longrightarrow> unmap_pages lin n m = m\<lparr>firstmb_map := window lin [lin..<lin + n] (firstmb_map m)\<rparr>"
proof (induction n arbitrary: lin m)
  case 0
  then show ?case by (simp add: window_Nil)
next
  case (Suc n)
  then show ?case by (simp add: MapPage_window window_Cons upt_conv_Cons fun_upd_def del: upt_Suc)
qed

lemma map_pages_window:
  "lin + n \<le> 0x110 \<Longrightarrow> pages_from (mhandles m) h qs e \<Longrightarrow> n \<le> length qs \<Longrightarrow>
    map_pages lin h n m = Some (m\<lparr>firstmb_map := window lin (take n qs) (firstmb_map m)\<rparr>)"
proof (induction n arbitrary: lin h qs m)
  case 0
  then show ?case by (simp add: window_Nil)
next
  case (Suc n)
  obtain p ps where qs: "qs = p # ps" using Suc.prems(3) by (cases qs) auto
  define m1 where "m1 = m\<lparr>firstmb_map := (firstmb_map m)(of_nat lin := of_nat p)\<rparr>"
  have p: "h = int p" "p < length (mhandles m)" "pages_from (mhandles m1) (mhandles m ! p) ps e" using Suc.prems(2) qs by (simp_all add: m1_def)
  have "map_pages (lin + 1) (mhandles m ! p) n m1 = Some (m1\<lparr>firstmb_map := window (lin + 1) (take n ps) (firstmb_map m1)\<rparr>)"
    using Suc.prems qs p(3) by (intro Suc.IH) simp_all
  then show ?case using p Suc.prems(1) qs by (simp add: MapPage_window MEM_NextHandle_def handle_access m1_def window_Cons)
qed

lemma pages_from_drop: "pages_from H h ps e \<Longrightarrow> k < length ps \<Longrightarrow> pages_from H (int (ps ! k)) (drop k ps) e"
proof (induction k arbitrary: h ps)
  case 0
  then show ?case by (cases ps) auto
next
  case (Suc k)
  then show ?case by (cases ps) auto
qed

text \<open>The pages of logical page \<open>l\<close> of a block.\<close>

definition logical :: "nat list \<Rightarrow> nat \<Rightarrow> nat list" where
  "logical ps l = take 4 (drop (l * 4) ps)"

lemma map_block_window:
  assumes inv: "ems_inv s own oth" and v: "ValidHandle h s" and l: "l < emm_pages (the_handle h s)" and lin: "lin + 4 \<le> 0x110"
    and s': "emm_handles s' = emm_handles s" "ems_mem s' = ems_mem s"
  shows "\<exists>ps. own (unat h) = Some ps \<and> length (logical ps (unat l)) = 4 \<and>
    map_block lin h l s' = Some (s'\<lparr>ems_mem := (ems_mem s)\<lparr>firstmb_map := window lin (logical ps (unat l)) (firstmb_map (ems_mem s))\<rparr>\<rparr>)"
proof -
  have t: "ems_table (emm_handles s) (ems_mem s) own oth" using inv by (simp add: ems_inv_def)
  have h: "unat h < EMM_MAX_HANDLES" and live: "emm_live (emm_handles s ! unat h)"
    using v l by (auto simp: ValidHandle_def emm_live_def the_handle_def word_not_simps)
  obtain ps where ps: "own (unat h) = Some ps" "emm_mem (emm_handles s ! unat h) = int (hd ps)" "length ps = unat (emm_pages (emm_handles s ! unat h)) * 4"
    "pages_from (mhandles (ems_mem s)) (int (hd ps)) ps (- 1)" using live_block [OF t h live] by metis
  have k: "unat l * 4 + 4 \<le> length ps" using l ps(3) by (simp add: word_less_nat_alt the_handle_def)
  then have w: "walk (unat l * 4) (int (hd ps)) (ems_mem s) = Some (int (ps ! (unat l * 4)))" using walk_chain [OF ps(4)] by simp
  have d: "pages_from (mhandles (ems_mem s)) (int (ps ! (unat l * 4))) (drop (unat l * 4) ps) (- 1)" using pages_from_drop [OF ps(4)] k by simp
  have "map_pages lin (int (ps ! (unat l * 4))) 4 (ems_mem s) = Some ((ems_mem s)\<lparr>firstmb_map := window lin (logical ps (unat l)) (firstmb_map (ems_mem s))\<rparr>)"
    unfolding logical_def using k by (intro map_pages_window [OF lin d]) simp
  moreover have "length (logical ps (unat l)) = 4" using k by (simp add: logical_def)
  ultimately show ?thesis using ps(1,2) w s' by (simp add: map_block_def MEM_NextHandleAt_def the_handle_def)
qed

end
