(* ===== verification/Ems_Ops.thy ===== *)
theory Ems_Ops
  imports Ems_Inv
begin

text \<open>
  The mapping operations and the calls of interrupt 67h on the invariant: what each mapping does to the
  tables and to the page map, and that every call returns and keeps the invariant, outside of the cases that are
  excluded by name.
\<close>

unbundle bit_operations_syntax

section \<open>Page map\<close>

lemma inv_map:
  assumes "ems_inv s own oth" and "emm_handles s' = emm_handles s" "mhandles (ems_mem s') = mhandles (ems_mem s)" "phandlers (ems_mem s') = phandlers (ems_mem s)"
    and "length (emm_mappings s') = length (emm_mappings s)" "length (emm_segmentmappings s') = length (emm_segmentmappings s)"
  shows "ems_inv s' own oth"
  using assms by (simp add: ems_inv_def ems_table_frame [of "ems_mem s'" "ems_mem s"])

text \<open>What a mapping operation changes: the two tables of mappings and the page map of the first megabyte.\<close>

definition maps_only :: "ems_state \<Rightarrow> ems_state \<Rightarrow> bool" where
  "maps_only s s' \<longleftrightarrow> s' = s\<lparr>emm_mappings := emm_mappings s', emm_segmentmappings := emm_segmentmappings s',
     ems_mem := (ems_mem s)\<lparr>firstmb_map := firstmb_map (ems_mem s')\<rparr>\<rparr> \<and>
     length (emm_mappings s') = length (emm_mappings s) \<and> length (emm_segmentmappings s') = length (emm_segmentmappings s)"

lemma maps_only_refl [simp]: "maps_only s s"
  by (simp add: maps_only_def)

lemma maps_only_keeps:
  assumes "maps_only s s'"
  shows "emm_handles s' = emm_handles s" "mhandles (ems_mem s') = mhandles (ems_mem s)" "phandlers (ems_mem s') = phandlers (ems_mem s)"
    "ram (ems_mem s') = ram (ems_mem s)" "vcpi s' = vcpi s" "ems_type s' = ems_type s"
proof -
  have e: "s' = s\<lparr>emm_mappings := emm_mappings s', emm_segmentmappings := emm_segmentmappings s',
     ems_mem := (ems_mem s)\<lparr>firstmb_map := firstmb_map (ems_mem s')\<rparr>\<rparr>" using assms by (simp add: maps_only_def)
  show "emm_handles s' = emm_handles s" "mhandles (ems_mem s') = mhandles (ems_mem s)" "phandlers (ems_mem s') = phandlers (ems_mem s)"
    "ram (ems_mem s') = ram (ems_mem s)" "vcpi s' = vcpi s" "ems_type s' = ems_type s" by (subst e, simp)+
qed

lemma maps_only_length:
  "maps_only s s' \<Longrightarrow> length (emm_mappings s') = length (emm_mappings s)"
  "maps_only s s' \<Longrightarrow> length (emm_segmentmappings s') = length (emm_segmentmappings s)"
  unfolding maps_only_def by blast+

lemma maps_only_inv: "ems_inv s own oth \<Longrightarrow> maps_only s s' \<Longrightarrow> ems_inv s' own oth"
  by (rule inv_map) (simp_all add: maps_only_keeps maps_only_length)

lemma maps_only_trans: "maps_only s s' \<Longrightarrow> maps_only s' s'' \<Longrightarrow> maps_only s s''"
proof -
  assume a: "maps_only s s'" and b: "maps_only s' s''"
  have e: "s' = s\<lparr>emm_mappings := emm_mappings s', emm_segmentmappings := emm_segmentmappings s',
     ems_mem := (ems_mem s)\<lparr>firstmb_map := firstmb_map (ems_mem s')\<rparr>\<rparr>" using a by (simp add: maps_only_def)
  have f: "s'' = s'\<lparr>emm_mappings := emm_mappings s'', emm_segmentmappings := emm_segmentmappings s'',
     ems_mem := (ems_mem s')\<lparr>firstmb_map := firstmb_map (ems_mem s'')\<rparr>\<rparr>" using b by (simp add: maps_only_def)
  have "s'' = s\<lparr>emm_mappings := emm_mappings s'', emm_segmentmappings := emm_segmentmappings s'',
     ems_mem := (ems_mem s)\<lparr>firstmb_map := firstmb_map (ems_mem s'')\<rparr>\<rparr>"
    using e f by (cases s, cases s', cases s'', cases "ems_mem s", cases "ems_mem s'", cases "ems_mem s''") simp
  then show ?thesis using a b by (simp add: maps_only_def)
qed

text \<open>A page of the frame is entered in the table and seen through the page map.\<close>

definition mapped :: "nat \<Rightarrow> EMM_Mapping \<Rightarrow> nat list \<Rightarrow> ems_state \<Rightarrow> ems_state" where
  "mapped p e qs s = s\<lparr>emm_mappings := (emm_mappings s)[p := e],
     ems_mem := (ems_mem s)\<lparr>firstmb_map := window (0xe0 + p * 4) qs (firstmb_map (ems_mem s))\<rparr>\<rparr>"

lemma frame_4K: "EMM_PAGEFRAME_4K = 0xe0"
  by (simp add: EMM_PAGEFRAME_4K_def EMM_PAGEFRAME_def)

lemma MapPage_spec:
  assumes inv: "ems_inv s own oth"
  shows "if EMM_MAX_PHYS \<le> p then EMM_MapPage p h l s = Some (EMM_ILL_PHYS, s)
    else if l = NULL_PAGE then EMM_MapPage p h l s = Some (EMM_NO_ERROR, mapped p unmapped [0xe0 + p * 4..<0xe0 + p * 4 + 4] s)
    else if \<not> ValidHandle h s then EMM_MapPage p h l s = Some (EMM_INVALID_HANDLE, s)
    else if emm_pages (the_handle h s) \<le> l then EMM_MapPage p h l s = Some (EMM_LOG_OUT_RANGE, s)
    else \<exists>ps. own (unat h) = Some ps \<and> length (logical ps (unat l)) = 4 \<and>
      EMM_MapPage p h l s = Some (EMM_NO_ERROR, mapped p \<lparr>map_handle = h, map_page = l\<rparr> (logical ps (unat l)) s)"
proof (cases "EMM_MAX_PHYS \<le> p \<or> l = NULL_PAGE \<or> \<not> ValidHandle h s \<or> emm_pages (the_handle h s) \<le> l")
  case True
  then show ?thesis by (auto simp: EMM_MapPage_def Let_def frame_4K mapped_def unmap_pages_window EMM_MAX_PHYS_def)
next
  case False
  then have p: "0xe0 + p * 4 + 4 \<le> 0x110" and l: "l < emm_pages (the_handle h s)" by (simp_all add: EMM_MAX_PHYS_def not_le)
  from map_block_window [OF inv _ l p, of "s\<lparr>emm_mappings := (emm_mappings s)[p := \<lparr>map_handle = h, map_page = l\<rparr>]\<rparr>"] False show ?thesis
    by (auto simp: EMM_MapPage_def Let_def frame_4K mapped_def)
qed

lemma mapped_maps_only [simp]: "maps_only s (mapped p e qs s)"
  by (simp add: maps_only_def mapped_def)

lemma MapPage_returns:
  assumes "ems_inv s own oth"
  shows "\<exists>e s'. EMM_MapPage p h l s = Some (e, s') \<and> maps_only s s'"
  using MapPage_spec [OF assms, of p h l] by (metis mapped_maps_only maps_only_refl)

lemma set_segment_maps: "maps_only s (set_segment_mapping g e s)"
  by (simp add: set_segment_mapping_def maps_only_def Let_def)

lemma maps_only_window: "maps_only s s' \<Longrightarrow> maps_only s (s'\<lparr>ems_mem := (ems_mem s')\<lparr>firstmb_map := f\<rparr>\<rparr>)"
proof -
  have "maps_only s' (s'\<lparr>ems_mem := (ems_mem s')\<lparr>firstmb_map := f\<rparr>\<rparr>)" by (simp add: maps_only_def)
  then show "maps_only s s' \<Longrightarrow> ?thesis" using maps_only_trans by blast
qed

lemma MapSegment_returns:
  assumes inv: "ems_inv s own oth" and g: "g < 0x10000"
  shows "\<exists>e s'. EMM_MapSegment g h l s = Some (e, s') \<and> maps_only s s'"
proof (cases "\<not> valid_segment g s \<or> l = NULL_PAGE \<or> \<not> ValidHandle h s \<or> emm_pages (the_handle h s) \<le> l")
  case True
  have "g * 16 div 4096 + 4 \<le> 0x110" using g by simp
  then show ?thesis using True maps_only_window [OF set_segment_maps]
    by (auto simp: EMM_MapSegment_def Let_def unmap_pages_window)
next
  case False
  then have l: "l < emm_pages (the_handle h s)" and lin: "g * 16 div 4096 + 4 \<le> 0x110" using g by (simp_all add: not_le)
  let ?s1 = "set_segment_mapping g \<lparr>map_handle = h, map_page = l\<rparr> s"
  have k: "emm_handles ?s1 = emm_handles s" "ems_mem ?s1 = ems_mem s" by (simp_all add: set_segment_mapping_def Let_def)
  from map_block_window [OF inv _ l lin k] False obtain f where "map_block (g * 16 div 4096) h l ?s1 = Some (?s1\<lparr>ems_mem := (ems_mem ?s1)\<lparr>firstmb_map := f\<rparr>\<rparr>)"
    by (auto simp: k)
  then show ?thesis using False maps_only_window [OF set_segment_maps]
    by (auto simp: EMM_MapSegment_def Let_def)
qed

lemma restore_segments_returns: "ems_inv s own oth \<Longrightarrow> \<forall>i\<in>set is. i < 0x40 \<Longrightarrow> \<exists>s'. restore_segments is s = Some s' \<and> maps_only s s'"
proof (induction "is" arbitrary: s)
  case (Cons i "is")
  show ?case
  proof (cases "EMM_PAGEFRAME div 0x400 \<le> i \<and> i < EMM_PAGEFRAME div 0x400 + EMM_MAX_PHYS")
    case False
    obtain e s1 where s1: "EMM_MapSegment (i * 0x400) (map_handle (emm_segmentmappings s ! i)) (map_page (emm_segmentmappings s ! i)) s = Some (e, s1)" "maps_only s s1"
      using MapSegment_returns [OF Cons.prems(1), of "i * 0x400"] Cons.prems(2) by fastforce
    obtain s2 where "restore_segments is s1 = Some s2" "maps_only s1 s2" using Cons.IH [OF maps_only_inv [OF Cons.prems(1) s1(2)]] Cons.prems(2) by auto
    then show ?thesis using False s1 maps_only_trans by (auto simp: Let_def)
  qed (use Cons in auto)
qed simp

lemma restore_frame_returns: "ems_inv s own oth \<Longrightarrow> \<exists>s'. restore_frame is s = Some s' \<and> maps_only s s'"
proof (induction "is" arbitrary: s)
  case (Cons i "is")
  obtain e s1 where s1: "EMM_MapPage i (map_handle (emm_mappings s ! i)) (map_page (emm_mappings s ! i)) s = Some (e, s1)" "maps_only s s1"
    using MapPage_returns [OF Cons.prems(1)] by blast
  obtain s2 where "restore_frame is s1 = Some s2" "maps_only s1 s2" using Cons.IH [OF maps_only_inv [OF Cons.prems(1) s1(2)]] by auto
  then show ?case using s1 maps_only_trans by (auto simp: Let_def)
qed simp

lemma RestoreMappingTable_returns:
  assumes "ems_inv s own oth"
  shows "\<exists>s'. EMM_RestoreMappingTable s = Some (EMM_NO_ERROR, s') \<and> maps_only s s'"
proof -
  obtain s1 where s1: "restore_segments [0..<0x40] s = Some s1" "maps_only s s1" using restore_segments_returns [OF assms, of "[0..<0x40]"] by auto
  obtain s2 where "restore_frame [0..<EMM_MAX_PHYS] s1 = Some s2" "maps_only s1 s2" using restore_frame_returns [OF maps_only_inv [OF assms s1(2)]] by blast
  then show ?thesis using s1 maps_only_trans by (auto simp: EMM_RestoreMappingTable_def)
qed

section \<open>Accesses to memory\<close>

text \<open>Writes of the guest's bytes change nothing but bytes.\<close>

definition mem_tables :: "MemoryBlock \<Rightarrow> PageHandler list \<times> (u32 \<Rightarrow> u32) \<times> MemHandle list \<times> bool \<times> u8" where
  "mem_tables m = (phandlers m, firstmb_map m, mhandles m, a20_enabled m, a20_controlport m)"

lemma inv_tables: "ems_inv s own oth \<Longrightarrow> mem_tables m = mem_tables (ems_mem s) \<Longrightarrow> ems_inv (s\<lparr>ems_mem := m\<rparr>) own oth"
  by (rule inv_map) (simp_all add: mem_tables_def)

lemma writeb_tables [simp]: "mem_tables (mem_writeb a v m) = mem_tables m"
  by (simp add: mem_writeb_def mem_tables_def split: PageHandler.split)

lemma write_tables [simp]:
  "mem_tables (mem_writew a w m) = mem_tables m" "mem_tables (mem_writed a d m) = mem_tables m"
  "mem_tables (real_writeb seg off v m) = mem_tables m" "mem_tables (real_writew seg off w m) = mem_tables m"
  "mem_tables (real_writed seg off d m) = mem_tables m"
  by (simp_all add: mem_writew_def mem_writed_def real_writeb_def real_writew_def real_writed_def)

lemma BlockWrite_tables [simp]: "mem_tables (MEM_BlockWrite a bs m) = mem_tables m"
  by (induction bs arbitrary: a m) simp_all

lemma fold_tables: "(\<And>x m. mem_tables (f x m) = mem_tables m) \<Longrightarrow> mem_tables (fold f xs m) = mem_tables m"
  by (induction xs arbitrary: m) simp_all

lemma handle_pages_tables [simp]: "mem_tables (snd (write_handle_pages i es a n m)) = mem_tables m"
  by (induction es arbitrary: i a n m) simp_all

lemma handle_names_tables [simp]: "mem_tables (snd (write_handle_names i es a n m)) = mem_tables m"
  by (induction es arbitrary: i a n m) simp_all

lemma arrays_tables [simp]: "mem_tables (mappable_array a m) = mem_tables m" "mem_tables (hardware_info a m) = mem_tables m"
  "mem_tables (page_table_entry seg off ct m) = mem_tables m"
  by (simp_all add: mappable_array_def hardware_info_def page_table_entry_def fold_tables)

section \<open>Partial page maps\<close>

lemma save_partial_inv: "ems_inv s own oth \<Longrightarrow> ems_inv (snd (save_partial n a b s)) own oth"
  by (induction n arbitrary: a b s) (simp_all add: Let_def inv_tables)

lemma load_partial_inv: "ems_inv s own oth \<Longrightarrow> ems_inv (snd (load_partial n a s)) own oth"
proof (induction n arbitrary: a s)
  case (Suc n)
  have "ems_inv (s\<lparr>emm_mappings := (emm_mappings s)[k := e]\<rparr>) own oth" "ems_inv (s\<lparr>emm_segmentmappings := (emm_segmentmappings s)[k := e]\<rparr>) own oth" for k e
    using Suc.prems by (auto intro: inv_map)
  then show ?case using Suc by (simp add: Let_def)
qed simp

lemma PartialPageMapping_returns:
  assumes inv: "ems_inv s own oth"
  shows "\<exists>e r' s'. EMM_PartialPageMapping r s = Some (e, r', s') \<and> ems_inv s' own oth"
proof -
  have save: "\<exists>e s'. save_partial n a b (s\<lparr>ems_mem := mem_writew c d (ems_mem s)\<rparr>) = (e, s') \<and> ems_inv s' own oth" for n a b c d
    using save_partial_inv [OF inv_tables [OF inv], of "mem_writew c d (ems_mem s)"] by (metis prod.collapse write_tables(1))
  obtain e s1 where l: "load_partial (unat (mem_readw (phys_ds r + ucast (reg_si r)) (ems_mem s))) (phys_ds r + ucast (reg_si r) + 2) s = (e, s1)" "ems_inv s1 own oth"
    using load_partial_inv [OF inv] by (metis prod.collapse)
  obtain s2 where "EMM_RestoreMappingTable s1 = Some (EMM_NO_ERROR, s2)" "ems_inv s2 own oth"
    using RestoreMappingTable_returns [OF l(2)] maps_only_inv [OF l(2)] by blast
  then show ?thesis using inv l save
    by (auto simp: EMM_PartialPageMapping_def Let_def split: prod.split; metis prod.inject)
qed

section \<open>Moves\<close>

text \<open>A side of a move that reaches \<open>n\<close> bytes: its pages are those of a chain.\<close>

definition side_chain :: "MemHandle list \<Rightarrow> side \<Rightarrow> nat list \<Rightarrow> nat \<Rightarrow> bool" where
  "side_chain H sd qs n \<longleftrightarrow> (case sd of Real a \<Rightarrow> True
     | Paged h off \<Rightarrow> off < 4096 \<and> (n = 0 \<or> pages_from H h qs (- 1) \<and> off + n \<le> length qs * 4096))"

lemma next_page: "pages_from H h (p # ps) e \<Longrightarrow> mhandles m = H \<Longrightarrow> MEM_NextHandle h m = Some (H ! p) \<and> pages_from H (H ! p) ps e"
  by (simp add: MEM_NextHandle_def handle_access)

lemma side_nonempty: "off + n \<le> length qs * 4096 \<Longrightarrow> 0 < n \<Longrightarrow> \<exists>p ps. qs = p # ps"
  by (cases qs) auto

lemma read_side_returns:
  assumes "side_chain H sd qs n" and "k \<le> n" "k \<le> 4096" "0 < n" and "mhandles m = H"
  shows "\<exists>bs. read_side sd k m = Some bs \<and> length bs = k"
proof -
  have len: "length (MEM_BlockRead a j m) = j" for a j by (induction j arbitrary: a) simp_all
  show ?thesis
  proof (cases sd)
    case (Paged h off)
    then obtain p ps where "qs = p # ps" "pages_from H h qs (- 1)" "off < 4096" using assms(1,4) side_nonempty [of off n qs] by (auto simp: side_chain_def)
    then show ?thesis using Paged next_page [OF _ assms(5), of h p ps "- 1"] len assms(3) by auto
  qed (simp add: len)
qed

lemma write_side_returns:
  assumes "side_chain H sd qs n" and "0 < n" and "mhandles m = H"
  shows "\<exists>m'. write_side sd bs m = Some m' \<and> mem_tables m' = mem_tables m"
proof (cases sd)
  case (Paged h off)
  then obtain p ps where "qs = p # ps" "pages_from H h qs (- 1)" using assms(1,2) side_nonempty [of off n qs] by (auto simp: side_chain_def)
  moreover have "mhandles (MEM_BlockWrite a cs m) = H" for a cs
    using BlockWrite_tables [of a cs m] assms(3) by (simp add: mem_tables_def)
  ultimately show ?thesis using Paged next_page [of H h p ps "- 1" "MEM_BlockWrite (word_of_int h * 4096 + of_nat off) (take (4096 - off) bs) m"]
    by (auto simp: Let_def)
qed simp

lemma advance_returns:
  assumes "side_chain H sd qs n" and "0 < n" and "mhandles m = H"
  shows "\<exists>sd'. advance sd (min n 4096) m = Some sd' \<and> side_chain H sd' (tl qs) (n - min n 4096)"
proof (cases sd)
  case (Paged h off)
  then obtain p ps where q: "qs = p # ps" "pages_from H h qs (- 1)" "off < 4096" "off + n \<le> length qs * 4096" using assms(1,2) side_nonempty [of off n qs] by (auto simp: side_chain_def)
  then show ?thesis using Paged next_page [of H h p ps "- 1" m] assms(3) by (auto simp: side_chain_def min_def)
qed (simp add: side_chain_def)

lemma region_loop_step:
  "0 < n \<Longrightarrow> region_loop x n src dest m = do {
     bs \<leftarrow> read_side src (min n 4096) m;
     m1 \<leftarrow> (if x then do { cs \<leftarrow> read_side dest (min n 4096) m; write_side src cs m } else Some m);
     m2 \<leftarrow> write_side dest bs m1;
     src' \<leftarrow> advance src (min n 4096) m2;
     dest' \<leftarrow> advance dest (min n 4096) m2;
     region_loop x (n - min n 4096) src' dest' m2 }"
  by (cases n) (simp_all only: region_loop.simps Let_def less_irrefl)

lemma region_loop_returns:
  assumes "side_chain H src qs n" and "side_chain H dest rs n" and "mhandles m = H"
  shows "\<exists>m'. region_loop x n src dest m = Some m' \<and> mem_tables m' = mem_tables m"
  using assms
proof (induction n arbitrary: src dest qs rs m rule: less_induct)
  case (less n)
  show ?case
  proof (cases n)
    case (Suc k)
    then have n: "0 < n" "min n 4096 \<le> n" "min n 4096 \<le> 4096" by simp_all
    have H: "mhandles m' = H" if "mem_tables m' = mem_tables m" for m' using that less.prems(3) by (simp add: mem_tables_def)
    obtain bs where bs: "read_side src (min n 4096) m = Some bs" using read_side_returns [OF less.prems(1) n(2,3,1) less.prems(3)] by blast
    obtain m1 where m1: "(if x then do { cs \<leftarrow> read_side dest (min n 4096) m; write_side src cs m } else Some m) = Some m1" "mem_tables m1 = mem_tables m"
      using read_side_returns [OF less.prems(2) n(2,3,1) less.prems(3)] write_side_returns [OF less.prems(1) n(1) less.prems(3)] by (cases x) fastforce+
    obtain m2 where m2: "write_side dest bs m1 = Some m2" "mem_tables m2 = mem_tables m"
      using write_side_returns [OF less.prems(2) n(1) H [OF m1(2)]] m1(2) by metis
    obtain src' where s: "advance src (min n 4096) m2 = Some src'" "side_chain H src' (tl qs) (n - min n 4096)"
      using advance_returns [OF less.prems(1) n(1) H [OF m2(2)]] by blast
    obtain dest' where d: "advance dest (min n 4096) m2 = Some dest'" "side_chain H dest' (tl rs) (n - min n 4096)"
      using advance_returns [OF less.prems(2) n(1) H [OF m2(2)]] by blast
    have "n - min n 4096 < n" using n(1) by simp
    from less.IH [OF this s(2) d(2) H [OF m2(2)]] obtain m3 where "region_loop x (n - min n 4096) src' dest' m2 = Some m3" "mem_tables m3 = mem_tables m"
      using m2(2) by auto
    then show ?thesis unfolding region_loop_step [OF n(1)] using bs m1(1) m2(1) s(1) d(1) by simp
  qed simp
qed

end
