(* ===== verification/Ems_Calls.thy ===== *)
theory Ems_Calls
  imports Ems_Ops
begin

text \<open>
  Every call of interrupt 67h returns and keeps the handles apart, outside of the cases that are excluded
  by name: they are those in which the code exits, reads outside of a table or takes a page from its owner.
\<close>

unbundle bit_operations_syntax

section \<open>Moves\<close>

lemma walk_end: "pages_from (mhandles m) h ps e \<Longrightarrow> walk (length ps) h m = Some e"
  by (induction ps arbitrary: h) (auto simp: handle_access)

definition no_wrap :: "u8 \<Rightarrow> u16 \<Rightarrow> u16 \<Rightarrow> u32 \<Rightarrow> bool" where
  "no_wrap typ page_seg offset len \<longleftrightarrow> typ = 0 \<or> unat page_seg * 16384 + unat offset + unat len < 2 ^ 32"

lemma parse_side_spec:
  assumes inv: "ems_inv s own oth" and w: "no_wrap typ g off len"
  shows "if typ = 0 then parse_side typ h off g len s = Some (Inr (Real (of_nat (unat g * 16 + unat off))))
    else if \<not> ValidHandle h s then parse_side typ h off g len s = Some (Inl EMM_INVALID_HANDLE)
    else if unat (emm_pages (the_handle h s)) * 16384 < unat g * 16384 + unat off + unat len
    then parse_side typ h off g len s = Some (Inl EMM_LOG_OUT_RANGE)
    else \<exists>x ps. parse_side typ h off g len s = Some (Inr (Paged x (unat off mod 4096))) \<and>
      (unat len \<noteq> 0 \<longrightarrow> own (unat h) = Some ps \<and> x = int (ps ! (unat g * 4 + unat off div 4096))) \<and>
      side_chain (mhandles (ems_mem s)) (Paged x (unat off mod 4096)) (drop (unat g * 4 + unat off div 4096) ps) (unat len)"
proof (cases "typ = 0 \<or> \<not> ValidHandle h s")
  case False
  define n where "n = unat (emm_pages (the_handle h s))"
  define k where "k = unat g * 4 + unat off div 4096"
  have t: "ems_table (emm_handles s) (ems_mem s) own oth" using inv by (simp add: ems_inv_def)
  have hi: "unat h < EMM_MAX_HANDLES" "emm_pages (the_handle h s) \<noteq> NULL_HANDLE" using False by (auto simp: ValidHandle_def)
  have "n < 2 ^ 16" using unsigned_less [of "emm_pages (the_handle h s)", where ?'a = nat] by (simp add: n_def)
  then have "unat (of_nat (n * EmsPageSize) :: u32) = n * 16384" by (subst unat_of_nat) (simp add: EmsPageSize_def)
  moreover have "unat (of_nat (unat g * EmsPageSize + unat off) + len :: u32) = unat g * 16384 + unat off + unat len"
  proof -
    have sum: "unat (of_nat x + len :: u32) = x + unat len" if "x + unat len < 2 ^ 32" for x
      by (subst unat_word_ariths(1), subst unat_of_nat) (use that in simp)
    have e: "unat g * EmsPageSize + unat off = unat g * 16384 + unat off" by (simp add: EmsPageSize_def)
    show ?thesis unfolding e using w False by (intro sum) (simp add: no_wrap_def)
  qed
  ultimately have c: "(of_nat (n * EmsPageSize) :: u32) < of_nat (unat g * EmsPageSize + unat off) + len \<longleftrightarrow> n * 16384 < unat g * 16384 + unat off + unat len"
    unfolding word_less_nat_alt by simp
  have kd: "k * 4096 + unat off mod 4096 = unat g * 16384 + unat off" by (simp add: k_def distrib_right)
  have ps: ?thesis if "n * 16384 \<ge> unat g * 16384 + unat off + unat len" "walk k (emm_mem (the_handle h s)) (ems_mem s) = Some x"
    "unat len \<noteq> 0 \<longrightarrow> own (unat h) = Some ps \<and> x = int (ps ! k)"
    "unat len \<noteq> 0 \<longrightarrow> pages_from (mhandles (ems_mem s)) x (drop k ps) (- 1) \<and> unat off mod 4096 + unat len \<le> length (drop k ps) * 4096" for x ps
    using False that c unfolding parse_side_def n_def [symmetric] k_def [symmetric]
    by (auto simp: MEM_NextHandleAt_def side_chain_def intro!: exI [of _ ps])
  show ?thesis
  proof (cases "n * 16384 < unat g * 16384 + unat off + unat len")
    case True
    then show ?thesis using False c by (simp add: parse_side_def n_def)
  next
    case fit: False
    show ?thesis
    proof (cases "n = 0")
      case True
      then have "k = 0" "unat len = 0" using fit by (simp_all add: k_def)
      then show ?thesis using fit by (intro ps [where x = "emm_mem (the_handle h s)"]) simp_all
    next
      case nz: False
      then have "emm_live (emm_handles s ! unat h)" using hi(2) by (auto simp: emm_live_def the_handle_def n_def)
      then obtain qs where qs: "own (unat h) = Some qs" "emm_mem (the_handle h s) = int (hd qs)" "length qs = n * 4" "pages_from (mhandles (ems_mem s)) (int (hd qs)) qs (- 1)"
        using live_block [OF t hi(1)] unfolding the_handle_def n_def by metis
      have le: "k * 4096 + unat off mod 4096 + unat len \<le> length qs * 4096" using fit qs(3) unfolding kd by simp
      show ?thesis
      proof (cases "k < length qs")
        case True
        have "walk k (int (hd qs)) (ems_mem s) = Some (int (qs ! k))" by (rule walk_chain [OF qs(4) True])
        moreover have "pages_from (mhandles (ems_mem s)) (int (qs ! k)) (drop k qs) (- 1)" by (rule pages_from_drop [OF qs(4) True])
        moreover have "unat off mod 4096 + unat len \<le> length (drop k qs) * 4096" using le by (simp add: diff_mult_distrib)
        ultimately show ?thesis using fit qs(1,2) by (intro ps [where x = "int (qs ! k)" and ps = qs]) simp_all
      next
        case over: False
        then have "k = length qs" "unat len = 0" using le by simp_all
        then show ?thesis using fit qs(2) walk_end [OF qs(4)] by (intro ps [where x = "- 1"]) simp_all
      qed
    qed
  qed
qed (auto simp: parse_side_def)

definition region_in_range :: "ems_regs \<Rightarrow> ems_state \<Rightarrow> bool" where
  "region_in_range r s \<longleftrightarrow> (let g = LoadMoveRegion (phys_ds r + ucast (reg_si r)) (ems_mem s) in
     no_wrap (src_type g) (src_page_seg g) (src_offset g) (bytes g) \<and> no_wrap (dest_type g) (dest_page_seg g) (dest_offset g) (bytes g))"

lemma parse_side_returns:
  assumes "ems_inv s own oth" and "no_wrap typ g off len"
  shows "\<exists>x. parse_side typ h off g len s = Some x \<and> (\<forall>sd. x = Inr sd \<longrightarrow> (\<exists>qs. side_chain (mhandles (ems_mem s)) sd qs (unat len)))"
proof -
  have "side_chain (mhandles (ems_mem s)) (Real a) qs n" for a qs n by (simp add: side_chain_def)
  then show ?thesis using parse_side_spec [OF assms, of h] by (auto split: if_splits)
qed

lemma MemoryRegion_returns:
  assumes inv: "ems_inv s own oth" and w: "region_in_range r s"
  shows "\<exists>e s'. MemoryRegion r s = Some (e, s') \<and> ems_inv s' own oth"
proof -
  let ?g = "LoadMoveRegion (phys_ds r + ucast (reg_si r)) (ems_mem s)"
  obtain x where x: "parse_side (src_type ?g) (src_handle ?g) (src_offset ?g) (src_page_seg ?g) (bytes ?g) s = Some x"
    "\<And>sd. x = Inr sd \<Longrightarrow> \<exists>qs. side_chain (mhandles (ems_mem s)) sd qs (unat (bytes ?g))"
    using parse_side_returns [OF inv, of "src_type ?g"] w unfolding region_in_range_def Let_def by blast
  obtain y where y: "parse_side (dest_type ?g) (dest_handle ?g) (dest_offset ?g) (dest_page_seg ?g) (bytes ?g) s = Some y"
    "\<And>sd. y = Inr sd \<Longrightarrow> \<exists>qs. side_chain (mhandles (ems_mem s)) sd qs (unat (bytes ?g))"
    using parse_side_returns [OF inv, of "dest_type ?g"] w unfolding region_in_range_def Let_def by blast
  have "\<exists>m. region_loop b (unat (bytes ?g)) sd dd (ems_mem s) = Some m \<and> ems_inv (s\<lparr>ems_mem := m\<rparr>) own oth" if "x = Inr sd" "y = Inr dd" for b sd dd
    using region_loop_returns [of "mhandles (ems_mem s)" sd _ "unat (bytes ?g)" dd _ "ems_mem s" b] x(2) [OF that(1)] y(2) [OF that(2)] inv_tables [OF inv] by metis
  then show ?thesis using inv x(1) y(1) by (cases x; cases y) (fastforce simp: MemoryRegion_def Let_def)+
qed

section \<open>Pages of VCPI clients\<close>

definition vpages :: "nat set \<Rightarrow> nat \<rightharpoonup> nat list" where
  "vpages V p = (if p \<in> V then Some [p] else None)"

lemma vpages_insert: "(vpages V)(p \<mapsto> [p]) = vpages (insert p V)"
  by (auto simp: vpages_def)

lemma vpages_remove: "(vpages V)(p := None) = vpages (V - {p})"
  by (auto simp: vpages_def)

lemma inv_others:
  assumes "ems_inv s own oth" and "ram_above m" "owns pool m (case_sum own oth')"
  shows "ems_inv (s\<lparr>ems_mem := m\<rparr>) own oth'"
  using assms by (simp add: ems_inv_def ems_table_def)

lemma vcpi_allocate_page_spec:
  assumes inv: "ems_inv s own (case_sum (vpages V) oth)" and tail: "tail_longest (mhandles (ems_mem s))"
  shows "if MEM_FreeTotal (ems_mem s) = 0 then vcpi_allocate_page r s = Some (put_ah (emm_code EMM_OUT_OF_LOG) r, s)
    else \<exists>p s'. vcpi_allocate_page r s = Some (put_ah (emm_code EMM_NO_ERROR) (r\<lparr>reg_edx := of_nat (p * 4096)\<rparr>), s') \<and> p \<notin> V \<and>
      handles_only s s' \<and> emm_handles s' = emm_handles s \<and> ems_inv s' own (case_sum (vpages (insert p V)) oth)"
proof -
  let ?own = "case_sum own (case_sum (vpages V) oth)"
  have o: "owns pool (ems_mem s) ?own" "ram_above (ems_mem s)" using inv by (simp_all add: ems_inv_def ems_table_def)
  have "0 \<notin> V"
  proof
    assume "0 \<in> V"
    then have "?own (Inr (Inl 0)) = Some [0]" by (simp add: vpages_def)
    from mp.owns_start [OF o(1) this] show False by simp
  qed
  then have z: "?own (Inr (Inl 0)) = None" by (simp add: vpages_def)
  note G = sp.owns_gather [OF o tail]
  show ?thesis
  proof (cases "MEM_FreeTotal (ems_mem s) = 0")
    case True
    then have "MEM_AllocatePages 1 False (ems_mem s) = Some (0, ems_mem s)" using G [of 1, OF _ z] by simp
    then show ?thesis using True by (simp add: vcpi_allocate_page_def)
  next
    case False
    have one: "\<exists>p m'. MEM_AllocatePages 1 False (ems_mem s) = Some (int p, m') \<and> 0 < p \<and> owns pool m' (?own(h \<mapsto> [p])) \<and> ram_above m' \<and>
      mem_rest m' = mem_rest (ems_mem s) \<and> ram m' = ram (ems_mem s)" if h: "?own h = None" for h
    proof -
      from G [of 1, OF _ h] False obtain qs m' where q: "MEM_AllocatePages 1 False (ems_mem s) = Some (int (hd qs), m')" "0 < hd qs" "length qs = 1"
        "owns pool m' (?own(h \<mapsto> qs))" "ram_above m'" "mem_rest m' = mem_rest (ems_mem s)" "ram m' = ram (ems_mem s)" by auto
      then have "qs = [hd qs]" by (cases qs) auto
      then show ?thesis using q by metis
    qed
    from one [OF z] obtain p m' where p: "MEM_AllocatePages 1 False (ems_mem s) = Some (int p, m')" "0 < p" "owns pool m' (?own(Inr (Inl 0) \<mapsto> [p]))" by blast
    have "p \<notin> V"
    proof
      assume "p \<in> V"
      then have "(?own(Inr (Inl 0) \<mapsto> [p])) (Inr (Inl p)) = Some [p]" using p(2) by (simp add: vpages_def)
      moreover have "(?own(Inr (Inl 0) \<mapsto> [p])) (Inr (Inl 0)) = Some [p]" by simp
      ultimately have "set [p] \<inter> set [p] = {}" using mp.owns_apart [OF p(3)] p(2) by (metis less_irrefl sum.inject)
      then show False by simp
    qed
    then have "?own (Inr (Inl p)) = None" by (simp add: vpages_def)
    from one [OF this] p(1) have m': "owns pool m' (?own(Inr (Inl p) \<mapsto> [p]))" "ram_above m'" "mem_rest m' = mem_rest (ems_mem s)" "ram m' = ram (ems_mem s)" by auto
    have "ems_inv (s\<lparr>ems_mem := m'\<rparr>) own (case_sum (vpages (insert p V)) oth)"
      using m'(1) by (intro inv_others [OF inv m'(2)]) (simp add: vpages_insert)
    moreover have "vcpi_allocate_page r s = Some (put_ah (emm_code EMM_NO_ERROR) (r\<lparr>reg_edx := of_nat (p * 4096)\<rparr>), s\<lparr>ems_mem := m'\<rparr>)"
      using p(1,2) by (simp add: vcpi_allocate_page_def)
    ultimately show ?thesis using False \<open>p \<notin> V\<close> m'(3,4) by (auto simp: handles_only_def)
  qed
qed

lemma vcpi_free_page_spec:
  assumes inv: "ems_inv s own (case_sum (vpages V) oth)" and p: "unat (drop_bit 12 (reg_edx r)) \<in> V"
  shows "\<exists>s'. vcpi_free_page r s = Some (put_ah (emm_code EMM_NO_ERROR) r, s') \<and> handles_only s s' \<and>
    ems_inv s' own (case_sum (vpages (V - {unat (drop_bit 12 (reg_edx r))})) oth)"
proof -
  let ?own = "case_sum own (case_sum (vpages V) oth)" and ?p = "unat (drop_bit 12 (reg_edx r))"
  have o: "owns pool (ems_mem s) ?own" "ram_above (ems_mem s)" using inv by (simp_all add: ems_inv_def ems_table_def)
  have "?own (Inr (Inl ?p)) = Some [?p]" using p by (simp add: vpages_def)
  from mp.owns_release [OF o this] obtain m' where m': "MEM_ReleasePages (int ?p) (ems_mem s) = Some m'" "owns pool m' (?own(Inr (Inl ?p) := None))"
    "ram_above m'" "mem_rest m' = mem_rest (ems_mem s)" "ram m' = ram (ems_mem s)" by auto
  have "ems_inv (s\<lparr>ems_mem := m'\<rparr>) own (case_sum (vpages (V - {?p})) oth)"
    using m'(2) by (intro inv_others [OF inv m'(3)]) (simp add: vpages_remove)
  then show ?thesis using m'(1,4,5) by (auto simp: vcpi_free_page_def handles_only_def)
qed

text \<open>The mappings of the frame name pages that their handles still have.\<close>

definition mappings_current :: "ems_state \<Rightarrow> bool" where
  "mappings_current s \<longleftrightarrow> (\<forall>e\<in>set (emm_mappings s). map_handle e \<noteq> NULL_HANDLE \<longrightarrow>
     ValidHandle (map_handle e) s \<and> map_page e < emm_pages (the_handle (map_handle e) s))"

lemma mapped_page_current:
  assumes inv: "ems_inv s own oth" and v: "ValidHandle (map_handle e) s" "map_page e < emm_pages (the_handle (map_handle e) s)"
  shows "\<exists>ps. own (unat (map_handle e)) = Some ps \<and> unat (map_page e) * 4 < length ps \<and> mapped_page e s = Some (int (ps ! (unat (map_page e) * 4)))"
proof -
  let ?h = "unat (map_handle e)"
  have t: "ems_table (emm_handles s) (ems_mem s) own oth" using inv by (simp add: ems_inv_def)
  have h: "?h < EMM_MAX_HANDLES" and live: "emm_live (emm_handles s ! ?h)"
    using v by (auto simp: ValidHandle_def emm_live_def the_handle_def word_not_simps)
  obtain ps where ps: "own ?h = Some ps" "emm_mem (emm_handles s ! ?h) = int (hd ps)" "length ps = unat (emm_pages (emm_handles s ! ?h)) * 4"
    "pages_from (mhandles (ems_mem s)) (int (hd ps)) ps (- 1)" using live_block [OF t h live] by metis
  have k: "unat (map_page e) * 4 < length ps" using v(2) ps(3) by (simp add: word_less_nat_alt the_handle_def)
  then show ?thesis using ps(1,2) h walk_chain [OF ps(4) k] by (simp add: mapped_page_def MEM_NextHandleAt_def the_handle_def)
qed

lemma frame_entries_returns:
  "ems_inv s own oth \<Longrightarrow> mappings_current s \<Longrightarrow> \<forall>ct\<in>set cts. ct < EMM_MAX_PHYS \<Longrightarrow> \<exists>s'. frame_entries cts seg off s = Some s' \<and> ems_inv s' own oth"
proof (induction cts arbitrary: s)
  case (Cons ct cts)
  let ?e = "emm_mappings s ! ct"
  show ?case
  proof (cases "map_handle ?e = NULL_HANDLE")
    case False
    have "?e \<in> set (emm_mappings s)" using Cons.prems(1,3) by (simp add: ems_inv_def)
    then obtain h where h: "mapped_page ?e s = Some h" using mapped_page_current [OF Cons.prems(1)] Cons.prems(2) False unfolding mappings_current_def by blast
    have "\<exists>s'. frame_entries cts seg off (s\<lparr>ems_mem := m\<rparr>) = Some s' \<and> ems_inv s' own oth" if "mem_tables m = mem_tables (ems_mem s)" for m
      using Cons.IH [OF inv_tables [OF Cons.prems(1) that]] Cons.prems(2,3) by (simp add: mappings_current_def ValidHandle_def the_handle_def)
    then show ?thesis using False h by (simp add: Let_def)
  qed (use Cons in simp)
qed simp

lemma vcpi_interface_returns:
  assumes inv: "ems_inv s own oth" and c: "mappings_current s"
  shows "\<exists>r' s'. vcpi_interface r s = Some (r', s') \<and> ems_inv s' own oth"
proof -
  define s0 where "s0 = s\<lparr>ems_mem := fold (page_table_entry (val_es r) (reg_di r)) [0..<0x100] (ems_mem s)\<rparr>"
  have s0: "ems_inv s0 own oth" "mappings_current s0"
    using inv_tables [OF inv] c by (simp_all add: s0_def fold_tables mappings_current_def ValidHandle_def the_handle_def)
  obtain s1 where "frame_entries [0..<4] (val_es r) (reg_di r) s0 = Some s1" "ems_inv s1 own oth"
    using frame_entries_returns [OF s0, of "[0..<4]"] by (auto simp: EMM_MAX_PHYS_def)
  then show ?thesis by (simp add: vcpi_interface_def s0_def [symmetric] Let_def inv_tables)
qed

section \<open>The dispatcher\<close>

text \<open>
  The excluded calls: allocation while a free run at the table's end is not the longest; a reallocation to as many
  pages as mark an unused handle, or of a handle without pages to none or to more than are free; a move whose range wraps; VCPI
  calls that follow mappings of pages the handle no longer has, or free a page of another owner.
\<close>

definition call_allowed :: "nat set \<Rightarrow> ems_regs \<Rightarrow> ems_state \<Rightarrow> bool" where
  "call_allowed V r s \<longleftrightarrow> (let ah = high_byte (reg_eax r); al = low_byte (reg_eax r); bx = low_word (reg_ebx r); dx = low_word (reg_edx r) in
     (ah = 0x43 \<or> ah = 0x51 \<or> ah = 0x5A \<or> (ah = 0xDE \<and> al = 4) \<longrightarrow> tail_longest (mhandles (ems_mem s))) \<and>
     (ah = 0x51 \<longrightarrow> bx \<noteq> NULL_HANDLE \<and>
       (ValidHandle dx s \<and> emm_pages (the_handle dx s) = 0 \<longrightarrow> bx \<noteq> 0 \<and> unat bx * 4 \<le> MEM_FreeTotal (ems_mem s))) \<and>
     (ah = 0x57 \<longrightarrow> region_in_range r s) \<and>
     (ah = 0xDE \<and> (al = 1 \<or> al = 6) \<longrightarrow> mappings_current s) \<and>
     (ah = 0xDE \<and> al = 5 \<longrightarrow> unat (drop_bit 12 (reg_edx r)) \<in> V))"

text \<open>A call that returns, or gets to the switch of the CPU's mode, in a state that satisfies the invariant.\<close>

definition comes_back :: "int67_result option \<Rightarrow> ems_regs \<Rightarrow> ems_state \<Rightarrow> bool" where
  "comes_back x r s \<longleftrightarrow> x = Some (Returned r s) \<or> x = Some (Mode_Switch r s)"

definition returns :: "nat set \<Rightarrow> ('x \<rightharpoonup> nat list) \<Rightarrow> int67_result option \<Rightarrow> bool" where
  "returns V oth x \<longleftrightarrow> (\<exists>r s own. comes_back x r s \<and> ems_inv s own (case_sum (vpages V) oth))"

lemma returns_state:
  "ems_inv s own (case_sum (vpages V) oth) \<Longrightarrow> returns V oth (Some (Returned r s))"
  "ems_inv s own (case_sum (vpages V) oth) \<Longrightarrow> returns V oth (Some (Mode_Switch r s))"
  unfolding returns_def comes_back_def by blast+

lemma comes_back_if: "(b \<Longrightarrow> returns V oth x) \<Longrightarrow> (\<not> b \<Longrightarrow> returns V oth y) \<Longrightarrow> returns V oth (if b then x else y)"
  by simp

lemma returns_status: "\<exists>e s' own'. x = Some (e, s') \<and> ems_inv s' own' (case_sum (vpages V) oth) \<Longrightarrow> returns V oth (ret_status r x)"
  unfolding returns_def ret_status_def comes_back_def by fastforce

lemma returns_alloc:
  assumes "ems_inv s own (case_sum (vpages V) oth)" and "tail_longest (mhandles (ems_mem s))"
  shows "returns V oth (ret_alloc r (EMM_AllocateMemory n z s))"
proof -
  have "\<exists>e d s' own'. EMM_AllocateMemory n z s = Some (e, d, s') \<and> ems_inv s' own' (case_sum (vpages V) oth)"
    using AllocateMemory_spec [OF assms, of n z] assms(1) by metis
  then show ?thesis unfolding returns_def ret_alloc_def comes_back_def by fastforce
qed

lemma bytes_mapping_length: "length (bytes_mapping (MEM_BlockRead a 16 m)) = EMM_MAX_PHYS"
  by (simp add: EMM_MAX_PHYS_def numeral_eq_Suc)

lemma restore_map_returns:
  assumes "ems_inv s own oth"
  shows "\<exists>e s'. restore_map r s = Some (e, s') \<and> ems_inv s' own oth"
proof -
  let ?s = "s\<lparr>emm_mappings := bytes_mapping (MEM_BlockRead (phys_ds r + ucast (reg_si r)) 16 (ems_mem s))\<rparr>"
  have i: "ems_inv ?s own oth" using assms bytes_mapping_length by (intro inv_map [OF assms]) (simp_all add: ems_inv_def)
  then show ?thesis using RestoreMappingTable_returns [OF i] maps_only_inv [OF i] by (auto simp: restore_map_def)
qed

lemma save_map_inv: "ems_inv s own oth \<Longrightarrow> ems_inv (save_map r s) own oth"
  by (simp add: save_map_def inv_tables)

lemma RestorePageMap_state:
  fixes h :: u16
  assumes inv: "ems_inv s own oth" and v: "ValidHandle h s \<or> h = 0" and sv: "saved_page_map (the_handle h s)"
  shows "ems_inv ((set_emm_handle h ((the_handle h s)\<lparr>saved_page_map := False\<rparr>) s)\<lparr>emm_mappings := page_map (the_handle h s)\<rparr>) own oth"
proof -
  let ?e = "the_handle h s"
  have i: "unat h < EMM_MAX_HANDLES" using v by (auto simp: ValidHandle_def EMM_MAX_HANDLES_def)
  have t: "ems_table (emm_handles s) (ems_mem s) own oth" using inv by (simp add: ems_inv_def)
  have "entry_ok (?e\<lparr>saved_page_map := False\<rparr>) (own (unat h))" using t i by (auto simp: ems_table_def entry_ok_def emm_live_def the_handle_def split: option.splits)
  then have "ems_table ((emm_handles s)[unat h := ?e\<lparr>saved_page_map := False\<rparr>]) (ems_mem s) (own(unat h := own (unat h))) oth"
    using t by (intro table_upd [OF t i]) (simp_all add: ems_table_def)
  then have "ems_inv (s\<lparr>emm_handles := (emm_handles s)[unat h := ?e\<lparr>saved_page_map := False\<rparr>], ems_mem := ems_mem s\<rparr>) own oth"
    by (intro inv_upd [OF inv i]) simp_all
  then show ?thesis
    using inv_saved [OF inv i] sv inv by (auto intro!: inv_map simp: set_emm_handle_def the_handle_def ems_inv_def)
qed

lemma RestorePageMap_returns:
  fixes h :: u16
  assumes inv: "ems_inv s own oth"
  shows "\<exists>e s'. EMM_RestorePageMap h s = Some (e, s') \<and> ems_inv s' own oth"
proof (cases "(\<not> ValidHandle h s \<and> h \<noteq> 0) \<or> \<not> saved_page_map (the_handle h s)")
  case False
  then have "ems_inv ((set_emm_handle h ((the_handle h s)\<lparr>saved_page_map := False\<rparr>) s)\<lparr>emm_mappings := page_map (the_handle h s)\<rparr>) own oth" (is "ems_inv ?s own oth")
    by (intro RestorePageMap_state [OF inv]) auto
  then show ?thesis using RestoreMappingTable_returns [of ?s own oth] maps_only_inv [of ?s own oth] False by (auto simp: EMM_RestorePageMap_def Let_def)
qed (use inv in \<open>auto simp: EMM_RestorePageMap_def\<close>)

lemma map_multiple_returns:
  assumes "\<And>p h l s. ems_inv s own oth \<Longrightarrow> p < 0x10000 \<Longrightarrow> \<exists>e s'. mapper p h l s = Some (e, s') \<and> maps_only s s'"
  shows "ems_inv s own oth \<Longrightarrow> \<exists>e s'. map_multiple mapper n a h s = Some (e, s') \<and> ems_inv s' own oth"
proof (induction n arbitrary: a s)
  case (Suc n)
  have "unat (mem_readw (a + 2) (ems_mem s)) < 0x10000" using unsigned_less [of "mem_readw (a + 2) (ems_mem s)", where ?'a = nat] by simp
  then obtain e s1 where s1: "mapper (unat (mem_readw (a + 2) (ems_mem s))) h (mem_readw a (ems_mem s)) s = Some (e, s1)" "maps_only s s1"
    using assms [OF Suc.prems] by blast
  then show ?case using Suc.IH [of s1 "a + 4"] maps_only_inv [OF Suc.prems s1(2)] by auto
qed simp

lemma GetSetHandleName_inv:
  assumes inv: "ems_inv s own oth"
  shows "ems_inv (snd (GetSetHandleName r s)) own oth"
proof -
  have "ems_inv (set_emm_handle h ((the_handle h s)\<lparr>emm_name := x\<rparr>) s) own oth" if "ValidHandle h s" for h x
  proof -
    let ?e = "(the_handle h s)\<lparr>emm_name := x\<rparr>"
    have t: "ems_table (emm_handles s) (ems_mem s) own oth" and i: "unat h < EMM_MAX_HANDLES" using inv that by (simp_all add: ems_inv_def ValidHandle_def)
    have "entry_ok ?e (own (unat h))" using t i by (auto simp: ems_table_def entry_ok_def emm_live_def the_handle_def split: option.splits)
    then have "ems_table ((emm_handles s)[unat h := ?e]) (ems_mem s) (own(unat h := own (unat h))) oth"
      using t by (intro table_upd [OF t i]) (simp_all add: ems_table_def)
    then have "ems_inv (s\<lparr>emm_handles := (emm_handles s)[unat h := ?e], ems_mem := ems_mem s\<rparr>) own oth"
      using inv_saved [OF inv i] by (intro inv_upd [OF inv i]) (simp_all add: the_handle_def)
    then show ?thesis by (simp add: set_emm_handle_def)
  qed
  then show ?thesis using inv by (simp add: GetSetHandleName_def Let_def inv_tables)
qed

text \<open>The pages that VCPI clients own after a call.\<close>

definition vcpi_after :: "nat set \<Rightarrow> ems_regs \<Rightarrow> ems_regs \<Rightarrow> nat set" where
  "vcpi_after V r r' = (if low_byte (reg_eax r) = 4 then
       (if high_byte (reg_eax r') = 0 then insert (unat (drop_bit 12 (reg_edx r'))) V else V)
     else if low_byte (reg_eax r) = 5 then V - {unat (drop_bit 12 (reg_edx r))} else V)"

lemma high_byte_put: "high_byte (reg_eax (put_ah v r)) = v" "reg_edx (put_ah v r) = reg_edx r"
proof -
  have "bit (high_byte (reg_eax (put_ah v r))) n = bit v n" if "n < 8" for n
  proof -
    have e: "(0xff00 :: u32) = push_bit 8 (mask 8)" by (simp add: mask_numeral)
    have "bit (0xff00 :: u32) (n + 8)" unfolding e bit_push_bit_iff bit_mask_iff using that by simp
    then show ?thesis using that by (simp add: high_byte_def put_ah_def put_high_def bit_simps add.commute del: bit_numeral_iff)
  qed
  then show "high_byte (reg_eax (put_ah v r)) = v" by (intro bit_word_eqI) simp
qed (simp add: put_ah_def)

lemma owned_page_small:
  assumes "ems_inv s own (case_sum (vpages V) oth)" and "p \<in> V"
  shows "p < 2 ^ 20"
proof -
  have t: "owns pool (ems_mem s) (case_sum own (case_sum (vpages V) oth))" "ram_above (ems_mem s)" using assms(1) by (simp_all add: ems_inv_def ems_table_def)
  have "case_sum own (case_sum (vpages V) oth) (Inr (Inl p)) = Some [p]" using assms(2) by (simp add: vpages_def)
  then obtain B where "pool (ems_mem s) B" "[p] \<in> B" using t(1) unfolding owns_def by (metis ranI subsetD)
  then have "p < length (mhandles (ems_mem s))" by (auto simp: pool_def block_def)
  then show ?thesis using t(2) by (simp add: ram_above_def)
qed

lemma page_of_edx: "p < 2 ^ 20 \<Longrightarrow> unat (drop_bit 12 (of_nat (p * 4096) :: u32)) = p"
  unfolding page_of_address by (subst unat_of_nat) simp

lemma vcpi_call_returns:
  assumes inv: "ems_inv s own (case_sum (vpages V) oth)" and a: "call_allowed V r s" and ah: "high_byte (reg_eax r) = 0xDE"
  shows "\<exists>r' s' own'. comes_back (vcpi_call r s) r' s' \<and> ems_inv s' own' (case_sum (vpages (vcpi_after V r r')) oth)"
proof -
  let ?al = "low_byte (reg_eax r)"
  have c: "?al = 1 \<or> ?al = 6 \<Longrightarrow> mappings_current s" "?al = 4 \<Longrightarrow> tail_longest (mhandles (ems_mem s))"
    "?al = 5 \<Longrightarrow> unat (drop_bit 12 (reg_edx r)) \<in> V"
    using a ah by (simp_all add: call_allowed_def Let_def)
  consider (alloc) "?al = 4" | (free) "?al = 5" | (other) "?al \<noteq> 4" "?al \<noteq> 5" by blast
  then show ?thesis
  proof cases
    case alloc
    then have v: "vcpi_call r s = map_option (\<lambda>(r', s'). Returned r' s') (vcpi_allocate_page r s)" by (simp add: vcpi_call_def Let_def)
    note S = vcpi_allocate_page_spec [OF inv c(2) [OF alloc], of r]
    show ?thesis
    proof (cases "MEM_FreeTotal (ems_mem s) = 0")
      case True
      then have "comes_back (vcpi_call r s) (put_ah (emm_code EMM_OUT_OF_LOG) r) s" using S v by (simp add: comes_back_def)
      moreover have "vcpi_after V r (put_ah (emm_code EMM_OUT_OF_LOG) r) = V" using alloc by (simp add: vcpi_after_def high_byte_put)
      ultimately show ?thesis using inv by metis
    next
      case False
      then obtain p s' where p: "vcpi_allocate_page r s = Some (put_ah (emm_code EMM_NO_ERROR) (r\<lparr>reg_edx := of_nat (p * 4096)\<rparr>), s')"
        "ems_inv s' own (case_sum (vpages (insert p V)) oth)" using S by auto
      have "p < 2 ^ 20" using owned_page_small [OF p(2)] by simp
      then have "vcpi_after V r (put_ah (emm_code EMM_NO_ERROR) (r\<lparr>reg_edx := of_nat (p * 4096)\<rparr>)) = insert p V"
        unfolding vcpi_after_def high_byte_put using alloc page_of_edx [of p] by simp
      moreover have "comes_back (vcpi_call r s) (put_ah (emm_code EMM_NO_ERROR) (r\<lparr>reg_edx := of_nat (p * 4096)\<rparr>)) s'" using p(1) v by (simp add: comes_back_def)
      ultimately show ?thesis using p(2) by metis
    qed
  next
    case free
    then have v: "vcpi_call r s = map_option (\<lambda>(r', s'). Returned r' s') (vcpi_free_page r s)" by (simp add: vcpi_call_def Let_def)
    from vcpi_free_page_spec [OF inv c(3) [OF free]] obtain s' where "vcpi_free_page r s = Some (put_ah (emm_code EMM_NO_ERROR) r, s')"
      "ems_inv s' own (case_sum (vpages (V - {unat (drop_bit 12 (reg_edx r))})) oth)" by blast
    then show ?thesis using v free by (auto simp: comes_back_def vcpi_after_def)
  next
    case other
    have iface: "returns V oth (map_option (\<lambda>(r', s'). Returned r' s') (do { (r', s') \<leftarrow> vcpi_interface r s; Some (put_ah (emm_code EMM_NO_ERROR) r', s') }))" if "?al = 1"
    proof -
      have "mappings_current s" using c(1) that by blast
      from vcpi_interface_returns [OF inv this] obtain r' s' where "vcpi_interface r s = Some (r', s')" "ems_inv s' own (case_sum (vpages V) oth)" by blast
      then show ?thesis using returns_state(1) by simp
    qed
    have phys: "returns V oth (map_option (\<lambda>r'. Returned r' s) (vcpi_physical_address r s))" if "?al = 6"
    proof -
      have "\<exists>h. mapped_page (emm_mappings s ! p) s = Some h" if "p < 4" "map_handle (emm_mappings s ! p) \<noteq> NULL_HANDLE" for p
        using mapped_page_current [OF inv] c(1) \<open>?al = 6\<close> that inv unfolding mappings_current_def ems_inv_def EMM_MAX_PHYS_def by (metis nth_mem)
      from this [of 0] this [of 1] this [of 2] this [of 3] have "\<exists>r'. vcpi_physical_address r s = Some r'" by (auto simp: vcpi_physical_address_def Let_def)
      then show ?thesis using returns_state(1) [OF inv] by auto
    qed
    have remap: "returns V oth (Some (Returned r' (s\<lparr>vcpi := x\<rparr>)))" for r' x using returns_state(1) [OF inv_map [OF inv]] by simp
    note st = returns_state [OF inv]
    have "returns V oth (vcpi_call r s)" unfolding vcpi_call_def Let_def
      by (intro comes_back_if) (simp_all only: iface phys st remap other simp_thms)
    then show ?thesis using other by (simp add: returns_def vcpi_after_def)
  qed
qed

text \<open>Every call that is allowed returns, and the handles, the pages of VCPI clients and all other blocks stay apart.\<close>

lemma call_allowedD:
  assumes "call_allowed V r s"
  shows "high_byte (reg_eax r) = 0x43 \<or> high_byte (reg_eax r) = 0x51 \<or> high_byte (reg_eax r) = 0x5A \<Longrightarrow> tail_longest (mhandles (ems_mem s))"
    "high_byte (reg_eax r) = 0x51 \<Longrightarrow> low_word (reg_ebx r) \<noteq> NULL_HANDLE"
    "high_byte (reg_eax r) = 0x51 \<Longrightarrow> \<not> (ValidHandle (low_word (reg_edx r)) s \<and> emm_pages (the_handle (low_word (reg_edx r)) s) = 0 \<and>
      (low_word (reg_ebx r) = 0 \<or> MEM_FreeTotal (ems_mem s) < unat (low_word (reg_ebx r)) * 4))"
    "high_byte (reg_eax r) = 0x57 \<Longrightarrow> region_in_range r s"
  using assms unfolding call_allowed_def Let_def by (blast, blast, meson not_le, blast)

lemma realloc_returns:
  assumes inv: "ems_inv s own oth" and t: "tail_longest (mhandles (ems_mem s))" and n: "n \<noteq> NULL_HANDLE"
    and e: "\<not> (ValidHandle h s \<and> emm_pages (the_handle h s) = 0 \<and> (n = 0 \<or> MEM_FreeTotal (ems_mem s) < unat n * 4))"
  shows "\<exists>e s' own'. EMM_ReallocatePages h n s = Some (e, s') \<and> ems_inv s' own' oth"
proof -
  note R = ReallocatePages_spec [OF inv t n, of h]
  consider "\<not> ValidHandle h s" | "ValidHandle h s" "MEM_FreeTotal (ems_mem s) < unat n * 4 - unat (emm_pages (the_handle h s)) * 4" |
    "ValidHandle h s" "\<not> MEM_FreeTotal (ems_mem s) < unat n * 4 - unat (emm_pages (the_handle h s)) * 4" by blast
  then show ?thesis
  proof cases
    case 1
    then show ?thesis using R inv by (simp only: if_True simp_thms) blast
  next
    case 2
    then show ?thesis using R e inv by (simp only: if_True if_False simp_thms) blast
  next
    case 3
    then show ?thesis using R e by (simp only: if_False simp_thms) blast
  qed
qed

lemma INT67_other:
  assumes inv: "ems_inv s own (case_sum (vpages V) oth)" and a: "call_allowed V r s" and vcpi: "\<not> (high_byte (reg_eax r) = 0xDE \<and> vcpi_enabled (vcpi s))"
  shows "returns V oth (INT67_Handler r s)"
proof -
  note st = returns_state(1) [OF inv]
  have al: "returns V oth (ret_alloc r (EMM_AllocateMemory n z s))" if "high_byte (reg_eax r) = 0x43 \<or> high_byte (reg_eax r) = 0x5A" for n z
    using returns_alloc [OF inv] call_allowedD(1) [OF a] that by blast
  have re: "returns V oth (ret_status r (EMM_ReallocatePages (low_word (reg_edx r)) (low_word (reg_ebx r)) s))" if "high_byte (reg_eax r) = 0x51"
  proof (rule returns_status)
    have t: "tail_longest (mhandles (ems_mem s))" using call_allowedD(1) [OF a] that by blast
    from realloc_returns [OF inv t call_allowedD(2,3) [OF a that]] show "\<exists>e s' own'. EMM_ReallocatePages (low_word (reg_edx r)) (low_word (reg_ebx r)) s = Some (e, s') \<and> ems_inv s' own' (case_sum (vpages V) oth)" by blast
  qed
  have rl: "returns V oth (ret_status r (EMM_ReleaseMemory h s))" for h
    using ReleaseMemory_spec [OF inv, of h] inv by (intro returns_status) metis
  have mp: "returns V oth (ret_status r (EMM_MapPage p h l s))" for p h l
    using MapPage_returns [OF inv, of p h l] maps_only_inv [OF inv] by (intro returns_status) blast
  have sv: "returns V oth (ret_status r (Some (EMM_SavePageMap h s)))" for h
    using SavePageMap_spec [OF inv, of h] inv by (intro returns_status) metis
  have rs: "returns V oth (ret_status r (EMM_RestorePageMap h s))" for h
    using RestorePageMap_returns [OF inv, of h] by (intro returns_status) blast
  have rm: "returns V oth (ret_status r (restore_map r s))" "returns V oth (ret_status r (restore_map r (save_map r s)))"
    using restore_map_returns [OF inv, of r] restore_map_returns [OF save_map_inv [OF inv], of r] by (intro returns_status; blast)+
  have pm: "returns V oth (map_option (\<lambda>(e, r', s'). Returned (status e r') s') (EMM_PartialPageMapping r s))"
    using PartialPageMapping_returns [OF inv, of r] returns_state(1) by (auto simp del: EMM_PartialPageMapping_def)
  have mm: "returns V oth (ret_status r (map_multiple EMM_MapPage n a' h s))" "returns V oth (ret_status r (map_multiple EMM_MapSegment n a' h s))" for n a' h
  proof -
    have "\<exists>e s'. map_multiple EMM_MapPage n a' h s = Some (e, s') \<and> ems_inv s' own (case_sum (vpages V) oth)"
      by (rule map_multiple_returns [OF _ inv]) (rule MapPage_returns)
    moreover have "\<exists>e s'. map_multiple EMM_MapSegment n a' h s = Some (e, s') \<and> ems_inv s' own (case_sum (vpages V) oth)"
      by (rule map_multiple_returns [OF _ inv]) (rule MapSegment_returns)
    ultimately show "returns V oth (ret_status r (map_multiple EMM_MapPage n a' h s))" "returns V oth (ret_status r (map_multiple EMM_MapSegment n a' h s))"
      by (intro returns_status; blast)+
  qed
  have nm: "returns V oth (ret_status r (Some (GetSetHandleName r s)))"
    using GetSetHandleName_inv [OF inv, of r] by (intro returns_status) (metis prod.collapse)
  have mv: "returns V oth (ret_status r (MemoryRegion r s))" if "high_byte (reg_eax r) = 0x57"
    using MemoryRegion_returns [OF inv call_allowedD(4) [OF a that]] by (intro returns_status) blast
  have tb: "returns V oth (Some (Returned r' (s\<lparr>ems_mem := m\<rparr>)))" if "mem_tables m = mem_tables (ems_mem s)" for r' m
    using inv_tables [OF inv that] by (rule returns_state)
  have gp: "returns V oth (case EMM_GetPagesForAllHandles a' s of (e, n, s') \<Rightarrow> Some (Returned (f e n) s'))" for a' f
    using tb [of "snd (write_handle_pages 0 (emm_handles s) a' 0 (ems_mem s))"] by (simp add: EMM_GetPagesForAllHandles_def split: prod.split) (metis snd_conv handle_pages_tables)
  have nn: "returns V oth (Some (Returned r' (s\<lparr>ems_mem := m\<rparr>)))" if "write_handle_names 0 (emm_handles s) a' 0 (ems_mem s) = (n, m)" for a' n m r'
    using tb [of m r'] handle_names_tables [of 0 "emm_handles s" a' 0 "ems_mem s"] that by simp
  have ns: "returns V oth (case HandleNameSearch r s of (e, r', s') \<Rightarrow> Some (Returned (status e r') s'))"
    using st nn by (auto simp: HandleNameSearch_def Let_def split: prod.split option.split)
  have at: "returns V oth (case GetSetHandleAttributes r s of (e, r') \<Rightarrow> Some (Returned (status e r') s))" using st by (simp split: prod.split)
  have vc: "high_byte (reg_eax r) = 0xDE \<Longrightarrow> \<not> \<not> vcpi_enabled (vcpi s) \<Longrightarrow> returns V oth x" for x using vcpi by blast
  have sm: "returns V oth (Some (Returned r' (save_map r s)))" for r' using save_map_inv [OF inv] by (rule returns_state)
  have ma: "returns V oth (Some (Returned r' (if b then s\<lparr>ems_mem := mappable_array a' (ems_mem s)\<rparr> else s)))" for r' b a' using tb st by simp
  have vh: "returns V oth (Some (if b then Returned r1 s else Returned r2 s))" for b r1 r2 using st by simp
  show ?thesis unfolding INT67_Handler_def Let_def
    by (intro comes_back_if) (simp_all only: al re rl mp sv rs rm pm mm nm mv tb gp ns at vc sm st ma vh arrays_tables simp_thms)
qed

definition pages_after :: "nat set \<Rightarrow> ems_regs \<Rightarrow> ems_state \<Rightarrow> ems_regs \<Rightarrow> nat set" where
  "pages_after V r s r' = (if high_byte (reg_eax r) = 0xDE \<and> vcpi_enabled (vcpi s) then vcpi_after V r r' else V)"

lemma INT67_returns:
  assumes inv: "ems_inv s own (case_sum (vpages V) oth)" and a: "call_allowed V r s"
  shows "\<exists>r' s' own'. comes_back (INT67_Handler r s) r' s' \<and> ems_inv s' own' (case_sum (vpages (pages_after V r s r')) oth)"
proof (cases "high_byte (reg_eax r) = 0xDE \<and> vcpi_enabled (vcpi s)")
  case True
  then have "INT67_Handler r s = vcpi_call r s" by (simp add: INT67_Handler_def Let_def)
  then show ?thesis using vcpi_call_returns [OF inv a] True by (simp add: pages_after_def)
next
  case False
  then show ?thesis using INT67_other [OF inv a False] unfolding returns_def pages_after_def by auto
qed

end
