(* ===== verification/Ems_Props.thy ===== *)
theory Ems_Props
  imports Ems_Calls
begin

text \<open>
  What the expanded memory manager promises to its callers: handles that stay apart from start-up on, a page frame that
  shows the pages that were mapped, page maps that can be saved and restored, and reallocation that keeps
  the contents.
\<close>

unbundle bit_operations_syntax

section \<open>Setup\<close>

definition ems_typed :: "ems_state \<Rightarrow> bool" where
  "ems_typed s \<longleftrightarrow> length (emm_handles s) = EMM_MAX_HANDLES \<and> (\<forall>e\<in>set (emm_handles s). length (page_map e) = EMM_MAX_PHYS)"

lemma owns_none:
  assumes "owns pl m oth"
  shows "owns pl m (case_sum Map.empty oth)" (is "owns pl m ?own")
proof -
  obtain B where B: "pl m B" "ran oth \<subseteq> B" "inj_on oth (dom oth)" using assms by (auto simp: owns_def)
  have "ran ?own \<subseteq> B"
  proof
    fix x assume "x \<in> ran ?own"
    then obtain a where "?own a = Some x" unfolding ran_def by blast
    then show "x \<in> B" using B(2) by (cases a) (auto intro: ranI)
  qed
  moreover have "inj_on ?own (dom ?own)"
  proof (rule inj_onI)
    fix a b assume "a \<in> dom ?own" "b \<in> dom ?own" "?own a = ?own b"
    then show "a = b" by (cases a; cases b) (auto dest: inj_onD [OF B(3)])
  qed
  ultimately show ?thesis using B(1) unfolding owns_def by blast
qed

lemma clear_tables_inv:
  assumes "ems_typed s" and "ram_above (ems_mem s)" "owns pool (ems_mem s) oth"
  shows "ems_inv (clear_tables s) Map.empty oth"
  using assms owns_none [OF assms(3)]
  by (auto simp: ems_inv_def ems_table_def clear_tables_def ems_typed_def entry_ok_def emm_live_def)

lemma SetupVCPI_tables: "mem_tables (ems_mem (SetupVCPI s)) = mem_tables (ems_mem s)"
proof -
  have idt: "mem_tables (idt_entry a ct m) = mem_tables m" for a ct m by (simp add: idt_entry_def)
  show ?thesis by (simp add: SetupVCPI_def Let_def fold_tables idt)
qed

lemma SetupVCPI_inv: "ems_inv s own oth \<Longrightarrow> ems_inv (SetupVCPI s) own oth"
proof -
  assume i: "ems_inv s own oth"
  have "ems_inv (s\<lparr>ems_mem := ems_mem (SetupVCPI s)\<rparr>) own oth" by (rule inv_tables [OF i SetupVCPI_tables])
  then show "ems_inv (SetupVCPI s) own oth" by (rule inv_map) (simp_all add: SetupVCPI_def Let_def)
qed

lemma system_handle:
  assumes inv: "ems_inv s own oth" and n: "emm_pages (the_handle 0 s) = NULL_HANDLE" and r: "tail_longest (mhandles (ems_mem s))"
  shows "\<exists>e s' own'. EMM_AllocateSystemHandle 24 s = Some (e, s') \<and> ems_inv s' own' oth \<and> handles_only s s' \<and>
    saved_page_map (the_handle 0 s') = saved_page_map (the_handle 0 s) \<and>
    (if get_free_pages s < 24 then e = EMM_OUT_OF_LOG \<and> s' = s else e = EMM_NO_ERROR \<and> emm_pages (the_handle 0 s') = 24)"
proof (cases "get_free_pages s < 24")
  case True
  then show ?thesis using inv by (auto simp: EMM_AllocateSystemHandle_def handles_only_def)
next
  case False
  have t: "ems_table (emm_handles s) (ems_mem s) own oth" and len: "length (emm_handles s) = EMM_MAX_HANDLES" using inv by (simp_all add: ems_inv_def ems_table_def)
  have i: "0 < EMM_MAX_HANDLES" by (simp add: EMM_MAX_HANDLES_def)
  have nl: "\<not> emm_live (emm_handles s ! 0)" using n by (simp add: emm_live_def the_handle_def)
  have k: "(24::u16) \<noteq> 0" "(24::u16) \<noteq> NULL_HANDLE" by (simp_all add: NULL_HANDLE_def)
  from gather_entry [OF t i nl r k] free_pages_enough(1) [OF False] obtain h m ps where m: "MEM_AllocatePages (unat (24::u16) * 4) False (ems_mem s) = Some (h, m)" "0 < h"
    "ram m = ram (ems_mem s)" "mem_rest m = mem_rest (ems_mem s)" "\<forall>e. emm_pages e = 24 \<and> emm_mem e = h \<longrightarrow> ems_table ((emm_handles s)[0 := e]) m (own(0 \<mapsto> ps)) oth" by auto
  let ?e = "(the_handle 0 s)\<lparr>emm_pages := 24, emm_mem := h\<rparr>"
  have "ems_inv (s\<lparr>emm_handles := (emm_handles s)[0 := ?e], ems_mem := m\<rparr>) (own(0 \<mapsto> ps)) oth"
    using m(5) inv_saved [OF inv i] by (intro inv_upd [OF inv i]) (simp_all add: the_handle_def)
  moreover have "EMM_AllocateSystemHandle 24 s = Some (EMM_NO_ERROR, s\<lparr>emm_handles := (emm_handles s)[0 := ?e], ems_mem := m\<rparr>)"
    using False n m(1,2) by (simp add: EMM_AllocateSystemHandle_def set_emm_handle_mem)
  ultimately show ?thesis using False len i m(3,4) by (auto simp: the_handle_def handles_only_def)
qed

lemma handles_only_maps: "handles_only s s' \<Longrightarrow> emm_mappings s' = emm_mappings s \<and> firstmb_map (ems_mem s') = firstmb_map (ems_mem s) \<and> phandlers (ems_mem s') = phandlers (ems_mem s)"
  unfolding handles_only_def by (cases s, cases s') (auto simp: mem_rest_def)

lemma setup_returns:
  assumes "ems_typed s" and "ram_above (ems_mem s)" "owns pool (ems_mem s) oth" and "tail_longest (mhandles (ems_mem s))"
  shows "\<exists>s' own. ems_setup pm v86 s = Some s' \<and> ems_inv s' own oth \<and>
    (\<not> get_free_pages s < 24 \<longrightarrow> emm_pages (the_handle 0 s') = 24) \<and>
    emm_mappings s' = replicate EMM_MAX_PHYS unmapped \<and> firstmb_map (ems_mem s') = firstmb_map (ems_mem s) \<and>
    phandlers (ems_mem s') = phandlers (ems_mem s) \<and> saved_page_map (the_handle 0 s') = saved_page_map (the_handle 0 s)"
proof -
  have i: "ems_inv (clear_tables s) Map.empty oth" by (rule clear_tables_inv [OF assms(1-3)])
  have n: "emm_pages (the_handle 0 (clear_tables s)) = NULL_HANDLE" using assms(1) by (simp add: clear_tables_def the_handle_def ems_typed_def EMM_MAX_HANDLES_def)
  have mem: "ems_mem (clear_tables s) = ems_mem s" by (simp add: clear_tables_def)
  then have g: "get_free_pages (clear_tables s) = get_free_pages s" by (simp add: get_free_pages_def)
  from system_handle [OF i n] assms(4) obtain e s1 own1 where s1: "EMM_AllocateSystemHandle 24 (clear_tables s) = Some (e, s1)" "ems_inv s1 own1 oth"
    "\<not> get_free_pages s < 24 \<longrightarrow> emm_pages (the_handle 0 s1) = 24" "handles_only (clear_tables s) s1"
    "saved_page_map (the_handle 0 s1) = saved_page_map (the_handle 0 (clear_tables s))" unfolding mem g by (metis (full_types))
  have sv: "saved_page_map (the_handle 0 s1) = saved_page_map (the_handle 0 s)"
    using s1(5) assms(1) by (simp add: clear_tables_def the_handle_def ems_typed_def EMM_MAX_HANDLES_def)
  have k: "emm_mappings s1 = replicate EMM_MAX_PHYS unmapped" "firstmb_map (ems_mem s1) = firstmb_map (ems_mem s)" "phandlers (ems_mem s1) = phandlers (ems_mem s)"
    using handles_only_maps [OF s1(4)] by (simp_all add: clear_tables_def)
  show ?thesis
  proof (cases "ems_type s1 = 2")
    case True
    then show ?thesis using s1 k sv by (auto simp: ems_setup_def)
  next
    case False
    let ?s2 = "SetupVCPI (s1\<lparr>vcpi := (vcpi s1)\<lparr>pm_interface := pm\<rparr>\<rparr>)"
    have "ems_inv (s1\<lparr>vcpi := x\<rparr>) own1 oth" for x by (rule inv_map [OF s1(2)]) simp_all
    then have i2: "ems_inv ?s2 own1 oth" by (rule SetupVCPI_inv)
    have h: "the_handle 0 (?s2\<lparr>ems_mem := m\<rparr>) = the_handle 0 s1" for m by (simp add: SetupVCPI_def Let_def the_handle_def)
    obtain m where "ems_setup pm v86 s = Some (?s2\<lparr>ems_mem := m\<rparr>)" "mem_tables m = mem_tables (ems_mem ?s2)"
      using False s1(1) by (simp add: ems_setup_def Let_def)
    moreover have "emm_mappings ?s2 = replicate EMM_MAX_PHYS unmapped" using k(1) by (simp add: SetupVCPI_def Let_def)
    moreover have "firstmb_map (ems_mem ?s2) = firstmb_map (ems_mem s)" "phandlers (ems_mem ?s2) = phandlers (ems_mem s)"
      using k(2,3) SetupVCPI_tables [of "s1\<lparr>vcpi := (vcpi s1)\<lparr>pm_interface := pm\<rparr>\<rparr>"] by (simp_all add: mem_tables_def)
    ultimately show ?thesis using inv_tables [OF i2] h s1(3) sv by (intro exI [of _ "?s2\<lparr>ems_mem := m\<rparr>"] exI [of _ own1]) (simp add: mem_tables_def)
  qed
qed

section \<open>Reachable states\<close>

text \<open>
  The states of the driver from its setup on, beside owners \<open>oth\<close> of other blocks; \<open>V\<close> are the pages that
  VCPI clients have allocated.
\<close>

inductive ems_reach :: "('x \<rightharpoonup> nat list) \<Rightarrow> nat set \<Rightarrow> ems_state \<Rightarrow> bool" for oth where
  reach_setup: "ems_typed s \<Longrightarrow> ram_above (ems_mem s) \<Longrightarrow> owns pool (ems_mem s) oth \<Longrightarrow> tail_longest (mhandles (ems_mem s)) \<Longrightarrow>
    ems_setup pm v86 s = Some s' \<Longrightarrow> ems_reach oth {} s'"
| reach_call: "ems_reach oth V s \<Longrightarrow> call_allowed V r s \<Longrightarrow> INT67_Handler r s = Some (Returned r' s') \<Longrightarrow>
    ems_reach oth (pages_after V r s r') s'"

lemma vpages_empty: "vpages {} = Map.empty"
  by (auto simp: vpages_def)

lemma reach_inv: "ems_reach oth V s \<Longrightarrow> \<exists>own. ems_inv s own (case_sum (vpages V) oth)"
proof (induction rule: ems_reach.induct)
  case (reach_setup s pm v86 s')
  then have "owns pool (ems_mem s) (case_sum (vpages {}) oth)" unfolding vpages_empty by (intro owns_none)
  from setup_returns [OF reach_setup(1,2) this reach_setup(4), of pm v86] reach_setup(5) show ?case by auto
next
  case (reach_call V s r r' s')
  then obtain own where "ems_inv s own (case_sum (vpages V) oth)" by blast
  from INT67_returns [OF this reach_call(2)] reach_call(3) show ?case by (auto simp: comes_back_def)
qed

text \<open>Each handle with its pages: none, or a chain of four 4 KB pages for every page of 16 KB.\<close>

definition handle_pages :: "ems_state \<Rightarrow> (nat \<rightharpoonup> nat list) \<Rightarrow> bool" where
  "handle_pages s own \<longleftrightarrow> (\<forall>i<EMM_MAX_HANDLES. let e = emm_handles s ! i in case own i of
     None \<Rightarrow> emm_pages e = NULL_HANDLE \<or> emm_pages e = 0
   | Some ps \<Rightarrow> emm_pages e \<noteq> NULL_HANDLE \<and> emm_pages e \<noteq> 0 \<and> length ps = unat (emm_pages e) * 4 \<and> distinct ps \<and>
       pages_from (mhandles (ems_mem s)) (emm_mem e) ps (- 1))"

lemma inv_handle_pages:
  assumes "ems_inv s own oth"
  shows "handle_pages s own"
  unfolding handle_pages_def Let_def
proof (intro allI impI)
  fix i assume i: "i < EMM_MAX_HANDLES"
  have t: "ems_table (emm_handles s) (ems_mem s) own oth" using assms by (simp add: ems_inv_def)
  show "case own i of None \<Rightarrow> emm_pages (emm_handles s ! i) = NULL_HANDLE \<or> emm_pages (emm_handles s ! i) = 0
    | Some ps \<Rightarrow> emm_pages (emm_handles s ! i) \<noteq> NULL_HANDLE \<and> emm_pages (emm_handles s ! i) \<noteq> 0 \<and> length ps = unat (emm_pages (emm_handles s ! i)) * 4 \<and>
        distinct ps \<and> pages_from (mhandles (ems_mem s)) (emm_mem (emm_handles s ! i)) ps (- 1)"
  proof (cases "own i")
    case None
    then show ?thesis using t i by (auto simp: ems_table_def entry_ok_def emm_live_def dest!: spec [of _ i])
  next
    case (Some ps)
    then have e: "emm_live (emm_handles s ! i)" "emm_mem (emm_handles s ! i) = int (hd ps)" "length ps = unat (emm_pages (emm_handles s ! i)) * 4"
      using t i by (auto simp: ems_table_def entry_ok_def dest!: spec [of _ i])
    obtain B where B: "pool (ems_mem s) B" "ran (case_sum own oth) \<subseteq> B" using t by (auto simp: ems_table_def owns_def)
    have "case_sum own oth (Inl i) = Some ps" using Some by simp
    then have "ps \<in> B" using B(2) by (metis ranI subsetD)
    then have "block (mhandles (ems_mem s)) ps" using B(1) by (simp add: pool_def)
    then show ?thesis using Some e by (simp add: block_def emm_live_def)
  qed
qed

text \<open>
  Property C10. Handles of expanded memory stay apart. In every state that calls reach from the setup, each
  handle with pages names a chain of exactly four distinct 4 KB pages for each of its pages, no page is shared between
  two handles, a handle and a page of a VCPI client, or one of these and any other owner of memory
  such as the XMS driver, and every call that is not excluded returns.
\<close>

theorem ems_handles_apart:
  assumes "ems_reach oth V s"
  shows "\<exists>own. handle_pages s own \<and>
    (\<forall>a b ps qs. a \<noteq> b \<and> case_sum own (case_sum (vpages V) oth) a = Some ps \<and> case_sum own (case_sum (vpages V) oth) b = Some qs \<longrightarrow> set ps \<inter> set qs = {}) \<and>
    (\<forall>r. call_allowed V r s \<longrightarrow> (\<exists>r' s'. comes_back (INT67_Handler r s) r' s'))"
proof -
  obtain own where inv: "ems_inv s own (case_sum (vpages V) oth)" using reach_inv [OF assms] by blast
  then have "owns pool (ems_mem s) (case_sum own (case_sum (vpages V) oth))" by (simp add: ems_inv_def ems_table_def)
  then have "\<forall>a b ps qs. a \<noteq> b \<and> case_sum own (case_sum (vpages V) oth) a = Some ps \<and> case_sum own (case_sum (vpages V) oth) b = Some qs \<longrightarrow> set ps \<inter> set qs = {}"
    by (intro allI impI, elim conjE) (rule mp.owns_apart)
  then show ?thesis using inv_handle_pages [OF inv] INT67_returns [OF inv] by blast
qed

text \<open>A machine with \<open>n\<close> pages of memory, before the driver is set up.\<close>

definition boot_memory :: "nat \<Rightarrow> MemoryBlock" where
  "boot_memory n = \<lparr>ram = \<lambda>_. 0, phandlers = replicate n ram_page_handler, firstmb_map = id, mhandles = replicate n 0,
     a20_enabled = False, a20_controlport = 0\<rparr>"

definition boot_ems :: "nat \<Rightarrow> ems_state" where
  "boot_ems n = \<lparr>ems_type = 1,
     emm_handles = replicate EMM_MAX_HANDLES \<lparr>emm_pages = 0, emm_mem = 0, emm_name = replicate 8 0, saved_page_map = False, page_map = replicate 4 unmapped\<rparr>,
     emm_mappings = replicate 4 unmapped, emm_segmentmappings = replicate 0x40 unmapped,
     vcpi = \<lparr>vcpi_enabled = False, pm_interface = 0, private_area = 0, pic1_remapping = 0, pic2_remapping = 0\<rparr>, ems_mem = boot_memory n\<rparr>"

lemma ems_boot_ready:
  assumes "n < 2 ^ 20"
  shows "ems_typed (boot_ems n)" "ram_above (ems_mem (boot_ems n))" "owns pool (ems_mem (boot_ems n)) Map.empty" "tail_longest (mhandles (ems_mem (boot_ems n)))"
proof -
  show "ems_typed (boot_ems n)" by (simp add: boot_ems_def ems_typed_def EMM_MAX_PHYS_def)
  show "ram_above (ems_mem (boot_ems n))" using assms by (simp add: boot_ems_def boot_memory_def ram_above_def)
  have "pool (ems_mem (boot_ems n)) {}" by (simp add: boot_ems_def boot_memory_def pool_def)
  then show "owns pool (ems_mem (boot_ems n)) Map.empty" unfolding owns_def by auto
  have "r + k = n" if "maximal_run (replicate n 0) r k" for r k
  proof (rule ccontr)
    assume "r + k \<noteq> n"
    then have "r + k < n" using that by (simp add: maximal_run_def)
    then show False using that by (auto simp: maximal_run_def)
  qed
  then show "tail_longest (mhandles (ems_mem (boot_ems n)))" unfolding tail_longest_def by (auto simp: boot_ems_def boot_memory_def)
qed

lemma boot_free: "get_free_pages (boot_ems n) = of_nat (min MaxPages ((n - XMS_START) div 4))"
proof -
  have "free_set (replicate n 0) = {XMS_START..<n}" by (auto simp: free_set_def)
  then show ?thesis by (simp add: FreeTotal_card boot_memory_def get_free_pages_def boot_ems_def EMM_MAX_PHYS_def)
qed

lemma boot_reach:
  assumes "n < 2 ^ 20" and "\<not> get_free_pages (boot_ems n) < 24"
  obtains s where "ems_setup 0 0 (boot_ems n) = Some s" "ems_reach (Map.empty :: nat \<rightharpoonup> nat list) {} s" "emm_pages (the_handle 0 s) = 24"
    "emm_mappings s = replicate EMM_MAX_PHYS unmapped" "firstmb_map (ems_mem s) = id" "\<not> saved_page_map (the_handle 0 s)"
    "length (phandlers (ems_mem s)) = n"
proof -
  have "\<not> saved_page_map (the_handle 0 (boot_ems n))" by (simp add: boot_ems_def the_handle_def EMM_MAX_HANDLES_def)
  moreover have "firstmb_map (ems_mem (boot_ems n)) = id" "length (phandlers (ems_mem (boot_ems n))) = n" by (simp_all add: boot_ems_def boot_memory_def)
  ultimately show ?thesis using that setup_returns [OF ems_boot_ready [OF assms(1)], of 0 0] ems_reach.reach_setup [OF ems_boot_ready [OF assms(1)], of 0 0] assms(2) by auto
qed

text \<open>Two megabytes.\<close>

lemma boot_2mb: "\<not> get_free_pages (boot_ems 512) < 24"
  by (simp add: boot_free MaxPages_def XMS_START_def)

theorem ems_handles_apart_witness:
  "\<exists>s own. ems_reach (Map.empty :: nat \<rightharpoonup> nat list) {} s \<and> handle_pages s own \<and>
    (\<forall>r. call_allowed {} r s \<longrightarrow> (\<exists>r' s'. comes_back (INT67_Handler r s) r' s'))"
proof -
  obtain s where s: "ems_reach (Map.empty :: nat \<rightharpoonup> nat list) {} s" using boot_reach [OF _ boot_2mb] by auto
  from ems_handles_apart [OF s] s show ?thesis by blast
qed

section \<open>The page frame\<close>

lemma low_bits_disjoint: "push_bit 12 (x::u32) OR (a AND 0xfff) = push_bit 12 x + (a AND 0xfff)"
proof -
  have m: "(0xfff :: u32) = mask 12" by (simp add: mask_numeral)
  have "push_bit 12 x AND (a AND 0xfff) = 0" unfolding m by (rule bit_word_eqI) (auto simp: bit_simps bit_mask_iff)
  then show ?thesis by (simp add: disjunctive_add_eq_or)
qed

lemma phys_addr_page:
  assumes "InitPage (drop_bit 12 a) m = of_nat q"
  shows "phys_addr a m = page_byte q (unat a mod 4096)"
proof -
  have m: "(0xfff :: u32) = mask 12" by (simp add: mask_numeral)
  have "a AND 0xfff = of_nat (unat a mod 4096)"
    unfolding m take_bit_eq_mask [symmetric] by (rule word_unat_eq_iff [THEN iffD2]) (simp add: take_bit_eq_mod unat_mod unat_of_nat)
  moreover have "push_bit 12 (of_nat q :: u32) = of_nat (q * 4096)" by (simp add: push_bit_eq_mult mult.commute)
  ultimately show ?thesis unfolding phys_addr_def assms low_bits_disjoint by (simp add: page_byte_def)
qed

text \<open>The linear address of a byte of the page frame.\<close>

definition frame_address :: "nat \<Rightarrow> nat \<Rightarrow> u32" where
  "frame_address p off = of_nat (0xE0000 + p * 16384 + off)"

lemma frame_address_split:
  assumes "p < 4" "off < 16384"
  shows "unat (drop_bit 12 (frame_address p off)) = 0xe0 + p * 4 + off div 4096" "unat (frame_address p off) mod 4096 = off mod 4096"
proof -
  have "unat (frame_address p off) = (0xe0 + p * 4) * 4096 + off" using assms unfolding frame_address_def by (subst unat_of_nat) simp
  then show "unat (drop_bit 12 (frame_address p off)) = 0xe0 + p * 4 + off div 4096" "unat (frame_address p off) mod 4096 = off mod 4096"
    by (simp add: page_of_address) (simp only: \<open>unat (frame_address p off) = _\<close> mod_mult_self3)
qed

text \<open>A byte of the frame is a byte of the mapped page.\<close>

lemma window_shows:
  assumes p: "p < 4" "off < 16384" and len: "length qs = 4" and f: "firstmb_map m = window (0xe0 + p * 4) qs f"
  shows "phys_addr (frame_address p off) m = page_byte (qs ! (off div 4096)) (off mod 4096)"
    "InitPage (drop_bit 12 (frame_address p off)) m = of_nat (qs ! (off div 4096))"
proof -
  note s = frame_address_split [OF p]
  have "drop_bit 12 (frame_address p off) < FIRST_LINK" unfolding word_less_nat_alt s(1) using p by (simp add: FIRST_LINK_def)
  moreover have "off div 4096 < 4" using p(2) by simp
  ultimately show i: "InitPage (drop_bit 12 (frame_address p off)) m = of_nat (qs ! (off div 4096))"
    by (simp add: InitPage_def f window_def s(1) len)
  show "phys_addr (frame_address p off) m = page_byte (qs ! (off div 4096)) (off mod 4096)"
    using phys_addr_page [OF i] by (simp add: s(2))
qed

lemma window_other: "\<not> (lin \<le> unat p \<and> unat p < lin + length qs) \<Longrightarrow> window lin qs f p = f p"
  by (auto simp: window_def)

lemma logical_nth: "length (logical ps l) = 4 \<Longrightarrow> k < 4 \<Longrightarrow> logical ps l ! k = ps ! (l * 4 + k) \<and> l * 4 + k < length ps"
  by (auto simp: logical_def min_def split: if_splits)

lemma page_writable:
  assumes "ems_inv s own oth" and "own i = Some ps" and "q \<in> set ps"
  shows "q < length (mhandles (ems_mem s))" "q < 2 ^ 20" "phandlers (ems_mem s) ! q = ram_page_handler" "q < length (phandlers (ems_mem s))" "XMS_START \<le> q"
proof -
  have t: "owns pool (ems_mem s) (case_sum own oth)" and ra: "ram_above (ems_mem s)" using assms(1) by (simp_all add: ems_inv_def ems_table_def)
  have "case_sum own oth (Inl i) = Some ps" using assms(2) by simp
  then obtain B where "pool (ems_mem s) B" "ps \<in> B" using t unfolding owns_def by (metis ranI subsetD)
  then have "block (mhandles (ems_mem s)) ps" by (simp add: pool_def)
  then have b: "XMS_START \<le> q \<and> q < length (mhandles (ems_mem s))" using assms(3) pages_from_bounds [of "mhandles (ems_mem s)" "int (hd ps)" ps "- 1" q] by (simp add: block_def)
  then show "q < length (mhandles (ems_mem s))" "q < 2 ^ 20" "phandlers (ems_mem s) ! q = ram_page_handler" "q < length (phandlers (ems_mem s))" "XMS_START \<le> q"
    using ra by (auto simp: ram_above_def)
qed

text \<open>
  Property C11. The page frame shows the pages that are mapped. For a state that calls reach, mapping a page of a
  handle at one of the four pages of the frame fails for a page number of the frame that does not exist, an
  unused handle or a logical page beyond the handle's, in this order; otherwise every byte of that page of the frame is
  read from and written to the byte at the same offset of the handle's logical page, all other linear addresses lead
  where they led before, and no byte of memory changes. A logical page 0xffff unmaps.
\<close>

theorem ems_map_page_window:
  assumes "ems_reach oth V s"
  shows "\<exists>own. handle_pages s own \<and>
   (if EMM_MAX_PHYS \<le> p then EMM_MapPage p h l s = Some (EMM_ILL_PHYS, s)
    else if l = NULL_PAGE then \<exists>s'. EMM_MapPage p h l s = Some (EMM_NO_ERROR, s') \<and> emm_mappings s' = (emm_mappings s)[p := unmapped] \<and>
      (\<forall>off<16384. phys_addr (frame_address p off) (ems_mem s') = frame_address p off)
    else if \<not> ValidHandle h s then EMM_MapPage p h l s = Some (EMM_INVALID_HANDLE, s)
    else if emm_pages (the_handle h s) \<le> l then EMM_MapPage p h l s = Some (EMM_LOG_OUT_RANGE, s)
    else \<exists>s' ps. EMM_MapPage p h l s = Some (EMM_NO_ERROR, s') \<and> own (unat h) = Some ps \<and>
      emm_mappings s' = (emm_mappings s)[p := \<lparr>map_handle = h, map_page = l\<rparr>] \<and> ram (ems_mem s') = ram (ems_mem s) \<and>
      (\<forall>off<16384. let b = page_byte (ps ! (unat l * 4 + off div 4096)) (off mod 4096) in
        mem_readb (frame_address p off) (ems_mem s') = ram (ems_mem s) b \<and>
        (\<forall>v. mem_writeb (frame_address p off) v (ems_mem s') = (ems_mem s')\<lparr>ram := (ram (ems_mem s))(b := v)\<rparr>)) \<and>
      (\<forall>a. unat a div 16384 \<noteq> 0x38 + p \<longrightarrow> phys_addr a (ems_mem s') = phys_addr a (ems_mem s)))"
proof -
  obtain own where inv: "ems_inv s own (case_sum (vpages V) oth)" using reach_inv [OF assms] by blast
  note M = MapPage_spec [OF inv, of p h l]
  have hp: "handle_pages s own" by (rule inv_handle_pages [OF inv])
  consider (bad) "EMM_MAX_PHYS \<le> p \<or> (l \<noteq> NULL_PAGE \<and> (\<not> ValidHandle h s \<or> emm_pages (the_handle h s) \<le> l))"
    | (unmap) "p < 4" "l = NULL_PAGE" | (ok) "p < 4" "l \<noteq> NULL_PAGE" "ValidHandle h s" "\<not> emm_pages (the_handle h s) \<le> l"
    using linorder_not_le [of 4 p] unfolding EMM_MAX_PHYS_def by blast
  then show ?thesis
  proof cases
    case bad
    then show ?thesis using M hp by (intro exI [of _ own]) (auto split: if_splits)
  next
    case unmap
    let ?qs = "[0xe0 + p * 4..<0xe0 + p * 4 + 4]"
    let ?s' = "mapped p unmapped ?qs s"
    have e: "EMM_MapPage p h l s = Some (EMM_NO_ERROR, ?s')" using M unmap by (simp add: EMM_MAX_PHYS_def)
    have "phys_addr (frame_address p off) (ems_mem ?s') = frame_address p off" if off: "off < 16384" for off
    proof -
      have k: "off div 4096 < 4" using off by simp
      have "phys_addr (frame_address p off) (ems_mem ?s') = page_byte (?qs ! (off div 4096)) (off mod 4096)"
        by (rule window_shows [OF unmap(1) off]) (simp_all add: mapped_def)
      also have "?qs ! (off div 4096) = 0xe0 + p * 4 + off div 4096" using k by simp
      also have "page_byte (0xe0 + p * 4 + off div 4096) (off mod 4096) = frame_address p off"
        unfolding page_byte_def frame_address_def by (rule arg_cong [of _ _ of_nat]) simp
      finally show ?thesis .
    qed
    then show ?thesis using unmap e hp by (intro exI [of _ own]) (simp add: EMM_MAX_PHYS_def mapped_def)
  next
    case ok
    then obtain ps where ps: "own (unat h) = Some ps" "length (logical ps (unat l)) = 4"
      "EMM_MapPage p h l s = Some (EMM_NO_ERROR, mapped p \<lparr>map_handle = h, map_page = l\<rparr> (logical ps (unat l)) s)"
      using M by (auto simp: EMM_MAX_PHYS_def)
    define s' where "s' = mapped p \<lparr>map_handle = h, map_page = l\<rparr> (logical ps (unat l)) s"
    have f: "firstmb_map (ems_mem s') = window (0xe0 + p * 4) (logical ps (unat l)) (firstmb_map (ems_mem s))"
      and same: "ram (ems_mem s') = ram (ems_mem s)" "phandlers (ems_mem s') = phandlers (ems_mem s)" by (simp_all add: s'_def mapped_def)
    have show1: "mem_readb (frame_address p off) (ems_mem s') = ram (ems_mem s) b \<and>
        (\<forall>v. mem_writeb (frame_address p off) v (ems_mem s') = (ems_mem s')\<lparr>ram := (ram (ems_mem s))(b := v)\<rparr>)"
      if off: "off < 16384" and b: "b = page_byte (ps ! (unat l * 4 + off div 4096)) (off mod 4096)" for off b
    proof -
      have k: "off div 4096 < 4" using off by simp
      note L = logical_nth [OF ps(2) k]
      note W = window_shows [OF ok(1) off ps(2) f]
      have pw: "ps ! (unat l * 4 + off div 4096) \<in> set ps" using L by simp
      note P = page_writable [OF inv ps(1) pw]
      have "unat (of_nat (ps ! (unat l * 4 + off div 4096)) :: u32) = ps ! (unat l * 4 + off div 4096)" using P(2) by (subst unat_of_nat) simp
      then have "writable (frame_address p off) (ems_mem s')"
        unfolding writable_def W(2) using L P(3,4) by (simp add: MEM_GetPageHandler_def same)
      moreover have "phys_addr (frame_address p off) (ems_mem s') = b" using W(1) L b by simp
      ultimately show ?thesis using same(1) by (simp add: writable_read writable_write)
    qed
    have keep: "phys_addr a (ems_mem s') = phys_addr a (ems_mem s)" if a: "unat a div 16384 \<noteq> 0x38 + p" for a
    proof -
      have "unat (drop_bit 12 a) div 4 = unat a div 16384" by (simp add: page_of_address div_mult2_eq [symmetric])
      then have "\<not> (0xe0 + p * 4 \<le> unat (drop_bit 12 a) \<and> unat (drop_bit 12 a) < 0xe0 + p * 4 + 4)" using a by auto
      then show ?thesis by (simp add: phys_addr_def InitPage_def f window_other ps(2))
    qed
    have "EMM_MapPage p h l s = Some (EMM_NO_ERROR, s')" "emm_mappings s' = (emm_mappings s)[p := \<lparr>map_handle = h, map_page = l\<rparr>]"
      using ps(3) by (simp_all add: s'_def mapped_def)
    then show ?thesis using ok hp ps(1) same(1) show1 keep by (intro exI [of _ own]) (simp add: EMM_MAX_PHYS_def)
  qed
qed

theorem ems_map_page_window_witness:
  "\<exists>s own s' ps. ems_reach (Map.empty :: nat \<rightharpoonup> nat list) {} s \<and> handle_pages s own \<and> own 0 = Some ps \<and>
    EMM_MapPage 4 0 1 s = Some (EMM_ILL_PHYS, s) \<and> EMM_MapPage 2 0 24 s = Some (EMM_LOG_OUT_RANGE, s) \<and>
    EMM_MapPage 2 0 1 s = Some (EMM_NO_ERROR, s') \<and>
    mem_readb (frame_address 2 0x1234) (ems_mem s') = ram (ems_mem s) (page_byte (ps ! 5) 0x234)"
proof -
  obtain s where s: "ems_reach (Map.empty :: nat \<rightharpoonup> nat list) {} s" "emm_pages (the_handle 0 s) = 24" using boot_reach [OF _ boot_2mb] by auto
  have v: "ValidHandle 0 s" using s(2) by (simp add: ValidHandle_def EMM_MAX_HANDLES_def NULL_HANDLE_def)
  have "EMM_MapPage 4 0 1 s = Some (EMM_ILL_PHYS, s)" using ems_map_page_window [OF s(1), of 4 0 1] by (simp add: EMM_MAX_PHYS_def)
  moreover have "EMM_MapPage 2 0 24 s = Some (EMM_LOG_OUT_RANGE, s)"
    using ems_map_page_window [OF s(1), of 2 0 24] v s(2) by (simp add: EMM_MAX_PHYS_def NULL_PAGE_def)
  moreover obtain own s' ps where "handle_pages s own" "own (unat (0::u16)) = Some ps" "EMM_MapPage 2 0 1 s = Some (EMM_NO_ERROR, s')"
    "\<forall>off<16384. mem_readb (frame_address 2 off) (ems_mem s') = ram (ems_mem s) (page_byte (ps ! (unat (1::u16) * 4 + off div 4096)) (off mod 4096))"
  proof -
    have c: "\<not> EMM_MAX_PHYS \<le> 2" "(1::u16) \<noteq> NULL_PAGE" "\<not> (24::u16) \<le> 1" by (simp_all add: EMM_MAX_PHYS_def NULL_PAGE_def word_le_nat_alt)
    show thesis using ems_map_page_window [OF s(1), of 2 0 1] that by (simp only: c v s(2) if_False not_True_eq_False Let_def) blast
  qed
  ultimately show ?thesis using s(1) by (intro exI [of _ s] exI [of _ own] exI [of _ s'] exI [of _ ps]) (auto dest!: spec [of _ "0x1234"])
qed

end
