(* ===== verification/Ems_Saved.thy ===== *)
theory Ems_Saved
  imports Ems_Props
begin

text \<open>
  Saved page maps come back, and reallocation keeps the contents of a handle.
\<close>

unbundle bit_operations_syntax

section \<open>Restoring\<close>

text \<open>The segments outside of the frame are restored without touching it.\<close>

definition in_frame :: "u32 \<Rightarrow> bool" where
  "in_frame x \<longleftrightarrow> 0xe0 \<le> unat x \<and> unat x < 0xf0"

definition same_frame :: "ems_state \<Rightarrow> ems_state \<Rightarrow> bool" where
  "same_frame s s' \<longleftrightarrow> emm_mappings s' = emm_mappings s \<and> (\<forall>x. in_frame x \<longrightarrow> firstmb_map (ems_mem s') x = firstmb_map (ems_mem s) x)"

lemma same_frame_trans: "same_frame s s' \<Longrightarrow> same_frame s' s'' \<Longrightarrow> same_frame s s''"
  by (simp add: same_frame_def)

lemma aligned_segment:
  assumes "i < 0x40" "\<not> (0x38 \<le> i \<and> i < 0x3c)"
  shows "set_segment_mapping (i * 0x400) e s = s\<lparr>emm_segmentmappings := (emm_segmentmappings s)[i := e]\<rparr>"
proof -
  have "(k * 0x400) sdiv 0x400 = k" for k :: int by (simp add: signed_divide_int_def sgn_mult abs_mult sgn_mult_abs)
  from this [of "int i - 0x38"] have "(int (i * 0x400) - 0xe000) sdiv 0x400 = int i - 0x38" by simp
  then show ?thesis using assms by (auto simp: set_segment_mapping_def Let_def EMM_PAGEFRAME_def EMM_MAX_PHYS_def)
qed

lemma window_outside: "i < 0x40 \<Longrightarrow> \<not> (0x38 \<le> i \<and> i < 0x3c) \<Longrightarrow> in_frame x \<Longrightarrow> length qs = 4 \<Longrightarrow> window (i * 4) qs f x = f x"
  unfolding in_frame_def by (intro window_other) auto

lemma MapSegment_frame:
  assumes inv: "ems_inv s own oth" and i: "i < 0x40" "\<not> (0x38 \<le> i \<and> i < 0x3c)" and e: "EMM_MapSegment (i * 0x400) h l s = Some (e, s')"
  shows "same_frame s s'"
proof (cases "\<not> valid_segment (i * 0x400) s \<or> (l \<noteq> NULL_PAGE \<and> (\<not> ValidHandle h s \<or> emm_pages (the_handle h s) \<le> l))")
  case True
  then show ?thesis using e by (auto simp: EMM_MapSegment_def Let_def same_frame_def split: if_splits)
next
  case False
  have lin: "i * 0x400 * 16 div 4096 = i * 4" "i * 4 + 4 \<le> 0x110" using i(1) by simp_all
  show ?thesis
  proof (cases "l = NULL_PAGE")
    case True
    then have "s' = (s\<lparr>emm_segmentmappings := (emm_segmentmappings s)[i := unmapped]\<rparr>)\<lparr>ems_mem := unmap_pages (i * 4) 4 (ems_mem s)\<rparr>"
      using False e lin(1) by (auto simp: EMM_MapSegment_def Let_def aligned_segment [OF i] mult.commute)
    then show ?thesis using window_outside [OF i] by (simp add: same_frame_def unmap_pages_window [OF lin(2)])
  next
    case nn: False
    then have v: "valid_segment (i * 0x400) s" "ValidHandle h s" "l < emm_pages (the_handle h s)" using False by (auto simp: not_le)
    let ?s1 = "s\<lparr>emm_segmentmappings := (emm_segmentmappings s)[i := \<lparr>map_handle = h, map_page = l\<rparr>]\<rparr>"
    obtain ps where "length (logical ps (unat l)) = 4"
      "map_block (i * 4) h l ?s1 = Some (?s1\<lparr>ems_mem := (ems_mem s)\<lparr>firstmb_map := window (i * 4) (logical ps (unat l)) (firstmb_map (ems_mem s))\<rparr>\<rparr>)"
      using map_block_window [OF inv v(2,3) lin(2), of ?s1] by auto
    then show ?thesis using e nn v window_outside [OF i] unfolding EMM_MapSegment_def Let_def lin(1) aligned_segment [OF i]
      by (auto simp: same_frame_def)
  qed
qed

lemma restore_segments_frame:
  "ems_inv s own oth \<Longrightarrow> \<forall>i\<in>set is. i < 0x40 \<Longrightarrow> restore_segments is s = Some s' \<Longrightarrow> same_frame s s'"
proof (induction "is" arbitrary: s)
  case (Cons i "is")
  show ?case
  proof (cases "EMM_PAGEFRAME div 0x400 \<le> i \<and> i < EMM_PAGEFRAME div 0x400 + EMM_MAX_PHYS")
    case False
    then have f: "\<not> (0x38 \<le> i \<and> i < 0x3c)" and i: "i < 0x40" using Cons.prems(2) by (simp_all add: EMM_PAGEFRAME_def EMM_MAX_PHYS_def)
    obtain e s1 where s1: "EMM_MapSegment (i * 0x400) (map_handle (emm_segmentmappings s ! i)) (map_page (emm_segmentmappings s ! i)) s = Some (e, s1)" "maps_only s s1"
      using MapSegment_returns [OF Cons.prems(1), of "i * 0x400"] i by fastforce
    have "restore_segments is s1 = Some s'" using Cons.prems(3) False s1(1) by (simp add: Let_def)
    then have "same_frame s1 s'" using Cons.IH maps_only_inv [OF Cons.prems(1) s1(2)] Cons.prems(2) by simp
    then show ?thesis using same_frame_trans MapSegment_frame [OF Cons.prems(1) i f s1(1)] by blast
  qed (use Cons in auto)
qed (simp add: same_frame_def)

text \<open>An entry of the frame that can be mapped, and the pages it shows.\<close>

definition entry_current :: "ems_state \<Rightarrow> EMM_Mapping \<Rightarrow> bool" where
  "entry_current s e \<longleftrightarrow> e = unmapped \<or> map_page e \<noteq> NULL_PAGE \<and> ValidHandle (map_handle e) s \<and> map_page e < emm_pages (the_handle (map_handle e) s)"

definition entry_pages :: "(nat \<rightharpoonup> nat list) \<Rightarrow> nat \<Rightarrow> EMM_Mapping \<Rightarrow> nat list" where
  "entry_pages own p e = (if e = unmapped then [0xe0 + p * 4..<0xe0 + p * 4 + 4] else logical (the (own (unat (map_handle e)))) (unat (map_page e)))"

lemma entry_mapped:
  assumes inv: "ems_inv s own oth" and p: "p < 4" and e: "entry_current s e"
  shows "EMM_MapPage p (map_handle e) (map_page e) s = Some (EMM_NO_ERROR, mapped p e (entry_pages own p e) s)" "length (entry_pages own p e) = 4"
proof -
  note M = MapPage_spec [OF inv, of p "map_handle e" "map_page e"]
  have p': "\<not> EMM_MAX_PHYS \<le> p" using p by (simp add: EMM_MAX_PHYS_def)
  have "EMM_MapPage p (map_handle e) (map_page e) s = Some (EMM_NO_ERROR, mapped p e (entry_pages own p e) s) \<and> length (entry_pages own p e) = 4"
  proof (cases "e = unmapped")
    case True
    then show ?thesis using M p' by (simp add: entry_pages_def unmapped_def)
  next
    case False
    then have v: "map_page e \<noteq> NULL_PAGE" "ValidHandle (map_handle e) s" "\<not> emm_pages (the_handle (map_handle e) s) \<le> map_page e"
      using e by (auto simp: entry_current_def)
    obtain ps where "own (unat (map_handle e)) = Some ps" "length (logical ps (unat (map_page e))) = 4"
      "EMM_MapPage p (map_handle e) (map_page e) s = Some (EMM_NO_ERROR, mapped p \<lparr>map_handle = map_handle e, map_page = map_page e\<rparr> (logical ps (unat (map_page e))) s)"
      using M by (simp only: p' v if_False not_True_eq_False) blast
    moreover have "\<lparr>map_handle = map_handle e, map_page = map_page e\<rparr> = e" by simp
    ultimately show ?thesis using False by (simp only: entry_pages_def if_False option.sel simp_thms)
  qed
  then show "EMM_MapPage p (map_handle e) (map_page e) s = Some (EMM_NO_ERROR, mapped p e (entry_pages own p e) s)" "length (entry_pages own p e) = 4"
    by blast+
qed

lemma current_keeps: "emm_handles s' = emm_handles s \<Longrightarrow> entry_current s' e = entry_current s e"
  by (simp add: entry_current_def ValidHandle_def the_handle_def)

definition at_page :: "nat \<Rightarrow> u32 \<Rightarrow> bool" where
  "at_page p x \<longleftrightarrow> 0xe0 + p * 4 \<le> unat x \<and> unat x < 0xe0 + p * 4 + 4"

lemma at_page_unique: "at_page p x \<Longrightarrow> at_page q x \<Longrightarrow> p = q"
  unfolding at_page_def by presburger

lemma window_at: "length qs = 4 \<Longrightarrow> window (0xe0 + p * 4) qs f x = (if at_page p x then of_nat (qs ! (unat x - (0xe0 + p * 4))) else f x)"
  by (simp add: window_def at_page_def)

lemma restore_frame_windows:
  assumes "ems_inv s own oth" and "\<forall>p\<in>set is. p < 4 \<and> entry_current s (emm_mappings s ! p)"
  shows "\<exists>s'. restore_frame is s = Some s' \<and> emm_mappings s' = emm_mappings s \<and> emm_segmentmappings s' = emm_segmentmappings s \<and>
    (\<forall>p\<in>set is. \<forall>x. at_page p x \<longrightarrow> firstmb_map (ems_mem s') x = of_nat (entry_pages own p (emm_mappings s ! p) ! (unat x - (0xe0 + p * 4)))) \<and>
    (\<forall>x. (\<forall>p\<in>set is. \<not> at_page p x) \<longrightarrow> firstmb_map (ems_mem s') x = firstmb_map (ems_mem s) x)"
  using assms
proof (induction "is" arbitrary: s)
  case (Cons i "is")
  let ?e = "emm_mappings s ! i"
  define s1 where "s1 = mapped i ?e (entry_pages own i ?e) s"
  have i: "i < 4" "entry_current s ?e" using Cons.prems(2) by simp_all
  note E = entry_mapped [OF Cons.prems(1) i]
  have "maps_only s s1" by (simp add: s1_def)
  note keep = maps_only_keeps [OF this] and inv1 = maps_only_inv [OF Cons.prems(1) this]
  have m: "emm_mappings s1 = emm_mappings s" "emm_segmentmappings s1 = emm_segmentmappings s" by (simp_all add: s1_def mapped_def)
  have f: "firstmb_map (ems_mem s1) x = (if at_page i x then of_nat (entry_pages own i ?e ! (unat x - (0xe0 + i * 4))) else firstmb_map (ems_mem s) x)" for x
    by (simp add: s1_def mapped_def window_at [OF E(2)])
  obtain s' where s': "restore_frame is s1 = Some s'" "emm_mappings s' = emm_mappings s1" "emm_segmentmappings s' = emm_segmentmappings s1"
    "\<forall>p\<in>set is. \<forall>x. at_page p x \<longrightarrow> firstmb_map (ems_mem s') x = of_nat (entry_pages own p (emm_mappings s1 ! p) ! (unat x - (0xe0 + p * 4)))"
    "\<forall>x. (\<forall>p\<in>set is. \<not> at_page p x) \<longrightarrow> firstmb_map (ems_mem s') x = firstmb_map (ems_mem s1) x"
    using Cons.IH [OF inv1] Cons.prems(2) m current_keeps [OF keep(1)] by auto
  have "restore_frame (i # is) s = Some s'" using E(1) s'(1) by (simp add: Let_def s1_def)
  moreover have "firstmb_map (ems_mem s') x = of_nat (entry_pages own p (emm_mappings s ! p) ! (unat x - (0xe0 + p * 4)))" if "p \<in> set (i # is)" "at_page p x" for p x
  proof (cases "p \<in> set is")
    case False
    then have "p = i" "\<forall>q\<in>set is. \<not> at_page q x" using that at_page_unique by auto
    then show ?thesis using s'(5) f that(2) by simp
  qed (use s'(4) m that in simp)
  moreover have "firstmb_map (ems_mem s') x = firstmb_map (ems_mem s) x" if "\<forall>p\<in>set (i # is). \<not> at_page p x" for x
    using that s'(5) f by simp
  ultimately show ?case using s'(2,3) m by (intro exI [of _ s']) (simp only: simp_thms, blast)
qed simp

section \<open>Saved page maps\<close>

text \<open>
  The frame shows its table: entering each mapping again changes nothing.
\<close>

definition frame_shown :: "ems_state \<Rightarrow> bool" where
  "frame_shown s \<longleftrightarrow> (\<forall>p\<in>{0..<4}. let e = emm_mappings s ! p in EMM_MapPage p (map_handle e) (map_page e) s = Some (EMM_NO_ERROR, s))"

fun map_calls :: "(nat \<times> u16 \<times> u16) list \<Rightarrow> ems_state \<Rightarrow> ems_state option" where
  "map_calls [] s = Some s"
| "map_calls ((p, h, l) # cs) s = do { (e, s1) \<leftarrow> EMM_MapPage p h l s; map_calls cs s1 }"

lemma map_calls_maps: "ems_inv s own oth \<Longrightarrow> \<exists>s'. map_calls cs s = Some s' \<and> maps_only s s' \<and> emm_segmentmappings s' = emm_segmentmappings s"
proof (induction cs arbitrary: s)
  case (Cons c cs)
  obtain p h l where c: "c = (p, h, l)" by (cases c)
  have "\<exists>e s1. EMM_MapPage p h l s = Some (e, s1) \<and> maps_only s s1 \<and> emm_segmentmappings s1 = emm_segmentmappings s"
    using MapPage_spec [OF Cons.prems, of p h l] mapped_maps_only [of s p] maps_only_refl [of s]
    by (auto simp: mapped_def split: if_splits; metis)
  then obtain e s1 where s1: "EMM_MapPage p h l s = Some (e, s1)" "maps_only s s1" "emm_segmentmappings s1 = emm_segmentmappings s" by blast
  from Cons.IH [OF maps_only_inv [OF Cons.prems s1(2)]] obtain s' where "map_calls cs s1 = Some s'" "maps_only s1 s'" "emm_segmentmappings s' = emm_segmentmappings s1" by blast
  then show ?case using c s1 maps_only_trans by auto
qed simp

lemma shown_entry:
  assumes inv: "ems_inv s own oth" and sh: "frame_shown s" and p: "p < 4"
  shows "entry_current s (emm_mappings s ! p)"
    "at_page p x \<Longrightarrow> firstmb_map (ems_mem s) x = of_nat (entry_pages own p (emm_mappings s ! p) ! (unat x - (0xe0 + p * 4)))"
proof -
  let ?e = "emm_mappings s ! p"
  have c: "EMM_MapPage p (map_handle ?e) (map_page ?e) s = Some (EMM_NO_ERROR, s)" using sh p unfolding frame_shown_def by (simp add: Let_def)
  have len: "p < length (emm_mappings s)" using inv p by (simp add: ems_inv_def EMM_MAX_PHYS_def)
  note M = MapPage_spec [OF inv, of p "map_handle ?e" "map_page ?e"]
  have p': "\<not> EMM_MAX_PHYS \<le> p" using p by (simp add: EMM_MAX_PHYS_def)
  show cur: "entry_current s ?e"
  proof (cases "map_page ?e = NULL_PAGE")
    case True
    then have "emm_mappings s = (emm_mappings s)[p := unmapped]" using M c p' by (auto simp: mapped_def dest: arg_cong [of _ _ emm_mappings])
    then have "?e = unmapped" using len by (metis nth_list_update_eq)
    then show ?thesis by (simp add: entry_current_def)
  next
    case False
    then show ?thesis using M c p' by (auto simp: entry_current_def not_le split: if_splits)
  qed
  have "s = mapped p ?e (entry_pages own p ?e) s" using entry_mapped(1) [OF inv p cur] c by simp
  then have "firstmb_map (ems_mem s) = window (0xe0 + p * 4) (entry_pages own p ?e) (firstmb_map (ems_mem s))"
    by (metis (no_types, lifting) mapped_def ems_state.select_convs(6) ems_state.update_convs(6) MemoryBlock.select_convs(3) ems_state.surjective MemoryBlock.surjective MemoryBlock.update_convs(3))
  then show "at_page p x \<Longrightarrow> firstmb_map (ems_mem s) x = of_nat (entry_pages own p ?e ! (unat x - (0xe0 + p * 4)))"
    using window_at [OF entry_mapped(2) [OF inv p cur]] by metis
qed

lemma RestorePageMap_frame:
  fixes h :: u16
  assumes inv: "ems_inv s own oth" and h: "ValidHandle h s \<or> h = 0" and sv: "saved_page_map (the_handle h s)"
    and cur: "\<forall>p<4. entry_current s (page_map (the_handle h s) ! p)"
  shows "\<exists>s'. EMM_RestorePageMap h s = Some (EMM_NO_ERROR, s') \<and> emm_mappings s' = page_map (the_handle h s) \<and>
    (\<forall>p<4. \<forall>x. at_page p x \<longrightarrow> firstmb_map (ems_mem s') x = of_nat (entry_pages own p (page_map (the_handle h s) ! p) ! (unat x - (0xe0 + p * 4)))) \<and>
    emm_handles s' = (emm_handles s)[unat h := (the_handle h s)\<lparr>saved_page_map := False\<rparr>] \<and> ram (ems_mem s') = ram (ems_mem s)"
proof -
  define s0 where "s0 = (set_emm_handle h ((the_handle h s)\<lparr>saved_page_map := False\<rparr>) s)\<lparr>emm_mappings := page_map (the_handle h s)\<rparr>"
  have i0: "ems_inv s0 own oth" unfolding s0_def using RestorePageMap_state [OF inv h sv] .
  have e: "EMM_RestorePageMap h s = EMM_RestoreMappingTable s0" using h sv by (auto simp: EMM_RestorePageMap_def Let_def s0_def)
  have m0: "emm_mappings s0 = page_map (the_handle h s)" "ram (ems_mem s0) = ram (ems_mem s)"
    "emm_handles s0 = (emm_handles s)[unat h := (the_handle h s)\<lparr>saved_page_map := False\<rparr>]" by (simp_all add: s0_def set_emm_handle_def)
  have pg: "emm_pages (the_handle g s0) = emm_pages (the_handle g s)" for g
    unfolding the_handle_def m0(3) by (cases "unat h < length (emm_handles s)"; cases "unat g = unat h") (simp_all add: list_update_beyond)
  have cur0: "entry_current s0 x = entry_current s x" for x by (simp add: entry_current_def ValidHandle_def pg)
  obtain s1 where s1: "restore_segments [0..<0x40] s0 = Some s1" "maps_only s0 s1" using restore_segments_returns [OF i0, of "[0..<0x40]"] by auto
  have fr: "same_frame s0 s1" using restore_segments_frame [OF i0 _ s1(1)] by simp
  have i1: "ems_inv s1 own oth" by (rule maps_only_inv [OF i0 s1(2)])
  have m1: "emm_mappings s1 = page_map (the_handle h s)" using fr m0(1) by (simp add: same_frame_def)
  have c1: "\<forall>p\<in>set [0..<EMM_MAX_PHYS]. p < 4 \<and> entry_current s1 (emm_mappings s1 ! p)"
    using cur cur0 m1 current_keeps [OF maps_only_keeps(1) [OF s1(2)]] by (simp add: EMM_MAX_PHYS_def)
  obtain s2 where s2: "restore_frame [0..<EMM_MAX_PHYS] s1 = Some s2" "maps_only s1 s2" using restore_frame_returns [OF i1] by blast
  from restore_frame_windows [OF i1 c1] s2(1) have w: "emm_mappings s2 = emm_mappings s1"
    "\<forall>p\<in>set [0..<EMM_MAX_PHYS]. \<forall>x. at_page p x \<longrightarrow> firstmb_map (ems_mem s2) x = of_nat (entry_pages own p (emm_mappings s1 ! p) ! (unat x - (0xe0 + p * 4)))" by auto
  have "EMM_RestorePageMap h s = Some (EMM_NO_ERROR, s2)" using e s1(1) s2(1) by (simp add: EMM_RestoreMappingTable_def)
  moreover have "emm_handles s2 = emm_handles s0" "ram (ems_mem s2) = ram (ems_mem s)"
    using maps_only_keeps(1,4) [OF s1(2)] maps_only_keeps(1,4) [OF s2(2)] m0(2) by simp_all
  ultimately show ?thesis using w m0(3) m1 by (intro exI [of _ s2]) (simp add: EMM_MAX_PHYS_def)
qed

text \<open>
  Property C13. A saved page map comes back. For a state that calls reach and whose frame shows its table, saving the page map on a
  handle that has none saved (handle 0 included, whether it is used or not) succeeds, a second save before a restore is refused, and after
  any further calls that map or unmap pages of the frame, with errors or without, restoring it succeeds: the frame's table is as it was,
  every byte of the frame is found where it was, memory is unchanged, and the handle has no page map saved.
\<close>

theorem ems_save_restore:
  assumes "ems_reach oth V s" and "frame_shown s" and "ValidHandle h s \<or> h = 0" and "\<not> saved_page_map (the_handle h s)"
  shows "\<exists>s1 s2 s3. EMM_SavePageMap h s = (EMM_NO_ERROR, s1) \<and> EMM_SavePageMap h s1 = (EMM_PAGE_MAP_SAVED, s1) \<and>
    map_calls cs s1 = Some s2 \<and> EMM_RestorePageMap h s2 = Some (EMM_NO_ERROR, s3) \<and>
    emm_mappings s3 = emm_mappings s \<and> ram (ems_mem s3) = ram (ems_mem s) \<and> \<not> saved_page_map (the_handle h s3) \<and>
    (\<forall>p off. p < 4 \<and> off < 16384 \<longrightarrow> phys_addr (frame_address p off) (ems_mem s3) = phys_addr (frame_address p off) (ems_mem s))"
proof -
  obtain own where inv: "ems_inv s own (case_sum (vpages V) oth)" using reach_inv [OF assms(1)] by blast
  have hl: "unat h < length (emm_handles s)" using assms(3) inv by (auto simp: ValidHandle_def ems_inv_def ems_table_def EMM_MAX_HANDLES_def)
  obtain s1 where s1: "EMM_SavePageMap h s = (EMM_NO_ERROR, s1)" "ems_inv s1 own (case_sum (vpages V) oth)" "handles_only s s1"
    "the_handle h s1 = (the_handle h s)\<lparr>page_map := emm_mappings s, saved_page_map := True\<rparr>" "\<forall>j. j \<noteq> unat h \<longrightarrow> emm_handles s1 ! j = emm_handles s ! j"
    using SavePageMap_spec [OF inv, of h] assms(3,4) by auto
  have pg: "emm_pages (the_handle g s1) = emm_pages (the_handle g s)" for g using s1(4,5) unfolding the_handle_def by (cases "unat g = unat h") auto
  have v: "ValidHandle g s1 = ValidHandle g s" "entry_current s1 e = entry_current s e" for g e by (simp_all add: ValidHandle_def entry_current_def pg)
  have again: "EMM_SavePageMap h s1 = (EMM_PAGE_MAP_SAVED, s1)" using assms(3) s1(4) v by (auto simp: EMM_SavePageMap_def Let_def)
  obtain s2 where s2: "map_calls cs s1 = Some s2" "maps_only s1 s2" using map_calls_maps [OF s1(2)] by blast
  have i2: "ems_inv s2 own (case_sum (vpages V) oth)" by (rule maps_only_inv [OF s1(2) s2(2)])
  have k2: "emm_handles s2 = emm_handles s1" "ram (ems_mem s2) = ram (ems_mem s)" using maps_only_keeps [OF s2(2)] s1(3) by (simp_all add: handles_only_def)
  have t2: "the_handle g s2 = the_handle g s1" "ValidHandle g s2 = ValidHandle g s" for g using k2(1) v by (simp_all add: the_handle_def ValidHandle_def)
  have pm: "page_map (the_handle h s2) = emm_mappings s" "saved_page_map (the_handle h s2)" using t2(1) s1(4) by simp_all
  have "\<forall>p<4. entry_current s2 (page_map (the_handle h s2) ! p)"
    using shown_entry(1) [OF inv assms(2)] current_keeps [OF k2(1)] v(2) pm(1) by simp
  from RestorePageMap_frame [OF i2 _ pm(2) this] assms(3) t2(2) obtain s3 where s3: "EMM_RestorePageMap h s2 = Some (EMM_NO_ERROR, s3)" "emm_mappings s3 = emm_mappings s"
    "\<forall>p<4. \<forall>x. at_page p x \<longrightarrow> firstmb_map (ems_mem s3) x = of_nat (entry_pages own p (emm_mappings s ! p) ! (unat x - (0xe0 + p * 4)))"
    "emm_handles s3 = (emm_handles s2)[unat h := (the_handle h s2)\<lparr>saved_page_map := False\<rparr>]" "ram (ems_mem s3) = ram (ems_mem s)"
    unfolding pm(1) k2(2) by auto
  have "phys_addr (frame_address p off) (ems_mem s3) = phys_addr (frame_address p off) (ems_mem s)" if p: "p < 4" "off < 16384" for p off
  proof -
    let ?x = "drop_bit 12 (frame_address p off)"
    have "off div 4096 < 4" using p(2) by simp
    then have "at_page p ?x" "?x < FIRST_LINK" unfolding at_page_def word_less_nat_alt frame_address_split(1) [OF p] using p(1) by (simp_all add: FIRST_LINK_def)
    then show ?thesis using s3(3) p(1) shown_entry(2) [OF inv assms(2) p(1)] by (simp add: phys_addr_def InitPage_def)
  qed
  moreover have "\<not> saved_page_map (the_handle h s3)" using hl s3(4) k2(1) s1(3) i2 inv by (simp add: the_handle_def ems_inv_def ems_table_def)
  ultimately show ?thesis using s1(1) again s2(1) s3(1,2,5) by blast
qed

lemma fresh_frame:
  assumes "ems_reach oth V s" and m: "emm_mappings s = replicate 4 unmapped" and f: "firstmb_map (ems_mem s) = id"
  shows "frame_shown s"
proof -
  obtain own where inv: "ems_inv s own (case_sum (vpages V) oth)" using reach_inv [OF assms(1)] by blast
  have "window (0xe0 + p * 4) [0xe0 + p * 4..<0xe0 + p * 4 + 4] id = id" for p by (auto simp: window_def fun_eq_iff)
  then have k: "mapped p unmapped [0xe0 + p * 4..<0xe0 + p * 4 + 4] s = s" if "p < 4" for p
    using that by (simp add: mapped_def m f list_update_same_conv)
  have "EMM_MapPage p NULL_HANDLE NULL_PAGE s = Some (EMM_NO_ERROR, s)" if "p < 4" for p
    using MapPage_spec [OF inv, of p NULL_HANDLE NULL_PAGE] that k by (simp add: EMM_MAX_PHYS_def)
  then show ?thesis by (simp add: frame_shown_def m unmapped_def)
qed

theorem ems_save_restore_witness:
  "\<exists>s s1 s2 s3. ems_reach (Map.empty :: nat \<rightharpoonup> nat list) {} s \<and> EMM_SavePageMap 0 s = (EMM_NO_ERROR, s1) \<and>
    map_calls [(0, 0, 3), (5, 0, 0), (1, 0, 23)] s1 = Some s2 \<and> EMM_RestorePageMap 0 s2 = Some (EMM_NO_ERROR, s3) \<and>
    emm_mappings s3 = replicate 4 unmapped \<and> phys_addr (frame_address 1 7) (ems_mem s3) = frame_address 1 7"
proof -
  obtain s where s: "ems_reach (Map.empty :: nat \<rightharpoonup> nat list) {} s" "emm_mappings s = replicate 4 unmapped" "firstmb_map (ems_mem s) = id"
    "\<not> saved_page_map (the_handle 0 s)" using boot_reach [OF _ boot_2mb] unfolding EMM_MAX_PHYS_def by auto
  obtain s1 s2 s3 where e: "EMM_SavePageMap 0 s = (EMM_NO_ERROR, s1)" "map_calls [(0, 0, 3), (5, 0, 0), (1, 0, 23)] s1 = Some s2"
    "EMM_RestorePageMap 0 s2 = Some (EMM_NO_ERROR, s3)" "emm_mappings s3 = emm_mappings s"
    "\<forall>p off. p < 4 \<and> off < 16384 \<longrightarrow> phys_addr (frame_address p off) (ems_mem s3) = phys_addr (frame_address p off) (ems_mem s)"
    using ems_save_restore [OF s(1) fresh_frame [OF s(1-3)], of 0 "[(0, 0, 3), (5, 0, 0), (1, 0, 23)]"] s(4) by blast
  have "InitPage (drop_bit 12 (frame_address 1 7)) (ems_mem s) = of_nat 0xe4"
    using frame_address_split(1) [of 1 7] by (simp add: InitPage_def s(3) FIRST_LINK_def word_less_nat_alt word_unat_eq_iff)
  from phys_addr_page [OF this] have "phys_addr (frame_address 1 7) (ems_mem s) = frame_address 1 7"
    using frame_address_split(2) [of 1 7] by (simp add: page_byte_def frame_address_def)
  then show ?thesis using s(1,2) e by (intro exI [of _ s] exI [of _ s1] exI [of _ s2] exI [of _ s3]) simp
qed

section \<open>Reallocation\<close>

text \<open>
  Property C21. Reallocation keeps the contents. For a state that calls reach and in which the free run at the end of memory is a longest one,
  a reallocation fails for an unused handle and for more pages than are free beside the handle's own, changing nothing;
  for a handle without pages it makes the emulator exit when no pages or more than are free are asked for; otherwise the handle
  has the number of pages asked for, of which the first are those it had before, all bytes of memory stay, and every other
  handle keeps its pages.
\<close>

theorem ems_reallocate:
  assumes "ems_reach oth V s" and "tail_longest (mhandles (ems_mem s))" and "n \<noteq> NULL_HANDLE"
  shows "\<exists>own. handle_pages s own \<and> (let p = emm_pages (the_handle h s); free = MEM_FreeTotal (ems_mem s) in
    if \<not> ValidHandle h s then EMM_ReallocatePages h n s = Some (EMM_INVALID_HANDLE, s)
    else if p = 0 \<and> (n = 0 \<or> free < unat n * 4) then EMM_ReallocatePages h n s = None
    else if free < unat n * 4 - unat p * 4 then EMM_ReallocatePages h n s = Some (EMM_OUT_OF_LOG, s)
    else \<exists>s' own'. EMM_ReallocatePages h n s = Some (EMM_NO_ERROR, s') \<and> handle_pages s' own' \<and> emm_pages (the_handle h s') = n \<and>
      (\<forall>j. j \<noteq> unat h \<longrightarrow> own' j = own j) \<and> ram (ems_mem s') = ram (ems_mem s) \<and>
      (\<forall>ps. own (unat h) = Some ps \<and> n \<noteq> 0 \<longrightarrow> (\<exists>qs. own' (unat h) = Some qs \<and>
        (\<forall>k < min (length ps) (length qs). qs ! k = ps ! k))))"
proof -
  obtain own where inv: "ems_inv s own (case_sum (vpages V) oth)" using reach_inv [OF assms(1)] by blast
  note R = ReallocatePages_spec [OF inv assms(2,3), of h]
  have ok: "\<exists>s' own'. EMM_ReallocatePages h n s = Some (EMM_NO_ERROR, s') \<and> handle_pages s' own' \<and> emm_pages (the_handle h s') = n \<and>
      (\<forall>j. j \<noteq> unat h \<longrightarrow> own' j = own j) \<and> ram (ems_mem s') = ram (ems_mem s) \<and>
      (\<forall>ps. own (unat h) = Some ps \<and> n \<noteq> 0 \<longrightarrow> (\<exists>qs. own' (unat h) = Some qs \<and> (\<forall>k < min (length ps) (length qs). qs ! k = ps ! k)))"
    if "\<exists>s' ps. EMM_ReallocatePages h n s = Some (EMM_NO_ERROR, s') \<and> emm_pages (the_handle h s') = n \<and>
      (\<forall>j. j \<noteq> unat h \<longrightarrow> emm_handles s' ! j = emm_handles s ! j) \<and> handles_only s s' \<and>
      ems_inv s' (own(unat h := if n = 0 then None else Some ps)) (case_sum (vpages V) oth) \<and>
      (\<forall>qs. own (unat h) = Some qs \<and> n \<noteq> 0 \<longrightarrow> take (min (unat n * 4) (length qs)) ps = take (unat n * 4) qs)"
  proof -
    from that obtain s' ps where s': "EMM_ReallocatePages h n s = Some (EMM_NO_ERROR, s')" "emm_pages (the_handle h s') = n" "handles_only s s'"
      "ems_inv s' (own(unat h := if n = 0 then None else Some ps)) (case_sum (vpages V) oth)"
      "\<forall>qs. own (unat h) = Some qs \<and> n \<noteq> 0 \<longrightarrow> take (min (unat n * 4) (length qs)) ps = take (unat n * 4) qs" by blast
    have pre: "ps ! k = qs ! k" if "own (unat h) = Some qs" "n \<noteq> 0" "k < min (length qs) (length ps)" "length ps = unat n * 4" for qs k
    proof -
      have "take (min (unat n * 4) (length qs)) ps = take (unat n * 4) qs" using s'(5) that(1,2) by blast
      from arg_cong [OF this, of "\<lambda>xs. xs ! k"] show ?thesis using that(3,4) by simp
    qed
    have hp: "handle_pages s' (own(unat h := if n = 0 then None else Some ps))" by (rule inv_handle_pages [OF s'(4)])
    have "length ps = unat n * 4" if "n \<noteq> 0" "own (unat h) = Some qs" for qs
    proof -
      have "unat h < EMM_MAX_HANDLES" using that(2) inv by (metis ems_inv_def ems_table_def not_le option.distinct(1))
      then show ?thesis using hp s'(2) that(1) by (auto simp: handle_pages_def the_handle_def Let_def dest!: spec [of _ "unat h"])
    qed
    then show ?thesis using s'(1,2,3) hp pre by (intro exI [of _ s'] exI [of _ "own(unat h := if n = 0 then None else Some ps)"]) (auto simp: handles_only_def)
  qed
  show ?thesis using R ok inv_handle_pages [OF inv] unfolding Let_def by (intro exI [of _ own] conjI) (simp_all only: split: if_splits, blast+)
qed

text \<open>A machine whose free memory just suffices for the system handle.\<close>

lemma boot_full:
  obtains s where "ems_reach (Map.empty :: nat \<rightharpoonup> nat list) {} s" "emm_pages (the_handle 0 s) = 24" "MEM_FreeTotal (ems_mem s) = 0"
    "tail_longest (mhandles (ems_mem s))"
proof -
  have b: "(368::nat) < 2 ^ 20" "\<not> get_free_pages (boot_ems 368) < 24" by (simp_all add: boot_free MaxPages_def XMS_START_def)
  obtain s where s: "length (phandlers (ems_mem s)) = 368" "ems_reach (Map.empty :: nat \<rightharpoonup> nat list) {} s" "emm_pages (the_handle 0 s) = 24"
    using boot_reach [OF b] by metis
  obtain own where inv: "ems_inv s own (case_sum (vpages {}) (Map.empty :: nat \<rightharpoonup> nat list))" using reach_inv [OF s(2)] by blast
  have len: "length (mhandles (ems_mem s)) = 368" using inv s(1) by (simp add: ems_inv_def ems_table_def ram_above_def)
  have live: "emm_live (emm_handles s ! 0)" using s(3) by (simp add: emm_live_def the_handle_def NULL_HANDLE_def)
  have t: "ems_table (emm_handles s) (ems_mem s) own (case_sum (vpages {}) (Map.empty :: nat \<rightharpoonup> nat list))" using inv by (simp add: ems_inv_def)
  have hp: "handle_pages s own" by (rule inv_handle_pages [OF inv])
  obtain ps where ps: "own 0 = Some ps" "length ps = 96" "pages_from (mhandles (ems_mem s)) (int (hd ps)) ps (- 1)"
    using live_block [OF t _ live] s(3) by (auto simp: EMM_MAX_HANDLES_def the_handle_def)
  then have d: "distinct ps" using hp by (auto simp: handle_pages_def EMM_MAX_HANDLES_def Let_def dest!: spec [of _ 0])
  have "set ps \<subseteq> {272..<368}" using pages_from_bounds [OF ps(3)] len by (auto simp: XMS_START_def)
  moreover have "card (set ps) = 96" using ps(2) d distinct_card by metis
  ultimately have "set ps = {272..<368}" by (intro card_subset_eq) simp_all
  moreover have "ps \<noteq> []" using ps(2) by auto
  then have "block (mhandles (ems_mem s)) ps" using ps(3) d by (simp add: block_def)
  ultimately have used: "mhandles (ems_mem s) ! p \<noteq> 0" if "XMS_START \<le> p" "p < 368" for p
    using block_used [of "mhandles (ems_mem s)" ps p] that by (simp add: XMS_START_def)
  then have "free_set (mhandles (ems_mem s)) = {}" using len by (auto simp: free_set_def)
  then have z: "MEM_FreeTotal (ems_mem s) = 0" by (simp add: FreeTotal_card)
  have "\<not> maximal_run (mhandles (ems_mem s)) r k" for r k using used len by (auto simp: maximal_run_def)
  then show ?thesis using that [OF s(2,3) z] by (simp add: tail_longest_def)
qed

theorem ems_reallocate_witness:
  "\<exists>s s'. ems_reach (Map.empty :: nat \<rightharpoonup> nat list) {} s \<and> EMM_ReallocatePages 200 1 s = Some (EMM_INVALID_HANDLE, s) \<and>
    EMM_ReallocatePages 0 25 s = Some (EMM_OUT_OF_LOG, s) \<and>
    EMM_ReallocatePages 0 20 s = Some (EMM_NO_ERROR, s') \<and> emm_pages (the_handle 0 s') = 20 \<and> ram (ems_mem s') = ram (ems_mem s)"
proof -
  obtain s where s: "ems_reach (Map.empty :: nat \<rightharpoonup> nat list) {} s" "emm_pages (the_handle 0 s) = 24" "MEM_FreeTotal (ems_mem s) = 0"
    "tail_longest (mhandles (ems_mem s))" by (rule boot_full)
  have v: "ValidHandle 0 s" "\<not> ValidHandle 200 s" using s(2) by (simp_all add: ValidHandle_def EMM_MAX_HANDLES_def NULL_HANDLE_def)
  have n: "(1::u16) \<noteq> NULL_HANDLE" "(25::u16) \<noteq> NULL_HANDLE" "(20::u16) \<noteq> NULL_HANDLE" by (simp_all add: NULL_HANDLE_def)
  have "EMM_ReallocatePages 200 1 s = Some (EMM_INVALID_HANDLE, s)" using ems_reallocate [OF s(1,4) n(1), of 200] v by (simp add: Let_def)
  moreover have "EMM_ReallocatePages 0 25 s = Some (EMM_OUT_OF_LOG, s)" using ems_reallocate [OF s(1,4) n(2), of 0] v s(2,3) by (simp add: Let_def)
  moreover obtain s' where "EMM_ReallocatePages 0 20 s = Some (EMM_NO_ERROR, s')" "emm_pages (the_handle 0 s') = 20" "ram (ems_mem s') = ram (ems_mem s)"
    using ems_reallocate [OF s(1,4) n(3), of 0] v s(2,3) by (auto simp: Let_def)
  ultimately show ?thesis using s(1) by blast
qed

end
