(* ===== verification/Ems_Region.thy ===== *)
theory Ems_Region
  imports Ems_Saved
begin

text \<open>
  Moves and exchanges of memory regions against their meaning byte by byte: the loop works in rounds of up to a page
  through buffers, each side being a linear address or a chain of scattered pages entered at an offset.
\<close>

unbundle bit_operations_syntax

section \<open>Bytes\<close>

lemma BlockRead_map: "MEM_BlockRead a n m = map (\<lambda>i. mem_readb (a + of_nat i) m) [0..<n]"
proof (induction n arbitrary: a)
  case (Suc n)
  have "map (\<lambda>i. mem_readb (a + of_nat i) m) [0..<Suc n] = mem_readb a m # map (\<lambda>i. mem_readb (a + 1 + of_nat i) m) [0..<n]"
    unfolding map_upt_Suc by (simp add: add.assoc)
  then show ?case by (simp add: Suc del: upt_Suc)
qed simp

text \<open>The bytes at the addresses \<open>D 0, D 1, \<dots>\<close> become those of a list, and no others change.\<close>

definition written :: "(nat \<Rightarrow> u32) \<Rightarrow> u8 list \<Rightarrow> MemoryBlock \<Rightarrow> MemoryBlock \<Rightarrow> bool" where
  "written D bs m m' \<longleftrightarrow> m' = m\<lparr>ram := ram m'\<rparr> \<and> (\<forall>i<length bs. ram m' (phys_addr (D i) m) = bs ! i) \<and>
     (\<forall>a. (\<forall>i<length bs. a \<noteq> phys_addr (D i) m) \<longrightarrow> ram m' a = ram m a)"

definition apart_writable :: "(nat \<Rightarrow> u32) \<Rightarrow> nat \<Rightarrow> MemoryBlock \<Rightarrow> bool" where
  "apart_writable D n m \<longleftrightarrow> (\<forall>i<n. writable (D i) m) \<and> (\<forall>i j. i < j \<and> j < n \<longrightarrow> phys_addr (D j) m \<noteq> phys_addr (D i) m)"

lemma ram_only: "m' = m\<lparr>ram := R\<rparr> \<Longrightarrow> phys_addr a m' = phys_addr a m" "m' = m\<lparr>ram := R\<rparr> \<Longrightarrow> writable a m' = writable a m"
  by simp_all

lemma ram_only_trans: "m1 = m\<lparr>ram := ram m1\<rparr> \<Longrightarrow> m2 = m1\<lparr>ram := ram m2\<rparr> \<Longrightarrow> m2 = m\<lparr>ram := ram m2\<rparr>"
  by (cases m, cases m1, cases m2) simp

lemma read_ram_only: "m' = m\<lparr>ram := R\<rparr> \<Longrightarrow> R (phys_addr a m) = ram m (phys_addr a m) \<Longrightarrow> mem_readb a m' = mem_readb a m"
  by (simp add: mem_readb_def split: PageHandler.split)

lemma apart_ram_only: "m' = m\<lparr>ram := R\<rparr> \<Longrightarrow> apart_writable D n m' = apart_writable D n m"
  by (simp add: apart_writable_def)

lemma apart_shift: "apart_writable D (k + n) m \<Longrightarrow> apart_writable (\<lambda>i. D (k + i)) n m"
  by (simp add: apart_writable_def)

lemma apart_less: "apart_writable D n m \<Longrightarrow> k \<le> n \<Longrightarrow> apart_writable D k m"
  by (auto simp: apart_writable_def)

lemma apart_inj: "apart_writable D n m \<Longrightarrow> i < n \<Longrightarrow> j < n \<Longrightarrow> i \<noteq> j \<Longrightarrow> phys_addr (D i) m \<noteq> phys_addr (D j) m"
  unfolding apart_writable_def by (metis linorder_neqE_nat)

lemma written_Nil: "written D [] m m"
  by (simp add: written_def)

lemma written_append:
  assumes a: "written D bs m m1" and b: "written (\<lambda>i. D (length bs + i)) cs m1 m'" and ap: "apart_writable D (length (bs @ cs)) m"
  shows "written D (bs @ cs) m m'"
proof -
  have f1: "m1 = m\<lparr>ram := ram m1\<rparr>" and f2: "m' = m1\<lparr>ram := ram m'\<rparr>" using a b by (simp_all add: written_def)
  note p1 = ram_only(1) [OF f1]
  have keep: "ram m' x = ram m1 x" if "\<forall>i<length cs. x \<noteq> phys_addr (D (length bs + i)) m" for x using b that p1 by (simp add: written_def)
  have "ram m' (phys_addr (D i) m) = (bs @ cs) ! i" if i: "i < length (bs @ cs)" for i
  proof (cases "i < length bs")
    case True
    have "\<forall>j<length cs. phys_addr (D i) m \<noteq> phys_addr (D (length bs + j)) m" using apart_inj [OF ap] i True by simp
    then show ?thesis using keep a True by (simp add: written_def nth_append)
  next
    case False
    then have "i - length bs < length cs" "length bs + (i - length bs) = i" using i by simp_all
    then show ?thesis using b p1 False unfolding written_def by (metis nth_append)
  qed
  moreover have "ram m' x = ram m x" if "\<forall>i<length (bs @ cs). x \<noteq> phys_addr (D i) m" for x
    using keep [of x] a that by (simp add: written_def)
  ultimately show ?thesis using ram_only_trans [OF f1 f2] by (simp add: written_def)
qed

lemma BlockWrite_written:
  assumes "apart_writable (\<lambda>i. a + of_nat i) (length bs) m"
  shows "written (\<lambda>i. a + of_nat i) bs m (MEM_BlockWrite a bs m)"
  using assms
proof (induction bs arbitrary: a m)
  case (Cons b bs)
  have w: "writable a m" using Cons.prems by (auto simp: apart_writable_def dest: spec [of _ 0])
  define m1 where "m1 = m\<lparr>ram := (ram m)(phys_addr a m := b)\<rparr>"
  have sh: "(\<lambda>i. a + 1 + of_nat i :: u32) = (\<lambda>i. a + of_nat (length [b] + i))" by (simp add: add.assoc)
  have one: "written (\<lambda>i. a + of_nat i) [b] m m1" by (simp add: written_def m1_def)
  have "apart_writable (\<lambda>i. a + of_nat (1 + i)) (length bs) m"
    using apart_shift [of "\<lambda>i. a + of_nat i" 1 "length bs" m] Cons.prems by simp
  then have "apart_writable (\<lambda>i. a + 1 + of_nat i) (length bs) m1" unfolding m1_def by (simp add: apart_ram_only [OF refl] add.assoc)
  from Cons.IH [OF this] have "written (\<lambda>i. a + of_nat (length [b] + i)) bs m1 (MEM_BlockWrite (a + 1) bs m1)" unfolding sh .
  from written_append [OF one this] Cons.prems have "written (\<lambda>i. a + of_nat i) ([b] @ bs) m (MEM_BlockWrite (a + 1) bs m1)" by simp
  then show ?case using w by (simp add: writable_write m1_def)
qed (simp add: written_Nil)

lemma written_cong: "(\<And>i. i < length bs \<Longrightarrow> D i = E i) \<Longrightarrow> written D bs m m' = written E bs m m'"
  by (simp add: written_def)

lemma apart_cong: "(\<And>i. i < n \<Longrightarrow> D i = E i) \<Longrightarrow> apart_writable D n m = apart_writable E n m"
  by (simp add: apart_writable_def)

section \<open>Sides\<close>

text \<open>The linear address of a byte of a side; \<open>qs\<close> are the pages from the one the side is in.\<close>

fun side_addr :: "side \<Rightarrow> nat list \<Rightarrow> nat \<Rightarrow> u32" where
  "side_addr (Real a) qs i = a + of_nat i"
| "side_addr (Paged h off) qs i = page_byte (qs ! ((off + i) div 4096)) ((off + i) mod 4096)"

lemma paged_first: "pages_from H h (p # ps) e \<Longrightarrow> off + i < 4096 \<Longrightarrow>
    word_of_int h * 4096 + of_nat off + of_nat i = side_addr (Paged h off) (p # ps) i"
  by (simp add: page_byte_def algebra_simps)

lemma paged_second: "pages_from H h (p # q # ps) e \<Longrightarrow> off < 4096 \<Longrightarrow> i < 4096 \<Longrightarrow>
    word_of_int (H ! p) * 4096 + of_nat i = side_addr (Paged h off) (p # q # ps) (4096 - off + i)"
  by (simp add: page_byte_def algebra_simps)

lemma two_pages: "pages_from H h qs e \<Longrightarrow> 4096 < length qs * 4096 \<Longrightarrow> \<exists>p q ps. qs = p # q # ps"
  by (cases qs; cases "tl qs") auto

lemma read_side_bytes:
  assumes c: "side_chain H sd qs n" and k: "k \<le> n" "k \<le> 4096" and n: "0 < n" and H: "mhandles m = H"
  shows "read_side sd k m = Some (map (\<lambda>i. mem_readb (side_addr sd qs i) m) [0..<k])"
proof (cases sd)
  case (Paged h off)
  obtain p ps where q: "qs = p # ps" "pages_from H h qs (- 1)" "off < 4096" "off + n \<le> length qs * 4096" using c n Paged side_nonempty [of off n qs] by (auto simp: side_chain_def)
  show ?thesis
  proof (cases "k \<le> 4096 - off")
    case True
    then show ?thesis using Paged q paged_first [of H h p ps "- 1" off] by (simp add: BlockRead_map)
  next
    case False
    obtain r rs where ps: "ps = r # rs" using q False k(1) by (cases ps) auto
    have nx: "MEM_NextHandle h m = Some (H ! p)" using next_page [OF _ H, of h p ps "- 1"] q by simp
    have up: "[0..<k] = [0..<4096 - off] @ map (\<lambda>i. 4096 - off + i) [0..<k - (4096 - off)]"
      using False by (intro nth_equalityI) (auto simp: nth_append)
    have "MEM_BlockRead (word_of_int h * 4096 + of_nat off) (4096 - off) m = map (\<lambda>i. mem_readb (side_addr sd qs i) m) [0..<4096 - off]"
      unfolding BlockRead_map Paged using q paged_first [of H h p ps "- 1" off] by (intro map_cong) auto
    moreover have "MEM_BlockRead (word_of_int (H ! p) * 4096) (k - (4096 - off)) m = map (\<lambda>i. mem_readb (side_addr sd qs i) m) (map (\<lambda>i. 4096 - off + i) [0..<k - (4096 - off)])"
      unfolding BlockRead_map Paged map_map using q ps k paged_second [of H h p r rs "- 1" off] by (intro map_cong) auto
    ultimately show ?thesis using False nx unfolding Paged up map_append by simp
  qed
qed (simp add: BlockRead_map)

lemma write_side_bytes:
  assumes c: "side_chain H sd qs n" and k: "length bs \<le> n" "length bs \<le> 4096" and n: "0 < n" and H: "mhandles m = H"
    and ap: "apart_writable (side_addr sd qs) (length bs) m"
  shows "\<exists>m'. write_side sd bs m = Some m' \<and> written (side_addr sd qs) bs m m'"
proof (cases sd)
  case (Real a)
  then show ?thesis using BlockWrite_written [of a bs m] ap by (simp add: written_def apart_writable_def)
next
  case (Paged h off)
  obtain p ps where q: "qs = p # ps" "pages_from H h qs (- 1)" "off < 4096" "off + n \<le> length qs * 4096" using c n Paged side_nonempty [of off n qs] by (auto simp: side_chain_def)
  let ?a = "word_of_int h * 4096 + of_nat off :: u32"
  have first: "?a + of_nat i = side_addr sd qs i" if "i < 4096 - off" for i using paged_first [of H h p ps "- 1" off i] q that Paged by simp
  have fw: "written (side_addr sd qs) cs m (MEM_BlockWrite ?a cs m)" if "length cs \<le> 4096 - off" "length cs \<le> length bs" for cs
  proof -
    have "apart_writable (\<lambda>i. ?a + of_nat i) (length cs) m"
      using apart_less [OF ap that(2)] first that(1) by (subst apart_cong [where E = "side_addr sd qs"]) auto
    from BlockWrite_written [OF this] show ?thesis using first that(1) by (subst written_cong [where E = "\<lambda>i. ?a + of_nat i"]) auto
  qed
  show ?thesis
  proof (cases "length bs \<le> 4096 - off")
    case True
    then show ?thesis using Paged fw [of bs] by simp
  next
    case False
    obtain r rs where ps: "ps = r # rs" using q False k(1) by (cases ps) auto
    let ?cs = "take (4096 - off) bs" and ?ds = "drop (4096 - off) bs"
    define m1 where "m1 = MEM_BlockWrite ?a ?cs m"
    have l: "length ?cs = 4096 - off" using False by simp
    have w1: "written (side_addr sd qs) ?cs m m1" using fw [of ?cs] False by (simp add: m1_def)
    then have f1: "m1 = m\<lparr>ram := ram m1\<rparr>" by (simp add: written_def)
    then have "mhandles m1 = H" using H by (metis MemoryBlock.select_convs(4) MemoryBlock.surjective MemoryBlock.update_convs(1))
    then have nx: "MEM_NextHandle h m1 = Some (H ! p)" using next_page [of H h p ps "- 1" m1] q by simp
    have second: "word_of_int (H ! p) * 4096 + of_nat i = side_addr sd qs (length ?cs + i)" if "i < length ?ds" for i
      using paged_second [of H h p r rs "- 1" off i] q ps that k(2) Paged unfolding l by simp
    have "apart_writable (\<lambda>i. side_addr sd qs (length ?cs + i)) (length ?ds) m1"
      using apart_shift [of "side_addr sd qs" "length ?cs" "length ?ds" m] ap apart_ram_only [OF f1] False by simp
    then have "apart_writable (\<lambda>i. word_of_int (H ! p) * 4096 + of_nat i) (length ?ds) m1"
      using second by (subst apart_cong [where E = "\<lambda>i. side_addr sd qs (length ?cs + i)"]) auto
    from BlockWrite_written [OF this] have "written (\<lambda>i. side_addr sd qs (length ?cs + i)) ?ds m1 (MEM_BlockWrite (word_of_int (H ! p) * 4096) ?ds m1)"
      using second by (subst written_cong [where E = "\<lambda>i. word_of_int (H ! p) * 4096 + of_nat i"]) auto
    from written_append [OF w1 this] ap False have "written (side_addr sd qs) bs m (MEM_BlockWrite (word_of_int (H ! p) * 4096) ?ds m1)" by simp
    then show ?thesis using False nx unfolding Paged by (simp add: m1_def Let_def)
  qed
qed

lemma advance_addr:
  assumes c: "side_chain H sd qs n" and n: "0 < n" and H: "mhandles m = H"
  shows "\<exists>sd'. advance sd (min n 4096) m = Some sd' \<and> side_chain H sd' (tl qs) (n - min n 4096) \<and>
    (\<forall>i < n - min n 4096. side_addr sd' (tl qs) i = side_addr sd qs (min n 4096 + i))"
proof -
  obtain sd' where s: "advance sd (min n 4096) m = Some sd'" "side_chain H sd' (tl qs) (n - min n 4096)" using advance_returns [OF assms] by blast
  have "side_addr sd' (tl qs) i = side_addr sd qs (min n 4096 + i)" if i: "i < n - min n 4096" for i
  proof (cases sd)
    case (Real a)
    then show ?thesis using s(1) by (auto simp: algebra_simps)
  next
    case (Paged h off)
    obtain p ps where q: "qs = p # ps" using c n Paged side_nonempty [of off n qs] by (auto simp: side_chain_def)
    obtain h' where "sd' = Paged h' off" using s(1) Paged by (auto simp: bind_eq_Some_conv)
    moreover have "min n 4096 = 4096" using i by (auto simp: min_def split: if_splits)
    moreover have "(off + (4096 + i)) div 4096 = Suc ((off + i) div 4096)" "(off + (4096 + i)) mod 4096 = (off + i) mod 4096"
      by (simp_all add: add.left_commute [of off])
    ultimately show ?thesis using Paged q by simp
  qed
  then show ?thesis using s by blast
qed

section \<open>The loop\<close>

text \<open>
  What a move and an exchange mean, and when they do it: every byte of the destination can be written and no source byte is
  overwritten before it is read; for an exchange, the two regions are RAM and disjoint.
\<close>

definition moves :: "bool \<Rightarrow> (nat \<Rightarrow> u32) \<Rightarrow> (nat \<Rightarrow> u32) \<Rightarrow> nat \<Rightarrow> MemoryBlock \<Rightarrow> MemoryBlock \<Rightarrow> bool" where
  "moves exchange D S n m m' \<longleftrightarrow> m' = m\<lparr>ram := ram m'\<rparr> \<and> (\<forall>i<n. ram m' (phys_addr (D i) m) = mem_readb (S i) m) \<and>
     (exchange \<longrightarrow> (\<forall>i<n. ram m' (phys_addr (S i) m) = mem_readb (D i) m)) \<and>
     (\<forall>a. (\<forall>i<n. a \<noteq> phys_addr (D i) m) \<and> (exchange \<longrightarrow> (\<forall>i<n. a \<noteq> phys_addr (S i) m)) \<longrightarrow> ram m' a = ram m a)"

definition movable :: "bool \<Rightarrow> (nat \<Rightarrow> u32) \<Rightarrow> (nat \<Rightarrow> u32) \<Rightarrow> nat \<Rightarrow> MemoryBlock \<Rightarrow> bool" where
  "movable exchange D S n m \<longleftrightarrow> apart_writable D n m \<and> (\<forall>i j. i < j \<and> j < n \<longrightarrow> phys_addr (S j) m \<noteq> phys_addr (D i) m) \<and>
     (exchange \<longrightarrow> apart_writable S n m \<and> (\<forall>i<n. \<forall>j<n. phys_addr (S j) m \<noteq> phys_addr (D i) m))"

lemma movable_shift:
  assumes "movable x D S (k + n) m" and "m1 = m\<lparr>ram := R\<rparr>"
  shows "movable x (\<lambda>i. D (k + i)) (\<lambda>i. S (k + i)) n m1"
  using assms apart_shift [of D k n m] apart_shift [of S k n m] by (simp add: movable_def apart_ram_only [OF refl])

lemma movable_less: "movable x D S n m \<Longrightarrow> k \<le> n \<Longrightarrow> movable x D S k m"
  unfolding movable_def by (auto intro: apart_less)

lemma movable_cong: "(\<And>i. i < n \<Longrightarrow> D i = D' i) \<Longrightarrow> (\<And>i. i < n \<Longrightarrow> S i = S' i) \<Longrightarrow> movable x D S n m = movable x D' S' n m"
  by (simp add: movable_def apart_writable_def)

lemma moves_cong: "(\<And>i. i < n \<Longrightarrow> D i = D' i) \<Longrightarrow> (\<And>i. i < n \<Longrightarrow> S i = S' i) \<Longrightarrow> moves x D S n m m' = moves x D' S' n m m'"
  by (simp add: moves_def)

lemma moves_append:
  assumes a: "moves x D S k m m1" and b: "moves x (\<lambda>i. D (k + i)) (\<lambda>i. S (k + i)) j m1 m'" and mv: "movable x D S (k + j) m"
  shows "moves x D S (k + j) m m'"
proof -
  have f1: "m1 = m\<lparr>ram := ram m1\<rparr>" and f2: "m' = m1\<lparr>ram := ram m'\<rparr>" using a b by (simp_all add: moves_def)
  note p1 = ram_only(1) [OF f1]
  have D: "apart_writable D (k + j) m" and SD: "\<And>i l. i < l \<Longrightarrow> l < k + j \<Longrightarrow> phys_addr (S l) m \<noteq> phys_addr (D i) m" using mv by (simp_all add: movable_def)
  have X: "apart_writable S (k + j) m" "\<And>i l. i < k + j \<Longrightarrow> l < k + j \<Longrightarrow> phys_addr (S l) m \<noteq> phys_addr (D i) m" if x using mv that by (simp_all add: movable_def)
  have late: "ram m' y = ram m1 y" if "\<forall>i<j. y \<noteq> phys_addr (D (k + i)) m" "x \<longrightarrow> (\<forall>i<j. y \<noteq> phys_addr (S (k + i)) m)" for y
    using b that p1 by (simp add: moves_def)
  have early: "ram m1 y = ram m y" if "\<forall>i<k. y \<noteq> phys_addr (D i) m" "x \<longrightarrow> (\<forall>i<k. y \<noteq> phys_addr (S i) m)" for y
    using a that by (simp add: moves_def)
  have rS: "mem_readb (S (k + i)) m1 = mem_readb (S (k + i)) m" if "i < j" for i
    using SD apart_inj [OF X(1)] that by (intro read_ram_only [OF f1] early) auto
  have rD: "mem_readb (D (k + i)) m1 = mem_readb (D (k + i)) m" if "i < j" x for i
    using apart_inj [OF D] X(2) that by (intro read_ram_only [OF f1] early) (auto, metis add_less_mono1 not_add_less1 trans_less_add1 nat_add_left_cancel_less)
  have "ram m' (phys_addr (D i) m) = mem_readb (S i) m" if i: "i < k + j" for i
  proof (cases "i < k")
    case True
    then have "ram m' (phys_addr (D i) m) = ram m1 (phys_addr (D i) m)"
      using apart_inj [OF D] X(2) by (intro late) (auto, metis i nat_add_left_cancel_less)
    then show ?thesis using a True by (simp add: moves_def)
  next
    case False
    then obtain l where l: "i = k + l" "l < j" using i by (metis le_add_diff_inverse nat_add_left_cancel_less not_less)
    then show ?thesis using b rS p1 by (simp add: moves_def)
  qed
  moreover have "ram m' (phys_addr (S i) m) = mem_readb (D i) m" if i: "i < k + j" x for i
  proof (cases "i < k")
    case True
    then have "ram m' (phys_addr (S i) m) = ram m1 (phys_addr (S i) m)"
      using apart_inj [OF X(1)] X(2) i(2) by (intro late) auto
    then show ?thesis using a True i(2) by (simp add: moves_def)
  next
    case False
    then obtain l where l: "i = k + l" "l < j" using i(1) by (metis le_add_diff_inverse nat_add_left_cancel_less not_less)
    then show ?thesis using b rD p1 i(2) by (simp add: moves_def)
  qed
  moreover have "ram m' y = ram m y" if "\<forall>i<k + j. y \<noteq> phys_addr (D i) m" "x \<longrightarrow> (\<forall>i<k + j. y \<noteq> phys_addr (S i) m)" for y
    using late [of y] early [of y] that by simp
  ultimately show ?thesis using ram_only_trans [OF f1 f2] by (simp add: moves_def)
qed

lemma moves_round:
  assumes mv: "movable x D S k m" and w: "if x then written S (map (\<lambda>i. mem_readb (D i) m) [0..<k]) m m1 else m1 = m"
    and d: "written D (map (\<lambda>i. mem_readb (S i) m) [0..<k]) m1 m2"
  shows "moves x D S k m m2"
proof -
  have f1: "m1 = m\<lparr>ram := ram m1\<rparr>" using w by (auto simp: written_def split: if_splits)
  note p1 = ram_only(1) [OF f1]
  have D: "ram m2 (phys_addr (D i) m) = mem_readb (S i) m" if "i < k" for i using d that p1 by (simp add: written_def)
  have keep: "ram m2 y = ram m1 y" if "\<forall>i<k. y \<noteq> phys_addr (D i) m" for y using d that p1 by (simp add: written_def)
  have "ram m2 (phys_addr (S i) m) = mem_readb (D i) m" if "i < k" x for i
    using keep [of "phys_addr (S i) m"] mv w that by (simp add: movable_def written_def)
  moreover have "ram m2 y = ram m y" if "\<forall>i<k. y \<noteq> phys_addr (D i) m" "x \<longrightarrow> (\<forall>i<k. y \<noteq> phys_addr (S i) m)" for y
    using keep [of y] w that by (auto simp: written_def split: if_splits)
  moreover have "m2 = m\<lparr>ram := ram m2\<rparr>" using ram_only_trans [OF f1] d by (simp add: written_def)
  ultimately show ?thesis using D by (simp add: moves_def)
qed

lemma mhandles_ram_only: "m' = m\<lparr>ram := R\<rparr> \<Longrightarrow> mhandles m' = mhandles m"
  by simp

lemma region_loop_moves:
  assumes "side_chain H src qs n" and "side_chain H dest rs n" and "mhandles m = H"
    and "movable x (side_addr dest rs) (side_addr src qs) n m"
  shows "\<exists>m'. region_loop x n src dest m = Some m' \<and> moves x (side_addr dest rs) (side_addr src qs) n m m'"
  using assms
proof (induction n arbitrary: src dest qs rs m rule: less_induct)
  case (less n)
  let ?D = "side_addr dest rs" and ?S = "side_addr src qs"
  show ?case
  proof (cases n)
    case 0
    then show ?thesis by (simp add: moves_def)
  next
    case (Suc j)
    define k where "k = min n 4096"
    have n: "0 < n" "k \<le> n" "k \<le> 4096" "k + (n - k) = n" "n - k < n" using Suc by (simp_all add: k_def)
    have mk: "movable x ?D ?S k m" using movable_less [OF less.prems(4) n(2)] .
    let ?bs = "map (\<lambda>i. mem_readb (?S i) m) [0..<k]" and ?cs = "map (\<lambda>i. mem_readb (?D i) m) [0..<k]"
    have bs: "read_side src k m = Some ?bs" by (rule read_side_bytes [OF less.prems(1) n(2,3,1) less.prems(3)])
    have cs: "read_side dest k m = Some ?cs" by (rule read_side_bytes [OF less.prems(2) n(2,3,1) less.prems(3)])
    obtain m1 where m1: "(if x then do { cs \<leftarrow> read_side dest k m; write_side src cs m } else Some m) = Some m1" "if x then written ?S ?cs m m1 else m1 = m"
    proof (cases x)
      case True
      then have "apart_writable ?S (length ?cs) m" using mk by (simp add: movable_def)
      then show ?thesis using that True cs write_side_bytes [OF less.prems(1) _ _ n(1) less.prems(3), of ?cs] n by auto
    qed (use that in auto)
    have f1: "m1 = m\<lparr>ram := ram m1\<rparr>" using m1(2) by (auto simp: written_def split: if_splits)
    have H1: "mhandles m1 = H" using mhandles_ram_only [OF f1] less.prems(3) by simp
    have "apart_writable ?D (length ?bs) m1" using mk apart_ram_only [OF f1] by (simp add: movable_def)
    then obtain m2 where m2: "write_side dest ?bs m1 = Some m2" "written ?D ?bs m1 m2"
      using write_side_bytes [OF less.prems(2) _ _ n(1) H1, of ?bs] n by auto
    have r: "moves x ?D ?S k m m2" by (rule moves_round [OF mk m1(2) m2(2)])
    then have f2: "m2 = m\<lparr>ram := ram m2\<rparr>" by (simp add: moves_def)
    have H2: "mhandles m2 = H" using mhandles_ram_only [OF f2] less.prems(3) by simp
    obtain src' where s: "advance src k m2 = Some src'" "side_chain H src' (tl qs) (n - k)" "\<forall>i < n - k. side_addr src' (tl qs) i = ?S (k + i)"
      using advance_addr [OF less.prems(1) n(1) H2] unfolding k_def by blast
    obtain dest' where d: "advance dest k m2 = Some dest'" "side_chain H dest' (tl rs) (n - k)" "\<forall>i < n - k. side_addr dest' (tl rs) i = ?D (k + i)"
      using advance_addr [OF less.prems(2) n(1) H2] unfolding k_def by blast
    have "movable x (\<lambda>i. ?D (k + i)) (\<lambda>i. ?S (k + i)) (n - k) m2" using movable_shift [OF _ f2, of x ?D ?S k "n - k"] less.prems(4) n(4) by simp
    then have "movable x (side_addr dest' (tl rs)) (side_addr src' (tl qs)) (n - k) m2"
      using s(3) d(3) by (subst movable_cong [where D' = "\<lambda>i. ?D (k + i)" and S' = "\<lambda>i. ?S (k + i)"]) simp_all
    from less.IH [OF n(5) s(2) d(2) H2 this] obtain m' where m': "region_loop x (n - k) src' dest' m2 = Some m'"
      "moves x (side_addr dest' (tl rs)) (side_addr src' (tl qs)) (n - k) m2 m'" by blast
    then have "moves x (\<lambda>i. ?D (k + i)) (\<lambda>i. ?S (k + i)) (n - k) m2 m'"
      using s(3) d(3) by (subst moves_cong [where D' = "side_addr dest' (tl rs)" and S' = "side_addr src' (tl qs)"]) simp_all
    from moves_append [OF r this] less.prems(4) n(4) have "moves x ?D ?S n m m'" by simp
    moreover have "region_loop x n src dest m = Some m'"
      unfolding region_loop_step [OF n(1)] k_def [symmetric] using bs m1(1) m2(1) s(1) d(1) m'(1) by simp
    ultimately show ?thesis by blast
  qed
qed

section \<open>Regions\<close>

text \<open>The position of a region in its handle, the address of its bytes, and the first error that a side gives.\<close>

definition region_start :: "u16 \<Rightarrow> u16 \<Rightarrow> nat" where
  "region_start g off = unat g * 16384 + unat off"

definition block_byte :: "nat list \<Rightarrow> nat \<Rightarrow> u32" where
  "block_byte ps k = page_byte (ps ! (k div 4096)) (k mod 4096)"

definition region_byte :: "(nat \<rightharpoonup> nat list) \<Rightarrow> u8 \<Rightarrow> u16 \<Rightarrow> u16 \<Rightarrow> u16 \<Rightarrow> nat \<Rightarrow> u32" where
  "region_byte own typ h off g i = (if typ = 0 then of_nat (unat g * 16 + unat off) + of_nat i
     else block_byte (the (own (unat h))) (region_start g off + i))"

definition side_fault :: "u8 \<Rightarrow> u16 \<Rightarrow> u16 \<Rightarrow> u16 \<Rightarrow> nat \<Rightarrow> ems_state \<Rightarrow> emm_error option" where
  "side_fault typ h off g n s = (if typ = 0 then None else if \<not> ValidHandle h s then Some EMM_INVALID_HANDLE
     else if unat (emm_pages (the_handle h s)) * 16384 < region_start g off + n then Some EMM_LOG_OUT_RANGE else None)"

definition region_fault :: "MoveRegion \<Rightarrow> ems_state \<Rightarrow> emm_error option" where
  "region_fault g s = (case side_fault (src_type g) (src_handle g) (src_offset g) (src_page_seg g) (unat (bytes g)) s of
     Some e \<Rightarrow> Some e | None \<Rightarrow> side_fault (dest_type g) (dest_handle g) (dest_offset g) (dest_page_seg g) (unat (bytes g)) s)"

lemma parse_side_region:
  assumes inv: "ems_inv s own oth" and w: "no_wrap typ g off len"
  shows "case side_fault typ h off g (unat len) s of Some e \<Rightarrow> parse_side typ h off g len s = Some (Inl e)
    | None \<Rightarrow> \<exists>sd qs. parse_side typ h off g len s = Some (Inr sd) \<and> side_chain (mhandles (ems_mem s)) sd qs (unat len) \<and>
        (\<forall>i<unat len. side_addr sd qs i = region_byte own typ h off g i)"
proof -
  note P = parse_side_spec [OF inv w, of h]
  consider "typ = 0" | "typ \<noteq> 0" "side_fault typ h off g (unat len) s \<noteq> None" | (ok) "typ \<noteq> 0" "side_fault typ h off g (unat len) s = None" by blast
  then show ?thesis
  proof cases
    case 1
    then have "parse_side typ h off g len s = Some (Inr (Real (of_nat (unat g * 16 + unat off))))" using P by simp
    then show ?thesis using 1 by (auto simp: side_fault_def side_chain_def region_byte_def)
  next
    case 2
    then show ?thesis using P by (auto simp: side_fault_def region_start_def split: if_splits)
  next
    case ok
    define k where "k = unat g * 4 + unat off div 4096"
    from ok have c: "ValidHandle h s" "\<not> unat (emm_pages (the_handle h s)) * 16384 < unat g * 16384 + unat off + unat len"
      by (auto simp: side_fault_def region_start_def split: if_splits)
    obtain x ps where x: "parse_side typ h off g len s = Some (Inr (Paged x (unat off mod 4096)))" "unat len \<noteq> 0 \<longrightarrow> own (unat h) = Some ps"
      "side_chain (mhandles (ems_mem s)) (Paged x (unat off mod 4096)) (drop k ps) (unat len)"
      using P by (simp only: ok(1) c if_False not_True_eq_False k_def) blast
    have "side_addr (Paged x (unat off mod 4096)) (drop k ps) i = region_byte own typ h off g i" if i: "i < unat len" for i
    proof -
      have o: "own (unat h) = Some ps" using x(2) i by simp
      have "drop k ps \<noteq> []" using x(3) i by (auto simp: side_chain_def)
      then have kl: "k \<le> length ps" by simp
      have e: "region_start g off + i = (unat off mod 4096 + i) + k * 4096" by (simp add: region_start_def k_def distrib_right)
      show ?thesis unfolding region_byte_def block_byte_def e using ok(1) o kl by (simp add: add.commute)
    qed
    then show ?thesis using ok(2) x(1,3) by auto
  qed
qed

lemma MemoryRegion_moves:
  assumes inv: "ems_inv s own oth" and al: "low_byte (reg_eax r) \<le> 1" and w: "region_in_range r s"
    and g: "LoadMoveRegion (phys_ds r + ucast (reg_si r)) (ems_mem s) = g"
  defines "S \<equiv> region_byte own (src_type g) (src_handle g) (src_offset g) (src_page_seg g)"
    and "D \<equiv> region_byte own (dest_type g) (dest_handle g) (dest_offset g) (dest_page_seg g)"
  shows "case region_fault g s of Some e \<Rightarrow> MemoryRegion r s = Some (e, s)
    | None \<Rightarrow> movable (low_byte (reg_eax r) = 1) D S (unat (bytes g)) (ems_mem s) \<longrightarrow>
        (\<exists>m'. MemoryRegion r s = Some (EMM_NO_ERROR, s\<lparr>ems_mem := m'\<rparr>) \<and> moves (low_byte (reg_eax r) = 1) D S (unat (bytes g)) (ems_mem s) m')"
proof -
  have nw: "no_wrap (src_type g) (src_page_seg g) (src_offset g) (bytes g)" "no_wrap (dest_type g) (dest_page_seg g) (dest_offset g) (bytes g)"
    using w g by (simp_all add: region_in_range_def Let_def)
  note A = parse_side_region [OF inv nw(1), of "src_handle g"] and B = parse_side_region [OF inv nw(2), of "dest_handle g"]
  have al': "\<not> 1 < low_byte (reg_eax r)" using al by simp
  show ?thesis
  proof (cases "region_fault g s")
    case (Some e)
    then show ?thesis using A B al' g by (auto simp: region_fault_def MemoryRegion_def Let_def split: option.splits)
  next
    case None
    then have f: "side_fault (src_type g) (src_handle g) (src_offset g) (src_page_seg g) (unat (bytes g)) s = None"
      "side_fault (dest_type g) (dest_handle g) (dest_offset g) (dest_page_seg g) (unat (bytes g)) s = None"
      by (simp_all add: region_fault_def split: option.splits)
    obtain sd qs where s: "parse_side (src_type g) (src_handle g) (src_offset g) (src_page_seg g) (bytes g) s = Some (Inr sd)"
      "side_chain (mhandles (ems_mem s)) sd qs (unat (bytes g))" "\<And>i. i < unat (bytes g) \<Longrightarrow> side_addr sd qs i = S i" using A f(1) by (auto simp: S_def)
    obtain dd rs where d: "parse_side (dest_type g) (dest_handle g) (dest_offset g) (dest_page_seg g) (bytes g) s = Some (Inr dd)"
      "side_chain (mhandles (ems_mem s)) dd rs (unat (bytes g))" "\<And>i. i < unat (bytes g) \<Longrightarrow> side_addr dd rs i = D i" using B f(2) by (auto simp: D_def)
    let ?x = "low_byte (reg_eax r) = 1"
    have "\<exists>m'. MemoryRegion r s = Some (EMM_NO_ERROR, s\<lparr>ems_mem := m'\<rparr>) \<and> moves ?x D S (unat (bytes g)) (ems_mem s) m'"
      if mv: "movable ?x D S (unat (bytes g)) (ems_mem s)"
    proof -
      have "movable ?x (side_addr dd rs) (side_addr sd qs) (unat (bytes g)) (ems_mem s)"
        using mv d(3) s(3) by (subst movable_cong [where D' = D and S' = S]) simp_all
      from region_loop_moves [OF s(2) d(2) refl this] obtain m' where m': "region_loop ?x (unat (bytes g)) sd dd (ems_mem s) = Some m'"
        "moves ?x (side_addr dd rs) (side_addr sd qs) (unat (bytes g)) (ems_mem s) m'" by blast
      from m'(2) have "moves ?x D S (unat (bytes g)) (ems_mem s) m'"
        using d(3) s(3) by (subst moves_cong [where D' = "side_addr dd rs" and S' = "side_addr sd qs"]) simp_all
      moreover have "MemoryRegion r s = Some (EMM_NO_ERROR, s\<lparr>ems_mem := m'\<rparr>)"
        using m'(1) s(1) d(1) al' g by (simp add: MemoryRegion_def Let_def)
      ultimately show ?thesis by blast
    qed
    then show ?thesis using None by simp
  qed
qed

section \<open>Expanded memory\<close>

lemma block_byte_page:
  assumes inv: "ems_inv s own oth" and ps: "own h = Some ps" and k: "k < length ps * 4096"
  shows "phys_addr (block_byte ps k) (ems_mem s) = block_byte ps k" "writable (block_byte ps k) (ems_mem s)"
    "unat (block_byte ps k) = ps ! (k div 4096) * 4096 + k mod 4096"
proof -
  have q: "ps ! (k div 4096) \<in> set ps" using k by (intro nth_mem) (simp add: less_mult_imp_div_less)
  note W = page_writable [OF inv ps q]
  have "XMS_START \<le> ps ! (k div 4096)" by (rule W(5))
  moreover have u: "unat (block_byte ps k) = ps ! (k div 4096) * 4096 + k mod 4096"
    unfolding block_byte_def using W(2) by (intro unat_page_byte) simp
  ultimately have lo: "XMS_START * 4096 \<le> unat (block_byte ps k)" by (simp add: trans_le_add1)
  show "unat (block_byte ps k) = ps ! (k div 4096) * 4096 + k mod 4096" by (rule u)
  show "phys_addr (block_byte ps k) (ems_mem s) = block_byte ps k" by (rule high_page(2) [OF lo])
  have "ps ! (k div 4096) * 4096 + k mod 4096 < (ps ! (k div 4096) + 1) * 4096" by simp
  also have "\<dots> \<le> length (mhandles (ems_mem s)) * 4096" using W(1) by (intro mult_right_mono) simp_all
  finally show "writable (block_byte ps k) (ems_mem s)" unfolding u [symmetric]
    using inv by (intro high_writable [OF _ lo]) (simp_all add: ems_inv_def ems_table_def)
qed

lemma block_byte_inj:
  assumes inv: "ems_inv s own oth" and ps: "own h = Some ps" "own h' = Some qs" and k: "k < length ps * 4096" "j < length qs * 4096"
    and e: "block_byte ps k = block_byte qs j"
  shows "h = h' \<and> k = j"
proof -
  have o: "owns pool (ems_mem s) (case_sum own oth)" using inv by (simp add: ems_inv_def ems_table_def)
  have i: "k div 4096 < length ps" "j div 4096 < length qs" using k by (simp_all add: less_mult_imp_div_less)
  have split: "(a * 4096 + b) div 4096 = a" "(a * 4096 + b) mod 4096 = b" if "b < 4096" for a b :: nat using that by simp_all
  have "ps ! (k div 4096) * 4096 + k mod 4096 = qs ! (j div 4096) * 4096 + j mod 4096"
    using block_byte_page(3) [OF inv ps(1) k(1)] block_byte_page(3) [OF inv ps(2) k(2)] e by simp
  then have pg: "ps ! (k div 4096) = qs ! (j div 4096)" "k mod 4096 = j mod 4096"
    using split [of "k mod 4096" "ps ! (k div 4096)"] split [of "j mod 4096" "qs ! (j div 4096)"] by auto
  have "h = h'"
  proof (rule ccontr)
    assume "h \<noteq> h'"
    then have a: "case_sum own oth (Inl h) = Some ps" "case_sum own oth (Inl h') = Some qs" "Inl h \<noteq> (Inl h' :: nat + 'a)" using ps by simp_all
    have "set ps \<inter> set qs = {}" by (rule mp.owns_apart [OF o a])
    then show False using pg(1) i by (metis IntI empty_iff nth_mem)
  qed
  moreover have "k div 4096 = j div 4096"
  proof -
    obtain B where "pool (ems_mem s) B" "ps \<in> B" using o ps(1) unfolding owns_def by (metis ranI subsetD sum.case(1))
    then have "distinct ps" by (simp add: pool_def block_def)
    then show ?thesis using pg(1) i ps \<open>h = h'\<close> by (simp add: nth_eq_iff_index_eq)
  qed
  ultimately show ?thesis using pg(2) by (metis div_mult_mod_eq)
qed

text \<open>Regions of two handles, or apart in one, can be moved; so can overlapping ones that move down.\<close>

lemma side_in_block:
  assumes inv: "ems_inv s own oth" and ty: "typ \<noteq> 0" and ok: "side_fault typ h off g n s = None" and i: "i < n"
  shows "\<exists>ps. own (unat h) = Some ps \<and> region_byte own typ h off g i = block_byte ps (region_start g off + i) \<and> region_start g off + i < length ps * 4096"
proof -
  have t: "ems_table (emm_handles s) (ems_mem s) own oth" using inv by (simp add: ems_inv_def)
  have v: "ValidHandle h s" "region_start g off + n \<le> unat (emm_pages (the_handle h s)) * 16384"
    using ty ok by (auto simp: side_fault_def split: if_splits)
  then have h: "unat h < EMM_MAX_HANDLES" and live: "emm_live (emm_handles s ! unat h)"
    using i by (auto simp: ValidHandle_def emm_live_def the_handle_def)
  obtain ps where "own (unat h) = Some ps" "length ps = unat (emm_pages (emm_handles s ! unat h)) * 4" using live_block [OF t h live] by metis
  then show ?thesis using ty v(2) i by (simp add: region_byte_def the_handle_def)
qed

definition regions_clear :: "bool \<Rightarrow> MoveRegion \<Rightarrow> bool" where
  "regions_clear exchange g \<longleftrightarrow> (let a = region_start (src_page_seg g) (src_offset g); b = region_start (dest_page_seg g) (dest_offset g); n = unat (bytes g) in
     src_handle g \<noteq> dest_handle g \<or> a + n \<le> b \<or> b + n \<le> a \<or> (\<not> exchange \<and> b \<le> a))"

lemma regions_movable:
  assumes inv: "ems_inv s own oth" and t: "src_type g \<noteq> 0" "dest_type g \<noteq> 0" and ok: "region_fault g s = None" and c: "regions_clear x g"
  shows "movable x (region_byte own (dest_type g) (dest_handle g) (dest_offset g) (dest_page_seg g))
    (region_byte own (src_type g) (src_handle g) (src_offset g) (src_page_seg g)) (unat (bytes g)) (ems_mem s)"
    (is "movable x ?D ?S ?n ?m")
proof -
  let ?a = "region_start (src_page_seg g) (src_offset g)" and ?b = "region_start (dest_page_seg g) (dest_offset g)"
  have f: "side_fault (src_type g) (src_handle g) (src_offset g) (src_page_seg g) ?n s = None"
    "side_fault (dest_type g) (dest_handle g) (dest_offset g) (dest_page_seg g) ?n s = None"
    using ok by (simp_all add: region_fault_def split: option.splits)
  note S = side_in_block [OF inv t(1) f(1)] and D = side_in_block [OF inv t(2) f(2)]
  have Sp: "phys_addr (?S i) ?m = ?S i" "writable (?S i) ?m" if "i < ?n" for i using S [OF that] block_byte_page [OF inv] by auto
  have Dp: "phys_addr (?D i) ?m = ?D i" "writable (?D i) ?m" if "i < ?n" for i using D [OF that] block_byte_page [OF inv] by auto
  have SS: "?S i \<noteq> ?S j" if "i < ?n" "j < ?n" "i \<noteq> j" for i j using S [OF that(1)] S [OF that(2)] block_byte_inj [OF inv] that(3) by fastforce
  have DD: "?D i \<noteq> ?D j" if "i < ?n" "j < ?n" "i \<noteq> j" for i j using D [OF that(1)] D [OF that(2)] block_byte_inj [OF inv] that(3) by fastforce
  have SD: "src_handle g = dest_handle g \<and> ?a + j = ?b + i" if "i < ?n" "j < ?n" "?S j = ?D i" for i j
    using D [OF that(1)] S [OF that(2)] block_byte_inj [OF inv] that(3) by (metis unsigned_word_eqI word_unat_eq_iff)
  have "?S j \<noteq> ?D i" if "i < j" "j < ?n" for i j using SD [of i j] that c by (auto simp: regions_clear_def Let_def)
  moreover have "?S j \<noteq> ?D i" if "i < ?n" "j < ?n" x for i j using SD [of i j] that c by (auto simp: regions_clear_def Let_def)
  ultimately show ?thesis using Sp Dp SS DD by (simp add: movable_def apart_writable_def)
qed

text \<open>
  Property C12. Moves and exchanges of regions act byte by byte. For a state that calls reach and regions whose ends are
  below 4 GB, the call checks the source side, then the destination side (an unused handle, then a range beyond the handle's pages), and
  returns the first error with the state unchanged. Otherwise, where the destination can be written and no source byte is overwritten before it is read
  (for an exchange: both sides are RAM and disjoint), it succeeds: each byte of the destination is the old byte of
  the source, for an exchange also the other way round, and nothing else changes, although the pages are scattered and are
  copied through buffers of 4 KB. Regions of two handles, regions apart in one handle, and moves downwards within a handle always
  satisfy that condition.
\<close>

theorem ems_move_region:
  assumes "ems_reach oth V s" and "low_byte (reg_eax r) \<le> 1" and "region_in_range r s"
    and "LoadMoveRegion (phys_ds r + ucast (reg_si r)) (ems_mem s) = g" and "x \<longleftrightarrow> low_byte (reg_eax r) = 1"
  shows "\<exists>own. handle_pages s own \<and> (case region_fault g s of Some e \<Rightarrow> MemoryRegion r s = Some (e, s)
    | None \<Rightarrow> let S = region_byte own (src_type g) (src_handle g) (src_offset g) (src_page_seg g);
          D = region_byte own (dest_type g) (dest_handle g) (dest_offset g) (dest_page_seg g) in
        (movable x D S (unat (bytes g)) (ems_mem s) \<longrightarrow>
          (\<exists>m'. MemoryRegion r s = Some (EMM_NO_ERROR, s\<lparr>ems_mem := m'\<rparr>) \<and> moves x D S (unat (bytes g)) (ems_mem s) m')) \<and>
        (src_type g \<noteq> 0 \<and> dest_type g \<noteq> 0 \<and> regions_clear x g \<longrightarrow> movable x D S (unat (bytes g)) (ems_mem s)))"
proof -
  obtain own where inv: "ems_inv s own (case_sum (vpages V) oth)" using reach_inv [OF assms(1)] by blast
  note M = MemoryRegion_moves [OF inv assms(2-4)] and R = regions_movable [OF inv, of g x]
  show ?thesis
  proof (cases "region_fault g s")
    case None
    then show ?thesis using M R inv_handle_pages [OF inv] unfolding assms(5) by (intro exI [of _ own]) (simp add: Let_def)
  next
    case (Some e)
    then show ?thesis using M inv_handle_pages [OF inv] by auto
  qed
qed

text \<open>A board with the description of a move at address 500h: three bytes from page 0 of the system handle to page 1.\<close>

definition board_bytes :: "u32 \<Rightarrow> u8" where
  "board_bytes a = (if a = 0x500 then 3 else if a = 0x504 \<or> a = 0x50b \<or> a = 0x510 then 1 else 0)"

definition board_ems :: ems_state where
  "board_ems = (boot_ems 512)\<lparr>ems_type := 2, ems_mem := (boot_memory 512)\<lparr>ram := board_bytes\<rparr>\<rparr>"

definition board_regs :: ems_regs where
  "board_regs = \<lparr>reg_eax = 0x5700, reg_ebx = 0, reg_ecx = 0, reg_edx = 0, reg_si = 0x500, phys_ds = 0, val_es = 0,
     reg_di = 0, phys_es = 0, val_ds = 0, flag_VM = False, flag_IF = False, cpu_pmode = False\<rparr>"

lemma board_reach:
  obtains s where "ems_reach (Map.empty :: nat \<rightharpoonup> nat list) {} s" "emm_pages (the_handle 0 s) = 24" "ram (ems_mem s) = board_bytes"
    "firstmb_map (ems_mem s) = id" "phandlers (ems_mem s) = replicate 512 ram_page_handler"
proof -
  have b: "(512::nat) < 2 ^ 20" by simp
  have m: "ems_mem board_ems = (ems_mem (boot_ems 512))\<lparr>ram := board_bytes\<rparr>" "emm_handles board_ems = emm_handles (boot_ems 512)" "ems_type board_ems = 2"
    by (simp_all add: board_ems_def boot_ems_def)
  have r: "ems_typed board_ems" "ram_above (ems_mem board_ems)" "owns pool (ems_mem board_ems) Map.empty" "tail_longest (mhandles (ems_mem board_ems))"
    using ems_boot_ready [OF b] by (simp_all add: m ems_typed_def ram_above_def owns_def pool_def)
  have i: "ems_inv (clear_tables board_ems) Map.empty (Map.empty :: nat \<rightharpoonup> nat list)" by (rule clear_tables_inv [OF r(1-3)])
  have n: "emm_pages (the_handle 0 (clear_tables board_ems)) = NULL_HANDLE"
    using r(1) by (simp add: clear_tables_def the_handle_def ems_typed_def EMM_MAX_HANDLES_def)
  have c: "ems_mem (clear_tables board_ems) = ems_mem board_ems" "ems_type (clear_tables board_ems) = 2" using m(3) by (simp_all add: clear_tables_def)
  have g: "get_free_pages (clear_tables board_ems) = get_free_pages (boot_ems 512)"
    by (simp add: get_free_pages_def c(1) m(1) MEM_FreeTotal_def)
  obtain e s where s: "EMM_AllocateSystemHandle 24 (clear_tables board_ems) = Some (e, s)" "handles_only (clear_tables board_ems) s" "emm_pages (the_handle 0 s) = 24"
    using system_handle [OF i n] r(4) boot_2mb unfolding c(1) g by auto
  have t: "ems_type s = 2" using s(2) c(2) unfolding handles_only_def by (metis ems_state.select_convs(1) ems_state.surjective ems_state.update_convs(2,6))
  have "ems_setup 0 0 board_ems = Some s" using s(1) t by (simp add: ems_setup_def)
  then have "ems_reach (Map.empty :: nat \<rightharpoonup> nat list) {} s" by (rule ems_reach.reach_setup [OF r])
  moreover have "ram (ems_mem s) = board_bytes" using s(2) c(1) m(1) by (simp add: handles_only_def)
  moreover have "firstmb_map (ems_mem s) = id" "phandlers (ems_mem s) = replicate 512 ram_page_handler"
    using handles_only_maps [OF s(2)] c(1) m(1) by (simp_all add: boot_ems_def boot_memory_def)
  ultimately show ?thesis using that s(3) by blast
qed

theorem ems_move_region_witness:
  "\<exists>s own m' g. ems_reach (Map.empty :: nat \<rightharpoonup> nat list) {} s \<and> handle_pages s own \<and> bytes g = 3 \<and>
    MemoryRegion board_regs s = Some (EMM_NO_ERROR, s\<lparr>ems_mem := m'\<rparr>) \<and>
    moves False (region_byte own 1 0 0 1) (region_byte own 1 0 0 0) 3 (ems_mem s) m'"
proof -
  obtain s where s: "ems_reach (Map.empty :: nat \<rightharpoonup> nat list) {} s" "emm_pages (the_handle 0 s) = 24" "ram (ems_mem s) = board_bytes"
    "firstmb_map (ems_mem s) = id" "phandlers (ems_mem s) = replicate 512 ram_page_handler" by (rule board_reach)
  have rd: "mem_readb a (ems_mem s) = board_bytes a" if "a < 0x1000" for a
  proof -
    have "unat (drop_bit 12 a) = 0" using that by (simp add: page_of_address word_less_nat_alt)
    then have d: "drop_bit 12 a = 0" by (simp only: unat_eq_0)
    then have "InitPage (drop_bit 12 a) (ems_mem s) = 0" by (simp add: InitPage_def s(4) FIRST_LINK_def)
    then have "phys_addr a (ems_mem s) = a" "writable a (ems_mem s)" using page_split [of a] d by (simp_all add: phys_addr_def writable_def MEM_GetPageHandler_def s(5))
    then show ?thesis using s(3) by (simp add: writable_read)
  qed
  define g where "g = \<lparr>bytes = 3, src_type = 1, src_handle = 0, src_offset = 0, src_page_seg = 0, dest_type = 1, dest_handle = 0, dest_offset = 0, dest_page_seg = 1\<rparr>"
  have ld: "LoadMoveRegion (phys_ds board_regs + ucast (reg_si board_regs)) (ems_mem s) = g"
    by (simp add: LoadMoveRegion_def board_regs_def g_def mem_readw_def mem_readd_def rd board_bytes_def)
  have al: "low_byte (reg_eax board_regs) = 0" by (simp add: board_regs_def low_byte_def)
  have v: "ValidHandle 0 s" using s(2) by (simp add: ValidHandle_def EMM_MAX_HANDLES_def NULL_HANDLE_def)
  have rg: "region_in_range board_regs s" unfolding region_in_range_def ld Let_def by (simp add: no_wrap_def g_def)
  have nf: "region_fault g s = None" using v s(2) by (simp add: region_fault_def side_fault_def region_start_def g_def)
  have cl: "regions_clear False g" by (simp add: regions_clear_def region_start_def g_def Let_def)
  from ems_move_region [OF s(1) _ rg ld, of False] nf cl al have "\<exists>own m'. handle_pages s own \<and> MemoryRegion board_regs s = Some (EMM_NO_ERROR, s\<lparr>ems_mem := m'\<rparr>) \<and>
      moves False (region_byte own 1 0 0 1) (region_byte own 1 0 0 0) 3 (ems_mem s) m'" by (simp add: g_def Let_def) blast
  then show ?thesis using s(1) by (metis MoveRegion.select_convs(1))
qed

end
