(* ===== verification/Spec2Isabelle.thy ===== *)
theory Spec2Isabelle
  imports Cpu_MulDiv Event_Run Dos_Memory_Props Dma_Props Xms_Resize Ems_Region
begin

text \<open>
  A verification library for the core of an MS-DOS PC emulator (C++, under \<^verbatim>\<open>src/\<close>).

  The program. The emulator runs x86 code one instruction at a time. The CPU's arithmetic
  (\<^verbatim>\<open>src/cpu/instructions.h\<close>) leaves operands and result of the last operation in the record
  \<^verbatim>\<open>lflags\<close>, from which the status flags are computed when needed (\<^verbatim>\<open>src/cpu/lazyflags.h\<close>,
  \<^verbatim>\<open>src/cpu/flags.cpp\<close>). Time is counted in CPU cycles: a millisecond is \<^verbatim>\<open>CPU_CycleMax\<close> cycles, split
  between the slice being run (\<^verbatim>\<open>CPU_Cycles\<close>) and what is left (\<^verbatim>\<open>CPU_CycleLeft\<close>). Devices schedule events
  in a queue; between slices \<^verbatim>\<open>PIC_RunQueue\<close> calls the handlers of the events that are due, and the
  handlers raise interrupt requests at the two 8259A controllers, which end the slice and hand an
  interrupt to the CPU (all in \<^verbatim>\<open>src/hardware/pic.cpp\<close>). Devices move data with the DMA controllers
  (\<^verbatim>\<open>src/hardware/dma.cpp\<close>), and the DOS kernel gives memory to programs from chains of memory control
  blocks (\<^verbatim>\<open>src/dos/dos_memory.cpp\<close>). The memory module (\<^verbatim>\<open>src/hardware/memory.cpp\<close>) keeps the guest's RAM,
  the handler of every 4 KB page, the gate of address line 20, and a table that links the pages of
  every allocation; the XMS driver (\<^verbatim>\<open>src/ints/xms.cpp\<close>) hands out extended memory from that table
  through handles, moves bytes between blocks, and passes requests for upper memory to DOS. The EMS manager
  (\<^verbatim>\<open>src/ints/ems.cpp\<close>) takes scattered blocks from the same table and maps their pages into a frame below one
  megabyte; programs call it through interrupt 67h.

  Conventions. Machine integers are words of their width and wrap as in C++; cycle counters and the
  DMA byte counts, which stay far from their limits, are unbounded. Global variables are records
  passed through the operations; a block of assignments is \<open>seq_do\<close>. \<open>None\<close> stands for what C++ leaves
  undefined or ends the program with: shifts beyond the width, conversions out of range, failed
  assertions, use of freed memory, exits, and a loop that does not end. Loops that walk pointers
  are partial functions over the option monad, with no fuel: that they return is proved where the
  structure is well formed. Code that is not part of a component but is called back by it (event handlers, tick
  handlers, the callbacks of DMA devices) is an argument of the operations that use it, and what a theorem relies on is a
  named hypothesis: \<open>punctual\<close> for event handlers, \<open>keeps_tickers\<close> for tick handlers, \<open>quiet_device\<close> for a DMA device at
  the terminal count. Calls whose effect lies outside the model (an interrupt handed to the CPU, the eviction of a DMA
  channel's owner) are recorded in logs. Memory and page mappings of the DMA controllers are part of their own state.
  Assertions of the source are left out where a theory's text says so.

  The theories, in the order they build on each other.

  \<^item> \<open>Emu_Prelude\<close>: word types, rule collections, statement sequences, generic facts on words.

  \<^item> \<open>Cpu_Flags\<close>: the lazy-flag record and register flags; \<open>get_CF\<close> ... \<open>get_PF\<close>, \<open>FillFlags\<close>,
    \<open>FillFlagsNoCFOF\<close>, \<open>DestroyConditionFlags\<close>, the conditions \<open>TFLG_*\<close> of the jumps, the writes of the flags
    register, and the flags after a division. \<open>Lazy_Width\<close>: the locale of one operand width with its
    three interpretations, and that filling the flags is transparent (every getter returns the same
    before and after, and nothing but the FLAGS register and the pending kind changes). \<open>Cpu_Alu\<close>: the instruction bodies of \<^verbatim>\<open>instructions.h\<close> for the three widths. \<open>Cpu_Arith\<close>,
    \<open>Cpu_Shift\<close>, \<open>Cpu_MulDiv\<close>: what they compute and the flags they leave, against the arithmetic of the
    integers: sums and differences with carry and overflow, comparisons and the sixteen conditions,
    rotations, shifts, products, quotients with the divide error, decimal adjustments.

  \<^item> \<open>Pic\<close>: both controllers, their ports, the cascade, delivery. \<open>Pic_Props\<close>: the locale of a controller
    with its output line, interpreted for the primary (the CPU's check flag) and the secondary (request
    2 of the primary); reachable states; the signals, the delivery of the highest-priority request, the
    end of interrupt, the initialisation sequence, conservation of cycles.

  \<^item> \<open>Ieee_Double\<close>: rounding of rationals to binary64, ties to even, with its monotonicity and the
    numbers it fixes. \<open>Event_Queue\<close>: the event queue, the tick index and the tick handlers.
    \<open>Event_Lists\<close>: the chains of \<^verbatim>\<open>next\<close> pointers as lists and what linking, unlinking and walking do to
    them. \<open>Event_Store\<close>: the locale of a bounded timed queue, its derived laws, and its interpretation on
    the array with the pending and the free list. \<open>Event_Props\<close>: scheduling, removal, ticks. \<open>Event_Run\<close>: the contract
    of event handlers, that a run of the queue ends under it, and that it is the run the list of pending
    events prescribes (which events are served, in which order, what remains, the next slice of cycles).

  \<^item> \<open>Dos_Memory\<close>: the memory manager, operation by operation. \<open>Dos_Chain\<close>, \<open>Dos_Alloc\<close>, \<open>Dos_Inv\<close>,
    \<open>Dos_Ops\<close>, \<open>Dos_Resize\<close>, \<open>Dos_Umb\<close>: chains of control blocks as lists of owners and sizes, the
    invariant of the conventional and the upper chain, and what each operation does to the lists.
    \<open>Dos_Memory_Props\<close>: reachable states, the locale of a block pool with its interpretation, and the
    refinement theorems.

  \<^item> \<open>Dma\<close>: channels, controllers, register ports, page registers, transfers. \<open>Dma_Props\<close>: a chunked copy
    and a whole transfer against their byte-by-byte specifications, the registers a transfer leaves, masks and terminal count, the locale
    of a byte-wide port onto a 16-bit register interpreted for the address and the count registers.

  \<^item> \<open>Mem_Pages\<close>: RAM, page handlers and the map of the first megabyte, the accesses by byte, word and
    double word and by block, the page allocator, the gate of line 20 and its port, start-up.
    \<open>Mem_Access\<close>: what a run of byte accesses reads and writes. \<open>Mem_Pages_Props\<close>: the table as a pool of
    blocks, the best fit of an allocation, release and reallocation with the bytes that move.
    \<open>Mem_Scatter\<close>: allocation and reallocation of scattered blocks. \<open>Mem_Owner\<close>: the locale of a pool of blocks
    (which owner holds which pages) and its two extensions, for runs of pages and for scattered ones,
    with their derived laws and their interpretations on the allocator.

  \<^item> \<open>Guest_Regs\<close>: the caller's registers and their halves. \<open>Xms\<close>: the driver, function by function, with the dispatcher of its entry point. \<open>Xms_Inv\<close>, \<open>Xms_Ops\<close>:
    the invariant that ties the handle table to the page pool, and each function on it. \<open>Xms_Props\<close>:
    handles stay apart, moves between blocks and conventional memory, blocks of size zero. \<open>Xms_Umb\<close>: upper memory requests, on the model of
    the DOS memory manager. \<open>Xms_Resize\<close>: when a resize succeeds, where the block goes, and that no byte is lost.

  \<^item> \<open>Ems\<close>: the handles, the mapping of pages and segments, page maps, moves of regions, the VCPI calls up to a
    switch of the CPU's mode, the dispatcher of interrupt 67h, and the setup. \<open>Ems_Inv\<close>, \<open>Ems_Ops\<close>, \<open>Ems_Calls\<close>: the
    invariant that ties handles to chains of pages beside all other owners, each operation on it, and that every call
    returns and keeps it, outside of the calls named in \<open>call_allowed\<close>. \<open>Ems_Props\<close>: reachable states, handles that
    stay apart, and what the page frame shows. \<open>Ems_Saved\<close>: saved page maps, and reallocation. \<open>Ems_Region\<close>: moves and
    exchanges of regions against their meaning byte by byte.

  This theory adds what spans components: from a scheduled event to the interrupt the CPU gets.

  Bounds. Theorems on scheduling assume at most \<open>2^21\<close> cycles per millisecond (the configuration allows
  2000000) and events within a second of the present, or events less than \<open>2^31\<close> cycles away: beyond
  that the conversions to \<^verbatim>\<open>int32_t\<close> are undefined. DMA transfers are stated for ranges of at most 64 KB, which
  the source asserts. The chains of the memory manager are bounded by
  the 16-bit segment space, which is what makes its loops end. The memory has at most 3072 MB, as the
  configuration allows, so every RAM address fits 32 bits. Scattered allocations are taken while the free run at the end
  of the page table is longer than every other, because the loop that gathers pages does not stop at the table's end.

  Not modelled. The decoder and the execution cores choose operands by preprocessor tables or emit host
  code; the instruction bodies are modelled as functions of the loaded operands. Memory accesses are modelled
  with paging off, and the headers of the DOS memory blocks are kept apart from the guest's bytes. Protection, tasks
  and paging (and with them the V86 monitor and the mode switches of the VCPI server), the other devices, the BIOS and
  the rest of the DOS kernel are left for later, in this order: the keyboard controller, the timer chip and the CMOS, the
  path and layout logic of the archive drives. Sound and video synthesis, host windows, networking, capture,
  the debugger, the shell, the web server and the Lua bindings are I/O or glue over third-party code.
\<close>

section \<open>From event to interrupt\<close>

text \<open>A run of the queue in which exactly the first event is due and its handler raises a request.\<close>

definition raises :: "nat \<Rightarrow> 'h \<Rightarrow> ('h, 't, 'm) event_code \<Rightarrow> bool" where
  "raises irq h run \<longleftrightarrow> (\<forall>v s. run h v s = Some (s\<lparr>pic := PIC_ActivateIRQ irq (pic s)\<rparr>))"

lemma service_one:
  assumes st: "stored [] (queue s) ((i, h, v) # xs) n" and "dbl (i * of_int (CPU_CycleMax s)) \<le> nd"
    and later: "\<forall>x\<in>set xs. nd < dbl (fst x * of_int (CPU_CycleMax s))" and run: "raises irq h run"
  shows "\<exists>t. service_loop run nd s = Some t \<and> stored [] (queue t) xs (Suc n) \<and> pic t = PIC_ActivateIRQ irq (pic s) \<and>
    CPU_CycleMax t = CPU_CycleMax s \<and> (\<forall>e. next_entry (queue t) = Some e \<longrightarrow> \<not> due nd t e)"
proof -
  obtain e where e: "next_entry (queue s) = Some e" "ev_data (entries (queue s) e) = (i, h, v)" using stored_first [OF st] by blast
  then have h: "pic_event (entries (queue s) e) = h" by (simp add: ev_data_def)
  have d: "due nd s e" using due_iff(1) [OF st e(1)] assms(2) by simp
  define u where "u = (take_entry e s)\<lparr>pic := PIC_ActivateIRQ irq (pic s)\<rparr>"
  have r: "run h w (take_entry e s) = Some u" for w using run by (simp add: raises_def u_def take_entry_def)
  have su: "stored [] (queue (free_slot e u)) xs (Suc n)"
    using free_slot_stored [where s = u and e = e and busy = "[]"] take_stored [OF st e(1)] by (simp add: u_def)
  have fs: "CPU_CycleMax (free_slot e u) = CPU_CycleMax s" "pic (free_slot e u) = PIC_ActivateIRQ irq (pic s)"
    by (simp_all add: free_slot_def u_def)
  have nd: "\<not> due nd (free_slot e u) f" if "next_entry (queue (free_slot e u)) = Some f" for f
    using due_iff(1) [OF su that, of nd] due_iff(2) [OF su that] later fs(1) by (metis hd_in_set linorder_not_le)
  have "service_loop run nd (free_slot e u) = Some (free_slot e u)"
    using nd by (subst service_loop.simps) (auto split: option.split)
  moreover have "service_loop run nd s = service_loop run nd (free_slot e u)"
    using e(1) d h r by (subst service_loop.simps) simp
  ultimately show ?thesis using su fs nd by auto
qed

text \<open>A raised request that outranks every pending one and everything in service is the next delivered.\<close>

lemma raised_delivered:
  assumes inv: "pic_inv p" and irq: "irq < 8" "irq \<noteq> 2" "bit (imrr (primary_controller p)) irq" "irq < active_irq (primary_controller p)"
    and top: "\<forall>j<irq. \<not> bit (possible_irqs (primary_controller p)) j"
  shows "PIC_IRQCheck (PIC_ActivateIRQ irq p) \<noteq> 0"
    "first_irq (possible_irqs (primary_controller (PIC_ActivateIRQ irq p))) (irq_limit (primary_controller (PIC_ActivateIRQ irq p))) = Some irq"
    "vector_base (primary_controller (PIC_ActivateIRQ irq p)) = vector_base (primary_controller p)"
    "hw_interrupts (PIC_ActivateIRQ irq p) = hw_interrupts p"
proof -
  define c where "c = primary_controller p"
  have ok: "ctrl_ok c" "normal_mode c" using inv by (simp_all add: pic_inv_def ctrl_inv_def c_def)
  have isrr: "bit (isrr c) irq" using ok irq(1,4) by (simp add: ctrl_ok_def normal_mode_def bit_not_iff c_def)
  have pc: "primary_controller (PIC_ActivateIRQ irq p) = c\<lparr>irr := irr c OR irq_bit irq\<rparr>"
  proof (cases "irr c AND irq_bit irq = 0")
    case True
    then show ?thesis using irq(1) by (simp add: PIC_ActivateIRQ_def irq_pic_def Let_def raise_irq.simps c_def)
  next
    case False
    then have "bit (irr c) irq" by (simp add: irq_bit_test')
    then have "irr c OR irq_bit irq = irr c" by (auto simp: bit_eq_iff [where ?'a = u8] bit_or_iff bit_irq_bit)
    with False show ?thesis using irq(1) by (simp add: PIC_ActivateIRQ_def irq_pic_def Let_def raise_irq.simps c_def)
  qed
  show "hw_interrupts (PIC_ActivateIRQ irq p) = hw_interrupts p" using book_ops(1) [of irq p] by (simp add: book_def)
  show "vector_base (primary_controller (PIC_ActivateIRQ irq p)) = vector_base (primary_controller p)" by (simp add: pc c_def)
  have first: "first_irq (possible_irqs (primary_controller (PIC_ActivateIRQ irq p))) (irq_limit (primary_controller (PIC_ActivateIRQ irq p))) = Some irq"
    unfolding pc first_irq_Some using irq isrr ok(2) top
    by (auto simp: bit_possible bit_or_iff bit_irq_bit irq_limit_def normal_mode_def c_def)
  then show "first_irq (possible_irqs (primary_controller (PIC_ActivateIRQ irq p))) (irq_limit (primary_controller (PIC_ActivateIRQ irq p))) = Some irq" .
  have "pic_inv (PIC_ActivateIRQ irq p)" by (rule PIC_ActivateIRQ_inv [OF inv irq(2)])
  then show "PIC_IRQCheck (PIC_ActivateIRQ irq p) \<noteq> 0" using first by (auto simp: pic_inv_def deliverable_def first_irq_Some)
qed

text \<open>
  Property C3. From a scheduled event to the CPU. The first pending event is due, no other is, and
  its handler raises a request of the primary controller that is not masked and outranks both the
  pending requests and those in service. Then one run of the queue with interrupts enabled serves
  the event, frees its slot and hands exactly that interrupt to the CPU, at the vector base plus the
  request's number, with the controllers in a state reached in normal mode before the run.
\<close>

theorem event_raises_interrupt:
  assumes reach: "pic_normal_reach (pic s)" and st: "stored [] (queue s) ((i, h, v) # xs) n"
    and M: "0 < CPU_CycleMax s" and nd: "nd = of_int (PIC_TickIndexND s)" and left: "0 < CPU_CycleLeft (pic s) + CPU_Cycles (pic s)"
    and first: "dbl (i * of_int (CPU_CycleMax s)) \<le> nd"
    and later: "\<forall>x\<in>set xs. nd < dbl (fst x * of_int (CPU_CycleMax s)) \<and> dbl (fst x * of_int (CPU_CycleMax s)) - nd \<le> 2 ^ 31 - 1"
    and run: "raises irq h run"
    and irq: "irq < 8" "irq \<noteq> 2" "bit (imrr (primary_controller (pic s))) irq" "irq < active_irq (primary_controller (pic s))"
      "\<forall>j<irq. \<not> bit (possible_irqs (primary_controller (pic s))) j"
  shows "\<exists>t. PIC_RunQueue run True False s = Some (True, t) \<and> stored [] (queue t) xs (Suc n) \<and>
    hw_interrupts (pic t) = hw_interrupts (pic s) @ [unat (vector_base (primary_controller (pic s))) + irq] \<and>
    bit (isr (primary_controller (pic t))) irq \<and> PIC_IRQCheck (pic t) = 0"
proof -
  obtain s3 where s3: "service_start s s3" and r: "PIC_RunQueue run True False s =
     do { s4 \<leftarrow> service_loop run nd s3; let s5 = s4\<lparr>InEventService := False\<rparr>; c \<leftarrow> next_cycles nd s5;
          Some (True, (start_cycles c s5)\<lparr>pic := PIC_runIRQs True False (pic (start_cycles c s5))\<rparr>) }"
    using RunQueue_phases [of s run True False] M left unfolding nd by auto
  let ?p = "(pic s)\<lparr>CPU_CycleLeft := CPU_CycleLeft (pic s) + CPU_Cycles (pic s), CPU_Cycles := 0\<rparr>"
  have q3: "queue s3 = queue s" "CPU_CycleMax s3 = CPU_CycleMax s" "pic s3 = ?p" using s3 by (simp_all add: service_start_def)
  obtain s4 where s4: "service_loop run nd s3 = Some s4" "stored [] (queue s4) xs (Suc n)" "pic s4 = PIC_ActivateIRQ irq ?p"
    "CPU_CycleMax s4 = CPU_CycleMax s" "\<forall>e. next_entry (queue s4) = Some e \<longrightarrow> \<not> due nd s4 e"
    using service_one [of s3 i h v xs n nd irq run] q3 st first later run by auto
  define s5 where "s5 = s4\<lparr>InEventService := False\<rparr>"
  obtain c where c: "next_cycles nd s5 = Some c"
    using next_cycles_defined [of "[]" s5 xs "Suc n" nd] s4 later by (auto simp: s5_def due_def)
  have inv: "pic_inv ?p" using normal_reach_inv [OF reach] by (simp add: pic_inv_scalars)
  note R = raised_delivered [OF inv irq(1,2), simplified, OF irq(3-5)]
  define p where "p = pic (start_cycles c s5)"
  have p: "primary_controller p = primary_controller (PIC_ActivateIRQ irq ?p)" "PIC_IRQCheck p = PIC_IRQCheck (PIC_ActivateIRQ irq ?p)"
    "hw_interrupts p = hw_interrupts (PIC_ActivateIRQ irq ?p)" by (simp_all add: p_def start_cycles_def s5_def s4)
  have run: "PIC_runIRQs True False p = (primary_startIRQ irq p)\<lparr>PIC_IRQCheck := 0\<rparr>"
    using R(1,2) irq(2) by (simp add: PIC_runIRQs_def Let_def p)
  have na: "\<not> auto_eoi (primary_controller (PIC_ActivateIRQ irq ?p))"
    using PIC_ActivateIRQ_inv [OF inv irq(2)] by (simp add: pic_inv_def ctrl_inv_def normal_mode_def)
  define t where "t = (start_cycles c s5)\<lparr>pic := PIC_runIRQs True False p\<rparr>"
  have "PIC_RunQueue run True False s = Some (True, t)" using r s4(1) c by (simp add: s5_def [symmetric] t_def p_def)
  moreover have "queue t = queue s4" by (simp add: t_def start_cycles_def s5_def)
  moreover have "hw_interrupts (pic t) = hw_interrupts (pic s) @ [unat (vector_base (primary_controller (pic s))) + irq]"
    "bit (isr (primary_controller (pic t))) irq" "PIC_IRQCheck (pic t) = 0"
    using R(3,4) na irq(1)
    by (simp_all add: t_def run primary_startIRQ_def CPU_HW_Interrupt_def p start_irq_def Let_def bit_or_iff bit_irq_bit)
  ultimately show ?thesis using s4(2) by auto
qed

text \<open>The event queue of the example holds one due event; its handler raises the keyboard request.\<close>

definition keyboard_events :: "(nat, nat, nat) events" where
  "keyboard_events = due_events\<lparr>pic := PIC_8259A zero_pic\<rparr>"

lemma keyboard_ready:
  "bit (imrr (primary_controller (PIC_8259A zero_pic))) 1" "1 < active_irq (primary_controller (PIC_8259A zero_pic))"
  "\<not> bit (possible_irqs (primary_controller (PIC_8259A zero_pic))) 0"
  "CPU_CycleLeft (PIC_8259A zero_pic) = 3000" "CPU_Cycles (PIC_8259A zero_pic) = 100"
  "vector_base (primary_controller (PIC_8259A zero_pic)) = 8" "hw_interrupts (PIC_8259A zero_pic) = []"
  by code_simp+

theorem event_raises_interrupt_witness:
  "\<exists>t. PIC_RunQueue (\<lambda>h v s. Some (s\<lparr>pic := PIC_ActivateIRQ 1 (pic s)\<rparr>)) True False keyboard_events = Some (True, t) \<and>
     hw_interrupts (pic t) = [9]"
proof -
  have r: "pic_normal_reach (PIC_8259A zero_pic)" by (rule pic_normal_reach.init) (simp add: zero_pic_def)
  have st: "stored [] (queue keyboard_events) [(0, 7, 1)] 511" using due_stored by (simp add: keyboard_events_def)
  have m: "CPU_CycleMax keyboard_events = 3200" "pic keyboard_events = PIC_8259A zero_pic"
    by (simp_all add: keyboard_events_def due_events_def boot_events_def)
  have ra: "raises 1 7 (\<lambda>h v s. Some (s\<lparr>pic := PIC_ActivateIRQ 1 (pic s)\<rparr>))" by (simp add: raises_def)
  show ?thesis
    using event_raises_interrupt [OF _ st _ refl _ _ _ ra, unfolded m keyboard_ready] r keyboard_ready m
    by (auto simp: PIC_TickIndexND_def)
qed

end
